(* ===== verification/Prelude.thy ===== *)
theory Prelude
  imports Main "HOL-Library.Word"
begin

unbundle bit_operations_syntax

text \<open>
  Shared vocabulary of the development.

  The machine types of \<^verbatim>\<open>src/src/types.h\<close> are words of their width. Every C operation that
  can go wrong returns a \<open>result\<close>: \<open>Inl\<close> a \<open>fault\<close> where the C program aborts, reads or writes
  outside an object, reads indeterminate memory, follows a null pointer or never returns, and
  \<open>Inr\<close> the value otherwise. The lemma collections declared here are what the component
  theories extend, and the list and word lemmas are the ones several components share.
\<close>

type_synonym u8 = "8 word"
type_synonym u16 = "16 word"
type_synonym u32 = "32 word"
type_synonym u64 = "64 word"

text \<open>A \<^verbatim>\<open>void *\<close>: containers store either addresses or integers cast to pointers in it.\<close>

type_synonym ptr = "64 word"

abbreviation NULL :: ptr where
  "NULL \<equiv> 0"

datatype fault =
    AssertFail
  | OutOfBounds
  | Uninitialised
  | NullDeref
  | Diverges

type_synonym 'a result = "fault + 'a"

text \<open>Sequencing of fallible steps: the first fault ends the run.\<close>

definition rbind :: "'a result \<Rightarrow> ('a \<Rightarrow> 'b result) \<Rightarrow> 'b result" where
  "rbind r f = (case r of Inl e \<Rightarrow> Inl e | Inr x \<Rightarrow> f x)"

named_theorems vec_ops "definitions of the vector operations"
named_theorems map_ops "definitions of the hash map operations"
named_theorems set_ops "definitions of the hash set operations"

lemma rbind_simps [simp]:
  "rbind (Inl e) f = Inl e"
  "rbind (Inr x) f = f x"
  by (simp_all add: rbind_def)

lemma rbind_eq_Inr [simp]:
  "rbind r f = Inr y \<longleftrightarrow> (\<exists>x. r = Inr x \<and> f x = Inr y)"
  by (cases r) auto

lemma rbind_assoc: "rbind (rbind r f) g = rbind r (\<lambda>x. rbind (f x) g)"
  by (cases r) auto

subsection \<open>Lists\<close>

lemma take_Suc_update:
  "n < length xs \<Longrightarrow> take (Suc n) (xs[n := x]) = take n xs @ [x]"
  by (simp add: take_Suc_conv_app_nth)

lemma nth_take_drop_split:
  "i < length xs \<Longrightarrow> xs = take i xs @ xs ! i # drop (Suc i) xs"
  by (simp add: id_take_nth_drop)

lemma length_filter_update:
  assumes "i < length xs"
  shows "length (filter P (xs[i := x])) + (if P (xs ! i) then 1 else 0) =
    length (filter P xs) + (if P x then 1 else 0)"
proof -
  have "xs[i := x] = take i xs @ x # drop (Suc i) xs"
    using assms by (simp add: upd_conv_take_nth_drop)
  moreover have "length (filter P xs) =
      length (filter P (take i xs @ xs ! i # drop (Suc i) xs))"
    using assms by (simp add: id_take_nth_drop [symmetric])
  ultimately show ?thesis by simp
qed

lemma length_filter_less_ex:
  "length (filter P xs) < length xs \<Longrightarrow> \<exists>i < length xs. \<not> P (xs ! i)"
  by (metis filter_id_conv in_set_conv_nth less_irrefl)

subsection \<open>Words\<close>

lemma unat_and_mask:
  fixes w :: "'a::len word"
  assumes "k < LENGTH('a)"
  shows "unat (w AND mask k) = unat w mod 2 ^ k"
  by (simp add: unsigned_take_bit_eq take_bit_nat_def flip: take_bit_eq_mask)

lemma unat_of_nat_u64: "n < 2 ^ 64 \<Longrightarrow> unat (of_nat n :: u64) = n"
  by (simp add: unat_of_nat)

lemma inj_on_unat: "inj_on unat A"
  by (simp add: inj_on_def word_unat_eq_iff)

lemma unat_succ_and_mask:
  fixes w :: u64
  assumes "k < 64"
  shows "unat ((w + 1) AND mask k) = (unat w + 1) mod 2 ^ k"
proof -
  have "unat (w + 1) mod 2 ^ k = (unat w + 1) mod 2 ^ 64 mod 2 ^ k"
    by (simp add: unat_word_ariths)
  also have "\<dots> = (unat w + 1) mod 2 ^ k"
    using assms by (intro mod_mod_cancel le_imp_power_dvd) simp
  finally show ?thesis
    using assms by (simp add: unat_and_mask)
qed

end
