(* ===== verification/Vec.thy ===== *)
theory Vec
  imports Prelude
begin

text \<open>
  The growable pointer vector of \<^verbatim>\<open>src/src/containers.c\<close> (\<^verbatim>\<open>struct Vec\<close>, \<^verbatim>\<open>vecNew\<close> to
  \<^verbatim>\<open>vecRelease\<close>). The record keeps the C fields; the entries array is a list as long as the
  allocation, whose cells are \<open>None\<close> while they are indeterminate (fresh \<^verbatim>\<open>malloc\<close> memory).
  Sizes are natural numbers: a vector of \<open>2 ^ 61\<close> elements cannot be allocated. The callbacks
  of \<^verbatim>\<open>VecType\<close> are arguments; what an operation hands to the \<^verbatim>\<open>release\<close> callback is returned.
  The abstraction is the list of live elements, and the locale \<open>growable\<close> states what a client
  of the vector relies on.
\<close>

section \<open>Model\<close>

record vec =
  vec_size :: nat
  vec_capacity :: nat
  vec_entries :: "ptr option list"

record vec_type =
  vt_match :: "ptr \<Rightarrow> ptr \<Rightarrow> bool"
  vt_release :: bool

definition vecIntValueMatch :: "ptr \<Rightarrow> ptr \<Rightarrow> bool" where
  "vecIntValueMatch v1 v2 \<longleftrightarrow> v1 = v2"

definition vec_long_type :: vec_type where
  "vec_long_type = \<lparr>vt_match = vecIntValueMatch, vt_release = True\<rparr>"

definition vecUnsignedIntValueMatch :: "ptr \<Rightarrow> ptr \<Rightarrow> bool" where
  "vecUnsignedIntValueMatch v1 v2 \<longleftrightarrow> v1 = v2"

definition vec_unsigned_long_type :: vec_type where
  "vec_unsigned_long_type = \<lparr>vt_match = vecUnsignedIntValueMatch, vt_release = True\<rparr>"

text \<open>A read of cell \<open>i\<close> of the array, as C does it.\<close>

definition cell_at :: "ptr option list \<Rightarrow> nat \<Rightarrow> ptr result" where
  "cell_at es i =
     (if i < length es then (case es ! i of None \<Rightarrow> Inl Uninitialised | Some x \<Rightarrow> Inr x)
      else Inl OutOfBounds)"

definition vecNew :: vec where
  "vecNew = \<lparr>vec_size = 0, vec_capacity = 16, vec_entries = replicate 16 (Some NULL)\<rparr>"

definition vecReserve :: "vec \<Rightarrow> nat \<Rightarrow> vec" where
  "vecReserve v cap =
     (if cap > vec_capacity v
      then v\<lparr>vec_entries := take (vec_size v) (vec_entries v) @ replicate (cap - vec_size v) None,
             vec_capacity := cap\<rparr>
      else v)"

text \<open>The guard all three inserting functions start with.\<close>

definition vec_room :: "vec \<Rightarrow> vec" where
  "vec_room v =
     (if vec_size v + 1 \<ge> vec_capacity v then vecReserve v (vec_capacity v * 2) else v)"

definition vecPush :: "vec \<Rightarrow> ptr \<Rightarrow> vec result" where
  "vecPush v value =
     (let v' = vec_room v
      in if vec_size v' < length (vec_entries v')
         then Inr (v'\<lparr>vec_entries := (vec_entries v')[vec_size v' := Some value],
                      vec_size := vec_size v' + 1\<rparr>)
         else Inl OutOfBounds)"

definition vecPushInt :: "vec \<Rightarrow> u64 \<Rightarrow> vec result" where
  "vecPushInt v value =
     (let v' = vec_room v
      in if vec_size v' < length (vec_entries v')
         then Inr (v'\<lparr>vec_entries := (vec_entries v')[vec_size v' := Some value],
                      vec_size := vec_size v' + 1\<rparr>)
         else Inl OutOfBounds)"

text \<open>The variadic arguments are a list; the first null pointer ends them.\<close>

fun vecNewFrom_loop :: "vec \<Rightarrow> ptr list \<Rightarrow> vec result" where
  "vecNewFrom_loop v [] = Inl OutOfBounds"
| "vecNewFrom_loop v (x # xs) =
     (if x = NULL then Inr v else rbind (vecPush v x) (\<lambda>v'. vecNewFrom_loop v' xs))"

definition vecNewFrom :: "ptr list \<Rightarrow> vec result" where
  "vecNewFrom args = vecNewFrom_loop vecNew args"

text \<open>\<^verbatim>\<open>vecPop\<close> writes \<^verbatim>\<open>*_ok\<close> only on the empty vector: the flag is passed in and out.\<close>

definition vecPop :: "vec \<Rightarrow> bool \<Rightarrow> (vec \<times> ptr \<times> bool) result" where
  "vecPop v ok =
     (if vec_size v = 0 then Inr (v, NULL, False)
      else rbind (cell_at (vec_entries v) (vec_size v - 1))
        (\<lambda>value. Inr (v\<lparr>vec_size := vec_size v - 1\<rparr>, value, ok)))"

text \<open>\<^verbatim>\<open>memmove\<close> of \<open>n\<close> cells from \<open>src\<close> to \<open>dst\<close> inside one array.\<close>

definition cells_move :: "'a list \<Rightarrow> nat \<Rightarrow> nat \<Rightarrow> nat \<Rightarrow> 'a list result" where
  "cells_move es dst src n =
     (if dst + n \<le> length es \<and> src + n \<le> length es
      then Inr (take dst es @ take n (drop src es) @ drop (dst + n) es)
      else Inl OutOfBounds)"

definition release_cells :: "vec_type \<Rightarrow> ptr option list \<Rightarrow> nat list \<Rightarrow> ptr list" where
  "release_cells t es is =
     (if vt_release t then map (\<lambda>i. the (es ! i)) is else [])"

definition vecRemoveAt :: "vec_type \<Rightarrow> vec \<Rightarrow> nat \<Rightarrow> (vec \<times> ptr list \<times> bool) result" where
  "vecRemoveAt t v idx =
     (if idx \<ge> vec_size v then Inr (v, [], False)
      else rbind (cell_at (vec_entries v) idx) (\<lambda>_.
        let elements_to_move = vec_size v - idx - 1 in
        rbind (if elements_to_move > 0
               then cells_move (vec_entries v) idx (idx + 1) elements_to_move
               else Inr (vec_entries v))
          (\<lambda>es. Inr (v\<lparr>vec_entries := es, vec_size := vec_size v - 1\<rparr>,
                     release_cells t (vec_entries v) [idx], True))))"

text \<open>The search loops of \<^verbatim>\<open>vecRemove\<close> and \<^verbatim>\<open>vecHas\<close>: the first index whose element matches.\<close>

fun vec_find :: "vec_type \<Rightarrow> ptr option list \<Rightarrow> ptr \<Rightarrow> nat \<Rightarrow> nat \<Rightarrow> nat option result" where
  "vec_find t es value i 0 = Inr None"
| "vec_find t es value i (Suc n) =
     rbind (cell_at es i) (\<lambda>x.
       if vt_match t x value then Inr (Some i) else vec_find t es value (Suc i) n)"

definition vecRemove :: "vec_type \<Rightarrow> vec \<Rightarrow> ptr \<Rightarrow> (vec \<times> ptr list \<times> bool) result" where
  "vecRemove t v value =
     rbind (vec_find t (vec_entries v) value 0 (vec_size v)) (\<lambda>found.
       case found of
         None \<Rightarrow> Inr (v, [], False)
       | Some idx \<Rightarrow>
           (let elements_to_move = vec_size v - idx - 1 in
            rbind (if elements_to_move > 0
                   then cells_move (vec_entries v) idx (idx + 1) elements_to_move
                   else Inr (vec_entries v))
              (\<lambda>es. Inr (v\<lparr>vec_entries := es, vec_size := vec_size v - 1\<rparr>,
                         release_cells t (vec_entries v) [idx], True))))"

text \<open>
  For an index past the size the unsigned difference \<^verbatim>\<open>size - idx\<close> wraps and the move leaves
  the array.
\<close>

definition vecInsertAt :: "vec \<Rightarrow> ptr \<Rightarrow> nat \<Rightarrow> vec result" where
  "vecInsertAt v value idx =
     (let v' = vec_room v
      in if idx > vec_size v' then Inl OutOfBounds
         else rbind (cells_move (vec_entries v') (idx + 1) idx (vec_size v' - idx))
           (\<lambda>es. if idx < length es
                 then Inr (v'\<lparr>vec_entries := es[idx := Some value], vec_size := vec_size v' + 1\<rparr>)
                 else Inl OutOfBounds))"

definition vecGetAt :: "vec \<Rightarrow> nat \<Rightarrow> ptr result" where
  "vecGetAt v idx = cell_at (vec_entries v) idx"

definition vecHas :: "vec_type \<Rightarrow> vec \<Rightarrow> ptr \<Rightarrow> bool result" where
  "vecHas t v needle =
     rbind (vec_find t (vec_entries v) needle 0 (vec_size v)) (\<lambda>found. Inr (found \<noteq> None))"

definition vecClear :: "vec_type \<Rightarrow> vec \<Rightarrow> vec \<times> ptr list" where
  "vecClear t v =
     (if vec_size v \<noteq> 0
      then (v\<lparr>vec_size := 0\<rparr>, release_cells t (vec_entries v) [0..<vec_size v])
      else (v, []))"

lemmas [vec_ops] = vecNew_def vecReserve_def vecPush_def vecPushInt_def vecPop_def
  vecRemoveAt_def vecRemove_def vecInsertAt_def vecGetAt_def vecHas_def vecClear_def

section \<open>Invariant and abstraction\<close>

definition vec_inv :: "vec \<Rightarrow> bool" where
  "vec_inv v \<longleftrightarrow> 0 < vec_capacity v \<and> length (vec_entries v) = vec_capacity v \<and>
     vec_size v \<le> vec_capacity v \<and> list_all (\<lambda>c. c \<noteq> None) (take (vec_size v) (vec_entries v))"

definition vec_list :: "vec \<Rightarrow> ptr list" where
  "vec_list v = map the (take (vec_size v) (vec_entries v))"

lemma vec_rep:
  assumes "vec_inv v"
  obtains rest where "vec_entries v = map Some (vec_list v) @ rest"
    and "vec_size v = length (vec_list v)"
    and "vec_capacity v = length (vec_list v) + length rest"
    and "0 < length (vec_list v) + length rest"
proof
  let ?xs = "take (vec_size v) (vec_entries v)"
  have all: "\<forall>c \<in> set ?xs. c \<noteq> None" and len: "length (vec_entries v) = vec_capacity v"
    and sz: "vec_size v \<le> vec_capacity v" and pos: "0 < vec_capacity v"
    using assms by (auto simp: vec_inv_def list_all_iff)
  have "map Some (map the ?xs) = ?xs"
    using all by (auto intro!: map_idI)
  then show "vec_entries v = map Some (vec_list v) @ drop (vec_size v) (vec_entries v)"
    by (simp add: vec_list_def)
  show "vec_size v = length (vec_list v)"
    using sz len by (simp add: vec_list_def)
  then show "vec_capacity v = length (vec_list v) + length (drop (vec_size v) (vec_entries v))"
    using sz len by simp
  with pos show "0 < length (vec_list v) + length (drop (vec_size v) (vec_entries v))"
    by simp
qed

lemma vec_repI:
  assumes "vec_entries v = map Some xs @ rest" "vec_size v = length xs"
    "vec_capacity v = length xs + length rest" "0 < vec_capacity v"
  shows "vec_inv v \<and> vec_list v = xs"
  using assms by (auto simp: vec_inv_def vec_list_def list_all_iff comp_def)

lemma length_vec_list: "vec_inv v \<Longrightarrow> length (vec_list v) = vec_size v"
  by (simp add: vec_inv_def vec_list_def)

lemma cell_at_rep: "i < length xs \<Longrightarrow> cell_at (map Some xs @ rest) i = Inr (xs ! i)"
  by (simp add: cell_at_def nth_append)

lemma vecNew_inv: "vec_inv vecNew" "vec_list vecNew = []"
  by (simp_all add: vecNew_def vec_inv_def vec_list_def)

text \<open>Growing before a write: the contents stay and a free cell is there afterwards.\<close>

lemma vec_grow_rep:
  assumes "vec_inv v" and "v' = vec_room v"
  obtains c rest where "vec_entries v' = map Some (vec_list v) @ c # rest"
    and "vec_size v' = length (vec_list v)"
    and "vec_capacity v' = length (vec_list v) + 1 + length rest"
proof -
  obtain rest where r: "vec_entries v = map Some (vec_list v) @ rest"
    "vec_size v = length (vec_list v)" "vec_capacity v = length (vec_list v) + length rest"
    "0 < length (vec_list v) + length rest"
    using assms(1) by (rule vec_rep)
  show thesis
  proof (cases "vec_size v + 1 \<ge> vec_capacity v")
    case True
    define n where "n = vec_capacity v * 2 - vec_size v"
    have "0 < n" using r by (simp add: n_def)
    then obtain m where m: "n = Suc m" using gr0_conv_Suc by blast
    have ent: "vec_entries v' = map Some (vec_list v) @ replicate n None"
      using True r assms(2) by (simp add: vec_room_def vecReserve_def n_def)
    have cap: "vec_capacity v' = length (vec_list v) + n"
      using True r assms(2) by (simp add: vec_room_def vecReserve_def n_def)
    show thesis
      using that [of None "replicate m None"] ent cap True r assms(2) m
      by (simp add: vec_room_def vecReserve_def)
  next
    case False
    then show thesis
      using that r assms(2) by (cases rest) (auto simp: vec_room_def)
  qed
qed


section \<open>Every operation against the list of elements\<close>

lemma vecPush_rep:
  assumes "vec_inv v"
  obtains v' where "vecPush v x = Inr v'" "vec_inv v'" "vec_list v' = vec_list v @ [x]"
proof -
  obtain c rest where
    r: "vec_entries (vec_room v) = map Some (vec_list v) @ c # rest"
       "vec_size (vec_room v) = length (vec_list v)"
       "vec_capacity (vec_room v) = length (vec_list v) + 1 + length rest"
    using assms refl by (rule vec_grow_rep)
  define v' where "v' = (vec_room v)
    \<lparr>vec_entries := (vec_entries (vec_room v))[vec_size (vec_room v) := Some x],
     vec_size := vec_size (vec_room v) + 1\<rparr>"
  have "vecPush v x = Inr v'"
    using r by (simp add: vecPush_def v'_def Let_def)
  moreover have "vec_entries v' = map Some (vec_list v @ [x]) @ rest"
    using r by (simp add: v'_def list_update_append)
  then have "vec_inv v' \<and> vec_list v' = vec_list v @ [x]"
    using r by (intro vec_repI [where rest = rest]) (auto simp: v'_def)
  ultimately show thesis using that by blast
qed

lemma vecPushInt_eq: "vecPushInt = vecPush"
  by (simp add: fun_eq_iff vecPushInt_def vecPush_def)

lemma vecPop_rep:
  assumes "vec_inv v" "vec_list v = xs @ [x]"
  shows "\<exists>v'. vecPop v ok = Inr (v', x, ok) \<and> vec_inv v' \<and> vec_list v' = xs"
proof -
  obtain rest where r: "vec_entries v = map Some (xs @ [x]) @ rest"
    "vec_size v = length xs + 1" "vec_capacity v = length xs + 1 + length rest"
    using assms by (auto elim: vec_rep)
  define v' where "v' = v\<lparr>vec_size := vec_size v - 1\<rparr>"
  have "vec_inv v' \<and> vec_list v' = xs"
    using r by (intro vec_repI [where rest = "Some x # rest"]) (auto simp: v'_def)
  moreover have "vecPop v ok = Inr (v', x, ok)"
    using r by (simp add: vecPop_def v'_def cell_at_def nth_append)
  ultimately show ?thesis by blast
qed

text \<open>Closing the gap after a removal: the two removal functions share this step.\<close>

lemma drop_to_last: "drop (length zs) (x # zs @ rest) = last (x # zs) # rest"
  by (induction zs arbitrary: x) auto

lemma cells_close_gap:
  "(if length zs > 0
    then cells_move (map Some (ys @ x # zs) @ rest) (length ys) (length ys + 1) (length zs)
    else Inr (map Some (ys @ x # zs) @ rest)) =
   Inr (map Some (ys @ zs) @ last (Some x # map Some zs) # rest)"
proof (cases "zs = []")
  case False
  have "drop (length ys + length zs) (map Some (ys @ x # zs) @ rest) =
      last (Some x # map Some zs) # rest"
    using drop_to_last [of "map Some zs" "Some x" rest] by simp
  with False show ?thesis
    by (simp add: cells_move_def)
qed simp

lemma vecRemoveAt_rep:
  assumes "vec_inv v" "vec_list v = ys @ x # zs"
  shows "\<exists>v'. vecRemoveAt t v (length ys) = Inr (v', if vt_release t then [x] else [], True) \<and>
    vec_inv v' \<and> vec_list v' = ys @ zs"
proof -
  obtain rest where r: "vec_entries v = map Some (ys @ x # zs) @ rest"
    "vec_size v = length ys + 1 + length zs"
    "vec_capacity v = length ys + 1 + length zs + length rest"
    using assms by (auto elim: vec_rep)
  define v' where "v' = v\<lparr>vec_entries := map Some (ys @ zs) @ last (Some x # map Some zs) # rest,
    vec_size := vec_size v - 1\<rparr>"
  have "vec_inv v' \<and> vec_list v' = ys @ zs"
    using r by (intro vec_repI [where rest = "last (Some x # map Some zs) # rest"])
      (auto simp: v'_def)
  moreover have "vecRemoveAt t v (length ys) = Inr (v', if vt_release t then [x] else [], True)"
    using r cells_close_gap [of zs ys x rest]
    by (cases "zs = []") (simp_all add: vecRemoveAt_def v'_def cell_at_def nth_append
        release_cells_def Let_def)
  ultimately show ?thesis by blast
qed

lemma vec_find_rep:
  assumes "i + n = length xs"
  shows "vec_find t (map Some xs @ rest) value i n =
    Inr (find (\<lambda>j. vt_match t (xs ! j) value) [i..<length xs])"
  using assms
proof (induction n arbitrary: i)
  case (Suc n)
  then have "[i..<length xs] = i # [Suc i..<length xs]"
    by (simp add: upt_conv_Cons)
  with Suc show ?case by (simp add: cell_at_rep)
qed simp

lemma find_append_None: "find P xs = None \<Longrightarrow> find P (xs @ ys) = find P ys"
  by (induction xs) (auto split: if_splits)

lemma find_upt_first:
  assumes "\<forall>y \<in> set ys. \<not> P y" "P x"
  shows "find (\<lambda>j. P ((ys @ x # zs) ! j)) [0..<length (ys @ x # zs)] = Some (length ys)"
proof -
  have "[0..<length (ys @ x # zs)] = [0..<length ys] @ length ys # [Suc (length ys)..<length (ys @ x # zs)]"
    by (metis le_add1 length_append upt_add_eq_append upt_conv_Cons add_0 length_Cons
        less_add_Suc1 add_Suc_right)
  moreover have "find (\<lambda>j. P ((ys @ x # zs) ! j)) [0..<length ys] = None"
    using assms(1) by (auto simp: find_None_iff nth_append)
  ultimately show ?thesis
    using assms(2) by (simp add: find_append_None)
qed

lemma vecRemove_rep:
  assumes "vec_inv v" "vec_list v = ys @ x # zs"
    and "\<forall>y \<in> set ys. \<not> vt_match t y value" "vt_match t x value"
  shows "vecRemove t v value = vecRemoveAt t v (length ys)"
proof -
  obtain rest where r: "vec_entries v = map Some (ys @ x # zs) @ rest"
    "vec_size v = length (ys @ x # zs)"
    using assms(1,2) by (auto elim: vec_rep)
  have "vec_find t (vec_entries v) value 0 (vec_size v) = Inr (Some (length ys))"
    unfolding r
    using vec_find_rep [of 0 "length (ys @ x # zs)" "ys @ x # zs" t rest "value"]
      find_upt_first [of ys "\<lambda>y. vt_match t y value" x zs] assms(3,4)
    by simp
  moreover have "cell_at (vec_entries v) (length ys) = Inr x" "length ys < vec_size v"
    using r by (simp_all add: cell_at_def nth_append)
  ultimately show ?thesis
    by (simp add: vecRemove_def vecRemoveAt_def)
qed

lemma vec_find_list:
  assumes "vec_inv v"
  shows "vec_find t (vec_entries v) value 0 (vec_size v) =
    Inr (find (\<lambda>j. vt_match t (vec_list v ! j) value) [0..<length (vec_list v)])"
proof -
  obtain rest where "vec_entries v = map Some (vec_list v) @ rest" "vec_size v = length (vec_list v)"
    using assms by (rule vec_rep)
  then show ?thesis by (simp add: vec_find_rep)
qed

lemma vecHas_rep:
  assumes "vec_inv v"
  shows "vecHas t v needle = Inr (\<exists>x \<in> set (vec_list v). vt_match t x needle)"
proof -
  have "(find (\<lambda>j. vt_match t (vec_list v ! j) needle) [0..<length (vec_list v)] \<noteq> None) =
      (\<exists>x \<in> set (vec_list v). vt_match t x needle)"
    by (auto simp: find_None_iff in_set_conv_nth Bex_def)
  then show ?thesis
    using assms by (simp add: vecHas_def vec_find_list)
qed

lemma vecRemove_absent:
  assumes "vec_inv v" "\<forall>x \<in> set (vec_list v). \<not> vt_match t x value"
  shows "vecRemove t v value = Inr (v, [], False)"
proof -
  have "find (\<lambda>j. vt_match t (vec_list v ! j) value) [0..<length (vec_list v)] = None"
    using assms(2) by (auto simp: find_None_iff)
  then show ?thesis
    using assms(1) by (simp add: vecRemove_def vec_find_list)
qed

lemma vecInsertAt_rep:
  assumes "vec_inv v" "vec_list v = ys @ zs"
  shows "\<exists>v'. vecInsertAt v x (length ys) = Inr v' \<and> vec_inv v' \<and> vec_list v' = ys @ x # zs"
proof -
  obtain c rest where
    r: "vec_entries (vec_room v) = map Some (ys @ zs) @ c # rest"
       "vec_size (vec_room v) = length ys + length zs"
       "vec_capacity (vec_room v) = length ys + length zs + 1 + length rest"
    using vec_grow_rep [OF assms(1) refl] assms(2) by (metis length_append)
  let ?es = "map Some ys @ last (c # rev (map Some zs)) # map Some zs @ rest"
  have move: "\<exists>d. cells_move (vec_entries (vec_room v)) (length ys + 1) (length ys) (length zs) =
      Inr (map Some ys @ d # map Some zs @ rest)"
    using r by (cases zs) (auto simp: cells_move_def)
  then obtain d where
    d: "cells_move (vec_entries (vec_room v)) (length ys + 1) (length ys) (length zs) =
      Inr (map Some ys @ d # map Some zs @ rest)" by blast
  define v' where "v' = (vec_room v)\<lparr>vec_entries := map Some (ys @ x # zs) @ rest,
    vec_size := length ys + length zs + 1\<rparr>"
  have "vecInsertAt v x (length ys) = Inr v'"
    using r d by (simp add: vecInsertAt_def v'_def list_update_append)
  moreover have "vec_inv v' \<and> vec_list v' = ys @ x # zs"
    using r by (intro vec_repI [where rest = rest]) (auto simp: v'_def)
  ultimately show ?thesis by blast
qed

lemma vecGetAt_rep:
  assumes "vec_inv v" "i < length (vec_list v)"
  shows "vecGetAt v i = Inr (vec_list v ! i)"
  using assms by (metis vec_rep vecGetAt_def cell_at_rep)

lemma vecClear_rep:
  assumes "vec_inv v"
  shows "vec_inv (fst (vecClear t v)) \<and> vec_list (fst (vecClear t v)) = [] \<and>
    snd (vecClear t v) = (if vt_release t then vec_list v else [])"
  using assms
  by (auto simp: vecClear_def vec_inv_def vec_list_def release_cells_def nth_take
      intro!: nth_equalityI)

section \<open>The interface clients rely on\<close>

text \<open>
  A growable sequence: appending never faults on a well-formed value and adds one element at
  the end, and every index below the length reads the element of the list.
\<close>

locale growable =
  fixes empty :: 's
    and push :: "'s \<Rightarrow> 'a \<Rightarrow> 's result"
    and get :: "'s \<Rightarrow> nat \<Rightarrow> 'a result"
    and elems :: "'s \<Rightarrow> 'a list"
    and wf :: "'s \<Rightarrow> bool"
  assumes wf_empty: "wf empty"
    and elems_empty: "elems empty = []"
    and push_ok: "wf s \<Longrightarrow> \<exists>s'. push s x = Inr s' \<and> wf s' \<and> elems s' = elems s @ [x]"
    and get_ok: "wf s \<Longrightarrow> i < length (elems s) \<Longrightarrow> get s i = Inr (elems s ! i)"
begin

lemma push_then_get:
  assumes "wf s" "push s x = Inr s'" "i \<le> length (elems s)"
  shows "get s' i = Inr (if i < length (elems s) then elems s ! i else x)"
proof -
  have "wf s'" "elems s' = elems s @ [x]"
    using push_ok [OF assms(1), of x] assms(2) by auto
  then show ?thesis
    using get_ok [of s' i] assms(3) by (auto simp: nth_append)
qed

text \<open>A loop of appends.\<close>

lemma pushes:
  assumes "wf s"
  shows "\<exists>s'. foldl (\<lambda>r x. rbind r (\<lambda>s. push s x)) (Inr s) xs = Inr s' \<and> wf s' \<and>
    elems s' = elems s @ xs"
  using assms
proof (induction xs arbitrary: s)
  case (Cons x xs)
  obtain s1 where "push s x = Inr s1" "wf s1" "elems s1 = elems s @ [x]"
    using push_ok [OF Cons.prems, of x] by blast
  with Cons.IH [of s1] show ?case by auto
qed simp

end

interpretation vecs: growable vecNew vecPush vecGetAt vec_list vec_inv
proof
  show "vec_inv vecNew" "vec_list vecNew = []" by (rule vecNew_inv)+
  show "\<exists>s'. vecPush s x = Inr s' \<and> vec_inv s' \<and> vec_list s' = vec_list s @ [x]"
    if "vec_inv s" for s x
    using vecPush_rep [OF that, of x] by blast
qed (rule vecGetAt_rep)

lemma vecNewFrom_loop_pushes:
  "NULL \<notin> set xs \<Longrightarrow>
   vecNewFrom_loop v (xs @ NULL # ys) = foldl (\<lambda>r x. rbind r (\<lambda>v. vecPush v x)) (Inr v) xs"
proof (induction xs arbitrary: v)
  case (Cons x xs)
  have fault: "foldl (\<lambda>r x. rbind r (\<lambda>v. vecPush v x)) (Inl e) zs = Inl e" for e zs
    by (induction zs) auto
  show ?case
    using Cons by (cases "vecPush v x") (auto simp: fault)
qed simp

section \<open>Properties\<close>

text \<open>
  \<^verbatim>\<open>vecNewFrom\<close> builds the vector of exactly its arguments up to the null terminator, in order,
  growing the array as needed.
\<close>

theorem vecNewFrom_collects:
  assumes "NULL \<notin> set xs"
  shows "\<exists>v. vecNewFrom (xs @ NULL # ys) = Inr v \<and> vec_inv v \<and> vec_list v = xs"
  using vecs.pushes [OF vecs.wf_empty, of xs] vecNewFrom_loop_pushes [OF assms, of vecNew ys]
  by (simp add: vecNewFrom_def vecs.elems_empty)

theorem vecNewFrom_collects_witness:
  "\<exists>v. vecNewFrom [7, 8, 0, 9] = Inr v \<and> vec_inv v \<and> vec_list v = [7, 8]"
  using vecNewFrom_collects [of "[7, 8]" "[9]"] by simp

text \<open>
  Insertion and removal by index are inverse on well-formed vectors: \<^verbatim>\<open>vecInsertAt\<close> at any index
  up to the size makes room and puts the element there, \<^verbatim>\<open>vecGetAt\<close> reads it back, and \<^verbatim>\<open>vecRemoveAt\<close>
  at that index restores the contents and hands the element to the release callback.
\<close>

theorem vecInsertAt_vecRemoveAt:
  assumes "vec_inv v" "i \<le> length (vec_list v)"
  shows "\<exists>v1 v2. vecInsertAt v x i = Inr v1 \<and> vec_inv v1 \<and>
    vec_list v1 = take i (vec_list v) @ x # drop i (vec_list v) \<and> vecGetAt v1 i = Inr x \<and>
    vecRemoveAt t v1 i = Inr (v2, if vt_release t then [x] else [], True) \<and> vec_inv v2 \<and>
    vec_list v2 = vec_list v"
proof -
  let ?ys = "take i (vec_list v)" and ?zs = "drop i (vec_list v)"
  have len: "length ?ys = i" using assms(2) by simp
  obtain v1 where v1: "vecInsertAt v x i = Inr v1" "vec_inv v1" "vec_list v1 = ?ys @ x # ?zs"
    using vecInsertAt_rep [OF assms(1), of ?ys ?zs x] len by auto
  have "vecGetAt v1 i = Inr x"
    using vecGetAt_rep [OF v1(2), of i] v1(3) len by (simp add: nth_append)
  with v1 vecRemoveAt_rep [OF v1(2,3), of t] len show ?thesis by auto
qed

theorem vecInsertAt_vecRemoveAt_witness:
  "\<exists>v1 v2. vecInsertAt vecNew 5 0 = Inr v1 \<and> vecGetAt v1 0 = Inr 5 \<and>
    vecRemoveAt vec_unsigned_long_type v1 0 = Inr (v2, [5], True) \<and> vec_list v2 = []"
  using vecInsertAt_vecRemoveAt [of vecNew 0 5 vec_unsigned_long_type] vecNew_inv
  by (auto simp: vec_unsigned_long_type_def)

text \<open>
  \<^verbatim>\<open>vecRemove\<close> takes out the first element that matches and nothing else, closes the gap, and
  returns true; without a match it returns false and leaves the vector alone. \<^verbatim>\<open>vecHas\<close> answers
  whether an element matches.
\<close>

theorem vecRemove_first_match:
  assumes "vec_inv v"
  shows "vecHas t v x = Inr (\<exists>y \<in> set (vec_list v). vt_match t y x) \<and>
    ((\<forall>y \<in> set (vec_list v). \<not> vt_match t y x) \<and> vecRemove t v x = Inr (v, [], False) \<or>
     (\<exists>ys y zs v'. vec_list v = ys @ y # zs \<and> vt_match t y x \<and> (\<forall>z \<in> set ys. \<not> vt_match t z x) \<and>
       vecRemove t v x = Inr (v', if vt_release t then [y] else [], True) \<and> vec_inv v' \<and>
       vec_list v' = ys @ zs))"
proof (cases "\<exists>y \<in> set (vec_list v). vt_match t y x")
  case True
  then obtain ys y zs where s: "vec_list v = ys @ y # zs" "vt_match t y x"
    "\<forall>z \<in> set ys. \<not> vt_match t z x"
    using split_list_first_prop [of "vec_list v" "\<lambda>y. vt_match t y x"] by blast
  obtain v' where "vecRemove t v x = Inr (v', if vt_release t then [y] else [], True)" "vec_inv v'"
    "vec_list v' = ys @ zs"
    using vecRemoveAt_rep [OF assms s(1), of t] vecRemove_rep [OF assms s(1,3,2)] by auto
  with s show ?thesis by (auto simp: vecHas_rep [OF assms])
qed (use assms in \<open>auto simp: vecHas_rep vecRemove_absent\<close>)

theorem vecRemove_first_match_witness:
  "let v = \<lparr>vec_size = 3, vec_capacity = 4, vec_entries = [Some 7, Some 8, Some 7, None]\<rparr> in
   vecHas vec_long_type v 8 = Inr True \<and>
   (\<exists>ys y zs v'. vec_list v = ys @ y # zs \<and> vt_match vec_long_type y 8 \<and>
     vecRemove vec_long_type v 8 = Inr (v', [y], True) \<and> vec_list v' = ys @ zs)"
proof -
  let ?v = "\<lparr>vec_size = 3, vec_capacity = 4, vec_entries = [Some 7, Some 8, Some 7, None]\<rparr> :: vec"
  have "vec_inv ?v" by (simp add: vec_inv_def)
  moreover have "vec_list ?v = [7, 8, 7]" by (simp add: vec_list_def numeral_3_eq_3)
  moreover have "vt_match vec_long_type 8 8" "vt_release vec_long_type"
    by (simp_all add: vec_long_type_def vecIntValueMatch_def)
  ultimately show ?thesis
    using vecRemove_first_match [of ?v vec_long_type 8] by (auto simp: Let_def)
qed

end
