(* ===== verification/Murmur.thy ===== *)
theory Murmur
  imports Prelude
begin

text \<open>
  The string hash of \<^verbatim>\<open>src/src/aostr.c\<close> (\<^verbatim>\<open>murmur\<close>, \<^verbatim>\<open>cstringMurmur\<close>), on the bytes it reads. An
  eight-byte block is read as a little-endian word, as on the x86-64 and AArch64 hosts the
  compiler supports. C strings live in a heap that gives, for every address, the bytes from
  that address to the end of its object.
\<close>

definition murmur_c1 :: u64 where
  "murmur_c1 = 0x87c37b91114253d5"

definition murmur_c2 :: u64 where
  "murmur_c2 = 0x4cf5ad432745937f"

definition murmur_rot :: "u64 \<Rightarrow> nat \<Rightarrow> nat \<Rightarrow> u64" where
  "murmur_rot x n1 n2 = push_bit n1 x OR drop_bit n2 x"

fun le_word :: "u8 list \<Rightarrow> u64" where
  "le_word [] = 0"
| "le_word (b # bs) = ucast b OR push_bit 8 (le_word bs)"

text \<open>The body loop over the \<open>nblocks\<close> full blocks.\<close>

fun murmur_body :: "nat \<Rightarrow> u8 list \<Rightarrow> u64 \<Rightarrow> u64 \<Rightarrow> u64 \<times> u64" where
  "murmur_body 0 data h1 h2 = (h1, h2)"
| "murmur_body (Suc n) data h1 h2 =
     (let k1 = le_word (take 8 data);
          k1 = k1 * murmur_c1;
          k1 = murmur_rot k1 31 33;
          k1 = k1 * murmur_c2;
          h1 = h1 XOR k1;
          h1 = murmur_rot h1 27 37;
          h1 = h1 + h2;
          h1 = h1 * 5 + 0x52dce729;
          h2 = h2 XOR k1;
          h2 = murmur_rot h2 41 23;
          h2 = h2 + h1;
          h2 = h2 * 5 + 0x38495ab5
      in murmur_body n (drop 8 data) h1 h2)"

text \<open>The fall-through switch over the remaining bytes, the highest one first.\<close>

fun murmur_tail :: "nat \<Rightarrow> u8 list \<Rightarrow> u64 \<Rightarrow> u64" where
  "murmur_tail 0 tail k1 = k1"
| "murmur_tail (Suc n) tail k1 =
     murmur_tail n tail (k1 XOR push_bit (8 * n) (ucast (tail ! n)))"

definition murmur_mix :: "u64 \<Rightarrow> u64" where
  "murmur_mix h =
     (let h = h XOR drop_bit 33 h;
          h = h * 0xff51afd7ed558ccd;
          h = h XOR drop_bit 33 h;
          h = h * 0xc4ceb9fe1a85ec53
      in h XOR drop_bit 33 h)"

definition murmur :: "u8 list \<Rightarrow> u64 \<Rightarrow> u64" where
  "murmur data seed =
     (let len = length data;
          nblocks = len div 8;
          (h1, h2) = murmur_body nblocks data seed seed;
          tail = drop (nblocks * 8) data;
          k1 = murmur_tail (len mod 8) tail 0;
          k1 = murmur_rot (k1 * murmur_c1) 31 33 * murmur_c2;
          h1 = (if len mod 8 = 0 then h1 else h1 XOR k1);
          h1 = h1 XOR of_nat len;
          h2 = h2 XOR of_nat len;
          h1 = h1 + h2;
          h2 = h2 + h1;
          h1 = murmur_mix h1;
          h2 = murmur_mix h2
      in h1 + h2)"

definition MURMUR_HASH_SEED :: u64 where
  "MURMUR_HASH_SEED = 0xBABECAFE69"

definition cstringMurmur :: "u8 list \<Rightarrow> u64" where
  "cstringMurmur data = murmur data MURMUR_HASH_SEED"

section \<open>C strings in memory\<close>

type_synonym cheap = "ptr \<Rightarrow> u8 list"

definition cstrlen :: "cheap \<Rightarrow> ptr \<Rightarrow> nat" where
  "cstrlen h p = length (takeWhile (\<lambda>b. b \<noteq> 0) (h p))"

definition cbytes :: "cheap \<Rightarrow> ptr \<Rightarrow> nat \<Rightarrow> u8 list" where
  "cbytes h p n = take n (h p)"

definition cstring_at :: "cheap \<Rightarrow> ptr \<Rightarrow> u8 list" where
  "cstring_at h p = takeWhile (\<lambda>b. b \<noteq> 0) (h p)"

lemma cbytes_strlen: "cbytes h p (cstrlen h p) = cstring_at h p"
  by (simp add: cbytes_def cstrlen_def cstring_at_def takeWhile_eq_take [symmetric])

text \<open>Rotations of the hash lose no bit: the two shift amounts of every use add to 64.\<close>

lemma murmur_rot_eq:
  assumes "n1 + n2 = 64" "n1 < 64"
  shows "murmur_rot x n1 n2 = word_rotl n1 x"
proof (rule bit_word_eqI)
  fix i assume i: "i < LENGTH(64)"
  show "bit (murmur_rot x n1 n2) i = bit (word_rotl n1 x) i"
  proof (cases "n1 \<le> i")
    case True
    have "(i + (64 - n1)) mod 64 = i - n1"
      using True assms i by (simp add: mod_if)
    moreover have "\<not> bit x (n2 + i)"
      using True assms by (intro notI) (drule bit_imp_le_length, simp)
    ultimately show ?thesis
      using True assms i by (simp add: murmur_rot_def bit_simps)
  next
    case False
    then have "i + (64 - n1) = n2 + i" "n2 + i < 64"
      using assms i by linarith+
    then have "(i + (64 - n1)) mod 64 = n2 + i"
      by simp
    then show ?thesis
      using False assms i by (simp add: murmur_rot_def bit_simps)
  qed
qed

end
