(* ===== verification/HashMap.thy ===== *)
theory HashMap
  imports Vec Murmur
begin

text \<open>
  The open-addressing hash map of \<^verbatim>\<open>src/src/containers.c\<close> (\<^verbatim>\<open>struct Map\<close>, \<^verbatim>\<open>mapNew\<close> to
  \<^verbatim>\<open>mapIterNext\<close>): linear probing over a power-of-two table, tombstones for removed entries, an
  insertion-ordered vector of slot numbers, a one-entry lookup cache and a chain of parent maps.
  Keys are pointers (or integers cast to pointers) compared by the callbacks of the map type;
  a value is \<open>None\<close> for the null pointer. The 0/1 outcome of the allocations of a resize is
  an argument. A probe loop has the table length as fuel: it visits every slot once in that
  many steps, so running out of fuel is an endless loop of the C code.
\<close>

section \<open>Model\<close>

definition MAP_FLAG_FREE :: u32 where "MAP_FLAG_FREE = 1"

definition MAP_FLAG_TAKEN :: u32 where "MAP_FLAG_TAKEN = 2"

definition MAP_FLAG_DELETED :: u32 where "MAP_FLAG_DELETED = 4"

record 'v map_node =
  nd_flags :: u32
  nd_key :: ptr
  nd_value :: "'v option"
  nd_key_len :: u64

record map_type =
  mt_match :: "ptr \<Rightarrow> ptr \<Rightarrow> bool"
  mt_hash :: "ptr \<Rightarrow> u64"
  mt_get_key_len :: "ptr \<Rightarrow> u64"
  mt_key_release :: bool
  mt_value_release :: bool
  mt_key_is_cstring :: bool
  mt_heap :: cheap

record 'v hmap =
  hm_size :: nat
  hm_capacity :: nat
  hm_mask :: u64
  hm_threashold :: nat
  hm_entries :: "'v map_node list"
  hm_indexes :: vec
  hm_cached_key :: ptr
  hm_cached_idx :: u64

definition nd_free :: "'v map_node \<Rightarrow> bool" where
  "nd_free n \<longleftrightarrow> nd_flags n AND (MAP_FLAG_FREE OR MAP_FLAG_DELETED) \<noteq> 0"

definition nd_taken :: "'v map_node \<Rightarrow> bool" where
  "nd_taken n \<longleftrightarrow> nd_flags n AND MAP_FLAG_TAKEN \<noteq> 0"

definition nd_deleted :: "'v map_node \<Rightarrow> bool" where
  "nd_deleted n \<longleftrightarrow> nd_flags n AND MAP_FLAG_DELETED \<noteq> 0"

text \<open>A node after \<^verbatim>\<open>memset(entries, 1, ...)\<close>: every byte is 1; the value field is never read.\<close>

definition node_memset1 :: "'v map_node" where
  "node_memset1 = \<lparr>nd_flags = 0x01010101, nd_key = 0x0101010101010101, nd_value = None,
     nd_key_len = 0x0101010101010101\<rparr>"

definition node_taken :: "ptr \<Rightarrow> 'v option \<Rightarrow> u64 \<Rightarrow> 'v map_node" where
  "node_taken k v len = \<lparr>nd_flags = MAP_FLAG_TAKEN, nd_key = k, nd_value = v, nd_key_len = len\<rparr>"

subsection \<open>Key callbacks\<close>

definition mapIntKeyMatch :: "ptr \<Rightarrow> ptr \<Rightarrow> bool" where
  "mapIntKeyMatch a b \<longleftrightarrow> a = b"

definition mapIntKeyLen :: "ptr \<Rightarrow> u64" where
  "mapIntKeyLen key = 0"

definition mapIntKeyHash :: "ptr \<Rightarrow> u64" where
  "mapIntKeyHash key = key"

definition mapCStringHashLen :: "cheap \<Rightarrow> ptr \<Rightarrow> u64 \<Rightarrow> u64" where
  "mapCStringHashLen h str len = cstringMurmur (cbytes h str (unat len))"

definition mapCStringHash :: "cheap \<Rightarrow> ptr \<Rightarrow> u64" where
  "mapCStringHash h str = cstringMurmur (cbytes h str (cstrlen h str))"

definition mapCStringEq :: "cheap \<Rightarrow> ptr \<Rightarrow> ptr \<Rightarrow> bool" where
  "mapCStringEq h s1 s2 \<longleftrightarrow>
     (if s1 = NULL \<or> s2 = NULL then False
      else cstrlen h s1 = cstrlen h s2 \<and>
           cbytes h s1 (cstrlen h s1) = cbytes h s2 (cstrlen h s1))"

definition mapCStringLen :: "cheap \<Rightarrow> ptr \<Rightarrow> u64" where
  "mapCStringLen h s = of_nat (cstrlen h s)"

definition map_uint_to_uint_type :: map_type where
  "map_uint_to_uint_type = \<lparr>mt_match = mapIntKeyMatch, mt_hash = mapIntKeyHash,
     mt_get_key_len = mapIntKeyLen, mt_key_release = False, mt_value_release = False,
     mt_key_is_cstring = False, mt_heap = (\<lambda>_. [])\<rparr>"

definition map_cstring_opaque_type :: "cheap \<Rightarrow> map_type" where
  "map_cstring_opaque_type h = \<lparr>mt_match = mapCStringEq h, mt_hash = mapCStringHash h,
     mt_get_key_len = mapCStringLen h, mt_key_release = False, mt_value_release = False,
     mt_key_is_cstring = True, mt_heap = h\<rparr>"

subsection \<open>Construction\<close>

definition roundUpToNextPowerOf2 :: "u64 \<Rightarrow> u64" where
  "roundUpToNextPowerOf2 v =
     (let v = v - 1;
          v = v OR drop_bit 1 v;
          v = v OR drop_bit 2 v;
          v = v OR drop_bit 4 v;
          v = v OR drop_bit 8 v;
          v = v OR drop_bit 16 v;
          v = v OR drop_bit 32 v
      in v + 1)"

text \<open>
  \<^verbatim>\<open>(unsigned long)(MAP_LOAD * capacity)\<close> with \<^verbatim>\<open>MAP_LOAD\<close> the double nearest to 0.60: the
  product is exact for a power of two and rounds to the exact multiple otherwise, so for every
  capacity below \<open>2 ^ 50\<close> the truncated product is \<open>3 * capacity div 5\<close>.
\<close>

definition load_threashold :: "nat \<Rightarrow> nat" where
  "load_threashold cap = 3 * cap div 5"

definition ULONG_MAX :: u64 where
  "ULONG_MAX = - 1"

definition mapNew :: "u64 \<Rightarrow> 'v hmap" where
  "mapNew capacity =
     (let cap = unat (roundUpToNextPowerOf2 capacity) in
      \<lparr>hm_size = 0, hm_capacity = cap, hm_mask = of_nat cap - 1,
       hm_threashold = load_threashold cap, hm_entries = replicate cap node_memset1,
       hm_indexes = vecNew, hm_cached_key = ULONG_MAX, hm_cached_idx = ULONG_MAX\<rparr>)"

subsection \<open>Probing\<close>

fun probe_free ::
  "nat \<Rightarrow> 'v map_node list \<Rightarrow> u64 \<Rightarrow> ('v map_node \<Rightarrow> bool) \<Rightarrow> u64 \<Rightarrow> (u64 \<times> bool) result"
where
  "probe_free 0 es msk same idx = Inl Diverges"
| "probe_free (Suc fuel) es msk same idx =
     (if unat idx \<ge> length es then Inl OutOfBounds
      else let cur = es ! unat idx in
        if nd_free cur then Inr (idx, True)
        else if nd_taken cur \<and> same cur then Inr (idx, False)
        else probe_free fuel es msk same ((idx + 1) AND msk))"

fun probe_taken ::
  "nat \<Rightarrow> 'v map_node list \<Rightarrow> u64 \<Rightarrow> ('v map_node \<Rightarrow> bool) \<Rightarrow> u64 \<Rightarrow> u64 option result"
where
  "probe_taken 0 es msk same idx = Inl Diverges"
| "probe_taken (Suc fuel) es msk same idx =
     (if unat idx \<ge> length es then Inl OutOfBounds
      else let cur = es ! unat idx in
        if nd_taken cur
        then if same cur then Inr (Some idx) else probe_taken fuel es msk same ((idx + 1) AND msk)
        else Inr None)"

definition mapGetNextIdx :: "map_type \<Rightarrow> 'v map_node list \<Rightarrow> u64 \<Rightarrow> ptr \<Rightarrow> (u64 \<times> bool) result" where
  "mapGetNextIdx t es msk key =
     probe_free (length es) es msk (\<lambda>n. mt_match t (nd_key n) key) (mt_hash t key AND msk)"

definition mapGetIdx :: "map_type \<Rightarrow> 'v map_node list \<Rightarrow> u64 \<Rightarrow> ptr \<Rightarrow> u64 option result" where
  "mapGetIdx t es msk key =
     probe_taken (length es) es msk (\<lambda>n. mt_match t (nd_key n) key) (mt_hash t key AND msk)"

text \<open>Comparison of a node with a key given as address and length.\<close>

definition node_same_len :: "map_type \<Rightarrow> ptr \<Rightarrow> u64 \<Rightarrow> 'v map_node \<Rightarrow> bool" where
  "node_same_len t key len n \<longleftrightarrow> nd_key_len n = len \<and>
     cbytes (mt_heap t) (nd_key n) (unat len) = cbytes (mt_heap t) key (unat len)"

definition mapGetCStringNextIdx ::
  "map_type \<Rightarrow> 'v map_node list \<Rightarrow> u64 \<Rightarrow> ptr \<Rightarrow> u64 \<Rightarrow> (u64 \<times> bool) result" where
  "mapGetCStringNextIdx t es msk key len =
     probe_free (length es) es msk (node_same_len t key len)
       (mapCStringHashLen (mt_heap t) key len AND msk)"

definition mapGetCStringIdx ::
  "map_type \<Rightarrow> 'v map_node list \<Rightarrow> u64 \<Rightarrow> ptr \<Rightarrow> u64 \<Rightarrow> u64 option result" where
  "mapGetCStringIdx t es msk key len =
     probe_taken (length es) es msk (node_same_len t key len)
       (mapCStringHashLen (mt_heap t) key len AND msk)"

subsection \<open>Resizing\<close>

definition resize_probe ::
  "map_type \<Rightarrow> 'v map_node list \<Rightarrow> u64 \<Rightarrow> 'v map_node \<Rightarrow> (u64 \<times> bool) result" where
  "resize_probe t es msk old =
     (if mt_key_is_cstring t then mapGetCStringNextIdx t es msk (nd_key old) (nd_key_len old)
      else mapGetNextIdx t es msk (nd_key old))"

text \<open>The copy loop: slot numbers still to visit, the new table and the new slot numbers.\<close>

fun mapResize_loop ::
  "map_type \<Rightarrow> u64 \<Rightarrow> 'v map_node list \<Rightarrow> ptr option list \<Rightarrow> nat \<Rightarrow> nat \<Rightarrow>
   'v map_node list \<Rightarrow> u64 list \<Rightarrow> ('v map_node list \<times> u64 list) result"
where
  "mapResize_loop t msk old_es idxs i 0 es new_idxs = Inr (es, new_idxs)"
| "mapResize_loop t msk old_es idxs i (Suc n) es new_idxs =
     rbind (cell_at idxs i) (\<lambda>idx.
       if unat idx \<ge> length old_es then Inl OutOfBounds
       else let old = old_es ! unat idx in
         if nd_taken old
         then rbind (resize_probe t es msk old) (\<lambda>(new_idx, is_free).
           mapResize_loop t msk old_es idxs (Suc i) n
             (es[unat new_idx := node_taken (nd_key old) (nd_value old) (nd_key_len old)])
             (new_idxs @ [new_idx]))
         else mapResize_loop t msk old_es idxs (Suc i) n es new_idxs)"

definition mapResize :: "bool \<Rightarrow> map_type \<Rightarrow> 'v hmap \<Rightarrow> ('v hmap \<times> bool) result" where
  "mapResize alloc_ok t m =
     (let new_capacity = hm_capacity m * 2;
          new_mask = of_nat new_capacity - 1;
          indexes_size = vec_size (hm_indexes m)
      in if \<not> alloc_ok then Inr (m, False)
         else rbind (mapResize_loop t new_mask (hm_entries m) (vec_entries (hm_indexes m)) 0
                       indexes_size (replicate new_capacity node_memset1) [])
           (\<lambda>(es, new_idxs). Inr
             (m\<lparr>hm_mask := new_mask, hm_entries := es, hm_capacity := new_capacity,
                hm_indexes := \<lparr>vec_size = length new_idxs, vec_capacity = indexes_size,
                  vec_entries = map Some new_idxs @
                    replicate (indexes_size - length new_idxs) (Some 0)\<rparr>,
                hm_size := length new_idxs, hm_threashold := load_threashold new_capacity,
                hm_cached_key := ULONG_MAX, hm_cached_idx := ULONG_MAX\<rparr>, True)))"

definition map_ensure_room :: "bool \<Rightarrow> map_type \<Rightarrow> 'v hmap \<Rightarrow> ('v hmap \<times> bool) result" where
  "map_ensure_room alloc_ok t m =
     (if hm_size m \<ge> hm_threashold m then mapResize alloc_ok t m else Inr (m, True))"

subsection \<open>Insertion\<close>

text \<open>
  What the three insertion functions do with the slot the probe returned: a fresh slot is
  appended to the insertion order unless it is a reused tombstone, and the size grows.
\<close>

definition map_claim_slot :: "'v hmap \<Rightarrow> u64 \<Rightarrow> bool \<Rightarrow> 'v hmap result" where
  "map_claim_slot m idx is_free =
     (if unat idx \<ge> length (hm_entries m) then Inl OutOfBounds
      else if is_free
      then rbind (if nd_deleted (hm_entries m ! unat idx) then Inr (hm_indexes m)
                  else vecPushInt (hm_indexes m) idx)
             (\<lambda>ix. Inr (m\<lparr>hm_indexes := ix, hm_size := hm_size m + 1\<rparr>))
      else Inr m)"

definition map_write_slot :: "'v hmap \<Rightarrow> u64 \<Rightarrow> ptr \<Rightarrow> 'v option \<Rightarrow> u64 \<Rightarrow> 'v hmap" where
  "map_write_slot m idx key v len =
     m\<lparr>hm_entries := (hm_entries m)[unat idx := node_taken key v len]\<rparr>"

definition mapAddLen ::
  "bool \<Rightarrow> map_type \<Rightarrow> 'v hmap \<Rightarrow> ptr \<Rightarrow> u64 \<Rightarrow> 'v option \<Rightarrow> ('v hmap \<times> bool) result" where
  "mapAddLen alloc_ok t m key key_len v =
     rbind (map_ensure_room alloc_ok t m) (\<lambda>(m, ok).
       if \<not> ok then Inr (m, False)
       else rbind (mapGetCStringNextIdx t (hm_entries m) (hm_mask m) key key_len)
         (\<lambda>(idx, is_free). rbind (map_claim_slot m idx is_free)
           (\<lambda>m. Inr (map_write_slot m idx key v key_len, True))))"

definition mapAdd ::
  "bool \<Rightarrow> map_type \<Rightarrow> 'v hmap \<Rightarrow> ptr \<Rightarrow> 'v option \<Rightarrow> ('v hmap \<times> bool) result" where
  "mapAdd alloc_ok t m key v =
     rbind (map_ensure_room alloc_ok t m) (\<lambda>(m, ok).
       if \<not> ok then Inr (m, False)
       else rbind (mapGetNextIdx t (hm_entries m) (hm_mask m) key)
         (\<lambda>(idx, is_free). rbind (map_claim_slot m idx is_free)
           (\<lambda>m. Inr (map_write_slot m idx key v (mt_get_key_len t key), True))))"

definition mapAddOrErr ::
  "bool \<Rightarrow> map_type \<Rightarrow> 'v hmap \<Rightarrow> ptr \<Rightarrow> 'v option \<Rightarrow> ('v hmap \<times> bool) result" where
  "mapAddOrErr alloc_ok t m key v =
     rbind (map_ensure_room alloc_ok t m) (\<lambda>(m, ok).
       if \<not> ok then Inr (m, False)
       else rbind (mapGetNextIdx t (hm_entries m) (hm_mask m) key)
         (\<lambda>(idx, is_free).
           if is_free
           then rbind (map_claim_slot m idx is_free)
             (\<lambda>m. Inr (map_write_slot m idx key v (mt_get_key_len t key), True))
           else Inr (m, False)))"

subsection \<open>Removal and lookup\<close>

text \<open>The result carries the value and the key handed to the release callbacks.\<close>

definition mapRemove :: "map_type \<Rightarrow> 'v hmap \<Rightarrow> ptr \<Rightarrow> ('v hmap \<times> 'v option list \<times> ptr list) result" where
  "mapRemove t m key =
     rbind (mapGetIdx t (hm_entries m) (hm_mask m) key) (\<lambda>found.
       case found of
         None \<Rightarrow> Inr (m, [], [])
       | Some idx \<Rightarrow>
           (let n = hm_entries m ! unat idx in
            Inr (m\<lparr>hm_entries := (hm_entries m)[unat idx := \<lparr>nd_flags = MAP_FLAG_DELETED,
                     nd_key = NULL, nd_value = None, nd_key_len = 0\<rparr>],
                   hm_size := hm_size m - 1,
                   hm_cached_key := ULONG_MAX, hm_cached_idx := ULONG_MAX\<rparr>,
                 (if mt_value_release t then [nd_value n] else []),
                 (if mt_key_release t then [nd_key n] else []))))"

definition mapHas :: "map_type \<Rightarrow> 'v hmap \<Rightarrow> ptr \<Rightarrow> ('v hmap \<times> bool) result" where
  "mapHas t m key =
     rbind (mapGetIdx t (hm_entries m) (hm_mask m) key) (\<lambda>found.
       case found of
         None \<Rightarrow> Inr (m, False)
       | Some idx \<Rightarrow> Inr (m\<lparr>hm_cached_key := key, hm_cached_idx := idx\<rparr>, True))"

text \<open>The variadic list of keys ends at the first null pointer.\<close>

fun mapHasAll :: "map_type \<Rightarrow> 'v hmap \<Rightarrow> ptr list \<Rightarrow> bool result" where
  "mapHasAll t m [] = Inl OutOfBounds"
| "mapHasAll t m (key # keys) =
     (if key = NULL then Inr True
      else rbind (mapGetIdx t (hm_entries m) (hm_mask m) key) (\<lambda>found.
        if found = None then Inr False else mapHasAll t m keys))"

text \<open>The cache is honoured only while its slot is taken.\<close>

definition map_cache_hit :: "'v hmap \<Rightarrow> ptr \<Rightarrow> 'v option option result" where
  "map_cache_hit m key =
     (if hm_cached_key m = key
      then if unat (hm_cached_idx m) \<ge> length (hm_entries m) then Inl OutOfBounds
           else let n = hm_entries m ! unat (hm_cached_idx m) in
             if nd_taken n then Inr (Some (nd_value n)) else Inr None
      else Inr None)"

text \<open>The walk up the parent chain; the map itself is the head of the list.\<close>

fun map_walk ::
  "('v hmap \<Rightarrow> u64 option result) \<Rightarrow> 'v hmap list \<Rightarrow> ('v hmap list \<times> 'v option) result"
where
  "map_walk probe [] = Inr ([], None)"
| "map_walk probe (m # parents) =
     rbind (probe m) (\<lambda>found.
       case found of
         Some idx \<Rightarrow>
           (let n = hm_entries m ! unat idx in
            Inr (m\<lparr>hm_cached_key := nd_key n, hm_cached_idx := idx\<rparr> # parents, nd_value n))
       | None \<Rightarrow> rbind (map_walk probe parents) (\<lambda>(ms, v). Inr (m # ms, v)))"

definition mapGet :: "map_type \<Rightarrow> 'v hmap list \<Rightarrow> ptr \<Rightarrow> ('v hmap list \<times> 'v option) result" where
  "mapGet t ms key =
     (case ms of
        [] \<Rightarrow> Inl NullDeref
      | m # _ \<Rightarrow>
          rbind (map_cache_hit m key) (\<lambda>hit.
            case hit of
              Some v \<Rightarrow> Inr (ms, v)
            | None \<Rightarrow> map_walk (\<lambda>m. mapGetIdx t (hm_entries m) (hm_mask m) key) ms))"

definition mapGetLen ::
  "map_type \<Rightarrow> 'v hmap list \<Rightarrow> ptr \<Rightarrow> u64 \<Rightarrow> ('v hmap list \<times> 'v option) result" where
  "mapGetLen t ms key len =
     (case ms of
        [] \<Rightarrow> Inl NullDeref
      | m # _ \<Rightarrow>
          rbind (map_cache_hit m key) (\<lambda>hit.
            case hit of
              Some v \<Rightarrow> Inr (ms, v)
            | None \<Rightarrow> map_walk (\<lambda>m. mapGetCStringIdx t (hm_entries m) (hm_mask m) key len) ms))"

subsection \<open>Iteration\<close>

text \<open>The iterator's node is the slot number it stands on.\<close>

record map_iter =
  it_node :: "u64 option"
  it_idx :: nat
  it_vecidx :: nat

definition mapIterInit :: map_iter where
  "mapIterInit = \<lparr>it_node = None, it_idx = 0, it_vecidx = 0\<rparr>"

function mapIterNext :: "'v hmap \<Rightarrow> map_iter \<Rightarrow> (map_iter \<times> bool) result" where
  "mapIterNext m it =
     (if it_vecidx it < vec_size (hm_indexes m)
      then case vecGetAt (hm_indexes m) (it_vecidx it) of
             Inl e \<Rightarrow> Inl e
           | Inr idx \<Rightarrow>
               (if unat idx \<ge> length (hm_entries m) then Inl OutOfBounds
                else let n = hm_entries m ! unat idx;
                         it = it\<lparr>it_vecidx := it_vecidx it + 1\<rparr>
                  in if nd_taken n
                     then Inr (it\<lparr>it_idx := it_idx it + 1, it_node := Some idx\<rparr>, True)
                     else mapIterNext m it)
      else Inr (it, False))"
  by pat_completeness auto
termination
  by (relation "measure (\<lambda>(m, it). vec_size (hm_indexes m) - it_vecidx it)") auto

declare mapIterNext.simps [simp del]

text \<open>
  \<^verbatim>\<open>while (mapIterNext(&it)) body\<close>, the body changing a state the iterator does not read. The
  iterator advances at every round, so the vector size bounds the rounds.
\<close>

fun map_for_each ::
  "nat \<Rightarrow> 'v hmap \<Rightarrow> map_iter \<Rightarrow> (u64 \<Rightarrow> 's \<Rightarrow> 's result) \<Rightarrow> 's \<Rightarrow> 's result"
where
  "map_for_each 0 m it body st = Inl Diverges"
| "map_for_each (Suc fuel) m it body st =
     rbind (mapIterNext m it) (\<lambda>(it, more).
       if more then rbind (body (the (it_node it)) st) (map_for_each fuel m it body)
       else Inr st)"

declare map_for_each.simps [simp del]

definition mapGetAt :: "'v hmap \<Rightarrow> nat \<Rightarrow> 'v option result" where
  "mapGetAt m index =
     rbind (mapIterNext m (mapIterInit\<lparr>it_vecidx := index\<rparr>)) (\<lambda>(it, found).
       if found then Inr (nd_value (hm_entries m ! unat (the (it_node it)))) else Inr None)"

text \<open>
  \<^verbatim>\<open>mapClear\<close> frees each node as it passes it; the nodes still to come are read unchanged. The
  result carries what the release callbacks got.
\<close>

definition mapClear :: "map_type \<Rightarrow> 'v hmap \<Rightarrow> ('v hmap \<times> 'v option list \<times> ptr list) result" where
  "mapClear t m =
     rbind (map_for_each (vec_size (hm_indexes m) + 1) m mapIterInit
       (\<lambda>idx (es, vs, ks).
         let n = hm_entries m ! unat idx in
         Inr (es[unat idx := \<lparr>nd_flags = MAP_FLAG_FREE, nd_key = NULL, nd_value = None,
                nd_key_len = 0\<rparr>],
              (if mt_value_release t then vs @ [nd_value n] else vs),
              (if mt_key_release t then ks @ [nd_key n] else ks)))
       (hm_entries m, [], []))
     (\<lambda>(es, vs, ks). Inr (m\<lparr>hm_entries := es, hm_size := 0,
        hm_indexes := fst (vecClear vec_unsigned_long_type (hm_indexes m)),
        hm_cached_key := ULONG_MAX, hm_cached_idx := ULONG_MAX\<rparr>, vs, ks))"

definition mapMerge :: "bool \<Rightarrow> map_type \<Rightarrow> 'v hmap \<Rightarrow> 'v hmap \<Rightarrow> 'v hmap result" where
  "mapMerge alloc_ok t m1 m2 =
     map_for_each (vec_size (hm_indexes m2) + 1) m2 mapIterInit
       (\<lambda>idx m. let n = hm_entries m2 ! unat idx in
          rbind (mapAddOrErr alloc_ok t m (nd_key n) (nd_value n)) (\<lambda>(m, _). Inr m))
       m1"

lemmas [map_ops] = mapGetNextIdx_def mapGetIdx_def mapGetCStringNextIdx_def mapGetCStringIdx_def
  mapResize_def map_ensure_room_def map_claim_slot_def map_write_slot_def mapAddLen_def
  mapAdd_def mapAddOrErr_def mapRemove_def mapHas_def map_cache_hit_def mapGet_def
  mapGetLen_def mapGetAt_def mapClear_def mapMerge_def

end
