(* ===== verification/HashMap_Table.thy ===== *)
theory HashMap_Table
  imports HashMap
begin

text \<open>
  The probe loops of \<open>HashMap\<close> on a well-formed table: the slots a probe visits, the table
  invariant, what the two probes return for a key that is present or absent, and what writing
  a node does to the invariant and to the table's meaning. The locale \<open>key_type\<close> is the contract
  of the key callbacks.
\<close>

section \<open>The table: flags, probe paths and the table invariant\<close>

lemma nd_flag_simps [simp]:
  "nd_taken (node_taken k v len)" "\<not> nd_free (node_taken k v len)"
  "\<not> nd_deleted (node_taken k v len)"
  "nd_key (node_taken k v len) = k" "nd_value (node_taken k v len) = v"
  "nd_key_len (node_taken k v len) = len"
  "\<not> nd_taken node_memset1" "nd_free node_memset1" "\<not> nd_deleted node_memset1"
  by (simp_all add: nd_taken_def nd_free_def nd_deleted_def node_taken_def node_memset1_def
      MAP_FLAG_TAKEN_def MAP_FLAG_FREE_def MAP_FLAG_DELETED_def)

text \<open>The slots a probe visits, from its home slot on.\<close>

definition probe_path :: "nat \<Rightarrow> nat \<Rightarrow> nat \<Rightarrow> nat list" where
  "probe_path cap home n = map (\<lambda>j. (home + j) mod cap) [0..<n]"

lemma probe_path_Suc:
  "0 < cap \<Longrightarrow> home < cap \<Longrightarrow>
   probe_path cap home (Suc n) = home # probe_path cap ((home + 1) mod cap) n"
  by (simp add: probe_path_def upt_conv_Cons map_Suc_upt [symmetric] comp_def mod_simps
      del: upt_Suc map_upt_Suc)

lemma set_probe_path_full:
  assumes "0 < cap"
  shows "set (probe_path cap home cap) = {..<cap}"
proof -
  have "i \<in> set (probe_path cap home cap)" if "i < cap" for i
  proof -
    define j where "j = (i + (cap - home mod cap)) mod cap"
    have "(home + j) mod cap = (home mod cap + (i + (cap - home mod cap))) mod cap"
      by (simp add: j_def mod_simps)
    also have "home mod cap + (i + (cap - home mod cap)) = i + cap"
      using assms mod_less_divisor [of cap home] by linarith
    finally have "(home + j) mod cap = i"
      using that by simp
    moreover have "j < cap" using assms by (simp add: j_def)
    ultimately show ?thesis
      by (force simp: probe_path_def)
  qed
  then show ?thesis
    using assms by (auto simp: probe_path_def)
qed

lemma distinct_probe_path:
  assumes "0 < cap"
  shows "distinct (probe_path cap home cap)"
  using assms set_probe_path_full [of cap home]
  by (intro card_distinct) (simp add: probe_path_def)

lemma probe_path_nth: "j < n \<Longrightarrow> probe_path cap home n ! j = (home + j) mod cap"
  by (simp add: probe_path_def)

lemma length_probe_path [simp]: "length (probe_path cap home n) = n"
  by (simp add: probe_path_def)

text \<open>A probe loop is a search along the path.\<close>

lemma probe_taken_find:
  assumes "length es = 2 ^ k" "k < 64" "unat idx < 2 ^ k"
  shows "probe_taken n es (mask k) same idx =
    (case find (\<lambda>i. \<not> nd_taken (es ! i) \<or> same (es ! i)) (probe_path (2 ^ k) (unat idx) n) of
       None \<Rightarrow> Inl Diverges
     | Some i \<Rightarrow> Inr (if nd_taken (es ! i) then Some (of_nat i) else None))"
  using assms(3)
proof (induction n arbitrary: idx)
  case 0
  then show ?case by (simp add: probe_path_def)
next
  case (Suc n)
  have next_idx: "unat ((idx + 1) AND mask k) = (unat idx + 1) mod 2 ^ k"
    using assms(2) by (rule unat_succ_and_mask)
  then have "unat ((idx + 1) AND mask k) < 2 ^ k" by simp
  from Suc.IH [OF this] Suc.prems show ?case
    by (simp add: probe_path_Suc next_idx assms(1) Let_def)
qed

lemma probe_free_find:
  assumes "length es = 2 ^ k" "k < 64" "unat idx < 2 ^ k"
  shows "probe_free n es (mask k) same idx =
    (case find (\<lambda>i. nd_free (es ! i) \<or> nd_taken (es ! i) \<and> same (es ! i))
            (probe_path (2 ^ k) (unat idx) n) of
       None \<Rightarrow> Inl Diverges
     | Some i \<Rightarrow> Inr (of_nat i, nd_free (es ! i)))"
  using assms(3)
proof (induction n arbitrary: idx)
  case 0
  then show ?case by (simp add: probe_path_def)
next
  case (Suc n)
  have next_idx: "unat ((idx + 1) AND mask k) = (unat idx + 1) mod 2 ^ k"
    using assms(2) by (rule unat_succ_and_mask)
  then have "unat ((idx + 1) AND mask k) < 2 ^ k" by simp
  from Suc.IH [OF this] Suc.prems show ?case
    by (simp add: probe_path_Suc next_idx assms(1) Let_def)
qed

lemma find_path_first:
  assumes "find P (probe_path cap home n) = Some i"
  obtains d where "d < n" "i = (home + d) mod cap" "P i" "\<And>j. j < d \<Longrightarrow> \<not> P ((home + j) mod cap)"
  using assms by (auto simp: find_Some_iff probe_path_nth)

lemma find_path_total:
  assumes "0 < cap" "i < cap" "P i"
  obtains i' where "find P (probe_path cap home cap) = Some i'" "i' < cap"
proof -
  have "find P (probe_path cap home cap) \<noteq> None"
    using assms set_probe_path_full [of cap home] by (auto simp: find_None_iff)
  then obtain i' where i': "find P (probe_path cap home cap) = Some i'" by blast
  then have "i' < cap" by (rule find_path_first) (use assms in simp)
  with i' show thesis by (rule that)
qed

text \<open>
  The table invariant: a power-of-two length, well-formed nodes without tombstones, every key
  reachable from its home slot over taken slots, and no two taken slots with matching keys.
\<close>

definition node_wf :: "map_type \<Rightarrow> (ptr \<Rightarrow> bool) \<Rightarrow> 'v map_node \<Rightarrow> bool" where
  "node_wf t valid n \<longleftrightarrow>
     (if nd_taken n then \<not> nd_free n \<and> valid (nd_key n) \<and> nd_key_len n = mt_get_key_len t (nd_key n)
      else nd_free n \<and> \<not> nd_deleted n)"

definition home_slot :: "map_type \<Rightarrow> nat \<Rightarrow> ptr \<Rightarrow> nat" where
  "home_slot t cap key = unat (mt_hash t key) mod cap"

definition reachable_slot :: "'v map_node list \<Rightarrow> nat \<Rightarrow> nat \<Rightarrow> bool" where
  "reachable_slot es home i \<longleftrightarrow>
     (\<exists>d < length es. i = (home + d) mod length es \<and>
        (\<forall>j < d. nd_taken (es ! ((home + j) mod length es))))"

definition table_inv :: "map_type \<Rightarrow> (ptr \<Rightarrow> bool) \<Rightarrow> 'v map_node list \<Rightarrow> bool" where
  "table_inv t valid es \<longleftrightarrow>
     (\<exists>k. 0 < k \<and> k < 51 \<and> length es = 2 ^ k) \<and>
     (\<forall>i < length es. node_wf t valid (es ! i)) \<and>
     (\<forall>i < length es. nd_taken (es ! i) \<longrightarrow>
        reachable_slot es (home_slot t (length es) (nd_key (es ! i))) i) \<and>
     (\<forall>i < length es. \<forall>j < length es. nd_taken (es ! i) \<longrightarrow> nd_taken (es ! j) \<longrightarrow>
        mt_match t (nd_key (es ! i)) (nd_key (es ! j)) \<longrightarrow> i = j)"

text \<open>What a table maps a key to: the value of the slot whose key matches.\<close>

definition table_abs :: "map_type \<Rightarrow> 'v map_node list \<Rightarrow> ptr \<Rightarrow> 'v option option" where
  "table_abs t es key =
     map_option nd_value (find (\<lambda>n. nd_taken n \<and> mt_match t (nd_key n) key) es)"

lemma table_abs_None:
  "table_abs t es key = None \<longleftrightarrow>
   (\<forall>i < length es. nd_taken (es ! i) \<longrightarrow> \<not> mt_match t (nd_key (es ! i)) key)"
  by (auto simp: table_abs_def find_None_iff in_set_conv_nth)

text \<open>
  What the key callbacks must satisfy on the keys in use: matching is an equivalence, matching
  keys hash alike, and for string keys the (address, length) versions agree with them.
\<close>

locale key_type =
  fixes t :: map_type and valid :: "ptr \<Rightarrow> bool"
  assumes match_refl: "valid a \<Longrightarrow> mt_match t a a"
    and match_sym: "valid a \<Longrightarrow> valid b \<Longrightarrow> mt_match t a b \<Longrightarrow> mt_match t b a"
    and match_trans: "valid a \<Longrightarrow> valid b \<Longrightarrow> valid c \<Longrightarrow> mt_match t a b \<Longrightarrow>
      mt_match t b c \<Longrightarrow> mt_match t a c"
    and hash_match: "valid a \<Longrightarrow> valid b \<Longrightarrow> mt_match t a b \<Longrightarrow> mt_hash t a = mt_hash t b"
    and len_hash: "valid a \<Longrightarrow> mt_key_is_cstring t \<Longrightarrow>
      mapCStringHashLen (mt_heap t) a (mt_get_key_len t a) = mt_hash t a"
    and len_match: "valid a \<Longrightarrow> valid b \<Longrightarrow> mt_key_is_cstring t \<Longrightarrow>
      mt_match t a b \<longleftrightarrow> mt_get_key_len t a = mt_get_key_len t b \<and>
        cbytes (mt_heap t) a (unat (mt_get_key_len t b)) =
        cbytes (mt_heap t) b (unat (mt_get_key_len t b))"
begin

lemma home_match:
  "valid a \<Longrightarrow> valid b \<Longrightarrow> mt_match t a b \<Longrightarrow> home_slot t cap a = home_slot t cap b"
  by (simp add: home_slot_def hash_match)

end

interpretation int_keys: key_type map_uint_to_uint_type "\<lambda>_. True"
  by unfold_locales (auto simp: map_uint_to_uint_type_def mapIntKeyMatch_def)

lemma mask_of_pow2: "(of_nat (2 ^ k) - 1 :: u64) = mask k"
  by (simp add: mask_eq_exp_minus_1)

lemma table_invD:
  assumes "table_inv t valid es" "i < length es" "nd_taken (es ! i)"
  shows "\<not> nd_free (es ! i)" "valid (nd_key (es ! i))"
    "nd_key_len (es ! i) = mt_get_key_len t (nd_key (es ! i))"
    "reachable_slot es (home_slot t (length es) (nd_key (es ! i))) i"
  using assms by (auto simp: table_inv_def node_wf_def)

lemma table_inv_free:
  "table_inv t valid es \<Longrightarrow> i < length es \<Longrightarrow> nd_free (es ! i) \<longleftrightarrow> \<not> nd_taken (es ! i)"
  by (auto simp: table_inv_def node_wf_def split: if_splits)

lemma table_inv_uniq:
  assumes "table_inv t valid es" "i < length es" "j < length es" "nd_taken (es ! i)"
    "nd_taken (es ! j)" "mt_match t (nd_key (es ! i)) (nd_key (es ! j))"
  shows "i = j"
  using assms by (simp add: table_inv_def)

lemma hash_home:
  assumes "length es = 2 ^ k" "k < 51"
  shows "unat (mt_hash t key AND mask k) = home_slot t (length es) key"
  using assms by (simp add: home_slot_def unat_and_mask)

text \<open>A path search that stops at every slot that is not taken finds a reachable slot first.\<close>

lemma find_reachable:
  assumes "reachable_slot es home i" "P i" "0 < length es"
    and "\<And>j. j < length es \<Longrightarrow> P j \<Longrightarrow> nd_taken (es ! j) \<Longrightarrow> j = i"
    and "\<And>j. j < length es \<Longrightarrow> \<not> nd_taken (es ! j) \<Longrightarrow> P j"
  shows "find P (probe_path (length es) home (length es)) = Some i"
proof -
  obtain d where d: "d < length es" "i = (home + d) mod length es"
    "\<forall>j < d. nd_taken (es ! ((home + j) mod length es))"
    using assms(1) by (auto simp: reachable_slot_def)
  have before: "\<not> P ((home + j) mod length es)" if "j < d" for j
  proof
    assume P: "P ((home + j) mod length es)"
    have lt: "(home + j) mod length es < length es" using assms(3) by simp
    have "(home + j) mod length es = i"
      using assms(4) [OF lt P] d(3) that by blast
    then have "probe_path (length es) home (length es) ! j =
        probe_path (length es) home (length es) ! d"
      using d that by (simp add: probe_path_nth)
    with distinct_probe_path [OF assms(3), of home] d(1) that show False
      by (simp add: nth_eq_iff_index_eq)
  qed
  show ?thesis
    using d assms(2) before
    by (auto simp: find_Some_iff probe_path_nth intro!: exI [of _ d])
qed

context key_type
begin

lemma mapGetIdx_present:
  assumes inv: "table_inv t valid es" and k: "length es = 2 ^ k" "k < 51"
    and i: "i < length es" "nd_taken (es ! i)" "mt_match t (nd_key (es ! i)) key" "valid key"
  shows "mapGetIdx t es (mask k) key = Inr (Some (of_nat i))"
    and "mapGetNextIdx t es (mask k) key = Inr (of_nat i, False)"
proof -
  let ?home = "home_slot t (length es) key"
  have vi: "valid (nd_key (es ! i))" using inv i by (simp add: table_invD)
  have reach: "reachable_slot es ?home i"
    using table_invD(4) [OF inv i(1,2)] home_match [OF vi i(4,3)] by simp
  have uniq: "j = i" if "j < length es" "nd_taken (es ! j)" "mt_match t (nd_key (es ! j)) key" for j
  proof (rule table_inv_uniq [OF inv that(1) i(1) that(2) i(2)])
    have "valid (nd_key (es ! j))" using inv that by (simp add: table_invD)
    then show "mt_match t (nd_key (es ! j)) (nd_key (es ! i))"
      using match_trans match_sym that(3) i(3,4) vi by blast
  qed
  have home: "unat (mt_hash t key AND mask k) = ?home" "?home < 2 ^ k"
    using k by (simp_all add: hash_home) (simp add: home_slot_def)
  have pos: "0 < length es" using i(1) by linarith
  have "find (\<lambda>j. \<not> nd_taken (es ! j) \<or> mt_match t (nd_key (es ! j)) key)
      (probe_path (length es) ?home (length es)) = Some i"
    by (rule find_reachable [OF reach _ pos]) (use i uniq in blast)+
  then show "mapGetIdx t es (mask k) key = Inr (Some (of_nat i))"
    using k home i by (simp add: mapGetIdx_def probe_taken_find)
  have "find (\<lambda>j. nd_free (es ! j) \<or> nd_taken (es ! j) \<and> mt_match t (nd_key (es ! j)) key)
      (probe_path (length es) ?home (length es)) = Some i"
    by (rule find_reachable [OF reach _ pos]) (use i uniq table_inv_free [OF inv] in blast)+
  then show "mapGetNextIdx t es (mask k) key = Inr (of_nat i, False)"
    using k home i table_invD(1) [OF inv i(1,2)] by (simp add: mapGetNextIdx_def probe_free_find)
qed

lemma mapGetIdx_absent:
  assumes inv: "table_inv t valid es" and k: "length es = 2 ^ k" "k < 51"
    and free: "f < length es" "\<not> nd_taken (es ! f)"
    and absent: "\<forall>i < length es. nd_taken (es ! i) \<longrightarrow> \<not> mt_match t (nd_key (es ! i)) key"
  shows "mapGetIdx t es (mask k) key = Inr None"
    and "\<exists>i < length es. mapGetNextIdx t es (mask k) key = Inr (of_nat i, True) \<and>
      \<not> nd_taken (es ! i) \<and> reachable_slot es (home_slot t (length es) key) i"
proof -
  let ?home = "home_slot t (length es) key"
  have home: "unat (mt_hash t key AND mask k) = ?home" "?home < 2 ^ k"
    using k by (simp_all add: hash_home) (simp add: home_slot_def)
  have pos: "0 < length es" using free by linarith
  let ?P = "\<lambda>j. \<not> nd_taken (es ! j) \<or> mt_match t (nd_key (es ! j)) key"
  obtain i where i: "find ?P (probe_path (length es) ?home (length es)) = Some i" "i < length es"
    using find_path_total [OF pos free(1), of ?P ?home] free(2) by blast
  then have "?P i" by (auto simp: find_Some_iff)
  then have nt: "\<not> nd_taken (es ! i)" using absent i by blast
  with i show "mapGetIdx t es (mask k) key = Inr None"
    using k home by (simp add: mapGetIdx_def probe_taken_find)
  obtain d where d: "d < length es" "i = (?home + d) mod length es"
    "\<And>j. j < d \<Longrightarrow> \<not> ?P ((?home + j) mod length es)"
    using i(1) by (rule find_path_first) blast
  then have reach: "reachable_slot es ?home i"
    by (auto simp: reachable_slot_def)
  let ?Q = "\<lambda>j. nd_free (es ! j) \<or> nd_taken (es ! j) \<and> mt_match t (nd_key (es ! j)) key"
  have "?P j = ?Q j" if "j < length es" for j
    using table_inv_free [OF inv that] absent that by auto
  then have "find ?Q (probe_path (length es) ?home (length es)) = Some i"
    using i(1) pos by (subst find_cong [OF refl, of _ ?Q ?P]) (auto simp: set_probe_path_full)
  then have "mapGetNextIdx t es (mask k) key = Inr (of_nat i, True)"
    using k home nt i table_inv_free [OF inv i(2)] by (simp add: mapGetNextIdx_def probe_free_find)
  with i nt reach show "\<exists>i < length es. mapGetNextIdx t es (mask k) key = Inr (of_nat i, True) \<and>
      \<not> nd_taken (es ! i) \<and> reachable_slot es ?home i"
    by blast
qed

text \<open>
  The slot a new binding for \<open>key\<close> may be written to: the slot that already holds the key, or,
  when no slot holds it, a free slot reachable from its home.
\<close>

definition slot_for :: "'v map_node list \<Rightarrow> ptr \<Rightarrow> nat \<Rightarrow> bool" where
  "slot_for es key i \<longleftrightarrow> i < length es \<and>
     (if nd_taken (es ! i) then mt_match t (nd_key (es ! i)) key
      else (\<forall>j < length es. nd_taken (es ! j) \<longrightarrow> \<not> mt_match t (nd_key (es ! j)) key) \<and>
           reachable_slot es (home_slot t (length es) key) i)"

lemma reachable_slot_mono:
  assumes "reachable_slot es h i" "length es' = length es"
    and "\<And>j. j < length es \<Longrightarrow> nd_taken (es ! j) \<Longrightarrow> nd_taken (es' ! j)"
  shows "reachable_slot es' h i"
  using assms unfolding reachable_slot_def
  by (metis mod_less_divisor not_less_zero gr0I)

lemma table_write_inv:
  assumes inv: "table_inv t valid es" and s: "slot_for es key i" and v: "valid key"
  shows "table_inv t valid (es[i := node_taken key v (mt_get_key_len t key)])"
    (is "table_inv t valid ?es")
proof -
  have i: "i < length es" using s by (simp add: slot_for_def)
  have other: "j = i" if "j < length es" "nd_taken (es ! j)" "mt_match t (nd_key (es ! j)) key" for j
  proof (cases "nd_taken (es ! i)")
    case True
    have "valid (nd_key (es ! j))" "valid (nd_key (es ! i))"
      using inv i True that by (simp_all add: table_invD)
    then have "mt_match t (nd_key (es ! j)) (nd_key (es ! i))"
      using True s that(3) v match_sym match_trans unfolding slot_for_def by metis
    then show ?thesis using table_inv_uniq [OF inv that(1) i that(2) True] by simp
  next
    case False
    then show ?thesis using s that by (auto simp: slot_for_def)
  qed
  have reach_i: "reachable_slot es (home_slot t (length es) key) i"
  proof (cases "nd_taken (es ! i)")
    case True
    then have "home_slot t (length es) (nd_key (es ! i)) = home_slot t (length es) key"
      using s v table_invD(2) [OF inv i True] by (intro home_match) (auto simp: slot_for_def)
    then show ?thesis using table_invD(4) [OF inv i True] by simp
  qed (use s in \<open>simp add: slot_for_def\<close>)
  have mono: "nd_taken (?es ! j)" if "j < length es" "nd_taken (es ! j)" for j
    using that by (cases "j = i") simp_all
  have wf: "node_wf t valid (?es ! j)" if "j < length es" for j
    using inv v that by (cases "j = i") (simp_all add: table_inv_def node_wf_def)
  have reach: "reachable_slot ?es (home_slot t (length es) (nd_key (?es ! j))) j"
    if "j < length es" "nd_taken (?es ! j)" for j
  proof (cases "j = i")
    case True
    then show ?thesis
      using reachable_slot_mono [OF reach_i, of ?es] mono i by simp
  next
    case False
    then have "reachable_slot es (home_slot t (length es) (nd_key (es ! j))) j"
      using table_invD(4) [OF inv] that by simp
    then show ?thesis
      using reachable_slot_mono [of es _ j ?es] mono False by simp
  qed
  have uniq: "a = b" if "a < length es" "b < length es" "nd_taken (?es ! a)" "nd_taken (?es ! b)"
    "mt_match t (nd_key (?es ! a)) (nd_key (?es ! b))" for a b
  proof -
    have va: "valid (nd_key (?es ! a))" "valid (nd_key (?es ! b))"
      using wf that by (auto simp: node_wf_def)
    consider "a = i" "b = i" | "a = i" "b \<noteq> i" | "a \<noteq> i" "b = i" | "a \<noteq> i" "b \<noteq> i" by blast
    then show ?thesis
    proof cases
      case 2
      then show ?thesis
        using other [of b] that va match_sym [of "nd_key (?es ! a)"] i by simp
    next
      case 3
      then show ?thesis using other [of a] that i by simp
    next
      case 4
      then show ?thesis using table_inv_uniq [OF inv] that by simp
    qed simp
  qed
  show ?thesis
    using inv wf reach uniq unfolding table_inv_def length_list_update by blast
qed

lemma table_abs_Some:
  assumes inv: "table_inv t valid es" and i: "i < length es" "nd_taken (es ! i)"
    "mt_match t (nd_key (es ! i)) key" and v: "valid key"
  shows "table_abs t es key = Some (nd_value (es ! i))"
proof -
  let ?P = "\<lambda>n. nd_taken n \<and> mt_match t (nd_key n) key"
  have "find ?P es \<noteq> None"
    using i by (auto simp: find_None_iff in_set_conv_nth)
  then obtain j where j: "j < length es" "?P (es ! j)" "find ?P es = Some (es ! j)"
    by (auto simp: find_Some_iff)
  have "valid (nd_key (es ! j))" "valid (nd_key (es ! i))"
    using inv i j by (simp_all add: table_invD)
  then have "mt_match t (nd_key (es ! j)) (nd_key (es ! i))"
    using j i v match_sym match_trans by blast
  then have "j = i" using table_inv_uniq [OF inv] i j by blast
  with j show ?thesis by (simp add: table_abs_def)
qed

lemma table_write_abs:
  assumes inv: "table_inv t valid es" and s: "slot_for es key i" and v: "valid key" "valid key'"
  shows "table_abs t (es[i := node_taken key v (mt_get_key_len t key)]) key' =
    (if mt_match t key key' then Some v else table_abs t es key')"
    (is "table_abs t ?es key' = _")
proof -
  have inv': "table_inv t valid ?es" using inv s v(1) by (rule table_write_inv)
  have i: "i < length es" using s by (simp add: slot_for_def)
  show ?thesis
  proof (cases "mt_match t key key'")
    case True
    then show ?thesis using table_abs_Some [OF inv', of i key'] i v by simp
  next
    case False
    have no_i: "\<not> mt_match t (nd_key (es ! i)) key'" if "nd_taken (es ! i)"
    proof
      assume m: "mt_match t (nd_key (es ! i)) key'"
      have "valid (nd_key (es ! i))" using table_invD [OF inv i that] by simp
      moreover have "mt_match t (nd_key (es ! i)) key" using s that by (simp add: slot_for_def)
      ultimately have "mt_match t key key'"
        using m v match_sym match_trans by blast
      with False show False by simp
    qed
    show ?thesis
    proof (cases "table_abs t es key'")
      case None
      then have "table_abs t ?es key' = None"
        using False i unfolding table_abs_None by (auto simp: nth_list_update)
      with None False show ?thesis by simp
    next
      case (Some x)
      then obtain j where j: "j < length es" "nd_taken (es ! j)" "mt_match t (nd_key (es ! j)) key'"
        using table_abs_None by (metis option.distinct(1))
      then have "j \<noteq> i" using no_i by blast
      then show ?thesis
        using table_abs_Some [OF inv', of j key'] table_abs_Some [OF inv j v(2)] j v False by simp
    qed
  qed
qed

lemma next_slot:
  assumes inv: "table_inv t valid es" and k: "length es = 2 ^ k" "k < 51"
    and free: "f < length es" "\<not> nd_taken (es ! f)" and v: "valid key"
  obtains i where "mapGetNextIdx t es (mask k) key = Inr (of_nat i, \<not> nd_taken (es ! i))"
    and "slot_for es key i" and "nd_taken (es ! i) \<longleftrightarrow> table_abs t es key \<noteq> None"
proof (cases "table_abs t es key")
  case None
  then have "\<forall>i < length es. nd_taken (es ! i) \<longrightarrow> \<not> mt_match t (nd_key (es ! i)) key"
    by (simp add: table_abs_None)
  with mapGetIdx_absent(2) [OF inv k free, of key] None show thesis
    by (auto simp: slot_for_def intro!: that)
next
  case (Some x)
  then obtain j where j: "j < length es" "nd_taken (es ! j)" "mt_match t (nd_key (es ! j)) key"
    using table_abs_None by (metis option.distinct(1))
  then show thesis
    using mapGetIdx_present(2) [OF inv k j v] Some by (intro that [of j]) (auto simp: slot_for_def)
qed

text \<open>The (address, length) probe of a resize is the ordinary probe on well-formed nodes.\<close>

lemma resize_probe_eq:
  assumes inv: "table_inv t valid es" and k: "length es = 2 ^ k" "k < 51"
    and old: "node_wf t valid old" "nd_taken old"
  shows "resize_probe t es (mask k) old = mapGetNextIdx t es (mask k) (nd_key old)"
proof (cases "mt_key_is_cstring t")
  case True
  have len: "nd_key_len old = mt_get_key_len t (nd_key old)" and v: "valid (nd_key old)"
    using old by (auto simp: node_wf_def)
  let ?P = "\<lambda>i. nd_free (es ! i) \<or> nd_taken (es ! i) \<and> node_same_len t (nd_key old) (nd_key_len old) (es ! i)"
  let ?Q = "\<lambda>i. nd_free (es ! i) \<or> nd_taken (es ! i) \<and> mt_match t (nd_key (es ! i)) (nd_key old)"
  have "?P i = ?Q i" if "i < length es" for i
    using table_invD [OF inv that] len_match [of "nd_key (es ! i)" "nd_key old"] v True len
    by (auto simp: node_same_len_def)
  then have "find ?P (probe_path (2 ^ k) h (2 ^ k)) = find ?Q (probe_path (2 ^ k) h (2 ^ k))" for h
    using k by (intro find_cong) (auto simp: set_probe_path_full)
  then show ?thesis
    using True k len_hash [OF v True] len
    by (simp add: resize_probe_def mapGetCStringNextIdx_def mapGetNextIdx_def probe_free_find
        unat_and_mask)
qed (simp add: resize_probe_def)

end

end
