(* ===== verification/HashMap_Round.thy ===== *)
theory HashMap_Round
  imports HashMap
begin

text \<open>
  The bit trick of \<^verbatim>\<open>roundUpToNextPowerOf2\<close> (\<^verbatim>\<open>src/src/containers.c\<close>) against its meaning: smearing the
  highest set bit of \<open>v - 1\<close> downwards and adding one gives the least power of two above.
\<close>

section \<open>Rounding up to a power of two\<close>

text \<open>One smearing step doubles how far down every set bit has been copied.\<close>

lemma smear_step:
  fixes x y :: u64
  assumes "\<And>n. bit y n \<longleftrightarrow> (\<exists>j < s. bit x (n + j))"
  shows "bit (y OR drop_bit s y) n \<longleftrightarrow> (\<exists>j < 2 * s. bit x (n + j))"
proof -
  have "(\<exists>j < 2 * s. bit x (n + j)) \<longleftrightarrow>
      (\<exists>j < s. bit x (n + j)) \<or> (\<exists>j < s. bit x (n + s + j))"
  proof
    assume "\<exists>j < 2 * s. bit x (n + j)"
    then obtain j where j: "j < 2 * s" "bit x (n + j)" by blast
    show "(\<exists>j < s. bit x (n + j)) \<or> (\<exists>j < s. bit x (n + s + j))"
    proof (cases "j < s")
      case False
      then have "j - s < s" "bit x (n + s + (j - s))" using j by simp_all
      then show ?thesis by blast
    qed (use j in blast)
  next
    assume "(\<exists>j < s. bit x (n + j)) \<or> (\<exists>j < s. bit x (n + s + j))"
    then show "\<exists>j < 2 * s. bit x (n + j)"
    proof
      assume "\<exists>j < s. bit x (n + j)"
      then obtain j where "j < s" "bit x (n + j)" by blast
      then show ?thesis by (intro exI [of _ j]) simp
    next
      assume "\<exists>j < s. bit x (n + s + j)"
      then obtain j where "j < s" "bit x (n + s + j)" by blast
      then show ?thesis by (intro exI [of _ "s + j"]) (simp add: add.assoc)
    qed
  qed
  then show ?thesis by (simp add: bit_or_iff bit_drop_bit_eq assms add.commute)
qed

definition smear :: "u64 \<Rightarrow> u64" where
  "smear v = roundUpToNextPowerOf2 (v + 1) - 1"

lemma bit_smear: "bit (smear x) n \<longleftrightarrow> (\<exists>j < 64. bit x (n + j))"
proof -
  define y1 where "y1 = x OR drop_bit 1 x"
  define y2 where "y2 = y1 OR drop_bit 2 y1"
  define y3 where "y3 = y2 OR drop_bit 4 y2"
  define y4 where "y4 = y3 OR drop_bit 8 y3"
  define y5 where "y5 = y4 OR drop_bit 16 y4"
  define y6 where "y6 = y5 OR drop_bit 32 y5"
  have 0: "bit x n \<longleftrightarrow> (\<exists>j < 1. bit x (n + j))" for n by simp
  have 1: "bit y1 n \<longleftrightarrow> (\<exists>j < 2. bit x (n + j))" for n
    using smear_step [OF 0] by (simp add: y1_def)
  have 2: "bit y2 n \<longleftrightarrow> (\<exists>j < 4. bit x (n + j))" for n
    using smear_step [OF 1] by (simp add: y2_def)
  have 3: "bit y3 n \<longleftrightarrow> (\<exists>j < 8. bit x (n + j))" for n
    using smear_step [OF 2] by (simp add: y3_def)
  have 4: "bit y4 n \<longleftrightarrow> (\<exists>j < 16. bit x (n + j))" for n
    using smear_step [OF 3] by (simp add: y4_def)
  have 5: "bit y5 n \<longleftrightarrow> (\<exists>j < 32. bit x (n + j))" for n
    using smear_step [OF 4] by (simp add: y5_def)
  have "bit y6 n \<longleftrightarrow> (\<exists>j < 64. bit x (n + j))"
    using smear_step [OF 5] by (simp add: y6_def)
  moreover have "smear x = y6"
    by (simp add: smear_def roundUpToNextPowerOf2_def Let_def y1_def y2_def y3_def y4_def y5_def
        y6_def)
  ultimately show ?thesis by simp
qed

text \<open>The highest set bit of \<open>x\<close>, seen through the bounds on its value.\<close>

lemma smear_mask:
  assumes "2 ^ h \<le> unat x" "unat x < 2 ^ Suc h" "h < 64"
  shows "smear x = mask (Suc h)"
proof (rule bit_word_eqI)
  fix n assume n: "n < LENGTH(64)"
  have bit_x: "bit x i \<longleftrightarrow> odd (unat x div 2 ^ i)" for i
    by (simp add: bit_unsigned_iff flip: bit_iff_odd)
  have top: "bit x h"
  proof -
    have "unat x div 2 ^ h = 1"
      using assms(1,2) by (simp add: div_nat_eqI)
    then show ?thesis by (simp add: bit_x)
  qed
  have above: "\<not> bit x i" if "h < i" for i
  proof -
    have "unat x < 2 ^ i"
      using assms(2) that by (meson Suc_leI less_le_trans one_le_numeral power_increasing)
    then show ?thesis by (simp add: bit_x)
  qed
  show "bit (smear x) n = bit (mask (Suc h) :: u64) n"
  proof (cases "n \<le> h")
    case True
    then have "bit x (n + (h - n))" "h - n < 64" using top assms(3) by simp_all
    then have "bit (smear x) n" unfolding bit_smear by blast
    then show ?thesis using True n by (simp add: bit_mask_iff)
  next
    case False
    then have "\<not> bit (smear x) n" using above unfolding bit_smear by simp
    then show ?thesis using False by (simp add: bit_mask_iff)
  qed
qed


lemma round_pow2:
  assumes "1 \<le> unat v" "unat v \<le> 2 ^ 63"
  shows "\<exists>k \<le> 63. unat (roundUpToNextPowerOf2 v) = 2 ^ k \<and> unat v \<le> 2 ^ k \<and>
    (\<forall>j. unat v \<le> 2 ^ j \<longrightarrow> k \<le> j)"
proof (cases "unat v = 1")
  case True
  then have "v = 1" by (metis unat_1 word_unat_eq_iff)
  then show ?thesis
    by (intro exI [of _ 0]) (simp add: roundUpToNextPowerOf2_def)
next
  case False
  have sub: "unat (v - 1) = unat v - 1"
    using assms(1) by (intro unat_minus_one) auto
  then have pos: "0 < unat (v - 1)" using assms(1) False by simp
  then obtain h where h: "2 ^ h \<le> unat (v - 1)" "unat (v - 1) < 2 ^ Suc h"
    using ex_power_ivl1 [of 2 "unat (v - 1)"] by auto
  have lt: "(2::nat) ^ h < 2 ^ 63" using h(1) sub assms by linarith
  then have hb: "h < 63" by (rule power_less_imp_less_exp [rotated]) simp
  have "smear (v - 1) = mask (Suc h)" using h hb by (intro smear_mask) simp_all
  then have eq: "roundUpToNextPowerOf2 v = 2 ^ Suc h"
    by (simp add: smear_def mask_eq_exp_minus_1 del: power_Suc)
  have "unat (2 ^ Suc h :: u64) = 2 ^ Suc h"
    using hb unat_of_nat_u64 [of "2 ^ Suc h"] power_strict_increasing [of "Suc h" 64 "2::nat"]
    by simp
  moreover have "unat v \<le> 2 ^ Suc h" using h sub assms(1) by simp
  moreover have "Suc h \<le> j" if "unat v \<le> 2 ^ j" for j
  proof -
    have "(2::nat) ^ h < 2 ^ j" using h(1) sub that pos by linarith
    then show ?thesis by (simp add: Suc_le_eq)
  qed
  ultimately show ?thesis using eq hb by (intro exI [of _ "Suc h"]) simp
qed

text \<open>
  \<^verbatim>\<open>roundUpToNextPowerOf2\<close> returns the least power of two that is at least its argument, for
  every argument up to \<open>2 ^ 63\<close>; the argument 0 gives 0.
\<close>

theorem roundUpToNextPowerOf2_least:
  assumes "1 \<le> unat v" "unat v \<le> 2 ^ 63"
  shows "\<exists>k \<le> 63. unat (roundUpToNextPowerOf2 v) = 2 ^ k \<and> unat v \<le> 2 ^ k \<and>
    (\<forall>j. unat v \<le> 2 ^ j \<longrightarrow> k \<le> j)"
  using assms by (rule round_pow2)

theorem roundUpToNextPowerOf2_least_witness:
  "\<exists>k \<le> 63. unat (roundUpToNextPowerOf2 100) = 2 ^ k \<and> unat (100 :: u64) \<le> 2 ^ k \<and>
    (\<forall>j. unat (100 :: u64) \<le> 2 ^ j \<longrightarrow> k \<le> j)"
  by (rule roundUpToNextPowerOf2_least) simp_all

end
