(* ===== verification/HashMap_Correct.thy ===== *)
theory HashMap_Correct
  imports HashMap_Table HashMap_Round
begin

text \<open>
  The map operations of \<open>HashMap\<close> against their meaning: the map invariant, the partial function
  and the insertion-ordered list of bindings a map stands for, and what each operation does to them.
\<close>

section \<open>The map invariant\<close>

text \<open>The insertion-order vector lists exactly the taken slots, each once.\<close>

definition slots_ok :: "'v map_node list \<Rightarrow> u64 list \<Rightarrow> bool" where
  "slots_ok es idxs \<longleftrightarrow> distinct idxs \<and>
     unat ` set idxs = {i. i < length es \<and> nd_taken (es ! i)}"

definition cache_ok :: "map_type \<Rightarrow> (ptr \<Rightarrow> bool) \<Rightarrow> 'v hmap \<Rightarrow> bool" where
  "cache_ok t valid m \<longleftrightarrow>
     hm_cached_key m = ULONG_MAX \<and> hm_cached_idx m = ULONG_MAX \<or>
     unat (hm_cached_idx m) < length (hm_entries m) \<and> valid (hm_cached_key m) \<and>
     nd_taken (hm_entries m ! unat (hm_cached_idx m)) \<and>
     mt_match t (nd_key (hm_entries m ! unat (hm_cached_idx m))) (hm_cached_key m)"

definition map_inv :: "map_type \<Rightarrow> (ptr \<Rightarrow> bool) \<Rightarrow> 'v hmap \<Rightarrow> bool" where
  "map_inv t valid m \<longleftrightarrow>
     table_inv t valid (hm_entries m) \<and> hm_capacity m = length (hm_entries m) \<and>
     hm_mask m = of_nat (hm_capacity m) - 1 \<and>
     hm_threashold m = load_threashold (hm_capacity m) \<and>
     vec_inv (hm_indexes m) \<and> slots_ok (hm_entries m) (vec_list (hm_indexes m)) \<and>
     hm_size m = length (vec_list (hm_indexes m)) \<and> hm_size m \<le> hm_threashold m \<and>
     cache_ok t valid m"

definition map_abs :: "map_type \<Rightarrow> 'v hmap \<Rightarrow> ptr \<Rightarrow> 'v option option" where
  "map_abs t m = table_abs t (hm_entries m)"

lemma map_invD:
  assumes "map_inv t valid m"
  shows "table_inv t valid (hm_entries m)" "hm_capacity m = length (hm_entries m)"
    "hm_mask m = of_nat (hm_capacity m) - 1" "hm_threashold m = load_threashold (hm_capacity m)"
    "vec_inv (hm_indexes m)" "slots_ok (hm_entries m) (vec_list (hm_indexes m))"
    "hm_size m = length (vec_list (hm_indexes m))" "hm_size m \<le> load_threashold (hm_capacity m)"
    "cache_ok t valid m"
  using assms unfolding map_inv_def by (elim conjE, (assumption | simp only:))+

lemma slots_ok_taken:
  "slots_ok es idxs \<Longrightarrow> y \<in> set idxs \<Longrightarrow> unat y < length es \<and> nd_taken (es ! unat y)"
  unfolding slots_ok_def by blast

lemma slots_ok_card:
  assumes "slots_ok es idxs"
  shows "card {i. i < length es \<and> nd_taken (es ! i)} = length idxs"
proof -
  have "card (unat ` set idxs) = card (set idxs)"
    by (intro card_image inj_on_unat)
  with assms show ?thesis by (simp add: slots_ok_def distinct_card)
qed

lemma slots_ok_free:
  assumes "slots_ok es idxs" "length idxs < length es"
  obtains f where "f < length es" "\<not> nd_taken (es ! f)"
proof -
  have "{i. i < length es \<and> nd_taken (es ! i)} \<noteq> {..<length es}"
    using slots_ok_card [OF assms(1)] assms(2) by (metis card_lessThan less_irrefl)
  then show thesis using that by blast
qed

lemma slots_write:
  assumes "slots_ok es idxs" "i < length es" "length es < 2 ^ 64"
  shows "slots_ok (es[i := node_taken key v len])
    (if nd_taken (es ! i) then idxs else idxs @ [of_nat i])"
proof -
  have u: "unat (of_nat i :: u64) = i"
    using assms(2,3) by (simp add: unat_of_nat_u64)
  have "{j. j < length es \<and> nd_taken (es[i := node_taken key v len] ! j)} =
      insert i {j. j < length es \<and> nd_taken (es ! j)}"
    using assms(2) by (auto simp: nth_list_update)
  moreover have "of_nat i \<notin> set idxs" if "\<not> nd_taken (es ! i)"
    using assms(1) that u by (force simp: slots_ok_def)
  ultimately show ?thesis
    using assms(1,2) u by (auto simp: slots_ok_def)
qed

lemma load_threashold_less: "0 < cap \<Longrightarrow> load_threashold cap < cap"
  by (simp add: load_threashold_def)

lemma load_threashold_double: "2 \<le> cap \<Longrightarrow> load_threashold cap < load_threashold (cap * 2)"
  unfolding load_threashold_def by presburger

lemma table_inv_memset1:
  "0 < k \<Longrightarrow> k < 51 \<Longrightarrow> table_inv t valid (replicate (2 ^ k) node_memset1)"
  by (auto simp: table_inv_def node_wf_def)

lemma table_inv_pow2:
  assumes "table_inv t valid es"
  obtains k where "0 < k" "k < 51" "length es = 2 ^ k" "2 \<le> length es"
proof -
  obtain k where k: "0 < k" "k < 51" "length es = 2 ^ k"
    using assms by (auto simp: table_inv_def)
  moreover have "2 \<le> (2::nat) ^ k"
    using k(1) by (cases k) simp_all
  ultimately show thesis using that by simp
qed

text \<open>The key/value pairs at a list of slots, in its order.\<close>

definition bindings :: "'v map_node list \<Rightarrow> u64 list \<Rightarrow> (ptr \<times> 'v option) list" where
  "bindings es idxs = map (\<lambda>x. (nd_key (es ! unat x), nd_value (es ! unat x))) idxs"

lemma bindings_append:
  "bindings es (xs @ ys) = bindings es xs @ bindings es ys"
  "bindings es [x] = [(nd_key (es ! unat x), nd_value (es ! unat x))]"
  by (simp_all add: bindings_def)

lemma bindings_write:
  assumes "unat (of_nat j :: u64) = j" "j < length es" "of_nat j \<notin> set idxs"
  shows "bindings (es[j := node_taken key v len]) (idxs @ [of_nat j]) =
    bindings es idxs @ [(key, v)]"
proof -
  have "unat y \<noteq> j" if "y \<in> set idxs" for y
    using assms that by (metis word_unat_eq_iff)
  then have "es[j := node_taken key v len] ! unat y = es ! unat y" if "y \<in> set idxs" for y
    using that by (metis nth_list_update_neq)
  then show ?thesis using assms(1,2) by (auto simp: bindings_def)
qed

text \<open>The bindings of the old table that the copy loop has already moved.\<close>

definition moved_abs ::
  "map_type \<Rightarrow> 'v map_node list \<Rightarrow> u64 list \<Rightarrow> ptr \<Rightarrow> 'v option option" where
  "moved_abs t es idxs key =
     (if \<exists>x \<in> set idxs. mt_match t (nd_key (es ! unat x)) key then table_abs t es key else None)"

lemma moved_abs_all:
  assumes "slots_ok es idxs"
  shows "moved_abs t es idxs key = table_abs t es key"
proof (cases "table_abs t es key")
  case (Some v)
  then obtain i where "i < length es" "nd_taken (es ! i)" "mt_match t (nd_key (es ! i)) key"
    by (auto simp: table_abs_def find_Some_iff)
  moreover have "i \<in> unat ` set idxs"
    using assms calculation by (auto simp: slots_ok_def)
  ultimately show ?thesis by (auto simp: moved_abs_def)
qed (simp add: moved_abs_def)

definition map_bindings :: "'v hmap \<Rightarrow> (ptr \<times> 'v option) list" where
  "map_bindings m = bindings (hm_entries m) (vec_list (hm_indexes m))"

text \<open>What a chain of maps (a map and its parents) gives for a key; null when no map has it.\<close>

fun chain_abs :: "map_type \<Rightarrow> 'v hmap list \<Rightarrow> ptr \<Rightarrow> 'v option" where
  "chain_abs t [] key = None"
| "chain_abs t (m # ms) key =
     (case map_abs t m key of None \<Rightarrow> chain_abs t ms key | Some v \<Rightarrow> v)"

context key_type
begin

lemma resize_step:
  assumes old: "table_inv t valid es0" "unat x < length es0" "nd_taken (es0 ! unat x)"
    and prev: "\<forall>y \<in> set xs. unat y < length es0 \<and> nd_taken (es0 ! unat y)" "x \<notin> set xs"
    and new: "table_inv t valid es" "length es = 2 ^ k" "k < 51" "slots_ok es new"
      "length new < length es"
    and abs: "\<forall>key. valid key \<longrightarrow> table_abs t es key = moved_abs t es0 xs key"
  obtains i es' where
    "resize_probe t es (mask k) (es0 ! unat x) = Inr (of_nat i, True)"
    "es' = es[i := node_taken (nd_key (es0 ! unat x)) (nd_value (es0 ! unat x))
                  (nd_key_len (es0 ! unat x))]"
    "unat (of_nat i :: u64) = i" "i < length es" "of_nat i \<notin> set new"
    "table_inv t valid es'" "slots_ok es' (new @ [of_nat i])"
    "\<forall>key. valid key \<longrightarrow> table_abs t es' key = moved_abs t es0 (xs @ [x]) key"
proof -
  let ?old = "es0 ! unat x"
  have wf: "node_wf t valid ?old" and v: "valid (nd_key ?old)"
    and len: "nd_key_len ?old = mt_get_key_len t (nd_key ?old)"
    using old table_invD [OF old] by (auto simp: table_inv_def)
  obtain f where f: "f < length es" "\<not> nd_taken (es ! f)"
    using slots_ok_free [OF new(4,5)] by blast
  obtain i where i: "mapGetNextIdx t es (mask k) (nd_key ?old) = Inr (of_nat i, \<not> nd_taken (es ! i))"
    "slot_for es (nd_key ?old) i" "nd_taken (es ! i) \<longleftrightarrow> table_abs t es (nd_key ?old) \<noteq> None"
    using next_slot [OF new(1-3) f v] by blast
  have "\<not> mt_match t (nd_key (es0 ! unat y)) (nd_key ?old)" if "y \<in> set xs" for y
    using table_inv_uniq [OF old(1) _ old(2) _ old(3), of "unat y"] prev that
    by (metis word_unat_eq_iff)
  then have nt: "\<not> nd_taken (es ! i)"
    using i(3) abs v by (auto simp: moved_abs_def)
  have il: "i < length es" using i(2) by (simp add: slot_for_def)
  have small: "length es < 2 ^ 64"
  proof -
    have "(2::nat) ^ k < 2 ^ 64" using new(3) by (intro power_strict_increasing) simp_all
    with new(2) show ?thesis by simp
  qed
  define es' where "es' = es[i := node_taken (nd_key ?old) (nd_value ?old) (nd_key_len ?old)]"
  show thesis
  proof (rule that [of i es'])
    show "resize_probe t es (mask k) ?old = Inr (of_nat i, True)"
      using resize_probe_eq [OF new(1-3) wf old(3)] i(1) nt by simp
    show u: "unat (of_nat i :: u64) = i"
      using il small by (intro unat_of_nat_u64) simp
    show "i < length es" by (fact il)
    show "of_nat i \<notin> set new"
      using new(4) nt u by (force simp: slots_ok_def)
    show "table_inv t valid es'"
      using table_write_inv [OF new(1) i(2) v, of "nd_value ?old"] len by (simp add: es'_def)
    show "slots_ok es' (new @ [of_nat i])"
      using slots_write [OF new(4) il small] nt unfolding es'_def by presburger
    show "\<forall>key. valid key \<longrightarrow> table_abs t es' key = moved_abs t es0 (xs @ [x]) key"
      using table_write_abs [OF new(1) i(2) v, of _ "nd_value ?old"] abs len
        table_abs_Some [OF old]
      by (simp add: es'_def moved_abs_def)
  qed (simp add: es'_def)
qed

lemma resize_loop:
  assumes "table_inv t valid es0" "distinct L"
    and "\<forall>y \<in> set L. unat y < length es0 \<and> nd_taken (es0 ! unat y)"
    and "i + n = length L" "table_inv t valid es" "length es = 2 ^ k" "k < 51"
    and "slots_ok es new" "length L < length es"
    and "bindings es new = bindings es0 (take i L)"
    and "\<forall>key. valid key \<longrightarrow> table_abs t es key = moved_abs t es0 (take i L) key"
  shows "\<exists>es' new'. mapResize_loop t (mask k) es0 (map Some L @ rest) i n es new = Inr (es', new') \<and>
    table_inv t valid es' \<and> length es' = 2 ^ k \<and> slots_ok es' new' \<and>
    bindings es' new' = bindings es0 L \<and>
    (\<forall>key. valid key \<longrightarrow> table_abs t es' key = moved_abs t es0 L key)"
  using assms(4-)
proof (induction n arbitrary: i es new)
  case 0
  then show ?case by simp
next
  case (Suc n)
  then have i: "i < length L" by simp
  have x: "unat (L ! i) < length es0" "nd_taken (es0 ! unat (L ! i))"
    using assms(3) i by simp_all
  have prev: "\<forall>y \<in> set (take i L). unat y < length es0 \<and> nd_taken (es0 ! unat y)"
    using assms(3) by (meson in_set_takeD)
  have fresh: "L ! i \<notin> set (take i L)"
    using assms(2) i by (metis distinct_take not_distinct_conv_prefix take_Suc_conv_app_nth)
  have "length new = i"
    using arg_cong [OF Suc.prems(7), of length] i by (simp add: bindings_def)
  then have room: "length new < length es" using Suc.prems i by simp
  obtain j es' where j: "resize_probe t es (mask k) (es0 ! unat (L ! i)) = Inr (of_nat j, True)"
    "es' = es[j := node_taken (nd_key (es0 ! unat (L ! i))) (nd_value (es0 ! unat (L ! i)))
                  (nd_key_len (es0 ! unat (L ! i)))]"
    "unat (of_nat j :: u64) = j" "j < length es" "of_nat j \<notin> set new"
    "table_inv t valid es'" "slots_ok es' (new @ [of_nat j])"
    "\<forall>key. valid key \<longrightarrow> table_abs t es' key = moved_abs t es0 (take i L @ [L ! i]) key"
    using resize_step [OF assms(1) x prev fresh Suc.prems(2-5) room Suc.prems(8)] by blast
  have "bindings es' (new @ [of_nat j]) = bindings es0 (take (Suc i) L)"
    using bindings_write [OF j(3,4,5)] j(2) Suc.prems(7) i
    by (simp add: take_Suc_conv_app_nth bindings_append)
  then have "\<exists>es'' new'. mapResize_loop t (mask k) es0 (map Some L @ rest) (Suc i) n es'
      (new @ [of_nat j]) = Inr (es'', new') \<and>
    table_inv t valid es'' \<and> length es'' = 2 ^ k \<and> slots_ok es'' new' \<and>
    bindings es'' new' = bindings es0 L \<and>
    (\<forall>key. valid key \<longrightarrow> table_abs t es'' key = moved_abs t es0 L key)"
    using j Suc.prems i by (intro Suc.IH) (simp_all add: take_Suc_conv_app_nth)
  then show ?case
    using x i j by (simp add: cell_at_rep Let_def)
qed

text \<open>A resize keeps every binding, the insertion order and the invariant, at twice the size.\<close>

lemma mapResize_rep:
  assumes inv: "map_inv t valid m" and small: "hm_capacity m < 2 ^ 50"
    and busy: "hm_size m \<noteq> 0"
  shows "\<exists>m'. mapResize True t m = Inr (m', True) \<and> map_inv t valid m' \<and>
    hm_capacity m' = 2 * hm_capacity m \<and> hm_size m' = hm_size m \<and>
    map_bindings m' = map_bindings m \<and>
    (\<forall>key. valid key \<longrightarrow> map_abs t m' key = map_abs t m key)"
proof -
  let ?es0 = "hm_entries m" and ?L = "vec_list (hm_indexes m)"
  have tinv: "table_inv t valid ?es0" and sl: "slots_ok ?es0 ?L" and vi: "vec_inv (hm_indexes m)"
    and cap: "hm_capacity m = length ?es0" and sz: "hm_size m = length ?L"
    and thr: "hm_size m \<le> load_threashold (hm_capacity m)"
    using map_invD [OF inv] by simp_all
  obtain k where k: "0 < k" "k < 51" "length ?es0 = 2 ^ k" "2 \<le> length ?es0"
    using tinv by (rule table_inv_pow2)
  have k': "Suc k < 51" using k small cap power_strict_increasing_iff [of "2::nat" k 50] by simp
  have "(2::nat) ^ k * 2 = 2 ^ Suc k" by simp
  note new = table_inv_memset1 [of "Suc k" t valid, OF zero_less_Suc k']
  obtain rest where r: "vec_entries (hm_indexes m) = map Some ?L @ rest"
    "vec_size (hm_indexes m) = length ?L"
    using vi by (rule vec_rep)
  have taken: "\<forall>y \<in> set ?L. unat y < length ?es0 \<and> nd_taken (?es0 ! unat y)"
    using sl by (auto simp: slots_ok_def)
  have "length ?L < 2 ^ Suc k"
    using thr sz cap k load_threashold_less [of "2 ^ k"] by simp
  moreover have "slots_ok (replicate (2 ^ Suc k) (node_memset1 :: 'a map_node)) []"
    by (simp add: slots_ok_def)
  moreover have "table_abs t (replicate (2 ^ Suc k) (node_memset1 :: 'a map_node)) key =
      moved_abs t ?es0 (take 0 ?L) key" for key
    by (simp add: moved_abs_def table_abs_None)
  moreover have "distinct ?L" using sl by (simp add: slots_ok_def)
  ultimately obtain es' new' where loop:
    "mapResize_loop t (mask (Suc k)) ?es0 (map Some ?L @ rest) 0 (length ?L)
       (replicate (2 ^ Suc k) node_memset1) [] = Inr (es', new')"
    "table_inv t valid es'" "length es' = 2 ^ Suc k" "slots_ok es' new'"
    "bindings es' new' = bindings ?es0 ?L"
    "\<forall>key. valid key \<longrightarrow> table_abs t es' key = moved_abs t ?es0 ?L key"
    using resize_loop [OF tinv _ taken, of 0 "length ?L" "replicate (2 ^ Suc k) node_memset1"
        "Suc k" "[]" rest] new k'
    by (auto simp: bindings_def simp del: power_Suc)
  have len: "length new' = length ?L"
    using arg_cong [OF loop(5), of length] by (simp add: bindings_def)
  have all: "moved_abs t ?es0 ?L key = table_abs t ?es0 key" for key
    using sl by (rule moved_abs_all)
  define ix where "ix = \<lparr>vec_size = length new', vec_capacity = length ?L,
    vec_entries = map Some new' @ replicate (length ?L - length new') (Some 0)\<rparr>"
  have ix: "vec_inv ix \<and> vec_list ix = new'"
    using len busy sz by (intro vec_repI [where rest = "[]"]) (simp_all add: ix_def)
  define m' where "m' = m\<lparr>hm_mask := mask (Suc k), hm_entries := es', hm_capacity := 2 ^ Suc k,
    hm_indexes := ix, hm_size := length new', hm_threashold := load_threashold (2 ^ Suc k),
    hm_cached_key := ULONG_MAX, hm_cached_idx := ULONG_MAX\<rparr>"
  have "mapResize True t m = Inr (m', True)"
    using loop(1) k(3) cap r mask_of_pow2 [of "Suc k"]
    by (simp add: mapResize_def m'_def ix_def Let_def mult.commute)
  moreover have "map_inv t valid m'"
    using loop ix len thr sz cap k load_threashold_double [of "2 ^ k"] mask_of_pow2 [of "Suc k"]
    by (simp add: map_inv_def m'_def cache_ok_def mult.commute)
  moreover have "map_bindings m' = map_bindings m" "hm_capacity m' = 2 * hm_capacity m"
    "hm_size m' = hm_size m" "\<forall>key. valid key \<longrightarrow> map_abs t m' key = map_abs t m key"
    using loop ix len cap k sz all by (simp_all add: m'_def map_bindings_def map_abs_def)
  ultimately show ?thesis by blast
qed

lemma map_full_capacity:
  assumes inv: "map_inv t valid m" and small: "hm_size m < 2 ^ 49" and full: "hm_size m \<ge> hm_threashold m"
  shows "hm_capacity m < 2 ^ 50" "hm_size m \<noteq> 0" "2 \<le> hm_capacity m"
proof -
  note D = map_invD [OF inv]
  obtain k where k: "0 < k" "k < 51" "length (hm_entries m) = 2 ^ k" "2 \<le> length (hm_entries m)"
    using D(1) by (rule table_inv_pow2)
  have eq: "hm_size m = load_threashold (hm_capacity m)" using full D(4,8) by simp
  have "k < 50"
  proof (rule ccontr)
    assume "\<not> k < 50"
    then have "k = 50" using k(2) by simp
    then show False using eq small k D(2) by (simp add: load_threashold_def)
  qed
  then show "hm_capacity m < 2 ^ 50"
    using k D(2) power_strict_increasing_iff [of "2::nat" k 50] by simp
  show "hm_size m \<noteq> 0" "2 \<le> hm_capacity m"
    using eq k D(2) by (simp_all add: load_threashold_def)
qed

lemma map_ensure_room_rep:
  assumes inv: "map_inv t valid m" and small: "hm_size m < 2 ^ 49"
  shows "\<exists>m'. map_ensure_room True t m = Inr (m', True) \<and> map_inv t valid m' \<and>
    hm_size m' = hm_size m \<and> hm_size m' < hm_threashold m' \<and> map_bindings m' = map_bindings m \<and>
    (\<forall>key. valid key \<longrightarrow> map_abs t m' key = map_abs t m key)"
proof (cases "hm_size m \<ge> hm_threashold m")
  case True
  note D = map_invD [OF inv] and full = map_full_capacity [OF inv small True]
  obtain m' where m': "mapResize True t m = Inr (m', True)" "map_inv t valid m'"
    "hm_capacity m' = 2 * hm_capacity m" "hm_size m' = hm_size m" "map_bindings m' = map_bindings m"
    "\<forall>key. valid key \<longrightarrow> map_abs t m' key = map_abs t m key"
    using mapResize_rep [OF inv full(1,2)] by blast
  have "hm_size m' < hm_threashold m'"
    using m'(2-4) map_invD(4) [OF m'(2)] D(8) full(3) load_threashold_double [of "hm_capacity m"]
    by (simp add: mult.commute)
  with m' True show ?thesis by (auto simp: map_ensure_room_def)
qed (use inv in \<open>auto simp: map_ensure_room_def\<close>)

text \<open>What the insertion order becomes: a present key keeps its place, a new one goes last.\<close>

definition put_binding ::
  "ptr \<Rightarrow> 'v option \<Rightarrow> (ptr \<times> 'v option) list \<Rightarrow> (ptr \<times> 'v option) list" where
  "put_binding key v bs =
     (if \<exists>b \<in> set bs. mt_match t (fst b) key
      then map (\<lambda>b. if mt_match t (fst b) key then (key, v) else b) bs else bs @ [(key, v)])"

lemma bindings_present:
  assumes "slots_ok es idxs"
  shows "(\<exists>b \<in> set (bindings es idxs). mt_match t (fst b) key) \<longleftrightarrow> table_abs t es key \<noteq> None"
proof -
  have "(\<exists>b \<in> set (bindings es idxs). mt_match t (fst b) key) \<longleftrightarrow>
      (\<exists>i \<in> unat ` set idxs. mt_match t (nd_key (es ! i)) key)"
    by (auto simp: bindings_def)
  also have "\<dots> \<longleftrightarrow> table_abs t es key \<noteq> None"
    using assms unfolding table_abs_None slots_ok_def by auto
  finally show ?thesis .
qed

lemma bindings_put:
  assumes inv: "table_inv t valid es" and s: "slot_for es key i" and v: "valid key"
    and sl: "slots_ok es idxs" and u: "unat (of_nat i :: u64) = i"
    and p: "nd_taken (es ! i) \<longleftrightarrow> table_abs t es key \<noteq> None"
  shows "bindings (es[i := node_taken key x (mt_get_key_len t key)])
    (if nd_taken (es ! i) then idxs else idxs @ [of_nat i]) = put_binding key x (bindings es idxs)"
proof (cases "nd_taken (es ! i)")
  case True
  have i: "i < length es" "mt_match t (nd_key (es ! i)) key" using s True by (auto simp: slot_for_def)
  have "unat y = i \<longleftrightarrow> mt_match t (nd_key (es ! unat y)) key" if "y \<in> set idxs" for y
  proof
    assume m: "mt_match t (nd_key (es ! unat y)) key"
    have y: "unat y < length es" "nd_taken (es ! unat y)"
      using sl that by (auto simp: slots_ok_def)
    have "mt_match t (nd_key (es ! unat y)) (nd_key (es ! i))"
      using m i(2) v table_invD(2) [OF inv y] table_invD(2) [OF inv i(1) True] match_sym match_trans
      by blast
    then show "unat y = i" using table_inv_uniq [OF inv y(1) i(1) y(2) True] by simp
  qed (use i in simp)
  then have "map (\<lambda>y. (nd_key (es[i := node_taken key x l] ! unat y),
        nd_value (es[i := node_taken key x l] ! unat y))) idxs =
      map (\<lambda>y. if mt_match t (nd_key (es ! unat y)) key then (key, x)
        else (nd_key (es ! unat y), nd_value (es ! unat y))) idxs" for l
    using i(1) by (auto simp: nth_list_update)
  then show ?thesis
    using True p bindings_present [OF sl, of key]
    by (auto simp: put_binding_def bindings_def comp_def)
next
  case False
  have "of_nat i \<notin> set idxs" using sl False u by (force simp: slots_ok_def)
  then have "bindings (es[i := node_taken key x l]) (idxs @ [of_nat i]) = bindings es idxs @ [(key, x)]"
    for l using s u by (intro bindings_write) (simp_all add: slot_for_def)
  then show ?thesis
    using False p bindings_present [OF sl, of key] by (simp add: put_binding_def)
qed

lemma cache_ok_write:
  assumes inv: "map_inv t valid m" and s: "slot_for (hm_entries m) key i" and v: "valid key"
    and m': "hm_entries m' = (hm_entries m)[i := node_taken key x l]"
      "hm_cached_key m' = hm_cached_key m" "hm_cached_idx m' = hm_cached_idx m"
  shows "cache_ok t valid m'"
proof (cases "hm_cached_key m = ULONG_MAX \<and> hm_cached_idx m = ULONG_MAX")
  case False
  let ?es = "hm_entries m" and ?c = "unat (hm_cached_idx m)"
  have c: "?c < length ?es" "valid (hm_cached_key m)" "nd_taken (?es ! ?c)"
    "mt_match t (nd_key (?es ! ?c)) (hm_cached_key m)"
    using map_invD(9) [OF inv] False by (auto simp: cache_ok_def)
  have "mt_match t key (hm_cached_key m)" if "?c = i"
  proof -
    have "mt_match t (nd_key (?es ! ?c)) key" using s c(3) that by (auto simp: slot_for_def)
    then show ?thesis
      using c v table_invD(2) [OF map_invD(1) [OF inv] c(1,3)] match_sym match_trans by blast
  qed
  with c m' show ?thesis by (cases "?c = i") (simp_all add: cache_ok_def)
qed (use m' in \<open>simp add: cache_ok_def\<close>)

text \<open>The common core of the insertions, once there is room.\<close>

lemma map_put:
  assumes inv: "map_inv t valid m" and room: "hm_size m < hm_threashold m" and v: "valid key"
  obtains i m1 where
    "mapGetNextIdx t (hm_entries m) (hm_mask m) key = Inr (of_nat i, map_abs t m key = None)"
    "map_claim_slot m (of_nat i) (map_abs t m key = None) = Inr m1"
    "map_inv t valid (map_write_slot m1 (of_nat i) key x (mt_get_key_len t key))"
    "map_bindings (map_write_slot m1 (of_nat i) key x (mt_get_key_len t key)) =
       put_binding key x (map_bindings m)"
    "\<forall>key'. valid key' \<longrightarrow>
       map_abs t (map_write_slot m1 (of_nat i) key x (mt_get_key_len t key)) key' =
       (if mt_match t key key' then Some x else map_abs t m key')"
    "hm_size (map_write_slot m1 (of_nat i) key x (mt_get_key_len t key)) =
       hm_size m + (if map_abs t m key = None then 1 else 0)"
proof -
  note D = map_invD [OF inv]
  let ?es = "hm_entries m" and ?L = "vec_list (hm_indexes m)"
  obtain k where k: "0 < k" "k < 51" "length ?es = 2 ^ k" "2 \<le> length ?es"
    using D(1) by (rule table_inv_pow2)
  have msk: "hm_mask m = mask k" using D(2,3) k mask_of_pow2 [of k] by simp
  have lt: "length ?L < length ?es"
    using D(2,7,8) load_threashold_less [of "length ?es"] k by simp
  obtain f where f: "f < length ?es" "\<not> nd_taken (?es ! f)"
    using slots_ok_free [OF D(6) lt] by blast
  obtain i where i: "mapGetNextIdx t ?es (mask k) key = Inr (of_nat i, \<not> nd_taken (?es ! i))"
    "slot_for ?es key i" "nd_taken (?es ! i) \<longleftrightarrow> table_abs t ?es key \<noteq> None"
    using next_slot [OF D(1) k(3,2) f v] by blast
  have il: "i < length ?es" using i(2) by (simp add: slot_for_def)
  have small: "length ?es < 2 ^ 64"
    using k power_strict_increasing [of k 64 "2::nat"] by simp
  have u: "unat (of_nat i :: u64) = i" using il small by (intro unat_of_nat_u64) simp
  have nd: "\<not> nd_deleted (?es ! i)" if "\<not> nd_taken (?es ! i)"
    using D(1) il that by (auto simp: table_inv_def node_wf_def split: if_splits)
  obtain ix where ix: "vecPushInt (hm_indexes m) (of_nat i) = Inr ix" "vec_inv ix"
    "vec_list ix = ?L @ [of_nat i]"
    using vecPush_rep [OF D(5)] unfolding vecPushInt_eq by metis
  define m1 where "m1 = (if nd_taken (?es ! i) then m
    else m\<lparr>hm_indexes := ix, hm_size := hm_size m + 1\<rparr>)"
  let ?m2 = "map_write_slot m1 (of_nat i) key x (mt_get_key_len t key)"
  let ?es2 = "?es[i := node_taken key x (mt_get_key_len t key)]"
  have m1: "hm_entries m1 = ?es" "hm_capacity m1 = hm_capacity m" "hm_mask m1 = hm_mask m"
    "hm_threashold m1 = hm_threashold m" "hm_cached_key m1 = hm_cached_key m"
    "hm_cached_idx m1 = hm_cached_idx m"
    "vec_list (hm_indexes m1) = (if nd_taken (?es ! i) then ?L else ?L @ [of_nat i])"
    "vec_inv (hm_indexes m1)" "hm_size m1 = hm_size m + (if nd_taken (?es ! i) then 0 else 1)"
    using ix D(5) by (simp_all add: m1_def)
  have m2: "hm_entries ?m2 = ?es2" "hm_indexes ?m2 = hm_indexes m1" "hm_size ?m2 = hm_size m1"
    "hm_capacity ?m2 = hm_capacity m" "hm_mask ?m2 = hm_mask m" "hm_threashold ?m2 = hm_threashold m"
    "hm_cached_key ?m2 = hm_cached_key m" "hm_cached_idx ?m2 = hm_cached_idx m"
    using u m1 by (simp_all add: map_write_slot_def)
  have free: "(map_abs t m key = None) = (\<not> nd_taken (?es ! i))"
    using i(3) by (simp add: map_abs_def)
  show thesis
  proof (rule that [of i m1])
    show "mapGetNextIdx t (hm_entries m) (hm_mask m) key = Inr (of_nat i, map_abs t m key = None)"
      using i(1) free msk by simp
    show "map_claim_slot m (of_nat i) (map_abs t m key = None) = Inr m1"
      using ix(1) nd free u il by (simp add: map_claim_slot_def m1_def)
    have "slots_ok ?es2 (vec_list (hm_indexes ?m2))"
      using slots_write [OF D(6) il small] unfolding m1 m2 by presburger
    moreover have "table_inv t valid ?es2" by (rule table_write_inv [OF D(1) i(2) v])
    moreover have "cache_ok t valid ?m2" by (rule cache_ok_write [OF inv i(2) v m2(1,7,8)])
    ultimately show "map_inv t valid ?m2"
      using D m1 m2 room by (simp add: map_inv_def)
    show "map_bindings ?m2 = put_binding key x (map_bindings m)"
      using bindings_put [OF D(1) i(2) v D(6) u i(3)] unfolding map_bindings_def m1 m2 .
    show "\<forall>key'. valid key' \<longrightarrow>
        map_abs t ?m2 key' = (if mt_match t key key' then Some x else map_abs t m key')"
      using table_write_abs [OF D(1) i(2) v] unfolding map_abs_def m2 by blast
    show "hm_size ?m2 = hm_size m + (if map_abs t m key = None then 1 else 0)"
      using m1 m2 free by simp
  qed
qed

lemma mapAdd_rep:
  assumes inv: "map_inv t valid m" and small: "hm_size m < 2 ^ 49" and v: "valid key"
  shows "\<exists>m'. mapAdd True t m key x = Inr (m', True) \<and> map_inv t valid m' \<and>
    hm_size m' = hm_size m + (if map_abs t m key = None then 1 else 0) \<and>
    map_bindings m' = put_binding key x (map_bindings m) \<and>
    (\<forall>key'. valid key' \<longrightarrow>
       map_abs t m' key' = (if mt_match t key key' then Some x else map_abs t m key'))"
proof -
  obtain m0 where m0: "map_ensure_room True t m = Inr (m0, True)" "map_inv t valid m0"
    "hm_size m0 = hm_size m" "hm_size m0 < hm_threashold m0" "map_bindings m0 = map_bindings m"
    "\<forall>key. valid key \<longrightarrow> map_abs t m0 key = map_abs t m key"
    using map_ensure_room_rep [OF inv small] by blast
  obtain i m1 where p:
    "mapGetNextIdx t (hm_entries m0) (hm_mask m0) key = Inr (of_nat i, map_abs t m0 key = None)"
    "map_claim_slot m0 (of_nat i) (map_abs t m0 key = None) = Inr m1"
    and q: "map_inv t valid (map_write_slot m1 (of_nat i) key x (mt_get_key_len t key))"
    "map_bindings (map_write_slot m1 (of_nat i) key x (mt_get_key_len t key)) =
       put_binding key x (map_bindings m0)"
    "\<forall>key'. valid key' \<longrightarrow>
       map_abs t (map_write_slot m1 (of_nat i) key x (mt_get_key_len t key)) key' =
       (if mt_match t key key' then Some x else map_abs t m0 key')"
    "hm_size (map_write_slot m1 (of_nat i) key x (mt_get_key_len t key)) =
       hm_size m0 + (if map_abs t m0 key = None then 1 else 0)"
    by (rule map_put [OF m0(2,4) v, of x])
  have abs: "map_abs t m0 key = map_abs t m key" using m0(6) v by blast
  have "mapAdd True t m key x =
      Inr (map_write_slot m1 (of_nat i) key x (mt_get_key_len t key), True)"
    using m0(1) p by (simp add: mapAdd_def)
  then show ?thesis using q m0(3,5,6) abs by auto
qed

lemma mapAddOrErr_rep:
  assumes inv: "map_inv t valid m" and small: "hm_size m < 2 ^ 49" and v: "valid key"
  shows "\<exists>m'. mapAddOrErr True t m key x = Inr (m', map_abs t m key = None) \<and> map_inv t valid m' \<and>
    hm_size m' = hm_size m + (if map_abs t m key = None then 1 else 0) \<and>
    map_bindings m' = map_bindings m @ (if map_abs t m key = None then [(key, x)] else []) \<and>
    (\<forall>key'. valid key' \<longrightarrow> map_abs t m' key' =
       (if map_abs t m key = None \<and> mt_match t key key' then Some x else map_abs t m key'))"
proof -
  obtain m0 where m0: "map_ensure_room True t m = Inr (m0, True)" "map_inv t valid m0"
    "hm_size m0 = hm_size m" "hm_size m0 < hm_threashold m0" "map_bindings m0 = map_bindings m"
    "\<forall>key. valid key \<longrightarrow> map_abs t m0 key = map_abs t m key"
    using map_ensure_room_rep [OF inv small] by blast
  obtain i m1 where p:
    "mapGetNextIdx t (hm_entries m0) (hm_mask m0) key = Inr (of_nat i, map_abs t m0 key = None)"
    "map_claim_slot m0 (of_nat i) (map_abs t m0 key = None) = Inr m1"
    and q: "map_inv t valid (map_write_slot m1 (of_nat i) key x (mt_get_key_len t key))"
    "map_bindings (map_write_slot m1 (of_nat i) key x (mt_get_key_len t key)) =
       put_binding key x (map_bindings m0)"
    "\<forall>key'. valid key' \<longrightarrow>
       map_abs t (map_write_slot m1 (of_nat i) key x (mt_get_key_len t key)) key' =
       (if mt_match t key key' then Some x else map_abs t m0 key')"
    "hm_size (map_write_slot m1 (of_nat i) key x (mt_get_key_len t key)) =
       hm_size m0 + (if map_abs t m0 key = None then 1 else 0)"
    by (rule map_put [OF m0(2,4) v, of x])
  have abs: "map_abs t m0 key = map_abs t m key" using m0(6) v by blast
  have put: "put_binding key x (map_bindings m) = map_bindings m @ [(key, x)]" if "map_abs t m key = None"
    using that bindings_present [OF map_invD(6) [OF inv], of key]
    by (simp add: put_binding_def map_bindings_def map_abs_def)
  show ?thesis
  proof (cases "map_abs t m key = None")
    case True
    have "mapAddOrErr True t m key x =
        Inr (map_write_slot m1 (of_nat i) key x (mt_get_key_len t key), True)"
      using m0(1) p True abs by (simp add: mapAddOrErr_def)
    then show ?thesis using q m0(3,5,6) abs True put by auto
  next
    case False
    have "mapAddOrErr True t m key x = Inr (m0, False)"
      using m0(1) p False abs by (simp add: mapAddOrErr_def)
    then show ?thesis using m0 abs False by auto
  qed
qed

subsection \<open>Lookup\<close>

lemma map_lookup:
  assumes inv: "map_inv t valid m" and v: "valid key"
  shows "(\<exists>i < length (hm_entries m). nd_taken (hm_entries m ! i) \<and>
      mt_match t (nd_key (hm_entries m ! i)) key \<and>
      map_abs t m key = Some (nd_value (hm_entries m ! i)) \<and> unat (of_nat i :: u64) = i \<and>
      mapGetIdx t (hm_entries m) (hm_mask m) key = Inr (Some (of_nat i))) \<or>
    map_abs t m key = None \<and> mapGetIdx t (hm_entries m) (hm_mask m) key = Inr None"
proof -
  note D = map_invD [OF inv]
  let ?es = "hm_entries m"
  obtain k where k: "0 < k" "k < 51" "length ?es = 2 ^ k" "2 \<le> length ?es"
    using D(1) by (rule table_inv_pow2)
  have msk: "hm_mask m = mask k" using D(2,3) k mask_of_pow2 [of k] by simp
  have lt: "length (vec_list (hm_indexes m)) < length ?es"
    using D(2,7,8) load_threashold_less [of "length ?es"] k by simp
  show ?thesis
  proof (cases "map_abs t m key")
    case None
    obtain f where "f < length ?es" "\<not> nd_taken (?es ! f)"
      using slots_ok_free [OF D(6) lt] by blast
    with None msk show ?thesis
      using mapGetIdx_absent(1) [OF D(1) k(3,2)] by (simp add: map_abs_def table_abs_None)
  next
    case (Some x)
    then obtain i where i: "i < length ?es" "nd_taken (?es ! i)" "mt_match t (nd_key (?es ! i)) key"
      unfolding map_abs_def using table_abs_None by (metis option.distinct(1))
    have "unat (of_nat i :: u64) = i"
      using i k power_strict_increasing [of k 64 "2::nat"] by (intro unat_of_nat_u64) simp
    with i msk show ?thesis
      using mapGetIdx_present(1) [OF D(1) k(3,2) i v] table_abs_Some [OF D(1) i v]
      by (auto simp: map_abs_def)
  qed
qed

text \<open>Remembering a slot that holds the key keeps the invariant and the meaning.\<close>

lemma map_inv_cache:
  assumes inv: "map_inv t valid m" and i: "unat idx < length (hm_entries m)"
    "nd_taken (hm_entries m ! unat idx)" "mt_match t (nd_key (hm_entries m ! unat idx)) key" "valid key"
  shows "map_inv t valid (m\<lparr>hm_cached_key := key, hm_cached_idx := idx\<rparr>)"
  using map_invD [OF inv] i by (simp add: map_inv_def cache_ok_def)

lemma mapHas_rep:
  assumes inv: "map_inv t valid m" and v: "valid key"
  shows "\<exists>m'. mapHas t m key = Inr (m', map_abs t m key \<noteq> None) \<and> map_inv t valid m' \<and>
    map_bindings m' = map_bindings m \<and> map_abs t m' = map_abs t m"
  using map_lookup [OF assms]
  by (auto simp: mapHas_def map_bindings_def map_abs_def inv v intro!: map_inv_cache)

lemma map_cache_rep:
  assumes inv: "map_inv t valid m" and v: "valid key" and key: "key \<noteq> ULONG_MAX"
  shows "map_cache_hit m key = Inr None \<or>
    (\<exists>x. map_cache_hit m key = Inr (Some x) \<and> map_abs t m key = Some x)"
proof (cases "hm_cached_key m = key")
  case True
  let ?c = "unat (hm_cached_idx m)"
  have c: "?c < length (hm_entries m)" "nd_taken (hm_entries m ! ?c)"
    "mt_match t (nd_key (hm_entries m ! ?c)) key"
    using map_invD(9) [OF inv] key True by (auto simp: cache_ok_def)
  then show ?thesis
    using table_abs_Some [OF map_invD(1) [OF inv] c v] True
    by (simp add: map_cache_hit_def map_abs_def Let_def)
qed (simp add: map_cache_hit_def)

lemma map_walk_rep:
  assumes "\<forall>m \<in> set ms. map_inv t valid m" and v: "valid key"
  shows "\<exists>ms'. map_walk (\<lambda>m. mapGetIdx t (hm_entries m) (hm_mask m) key) ms =
      Inr (ms', chain_abs t ms key) \<and>
    list_all2 (\<lambda>m m'. map_inv t valid m' \<and> map_bindings m' = map_bindings m \<and>
      map_abs t m' = map_abs t m) ms ms'"
  using assms(1)
proof (induction ms)
  case (Cons m ms)
  have inv: "map_inv t valid m" using Cons.prems by simp
  have same: "list_all2 (\<lambda>m m'. map_inv t valid m' \<and> map_bindings m' = map_bindings m \<and>
      map_abs t m' = map_abs t m) ms ms"
    using Cons.prems by (simp add: list_all2_same)
  from map_lookup [OF inv v] show ?case
  proof (elim disjE exE conjE)
    fix i assume i: "i < length (hm_entries m)" "nd_taken (hm_entries m ! i)"
      "map_abs t m key = Some (nd_value (hm_entries m ! i))" "unat (of_nat i :: u64) = i"
      "mapGetIdx t (hm_entries m) (hm_mask m) key = Inr (Some (of_nat i))"
    have "valid (nd_key (hm_entries m ! i))"
      using table_invD(2) [OF map_invD(1) [OF inv] i(1,2)] .
    then have "map_inv t valid
        (m\<lparr>hm_cached_key := nd_key (hm_entries m ! i), hm_cached_idx := of_nat i\<rparr>)"
      using i inv by (intro map_inv_cache) (simp_all add: match_refl)
    then show ?case using i same by (simp add: map_bindings_def map_abs_def Let_def)
  next
    assume "map_abs t m key = None" "mapGetIdx t (hm_entries m) (hm_mask m) key = Inr None"
    then show ?case using Cons inv by auto
  qed
qed simp

lemma mapGet_rep:
  assumes inv: "\<forall>m \<in> set ms. map_inv t valid m" and ne: "ms \<noteq> []" and v: "valid key"
    and key: "key \<noteq> ULONG_MAX"
  shows "\<exists>ms'. mapGet t ms key = Inr (ms', chain_abs t ms key) \<and>
    list_all2 (\<lambda>m m'. map_inv t valid m' \<and> map_bindings m' = map_bindings m \<and>
      map_abs t m' = map_abs t m) ms ms'"
proof -
  obtain m ps where ms: "ms = m # ps" using ne by (cases ms) auto
  have same: "list_all2 (\<lambda>m m'. map_inv t valid m' \<and> map_bindings m' = map_bindings m \<and>
      map_abs t m' = map_abs t m) ms ms"
    using inv by (simp add: list_all2_same)
  from map_cache_rep [of m key] inv v key ms show ?thesis
    using map_walk_rep [OF inv v] same by (auto simp: mapGet_def)
qed

end

end
