(* ===== verification/HashMap_Iter.thy ===== *)
theory HashMap_Iter
  imports HashMap_Correct
begin

text \<open>
  Construction, iteration, clearing and merging of hash maps, the two key types of the compiler
  as instances of the key contract, and the dictionary interface the rest of the compiler
  relies on.
\<close>

section \<open>Construction\<close>

lemma mapNew_rep:
  assumes "2 \<le> unat capacity" "unat capacity \<le> 2 ^ 50"
  shows "map_inv t valid (mapNew capacity) \<and> map_abs t (mapNew capacity) = (\<lambda>_. None) \<and>
    map_bindings (mapNew capacity) = [] \<and> hm_size (mapNew capacity) = 0"
proof -
  have "1 \<le> unat capacity" "unat capacity \<le> 2 ^ 63" using assms by simp_all
  then obtain k where k: "unat (roundUpToNextPowerOf2 capacity) = 2 ^ k" "unat capacity \<le> 2 ^ k"
    "\<forall>j. unat capacity \<le> 2 ^ j \<longrightarrow> k \<le> j"
    using round_pow2 [of capacity] by blast
  have "k \<le> 50" using k(3) assms(2) by blast
  then have "k < 51" by simp
  moreover have "0 < k" using k(2) assms(1) by (cases k) simp_all
  ultimately have "table_inv t valid (replicate (2 ^ k) node_memset1)"
    by (intro table_inv_memset1)
  moreover have "table_abs t (replicate (2 ^ k) node_memset1) = (\<lambda>_. None)"
    by (rule ext) (simp add: table_abs_None)
  ultimately show ?thesis
    using k(1) vecNew_inv
    by (simp add: mapNew_def map_inv_def slots_ok_def cache_ok_def map_abs_def map_bindings_def
        bindings_def Let_def)
qed

section \<open>Iteration\<close>

text \<open>On a well-formed map the iterator passes over the insertion order without skipping.\<close>

lemma mapIterNext_rep:
  assumes inv: "map_inv t valid m"
  shows "mapIterNext m it =
    (if it_vecidx it < length (vec_list (hm_indexes m))
     then Inr (\<lparr>it_node = Some (vec_list (hm_indexes m) ! it_vecidx it), it_idx = it_idx it + 1,
                it_vecidx = it_vecidx it + 1\<rparr>, True)
     else Inr (it, False))"
proof -
  note D = map_invD [OF inv]
  let ?L = "vec_list (hm_indexes m)"
  have sz: "vec_size (hm_indexes m) = length ?L" using D(5) by (simp add: length_vec_list)
  show ?thesis
  proof (cases "it_vecidx it < length ?L")
    case True
    then have "?L ! it_vecidx it \<in> set ?L" by simp
    then have "unat (?L ! it_vecidx it) < length (hm_entries m)"
      "nd_taken (hm_entries m ! unat (?L ! it_vecidx it))"
      using D(6) unfolding slots_ok_def by blast+
    then show ?thesis
      using True sz vecGetAt_rep [OF D(5) True]
      by (subst mapIterNext.simps) (simp add: Let_def)
  qed (use sz in \<open>subst mapIterNext.simps, simp\<close>)
qed

text \<open>The loop over a map is a loop over its slots in insertion order.\<close>

lemma map_for_each_rep:
  assumes inv: "map_inv t valid m" and fuel: "length (vec_list (hm_indexes m)) - it_vecidx it < fuel"
  shows "map_for_each fuel m it body st =
    foldl (\<lambda>r x. rbind r (body x)) (Inr st) (drop (it_vecidx it) (vec_list (hm_indexes m)))"
  using fuel
proof (induction fuel arbitrary: it st)
  case (Suc fuel)
  let ?L = "vec_list (hm_indexes m)"
  have fault: "foldl (\<lambda>r x. rbind r (body x)) (Inl e) xs = Inl e" for e xs
    by (induction xs) auto
  show ?case
  proof (cases "it_vecidx it < length ?L")
    case True
    then have d: "drop (it_vecidx it) ?L = ?L ! it_vecidx it # drop (Suc (it_vecidx it)) ?L"
      by (simp add: Cons_nth_drop_Suc)
    show ?thesis
      using True Suc
      by (cases "body (?L ! it_vecidx it) st") (simp_all add: map_for_each.simps mapIterNext_rep [OF inv] d fault)
  qed (simp add: map_for_each.simps mapIterNext_rep [OF inv])
qed simp

lemma map_for_each_all:
  assumes inv: "map_inv t valid m"
  shows "map_for_each (vec_size (hm_indexes m) + 1) m mapIterInit body st =
    foldl (\<lambda>r x. rbind r (body x)) (Inr st) (vec_list (hm_indexes m))"
  using map_invD(5) [OF inv]
  by (subst map_for_each_rep [OF inv]) (simp_all add: mapIterInit_def length_vec_list)

lemma foldl_collect:
  "foldl (\<lambda>r x. rbind r (\<lambda>st. Inr (st @ [f x]))) (Inr acc) xs = Inr (acc @ map f xs)"
  by (induction xs arbitrary: acc) simp_all

lemma mapGetAt_rep:
  assumes "map_inv t valid m"
  shows "mapGetAt m index =
    Inr (if index < length (map_bindings m) then snd (map_bindings m ! index) else None)"
  using assms
  by (cases "index < length (map_bindings m)")
    (simp_all add: mapGetAt_def mapIterNext_rep mapIterInit_def map_bindings_def bindings_def)

section \<open>Clearing\<close>

definition node_cleared :: "'v map_node" where
  "node_cleared = \<lparr>nd_flags = MAP_FLAG_FREE, nd_key = NULL, nd_value = None, nd_key_len = 0\<rparr>"

lemma node_cleared_flags [simp]:
  "\<not> nd_taken node_cleared" "nd_free node_cleared" "\<not> nd_deleted node_cleared"
  by (simp_all add: nd_taken_def nd_free_def nd_deleted_def node_cleared_def
      MAP_FLAG_TAKEN_def MAP_FLAG_FREE_def MAP_FLAG_DELETED_def)

lemma clear_loop:
  "foldl (\<lambda>r x. rbind r (\<lambda>(es, vs, ks).
      let n = es0 ! unat x in
      Inr (es[unat x := node_cleared], (if rv then vs @ [nd_value n] else vs),
           (if rk then ks @ [nd_key n] else ks)))) (Inr (es, vs, ks)) xs =
   Inr (fold (\<lambda>x es. es[unat x := node_cleared]) xs es,
        vs @ (if rv then map snd (bindings es0 xs) else []),
        ks @ (if rk then map fst (bindings es0 xs) else []))"
  by (induction xs arbitrary: es vs ks) (simp_all add: Let_def bindings_def)

lemma clear_nth:
  "i < length es \<Longrightarrow> fold (\<lambda>x es. es[unat x := node_cleared]) xs es ! i =
    (if i \<in> unat ` set xs then node_cleared else es ! i)"
  by (induction xs arbitrary: es) (auto simp: nth_list_update)

lemma clear_length: "length (fold (\<lambda>x es. es[unat x := c]) xs es) = length es"
  by (induction xs arbitrary: es) simp_all

lemma table_inv_cleared:
  assumes "table_inv t valid es" "slots_ok es idxs"
  shows "table_inv t valid (fold (\<lambda>x es. es[unat x := node_cleared]) idxs es)"
    (is "table_inv t valid ?es")
    and "i < length es \<Longrightarrow> \<not> nd_taken (fold (\<lambda>x es. es[unat x := node_cleared]) idxs es ! i)"
proof -
  have nt: "\<not> nd_taken (?es ! i)" if "i < length es" for i
    using assms(2) that by (auto simp: clear_nth slots_ok_def)
  then show "i < length es \<Longrightarrow> \<not> nd_taken (?es ! i)" .
  have "node_wf t valid (?es ! i)" if "i < length es" for i
    using assms that by (auto simp: clear_nth slots_ok_def table_inv_def node_wf_def)
  then show "table_inv t valid ?es"
    using assms(1) nt by (simp add: table_inv_def clear_length)
qed

lemma mapClear_rep:
  assumes inv: "map_inv t valid m"
  shows "\<exists>m'. mapClear t m = Inr (m', if mt_value_release t then map snd (map_bindings m) else [],
      if mt_key_release t then map fst (map_bindings m) else []) \<and>
    map_inv t valid m' \<and> map_abs t m' = (\<lambda>_. None) \<and> map_bindings m' = [] \<and> hm_size m' = 0 \<and>
    hm_capacity m' = hm_capacity m"
proof -
  note D = map_invD [OF inv]
  let ?es = "fold (\<lambda>x es. es[unat x := node_cleared]) (vec_list (hm_indexes m)) (hm_entries m)"
  let ?ix = "fst (vecClear vec_unsigned_long_type (hm_indexes m))"
  define m' where "m' = m\<lparr>hm_entries := ?es, hm_size := 0, hm_indexes := ?ix,
    hm_cached_key := ULONG_MAX, hm_cached_idx := ULONG_MAX\<rparr>"
  have ix: "vec_inv ?ix" "vec_list ?ix = []"
    using vecClear_rep [OF D(5), of vec_unsigned_long_type] by simp_all
  note c = table_inv_cleared [OF D(1,6)]
  have "mapClear t m = Inr (m', if mt_value_release t then map snd (map_bindings m) else [],
      if mt_key_release t then map fst (map_bindings m) else [])"
    unfolding mapClear_def map_for_each_all [OF inv] node_cleared_def [symmetric] clear_loop
    by (simp add: map_bindings_def m'_def)
  moreover have "slots_ok ?es []" using c(2) by (auto simp: slots_ok_def clear_length)
  then have "map_inv t valid m'"
    using D ix c(1) by (simp add: m'_def map_inv_def clear_length cache_ok_def)
  moreover have "map_abs t m' = (\<lambda>_. None)"
    using c(2) by (auto simp: map_abs_def m'_def table_abs_None clear_length)
  ultimately show ?thesis using ix by (auto simp: m'_def map_bindings_def bindings_def)
qed

section \<open>Merging\<close>

definition first_binding ::
  "map_type \<Rightarrow> (ptr \<times> 'v option) list \<Rightarrow> ptr \<Rightarrow> 'v option option" where
  "first_binding t bs key = map_option snd (find (\<lambda>b. mt_match t (fst b) key) bs)"

lemma first_binding_simps [simp]:
  "first_binding t [] key = None"
  "first_binding t (b # bs) key =
     (if mt_match t (fst b) key then Some (snd b) else first_binding t bs key)"
  by (simp_all add: first_binding_def)

context key_type
begin

lemma first_binding_bindings:
  assumes inv: "table_inv t valid es" and v: "valid key"
    and idxs: "\<forall>x \<in> set idxs. unat x < length es \<and> nd_taken (es ! unat x)"
  shows "first_binding t (bindings es idxs) key = moved_abs t es idxs key"
  using idxs
proof (induction idxs)
  case (Cons x xs)
  then show ?case
    using table_abs_Some [OF inv, of "unat x" key] v
    by (auto simp: moved_abs_def bindings_def)
qed (simp add: moved_abs_def bindings_def)

lemma map_first_binding:
  assumes inv: "map_inv t valid m" and v: "valid key"
  shows "map_abs t m key = first_binding t (map_bindings m) key"
proof -
  note D = map_invD [OF inv]
  have "\<forall>x \<in> set (vec_list (hm_indexes m)). unat x < length (hm_entries m) \<and>
      nd_taken (hm_entries m ! unat x)"
    using D(6) unfolding slots_ok_def by blast
  then show ?thesis
    using first_binding_bindings [OF D(1) v] moved_abs_all [OF D(6), of t key]
    by (simp add: map_abs_def map_bindings_def)
qed

lemma map_abs_match:
  assumes inv: "map_inv t valid m" and v: "valid a" "valid b" and ab: "mt_match t a b"
  shows "map_abs t m a = map_abs t m b"
proof -
  have "mt_match t c a = mt_match t c b" if "valid c" for c
    using v ab that match_sym match_trans by blast
  then have "find (\<lambda>n. nd_taken n \<and> mt_match t (nd_key n) a) (hm_entries m) =
      find (\<lambda>n. nd_taken n \<and> mt_match t (nd_key n) b) (hm_entries m)"
    using table_invD(2) [OF map_invD(1) [OF inv]]
    by (intro find_cong) (auto simp: in_set_conv_nth)
  then show ?thesis by (simp add: map_abs_def table_abs_def)
qed

lemma map_inv_sizes:
  assumes "map_inv t valid m" "map_inv t valid m'" "map_bindings m' = map_bindings m"
  shows "hm_size m' = hm_size m"
  using arg_cong [OF assms(3), of length] map_invD(7) [OF assms(1)] map_invD(7) [OF assms(2)]
  by (simp add: map_bindings_def bindings_def)

lemma merge_loop:
  assumes "map_inv t valid m" "hm_size m + length xs \<le> 2 ^ 49"
    and "\<forall>x \<in> set xs. valid (nd_key (es ! unat x))"
  shows "\<exists>m'. foldl (\<lambda>r x. rbind r (\<lambda>m.
        let n = es ! unat x in
        rbind (mapAddOrErr True t m (nd_key n) (nd_value n)) (\<lambda>(m, _). Inr m))) (Inr m) xs = Inr m' \<and>
    map_inv t valid m' \<and>
    (\<forall>key. valid key \<longrightarrow> map_abs t m' key =
       (case map_abs t m key of Some x \<Rightarrow> Some x | None \<Rightarrow> first_binding t (bindings es xs) key))"
  using assms
proof (induction xs arbitrary: m)
  case Nil
  then show ?case by (auto simp: bindings_def split: option.split)
next
  case (Cons x xs)
  let ?n = "es ! unat x"
  have v: "valid (nd_key ?n)" using Cons.prems by simp
  obtain m1 where m1: "mapAddOrErr True t m (nd_key ?n) (nd_value ?n) =
      Inr (m1, map_abs t m (nd_key ?n) = None)" "map_inv t valid m1"
    "hm_size m1 = hm_size m + (if map_abs t m (nd_key ?n) = None then 1 else 0)"
    "\<forall>key. valid key \<longrightarrow> map_abs t m1 key =
       (if map_abs t m (nd_key ?n) = None \<and> mt_match t (nd_key ?n) key then Some (nd_value ?n)
        else map_abs t m key)"
    using mapAddOrErr_rep [OF Cons.prems(1) _ v, of "nd_value ?n"] Cons.prems(2) by auto
  have same: "map_abs t m key = map_abs t m (nd_key ?n)"
    if "valid key" "mt_match t (nd_key ?n) key" for key
    using map_abs_match [OF Cons.prems(1) v that] by simp
  obtain m' where "foldl (\<lambda>r x. rbind r (\<lambda>m.
        let n = es ! unat x in
        rbind (mapAddOrErr True t m (nd_key n) (nd_value n)) (\<lambda>(m, _). Inr m))) (Inr m1) xs = Inr m'"
    "map_inv t valid m'"
    "\<forall>key. valid key \<longrightarrow> map_abs t m' key =
       (case map_abs t m1 key of Some x \<Rightarrow> Some x | None \<Rightarrow> first_binding t (bindings es xs) key)"
    using Cons.IH [OF m1(2)] Cons.prems(2,3) m1(3) by (auto split: if_splits)
  then show ?case
    using m1 same by (auto simp: bindings_def Let_def split: option.split)
qed

lemma mapMerge_rep:
  assumes m1: "map_inv t valid m1" and m2: "map_inv t valid m2"
    and small: "hm_size m1 + hm_size m2 \<le> 2 ^ 49"
  shows "\<exists>m'. mapMerge True t m1 m2 = Inr m' \<and> map_inv t valid m' \<and>
    (\<forall>key. valid key \<longrightarrow> map_abs t m' key =
       (case map_abs t m1 key of Some x \<Rightarrow> Some x | None \<Rightarrow> map_abs t m2 key))"
proof -
  note D = map_invD [OF m2]
  have "\<forall>x \<in> set (vec_list (hm_indexes m2)). valid (nd_key (hm_entries m2 ! unat x))"
    using D(6) table_invD(2) [OF D(1)] unfolding slots_ok_def by blast
  then show ?thesis
    using merge_loop [OF m1, of "vec_list (hm_indexes m2)" "hm_entries m2"] small D(7)
      map_first_binding [OF m2]
    unfolding mapMerge_def map_for_each_all [OF m2] map_bindings_def
    by (simp cong: option.case_cong)
qed

end

section \<open>String keys\<close>

definition cstr_valid :: "cheap \<Rightarrow> ptr \<Rightarrow> bool" where
  "cstr_valid h p \<longleftrightarrow> p \<noteq> NULL \<and> cstrlen h p < 2 ^ 64"

lemma cstr_match:
  assumes "cstr_valid h a" "cstr_valid h b"
  shows "mapCStringEq h a b \<longleftrightarrow> cstring_at h a = cstring_at h b"
proof -
  have len: "cstrlen h p = length (cstring_at h p)" for p
    by (simp add: cstrlen_def cstring_at_def)
  show ?thesis
    using assms unfolding mapCStringEq_def cstr_valid_def
    by (metis cbytes_strlen len)
qed

interpretation cstr_keys: key_type "map_cstring_opaque_type h" "cstr_valid h" for h
proof
  let ?t = "map_cstring_opaque_type h"
  have m: "mt_match ?t a b \<longleftrightarrow> cstring_at h a = cstring_at h b"
    if "cstr_valid h a" "cstr_valid h b" for a b
    using cstr_match [OF that] by (simp add: map_cstring_opaque_type_def)
  have len: "unat (mt_get_key_len ?t a) = cstrlen h a" if "cstr_valid h a" for a
    using that by (simp add: map_cstring_opaque_type_def mapCStringLen_def cstr_valid_def
        unat_of_nat_u64)
  show "mt_match ?t a a" if "cstr_valid h a" for a using m that by simp
  show "mt_match ?t b a" if "cstr_valid h a" "cstr_valid h b" "mt_match ?t a b" for a b
    using m that by simp
  show "mt_match ?t a c" if "cstr_valid h a" "cstr_valid h b" "cstr_valid h c" "mt_match ?t a b"
    "mt_match ?t b c" for a b c using m that by simp
  show "mt_hash ?t a = mt_hash ?t b" if "cstr_valid h a" "cstr_valid h b" "mt_match ?t a b" for a b
    using m that by (simp add: map_cstring_opaque_type_def mapCStringHash_def cbytes_strlen)
  show "mapCStringHashLen (mt_heap ?t) a (mt_get_key_len ?t a) = mt_hash ?t a"
    if "cstr_valid h a" for a
    using len [OF that] by (simp add: map_cstring_opaque_type_def mapCStringHashLen_def
        mapCStringHash_def)
  show "mt_match ?t a b \<longleftrightarrow> mt_get_key_len ?t a = mt_get_key_len ?t b \<and>
      cbytes (mt_heap ?t) a (unat (mt_get_key_len ?t b)) =
      cbytes (mt_heap ?t) b (unat (mt_get_key_len ?t b))"
    if v: "cstr_valid h a" "cstr_valid h b" for a b
  proof -
    have "mt_get_key_len ?t a = mt_get_key_len ?t b \<longleftrightarrow> cstrlen h a = cstrlen h b"
      using len [OF v(1)] len [OF v(2)] by (metis word_unat_eq_iff)
    then show ?thesis
      unfolding len [OF v(2)] using v
      by (auto simp: map_cstring_opaque_type_def mapCStringEq_def cstr_valid_def)
  qed
qed

section \<open>The dictionary interface\<close>

text \<open>
  What the clients of a map rely on: on well-formed dictionaries with room left, storing never
  fails and binds the key and every key that is the same, and a lookup returns the binding.
\<close>

locale dictionary =
  fixes store :: "'s \<Rightarrow> 'k \<Rightarrow> 'v \<Rightarrow> 's result"
    and lookup :: "'s \<Rightarrow> 'k \<Rightarrow> ('s \<times> 'v option) result"
    and bound :: "'s \<Rightarrow> 'k \<Rightarrow> 'v option"
    and same :: "'k \<Rightarrow> 'k \<Rightarrow> bool"
    and good :: "'k \<Rightarrow> bool"
    and wf :: "'s \<Rightarrow> nat \<Rightarrow> bool"
  assumes store_ok: "wf s (Suc n) \<Longrightarrow> good k \<Longrightarrow> \<exists>s'. store s k v = Inr s' \<and> wf s' n \<and>
      (\<forall>k'. good k' \<longrightarrow> bound s' k' = (if same k k' then Some v else bound s k'))"
    and lookup_ok: "wf s n \<Longrightarrow> good k \<Longrightarrow> \<exists>s'. lookup s k = Inr (s', bound s k) \<and> wf s' n \<and>
      (\<forall>k'. good k' \<longrightarrow> bound s' k' = bound s k')"
begin

text \<open>A run of stores: the last binding of a key wins.\<close>

lemma stores:
  assumes "wf s (length kvs + n)" "\<forall>kv \<in> set kvs. good (fst kv)"
  shows "\<exists>s'. foldl (\<lambda>r (k, v). rbind r (\<lambda>s. store s k v)) (Inr s) kvs = Inr s' \<and> wf s' n \<and>
    (\<forall>k'. good k' \<longrightarrow> bound s' k' = (case find (\<lambda>kv. same (fst kv) k') (rev kvs) of
       Some kv \<Rightarrow> Some (snd kv) | None \<Rightarrow> bound s k'))"
  using assms
proof (induction kvs arbitrary: n rule: rev_induct)
  case (snoc kv kvs)
  obtain k v where kv: "kv = (k, v)" by (cases kv)
  obtain s1 where s1: "foldl (\<lambda>r (k, v). rbind r (\<lambda>s. store s k v)) (Inr s) kvs = Inr s1"
    "wf s1 (Suc n)" "\<forall>k'. good k' \<longrightarrow> bound s1 k' = (case find (\<lambda>kv. same (fst kv) k') (rev kvs) of
       Some kv \<Rightarrow> Some (snd kv) | None \<Rightarrow> bound s k')"
    using snoc.IH [of "Suc n"] snoc.prems by auto
  moreover obtain s' where "store s1 k v = Inr s'" "wf s' n"
    "\<forall>k'. good k' \<longrightarrow> bound s' k' = (if same k k' then Some v else bound s1 k')"
    using store_ok [OF s1(2), of k v] snoc.prems kv by auto
  ultimately show ?case by (auto simp: kv)
qed simp

lemma lookup_after_stores:
  assumes "wf s (length kvs)" "\<forall>kv \<in> set kvs. good (fst kv)" "good k'"
  shows "\<exists>s' s''. foldl (\<lambda>r (k, v). rbind r (\<lambda>s. store s k v)) (Inr s) kvs = Inr s' \<and>
    lookup s' k' = Inr (s'', case find (\<lambda>kv. same (fst kv) k') (rev kvs) of
       Some kv \<Rightarrow> Some (snd kv) | None \<Rightarrow> bound s k')"
  using stores [of s kvs 0] lookup_ok [of _ 0 k'] assms by fastforce

end

text \<open>A hash map used as a dictionary of non-null values.\<close>

definition map_store :: "map_type \<Rightarrow> 'v hmap \<Rightarrow> ptr \<Rightarrow> 'v \<Rightarrow> 'v hmap result" where
  "map_store t m key v = rbind (mapAdd True t m key (Some v)) (\<lambda>(m', _). Inr m')"

definition map_look :: "map_type \<Rightarrow> 'v hmap \<Rightarrow> ptr \<Rightarrow> ('v hmap \<times> 'v option) result" where
  "map_look t m key = rbind (mapGet t [m] key) (\<lambda>(ms, v). Inr (hd ms, v))"

definition map_bound :: "map_type \<Rightarrow> 'v hmap \<Rightarrow> ptr \<Rightarrow> 'v option" where
  "map_bound t m key = chain_abs t [m] key"

definition map_room :: "map_type \<Rightarrow> (ptr \<Rightarrow> bool) \<Rightarrow> 'v hmap \<Rightarrow> nat \<Rightarrow> bool" where
  "map_room t valid m n \<longleftrightarrow> map_inv t valid m \<and> hm_size m + n \<le> 2 ^ 49"

sublocale key_type \<subseteq> dict: dictionary "map_store t" "map_look t" "map_bound t" "mt_match t"
  "\<lambda>k. valid k \<and> k \<noteq> ULONG_MAX" "map_room t valid"
proof
  show "\<exists>s'. map_store t s k v = Inr s' \<and> map_room t valid s' n \<and>
      (\<forall>k'. valid k' \<and> k' \<noteq> ULONG_MAX \<longrightarrow>
        map_bound t s' k' = (if mt_match t k k' then Some v else map_bound t s k'))"
    if "map_room t valid s (Suc n)" "valid k \<and> k \<noteq> ULONG_MAX" for s n k v
    using that mapAdd_rep [of s k "Some v"]
    by (auto simp: map_room_def map_store_def map_bound_def)
  show "\<exists>s'. map_look t s k = Inr (s', map_bound t s k) \<and> map_room t valid s' n \<and>
      (\<forall>k'. valid k' \<and> k' \<noteq> ULONG_MAX \<longrightarrow> map_bound t s' k' = map_bound t s k')"
    if room: "map_room t valid s n" "valid k \<and> k \<noteq> ULONG_MAX" for s n k
  proof -
    have inv: "map_inv t valid s" using room by (simp add: map_room_def)
    then obtain m' where m': "mapGet t [s] k = Inr ([m'], chain_abs t [s] k)" "map_inv t valid m'"
      "map_bindings m' = map_bindings s" "map_abs t m' = map_abs t s"
      using mapGet_rep [of "[s]" k] room by (auto simp: list_all2_Cons1)
    then show ?thesis
      using room map_inv_sizes [OF inv m'(2,3)]
      by (simp add: map_room_def map_look_def map_bound_def)
  qed
qed

end
