(* ===== verification/HashMap_Tomb.thy ===== *)
theory HashMap_Tomb
  imports HashMap_Iter
begin

text \<open>
  Hash maps with tombstones. \<^verbatim>\<open>mapRemove\<close> leaves a deleted node in the table and the slot's number
  in the insertion-order vector; a later \<^verbatim>\<open>mapAdd\<close> may take the slot again, and a resize drops both.
  A map with tombstones is related to the map without them (deleted nodes as good as free, their
  slot numbers taken out of the vector), to which the lemmas of \<open>HashMap_Correct\<close> apply.
\<close>

section \<open>Maps with tombstones\<close>

definition node_deleted :: "'v map_node" where
  "node_deleted = \<lparr>nd_flags = MAP_FLAG_DELETED, nd_key = NULL, nd_value = None, nd_key_len = 0\<rparr>"

lemma node_deleted_flags [simp]: "\<not> nd_taken node_deleted" "nd_free node_deleted" "nd_deleted node_deleted"
  by (simp_all add: nd_taken_def nd_free_def nd_deleted_def node_deleted_def
      MAP_FLAG_TAKEN_def MAP_FLAG_FREE_def MAP_FLAG_DELETED_def)

lemma nd_deleted_free: "nd_deleted n \<Longrightarrow> nd_free n"
proof -
  have "nd_flags n AND 4 = (nd_flags n AND 5) AND 4" by (simp add: and.assoc)
  then show "nd_deleted n \<Longrightarrow> nd_free n"
    by (auto simp: nd_free_def nd_deleted_def MAP_FLAG_FREE_def MAP_FLAG_DELETED_def)
qed

definition purge_node :: "'v map_node \<Rightarrow> 'v map_node" where
  "purge_node n = (if nd_taken n then n else node_memset1)"

definition purge :: "'v map_node list \<Rightarrow> 'v map_node list" where
  "purge es = map purge_node es"

lemma purge_node_simps [simp]:
  "nd_taken (purge_node n) = nd_taken n"
  "nd_taken n \<Longrightarrow> purge_node n = n"
  "purge_node (node_taken k v len) = node_taken k v len"
  by (simp_all add: purge_node_def)

lemma purge_simps [simp]:
  "length (purge es) = length es"
  "i < length es \<Longrightarrow> purge es ! i = purge_node (es ! i)"
  "purge (es[i := node_taken k v len]) = (purge es)[i := node_taken k v len]"
  by (simp_all add: purge_def map_update)

text \<open>The slots that hold a binding, in insertion order.\<close>

definition live_slots :: "'v hmap \<Rightarrow> u64 list" where
  "live_slots m = filter (\<lambda>x. nd_taken (hm_entries m ! unat x)) (vec_list (hm_indexes m))"

definition live_bindings :: "'v hmap \<Rightarrow> (ptr \<times> 'v option) list" where
  "live_bindings m = bindings (hm_entries m) (live_slots m)"

text \<open>
  Every slot number of the vector names a taken or a deleted slot, each once; every key is reachable
  from its home slot over taken slots, so no removal has hidden it.
\<close>

definition map_ok :: "map_type \<Rightarrow> (ptr \<Rightarrow> bool) \<Rightarrow> 'v hmap \<Rightarrow> bool" where
  "map_ok t valid m \<longleftrightarrow>
     table_inv t valid (purge (hm_entries m)) \<and>
     (\<forall>i < length (hm_entries m). \<not> nd_taken (hm_entries m ! i) \<longrightarrow> nd_free (hm_entries m ! i)) \<and>
     hm_capacity m = length (hm_entries m) \<and> hm_mask m = of_nat (hm_capacity m) - 1 \<and>
     hm_threashold m = load_threashold (hm_capacity m) \<and>
     vec_inv (hm_indexes m) \<and> distinct (vec_list (hm_indexes m)) \<and>
     unat ` set (vec_list (hm_indexes m)) =
       {i. i < length (hm_entries m) \<and> (nd_taken (hm_entries m ! i) \<or> nd_deleted (hm_entries m ! i))} \<and>
     hm_size m = card {i. i < length (hm_entries m) \<and> nd_taken (hm_entries m ! i)} \<and>
     hm_size m \<le> hm_threashold m \<and> cache_ok t valid m"

lemma map_okD:
  assumes "map_ok t valid m"
  shows "table_inv t valid (purge (hm_entries m))"
    "\<forall>i < length (hm_entries m). \<not> nd_taken (hm_entries m ! i) \<longrightarrow> nd_free (hm_entries m ! i)"
    "hm_capacity m = length (hm_entries m)" "hm_mask m = of_nat (hm_capacity m) - 1"
    "hm_threashold m = load_threashold (hm_capacity m)"
    "vec_inv (hm_indexes m)" "distinct (vec_list (hm_indexes m))"
    "unat ` set (vec_list (hm_indexes m)) =
       {i. i < length (hm_entries m) \<and> (nd_taken (hm_entries m ! i) \<or> nd_deleted (hm_entries m ! i))}"
    "hm_size m = card {i. i < length (hm_entries m) \<and> nd_taken (hm_entries m ! i)}"
    "hm_size m \<le> load_threashold (hm_capacity m)" "cache_ok t valid m"
  using assms unfolding map_ok_def by (elim conjE, (assumption | simp only:))+

text \<open>The map without its tombstones.\<close>

definition vec_of :: "u64 list \<Rightarrow> vec" where
  "vec_of xs = \<lparr>vec_size = length xs, vec_capacity = Suc (length xs), vec_entries = map Some xs @ [None]\<rparr>"

lemma vec_of_inv [simp]: "vec_inv (vec_of xs)" "vec_list (vec_of xs) = xs"
  using vec_repI [of "vec_of xs" xs "[None]"] by (simp_all add: vec_of_def)

definition purged :: "'v hmap \<Rightarrow> 'v hmap" where
  "purged m = m\<lparr>hm_entries := purge (hm_entries m), hm_indexes := vec_of (live_slots m)\<rparr>"

lemma purged_simps [simp]:
  "hm_entries (purged m) = purge (hm_entries m)" "vec_list (hm_indexes (purged m)) = live_slots m"
  "vec_inv (hm_indexes (purged m))" "hm_size (purged m) = hm_size m" "hm_capacity (purged m) = hm_capacity m"
  "hm_mask (purged m) = hm_mask m" "hm_threashold (purged m) = hm_threashold m"
  "hm_cached_key (purged m) = hm_cached_key m" "hm_cached_idx (purged m) = hm_cached_idx m"
  by (simp_all add: purged_def)

lemma cache_ok_purge:
  assumes "hm_cached_key m' = hm_cached_key m" "hm_cached_idx m' = hm_cached_idx m" "hm_entries m' = purge (hm_entries m)"
  shows "cache_ok t valid m' \<longleftrightarrow> cache_ok t valid m"
  using assms by (auto simp: cache_ok_def)

lemma slots_ok_live:
  assumes "map_ok t valid m"
  shows "slots_ok (purge (hm_entries m)) (live_slots m)"
proof -
  note D = map_okD [OF assms]
  have "unat ` set (live_slots m) = {i \<in> unat ` set (vec_list (hm_indexes m)). nd_taken (hm_entries m ! i)}"
    by (auto simp: live_slots_def)
  also have "\<dots> = {i. i < length (purge (hm_entries m)) \<and> nd_taken (purge (hm_entries m) ! i)}"
    unfolding D(8) by auto
  finally show ?thesis using D(7) by (simp add: slots_ok_def live_slots_def)
qed

lemma map_inv_purged:
  assumes "map_ok t valid m"
  shows "map_inv t valid (purged m)"
proof -
  note D = map_okD [OF assms]
  have "{i. i < length (hm_entries m) \<and> nd_taken (hm_entries m ! i)} =
      {i. i < length (purge (hm_entries m)) \<and> nd_taken (purge (hm_entries m) ! i)}" by auto
  then have "hm_size m = length (live_slots m)"
    using slots_ok_card [OF slots_ok_live [OF assms]] D(9) by simp
  then show ?thesis
    using D slots_ok_live [OF assms] cache_ok_purge [of "purged m" m] by (simp add: map_inv_def)
qed

lemma purged_bindings:
  assumes "map_ok t valid m"
  shows "map_bindings (purged m) = live_bindings m"
proof -
  have "nd_taken (hm_entries m ! unat x) \<and> unat x < length (hm_entries m)" if "x \<in> set (live_slots m)" for x
    using slots_ok_taken [OF slots_ok_live [OF assms] that] by auto
  then show ?thesis by (simp add: map_bindings_def live_bindings_def bindings_def)
qed

lemma purge_abs [simp]: "table_abs t (purge es) key = table_abs t es key"
proof -
  have "find (\<lambda>n. nd_taken n \<and> mt_match t (nd_key n) key) (map purge_node es) =
      find (\<lambda>n. nd_taken n \<and> mt_match t (nd_key n) key) es"
    by (induction es) auto
  then show ?thesis by (simp add: table_abs_def purge_def)
qed

lemma purged_abs [simp]: "map_abs t (purged m) = map_abs t m"
  by (rule ext) (simp add: map_abs_def)

text \<open>A map without tombstones is one of these.\<close>

lemma map_inv_ok:
  assumes "map_inv t valid m"
  shows "map_ok t valid m" "live_bindings m = map_bindings m"
proof -
  note D = map_invD [OF assms]
  let ?es = "hm_entries m"
  have wf: "node_wf t valid (?es ! i)" if "i < length ?es" for i using D(1) that by (simp add: table_inv_def)
  then have nt: "nd_free (?es ! i) \<and> \<not> nd_deleted (?es ! i)" if "i < length ?es" "\<not> nd_taken (?es ! i)" for i
    using that by (auto simp: node_wf_def split: if_splits)
  have "node_wf t valid (purge ?es ! i)" if "i < length ?es" for i
    using wf [OF that] that by (cases "nd_taken (?es ! i)") (simp_all add: node_wf_def purge_node_def)
  moreover have "?es \<noteq> []" using D(1) by (auto simp: table_inv_def)
  then have "reachable_slot (purge ?es) h i = reachable_slot ?es h i" for h i
    by (simp add: reachable_slot_def)
  ultimately have table: "table_inv t valid (purge ?es)"
    using D(1) by (simp add: table_inv_def)
  have "unat ` set (vec_list (hm_indexes m)) = {i. i < length ?es \<and> (nd_taken (?es ! i) \<or> nd_deleted (?es ! i))}"
    using D(6) nt by (auto simp: slots_ok_def)
  then show "map_ok t valid m"
    using D table nt slots_ok_card [OF D(6)] by (simp add: map_ok_def slots_ok_def)
  have "live_slots m = vec_list (hm_indexes m)"
    using slots_ok_taken [OF D(6)] by (simp add: live_slots_def)
  then show "live_bindings m = map_bindings m" by (simp add: live_bindings_def map_bindings_def)
qed

section \<open>Probing and resizing past tombstones\<close>

lemma probe_taken_purge:
  "probe_taken n (purge es) msk same idx = probe_taken n es msk same idx"
  by (induction n arbitrary: idx) (simp_all add: Let_def)

lemma probe_free_purge:
  assumes "\<And>i. i < length es \<Longrightarrow> \<not> nd_taken (es ! i) \<Longrightarrow> nd_free (es ! i)"
  shows "probe_free n (purge es) msk same idx = probe_free n es msk same idx"
  by (induction n arbitrary: idx) (use assms in \<open>auto simp: Let_def purge_node_def\<close>)

lemma mapGetIdx_purge: "mapGetIdx t (purge es) msk key = mapGetIdx t es msk key"
  by (simp add: mapGetIdx_def probe_taken_purge)

lemma mapGetNextIdx_purge:
  assumes "map_ok t valid m"
  shows "mapGetNextIdx t (purge (hm_entries m)) msk key = mapGetNextIdx t (hm_entries m) msk key"
  using map_okD(2) [OF assms] by (simp add: mapGetNextIdx_def probe_free_purge)

text \<open>The copy loop over the vector copies the live slots.\<close>

lemma resize_loop_shift:
  "mapResize_loop t msk es0 (c # cs) (Suc i) n es new = mapResize_loop t msk es0 cs i n es new"
  by (induction n arbitrary: i es new) (simp_all add: cell_at_def Let_def cong: if_cong)

lemma resize_loop_live:
  assumes "\<forall>x \<in> set L. unat x < length es0"
  shows "mapResize_loop t msk es0 (map Some L @ rest) 0 (length L) es new =
    mapResize_loop t msk (purge es0) (map Some (filter (\<lambda>x. nd_taken (es0 ! unat x)) L) @ rest') 0
      (length (filter (\<lambda>x. nd_taken (es0 ! unat x)) L)) es new"
  using assms
  by (induction L arbitrary: es new) (auto simp: cell_at_def resize_loop_shift Let_def split: sum.split)

lemma mapResize_True:
  "mapResize True t m = Inr (m', True) \<longleftrightarrow>
   (\<exists>es new. mapResize_loop t (of_nat (hm_capacity m * 2) - 1) (hm_entries m) (vec_entries (hm_indexes m)) 0
      (vec_size (hm_indexes m)) (replicate (hm_capacity m * 2) node_memset1) [] = Inr (es, new) \<and>
    m' = m\<lparr>hm_mask := of_nat (hm_capacity m * 2) - 1, hm_entries := es, hm_capacity := hm_capacity m * 2,
       hm_indexes := \<lparr>vec_size = length new, vec_capacity = vec_size (hm_indexes m),
         vec_entries = map Some new @ replicate (vec_size (hm_indexes m) - length new) (Some 0)\<rparr>,
       hm_size := length new, hm_threashold := load_threashold (hm_capacity m * 2),
       hm_cached_key := ULONG_MAX, hm_cached_idx := ULONG_MAX\<rparr>)"
  by (auto simp: mapResize_def Let_def)

text \<open>Maps that differ in the remembered slot only.\<close>

definition same_but_cache :: "'v hmap \<Rightarrow> 'v hmap \<Rightarrow> bool" where
  "same_but_cache m m' \<longleftrightarrow> m' = m\<lparr>hm_cached_key := hm_cached_key m', hm_cached_idx := hm_cached_idx m'\<rparr>"

text \<open>
  Taking slot \<open>i\<close>: its number joins the vector unless the slot is taken or a tombstone, whose number is there already.
\<close>

definition slots_taking :: "'v hmap \<Rightarrow> nat \<Rightarrow> u64 list" where
  "slots_taking m i = vec_list (hm_indexes m) @
     (if nd_taken (hm_entries m ! i) \<or> nd_deleted (hm_entries m ! i) then [] else [of_nat i])"

lemma slot_listed:
  assumes "map_ok t valid m" "i < length (hm_entries m)" "unat (of_nat i :: u64) = i"
  shows "of_nat i \<in> set (vec_list (hm_indexes m)) \<longleftrightarrow> nd_taken (hm_entries m ! i) \<or> nd_deleted (hm_entries m ! i)"
proof -
  have "of_nat i \<in> set (vec_list (hm_indexes m)) \<longleftrightarrow> i \<in> unat ` set (vec_list (hm_indexes m))"
    using assms(3) by (metis image_iff word_unat_eq_iff)
  then show ?thesis using map_okD(8) [OF assms(1)] assms(2) by simp
qed

lemma slots_taking_ok:
  assumes ok: "map_ok t valid m" and i: "i < length (hm_entries m)" "unat (of_nat i :: u64) = i"
    and es2_def: "es2 = (hm_entries m)[i := node_taken key x len]"
  shows "distinct (slots_taking m i)"
    "unat ` set (slots_taking m i) = {j. j < length es2 \<and> (nd_taken (es2 ! j) \<or> nd_deleted (es2 ! j))}"
    "card {j. j < length es2 \<and> nd_taken (es2 ! j)} = hm_size m + (if nd_taken (hm_entries m ! i) then 0 else 1)"
proof -
  note D = map_okD [OF ok] and listed = slot_listed [OF ok i]
  show "distinct (slots_taking m i)" using D(7) listed by (auto simp: slots_taking_def)
  have "set (slots_taking m i) = insert (of_nat i) (set (vec_list (hm_indexes m)))"
    using listed by (auto simp: slots_taking_def)
  then have "unat ` set (slots_taking m i) = insert i (unat ` set (vec_list (hm_indexes m)))" using i(2) by simp
  also have "\<dots> = {j. j < length es2 \<and> (nd_taken (es2 ! j) \<or> nd_deleted (es2 ! j))}"
    unfolding D(8) using i(1) by (auto simp: es2_def nth_list_update)
  finally show "unat ` set (slots_taking m i) = {j. j < length es2 \<and> (nd_taken (es2 ! j) \<or> nd_deleted (es2 ! j))}" .
  have "{j. j < length es2 \<and> nd_taken (es2 ! j)} = insert i {j. j < length (hm_entries m) \<and> nd_taken (hm_entries m ! j)}"
    using i(1) by (auto simp: es2_def nth_list_update)
  then show "card {j. j < length es2 \<and> nd_taken (es2 ! j)} = hm_size m + (if nd_taken (hm_entries m ! i) then 0 else 1)"
    using D(9) i(1) by (simp add: card_insert_if)
qed

text \<open>The bindings in order after slot \<open>i\<close> has been written, when it was taken before and when it was not.\<close>

lemma live_after_overwrite:
  assumes i: "i < length (hm_entries m)" "nd_taken (hm_entries m ! i)"
    and m2: "hm_entries m2 = (hm_entries m)[i := node_taken key x len]" "vec_list (hm_indexes m2) = slots_taking m i"
  shows "live_slots m2 = live_slots m"
  using i unfolding live_slots_def m2 slots_taking_def by (auto simp: nth_list_update intro!: filter_cong)

lemma live_after_claim:
  assumes ok: "map_ok t valid m" and i: "i < length (hm_entries m)" "unat (of_nat i :: u64) = i" "\<not> nd_taken (hm_entries m ! i)"
    and m2: "hm_entries m2 = (hm_entries m)[i := node_taken key x len]" "vec_list (hm_indexes m2) = slots_taking m i"
  shows "\<exists>as bs. live_bindings m = as @ bs \<and> live_bindings m2 = as @ (key, x) # bs \<and>
    (nd_deleted (hm_entries m ! i) \<or> bs = [])"
proof -
  let ?es = "hm_entries m" and ?L = "vec_list (hm_indexes m)" and ?tk = "\<lambda>es y. nd_taken (es ! unat y)"
  note listed = slot_listed [OF ok i(1,2)]
  obtain ys zs where L2: "slots_taking m i = ys @ of_nat i # zs" "live_slots m = filter (?tk ?es) (ys @ zs)"
    "nd_deleted (?es ! i) \<or> zs = []"
  proof (cases "nd_deleted (?es ! i)")
    case True
    then obtain ys zs where "?L = ys @ of_nat i # zs" using listed by (auto dest: split_list)
    then show thesis using True i by (intro that [of ys zs]) (simp_all add: slots_taking_def live_slots_def)
  next
    case False
    then show thesis using i(3) by (intro that [of ?L "[]"]) (simp_all add: slots_taking_def live_slots_def)
  qed
  then have "of_nat i \<notin> set ys" "of_nat i \<notin> set zs"
    using slots_taking_ok(1) [OF ok i(1,2) refl] by auto
  then have ne: "i \<noteq> unat y" if "y \<in> set ys \<union> set zs" for y
    using that i(2) by (metis UnE word_unat_eq_iff)
  have keep: "bindings (hm_entries m2) (filter (?tk (hm_entries m2)) l) = bindings ?es (filter (?tk ?es) l)"
    if "set l \<subseteq> set ys \<union> set zs" for l
    using ne that unfolding bindings_def m2(1) by (intro map_cong filter_cong refl) (auto simp: subset_iff)
  have "live_bindings m = bindings ?es (filter (?tk ?es) ys) @ bindings ?es (filter (?tk ?es) zs)"
    using L2(2) by (simp add: live_bindings_def bindings_append)
  moreover have "live_bindings m2 = bindings (hm_entries m2) (filter (?tk (hm_entries m2)) ys) @
      (key, x) # bindings (hm_entries m2) (filter (?tk (hm_entries m2)) zs)"
    using i(1,2) unfolding live_bindings_def live_slots_def m2(2) L2(1) m2(1) by (simp add: bindings_def)
  moreover have "nd_deleted (?es ! i) \<or> bindings ?es (filter (?tk ?es) zs) = []" using L2(3) by (auto simp: bindings_def)
  ultimately show ?thesis using keep [of ys] keep [of zs] by (intro exI conjI) simp_all
qed

context key_type
begin

text \<open>A resize drops the tombstones and keeps the bindings in their order.\<close>

lemma map_inv_reorder:
  assumes "map_inv t valid m" "vec_inv ix" "vec_list ix = vec_list (hm_indexes m)"
  shows "map_inv t valid (m\<lparr>hm_indexes := ix\<rparr>)" "map_bindings (m\<lparr>hm_indexes := ix\<rparr>) = map_bindings m"
  using map_invD [OF assms(1)] assms(2,3) by (simp_all add: map_inv_def map_bindings_def cache_ok_def)

lemma mapResize_ok:
  assumes ok: "map_ok t valid m" and small: "hm_capacity m < 2 ^ 50" and busy: "hm_size m \<noteq> 0"
  shows "\<exists>m'. mapResize True t m = Inr (m', True) \<and> map_inv t valid m' \<and>
    hm_capacity m' = 2 * hm_capacity m \<and> hm_size m' = hm_size m \<and>
    map_bindings m' = live_bindings m \<and> (\<forall>key. valid key \<longrightarrow> map_abs t m' key = map_abs t m key)"
proof -
  note D = map_okD [OF ok]
  let ?L = "vec_list (hm_indexes m)" and ?p = "purged m"
  obtain p' where p': "mapResize True t ?p = Inr (p', True)" "map_inv t valid p'"
    "hm_capacity p' = 2 * hm_capacity m" "hm_size p' = hm_size m" "map_bindings p' = live_bindings m"
    "\<forall>key. valid key \<longrightarrow> map_abs t p' key = map_abs t m key"
    using mapResize_rep [OF map_inv_purged [OF ok]] small busy purged_bindings [OF ok] by auto
  obtain rest where r: "vec_entries (hm_indexes m) = map Some ?L @ rest" "vec_size (hm_indexes m) = length ?L"
    using D(6) by (rule vec_rep)
  have "\<forall>x \<in> set ?L. unat x < length (hm_entries m)" using D(8) by blast
  from resize_loop_live [OF this, of t _ rest _ _ "[None]"]
  have loop: "mapResize_loop t msk (hm_entries m) (vec_entries (hm_indexes m)) 0 (vec_size (hm_indexes m)) es new =
      mapResize_loop t msk (hm_entries ?p) (vec_entries (hm_indexes ?p)) 0 (vec_size (hm_indexes ?p)) es new" for msk es new
    using r by (simp add: purged_def vec_of_def live_slots_def)
  obtain es new where l: "mapResize_loop t (of_nat (hm_capacity m * 2) - 1) (hm_entries ?p) (vec_entries (hm_indexes ?p)) 0
      (vec_size (hm_indexes ?p)) (replicate (hm_capacity m * 2) node_memset1) [] = Inr (es, new)"
    and p: "p' = ?p\<lparr>hm_mask := of_nat (hm_capacity m * 2) - 1, hm_entries := es, hm_capacity := hm_capacity m * 2,
       hm_indexes := \<lparr>vec_size = length new, vec_capacity = vec_size (hm_indexes ?p),
         vec_entries = map Some new @ replicate (vec_size (hm_indexes ?p) - length new) (Some 0)\<rparr>,
       hm_size := length new, hm_threashold := load_threashold (hm_capacity m * 2),
       hm_cached_key := ULONG_MAX, hm_cached_idx := ULONG_MAX\<rparr>"
    using p'(1) unfolding mapResize_True purged_simps(5) by blast
  let ?ix = "\<lparr>vec_size = length new, vec_capacity = vec_size (hm_indexes m),
      vec_entries = map Some new @ replicate (vec_size (hm_indexes m) - length new) (Some 0)\<rparr>"
  have new: "hm_size p' = length new" "vec_list (hm_indexes p') = new"
    unfolding p by (simp_all add: vec_list_def comp_def)
  have "length new = length (live_slots m)"
    using arg_cong [OF p'(5), of length] unfolding map_bindings_def live_bindings_def bindings_def new(2) by simp
  then have "length new \<le> length ?L" by (simp add: live_slots_def)
  then have ix: "vec_inv ?ix \<and> vec_list ?ix = new"
    using r(2) busy p'(4) new(1) by (intro vec_repI [where rest = "replicate (length ?L - length new) (Some 0)"]) auto
  have "mapResize True t m = Inr (p'\<lparr>hm_indexes := ?ix\<rparr>, True)"
    unfolding mapResize_True using l loop by (intro exI [of _ es] exI [of _ new]) (simp add: p purged_def)
  moreover note map_inv_reorder [OF p'(2), of ?ix]
  ultimately show ?thesis using p' ix new by (intro exI [of _ "p'\<lparr>hm_indexes := ?ix\<rparr>"]) (simp add: map_abs_def)
qed

lemma map_ensure_room_ok:
  assumes ok: "map_ok t valid m" and small: "hm_size m < 2 ^ 49"
  shows "\<exists>m'. map_ensure_room True t m = Inr (m', True) \<and> map_ok t valid m' \<and>
    hm_size m' = hm_size m \<and> hm_size m' < hm_threashold m' \<and> live_bindings m' = live_bindings m \<and>
    ((\<forall>n \<in> set (hm_entries m). \<not> nd_deleted n) \<longrightarrow> (\<forall>n \<in> set (hm_entries m'). \<not> nd_deleted n)) \<and>
    (\<forall>key. valid key \<longrightarrow> map_abs t m' key = map_abs t m key)"
proof (cases "hm_size m \<ge> hm_threashold m")
  case True
  note D = map_okD [OF ok] and full = map_full_capacity [OF map_inv_purged [OF ok], unfolded purged_simps, OF small True]
  obtain m' where m': "mapResize True t m = Inr (m', True)" "map_inv t valid m'"
    "hm_capacity m' = 2 * hm_capacity m" "hm_size m' = hm_size m" "map_bindings m' = live_bindings m"
    "\<forall>key. valid key \<longrightarrow> map_abs t m' key = map_abs t m key"
    using mapResize_ok [OF ok full(1,2)] by blast
  have "hm_size m' < hm_threashold m'"
    using m'(2-4) map_invD(4) [OF m'(2)] D(10) full(3) load_threashold_double [of "hm_capacity m"]
    by (simp add: mult.commute)
  moreover have "\<not> nd_deleted n" if "n \<in> set (hm_entries m')" for n
    using map_invD(1) [OF m'(2)] that nd_deleted_free [of n]
    by (auto simp: in_set_conv_nth table_inv_def node_wf_def split: if_splits)
  ultimately show ?thesis using m' True map_inv_ok [OF m'(2)] by (auto simp: map_ensure_room_def)
qed (use ok in \<open>auto simp: map_ensure_room_def\<close>)

text \<open>
  Writing a binding to the slot the probe found: a key that is there keeps its place, a new key goes
  last, or, in a reused tombstone, where the tombstone's slot number stands.
\<close>

lemma map_put_ok:
  assumes ok: "map_ok t valid m" and room: "hm_size m < hm_threashold m" and v: "valid key"
  obtains i m1 m2 where
    "mapGetNextIdx t (hm_entries m) (hm_mask m) key = Inr (of_nat i, map_abs t m key = None)"
    "map_claim_slot m (of_nat i) (map_abs t m key = None) = Inr m1"
    "m2 = map_write_slot m1 (of_nat i) key x (mt_get_key_len t key)" "map_ok t valid m2"
    "hm_size m2 = hm_size m + (if map_abs t m key = None then 1 else 0)"
    "\<forall>key'. valid key' \<longrightarrow> map_abs t m2 key' = (if mt_match t key key' then Some x else map_abs t m key')"
    "map_abs t m key \<noteq> None \<longrightarrow> live_bindings m2 = put_binding key x (live_bindings m)"
    "map_abs t m key = None \<longrightarrow> (\<exists>as bs. live_bindings m = as @ bs \<and>
       live_bindings m2 = as @ (key, x) # bs \<and> (nd_deleted (hm_entries m ! i) \<or> bs = []))" "i < length (hm_entries m)"
proof -
  note D = map_okD [OF ok] and S = slots_ok_live [OF ok]
  let ?es = "hm_entries m" and ?L = "vec_list (hm_indexes m)"
  obtain k where k: "0 < k" "k < 51" "length (purge ?es) = 2 ^ k" "2 \<le> length (purge ?es)"
    using D(1) by (rule table_inv_pow2)
  have msk: "hm_mask m = mask k" using D(3,4) k mask_of_pow2 [of k] by simp
  have "length (live_slots m) < length (purge ?es)"
    using map_invD(7,8) [OF map_inv_purged [OF ok]] D(3) load_threashold_less [of "2 ^ k"] k by simp
  then obtain f where f: "f < length (purge ?es)" "\<not> nd_taken (purge ?es ! f)"
    using slots_ok_free [OF S] by blast
  obtain i where i: "mapGetNextIdx t (purge ?es) (mask k) key = Inr (of_nat i, \<not> nd_taken (purge ?es ! i))"
    "slot_for (purge ?es) key i" "nd_taken (purge ?es ! i) \<longleftrightarrow> table_abs t (purge ?es) key \<noteq> None"
    using next_slot [OF D(1) k(3,2) f v] by blast
  have il: "i < length ?es" using i(2) by (simp add: slot_for_def)
  have small: "length (purge ?es) < 2 ^ 64"
    using k power_strict_increasing [of k 64 "2::nat"] by simp
  have u: "unat (of_nat i :: u64) = i" using il small by (intro unat_of_nat_u64) simp
  have free: "(map_abs t m key = None) = (\<not> nd_taken (?es ! i))"
    using i(3) il by (simp add: map_abs_def)
  obtain ix where ix: "vecPushInt (hm_indexes m) (of_nat i) = Inr ix" "vec_inv ix" "vec_list ix = ?L @ [of_nat i]"
    using vecPush_rep [OF D(6)] unfolding vecPushInt_eq by metis
  define m1 where "m1 = (if nd_taken (?es ! i) then m
    else m\<lparr>hm_indexes := if nd_deleted (?es ! i) then hm_indexes m else ix, hm_size := hm_size m + 1\<rparr>)"
  define m2 where "m2 = map_write_slot m1 (of_nat i) key x (mt_get_key_len t key)"
  have m2: "hm_entries m2 = ?es[i := node_taken key x (mt_get_key_len t key)]" "hm_capacity m2 = hm_capacity m"
    "hm_mask m2 = hm_mask m" "hm_threashold m2 = hm_threashold m" "hm_cached_key m2 = hm_cached_key m"
    "hm_cached_idx m2 = hm_cached_idx m" "vec_list (hm_indexes m2) = slots_taking m i" "vec_inv (hm_indexes m2)"
    "hm_size m2 = hm_size m + (if nd_taken (?es ! i) then 0 else 1)"
    using ix D(6) u by (simp_all add: m2_def m1_def slots_taking_def map_write_slot_def)
  have "table_inv t valid (purge (hm_entries m2))"
    using table_write_inv [OF D(1) i(2) v, of x] m2(1) by simp
  moreover have "cache_ok t valid m2"
    using cache_ok_write [OF map_inv_purged [OF ok], of key i "purged m2" x] i(2) v m2 cache_ok_purge [of "purged m2" m2] by simp
  moreover have "\<forall>j < length (hm_entries m2). \<not> nd_taken (hm_entries m2 ! j) \<longrightarrow> nd_free (hm_entries m2 ! j)"
    using D(2) m2(1) il by (auto simp: nth_list_update split: if_splits)
  moreover have "length (hm_entries m2) = length ?es" using m2(1) by simp
  moreover note slots_taking_ok [OF ok il u m2(1)]
  ultimately have ok2: "map_ok t valid m2"
    using D(3-5,10) room by (simp add: map_ok_def m2(2-9))
  show thesis
  proof (rule that [of i m1 m2])
    show "mapGetNextIdx t ?es (hm_mask m) key = Inr (of_nat i, map_abs t m key = None)"
      using i(1) free msk il by (simp add: mapGetNextIdx_purge [OF ok])
    show "map_claim_slot m (of_nat i) (map_abs t m key = None) = Inr m1"
      using ix(1) free u il by (simp add: map_claim_slot_def m1_def)
    show "\<forall>key'. valid key' \<longrightarrow> map_abs t m2 key' = (if mt_match t key key' then Some x else map_abs t m key')"
      using table_write_abs [OF D(1) i(2) v, of _ x] m2(1) by (simp add: map_abs_def flip: purge_simps(3))
    show "map_abs t m key \<noteq> None \<longrightarrow> live_bindings m2 = put_binding key x (live_bindings m)"
      using bindings_put [OF D(1) i(2) v S u i(3), of x] free il purged_bindings [OF ok] purged_bindings [OF ok2]
        live_after_overwrite [OF il _ m2(1,7)] m2(1)
      by (cases "nd_taken (?es ! i)") (simp_all add: map_bindings_def)
    show "map_abs t m key = None \<longrightarrow> (\<exists>as bs. live_bindings m = as @ bs \<and>
       live_bindings m2 = as @ (key, x) # bs \<and> (nd_deleted (?es ! i) \<or> bs = []))"
      using live_after_claim [OF ok il u _ m2(1,7)] free by blast
  qed (use m2(9) free ok2 il in \<open>simp_all add: m2_def\<close>)
qed

lemma mapAdd_ok:
  assumes ok: "map_ok t valid m" and small: "hm_size m < 2 ^ 49" and v: "valid key"
  shows "\<exists>m'. mapAdd True t m key x = Inr (m', True) \<and> map_ok t valid m' \<and>
    hm_size m' = hm_size m + (if map_abs t m key = None then 1 else 0) \<and>
    (\<forall>key'. valid key' \<longrightarrow> map_abs t m' key' = (if mt_match t key key' then Some x else map_abs t m key')) \<and>
    (map_abs t m key \<noteq> None \<longrightarrow> live_bindings m' = put_binding key x (live_bindings m)) \<and>
    (map_abs t m key = None \<longrightarrow> (\<exists>as bs. live_bindings m = as @ bs \<and> live_bindings m' = as @ (key, x) # bs \<and>
       ((\<forall>n \<in> set (hm_entries m). \<not> nd_deleted n) \<longrightarrow> bs = [])))"
proof -
  obtain m0 where m0: "map_ensure_room True t m = Inr (m0, True)" "map_ok t valid m0" "hm_size m0 = hm_size m"
    "hm_size m0 < hm_threashold m0" "live_bindings m0 = live_bindings m"
    "(\<forall>n \<in> set (hm_entries m). \<not> nd_deleted n) \<longrightarrow> (\<forall>n \<in> set (hm_entries m0). \<not> nd_deleted n)"
    "\<forall>key. valid key \<longrightarrow> map_abs t m0 key = map_abs t m key"
    using map_ensure_room_ok [OF ok small] by blast
  obtain i m1 m2 where p:
    "mapGetNextIdx t (hm_entries m0) (hm_mask m0) key = Inr (of_nat i, map_abs t m0 key = None)"
    "map_claim_slot m0 (of_nat i) (map_abs t m0 key = None) = Inr m1"
    "m2 = map_write_slot m1 (of_nat i) key x (mt_get_key_len t key)"
    and q: "map_ok t valid m2" "hm_size m2 = hm_size m0 + (if map_abs t m0 key = None then 1 else 0)"
    "\<forall>key'. valid key' \<longrightarrow> map_abs t m2 key' = (if mt_match t key key' then Some x else map_abs t m0 key')"
    "map_abs t m0 key \<noteq> None \<longrightarrow> live_bindings m2 = put_binding key x (live_bindings m0)"
    "map_abs t m0 key = None \<longrightarrow> (\<exists>as bs. live_bindings m0 = as @ bs \<and> live_bindings m2 = as @ (key, x) # bs \<and>
       (nd_deleted (hm_entries m0 ! i) \<or> bs = []))" "i < length (hm_entries m0)"
    by (rule map_put_ok [OF m0(2,4) v, of x])
  have abs: "map_abs t m0 key = map_abs t m key" using m0(7) v by blast
  have "mapAdd True t m key x = Inr (m2, True)" using m0(1) p by (simp add: mapAdd_def)
  moreover have "hm_entries m0 ! i \<in> set (hm_entries m0)" using q(6) by simp
  then have "\<exists>as bs. live_bindings m = as @ bs \<and> live_bindings m2 = as @ (key, x) # bs \<and>
       ((\<forall>n \<in> set (hm_entries m). \<not> nd_deleted n) \<longrightarrow> bs = [])" if none: "map_abs t m key = None"
  proof -
    obtain as bs where "live_bindings m = as @ bs" "live_bindings m2 = as @ (key, x) # bs"
      "nd_deleted (hm_entries m0 ! i) \<or> bs = []"
      using q(5) m0(5) abs none by auto
    then show ?thesis using m0(6) \<open>hm_entries m0 ! i \<in> set (hm_entries m0)\<close> by blast
  qed
  ultimately show ?thesis using q m0(3,5,7) abs by (intro exI [of _ m2]) simp
qed

subsection \<open>Lookup\<close>

lemma map_lookup_ok:
  assumes ok: "map_ok t valid m" and v: "valid key"
  shows "(\<exists>i < length (hm_entries m). nd_taken (hm_entries m ! i) \<and> mt_match t (nd_key (hm_entries m ! i)) key \<and>
      map_abs t m key = Some (nd_value (hm_entries m ! i)) \<and> unat (of_nat i :: u64) = i \<and>
      mapGetIdx t (hm_entries m) (hm_mask m) key = Inr (Some (of_nat i))) \<or>
    map_abs t m key = None \<and> mapGetIdx t (hm_entries m) (hm_mask m) key = Inr None"
  using map_lookup [OF map_inv_purged [OF ok] v] by (auto simp: mapGetIdx_purge)

lemma map_ok_cache:
  assumes "map_ok t valid m" "unat idx < length (hm_entries m)" "nd_taken (hm_entries m ! unat idx)"
    "mt_match t (nd_key (hm_entries m ! unat idx)) key" "valid key"
  shows "map_ok t valid (m\<lparr>hm_cached_key := key, hm_cached_idx := idx\<rparr>)"
  using map_okD [OF assms(1)] assms(2-) by (simp add: map_ok_def cache_ok_def)

lemma map_walk_ok:
  assumes "\<forall>m \<in> set ms. map_ok t valid m" and v: "valid key"
  shows "\<exists>ms'. map_walk (\<lambda>m. mapGetIdx t (hm_entries m) (hm_mask m) key) ms = Inr (ms', chain_abs t ms key) \<and>
    list_all2 (\<lambda>m m'. map_ok t valid m' \<and> same_but_cache m m') ms ms'"
  using assms(1)
proof (induction ms)
  case (Cons m ms)
  have ok: "map_ok t valid m" using Cons.prems by simp
  have same: "list_all2 (\<lambda>m m'. map_ok t valid m' \<and> same_but_cache m m') ms ms"
    using Cons.prems by (simp add: list_all2_same same_but_cache_def)
  from map_lookup_ok [OF ok v] show ?case
  proof (elim disjE exE conjE)
    fix i assume i: "i < length (hm_entries m)" "nd_taken (hm_entries m ! i)"
      "map_abs t m key = Some (nd_value (hm_entries m ! i))" "unat (of_nat i :: u64) = i"
      "mapGetIdx t (hm_entries m) (hm_mask m) key = Inr (Some (of_nat i))"
    have "valid (nd_key (hm_entries m ! i))"
      using table_invD(2) [OF map_okD(1) [OF ok], of i] i by simp
    then have "map_ok t valid (m\<lparr>hm_cached_key := nd_key (hm_entries m ! i), hm_cached_idx := of_nat i\<rparr>)"
      using i ok by (intro map_ok_cache) (simp_all add: match_refl)
    then show ?case using i same by (simp add: same_but_cache_def Let_def)
  next
    assume "map_abs t m key = None" "mapGetIdx t (hm_entries m) (hm_mask m) key = Inr None"
    then show ?case using Cons ok by (auto simp: same_but_cache_def)
  qed
qed simp

lemma mapGet_ok:
  assumes ok: "\<forall>m \<in> set ms. map_ok t valid m" and ne: "ms \<noteq> []" and v: "valid key" and key: "key \<noteq> ULONG_MAX"
  shows "\<exists>ms'. mapGet t ms key = Inr (ms', chain_abs t ms key) \<and>
    list_all2 (\<lambda>m m'. map_ok t valid m' \<and> same_but_cache m m') ms ms'"
proof -
  obtain m ps where ms: "ms = m # ps" using ne by (cases ms) auto
  have same: "list_all2 (\<lambda>m m'. map_ok t valid m' \<and> same_but_cache m m') ms ms"
    using ok by (simp add: list_all2_same same_but_cache_def)
  have "map_ok t valid m" using ok ms by simp
  note okm = this
  have "map_cache_hit (purged m) key = map_cache_hit m key"
    by (simp add: map_cache_hit_def Let_def)
  then have "map_cache_hit m key = Inr None \<or> (\<exists>x. map_cache_hit m key = Inr (Some x) \<and> map_abs t m key = Some x)"
    using map_cache_rep [OF map_inv_purged [OF okm] v key] by simp
  then show ?thesis
    using map_walk_ok [OF ok v] same ms by (auto simp: mapGet_def)
qed

end

section \<open>Removal\<close>

text \<open>
  The shape every map has, hidden keys or not: a power-of-two table with its mask, a slot that is not taken,
  and a size that counts the taken slots.
\<close>

definition map_shape :: "'v hmap \<Rightarrow> bool" where
  "map_shape m \<longleftrightarrow> (\<exists>k < 64. length (hm_entries m) = 2 ^ k \<and> hm_mask m = mask k) \<and>
     (\<exists>n \<in> set (hm_entries m). \<not> nd_taken n) \<and> hm_size m = length (filter nd_taken (hm_entries m))"

lemma map_ok_shape:
  assumes "map_ok t valid m"
  shows "map_shape m"
proof -
  note D = map_okD [OF assms]
  obtain k where k: "0 < k" "k < 51" "length (purge (hm_entries m)) = 2 ^ k" "2 \<le> length (purge (hm_entries m))"
    using D(1) by (rule table_inv_pow2)
  have size: "hm_size m = length (filter nd_taken (hm_entries m))"
    using D(9) by (simp add: length_filter_conv_card)
  have "length (filter nd_taken (hm_entries m)) < length (hm_entries m)"
    using size D(3,10) load_threashold_less [of "2 ^ k"] k by simp
  then have "\<exists>n \<in> set (hm_entries m). \<not> nd_taken n"
    by (metis filter_True less_irrefl)
  then show ?thesis using size k D(3,4) mask_of_pow2 [of k] by (auto simp: map_shape_def intro!: exI [of _ k])
qed

text \<open>The lookup finds a taken slot whose key matches; with that slot deleted, it stops there.\<close>

lemma shape_lookup:
  assumes "map_shape m"
  obtains "mapGetIdx t (hm_entries m) (hm_mask m) key = Inr None"
  | i where "i < length (hm_entries m)" "nd_taken (hm_entries m ! i)" "mt_match t (nd_key (hm_entries m ! i)) key"
    "unat (of_nat i :: u64) = i" "mapGetIdx t (hm_entries m) (hm_mask m) key = Inr (Some (of_nat i))"
    "mapGetIdx t ((hm_entries m)[i := node_deleted]) (hm_mask m) key = Inr None"
proof -
  let ?es = "hm_entries m" and ?home = "unat (mt_hash t key AND hm_mask m)"
  obtain k where k: "k < 64" "length ?es = 2 ^ k" "hm_mask m = mask k" using assms by (auto simp: map_shape_def)
  obtain f where f: "f < length ?es" "\<not> nd_taken (?es ! f)" using assms by (auto simp: map_shape_def in_set_conv_nth)
  have home: "?home < 2 ^ k" using k by (simp add: unat_and_mask)
  let ?P = "\<lambda>es j. \<not> nd_taken (es ! j) \<or> mt_match t (nd_key (es ! j)) key"
  let ?path = "probe_path (2 ^ k) ?home (2 ^ k)"
  obtain i where i: "find (?P ?es) ?path = Some i" "i < 2 ^ k"
    using find_path_total [of "2 ^ k" f "?P ?es" ?home] f k by auto
  have idx: "mapGetIdx t es (hm_mask m) key = (case find (?P es) ?path of None \<Rightarrow> Inl Diverges
      | Some i \<Rightarrow> Inr (if nd_taken (es ! i) then Some (of_nat i) else None))" if "length es = 2 ^ k" for es :: "'a map_node list"
    using that k home by (simp add: mapGetIdx_def probe_taken_find)
  show thesis
  proof (cases "nd_taken (?es ! i)")
    case False
    then show thesis using idx [of ?es] k i by (intro that(1)) simp
  next
    case True
    have u: "unat (of_nat i :: u64) = i"
      using i(2) k(1) power_strict_increasing [of k 64 "2::nat"] by (intro unat_of_nat_u64) simp
    have "?P ?es j = ?P (?es[i := node_deleted]) j" if "j \<in> set ?path" for j
      using True i find_Some_iff [of "?P ?es" ?path i] k(2) by (cases "j = i") auto
    then have "find (?P (?es[i := node_deleted])) ?path = Some i"
      using i(1) by (subst find_cong [OF refl, of _ _ "?P ?es"]) auto
    then show thesis
      using idx [of ?es] idx [of "?es[i := node_deleted]"] True i k u find_Some_iff [of "?P ?es" ?path i]
      by (intro that(2) [of i]) auto
  qed
qed

lemma filter_update_count:
  "i < length xs \<Longrightarrow> P (xs ! i) \<Longrightarrow> \<not> P y \<Longrightarrow> length (filter P (xs[i := y])) + 1 = length (filter P xs)"
proof (induction xs arbitrary: i)
  case (Cons x xs)
  then show ?case by (cases i) auto
qed simp

lemma shape_delete:
  assumes "map_shape m" "i < length (hm_entries m)" "nd_taken (hm_entries m ! i)"
    and "hm_entries m' = (hm_entries m)[i := node_deleted]" "hm_mask m' = hm_mask m" "hm_size m' = hm_size m - 1"
  shows "map_shape m'" "hm_size m' + 1 = hm_size m"
proof -
  have one: "length (filter nd_taken ((hm_entries m)[i := node_deleted])) + 1 = length (filter nd_taken (hm_entries m))"
    using assms(2,3) by (intro filter_update_count) simp_all
  then show "hm_size m' + 1 = hm_size m" using assms(1,6) by (simp add: map_shape_def)
  have "node_deleted \<in> set (hm_entries m')" using assms(2,4) by (simp add: set_update_memI)
  then show "map_shape m'"
    using assms(1,4-6) one unfolding map_shape_def by (intro conjI bexI [of _ node_deleted]) auto
qed

text \<open>How far along its probe path a key's lookup comes to a slot.\<close>

definition probe_dist :: "nat \<Rightarrow> nat \<Rightarrow> nat \<Rightarrow> nat" where
  "probe_dist cap home i = (i + cap - home) mod cap"

lemma probe_dist_iff:
  assumes "home < cap" "i < cap"
  shows "d < cap \<and> i = (home + d) mod cap \<longleftrightarrow> d = probe_dist cap home i"
proof
  assume "d < cap \<and> i = (home + d) mod cap"
  then show "d = probe_dist cap home i"
    using assms by (cases "home + d < cap") (auto simp: probe_dist_def mod_if)
next
  assume "d = probe_dist cap home i"
  then show "d < cap \<and> i = (home + d) mod cap"
    using assms by (cases "home \<le> i") (auto simp: probe_dist_def mod_if)
qed

lemma reachable_dist:
  assumes "home < length es" "i < length es"
  shows "reachable_slot es home i \<longleftrightarrow>
    (\<forall>j < length es. probe_dist (length es) home j < probe_dist (length es) home i \<longrightarrow> nd_taken (es ! j))"
proof -
  let ?d = "probe_dist (length es) home"
  have "reachable_slot es home i \<longleftrightarrow> (\<forall>e < ?d i. nd_taken (es ! ((home + e) mod length es)))"
    unfolding reachable_slot_def using probe_dist_iff [OF assms] by metis
  also have "\<dots> \<longleftrightarrow> (\<forall>j < length es. ?d j < ?d i \<longrightarrow> nd_taken (es ! j))"
  proof (intro iffI allI impI)
    fix j assume "\<forall>e < ?d i. nd_taken (es ! ((home + e) mod length es))" "j < length es" "?d j < ?d i"
    then show "nd_taken (es ! j)" using probe_dist_iff [OF assms(1), of j "?d j"] by auto
  next
    fix e assume *: "\<forall>j < length es. ?d j < ?d i \<longrightarrow> nd_taken (es ! j)" "e < ?d i"
    have lt: "(home + e) mod length es < length es" using assms by (intro mod_less_divisor) linarith
    moreover have "e < length es" using *(2) probe_dist_iff [OF assms, of "?d i"] by linarith
    then have "?d ((home + e) mod length es) = e" using probe_dist_iff [OF assms(1) lt, of e] by simp
    ultimately show "nd_taken (es ! ((home + e) mod length es))" using * by simp
  qed
  finally show ?thesis .
qed

context key_type
begin

text \<open>
  After slot \<open>i\<close> is deleted, the key in slot \<open>j\<close> is found exactly when its lookup does not come to
  slot \<open>i\<close> on the way.
\<close>

lemma lookup_after_delete:
  assumes ok: "map_ok t valid m" and i: "i < length (hm_entries m)" "nd_taken (hm_entries m ! i)"
    and j: "j < length (hm_entries m)" "nd_taken (hm_entries m ! j)" "i \<noteq> j"
  defines "cap \<equiv> length (hm_entries m)" and "b \<equiv> nd_key (hm_entries m ! j)"
  shows "mapGetIdx t ((hm_entries m)[i := node_deleted]) (hm_mask m) b =
    Inr (if probe_dist cap (home_slot t cap b) i < probe_dist cap (home_slot t cap b) j then None else Some (of_nat j))"
proof -
  note D = map_okD [OF ok]
  let ?es = "hm_entries m" and ?es' = "(hm_entries m)[i := node_deleted]" and ?h = "home_slot t cap b"
  obtain k where k: "0 < k" "k < 51" "length (purge ?es) = 2 ^ k" "2 \<le> length (purge ?es)"
    using D(1) by (rule table_inv_pow2)
  have msk: "hm_mask m = mask k" and cap: "cap = 2 ^ k"
    using D(3,4) k mask_of_pow2 [of k] by (simp_all add: cap_def)
  have h: "?h < cap" "unat (mt_hash t b AND mask k) = ?h"
    using k hash_home [of ?es k t b] by (simp_all add: cap_def home_slot_def)
  have vb: "valid b" using table_invD(2) [OF D(1), of j] j by (simp add: b_def)
  have reach: "reachable_slot (purge ?es) ?h j"
    using table_invD(4) [OF D(1), of j] j by (simp add: cap_def b_def)
  have taken: "nd_taken (?es ! x)" if "x < cap" "probe_dist cap ?h x < probe_dist cap ?h j" for x
    using reach reachable_dist [of ?h "purge ?es" j] h(1) j(1) that by (simp add: cap_def)
  have uniq: "x = j" if "x < cap" "nd_taken (?es ! x)" "mt_match t (nd_key (?es ! x)) b" for x
    using table_inv_uniq [OF D(1), of x j] that j by (simp add: cap_def b_def)
  let ?P = "\<lambda>x. \<not> nd_taken (?es' ! x) \<or> mt_match t (nd_key (?es' ! x)) b"
  let ?stop = "if probe_dist cap ?h i < probe_dist cap ?h j then i else j"
  let ?d = "probe_dist cap ?h ?stop"
  have stop: "?stop < cap" "?P ?stop" using i j match_refl [OF vb] by (auto simp: cap_def b_def)
  have d: "?d < cap" "?stop = (?h + ?d) mod cap" using probe_dist_iff [OF h(1) stop(1), of ?d] by simp_all
  have "\<not> ?P ((?h + e) mod cap)" if "e < ?d" for e
  proof -
    let ?x = "(?h + e) mod cap"
    have x: "?x < cap" using h(1) by (intro mod_less_divisor) simp
    have "probe_dist cap ?h ?x = e" using probe_dist_iff [OF h(1) x, of e] that d(1) by simp
    then have "probe_dist cap ?h ?x < probe_dist cap ?h j" "?x \<noteq> i" "?x \<noteq> j" using that by (auto split: if_splits)
    then show ?thesis using taken [OF x] uniq [OF x] by auto
  qed
  then have "find ?P (probe_path cap ?h cap) = Some ?stop"
    using d stop by (auto simp: find_Some_iff probe_path_nth intro!: exI [of _ ?d])
  then show ?thesis
    using k h cap i j by (simp add: mapGetIdx_def probe_taken_find msk cap_def)
qed

text \<open>A removal that hides no other key keeps the map well-formed.\<close>

lemma map_ok_delete:
  assumes ok: "map_ok t valid m" and i: "i < length (hm_entries m)" "nd_taken (hm_entries m ! i)"
    and clear: "\<And>j. j < length (hm_entries m) \<Longrightarrow> nd_taken (hm_entries m ! j) \<Longrightarrow> j \<noteq> i \<Longrightarrow>
      \<not> probe_dist (length (hm_entries m)) (home_slot t (length (hm_entries m)) (nd_key (hm_entries m ! j))) i <
        probe_dist (length (hm_entries m)) (home_slot t (length (hm_entries m)) (nd_key (hm_entries m ! j))) j"
  shows "map_ok t valid (m\<lparr>hm_entries := (hm_entries m)[i := node_deleted], hm_size := hm_size m - 1,
    hm_cached_key := ULONG_MAX, hm_cached_idx := ULONG_MAX\<rparr>)" (is "map_ok t valid ?m'")
proof -
  note D = map_okD [OF ok]
  let ?es = "hm_entries m" and ?es' = "(hm_entries m)[i := node_deleted]"
  have purge: "purge ?es' ! j = (if j = i then node_memset1 else purge ?es ! j)" if "j < length ?es" for j
    using that i by (auto simp: purge_node_def)
  have "node_wf t valid (purge ?es' ! j)" if "j < length ?es" for j
    using D(1) that i by (simp add: purge table_inv_def del: purge_simps(2)) (simp add: node_wf_def)
  moreover have "reachable_slot (purge ?es') (home_slot t (length ?es) (nd_key (purge ?es' ! j))) j"
    if j: "j < length ?es" "nd_taken (purge ?es' ! j)" for j
  proof -
    let ?h = "home_slot t (length ?es) (nd_key (?es ! j))"
    have ne: "j \<noteq> i" "nd_taken (?es ! j)" using j i purge [OF j(1)] by (auto split: if_splits)
    have h: "?h < length ?es" unfolding home_slot_def using i(1) by (intro mod_less_divisor) linarith
    have "reachable_slot (purge ?es) ?h j" using table_invD(4) [OF D(1), of j] j ne by simp
    then have "nd_taken (purge ?es' ! x)" if "x < length ?es" "probe_dist (length ?es) ?h x < probe_dist (length ?es) ?h j" for x
      using that clear [OF j(1) ne(2,1)] reachable_dist [of ?h "purge ?es" j] h j purge [OF that(1)] by (auto split: if_splits)
    then show ?thesis
      using reachable_dist [of ?h "purge ?es'" j] h j ne by simp
  qed
  moreover have "a = b" if "a < length ?es" "b < length ?es" "nd_taken (purge ?es' ! a)" "nd_taken (purge ?es' ! b)"
    "mt_match t (nd_key (purge ?es' ! a)) (nd_key (purge ?es' ! b))" for a b
    using that table_inv_uniq [OF D(1), of a b] purge [OF that(1)] purge [OF that(2)] by (auto split: if_splits)
  ultimately have table: "table_inv t valid (purge ?es')"
    using D(1) unfolding table_inv_def by (simp del: purge_simps(2)) 
  have "{j. j < length ?es \<and> nd_taken (?es' ! j)} = {j. j < length ?es \<and> nd_taken (?es ! j)} - {i}"
    using i by (auto simp: nth_list_update split: if_splits)
  then have "card {j. j < length ?es \<and> nd_taken (?es' ! j)} = hm_size m - 1"
    using D(9) i by simp
  then show ?thesis
    using D table i by (auto simp: map_ok_def cache_ok_def nth_list_update)
qed

end

end
