(* ===== verification/HashMap_Props.thy ===== *)
theory HashMap_Props
  imports HashMap_Tomb
begin

text \<open>
  The properties of the hash map, stated for the two key types of the compiler: insertion, lookup,
  resizing, iteration and merging, and what \<^verbatim>\<open>mapRemove\<close> does, to the removed key and to the keys whose
  lookup passes the removed slot.
\<close>

section \<open>Helpers\<close>

lemma mapAdd_capacity:
  "mapAdd ok t m key v = Inr (m', r) \<Longrightarrow> hm_size m < hm_threashold m \<Longrightarrow>
   hm_capacity m' = hm_capacity m"
  by (auto simp: mapAdd_def map_ensure_room_def map_claim_slot_def map_write_slot_def
      split: if_splits)

text \<open>A one-entry string map, for the inputs of the examples.\<close>

lemma resize_sample:
  assumes "cstr_valid h key"
  shows "\<exists>m. map_inv (map_cstring_opaque_type h) (cstr_valid h) m \<and> hm_size m = 1 \<and>
    hm_capacity m < 2 ^ 50 \<and> map_bindings m = [(key, v)]"
proof -
  let ?t = "map_cstring_opaque_type h"
  have "hm_size (mapNew 16 :: 'a hmap) < 2 ^ 49" "map_inv ?t (cstr_valid h) (mapNew 16 :: 'a hmap)"
    by (simp_all add: mapNew_rep)
  from cstr_keys.mapAdd_rep [OF this(2,1) assms, of v]
  obtain m where m: "mapAdd True ?t (mapNew 16) key v = Inr (m, True)" "map_inv ?t (cstr_valid h) m"
    "hm_size m = 1" "map_bindings m = [(key, v)]"
    by (auto simp: mapNew_rep cstr_keys.put_binding_def)
  have "roundUpToNextPowerOf2 16 = 16" by code_simp
  then have "hm_size (mapNew 16 :: 'a hmap) < hm_threashold (mapNew 16 :: 'a hmap)"
    "hm_capacity (mapNew 16 :: 'a hmap) = 16"
    by (simp_all add: mapNew_def load_threashold_def)
  then have "hm_capacity m = 16" using mapAdd_capacity [OF m(1)] by simp
  then have "hm_capacity m < 2 ^ 50" by simp
  with m show ?thesis by blast
qed

lemma live_key_valid:
  assumes "map_ok t valid m" "b \<in> set (live_bindings m)"
  shows "valid (fst b)"
proof -
  obtain x where x: "x \<in> set (live_slots m)" "b = (nd_key (hm_entries m ! unat x), nd_value (hm_entries m ! unat x))"
    using assms(2) by (auto simp: live_bindings_def bindings_def)
  have "unat x < length (hm_entries m)" "nd_taken (hm_entries m ! unat x)"
    using slots_ok_taken [OF slots_ok_live [OF assms(1)] x(1)] by auto
  then show ?thesis
    using x(2) table_invD(2) [OF map_okD(1) [OF assms(1)], of "unat x"] by simp
qed

text \<open>A string map with a tombstone: one key added and removed again.\<close>

lemma tombstone_sample:
  assumes "cstr_valid h key"
  shows "\<exists>m1 m. mapAdd True (map_cstring_opaque_type h) (mapNew 16) key v = Inr (m1, True) \<and>
    mapRemove (map_cstring_opaque_type h) m1 key = Inr (m, [], []) \<and> map_ok (map_cstring_opaque_type h) (cstr_valid h) m \<and>
    (\<exists>n \<in> set (hm_entries m). nd_deleted n) \<and> hm_size m = 0 \<and>
    map_abs (map_cstring_opaque_type h) m key = None \<and> live_bindings m = []"
proof -
  let ?t = "map_cstring_opaque_type h"
  obtain m1 where m1: "mapAdd True ?t (mapNew 16) key v = Inr (m1, True)" "map_inv ?t (cstr_valid h) m1"
    "hm_size m1 = 1" "map_bindings m1 = [(key, v)]"
    using cstr_keys.mapAdd_rep [of h "mapNew 16" key v] assms
    by (auto simp: mapNew_rep cstr_keys.put_binding_def)
  have abs: "map_abs ?t m1 key \<noteq> None"
    using cstr_keys.map_first_binding [OF m1(2) assms] m1(4) cstr_keys.match_refl [OF assms] by simp
  note ok = map_inv_ok(1) [OF m1(2)]
  obtain i where i: "i < length (hm_entries m1)" "nd_taken (hm_entries m1 ! i)" "mt_match ?t (nd_key (hm_entries m1 ! i)) key"
    "unat (of_nat i :: u64) = i" "mapGetIdx ?t (hm_entries m1) (hm_mask m1) key = Inr (Some (of_nat i))"
    using cstr_keys.map_lookup [OF m1(2) assms] abs by auto
  have card: "card {j. j < length (hm_entries m1) \<and> nd_taken (hm_entries m1 ! j)} = 1"
    using map_okD(9) [OF ok] m1(3) by simp
  then obtain x where x: "{j. j < length (hm_entries m1) \<and> nd_taken (hm_entries m1 ! j)} = {x}"
    by (rule card_1_singletonE)
  have only: "j = i" if "j < length (hm_entries m1)" "nd_taken (hm_entries m1 ! j)" for j
  proof -
    have "j \<in> {x}" "i \<in> {x}" unfolding x [symmetric] using i(1,2) that by simp_all
    then show ?thesis by simp
  qed
  define m where "m = m1\<lparr>hm_entries := (hm_entries m1)[i := node_deleted], hm_size := hm_size m1 - 1,
    hm_cached_key := ULONG_MAX, hm_cached_idx := ULONG_MAX\<rparr>"
  have mok: "map_ok ?t (cstr_valid h) m"
    unfolding m_def by (rule cstr_keys.map_ok_delete [OF ok i(1,2)]) (use only in blast)
  have "hm_size m = 0" using m1(3) by (simp add: m_def)
  then have "live_bindings m = []"
    using map_invD(7) [OF map_inv_purged [OF mok]] unfolding live_bindings_def bindings_def by simp
  moreover have "map_abs ?t m key = None"
    using cstr_keys.map_first_binding [OF map_inv_purged [OF mok] assms] unfolding purged_bindings [OF mok] calculation purged_abs
    by simp
  moreover have "mapRemove ?t m1 key = Inr (m, [], [])"
    using i(4,5) by (simp add: mapRemove_def m_def node_deleted_def map_cstring_opaque_type_def Let_def)
  moreover have "\<exists>n \<in> set (hm_entries m). nd_deleted n"
    using i(1) by (intro bexI [of _ node_deleted]) (simp_all add: m_def set_update_memI)
  ultimately show ?thesis using m1(1) mok \<open>hm_size m = 0\<close> by blast
qed

section \<open>Properties\<close>



text \<open>
  C18. \<^verbatim>\<open>mapGet\<close> on a map and its chain of parents, string-keyed and well-formed: tombstones may be there, but no removal hid
  another key, and a set one-entry cache names a slot that holds its key, as insertion, lookup and removal leave it. For every key
  but the sentinel of the cache, \<^verbatim>\<open>ULONG_MAX\<close>, it returns the value of the first map of the chain that binds the key, from
  the cache or from the table, and null when no map does; the maps stay well-formed and change in their cache only.
\<close>

theorem mapGet_chain:
  assumes "\<forall>m \<in> set ms. map_ok (map_cstring_opaque_type h) (cstr_valid h) m" "ms \<noteq> []"
    "cstr_valid h key" "key \<noteq> ULONG_MAX"
  shows "\<exists>ms'. mapGet (map_cstring_opaque_type h) ms key =
      Inr (ms', chain_abs (map_cstring_opaque_type h) ms key) \<and>
    list_all2 (\<lambda>m m'. map_ok (map_cstring_opaque_type h) (cstr_valid h) m' \<and>
      m' = m\<lparr>hm_cached_key := hm_cached_key m', hm_cached_idx := hm_cached_idx m'\<rparr>) ms ms'"
  using cstr_keys.mapGet_ok [OF assms] unfolding same_but_cache_def .

theorem mapGet_chain_witness:
  "\<exists>m1 m ms'. mapAdd True (map_cstring_opaque_type (\<lambda>_. [97, 0])) (mapNew 16) 8 (Some (3::nat)) = Inr (m1, True) \<and>
    mapRemove (map_cstring_opaque_type (\<lambda>_. [97, 0])) m1 8 = Inr (m, [], []) \<and>
    mapGet (map_cstring_opaque_type (\<lambda>_. [97, 0])) [m, m1] 16 = Inr (ms', Some 3)"
proof -
  let ?h = "\<lambda>_ :: ptr. [97, 0 :: u8]" and ?t = "map_cstring_opaque_type (\<lambda>_. [97, 0])"
  have v: "cstr_valid ?h 8" "cstr_valid ?h 16" "(16::ptr) \<noteq> ULONG_MAX"
    by (simp_all add: cstr_valid_def cstrlen_def ULONG_MAX_def)
  obtain m1 m where m: "mapAdd True ?t (mapNew 16) 8 (Some (3::nat)) = Inr (m1, True)" "mapRemove ?t m1 8 = Inr (m, [], [])"
    "map_ok ?t (cstr_valid ?h) m" "live_bindings m = []"
    using tombstone_sample [OF v(1), of "Some 3"] by blast
  have "map_abs ?t m 16 = None"
    using cstr_keys.map_first_binding [OF map_inv_purged [OF m(3)] v(2)] purged_bindings [OF m(3)] m(4) by simp
  moreover have m1: "map_ok ?t (cstr_valid ?h) m1" "map_abs ?t m1 16 = Some (Some 3)"
  proof -
    have "mt_match ?t 8 16" using cstr_match [OF v(1,2)] by (simp add: map_cstring_opaque_type_def cstring_at_def)
    then show "map_ok ?t (cstr_valid ?h) m1" "map_abs ?t m1 16 = Some (Some 3)"
      using cstr_keys.mapAdd_rep [of ?h "mapNew 16" 8 "Some (3::nat)"] v m(1) by (auto simp: mapNew_rep dest: map_inv_ok(1))
  qed
  ultimately have "chain_abs ?t [m, m1] 16 = Some 3" by simp
  then show ?thesis using mapGet_chain [of "[m, m1]" ?h 16] m m1(1) v by auto
qed



text \<open>
  Iterating with \<^verbatim>\<open>mapIterInit\<close>/\<^verbatim>\<open>mapIterNext\<close> over a well-formed map visits every binding exactly
  once, in insertion order, and ends.
\<close>

theorem mapIter_insertion_order:
  assumes "map_inv t valid m"
  shows "map_for_each (vec_size (hm_indexes m) + 1) m mapIterInit
    (\<lambda>idx acc. Inr (acc @ [(nd_key (hm_entries m ! unat idx), nd_value (hm_entries m ! unat idx))])) [] =
    Inr (map_bindings m)"
  by (simp add: map_for_each_all [OF assms, simplified] foldl_collect map_bindings_def bindings_def)

theorem mapIter_insertion_order_witness:
  "map_for_each (vec_size (hm_indexes (mapNew 8 :: nat hmap)) + 1) (mapNew 8 :: nat hmap) mapIterInit
    (\<lambda>idx acc. Inr (acc @ [(nd_key (hm_entries (mapNew 8 :: nat hmap) ! unat idx),
       nd_value (hm_entries (mapNew 8 :: nat hmap) ! unat idx))])) [] = Inr []"
proof -
  have "map_inv map_uint_to_uint_type (\<lambda>_. True) (mapNew 8 :: nat hmap)"
    by (simp add: mapNew_rep)
  from mapIter_insertion_order [OF this] show ?thesis by (simp add: mapNew_rep)
qed



text \<open>
  \<^verbatim>\<open>mapClear\<close> empties a map: no key is bound any more, the size is 0, the capacity stays, and the
  release callbacks of the map type get exactly the values and keys that were stored, once each.
\<close>

theorem mapClear_empties:
  assumes "map_inv t valid m"
  shows "\<exists>m'. mapClear t m = Inr (m', if mt_value_release t then map snd (map_bindings m) else [],
      if mt_key_release t then map fst (map_bindings m) else []) \<and>
    map_inv t valid m' \<and> map_abs t m' = (\<lambda>_. None) \<and> hm_size m' = 0 \<and>
    hm_capacity m' = hm_capacity m"
  using mapClear_rep [OF assms] by blast

theorem mapClear_empties_witness:
  "\<exists>m'. mapClear map_uint_to_uint_type (mapNew 8 :: nat hmap) = Inr (m', [], []) \<and>
    hm_size m' = 0"
proof -
  have "map_inv map_uint_to_uint_type (\<lambda>_. True) (mapNew 8 :: nat hmap)"
    by (simp add: mapNew_rep)
  from mapClear_empties [OF this] show ?thesis by (auto simp: map_uint_to_uint_type_def)
qed

text \<open>
  \<^verbatim>\<open>mapMerge(m1, m2)\<close> adds to \<open>m1\<close> the bindings of \<open>m2\<close> whose keys \<open>m1\<close> does not have; a key of
  both maps keeps its value of \<open>m1\<close>.
\<close>

theorem mapMerge_left_wins:
  assumes "map_inv (map_cstring_opaque_type h) (cstr_valid h) m1"
    "map_inv (map_cstring_opaque_type h) (cstr_valid h) m2" "hm_size m1 + hm_size m2 \<le> 2 ^ 49"
  shows "\<exists>m'. mapMerge True (map_cstring_opaque_type h) m1 m2 = Inr m' \<and>
    map_inv (map_cstring_opaque_type h) (cstr_valid h) m' \<and>
    (\<forall>key. cstr_valid h key \<longrightarrow> map_abs (map_cstring_opaque_type h) m' key =
       (case map_abs (map_cstring_opaque_type h) m1 key of Some x \<Rightarrow> Some x
        | None \<Rightarrow> map_abs (map_cstring_opaque_type h) m2 key))"
  using cstr_keys.mapMerge_rep [OF assms] .

theorem mapMerge_left_wins_witness:
  "\<exists>m'. mapMerge True (map_cstring_opaque_type (\<lambda>_. [97, 0])) (mapNew 8) (mapNew 16 :: nat hmap) = Inr m' \<and>
    map_abs (map_cstring_opaque_type (\<lambda>_. [97, 0])) m' 8 = None"
proof -
  let ?h = "\<lambda>_ :: ptr. [97, 0 :: u8]"
  have "cstr_valid ?h 8" by (simp add: cstr_valid_def cstrlen_def)
  then show ?thesis
    using mapMerge_left_wins [of ?h "mapNew 8" "mapNew 16 :: nat hmap"] by (auto simp: mapNew_rep)
qed

text \<open>
  C33. \<^verbatim>\<open>mapRemove\<close> on any map, of any key type and whatever earlier removals left in its table: a power-of-two table with its
  mask, a slot that is not taken, and a size that counts the taken slots. When \<^verbatim>\<open>mapHas\<close> does not find the key, \<^verbatim>\<open>mapRemove\<close>
  changes nothing. When it does, exactly one slot, which held a matching key, becomes a tombstone, its value and key go to the release
  callbacks of the map type, the cache is reset, the size is one less, \<^verbatim>\<open>mapHas\<close> no longer finds the key, and the
  map is again of that shape.
\<close>

theorem mapRemove_removes:
  assumes "map_shape m"
  shows "mapHas t m key = Inr (m, False) \<and> mapRemove t m key = Inr (m, [], []) \<or>
    (\<exists>m1 i m' vs ks. mapHas t m key = Inr (m1, True) \<and> i < length (hm_entries m) \<and> nd_taken (hm_entries m ! i) \<and>
      mt_match t (nd_key (hm_entries m ! i)) key \<and> mapRemove t m key = Inr (m', vs, ks) \<and>
      hm_entries m' = (hm_entries m)[i := \<lparr>nd_flags = MAP_FLAG_DELETED, nd_key = NULL, nd_value = None, nd_key_len = 0\<rparr>] \<and>
      vs = (if mt_value_release t then [nd_value (hm_entries m ! i)] else []) \<and>
      ks = (if mt_key_release t then [nd_key (hm_entries m ! i)] else []) \<and>
      hm_cached_key m' = ULONG_MAX \<and> hm_indexes m' = hm_indexes m \<and> hm_size m' + 1 = hm_size m \<and>
      mapHas t m' key = Inr (m', False) \<and> map_shape m')"
proof (rule shape_lookup [OF assms, of t key])
  assume "mapGetIdx t (hm_entries m) (hm_mask m) key = Inr None"
  then show ?thesis by (simp add: mapRemove_def mapHas_def)
next
  fix i assume i: "i < length (hm_entries m)" "nd_taken (hm_entries m ! i)" "mt_match t (nd_key (hm_entries m ! i)) key"
    "unat (of_nat i :: u64) = i" "mapGetIdx t (hm_entries m) (hm_mask m) key = Inr (Some (of_nat i))"
    "mapGetIdx t ((hm_entries m)[i := node_deleted]) (hm_mask m) key = Inr None"
  define m' where "m' = m\<lparr>hm_entries := (hm_entries m)[i := node_deleted], hm_size := hm_size m - 1,
    hm_cached_key := ULONG_MAX, hm_cached_idx := ULONG_MAX\<rparr>"
  have "map_shape m'" "hm_size m' + 1 = hm_size m"
    by (rule shape_delete [OF assms i(1,2)]; simp add: m'_def)+
  moreover have "mapHas t m' key = Inr (m', False)" using i(6) by (simp add: mapHas_def m'_def)
  moreover have "mapRemove t m key = Inr (m', if mt_value_release t then [nd_value (hm_entries m ! i)] else [],
      if mt_key_release t then [nd_key (hm_entries m ! i)] else [])"
    using i(4,5) by (simp add: mapRemove_def m'_def node_deleted_def Let_def)
  ultimately show ?thesis
    using i by (intro disjI2) (auto simp: mapHas_def m'_def node_deleted_def)
qed

text \<open>Two keys that share their home slot, for the inputs of the examples; the map is what \<^verbatim>\<open>mapAdd\<close> builds.\<close>

definition collide_map :: "nat hmap" where
  "collide_map = (mapNew 8)\<lparr>hm_size := 2, hm_entries := (replicate 8 node_memset1)
     [1 := node_taken 1 (Some 10) 0, 2 := node_taken 9 (Some 90) 0],
     hm_indexes := \<lparr>vec_size = 2, vec_capacity = vec_capacity vecNew,
       vec_entries = (vec_entries vecNew)[0 := Some 1, 1 := Some 2]\<rparr>\<rparr>"

lemma collide_map_built:
  "rbind (mapAdd True map_uint_to_uint_type (mapNew 8) 1 (Some 10)) (\<lambda>(m1, _).
   mapAdd True map_uint_to_uint_type m1 9 (Some 90)) = Inr (collide_map, True)"
  by code_simp

lemma collide_map_ok: "map_ok map_uint_to_uint_type (\<lambda>_. True) collide_map"
proof -
  have "map_inv map_uint_to_uint_type (\<lambda>_. True) (mapNew 8 :: nat hmap)" by (simp add: mapNew_rep)
  then obtain m1 where m1: "mapAdd True map_uint_to_uint_type (mapNew 8) 1 (Some (10::nat)) = Inr (m1, True)"
    "map_inv map_uint_to_uint_type (\<lambda>_. True) m1" "hm_size m1 \<le> 1"
    using int_keys.mapAdd_rep [of "mapNew 8" 1 "Some (10::nat)"] by (auto simp: mapNew_rep)
  then have "map_inv map_uint_to_uint_type (\<lambda>_. True) collide_map"
    using int_keys.mapAdd_rep [OF m1(2), of 9 "Some 90"] collide_map_built by auto
  then show ?thesis by (rule map_inv_ok)
qed

theorem mapRemove_removes_witness:
  "\<exists>m1 m' vs ks. mapHas map_uint_to_uint_type collide_map 9 = Inr (m1, True) \<and>
    mapRemove map_uint_to_uint_type collide_map 9 = Inr (m', vs, ks) \<and> hm_size m' = 1 \<and>
    mapHas map_uint_to_uint_type m' 9 = Inr (m', False)"
proof -
  have "mapHas map_uint_to_uint_type collide_map 9 \<noteq> Inr (collide_map, False)" by code_simp
  moreover have "hm_size collide_map = 2" by (simp add: collide_map_def)
  ultimately show ?thesis
    using mapRemove_removes [OF map_ok_shape [OF collide_map_ok], of map_uint_to_uint_type 9] by fastforce
qed

text \<open>
  C32. Removing a key can lose others. In a well-formed integer-keyed map that binds \<open>a\<close> in slot \<open>i\<close> and another key \<open>b\<close> in
  slot \<open>j\<close>, \<^verbatim>\<open>mapHas\<close> finds \<open>b\<close>; after \<^verbatim>\<open>mapRemove\<close> of \<open>a\<close> it finds \<open>b\<close> exactly when the probe of \<open>b\<close>, which
  starts at its home slot, comes to \<open>j\<close> before \<open>i\<close>. Otherwise it answers false for \<open>b\<close>, which was never removed and is
  still in its slot, because the lookup stops at the tombstone.
\<close>

theorem mapRemove_loses_colliding_key:
  assumes "map_ok map_uint_to_uint_type (\<lambda>_. True) m"
    and "i < length (hm_entries m)" "nd_taken (hm_entries m ! i)" "nd_key (hm_entries m ! i) = a"
    and "j < length (hm_entries m)" "nd_taken (hm_entries m ! j)" "nd_key (hm_entries m ! j) = b" "a \<noteq> b"
  shows "\<exists>m1 m' vs ks m2. mapHas map_uint_to_uint_type m b = Inr (m1, True) \<and>
    mapRemove map_uint_to_uint_type m a = Inr (m', vs, ks) \<and>
    mapHas map_uint_to_uint_type m' b = Inr (m2,
      \<not> probe_dist (length (hm_entries m)) (unat b mod length (hm_entries m)) i <
        probe_dist (length (hm_entries m)) (unat b mod length (hm_entries m)) j) \<and>
    hm_entries m' ! j = hm_entries m ! j"
proof -
  let ?t = map_uint_to_uint_type
  have match: "mt_match ?t = (=)" by (simp add: map_uint_to_uint_type_def mapIntKeyMatch_def fun_eq_iff)
  have home: "home_slot ?t cap b = unat b mod cap" for cap
    by (simp add: home_slot_def map_uint_to_uint_type_def mapIntKeyHash_def)
  have uniq: "x = y" if "x < length (hm_entries m)" "y < length (hm_entries m)" "nd_taken (hm_entries m ! x)"
    "nd_taken (hm_entries m ! y)" "nd_key (hm_entries m ! x) = nd_key (hm_entries m ! y)" for x y
    using table_inv_uniq [OF map_okD(1) [OF assms(1)], of x y] that match by simp
  have found: "mapGetIdx ?t (hm_entries m) (hm_mask m) (nd_key (hm_entries m ! x)) = Inr (Some (of_nat x)) \<and> unat (of_nat x :: u64) = x"
    if x: "x < length (hm_entries m)" "nd_taken (hm_entries m ! x)" for x
  proof -
    have "map_abs ?t m (nd_key (hm_entries m ! x)) \<noteq> None"
      using x match by (auto simp: map_abs_def table_abs_None)
    then show ?thesis
      using int_keys.map_lookup_ok [OF assms(1), of "nd_key (hm_entries m ! x)"] uniq x match by auto
  qed
  have "i \<noteq> j" using assms(4,7,8) by auto
  then show ?thesis
    using found [OF assms(2,3)] found [OF assms(5,6)] assms(4,7) home
      int_keys.lookup_after_delete [OF assms(1-3,5,6)]
    by (auto simp: mapHas_def mapRemove_def Let_def node_deleted_def)
qed

theorem mapRemove_loses_colliding_key_witness:
  "\<exists>m1 m' vs ks m2. mapHas map_uint_to_uint_type collide_map 9 = Inr (m1, True) \<and>
    mapRemove map_uint_to_uint_type collide_map 1 = Inr (m', vs, ks) \<and>
    mapHas map_uint_to_uint_type m' 9 = Inr (m2, False)"
proof -
  have "length (hm_entries collide_map) = 8" "hm_entries collide_map ! 1 = node_taken 1 (Some 10) 0"
    "hm_entries collide_map ! 2 = node_taken 9 (Some 90) 0"
    by (simp_all add: collide_map_def)
  then show ?thesis
    using mapRemove_loses_colliding_key [OF collide_map_ok, of 1 1 2 9] by (auto simp: probe_dist_def)
qed

end
