(* ===== verification/HashSet.thy ===== *)
theory HashSet
  imports HashMap_Iter
begin

text \<open>
  The hash set of \<^verbatim>\<open>src/src/containers.c\<close> (\<^verbatim>\<open>struct Set\<close>, \<^verbatim>\<open>setNew\<close> to \<^verbatim>\<open>setCopy\<close>): the table of the map
  with an \<^verbatim>\<open>occupied\<close> flag instead of the three-state flags, without tombstones and without a cache.
  A set is simulated by a map from its keys to null: \<open>to_map\<close> embeds the table, the probes agree,
  and so the table lemmas of the map carry the set.
\<close>

section \<open>Model\<close>

record set_node =
  sn_occupied :: bool
  sn_key :: ptr
  sn_key_len :: u64

record set_type =
  st_match :: "ptr \<Rightarrow> ptr \<Rightarrow> bool"
  st_hash :: "ptr \<Rightarrow> u64"
  st_get_key_len :: "ptr \<Rightarrow> u64"
  st_value_release :: bool
  st_is_cstring :: bool
  st_heap :: cheap

record hset =
  hs_size :: nat
  hs_capacity :: nat
  hs_mask :: u64
  hs_threashold :: nat
  hs_entries :: "set_node list"
  hs_indexes :: vec

definition set_uint_type :: set_type where
  "set_uint_type = \<lparr>st_match = mapIntKeyMatch, st_hash = mapIntKeyHash,
     st_get_key_len = mapIntKeyLen, st_value_release = False, st_is_cstring = False,
     st_heap = (\<lambda>_. [])\<rparr>"

definition set_int_type :: set_type where
  "set_int_type = \<lparr>st_match = mapIntKeyMatch, st_hash = mapIntKeyHash,
     st_get_key_len = mapIntKeyLen, st_value_release = False, st_is_cstring = False,
     st_heap = (\<lambda>_. [])\<rparr>"

definition set_cstring_type :: "cheap \<Rightarrow> set_type" where
  "set_cstring_type h = \<lparr>st_match = mapCStringEq h, st_hash = mapCStringHash h,
     st_get_key_len = mapCStringLen h, st_value_release = False, st_is_cstring = True,
     st_heap = h\<rparr>"

definition set_node_zero :: set_node where
  "set_node_zero = \<lparr>sn_occupied = False, sn_key = NULL, sn_key_len = 0\<rparr>"

text \<open>Unlike \<^verbatim>\<open>mapNew\<close>, \<^verbatim>\<open>setNew\<close> takes the capacity as it is; its callers pass powers of two.\<close>

definition setNew :: "u64 \<Rightarrow> hset" where
  "setNew capacity =
     \<lparr>hs_size = 0, hs_capacity = unat capacity, hs_mask = capacity - 1,
      hs_threashold = load_threashold (unat capacity),
      hs_entries = replicate (unat capacity) set_node_zero, hs_indexes = vecNew\<rparr>"

subsection \<open>Probing\<close>

text \<open>All four probe loops: along the occupied slots until one has the key.\<close>

fun set_probe ::
  "nat \<Rightarrow> set_node list \<Rightarrow> u64 \<Rightarrow> (set_node \<Rightarrow> bool) \<Rightarrow> u64 \<Rightarrow> (u64 \<times> bool) result"
where
  "set_probe 0 es msk same idx = Inl Diverges"
| "set_probe (Suc fuel) es msk same idx =
     (if unat idx \<ge> length es then Inl OutOfBounds
      else let cur = es ! unat idx in
        if sn_occupied cur
        then if same cur then Inr (idx, False) else set_probe fuel es msk same ((idx + 1) AND msk)
        else Inr (idx, True))"

definition setGetNextIdx :: "set_type \<Rightarrow> set_node list \<Rightarrow> u64 \<Rightarrow> ptr \<Rightarrow> (u64 \<times> bool) result" where
  "setGetNextIdx t es msk key =
     set_probe (length es) es msk (\<lambda>n. st_match t (sn_key n) key) (st_hash t key AND msk)"

definition set_same_len :: "set_type \<Rightarrow> ptr \<Rightarrow> u64 \<Rightarrow> set_node \<Rightarrow> bool" where
  "set_same_len t key len n \<longleftrightarrow> sn_key_len n = len \<and>
     cbytes (st_heap t) (sn_key n) (unat len) = cbytes (st_heap t) key (unat len)"

text \<open>The string version overwrites \<^verbatim>\<open>*_is_free\<close> with 1 on both ways out of its loop.\<close>

definition setGetCStringNextIdx ::
  "set_type \<Rightarrow> set_node list \<Rightarrow> u64 \<Rightarrow> ptr \<Rightarrow> u64 \<Rightarrow> (u64 \<times> bool) result" where
  "setGetCStringNextIdx t es msk key len =
     rbind (set_probe (length es) es msk (set_same_len t key len)
              (mapCStringHashLen (st_heap t) key len AND msk)) (\<lambda>(idx, _). Inr (idx, True))"

definition setGetIdx :: "set_type \<Rightarrow> set_node list \<Rightarrow> u64 \<Rightarrow> ptr \<Rightarrow> u64 option result" where
  "setGetIdx t es msk key =
     rbind (set_probe (length es) es msk (\<lambda>n. st_match t (sn_key n) key) (st_hash t key AND msk))
       (\<lambda>(idx, free). Inr (if free then None else Some idx))"

definition setGetCStringIdx ::
  "set_type \<Rightarrow> set_node list \<Rightarrow> u64 \<Rightarrow> ptr \<Rightarrow> u64 \<Rightarrow> u64 option result" where
  "setGetCStringIdx t es msk key len =
     rbind (set_probe (length es) es msk (set_same_len t key len)
              (mapCStringHashLen (st_heap t) key len AND msk))
       (\<lambda>(idx, free). Inr (if free then None else Some idx))"

subsection \<open>Operations\<close>

definition set_node_for :: "ptr \<Rightarrow> u64 \<Rightarrow> set_node" where
  "set_node_for key len = \<lparr>sn_occupied = True, sn_key = key, sn_key_len = len\<rparr>"

fun setResize_loop ::
  "set_type \<Rightarrow> u64 \<Rightarrow> set_node list \<Rightarrow> ptr option list \<Rightarrow> nat \<Rightarrow> nat \<Rightarrow>
   set_node list \<Rightarrow> u64 list \<Rightarrow> (set_node list \<times> u64 list) result"
where
  "setResize_loop t msk old_es idxs i 0 es new_idxs = Inr (es, new_idxs)"
| "setResize_loop t msk old_es idxs i (Suc n) es new_idxs =
     rbind (cell_at idxs i) (\<lambda>idx.
       if unat idx \<ge> length old_es then Inl OutOfBounds
       else let old = old_es ! unat idx in
         if sn_occupied old
         then rbind (if st_is_cstring t
                     then setGetCStringNextIdx t es msk (sn_key old) (sn_key_len old)
                     else setGetNextIdx t es msk (sn_key old)) (\<lambda>(new_idx, is_free).
           if \<not> is_free then Inl AssertFail
           else setResize_loop t msk old_es idxs (Suc i) n
             (es[unat new_idx := set_node_for (sn_key old) (sn_key_len old)])
             (new_idxs @ [new_idx]))
         else setResize_loop t msk old_es idxs (Suc i) n es new_idxs)"

definition setResize :: "bool \<Rightarrow> set_type \<Rightarrow> hset \<Rightarrow> (hset \<times> bool) result" where
  "setResize alloc_ok t s =
     (let new_capacity = hs_capacity s * 2;
          new_mask = of_nat new_capacity - 1;
          indexes_size = vec_size (hs_indexes s)
      in if \<not> alloc_ok then Inr (s, False)
         else rbind (setResize_loop t new_mask (hs_entries s) (vec_entries (hs_indexes s)) 0
                       indexes_size (replicate new_capacity set_node_zero) [])
           (\<lambda>(es, new_idxs). Inr
             (s\<lparr>hs_mask := new_mask, hs_entries := es, hs_capacity := new_capacity,
                hs_indexes := \<lparr>vec_size = length new_idxs, vec_capacity = indexes_size,
                  vec_entries = map Some new_idxs @
                    replicate (indexes_size - length new_idxs) (Some 0)\<rparr>,
                hs_size := length new_idxs, hs_threashold := load_threashold new_capacity\<rparr>, True)))"

definition setAdd :: "bool \<Rightarrow> set_type \<Rightarrow> hset \<Rightarrow> ptr \<Rightarrow> (hset \<times> bool) result" where
  "setAdd alloc_ok t s key =
     rbind (if hs_size s \<ge> hs_threashold s then setResize alloc_ok t s else Inr (s, True)) (\<lambda>(s, ok).
       if \<not> ok then Inr (s, False)
       else rbind (setGetNextIdx t (hs_entries s) (hs_mask s) key) (\<lambda>(idx, is_free).
         if is_free
         then rbind (vecPushInt (hs_indexes s) idx) (\<lambda>ix.
           Inr (s\<lparr>hs_entries := (hs_entries s)[unat idx := set_node_for key (st_get_key_len t key)],
                  hs_indexes := ix, hs_size := hs_size s + 1\<rparr>, True))
         else Inr (s, False)))"

definition setRemove :: "set_type \<Rightarrow> hset \<Rightarrow> ptr \<Rightarrow> (hset \<times> ptr) result" where
  "setRemove t s key =
     rbind (setGetIdx t (hs_entries s) (hs_mask s) key) (\<lambda>found.
       case found of
         None \<Rightarrow> Inr (s, NULL)
       | Some idx \<Rightarrow>
           Inr (s\<lparr>hs_entries := (hs_entries s)[unat idx := set_node_zero], hs_size := hs_size s - 1\<rparr>,
                sn_key (hs_entries s ! unat idx)))"

definition setHas :: "set_type \<Rightarrow> hset \<Rightarrow> ptr \<Rightarrow> bool result" where
  "setHas t s key =
     rbind (setGetIdx t (hs_entries s) (hs_mask s) key) (\<lambda>found. Inr (found \<noteq> None))"

definition setHasLen :: "set_type \<Rightarrow> hset \<Rightarrow> ptr \<Rightarrow> u64 \<Rightarrow> bool result" where
  "setHasLen t s key len =
     rbind (setGetCStringIdx t (hs_entries s) (hs_mask s) key len) (\<lambda>found. Inr (found \<noteq> None))"

definition setGetAt :: "hset \<Rightarrow> int \<Rightarrow> ptr result" where
  "setGetAt s index =
     (if index < 0 \<or> nat index \<ge> vec_size (hs_indexes s) then Inr NULL
      else rbind (vecGetAt (hs_indexes s) (nat index)) (\<lambda>idx.
        if unat idx < length (hs_entries s) then Inr (sn_key (hs_entries s ! unat idx))
        else Inl OutOfBounds))"

text \<open>
  \<^verbatim>\<open>memset(entries, 1, sizeof(void *) * capacity)\<close>: the first \<open>8 * capacity\<close> bytes of the array of
  24-byte nodes, whose fields stand at offsets 0, 8 and 16.
\<close>

definition set_memset1 :: "nat \<Rightarrow> nat \<Rightarrow> set_node \<Rightarrow> set_node" where
  "set_memset1 cap i n =
     \<lparr>sn_occupied = (24 * i + 8 \<le> 8 * cap \<or> sn_occupied n),
      sn_key = (if 24 * i + 16 \<le> 8 * cap then 0x0101010101010101 else sn_key n),
      sn_key_len = (if 24 * i + 24 \<le> 8 * cap then 0x0101010101010101 else sn_key_len n)\<rparr>"

definition setClear :: "hset \<Rightarrow> hset" where
  "setClear s =
     s\<lparr>hs_entries := map (\<lambda>(i, n). set_memset1 (hs_capacity s) i n)
         (zip [0..<length (hs_entries s)] (hs_entries s)),
       hs_indexes := fst (vecClear vec_unsigned_long_type (hs_indexes s)), hs_size := 0\<rparr>"

record set_iter =
  si_value :: ptr
  si_idx :: nat
  si_vecidx :: nat

definition setIterInit :: set_iter where
  "setIterInit = \<lparr>si_value = NULL, si_idx = 0, si_vecidx = 0\<rparr>"

function setIterNext :: "hset \<Rightarrow> set_iter \<Rightarrow> (set_iter \<times> bool) result" where
  "setIterNext s it =
     (if si_vecidx it < vec_size (hs_indexes s)
      then case vecGetAt (hs_indexes s) (si_vecidx it) of
             Inl e \<Rightarrow> Inl e
           | Inr idx \<Rightarrow>
               (if unat idx \<ge> length (hs_entries s) then Inl OutOfBounds
                else let n = hs_entries s ! unat idx;
                         it = it\<lparr>si_vecidx := si_vecidx it + 1\<rparr>
                  in if sn_occupied n
                     then Inr (it\<lparr>si_idx := si_idx it + 1, si_value := sn_key n\<rparr>, True)
                     else setIterNext s it)
      else Inr (it, False))"
  by pat_completeness auto
termination
  by (relation "measure (\<lambda>(s, it). vec_size (hs_indexes s) - si_vecidx it)") auto

declare setIterNext.simps [simp del]

text \<open>\<^verbatim>\<open>setNext\<close> is the same loop returning the key, or null at the end.\<close>

definition setNext :: "hset \<Rightarrow> set_iter \<Rightarrow> (set_iter \<times> ptr) result" where
  "setNext s it = rbind (setIterNext s it) (\<lambda>(it, more). Inr (it, if more then si_value it else NULL))"

text \<open>
  \<^verbatim>\<open>while (setIterNext(&it)) body\<close> and \<^verbatim>\<open>SetFor(it, value) body\<close>; the second ends at the first null
  key. The body returns the new state and whether to go on.
\<close>

fun set_for_iter ::
  "nat \<Rightarrow> hset \<Rightarrow> set_iter \<Rightarrow> (ptr \<Rightarrow> 's \<Rightarrow> ('s \<times> bool) result) \<Rightarrow> 's \<Rightarrow> 's result"
where
  "set_for_iter 0 s it body st = Inl Diverges"
| "set_for_iter (Suc fuel) s it body st =
     rbind (setIterNext s it) (\<lambda>(it, more).
       if more
       then rbind (body (si_value it) st) (\<lambda>(st, go).
         if go then set_for_iter fuel s it body st else Inr st)
       else Inr st)"

fun SetFor :: "nat \<Rightarrow> hset \<Rightarrow> set_iter \<Rightarrow> (ptr \<Rightarrow> 's \<Rightarrow> 's result) \<Rightarrow> 's \<Rightarrow> 's result" where
  "SetFor 0 s it body st = Inl Diverges"
| "SetFor (Suc fuel) s it body st =
     rbind (setNext s it) (\<lambda>(it, v).
       if v \<noteq> NULL then rbind (body v st) (SetFor fuel s it body) else Inr st)"

declare set_for_iter.simps [simp del] and SetFor.simps [simp del]

definition set_fuel :: "hset \<Rightarrow> nat" where
  "set_fuel s = vec_size (hs_indexes s) + 1"

definition setEq :: "set_type \<Rightarrow> hset \<Rightarrow> hset \<Rightarrow> bool result" where
  "setEq t s1 s2 =
     (if hs_size s1 \<noteq> hs_size s2 then Inr False
      else set_for_iter (set_fuel s1) s1 setIterInit
        (\<lambda>v _. rbind (setHas t s2 v) (\<lambda>b. Inr (b, b))) True)"

text \<open>The result of \<^verbatim>\<open>setAdd\<close> is not looked at by the loops below.\<close>

definition set_add_step :: "bool \<Rightarrow> set_type \<Rightarrow> ptr \<Rightarrow> hset \<Rightarrow> hset result" where
  "set_add_step alloc_ok t v s = rbind (setAdd alloc_ok t s v) (\<lambda>(s, _). Inr s)"

definition setUnion :: "bool \<Rightarrow> set_type \<Rightarrow> hset \<Rightarrow> hset \<Rightarrow> hset result" where
  "setUnion alloc_ok t s1 s2 =
     rbind (SetFor (set_fuel s1) s1 setIterInit (set_add_step alloc_ok t)
              (setNew (of_nat (hs_capacity s1))))
       (SetFor (set_fuel s2) s2 setIterInit (set_add_step alloc_ok t))"

definition setDifference :: "bool \<Rightarrow> set_type \<Rightarrow> hset \<Rightarrow> hset \<Rightarrow> hset result" where
  "setDifference alloc_ok t s1 s2 =
     SetFor (set_fuel s1) s1 setIterInit
       (\<lambda>v s. rbind (setHas t s2 v) (\<lambda>b. if b then Inr s else set_add_step alloc_ok t v s))
       (setNew (of_nat (hs_capacity s1)))"

definition setCopy :: "bool \<Rightarrow> set_type \<Rightarrow> hset \<Rightarrow> hset result" where
  "setCopy alloc_ok t s =
     (let copy = setNew (of_nat (hs_capacity s))
      in rbind (setUnion alloc_ok t copy s) (\<lambda>_. Inr copy))"

lemmas [set_ops] = setGetNextIdx_def setGetIdx_def setResize_def setAdd_def setRemove_def setHas_def
  setGetAt_def setClear_def setNext_def setEq_def setUnion_def setDifference_def setCopy_def

section \<open>Simulation by a map\<close>

definition to_node :: "set_node \<Rightarrow> unit map_node" where
  "to_node n = (if sn_occupied n then node_taken (sn_key n) None (sn_key_len n) else node_memset1)"

definition to_type :: "set_type \<Rightarrow> map_type" where
  "to_type t = \<lparr>mt_match = st_match t, mt_hash = st_hash t, mt_get_key_len = st_get_key_len t,
     mt_key_release = False, mt_value_release = False, mt_key_is_cstring = st_is_cstring t,
     mt_heap = st_heap t\<rparr>"

definition to_map :: "hset \<Rightarrow> unit hmap" where
  "to_map s = \<lparr>hm_size = hs_size s, hm_capacity = hs_capacity s, hm_mask = hs_mask s,
     hm_threashold = hs_threashold s, hm_entries = map to_node (hs_entries s),
     hm_indexes = hs_indexes s, hm_cached_key = ULONG_MAX, hm_cached_idx = ULONG_MAX\<rparr>"

lemma to_map_simps [simp]:
  "hm_size (to_map s) = hs_size s" "hm_capacity (to_map s) = hs_capacity s"
  "hm_mask (to_map s) = hs_mask s" "hm_threashold (to_map s) = hs_threashold s"
  "hm_entries (to_map s) = map to_node (hs_entries s)" "hm_indexes (to_map s) = hs_indexes s"
  by (simp_all add: to_map_def)

lemma to_node_simps [simp]:
  "nd_taken (to_node n) = sn_occupied n" "nd_free (to_node n) = (\<not> sn_occupied n)"
  "sn_occupied n \<Longrightarrow> nd_key (to_node n) = sn_key n"
  "sn_occupied n \<Longrightarrow> nd_key_len (to_node n) = sn_key_len n" "\<not> nd_deleted (to_node n)"
  by (simp_all add: to_node_def)

lemma to_node_zero: "to_node set_node_zero = node_memset1"
  by (simp add: to_node_def set_node_zero_def)

lemma to_node_for: "to_node (set_node_for key len) = node_taken key None len"
  by (simp add: to_node_def set_node_for_def)

lemma to_type_simps [simp]:
  "mt_match (to_type t) = st_match t" "mt_hash (to_type t) = st_hash t"
  "mt_get_key_len (to_type t) = st_get_key_len t" "mt_key_is_cstring (to_type t) = st_is_cstring t"
  "mt_heap (to_type t) = st_heap t"
  by (simp_all add: to_type_def)

lemma set_probe_free:
  assumes "\<And>n. sn_occupied n \<Longrightarrow> same' (to_node n) = same n"
  shows "set_probe fuel es msk same idx = probe_free fuel (map to_node es) msk same' idx"
proof (induction fuel arbitrary: idx)
  case (Suc fuel)
  then show ?case using assms by (auto simp: Let_def)
qed simp

lemma set_probe_taken:
  assumes "\<And>n. sn_occupied n \<Longrightarrow> same' (to_node n) = same n"
  shows "rbind (set_probe fuel es msk same idx) (\<lambda>(idx, free). Inr (if free then None else Some idx)) =
    probe_taken fuel (map to_node es) msk same' idx"
proof (induction fuel arbitrary: idx)
  case (Suc fuel)
  then show ?case using assms by (auto simp: Let_def)
qed simp

lemma setGetIdx_sim: "setGetIdx t es msk key = mapGetIdx (to_type t) (map to_node es) msk key"
  unfolding setGetIdx_def mapGetIdx_def to_type_simps length_map
  by (rule set_probe_taken) simp

lemma setGetNextIdx_sim:
  "setGetNextIdx t es msk key = mapGetNextIdx (to_type t) (map to_node es) msk key"
  unfolding setGetNextIdx_def mapGetNextIdx_def to_type_simps length_map
  by (rule set_probe_free) simp

lemma setGetCStringNextIdx_sim:
  "setGetCStringNextIdx t es msk key len =
   rbind (mapGetCStringNextIdx (to_type t) (map to_node es) msk key len) (\<lambda>(idx, _). Inr (idx, True))"
proof -
  have "set_probe (length es) es msk (set_same_len t key len)
      (mapCStringHashLen (st_heap t) key len AND msk) =
    mapGetCStringNextIdx (to_type t) (map to_node es) msk key len"
    unfolding mapGetCStringNextIdx_def to_type_simps length_map
    by (rule set_probe_free) (simp add: set_same_len_def node_same_len_def)
  then show ?thesis by (simp add: setGetCStringNextIdx_def)
qed

lemma to_node_value [simp]: "nd_value (to_node n) = None"
  by (simp add: to_node_def node_memset1_def)

text \<open>
  The abstraction of a set: well-formed when the map it embeds to is, with the elements in
  insertion order.
\<close>

definition set_inv :: "set_type \<Rightarrow> (ptr \<Rightarrow> bool) \<Rightarrow> hset \<Rightarrow> bool" where
  "set_inv t valid s \<longleftrightarrow> map_inv (to_type t) valid (to_map s)"

definition set_elems :: "hset \<Rightarrow> ptr list" where
  "set_elems s = map fst (map_bindings (to_map s))"

definition set_mem :: "set_type \<Rightarrow> hset \<Rightarrow> ptr \<Rightarrow> bool" where
  "set_mem t s key \<longleftrightarrow> (\<exists>k \<in> set (set_elems s). st_match t k key)"

locale set_key_type = key_type "to_type st" valid for st :: set_type and valid :: "ptr \<Rightarrow> bool"
begin

text \<open>The copy loops run in step: the assertion of the set's loop never fires.\<close>

lemma set_resize_loop_sim:
  assumes "table_inv (to_type st) valid (map to_node xs0)" "distinct L"
    and "\<forall>y \<in> set L. unat y < length xs0 \<and> sn_occupied (xs0 ! unat y)"
    and "i + n = length L" "table_inv (to_type st) valid (map to_node xs)" "length xs = 2 ^ k" "k < 51"
    and "slots_ok (map to_node xs) new" "length new = i" "length L < length xs"
    and "\<forall>key. valid key \<longrightarrow> table_abs (to_type st) (map to_node xs) key =
      moved_abs (to_type st) (map to_node xs0) (take i L) key"
  shows "\<exists>xs' new'. setResize_loop st (mask k) xs0 (map Some L @ rest) i n xs new = Inr (xs', new') \<and>
    mapResize_loop (to_type st) (mask k) (map to_node xs0) (map Some L @ rest) i n
      (map to_node xs) new = Inr (map to_node xs', new')"
  using assms(4-)
proof (induction n arbitrary: i xs new)
  case (Suc n)
  let ?t = "to_type st" and ?x = "L ! i"
  let ?old = "xs0 ! unat ?x"
  have i: "i < length L" using Suc.prems by simp
  have x: "unat ?x < length xs0" "sn_occupied ?old" using assms(3) i by simp_all
  have prev: "\<forall>y \<in> set (take i L). unat y < length (map to_node xs0) \<and>
      nd_taken (map to_node xs0 ! unat y)"
    using assms(3) in_set_takeD [of _ i L] by fastforce
  have fresh: "?x \<notin> set (take i L)"
    using assms(2) i by (metis distinct_take not_distinct_conv_prefix take_Suc_conv_app_nth)
  have x': "unat ?x < length (map to_node xs0)" "nd_taken (map to_node xs0 ! unat ?x)"
    using x by simp_all
  have len: "length (map to_node xs) = 2 ^ k" "length new < length (map to_node xs)"
    using Suc.prems i by simp_all
  obtain j es' where j: "resize_probe ?t (map to_node xs) (mask k) (map to_node xs0 ! unat ?x) =
      Inr (of_nat j, True)"
    "es' = (map to_node xs)[j := node_taken (nd_key (map to_node xs0 ! unat ?x))
       (nd_value (map to_node xs0 ! unat ?x)) (nd_key_len (map to_node xs0 ! unat ?x))]"
    "unat (of_nat j :: u64) = j" "table_inv ?t valid es'" "slots_ok es' (new @ [of_nat j])"
    "\<forall>key. valid key \<longrightarrow> table_abs ?t es' key =
      moved_abs ?t (map to_node xs0) (take i L @ [?x]) key"
    using resize_step [OF assms(1) x' prev fresh Suc.prems(2) len(1) Suc.prems(4,5) len(2)
        Suc.prems(8)] by blast
  let ?xs = "xs[j := set_node_for (sn_key ?old) (sn_key_len ?old)]"
  have es': "es' = map to_node ?xs"
    using j(2) x by (simp add: map_update to_node_for)
  have probe: "(if st_is_cstring st then setGetCStringNextIdx st xs (mask k) (sn_key ?old) (sn_key_len ?old)
      else setGetNextIdx st xs (mask k) (sn_key ?old)) = Inr (of_nat j, True)"
    using j(1) x by (auto simp: resize_probe_def setGetNextIdx_sim setGetCStringNextIdx_sim)
  have "\<exists>xs' new'. setResize_loop st (mask k) xs0 (map Some L @ rest) (Suc i) n ?xs
        (new @ [of_nat j]) = Inr (xs', new') \<and>
      mapResize_loop ?t (mask k) (map to_node xs0) (map Some L @ rest) (Suc i) n
        (map to_node ?xs) (new @ [of_nat j]) = Inr (map to_node xs', new')"
    using j(4-) es' Suc.prems i by (intro Suc.IH) (simp_all add: take_Suc_conv_app_nth)
  then show ?case
    using i x j(1,2,3) es' probe by (simp add: cell_at_rep Let_def)
qed simp

lemma setResize_sim:
  assumes inv: "set_inv st valid s" and small: "hs_capacity s < 2 ^ 50" and busy: "hs_size s \<noteq> 0"
  shows "\<exists>s'. setResize True st s = Inr (s', True) \<and>
    mapResize True (to_type st) (to_map s) = Inr (to_map s', True)"
proof -
  note D = map_invD [OF inv [unfolded set_inv_def]]
  let ?L = "vec_list (hs_indexes s)" and ?n = "map to_node (hs_entries s)"
  have sl: "slots_ok ?n ?L" and ti: "table_inv (to_type st) valid ?n" and vi: "vec_inv (hs_indexes s)"
    and cap: "hs_capacity s = length (hs_entries s)"
    and sz: "hs_size s = length ?L" "hs_size s \<le> load_threashold (hs_capacity s)"
    using D by (simp_all add: to_map_def)
  obtain k where k: "0 < k" "k < 51" "length ?n = 2 ^ k" "2 \<le> length ?n"
    using ti by (rule table_inv_pow2)
  have k': "Suc k < 51"
    using k small cap power_strict_increasing_iff [of "2::nat" k 50] by simp
  note new = table_inv_memset1 [of "Suc k" "to_type st" valid, OF zero_less_Suc k']
  have mem: "map to_node (replicate (2 ^ Suc k) set_node_zero) = replicate (2 ^ Suc k) node_memset1"
    by (simp add: to_node_zero)
  obtain rest where r: "vec_entries (hs_indexes s) = map Some ?L @ rest"
    "vec_size (hs_indexes s) = length ?L"
    using vi by (rule vec_rep)
  have taken: "\<forall>y \<in> set ?L. unat y < length (hs_entries s) \<and> sn_occupied (hs_entries s ! unat y)"
    using slots_ok_taken [OF sl] by force
  have "length ?L < 2 ^ Suc k"
    using sz cap k load_threashold_less [of "2 ^ k"] by simp
  moreover have "slots_ok (replicate (2 ^ Suc k) (node_memset1 :: unit map_node)) []"
    by (simp add: slots_ok_def)
  moreover have "table_abs (to_type st) (replicate (2 ^ Suc k) (node_memset1 :: unit map_node)) key =
      moved_abs (to_type st) ?n (take 0 ?L) key" for key
    by (simp add: moved_abs_def table_abs_None)
  moreover have "distinct ?L" using sl by (simp add: slots_ok_def)
  ultimately obtain xs' new' where loop:
    "setResize_loop st (mask (Suc k)) (hs_entries s) (map Some ?L @ rest) 0 (length ?L)
       (replicate (2 ^ Suc k) set_node_zero) [] = Inr (xs', new')"
    "mapResize_loop (to_type st) (mask (Suc k)) ?n (map Some ?L @ rest) 0 (length ?L)
       (replicate (2 ^ Suc k) node_memset1) [] = Inr (map to_node xs', new')"
    using set_resize_loop_sim [OF ti _ taken, of 0 "length ?L" "replicate (2 ^ Suc k) set_node_zero"
        "Suc k" "[]" rest] new k'
    unfolding mem by (auto simp del: power_Suc)
  then show ?thesis
    using k(3) cap r mask_of_pow2 [of "Suc k"]
    by (simp add: setResize_def mapResize_def Let_def to_map_def mult.commute)
qed

text \<open>\<^verbatim>\<open>setAdd\<close> is \<^verbatim>\<open>mapAddOrErr\<close> with a null value.\<close>

lemma setAdd_sim:
  assumes inv: "set_inv st valid s" and small: "hs_size s < 2 ^ 49" and v: "valid key"
  shows "\<exists>s'. setAdd True st s key = Inr (s', map_abs (to_type st) (to_map s) key = None) \<and>
    mapAddOrErr True (to_type st) (to_map s) key None =
      Inr (to_map s', map_abs (to_type st) (to_map s) key = None)"
proof -
  obtain m' where m': "mapAddOrErr True (to_type st) (to_map s) key None =
      Inr (m', map_abs (to_type st) (to_map s) key = None)"
    using mapAddOrErr_rep [OF inv [unfolded set_inv_def] _ v, of None] small
    by (auto simp: to_map_def)
  have "\<exists>s1. (if hs_size s \<ge> hs_threashold s then setResize True st s else Inr (s, True)) =
      Inr (s1, True) \<and> map_ensure_room True (to_type st) (to_map s) = Inr (to_map s1, True)"
  proof (cases "hs_size s \<ge> hs_threashold s")
    case True
    then have "hs_capacity s < 2 ^ 50" "hs_size s \<noteq> 0"
      using map_full_capacity [OF inv [unfolded set_inv_def]] small by simp_all
    then show ?thesis
      using setResize_sim [OF inv] True by (auto simp: map_ensure_room_def)
  qed (auto simp: map_ensure_room_def)
  then obtain s1 where s1: "(if hs_size s \<ge> hs_threashold s then setResize True st s
      else Inr (s, True)) = Inr (s1, True)"
    "map_ensure_room True (to_type st) (to_map s) = Inr (to_map s1, True)" by blast
  obtain idx free where p: "mapGetNextIdx (to_type st) (map to_node (hs_entries s1)) (hs_mask s1) key =
      Inr (idx, free)"
    using m' s1(2) by (auto simp: mapAddOrErr_def)
  have "rbind (setAdd True st s key) (\<lambda>(s', b). Inr (to_map s', b)) =
      mapAddOrErr True (to_type st) (to_map s) key None"
  proof (cases free)
    case True
    then have "unat idx < length (hs_entries s1)"
      using m' s1(2) p by (auto simp: mapAddOrErr_def map_claim_slot_def split: if_splits)
    then show ?thesis
      using s1 p True
      by (cases "vecPushInt (hs_indexes s1) idx")
        (simp_all add: setAdd_def mapAddOrErr_def setGetNextIdx_sim map_claim_slot_def
          map_write_slot_def map_update to_node_for to_map_def)
  next
    case False
    then show ?thesis
      using s1 p by (simp add: setAdd_def mapAddOrErr_def setGetNextIdx_sim)
  qed
  then show ?thesis using m' by auto
qed

lemma set_mem_abs:
  assumes "set_inv st valid s"
  shows "set_mem st s key \<longleftrightarrow> map_abs (to_type st) (to_map s) key \<noteq> None"
  using bindings_present [OF map_invD(6) [OF assms [unfolded set_inv_def]], of key]
  by (auto simp: set_mem_def set_elems_def map_bindings_def map_abs_def)

lemma setHas_rep:
  assumes inv: "set_inv st valid s" and v: "valid key"
  shows "setHas st s key = Inr (set_mem st s key)"
  using map_lookup [OF inv [unfolded set_inv_def] v] set_mem_abs [OF inv, of key]
  by (auto simp: setHas_def setGetIdx_sim to_map_def)

lemma setAdd_rep:
  assumes inv: "set_inv st valid s" and small: "hs_size s < 2 ^ 49" and v: "valid key"
  shows "\<exists>s'. setAdd True st s key = Inr (s', \<not> set_mem st s key) \<and> set_inv st valid s' \<and>
    hs_size s' \<le> hs_size s + 1 \<and>
    set_elems s' = (if set_mem st s key then set_elems s else set_elems s @ [key])"
proof -
  obtain s' where s': "setAdd True st s key = Inr (s', \<not> set_mem st s key)"
    "mapAddOrErr True (to_type st) (to_map s) key None = Inr (to_map s', \<not> set_mem st s key)"
    using setAdd_sim [OF assms] set_mem_abs [OF inv, of key] by auto
  show ?thesis
    using mapAddOrErr_rep [OF inv [unfolded set_inv_def] _ v, of None] small s'
      set_mem_abs [OF inv, of key]
    by (auto simp: set_inv_def set_elems_def to_map_def [of s] to_map_def [of s'] split: if_splits)
qed

lemma set_mem_add:
  assumes inv: "set_inv st valid s" and v: "valid a" "valid b"
    and el: "set_elems s' = (if set_mem st s a then set_elems s else set_elems s @ [a])"
  shows "set_mem st s' b \<longleftrightarrow> set_mem st s b \<or> st_match st a b"
proof -
  have "set_mem st s b" if "set_mem st s a" "st_match st a b"
    using that map_abs_match [OF inv [unfolded set_inv_def] v] set_mem_abs [OF inv] by simp
  with el show ?thesis by (auto simp: set_mem_def)
qed

lemma set_elems_valid: "set_inv st valid s \<Longrightarrow> k \<in> set (set_elems s) \<Longrightarrow> valid k"
  using map_invD(1,6) [of "to_type st" valid "to_map s"] table_invD(2) slots_ok_taken
  by (fastforce simp: set_inv_def set_elems_def map_bindings_def bindings_def)

subsection \<open>Iteration and set algebra\<close>

lemma setIterNext_rep:
  assumes inv: "set_inv st valid s"
  shows "setIterNext s it =
    (if si_vecidx it < length (set_elems s)
     then Inr (\<lparr>si_value = set_elems s ! si_vecidx it, si_idx = si_idx it + 1,
                si_vecidx = si_vecidx it + 1\<rparr>, True)
     else Inr (it, False))"
proof -
  note D = map_invD [OF inv [unfolded set_inv_def]]
  let ?L = "vec_list (hs_indexes s)"
  have vi: "vec_inv (hs_indexes s)" and sl: "slots_ok (map to_node (hs_entries s)) ?L"
    using D by (simp_all add: to_map_def)
  have el: "set_elems s = map (\<lambda>x. nd_key (map to_node (hs_entries s) ! unat x)) ?L"
    by (simp add: set_elems_def map_bindings_def bindings_def to_map_def)
  show ?thesis
  proof (cases "si_vecidx it < length ?L")
    case True
    then have y: "unat (?L ! si_vecidx it) < length (hs_entries s)"
      "sn_occupied (hs_entries s ! unat (?L ! si_vecidx it))"
      using slots_ok_taken [OF sl, of "?L ! si_vecidx it"] by auto
    then show ?thesis
      using True vecGetAt_rep [OF vi True] vi el
      by (subst setIterNext.simps) (simp add: Let_def length_vec_list)
  qed (use vi el in \<open>subst setIterNext.simps, simp add: length_vec_list\<close>)
qed

lemma length_set_elems: "set_inv st valid s \<Longrightarrow> length (set_elems s) = vec_size (hs_indexes s)"
  using map_invD(5) [of "to_type st" valid "to_map s"]
  by (simp add: set_inv_def set_elems_def map_bindings_def bindings_def length_vec_list to_map_def)

text \<open>\<^verbatim>\<open>SetFor\<close> runs over the elements before the first null key.\<close>

lemma SetFor_rep:
  assumes inv: "set_inv st valid s" and "length (set_elems s) - si_vecidx it < fuel"
  shows "SetFor fuel s it body a =
    foldl (\<lambda>r v. rbind r (body v)) (Inr a)
      (takeWhile (\<lambda>v. v \<noteq> NULL) (drop (si_vecidx it) (set_elems s)))"
  using assms(2)
proof (induction fuel arbitrary: it a)
  case (Suc fuel)
  have fault: "foldl (\<lambda>r x. rbind r (body x)) (Inl e) xs = Inl e" for e xs
    by (induction xs) auto
  show ?case
  proof (cases "si_vecidx it < length (set_elems s)")
    case True
    let ?v = "set_elems s ! si_vecidx it"
    have d: "drop (si_vecidx it) (set_elems s) = ?v # drop (Suc (si_vecidx it)) (set_elems s)"
      using True by (simp add: Cons_nth_drop_Suc)
    show ?thesis
      using True Suc
      by (cases "body ?v a") (simp_all add: SetFor.simps setNext_def setIterNext_rep [OF inv] d fault)
  qed (simp add: SetFor.simps setNext_def setIterNext_rep [OF inv])
qed simp

lemma SetFor_all:
  assumes inv: "set_inv st valid s" and "NULL \<notin> set (set_elems s)"
  shows "SetFor (set_fuel s) s setIterInit body a =
    foldl (\<lambda>r v. rbind r (body v)) (Inr a) (set_elems s)"
proof -
  have all: "takeWhile (\<lambda>v. v \<noteq> NULL) (set_elems s) = set_elems s"
    using assms(2) by (subst takeWhile_eq_all_conv) auto
  show ?thesis
    using length_set_elems [OF inv]
    by (subst SetFor_rep [OF inv]) (simp_all add: set_fuel_def setIterInit_def all)
qed

text \<open>A loop that adds those elements of a list that pass a test.\<close>

lemma set_add_loop:
  assumes "set_inv st valid s" "hs_size s + length vs \<le> 2 ^ 49" "\<forall>v \<in> set vs. valid v"
    and "\<forall>v \<in> set vs. \<forall>s. body v s = (if P v then set_add_step True st v s else Inr s)"
  shows "\<exists>s'. foldl (\<lambda>r v. rbind r (body v)) (Inr s) vs = Inr s' \<and> set_inv st valid s' \<and>
    hs_size s' \<le> hs_size s + length vs \<and>
    (\<forall>b. valid b \<longrightarrow> set_mem st s' b \<longleftrightarrow> set_mem st s b \<or> (\<exists>v \<in> set vs. P v \<and> st_match st v b))"
  using assms
proof (induction vs arbitrary: s)
  case (Cons v vs)
  have v: "valid v" using Cons.prems by simp
  obtain s1 where s1: "body v s = Inr s1" "set_inv st valid s1" "hs_size s1 \<le> hs_size s + 1"
    "\<forall>b. valid b \<longrightarrow> set_mem st s1 b \<longleftrightarrow> set_mem st s b \<or> P v \<and> st_match st v b"
  proof (cases "P v")
    case True
    obtain s1 where "setAdd True st s v = Inr (s1, \<not> set_mem st s v)" "set_inv st valid s1"
      "hs_size s1 \<le> hs_size s + 1"
      "set_elems s1 = (if set_mem st s v then set_elems s else set_elems s @ [v])"
      using setAdd_rep [OF Cons.prems(1) _ v] Cons.prems(2) by auto
    then show thesis
      using that [of s1] True Cons.prems(4) set_mem_add [OF Cons.prems(1) v]
      by (simp add: set_add_step_def)
  next
    case False
    then show thesis using that [of s] Cons.prems by simp
  qed
  have "\<exists>s'. foldl (\<lambda>r v. rbind r (body v)) (Inr s1) vs = Inr s' \<and> set_inv st valid s' \<and>
    hs_size s' \<le> hs_size s1 + length vs \<and>
    (\<forall>b. valid b \<longrightarrow> set_mem st s' b \<longleftrightarrow> set_mem st s1 b \<or> (\<exists>v \<in> set vs. P v \<and> st_match st v b))"
    using s1(2,3) Cons.prems(2-4) by (intro Cons.IH) auto
  then show ?case using s1 by (fastforce simp: s1(1))
qed simp

lemma set_mem_elems: "(\<exists>v \<in> set (set_elems s). st_match st v b) \<longleftrightarrow> set_mem st s b"
  by (simp add: set_mem_def)

lemma setNew_rep:
  assumes "0 < k" "k < 51"
  shows "set_inv st valid (setNew (2 ^ k))" "set_elems (setNew (2 ^ k)) = []"
    "hs_size (setNew (2 ^ k)) = 0"
proof -
  have u: "unat (2 ^ k :: u64) = 2 ^ k"
    using assms unat_of_nat_u64 [of "2 ^ k"] power_strict_increasing [of k 64 "2::nat"] by simp
  have "table_inv (to_type st) valid (replicate (2 ^ k) (node_memset1 :: unit map_node))"
    using assms by (rule table_inv_memset1)
  then show "set_inv st valid (setNew (2 ^ k))"
    using u vecNew_inv by (simp add: set_inv_def map_inv_def setNew_def to_map_def to_node_zero
        slots_ok_def cache_ok_def)
  show "set_elems (setNew (2 ^ k)) = []" "hs_size (setNew (2 ^ k)) = 0"
    by (simp_all add: set_elems_def map_bindings_def bindings_def to_map_def setNew_def vecNew_inv)
qed

lemma set_capacity_pow2:
  assumes "set_inv st valid s"
  obtains k where "0 < k" "k < 51" "hs_capacity s = 2 ^ k" "(of_nat (hs_capacity s) :: u64) = 2 ^ k"
proof -
  note D = map_invD [OF assms [unfolded set_inv_def]]
  obtain k where "0 < k" "k < 51" "length (map to_node (hs_entries s)) = 2 ^ k"
    using table_inv_pow2 [OF D(1)] by auto
  then show thesis using that D(2) by simp
qed

lemma setUnion_rep:
  assumes s1: "set_inv st valid s1" "NULL \<notin> set (set_elems s1)"
    and s2: "set_inv st valid s2" "NULL \<notin> set (set_elems s2)"
    and small: "length (set_elems s1) + length (set_elems s2) \<le> 2 ^ 49"
  shows "\<exists>s. setUnion True st s1 s2 = Inr s \<and> set_inv st valid s \<and>
    (\<forall>b. valid b \<longrightarrow> set_mem st s b \<longleftrightarrow> set_mem st s1 b \<or> set_mem st s2 b)"
proof -
  obtain k where k: "0 < k" "k < 51" "(of_nat (hs_capacity s1) :: u64) = 2 ^ k"
    using set_capacity_pow2 [OF s1(1)] by blast
  note n = setNew_rep [OF k(1,2)]
  obtain s where s: "foldl (\<lambda>r v. rbind r (set_add_step True st v)) (Inr (setNew (2 ^ k)))
      (set_elems s1) = Inr s" "set_inv st valid s" "hs_size s \<le> length (set_elems s1)"
    "\<forall>b. valid b \<longrightarrow> set_mem st s b \<longleftrightarrow> set_mem st s1 b"
    using set_add_loop [OF n(1), of "set_elems s1" "set_add_step True st" "\<lambda>_. True"]
      set_elems_valid [OF s1(1)] small n(2,3)
    by (auto simp: set_mem_elems set_mem_def [of st "setNew (2 ^ k)"])
  obtain s' where s': "foldl (\<lambda>r v. rbind r (set_add_step True st v)) (Inr s) (set_elems s2) = Inr s'"
    "set_inv st valid s'" "\<forall>b. valid b \<longrightarrow> set_mem st s' b \<longleftrightarrow> set_mem st s b \<or> set_mem st s2 b"
    using set_add_loop [OF s(2), of "set_elems s2" "set_add_step True st" "\<lambda>_. True"]
      set_elems_valid [OF s2(1)] small s(3)
    by (auto simp: set_mem_elems)
  have "setUnion True st s1 s2 = Inr s'"
    using s(1) s'(1) k(3) by (simp add: setUnion_def SetFor_all [OF s1] SetFor_all [OF s2])
  then show ?thesis using s' s(4) by auto
qed

lemma setDifference_rep:
  assumes s1: "set_inv st valid s1" "NULL \<notin> set (set_elems s1)" and s2: "set_inv st valid s2"
    and small: "length (set_elems s1) \<le> 2 ^ 49"
  shows "\<exists>s. setDifference True st s1 s2 = Inr s \<and> set_inv st valid s \<and>
    (\<forall>b. valid b \<longrightarrow> set_mem st s b \<longleftrightarrow> set_mem st s1 b \<and> \<not> set_mem st s2 b)"
proof -
  obtain k where k: "0 < k" "k < 51" "(of_nat (hs_capacity s1) :: u64) = 2 ^ k"
    using set_capacity_pow2 [OF s1(1)] by blast
  note n = setNew_rep [OF k(1,2)]
  let ?body = "\<lambda>v s. rbind (setHas st s2 v) (\<lambda>b. if b then Inr s else set_add_step True st v s)"
  have body: "\<forall>v \<in> set (set_elems s1). \<forall>s. ?body v s =
      (if \<not> set_mem st s2 v then set_add_step True st v s else Inr s)"
    using set_elems_valid [OF s1(1)] by (auto simp: setHas_rep [OF s2])
  obtain s where s: "foldl (\<lambda>r v. rbind r (?body v)) (Inr (setNew (2 ^ k))) (set_elems s1) = Inr s"
    "set_inv st valid s"
    "\<forall>b. valid b \<longrightarrow> set_mem st s b \<longleftrightarrow> (\<exists>v \<in> set (set_elems s1). \<not> set_mem st s2 v \<and> st_match st v b)"
    using set_add_loop [OF n(1) _ _ body] set_elems_valid [OF s1(1)] small n(2,3)
    by (auto simp: set_mem_def [of st "setNew (2 ^ k)"])
  have same: "set_mem st s2 v = set_mem st s2 b"
    if "v \<in> set (set_elems s1)" "st_match st v b" "valid b" for v b
    using map_abs_match [OF s2 [unfolded set_inv_def], of v b] set_elems_valid [OF s1(1)] that
      set_mem_abs [OF s2] by simp
  have "setDifference True st s1 s2 = Inr s"
    using s(1) k(3) by (simp add: setDifference_def SetFor_all [OF s1])
  moreover have "set_mem st s b \<longleftrightarrow> set_mem st s1 b \<and> \<not> set_mem st s2 b" if "valid b" for b
    using s(3) same that unfolding set_mem_def [of st s1] by blast
  ultimately show ?thesis using s(2) by blast
qed

end

interpretation uint_set: set_key_type set_uint_type "\<lambda>_. True"
  by unfold_locales (auto simp: set_uint_type_def mapIntKeyMatch_def)

lemma to_type_cstring: "to_type (set_cstring_type h) = map_cstring_opaque_type h"
  by (simp add: to_type_def set_cstring_type_def map_cstring_opaque_type_def)

interpretation cstr_set: set_key_type "set_cstring_type h" "cstr_valid h" for h
  unfolding set_key_type_def to_type_cstring by (rule cstr_keys.key_type_axioms)

section \<open>Properties\<close>



text \<open>
  \<^verbatim>\<open>setUnion\<close> and \<^verbatim>\<open>setDifference\<close> of well-formed integer sets without the element 0 are the
  union and the difference of the two sets of integers.
\<close>

theorem set_union_difference:
  assumes "set_inv set_uint_type (\<lambda>_. True) s1" "set_inv set_uint_type (\<lambda>_. True) s2"
    "0 \<notin> set (set_elems s1)" "0 \<notin> set (set_elems s2)"
    "length (set_elems s1) + length (set_elems s2) \<le> 2 ^ 49"
  shows "(\<exists>s. setUnion True set_uint_type s1 s2 = Inr s \<and> set_inv set_uint_type (\<lambda>_. True) s \<and>
      set (set_elems s) = set (set_elems s1) \<union> set (set_elems s2)) \<and>
    (\<exists>s. setDifference True set_uint_type s1 s2 = Inr s \<and> set_inv set_uint_type (\<lambda>_. True) s \<and>
      set (set_elems s) = set (set_elems s1) - set (set_elems s2))"
proof -
  have mem: "set_mem set_uint_type s b \<longleftrightarrow> b \<in> set (set_elems s)" for s b
    by (simp add: set_mem_def set_uint_type_def mapIntKeyMatch_def)
  have small: "length (set_elems s1) \<le> 2 ^ 49" using assms(5) by linarith
  show ?thesis
    using uint_set.setUnion_rep [OF assms(1,3,2,4,5)]
      uint_set.setDifference_rep [OF assms(1,3,2) small]
    unfolding mem by (simp add: set_eq_iff)
qed

theorem set_union_difference_witness:
  "\<exists>s s1. set_elems s1 = [5] \<and> setUnion True set_uint_type s1 (setNew 8) = Inr s \<and>
    set (set_elems s) = {5}"
proof -
  have n: "set_inv set_uint_type (\<lambda>_. True) (setNew 8)" "set_elems (setNew 8) = []"
    "hs_size (setNew 8) < 2 ^ 49"
    using uint_set.setNew_rep [of 3] by simp_all
  obtain s1 where s1: "set_inv set_uint_type (\<lambda>_. True) s1" "set_elems s1 = [5]"
    using uint_set.setAdd_rep [OF n(1,3), of 5] n(2) by (auto simp: set_mem_def)
  show ?thesis
    using set_union_difference [OF s1(1) n(1)] s1(2) n(2) by auto
qed

text \<open>
  \<^verbatim>\<open>setCopy\<close> never copies: whatever the set holds, the result is a fresh empty set of the same
  capacity, because the union it computes is thrown away.
\<close>

theorem setCopy_empty:
  assumes "set_inv set_uint_type (\<lambda>_. True) s" "0 \<notin> set (set_elems s)"
    "length (set_elems s) \<le> 2 ^ 49"
  shows "setCopy True set_uint_type s = Inr (setNew (of_nat (hs_capacity s)))"
proof -
  obtain k where k: "0 < k" "k < 51" "(of_nat (hs_capacity s) :: u64) = 2 ^ k"
    using uint_set.set_capacity_pow2 [OF assms(1)] by blast
  note n = uint_set.setNew_rep [OF k(1,2)]
  have none: "NULL \<notin> set (set_elems (setNew (2 ^ k)))" using n(2) by simp
  have "\<exists>u. setUnion True set_uint_type (setNew (2 ^ k)) s = Inr u"
    using uint_set.setUnion_rep [OF n(1) none assms(1,2)] assms(3) n(2) by auto
  then show ?thesis using k(3) by (auto simp: setCopy_def)
qed

theorem setCopy_empty_witness:
  "\<exists>s. set_elems s = [5] \<and> setCopy True set_uint_type s = Inr (setNew (of_nat (hs_capacity s)))"
proof -
  have n: "set_inv set_uint_type (\<lambda>_. True) (setNew 8)" "set_elems (setNew 8) = []"
    "hs_size (setNew 8) < 2 ^ 49"
    using uint_set.setNew_rep [of 3] by simp_all
  obtain s where s: "set_inv set_uint_type (\<lambda>_. True) s" "set_elems s = [5]"
    using uint_set.setAdd_rep [OF n(1,3), of 5] n(2) by (auto simp: set_mem_def)
  then show ?thesis using setCopy_empty [OF s(1)] by auto
qed

text \<open>
  Three deviations of the set from its meaning, on concrete sets: a removal that loses a colliding
  element, a union that ends at the element 0, and a cleared set that \<^verbatim>\<open>setAdd\<close> cannot search.
\<close>

lemma setRemove_loses_colliding_key:
  "rbind (setAdd True set_uint_type (setNew 8) 1) (\<lambda>(s1, _).
   rbind (setAdd True set_uint_type s1 9) (\<lambda>(s2, _).
   rbind (setHas set_uint_type s2 9) (\<lambda>before.
   rbind (setRemove set_uint_type s2 1) (\<lambda>(s3, _).
   rbind (setHas set_uint_type s3 9) (\<lambda>after. Inr (before, after)))))) = Inr (True, False)"
  by code_simp

lemma setUnion_stops_at_zero:
  "rbind (setAdd True set_uint_type (setNew 8) 0) (\<lambda>(s1, _).
   rbind (setAdd True set_uint_type s1 3) (\<lambda>(s2, _).
   rbind (setUnion True set_uint_type (setNew 8) s2) (\<lambda>u.
   rbind (setHas set_uint_type s2 3) (\<lambda>before.
   rbind (setHas set_uint_type u 3) (\<lambda>after. Inr (before, after)))))) = Inr (True, False)"
  by code_simp

lemma setClear_keeps_slots_occupied:
  "sn_occupied (hs_entries (setClear (setNew 8)) ! 0)"
  by code_simp

end
