(* ===== verification/LinkedList.thy ===== *)
theory LinkedList
  imports Prelude
begin

text \<open>
  The circular doubly linked list of \<^verbatim>\<open>src/src/list.c\<close>. The nodes live in an explicit heap, a map
  from addresses to nodes: an address without a node is null, freed or never allocated memory,
  and every access to it is a fault. \<^verbatim>\<open>malloc\<close> returns a fresh address, which the operations that
  allocate take as an argument. A list is a sentinel node whose successors lead back to it, and
  its meaning is the list of the values on the way.
\<close>

section \<open>Model\<close>

record lnode =
  ln_next :: ptr
  ln_prev :: ptr
  ln_value :: ptr

type_synonym lheap = "ptr \<rightharpoonup> lnode"

definition node_at :: "lheap \<Rightarrow> ptr \<Rightarrow> lnode result" where
  "node_at h p = (case h p of None \<Rightarrow> Inl NullDeref | Some n \<Rightarrow> Inr n)"

definition set_next :: "ptr \<Rightarrow> ptr \<Rightarrow> lheap \<Rightarrow> lheap result" where
  "set_next p q h = rbind (node_at h p) (\<lambda>n. Inr (h(p \<mapsto> n\<lparr>ln_next := q\<rparr>)))"

definition set_prev :: "ptr \<Rightarrow> ptr \<Rightarrow> lheap \<Rightarrow> lheap result" where
  "set_prev p q h = rbind (node_at h p) (\<lambda>n. Inr (h(p \<mapsto> n\<lparr>ln_prev := q\<rparr>)))"

definition list_free :: "ptr \<Rightarrow> lheap \<Rightarrow> lheap result" where
  "list_free p h = rbind (node_at h p) (\<lambda>_. Inr (h(p := None)))"

definition listInit :: "ptr \<Rightarrow> lheap \<Rightarrow> lheap result" where
  "listInit ll h = rbind (node_at h ll) (\<lambda>_.
     Inr (h(ll \<mapsto> \<lparr>ln_next = ll, ln_prev = ll, ln_value = NULL\<rparr>)))"

definition listNew :: "ptr \<Rightarrow> lheap \<Rightarrow> lheap" where
  "listNew a h = h(a \<mapsto> \<lparr>ln_next = a, ln_prev = a, ln_value = NULL\<rparr>)"

definition listEmpty :: "lheap \<Rightarrow> ptr \<Rightarrow> bool result" where
  "listEmpty h l = (if l = NULL then Inr True else rbind (node_at h l) (\<lambda>n. Inr (ln_next n = l)))"

definition listIsOne :: "lheap \<Rightarrow> ptr \<Rightarrow> bool result" where
  "listIsOne h l =
     rbind (listEmpty h l) (\<lambda>e. if e then Inr False
       else rbind (node_at h l) (\<lambda>n. rbind (node_at h (ln_next n)) (\<lambda>m. Inr (ln_next m = l))))"

definition listAppend :: "ptr \<Rightarrow> lheap \<Rightarrow> ptr \<Rightarrow> ptr \<Rightarrow> lheap result" where
  "listAppend a h head value =
     (let h = listNew a h in
      rbind (node_at h head) (\<lambda>hd.
        let tail = ln_prev hd; h = h(a \<mapsto> \<lparr>ln_next = head, ln_prev = tail, ln_value = value\<rparr>) in
        rbind (set_next tail a h) (\<lambda>h. set_prev head a h)))"

definition listPrepend :: "ptr \<Rightarrow> lheap \<Rightarrow> ptr \<Rightarrow> ptr \<Rightarrow> lheap result" where
  "listPrepend a h head value =
     (let h = listNew a h in
      rbind (node_at h head) (\<lambda>hd.
        let nxt = ln_next hd; h = h(a \<mapsto> \<lparr>ln_next = nxt, ln_prev = head, ln_value = value\<rparr>) in
        rbind (set_prev nxt a h) (\<lambda>h. set_next head a h)))"

definition listDeque :: "lheap \<Rightarrow> ptr \<Rightarrow> (lheap \<times> ptr) result" where
  "listDeque h ll =
     rbind (node_at h ll) (\<lambda>s.
       if ln_next s = ll then Inr (h, NULL)
       else let node = ln_next s in
         rbind (node_at h node) (\<lambda>n.
         rbind (set_prev (ln_next n) ll h) (\<lambda>h.
         rbind (node_at h ll) (\<lambda>s.
         rbind (node_at h (ln_next s)) (\<lambda>m.
         rbind (set_next ll (ln_next m) h) (\<lambda>h.
         rbind (list_free node h) (\<lambda>h. Inr (h, ln_value n))))))))"

definition listInsertBefore :: "lheap \<Rightarrow> ptr \<Rightarrow> ptr \<Rightarrow> lheap result" where
  "listInsertBefore h ll new_node =
     rbind (set_next new_node ll h) (\<lambda>h.
     rbind (node_at h ll) (\<lambda>n.
     rbind (set_prev new_node (ln_prev n) h) (\<lambda>h.
     rbind (node_at h ll) (\<lambda>n.
     rbind (set_next (ln_prev n) new_node h) (\<lambda>h. set_prev ll new_node h)))))"

definition listInsertValueBefore :: "ptr \<Rightarrow> lheap \<Rightarrow> ptr \<Rightarrow> ptr \<Rightarrow> lheap result" where
  "listInsertValueBefore a h ll value =
     listInsertBefore (h(a \<mapsto> \<lparr>ln_next = a, ln_prev = a, ln_value = value\<rparr>)) ll a"

definition listHead :: "lheap \<Rightarrow> ptr \<Rightarrow> ptr result" where
  "listHead h ll = rbind (listEmpty h ll) (\<lambda>e.
     if e then Inr NULL else rbind (node_at h ll) (\<lambda>n. Inr (ln_next n)))"

definition listTail :: "lheap \<Rightarrow> ptr \<Rightarrow> ptr result" where
  "listTail h ll = rbind (listEmpty h ll) (\<lambda>e.
     if e then Inr NULL else rbind (node_at h ll) (\<lambda>n. Inr (ln_prev n)))"

definition listPop :: "lheap \<Rightarrow> ptr \<Rightarrow> (lheap \<times> ptr) result" where
  "listPop h ll =
     rbind (node_at h ll) (\<lambda>s.
       if ln_next s = ll then Inr (h, NULL)
       else let node = ln_prev s in
         rbind (node_at h node) (\<lambda>n.
         rbind (set_next (ln_prev n) ll h) (\<lambda>h.
         rbind (node_at h ll) (\<lambda>s.
         rbind (node_at h (ln_prev s)) (\<lambda>m.
         rbind (set_prev ll (ln_prev m) h) (\<lambda>h.
         rbind (list_free node h) (\<lambda>h. Inr (h, ln_value n))))))))"

text \<open>
  The walks take fuel: a list of \<open>n\<close> nodes needs \<open>n + 1\<close> rounds, and a walk that never meets the
  sentinel again is an endless loop. The values handed to \<^verbatim>\<open>freeValue\<close> are returned.
\<close>

fun listClear_loop :: "nat \<Rightarrow> lheap \<Rightarrow> ptr \<Rightarrow> ptr \<Rightarrow> ptr list \<Rightarrow> (lheap \<times> ptr list) result" where
  "listClear_loop 0 h ll node freed = Inl Diverges"
| "listClear_loop (Suc fuel) h ll node freed =
     (if node = ll then Inr (h, freed)
      else rbind (node_at h node) (\<lambda>n. rbind (list_free node h) (\<lambda>h.
        listClear_loop fuel h ll (ln_next n) (freed @ [ln_value n]))))"

definition listClear :: "nat \<Rightarrow> lheap \<Rightarrow> ptr \<Rightarrow> (lheap \<times> ptr list) result" where
  "listClear fuel h ll =
     (if ll = NULL then Inr (h, [])
      else rbind (node_at h ll) (\<lambda>s.
        rbind (listClear_loop fuel h ll (ln_next s) []) (\<lambda>(h, freed).
        rbind (set_prev ll ll h) (\<lambda>h. rbind (set_next ll ll h) (\<lambda>h. Inr (h, freed))))))"

fun listRemoveValue_loop :: "nat \<Rightarrow> lheap \<Rightarrow> ptr \<Rightarrow> ptr \<Rightarrow> ptr \<Rightarrow> lheap result" where
  "listRemoveValue_loop 0 h ll it value = Inl Diverges"
| "listRemoveValue_loop (Suc fuel) h ll it value =
     (if it = ll then Inr h
      else rbind (node_at h it) (\<lambda>n.
        if ln_value n = value
        then rbind (set_next (ln_prev n) (ln_next n) h) (\<lambda>h.
             rbind (set_prev (ln_next n) (ln_prev n) h) (\<lambda>h. list_free it h))
        else listRemoveValue_loop fuel h ll (ln_next n) value))"

definition listRemoveValue :: "nat \<Rightarrow> lheap \<Rightarrow> ptr \<Rightarrow> ptr \<Rightarrow> lheap result" where
  "listRemoveValue fuel h ll value =
     rbind (node_at h ll) (\<lambda>s. listRemoveValue_loop fuel h ll (ln_next s) value)"

definition listRelease :: "nat \<Rightarrow> lheap \<Rightarrow> ptr \<Rightarrow> (lheap \<times> ptr list) result" where
  "listRelease fuel h ll =
     (if ll = NULL then Inr (h, [])
      else rbind (listClear fuel h ll) (\<lambda>(h, freed).
        rbind (list_free ll h) (\<lambda>h. Inr (h, freed))))"

text \<open>\<^verbatim>\<open>listForEach\<close>: the values in order, gathered by the loop of the two functions below.\<close>

fun listForEach :: "nat \<Rightarrow> lheap \<Rightarrow> ptr \<Rightarrow> ptr \<Rightarrow> (ptr \<Rightarrow> 's \<Rightarrow> 's result) \<Rightarrow> 's \<Rightarrow> 's result" where
  "listForEach 0 h ll it body st = Inl Diverges"
| "listForEach (Suc fuel) h ll it body st =
     (if it = ll then Inr st
      else rbind (node_at h it) (\<lambda>n. rbind (body (ln_value n) st)
        (listForEach fuel h ll (ln_next n) body)))"

definition listCount :: "nat \<Rightarrow> lheap \<Rightarrow> ptr \<Rightarrow> nat result" where
  "listCount fuel h ll =
     (if ll = NULL then Inr 0
      else rbind (node_at h ll) (\<lambda>s. listForEach fuel h ll (ln_next s) (\<lambda>_ c. Inr (c + 1)) 0))"

definition listMergePrepend :: "lheap \<Rightarrow> ptr \<Rightarrow> ptr \<Rightarrow> lheap result" where
  "listMergePrepend h l1 l2 =
     rbind (node_at h l1) (\<lambda>s1. rbind (node_at h l2) (\<lambda>s2.
       let h1 = ln_next s1; h2 = ln_next s2; t2 = ln_prev s2 in
       rbind (set_next l1 h2 h) (\<lambda>h. rbind (set_prev h2 l1 h) (\<lambda>h.
       rbind (set_next t2 h1 h) (\<lambda>h. rbind (set_prev h1 t2 h) (\<lambda>h.
       rbind (node_at h l1) (\<lambda>s1.
         if ln_value s1 \<noteq> NULL then Inl AssertFail else list_free l2 h)))))))"

definition listMergeAppend :: "lheap \<Rightarrow> ptr \<Rightarrow> ptr \<Rightarrow> lheap result" where
  "listMergeAppend h l1 l2 =
     rbind (node_at h l1) (\<lambda>s1. rbind (node_at h l2) (\<lambda>s2.
       let h1 = ln_next s1; t1 = ln_prev s1; h2 = ln_next s2; t2 = ln_prev s2 in
       rbind (set_prev h2 t1 h) (\<lambda>h.
       rbind (node_at h h2) (\<lambda>n.
       rbind (set_next (ln_prev n) h1 h) (\<lambda>h. rbind (set_next t1 h2 h) (\<lambda>h.
       rbind (set_next t2 l1 h) (\<lambda>h. rbind (set_prev l1 t2 h) (\<lambda>h.
       rbind (node_at h l1) (\<lambda>s1.
         if ln_value s1 \<noteq> NULL then Inl AssertFail else list_free l2 h)))))))))"

text \<open>The fresh addresses \<^verbatim>\<open>listCopy\<close> gets for its nodes are a list; it runs over the live heap.\<close>

fun listCopy_loop ::
  "nat \<Rightarrow> lheap \<Rightarrow> ptr \<Rightarrow> ptr \<Rightarrow> ptr \<Rightarrow> ptr list \<Rightarrow> (lheap \<times> ptr list) result"
where
  "listCopy_loop 0 h l it cpy fresh = Inl Diverges"
| "listCopy_loop (Suc fuel) h l it cpy fresh =
     (if it = l then Inr (h, fresh)
      else rbind (node_at h it) (\<lambda>n.
        case fresh of
          [] \<Rightarrow> Inl NullDeref
        | a # as \<Rightarrow> rbind (listAppend a h cpy (ln_value n)) (\<lambda>h.
            rbind (node_at h it) (\<lambda>n. listCopy_loop fuel h l (ln_next n) cpy as))))"

definition listCopy :: "nat \<Rightarrow> lheap \<Rightarrow> ptr \<Rightarrow> ptr \<Rightarrow> ptr list \<Rightarrow> (lheap \<times> ptr list) result" where
  "listCopy fuel h l cpy fresh =
     (let h = listNew cpy h in
      rbind (node_at h l) (\<lambda>s. listCopy_loop fuel h l (ln_next s) cpy fresh))"

section \<open>Links\<close>

text \<open>\<open>links h a xs b\<close>: from \<open>a\<close> the successors are the nodes \<open>xs\<close> and then \<open>b\<close>, linked both ways.\<close>

abbreviation nx :: "lheap \<Rightarrow> ptr \<Rightarrow> ptr" where
  "nx h p \<equiv> ln_next (the (h p))"

abbreviation pv :: "lheap \<Rightarrow> ptr \<Rightarrow> ptr" where
  "pv h p \<equiv> ln_prev (the (h p))"

fun links :: "lheap \<Rightarrow> ptr \<Rightarrow> ptr list \<Rightarrow> ptr \<Rightarrow> bool" where
  "links h a [] b \<longleftrightarrow> nx h a = b \<and> pv h b = a"
| "links h a (x # xs) b \<longleftrightarrow> nx h a = x \<and> pv h x = a \<and> links h x xs b"

definition dlist :: "lheap \<Rightarrow> ptr \<Rightarrow> ptr list \<Rightarrow> ptr list \<Rightarrow> bool" where
  "dlist h l ns vs \<longleftrightarrow> l \<noteq> NULL \<and> distinct (l # ns) \<and> set (l # ns) \<subseteq> dom h \<and> links h l ns l \<and>
     ln_value (the (h l)) = NULL \<and> map (\<lambda>n. ln_value (the (h n))) ns = vs"

lemma links_append:
  "links h a (xs @ x # ys) b \<longleftrightarrow> links h a xs x \<and> links h x ys b"
  by (induction xs arbitrary: a) auto

lemma links_first: "links h a xs b \<Longrightarrow> nx h a = hd (xs @ [b]) \<and> pv h (hd (xs @ [b])) = a"
  by (cases xs) auto

lemma links_last: "links h a xs b \<Longrightarrow> pv h b = last (a # xs) \<and> nx h (last (a # xs)) = b"
  by (induction xs arbitrary: a) auto

lemma links_frame:
  assumes "links h a xs b" "\<forall>p \<in> set (a # xs). nx h' p = nx h p" "\<forall>p \<in> set (xs @ [b]). pv h' p = pv h p"
  shows "links h' a xs b"
  using assms by (induction xs arbitrary: a) auto

text \<open>Changing where a path ends, and where it starts, leaves the rest alone.\<close>

lemma links_new_end:
  assumes "links h a xs b"
    and "\<forall>p \<in> set (butlast (a # xs)). nx h' p = nx h p" "\<forall>p \<in> set xs. pv h' p = pv h p"
    and "nx h' (last (a # xs)) = c" "pv h' c = last (a # xs)"
  shows "links h' a xs c"
  using assms by (induction xs arbitrary: a) (auto split: if_splits)

lemma links_new_start:
  assumes "links h a xs b"
    and "\<forall>p \<in> set xs. nx h' p = nx h p" "\<forall>p \<in> set (tl (xs @ [b])). pv h' p = pv h p"
    and "nx h' c = hd (xs @ [b])" "pv h' (hd (xs @ [b])) = c"
  shows "links h' c xs b"
proof (cases xs)
  case (Cons y ys)
  have "links h' y ys b"
    using assms(1-3) Cons by (intro links_frame [of h y ys b h']) simp_all
  with assms Cons show ?thesis by simp
qed (use assms in simp)

text \<open>Single-field updates of an allocated node.\<close>

definition upn :: "lheap \<Rightarrow> ptr \<Rightarrow> ptr \<Rightarrow> lheap" where
  "upn h p q = h(p \<mapsto> (the (h p))\<lparr>ln_next := q\<rparr>)"

definition upp :: "lheap \<Rightarrow> ptr \<Rightarrow> ptr \<Rightarrow> lheap" where
  "upp h p q = h(p \<mapsto> (the (h p))\<lparr>ln_prev := q\<rparr>)"

lemma up_simps [simp]:
  "nx (upn h p q) x = (if x = p then q else nx h x)" "pv (upn h p q) x = pv h x"
  "ln_value (the (upn h p q x)) = ln_value (the (h x))" "dom (upn h p q) = insert p (dom h)"
  "nx (upp h p q) x = nx h x" "pv (upp h p q) x = (if x = p then q else pv h x)"
  "ln_value (the (upp h p q x)) = ln_value (the (h x))" "dom (upp h p q) = insert p (dom h)"
  by (auto simp: upn_def upp_def)

lemma up_other [simp]: "x \<noteq> p \<Longrightarrow> upn h p q x = h x" "x \<noteq> p \<Longrightarrow> upp h p q x = h x"
  by (simp_all add: upn_def upp_def)

lemma access [simp]:
  "p \<in> dom h \<Longrightarrow> node_at h p = Inr (the (h p))"
  "p \<in> dom h \<Longrightarrow> set_next p q h = Inr (upn h p q)"
  "p \<in> dom h \<Longrightarrow> set_prev p q h = Inr (upp h p q)"
  "p \<in> dom h \<Longrightarrow> list_free p h = Inr (h(p := None))"
  by (auto simp: node_at_def set_next_def set_prev_def list_free_def upn_def upp_def)

lemma dlistD:
  assumes "dlist h l ns vs"
  shows "l \<in> dom h" "last (l # ns) \<in> dom h" "hd (ns @ [l]) \<in> dom h" "pv h l = last (l # ns)"
    "nx h l = hd (ns @ [l])" "distinct (l # ns)" "set ns \<subseteq> dom h" "links h l ns l" "l \<noteq> NULL"
    "map (\<lambda>n. ln_value (the (h n))) ns = vs"
proof -
  have d: "set (l # ns) \<subseteq> dom h" "links h l ns l" "distinct (l # ns)" "l \<noteq> NULL"
    "map (\<lambda>n. ln_value (the (h n))) ns = vs"
    using assms unfolding dlist_def by blast+
  then show "l \<in> dom h" "set ns \<subseteq> dom h" "distinct (l # ns)" "links h l ns l" "l \<noteq> NULL"
    "map (\<lambda>n. ln_value (the (h n))) ns = vs" by auto
  show "last (l # ns) \<in> dom h" "hd (ns @ [l]) \<in> dom h"
    using d(1) last_in_set [of "l # ns"] hd_in_set [of "ns @ [l]"] by auto
  show "pv h l = last (l # ns)" "nx h l = hd (ns @ [l])"
    using links_last [OF d(2)] links_first [OF d(2)] by simp_all
qed

section \<open>Operations on lists\<close>

lemma listNew_rep: "a \<noteq> NULL \<Longrightarrow> dlist (listNew a h) a [] []"
  by (simp add: listNew_def dlist_def)

lemma butlast_not_last: "distinct xs \<Longrightarrow> p \<in> set (butlast xs) \<Longrightarrow> p \<noteq> last xs"
  by (induction xs) (auto split: if_splits)

lemma listAppend_rep:
  assumes "dlist h l ns vs" "h a = None"
  shows "\<exists>h'. listAppend a h l v = Inr h' \<and> dlist h' l (ns @ [a]) (vs @ [v]) \<and>
    (\<forall>p. p \<notin> set (a # l # ns) \<longrightarrow> h' p = h p)"
proof -
  note D = dlistD [OF assms(1)]
  let ?t = "last (l # ns)"
  define h1 where "h1 = h(a \<mapsto> \<lparr>ln_next = l, ln_prev = ?t, ln_value = v\<rparr>)"
  define h' where "h' = upp (upn h1 ?t a) l a"
  have a: "a \<noteq> l" "a \<notin> set ns" "a \<noteq> ?t" using assms(2) D(1,2,7) by auto
  have "listAppend a h l v = Inr h'"
    using D(1,2,4) a by (simp add: listAppend_def listNew_def Let_def h'_def h1_def)
  moreover have "links h' l ns a"
    using D(6) a butlast_not_last [OF D(6)]
    by (intro links_new_end [OF D(8)]) (auto simp: h'_def h1_def dest: in_set_butlastD)
  then have "links h' l (ns @ [a]) l"
    using a by (simp add: links_append h'_def h1_def)
  then have "dlist h' l (ns @ [a]) (vs @ [v])"
    using assms(1) a D by (auto simp: dlist_def h'_def h1_def)
  moreover have "h' p = h p" if "p \<notin> set (a # l # ns)" for p
  proof -
    have "p \<noteq> ?t" using that last_in_set [of "l # ns"] by (metis list.distinct(2) set_subset_Cons subsetD)
    then show ?thesis using that by (simp add: h'_def h1_def)
  qed
  ultimately show ?thesis by blast
qed

lemma listPrepend_rep:
  assumes "dlist h l ns vs" "h a = None"
  shows "\<exists>h'. listPrepend a h l v = Inr h' \<and> dlist h' l (a # ns) (v # vs)"
proof -
  note D = dlistD [OF assms(1)]
  let ?f = "hd (ns @ [l])"
  define h1 where "h1 = h(a \<mapsto> \<lparr>ln_next = ?f, ln_prev = l, ln_value = v\<rparr>)"
  define h' where "h' = upn (upp h1 ?f a) l a"
  have a: "a \<noteq> l" "a \<notin> set ns" "a \<noteq> ?f" using assms(2) D(1,3,7) by auto
  have "listPrepend a h l v = Inr h'"
    using D(1,3,5) a by (simp add: listPrepend_def listNew_def Let_def h'_def h1_def)
  moreover have "links h' a ns l"
    using D(6) a by (intro links_new_start [OF D(8)]) (cases ns; auto simp: h'_def h1_def)+
  then have "links h' l (a # ns) l"
    using a by (simp add: h'_def h1_def)
  then have "dlist h' l (a # ns) (v # vs)"
    using assms(1) a D by (auto simp: dlist_def h'_def h1_def)
  ultimately show ?thesis by blast
qed

lemma upn_upp: "upn (upp h p a) q b = upp (upn h q b) p a"
  by (auto simp: upn_def upp_def fun_upd_twist)

text \<open>Taking out one node and joining its neighbours.\<close>

lemma unlink:
  assumes "dlist h l (xs @ x # ys) vs"
    and h': "h' = (upp (upn h (last (l # xs)) (hd (ys @ [l]))) (hd (ys @ [l])) (last (l # xs)))(x := None)"
  shows "dlist h' l (xs @ ys) (map (\<lambda>n. ln_value (the (h n))) (xs @ ys))"
proof -
  note D = dlistD [OF assms(1)]
  let ?t = "last (l # xs)" and ?e = "hd (ys @ [l])"
  have l: "links h l xs x" "links h x ys l" using D(8) by (simp_all add: links_append)
  have t: "?t \<in> set (l # xs)" by (rule last_in_set) simp
  have e: "?e \<in> set (ys @ [l])" by (rule hd_in_set) simp
  have x: "x \<noteq> ?t" "x \<noteq> ?e" using D(6) t e by auto
  have n: "nx h' p = (if p = ?t then ?e else nx h p)" "pv h' p = (if p = ?e then ?t else pv h p)"
    "ln_value (the (h' p)) = ln_value (the (h p))" if "p \<noteq> x" for p
    using that by (simp_all add: h')
  have first: "links h' l xs ?e"
  proof (rule links_new_end [OF l(1)])
    show "\<forall>p \<in> set (butlast (l # xs)). nx h' p = nx h p"
    proof
      fix p assume p: "p \<in> set (butlast (l # xs))"
      have "p \<noteq> ?t" using p butlast_not_last [of "l # xs" p] D(6) by auto
      moreover have "p \<noteq> x" using in_set_butlastD [OF p] D(6) by auto
      ultimately show "nx h' p = nx h p" by (simp add: n)
    qed
    show "\<forall>p \<in> set xs. pv h' p = pv h p"
    proof
      fix p assume p: "p \<in> set xs"
      then have "p \<noteq> ?e" "p \<noteq> x" using D(6) e by auto
      then show "pv h' p = pv h p" by (simp add: n)
    qed
    show "nx h' ?t = ?e" "pv h' ?e = ?t" using n x by simp_all
  qed
  have "links h' l (xs @ ys) l"
  proof (cases ys)
    case (Cons y ys')
    have "links h' y ys' l"
    proof (rule links_frame)
      show "links h y ys' l" using l(2) Cons by simp
      show "\<forall>p \<in> set (y # ys'). nx h' p = nx h p"
      proof
        fix p assume "p \<in> set (y # ys')"
        then have "p \<noteq> ?t" "p \<noteq> x" using D(6) Cons t by auto
        then show "nx h' p = nx h p" by (simp add: n)
      qed
      show "\<forall>p \<in> set (ys' @ [l]). pv h' p = pv h p"
      proof
        fix p assume "p \<in> set (ys' @ [l])"
        then have "p \<noteq> ?e" "p \<noteq> x" using D(6) Cons by auto
        then show "pv h' p = pv h p" by (simp add: n)
      qed
    qed
    then show ?thesis using first Cons by (simp add: links_append)
  qed (use first in simp)
  moreover have "dom h' = dom h - {x}" using t e D(7) x D(1) by (auto simp: h')
  moreover have "ln_value (the (h' l)) = NULL" "map (\<lambda>n. ln_value (the (h' n))) (xs @ ys) =
      map (\<lambda>n. ln_value (the (h n))) (xs @ ys)"
    using assms(1) D(6) n(3) [of l] by (auto simp: dlist_def intro!: n(3))
  ultimately show ?thesis using D(1,6,7,9) unfolding dlist_def by auto
qed

lemma listDeque_rep:
  assumes "dlist h l (n # ns) (v # vs)"
  shows "\<exists>h'. listDeque h l = Inr (h', v) \<and> dlist h' l ns vs"
proof -
  note D = dlistD [OF assms]
  have nl: "n \<noteq> l" "n \<in> dom h" "nx h l = n" "nx h n = hd (ns @ [l])" "hd (ns @ [l]) \<in> dom h"
    "hd (ns @ [l]) \<noteq> n"
    using D links_first [of h n ns l] by (cases ns; auto)+
  have "listDeque h l = Inr ((upp (upn h l (hd (ns @ [l]))) (hd (ns @ [l])) l)(n := None), v)"
    using nl D(1,10) by (simp add: listDeque_def Let_def upn_upp)
  then show ?thesis using unlink [of h l "[]" n ns "v # vs"] assms D(10) by simp
qed

lemma listPop_rep:
  assumes "dlist h l (ns @ [n]) (vs @ [v])"
  shows "\<exists>h'. listPop h l = Inr (h', v) \<and> dlist h' l ns vs"
proof -
  note D = dlistD [OF assms]
  let ?t = "last (l # ns)"
  have lk: "links h l ns n" "links h n [] l" using D(8) by (simp_all add: links_append del: links.simps)
  have t: "?t \<in> set (l # ns)" by (rule last_in_set) simp
  have nl: "n \<noteq> l" "n \<in> dom h" "pv h l = n" "pv h n = ?t" "?t \<in> dom h" "?t \<noteq> n" "nx h l \<noteq> l"
    using D lk links_last [OF lk(1)] t by (auto simp: hd_append)
  have "listPop h l = Inr ((upp (upn h ?t l) l ?t)(n := None), v)"
    using nl D(1,10) by (simp add: listPop_def Let_def upn_upp)
  then show ?thesis using unlink [of h l ns n "[]" "vs @ [v]"] assms D(10) by simp
qed

lemma listRemoveValue_loop_rep:
  assumes "dlist h l (xs @ ys) vs" "length ys < fuel"
    and "\<forall>x \<in> set xs. ln_value (the (h x)) \<noteq> v"
  shows "\<exists>h' ns. listRemoveValue_loop fuel h l (hd (ys @ [l])) v = Inr h' \<and>
    dlist h' l ns (remove1 v vs)"
  using assms
proof (induction ys arbitrary: xs fuel)
  case Nil
  then obtain f where "fuel = Suc f" by (cases fuel) auto
  moreover have "v \<notin> set vs" using Nil.prems(3) dlistD(10) [OF Nil.prems(1)] by auto
  ultimately show ?case using Nil.prems(1) by (auto simp: remove1_idem)
next
  case (Cons y ys)
  obtain f where f: "fuel = Suc f" using Cons.prems(2) by (cases fuel) auto
  note D = dlistD [OF Cons.prems(1)]
  have lk: "links h l xs y" "links h y ys l" using D(8) by (simp_all add: links_append)
  have t: "last (l # xs) \<in> set (l # xs)" by (rule last_in_set) simp
  have e: "hd (ys @ [l]) \<in> set (ys @ [l])" by (rule hd_in_set) simp
  have "y \<noteq> l" "last (l # xs) \<noteq> y" "hd (ys @ [l]) \<noteq> y" using D(6) t e by auto
  moreover have "y \<in> dom h" "last (l # xs) \<in> dom h" "hd (ys @ [l]) \<in> dom h"
    using D(1,7) t e by auto
  moreover have "nx h y = hd (ys @ [l])" "pv h y = last (l # xs)"
    using links_first [OF lk(2)] links_last [OF lk(1)] by blast+
  ultimately have y: "y \<noteq> l" "y \<in> dom h" "nx h y = hd (ys @ [l])" "pv h y = last (l # xs)"
    "last (l # xs) \<in> dom h" "hd (ys @ [l]) \<in> dom h" "last (l # xs) \<noteq> y" "hd (ys @ [l]) \<noteq> y"
    by blast+
  show ?case
  proof (cases "ln_value (the (h y)) = v")
    case True
    have "v \<notin> set (map (\<lambda>n. ln_value (the (h n))) xs)" using Cons.prems(3) by auto
    moreover have "vs = map (\<lambda>n. ln_value (the (h n))) xs @ v # map (\<lambda>n. ln_value (the (h n))) ys"
      using D(10) True by simp
    ultimately have "remove1 v vs = map (\<lambda>n. ln_value (the (h n))) (xs @ ys)"
      by (simp add: remove1_append del: set_map)
    moreover have "listRemoveValue_loop fuel h l (hd ((y # ys) @ [l])) v =
        Inr ((upp (upn h (last (l # xs)) (hd (ys @ [l]))) (hd (ys @ [l])) (last (l # xs)))(y := None))"
      using f y True by simp
    ultimately show ?thesis using unlink [OF Cons.prems(1) refl] by metis
  next
    case False
    then show ?thesis
      using Cons.IH [of "xs @ [y]" f] Cons.prems f y by (simp add: Ball_def)
  qed
qed

lemma listRemoveValue_rep:
  assumes "dlist h l ns vs" "length ns < fuel"
  shows "\<exists>h' ns'. listRemoveValue fuel h l v = Inr h' \<and> dlist h' l ns' (remove1 v vs)"
  using listRemoveValue_loop_rep [of h l "[]" ns vs fuel v] assms dlistD(1,5) [OF assms(1)]
  by (simp add: listRemoveValue_def)

lemma listForEach_rep:
  assumes "links h a xs l" "set xs \<subseteq> dom h" "l \<notin> set xs" "length xs < fuel"
  shows "listForEach fuel h l (nx h a) body st =
    foldl (\<lambda>r x. rbind r (body (ln_value (the (h x))))) (Inr st) xs"
  using assms
proof (induction xs arbitrary: a fuel st)
  case Nil
  then obtain f where "fuel = Suc f" by (cases fuel) auto
  with Nil show ?case by simp
next
  case (Cons x xs)
  then obtain f where f: "fuel = Suc f" by (cases fuel) auto
  have fault: "foldl (\<lambda>r x. rbind r (body (ln_value (the (h x))))) (Inl e) zs = Inl e" for e zs
    by (induction zs) auto
  show ?case
    using Cons f by (cases "body (ln_value (the (h x))) st") (auto simp: fault)
qed

lemma listCount_rep:
  assumes "dlist h l ns vs" "length ns < fuel"
  shows "listCount fuel h l = Inr (length vs)"
proof -
  note D = dlistD [OF assms(1)]
  have "foldl (\<lambda>r x. rbind r (\<lambda>c. Inr (c + 1))) (Inr c) xs = Inr (c + length xs)"
    for c and xs :: "ptr list"
    by (induction xs arbitrary: c) simp_all
  moreover have "length vs = length ns" using D(10) by auto
  ultimately show ?thesis
    using D(1,6,9) by (simp add: listCount_def listForEach_rep [OF D(8,7) _ assms(2)])
qed

text \<open>Clearing frees every node once and leaves the empty list.\<close>

lemma listClear_loop_rep:
  assumes "\<forall>i < length ns. nx h (ns ! i) = (ns @ [l]) ! Suc i" "distinct (l # ns)" "set ns \<subseteq> dom h"
    "length ns < fuel"
  shows "listClear_loop fuel h l (hd (ns @ [l])) freed =
    Inr (h |` (- set ns), freed @ map (\<lambda>n. ln_value (the (h n))) ns)"
  using assms
proof (induction ns arbitrary: h fuel freed)
  case Nil
  then obtain f where "fuel = Suc f" by (cases fuel) auto
  then show ?case by (simp add: restrict_map_def fun_eq_iff)
next
  case (Cons x xs)
  then obtain f where f: "fuel = Suc f" by (cases fuel) auto
  let ?h = "h(x := None)"
  have x: "x \<noteq> l" "x \<in> dom h" "nx h x = hd (xs @ [l])" "x \<notin> set xs"
    using Cons.prems(1) [rule_format, of 0] Cons.prems(2,3) by (auto simp: hd_conv_nth nth_append)
  have "nx ?h (xs ! i) = (xs @ [l]) ! Suc i" if "i < length xs" for i
  proof -
    have "xs ! i \<noteq> x" using x(4) that by (metis nth_mem)
    then show ?thesis using Cons.prems(1) [rule_format, of "Suc i"] that by simp
  qed
  then have "listClear_loop f ?h l (hd (xs @ [l])) fr =
      Inr (?h |` (- set xs), fr @ map (\<lambda>n. ln_value (the (?h n))) xs)" for fr
    using Cons.prems(2-4) f by (intro Cons.IH) auto
  moreover have "?h |` (- set xs) = h |` (- set (x # xs))"
    by (auto simp: restrict_map_def fun_eq_iff)
  moreover have "map (\<lambda>n. ln_value (the (?h n))) xs = map (\<lambda>n. ln_value (the (h n))) xs"
    using x(4) by auto
  ultimately show ?case using f x by simp
qed

lemma links_nth: "links h a xs b \<Longrightarrow> i < length xs \<Longrightarrow> nx h (xs ! i) = (xs @ [b]) ! Suc i"
proof (induction xs arbitrary: a i)
  case (Cons x xs)
  show ?case
  proof (cases i)
    case 0
    then show ?thesis using links_first [of h x xs b] Cons.prems(1) by (cases xs) auto
  next
    case (Suc j)
    moreover have "links h x xs b" using Cons.prems(1) by simp
    ultimately show ?thesis using Cons.IH [of x j] Cons.prems(2) by simp
  qed
qed simp

lemma listClear_rep:
  assumes "dlist h l ns vs" "length ns < fuel"
  shows "\<exists>h'. listClear fuel h l = Inr (h', vs) \<and> dlist h' l [] [] \<and>
    (\<forall>p. p \<noteq> l \<longrightarrow> h' p = (if p \<in> set ns then None else h p))"
proof -
  note D = dlistD [OF assms(1)]
  let ?h = "h |` (- set ns)"
  have l: "l \<in> dom ?h" "ln_value (the (?h l)) = NULL"
    using D(1,6) assms(1) by (auto simp: restrict_map_def dlist_def)
  have "listClear_loop fuel h l (nx h l) [] = Inr (?h, vs)"
    using listClear_loop_rep [of ns h l fuel "[]"] links_nth [OF D(8)] D(5,6,7,10) assms(2) by simp
  then have "listClear fuel h l = Inr (upn (upp ?h l l) l l, vs)"
    using D(1,9) l by (simp add: listClear_def)
  moreover have "dlist (upn (upp ?h l l) l l) l [] []"
    using D(9) l by (simp add: dlist_def)
  ultimately show ?thesis by (auto simp: restrict_map_def)
qed

text \<open>Merging splices the nodes of a non-empty list into another list.\<close>

lemma links_join:
  assumes "links h a xs b" "links h c (y # ys) d"
    and "\<forall>p \<in> set (butlast (a # xs)) \<union> set (butlast (y # ys)). nx h' p = nx h p"
    and "\<forall>p \<in> set xs \<union> set ys. pv h' p = pv h p"
    and "nx h' (last (a # xs)) = y" "pv h' y = last (a # xs)"
    and "nx h' (last (y # ys)) = e" "pv h' e = last (y # ys)"
  shows "links h' a (xs @ y # ys) e"
proof -
  have "links h' a xs y"
    by (rule links_new_end [OF assms(1)]) (use assms(3-6) in blast)+
  moreover have "links h y ys d" using assms(2) by simp
  then have "links h' y ys e"
    by (rule links_new_end) (use assms(3,4,7,8) in blast)+
  ultimately show ?thesis by (simp add: links_append)
qed

lemma dlist_tail:
  assumes "dlist h l (y # ys) vs"
  shows "last (y # ys) \<in> set (y # ys)" "links h y ys l" "nx h l = y" "pv h l = last (y # ys)"
    "y \<in> dom h" "last (y # ys) \<in> dom h"
proof -
  note D = dlistD [OF assms]
  show t: "last (y # ys) \<in> set (y # ys)" by (rule last_in_set) simp
  show "links h y ys l" "nx h l = y" "y \<in> dom h" using D(7,8) by auto
  show "pv h l = last (y # ys)" using D(4) by simp
  show "last (y # ys) \<in> dom h" using D(7) t by auto
qed

lemma map_value_same:
  assumes "q \<notin> set xs" "\<And>p. p \<noteq> q \<Longrightarrow> ln_value (the (h' p)) = ln_value (the (h p))"
  shows "map (\<lambda>p. ln_value (the (h' p))) xs = map (\<lambda>p. ln_value (the (h p))) xs"
proof (rule map_cong [OF refl])
  fix x assume "x \<in> set xs"
  then have "x \<noteq> q" using assms(1) by blast
  then show "ln_value (the (h' x)) = ln_value (the (h x))" by (rule assms(2))
qed

lemma listMergeAppend_rep:
  assumes l1: "dlist h l1 ns vs" and l2: "dlist h l2 (y # ys) ws"
    and disj: "set (l1 # ns) \<inter> set (l2 # y # ys) = {}"
  shows "\<exists>h'. listMergeAppend h l1 l2 = Inr h' \<and> dlist h' l1 (ns @ y # ys) (vs @ ws) \<and> h' l2 = None"
proof -
  note D = dlistD [OF l1] and E = dlistD [OF l2] and T = dlist_tail [OF l2]
  let ?t1 = "last (l1 # ns)" and ?t2 = "last (y # ys)"
  have t1: "?t1 \<in> set (l1 # ns)" by (rule last_in_set) simp
  have ne: "?t1 \<noteq> ?t2" "?t1 \<noteq> l2" "?t2 \<noteq> l2" "l1 \<noteq> l2" "y \<noteq> l1" "y \<noteq> l2" "?t2 \<noteq> l1" "?t1 \<noteq> y"
    using t1 T(1) disj E(6) by auto
  define h' where "h' = (upp (upn (upn (upn (upp h y ?t1) ?t1 (hd (ns @ [l1]))) ?t1 y) ?t2 l1) l1 ?t2)(l2 := None)"
  have n: "nx h' p = (if p = ?t2 then l1 else if p = ?t1 then y else nx h p)"
    "pv h' p = (if p = l1 then ?t2 else if p = y then ?t1 else pv h p)"
    "ln_value (the (h' p)) = ln_value (the (h p))" if "p \<noteq> l2" for p
    using that by (simp_all add: h'_def)
  have "listMergeAppend h l1 l2 = Inr h'"
    using D(1,2,4,5) E(1) T(3-6) ne l1 by (simp add: listMergeAppend_def Let_def h'_def dlist_def)
  moreover have "links h' l1 (ns @ y # ys) l1"
  proof (rule links_join [OF D(8) E(8)])
    have "nx h' p = nx h p" if "p \<in> set (butlast (l1 # ns))" for p
    proof -
      have "p \<noteq> ?t1" "p \<in> set (l1 # ns)" using that butlast_not_last [OF D(6)] in_set_butlastD by fast+
      moreover have "p \<noteq> ?t2" "p \<noteq> l2" using calculation(2) disj T(1) by auto
      ultimately show ?thesis using n(1) by metis
    qed
    moreover have "nx h' p = nx h p" if "p \<in> set (butlast (y # ys))" for p
    proof -
      have "distinct (y # ys)" using E(6) by simp
      then have "p \<noteq> ?t2" "p \<in> set (y # ys)" using that butlast_not_last in_set_butlastD by fast+
      moreover have "p \<noteq> ?t1" "p \<noteq> l2" using calculation(2) disj t1 E(6) by auto
      ultimately show ?thesis using n(1) by metis
    qed
    ultimately show "\<forall>p \<in> set (butlast (l1 # ns)) \<union> set (butlast (y # ys)). nx h' p = nx h p" by blast
    have "p \<noteq> l1 \<and> p \<noteq> y \<and> p \<noteq> l2" if "p \<in> set ns \<union> set ys" for p
      using that D(6) E(6) disj by auto
    then show "\<forall>p \<in> set ns \<union> set ys. pv h' p = pv h p" using n(2) by simp
  qed (use n ne in simp_all)
  moreover have "dom h' = dom h - {l2}" using D(1,2) T(5,6) ne by (auto simp: h'_def)
  moreover have "map (\<lambda>p. ln_value (the (h' p))) (ns @ y # ys) = vs @ ws"
    using map_value_same [of l2 ns h' h] map_value_same [of l2 "y # ys" h' h] n(3) disj E(6) D(10) E(10)
    by auto
  ultimately show ?thesis
    using D(1,6,7,9) E(6,7) disj n(3) [of l1] ne l1
    by (intro exI [of _ h']) (auto simp: dlist_def h'_def)
qed

lemma listMergePrepend_rep:
  assumes l1: "dlist h l1 ns vs" and l2: "dlist h l2 (y # ys) ws"
    and disj: "set (l1 # ns) \<inter> set (l2 # y # ys) = {}"
  shows "\<exists>h'. listMergePrepend h l1 l2 = Inr h' \<and> dlist h' l1 (y # ys @ ns) (ws @ vs) \<and> h' l2 = None"
proof -
  note D = dlistD [OF l1] and E = dlistD [OF l2] and T = dlist_tail [OF l2]
  let ?f = "hd (ns @ [l1])" and ?t2 = "last (y # ys)"
  have f: "?f \<in> set (ns @ [l1])" by (rule hd_in_set) simp
  have ne: "?f \<noteq> ?t2" "?f \<noteq> l2" "?t2 \<noteq> l2" "l1 \<noteq> l2" "y \<noteq> l1" "y \<noteq> l2" "?t2 \<noteq> l1" "?f \<noteq> y"
    using f T(1) disj E(6) by auto
  define h' where "h' = (upp (upn (upp (upn h l1 y) y l1) ?t2 ?f) ?f ?t2)(l2 := None)"
  have n: "nx h' p = (if p = ?t2 then ?f else if p = l1 then y else nx h p)"
    "pv h' p = (if p = ?f then ?t2 else if p = y then l1 else pv h p)"
    "ln_value (the (h' p)) = ln_value (the (h p))" if "p \<noteq> l2" for p
    using that by (simp_all add: h'_def)
  have "listMergePrepend h l1 l2 = Inr h'"
    using D(1,3,5) E(1) T(3-6) ne l1 by (simp add: listMergePrepend_def Let_def h'_def dlist_def)
  moreover have first: "links h' y ys ?f"
  proof (rule links_new_end [OF T(2)])
    have "nx h' p = nx h p" if "p \<in> set (butlast (y # ys))" for p
    proof -
      have "distinct (y # ys)" using E(6) by simp
      then have "p \<noteq> ?t2" "p \<in> set (y # ys)" using that butlast_not_last in_set_butlastD by fast+
      moreover have "p \<noteq> l1" "p \<noteq> l2" using calculation(2) disj E(6) by auto
      ultimately show ?thesis using n(1) by metis
    qed
    then show "\<forall>p \<in> set (butlast (y # ys)). nx h' p = nx h p" by blast
    have "p \<noteq> ?f \<and> p \<noteq> y \<and> p \<noteq> l2" if "p \<in> set ys" for p
      using that f E(6) disj by auto
    then show "\<forall>p \<in> set ys. pv h' p = pv h p" using n(2) by simp
  qed (use n ne in simp_all)
  moreover have "links h' l1 (y # ys @ ns) l1"
  proof (cases ns)
    case Nil
    then show ?thesis using first n ne by simp
  next
    case (Cons z zs)
    have "links h' z zs l1"
    proof (rule links_frame [of h])
      show "links h z zs l1" using D(8) Cons by simp
      have "p \<noteq> ?t2 \<and> p \<noteq> l1 \<and> p \<noteq> l2" if "p \<in> set (z # zs)" for p
        using that D(6) disj T(1) Cons by auto
      then show "\<forall>p \<in> set (z # zs). nx h' p = nx h p" using n(1) by simp
      have "p \<noteq> ?f \<and> p \<noteq> y \<and> p \<noteq> l2" if "p \<in> set (zs @ [l1])" for p
        using that D(6) disj Cons by auto
      then show "\<forall>p \<in> set (zs @ [l1]). pv h' p = pv h p" using n(2) by simp
    qed
    then show ?thesis using first n ne Cons by (simp add: links_append)
  qed
  moreover have "dom h' = dom h - {l2}" using D(1,3) T(5,6) ne by (auto simp: h'_def)
  moreover have "map (\<lambda>p. ln_value (the (h' p))) (y # ys @ ns) = ws @ vs"
    using map_value_same [of l2 ns h' h] map_value_same [of l2 "y # ys" h' h] n(3) disj E(6) D(10) E(10)
    by auto
  ultimately show ?thesis
    using D(1,6,7,9) E(6,7) disj n(3) [of l1] ne l1
    by (intro exI [of _ h']) (auto simp: dlist_def h'_def)
qed

text \<open>Inserting before a node of the list, the sentinel included.\<close>

lemma links_insert_before:
  assumes "links h l (xs @ zs) l" "distinct (l # xs @ zs)" "a \<notin> set (l # xs @ zs)"
    and h': "\<And>p. nx h' p = (if p = last (l # xs) then a else if p = a then hd (zs @ [l]) else nx h p)"
      "\<And>p. pv h' p = (if p = hd (zs @ [l]) then a else if p = a then last (l # xs) else pv h p)"
  shows "links h' l (xs @ a # zs) l"
proof -
  let ?t = "last (l # xs)" and ?e = "hd (zs @ [l])"
  have t: "?t \<in> set (l # xs)" by (rule last_in_set) simp
  have e: "?e \<in> set (zs @ [l])" by (rule hd_in_set) simp
  have ne: "a \<noteq> ?t" "a \<noteq> ?e" using assms(3) t e by auto
  have pre: "links h l xs ?e"
    using assms(1) by (cases zs) (simp_all add: links_append)
  have "links h' l xs a"
  proof (rule links_new_end [OF pre])
    have "nx h' p = nx h p" if "p \<in> set (butlast (l # xs))" for p
    proof -
      have "distinct (l # xs)" using assms(2) by auto
      then have "p \<noteq> ?t" "p \<in> set (l # xs)" using that butlast_not_last in_set_butlastD by fast+
      moreover have "p \<noteq> a" using calculation(2) assms(3) by auto
      ultimately show ?thesis using h'(1) by metis
    qed
    then show "\<forall>p \<in> set (butlast (l # xs)). nx h' p = nx h p" by blast
    have "p \<noteq> ?e \<and> p \<noteq> a" if "p \<in> set xs" for p using that e assms(2,3) by auto
    then show "\<forall>p \<in> set xs. pv h' p = pv h p" using h'(2) by simp
  qed (use h' ne in simp_all)
  moreover have "links h' a zs l"
  proof (cases zs)
    case (Cons z zs')
    have "links h' z zs' l"
    proof (rule links_frame [of h])
      show "links h z zs' l" using assms(1) Cons by (simp add: links_append)
      have "p \<noteq> ?t \<and> p \<noteq> a" if "p \<in> set (z # zs')" for p
        using that t assms(2,3) Cons by auto
      then show "\<forall>p \<in> set (z # zs'). nx h' p = nx h p" using h'(1) by simp
      have "p \<noteq> ?e \<and> p \<noteq> a" if "p \<in> set (zs' @ [l])" for p
        using that assms(2,3) Cons by auto
      then show "\<forall>p \<in> set (zs' @ [l]). pv h' p = pv h p" using h'(2) by simp
    qed
    then show ?thesis using h' ne Cons by simp
  qed (use h' ne in simp)
  ultimately show ?thesis by (simp add: links_append)
qed

lemma listInsertValueBefore_rep:
  assumes d: "dlist h l (xs @ zs) vs" and a: "h a = None"
  shows "\<exists>h'. listInsertValueBefore a h (hd (zs @ [l])) v = Inr h' \<and>
    dlist h' l (xs @ a # zs) (take (length xs) vs @ v # drop (length xs) vs)"
proof -
  note D = dlistD [OF d]
  let ?t = "last (l # xs)" and ?e = "hd (zs @ [l])"
  have t: "?t \<in> set (l # xs)" by (rule last_in_set) simp
  have e: "?e \<in> set (zs @ [l])" by (rule hd_in_set) simp
  have an: "a \<notin> set (l # xs @ zs)" using a D(1,7) by auto
  have ne: "?t \<noteq> a" "?e \<noteq> a" "?t \<in> dom h" "?e \<in> dom h" using an t e D(1,7) by auto
  have pre: "pv h ?e = ?t"
    using D(8) links_last [of h l xs ?e] by (cases zs) (auto simp: links_append)
  define h1 where "h1 = h(a \<mapsto> \<lparr>ln_next = a, ln_prev = a, ln_value = v\<rparr>)"
  define h' where "h' = upp (upn (upp (upn h1 a ?e) a ?t) ?t a) ?e a"
  have "listInsertValueBefore a h ?e v = Inr h'"
    using ne pre
    by (simp add: listInsertValueBefore_def listInsertBefore_def h1_def h'_def del: last.simps)
  moreover have "links h' l (xs @ a # zs) l"
    by (rule links_insert_before [OF D(8,6) an]) (use ne in \<open>auto simp: h'_def h1_def\<close>)
  moreover have "map (\<lambda>p. ln_value (the (h' p))) xs = map (\<lambda>p. ln_value (the (h p))) xs"
    "map (\<lambda>p. ln_value (the (h' p))) zs = map (\<lambda>p. ln_value (the (h p))) zs"
    using an by (intro map_value_same [of a]; auto simp: h'_def h1_def)+
  ultimately show ?thesis
    using d an ne D(1,6,7,9,10) by (intro exI [of _ h']) (auto simp: dlist_def h'_def h1_def)
qed

lemma dlist_frame:
  assumes "dlist h l ns vs" "\<forall>p \<in> set (l # ns). h' p = h p"
  shows "dlist h' l ns vs"
proof -
  note D = dlistD [OF assms(1)]
  have "links h' l ns l"
    using assms(2) by (intro links_frame [OF D(8)]) auto
  moreover have "map (\<lambda>n. ln_value (the (h' n))) ns = vs" using D(10) assms(2) by auto
  ultimately show ?thesis using assms D(1,6,7,9) by (auto simp: dlist_def)
qed

lemma listCopy_loop_rep:
  assumes "dlist h l (xs @ ys) vs" "dlist h cpy cs ws" "set (l # xs @ ys) \<inter> set (cpy # cs) = {}"
    and "distinct as" "set as \<inter> dom h = {}" "length ys \<le> length as" "length ys < fuel"
  shows "\<exists>h'. listCopy_loop fuel h l (hd (ys @ [l])) cpy as = Inr (h', drop (length ys) as) \<and>
    dlist h' l (xs @ ys) vs \<and> dlist h' cpy (cs @ take (length ys) as) (ws @ drop (length xs) vs)"
  using assms
proof (induction ys arbitrary: h xs cs ws as fuel)
  case Nil
  then obtain f where "fuel = Suc f" by (cases fuel) auto
  moreover have "length vs = length xs" using dlistD(10) [OF Nil.prems(1)] by auto
  ultimately show ?case using Nil.prems by simp
next
  case (Cons y ys)
  obtain f where f: "fuel = Suc f" using Cons.prems(7) by (cases fuel) auto
  obtain a as' where as: "as = a # as'" using Cons.prems(6) by (cases as) auto
  note D = dlistD [OF Cons.prems(1)]
  let ?v = "ln_value (the (h y))"
  have y: "y \<noteq> l" "y \<in> dom h" using D(6,7) by auto
  have ha: "h a = None" "a \<notin> set as'" using Cons.prems(4,5) as by auto
  obtain h1 where h1: "listAppend a h cpy ?v = Inr h1" "dlist h1 cpy (cs @ [a]) (ws @ [?v])"
    "\<forall>p. p \<notin> set (a # cpy # cs) \<longrightarrow> h1 p = h p"
    using listAppend_rep [OF Cons.prems(2) ha(1)] by blast
  have na: "a \<notin> set (l # xs @ y # ys)" using ha(1) D(1,7) by auto
  have same: "\<forall>p \<in> set (l # xs @ y # ys). h1 p = h p" using h1(3) Cons.prems(3) na by auto
  have l1: "dlist h1 l (xs @ y # ys) vs" using dlist_frame [OF Cons.prems(1) same] .
  have nxt: "nx h1 y = hd (ys @ [l])"
    using dlistD(8) [OF l1] links_first [of h1 y ys l] by (simp add: links_append)
  have fresh: "set as' \<inter> dom h1 = {}"
    using h1(3) Cons.prems(5) as dlistD(1,7) [OF Cons.prems(2)] ha(2) by (force simp: dom_def)
  obtain h' where h': "listCopy_loop f h1 l (hd (ys @ [l])) cpy as' = Inr (h', drop (length ys) as')"
    "dlist h' l ((xs @ [y]) @ ys) vs"
    "dlist h' cpy ((cs @ [a]) @ take (length ys) as') ((ws @ [?v]) @ drop (length (xs @ [y])) vs)"
    using Cons.IH [of h1 "xs @ [y]" "cs @ [a]" "ws @ [?v]" as' f] l1 h1(2) Cons.prems(3,4,6,7) as f
      fresh na by auto
  have "drop (length xs) vs = ?v # drop (Suc (length xs)) vs"
    using D(10) by auto
  moreover have "y \<in> dom h1" using same y(2) by (auto simp: dom_def)
  ultimately show ?case using f as y h1(1) h' nxt by simp
qed

section \<open>Properties\<close>

text \<open>
  C35. The constructors of a list on a well-formed list with a fresh node: \<^verbatim>\<open>listAppend\<close> puts the
  value at the end, \<^verbatim>\<open>listPrepend\<close> at the front and \<^verbatim>\<open>listInsertValueBefore\<close> before the given node,
  keeping the ring linked both ways.
\<close>

theorem list_insertions:
  assumes "dlist h l (xs @ zs) vs" "h a = None"
  shows "(\<exists>h'. listAppend a h l v = Inr h' \<and> dlist h' l ((xs @ zs) @ [a]) (vs @ [v])) \<and>
    (\<exists>h'. listPrepend a h l v = Inr h' \<and> dlist h' l (a # xs @ zs) (v # vs)) \<and>
    (\<exists>h'. listInsertValueBefore a h (hd (zs @ [l])) v = Inr h' \<and>
       dlist h' l (xs @ a # zs) (take (length xs) vs @ v # drop (length xs) vs))"
  using listAppend_rep [OF assms] listPrepend_rep [OF assms] listInsertValueBefore_rep [OF assms]
  by blast

theorem list_insertions_witness:
  "\<exists>h'. listAppend 2 (listNew 1 (\<lambda>_. None)) 1 7 = Inr h' \<and> dlist h' 1 [2] [7]"
  using list_insertions [of "listNew 1 (\<lambda>_. None)" 1 "[]" "[]" "[]" 2 7]
    listNew_rep [of 1 "\<lambda>_. None"] by (simp add: listNew_def)

text \<open>
  \<^verbatim>\<open>listDeque\<close> takes the first value and \<^verbatim>\<open>listPop\<close> the last one off a well-formed list, freeing the
  node; on the empty list both return null and change nothing.
\<close>

theorem list_removals:
  assumes "dlist h l ns vs"
  shows "(vs = [] \<longrightarrow> listDeque h l = Inr (h, NULL) \<and> listPop h l = Inr (h, NULL)) \<and>
    (vs \<noteq> [] \<longrightarrow>
      (\<exists>h'. listDeque h l = Inr (h', hd vs) \<and> dlist h' l (tl ns) (tl vs)) \<and>
      (\<exists>h'. listPop h l = Inr (h', last vs) \<and> dlist h' l (butlast ns) (butlast vs)))"
proof (cases "vs = []")
  case True
  then have "ns = []" using dlistD(10) [OF assms] by simp
  then show ?thesis
    using True dlistD(1,5) [OF assms] by (simp add: listDeque_def listPop_def)
next
  case False
  then have "ns \<noteq> []" using dlistD(10) [OF assms] by auto
  have "dlist h l (hd ns # tl ns) (hd vs # tl vs)" using assms False \<open>ns \<noteq> []\<close> by simp
  moreover have "dlist h l (butlast ns @ [last ns]) (butlast vs @ [last vs])"
    using assms False \<open>ns \<noteq> []\<close> by simp
  ultimately show ?thesis using listDeque_rep listPop_rep False by blast
qed

theorem list_removals_witness:
  "\<exists>h'. dlist h' 1 [] [] \<and> listDeque (listNew 1 (\<lambda>_. None)) 1 = Inr (h', NULL)"
  using list_removals [OF listNew_rep [of 1 "\<lambda>_. None"]] listNew_rep [of 1 "\<lambda>_. None"] by auto

text \<open>
  Merging a non-empty list into a disjoint one: \<^verbatim>\<open>listMergeAppend\<close> puts its values after, and
  \<^verbatim>\<open>listMergePrepend\<close> before, those of the first list; the sentinel of the second list is freed and
  no other node is.
\<close>

theorem list_merges:
  assumes "dlist h l1 ns vs" "dlist h l2 ms ws" "ms \<noteq> []" "set (l1 # ns) \<inter> set (l2 # ms) = {}"
  shows "(\<exists>h'. listMergeAppend h l1 l2 = Inr h' \<and> dlist h' l1 (ns @ ms) (vs @ ws) \<and> h' l2 = None) \<and>
    (\<exists>h'. listMergePrepend h l1 l2 = Inr h' \<and> dlist h' l1 (ms @ ns) (ws @ vs) \<and> h' l2 = None)"
proof -
  obtain y ys where ms: "ms = y # ys" using assms(3) by (cases ms) auto
  show ?thesis
    using listMergeAppend_rep [of h l1 ns vs l2 y ys ws] listMergePrepend_rep [of h l1 ns vs l2 y ys ws]
      assms unfolding ms by auto
qed

theorem list_merges_witness:
  "\<exists>h h'. dlist h 3 [4] [7] \<and> listMergeAppend h 1 3 = Inr h' \<and> dlist h' 1 [4] [7]"
proof -
  let ?h = "[1 \<mapsto> \<lparr>ln_next = 1, ln_prev = 1, ln_value = 0\<rparr>, 3 \<mapsto> \<lparr>ln_next = 4, ln_prev = 4, ln_value = 0\<rparr>,
    4 \<mapsto> \<lparr>ln_next = 3, ln_prev = 3, ln_value = 7\<rparr>] :: lheap"
  have d: "dlist ?h 1 [] []" "dlist ?h 3 [4] [7]" by (simp_all add: dlist_def)
  have "\<exists>h'. listMergeAppend ?h 1 3 = Inr h' \<and> dlist h' 1 [4] [7]"
    using list_merges [OF d] by auto
  with d show ?thesis by blast
qed

text \<open>A walk that is led to a node that is not there.\<close>

lemma links_nexts:
  assumes "links h a xs b" "\<forall>p \<in> set (butlast (a # xs)). nx h' p = nx h p" "nx h' (last (a # xs)) = c"
  shows "successively (\<lambda>p q. nx h' p = q) (a # xs @ [c])"
  using assms by (induction xs arbitrary: a) (auto split: if_splits)

lemma walk_dangles:
  assumes "successively (\<lambda>p q. nx h p = q) (xs @ [c])" "set xs \<subseteq> dom h" "l \<notin> set xs" "h c = None" "c \<noteq> l" "length xs < fuel"
  shows "listForEach fuel h l (hd (xs @ [c])) (\<lambda>v st. Inr (f v st)) st = Inl NullDeref"
  using assms
proof (induction xs arbitrary: fuel st)
  case Nil
  then show ?case by (cases fuel) (simp_all add: node_at_def)
next
  case (Cons x xs)
  then obtain fuel' where fuel: "fuel = Suc fuel'" by (cases fuel) auto
  have "nx h x = hd (xs @ [c])" using Cons.prems(1) by (cases xs) simp_all
  moreover have "successively (\<lambda>p q. nx h p = q) (xs @ [c])" using Cons.prems(1) by (cases xs) simp_all
  moreover have "x \<noteq> l" "l \<noteq> x" using Cons.prems(3) by auto
  ultimately show ?case using Cons.IH [of fuel'] Cons.prems(2-) fuel by simp
qed

lemma count_dangles:
  assumes "l \<noteq> NULL" "l \<in> dom h" "successively (\<lambda>p q. nx h p = q) (l # xs @ [c])" "set xs \<subseteq> dom h" "l \<notin> set xs"
    "h c = None" "c \<noteq> l" "length xs < fuel"
  shows "listCount fuel h l = Inl NullDeref"
proof -
  have "nx h l = hd (xs @ [c])" "successively (\<lambda>p q. nx h p = q) (xs @ [c])" using assms(3) by (cases xs; simp)+
  then show ?thesis
    using walk_dangles [of h xs c l fuel "\<lambda>_. Suc" 0] assms by (simp add: listCount_def)
qed

text \<open>
  C36. Merging an empty list into any disjoint list, empty or not, breaks the ring: \<^verbatim>\<open>listMergeAppend\<close> and
  \<^verbatim>\<open>listMergePrepend\<close> both return, the sentinel of the second list is freed, and the first list is linked to it (after its last node,
  respectively after its own sentinel), so that the next walk over the first list, such as \<^verbatim>\<open>listCount\<close>, reads freed memory.
\<close>

theorem list_merge_empty_dangles:
  assumes "dlist h l1 ns vs" "dlist h l2 [] []" "l2 \<notin> set (l1 # ns)" "length ns < fuel"
  shows "(\<exists>h'. listMergeAppend h l1 l2 = Inr h' \<and> h' l2 = None \<and> nx h' (last (l1 # ns)) = l2 \<and>
      listCount fuel h' l1 = Inl NullDeref) \<and>
    (\<exists>h'. listMergePrepend h l1 l2 = Inr h' \<and> h' l2 = None \<and> nx h' l1 = l2 \<and> listCount fuel h' l1 = Inl NullDeref)"
proof -
  note D = dlistD [OF assms(1)] and E = dlistD [OF assms(2)]
  let ?t = "last (l1 # ns)" and ?f = "hd (ns @ [l1])"
  have val: "ln_value (the (h l1)) = NULL" using assms(1) by (simp add: dlist_def)
  have ne: "l2 \<noteq> l1" "l2 \<notin> set ns" "?t \<noteq> l2" "?f \<noteq> l2" using assms(3) by (auto simp: hd_append)
  define ha where "ha = (upp (upn (upn (upn (upp h l2 ?t) ?t ?f) ?t l2) l2 l1) l1 l2)(l2 := None)"
  have "listMergeAppend h l1 l2 = Inr ha"
    using D E ne val by (simp add: listMergeAppend_def ha_def Let_def del: last.simps)
  moreover have nx_ha: "nx ha p = (if p = ?t then l2 else nx h p)" if "p \<noteq> l2" for p
    using that by (simp add: ha_def del: last.simps)
  have "successively (\<lambda>p q. nx ha p = q) (l1 # ns @ [l2])"
  proof (rule links_nexts [OF D(8)])
    show "\<forall>p \<in> set (butlast (l1 # ns)). nx ha p = nx h p"
    proof
      fix p assume p: "p \<in> set (butlast (l1 # ns))"
      then have "p \<noteq> l2" using assms(3) in_set_butlastD by metis
      then show "nx ha p = nx h p" using nx_ha butlast_not_last [OF D(6) p] by simp
    qed
    show "nx ha ?t = l2" using nx_ha [of ?t] ne by simp
  qed
  then have "listCount fuel ha l1 = Inl NullDeref"
    using D ne assms(4) by (intro count_dangles [where c = l2]) (auto simp: ha_def simp del: last.simps)
  moreover define hp where "hp = (upp (upn (upp (upn h l1 l2) l2 l1) l2 ?f) ?f l2)(l2 := None)"
  have "listMergePrepend h l1 l2 = Inr hp"
    using D E ne val by (simp add: listMergePrepend_def hp_def Let_def)
  moreover have "nx hp l1 = l2" using ne by (simp add: hp_def)
  then have "listCount fuel hp l1 = Inl NullDeref"
    using D(1,9) ne assms(4) by (intro count_dangles [where c = l2 and xs = "[]"]) (auto simp: hp_def)
  ultimately show ?thesis using nx_ha [of ?t] ne \<open>nx hp l1 = l2\<close>
    by (intro conjI exI [of _ ha] exI [of _ hp]) (simp_all add: ha_def hp_def del: last.simps)
qed

theorem list_merge_empty_dangles_witness:
  "\<exists>h h1 h2. dlist h 3 [4] [7] \<and> listMergeAppend h 3 1 = Inr h1 \<and> listCount 5 h1 3 = Inl NullDeref \<and>
    listMergePrepend h 3 1 = Inr h2 \<and> listCount 5 h2 3 = Inl NullDeref"
proof -
  let ?h = "[1 \<mapsto> \<lparr>ln_next = 1, ln_prev = 1, ln_value = 0\<rparr>, 3 \<mapsto> \<lparr>ln_next = 4, ln_prev = 4, ln_value = 0\<rparr>,
    4 \<mapsto> \<lparr>ln_next = 3, ln_prev = 3, ln_value = 7\<rparr>] :: lheap"
  have d: "dlist ?h 3 [4] [7]" "dlist ?h 1 [] []" by (simp_all add: dlist_def)
  have "(1::ptr) \<notin> set [3, 4]" "length [4::ptr] < 5" by simp_all
  from list_merge_empty_dangles [OF d this] d(1) show ?thesis by blast
qed

text \<open>
  \<^verbatim>\<open>listCopy\<close> builds a second list with the same values in the same order out of fresh nodes, and
  leaves the original as it was; \<^verbatim>\<open>listClear\<close> then frees exactly the nodes of the list and hands every
  value to the callback once, and \<^verbatim>\<open>listCount\<close> is the number of values.
\<close>

theorem list_copy_clear_count:
  assumes "dlist h l ns vs" "h cpy = None" "cpy \<noteq> NULL" "distinct (cpy # as)" "set as \<inter> dom h = {}"
    "length ns \<le> length as" "length ns < fuel"
  shows "(\<exists>h'. listCopy fuel h l cpy as = Inr (h', drop (length ns) as) \<and> dlist h' l ns vs \<and>
      dlist h' cpy (take (length ns) as) vs) \<and>
    (\<exists>h'. listClear fuel h l = Inr (h', vs) \<and> dlist h' l [] [] \<and>
      (\<forall>p. p \<noteq> l \<longrightarrow> h' p = (if p \<in> set ns then None else h p))) \<and>
    listCount fuel h l = Inr (length vs)"
proof -
  note D = dlistD [OF assms(1)]
  let ?h = "listNew cpy h"
  have nc: "cpy \<notin> set (l # ns)" using assms(2) D(1,7) by auto
  have l: "dlist ?h l ns vs" using nc by (intro dlist_frame [OF assms(1)]) (auto simp: listNew_def)
  have as: "set as \<inter> dom ?h = {}" using assms(4,5) by (auto simp: listNew_def)
  have "\<exists>h'. listCopy_loop fuel ?h l (hd (ns @ [l])) cpy as = Inr (h', drop (length ns) as) \<and>
      dlist h' l ns vs \<and> dlist h' cpy (take (length ns) as) vs"
    using listCopy_loop_rep [of ?h l "[]" ns vs cpy "[]" "[]" as fuel] l listNew_rep [OF assms(3)] nc as
      assms(4,6,7) by simp
  then have "\<exists>h'. listCopy fuel h l cpy as = Inr (h', drop (length ns) as) \<and> dlist h' l ns vs \<and>
      dlist h' cpy (take (length ns) as) vs"
    using dlistD(1,5) [OF l] by (simp add: listCopy_def)
  then show ?thesis
    using listClear_rep [OF assms(1,7)] listCount_rep [OF assms(1,7)] by blast
qed

theorem list_copy_clear_count_witness:
  "\<exists>h h'. dlist h 3 [4] [7] \<and> listCopy 2 h 3 5 [6] = Inr (h', []) \<and> dlist h' 5 [6] [7]"
proof -
  let ?h = "[3 \<mapsto> \<lparr>ln_next = 4, ln_prev = 4, ln_value = 0\<rparr>,
    4 \<mapsto> \<lparr>ln_next = 3, ln_prev = 3, ln_value = 7\<rparr>] :: lheap"
  have d: "dlist ?h 3 [4] [7]" by (simp add: dlist_def)
  have "\<exists>h'. listCopy 2 ?h 3 5 [6] = Inr (h', []) \<and> dlist h' 5 [6] [7]"
    using list_copy_clear_count [OF d, of 5 "[6]" 2] by auto
  with d show ?thesis by blast
qed

end
