(* ===== verification/AbiHandles.thy ===== *)
theory AbiHandles
  imports Prelude
begin

text \<open>
  The opaque-handle table of \<^verbatim>\<open>src/src/abi-cpa-host.c\<close>: a bounded table of slots that hands out
  64-bit tokens for AST nodes and checks every field of a token before it gives access to the
  node again. A token is a word; the \<^verbatim>\<open>s64\<close> results are words too, so that a negative status is the
  negated code. The kind field of the AST node behind a slot is read through the argument
  \<open>kind_of\<close>. The state machine \<open>abi_step\<close> has one rule per entry point that changes the table.
\<close>

section \<open>Model\<close>

definition ABI_CPA_MAX_SLOTS :: nat where "ABI_CPA_MAX_SLOTS = 64"

definition ABI_CPA_KIND_AST :: u8 where "ABI_CPA_KIND_AST = 1"

definition ABI_CPA_MAGIC :: u8 where "ABI_CPA_MAGIC = 0x5A"

definition ABI_CPA_RESERVED :: u16 where "ABI_CPA_RESERVED = 0xC0DE"

definition ABI_OK :: u64 where "ABI_OK = 0"

definition ABI_NULL_HANDLE :: u64 where "ABI_NULL_HANDLE = 1"

definition ABI_WRONG_HANDLE_KIND :: u64 where "ABI_WRONG_HANDLE_KIND = 2"

definition ABI_STALE_OR_RELEASED_HANDLE :: u64 where "ABI_STALE_OR_RELEASED_HANDLE = 3"

definition ABI_HANDLE_GENERATION_MISMATCH :: u64 where "ABI_HANDLE_GENERATION_MISMATCH = 4"

definition ABI_HANDLE_NOT_ISSUED :: u64 where "ABI_HANDLE_NOT_ISSUED = 5"

definition ABI_HANDLE_DOMAIN_MISMATCH :: u64 where "ABI_HANDLE_DOMAIN_MISMATCH = 6"

definition ABI_DOUBLE_RELEASE :: u64 where "ABI_DOUBLE_RELEASE = 7"

definition ABI_EXPIRED_BORROW_OR_ARENA :: u64 where "ABI_EXPIRED_BORROW_OR_ARENA = 8"

definition ABI_OUT_OF_MEMORY :: u64 where "ABI_OUT_OF_MEMORY = 15"

definition ABI_SLOT_RETIRED :: u64 where "ABI_SLOT_RETIRED = 17"

lemmas abi_codes = ABI_OK_def ABI_NULL_HANDLE_def ABI_WRONG_HANDLE_KIND_def
  ABI_STALE_OR_RELEASED_HANDLE_def ABI_HANDLE_GENERATION_MISMATCH_def ABI_HANDLE_NOT_ISSUED_def
  ABI_HANDLE_DOMAIN_MISMATCH_def ABI_DOUBLE_RELEASE_def ABI_EXPIRED_BORROW_OR_ARENA_def
  ABI_OUT_OF_MEMORY_def ABI_SLOT_RETIRED_def

record cpa_slot =
  cs_live :: bool
  cs_retired :: bool
  cs_kind :: u8
  cs_domain :: u8
  cs_generation :: u16
  cs_obj :: ptr
  cs_epoch :: u64

record cpa_state =
  cpa_slots :: "cpa_slot list"
  cpa_domain :: u8
  cpa_ast_epoch :: u64

definition cpa_init :: cpa_state where
  "cpa_init = \<lparr>cpa_slots = replicate ABI_CPA_MAX_SLOTS \<lparr>cs_live = False, cs_retired = False,
     cs_kind = 0, cs_domain = 0, cs_generation = 0, cs_obj = NULL, cs_epoch = 0\<rparr>,
     cpa_domain = 1, cpa_ast_epoch = 1\<rparr>"

definition AbiCpaEncode :: "u32 \<Rightarrow> u8 \<Rightarrow> u16 \<Rightarrow> u8 \<Rightarrow> u64" where
  "AbiCpaEncode idx kind gen domain =
     push_bit 48 (ucast ABI_CPA_RESERVED) OR push_bit 40 (ucast (idx + 1)) OR
     push_bit 32 (ucast kind) OR push_bit 16 (ucast gen) OR push_bit 8 (ucast domain) OR
     ucast ABI_CPA_MAGIC"

text \<open>The fields of a token as the checks extract them.\<close>

definition tok_idx1 :: "u64 \<Rightarrow> nat" where "tok_idx1 t = unat (drop_bit 40 t AND 0xff)"

definition tok_domain :: "u64 \<Rightarrow> u8" where "tok_domain t = ucast (drop_bit 8 t AND 0xff)"

definition tok_gen :: "u64 \<Rightarrow> u16" where "tok_gen t = ucast (drop_bit 16 t AND 0xffff)"

definition tok_kind :: "u64 \<Rightarrow> u8" where "tok_kind t = ucast (drop_bit 32 t AND 0xff)"

definition tok_magic :: "u64 \<Rightarrow> u8" where "tok_magic t = ucast (t AND 0xff)"

definition tok_reserved :: "u64 \<Rightarrow> u16" where "tok_reserved t = ucast (drop_bit 48 t AND 0xffff)"

text \<open>The outcome of the lookup: the status, and on \<^verbatim>\<open>ABI_OK\<close> the slot number.\<close>

definition AbiCpaLookup :: "cpa_state \<Rightarrow> u64 \<Rightarrow> u8 \<Rightarrow> u64 + nat" where
  "AbiCpaLookup st token expect_kind =
     (if token = 0 then Inl (- ABI_NULL_HANDLE)
      else if tok_magic token \<noteq> ABI_CPA_MAGIC then Inl (- ABI_HANDLE_NOT_ISSUED)
      else if tok_reserved token \<noteq> ABI_CPA_RESERVED then Inl (- ABI_HANDLE_NOT_ISSUED)
      else if tok_idx1 token = 0 \<or> tok_idx1 token > ABI_CPA_MAX_SLOTS
      then Inl (- ABI_HANDLE_NOT_ISSUED)
      else let idx = tok_idx1 token - 1; s = cpa_slots st ! idx in
        if tok_domain token \<noteq> cpa_domain st \<or> cs_domain s \<noteq> cpa_domain st
        then Inl (- ABI_HANDLE_DOMAIN_MISMATCH)
        else if cs_retired s then Inl (- ABI_SLOT_RETIRED)
        else if tok_kind token \<noteq> cs_kind s then Inl (- ABI_WRONG_HANDLE_KIND)
        else if expect_kind \<noteq> 0 \<and> cs_kind s \<noteq> expect_kind then Inl (- ABI_WRONG_HANDLE_KIND)
        else if \<not> cs_live s then Inl (- ABI_STALE_OR_RELEASED_HANDLE)
        else if tok_gen token \<noteq> cs_generation s then Inl (- ABI_HANDLE_GENERATION_MISMATCH)
        else if cs_kind s = ABI_CPA_KIND_AST \<and> cs_epoch s \<noteq> cpa_ast_epoch st
        then Inl (- ABI_EXPIRED_BORROW_OR_ARENA)
        else Inr idx)"

text \<open>The scan for a slot that is neither live nor retired.\<close>

fun cpa_find_free :: "cpa_slot list \<Rightarrow> nat \<Rightarrow> nat" where
  "cpa_find_free [] i = i"
| "cpa_find_free (s # ss) i =
     (if cs_live s \<or> cs_retired s then cpa_find_free ss (Suc i) else i)"

definition AbiCpaIssueAst :: "cpa_state \<Rightarrow> ptr \<Rightarrow> cpa_state \<times> u64" where
  "AbiCpaIssueAst st ast =
     (if ast = NULL then (st, - ABI_NULL_HANDLE)
      else let i = cpa_find_free (cpa_slots st) 0 in
        if i \<ge> ABI_CPA_MAX_SLOTS then (st, - ABI_OUT_OF_MEMORY)
        else let s = cpa_slots st ! i in
          if (ucast (cs_generation s) + 1 :: u32) > 0xffff
          then (st\<lparr>cpa_slots := (cpa_slots st)[i := s\<lparr>cs_retired := True, cs_live := False, cs_obj := NULL\<rparr>]\<rparr>,
                - ABI_SLOT_RETIRED)
          else let s' = s\<lparr>cs_kind := ABI_CPA_KIND_AST, cs_domain := cpa_domain st,
                     cs_generation := cs_generation s + 1, cs_obj := ast,
                     cs_epoch := cpa_ast_epoch st, cs_live := True\<rparr>
            in (st\<lparr>cpa_slots := (cpa_slots st)[i := s']\<rparr>,
                AbiCpaEncode (of_nat i) ABI_CPA_KIND_AST (cs_generation s') (cs_domain s')))"

definition AbiCpaAstKind :: "(ptr \<Rightarrow> u64) \<Rightarrow> cpa_state \<Rightarrow> u64 \<Rightarrow> u64" where
  "AbiCpaAstKind kind_of st ast =
     (case AbiCpaLookup st ast ABI_CPA_KIND_AST of
        Inl rc \<Rightarrow> rc
      | Inr idx \<Rightarrow> kind_of (cs_obj (cpa_slots st ! idx)))"

definition AbiCpaReleaseInternal :: "cpa_state \<Rightarrow> u64 \<Rightarrow> cpa_state \<times> u64" where
  "AbiCpaReleaseInternal st handle =
     (if handle = 0 then (st, - ABI_NULL_HANDLE)
      else if tok_magic handle \<noteq> ABI_CPA_MAGIC then (st, - ABI_HANDLE_NOT_ISSUED)
      else if tok_idx1 handle = 0 \<or> tok_idx1 handle > ABI_CPA_MAX_SLOTS
      then (st, - ABI_HANDLE_NOT_ISSUED)
      else let idx = tok_idx1 handle - 1; s = cpa_slots st ! idx in
        if tok_domain handle \<noteq> cpa_domain st \<or> cs_domain s \<noteq> cpa_domain st
        then (st, - ABI_HANDLE_DOMAIN_MISMATCH)
        else if cs_retired s then (st, - ABI_SLOT_RETIRED)
        else if \<not> cs_live s then (st, - ABI_DOUBLE_RELEASE)
        else if tok_gen handle \<noteq> cs_generation s then (st, - ABI_HANDLE_GENERATION_MISMATCH)
        else (st\<lparr>cpa_slots := (cpa_slots st)[idx := s\<lparr>cs_live := False, cs_obj := NULL,
                  cs_generation := (if (ucast (cs_generation s) + 1 :: u32) \<le> 0xffff
                                    then cs_generation s + 1 else 0xffff)\<rparr>]\<rparr>, ABI_OK))"

definition AbiCpaRetireAst :: "cpa_state \<Rightarrow> u64 \<Rightarrow> cpa_state" where
  "AbiCpaRetireAst st handle = fst (AbiCpaReleaseInternal st handle)"

text \<open>The table as a state machine: any order of issues and retirements, with any tokens.\<close>

inductive abi_step :: "cpa_state \<Rightarrow> cpa_state \<Rightarrow> bool" where
  issue: "abi_step st (fst (AbiCpaIssueAst st ast))"
| retire: "abi_step st (AbiCpaRetireAst st handle)"

inductive_cases abi_stepE: "abi_step st st'"

section \<open>Token fields\<close>

lemma byte_masks: "(0xff :: u64) = mask 8" "(0xffff :: u64) = mask 16"
  by (simp_all add: mask_eq_exp_minus_1)

lemma no_high_bit: "bit (w :: 'a::len word) n \<Longrightarrow> n < LENGTH('a)"
  by (rule bit_imp_le_length)

lemma encode_bit:
  "bit (AbiCpaEncode idx kind gen d) n \<longleftrightarrow> n < 64 \<and>
     (48 \<le> n \<and> bit ABI_CPA_RESERVED (n - 48) \<or> 40 \<le> n \<and> bit (idx + 1) (n - 40) \<or>
      32 \<le> n \<and> bit kind (n - 32) \<or> 16 \<le> n \<and> bit gen (n - 16) \<or> 8 \<le> n \<and> bit d (n - 8) \<or>
      bit ABI_CPA_MAGIC n)"
  unfolding AbiCpaEncode_def by (auto simp: bit_simps dest: no_high_bit)

lemma tok_gen_encode: "tok_gen (AbiCpaEncode idx kind gen d) = gen"
proof (rule bit_word_eqI)
  fix n assume "n < LENGTH(16)"
  then show "bit (tok_gen (AbiCpaEncode idx kind gen d)) n = bit gen n"
    unfolding tok_gen_def byte_masks
    by (auto simp: bit_simps encode_bit dest: no_high_bit)
qed

lemma tok_kind_encode: "tok_kind (AbiCpaEncode idx kind gen d) = kind"
proof (rule bit_word_eqI)
  fix n assume "n < LENGTH(8)"
  then show "bit (tok_kind (AbiCpaEncode idx kind gen d)) n = bit kind n"
    unfolding tok_kind_def byte_masks
    by (auto simp: bit_simps encode_bit dest: no_high_bit)
qed

lemma tok_domain_encode: "tok_domain (AbiCpaEncode idx kind gen d) = d"
proof (rule bit_word_eqI)
  fix n assume "n < LENGTH(8)"
  then show "bit (tok_domain (AbiCpaEncode idx kind gen d)) n = bit d n"
    unfolding tok_domain_def byte_masks
    by (auto simp: bit_simps encode_bit dest: no_high_bit)
qed

lemma tok_magic_encode: "tok_magic (AbiCpaEncode idx kind gen d) = ABI_CPA_MAGIC"
proof (rule bit_word_eqI)
  fix n assume "n < LENGTH(8)"
  then show "bit (tok_magic (AbiCpaEncode idx kind gen d)) n = bit ABI_CPA_MAGIC n"
    unfolding tok_magic_def byte_masks
    by (auto simp: bit_simps encode_bit dest: no_high_bit)
qed

lemma unat_idx: "i < 64 \<Longrightarrow> unat (of_nat i + 1 :: u32) = i + 1"
proof -
  assume "i < 64"
  then have "unat (of_nat (Suc i) :: u32) = Suc i" by (simp only: unat_of_nat) simp
  moreover have "(of_nat i + 1 :: u32) = of_nat (Suc i)" by simp
  ultimately show ?thesis by (metis Suc_eq_plus1)
qed

lemma bit_small: "unat (w :: 'a::len word) < 2 ^ k \<Longrightarrow> bit w n \<Longrightarrow> n < k"
proof (rule ccontr)
  assume w: "unat w < 2 ^ k" "bit w n" "\<not> n < k"
  then have "unat w < 2 ^ n" by (meson leI less_le_trans one_le_numeral power_increasing)
  then have "unat w div 2 ^ n = 0" by simp
  moreover have "odd (unat w div 2 ^ n)"
    using w(2) by (simp add: bit_unsigned_iff flip: bit_iff_odd)
  ultimately show False by simp
qed

lemma tok_reserved_encode:
  assumes "i < 64"
  shows "tok_reserved (AbiCpaEncode (of_nat i) kind gen d) = ABI_CPA_RESERVED"
proof (rule bit_word_eqI)
  fix n assume "n < LENGTH(16)"
  moreover have "bit (of_nat i + 1 :: u32) m \<Longrightarrow> m < 8" for m
    using bit_small [of "of_nat i + 1 :: u32" 8 m] unat_idx [OF assms] assms by simp
  ultimately show "bit (tok_reserved (AbiCpaEncode (of_nat i) kind gen d)) n = bit ABI_CPA_RESERVED n"
    unfolding tok_reserved_def byte_masks
    by (auto simp: bit_simps encode_bit dest: no_high_bit)
qed

lemma tok_idx1_encode:
  assumes "i < 64"
  shows "tok_idx1 (AbiCpaEncode (of_nat i) kind gen d) = i + 1"
proof -
  let ?w = "of_nat i + 1 :: u32"
  have small: "bit ?w m \<Longrightarrow> m < 8" for m
    using bit_small [of ?w 8 m] unat_idx [OF assms] assms by simp
  have "drop_bit 40 (AbiCpaEncode (of_nat i) kind gen d) AND mask 8 = (ucast ?w :: u64)"
  proof (rule bit_word_eqI)
    fix n assume "n < LENGTH(64)"
    then show "bit (drop_bit 40 (AbiCpaEncode (of_nat i) kind gen d) AND mask 8) n = bit (ucast ?w :: u64) n"
      using small [of n] by (auto simp: bit_simps encode_bit dest: no_high_bit)
  qed
  then show ?thesis
    unfolding tok_idx1_def byte_masks using unat_idx [OF assms] assms
    by (simp add: unsigned_ucast_eq take_bit_nat_eq_self)
qed

lemmas encode_fields = tok_gen_encode tok_kind_encode tok_domain_encode tok_magic_encode

lemma generation_cmp:
  "(ucast (g :: u16) + 1 :: u32) > 0xffff \<longleftrightarrow> unat g + 1 > 0xffff"
  "(ucast (g :: u16) + 1 :: u32) \<le> 0xffff \<longleftrightarrow> unat g + 1 \<le> 0xffff"
proof -
  have "unat g < 2 ^ LENGTH(16)" by (rule unsigned_less)
  then have "unat (ucast g + 1 :: u32) = unat g + 1"
    by (simp add: unat_word_ariths unsigned_ucast_eq take_bit_nat_eq_self)
  then show "(ucast g + 1 :: u32) > 0xffff \<longleftrightarrow> unat g + 1 > 0xffff"
    "(ucast g + 1 :: u32) \<le> 0xffff \<longleftrightarrow> unat g + 1 \<le> 0xffff"
    by (simp_all add: word_less_nat_alt word_le_nat_alt)
qed

section \<open>Invariant\<close>

text \<open>Every slot that has ever been used has the current domain and the AST kind.\<close>

definition cpa_inv :: "cpa_state \<Rightarrow> bool" where
  "cpa_inv st \<longleftrightarrow> length (cpa_slots st) = ABI_CPA_MAX_SLOTS \<and>
     (\<forall>s \<in> set (cpa_slots st). cs_live s \<longrightarrow> \<not> cs_retired s \<and> cs_domain s = cpa_domain st \<and>
        cs_kind s = ABI_CPA_KIND_AST \<and> cs_epoch s = cpa_ast_epoch st \<and> cs_obj s \<noteq> NULL)"

lemma cpa_inv_init: "cpa_inv cpa_init"
  by (simp add: cpa_inv_def cpa_init_def)

lemma find_free_spec:
  "cpa_find_free ss k - k < length ss \<Longrightarrow> k \<le> cpa_find_free ss k \<and>
   \<not> cs_live (ss ! (cpa_find_free ss k - k)) \<and> \<not> cs_retired (ss ! (cpa_find_free ss k - k))"
proof (induction ss arbitrary: k)
  case (Cons s ss)
  show ?case
  proof (cases "cs_live s \<or> cs_retired s")
    case True
    have ge: "Suc k \<le> cpa_find_free ss (Suc k)"
      by (induction ss "Suc k" arbitrary: k rule: cpa_find_free.induct) auto
    then have "cpa_find_free ss (Suc k) - k = Suc (cpa_find_free ss (Suc k) - Suc k)" by simp
    with Cons True show ?thesis by auto
  qed simp
qed simp

lemma find_free_slot:
  assumes "cpa_find_free ss 0 < length ss"
  shows "\<not> cs_live (ss ! cpa_find_free ss 0)" "\<not> cs_retired (ss ! cpa_find_free ss 0)"
  using find_free_spec [of ss 0] assms by simp_all

lemma find_free_none: "k + length ss \<le> cpa_find_free ss k \<Longrightarrow> \<forall>s \<in> set ss. cs_live s \<or> cs_retired s"
  by (induction ss k rule: cpa_find_free.induct) (auto split: if_splits)

lemma cpa_inv_update:
  assumes "cpa_inv st" "cs_live s \<Longrightarrow> \<not> cs_retired s \<and> cs_domain s = cpa_domain st \<and>
    cs_kind s = ABI_CPA_KIND_AST \<and> cs_epoch s = cpa_ast_epoch st \<and> cs_obj s \<noteq> NULL"
  shows "cpa_inv (st\<lparr>cpa_slots := (cpa_slots st)[i := s]\<rparr>)"
  using assms set_update_subset_insert [of "cpa_slots st" i s] unfolding cpa_inv_def by auto

lemma issue_cases [consumes 1, case_names fail retired ok]:
  assumes "cpa_inv st"
  obtains (fail) rc where "AbiCpaIssueAst st ast = (st, - rc)" "ast = NULL \<and> rc = ABI_NULL_HANDLE \<or>
      ast \<noteq> NULL \<and> rc = ABI_OUT_OF_MEMORY \<and> (\<forall>s \<in> set (cpa_slots st). cs_live s \<or> cs_retired s)"
  | (retired) i where "i < 64" "\<not> cs_live (cpa_slots st ! i)" "cs_generation (cpa_slots st ! i) = 0xffff"
      "AbiCpaIssueAst st ast = (st\<lparr>cpa_slots := (cpa_slots st)[i := (cpa_slots st ! i)
         \<lparr>cs_retired := True, cs_live := False, cs_obj := NULL\<rparr>]\<rparr>, - ABI_SLOT_RETIRED)"
      "ast \<noteq> NULL" "\<not> cs_retired (cpa_slots st ! i)"
  | (ok) i where "i < 64" "ast \<noteq> NULL" "\<not> cs_live (cpa_slots st ! i)" "\<not> cs_retired (cpa_slots st ! i)"
      "unat (cs_generation (cpa_slots st ! i)) < 0xffff"
      "AbiCpaIssueAst st ast = (st\<lparr>cpa_slots := (cpa_slots st)[i := (cpa_slots st ! i)
         \<lparr>cs_kind := ABI_CPA_KIND_AST, cs_domain := cpa_domain st,
          cs_generation := cs_generation (cpa_slots st ! i) + 1, cs_obj := ast,
          cs_epoch := cpa_ast_epoch st, cs_live := True\<rparr>]\<rparr>,
        AbiCpaEncode (of_nat i) ABI_CPA_KIND_AST (cs_generation (cpa_slots st ! i) + 1) (cpa_domain st))"
proof -
  let ?i = "cpa_find_free (cpa_slots st) 0"
  have len: "length (cpa_slots st) = 64" using assms by (simp add: cpa_inv_def ABI_CPA_MAX_SLOTS_def)
  consider "ast = NULL" | "ast \<noteq> NULL" "?i \<ge> 64" | "ast \<noteq> NULL" "?i < 64"
      "unat (cs_generation (cpa_slots st ! ?i)) + 1 > 0xffff"
    | "ast \<noteq> NULL" "?i < 64" "\<not> unat (cs_generation (cpa_slots st ! ?i)) + 1 > 0xffff"
    by linarith
  then show thesis
  proof cases
    case 2
    then show thesis
      using find_free_none [of 0 "cpa_slots st"] len
      by (intro fail [of ABI_OUT_OF_MEMORY]) (simp_all add: AbiCpaIssueAst_def ABI_CPA_MAX_SLOTS_def)
  next
    case 3
    have "unat (cs_generation (cpa_slots st ! ?i)) < 2 ^ LENGTH(16)" by (rule unsigned_less)
    then have "unat (cs_generation (cpa_slots st ! ?i)) = unat (0xffff :: u16)" using 3(3) by simp
    then have "cs_generation (cpa_slots st ! ?i) = 0xffff" by (rule word_unat_eq_iff [THEN iffD2])
    then show thesis
      using 3 find_free_slot [of "cpa_slots st"] len
      by (intro retired [of ?i]) (simp_all add: AbiCpaIssueAst_def ABI_CPA_MAX_SLOTS_def generation_cmp Let_def)
  next
    case 4
    then show thesis
      using find_free_slot [of "cpa_slots st"] len
      by (intro ok [of ?i]) (simp_all add: AbiCpaIssueAst_def ABI_CPA_MAX_SLOTS_def generation_cmp Let_def)
  qed (auto intro: fail simp: AbiCpaIssueAst_def ABI_CPA_MAX_SLOTS_def)
qed

lemma release_cases [consumes 1, case_names fail ok]:
  assumes "cpa_inv st"
  obtains (fail) rc where "AbiCpaReleaseInternal st h = (st, rc)" "rc \<noteq> ABI_OK"
  | (ok) i where "i < 64" "tok_idx1 h = i + 1" "cs_live (cpa_slots st ! i)"
      "tok_gen h = cs_generation (cpa_slots st ! i)"
      "AbiCpaReleaseInternal st h = (st\<lparr>cpa_slots := (cpa_slots st)[i := (cpa_slots st ! i)
         \<lparr>cs_live := False, cs_obj := NULL,
          cs_generation := (if unat (cs_generation (cpa_slots st ! i)) + 1 \<le> 0xffff
            then cs_generation (cpa_slots st ! i) + 1 else 0xffff)\<rparr>]\<rparr>, ABI_OK)"
proof (cases "snd (AbiCpaReleaseInternal st h) = ABI_OK")
  case True
  then have "tok_idx1 h \<noteq> 0" "tok_idx1 h \<le> 64" "cs_live (cpa_slots st ! (tok_idx1 h - 1))"
    "tok_gen h = cs_generation (cpa_slots st ! (tok_idx1 h - 1))"
    by (auto simp: AbiCpaReleaseInternal_def abi_codes ABI_CPA_MAX_SLOTS_def Let_def split: if_splits)
  with True show thesis
    by (intro ok [of "tok_idx1 h - 1"])
      (auto simp: AbiCpaReleaseInternal_def abi_codes ABI_CPA_MAX_SLOTS_def generation_cmp Let_def
        split: if_splits)
next
  case False
  then show thesis
    by (intro fail [of "snd (AbiCpaReleaseInternal st h)"])
      (auto simp: AbiCpaReleaseInternal_def Let_def split: if_splits)
qed

lemma cpa_inv_step:
  assumes "cpa_inv st" "abi_step st st'"
  shows "cpa_inv st' \<and> cpa_domain st' = cpa_domain st \<and> cpa_ast_epoch st' = cpa_ast_epoch st"
  using assms(2)
proof cases
  case (issue ast)
  show ?thesis
    using assms(1)
    by (cases rule: issue_cases [where ast = ast]) (use issue assms(1) in \<open>auto intro!: cpa_inv_update\<close>)
next
  case (retire handle)
  show ?thesis
    using assms(1)
    by (cases rule: release_cases [where h = handle])
      (use retire assms(1) in \<open>auto simp: AbiCpaRetireAst_def intro!: cpa_inv_update\<close>)
qed

text \<open>
  A token is dead when its slot can never again be live under the token's generation: the slot is
  retired, has moved on to a later generation, or was released at the last generation.
\<close>

definition token_dead :: "cpa_state \<Rightarrow> u64 \<Rightarrow> bool" where
  "token_dead st t \<longleftrightarrow>
     (let s = cpa_slots st ! (tok_idx1 t - 1) in
      cs_retired s \<or> unat (tok_gen t) < unat (cs_generation s) \<or>
      \<not> cs_live s \<and> cs_generation s = 0xffff)"

lemma token_dead_lookup: "cpa_inv st \<Longrightarrow> token_dead st t \<Longrightarrow> \<exists>rc. AbiCpaLookup st t k = Inl rc"
  by (auto simp: AbiCpaLookup_def token_dead_def Let_def)

lemma generation_succ: "unat (g :: u16) < 0xffff \<Longrightarrow> unat (g + 1) = unat g + 1"
  by (simp add: unat_word_ariths)

lemma token_dead_step:
  assumes "cpa_inv st" "abi_step st st'" "token_dead st t"
  shows "token_dead st' t"
  using assms(2)
proof cases
  case (issue ast)
  show ?thesis
    using assms(1)
  proof (cases rule: issue_cases [where ast = ast])
    case (ok i)
    then show ?thesis
      using issue assms(1,3) generation_succ [OF ok(5)]
      by (cases "i = tok_idx1 t - 1")
        (auto simp: token_dead_def Let_def cpa_inv_def ABI_CPA_MAX_SLOTS_def)
  next
    case (retired i)
    then show ?thesis
      using issue assms(1,3)
      by (cases "i = tok_idx1 t - 1")
        (auto simp: token_dead_def Let_def cpa_inv_def ABI_CPA_MAX_SLOTS_def)
  qed (use issue assms(3) in simp)
next
  case (retire handle)
  show ?thesis
    using assms(1)
  proof (cases rule: release_cases [where h = handle])
    case (ok i)
    have "unat (cs_generation (cpa_slots st ! i)) \<le> unat (if unat (cs_generation (cpa_slots st ! i)) + 1 \<le> 0xffff
        then cs_generation (cpa_slots st ! i) + 1 else 0xffff)"
    proof (cases "unat (cs_generation (cpa_slots st ! i)) < 0xffff")
      case True
      then show ?thesis using generation_succ [OF True] by simp
    next
      case False
      have "unat (cs_generation (cpa_slots st ! i)) < 2 ^ LENGTH(16)" by (rule unsigned_less)
      then show ?thesis using False by simp
    qed
    then show ?thesis
      using ok retire assms(1,3)
      by (cases "i = tok_idx1 t - 1")
        (auto simp: AbiCpaRetireAst_def token_dead_def Let_def cpa_inv_def ABI_CPA_MAX_SLOTS_def)
  qed (use retire assms(3) in \<open>simp add: AbiCpaRetireAst_def\<close>)
qed

section \<open>The interface of a handle table\<close>

text \<open>
  What the users of a table of handles rely on: no step brings a dead handle back, and a dead
  handle does not resolve.
\<close>

locale handle_table =
  fixes wf :: "'s \<Rightarrow> bool"
    and step :: "'s \<Rightarrow> 's \<Rightarrow> bool"
    and resolves :: "'s \<Rightarrow> 't \<Rightarrow> bool"
    and dead :: "'s \<Rightarrow> 't \<Rightarrow> bool"
  assumes wf_step: "wf s \<Longrightarrow> step s s' \<Longrightarrow> wf s'"
    and dead_step: "wf s \<Longrightarrow> step s s' \<Longrightarrow> dead s t \<Longrightarrow> dead s' t"
    and dead_unresolved: "wf s \<Longrightarrow> dead s t \<Longrightarrow> \<not> resolves s t"
begin

lemma dead_forever:
  assumes "rtranclp step s s'" "wf s" "dead s t"
  shows "wf s' \<and> dead s' t \<and> \<not> resolves s' t"
  using assms
proof (induction rule: rtranclp_induct)
  case base
  then show ?case by (simp add: dead_unresolved)
next
  case (step y z)
  then show ?case using wf_step dead_step dead_unresolved by blast
qed

end

definition token_resolves :: "cpa_state \<Rightarrow> u64 \<Rightarrow> bool" where
  "token_resolves st t \<longleftrightarrow> (\<exists>k i. AbiCpaLookup st t k = Inr i)"

interpretation cpa: handle_table cpa_inv abi_step token_resolves token_dead
proof
  show "cpa_inv s'" if "cpa_inv s" "abi_step s s'" for s s'
    using cpa_inv_step [OF that] by blast
  show "token_dead s' t" if "cpa_inv s" "abi_step s s'" "token_dead s t" for s s' t
    using token_dead_step that by blast
  show "\<not> token_resolves s t" if "cpa_inv s" "token_dead s t" for s t
    unfolding token_resolves_def using token_dead_lookup [OF that] by (metis sum.distinct(1))
qed

lemma release_kills:
  assumes "cpa_inv st" "AbiCpaReleaseInternal st t = (st', ABI_OK)"
  shows "cpa_inv st'" "token_dead st' t"
proof -
  have "abi_step st (AbiCpaRetireAst st t)" by (rule retire)
  then show "cpa_inv st'" using cpa_inv_step [OF assms(1)] assms(2) by (auto simp: AbiCpaRetireAst_def)
  show "token_dead st' t"
    using assms(1)
  proof (cases rule: release_cases [where h = t])
    case (ok i)
    then show ?thesis
    proof (cases "unat (cs_generation (cpa_slots st ! i)) < 0xffff")
      case True
      then show ?thesis
        using ok assms generation_succ [OF True]
        by (auto simp: token_dead_def Let_def cpa_inv_def ABI_CPA_MAX_SLOTS_def)
    next
      case False
      then show ?thesis
        using ok assms by (auto simp: token_dead_def Let_def cpa_inv_def ABI_CPA_MAX_SLOTS_def)
    qed
  qed (use assms(2) in auto)
qed

section \<open>Properties\<close>

text \<open>
  C17. A token that was released once is refused for ever: whatever issues and retirements follow,
  with whatever tokens, no lookup of it succeeds again and every further release of it fails, also
  when the 16-bit generation counter of its slot has reached its end.
\<close>

theorem released_token_never_resolves:
  assumes "cpa_inv st" "AbiCpaReleaseInternal st t = (st1, ABI_OK)" "rtranclp abi_step st1 st2"
  shows "(\<exists>rc. AbiCpaLookup st2 t k = Inl rc) \<and> snd (AbiCpaReleaseInternal st2 t) \<noteq> ABI_OK"
proof
  note k = release_kills [OF assms(1,2)]
  have d: "cpa_inv st2" "token_dead st2 t" using cpa.dead_forever [OF assms(3) k] by blast+
  then show "\<exists>rc. AbiCpaLookup st2 t k = Inl rc" by (rule token_dead_lookup)
  show "snd (AbiCpaReleaseInternal st2 t) \<noteq> ABI_OK"
    using d(1)
  proof (cases rule: release_cases [where h = t])
    case (ok i)
    have "cpa_slots st2 ! i \<in> set (cpa_slots st2)"
      using ok(1) d(1) by (simp add: cpa_inv_def ABI_CPA_MAX_SLOTS_def)
    then have "\<not> cs_retired (cpa_slots st2 ! i)" using ok(3) d(1) by (auto simp: cpa_inv_def)
    then show ?thesis using d(2) ok(2-4) by (simp add: token_dead_def Let_def)
  qed simp
qed

theorem released_token_never_resolves_witness:
  "\<exists>t st1. AbiCpaIssueAst cpa_init 4096 = (st1, t) \<and>
    (\<exists>rc. AbiCpaLookup (AbiCpaRetireAst st1 t) t 1 = Inl rc)"
proof -
  let ?st = "fst (AbiCpaIssueAst cpa_init 4096)" and ?t = "snd (AbiCpaIssueAst cpa_init 4096)"
  have inv: "cpa_inv ?st" using cpa_inv_step [OF cpa_inv_init issue] by blast
  have "snd (AbiCpaReleaseInternal ?st ?t) = ABI_OK" by code_simp
  then have "AbiCpaReleaseInternal ?st ?t = (AbiCpaRetireAst ?st ?t, ABI_OK)"
    by (simp add: AbiCpaRetireAst_def prod_eq_iff)
  from released_token_never_resolves [OF inv this rtranclp.rtrancl_refl, of 1]
  show ?thesis by (metis prod.collapse)
qed

text \<open>
  C34. \<^verbatim>\<open>AbiCpaIssueAst\<close> on a well-formed table. A null node is refused and the table left as it was. With every slot live or
  retired the status is \<^verbatim>\<open>ABI_OUT_OF_MEMORY\<close> and the table left as it was. When the free slot has used up its 16-bit generation,
  the slot is retired, nothing else changes and the status is \<^verbatim>\<open>ABI_SLOT_RETIRED\<close>; none of the three statuses is itself
  accepted as a token. Otherwise one slot that was neither live nor retired goes to the next generation and holds the node, nothing else
  changes, and \<^verbatim>\<open>AbiCpaAstKind\<close> resolves the token to exactly that node.
\<close>

theorem issued_token_resolves:
  assumes "cpa_inv st" "AbiCpaIssueAst st ast = (st', t)"
  shows "AbiCpaAstKind kind_of st' t = - ABI_HANDLE_NOT_ISSUED \<and>
      (ast = NULL \<and> t = - ABI_NULL_HANDLE \<and> st' = st \<or>
       ast \<noteq> NULL \<and> t = - ABI_OUT_OF_MEMORY \<and> st' = st \<and> (\<forall>s \<in> set (cpa_slots st). cs_live s \<or> cs_retired s) \<or>
       ast \<noteq> NULL \<and> t = - ABI_SLOT_RETIRED \<and> (\<exists>i < 64. \<not> cs_live (cpa_slots st ! i) \<and> \<not> cs_retired (cpa_slots st ! i) \<and>
         cs_generation (cpa_slots st ! i) = 0xffff \<and>
         st' = st\<lparr>cpa_slots := (cpa_slots st)[i := (cpa_slots st ! i)\<lparr>cs_retired := True, cs_live := False, cs_obj := NULL\<rparr>]\<rparr>)) \<or>
    ast \<noteq> NULL \<and> AbiCpaAstKind kind_of st' t = kind_of ast \<and>
      (\<exists>i < 64. \<exists>s. \<not> cs_live (cpa_slots st ! i) \<and> \<not> cs_retired (cpa_slots st ! i) \<and>
         unat (cs_generation s) = unat (cs_generation (cpa_slots st ! i)) + 1 \<and> cs_live s \<and> cs_obj s = ast \<and>
         AbiCpaLookup st' t ABI_CPA_KIND_AST = Inr i \<and> st' = st\<lparr>cpa_slots := (cpa_slots st)[i := s]\<rparr>)"
  using assms(1)
proof (cases rule: issue_cases [where ast = ast])
  case (fail rc)
  have "tok_magic (- ABI_NULL_HANDLE) \<noteq> ABI_CPA_MAGIC" "tok_magic (- ABI_OUT_OF_MEMORY) \<noteq> ABI_CPA_MAGIC"
    "- ABI_NULL_HANDLE \<noteq> 0" "- ABI_OUT_OF_MEMORY \<noteq> 0"
    by code_simp+
  then have "AbiCpaAstKind kind_of st' t = - ABI_HANDLE_NOT_ISSUED"
    using fail assms(2) by (auto simp: AbiCpaAstKind_def AbiCpaLookup_def)
  then show ?thesis using fail assms(2) by auto
next
  case (retired i)
  have "tok_magic (- ABI_SLOT_RETIRED) \<noteq> ABI_CPA_MAGIC" "- ABI_SLOT_RETIRED \<noteq> 0"
    by code_simp+
  then have "AbiCpaAstKind kind_of st' t = - ABI_HANDLE_NOT_ISSUED"
    using retired assms(2) by (auto simp: AbiCpaAstKind_def AbiCpaLookup_def)
  moreover have "\<exists>i < 64. \<not> cs_live (cpa_slots st ! i) \<and> \<not> cs_retired (cpa_slots st ! i) \<and>
      cs_generation (cpa_slots st ! i) = 0xffff \<and>
      st' = st\<lparr>cpa_slots := (cpa_slots st)[i := (cpa_slots st ! i)\<lparr>cs_retired := True, cs_live := False, cs_obj := NULL\<rparr>]\<rparr>"
    using retired assms(2) by (intro exI [of _ i]) simp
  ultimately show ?thesis using retired assms(2) by simp
next
  case (ok i)
  have "tok_magic 0 \<noteq> ABI_CPA_MAGIC" by code_simp
  then have "t \<noteq> 0" using ok assms(2) tok_magic_encode by (metis prod.inject)
  moreover have "ABI_CPA_KIND_AST \<noteq> 0" by (simp add: ABI_CPA_KIND_AST_def)
  moreover have "i < length (cpa_slots st)" using assms(1) ok(1) by (simp add: cpa_inv_def ABI_CPA_MAX_SLOTS_def)
  ultimately have l: "AbiCpaLookup st' t ABI_CPA_KIND_AST = Inr i" "cs_obj (cpa_slots st' ! i) = ast"
    using ok assms(2)
    by (auto simp: AbiCpaLookup_def encode_fields tok_reserved_encode tok_idx1_encode
        ABI_CPA_MAX_SLOTS_def Let_def)
  then have kind: "AbiCpaAstKind kind_of st' t = kind_of ast" by (simp add: AbiCpaAstKind_def)
  have "\<exists>s. unat (cs_generation s) = unat (cs_generation (cpa_slots st ! i)) + 1 \<and> cs_live s \<and> cs_obj s = ast \<and>
      st' = st\<lparr>cpa_slots := (cpa_slots st)[i := s]\<rparr>"
    using ok(6) assms(2) generation_succ [OF ok(5)]
    by (intro exI [of _ "(cpa_slots st ! i)\<lparr>cs_kind := ABI_CPA_KIND_AST, cs_domain := cpa_domain st,
      cs_generation := cs_generation (cpa_slots st ! i) + 1, cs_obj := ast,
      cs_epoch := cpa_ast_epoch st, cs_live := True\<rparr>"]) simp
  then show ?thesis using ok(1-4) l(1) kind by blast
qed

theorem issued_token_resolves_witness:
  "let (st', t) = AbiCpaIssueAst cpa_init 4096 in AbiCpaAstKind (\<lambda>p. p + 1) st' t = 4097"
proof -
  have "snd (AbiCpaIssueAst cpa_init 4096) \<noteq> - ABI_OUT_OF_MEMORY"
    "snd (AbiCpaIssueAst cpa_init 4096) \<noteq> - ABI_SLOT_RETIRED" by code_simp+
  moreover have "(4096 :: ptr) \<noteq> NULL" by simp
  moreover have "AbiCpaIssueAst cpa_init 4096 =
      (fst (AbiCpaIssueAst cpa_init 4096), snd (AbiCpaIssueAst cpa_init 4096))" by simp
  note issued_token_resolves [OF cpa_inv_init this, of "\<lambda>p. p + 1"]
  ultimately have "AbiCpaAstKind (\<lambda>p. p + 1) (fst (AbiCpaIssueAst cpa_init 4096))
      (snd (AbiCpaIssueAst cpa_init 4096)) = 4096 + 1" by blast
  then show ?thesis by (simp add: split_beta)
qed

text \<open>A run of issues and retirements, and the tokens whose retirement releases the slot of \<open>t\<close>.\<close>

datatype abi_op = Do_issue ptr | Do_retire u64

fun abi_do :: "abi_op \<Rightarrow> cpa_state \<Rightarrow> cpa_state" where
  "abi_do (Do_issue ast) st = fst (AbiCpaIssueAst st ast)"
| "abi_do (Do_retire h) st = AbiCpaRetireAst st h"

fun abi_run :: "abi_op list \<Rightarrow> cpa_state \<Rightarrow> cpa_state" where
  "abi_run [] st = st"
| "abi_run (a # as) st = abi_run as (abi_do a st)"

definition releases :: "u64 \<Rightarrow> abi_op \<Rightarrow> bool" where
  "releases t a \<longleftrightarrow>
     (case a of
        Do_issue ast \<Rightarrow> False
      | Do_retire h \<Rightarrow> tok_magic h = ABI_CPA_MAGIC \<and> tok_idx1 h = tok_idx1 t \<and> tok_domain h = tok_domain t \<and>
          tok_gen h = tok_gen t)"

lemma abi_do_step: "abi_step st (abi_do a st)"
  by (cases a) (simp_all add: issue retire)

lemma abi_run_steps: "rtranclp abi_step st (abi_run as st)"
  by (induction as arbitrary: st) (auto intro: converse_rtranclp_into_rtranclp abi_do_step)

lemma lookup_slot:
  assumes "AbiCpaLookup st t k = Inr i"
  shows "i = tok_idx1 t - 1" "tok_idx1 t \<noteq> 0" "i < 64" "cs_live (cpa_slots st ! i)"
    "tok_gen t = cs_generation (cpa_slots st ! i)" "tok_domain t = cpa_domain st"
    "cs_domain (cpa_slots st ! i) = cpa_domain st" "\<not> cs_retired (cpa_slots st ! i)"
  using assms by (auto simp: AbiCpaLookup_def ABI_CPA_MAX_SLOTS_def Let_def split: if_splits)

lemma live_token_step:
  assumes "cpa_inv st" "AbiCpaLookup st t k = Inr i" "\<not> releases t a"
  shows "AbiCpaLookup (abi_do a st) t k = Inr i \<and> cs_obj (cpa_slots (abi_do a st) ! i) = cs_obj (cpa_slots st ! i)"
proof -
  note t = lookup_slot [OF assms(2)]
  let ?st' = "abi_do a st"
  have "cpa_slots ?st' ! i = cpa_slots st ! i \<and> cpa_domain ?st' = cpa_domain st \<and> cpa_ast_epoch ?st' = cpa_ast_epoch st"
  proof (cases a)
    case (Do_issue ast)
    show ?thesis
      using assms(1)
    proof (cases rule: issue_cases [where ast = ast])
      case (retired j)
      then have "j \<noteq> i" using t by auto
      then show ?thesis using retired Do_issue by simp
    next
      case (ok j)
      then have "j \<noteq> i" using t by auto
      then show ?thesis using ok Do_issue by simp
    qed (use Do_issue in simp)
  next
    case (Do_retire h)
    show ?thesis
      using assms(1)
    proof (cases rule: release_cases [where h = h])
      case (ok j)
      have "tok_magic h = ABI_CPA_MAGIC" "tok_domain h = cpa_domain st"
        using ok(5) by (auto simp: AbiCpaReleaseInternal_def abi_codes Let_def split: if_splits)
      then have "j \<noteq> i" using ok t assms(3) Do_retire by (auto simp: releases_def)
      then show ?thesis using ok Do_retire by (simp add: AbiCpaRetireAst_def)
    qed (use Do_retire in \<open>simp add: AbiCpaRetireAst_def\<close>)
  qed
  moreover have "AbiCpaLookup ?st' t k = AbiCpaLookup st t k"
    using calculation t(1) by (simp add: AbiCpaLookup_def Let_def)
  ultimately show ?thesis using assms(2) by simp
qed

lemma releasing_step:
  assumes "cpa_inv st" "AbiCpaLookup st t k = Inr i" "releases t a"
  shows "cpa_inv (abi_do a st)" "token_dead (abi_do a st) t"
proof -
  note t = lookup_slot [OF assms(2)]
  obtain h where h: "a = Do_retire h" "tok_magic h = ABI_CPA_MAGIC" "tok_idx1 h = tok_idx1 t" "tok_domain h = tok_domain t"
    "tok_gen h = tok_gen t"
    using assms(3) by (auto simp: releases_def split: abi_op.splits)
  have "\<not> 64 < tok_idx1 t" using t(1,3) by simp
  moreover have "h \<noteq> 0" using h(2) by (auto simp: tok_magic_def ABI_CPA_MAGIC_def)
  ultimately have ok: "AbiCpaReleaseInternal st h = (AbiCpaRetireAst st h, ABI_OK)"
    using h t by (simp add: AbiCpaReleaseInternal_def AbiCpaRetireAst_def ABI_CPA_MAX_SLOTS_def Let_def)
  from release_kills [OF assms(1) ok] show "cpa_inv (abi_do a st)" "token_dead (abi_do a st) t"
    using h by (simp_all add: token_dead_def)
qed

text \<open>
  C26. A token that resolves, through any run of issues and retirements with any tokens: it keeps resolving to its slot and the
  slot to the same node as long as no retirement names a token that agrees with it in magic, slot number, domain and generation, the fields the
  release checks; the kind and the reserved bits may differ. After such a retirement it never resolves again.
\<close>

theorem live_token_stays_valid:
  assumes "cpa_inv st" "AbiCpaLookup st t k = Inr i"
  shows "if list_ex (releases t) as then \<exists>rc. AbiCpaLookup (abi_run as st) t k = Inl rc
    else AbiCpaLookup (abi_run as st) t k = Inr i \<and> cs_obj (cpa_slots (abi_run as st) ! i) = cs_obj (cpa_slots st ! i)"
  using assms
proof (induction as arbitrary: st)
  case (Cons a as)
  show ?case
  proof (cases "releases t a")
    case True
    note dead = releasing_step [OF Cons.prems True]
    have "cpa_inv (abi_run as (abi_do a st))" "token_dead (abi_run as (abi_do a st)) t"
      using cpa.dead_forever [OF abi_run_steps dead] by blast+
    then show ?thesis using True token_dead_lookup by simp
  next
    case False
    have "cpa_inv (abi_do a st)" using cpa_inv_step [OF Cons.prems(1) abi_do_step] by blast
    then show ?thesis using Cons.IH live_token_step [OF Cons.prems False] False by auto
  qed
qed simp

theorem live_token_stays_valid_witness:
  "\<exists>st t t'. AbiCpaIssueAst cpa_init 4096 = (st, t) \<and> snd (AbiCpaIssueAst st 8192) = t' \<and>
    AbiCpaLookup (abi_run [Do_issue 8192, Do_retire t', Do_issue 8192] st) t 1 = Inr 0 \<and>
    (\<exists>rc. AbiCpaLookup (abi_run [Do_issue 8192, Do_retire t, Do_issue 12288] st) t 1 = Inl rc)"
proof -
  let ?st = "fst (AbiCpaIssueAst cpa_init 4096)" and ?t = "snd (AbiCpaIssueAst cpa_init 4096)"
  let ?t' = "snd (AbiCpaIssueAst ?st 8192)"
  have inv: "cpa_inv ?st" using cpa_inv_step [OF cpa_inv_init issue] by blast
  have l: "AbiCpaLookup ?st ?t 1 = Inr 0" by code_simp
  have "\<not> list_ex (releases ?t) [Do_issue 8192, Do_retire ?t', Do_issue 8192]"
    "list_ex (releases ?t) [Do_issue 8192, Do_retire ?t, Do_issue 12288]" by code_simp+
  then have "AbiCpaLookup (abi_run [Do_issue 8192, Do_retire ?t', Do_issue 8192] ?st) ?t 1 = Inr 0"
    "\<exists>rc. AbiCpaLookup (abi_run [Do_issue 8192, Do_retire ?t, Do_issue 12288] ?st) ?t 1 = Inl rc"
    using live_token_stays_valid [OF inv l] by metis+
  then show ?thesis by (metis prod.collapse)
qed

end
