(* ===== verification/Arena.thy ===== *)
theory Arena
  imports Prelude
begin

text \<open>
  The bump allocator of \<^verbatim>\<open>src/src/arena.c\<close>. A block is one \<^verbatim>\<open>malloc\<close>ed object, named by a number;
  its \<^verbatim>\<open>mem\<close> pointer is that number and an offset, so an allocation is a range of bytes of a block
  and \<^verbatim>\<open>free\<close> is right exactly when it gets offset 0. Sizes are 32-bit words as in the source. The
  operations that may call \<^verbatim>\<open>malloc\<close> take the number of the fresh object as an argument.
\<close>

section \<open>Model\<close>

record arena_block =
  ab_capacity :: u32
  ab_used :: u32
  ab_base :: nat
  ab_off :: u32

record arena =
  ar_block_capacity :: u32
  ar_used :: u32
  ar_head :: arena_block
  ar_tail :: "arena_block list"

definition arenaBlockNew :: "nat \<Rightarrow> u32 \<Rightarrow> arena_block" where
  "arenaBlockNew fresh capacity =
     \<lparr>ab_capacity = capacity, ab_used = 0, ab_base = fresh, ab_off = 0\<rparr>"

text \<open>The address handed to \<^verbatim>\<open>free\<close>: the block and the offset \<^verbatim>\<open>mem - used\<close>.\<close>

definition arenaBlockRelease :: "arena_block \<Rightarrow> nat \<times> u32" where
  "arenaBlockRelease b = (ab_base b, ab_off b - ab_used b)"

definition arenaAlignMemorySize :: "u32 \<Rightarrow> u32" where
  "arenaAlignMemorySize sz = (sz + 7) AND NOT 7"

definition arenaInit :: "nat \<Rightarrow> u32 \<Rightarrow> arena result" where
  "arenaInit fresh capacity =
     (let cap = arenaAlignMemorySize capacity in
      if cap > 0
      then Inr \<lparr>ar_block_capacity = cap, ar_used = 0, ar_head = arenaBlockNew fresh cap, ar_tail = []\<rparr>
      else Inl AssertFail)"

definition arenaNew :: "nat \<Rightarrow> u32 \<Rightarrow> arena result" where
  "arenaNew fresh capacity = arenaInit fresh capacity"

definition arenaAlloc :: "nat \<Rightarrow> arena \<Rightarrow> u32 \<Rightarrow> arena \<times> nat \<times> u32" where
  "arenaAlloc fresh a sz =
     (let allocation_size = arenaAlignMemorySize sz;
          a = a\<lparr>ar_used := ar_used a + allocation_size\<rparr>
      in if allocation_size > ar_block_capacity a
         then let block = arenaBlockNew fresh allocation_size in
           (a\<lparr>ar_tail := block # ar_tail a\<rparr>, ab_base block, ab_off block)
         else
           let a = (if ab_used (ar_head a) + allocation_size \<ge> ab_capacity (ar_head a)
                    then a\<lparr>ar_tail := ar_head a # ar_tail a,
                           ar_head := arenaBlockNew fresh (ar_block_capacity a)\<rparr>
                    else a);
               block = ar_head a
           in (a\<lparr>ar_head := block\<lparr>ab_used := ab_used block + allocation_size,
                   ab_off := ab_off block + allocation_size\<rparr>\<rparr>, ab_base block, ab_off block))"

definition arenaClear :: "arena \<Rightarrow> (nat \<times> u32) list" where
  "arenaClear a = arenaBlockRelease (ar_head a) # map arenaBlockRelease (ar_tail a)"

definition arenaReset :: "arena \<Rightarrow> arena \<times> (nat \<times> u32) list" where
  "arenaReset a =
     (a\<lparr>ar_tail := [], ar_used := 0,
        ar_head := (ar_head a)\<lparr>ab_off := ab_off (ar_head a) - ab_used (ar_head a), ab_used := 0\<rparr>\<rparr>,
      map arenaBlockRelease (ar_tail a))"

text \<open>The counters \<^verbatim>\<open>arenaPrintStats\<close> prints.\<close>

record arena_stats =
  st_blocks :: u32
  st_capacity :: u32
  st_used :: u32
  st_big :: u32
  st_non_full :: u32
  st_diff :: u32

definition arena_stats_block :: "u32 \<Rightarrow> arena_stats \<Rightarrow> arena_block \<Rightarrow> arena_stats" where
  "arena_stats_block block_capacity s b =
     (let s = s\<lparr>st_capacity := st_capacity s + ab_capacity b\<rparr> in
      if ab_used b = 0 \<and> ab_capacity b > block_capacity
      then s\<lparr>st_big := st_big s + 1, st_used := st_used s + ab_capacity b\<rparr>
      else let s = s\<lparr>st_blocks := st_blocks s + 1, st_used := st_used s + ab_used b\<rparr> in
        if ab_used b < ab_capacity b
        then s\<lparr>st_diff := st_diff s + (ab_capacity b - ab_used b), st_non_full := st_non_full s + 1\<rparr>
        else s)"

definition arenaPrintStats :: "arena \<Rightarrow> arena_stats \<times> u32" where
  "arenaPrintStats a =
     (let s = foldl (arena_stats_block (ar_block_capacity a))
                \<lparr>st_blocks = 1, st_capacity = ab_capacity (ar_head a), st_used = ab_used (ar_head a),
                 st_big = 0, st_non_full = 0, st_diff = 0\<rparr> (ar_tail a)
      in (s, if st_diff s = 0 \<or> st_non_full s = 0 then 0 else st_diff s div st_non_full s))"

section \<open>Alignment\<close>

lemma align_mask: "x AND NOT (7 :: u32) = push_bit 3 (drop_bit 3 x)"
proof -
  have seven: "(7 :: u32) = mask 3" by (simp add: mask_eq_exp_minus_1)
  show ?thesis
    unfolding seven by (rule bit_word_eqI) (auto simp: bit_simps)
qed

lemma unat_align:
  "unat (arenaAlignMemorySize sz) = (unat (sz + 7) div 8) * 8"
proof -
  have "unat (sz + 7) < 2 ^ LENGTH(32)" by (rule unsigned_less)
  then have "unat (sz + 7) div 8 * 8 < 2 ^ 32" by simp
  then show ?thesis
    unfolding arenaAlignMemorySize_def align_mask
    by (simp only: unsigned_push_bit_eq unsigned_drop_bit_eq)
      (simp add: take_bit_nat_eq_self push_bit_eq_mult drop_bit_eq_div)
qed

text \<open>Without wrap-around the aligned size is the least multiple of 8 that is enough.\<close>

lemma align_spec:
  assumes "unat sz \<le> 2 ^ 32 - 8"
  shows "unat sz \<le> unat (arenaAlignMemorySize sz)"
    "unat (arenaAlignMemorySize sz) < unat sz + 8" "8 dvd unat (arenaAlignMemorySize sz)"
proof -
  have "unat (sz + 7) = unat sz + 7"
    using assms by (simp add: unat_word_ariths)
  then show "unat sz \<le> unat (arenaAlignMemorySize sz)"
    "unat (arenaAlignMemorySize sz) < unat sz + 8" "8 dvd unat (arenaAlignMemorySize sz)"
    by (simp_all add: unat_align)
qed

section \<open>Invariant\<close>

text \<open>
  Every block has its \<^verbatim>\<open>mem\<close> pointer at the used offset, blocks are different objects, and the
  head is a standard block that is not over-full.
\<close>

definition arena_blocks :: "arena \<Rightarrow> arena_block list" where
  "arena_blocks a = ar_head a # ar_tail a"

definition arena_inv :: "arena \<Rightarrow> bool" where
  "arena_inv a \<longleftrightarrow> distinct (map ab_base (arena_blocks a)) \<and>
     (\<forall>b \<in> set (arena_blocks a). ab_off b = ab_used b \<and> ab_used b \<le> ab_capacity b \<and>
       8 dvd unat (ab_used b)) \<and>
     ab_capacity (ar_head a) = ar_block_capacity a \<and> unat (ar_block_capacity a) < 2 ^ 31 \<and>
     8 dvd unat (ar_block_capacity a) \<and> 0 < ar_block_capacity a"

text \<open>A live allocation: a range of a block below its used mark, or a whole big block.\<close>

definition alloc_in :: "arena \<Rightarrow> nat \<times> u32 \<Rightarrow> nat \<Rightarrow> bool" where
  "alloc_in a p n \<longleftrightarrow> (\<exists>b \<in> set (arena_blocks a). ab_base b = fst p \<and>
     unat (snd p) + n \<le> unat (ab_capacity b) \<and>
     (unat (snd p) + n \<le> unat (ab_used b) \<or> ab_used b = 0 \<and> ab_capacity b > ar_block_capacity a))"

definition ranges_disjoint :: "nat \<times> u32 \<Rightarrow> nat \<Rightarrow> nat \<times> u32 \<Rightarrow> nat \<Rightarrow> bool" where
  "ranges_disjoint p n q m \<longleftrightarrow> fst p \<noteq> fst q \<or> unat (snd p) + n \<le> unat (snd q) \<or>
     unat (snd q) + m \<le> unat (snd p)"

lemma align_le_capacity:
  assumes "8 dvd unat c" "unat sz \<le> unat c" "unat sz \<le> 2 ^ 32 - 8"
  shows "unat (arenaAlignMemorySize sz) \<le> unat c"
proof -
  obtain k where k: "unat c = 8 * k" using assms(1) by (auto elim: dvdE)
  obtain j where j: "unat (arenaAlignMemorySize sz) = 8 * j"
    using align_spec(3) [OF assms(3)] by (auto elim: dvdE)
  have "8 * j < 8 * k + 8" using align_spec(2) [OF assms(3)] assms(2) k j by linarith
  then show ?thesis using k j by simp
qed

lemma alloc_in_head:
  assumes "arena_inv a" "alloc_in a q m"
  shows "fst q = ab_base (ar_head a) \<Longrightarrow> unat (snd q) + m \<le> unat (ab_used (ar_head a))"
    and "fst q \<in> ab_base ` set (arena_blocks a)"
proof -
  obtain b where b: "b \<in> set (arena_blocks a)" "ab_base b = fst q"
    "unat (snd q) + m \<le> unat (ab_used b) \<or> ab_used b = 0 \<and> ab_capacity b > ar_block_capacity a"
    using assms(2) by (auto simp: alloc_in_def)
  then show "fst q \<in> ab_base ` set (arena_blocks a)" by force
  assume q: "fst q = ab_base (ar_head a)"
  have "b = ar_head a"
    using b(1,2) q assms(1) by (auto simp: arena_inv_def arena_blocks_def image_iff)
  then show "unat (snd q) + m \<le> unat (ab_used (ar_head a))"
    using b(3) assms(1) by (auto simp: arena_inv_def)
qed

lemma arena_bump:
  assumes inv: "arena_inv a" and fits: "unat (ab_used (ar_head a)) + unat n \<le> unat (ab_capacity (ar_head a))"
    and n: "8 dvd unat n"
    and a': "a' = a\<lparr>ar_used := u, ar_head := (ar_head a)\<lparr>ab_used := ab_used (ar_head a) + n,
      ab_off := ab_off (ar_head a) + n\<rparr>\<rparr>"
  shows "arena_inv a'" "alloc_in a' (ab_base (ar_head a), ab_off (ar_head a)) (unat n)"
    "8 dvd unat (ab_off (ar_head a))"
    "alloc_in a q m \<Longrightarrow> alloc_in a' q m \<and>
       ranges_disjoint (ab_base (ar_head a), ab_off (ar_head a)) (unat n) q m"
proof -
  let ?h = "ar_head a"
  have h: "ab_off ?h = ab_used ?h" "8 dvd unat (ab_used ?h)" "ab_capacity ?h = ar_block_capacity a"
    using inv by (auto simp: arena_inv_def arena_blocks_def)
  have "unat (ab_capacity ?h) < 2 ^ LENGTH(32)" by (rule unsigned_less)
  then have u: "unat (ab_used ?h + n) = unat (ab_used ?h) + unat n"
    using fits by (simp add: unat_word_ariths)
  show "arena_inv a'"
    using inv u fits n h unfolding arena_inv_def a' arena_blocks_def
    by (auto simp: word_le_nat_alt)
  show "alloc_in a' (ab_base ?h, ab_off ?h) (unat n)"
    using u fits h by (auto simp: alloc_in_def a' arena_blocks_def)
  show "8 dvd unat (ab_off ?h)" using h by simp
  assume q: "alloc_in a q m"
  have "alloc_in a' q m"
    using q u h(3) unfolding alloc_in_def a' arena_blocks_def by auto
  moreover have "ranges_disjoint (ab_base ?h, ab_off ?h) (unat n) q m"
    using alloc_in_head(1) [OF inv q] h(1) by (auto simp: ranges_disjoint_def)
  ultimately show "alloc_in a' q m \<and> ranges_disjoint (ab_base ?h, ab_off ?h) (unat n) q m" by simp
qed

lemma arena_new_head:
  assumes inv: "arena_inv a" and fresh: "\<forall>b \<in> set (arena_blocks a). ab_base b < fresh"
    and a': "a' = a\<lparr>ar_used := u, ar_tail := ar_head a # ar_tail a,
      ar_head := arenaBlockNew fresh (ar_block_capacity a)\<rparr>"
  shows "arena_inv a'" "alloc_in a q m \<Longrightarrow> alloc_in a' q m"
  using assms
  by (auto simp: arena_inv_def arena_blocks_def a' arenaBlockNew_def alloc_in_def image_iff)

lemma arenaAlloc_core:
  assumes inv: "arena_inv a" and fresh: "\<forall>b \<in> set (arena_blocks a). ab_base b < fresh"
    and sz: "unat sz \<le> 2 ^ 32 - 8"
  shows "\<exists>a' p. arenaAlloc fresh a sz = (a', p) \<and> arena_inv a' \<and> alloc_in a' p (unat sz) \<and>
    8 dvd unat (snd p) \<and>
    (\<forall>q m. alloc_in a q m \<longrightarrow> alloc_in a' q m \<and> ranges_disjoint p (unat sz) q m)"
proof -
  let ?n = "arenaAlignMemorySize sz"
  note al = align_spec [OF sz]
  have weaken: "alloc_in b p (unat sz)" if "alloc_in b p (unat ?n)" for b p
    using that al(1) unfolding alloc_in_def by fastforce
  have weaken': "ranges_disjoint p (unat sz) q m" if "ranges_disjoint p (unat ?n) q m" for p q m
    using that al(1) by (auto simp: ranges_disjoint_def)
  consider (big) "?n > ar_block_capacity a"
    | (new) "?n \<le> ar_block_capacity a" "ab_used (ar_head a) + ?n \<ge> ab_capacity (ar_head a)"
    | (bump) "?n \<le> ar_block_capacity a" "\<not> ab_used (ar_head a) + ?n \<ge> ab_capacity (ar_head a)"
    by (meson leI)
  then show ?thesis
  proof cases
    case big
    let ?a = "a\<lparr>ar_used := ar_used a + ?n, ar_tail := arenaBlockNew fresh ?n # ar_tail a\<rparr>"
    have "arenaAlloc fresh a sz = (?a, fresh, 0)"
      using big by (simp add: arenaAlloc_def arenaBlockNew_def Let_def)
    moreover have "arena_inv ?a"
      using inv fresh by (auto simp: arena_inv_def arena_blocks_def arenaBlockNew_def image_iff)
    moreover have "alloc_in ?a (fresh, 0) (unat ?n)"
      using big by (auto simp: alloc_in_def arena_blocks_def arenaBlockNew_def)
    moreover have "alloc_in ?a q m \<and> ranges_disjoint (fresh, 0) (unat ?n) q m" if "alloc_in a q m" for q m
    proof
      show "alloc_in ?a q m" using that by (auto simp: alloc_in_def arena_blocks_def)
      show "ranges_disjoint (fresh, 0) (unat ?n) q m"
        using alloc_in_head(2) [OF inv that] fresh by (auto simp: ranges_disjoint_def)
    qed
    ultimately show ?thesis
      using weaken weaken' by (intro exI [of _ ?a] exI [of _ "(fresh, 0)"]) simp
  next
    case new
    define a1 where "a1 = a\<lparr>ar_used := ar_used a + ?n, ar_tail := ar_head a # ar_tail a,
      ar_head := arenaBlockNew fresh (ar_block_capacity a)\<rparr>"
    note N = arena_new_head [OF inv fresh a1_def]
    define a2 where "a2 = a1\<lparr>ar_used := ar_used a1, ar_head := (ar_head a1)\<lparr>ab_used := ab_used (ar_head a1) + ?n,
      ab_off := ab_off (ar_head a1) + ?n\<rparr>\<rparr>"
    have fits: "unat (ab_used (ar_head a1)) + unat ?n \<le> unat (ab_capacity (ar_head a1))"
      using new(1) by (simp add: a1_def arenaBlockNew_def word_le_nat_alt)
    have "arenaAlloc fresh a sz = (a2, ab_base (ar_head a1), ab_off (ar_head a1))"
      using new by (auto simp: arenaAlloc_def a2_def a1_def Let_def)
    then show ?thesis
      using arena_bump [OF N(1) fits al(3) a2_def] N(2) weaken weaken' by auto
  next
    case bump
    define a2 where "a2 = a\<lparr>ar_used := ar_used a + ?n, ar_head := (ar_head a)\<lparr>ab_used := ab_used (ar_head a) + ?n,
      ab_off := ab_off (ar_head a) + ?n\<rparr>\<rparr>"
    have "ab_used (ar_head a) \<le> ar_block_capacity a" "ab_capacity (ar_head a) = ar_block_capacity a"
      "unat (ar_block_capacity a) < 2 ^ 31"
      using inv by (auto simp: arena_inv_def arena_blocks_def)
    then have fits: "unat (ab_used (ar_head a)) + unat ?n \<le> unat (ab_capacity (ar_head a))"
      using bump by (auto simp: word_le_nat_alt unat_word_ariths split: if_splits)
    have "arenaAlloc fresh a sz = (a2, ab_base (ar_head a), ab_off (ar_head a))"
      using bump by (auto simp: arenaAlloc_def a2_def Let_def)
    then show ?thesis
      using arena_bump [OF inv fits al(3) a2_def] weaken weaken' by auto
  qed
qed

lemma arenaAlloc_bases:
  assumes "\<forall>b \<in> set (arena_blocks a). ab_base b < fresh"
  shows "\<forall>b \<in> set (arena_blocks (fst (arenaAlloc fresh a sz))). ab_base b < Suc fresh"
  using assms by (auto simp: arenaAlloc_def Let_def arena_blocks_def arenaBlockNew_def less_Suc_eq)

lemma arenaAlloc_rep:
  assumes inv: "arena_inv a" and fresh: "\<forall>b \<in> set (arena_blocks a). ab_base b < fresh"
    and sz: "unat sz \<le> 2 ^ 32 - 8"
  shows "\<exists>a' p. arenaAlloc fresh a sz = (a', p) \<and> arena_inv a' \<and> alloc_in a' p (unat sz) \<and>
    8 dvd unat (snd p) \<and> (\<forall>b \<in> set (arena_blocks a'). ab_base b < Suc fresh) \<and>
    (\<forall>q m. alloc_in a q m \<longrightarrow> alloc_in a' q m \<and> ranges_disjoint p (unat sz) q m)"
  using arenaAlloc_core [OF assms] arenaAlloc_bases [OF fresh, of sz] by auto

section \<open>The interface of an allocator\<close>

text \<open>
  What the clients of an allocator rely on: an allocation lies inside memory the allocator owns
  and overlaps no earlier one, and earlier ones stay.
\<close>

fun alloc_seq ::
  "(nat \<Rightarrow> 's \<Rightarrow> 'z \<Rightarrow> 's \<times> 'p) \<Rightarrow> ('z \<Rightarrow> nat) \<Rightarrow> nat \<Rightarrow> 's \<Rightarrow> 'z list \<Rightarrow> 's \<times> ('p \<times> nat) list"
where
  "alloc_seq alloc amount k s [] = (s, [])"
| "alloc_seq alloc amount k s (z # zs) =
     (let (s', p) = alloc k s z; (s'', ps) = alloc_seq alloc amount (Suc k) s' zs
      in (s'', (p, amount z) # ps))"

locale allocator =
  fixes alloc :: "nat \<Rightarrow> 's \<Rightarrow> 'z \<Rightarrow> 's \<times> 'p"
    and wf :: "'s \<Rightarrow> nat \<Rightarrow> bool"
    and owns :: "'s \<Rightarrow> 'p \<Rightarrow> nat \<Rightarrow> bool"
    and apart :: "'p \<Rightarrow> nat \<Rightarrow> 'p \<Rightarrow> nat \<Rightarrow> bool"
    and amount :: "'z \<Rightarrow> nat"
    and ok :: "'z \<Rightarrow> bool"
  assumes alloc_ok: "wf s k \<Longrightarrow> ok z \<Longrightarrow> \<exists>s' p. alloc k s z = (s', p) \<and> wf s' (Suc k) \<and>
      owns s' p (amount z) \<and> (\<forall>q m. owns s q m \<longrightarrow> owns s' q m \<and> apart p (amount z) q m)"
begin

lemma alloc_seq_apart:
  assumes "wf s k" "\<forall>z \<in> set zs. ok z"
  shows "\<exists>s' ps. alloc_seq alloc amount k s zs = (s', ps) \<and> wf s' (k + length zs) \<and>
    map snd ps = map amount zs \<and>
    (\<forall>q m. owns s q m \<longrightarrow> owns s' q m \<and> (\<forall>(p, n) \<in> set ps. apart p n q m)) \<and>
    (\<forall>(p, n) \<in> set ps. owns s' p n) \<and>
    (\<forall>i j. i < j \<longrightarrow> j < length ps \<longrightarrow> apart (fst (ps ! j)) (snd (ps ! j)) (fst (ps ! i)) (snd (ps ! i)))"
  using assms
proof (induction zs arbitrary: s k)
  case (Cons z zs)
  obtain s1 p where s1: "alloc k s z = (s1, p)" "wf s1 (Suc k)" "owns s1 p (amount z)"
    "\<forall>q m. owns s q m \<longrightarrow> owns s1 q m \<and> apart p (amount z) q m"
    using alloc_ok [OF Cons.prems(1), of z] Cons.prems(2) by auto
  obtain s' ps where r: "alloc_seq alloc amount (Suc k) s1 zs = (s', ps)" "wf s' (Suc k + length zs)"
    "map snd ps = map amount zs"
    "\<forall>q m. owns s1 q m \<longrightarrow> owns s' q m \<and> (\<forall>(p, n) \<in> set ps. apart p n q m)"
    "\<forall>(p, n) \<in> set ps. owns s' p n"
    "\<forall>i j. i < j \<longrightarrow> j < length ps \<longrightarrow> apart (fst (ps ! j)) (snd (ps ! j)) (fst (ps ! i)) (snd (ps ! i))"
    using Cons.IH [OF s1(2)] Cons.prems(2) by auto
  let ?ps = "(p, amount z) # ps"
  have "apart (fst (?ps ! j)) (snd (?ps ! j)) (fst (?ps ! i)) (snd (?ps ! i))"
    if "i < j" "j < Suc (length ps)" for i j
  proof (cases i)
    case 0
    have "ps ! (j - 1) \<in> set ps" using that 0 by simp
    then show ?thesis using r(4) s1(3) 0 that by (cases j) (auto simp: split_beta)
  next
    case (Suc i')
    then show ?thesis using r(6) that by (cases j) auto
  qed
  moreover have "\<forall>q m. owns s q m \<longrightarrow> owns s' q m \<and> (\<forall>(p, n) \<in> set ?ps. apart p n q m)"
    using s1(4) r(4) by auto
  moreover have "\<forall>(p, n) \<in> set ?ps. owns s' p n" using s1(3) r(4,5) by auto
  ultimately show ?case using s1(1) r(1,2,3) by simp
qed simp

end

definition arena_wf :: "arena \<Rightarrow> nat \<Rightarrow> bool" where
  "arena_wf a k \<longleftrightarrow> arena_inv a \<and> (\<forall>b \<in> set (arena_blocks a). ab_base b < k)"

interpretation arena_mem: allocator arenaAlloc arena_wf alloc_in ranges_disjoint unat
  "\<lambda>sz. unat sz \<le> 2 ^ 32 - 8"
proof
  show "\<exists>s' p. arenaAlloc k s z = (s', p) \<and> arena_wf s' (Suc k) \<and> alloc_in s' p (unat z) \<and>
      (\<forall>q m. alloc_in s q m \<longrightarrow> alloc_in s' q m \<and> ranges_disjoint p (unat z) q m)"
    if "arena_wf s k" "unat z \<le> 2 ^ 32 - 8" for s k z
    using arenaAlloc_rep [of s k z] that unfolding arena_wf_def by blast
qed

section \<open>Properties\<close>

text \<open>
  C22. \<^verbatim>\<open>arenaAlloc\<close> on a well-formed arena, for every size up to \<open>2 ^ 32 - 8\<close>: the memory it returns is
  8-byte aligned, as large as asked for and inside a block of the arena, it overlaps no memory
  handed out before, all of which stays inside the arena, and the arena stays well-formed.
\<close>

theorem arenaAlloc_fresh_memory:
  assumes "arena_inv a" "\<forall>b \<in> set (arena_blocks a). ab_base b < fresh" "unat sz \<le> 2 ^ 32 - 8"
  shows "\<exists>a' p. arenaAlloc fresh a sz = (a', p) \<and> arena_inv a' \<and> alloc_in a' p (unat sz) \<and>
    8 dvd unat (snd p) \<and> (\<forall>b \<in> set (arena_blocks a'). ab_base b < Suc fresh) \<and>
    (\<forall>q m. alloc_in a q m \<longrightarrow> alloc_in a' q m \<and> ranges_disjoint p (unat sz) q m)"
  using assms by (rule arenaAlloc_rep)

lemma arenaInit_inv:
  assumes "0 < unat cap" "unat cap \<le> 2 ^ 31 - 8"
  shows "\<exists>a. arenaInit fresh cap = Inr a \<and> arena_inv a \<and> (\<forall>b \<in> set (arena_blocks a). ab_base b = fresh)"
proof -
  have small: "unat cap \<le> 2 ^ 32 - 8" using assms(2) by simp
  note al = align_spec [OF small]
  have "unat (arenaAlignMemorySize cap) \<le> unat (2 ^ 31 - 8 :: u32)"
    using assms by (intro align_le_capacity) simp_all
  then show ?thesis
    using al assms(1)
    by (auto simp: arenaInit_def arena_inv_def arena_blocks_def arenaBlockNew_def Let_def
        word_less_nat_alt word_le_nat_alt)
qed

theorem arenaAlloc_fresh_memory_witness:
  "\<exists>a a' p. arenaInit 0 64 = Inr a \<and> arenaAlloc 1 a 13 = (a', p) \<and> alloc_in a' p 13"
proof -
  obtain a where a: "arenaInit 0 64 = Inr a" "arena_inv a" "\<forall>b \<in> set (arena_blocks a). ab_base b = 0"
    using arenaInit_inv [of 64 0] by auto
  then show ?thesis using arenaAlloc_fresh_memory [OF a(2), of 1 13] by auto
qed

text \<open>
  A run of allocations from an arena hands out pairwise disjoint memory: no later allocation
  overlaps an earlier one, however blocks are exhausted on the way.
\<close>

theorem arena_run_disjoint:
  assumes "arena_wf a k" "\<forall>sz \<in> set szs. unat sz \<le> 2 ^ 32 - 8"
  shows "\<exists>a' ps. alloc_seq arenaAlloc unat k a szs = (a', ps) \<and> arena_wf a' (k + length szs) \<and>
    map snd ps = map unat szs \<and> (\<forall>(p, n) \<in> set ps. alloc_in a' p n) \<and>
    (\<forall>i j. i < j \<longrightarrow> j < length ps \<longrightarrow>
       ranges_disjoint (fst (ps ! j)) (snd (ps ! j)) (fst (ps ! i)) (snd (ps ! i)))"
  using arena_mem.alloc_seq_apart [OF assms] by blast

theorem arena_run_disjoint_witness:
  "\<exists>a a' ps. arenaInit 0 64 = Inr a \<and> alloc_seq arenaAlloc unat 1 a [13, 60] = (a', ps) \<and>
    map snd ps = [13, 60] \<and> (\<forall>(p, n) \<in> set ps. alloc_in a' p n)"
proof -
  obtain a where a: "arenaInit 0 64 = Inr a" "arena_inv a" "\<forall>b \<in> set (arena_blocks a). ab_base b = 0"
    using arenaInit_inv [of 64 0] by auto
  then have "arena_wf a 1" by (simp add: arena_wf_def)
  from arena_run_disjoint [OF this, of "[13, 60]"] a(1) show ?thesis by auto
qed

text \<open>
  Rewinding and releasing free only addresses that \<^verbatim>\<open>malloc\<close> returned: on a well-formed arena
  every block is freed at offset 0, no block twice, and after \<^verbatim>\<open>arenaReset\<close> the arena is well-formed,
  empty, and owns its head block only.
\<close>

theorem arena_frees_start_addresses:
  assumes "arena_inv a"
  shows "(\<forall>p \<in> set (arenaClear a). snd p = 0) \<and> distinct (map fst (arenaClear a)) \<and>
    (\<forall>p \<in> set (snd (arenaReset a)). snd p = 0) \<and> arena_inv (fst (arenaReset a)) \<and>
    ar_used (fst (arenaReset a)) = 0 \<and> ab_used (ar_head (fst (arenaReset a))) = 0 \<and>
    arena_blocks (fst (arenaReset a)) = [(ar_head a)\<lparr>ab_off := 0, ab_used := 0\<rparr>]"
  using assms
  by (auto simp: arena_inv_def arena_blocks_def arenaClear_def arenaReset_def arenaBlockRelease_def
      comp_def)

theorem arena_frees_start_addresses_witness:
  "\<exists>a. arenaInit 0 64 = Inr a \<and> arenaClear a = [(0, 0)] \<and> (\<forall>p \<in> set (arenaClear a). snd p = 0)"
proof -
  obtain a where a: "arenaInit 0 64 = Inr a" "arena_inv a"
    using arenaInit_inv [of 64 0] by auto
  moreover have "arenaClear a = [(0, 0)]"
    using a(1) by (auto simp: arenaInit_def Let_def arenaClear_def arenaBlockNew_def
        arenaBlockRelease_def split: if_splits)
  ultimately show ?thesis using arena_frees_start_addresses [OF a(2)] by blast
qed

text \<open>
  Beyond the bounds of the theorems: the aligned size of a request near \<open>2 ^ 32\<close> wraps to 0, and in
  an arena whose blocks have more than \<open>2 ^ 31\<close> bytes the fullness test wraps.
\<close>

lemma arenaAlign_wraps: "arenaAlignMemorySize 0xFFFFFFF9 = 0"
  by (simp add: arenaAlignMemorySize_def)

end
