(* ===== verification/IrTypes.thy ===== *)
theory IrTypes
  imports Prelude "HOL-Library.Signed_Division"
begin

text \<open>
  The data of the intermediate representation, from \<^verbatim>\<open>src/src/ir-types.h\<close>, and the small
  predicates over it of \<^verbatim>\<open>src/src/ir-types.c\<close>. The enumerations keep the source's constants.
  A \<^verbatim>\<open>IrValue\<close> is a tree: the union \<^verbatim>\<open>as\<close> is the datatype \<open>ir_as\<close> with one constructor per
  member. Only \<^verbatim>\<open>irVarId\<close> reads another member than the one stored; it sees the low 32 bits of the
  first word, so a string is kept with its address. The
  location, pinned register and parameter class of a value, which only the register allocator
  and the back ends read, are left out. A block is referred to by its number.
\<close>

section \<open>Enumerations\<close>

datatype ir_op =
    IR_NOP | IR_ALLOCA | IR_LOAD | IR_STORE | IR_LOAD_DEREF | IR_STORE_DEREF | IR_RMW_DEREF
  | IR_LEA | IR_GEP
  | IR_IADD | IR_ISUB | IR_IMUL | IR_IDIV | IR_UDIV | IR_IREM | IR_UREM | IR_INEG
  | IR_FADD | IR_FSUB | IR_FMUL | IR_FDIV | IR_FNEG
  | IR_AND | IR_OR | IR_XOR | IR_SHL | IR_SHR | IR_SAR | IR_NOT
  | IR_ICMP | IR_FCMP
  | IR_TRUNC | IR_ZEXT | IR_SEXT | IR_FPTRUNC | IR_FPEXT | IR_FPTOUI | IR_FPTOSI | IR_UITOFP
  | IR_SITOFP | IR_PTRTOINT | IR_INTTOPTR | IR_BITCAST
  | IR_RET | IR_BR | IR_CMP_BR | IR_JMP | IR_SWITCH | IR_CALL | IR_PHI | IR_LABEL
  | IR_SELECT | IR_VA_ARG | IR_VA_START | IR_VA_END | IR_ASM

datatype ir_value_type =
    IR_TYPE_VOID | IR_TYPE_I8 | IR_TYPE_I16 | IR_TYPE_I32 | IR_TYPE_I64 | IR_TYPE_F32
  | IR_TYPE_F64 | IR_TYPE_PTR | IR_TYPE_ARRAY | IR_TYPE_ARRAY_INIT | IR_TYPE_STRUCT
  | IR_TYPE_FUNCTION | IR_TYPE_ASM_FUNCTION | IR_TYPE_LABEL

datatype ir_value_kind =
    IR_VAL_CONST_INT | IR_VAL_CONST_FLOAT | IR_VAL_CONST_STR | IR_VAL_GLOBAL | IR_VAL_PARAM
  | IR_VAL_LOCAL | IR_VAL_TMP | IR_VAL_PHI | IR_VAL_LABEL | IR_VAL_UNDEFINED
  | IR_VAL_UNRESOLVED

datatype ir_cmp_kind =
    IR_CMP_INVALID | IR_CMP_EQ | IR_CMP_NE | IR_CMP_LT | IR_CMP_LE | IR_CMP_GT | IR_CMP_GE
  | IR_CMP_ULT | IR_CMP_ULE | IR_CMP_UGT | IR_CMP_UGE | IR_CMP_OEQ | IR_CMP_ONE | IR_CMP_OLT
  | IR_CMP_OLE | IR_CMP_OGT | IR_CMP_OGE | IR_CMP_UNO | IR_CMP_ORD

section \<open>Values and instructions\<close>

text \<open>
  \<open>As_f64\<close> holds the bits of the double, \<open>As_phi\<close> the address of the instruction. An \<^verbatim>\<open>AoStr *\<close> is its
  address and what it points to. In \<open>IrValue\<close> the
  fourth field is the address of the \<^verbatim>\<open>AstType\<close> of a by-value struct argument.
\<close>

type_synonym aostr = "ptr \<times> string"

datatype ir_value =
    IrValue (val_type: ir_value_type) (val_kind: ir_value_kind) (val_flags: u64)
      (val_byval_struct_type: ptr) (val_as: ir_as)
and ir_as =
    As_name aostr
  | As_i64 u64
  | As_f64 u64
  | As_var u32 u16
  | As_phi ptr
  | As_str aostr aostr int
  | As_global aostr "ir_value option"
  | As_array "aostr option" int int "ir_value option list option"

type_synonym block_id = u32

datatype ir_extra =
    Ex_none
  | Ex_blocks block_id "block_id option"
  | Ex_cmp_kind ir_cmp_kind
  | Ex_cmp_br ir_cmp_kind block_id block_id
  | Ex_rmw_op ir_op
  | Ex_unresolved_label string
  | Ex_cases "(u64 \<times> block_id) list"
  | Ex_phi_pairs "(ir_value option \<times> block_id) list option"
  | Ex_asm_fragments "string list option"

record ir_instr =
  i_op :: ir_op
  i_dst :: "ir_value option"
  i_r1 :: "ir_value option"
  i_r2 :: "ir_value option"
  i_flags :: u64
  i_disp :: u32
  i_idx :: "ir_value option"
  i_scale :: u8
  i_line :: int
  i_extra :: ir_extra

record ir_block =
  bb_id :: block_id
  bb_removed :: bool
  bb_sealed :: bool
  bb_instructions :: "ir_instr list"

section \<open>Constructors and predicates\<close>

definition irValueNew :: "ir_value_type \<Rightarrow> ir_value_kind \<Rightarrow> ir_value" where
  "irValueNew type kind = IrValue type kind 0 NULL (As_i64 0)"

definition irConstInt :: "ir_value_type \<Rightarrow> u64 \<Rightarrow> ir_value" where
  "irConstInt type num =
     (case irValueNew type IR_VAL_CONST_INT of
        IrValue ty k fl bs _ \<Rightarrow> IrValue ty k fl bs (As_i64 num))"

text \<open>\<^verbatim>\<open>irTmp\<close> with the counter \<^verbatim>\<open>ir_tmp_var_id\<close> passed and returned.\<close>

definition irTmp :: "u32 \<Rightarrow> ir_value_type \<Rightarrow> u16 \<Rightarrow> u32 \<times> ir_value" where
  "irTmp counter type sz =
     (case irValueNew type IR_VAL_TMP of
        IrValue ty k fl bs _ \<Rightarrow> (counter + 1, IrValue ty k fl bs (As_var counter sz)))"

definition irInstrNew ::
  "int \<Rightarrow> ir_op \<Rightarrow> ir_value option \<Rightarrow> ir_value option \<Rightarrow> ir_value option \<Rightarrow> ir_instr" where
  "irInstrNew line_hint op dst r1 r2 =
     \<lparr>i_op = op, i_dst = dst, i_r1 = r1, i_r2 = r2, i_flags = 0, i_disp = 0, i_idx = None,
      i_scale = 0, i_line = line_hint, i_extra = Ex_none\<rparr>"

definition irOpIsCmp :: "ir_op \<Rightarrow> bool" where
  "irOpIsCmp opcode \<longleftrightarrow> opcode = IR_ICMP \<or> opcode = IR_FCMP"

definition irIsFloat :: "ir_value_type \<Rightarrow> bool" where
  "irIsFloat type \<longleftrightarrow> type = IR_TYPE_F64 \<or> type = IR_TYPE_F32"

definition irIsInt :: "ir_value_type \<Rightarrow> bool" where
  "irIsInt type \<longleftrightarrow>
     type = IR_TYPE_I8 \<or> type = IR_TYPE_I16 \<or> type = IR_TYPE_I32 \<or> type = IR_TYPE_I64"

definition irIsConstInt :: "ir_value option \<Rightarrow> bool" where
  "irIsConstInt val \<longleftrightarrow> (case val of None \<Rightarrow> False | Some v \<Rightarrow> val_kind v = IR_VAL_CONST_INT)"

definition irIsTmp :: "ir_value option \<Rightarrow> bool" where
  "irIsTmp val \<longleftrightarrow> (case val of None \<Rightarrow> False | Some v \<Rightarrow> val_kind v = IR_VAL_TMP)"

text \<open>
  \<^verbatim>\<open>irVarId\<close> reads \<^verbatim>\<open>as.var.id\<close>, whatever member the union holds: on the little-endian targets that is the low half
  of the first word, of a constant as well as of an address. Most callers ask for temporaries only;
  \<^verbatim>\<open>irSlotReadCount\<close> and \<^verbatim>\<open>irSlotHasAddressTaken\<close> ask for any operand.
\<close>

definition irVarId :: "ir_value option \<Rightarrow> u32" where
  "irVarId val =
     (case val of
        None \<Rightarrow> 0
      | Some v \<Rightarrow>
          (case val_as v of
             As_var i sz \<Rightarrow> i | As_i64 k \<Rightarrow> ucast k | As_f64 b \<Rightarrow> ucast b | As_phi p \<Rightarrow> ucast p
           | As_name s \<Rightarrow> ucast (fst s) | As_str label s n \<Rightarrow> ucast (fst label) | As_global s x \<Rightarrow> ucast (fst s)
           | As_array label n m xs \<Rightarrow> (case label of None \<Rightarrow> 0 | Some s \<Rightarrow> ucast (fst s))))"

definition irDstVarId :: "ir_instr \<Rightarrow> u32" where
  "irDstVarId instr = irVarId (i_dst instr)"

text \<open>
  \<^verbatim>\<open>return opcode = IR_STORE;\<close> assigns: the result is the number of the constant, which is not 0
  (\<^verbatim>\<open>IR_LOAD\<close> is 2 and \<^verbatim>\<open>IR_STORE\<close> is 3), whatever the argument.
\<close>

definition irIsStore :: "ir_op \<Rightarrow> u8" where
  "irIsStore opcode = 3"

definition irIsLoad :: "ir_op \<Rightarrow> u8" where
  "irIsLoad opcode = 2"

definition irTypeIsScalar :: "ir_value_type \<Rightarrow> bool" where
  "irTypeIsScalar t \<longleftrightarrow> irIsFloat t \<or> irIsInt t"

definition irGetIntSize :: "ir_value_type \<Rightarrow> nat result" where
  "irGetIntSize t =
     (case t of IR_TYPE_I8 \<Rightarrow> Inr 1 | IR_TYPE_I16 \<Rightarrow> Inr 2 | IR_TYPE_I32 \<Rightarrow> Inr 4
      | IR_TYPE_I64 \<Rightarrow> Inr 8 | _ \<Rightarrow> Inl AssertFail)"

definition irIsConst :: "ir_value_kind \<Rightarrow> bool" where
  "irIsConst k \<longleftrightarrow> k = IR_VAL_CONST_INT \<or> k = IR_VAL_CONST_FLOAT"

definition irAreCompatibleCmpTypes :: "ir_value_type \<Rightarrow> ir_value_type \<Rightarrow> bool" where
  "irAreCompatibleCmpTypes t1 t2 \<longleftrightarrow>
     t1 = t2 \<or> irIsInt t1 \<and> irIsInt t2 \<or> irIsFloat t1 \<and> irIsFloat t2 \<or>
     t1 = IR_TYPE_PTR \<and> irIsInt t2 \<or> t2 = IR_TYPE_PTR \<and> irIsInt t1"

definition irValueIsVariable :: "ir_value \<Rightarrow> bool" where
  "irValueIsVariable v \<longleftrightarrow>
     val_kind v = IR_VAL_LOCAL \<or> val_kind v = IR_VAL_PARAM \<or> val_kind v = IR_VAL_TMP \<or>
     val_kind v = IR_VAL_GLOBAL"

definition irValueByteSize :: "ir_value option \<Rightarrow> u32" where
  "irValueByteSize val =
     (case val of None \<Rightarrow> 8
      | Some v \<Rightarrow>
         (let sized = (if val_kind v \<in> {IR_VAL_TMP, IR_VAL_LOCAL, IR_VAL_PARAM}
                       then (case val_as v of As_var i sz \<Rightarrow> if sz > 0 then Some (ucast sz) else None
                             | _ \<Rightarrow> None)
                       else None) in
          case sized of Some sz \<Rightarrow> sz
          | None \<Rightarrow> (case val_type v of IR_TYPE_I8 \<Rightarrow> 1 | IR_TYPE_I16 \<Rightarrow> 2 | IR_TYPE_I32 \<Rightarrow> 4
                     | IR_TYPE_F32 \<Rightarrow> 4 | _ \<Rightarrow> 8)))"

definition irInstrGetTargetBlock :: "ir_instr \<Rightarrow> block_id option" where
  "irInstrGetTargetBlock instr =
     (if i_op instr = IR_CMP_BR
      then (case i_extra instr of Ex_cmp_br k t f \<Rightarrow> Some t | _ \<Rightarrow> None)
      else (case i_extra instr of Ex_blocks t f \<Rightarrow> Some t | _ \<Rightarrow> None))"

definition irInstrGetFallthroughBlock :: "ir_instr \<Rightarrow> block_id option" where
  "irInstrGetFallthroughBlock instr =
     (if i_op instr = IR_CMP_BR
      then (case i_extra instr of Ex_cmp_br k t f \<Rightarrow> Some f | _ \<Rightarrow> None)
      else (case i_extra instr of Ex_blocks t f \<Rightarrow> f | _ \<Rightarrow> None))"

definition irBlockLastInstr :: "ir_block \<Rightarrow> ir_instr option" where
  "irBlockLastInstr block =
     (if bb_instructions block = [] then None else Some (last (bb_instructions block)))"

definition irBlockFirstInstr :: "ir_block \<Rightarrow> ir_instr option" where
  "irBlockFirstInstr block =
     (case bb_instructions block of [] \<Rightarrow> None | i # _ \<Rightarrow> Some i)"

definition irLastInstructionIsJumpLike :: "ir_block \<Rightarrow> bool" where
  "irLastInstructionIsJumpLike block \<longleftrightarrow>
     (case irBlockLastInstr block of None \<Rightarrow> False
      | Some i \<Rightarrow> i_op i = IR_JMP \<or> i_op i = IR_BR)"

section \<open>Facts\<close>

lemma irConstInt_simps [simp]:
  "val_kind (irConstInt t c) = IR_VAL_CONST_INT" "val_as (irConstInt t c) = As_i64 c"
  "val_type (irConstInt t c) = t" "val_byval_struct_type (irConstInt t c) = NULL"
  by (simp_all add: irConstInt_def irValueNew_def)

lemma irIsTmp_simps [simp]:
  "\<not> irIsTmp None" "irIsTmp (Some v) \<longleftrightarrow> val_kind v = IR_VAL_TMP"
  by (simp_all add: irIsTmp_def)

lemma irIsConstInt_simps [simp]:
  "\<not> irIsConstInt None" "irIsConstInt (Some v) \<longleftrightarrow> val_kind v = IR_VAL_CONST_INT"
  by (simp_all add: irIsConstInt_def)

lemma irIsConstIntE:
  assumes "irIsConstInt v" obtains w where "v = Some w" "val_kind w = IR_VAL_CONST_INT"
  using assms by (cases v) auto

lemma irIsTmpE:
  assumes "irIsTmp v" obtains w where "v = Some w" "val_kind w = IR_VAL_TMP"
  using assms by (cases v) auto

text \<open>The compatibility of compared types is symmetric and reflexive, but not transitive.\<close>

lemma compatible_cmp_types:
  "irAreCompatibleCmpTypes t t"
  "irAreCompatibleCmpTypes t1 t2 = irAreCompatibleCmpTypes t2 t1"
  "irGetIntSize t = Inr n \<Longrightarrow> irAreCompatibleCmpTypes t IR_TYPE_PTR"
  by (auto simp: irAreCompatibleCmpTypes_def irGetIntSize_def irIsInt_def
      split: ir_value_type.splits)

end
