(* ===== verification/IrEval.thy ===== *)
theory IrEval
  imports IrTypes HashMap_Iter
begin

text \<open>
  Compile-time evaluation of the intermediate representation, \<^verbatim>\<open>src/src/ir-eval.c\<close>. The resolver is
  the hash map of \<^verbatim>\<open>containers.c\<close> from temporaries to the values they are replaced by, and
  the pass threads it through the instructions in program order, rewriting each instruction in
  place. \<open>irEvalInstr\<close> is the body of the loop of \<^verbatim>\<open>irEvalBlock\<close>; its result says whether
  \<^verbatim>\<open>changed\<close> is incremented.
\<close>

section \<open>Model\<close>

definition map_u32_to_ir_value_type :: map_type where
  "map_u32_to_ir_value_type = \<lparr>mt_match = mapIntKeyMatch, mt_hash = mapIntKeyHash,
     mt_get_key_len = mapIntKeyLen, mt_key_release = False, mt_value_release = False,
     mt_key_is_cstring = False, mt_heap = (\<lambda>_. [])\<rparr>"

type_synonym resolver = "ir_value hmap"

definition irVarValueMapNew :: resolver where
  "irVarValueMapNew = mapNew 16"

text \<open>\<^verbatim>\<open>mapGetInt\<close> and \<^verbatim>\<open>mapAddIntOrErr\<close>: the number is cast to a pointer.\<close>

definition mapGetInt :: "resolver \<Rightarrow> u32 \<Rightarrow> (resolver \<times> ir_value option) result" where
  "mapGetInt m key =
     rbind (mapGet map_u32_to_ir_value_type [m] (ucast key)) (\<lambda>(ms, v).
     case ms of [m'] \<Rightarrow> Inr (m', v) | _ \<Rightarrow> Inl AssertFail)"

definition mapAddIntOrErr :: "resolver \<Rightarrow> u32 \<Rightarrow> ir_value \<Rightarrow> resolver result" where
  "mapAddIntOrErr m key v =
     rbind (mapAddOrErr True map_u32_to_ir_value_type m (ucast key) (Some v)) (\<lambda>(m', ok). Inr m')"

definition irResolveTmp ::
  "resolver \<Rightarrow> ir_value option \<Rightarrow> (resolver \<times> ir_value option) result" where
  "irResolveTmp resolver v =
     (if v = None then Inr (resolver, None)
      else if \<not> irIsTmp v then Inr (resolver, v)
      else rbind (mapGetInt resolver (irVarId v)) (\<lambda>(resolver, resolved).
           case resolved of None \<Rightarrow> Inr (resolver, v) | Some r \<Rightarrow> Inr (resolver, Some r)))"

definition INT64_MIN :: u64 where
  "INT64_MIN = 0x8000000000000000"

text \<open>C's \<^verbatim>\<open>/\<close> and \<^verbatim>\<open>%\<close> on \<^verbatim>\<open>s64\<close>: the quotient is rounded towards zero.\<close>

definition s64_div :: "u64 \<Rightarrow> u64 \<Rightarrow> u64" where
  "s64_div a b = word_of_int (sint a sdiv sint b)"

definition s64_mod :: "u64 \<Rightarrow> u64 \<Rightarrow> u64" where
  "s64_mod a b = word_of_int (sint a smod sint b)"

definition irEvalBinop :: "ir_op \<Rightarrow> u64 \<Rightarrow> u64 \<Rightarrow> u64 option" where
  "irEvalBinop op a b =
     (case op of
        IR_IADD \<Rightarrow> Some (a + b)
      | IR_ISUB \<Rightarrow> Some (a - b)
      | IR_IMUL \<Rightarrow> Some (a * b)
      | IR_AND \<Rightarrow> Some (a AND b)
      | IR_OR \<Rightarrow> Some (a OR b)
      | IR_XOR \<Rightarrow> Some (a XOR b)
      | IR_IDIV \<Rightarrow> if b = 0 then None else if a = INT64_MIN \<and> b = - 1 then None else Some (s64_div a b)
      | IR_UDIV \<Rightarrow> if b = 0 then None else Some (a div b)
      | IR_IREM \<Rightarrow> if b = 0 then None else if a = INT64_MIN \<and> b = - 1 then None else Some (s64_mod a b)
      | IR_UREM \<Rightarrow> if b = 0 then None else Some (a mod b)
      | IR_SHL \<Rightarrow> if b <s 0 \<or> 64 \<le>s b then None else Some (push_bit (unat b) a)
      | IR_SHR \<Rightarrow> if b <s 0 \<or> 64 \<le>s b then None else Some (drop_bit (unat b) a)
      | IR_SAR \<Rightarrow> if b <s 0 \<or> 64 \<le>s b then None else Some (signed_drop_bit (unat b) a)
      | _ \<Rightarrow> None)"

definition irEvalCmp :: "ir_cmp_kind \<Rightarrow> u64 \<Rightarrow> u64 \<Rightarrow> u64 option" where
  "irEvalCmp kind a b =
     (case kind of
        IR_CMP_EQ \<Rightarrow> Some (if a = b then 1 else 0)
      | IR_CMP_NE \<Rightarrow> Some (if a \<noteq> b then 1 else 0)
      | IR_CMP_LT \<Rightarrow> Some (if a <s b then 1 else 0)
      | IR_CMP_LE \<Rightarrow> Some (if a \<le>s b then 1 else 0)
      | IR_CMP_GT \<Rightarrow> Some (if b <s a then 1 else 0)
      | IR_CMP_GE \<Rightarrow> Some (if b \<le>s a then 1 else 0)
      | IR_CMP_ULT \<Rightarrow> Some (if a < b then 1 else 0)
      | IR_CMP_ULE \<Rightarrow> Some (if a \<le> b then 1 else 0)
      | IR_CMP_UGT \<Rightarrow> Some (if b < a then 1 else 0)
      | IR_CMP_UGE \<Rightarrow> Some (if b \<le> a then 1 else 0)
      | _ \<Rightarrow> None)"

text \<open>
  \<^verbatim>\<open>c == I->r2\<close> and \<^verbatim>\<open>c == I->r1\<close> compare pointers. \<^verbatim>\<open>irEvalBlock\<close> takes \<^verbatim>\<open>c\<close> from \<^verbatim>\<open>r2\<close> when that
  is a constant and from \<^verbatim>\<open>r1\<close> otherwise, so the test is the flag \<open>c_is_r2\<close>. (Both operands can
  be one and the same constant object; then every operation tested here has been evaluated
  before the test is reached.)
\<close>

definition irEvalCanFold :: "ir_instr \<Rightarrow> bool \<Rightarrow> u64 \<Rightarrow> bool" where
  "irEvalCanFold I c_is_r2 k \<longleftrightarrow>
     (case i_dst I of Some d \<Rightarrow> val_byval_struct_type d = NULL | None \<Rightarrow> True) \<and>
     (i_op I \<in> {IR_IMUL, IR_IDIV, IR_UDIV} \<and> k = 1 \<and> c_is_r2 \<or>
      i_op I \<in> {IR_IADD, IR_ISUB, IR_OR, IR_XOR, IR_SHL, IR_SHR, IR_SAR} \<and> k = 0 \<and> c_is_r2 \<or>
      i_op I \<in> {IR_IADD, IR_OR, IR_XOR} \<and> k = 0 \<and> \<not> c_is_r2 \<or>
      i_op I = IR_IMUL \<and> k = 1 \<and> \<not> c_is_r2 \<or>
      i_op I = IR_AND \<and> k = - 1)"

fun irResolveAll ::
  "resolver \<Rightarrow> ir_value option list \<Rightarrow> (resolver \<times> ir_value option list) result" where
  "irResolveAll resolver [] = Inr (resolver, [])"
| "irResolveAll resolver (v # vs) =
     rbind (irResolveTmp resolver v) (\<lambda>(resolver, v).
     rbind (irResolveAll resolver vs) (\<lambda>(resolver, vs). Inr (resolver, v # vs)))"

text \<open>
  Lines 108 to 135: resolve the operands. \<^verbatim>\<open>extra.phi_pairs\<close> of a phi and \<^verbatim>\<open>as.array.values\<close> of a
  call's \<^verbatim>\<open>r1\<close> are read whatever member the union holds: another member is a fault here.
\<close>

definition eval_resolve_phi :: "resolver \<Rightarrow> ir_instr \<Rightarrow> (resolver \<times> ir_instr) result" where
  "eval_resolve_phi resolver I =
     (if i_op I = IR_PHI then
        (case i_extra I of
           Ex_phi_pairs None \<Rightarrow> Inr (resolver, I)
         | Ex_phi_pairs (Some ps) \<Rightarrow>
             rbind (irResolveAll resolver (map fst ps)) (\<lambda>(resolver, vs).
             Inr (resolver, I\<lparr>i_extra := Ex_phi_pairs (Some (zip vs (map snd ps)))\<rparr>))
         | _ \<Rightarrow> Inl Uninitialised)
      else Inr (resolver, I))"

definition eval_resolve_args :: "resolver \<Rightarrow> ir_instr \<Rightarrow> (resolver \<times> ir_instr) result" where
  "eval_resolve_args resolver I =
     (case i_r1 I of
        Some (IrValue ty k fl bs as) \<Rightarrow>
          if i_op I = IR_CALL then
            (case as of
               As_array l n p None \<Rightarrow> Inr (resolver, I)
             | As_array l n p (Some args) \<Rightarrow>
                 rbind (irResolveAll resolver args) (\<lambda>(resolver, args).
                 Inr (resolver, I\<lparr>i_r1 := Some (IrValue ty k fl bs (As_array l n p (Some args)))\<rparr>))
             | _ \<Rightarrow> Inl Uninitialised)
          else Inr (resolver, I)
      | None \<Rightarrow> Inr (resolver, I))"

definition eval_resolve :: "resolver \<Rightarrow> ir_instr \<Rightarrow> (resolver \<times> ir_instr) result" where
  "eval_resolve resolver I =
     rbind (irResolveTmp resolver (i_r1 I)) (\<lambda>(resolver, r1).
     rbind (irResolveTmp resolver (i_r2 I)) (\<lambda>(resolver, r2).
     let I = I\<lparr>i_r1 := r1, i_r2 := r2\<rparr> in
     rbind (if i_op I \<in> {IR_BR, IR_RET, IR_STORE_DEREF}
            then rbind (irResolveTmp resolver (i_dst I)) (\<lambda>(resolver, d).
                 Inr (resolver, I\<lparr>i_dst := d\<rparr>))
            else Inr (resolver, I)) (\<lambda>(resolver, I).
     rbind (eval_resolve_phi resolver I) (\<lambda>(resolver, I).
     eval_resolve_args resolver I))))"

text \<open>The \<^verbatim>\<open>as._i64\<close> of a value that has been checked to be an integer constant.\<close>

definition const_of :: "ir_value option \<Rightarrow> u64" where
  "const_of v = (case v of Some w \<Rightarrow> (case val_as w of As_i64 c \<Rightarrow> c | _ \<Rightarrow> 0) | None \<Rightarrow> 0)"

definition eval_cmp_kind :: "ir_instr \<Rightarrow> ir_cmp_kind" where
  "eval_cmp_kind I = (case i_extra I of Ex_cmp_kind k \<Rightarrow> k | _ \<Rightarrow> IR_CMP_INVALID)"

text \<open>Lines 137 to 150: the value of the instruction when both operands are constants.\<close>

definition eval_const :: "ir_instr \<Rightarrow> u64 option" where
  "eval_const I =
     (if i_op I = IR_ICMP \<and> irIsConstInt (i_r1 I) \<and> irIsConstInt (i_r2 I)
      then irEvalCmp (eval_cmp_kind I) (const_of (i_r1 I)) (const_of (i_r2 I))
      else if irIsConstInt (i_r1 I) \<and> irIsConstInt (i_r2 I)
      then irEvalBinop (i_op I) (const_of (i_r1 I)) (const_of (i_r2 I))
      else None)"

definition eval_nop :: "ir_instr \<Rightarrow> ir_instr" where
  "eval_nop I = I\<lparr>i_op := IR_NOP, i_r1 := None, i_r2 := None\<rparr>"

fun ctz_from :: "nat \<Rightarrow> nat \<Rightarrow> u64 \<Rightarrow> nat" where
  "ctz_from 0 n k = n"
| "ctz_from (Suc f) n k = (if bit k n then n else ctz_from f (Suc n) k)"

text \<open>\<^verbatim>\<open>__builtin_ctzll\<close>: the number of zero bits below the lowest set bit.\<close>

definition builtin_ctzll :: "u64 \<Rightarrow> nat" where
  "builtin_ctzll k = ctz_from 64 0 k"

text \<open>Lines 181 to 219: the algebraic identities. \<open>None\<close>: nothing folded.\<close>

definition eval_algebra ::
  "resolver \<Rightarrow> ir_instr \<Rightarrow> (resolver \<times> ir_instr) option result" where
  "eval_algebra resolver I =
     (if irIsTmp (i_dst I) then
        (let c_is_r2 = irIsConstInt (i_r2 I);
             c = (if c_is_r2 then i_r2 I else if irIsConstInt (i_r1 I) then i_r1 I else None);
             x = (if c_is_r2 then i_r1 I else if irIsConstInt (i_r1 I) then i_r2 I else None)
         in case (c, x) of
              (Some cv, Some xv) \<Rightarrow>
                (let k = const_of c in
                 if irEvalCanFold I c_is_r2 k then
                   rbind (mapAddIntOrErr resolver (irDstVarId I) xv) (\<lambda>resolver.
                   Inr (Some (resolver, eval_nop I)))
                 else if i_op I \<in> {IR_IMUL, IR_AND} \<and> k = 0 then
                   (case i_dst I of
                      None \<Rightarrow> Inl NullDeref
                    | Some d \<Rightarrow>
                        rbind (mapAddIntOrErr resolver (irDstVarId I) (irConstInt (val_type d) 0))
                          (\<lambda>resolver. Inr (Some (resolver, eval_nop I))))
                 else if i_op I = IR_IMUL \<and> c_is_r2 \<and> 1 <s k \<and> k AND (k - 1) = 0 then
                   Inr (Some (resolver, I\<lparr>i_op := IR_SHL,
                     i_r2 := Some (irConstInt (val_type cv) (of_nat (builtin_ctzll k)))\<rparr>))
                 else Inr None)
            | _ \<Rightarrow> Inr None)
      else Inr None)"

definition irEvalInstr ::
  "resolver \<Rightarrow> ir_instr \<Rightarrow> (resolver \<times> ir_instr \<times> bool) result" where
  "irEvalInstr resolver I =
     rbind (eval_resolve resolver I) (\<lambda>(resolver, I).
     case (eval_const I, i_dst I) of
       (Some result, Some d) \<Rightarrow>
         if val_kind d = IR_VAL_TMP then
           rbind (mapAddIntOrErr resolver (irDstVarId I) (irConstInt (val_type d) result))
             (\<lambda>resolver. Inr (resolver, eval_nop I, True))
         else if val_kind d = IR_VAL_LOCAL \<and> val_byval_struct_type d = NULL then
           Inr (resolver, I\<lparr>i_op := IR_STORE, i_r1 := Some (irConstInt (val_type d) result),
                           i_r2 := None\<rparr>, True)
         else Inr (resolver, I, False)
     | _ \<Rightarrow>
         rbind (eval_algebra resolver I) (\<lambda>folded.
         case folded of Some (resolver, I) \<Rightarrow> Inr (resolver, I, True)
         | None \<Rightarrow> Inr (resolver, I, False)))"

fun eval_instrs ::
  "resolver \<Rightarrow> ir_instr list \<Rightarrow> (resolver \<times> ir_instr list \<times> nat) result" where
  "eval_instrs resolver [] = Inr (resolver, [], 0)"
| "eval_instrs resolver (I # Is) =
     rbind (irEvalInstr resolver I) (\<lambda>(resolver, I, ch).
     rbind (eval_instrs resolver Is) (\<lambda>(resolver, Is, changed).
     Inr (resolver, I # Is, changed + (if ch then 1 else 0))))"

definition irEvalBlock :: "ir_block \<Rightarrow> resolver \<Rightarrow> (resolver \<times> ir_block \<times> nat) result" where
  "irEvalBlock bb resolver =
     rbind (eval_instrs resolver (bb_instructions bb)) (\<lambda>(resolver, Is, changed).
     Inr (resolver, bb\<lparr>bb_instructions := Is\<rparr>, changed))"

fun eval_blocks ::
  "resolver \<Rightarrow> ir_block list \<Rightarrow> (ir_block list \<times> nat) result" where
  "eval_blocks resolver [] = Inr ([], 0)"
| "eval_blocks resolver (bb # bbs) =
     rbind (irEvalBlock bb resolver) (\<lambda>(resolver, bb, n).
     rbind (eval_blocks resolver bbs) (\<lambda>(bbs, changed). Inr (bb # bbs, n + changed)))"

text \<open>The function's blocks, in the order of \<^verbatim>\<open>fn->blocks\<close>, with the number of changes.\<close>

definition irEvalConstantExpressions :: "ir_block list \<Rightarrow> (ir_block list \<times> nat) result" where
  "irEvalConstantExpressions blocks = eval_blocks irVarValueMapNew blocks"

end
