(* ===== verification/IrEval_Refine.thy ===== *)
theory IrEval_Refine
  imports IrEval
begin

text \<open>
  The folding pass over an abstract resolver. \<open>spec_instrs\<close> is the pass of \<^verbatim>\<open>ir-eval.c\<close> with the
  hash map replaced by a partial function from temporaries to values; the refinement lemmas show
  that the pass on the hash map computes it, never faults on well-formed instructions and never
  runs out of the map's room.
\<close>

section \<open>The resolver as a partial function\<close>

type_synonym subst = "u32 \<Rightarrow> ir_value option"

definition subst_add :: "subst \<Rightarrow> u32 \<Rightarrow> ir_value \<Rightarrow> subst" where
  "subst_add r t v = (if r t = None then r(t \<mapsto> v) else r)"

text \<open>What the pass relies on of the resolver.\<close>

locale resolver_ops =
  fixes get :: "'s \<Rightarrow> u32 \<Rightarrow> ('s \<times> ir_value option) result"
    and add :: "'s \<Rightarrow> u32 \<Rightarrow> ir_value \<Rightarrow> 's result"
    and rep :: "'s \<Rightarrow> subst \<Rightarrow> nat \<Rightarrow> bool"
  assumes get_ok: "rep s r n \<Longrightarrow> \<exists>s'. get s t = Inr (s', r t) \<and> rep s' r n"
    and add_ok: "rep s r (Suc n) \<Longrightarrow> \<exists>s'. add s t v = Inr s' \<and> rep s' (subst_add r t v) n"
begin

lemma getE:
  assumes "rep s r n" obtains s' where "get s t = Inr (s', r t)" "rep s' r n"
  using get_ok [OF assms] by blast

lemma addE:
  assumes "rep s r (Suc n)"
  obtains s' where "add s t v = Inr s'" "rep s' (subst_add r t v) n"
  using add_ok [OF assms] by blast

end

definition res_rep :: "resolver \<Rightarrow> subst \<Rightarrow> nat \<Rightarrow> bool" where
  "res_rep m r n \<longleftrightarrow>
     map_inv map_uint_to_uint_type (\<lambda>_. True) m \<and> hm_size m + n \<le> 2 ^ 49 \<and>
     (\<forall>t. map_abs map_uint_to_uint_type m (ucast t) = map_option Some (r t))"

lemma map_u32_type: "map_u32_to_ir_value_type = map_uint_to_uint_type"
  by (simp add: map_u32_to_ir_value_type_def map_uint_to_uint_type_def)

lemma unat_u32_less: "unat (a :: u32) < 2 ^ 32"
  using unsigned_less [of a] by simp

lemma unat_ucast_u32: "unat (ucast (a :: u32) :: u64) = unat a"
  using unat_u32_less [of a] by (simp add: unsigned_ucast_eq take_bit_nat_eq_self)

lemma ucast_u32_eq: "(ucast (a :: u32) :: u64) = ucast b \<longleftrightarrow> a = b"
  by (metis unat_ucast_u32 word_unat_eq_iff)

lemma ucast_u32_not_max: "(ucast (a :: u32) :: u64) \<noteq> ULONG_MAX"
proof
  assume "(ucast a :: u64) = ULONG_MAX"
  then have "unat (ucast a :: u64) = unat ULONG_MAX" by simp
  then have "unat a = 2 ^ 64 - 1"
    by (simp add: ULONG_MAX_def unat_ucast_u32 unsigned_minus_1_eq_mask mask_eq_exp_minus_1)
  then show False using unat_u32_less [of a] by simp
qed

lemma mapGetInt_rep:
  assumes "res_rep m r n"
  shows "\<exists>m'. mapGetInt m t = Inr (m', r t) \<and> res_rep m' r n"
proof -
  let ?T = map_uint_to_uint_type
  have inv: "\<forall>m \<in> set [m]. map_inv ?T (\<lambda>_. True) m"
    and abs: "\<And>t. map_abs ?T m (ucast t) = map_option Some (r t)" and n: "hm_size m + n \<le> 2 ^ 49"
    using assms by (auto simp: res_rep_def)
  obtain ms' where ms': "mapGet ?T [m] (ucast t) = Inr (ms', chain_abs ?T [m] (ucast t))"
    "list_all2 (\<lambda>m m'. map_inv ?T (\<lambda>_. True) m' \<and> map_bindings m' = map_bindings m \<and>
      map_abs ?T m' = map_abs ?T m) [m] ms'"
    using int_keys.mapGet_rep [OF inv _ _ ucast_u32_not_max] by auto
  obtain m' where m': "ms' = [m']" "map_inv ?T (\<lambda>_. True) m'" "map_bindings m' = map_bindings m"
    "map_abs ?T m' = map_abs ?T m"
    using ms'(2) by (auto simp: list_all2_Cons1)
  have "hm_size m' = hm_size m"
    using int_keys.map_inv_sizes [OF _ m'(2,3)] inv by simp
  then show ?thesis
    using ms' m' abs n
    by (auto simp: mapGetInt_def map_u32_type res_rep_def split: option.splits)
qed

lemma mapAddIntOrErr_rep:
  assumes "res_rep m r (Suc n)"
  shows "\<exists>m'. mapAddIntOrErr m t v = Inr m' \<and> res_rep m' (subst_add r t v) n"
proof -
  let ?T = map_uint_to_uint_type
  have inv: "map_inv ?T (\<lambda>_. True) m" and small: "hm_size m < 2 ^ 49"
    and abs: "\<And>t. map_abs ?T m (ucast t) = map_option Some (r t)"
    and n: "hm_size m + Suc n \<le> 2 ^ 49"
    using assms by (auto simp: res_rep_def)
  have match: "mt_match ?T (ucast a) (ucast b) \<longleftrightarrow> a = b" for a b :: u32
    by (simp add: map_uint_to_uint_type_def mapIntKeyMatch_def ucast_u32_eq)
  obtain m' where m': "mapAddOrErr True ?T m (ucast t) (Some v) = Inr (m', r t = None)"
    "map_inv ?T (\<lambda>_. True) m'" "hm_size m' = hm_size m + (if r t = None then 1 else 0)"
    "\<And>t'. map_abs ?T m' (ucast t') =
       (if r t = None \<and> t = t' then Some (Some v) else map_option Some (r t'))"
    using int_keys.mapAddOrErr_rep [OF inv small, of "ucast t" "Some v"]
    by (auto simp: abs match cong: if_cong)
  then show ?thesis
    using n by (auto simp: mapAddIntOrErr_def map_u32_type res_rep_def subst_add_def)
qed

interpretation res: resolver_ops mapGetInt mapAddIntOrErr res_rep
  by unfold_locales (simp_all add: mapGetInt_rep mapAddIntOrErr_rep)

lemma res_rep_new: "n \<le> 2 ^ 49 \<Longrightarrow> res_rep irVarValueMapNew (\<lambda>_. None) n"
  by (simp add: res_rep_def irVarValueMapNew_def mapNew_rep)

lemma res_rep_mono: "res_rep m r n \<Longrightarrow> k \<le> n \<Longrightarrow> res_rep m r k"
  by (simp add: res_rep_def)

section \<open>The pass over a partial function\<close>

definition subst_val :: "subst \<Rightarrow> ir_value option \<Rightarrow> ir_value option" where
  "subst_val r v =
     (if irIsTmp v then (case r (irVarId v) of None \<Rightarrow> v | Some x \<Rightarrow> Some x) else v)"

definition subst_args :: "subst \<Rightarrow> ir_value option \<Rightarrow> ir_value option" where
  "subst_args r v =
     (case v of Some (IrValue ty k fl bs (As_array l n p (Some args))) \<Rightarrow>
        Some (IrValue ty k fl bs (As_array l n p (Some (map (subst_val r) args))))
      | _ \<Rightarrow> v)"

definition subst_extra :: "subst \<Rightarrow> ir_extra \<Rightarrow> ir_extra" where
  "subst_extra r ex =
     (case ex of Ex_phi_pairs (Some ps) \<Rightarrow>
        Ex_phi_pairs (Some (map (\<lambda>(v, b). (subst_val r v, b)) ps))
      | _ \<Rightarrow> ex)"

definition dst_is_input :: "ir_op \<Rightarrow> bool" where
  "dst_is_input op \<longleftrightarrow> op \<in> {IR_BR, IR_RET, IR_STORE_DEREF, IR_RMW_DEREF}"

definition subst_instr :: "subst \<Rightarrow> ir_instr \<Rightarrow> ir_instr" where
  "subst_instr r I = I\<lparr>
     i_r1 := (if i_op I = IR_CALL then subst_args r (i_r1 I) else subst_val r (i_r1 I)),
     i_r2 := subst_val r (i_r2 I),
     i_dst := (if dst_is_input (i_op I) then subst_val r (i_dst I) else i_dst I),
     i_extra := (if i_op I = IR_PHI then subst_extra r (i_extra I) else i_extra I)\<rparr>"

text \<open>
  The instructions the front end gives the pass: a phi carries its pairs, a call its argument
  array, the address of a slot is taken of a slot and not of a temporary, and the fused
  addressing forms, which later passes create, do not occur.
\<close>

definition is_call_target :: "ir_value option \<Rightarrow> bool" where
  "is_call_target v \<longleftrightarrow>
     (case v of None \<Rightarrow> True
      | Some w \<Rightarrow> val_kind w \<noteq> IR_VAL_TMP \<and> (case val_as w of As_array _ _ _ _ \<Rightarrow> True | _ \<Rightarrow> False))"

definition instr_wf :: "ir_instr \<Rightarrow> bool" where
  "instr_wf I \<longleftrightarrow>
     i_idx I = None \<and> i_op I \<noteq> IR_RMW_DEREF \<and>
     (i_op I = IR_PHI \<longrightarrow> (case i_extra I of Ex_phi_pairs _ \<Rightarrow> True | _ \<Rightarrow> False)) \<and>
     (i_op I = IR_CALL \<longrightarrow> is_call_target (i_r1 I)) \<and>
     (i_op I = IR_LEA \<longrightarrow> \<not> irIsTmp (i_r1 I))"

definition spec_algebra :: "subst \<Rightarrow> ir_instr \<Rightarrow> (subst \<times> ir_instr) option" where
  "spec_algebra r I =
     (if irIsTmp (i_dst I) then
        (let c_is_r2 = irIsConstInt (i_r2 I);
             c = (if c_is_r2 then i_r2 I else if irIsConstInt (i_r1 I) then i_r1 I else None);
             x = (if c_is_r2 then i_r1 I else if irIsConstInt (i_r1 I) then i_r2 I else None);
             k = const_of c;
             zero = irConstInt (val_type (the (i_dst I))) 0
         in if c = None \<or> x = None then None
            else if irEvalCanFold I c_is_r2 k
            then Some (subst_add r (irDstVarId I) (the x), eval_nop I)
            else if i_op I \<in> {IR_IMUL, IR_AND} \<and> k = 0
            then Some (subst_add r (irDstVarId I) zero, eval_nop I)
            else if i_op I = IR_IMUL \<and> c_is_r2 \<and> 1 <s k \<and> k AND (k - 1) = 0
            then Some (r, I\<lparr>i_op := IR_SHL,
                   i_r2 := Some (irConstInt (val_type (the c)) (of_nat (builtin_ctzll k)))\<rparr>)
            else None)
      else None)"

definition spec_fold :: "subst \<Rightarrow> ir_instr \<Rightarrow> subst \<times> ir_instr \<times> bool" where
  "spec_fold r I =
     (case (eval_const I, i_dst I) of
        (Some w, Some d) \<Rightarrow>
          if val_kind d = IR_VAL_TMP
          then (subst_add r (irDstVarId I) (irConstInt (val_type d) w), eval_nop I, True)
          else if val_kind d = IR_VAL_LOCAL \<and> val_byval_struct_type d = NULL
          then (r, I\<lparr>i_op := IR_STORE, i_r1 := Some (irConstInt (val_type d) w), i_r2 := None\<rparr>, True)
          else (r, I, False)
      | _ \<Rightarrow> (case spec_algebra r I of Some (r, I) \<Rightarrow> (r, I, True) | None \<Rightarrow> (r, I, False)))"

fun spec_instrs :: "subst \<Rightarrow> ir_instr list \<Rightarrow> subst \<times> ir_instr list \<times> nat" where
  "spec_instrs r [] = (r, [], 0)"
| "spec_instrs r (I # Is) =
     (let (r, I, ch) = spec_fold r (subst_instr r I); (r, Is, n) = spec_instrs r Is in
      (r, I # Is, n + (if ch then 1 else 0)))"

section \<open>Refinement\<close>

lemma irResolveTmp_rep:
  assumes "res_rep m r n"
  shows "\<exists>m'. irResolveTmp m v = Inr (m', subst_val r v) \<and> res_rep m' r n"
proof (cases "irIsTmp v")
  case True
  obtain m' where "mapGetInt m (irVarId v) = Inr (m', r (irVarId v))" "res_rep m' r n"
    using res.getE [OF assms] .
  moreover have "v \<noteq> None" using True by (cases v) auto
  ultimately show ?thesis
    using True by (cases "r (irVarId v)") (auto simp: irResolveTmp_def subst_val_def)
qed (use assms in \<open>auto simp: irResolveTmp_def subst_val_def\<close>)

lemma irResolveAll_rep:
  "res_rep m r n \<Longrightarrow> \<exists>m'. irResolveAll m vs = Inr (m', map (subst_val r) vs) \<and> res_rep m' r n"
proof (induction vs arbitrary: m)
  case (Cons v vs)
  obtain m1 where m1: "irResolveTmp m v = Inr (m1, subst_val r v)" "res_rep m1 r n"
    using irResolveTmp_rep [OF Cons.prems] by blast
  show ?case using m1(1) Cons.IH [OF m1(2)] by auto
qed auto

lemma zip_map_pairs: "zip (map (f \<circ> fst) ps) (map snd ps) = map (\<lambda>(v, b). (f v, b)) ps"
  by (induction ps) auto

lemma eval_resolve_phi_rep:
  assumes "res_rep m r n" "instr_wf I"
  shows "\<exists>m'. eval_resolve_phi m I = Inr (m', I\<lparr>i_extra :=
      (if i_op I = IR_PHI then subst_extra r (i_extra I) else i_extra I)\<rparr>) \<and> res_rep m' r n"
proof (cases "i_op I = IR_PHI")
  case True
  then obtain ps where ps: "i_extra I = Ex_phi_pairs ps"
    using assms(2) by (auto simp: instr_wf_def split: ir_extra.splits)
  show ?thesis
  proof (cases ps)
    case (Some qs)
    then show ?thesis
      using irResolveAll_rep [OF assms(1), of "map fst qs"] True ps
      by (auto simp: eval_resolve_phi_def subst_extra_def zip_map_pairs)
  qed (use True ps assms(1) in \<open>simp add: eval_resolve_phi_def subst_extra_def\<close>)
qed (use assms(1) in \<open>simp add: eval_resolve_phi_def\<close>)

lemma is_call_targetE:
  assumes "is_call_target v"
  obtains "v = None"
  | ty k fl bs l d p vals where "v = Some (IrValue ty k fl bs (As_array l d p vals))"
      "k \<noteq> IR_VAL_TMP"
proof (cases v)
  case (Some w)
  obtain ty k fl bs as where "w = IrValue ty k fl bs as" by (cases w)
  then show thesis using assms Some that(2) by (cases as) (auto simp: is_call_target_def)
qed (rule that(1))

lemma eval_resolve_args_rep:
  assumes "res_rep m r n" "i_op I = IR_CALL \<Longrightarrow> is_call_target (i_r1 I)"
  shows "\<exists>m'. eval_resolve_args m I = Inr (m', I\<lparr>i_r1 :=
      (if i_op I = IR_CALL then subst_args r (i_r1 I) else i_r1 I)\<rparr>) \<and> res_rep m' r n"
proof (cases "i_op I = IR_CALL \<and> i_r1 I \<noteq> None")
  case True
  then have "is_call_target (i_r1 I)" using assms(2) by simp
  then obtain ty k fl bs l d p vals where r1: "i_r1 I = Some (IrValue ty k fl bs (As_array l d p vals))"
    using True by (elim is_call_targetE) auto
  show ?thesis
  proof (cases vals)
    case (Some args)
    then show ?thesis
      using irResolveAll_rep [OF assms(1), of args] True r1
      by (auto simp: eval_resolve_args_def subst_args_def)
  qed (use True r1 assms(1) in \<open>simp add: eval_resolve_args_def subst_args_def\<close>)
qed (use assms(1) in \<open>auto simp: eval_resolve_args_def subst_args_def split: ir_value.splits option.splits\<close>)

lemma subst_val_call_target: "is_call_target v \<Longrightarrow> subst_val r v = v"
  by (cases v) (auto simp: is_call_target_def subst_val_def)

lemma input_code: "instr_wf I \<Longrightarrow> i_op I \<in> {IR_BR, IR_RET, IR_STORE_DEREF} \<longleftrightarrow> dst_is_input (i_op I)"
  by (auto simp: instr_wf_def dst_is_input_def)

lemma eval_resolve_rep:
  assumes rep: "res_rep m r n" and wf: "instr_wf I"
  shows "\<exists>m'. eval_resolve m I = Inr (m', subst_instr r I) \<and> res_rep m' r n"
proof -
  obtain m1 where m1: "irResolveTmp m (i_r1 I) = Inr (m1, subst_val r (i_r1 I))" "res_rep m1 r n"
    using irResolveTmp_rep [OF rep] by blast
  obtain m2 where m2: "irResolveTmp m1 (i_r2 I) = Inr (m2, subst_val r (i_r2 I))" "res_rep m2 r n"
    using irResolveTmp_rep [OF m1(2)] by blast
  obtain m3 where m3: "irResolveTmp m2 (i_dst I) = Inr (m3, subst_val r (i_dst I))" "res_rep m3 r n"
    using irResolveTmp_rep [OF m2(2)] by blast
  let ?I1 = "I\<lparr>i_r1 := subst_val r (i_r1 I), i_r2 := subst_val r (i_r2 I)\<rparr>"
  let ?m = "if dst_is_input (i_op I) then m3 else m2"
  let ?I2 = "if dst_is_input (i_op I) then ?I1\<lparr>i_dst := subst_val r (i_dst I)\<rparr> else ?I1"
  have rep2: "res_rep ?m r n" and wf2: "instr_wf ?I2"
    using m2(2) m3(2) wf subst_val_call_target [of "i_r1 I" r]
    by (auto simp: instr_wf_def subst_val_def dst_is_input_def)
  obtain m4 where m4:  "eval_resolve_phi ?m ?I2 = Inr (m4, ?I2\<lparr>i_extra :=
      (if i_op ?I2 = IR_PHI then subst_extra r (i_extra ?I2) else i_extra ?I2)\<rparr>)"
      (is "_ = Inr (_, ?I3)")
    and m4': "res_rep m4 r n"
    using eval_resolve_phi_rep [OF rep2 wf2] by blast
  obtain m5 where m5: "eval_resolve_args m4 ?I3 = Inr (m5, ?I3\<lparr>i_r1 :=
      (if i_op ?I3 = IR_CALL then subst_args r (i_r1 ?I3) else i_r1 ?I3)\<rparr>)"
      (is "_ = Inr (_, ?I4)")
    and m5': "res_rep m5 r n"
    using eval_resolve_args_rep [OF m4', of ?I3] wf2 by (auto simp: instr_wf_def)
  have "?I4 = subst_instr r I"
    using wf subst_val_call_target [of "i_r1 I" r]
    by (auto simp: subst_instr_def instr_wf_def)
  moreover have "eval_resolve m I = eval_resolve_args m4 ?I3"
    using m1(1) m2(1) m3(1) m4 unfolding eval_resolve_def
    by (cases "dst_is_input (i_op I)") (simp_all add: Let_def input_code [OF wf] del: insert_iff)
  ultimately show ?thesis using m5 m5' by auto
qed

lemma eval_algebra_rep:
  assumes "res_rep m r (Suc n)"
  shows "(spec_algebra r I = None \<longrightarrow> eval_algebra m I = Inr None) \<and>
    (\<forall>r' I'. spec_algebra r I = Some (r', I') \<longrightarrow>
       (\<exists>m'. eval_algebra m I = Inr (Some (m', I')) \<and> res_rep m' r' n))"
proof -
  have add: "\<exists>m'. mapAddIntOrErr m t v = Inr m' \<and> res_rep m' (subst_add r t v) n" for t v
    using res.add_ok [OF assms] .
  have mono: "res_rep m r n" using assms res_rep_mono [of m r "Suc n" n] by simp
  show ?thesis
  proof (cases "irIsTmp (i_dst I)")
    case True
    then obtain d where d: "i_dst I = Some d" by (cases "i_dst I") auto
    let ?k2 = "irIsConstInt (i_r2 I)" and ?k1 = "irIsConstInt (i_r1 I)"
    let ?c = "if ?k2 then i_r2 I else if ?k1 then i_r1 I else None"
    let ?x = "if ?k2 then i_r1 I else if ?k1 then i_r2 I else None"
    show ?thesis
    proof (cases "?c = None \<or> ?x = None")
      case False
      then obtain cv xv where cx: "?c = Some cv" "?x = Some xv" by auto
      show ?thesis
        using True d cx mono add [of "irDstVarId I" xv]
          add [of "irDstVarId I" "irConstInt (val_type d) 0"]
        unfolding eval_algebra_def spec_algebra_def Let_def cx by auto
    next
      case None: True
      then show ?thesis
        using True unfolding eval_algebra_def spec_algebra_def Let_def
        by (cases "i_r1 I"; cases "i_r2 I") (simp_all split: if_splits)
    qed
  qed (simp add: eval_algebra_def spec_algebra_def)
qed

lemma irEvalInstr_rep:
  assumes "res_rep m r (Suc n)" "instr_wf I" "spec_fold r (subst_instr r I) = (r', I', ch)"
  shows "\<exists>m'. irEvalInstr m I = Inr (m', I', ch) \<and> res_rep m' r' n"
proof -
  obtain m1 where m1: "eval_resolve m I = Inr (m1, subst_instr r I)" "res_rep m1 r (Suc n)"
    using eval_resolve_rep [OF assms(1,2)] by blast
  have add: "\<exists>m'. mapAddIntOrErr m1 t v = Inr m' \<and> res_rep m' (subst_add r t v) n" for t v
    using res.add_ok [OF m1(2)] .
  have mono: "res_rep m1 r n" using m1(2) res_rep_mono [of m1 r "Suc n" n] by simp
  show ?thesis
  proof (cases "spec_algebra r (subst_instr r I)")
    case None
    then show ?thesis
      using eval_algebra_rep [OF m1(2), of "subst_instr r I"] assms(3) mono m1(1) add
      by (force simp: irEvalInstr_def spec_fold_def split: option.splits if_splits)
  next
    case (Some p)
    then show ?thesis
      using eval_algebra_rep [OF m1(2), of "subst_instr r I"] assms(3) mono m1(1) add
      by (cases p) (force simp: irEvalInstr_def spec_fold_def split: option.splits if_splits)
  qed
qed

lemma eval_instrs_rep:
  assumes "res_rep m r (length Is + n)" "\<forall>I \<in> set Is. instr_wf I"
    "spec_instrs r Is = (r', Is', ch)"
  shows "\<exists>m'. eval_instrs m Is = Inr (m', Is', ch) \<and> res_rep m' r' n"
  using assms
proof (induction Is arbitrary: m r Is' ch)
  case (Cons I Is)
  obtain r1 I1 c1 where f: "spec_fold r (subst_instr r I) = (r1, I1, c1)" by (metis prod_cases3)
  obtain Is2 c2 where g: "spec_instrs r1 Is = (r', Is2, c2)"
    using Cons.prems(3) f by (auto simp: Let_def split: prod.splits)
  obtain m1 where m1: "irEvalInstr m I = Inr (m1, I1, c1)" "res_rep m1 r1 (length Is + n)"
    using irEvalInstr_rep [OF _ _ f, of m "length Is + n"] Cons.prems by auto
  then show ?case
    using Cons.IH [OF m1(2) _ g] Cons.prems f g by (auto simp: Let_def)
qed auto

end
