(* ===== verification/IrEval_Correct.thy ===== *)
theory IrEval_Correct
  imports IrEval_Refine
begin

text \<open>
  A reference semantics of the instructions and the proof that folding preserves it. A machine
  gives the meaning of everything the pass does not evaluate: how a variable, parameter, global
  or string reads (\<open>rd\<close>), how a slot is written (\<open>wr\<close>), what a division by zero, an overflowing
  division or an over-long shift does (\<open>und\<close>), and the effect of every other instruction on the
  memory from the values of its operands (\<open>eff\<close>: loads, stores through pointers, calls, phis,
  branches and returns). Integer arithmetic has its meaning on 64-bit integers, the width at
  which the pass computes.
\<close>

section \<open>Reference semantics\<close>

record 'm ir_state =
  st_tmps :: "u32 \<Rightarrow> u64"
  st_mem :: 'm

record 'm machine =
  rd :: "'m \<Rightarrow> ir_value \<Rightarrow> u64"
  wr :: "'m \<Rightarrow> ir_value \<Rightarrow> u64 \<Rightarrow> 'm"
  und :: "ir_op \<Rightarrow> u64 \<Rightarrow> u64 \<Rightarrow> u64 result"
  eff :: "ir_instr \<Rightarrow> u64 option \<Rightarrow> u64 option \<Rightarrow> u64 option \<Rightarrow> u64 option list \<Rightarrow> 'm \<Rightarrow> ('m \<times> u64) result"

definition is_binop :: "ir_op \<Rightarrow> bool" where
  "is_binop op \<longleftrightarrow> op \<in> {IR_IADD, IR_ISUB, IR_IMUL, IR_IDIV, IR_UDIV, IR_IREM, IR_UREM,
     IR_AND, IR_OR, IR_XOR, IR_SHL, IR_SHR, IR_SAR}"

text \<open>The meaning of the arithmetic on mathematical integers, with the result wrapped.\<close>

definition sem_binop :: "'m machine \<Rightarrow> ir_op \<Rightarrow> u64 \<Rightarrow> u64 \<Rightarrow> u64 result" where
  "sem_binop M op a b =
     (let q = sgn (sint a) * sgn (sint b) * (\<bar>sint a\<bar> div \<bar>sint b\<bar>);
          n = unat b in
      case op of
        IR_IADD \<Rightarrow> Inr (word_of_int (sint a + sint b))
      | IR_ISUB \<Rightarrow> Inr (word_of_int (sint a - sint b))
      | IR_IMUL \<Rightarrow> Inr (word_of_int (sint a * sint b))
      | IR_AND \<Rightarrow> Inr (word_of_int (sint a AND sint b))
      | IR_OR \<Rightarrow> Inr (word_of_int (sint a OR sint b))
      | IR_XOR \<Rightarrow> Inr (word_of_int (sint a XOR sint b))
      | IR_IDIV \<Rightarrow> if sint b \<noteq> 0 \<and> - (2 ^ 63) \<le> q \<and> q < 2 ^ 63 then Inr (word_of_int q) else und M op a b
      | IR_IREM \<Rightarrow> if sint b \<noteq> 0 \<and> - (2 ^ 63) \<le> q \<and> q < 2 ^ 63
                   then Inr (word_of_int (sint a - sint b * q)) else und M op a b
      | IR_UDIV \<Rightarrow> if unat b \<noteq> 0 then Inr (of_nat (unat a div unat b)) else und M op a b
      | IR_UREM \<Rightarrow> if unat b \<noteq> 0 then Inr (of_nat (unat a mod unat b)) else und M op a b
      | IR_SHL \<Rightarrow> if n < 64 then Inr (of_nat (unat a * 2 ^ n)) else und M op a b
      | IR_SHR \<Rightarrow> if n < 64 then Inr (of_nat (unat a div 2 ^ n)) else und M op a b
      | IR_SAR \<Rightarrow> if n < 64 then Inr (word_of_int (sint a div 2 ^ n)) else und M op a b
      | _ \<Rightarrow> und M op a b)"

definition sem_cmp :: "ir_cmp_kind \<Rightarrow> u64 \<Rightarrow> u64 \<Rightarrow> bool option" where
  "sem_cmp kind a b =
     (case kind of
        IR_CMP_EQ \<Rightarrow> Some (sint a = sint b) | IR_CMP_NE \<Rightarrow> Some (sint a \<noteq> sint b)
      | IR_CMP_LT \<Rightarrow> Some (sint a < sint b) | IR_CMP_LE \<Rightarrow> Some (sint a \<le> sint b)
      | IR_CMP_GT \<Rightarrow> Some (sint a > sint b) | IR_CMP_GE \<Rightarrow> Some (sint a \<ge> sint b)
      | IR_CMP_ULT \<Rightarrow> Some (unat a < unat b) | IR_CMP_ULE \<Rightarrow> Some (unat a \<le> unat b)
      | IR_CMP_UGT \<Rightarrow> Some (unat a > unat b) | IR_CMP_UGE \<Rightarrow> Some (unat a \<ge> unat b)
      | _ \<Rightarrow> None)"

section \<open>Arithmetic and comparison\<close>

lemma sint_u64_bounds: "- (2 ^ 63) \<le> sint (a :: u64)" "sint (a :: u64) < 2 ^ 63"
  using sint_range_size [of a] by (simp_all add: word_size)

lemma sint_inj: "sint (a :: u64) = sint b \<longleftrightarrow> a = b"
  by (auto intro: signed_word_eqI)

lemma sint_zero_iff: "sint (b :: u64) = 0 \<longleftrightarrow> b = 0"
  using sint_inj [of b 0] by simp

lemma sint_u64: "sint (b :: u64) = (if uint b < 2 ^ 63 then uint b else uint b - 2 ^ 64)"
proof -
  have "sint b = (uint b + 2 ^ 63) mod 2 ^ 64 - 2 ^ 63"
    by (simp add: sint_uint signed_take_bit_eq_take_bit_shift take_bit_eq_mod)
  moreover have "(uint b + 2 ^ 63) mod 2 ^ 64 = uint b + 2 ^ 63 - 2 ^ 64" if "2 ^ 63 \<le> uint b"
  proof -
    have "(uint b + 2 ^ 63) mod 2 ^ 64 = (uint b + 2 ^ 63 - 2 ^ 64) mod 2 ^ 64"
      by (simp only: minus_mod_self2)
    also have "\<dots> = uint b + 2 ^ 63 - 2 ^ 64"
      using that uint_lt2p [of b] by (intro mod_pos_pos_trivial) simp_all
    finally show ?thesis .
  qed
  ultimately show ?thesis
    using uint_ge_0 [of b] by (cases "uint b < 2 ^ 63") simp_all
qed

lemma shift_guard: "(b :: u64) <s 0 \<or> 64 \<le>s b \<longleftrightarrow> \<not> unat b < 64"
proof -
  have "int (unat b) = uint b" by simp
  then have "unat b < 64 \<longleftrightarrow> uint b < 64" by linarith
  then show ?thesis
    using uint_lt2p [of b] uint_ge_0 [of b] by (auto simp: word_sless_alt word_sle_eq sint_u64)
qed

text \<open>The quotient of two 64-bit integers leaves the range only for the guarded pair.\<close>

definition quot :: "u64 \<Rightarrow> u64 \<Rightarrow> int" where
  "quot a b = sgn (sint a) * sgn (sint b) * (\<bar>sint a\<bar> div \<bar>sint b\<bar>)"

lemma sint_INT64_MIN: "sint a = - (2 ^ 63) \<longleftrightarrow> a = INT64_MIN"
proof -
  have "sint INT64_MIN = - (2 ^ 63)" by (simp add: INT64_MIN_def sint_u64)
  then show ?thesis using sint_inj [of a INT64_MIN] by auto
qed

lemma sint_minus_one: "sint (b :: u64) = - 1 \<longleftrightarrow> b = - 1"
proof -
  have "sint (- 1 :: u64) = - 1" by simp
  then show ?thesis using sint_inj [of b "- 1"] by auto
qed

lemma quot_range:
  assumes "b \<noteq> 0"
  shows "- (2 ^ 63) \<le> quot a b \<and> quot a b < 2 ^ 63 \<longleftrightarrow> \<not> (a = INT64_MIN \<and> b = - 1)"
proof -
  let ?a = "sint a" and ?b = "sint b"
  have bz: "?b \<noteq> 0" using assms by (simp add: sint_zero_iff)
  have abs: "\<bar>quot a b\<bar> = \<bar>?a\<bar> div \<bar>?b\<bar>"
    using bz by (auto simp: quot_def abs_mult abs_sgn_eq pos_imp_zdiv_nonneg_iff)
  show ?thesis
  proof (cases "a = INT64_MIN \<and> b = - 1")
    case True
    then have "?a = - (2 ^ 63)" "?b = - 1" using sint_INT64_MIN sint_minus_one by auto
    then show ?thesis using True by (simp add: quot_def)
  next
    case False
    have "quot a b < 2 ^ 63"
    proof (cases "\<bar>?b\<bar> = 1")
      case True
      then show ?thesis
        using False sint_u64_bounds [of a] sint_INT64_MIN [of a] sint_minus_one [of b]
        by (auto simp: quot_def abs_if sgn_if split: if_splits)
    next
      case b1: False
      then have "2 \<le> \<bar>?b\<bar>" using bz by linarith
      then have "\<bar>?a\<bar> div \<bar>?b\<bar> \<le> \<bar>?a\<bar> div 2" by (intro zdiv_mono2) auto
      also have "\<dots> < 2 ^ 63" using sint_u64_bounds [of a] by auto
      finally show ?thesis using abs by linarith
    qed
    moreover have "\<bar>?a\<bar> div \<bar>?b\<bar> \<le> \<bar>?a\<bar> div 1" using bz by (intro zdiv_mono2) auto
    moreover have "\<bar>?a\<bar> \<le> 2 ^ 63" using sint_u64_bounds [of a] by auto
    ultimately show ?thesis using False abs by auto
  qed
qed

lemma s64_div_quot: "s64_div a b = word_of_int (quot a b)"
  by (simp add: s64_div_def quot_def signed_divide_int_def)

lemma s64_mod_quot: "s64_mod a b = word_of_int (sint a - sint b * quot a b)"
  by (simp only: s64_mod_def quot_def signed_divide_int_def [symmetric] minus_mult_sdiv_eq_smod)

lemma sint_bitops:
  "a AND b = (word_of_int (sint a AND sint b) :: u64)"
  "a OR b = (word_of_int (sint a OR sint b) :: u64)"
  "a XOR b = (word_of_int (sint a XOR sint b) :: u64)"
  by (rule bit_word_eqI, simp add: bit_simps bit_sint_iff)+

lemma shifts_arith:
  fixes a :: u64
  shows "push_bit n a = of_nat (unat a * 2 ^ n)"
    and "drop_bit n a = of_nat (unat a div 2 ^ n)"
    and "signed_drop_bit n a = word_of_int (sint a div 2 ^ n)"
proof -
  show "push_bit n a = of_nat (unat a * 2 ^ n)"
    by (simp add: push_bit_eq_mult)
  have "unat (drop_bit n a) = drop_bit n (unat a)" by (rule unat_drop_bit_eq)
  then have "unat (drop_bit n a) = unat a div 2 ^ n" by (simp only: drop_bit_eq_div [where ?'a = nat])
  then show "drop_bit n a = of_nat (unat a div 2 ^ n)" by (metis of_nat_unat ucast_id)
  have "sint (signed_drop_bit n a) = drop_bit n (sint a)" by (rule sint_signed_drop_bit_eq)
  then have "sint (signed_drop_bit n a) = sint a div 2 ^ n"
    by (simp only: drop_bit_eq_div [where ?'a = int])
  then show "signed_drop_bit n a = word_of_int (sint a div 2 ^ n)" by (metis of_int_sint scast_id)
qed

lemma sem_binop_eval:
  "sem_binop M op a b = (case irEvalBinop op a b of Some v \<Rightarrow> Inr v | None \<Rightarrow> und M op a b)"
proof -
  have div: "sint b \<noteq> 0 \<and> - (2 ^ 63) \<le> quot a b \<and> quot a b < 2 ^ 63 \<longleftrightarrow>
      b \<noteq> 0 \<and> \<not> (a = INT64_MIN \<and> b = - 1)"
    using quot_range [of b a] sint_zero_iff [of b] by auto
  have nz: "unat b \<noteq> 0 \<longleftrightarrow> b \<noteq> 0" by (simp add: unat_eq_zero)
  show ?thesis
    unfolding sem_binop_def irEvalBinop_def Let_def quot_def [symmetric] div nz shift_guard
    by (cases op) (simp_all add: s64_div_quot s64_mod_quot sint_bitops [symmetric] shifts_arith
        word_arith_nat_div word_arith_nat_mod)
qed

lemma sem_cmp_eval:
  "irEvalCmp kind a b = map_option (\<lambda>t. if t then 1 else 0) (sem_cmp kind a b)"
  by (cases kind) (simp_all add: irEvalCmp_def sem_cmp_def word_sless_alt word_sle_eq
      word_less_nat_alt word_le_nat_alt sint_inj)

section \<open>Execution of instructions\<close>

definition val_of :: "'m machine \<Rightarrow> 'm ir_state \<Rightarrow> ir_value \<Rightarrow> u64" where
  "val_of M st v =
     (if val_kind v = IR_VAL_TMP then st_tmps st (irVarId (Some v))
      else if val_kind v = IR_VAL_CONST_INT then const_of (Some v)
      else rd M (st_mem st) v)"

definition opd :: "'m machine \<Rightarrow> 'm ir_state \<Rightarrow> ir_value option \<Rightarrow> u64 option" where
  "opd M st v = map_option (val_of M st) v"

definition put :: "'m machine \<Rightarrow> 'm ir_state \<Rightarrow> ir_value option \<Rightarrow> u64 \<Rightarrow> 'm ir_state" where
  "put M st d w =
     (case d of None \<Rightarrow> st
      | Some v \<Rightarrow> if val_kind v = IR_VAL_TMP
                  then st\<lparr>st_tmps := (st_tmps st)(irVarId (Some v) := w)\<rparr>
                  else st\<lparr>st_mem := wr M (st_mem st) v w\<rparr>)"

text \<open>
  The instruction without its operands, and the operands that are not \<^verbatim>\<open>r1\<close>, \<^verbatim>\<open>r2\<close> or \<^verbatim>\<open>dst\<close>: the
  incoming values of a phi, the arguments of a call and the index of a fused address.
\<close>

definition call_args :: "ir_value option \<Rightarrow> ir_value option list" where
  "call_args v = (case v of Some (IrValue ty k fl bs (As_array l n p (Some args))) \<Rightarrow> args | _ \<Rightarrow> [])"

definition call_name :: "ir_value option \<Rightarrow> ir_value option" where
  "call_name v =
     (case v of Some (IrValue ty k fl bs (As_array l n p (Some args))) \<Rightarrow>
        Some (IrValue ty k fl bs (As_array l n p (Some [])))
      | _ \<Rightarrow> v)"

definition phi_vals :: "ir_extra \<Rightarrow> ir_value option list" where
  "phi_vals ex = (case ex of Ex_phi_pairs (Some ps) \<Rightarrow> map fst ps | _ \<Rightarrow> [])"

definition phi_blocks :: "ir_extra \<Rightarrow> ir_extra" where
  "phi_blocks ex =
     (case ex of Ex_phi_pairs (Some ps) \<Rightarrow> Ex_phi_pairs (Some (map (\<lambda>(v, b). (None, b)) ps)) | _ \<Rightarrow> ex)"

definition more_opds :: "ir_instr \<Rightarrow> ir_value option list" where
  "more_opds I =
     (if i_op I = IR_PHI then phi_vals (i_extra I)
      else if i_op I = IR_CALL then call_args (i_r1 I) else []) @ [i_idx I]"

definition skeleton :: "ir_instr \<Rightarrow> ir_instr" where
  "skeleton I = I\<lparr>
     i_r1 := (if i_op I = IR_CALL then call_name (i_r1 I) else if i_op I = IR_LEA then i_r1 I else None),
     i_r2 := None, i_idx := None,
     i_dst := (if dst_is_input (i_op I) then None else i_dst I),
     i_extra := (if i_op I = IR_PHI then phi_blocks (i_extra I) else i_extra I)\<rparr>"

definition exec_other :: "'m machine \<Rightarrow> ir_instr \<Rightarrow> 'm ir_state \<Rightarrow> 'm ir_state result" where
  "exec_other M I st =
     rbind (eff M (skeleton I) (if i_op I \<in> {IR_CALL, IR_LEA} then None else opd M st (i_r1 I))
              (opd M st (i_r2 I)) (if dst_is_input (i_op I) then opd M st (i_dst I) else None)
              (map (opd M st) (more_opds I)) (st_mem st)) (\<lambda>(m, w).
     Inr (put M (st\<lparr>st_mem := m\<rparr>) (if dst_is_input (i_op I) then None else i_dst I) w))"

text \<open>The value of a computing instruction from those of its operands; \<open>None\<close>: not one.\<close>

definition sem_result ::
  "'m machine \<Rightarrow> ir_op \<Rightarrow> ir_cmp_kind \<Rightarrow> u64 option \<Rightarrow> u64 option \<Rightarrow> u64 result option" where
  "sem_result M op kind a b =
     (case a of None \<Rightarrow> None
      | Some x \<Rightarrow>
          if op = IR_STORE then Some (Inr x)
          else case b of None \<Rightarrow> None
          | Some y \<Rightarrow>
              if is_binop op then Some (sem_binop M op x y)
              else if op = IR_ICMP then map_option (\<lambda>t. Inr (if t then 1 else 0)) (sem_cmp kind x y)
              else None)"

definition exec :: "'m machine \<Rightarrow> ir_instr \<Rightarrow> 'm ir_state \<Rightarrow> 'm ir_state result" where
  "exec M I st =
     (if i_op I = IR_NOP then Inr st
      else case sem_result M (i_op I) (eval_cmp_kind I) (opd M st (i_r1 I)) (opd M st (i_r2 I)) of
        Some res \<Rightarrow> rbind res (\<lambda>w. Inr (put M st (i_dst I) w))
      | None \<Rightarrow> exec_other M I st)"

fun run :: "'m machine \<Rightarrow> ir_instr list \<Rightarrow> 'm ir_state \<Rightarrow> 'm ir_state result" where
  "run M [] st = Inr st"
| "run M (I # Is) st = rbind (exec M I st) (run M Is)"

section \<open>Single assignment\<close>

definition tmp_ids :: "ir_value option \<Rightarrow> u32 set" where
  "tmp_ids v = (if irIsTmp v then {irVarId v} else {})"

definition uses :: "ir_instr \<Rightarrow> u32 set" where
  "uses I = tmp_ids (i_r1 I) \<union> tmp_ids (i_r2 I) \<union>
     (if dst_is_input (i_op I) then tmp_ids (i_dst I) else {}) \<union> \<Union> (tmp_ids ` set (more_opds I))"

definition defs :: "ir_instr \<Rightarrow> u32 set" where
  "defs I = (if dst_is_input (i_op I) then {} else tmp_ids (i_dst I))"

text \<open>No temporary is assigned after it has been assigned or used (\<open>U\<close>: those seen so far).\<close>

fun ssa :: "u32 set \<Rightarrow> ir_instr list \<Rightarrow> bool" where
  "ssa U [] \<longleftrightarrow> True"
| "ssa U (I # Is) \<longleftrightarrow> defs I \<inter> (U \<union> uses I) = {} \<and> ssa (U \<union> uses I \<union> defs I) Is"

text \<open>
  The variables an instruction may forward: an operand that is neither a temporary nor a constant
  beside one that is, or may become, a constant. The pass replaces later uses of the result by
  the variable, so its content must not change afterwards: it has to be in \<open>S\<close>.
\<close>

definition is_simple :: "ir_value option \<Rightarrow> bool" where
  "is_simple v \<longleftrightarrow> irIsTmp v \<or> irIsConstInt v"

definition forwards_in :: "ir_value set \<Rightarrow> ir_instr \<Rightarrow> bool" where
  "forwards_in S I \<longleftrightarrow>
     (is_binop (i_op I) \<and> irIsTmp (i_dst I) \<longrightarrow>
        (\<forall>v. i_r1 I = Some v \<and> \<not> is_simple (i_r1 I) \<and> is_simple (i_r2 I) \<longrightarrow> v \<in> S) \<and>
        (\<forall>v. i_r2 I = Some v \<and> \<not> is_simple (i_r2 I) \<and> is_simple (i_r1 I) \<longrightarrow> v \<in> S))"

definition keeps :: "'m machine \<Rightarrow> ir_value set \<Rightarrow> ir_instr \<Rightarrow> bool" where
  "keeps M S I \<longleftrightarrow>
     (\<forall>st st'. exec M I st = Inr st' \<longrightarrow> (\<forall>v \<in> S. rd M (st_mem st') v = rd M (st_mem st) v))"

end
