(* ===== verification/IrEval_Sim.thy ===== *)
theory IrEval_Sim
  imports IrEval_Correct
begin

text \<open>
  Folding preserves the reference semantics. The simulation relates a state of the original
  instructions to a state of the rewritten ones: the memories are equal and every temporary has
  the value of what the resolver replaces it by. One lemma shows that resolving the operands
  of an instruction keeps its meaning, one that each fold does; the theorems at the end are
  about the pass of \<^verbatim>\<open>ir-eval.c\<close> on the hash map.
\<close>

section \<open>The simulation relation\<close>

definition sub_ok :: "u32 set \<Rightarrow> ir_value set \<Rightarrow> subst \<Rightarrow> bool" where
  "sub_ok U S r \<longleftrightarrow>
     (\<forall>t v. r t = Some v \<longrightarrow> t \<in> U \<and> tmp_ids (Some v) \<subseteq> U \<and>
        (\<forall>u \<in> tmp_ids (Some v). r u = None) \<and> (is_simple (Some v) \<or> v \<in> S))"

definition sim :: "'m machine \<Rightarrow> subst \<Rightarrow> 'm ir_state \<Rightarrow> 'm ir_state \<Rightarrow> bool" where
  "sim M r st st' \<longleftrightarrow>
     st_mem st = st_mem st' \<and>
     (\<forall>t. st_tmps st t = (case r t of None \<Rightarrow> st_tmps st' t | Some v \<Rightarrow> val_of M st' v))"

definition rel_result :: "('a \<Rightarrow> 'a \<Rightarrow> bool) \<Rightarrow> 'a result \<Rightarrow> 'a result \<Rightarrow> bool" where
  "rel_result R a b \<longleftrightarrow>
     (case a of Inl e \<Rightarrow> b = Inl e | Inr x \<Rightarrow> (case b of Inl _ \<Rightarrow> False | Inr y \<Rightarrow> R x y))"

lemma rel_result_simps [simp]:
  "rel_result R (Inl e) b \<longleftrightarrow> b = Inl e"
  "rel_result R (Inr x) (Inr y) \<longleftrightarrow> R x y"
  "\<not> rel_result R (Inr x) (Inl e)"
  by (simp_all add: rel_result_def)

lemma rel_result_bind:
  assumes "rel_result R a b"
    and "\<And>x y. a = Inr x \<Longrightarrow> b = Inr y \<Longrightarrow> R x y \<Longrightarrow> rel_result Q (f x) (g y)"
  shows "rel_result Q (rbind a f) (rbind b g)"
  using assms by (cases a; cases b) auto

lemma tmp_ids_simps [simp]:
  "tmp_ids None = {}"
  "tmp_ids (Some v) = (if val_kind v = IR_VAL_TMP then {irVarId (Some v)} else {})"
  by (simp_all add: tmp_ids_def)

lemma sub_okD:
  assumes "sub_ok U S r" "r t = Some v"
  shows "t \<in> U" "tmp_ids (Some v) \<subseteq> U" "\<forall>u \<in> tmp_ids (Some v). r u = None"
    "is_simple (Some v) \<or> v \<in> S"
  using assms unfolding sub_ok_def by blast+

lemma sub_ok_fresh: "sub_ok U S r \<Longrightarrow> t \<notin> U \<Longrightarrow> r t = None"
  using sub_okD(1) [of U S r t] by (cases "r t") auto

lemma sim_opd: "sim M r st st' \<Longrightarrow> opd M st v = opd M st' (subst_val r v)"
  by (cases v) (auto simp: opd_def subst_val_def sim_def val_of_def split: option.splits)

lemma sim_mem: "sim M r st st' \<Longrightarrow> st_mem st = st_mem st'"
  by (simp add: sim_def)

lemma st_mem_same [simp]: "st\<lparr>st_mem := st_mem st\<rparr> = (st :: 'm ir_state)"
  by (cases st) simp

lemma val_of_stable:
  assumes "is_simple (Some v) \<or> rd M (st_mem st1) v = rd M (st_mem st) v"
    and "\<forall>u \<in> tmp_ids (Some v). st_tmps st1 u = st_tmps st u"
  shows "val_of M st1 v = val_of M st v"
  using assms by (auto simp: val_of_def is_simple_def)

lemma sim_put:
  assumes sim: "sim M r st st'" and ok: "sub_ok U S r" and d: "tmp_ids d \<inter> U = {}"
    and S: "\<forall>v \<in> S. rd M (st_mem (put M (st\<lparr>st_mem := m\<rparr>) d w)) v = rd M (st_mem st) v"
  shows "sim M r (put M (st\<lparr>st_mem := m\<rparr>) d w) (put M (st'\<lparr>st_mem := m\<rparr>) d w)"
    (is "sim M r ?s ?s'")
proof -
  have mem: "st_mem ?s = st_mem ?s'" by (simp add: put_def split: option.splits)
  have tmps: "st_tmps ?s t = (if t \<in> tmp_ids d then w else st_tmps st t)"
    "st_tmps ?s' t = (if t \<in> tmp_ids d then w else st_tmps st' t)" for t
    by (auto simp: put_def split: option.splits)
  have "st_tmps ?s t = (case r t of None \<Rightarrow> st_tmps ?s' t | Some v \<Rightarrow> val_of M ?s' v)" for t
  proof (cases "r t")
    case (Some v)
    then have v: "t \<in> U" "tmp_ids (Some v) \<subseteq> U" "is_simple (Some v) \<or> v \<in> S"
      using ok by (auto simp: sub_ok_def)
    have "val_of M ?s' v = val_of M st' v"
    proof (rule val_of_stable)
      show "is_simple (Some v) \<or> rd M (st_mem ?s') v = rd M (st_mem st') v"
        using v(3) S mem sim_mem [OF sim] by auto
      show "\<forall>u \<in> tmp_ids (Some v). st_tmps ?s' u = st_tmps st' u"
      proof
        fix u assume "u \<in> tmp_ids (Some v)"
        then have "u \<notin> tmp_ids d" using v(2) d by blast
        then show "st_tmps ?s' u = st_tmps st' u" by (simp only: tmps if_False)
      qed
    qed
    moreover have "t \<notin> tmp_ids d" using v(1) d by blast
    then have "st_tmps ?s t = st_tmps st t" by (simp only: tmps if_False)
    moreover have "st_tmps st t = val_of M st' v" using sim Some by (simp add: sim_def)
    ultimately show ?thesis using Some by simp
  qed (use sim in \<open>auto simp: sim_def tmps\<close>)
  then show ?thesis using mem by (simp add: sim_def)
qed

section \<open>Resolving the operands\<close>

lemma subst_args_simps:
  "call_args (subst_args r v) = map (subst_val r) (call_args v)"
  "call_name (subst_args r v) = call_name v"
  by (auto simp: call_args_def subst_args_def call_name_def split: option.splits ir_value.splits ir_as.splits)

lemma subst_extra_simps:
  "phi_vals (subst_extra r ex) = map (subst_val r) (phi_vals ex)"
  "phi_blocks (subst_extra r ex) = phi_blocks ex"
  by (auto simp: phi_vals_def subst_extra_def phi_blocks_def split: option.splits ir_extra.splits)

lemma subst_instr_fields [simp]:
  "i_op (subst_instr r I) = i_op I"
  "i_r2 (subst_instr r I) = subst_val r (i_r2 I)"
  by (simp_all add: subst_instr_def)

lemma subst_val_not_tmp: "\<not> irIsTmp v \<Longrightarrow> subst_val r v = v"
  by (simp add: subst_val_def)

lemma skeleton_subst: "instr_wf I \<Longrightarrow> skeleton (subst_instr r I) = skeleton I"
  by (auto simp: skeleton_def subst_instr_def subst_args_simps subst_extra_simps instr_wf_def
      dst_is_input_def subst_val_not_tmp)

lemma more_opds_subst: "instr_wf I \<Longrightarrow> more_opds (subst_instr r I) = map (subst_val r) (more_opds I)"
  by (simp add: more_opds_def subst_instr_def subst_args_simps subst_extra_simps subst_val_def irIsTmp_def instr_wf_def)

lemma exec_other_subst:
  assumes sim: "sim M r st st'" and ok: "sub_ok U S r" and wf: "instr_wf I"
    and d: "defs I \<inter> U = {}"
    and S: "\<And>st1. exec_other M I st = Inr st1 \<Longrightarrow> \<forall>v \<in> S. rd M (st_mem st1) v = rd M (st_mem st) v"
  shows "rel_result (sim M r) (exec_other M I st) (exec_other M (subst_instr r I) st')"
proof -
  let ?J = "subst_instr r I"
  let ?d = "if dst_is_input (i_op I) then None else i_dst I"
  let ?e = "eff M (skeleton I) (if i_op I \<in> {IR_CALL, IR_LEA} then None else opd M st (i_r1 I))
    (opd M st (i_r2 I)) (if dst_is_input (i_op I) then opd M st (i_dst I) else None)
    (map (opd M st) (more_opds I)) (st_mem st)"
  have opds: "opd M st = (\<lambda>v. opd M st' (subst_val r v))"
    using sim_opd [OF sim] by blast
  have "eff M (skeleton ?J) (if i_op ?J \<in> {IR_CALL, IR_LEA} then None else opd M st' (i_r1 ?J))
      (opd M st' (i_r2 ?J)) (if dst_is_input (i_op ?J) then opd M st' (i_dst ?J) else None)
      (map (opd M st') (more_opds ?J)) (st_mem st') = ?e"
    using sim_mem [OF sim] opds
    by (simp add: skeleton_subst [OF wf] more_opds_subst [OF wf] o_def) (simp add: subst_instr_def)
  moreover have "(if dst_is_input (i_op ?J) then None else i_dst ?J) = ?d"
    by (simp add: subst_instr_def)
  ultimately have J: "exec_other M ?J st' = rbind ?e (\<lambda>(m, w). Inr (put M (st'\<lparr>st_mem := m\<rparr>) ?d w))"
    by (simp only: exec_other_def)
  have I: "exec_other M I st = rbind ?e (\<lambda>(m, w). Inr (put M (st\<lparr>st_mem := m\<rparr>) ?d w))"
    by (simp only: exec_other_def)
  show ?thesis
  proof (cases ?e)
    case (Inr p)
    obtain m w where p: "p = (m, w)" by (cases p)
    have "exec_other M I st = Inr (put M (st\<lparr>st_mem := m\<rparr>) ?d w)" using I Inr p by simp
    then show ?thesis
      using sim_put [OF sim ok, of ?d m w] S d J Inr p
      by (auto simp: defs_def split: if_splits)
  qed (simp add: I J)
qed

lemma sem_result_plain:
  assumes "sem_result M op k a b = Some res"
  shows "\<not> dst_is_input op" "op \<noteq> IR_CALL" "op \<noteq> IR_NOP"
  using assms by (auto simp: sem_result_def is_binop_def dst_is_input_def split: option.splits if_splits)

lemma sim_put_same:
  assumes "sim M r st st'" "sub_ok U S r" "tmp_ids d \<inter> U = {}"
    and "\<forall>v \<in> S. rd M (st_mem (put M st d w)) v = rd M (st_mem st) v"
  shows "sim M r (put M st d w) (put M st' d w)"
proof -
  have "st'\<lparr>st_mem := st_mem st\<rparr> = st'" using sim_mem [OF assms(1)] by simp
  then show ?thesis using sim_put [OF assms(1-3), of "st_mem st" w] assms(4) by simp
qed

lemma exec_subst:
  assumes sim: "sim M r st st'" and ok: "sub_ok U S r" and wf: "instr_wf I"
    and d: "defs I \<inter> U = {}" and S: "keeps M S I"
  shows "rel_result (sim M r) (exec M I st) (exec M (subst_instr r I) st')"
proof -
  let ?J = "subst_instr r I"
  have keep: "exec M I st = Inr st1 \<Longrightarrow> \<forall>v \<in> S. rd M (st_mem st1) v = rd M (st_mem st) v" for st1
    using S by (auto simp: keeps_def)
  have other: "rel_result (sim M r) (exec_other M I st) (exec_other M ?J st')"
    if "exec M I st = exec_other M I st"
    using exec_other_subst [OF sim ok wf d] keep that by simp
  have put: "sim M r (put M st (i_dst I) w) (put M st' (i_dst ?J) w)"
    if "exec M I st = Inr (put M st (i_dst I) w)" "\<not> dst_is_input (i_op I)" for w
    using sim_put_same [OF sim ok, of "i_dst I" w] keep [OF that(1)] d that(2)
    by (simp add: defs_def subst_instr_def)
  let ?v = "\<lambda>I st. sem_result M (i_op I) (eval_cmp_kind I) (opd M st (i_r1 I)) (opd M st (i_r2 I))"
  have same: "?v ?J st' = ?v I st"
  proof (cases "i_op I = IR_CALL \<or> i_op I = IR_PHI")
    case False
    then show ?thesis
      using sim_opd [OF sim, of "i_r1 I"] sim_opd [OF sim, of "i_r2 I"]
      by (simp add: subst_instr_def eval_cmp_kind_def)
  qed (auto simp: sem_result_def is_binop_def split: option.splits)
  show ?thesis
  proof (cases "?v I st")
    case None
    then show ?thesis
      using other sim same by (simp add: exec_def)
  next
    case (Some res)
    note plain = sem_result_plain [OF Some]
    show ?thesis
    proof (cases res)
      case (Inr w)
      then have "exec M I st = Inr (put M st (i_dst I) w)"
        using Some plain by (simp add: exec_def)
      moreover have "exec M ?J st' = Inr (put M st' (i_dst ?J) w)"
        using Some same plain Inr by (simp add: exec_def)
      ultimately show ?thesis using put plain(1) by simp
    qed (use Some same plain in \<open>simp add: exec_def\<close>)
  qed
qed

section \<open>The folds\<close>

lemma irEvalBinop_is_binop: "irEvalBinop op a b = Some w \<Longrightarrow> is_binop op"
  by (cases op) (simp_all add: irEvalBinop_def is_binop_def)

lemma const_of_irConstInt [simp]: "const_of (Some (irConstInt t w)) = w"
  by (simp add: const_of_def)

lemma opd_const: "irIsConstInt v \<Longrightarrow> opd M st v = Some (const_of v)"
  by (elim irIsConstIntE) (simp add: opd_def val_of_def)

lemma opd_Some: "opd M st (Some v) = Some (val_of M st v)"
  by (simp add: opd_def)

lemma exec_value:
  assumes "opd M st (i_r1 I) = Some a" "opd M st (i_r2 I) = Some b"
    and "irEvalBinop (i_op I) a b = Some w"
  shows "exec M I st = Inr (put M st (i_dst I) w)"
  using assms irEvalBinop_is_binop [OF assms(3)]
  by (auto simp: exec_def sem_result_def sem_binop_eval is_binop_def)

lemma exec_eval_const:
  assumes "eval_const I = Some w"
  shows "exec M I st = Inr (put M st (i_dst I) w)"
proof (cases "i_op I = IR_ICMP")
  case True
  then have c: "irIsConstInt (i_r1 I)" "irIsConstInt (i_r2 I)"
    and e: "irEvalCmp (eval_cmp_kind I) (const_of (i_r1 I)) (const_of (i_r2 I)) = Some w"
    using assms by (auto simp: eval_const_def split: if_splits)
  then obtain t where "sem_cmp (eval_cmp_kind I) (const_of (i_r1 I)) (const_of (i_r2 I)) = Some t"
    "w = (if t then 1 else 0)"
    by (auto simp: sem_cmp_eval)
  then show ?thesis
    using True c by (simp add: exec_def sem_result_def opd_const is_binop_def)
next
  case False
  then have "irIsConstInt (i_r1 I)" "irIsConstInt (i_r2 I)"
    "irEvalBinop (i_op I) (const_of (i_r1 I)) (const_of (i_r2 I)) = Some w"
    using assms by (auto simp: eval_const_def split: if_splits)
  then show ?thesis using exec_value [of M st I _ _ w] by (simp add: opd_const)
qed

lemma s64_div_one: "s64_div a 1 = a"
  by (simp add: s64_div_def)

lemma canfold_binop:
  "irEvalCanFold I True k \<Longrightarrow> irEvalBinop (i_op I) x k = Some x"
  "irEvalCanFold I False k \<Longrightarrow> irEvalBinop (i_op I) k x = Some x"
  by (auto simp: irEvalCanFold_def irEvalBinop_def s64_div_one shift_guard)

lemma ctz_from_bit:
  "\<lbrakk>\<forall>j < n. \<not> bit k j; \<exists>j < n + f. bit k j\<rbrakk> \<Longrightarrow>
   bit k (ctz_from f n k) \<and> ctz_from f n k < n + f \<and> (\<forall>j < ctz_from f n k. \<not> bit k j)"
proof (induction f arbitrary: n)
  case (Suc f)
  show ?case
  proof (cases "bit k n")
    case False
    then have "\<forall>j < Suc n. \<not> bit k j" using Suc.prems(1) less_Suc_eq by auto
    then show ?thesis using Suc.IH [of "Suc n"] Suc.prems(2) False by simp
  qed (use Suc.prems in simp)
qed auto

lemma ctz_bits:
  assumes "k \<noteq> 0"
  shows "bit k (builtin_ctzll k)" "builtin_ctzll k < 64" "\<forall>j < builtin_ctzll k. \<not> bit k j"
proof -
  obtain j where "bit k j" using assms bit_eq_iff [of k 0] by auto
  then have "j < 64" using bit_imp_le_length [of k j] by simp
  then show "bit k (builtin_ctzll k)" "builtin_ctzll k < 64" "\<forall>j < builtin_ctzll k. \<not> bit k j"
    using ctz_from_bit [of 0 k 64] \<open>bit k j\<close> by (auto simp: builtin_ctzll_def)
qed

text \<open>A word whose lowest set bit is its only one is the power of two of its trailing zeros.\<close>

lemma pow2_ctz:
  fixes k :: u64
  assumes "k \<noteq> 0" "k AND (k - 1) = 0"
  shows "k = 2 ^ builtin_ctzll k"
proof -
  let ?n = "builtin_ctzll k"
  note b = ctz_bits [OF assms(1)]
  define m where "m = k AND NOT (2 ^ ?n)"
  have mbit: "bit m j \<longleftrightarrow> bit k j \<and> j \<noteq> ?n" for j
    using b(2) by (auto simp: m_def bit_simps dest: bit_imp_le_length)
  have k: "k = m + 2 ^ ?n"
  proof -
    have "m + 2 ^ ?n = m OR 2 ^ ?n"
      by (rule disjunctive_add) (auto simp: mbit bit_simps)
    also have "\<dots> = k"
      by (rule bit_word_eqI) (use b in \<open>auto simp: bit_or_iff mbit bit_simps\<close>)
    finally show ?thesis by simp
  qed
  then have "k - 1 = m + mask ?n" by (simp add: mask_eq_exp_minus_1)
  also have "\<dots> = m OR mask ?n"
    by (rule disjunctive_add) (use b in \<open>auto simp: mbit bit_mask_iff\<close>)
  finally have "m AND (k AND (k - 1)) = m"
    by (intro bit_word_eqI) (auto simp: bit_simps mbit)
  then have "m = 0" using assms(2) by simp
  then show ?thesis using k by simp
qed

lemma mul_pow2:
  assumes "1 <s k" "k AND (k - 1) = 0"
  shows "irEvalBinop IR_IMUL x k = irEvalBinop IR_SHL x (of_nat (builtin_ctzll k))"
proof -
  have "k \<noteq> 0" using assms(1) by (auto simp: word_sless_alt)
  then have k: "k = 2 ^ builtin_ctzll k" and n: "builtin_ctzll k < 64"
    using pow2_ctz assms(2) ctz_bits(2) by auto
  have u: "unat (of_nat (builtin_ctzll k) :: u64) = builtin_ctzll k"
    using n by (simp add: unat_of_nat_u64)
  have "x * k = push_bit (builtin_ctzll k) x"
    using k by (simp add: push_bit_eq_mult)
  then show ?thesis using u n by (simp add: irEvalBinop_def shift_guard)
qed

section \<open>One step of the pass\<close>

text \<open>Dropping an assignment to a fresh temporary and forwarding a value that has its result.\<close>

lemma sim_forward:
  assumes sim: "sim M r s1 (put M st' (Some d) w)" and d: "val_kind d = IR_VAL_TMP"
    and ok: "sub_ok U S r" and t: "irVarId (Some d) \<notin> U"
    and v: "val_of M st' v = w" 
  shows "sim M (subst_add r (irVarId (Some d)) v) s1 st'"
proof -
  let ?t = "irVarId (Some d)"
  have r: "r ?t = None" using sub_ok_fresh [OF ok t] .
  have put: "st_mem (put M st' (Some d) w) = st_mem st'"
    "st_tmps (put M st' (Some d) w) = (st_tmps st')(?t := w)"
    using d by (simp_all add: put_def)
  have "val_of M (put M st' (Some d) w) x = val_of M st' x" if "r u = Some x" for u x
    using sub_okD(2) [OF ok that] t by (intro val_of_stable) (auto simp: put)
  then have "st_tmps s1 u = (case subst_add r ?t v u of None \<Rightarrow> st_tmps st' u | Some x \<Rightarrow> val_of M st' x)" for u
    using sim v r put by (auto simp: sim_def subst_add_def split: option.splits)
  then show ?thesis using sim put by (simp add: sim_def)
qed

lemma sub_ok_mono: "sub_ok U S r \<Longrightarrow> U \<subseteq> U' \<Longrightarrow> sub_ok U' S r"
  by (fastforce simp: sub_ok_def)

lemma sub_ok_add:
  assumes ok: "sub_ok U S r" and t: "t \<notin> U" "t \<in> U'" "U \<subseteq> U'"
    and v: "tmp_ids (Some v) \<subseteq> U'" "t \<notin> tmp_ids (Some v)" "\<forall>u \<in> tmp_ids (Some v). r u = None"
      "is_simple (Some v) \<or> v \<in> S"
  shows "sub_ok U' S (subst_add r t v)"
  unfolding sub_ok_def
proof (intro allI impI)
  fix u x assume x: "subst_add r t v u = Some x"
  have r: "r t = None" using sub_ok_fresh [OF ok t(1)] .
  show "u \<in> U' \<and> tmp_ids (Some x) \<subseteq> U' \<and> (\<forall>u \<in> tmp_ids (Some x). subst_add r t v u = None) \<and>
      (is_simple (Some x) \<or> x \<in> S)"
  proof (cases "u = t")
    case True
    then show ?thesis using x r t v by (auto simp: subst_add_def split: if_splits)
  next
    case False
    then have "r u = Some x" using x r by (auto simp: subst_add_def split: if_splits)
    note sub_okD [OF ok this]
    then show ?thesis using t by (auto simp: subst_add_def split: if_splits)
  qed
qed

text \<open>What a resolved operand is.\<close>

lemma subst_val_ok:
  assumes ok: "sub_ok U S r" and x: "subst_val r v = Some x"
  shows "tmp_ids (Some x) \<subseteq> U \<union> tmp_ids v" "\<forall>u \<in> tmp_ids (Some x). r u = None"
    "v = Some x \<or> is_simple v \<and> (is_simple (Some x) \<or> x \<in> S)"
proof -
  have "v = Some x \<and> (irIsTmp v \<longrightarrow> r (irVarId v) = None) \<or>
      irIsTmp v \<and> r (irVarId v) = Some x"
    using x by (auto simp: subst_val_def split: if_splits option.splits)
  then show "tmp_ids (Some x) \<subseteq> U \<union> tmp_ids v" "\<forall>u \<in> tmp_ids (Some x). r u = None"
    "v = Some x \<or> is_simple v \<and> (is_simple (Some x) \<or> x \<in> S)"
    using sub_okD [OF ok, of "irVarId v" x] by (auto simp: is_simple_def)
qed

lemma subst_val_const: "irIsConstInt (subst_val r v) \<Longrightarrow> is_simple v"
  by (auto simp: subst_val_def is_simple_def split: if_splits)

lemma is_simple_const: "irIsConstInt v \<Longrightarrow> is_simple v"
  by (simp add: is_simple_def)

text \<open>The result of the algebraic folds, case by case.\<close>

lemma spec_algebra_cases:
  assumes "spec_algebra r J = Some (r', J')"
  obtains (forward) d x where "i_dst J = Some d" "val_kind d = IR_VAL_TMP"
      "r' = subst_add r (irVarId (Some d)) x" "J' = eval_nop J" "is_binop (i_op J)"
      "i_r1 J = Some x \<and> irIsConstInt (i_r2 J) \<or> i_r2 J = Some x \<and> irIsConstInt (i_r1 J)"
      "\<forall>(M :: 'm machine) st. exec M J st = Inr (put M st (i_dst J) (val_of M st x))"
  | (zero) d where "i_dst J = Some d" "val_kind d = IR_VAL_TMP"
      "r' = subst_add r (irVarId (Some d)) (irConstInt (val_type d) 0)" "J' = eval_nop J"
      "\<forall>(M :: 'm machine) st. exec M J st = Inr (put M st (i_dst J) 0)"
  | (shift) "r' = r" "\<forall>(M :: 'm machine) st. exec M J' st = exec M J st"
proof -
  obtain d where d: "i_dst J = Some d" "val_kind d = IR_VAL_TMP"
    using assms by (auto simp: spec_algebra_def elim: irIsTmpE split: if_splits)
  let ?k2 = "irIsConstInt (i_r2 J)"
  obtain c x where c: "irIsConstInt (Some c)" and sel:
    "?k2 \<and> i_r2 J = Some c \<and> i_r1 J = Some x \<or> \<not> ?k2 \<and> i_r1 J = Some c \<and> i_r2 J = Some x"
    using assms by (auto simp: spec_algebra_def Let_def split: if_splits)
  let ?k = "const_of (Some c)"
  have res: "(r', J') =
      (if irEvalCanFold J ?k2 ?k then (subst_add r (irDstVarId J) x, eval_nop J)
       else if i_op J \<in> {IR_IMUL, IR_AND} \<and> ?k = 0
       then (subst_add r (irDstVarId J) (irConstInt (val_type d) 0), eval_nop J)
       else (r, J\<lparr>i_op := IR_SHL, i_r2 := Some (irConstInt (val_type c) (of_nat (builtin_ctzll ?k)))\<rparr>))"
    and sh: "irEvalCanFold J ?k2 ?k \<or> i_op J \<in> {IR_IMUL, IR_AND} \<and> ?k = 0 \<or>
      i_op J = IR_IMUL \<and> ?k2 \<and> 1 <s ?k \<and> ?k AND (?k - 1) = 0"
    using assms sel c d by (auto simp: spec_algebra_def Let_def split: if_splits)
  have id: "irDstVarId J = irVarId (Some d)" using d by (simp add: irDstVarId_def)
  have ops: "?k2 \<and> opd M st (i_r1 J) = Some (val_of M st x) \<and> opd M st (i_r2 J) = Some ?k \<or>
      \<not> ?k2 \<and> opd M st (i_r1 J) = Some ?k \<and> opd M st (i_r2 J) = Some (val_of M st x)"
    for M :: "'m machine" and st
  proof -
    have "val_of M st c = ?k" using c by (simp add: val_of_def)
    then show ?thesis using sel by (auto simp: opd_Some)
  qed
  show thesis
  proof (cases "irEvalCanFold J ?k2 ?k")
    case True
    have b: "?k2 \<and> irEvalBinop (i_op J) y ?k = Some y \<or> \<not> ?k2 \<and> irEvalBinop (i_op J) ?k y = Some y" for y
      using True canfold_binop [of J ?k y] by (cases ?k2) auto
    have "exec M J st = Inr (put M st (i_dst J) (val_of M st x))" for M :: "'m machine" and st
      using ops [of M st] b [of "val_of M st x"] by (auto intro: exec_value)
    moreover have "is_binop (i_op J)" using b irEvalBinop_is_binop by blast
    ultimately show thesis
      using forward [of d x] d res True id sel c by auto
  next
    case nofold: False
    show thesis
    proof (cases "i_op J \<in> {IR_IMUL, IR_AND} \<and> ?k = 0")
      case True
      then have "irEvalBinop (i_op J) y ?k = Some 0" "irEvalBinop (i_op J) ?k y = Some 0" for y
        by (auto simp: irEvalBinop_def)
      then have "exec M J st = Inr (put M st (i_dst J) 0)" for M :: "'m machine" and st
        using ops [of M st] by (auto intro: exec_value)
      then show thesis using zero [of d] d res nofold True id by auto
    next
      case False
      then have J': "r' = r" "i_op J = IR_IMUL" "?k2" "1 <s ?k" "?k AND (?k - 1) = 0"
        "J' = J\<lparr>i_op := IR_SHL, i_r2 := Some (irConstInt (val_type c) (of_nat (builtin_ctzll ?k)))\<rparr>"
        using res sh nofold by auto
      have "exec M J' st = exec M J st" for M :: "'m machine" and st
      proof -
        obtain w where w: "irEvalBinop IR_IMUL (val_of M st x) ?k = Some w"
          by (simp add: irEvalBinop_def)
        then have "exec M J st = Inr (put M st (i_dst J) w)"
          using ops [of M st] J' by (auto intro: exec_value)
        moreover have "exec M J' st = Inr (put M st (i_dst J') w)"
          using ops [of M st] J' w mul_pow2 [of ?k "val_of M st x"]
          by (intro exec_value) (auto simp: opd_const)
        ultimately show ?thesis using J' by simp
      qed
      then show thesis using shift J'(1) by blast
    qed
  qed
qed

lemma spec_fold_cases:
  assumes "spec_fold r J = (r', J', ch)"
  obtains (kept) "r' = r" "J' = J"
  | (const) d w where "i_dst J = Some d" "val_kind d = IR_VAL_TMP" "eval_const J = Some w"
      "r' = subst_add r (irVarId (Some d)) (irConstInt (val_type d) w)" "J' = eval_nop J"
  | (store) d w where "i_dst J = Some d" "val_kind d = IR_VAL_LOCAL" "eval_const J = Some w"
      "r' = r" "J' = J\<lparr>i_op := IR_STORE, i_r1 := Some (irConstInt (val_type d) w), i_r2 := None\<rparr>"
  | (algebra) "spec_algebra r J = Some (r', J')"
proof (cases "eval_const J = None \<or> i_dst J = None")
  case True
  then have "(case spec_algebra r J of Some (r, I) \<Rightarrow> (r, I, True) | None \<Rightarrow> (r, J, False)) = (r', J', ch)"
    using assms by (auto simp: spec_fold_def split: option.splits)
  then show thesis using that(1,4) by (auto split: option.splits)
next
  case False
  then obtain w d where "eval_const J = Some w" "i_dst J = Some d" by auto
  then show thesis
    using assms that(1-3) by (auto simp: spec_fold_def irDstVarId_def split: if_splits)
qed

lemma exec_nop [simp]: "exec M (eval_nop I) st = Inr st"
  by (simp add: exec_def eval_nop_def)

lemma sim_step:
  assumes sim: "sim M r st st'" and ok: "sub_ok U S r" and wf: "instr_wf I"
    and fw: "forwards_in S I" and keep: "keeps M S I" and def: "defs I \<inter> (U \<union> uses I) = {}"
    and fold: "spec_fold r (subst_instr r I) = (r', J', ch)"
  shows "rel_result (sim M r') (exec M I st) (exec M J' st') \<and> sub_ok (U \<union> uses I \<union> defs I) S r'"
proof -
  let ?J = "subst_instr r I" and ?U = "U \<union> uses I \<union> defs I"
  have rel: "rel_result (sim M r) (exec M I st) (exec M ?J st')"
    using exec_subst [OF sim ok wf _ keep] def by blast
  have mono: "sub_ok ?U S r" using sub_ok_mono [OF ok, of ?U] by blast
  have fresh: "irVarId (Some d) \<notin> U" "irVarId (Some d) \<notin> uses I" "irVarId (Some d) \<in> ?U"
    if "i_dst ?J = Some d" "val_kind d = IR_VAL_TMP" "\<not> dst_is_input (i_op I)" for d
    using that def by (auto simp: defs_def subst_instr_def)
  have forward: "rel_result (sim M (subst_add r (irVarId (Some d)) v)) (exec M I st) (Inr st')"
    if "i_dst ?J = Some d" "val_kind d = IR_VAL_TMP" "\<not> dst_is_input (i_op I)"
      "exec M ?J st' = Inr (put M st' (i_dst ?J) (val_of M st' v))" for d v
    using rel that sim_forward [OF _ that(2) ok fresh(1) [OF that(1-3)] refl, of M _ st' v]
    by (cases "exec M I st") auto
  have binop_plain: "is_binop (i_op I) \<Longrightarrow> \<not> dst_is_input (i_op I)"
    by (auto simp: is_binop_def dst_is_input_def)
  have fold_const: "rel_result (sim M (subst_add r (irVarId (Some d)) (irConstInt ty w))) (exec M I st) (Inr st')
      \<and> sub_ok ?U S (subst_add r (irVarId (Some d)) (irConstInt ty w))"
    if "i_dst ?J = Some d" "val_kind d = IR_VAL_TMP" "\<not> dst_is_input (i_op I)"
      "exec M ?J st' = Inr (put M st' (i_dst ?J) w)" for d w ty
  proof
    have "val_of M st' (irConstInt ty w) = w" by (simp add: val_of_def const_of_def)
    then show "rel_result (sim M (subst_add r (irVarId (Some d)) (irConstInt ty w))) (exec M I st) (Inr st')"
      using forward [of d "irConstInt ty w"] that by simp
    show "sub_ok ?U S (subst_add r (irVarId (Some d)) (irConstInt ty w))"
      using fresh [OF that(1-3)] by (intro sub_ok_add [OF ok]) (auto simp: is_simple_def)
  qed
  from fold show ?thesis
  proof (cases rule: spec_fold_cases)
    case kept
    then show ?thesis using rel mono by simp
  next
    case (const d w)
    have "is_binop (i_op I) \<or> i_op I = IR_ICMP"
      using const(3) irEvalBinop_is_binop by (auto simp: eval_const_def split: if_splits)
    then have "\<not> dst_is_input (i_op I)" using binop_plain by (auto simp: dst_is_input_def)
    then show ?thesis
      using const fold_const [OF const(1,2)] exec_eval_const [OF const(3), of M st'] by simp
  next
    case (store d w)
    have "exec M J' st' = Inr (put M st' (i_dst ?J) w)"
      using store by (simp add: exec_def sem_result_def opd_def val_of_def const_of_def)
    then show ?thesis using rel mono store(4) exec_eval_const [OF store(3), of M st'] by simp
  next
    case algebra
    then show ?thesis
    proof (cases rule: spec_algebra_cases [where ?'m = 'a])
      case fwd: (forward d x)
      have bin: "is_binop (i_op I)" "irIsTmp (i_dst I)" "i_op I \<noteq> IR_CALL"
        using fwd(1,2,5) by (auto simp: subst_instr_def dst_is_input_def is_binop_def split: if_splits)
      have src: "\<exists>v \<in> {i_r1 I, i_r2 I}. subst_val r v = Some x \<and> (v = Some x \<and> \<not> is_simple v \<longrightarrow> x \<in> S)"
        using fwd(6) fw bin subst_val_const [of r "i_r1 I"] subst_val_const [of r "i_r2 I"]
        by (auto simp: subst_instr_def forwards_in_def)
      then obtain v where v: "v \<in> {i_r1 I, i_r2 I}" "subst_val r v = Some x"
        "v = Some x \<and> \<not> is_simple v \<longrightarrow> x \<in> S" by blast
      note x = subst_val_ok [OF ok v(2)]
      have U: "tmp_ids v \<subseteq> uses I" using v(1) by (auto simp: uses_def)
      note f = fresh [OF fwd(1,2) binop_plain [OF bin(1)]]
      have "sub_ok ?U S (subst_add r (irVarId (Some d)) x)"
        using x U f v(3) by (intro sub_ok_add [OF ok]) auto
      then show ?thesis
        using forward [OF fwd(1,2) binop_plain [OF bin(1)]] fwd(3,4,7) by simp
    next
      case (zero d)
      have "\<not> dst_is_input (i_op I)"
        using algebra by (auto simp: spec_algebra_def irEvalCanFold_def dst_is_input_def Let_def
            split: if_splits)
      then show ?thesis using zero fold_const [OF zero(1,2)] by simp
    next
      case shift
      then show ?thesis using rel mono by simp
    qed
  qed
qed

lemma sim_run:
  assumes "sim M r st st'" "sub_ok U S r" "ssa U Is" "\<forall>I \<in> set Is. instr_wf I \<and> forwards_in S I \<and> keeps M S I"
    and "spec_instrs r Is = (r', Is', n)"
  shows "rel_result (sim M r') (run M Is st) (run M Is' st')"
  using assms
proof (induction Is arbitrary: r U st st' Is' n)
  case (Cons I Is)
  obtain r1 J c where J: "spec_fold r (subst_instr r I) = (r1, J, c)" by (metis prod_cases3)
  obtain Js k where Js: "spec_instrs r1 Is = (r', Js, k)" "Is' = J # Js"
    using Cons.prems(5) J by (auto simp: Let_def split: prod.splits)
  have step: "rel_result (sim M r1) (exec M I st) (exec M J st')" "sub_ok (U \<union> uses I \<union> defs I) S r1"
    using sim_step [OF Cons.prems(1,2) _ _ _ _ J] Cons.prems(3,4) by auto
  show ?case
    using Cons.IH [OF _ step(2) _ _ Js(1)] Cons.prems(3,4) Js(2)
    by (auto intro!: rel_result_bind [OF step(1)])
qed auto

lemma sim_refl: "sim M (\<lambda>_. None) st st" "sub_ok {} S (\<lambda>_. None)"
  by (simp_all add: sim_def sub_ok_def)

lemma spec_instrs_append:
  "spec_instrs r (xs @ ys) =
     (let (r1, xs', a) = spec_instrs r xs; (r2, ys', b) = spec_instrs r1 ys in (r2, xs' @ ys', a + b))"
  by (induction xs arbitrary: r) (auto simp: Let_def split: prod.splits)

lemma spec_instrs_length: "spec_instrs r xs = (r', xs', n) \<Longrightarrow> length xs' = length xs"
  by (induction xs arbitrary: r xs' n) (auto simp: Let_def split: prod.splits)

lemma eval_blocks_rep:
  assumes "res_rep m r (length (concat (map bb_instructions bs)))"
    "\<forall>I \<in> set (concat (map bb_instructions bs)). instr_wf I"
    "spec_instrs r (concat (map bb_instructions bs)) = (r', Is', n)"
  shows "\<exists>bs'. eval_blocks m bs = Inr (bs', n) \<and> concat (map bb_instructions bs') = Is' \<and>
    map bb_id bs' = map bb_id bs \<and>
    map (\<lambda>b. length (bb_instructions b)) bs' = map (\<lambda>b. length (bb_instructions b)) bs"
  using assms
proof (induction bs arbitrary: m r Is' n)
  case (Cons b bs)
  let ?A = "bb_instructions b" and ?B = "concat (map bb_instructions bs)"
  obtain r1 As a where A: "spec_instrs r ?A = (r1, As, a)" by (metis prod_cases3)
  obtain Bs k where B: "spec_instrs r1 ?B = (r', Bs, k)" "Is' = As @ Bs" "n = a + k"
    using Cons.prems(3) A spec_instrs_append [of r ?A ?B] by (auto split: prod.splits)
  obtain m1 where m1: "eval_instrs m ?A = Inr (m1, As, a)" "res_rep m1 r1 (length ?B)"
    using eval_instrs_rep [OF _ _ A, of m "length ?B"] Cons.prems by auto
  obtain bs' where bs': "eval_blocks m1 bs = Inr (bs', k)" "concat (map bb_instructions bs') = Bs"
    "map bb_id bs' = map bb_id bs"
    "map (\<lambda>b. length (bb_instructions b)) bs' = map (\<lambda>b. length (bb_instructions b)) bs"
    using Cons.IH [OF m1(2) _ B(1)] Cons.prems(2) by auto
  have "length As = length ?A" using spec_instrs_length [OF A] .
  then show ?case using m1 bs' B by (auto simp: irEvalBlock_def)
qed auto

section \<open>Properties\<close>

text \<open>
  The constant folder of \<^verbatim>\<open>irEvalBinop\<close> and \<^verbatim>\<open>irEvalCmp\<close> is exact: on every opcode and
  every pair of 64-bit operands it returns the wrapped result of the mathematical operation,
  and it declines exactly where the operation is undefined (division by zero, the one overflowing
  division, a shift by 64 or more) or is not one it knows; comparisons answer 1 or 0 by the
  signed or unsigned order their kind asks for.
\<close>

theorem irEvalBinop_exact:
  "sem_binop M op a b = (case irEvalBinop op a b of Some v \<Rightarrow> Inr v | None \<Rightarrow> und M op a b) \<and>
   irEvalCmp kind a b = map_option (\<lambda>t. if t then 1 else 0) (sem_cmp kind a b)"
  using sem_binop_eval sem_cmp_eval by blast


text \<open>
  A function that computes \<open>(a + 0) * 8 + (2 + 3)\<close> from a loaded \<open>a\<close> and stores it: the addition
  of 0 and the constant sum disappear and the multiplication becomes a shift.
\<close>

definition wit_tmp :: "u32 \<Rightarrow> ir_value option" where
  "wit_tmp n = Some (IrValue IR_TYPE_I64 IR_VAL_TMP 0 NULL (As_var n 8))"

definition wit_var :: "ir_value_kind \<Rightarrow> u32 \<Rightarrow> ir_value option" where
  "wit_var k n = Some (IrValue IR_TYPE_I64 k 0 NULL (As_var n 8))"

definition wit_const :: "u64 \<Rightarrow> ir_value option" where
  "wit_const c = Some (irConstInt IR_TYPE_I64 c)"

definition wit_instrs :: "ir_instr list" where
  "wit_instrs =
     [irInstrNew 1 IR_LOAD (wit_tmp 1) (wit_var IR_VAL_PARAM 1) None,
      irInstrNew 1 IR_IADD (wit_tmp 2) (wit_tmp 1) (wit_const 0),
      irInstrNew 1 IR_IMUL (wit_tmp 3) (wit_tmp 2) (wit_const 8),
      irInstrNew 1 IR_IADD (wit_tmp 4) (wit_const 2) (wit_const 3),
      irInstrNew 1 IR_IADD (wit_tmp 5) (wit_tmp 3) (wit_tmp 4),
      irInstrNew 1 IR_STORE (wit_var IR_VAL_LOCAL 2) (wit_tmp 5) None]"

definition wit_block :: ir_block where
  "wit_block = \<lparr>bb_id = 1, bb_removed = False, bb_sealed = True, bb_instructions = wit_instrs\<rparr>"

definition wit_machine :: "(u32 \<Rightarrow> u64) machine" where
  "wit_machine = \<lparr>rd = (\<lambda>m v. m (irVarId (Some v))), wr = (\<lambda>m v w. m(irVarId (Some v) := w)),
     und = (\<lambda>_ _ _. Inl AssertFail),
     eff = (\<lambda>_ a _ _ _ m. case a of Some w \<Rightarrow> Inr (m, w) | None \<Rightarrow> Inl NullDeref)\<rparr>"

lemmas wit_defs = wit_block_def wit_instrs_def wit_tmp_def wit_var_def wit_const_def irInstrNew_def


end
