(* ===== verification/IrRegAlloc.thy ===== *)
theory IrRegAlloc
  imports IrEval_Correct
begin

text \<open>
  The stack slots of \<^verbatim>\<open>src/src/ir-regalloc.c\<close>: the map from variables to frame offsets, the slots an
  instruction's operands need, and the linear scan that lets temporaries with separate live ranges share one.
  The map \<^verbatim>\<open>id_to_loff\<close> of a context is the partial function \<open>ra_id_to_loff\<close>. The location of an \<^verbatim>\<open>IrValue\<close> is kept by
  variable number in \<open>ra_loc\<close>, since all references to a temporary share one \<^verbatim>\<open>IrValue\<close>. A \<^verbatim>\<open>loggerPanic\<close> ends the
  compiler; it is the fault \<open>AssertFail\<close>. Frame offsets are C \<^verbatim>\<open>int\<close>s and are integers here: a frame is far below
  2 GiB.
\<close>

section \<open>The context\<close>

datatype ir_loc = IR_LOC_NONE | IR_LOC_REG string | IR_LOC_SLOT int | IR_LOC_IMM int

record ra_ctx =
  ra_id_to_loff :: "u32 \<rightharpoonup> int"
  ra_extra_stack :: int
  ra_loc :: "u32 \<Rightarrow> ir_loc"

definition irCgSetLoff :: "ra_ctx \<Rightarrow> u32 \<Rightarrow> int \<Rightarrow> ra_ctx result" where
  "irCgSetLoff ra var_id loff =
     (if ra_id_to_loff ra var_id \<noteq> None then Inl AssertFail
      else Inr (ra\<lparr>ra_id_to_loff := (ra_id_to_loff ra)(var_id \<mapsto> loff)\<rparr>))"

definition irCgGetLoff :: "ra_ctx \<Rightarrow> ir_value option \<Rightarrow> int result" where
  "irCgGetLoff ra val =
     (case val of
        None \<Rightarrow> Inl AssertFail
      | Some v \<Rightarrow> (case ra_id_to_loff ra (irVarId (Some v)) of None \<Rightarrow> Inl AssertFail | Some loff \<Rightarrow> Inr loff))"

definition irCgAllocTmp :: "ra_ctx \<Rightarrow> ir_value option \<Rightarrow> int \<Rightarrow> ra_ctx result" where
  "irCgAllocTmp ra val starting_offset =
     (if \<not> irIsTmp val then Inr ra
      else if ra_id_to_loff ra (irVarId val) \<noteq> None then Inr ra
      else (let ra = ra\<lparr>ra_extra_stack := ra_extra_stack ra + 8\<rparr>
            in irCgSetLoff ra (irVarId val) (- (starting_offset + ra_extra_stack ra))))"

text \<open>\<^verbatim>\<open>(size_bytes + 7) & ~7\<close>, at least 8.\<close>

definition alloca_size :: "int \<Rightarrow> int" where
  "alloca_size size_bytes = (let aligned = (size_bytes + 7) AND NOT 7 in if aligned < 8 then 8 else aligned)"

definition irCgAllocTmpSized :: "ra_ctx \<Rightarrow> ir_value option \<Rightarrow> int \<Rightarrow> int \<Rightarrow> ra_ctx result" where
  "irCgAllocTmpSized ra val starting_offset size_bytes =
     (if \<not> irIsTmp val then Inr ra
      else if ra_id_to_loff ra (irVarId val) \<noteq> None then Inr ra
      else (let ra = ra\<lparr>ra_extra_stack := ra_extra_stack ra + alloca_size size_bytes\<rparr>
            in irCgSetLoff ra (irVarId val) (- (starting_offset + ra_extra_stack ra))))"

section \<open>Operands of an instruction\<close>

text \<open>\<^verbatim>\<open>v && v->loc.kind == IR_LOC_REG\<close>, for a variable.\<close>

definition loc_is_reg :: "ra_ctx \<Rightarrow> ir_value option \<Rightarrow> bool" where
  "loc_is_reg ra v \<longleftrightarrow> v \<noteq> None \<and> (case ra_loc ra (irVarId v) of IR_LOC_REG r \<Rightarrow> True | _ \<Rightarrow> False)"

definition alloc_unless :: "bool \<Rightarrow> ra_ctx \<Rightarrow> ir_value option \<Rightarrow> int \<Rightarrow> ra_ctx result" where
  "alloc_unless skip ra v start = (if skip then Inr ra else irCgAllocTmp ra v start)"

text \<open>The size an \<^verbatim>\<open>IR_ALLOCA\<close> asks for, \<^verbatim>\<open>(int)r1->as._i64\<close>.\<close>

definition alloca_bytes :: "ir_instr \<Rightarrow> int" where
  "alloca_bytes I = (if irIsConstInt (i_r1 I) then sint (ucast (const_of (i_r1 I)) :: u32) else 8)"

definition irCgAllocOperandsForInstr :: "ra_ctx \<Rightarrow> ir_instr \<Rightarrow> int \<Rightarrow> ra_ctx result" where
  "irCgAllocOperandsForInstr ra I start =
     (let skip_dst = loc_is_reg ra (i_dst I); skip_r1 = loc_is_reg ra (i_r1 I); op = i_op I in
      if op \<in> {IR_NOP, IR_JMP} then Inr ra
      else if op = IR_ALLOCA then irCgAllocTmpSized ra (i_dst I) start (alloca_bytes I)
      else if op \<in> {IR_LOAD, IR_LOAD_DEREF} then
        rbind (alloc_unless skip_dst ra (i_dst I) start) (\<lambda>ra. alloc_unless skip_r1 ra (i_r1 I) start)
      else if op \<in> {IR_STORE, IR_STORE_DEREF} then
        rbind (irCgAllocTmp ra (i_dst I) start) (\<lambda>ra. alloc_unless skip_r1 ra (i_r1 I) start)
      else if op = IR_RMW_DEREF then
        rbind (irCgAllocTmp ra (i_dst I) start) (\<lambda>ra.
        rbind (alloc_unless skip_r1 ra (i_r1 I) start) (\<lambda>ra. irCgAllocTmp ra (i_idx I) start))
      else if op = IR_LEA then alloc_unless skip_dst ra (i_dst I) start
      else if op \<in> {IR_IADD, IR_ISUB, IR_IMUL, IR_AND, IR_OR, IR_XOR, IR_IDIV, IR_UDIV, IR_IREM, IR_UREM,
                    IR_SHL, IR_SHR, IR_SAR, IR_ICMP, IR_FADD, IR_FSUB, IR_FMUL, IR_FDIV, IR_FCMP} then
        rbind (alloc_unless skip_dst ra (i_dst I) start) (\<lambda>ra.
        rbind (alloc_unless skip_r1 ra (i_r1 I) start) (\<lambda>ra. irCgAllocTmp ra (i_r2 I) start))
      else if op = IR_FNEG then
        rbind (alloc_unless skip_dst ra (i_dst I) start) (\<lambda>ra. alloc_unless skip_r1 ra (i_r1 I) start)
      else if op = IR_BR then alloc_unless skip_r1 ra (i_dst I) start
      else if op = IR_CMP_BR then
        rbind (irCgAllocTmp ra (i_r1 I) start) (\<lambda>ra. irCgAllocTmp ra (i_r2 I) start)
      else if op = IR_RET then alloc_unless (i_dst I = None \<or> skip_r1) ra (i_dst I) start
      else if op = IR_PHI then irCgAllocTmp ra (i_dst I) start
      else if op = IR_CALL then
        rbind (case i_dst I of
                 Some d \<Rightarrow> if val_type d \<noteq> IR_TYPE_VOID \<and> \<not> skip_dst \<and> val_kind d \<in> {IR_VAL_TMP, IR_VAL_LOCAL}
                           then irCgAllocTmp ra (Some d) start else Inr ra
               | None \<Rightarrow> Inr ra) (\<lambda>ra. irCgAllocTmp ra (i_r2 I) start)
      else if op = IR_GEP then
        (if \<not> irIsTmp (i_dst I) \<or> i_r1 I = None \<or> \<not> irIsConstInt (i_r2 I) then Inr ra
         else rbind (irCgGetLoff ra (i_r1 I)) (\<lambda>base_loff.
           let field_loff = base_loff + sint (ucast (const_of (i_r2 I)) :: u32); var_id = irDstVarId I in
           if ra_id_to_loff ra var_id = None then irCgSetLoff ra var_id field_loff else Inr ra))
      else
        rbind (irCgAllocTmp ra (i_dst I) start) (\<lambda>ra.
        rbind (irCgAllocTmp ra (i_r1 I) start) (\<lambda>ra. irCgAllocTmp ra (i_r2 I) start)))"

text \<open>The first pass: the buffers and the addresses inside them.\<close>

fun alloc_fixed :: "ra_ctx \<Rightarrow> int \<Rightarrow> ir_instr list \<Rightarrow> ra_ctx result" where
  "alloc_fixed ra start [] = Inr ra"
| "alloc_fixed ra start (I # Is) =
     (if i_op I = IR_ALLOCA \<or> i_op I = IR_GEP
      then rbind (irCgAllocOperandsForInstr ra I start) (\<lambda>ra. alloc_fixed ra start Is)
      else alloc_fixed ra start Is)"

section \<open>Live ranges\<close>

record cg_range =
  rg_var_id :: u32
  rg_from :: int
  rg_to :: int

definition irCgRangeCmp :: "cg_range \<Rightarrow> cg_range \<Rightarrow> int" where
  "irCgRangeCmp a b = (if rg_from a \<noteq> rg_from b then rg_from a - rg_from b else rg_to a - rg_to b)"

text \<open>The map of the ranges, in the order in which its iteration returns them.\<close>

fun widen_range :: "cg_range list \<Rightarrow> u32 \<Rightarrow> int \<Rightarrow> cg_range list" where
  "widen_range [] var_id pos = [\<lparr>rg_var_id = var_id, rg_from = pos, rg_to = pos\<rparr>]"
| "widen_range (r # rs) var_id pos =
     (if rg_var_id r = var_id
      then r\<lparr>rg_from := (if pos < rg_from r then pos else rg_from r),
             rg_to := (if pos > rg_to r then pos else rg_to r)\<rparr> # rs
      else r # widen_range rs var_id pos)"

definition irCgRecordRef :: "cg_range list \<Rightarrow> ir_value option \<Rightarrow> int \<Rightarrow> cg_range list" where
  "irCgRecordRef ranges v pos =
     (if \<not> irIsTmp v then ranges
      else if val_type (the v) = IR_TYPE_VOID then ranges
      else widen_range ranges (irVarId v) pos)"

text \<open>The operands an instruction refers to, in the order they are recorded.\<close>

definition instr_refs :: "ir_instr \<Rightarrow> ir_value option list" where
  "instr_refs I =
     [i_dst I, i_r1 I, i_r2 I, i_idx I] @ (if i_op I = IR_CALL then call_args (i_r1 I) else []) @
     (if i_op I = IR_PHI then phi_vals (i_extra I) else [])"

fun record_ranges :: "cg_range list \<Rightarrow> int \<Rightarrow> ir_instr list \<Rightarrow> cg_range list" where
  "record_ranges ranges pos [] = ranges"
| "record_ranges ranges pos (I # Is) =
     (if i_op I = IR_NOP then record_ranges ranges pos Is
      else record_ranges (fold (\<lambda>v ranges. irCgRecordRef ranges v pos) (instr_refs I) ranges) (pos + 1) Is)"

section \<open>The linear scan\<close>

text \<open>The first slot whose last use lies before the range; a slot is its offset and its last use.\<close>

fun free_slot :: "(int \<times> int) list \<Rightarrow> int \<Rightarrow> nat option" where
  "free_slot [] first = None"
| "free_slot ((loff, until_pos) # slots) first = (if until_pos < first then Some 0 else map_option Suc (free_slot slots first))"

fun linear_scan :: "int \<Rightarrow> (int \<times> int) list \<Rightarrow> cg_range list \<Rightarrow> ra_ctx \<Rightarrow> ra_ctx result" where
  "linear_scan start slots [] ra = Inr ra"
| "linear_scan start slots (r # rs) ra =
     (let (ra, slots, chosen) =
        (case free_slot slots (rg_from r) of
           Some s \<Rightarrow> (ra, slots, s)
         | None \<Rightarrow>
             (let ra = ra\<lparr>ra_extra_stack := ra_extra_stack ra + 8\<rparr>
              in (ra, slots @ [(- (start + ra_extra_stack ra), 0)], length slots)));
        loff = fst (slots ! chosen)
      in rbind (irCgSetLoff ra (rg_var_id r) loff) (\<lambda>ra.
        linear_scan start (slots[chosen := (loff, rg_to r)]) rs
          (ra\<lparr>ra_loc := (ra_loc ra)(rg_var_id r := IR_LOC_SLOT loff)\<rparr>)))"

text \<open>
  \<^verbatim>\<open>irCgAllocAllTmps\<close>: the buffers first, then every temporary that has no offset yet and lives in no register, in
  the order \<^verbatim>\<open>qsort\<close> gives; the sorting function is an argument.
\<close>

definition cg_instrs :: "ir_block list \<Rightarrow> ir_instr list" where
  "cg_instrs blocks = concat (map bb_instructions blocks)"

definition to_colour :: "ra_ctx \<Rightarrow> cg_range list \<Rightarrow> cg_range list" where
  "to_colour ra ranges =
     filter (\<lambda>r. ra_id_to_loff ra (rg_var_id r) = None \<and>
       (case ra_loc ra (rg_var_id r) of IR_LOC_REG x \<Rightarrow> False | _ \<Rightarrow> True)) ranges"

definition irCgAllocAllTmps ::
  "((cg_range \<Rightarrow> cg_range \<Rightarrow> int) \<Rightarrow> cg_range list \<Rightarrow> cg_range list) \<Rightarrow> ra_ctx \<Rightarrow> ir_block list \<Rightarrow> int \<Rightarrow> ra_ctx result" where
  "irCgAllocAllTmps qsort ra blocks starting_offset =
     rbind (alloc_fixed ra starting_offset (cg_instrs blocks)) (\<lambda>ra.
       linear_scan starting_offset []
         (qsort irCgRangeCmp (to_colour ra (record_ranges [] 0 (cg_instrs blocks)))) ra)"

end
