(* ===== verification/IrFrame.thy ===== *)
theory IrFrame
  imports IrRegAlloc
begin

text \<open>
  The frame of a function: \<^verbatim>\<open>irCgComputeAstLayout\<close> and \<^verbatim>\<open>irCgBindAstLoffs\<close> of \<^verbatim>\<open>src/src/ir-regalloc.c\<close>, which give the
  parameters and locals their offsets, and the part of \<^verbatim>\<open>irFunctionPrepForCodeGen\<close> (\<^verbatim>\<open>src/src/ir.c\<close>) that puts the
  temporaries below them and computes the size of the frame. Of the syntax tree the model has the four kinds of
  node that the lists of parameters and locals hold, with the fields these functions read; a node that is
  changed is returned changed. Pointers to an \<^verbatim>\<open>IrValue\<close> are compared as values: every variable has one.
\<close>

section \<open>Parameters and locals\<close>

text \<open>
  \<^verbatim>\<open>pinned\<close> stands for \<^verbatim>\<open>pinned_kind == LVAR_REG && pinned_reg\<close>, and the sizes are those of the type.
\<close>

datatype ast_node =
    AST_LVAR (node_lvar_id: u32) (node_size: int) (node_pinned: bool) (node_loff: int)
  | AST_FUNPTR (node_fn_ptr_id: u32) (node_size: int) (node_loff: int)
  | AST_DEFAULT_PARAM (node_declvar: ast_node) (node_size: int) (node_loff: int)
  | AST_VAR_ARGS (node_argc: ast_node) (node_argv: ast_node)

datatype ast_type_kind =
    AST_TYPE_VOID | AST_TYPE_INT | AST_TYPE_FLOAT | AST_TYPE_CHAR | AST_TYPE_ARRAY | AST_TYPE_POINTER | AST_TYPE_FUNC
  | AST_TYPE_CLASS | AST_TYPE_VIS_MODIFIER | AST_TYPE_INLINE | AST_TYPE_UNION | AST_TYPE_AUTO

record ast_type =
  ty_kind :: ast_type_kind
  ty_size :: int
  ty_is_intrinsic :: bool

record ast_func =
  af_rettype :: "ast_type option"
  af_params :: "ast_node list"
  af_locals :: "ast_node list"
  af_loff :: int

text \<open>The variables of the function map an \<^verbatim>\<open>lvar_id\<close> to its value and whether that is pinned to a register.\<close>

record ir_function =
  irf_return_value :: "ir_value option"
  irf_variables :: "u32 \<rightharpoonup> ir_value \<times> bool"
  irf_blocks :: "ir_block list"

definition irFnGetVar :: "ir_function \<Rightarrow> u32 \<Rightarrow> (ir_value \<times> bool) option" where
  "irFnGetVar func lvar_id = irf_variables func lvar_id"

text \<open>\<^verbatim>\<open>lvar_id\<close> of another kind of node reads a different member of the union; no caller asks for it.\<close>

definition lvar_id :: "ast_node \<Rightarrow> u32" where
  "lvar_id n = (case n of AST_LVAR i sz p l \<Rightarrow> i | _ \<Rightarrow> 0)"

definition irGetParamId :: "ast_node \<Rightarrow> u32" where
  "irGetParamId param =
     (case param of
        AST_DEFAULT_PARAM d sz l \<Rightarrow> (case d of AST_FUNPTR i s k \<Rightarrow> i | _ \<Rightarrow> lvar_id d)
      | AST_FUNPTR i sz l \<Rightarrow> i
      | _ \<Rightarrow> lvar_id param)"

definition set_loff :: "ast_node \<Rightarrow> int \<Rightarrow> ast_node" where
  "set_loff n loff =
     (case n of AST_LVAR i sz p l \<Rightarrow> AST_LVAR i sz p loff | AST_FUNPTR i sz l \<Rightarrow> AST_FUNPTR i sz loff
      | AST_DEFAULT_PARAM d sz l \<Rightarrow> AST_DEFAULT_PARAM d sz loff | AST_VAR_ARGS c v \<Rightarrow> n)"

definition align :: "int \<Rightarrow> int \<Rightarrow> int" where
  "align n m = (let rem = n smod m in if rem = 0 then n else n - rem + m)"

section \<open>References to a variable\<close>

definition instr_args :: "ir_instr \<Rightarrow> ir_value option list" where
  "instr_args I =
     (if i_op I = IR_CALL then call_args (i_r1 I) else []) @ (if i_op I = IR_PHI then phi_vals (i_extra I) else [])"

definition irFnValueIsReferenced :: "ir_function \<Rightarrow> ir_value option \<Rightarrow> bool" where
  "irFnValueIsReferenced fn target \<longleftrightarrow> target \<noteq> None \<and>
     list_ex (\<lambda>I. i_op I \<noteq> IR_NOP \<and>
       (i_r1 I = target \<or> i_r2 I = target \<or> i_dst I = target \<and> i_op I \<in> {IR_STORE, IR_STORE_DEREF, IR_CALL} \<or>
        target \<in> set (instr_args I))) (cg_instrs (irf_blocks fn))"

definition irFnLocalSlotNeeded :: "ir_function \<Rightarrow> ir_value option \<Rightarrow> bool" where
  "irFnLocalSlotNeeded fn loc \<longleftrightarrow> loc \<noteq> None \<and>
     list_ex (\<lambda>I. i_op I \<noteq> IR_NOP \<and>
       (i_dst I = loc \<or> i_r1 I = loc \<or> i_r2 I = loc \<or> i_idx I = loc \<or> loc \<in> set (instr_args I)))
       (cg_instrs (irf_blocks fn))"

definition irFnHasCalls :: "ir_function \<Rightarrow> bool" where
  "irFnHasCalls fn \<longleftrightarrow> list_ex (\<lambda>I. i_op I = IR_CALL) (cg_instrs (irf_blocks fn))"

section \<open>The layout\<close>

definition local_skipped :: "ir_function \<Rightarrow> ast_node \<Rightarrow> bool" where
  "local_skipped fn l =
     (case irFnGetVar fn (irGetParamId l) of
        None \<Rightarrow> False | Some (iv, pinned) \<Rightarrow> pinned \<or> \<not> irFnLocalSlotNeeded fn (Some iv))"

definition local_size :: "ast_node \<Rightarrow> int" where
  "local_size l =
     (case l of AST_DEFAULT_PARAM d sz k \<Rightarrow> node_size d | AST_FUNPTR i sz k \<Rightarrow> 8 | AST_LVAR i sz p k \<Rightarrow> sz
      | AST_VAR_ARGS c v \<Rightarrow> 0)"

fun layout_locals :: "ir_function \<Rightarrow> int \<Rightarrow> int \<Rightarrow> ast_node list \<Rightarrow> int \<times> ast_node list" where
  "layout_locals fn tot new_offset [] = (tot, [])"
| "layout_locals fn tot new_offset (l # ls) =
     (if local_skipped fn l
      then (let (tot, ls) = layout_locals fn tot new_offset ls in (tot, l # ls))
      else (let size = local_size l; tot = tot + align size 8; new_offset = new_offset - size;
                (tot, ls) = layout_locals fn tot new_offset ls
            in (tot, set_loff l new_offset # ls)))"

definition has_hidden_out_ptr :: "ast_func \<Rightarrow> bool" where
  "has_hidden_out_ptr af =
     (case af_rettype af of
        None \<Rightarrow> False | Some rt \<Rightarrow> ty_kind rt \<in> {AST_TYPE_CLASS, AST_TYPE_UNION} \<and> \<not> ty_is_intrinsic rt \<and> ty_size rt > 0)"

definition param_pinned :: "ast_node \<Rightarrow> bool" where
  "param_pinned p = (case p of AST_LVAR i sz pinned l \<Rightarrow> pinned | _ \<Rightarrow> False)"

definition param_unreferenced :: "ir_function \<Rightarrow> ast_node \<Rightarrow> bool" where
  "param_unreferenced fn p =
     (case irFnGetVar fn (irGetParamId p) of None \<Rightarrow> False | Some (iv, pinned) \<Rightarrow> \<not> irFnValueIsReferenced fn (Some iv))"

definition param_size :: "ast_node \<Rightarrow> int" where
  "param_size p = (case p of AST_FUNPTR i sz l \<Rightarrow> 8 | AST_VAR_ARGS c v \<Rightarrow> 8 | _ \<Rightarrow> node_size p)"

definition is_var_args :: "ast_node \<Rightarrow> bool" where
  "is_var_args p = (case p of AST_VAR_ARGS c v \<Rightarrow> True | _ \<Rightarrow> False)"

text \<open>\<^verbatim>\<open>on_stack\<close> is \<^verbatim>\<open>pool && pool->variadic_on_stack\<close>: the variadic arguments stay in the caller's frame.\<close>

fun params_total :: "bool \<Rightarrow> ir_function \<Rightarrow> int \<Rightarrow> ast_node list \<Rightarrow> int" where
  "params_total on_stack fn param_total [] = param_total"
| "params_total on_stack fn param_total (p # ps) =
     (if param_pinned p then params_total on_stack fn param_total ps
      else if \<not> is_var_args p \<and> param_unreferenced fn p then params_total on_stack fn param_total ps
      else if is_var_args p \<and> on_stack then params_total on_stack fn param_total ps
      else params_total on_stack fn (param_total + align (param_size p) 8) ps)"

fun layout_params :: "bool \<Rightarrow> ir_function \<Rightarrow> int \<Rightarrow> ast_node list \<Rightarrow> ast_node list" where
  "layout_params on_stack fn offset [] = []"
| "layout_params on_stack fn offset (p # ps) =
     (case p of
        AST_VAR_ARGS argc argv \<Rightarrow>
          if on_stack
          then AST_VAR_ARGS (set_loff argc 16) (set_loff argv 24) # layout_params on_stack fn offset ps
          else AST_VAR_ARGS (set_loff argc (- offset)) (set_loff argv 16) # layout_params on_stack fn (offset - 8) ps
      | _ \<Rightarrow>
          if param_pinned p \<or> param_unreferenced fn p then p # layout_params on_stack fn offset ps
          else set_loff p (- offset) # layout_params on_stack fn (offset - align (param_size p) 8) ps)"

definition irCgComputeAstLayout :: "bool \<Rightarrow> ast_func \<Rightarrow> ir_function \<Rightarrow> ast_func \<times> int" where
  "irCgComputeAstLayout on_stack af fn =
     (let (tot, locals) = layout_locals fn 0 0 (af_locals af);
          hidden = has_hidden_out_ptr af;
          param_total = params_total on_stack fn (if hidden then 8 else 0) (af_params af);
          tot = tot + param_total;
          offset = (if hidden then tot - 8 else tot)
      in (af\<lparr>af_locals := locals, af_loff := (if hidden then - tot else af_loff af),
              af_params := layout_params on_stack fn offset (af_params af)\<rparr>, tot))"

section \<open>Binding the offsets\<close>

definition bind_var :: "ra_ctx \<Rightarrow> (ir_value \<times> bool) option \<Rightarrow> int \<Rightarrow> ra_ctx result" where
  "bind_var ra v loff = (case v of None \<Rightarrow> Inr ra | Some (iv, pinned) \<Rightarrow> irCgSetLoff ra (irVarId (Some iv)) loff)"

fun bind_params :: "ir_function \<Rightarrow> ra_ctx \<Rightarrow> ast_node list \<Rightarrow> ra_ctx result" where
  "bind_params fn ra [] = Inr ra"
| "bind_params fn ra (p # ps) =
     (case p of
        AST_VAR_ARGS argc argv \<Rightarrow>
          rbind (bind_var ra (irFnGetVar fn (lvar_id argc)) (node_loff argc)) (\<lambda>ra.
          rbind (bind_var ra (irFnGetVar fn (lvar_id argv)) (node_loff argv)) (\<lambda>ra. bind_params fn ra ps))
      | _ \<Rightarrow>
          (case irFnGetVar fn (irGetParamId p) of
             None \<Rightarrow> bind_params fn ra ps
           | Some (iv, pinned) \<Rightarrow>
               if pinned \<or> \<not> irFnValueIsReferenced fn (Some iv) then bind_params fn ra ps
               else rbind (irCgSetLoff ra (irVarId (Some iv)) (node_loff p)) (\<lambda>ra. bind_params fn ra ps)))"

fun bind_locals :: "ir_function \<Rightarrow> ra_ctx \<Rightarrow> ast_node list \<Rightarrow> ra_ctx result" where
  "bind_locals fn ra [] = Inr ra"
| "bind_locals fn ra (l # ls) =
     (case irFnGetVar fn (irGetParamId l) of
        None \<Rightarrow> bind_locals fn ra ls
      | Some (iv, pinned) \<Rightarrow>
          if pinned \<or> \<not> irFnLocalSlotNeeded fn (Some iv) then bind_locals fn ra ls
          else rbind (irCgSetLoff ra (irVarId (Some iv)) (node_loff l)) (\<lambda>ra. bind_locals fn ra ls))"

definition irCgBindAstLoffs :: "ra_ctx \<Rightarrow> ir_function \<Rightarrow> ast_func \<Rightarrow> ra_ctx result" where
  "irCgBindAstLoffs ra fn af =
     rbind (if has_hidden_out_ptr af \<and> irf_return_value fn \<noteq> None
            then irCgSetLoff ra (irVarId (irf_return_value fn)) (af_loff af) else Inr ra) (\<lambda>ra.
     rbind (bind_params fn ra (af_params af)) (\<lambda>ra. bind_locals fn ra (af_locals af)))"

section \<open>The frame\<close>

text \<open>
  \<^verbatim>\<open>irFunctionPrepForCodeGen\<close> after its two passes over the instructions, which have put some temporaries in
  registers (\<open>loc\<close>): the nodes with their offsets, the context, and \<^verbatim>\<open>fn->stack_space\<close>, a \<^verbatim>\<open>u16\<close>.
\<close>

definition irFunctionPrepForCodeGen ::
  "((cg_range \<Rightarrow> cg_range \<Rightarrow> int) \<Rightarrow> cg_range list \<Rightarrow> cg_range list) \<Rightarrow> bool \<Rightarrow> (u32 \<Rightarrow> ir_loc) \<Rightarrow> ir_function \<Rightarrow>
   ast_func \<Rightarrow> (ast_func \<times> ra_ctx \<times> u16) result" where
  "irFunctionPrepForCodeGen qsort on_stack loc fn af =
     (let ra = \<lparr>ra_id_to_loff = (\<lambda>_. None), ra_extra_stack = 0, ra_loc = loc\<rparr>;
          (af, locals_params_space) = irCgComputeAstLayout on_stack af fn
      in rbind (irCgBindAstLoffs ra fn af) (\<lambda>ra.
         rbind (irCgAllocAllTmps qsort ra (irf_blocks fn) locals_params_space) (\<lambda>ra.
         let total_stack = locals_params_space + ra_extra_stack ra;
             total_stack = (if total_stack > 0 then align total_stack 16 else total_stack)
         in Inr (af, ra, word_of_int total_stack))))"

end
