(* ===== verification/IrOptimise.thy ===== *)
theory IrOptimise
  imports IrFrame
begin

text \<open>
  Passes of \<^verbatim>\<open>src/src/ir-optimise.c\<close> over the instructions of the blocks: the removal of \<^verbatim>\<open>IR_NOP\<close>s, the forwarding
  of stored values to later reads, the elimination of dead stores and the elimination of dead code. Instructions
  are updated in place by the code and returned updated here. Two references to a variable are the same pointer
  in the code exactly when they are equal here. The maps of use counts are partial functions.
\<close>

section \<open>Removing instructions\<close>

definition on_instrs :: "(ir_instr list \<Rightarrow> ir_instr list) \<Rightarrow> ir_block list \<Rightarrow> ir_block list" where
  "on_instrs f blocks = map (\<lambda>b. b\<lparr>bb_instructions := f (bb_instructions b)\<rparr>) blocks"

definition irRemoveAllNops :: "ir_block list \<Rightarrow> ir_block list" where
  "irRemoveAllNops blocks = on_instrs (filter (\<lambda>I. i_op I \<noteq> IR_NOP)) blocks"

definition irMakeNop :: "ir_instr \<Rightarrow> ir_instr" where
  "irMakeNop I = I\<lparr>i_op := IR_NOP, i_dst := None, i_r1 := None, i_r2 := None, i_idx := None, i_disp := 0, i_scale := 0\<rparr>"

section \<open>Registers the back end overwrites\<close>

datatype ir_clobber_point = IR_CLOBBER_AFTER | IR_CLOBBER_BEFORE_R1 | IR_CLOBBER_BEFORE_R2

record ir_reg_pool =
  rp_int_return_reg :: string
  rp_float_return_reg :: string
  rp_scratch_regs :: "string list option"
  rp_op_clobbers :: "(ir_instr \<Rightarrow> string \<Rightarrow> ir_clobber_point \<Rightarrow> bool) option"

text \<open>The register pool of the back end, when there is one, and the location of every value.\<close>

record opt_ctx =
  oc_pool :: "ir_reg_pool option"
  oc_loc :: "ir_value \<Rightarrow> ir_loc"

definition irLocIsScratchClobbered :: "opt_ctx \<Rightarrow> ir_value \<Rightarrow> bool" where
  "irLocIsScratchClobbered C v =
     (case (oc_loc C v, oc_pool C) of
        (IR_LOC_REG reg, Some pool) \<Rightarrow> (case rp_scratch_regs pool of None \<Rightarrow> False | Some regs \<Rightarrow> reg \<in> set regs)
      | _ \<Rightarrow> False)"

definition irLocClobberedBy :: "opt_ctx \<Rightarrow> ir_instr \<Rightarrow> ir_value \<Rightarrow> ir_clobber_point \<Rightarrow> bool" where
  "irLocClobberedBy C I v at =
     (if \<not> irLocIsScratchClobbered C v then False
      else case oc_pool C of
        None \<Rightarrow> True
      | Some pool \<Rightarrow>
          (case rp_op_clobbers pool of
             None \<Rightarrow> True
           | Some f \<Rightarrow> f I (case oc_loc C v of IR_LOC_REG reg \<Rightarrow> reg | _ \<Rightarrow> []) at))"

section \<open>Forwarding stored values\<close>

definition irValMatchesSlot :: "ir_value option \<Rightarrow> ir_value \<Rightarrow> bool" where
  "irValMatchesSlot v slot \<longleftrightarrow>
     (case v of None \<Rightarrow> False | Some w \<Rightarrow> val_kind w = val_kind slot \<and> irVarId v = irVarId (Some slot))"

definition rewrite_val :: "ir_value \<Rightarrow> ir_value \<Rightarrow> ir_value option \<Rightarrow> ir_value option" where
  "rewrite_val slot source v = (if irValMatchesSlot v slot \<and> v \<noteq> Some source then Some source else v)"

definition map_call_args :: "(ir_value option \<Rightarrow> ir_value option) \<Rightarrow> ir_value option \<Rightarrow> ir_value option" where
  "map_call_args f v =
     (case v of Some (IrValue ty k fl bs (As_array l n p (Some args))) \<Rightarrow>
        Some (IrValue ty k fl bs (As_array l n p (Some (map f args))))
      | _ \<Rightarrow> v)"

definition map_phi_vals :: "(ir_value option \<Rightarrow> ir_value option) \<Rightarrow> ir_extra \<Rightarrow> ir_extra" where
  "map_phi_vals f ex =
     (case ex of Ex_phi_pairs (Some ps) \<Rightarrow> Ex_phi_pairs (Some (map (\<lambda>(v, b). (f v, b)) ps)) | _ \<Rightarrow> ex)"

text \<open>The rewritten instruction; \<open>changed\<close> is whether it differs.\<close>

definition rewrite_operands :: "opt_ctx \<Rightarrow> ir_instr \<Rightarrow> ir_value \<Rightarrow> ir_value \<Rightarrow> ir_instr" where
  "rewrite_operands C I slot source =
     (if i_op I \<in> {IR_LEA, IR_GEP, IR_LOAD} then I
      else
        let f = rewrite_val slot source;
            I = (if \<not> irLocClobberedBy C I source IR_CLOBBER_BEFORE_R1 then I\<lparr>i_r1 := f (i_r1 I)\<rparr> else I);
            I = (if \<not> irLocClobberedBy C I source IR_CLOBBER_BEFORE_R2 then I\<lparr>i_r2 := f (i_r2 I)\<rparr> else I);
            I = (if i_op I \<in> {IR_BR, IR_RET} then I\<lparr>i_dst := f (i_dst I)\<rparr> else I);
            I = (if i_op I = IR_CALL \<and> irIsConstInt (Some source) then I\<lparr>i_r1 := map_call_args f (i_r1 I)\<rparr> else I)
        in if i_op I = IR_PHI \<and> \<not> irLocIsScratchClobbered C source
           then I\<lparr>i_extra := map_phi_vals f (i_extra I)\<rparr> else I)"

definition irRewriteOperands :: "opt_ctx \<Rightarrow> ir_instr \<Rightarrow> ir_value \<Rightarrow> ir_value \<Rightarrow> ir_instr \<times> nat" where
  "irRewriteOperands C I slot source =
     (let J = rewrite_operands C I slot source in (J, if J = I then 0 else 1))"

text \<open>The parallel arrays \<^verbatim>\<open>slots\<close> and \<^verbatim>\<open>sources\<close>; an entry is removed by moving the last one into its place.\<close>

type_synonym fwd_entries = "(ir_value \<times> ir_value) list"

fun rewrite_all :: "opt_ctx \<Rightarrow> ir_instr \<Rightarrow> fwd_entries \<Rightarrow> ir_instr \<times> nat" where
  "rewrite_all C I [] = (I, 0)"
| "rewrite_all C I ((slot, source) # es) =
     (let (I, c) = irRewriteOperands C I slot source; (I, d) = rewrite_all C I es in (I, c + d))"

definition swap_remove :: "'a list \<Rightarrow> nat \<Rightarrow> 'a list" where
  "swap_remove es j = take (length es - 1) (es[j := last es])"

fun slot_index :: "fwd_entries \<Rightarrow> ir_value option \<Rightarrow> nat option" where
  "slot_index [] v = None"
| "slot_index ((slot, source) # es) v = (if irValMatchesSlot v slot then Some 0 else map_option Suc (slot_index es v))"

function drop_clobbered :: "opt_ctx \<Rightarrow> ir_instr \<Rightarrow> fwd_entries \<Rightarrow> nat \<Rightarrow> fwd_entries" where
  "drop_clobbered C I es j =
     (if j < length es
      then (if irLocClobberedBy C I (snd (es ! j)) IR_CLOBBER_AFTER
            then drop_clobbered C I (swap_remove es j) j
            else drop_clobbered C I es (Suc j))
      else es)"
  by pat_completeness auto
termination
  by (relation "measure (\<lambda>(C, I, es, j). length es - j)") (auto simp: swap_remove_def)

declare drop_clobbered.simps [simp del]

definition drop_slot :: "fwd_entries \<Rightarrow> ir_value option \<Rightarrow> fwd_entries" where
  "drop_slot es v = (case slot_index es v of None \<Rightarrow> es | Some i \<Rightarrow> swap_remove es i)"

definition kills_all :: "ir_op \<Rightarrow> bool" where
  "kills_all op \<longleftrightarrow> op \<in> {IR_CALL, IR_STORE_DEREF, IR_RMW_DEREF}"

text \<open>The entries after an instruction that has been rewritten.\<close>

definition forward_entries :: "opt_ctx \<Rightarrow> ir_instr \<Rightarrow> fwd_entries \<Rightarrow> fwd_entries" where
  "forward_entries C I es =
     (if kills_all (i_op I) then []
      else
        let es = (if i_op I \<notin> {IR_NOP, IR_JMP, IR_PHI, IR_LABEL, IR_ALLOCA} then drop_clobbered C I es 0 else es);
            es = (if i_op I \<noteq> IR_STORE \<and> i_dst I \<noteq> None then drop_slot es (i_dst I) else es)
        in (case (i_op I = IR_STORE, i_dst I, i_r1 I) of
              (True, Some d, Some s) \<Rightarrow>
                if irValueByteSize (Some s) = 8
                then (case slot_index es (Some d) of Some i \<Rightarrow> es[i := (fst (es ! i), s)] | None \<Rightarrow> es @ [(d, s)])
                else drop_slot es (Some d)
            | _ \<Rightarrow> es))"

fun forward_instrs :: "opt_ctx \<Rightarrow> fwd_entries \<Rightarrow> ir_instr list \<Rightarrow> ir_instr list \<times> nat" where
  "forward_instrs C es [] = ([], 0)"
| "forward_instrs C es (I # Is) =
     (if i_op I = IR_NOP then (let (Is, c) = forward_instrs C es Is in (I # Is, c))
      else (let (J, c) = rewrite_all C I es; (Is, d) = forward_instrs C (forward_entries C J es) Is in (J # Is, c + d)))"

fun irForwardStoreToReads :: "opt_ctx \<Rightarrow> ir_block list \<Rightarrow> ir_block list \<times> nat" where
  "irForwardStoreToReads C [] = ([], 0)"
| "irForwardStoreToReads C (b # bs) =
     (let (Is, c) = forward_instrs C [] (bb_instructions b); (bs, d) = irForwardStoreToReads C bs
      in (b\<lparr>bb_instructions := Is\<rparr> # bs, c + d))"

section \<open>Dead stores\<close>

definition irSlotHasAddressTaken :: "ir_block list \<Rightarrow> u32 \<Rightarrow> bool" where
  "irSlotHasAddressTaken blocks var_id \<longleftrightarrow>
     list_ex (\<lambda>I. i_op I \<in> {IR_LEA, IR_GEP} \<and> i_r1 I \<noteq> None \<and> \<not> irIsConstInt (i_r1 I) \<and> irVarId (i_r1 I) = var_id)
       (cg_instrs blocks)"

text \<open>The operands whose variable is compared.\<close>

definition read_vals :: "ir_instr \<Rightarrow> ir_value option list" where
  "read_vals I =
     [i_r1 I, i_r2 I] @ (if i_op I \<in> {IR_BR, IR_RET, IR_STORE_DEREF} then [i_dst I] else []) @ instr_args I"

definition irSlotReadCount :: "ir_block list \<Rightarrow> u32 \<Rightarrow> nat" where
  "irSlotReadCount blocks var_id =
     sum_list (map (\<lambda>I. if i_op I = IR_NOP then 0
       else length (filter (\<lambda>v. v \<noteq> None \<and> irVarId v = var_id) (read_vals I))) (cg_instrs blocks))"

definition store_dead :: "ir_block list \<Rightarrow> ir_instr \<Rightarrow> bool" where
  "store_dead blocks I \<longleftrightarrow> i_op I = IR_STORE \<and>
     (case i_dst I of None \<Rightarrow> False
      | Some d \<Rightarrow> val_kind d \<in> {IR_VAL_LOCAL, IR_VAL_PARAM} \<and>
          \<not> irSlotHasAddressTaken blocks (irDstVarId I) \<and> irSlotReadCount blocks (irDstVarId I) = 0)"

definition clear_store :: "ir_instr \<Rightarrow> ir_instr" where
  "clear_store I = I\<lparr>i_op := IR_NOP, i_dst := None, i_r1 := None, i_r2 := None\<rparr>"

text \<open>
  The scan updates the instructions it has passed, and the counts are taken on the updated function: \<open>pre\<close> are the
  blocks before the current one, \<open>xs\<close> the instructions of the current one before the current instruction.
\<close>

fun dead_stores_block :: "ir_block list \<Rightarrow> ir_block \<Rightarrow> ir_block list \<Rightarrow> ir_instr list \<Rightarrow> ir_instr list \<Rightarrow> ir_instr list" where
  "dead_stores_block pre b post xs [] = xs"
| "dead_stores_block pre b post xs (I # Is) =
     dead_stores_block pre b post
       (xs @ [if store_dead (pre @ b\<lparr>bb_instructions := xs @ I # Is\<rparr> # post) I then clear_store I else I]) Is"

fun dead_stores :: "ir_block list \<Rightarrow> ir_block list \<Rightarrow> ir_block list" where
  "dead_stores pre [] = pre"
| "dead_stores pre (b # post) =
     dead_stores (pre @ [b\<lparr>bb_instructions := dead_stores_block pre b post [] (bb_instructions b)\<rparr>]) post"

definition irDeadStoreEliminate :: "ir_block list \<Rightarrow> ir_block list" where
  "irDeadStoreEliminate blocks = dead_stores [] blocks"

section \<open>Dead code\<close>

definition irBumpUse :: "(u32 \<rightharpoonup> int) \<Rightarrow> ir_value option \<Rightarrow> (u32 \<rightharpoonup> int)" where
  "irBumpUse cnt v =
     (if \<not> irIsTmp v then cnt
      else (let n = (case cnt (irVarId v) of Some n \<Rightarrow> n | None \<Rightarrow> 0) in cnt(irVarId v \<mapsto> n + 1)))"

definition counted_vals :: "ir_instr \<Rightarrow> ir_value option list" where
  "counted_vals I =
     [i_r1 I, i_r2 I, i_idx I] @
     (if i_op I \<in> {IR_BR, IR_RET, IR_STORE, IR_STORE_DEREF, IR_RMW_DEREF} then [i_dst I] else []) @ instr_args I"

definition irBuildTmpUseCounts :: "ir_block list \<Rightarrow> (u32 \<rightharpoonup> int)" where
  "irBuildTmpUseCounts blocks =
     fold (\<lambda>I cnt. if i_op I = IR_NOP then cnt else fold (\<lambda>v cnt. irBumpUse cnt v) (counted_vals I) cnt)
       (cg_instrs blocks) (\<lambda>_. None)"

definition irTmpUseCount :: "(u32 \<rightharpoonup> int) \<Rightarrow> ir_value option \<Rightarrow> int" where
  "irTmpUseCount cnt v =
     (if \<not> irIsTmp v then - 1 else case cnt (irVarId v) of Some n \<Rightarrow> n | None \<Rightarrow> 0)"

definition dce_safe :: "ir_op \<Rightarrow> bool" where
  "dce_safe op \<longleftrightarrow> op \<in> {IR_LEA, IR_IADD, IR_ISUB, IR_IMUL, IR_AND, IR_OR, IR_XOR, IR_SHL, IR_SHR, IR_SAR, IR_INEG,
     IR_NOT, IR_ICMP, IR_FCMP, IR_FADD, IR_FSUB, IR_FMUL, IR_FDIV, IR_FNEG, IR_TRUNC, IR_ZEXT, IR_SEXT, IR_FPTRUNC,
     IR_FPEXT, IR_FPTOSI, IR_FPTOUI, IR_SITOFP, IR_UITOFP, IR_PTRTOINT, IR_INTTOPTR, IR_BITCAST}"

definition dce_dead :: "(u32 \<rightharpoonup> int) \<Rightarrow> ir_instr \<Rightarrow> bool" where
  "dce_dead cnt I \<longleftrightarrow> dce_safe (i_op I) \<and> irIsTmp (i_dst I) \<and> irTmpUseCount cnt (i_dst I) = 0"

definition dce_instrs :: "(u32 \<rightharpoonup> int) \<Rightarrow> ir_instr list \<Rightarrow> ir_instr list" where
  "dce_instrs cnt Is = map (\<lambda>I. if dce_dead cnt I then irMakeNop I else I) Is"

definition live_count :: "ir_block list \<Rightarrow> nat" where
  "live_count blocks = length (filter (\<lambda>I. i_op I \<noteq> IR_NOP) (cg_instrs blocks))"

lemma dce_instrs_count:
  "length (filter (\<lambda>I. i_op I \<noteq> IR_NOP) (dce_instrs cnt Is)) + length (filter (dce_dead cnt) Is) =
   length (filter (\<lambda>I. i_op I \<noteq> IR_NOP) Is)"
  by (induction Is) (auto simp: dce_instrs_def irMakeNop_def dce_dead_def dce_safe_def)

lemma cg_on_instrs:
  assumes "\<And>xs ys. f (xs @ ys) = f xs @ f ys" "f [] = []"
  shows "cg_instrs (on_instrs f blocks) = f (cg_instrs blocks)"
  by (induction blocks) (simp_all add: cg_instrs_def on_instrs_def assms)

lemma cg_dce: "cg_instrs (on_instrs (dce_instrs cnt) blocks) = dce_instrs cnt (cg_instrs blocks)"
  by (rule cg_on_instrs) (simp_all add: dce_instrs_def)

lemma dce_decreases:
  assumes "list_ex (dce_dead cnt) (cg_instrs blocks)"
  shows "live_count (on_instrs (dce_instrs cnt) blocks) < live_count blocks"
proof -
  have "0 < length (filter (dce_dead cnt) (cg_instrs blocks))" using assms by (auto simp: list_ex_iff filter_empty_conv)
  then show ?thesis using dce_instrs_count [of cnt "cg_instrs blocks"] unfolding live_count_def cg_dce by linarith
qed

text \<open>The loop ends because every round that changes something leaves fewer instructions.\<close>

function dce_loop :: "(u32 \<rightharpoonup> int) \<Rightarrow> ir_block list \<Rightarrow> ir_block list \<times> (u32 \<rightharpoonup> int)" where
  "dce_loop cnt blocks =
     (if list_ex (dce_dead cnt) (cg_instrs blocks)
      then (let blocks = on_instrs (dce_instrs cnt) blocks in dce_loop (irBuildTmpUseCounts blocks) blocks)
      else (blocks, cnt))"
  by pat_completeness auto
termination
  by (relation "measure (\<lambda>(cnt, blocks). live_count blocks)") (use dce_decreases in auto)

declare dce_loop.simps [simp del]

text \<open>After the loop the unused result of a call is pinned to the result register.\<close>

definition pin_dead_call :: "ir_reg_pool \<Rightarrow> (u32 \<rightharpoonup> int) \<Rightarrow> ir_instr \<Rightarrow> (u32 \<Rightarrow> ir_loc) \<Rightarrow> (u32 \<Rightarrow> ir_loc)" where
  "pin_dead_call pool cnt I loc =
     (if i_op I = IR_CALL \<and> irIsTmp (i_dst I) \<and> val_type (the (i_dst I)) \<noteq> IR_TYPE_VOID \<and> irTmpUseCount cnt (i_dst I) = 0
      then loc(irDstVarId I := IR_LOC_REG (if irIsFloat (val_type (the (i_dst I))) then rp_float_return_reg pool
                                           else rp_int_return_reg pool))
      else loc)"

definition irOptDeadCodeElim ::
  "ir_reg_pool option \<Rightarrow> ir_block list \<Rightarrow> (u32 \<Rightarrow> ir_loc) \<Rightarrow> ir_block list \<times> (u32 \<Rightarrow> ir_loc)" where
  "irOptDeadCodeElim pool blocks loc =
     (let (blocks, cnt) = dce_loop (irBuildTmpUseCounts blocks) blocks
      in (blocks, case pool of None \<Rightarrow> loc | Some p \<Rightarrow> fold (pin_dead_call p cnt) (cg_instrs blocks) loc))"

end
