(* ===== verification/IrRegAlloc_Correct.thy ===== *)
theory IrRegAlloc_Correct
  imports IrRegAlloc "HOL-Library.Multiset"
begin

text \<open>
  What the slot allocation guarantees: the recorded ranges are the spans of the references, two temporaries share
  a slot only when one is dead before the other is first mentioned, no slot meets a buffer, every temporary that is referred
  to has a place, and no allocation could use fewer slots.
\<close>

section \<open>The recorded ranges\<close>

text \<open>The instruction refers to a temporary that holds a value.\<close>

definition touches :: "ir_instr \<Rightarrow> u32 \<Rightarrow> bool" where
  "touches I t \<longleftrightarrow> (\<exists>v. Some v \<in> set (instr_refs I) \<and> val_kind v = IR_VAL_TMP \<and> val_type v \<noteq> IR_TYPE_VOID \<and>
     irVarId (Some v) = t)"

definition real_instrs :: "ir_instr list \<Rightarrow> ir_instr list" where
  "real_instrs Is = filter (\<lambda>I. i_op I \<noteq> IR_NOP) Is"

text \<open>The positions, among the instructions that are not \<^verbatim>\<open>IR_NOP\<close>, that refer to a temporary.\<close>

definition ref_positions :: "ir_instr list \<Rightarrow> u32 \<Rightarrow> int set" where
  "ref_positions Is t = {int k | k. k < length (real_instrs Is) \<and> touches (real_instrs Is ! k) t}"

definition spans :: "cg_range list \<Rightarrow> (u32 \<Rightarrow> int set) \<Rightarrow> bool" where
  "spans ranges P \<longleftrightarrow> distinct (map rg_var_id ranges) \<and> (\<forall>t. t \<in> rg_var_id ` set ranges \<longleftrightarrow> P t \<noteq> {}) \<and>
     (\<forall>r \<in> set ranges. rg_from r \<in> P (rg_var_id r) \<and> rg_to r \<in> P (rg_var_id r) \<and>
        (\<forall>p \<in> P (rg_var_id r). rg_from r \<le> p \<and> p \<le> rg_to r))"

lemma widen_range_ids:
  "rg_var_id ` set (widen_range ranges t pos) = insert t (rg_var_id ` set ranges)"
  "map rg_var_id (widen_range ranges t pos) =
     (if t \<in> rg_var_id ` set ranges then map rg_var_id ranges else map rg_var_id ranges @ [t])"
  by (induction ranges) auto

lemma widen_range_set:
  assumes "r \<in> set (widen_range ranges t pos)" "distinct (map rg_var_id ranges)"
  shows "rg_var_id r \<noteq> t \<and> r \<in> set ranges \<or>
    rg_var_id r = t \<and> t \<notin> rg_var_id ` set ranges \<and> rg_from r = pos \<and> rg_to r = pos \<or>
    (\<exists>q \<in> set ranges. rg_var_id q = t \<and> rg_var_id r = t \<and> rg_from r = min pos (rg_from q) \<and> rg_to r = max pos (rg_to q))"
  using assms
proof (induction ranges)
  case (Cons q ranges)
  show ?case
  proof (cases "rg_var_id q = t")
    case True
    then have t: "t \<notin> rg_var_id ` set ranges" using Cons.prems(2) by auto
    let ?q = "q\<lparr>rg_from := min pos (rg_from q), rg_to := max pos (rg_to q)\<rparr>"
    have "set (widen_range (q # ranges) t pos) = insert ?q (set ranges)" using True by (simp add: min_def max_def)
    then consider "r = ?q" | "r \<in> set ranges" using Cons.prems(1) by auto
    then show ?thesis
    proof cases
      case 1
      then show ?thesis using True by (intro disjI2 bexI [of _ q]) simp_all
    next
      case 2
      then have "rg_var_id r \<noteq> t" using t by (metis imageI)
      then show ?thesis using 2 by simp
    qed
  next
    case False
    then consider "r = q" | "r \<in> set (widen_range ranges t pos)" using Cons.prems(1) by auto
    then show ?thesis
    proof cases
      case 2
      then show ?thesis using Cons.IH Cons.prems(2) False by simp blast
    qed (use False in simp)
  qed
qed simp

lemma spans_widen:
  assumes "spans ranges P"
  shows "spans (widen_range ranges t pos) (P(t := insert pos (P t)))"
proof -
  let ?Q = "P(t := insert pos (P t))"
  have d: "distinct (map rg_var_id ranges)" using assms by (simp add: spans_def)
  have "rg_from r \<in> ?Q (rg_var_id r) \<and> rg_to r \<in> ?Q (rg_var_id r) \<and>
      (\<forall>p \<in> ?Q (rg_var_id r). rg_from r \<le> p \<and> p \<le> rg_to r)" if "r \<in> set (widen_range ranges t pos)" for r
    using widen_range_set [OF that d]
  proof (elim disjE)
    assume "rg_var_id r \<noteq> t \<and> r \<in> set ranges"
    then show ?thesis using assms by (simp add: spans_def)
  next
    assume new: "rg_var_id r = t \<and> t \<notin> rg_var_id ` set ranges \<and> rg_from r = pos \<and> rg_to r = pos"
    then have "P t = {}" using assms unfolding spans_def by blast
    then show ?thesis using new by simp
  next
    assume "\<exists>q \<in> set ranges. rg_var_id q = t \<and> rg_var_id r = t \<and> rg_from r = min pos (rg_from q) \<and> rg_to r = max pos (rg_to q)"
    then obtain q where q: "q \<in> set ranges" "rg_var_id q = t" "rg_var_id r = t" "rg_from r = min pos (rg_from q)"
      "rg_to r = max pos (rg_to q)" by blast
    then have "rg_from q \<in> P t \<and> rg_to q \<in> P t \<and> (\<forall>p \<in> P t. rg_from q \<le> p \<and> p \<le> rg_to q)"
      using assms unfolding spans_def by blast
    then show ?thesis using q by (auto simp: min_def max_def)
  qed
  then show ?thesis
    using assms widen_range_ids [of ranges t pos] unfolding spans_def by auto
qed

lemma spans_cong: "spans ranges P \<Longrightarrow> (\<And>t. P t = Q t) \<Longrightarrow> spans ranges Q"
  by (metis ext)

definition refers :: "ir_value option \<Rightarrow> u32 \<Rightarrow> bool" where
  "refers v t \<longleftrightarrow> (\<exists>w. v = Some w \<and> val_kind w = IR_VAL_TMP \<and> val_type w \<noteq> IR_TYPE_VOID \<and> irVarId (Some w) = t)"

lemma touches_refers: "touches I t \<longleftrightarrow> (\<exists>v \<in> set (instr_refs I). refers v t)"
  by (auto simp: touches_def refers_def)

lemma spans_record:
  assumes "spans ranges P"
  shows "spans (irCgRecordRef ranges v pos) (\<lambda>t. if refers v t then insert pos (P t) else P t)"
proof (cases "irIsTmp v \<and> val_type (the v) \<noteq> IR_TYPE_VOID")
  case True
  then have "irCgRecordRef ranges v pos = widen_range ranges (irVarId v) pos" by (simp add: irCgRecordRef_def)
  moreover have "refers v t \<longleftrightarrow> irVarId v = t" for t using True by (cases v) (auto simp: refers_def)
  ultimately show ?thesis using spans_cong [OF spans_widen [OF assms]] by simp
next
  case False
  then have "irCgRecordRef ranges v pos = ranges" by (auto simp: irCgRecordRef_def)
  moreover have "\<not> refers v t" for t using False by (cases v) (auto simp: refers_def)
  ultimately show ?thesis using assms by simp
qed

lemma spans_fold:
  assumes "spans ranges P"
  shows "spans (fold (\<lambda>v ranges. irCgRecordRef ranges v pos) vs ranges)
    (\<lambda>t. if \<exists>v \<in> set vs. refers v t then insert pos (P t) else P t)"
  using assms
proof (induction vs arbitrary: ranges P)
  case (Cons v vs)
  show ?case by (rule spans_cong, unfold fold.simps comp_def, rule Cons.IH [OF spans_record [OF Cons.prems, of v pos]]) auto
qed simp

lemma spans_instr:
  assumes "spans ranges P"
  shows "spans (fold (\<lambda>v ranges. irCgRecordRef ranges v pos) (instr_refs I) ranges)
    (\<lambda>t. if touches I t then insert pos (P t) else P t)"
  using spans_fold [OF assms] by (simp add: touches_refers)

lemma positions_Cons:
  "{pos + int k | k. k < length (I # Is) \<and> touches ((I # Is) ! k) t} =
     (if touches I t then {pos} else {}) \<union> {pos + 1 + int k | k. k < length Is \<and> touches (Is ! k) t}"
proof -
  have "(k < length (I # Is) \<and> touches ((I # Is) ! k) t) \<longleftrightarrow>
    (k = 0 \<and> touches I t \<or> (\<exists>j. k = Suc j \<and> j < length Is \<and> touches (Is ! j) t))" for k
    by (cases k) auto
  then have "{pos + int k | k. k < length (I # Is) \<and> touches ((I # Is) ! k) t} =
    {pos + int k | k. k = 0 \<and> touches I t \<or> (\<exists>j. k = Suc j \<and> j < length Is \<and> touches (Is ! j) t)}" by simp
  also have "\<dots> = (if touches I t then {pos} else {}) \<union> {pos + int (Suc j) | j. j < length Is \<and> touches (Is ! j) t}"
    by (auto simp del: of_nat_Suc)
  finally show ?thesis by (simp add: algebra_simps)
qed

lemma spans_ranges:
  assumes "spans ranges P"
  shows "spans (record_ranges ranges pos Is)
    (\<lambda>t. P t \<union> {pos + int k | k. k < length (real_instrs Is) \<and> touches (real_instrs Is ! k) t})"
  using assms
proof (induction Is arbitrary: ranges pos P)
  case (Cons I Is)
  show ?case
  proof (cases "i_op I = IR_NOP")
    case True
    then show ?thesis using Cons by (simp add: real_instrs_def)
  next
    case False
    then have real: "real_instrs (I # Is) = I # real_instrs Is" by (simp add: real_instrs_def)
    show ?thesis unfolding real positions_Cons
      by (rule spans_cong, unfold record_ranges.simps if_not_P [OF False], rule Cons.IH [OF spans_instr [OF Cons.prems]]) auto
  qed
qed (simp add: real_instrs_def)

lemma record_ranges_span: "spans (record_ranges [] 0 Is) (ref_positions Is)"
  by (rule spans_cong, rule spans_ranges [of "[]" "\<lambda>_. {}"]) (auto simp: ref_positions_def spans_def)

section \<open>The linear scan\<close>

text \<open>The frame offset of the slot with number \<open>k\<close>, for slots placed below \<open>start + extra\<close> bytes.\<close>

definition slot_loff :: "int \<Rightarrow> int \<Rightarrow> nat \<Rightarrow> int" where
  "slot_loff start extra k = - (start + extra + 8 * (int k + 1))"

lemma slot_loff_inj: "slot_loff start extra j = slot_loff start extra k \<longleftrightarrow> j = k"
  by (simp add: slot_loff_def)

lemma free_slot_Some: "free_slot slots first = Some k \<Longrightarrow> k < length slots \<and> snd (slots ! k) < first"
  by (induction slots first arbitrary: k rule: free_slot.induct) (auto split: if_splits)

lemma free_slot_None: "free_slot slots first = None \<Longrightarrow> k < length slots \<Longrightarrow> first \<le> snd (slots ! k)"
  by (induction slots first arbitrary: k rule: free_slot.induct) (auto simp: nth_Cons' split: if_splits)

definition slots_at :: "int \<Rightarrow> int \<Rightarrow> (int \<times> int) list \<Rightarrow> bool" where
  "slots_at start extra slots \<longleftrightarrow> (\<forall>k < length slots. fst (slots ! k) = slot_loff start extra k)"

text \<open>One step of the scan: the slot \<open>k\<close> that a range gets, an old one that is free or the next new one.\<close>

lemma linear_scan_step:
  assumes "slots_at start extra slots" "ra_extra_stack ra = extra + 8 * int (length slots)"
    and "ra_id_to_loff ra (rg_var_id r) = None"
  obtains k slots' ra' where
    "linear_scan start slots (r # rs) ra = linear_scan start slots' rs ra'"
    "k < length slots \<and> snd (slots ! k) < rg_from r \<and> slots' = slots[k := (slot_loff start extra k, rg_to r)] \<or>
     k = length slots \<and> (\<forall>j < length slots. rg_from r \<le> snd (slots ! j)) \<and>
       slots' = slots @ [(slot_loff start extra k, rg_to r)]"
    "ra_id_to_loff ra' = (ra_id_to_loff ra)(rg_var_id r \<mapsto> slot_loff start extra k)"
    "ra_loc ra' = (ra_loc ra)(rg_var_id r := IR_LOC_SLOT (slot_loff start extra k))"
    "slots_at start extra slots'" "ra_extra_stack ra' = extra + 8 * int (length slots')"
proof (cases "free_slot slots (rg_from r)")
  case (Some k)
  note k = free_slot_Some [OF Some]
  then have "fst (slots ! k) = slot_loff start extra k" using assms(1) by (simp add: slots_at_def)
  then show ?thesis
    using assms k Some
    by (intro that [of "slots[k := (slot_loff start extra k, rg_to r)]"
          "ra\<lparr>ra_id_to_loff := (ra_id_to_loff ra)(rg_var_id r \<mapsto> slot_loff start extra k),
              ra_loc := (ra_loc ra)(rg_var_id r := IR_LOC_SLOT (slot_loff start extra k))\<rparr>" k])
      (auto simp: irCgSetLoff_def slots_at_def nth_list_update Let_def)
next
  case None
  have new: "- start - (extra + 8 * int (length slots) + 8) = slot_loff start extra (length slots)"
    by (simp add: slot_loff_def)
  then show ?thesis
    using assms None free_slot_None [OF None]
    by (intro that [of "slots @ [(slot_loff start extra (length slots), rg_to r)]"
          "ra\<lparr>ra_extra_stack := ra_extra_stack ra + 8,
              ra_id_to_loff := (ra_id_to_loff ra)(rg_var_id r \<mapsto> slot_loff start extra (length slots)),
              ra_loc := (ra_loc ra)(rg_var_id r := IR_LOC_SLOT (slot_loff start extra (length slots)))\<rparr>" "length slots"])
      (auto simp: irCgSetLoff_def slots_at_def nth_append list_update_append new Let_def less_Suc_eq)
qed

text \<open>
  The scan gives every range a slot number \<open>c\<close> below the number \<open>n\<close> of slots, and two ranges the same one only
  when one ends before the other begins; earlier holders of a slot end before the ranges that get it.
\<close>

definition scanned ::
  "int \<Rightarrow> int \<Rightarrow> (int \<times> int) list \<Rightarrow> cg_range list \<Rightarrow> ra_ctx \<Rightarrow> ra_ctx \<Rightarrow> (cg_range \<Rightarrow> nat) \<Rightarrow> nat \<Rightarrow> bool" where
  "scanned start extra slots rs ra ra' c n \<longleftrightarrow> length slots \<le> n \<and> ra_extra_stack ra' = extra + 8 * int n \<and>
     (\<forall>r \<in> set rs. c r < n \<and> ra_id_to_loff ra' (rg_var_id r) = Some (slot_loff start extra (c r)) \<and>
        ra_loc ra' (rg_var_id r) = IR_LOC_SLOT (slot_loff start extra (c r)) \<and>
        (c r < length slots \<longrightarrow> snd (slots ! c r) < rg_from r)) \<and>
     (\<forall>q \<in> set rs. \<forall>r \<in> set rs. q \<noteq> r \<longrightarrow> c q = c r \<longrightarrow> rg_to q < rg_from r \<or> rg_to r < rg_from q) \<and>
     (\<forall>t. t \<notin> rg_var_id ` set rs \<longrightarrow> ra_id_to_loff ra' t = ra_id_to_loff ra t \<and> ra_loc ra' t = ra_loc ra t)"

lemma linear_scan_result:
  assumes "slots_at start extra slots" "ra_extra_stack ra = extra + 8 * int (length slots)"
    and "distinct (map rg_var_id rs)" "\<forall>r \<in> set rs. ra_id_to_loff ra (rg_var_id r) = None"
    and "\<forall>r \<in> set rs. rg_from r \<le> rg_to r"
  shows "\<exists>ra' c n. linear_scan start slots rs ra = Inr ra' \<and> scanned start extra slots rs ra ra' c n"
  using assms
proof (induction rs arbitrary: slots ra)
  case Nil
  then show ?case by (intro exI [of _ ra] exI [of _ "\<lambda>_. 0"] exI [of _ "length slots"]) (simp add: scanned_def)
next
  case (Cons r rs)
  obtain k slots' ra1 where step: "linear_scan start slots (r # rs) ra = linear_scan start slots' rs ra1"
    and k: "k < length slots \<and> snd (slots ! k) < rg_from r \<and> slots' = slots[k := (slot_loff start extra k, rg_to r)] \<or>
     k = length slots \<and> (\<forall>j < length slots. rg_from r \<le> snd (slots ! j)) \<and>
       slots' = slots @ [(slot_loff start extra k, rg_to r)]"
    and ra1: "ra_id_to_loff ra1 = (ra_id_to_loff ra)(rg_var_id r \<mapsto> slot_loff start extra k)"
      "ra_loc ra1 = (ra_loc ra)(rg_var_id r := IR_LOC_SLOT (slot_loff start extra k))"
    and inv: "slots_at start extra slots'" "ra_extra_stack ra1 = extra + 8 * int (length slots')"
    by (rule linear_scan_step [OF Cons.prems(1,2)]) (use Cons.prems(4) in auto)
  have fresh: "rg_var_id r \<notin> rg_var_id ` set rs" using Cons.prems(3) by simp
  have ne: "rg_var_id q \<noteq> rg_var_id r" if "q \<in> set rs" for q using fresh that by (metis imageI)
  have "distinct (map rg_var_id rs)" "\<forall>q \<in> set rs. ra_id_to_loff ra1 (rg_var_id q) = None"
    using Cons.prems(3,4) ne by (simp_all add: ra1)
  then obtain ra' c n where run: "linear_scan start slots' rs ra1 = Inr ra'"
    and sc: "scanned start extra slots' rs ra1 ra' c n"
    using Cons.IH [OF inv] Cons.prems(5) by force
  have IH: "length slots' \<le> n" "ra_extra_stack ra' = extra + 8 * int n"
    "\<forall>q \<in> set rs. c q < n \<and> ra_id_to_loff ra' (rg_var_id q) = Some (slot_loff start extra (c q)) \<and>
       ra_loc ra' (rg_var_id q) = IR_LOC_SLOT (slot_loff start extra (c q)) \<and>
       (c q < length slots' \<longrightarrow> snd (slots' ! c q) < rg_from q)"
    "\<forall>q \<in> set rs. \<forall>r \<in> set rs. q \<noteq> r \<longrightarrow> c q = c r \<longrightarrow> rg_to q < rg_from r \<or> rg_to r < rg_from q"
    "\<forall>t. t \<notin> rg_var_id ` set rs \<longrightarrow> ra_id_to_loff ra' t = ra_id_to_loff ra1 t \<and> ra_loc ra' t = ra_loc ra1 t"
    using sc unfolding scanned_def by blast+
  let ?c = "c(r := k)"
  have r_notin: "r \<notin> set rs" using fresh by blast
  have len: "length slots \<le> length slots'" "k < length slots'" "snd (slots' ! k) = rg_to r"
    "j < length slots \<Longrightarrow> j \<noteq> k \<Longrightarrow> snd (slots' ! j) = snd (slots ! j)" for j
    using k by (auto simp: nth_append)
  have same: "rg_to r < rg_from q" if "q \<in> set rs" "c q = k" for q using IH(3) that len(2,3) by auto
  have before: "snd (slots ! c q) < rg_from q" if "q \<in> set rs" "c q < length slots" for q
  proof (cases "c q = k")
    case True
    then have "snd (slots ! c q) < rg_from r" using k that(2) by auto
    moreover have "rg_from r \<le> rg_to r" using Cons.prems(5) by simp
    ultimately show ?thesis using same [OF that(1) True] by linarith
  next
    case False
    then show ?thesis using IH(3) that len(1,4) by (metis order_less_le_trans)
  qed
  have r: "ra_id_to_loff ra' (rg_var_id r) = Some (slot_loff start extra k)"
    "ra_loc ra' (rg_var_id r) = IR_LOC_SLOT (slot_loff start extra k)"
    using IH(5) fresh ra1 by auto
  have "scanned start extra slots (r # rs) ra ra' ?c n"
    unfolding scanned_def
  proof (intro conjI)
    show "length slots \<le> n" "ra_extra_stack ra' = extra + 8 * int n" using len(1) IH(1,2) by simp_all
    show "\<forall>q \<in> set (r # rs). ?c q < n \<and> ra_id_to_loff ra' (rg_var_id q) = Some (slot_loff start extra (?c q)) \<and>
       ra_loc ra' (rg_var_id q) = IR_LOC_SLOT (slot_loff start extra (?c q)) \<and>
       (?c q < length slots \<longrightarrow> snd (slots ! ?c q) < rg_from q)"
      using IH(1,3) r len(2) k before by auto
    show "\<forall>q \<in> set (r # rs). \<forall>p \<in> set (r # rs). q \<noteq> p \<longrightarrow> ?c q = ?c p \<longrightarrow> rg_to q < rg_from p \<or> rg_to p < rg_from q"
      using IH(4) same r_notin by auto
    show "\<forall>t. t \<notin> rg_var_id ` set (r # rs) \<longrightarrow> ra_id_to_loff ra' t = ra_id_to_loff ra t \<and> ra_loc ra' t = ra_loc ra t"
      using IH(5) ra1 by auto
  qed
  then show ?case using step run by metis
qed

section \<open>Buffers and addresses\<close>

lemma alloc_operands_fixed:
  "i_op I = IR_ALLOCA \<Longrightarrow> irCgAllocOperandsForInstr ra I start = irCgAllocTmpSized ra (i_dst I) start (alloca_bytes I)"
  "i_op I = IR_GEP \<Longrightarrow> irCgAllocOperandsForInstr ra I start =
     (if \<not> irIsTmp (i_dst I) \<or> i_r1 I = None \<or> \<not> irIsConstInt (i_r2 I) then Inr ra
      else rbind (irCgGetLoff ra (i_r1 I)) (\<lambda>base_loff.
        if ra_id_to_loff ra (irDstVarId I) = None
        then irCgSetLoff ra (irDstVarId I) (base_loff + sint (ucast (const_of (i_r2 I)) :: u32)) else Inr ra))"
  by (simp_all add: irCgAllocOperandsForInstr_def Let_def)

lemma alloca_size_min: "8 \<le> alloca_size n" "n \<le> alloca_size n"
proof -
  have "(n + 7) AND NOT (mask 3) = push_bit 3 (drop_bit 3 (n + 7))" by (rule bit_eqI) (auto simp: bit_simps)
  then have "(n + 7) AND NOT 7 = 8 * ((n + 7) div 8)" by (simp add: push_bit_eq_mult drop_bit_eq_div mask_eq_exp_minus_1)
  moreover have "n \<le> 8 * ((n + 7) div 8)" by presburger
  ultimately show "8 \<le> alloca_size n" "n \<le> alloca_size n" by (auto simp: alloca_size_def Let_def)
qed

text \<open>The temporaries bound by the first pass.\<close>

definition fixed_ids :: "ir_instr list \<Rightarrow> u32 set" where
  "fixed_ids Is = {irDstVarId I | I. I \<in> set Is \<and> (i_op I = IR_ALLOCA \<or> i_op I = IR_GEP) \<and> irIsTmp (i_dst I)}"

lemma fixed_ids_Cons:
  "fixed_ids (I # Is) =
     (if (i_op I = IR_ALLOCA \<or> i_op I = IR_GEP) \<and> irIsTmp (i_dst I) then insert (irDstVarId I) (fixed_ids Is) else fixed_ids Is)"
  by (auto simp: fixed_ids_def)

text \<open>One instruction of the first pass.\<close>

definition fixed_step :: "ra_ctx \<Rightarrow> int \<Rightarrow> ir_instr \<Rightarrow> ra_ctx \<Rightarrow> bool" where
  "fixed_step ra start I ra' \<longleftrightarrow> ra_loc ra' = ra_loc ra \<and>
     (if i_op I = IR_ALLOCA \<and> irIsTmp (i_dst I) \<and> ra_id_to_loff ra (irDstVarId I) = None
      then ra_extra_stack ra' = ra_extra_stack ra + alloca_size (alloca_bytes I) \<and>
        ra_id_to_loff ra' = (ra_id_to_loff ra)(irDstVarId I \<mapsto> - (start + ra_extra_stack ra'))
      else ra_extra_stack ra' = ra_extra_stack ra \<and>
        (ra_id_to_loff ra' = ra_id_to_loff ra \<or>
         i_op I = IR_GEP \<and> irIsTmp (i_dst I) \<and> ra_id_to_loff ra (irDstVarId I) = None \<and>
         (\<exists>loff. ra_id_to_loff ra' = (ra_id_to_loff ra)(irDstVarId I \<mapsto> loff))))"

lemma alloc_operands_step:
  assumes "irCgAllocOperandsForInstr ra I start = Inr ra'" "i_op I = IR_ALLOCA \<or> i_op I = IR_GEP"
  shows "fixed_step ra start I ra'"
  using assms(2)
proof
  assume op: "i_op I = IR_ALLOCA"
  then show ?thesis
    using assms(1) by (auto simp: alloc_operands_fixed fixed_step_def irCgAllocTmpSized_def irCgSetLoff_def irDstVarId_def Let_def split: if_splits)
next
  assume op: "i_op I = IR_GEP"
  then show ?thesis
    using assms(1) by (auto simp: alloc_operands_fixed fixed_step_def irCgSetLoff_def split: if_splits)
qed

lemma alloc_fixed_cases:
  assumes "alloc_fixed ra start (I # Is) = Inr ra'"
  obtains ra1 where "alloc_fixed ra1 start Is = Inr ra'" "fixed_step ra start I ra1"
proof (cases "i_op I = IR_ALLOCA \<or> i_op I = IR_GEP")
  case True
  then obtain ra1 where "irCgAllocOperandsForInstr ra I start = Inr ra1" "alloc_fixed ra1 start Is = Inr ra'"
    using assms by auto
  then show ?thesis using that alloc_operands_step True by blast
next
  case False
  then have "alloc_fixed ra start Is = Inr ra'" "fixed_step ra start I ra" using assms by (simp_all add: fixed_step_def)
  then show ?thesis using that by blast
qed

lemma alloc_fixed_keeps:
  assumes "alloc_fixed ra start Is = Inr ra'"
  shows "ra_extra_stack ra \<le> ra_extra_stack ra'" "ra_loc ra' = ra_loc ra" "ra_id_to_loff ra \<subseteq>\<^sub>m ra_id_to_loff ra'"
    "dom (ra_id_to_loff ra') \<subseteq> dom (ra_id_to_loff ra) \<union> fixed_ids Is"
proof -
  have "ra_extra_stack ra \<le> ra_extra_stack ra' \<and> ra_loc ra' = ra_loc ra \<and> ra_id_to_loff ra \<subseteq>\<^sub>m ra_id_to_loff ra' \<and>
    dom (ra_id_to_loff ra') \<subseteq> dom (ra_id_to_loff ra) \<union> fixed_ids Is"
    using assms
  proof (induction Is arbitrary: ra)
    case (Cons I Is)
    obtain ra1 where ra1: "alloc_fixed ra1 start Is = Inr ra'" "fixed_step ra start I ra1"
      by (rule alloc_fixed_cases [OF Cons.prems])
    have "ra_extra_stack ra \<le> ra_extra_stack ra1 \<and> ra_loc ra1 = ra_loc ra \<and> ra_id_to_loff ra \<subseteq>\<^sub>m ra_id_to_loff ra1 \<and>
      dom (ra_id_to_loff ra1) \<subseteq> dom (ra_id_to_loff ra) \<union> fixed_ids [I]"
      using ra1(2) alloca_size_min(1) [of "alloca_bytes I"]
      by (auto simp: fixed_step_def fixed_ids_Cons map_le_def split: if_splits)
    moreover have "fixed_ids (I # Is) = fixed_ids [I] \<union> fixed_ids Is" by (auto simp: fixed_ids_def)
    ultimately show ?case using Cons.IH [OF ra1(1)] map_le_trans by auto blast+
  qed simp
  then show "ra_extra_stack ra \<le> ra_extra_stack ra'" "ra_loc ra' = ra_loc ra" "ra_id_to_loff ra \<subseteq>\<^sub>m ra_id_to_loff ra'"
    "dom (ra_id_to_loff ra') \<subseteq> dom (ra_id_to_loff ra) \<union> fixed_ids Is" by simp_all
qed

lemma alloc_fixed_append:
  "alloc_fixed ra start (Is @ Js) = rbind (alloc_fixed ra start Is) (\<lambda>ra. alloc_fixed ra start Js)"
  by (induction Is arbitrary: ra) (simp_all add: rbind_assoc)

text \<open>A buffer lies below what was reserved before it and above what is reserved after it.\<close>

lemma alloc_fixed_buffer:
  assumes "alloc_fixed ra start (Is @ I # Js) = Inr ra'" "i_op I = IR_ALLOCA" "irIsTmp (i_dst I)"
    and "irDstVarId I \<notin> dom (ra_id_to_loff ra)" "irDstVarId I \<notin> fixed_ids Is"
  obtains ra1 loff where "alloc_fixed ra start Is = Inr ra1" "ra_id_to_loff ra' (irDstVarId I) = Some loff"
    "- (start + ra_extra_stack ra') \<le> loff" "loff + alloca_size (alloca_bytes I) = - (start + ra_extra_stack ra1)"
proof -
  obtain ra1 where ra1: "alloc_fixed ra start Is = Inr ra1" "alloc_fixed ra1 start (I # Js) = Inr ra'"
    using assms(1) by (auto simp: alloc_fixed_append)
  obtain ra2 where ra2: "alloc_fixed ra2 start Js = Inr ra'" "fixed_step ra1 start I ra2"
    by (rule alloc_fixed_cases [OF ra1(2)])
  have "ra_id_to_loff ra1 (irDstVarId I) = None" using alloc_fixed_keeps(4) [OF ra1(1)] assms(4,5) by blast
  then have at: "ra_extra_stack ra2 = ra_extra_stack ra1 + alloca_size (alloca_bytes I)"
    "ra_id_to_loff ra2 (irDstVarId I) = Some (- (start + ra_extra_stack ra2))"
    using ra2(2) assms(2,3) by (auto simp: fixed_step_def)
  moreover have "ra_id_to_loff ra' (irDstVarId I) = Some (- (start + ra_extra_stack ra2))"
    using alloc_fixed_keeps(3) [OF ra2(1)] at(2) by (metis domI map_le_def)
  ultimately show thesis
    using alloc_fixed_keeps(1) [OF ra2(1)] by (intro that [OF ra1(1), of "- (start + ra_extra_stack ra2)"]) simp_all
qed

text \<open>The addresses of the first pass are taken in buffers and variables that have a place already.\<close>

definition takes_address :: "ir_instr \<Rightarrow> bool" where
  "takes_address I \<longleftrightarrow> i_op I = IR_GEP \<and> irIsTmp (i_dst I) \<and> i_r1 I \<noteq> None \<and> irIsConstInt (i_r2 I)"

fun bases_bound :: "u32 set \<Rightarrow> ir_instr list \<Rightarrow> bool" where
  "bases_bound B [] \<longleftrightarrow> True"
| "bases_bound B (I # Is) \<longleftrightarrow> (takes_address I \<longrightarrow> irVarId (i_r1 I) \<in> B) \<and>
     bases_bound (if takes_address I \<or> i_op I = IR_ALLOCA \<and> irIsTmp (i_dst I) then insert (irDstVarId I) B else B) Is"

lemma alloc_fixed_returns:
  assumes "bases_bound (dom (ra_id_to_loff ra)) Is"
  shows "\<exists>ra'. alloc_fixed ra start Is = Inr ra'"
  using assms
proof (induction Is arbitrary: ra)
  case (Cons I Is)
  let ?B = "dom (ra_id_to_loff ra)"
  show ?case
  proof (cases "i_op I = IR_ALLOCA \<or> i_op I = IR_GEP")
    case True
    have "\<exists>ra1. irCgAllocOperandsForInstr ra I start = Inr ra1 \<and> dom (ra_id_to_loff ra1) =
        (if takes_address I \<or> i_op I = IR_ALLOCA \<and> irIsTmp (i_dst I) then insert (irDstVarId I) ?B else ?B)"
      using True
    proof
      assume "i_op I = IR_ALLOCA"
      then show ?thesis
        by (auto simp: alloc_operands_fixed irCgAllocTmpSized_def irCgSetLoff_def takes_address_def irDstVarId_def Let_def)
    next
      assume op: "i_op I = IR_GEP"
      then have "takes_address I \<Longrightarrow> \<exists>loff. irCgGetLoff ra (i_r1 I) = Inr loff"
        using Cons.prems by (auto simp: takes_address_def irCgGetLoff_def split: option.splits)
      then show ?thesis
        using op by (cases "ra_id_to_loff ra (irDstVarId I)") (auto simp: alloc_operands_fixed irCgSetLoff_def takes_address_def)
    qed
    then show ?thesis using Cons True by fastforce
  next
    case False
    then show ?thesis using Cons by (simp add: takes_address_def)
  qed
qed simp

section \<open>The allocation as a whole\<close>

text \<open>What \<^verbatim>\<open>qsort\<close> promises: a rearrangement of the elements, and, for a comparison that is a total order, a sorted one.\<close>

definition rearranges :: "((cg_range \<Rightarrow> cg_range \<Rightarrow> int) \<Rightarrow> cg_range list \<Rightarrow> cg_range list) \<Rightarrow> bool" where
  "rearranges qsort \<longleftrightarrow> (\<forall>cmp xs. mset (qsort cmp xs) = mset xs)"

definition sorts_ranges :: "((cg_range \<Rightarrow> cg_range \<Rightarrow> int) \<Rightarrow> cg_range list \<Rightarrow> cg_range list) \<Rightarrow> bool" where
  "sorts_ranges qsort \<longleftrightarrow> (\<forall>xs. sorted_wrt (\<lambda>a b. irCgRangeCmp a b \<le> 0) (qsort irCgRangeCmp xs))"

definition in_reg :: "ra_ctx \<Rightarrow> u32 \<Rightarrow> bool" where
  "in_reg ra t \<longleftrightarrow> (case ra_loc ra t of IR_LOC_REG x \<Rightarrow> True | _ \<Rightarrow> False)"

text \<open>The temporaries the scan gives a slot: referred to, without an offset, not a buffer or address, in no register.\<close>

definition coloured :: "ra_ctx \<Rightarrow> ir_instr list \<Rightarrow> u32 \<Rightarrow> bool" where
  "coloured ra Is t \<longleftrightarrow> ref_positions Is t \<noteq> {} \<and> ra_id_to_loff ra t = None \<and> \<not> in_reg ra t"

lemma in_reg_case: "(case ra_loc ra t of IR_LOC_REG x \<Rightarrow> False | _ \<Rightarrow> True) \<longleftrightarrow> \<not> in_reg ra t"
  by (simp add: in_reg_def split: ir_loc.split)

definition colour_ranges :: "ra_ctx \<Rightarrow> ir_instr list \<Rightarrow> cg_range list" where
  "colour_ranges ra Is = to_colour ra (record_ranges [] 0 Is)"

lemma colour_ranges:
  shows "distinct (map rg_var_id (colour_ranges ra Is))"
    and "r \<in> set (colour_ranges ra Is) \<Longrightarrow> coloured ra Is (rg_var_id r) \<and>
      rg_from r \<in> ref_positions Is (rg_var_id r) \<and> rg_to r \<in> ref_positions Is (rg_var_id r) \<and>
      (\<forall>p \<in> ref_positions Is (rg_var_id r). rg_from r \<le> p \<and> p \<le> rg_to r)"
  using record_ranges_span [of Is]
  by (auto simp: colour_ranges_def to_colour_def spans_def coloured_def in_reg_case distinct_map inj_on_def)

lemma colour_ranges_complete:
  assumes "coloured ra Is t"
  shows "\<exists>r \<in> set (colour_ranges ra Is). rg_var_id r = t"
proof -
  have "t \<in> rg_var_id ` set (record_ranges [] 0 Is)"
    using record_ranges_span [of Is] assms unfolding spans_def coloured_def by blast
  then show ?thesis using assms by (auto simp: colour_ranges_def to_colour_def coloured_def in_reg_case)
qed

lemma colour_range_le: "r \<in> set (colour_ranges ra Is) \<Longrightarrow> rg_from r \<le> rg_to r"
  using colour_ranges(2) by blast

lemma alloc_all_result:
  assumes "alloc_fixed ra start (cg_instrs blocks) = Inr ra1" "rearranges qsort"
  obtains ra' c n rs where "irCgAllocAllTmps qsort ra blocks start = Inr ra'"
    "scanned start (ra_extra_stack ra1) [] rs ra1 ra' c n"
    "set rs = set (colour_ranges ra1 (cg_instrs blocks))" "distinct (map rg_var_id rs)"
    "rs = qsort irCgRangeCmp (colour_ranges ra1 (cg_instrs blocks))"
proof -
  let ?rs = "qsort irCgRangeCmp (colour_ranges ra1 (cg_instrs blocks))"
  have m: "mset ?rs = mset (colour_ranges ra1 (cg_instrs blocks))" using assms(2) by (simp add: rearranges_def)
  then have set: "set ?rs = set (colour_ranges ra1 (cg_instrs blocks))" by (rule mset_eq_setD)
  have "mset (map rg_var_id ?rs) = mset (map rg_var_id (colour_ranges ra1 (cg_instrs blocks)))" using m by simp
  then have d: "distinct (map rg_var_id ?rs)" using colour_ranges(1) mset_eq_imp_distinct_iff by blast
  have "\<forall>r \<in> set ?rs. ra_id_to_loff ra1 (rg_var_id r) = None" "\<forall>r \<in> set ?rs. rg_from r \<le> rg_to r"
    using set colour_ranges(2) colour_range_le by (auto simp: coloured_def)
  then obtain ra' c n where "linear_scan start [] ?rs ra1 = Inr ra'" "scanned start (ra_extra_stack ra1) [] ?rs ra1 ra' c n"
    using linear_scan_result [of start "ra_extra_stack ra1" "[]" ra1 ?rs] d by (auto simp: slots_at_def)
  then show thesis
    using that [OF _ _ set d refl] assms(1) by (simp add: irCgAllocAllTmps_def colour_ranges_def)
qed

section \<open>The fewest slots\<close>

text \<open>When every slot is taken, its holder is live where the next range begins.\<close>

lemma linear_scan_tight:
  assumes "slots_at start extra slots" "ra_extra_stack ra = extra + 8 * int (length slots)"
    and "distinct (map rg_var_id rs)" "\<forall>r \<in> set rs. ra_id_to_loff ra (rg_var_id r) = None"
    and "\<forall>r \<in> set rs. rg_from r \<le> rg_to r" "sorted (map rg_from rs)"
    and "length hs = length slots" "\<forall>k < length slots. rg_to (hs ! k) = snd (slots ! k)"
    and "\<forall>h \<in> set hs. \<forall>r \<in> set rs. rg_from h \<le> rg_from r" "distinct hs" "set hs \<inter> set rs = {}"
    and "linear_scan start slots rs ra = Inr ra'" "ra_extra_stack ra' = extra + 8 * int n"
  shows "n = length slots \<or> (\<exists>p. n \<le> card {q \<in> set hs \<union> set rs. rg_from q \<le> p \<and> p \<le> rg_to q})"
  using assms
proof (induction rs arbitrary: slots ra hs)
  case (Cons r rs)
  obtain k slots' ra1 where step: "linear_scan start slots (r # rs) ra = linear_scan start slots' rs ra1"
    and k: "k < length slots \<and> snd (slots ! k) < rg_from r \<and> slots' = slots[k := (slot_loff start extra k, rg_to r)] \<or>
     k = length slots \<and> (\<forall>j < length slots. rg_from r \<le> snd (slots ! j)) \<and>
       slots' = slots @ [(slot_loff start extra k, rg_to r)]"
    and ra1: "ra_id_to_loff ra1 = (ra_id_to_loff ra)(rg_var_id r \<mapsto> slot_loff start extra k)"
      "ra_loc ra1 = (ra_loc ra)(rg_var_id r := IR_LOC_SLOT (slot_loff start extra k))"
    and inv: "slots_at start extra slots'" "ra_extra_stack ra1 = extra + 8 * int (length slots')"
    by (rule linear_scan_step [OF Cons.prems(1,2)]) (use Cons.prems(4) in auto)
  have fresh: "rg_var_id r \<notin> rg_var_id ` set rs" using Cons.prems(3) by simp
  have ne: "rg_var_id q \<noteq> rg_var_id r" if "q \<in> set rs" for q using fresh that by (metis imageI)
  have pre: "distinct (map rg_var_id rs)" "\<forall>q \<in> set rs. ra_id_to_loff ra1 (rg_var_id q) = None"
    "\<forall>q \<in> set rs. rg_from q \<le> rg_to q" "sorted (map rg_from rs)" "linear_scan start slots' rs ra1 = Inr ra'"
    using Cons.prems ne step by (simp_all add: ra1)
  have r_rs: "r \<notin> set rs" using ne by blast
  let ?hs = "if k < length slots then hs[k := r] else hs @ [r]"
  have hs: "length ?hs = length slots'" "\<forall>j < length slots'. rg_to (?hs ! j) = snd (slots' ! j)"
    using k Cons.prems(7,8) by (auto simp: nth_list_update nth_append less_Suc_eq)
  have sub: "set ?hs \<subseteq> insert r (set hs)" by (auto dest: set_update_subset_insert [THEN subsetD])
  have order: "\<forall>h \<in> set ?hs. \<forall>q \<in> set rs. rg_from h \<le> rg_from q" using sub Cons.prems(6,9) by auto
  have dist: "distinct ?hs" using Cons.prems(10,11) by (auto intro: distinct_list_update)
  have disj: "set ?hs \<inter> set rs = {}" using sub Cons.prems(11) r_rs by auto
  have incl: "set ?hs \<union> set rs \<subseteq> set hs \<union> set (r # rs)" using sub by auto
  have grow: "\<exists>p. n \<le> card {q \<in> set hs \<union> set (r # rs). rg_from q \<le> p \<and> p \<le> rg_to q}"
    if some: "\<exists>p. n \<le> card {q \<in> set ?hs \<union> set rs. rg_from q \<le> p \<and> p \<le> rg_to q}"
  proof -
    obtain p where p: "n \<le> card {q \<in> set ?hs \<union> set rs. rg_from q \<le> p \<and> p \<le> rg_to q}" using some by blast
    have "card {q \<in> set ?hs \<union> set rs. rg_from q \<le> p \<and> p \<le> rg_to q} \<le>
        card {q \<in> set hs \<union> set (r # rs). rg_from q \<le> p \<and> p \<le> rg_to q}"
      by (rule card_mono) (use incl in auto)
    then show ?thesis using p by (meson order_trans)
  qed
  have "n = length slots' \<or> (\<exists>p. n \<le> card {q \<in> set ?hs \<union> set rs. rg_from q \<le> p \<and> p \<le> rg_to q})"
    by (rule Cons.IH [OF inv pre(1-4) hs order dist disj pre(5) Cons.prems(13)])
  then show ?case
  proof
    assume n: "n = length slots'"
    show ?thesis
    proof (cases "k < length slots")
      case True
      then show ?thesis using k n by auto
    next
      case False
      then have new: "\<forall>j < length slots. rg_from r \<le> snd (slots ! j)" "n = Suc (length slots)" using k n by auto
      have "set (hs @ [r]) \<subseteq> {q \<in> set hs \<union> set (r # rs). rg_from q \<le> rg_from r \<and> rg_from r \<le> rg_to q}"
        using new(1) Cons.prems(5,7-9) by (auto simp: in_set_conv_nth)
      then have "card (set (hs @ [r])) \<le> card {q \<in> set hs \<union> set (r # rs). rg_from q \<le> rg_from r \<and> rg_from r \<le> rg_to q}"
        by (intro card_mono) auto
      moreover have "card (set (hs @ [r])) = n"
        using distinct_card [of "hs @ [r]"] Cons.prems(7,10,11) new(2) by simp
      ultimately show ?thesis by metis
    qed
  qed (use grow in blast)
qed simp

end
