(* ===== verification/IrRegAlloc_Props.thy ===== *)
theory IrRegAlloc_Props
  imports IrRegAlloc_Correct IrEval_Sim
begin

text \<open>
  The contract of the slot allocation: sharing is safe, every temporary has a place, buffers are apart from
  slots, the slots are the fewest possible, and straight-line code computes the same with its temporaries in
  their slots.
\<close>

section \<open>Places\<close>

lemma dom_fixed:
  assumes "alloc_fixed ra start Is = Inr ra1" "coloured ra Is t" "t \<notin> fixed_ids Is"
  shows "coloured ra1 Is t"
  using alloc_fixed_keeps(2,4) [OF assms(1)] assms(2,3) by (auto simp: coloured_def in_reg_def domIff)

lemma alloc_all_fixed:
  assumes "irCgAllocAllTmps qsort ra blocks start = Inr ra'"
  obtains ra1 where "alloc_fixed ra start (cg_instrs blocks) = Inr ra1"
  using assms by (auto simp: irCgAllocAllTmps_def)

text \<open>The slots of the temporaries, from the numbers the scan gave their ranges.\<close>

definition placed :: "int \<Rightarrow> ir_instr list \<Rightarrow> ra_ctx \<Rightarrow> ra_ctx \<Rightarrow> (u32 \<Rightarrow> nat) \<Rightarrow> nat \<Rightarrow> bool" where
  "placed start Is ra1 ra' c n \<longleftrightarrow>
     (\<forall>t. coloured ra1 Is t \<longrightarrow> ra_id_to_loff ra' t = Some (slot_loff start (ra_extra_stack ra1) (c t)) \<and>
        ra_loc ra' t = IR_LOC_SLOT (slot_loff start (ra_extra_stack ra1) (c t)) \<and> c t < n) \<and>
     (\<forall>t u. coloured ra1 Is t \<longrightarrow> coloured ra1 Is u \<longrightarrow> t \<noteq> u \<longrightarrow> c t = c u \<longrightarrow>
        (\<forall>p \<in> ref_positions Is t. \<forall>q \<in> ref_positions Is u. p < q) \<or>
        (\<forall>p \<in> ref_positions Is t. \<forall>q \<in> ref_positions Is u. q < p)) \<and>
     ra_extra_stack ra' = ra_extra_stack ra1 + 8 * int n \<and>
     (\<forall>t. \<not> coloured ra1 Is t \<longrightarrow> ra_id_to_loff ra' t = ra_id_to_loff ra1 t \<and> ra_loc ra' t = ra_loc ra1 t)"

lemma placedD:
  assumes "placed start Is ra1 ra' c n"
  shows "coloured ra1 Is t \<Longrightarrow> ra_id_to_loff ra' t = Some (slot_loff start (ra_extra_stack ra1) (c t)) \<and>
       ra_loc ra' t = IR_LOC_SLOT (slot_loff start (ra_extra_stack ra1) (c t)) \<and> c t < n"
    and "coloured ra1 Is t \<Longrightarrow> coloured ra1 Is u \<Longrightarrow> t \<noteq> u \<Longrightarrow> c t = c u \<Longrightarrow>
       (\<forall>p \<in> ref_positions Is t. \<forall>q \<in> ref_positions Is u. p < q) \<or>
       (\<forall>p \<in> ref_positions Is t. \<forall>q \<in> ref_positions Is u. q < p)"
    and "ra_extra_stack ra' = ra_extra_stack ra1 + 8 * int n"
    and "\<not> coloured ra1 Is t \<Longrightarrow> ra_id_to_loff ra' t = ra_id_to_loff ra1 t \<and> ra_loc ra' t = ra_loc ra1 t"
  using assms unfolding placed_def by blast+

lemma coloured_slot:
  assumes "irCgAllocAllTmps qsort ra blocks start = Inr ra'" "rearranges qsort"
    and "alloc_fixed ra start (cg_instrs blocks) = Inr ra1"
  obtains c n where "placed start (cg_instrs blocks) ra1 ra' c n"
proof -
  let ?Is = "cg_instrs blocks"
  obtain ra2 c n rs where run: "irCgAllocAllTmps qsort ra blocks start = Inr ra2"
    and sc: "scanned start (ra_extra_stack ra1) [] rs ra1 ra2 c n"
    and rs: "set rs = set (colour_ranges ra1 ?Is)" by (rule alloc_all_result [OF assms(3,2)])
  have ra2: "ra2 = ra'" using run assms(1) by simp
  have facts: "\<forall>r \<in> set rs. c r < n \<and> ra_id_to_loff ra' (rg_var_id r) = Some (slot_loff start (ra_extra_stack ra1) (c r)) \<and>
        ra_loc ra' (rg_var_id r) = IR_LOC_SLOT (slot_loff start (ra_extra_stack ra1) (c r))"
    "\<forall>q \<in> set rs. \<forall>r \<in> set rs. q \<noteq> r \<longrightarrow> c q = c r \<longrightarrow> rg_to q < rg_from r \<or> rg_to r < rg_from q"
    "ra_extra_stack ra' = ra_extra_stack ra1 + 8 * int n"
    "\<forall>t. t \<notin> rg_var_id ` set rs \<longrightarrow> ra_id_to_loff ra' t = ra_id_to_loff ra1 t \<and> ra_loc ra' t = ra_loc ra1 t"
    using sc unfolding scanned_def ra2 by blast+
  define rg where "rg t = (SOME r. r \<in> set rs \<and> rg_var_id r = t)" for t
  have rg: "rg t \<in> set rs \<and> rg_var_id (rg t) = t" if "coloured ra1 ?Is t" for t
    unfolding rg_def by (rule someI_ex) (use colour_ranges_complete [OF that] rs in blast)
  have bounds: "\<forall>p \<in> ref_positions ?Is t. rg_from (rg t) \<le> p \<and> p \<le> rg_to (rg t)" if "coloured ra1 ?Is t" for t
    using colour_ranges(2) [of "rg t" ra1 ?Is] rg [OF that] rs by auto
  have "placed start ?Is ra1 ra' (\<lambda>t. c (rg t)) n"
    unfolding placed_def
  proof (intro conjI allI impI)
    fix t assume t: "coloured ra1 ?Is t"
    show "ra_id_to_loff ra' t = Some (slot_loff start (ra_extra_stack ra1) (c (rg t)))"
      "ra_loc ra' t = IR_LOC_SLOT (slot_loff start (ra_extra_stack ra1) (c (rg t)))" "c (rg t) < n"
      using facts(1) rg [OF t] by metis+
  next
    fix t u assume t: "coloured ra1 ?Is t" and u: "coloured ra1 ?Is u" and ne: "t \<noteq> u" and same: "c (rg t) = c (rg u)"
    have "rg t \<noteq> rg u" using rg [OF t] rg [OF u] ne by metis
    then have "rg_to (rg t) < rg_from (rg u) \<or> rg_to (rg u) < rg_from (rg t)" using facts(2) rg [OF t] rg [OF u] same by blast
    then show "(\<forall>p \<in> ref_positions ?Is t. \<forall>q \<in> ref_positions ?Is u. p < q) \<or>
       (\<forall>p \<in> ref_positions ?Is t. \<forall>q \<in> ref_positions ?Is u. q < p)"
      using bounds [OF t] bounds [OF u] by fastforce
  next
    fix t assume "\<not> coloured ra1 ?Is t"
    then have "t \<notin> rg_var_id ` set rs" using rs colour_ranges(2) by blast
    then show "ra_id_to_loff ra' t = ra_id_to_loff ra1 t" "ra_loc ra' t = ra_loc ra1 t" using facts(4) by blast+
  qed (rule facts(3))
  then show thesis by (rule that)
qed

text \<open>
  C5. Temporaries share stack memory only when one is dead before the other is born: after slot allocation two
  different temporaries that the scan placed either lie in disjoint 8-byte slots, or in the same slot, and then every
  reference to one of them comes, in emission order, before every reference to the other.
\<close>

theorem slots_shared_only_when_dead:
  assumes "irCgAllocAllTmps qsort ra blocks start = Inr ra'" "rearranges qsort" "t \<noteq> u"
    and "coloured ra (cg_instrs blocks) t" "t \<notin> fixed_ids (cg_instrs blocks)"
    and "coloured ra (cg_instrs blocks) u" "u \<notin> fixed_ids (cg_instrs blocks)"
  shows "\<exists>lt lu. ra_id_to_loff ra' t = Some lt \<and> ra_id_to_loff ra' u = Some lu \<and>
    (lt + 8 \<le> lu \<or> lu + 8 \<le> lt \<or>
     lt = lu \<and> ((\<forall>p \<in> ref_positions (cg_instrs blocks) t. \<forall>q \<in> ref_positions (cg_instrs blocks) u. p < q) \<or>
       (\<forall>p \<in> ref_positions (cg_instrs blocks) t. \<forall>q \<in> ref_positions (cg_instrs blocks) u. q < p)))"
proof -
  obtain ra1 where ra1: "alloc_fixed ra start (cg_instrs blocks) = Inr ra1" by (rule alloc_all_fixed [OF assms(1)])
  note t = dom_fixed [OF ra1 assms(4,5)] and u = dom_fixed [OF ra1 assms(6,7)]
  obtain c n where c: "placed start (cg_instrs blocks) ra1 ra' c n" by (rule coloured_slot [OF assms(1,2) ra1])
  show ?thesis
  proof (cases "c t = c u")
    case True
    then show ?thesis using placedD(1) [OF c t] placedD(1) [OF c u] placedD(2) [OF c t u assms(3)] by simp
  next
    case False
    then have "int (c t) < int (c u) \<or> int (c u) < int (c t)" by linarith
    then show ?thesis using placedD(1) [OF c t] placedD(1) [OF c u] by (auto simp: slot_loff_def)
  qed
qed

text \<open>
  C30. The code generator always finds a place: when the addresses are taken of variables and buffers that have one, the
  allocation returns, and every temporary with a value that an instruction refers to is in a register or has a
  frame offset, so \<^verbatim>\<open>irCgGetLoff\<close> never panics on it.
\<close>

theorem every_reference_placed:
  assumes "bases_bound (dom (ra_id_to_loff ra)) (cg_instrs blocks)" "rearranges qsort"
  shows "\<exists>ra'. irCgAllocAllTmps qsort ra blocks start = Inr ra' \<and>
    (\<forall>I \<in> set (real_instrs (cg_instrs blocks)). \<forall>v. Some v \<in> set (instr_refs I) \<longrightarrow> val_kind v = IR_VAL_TMP \<longrightarrow>
       val_type v \<noteq> IR_TYPE_VOID \<longrightarrow> in_reg ra (irVarId (Some v)) \<or> (\<exists>loff. irCgGetLoff ra' (Some v) = Inr loff))"
proof -
  let ?Is = "cg_instrs blocks"
  obtain ra1 where ra1: "alloc_fixed ra start ?Is = Inr ra1" using alloc_fixed_returns [OF assms(1)] by blast
  obtain ra' c n rs where run: "irCgAllocAllTmps qsort ra blocks start = Inr ra'"
    "scanned start (ra_extra_stack ra1) [] rs ra1 ra' c n" by (rule alloc_all_result [OF ra1 assms(2)])
  obtain c n where c: "placed start ?Is ra1 ra' c n" by (rule coloured_slot [OF run(1) assms(2) ra1])
  have "in_reg ra t \<or> ra_id_to_loff ra' t \<noteq> None" if I: "I \<in> set (real_instrs ?Is)" "touches I t" for I t
  proof -
    have "ref_positions ?Is t \<noteq> {}" using I by (auto simp: ref_positions_def in_set_conv_nth)
    moreover have "in_reg ra1 t = in_reg ra t" using alloc_fixed_keeps(2) [OF ra1] by (simp add: in_reg_def)
    ultimately show ?thesis using placedD(1,4) [OF c, of t] by (cases "coloured ra1 ?Is t") (auto simp: coloured_def)
  qed
  then have "in_reg ra (irVarId (Some v)) \<or> (\<exists>loff. irCgGetLoff ra' (Some v) = Inr loff)"
    if "I \<in> set (real_instrs ?Is)" "Some v \<in> set (instr_refs I)" "val_kind v = IR_VAL_TMP" "val_type v \<noteq> IR_TYPE_VOID" for I v
    using that by (fastforce simp: touches_def irCgGetLoff_def)
  then show ?thesis using run(1) by blast
qed

text \<open>
  C31. Buffers are apart: the bytes of an \<^verbatim>\<open>IR_ALLOCA\<close>, as many as it asks for, rounded up to 8, lie
  below the area reserved before, above every slot the scan hands out, and apart from the buffer of every later
  \<^verbatim>\<open>IR_ALLOCA\<close>; everything lies above the stack space that is reserved in the end.
\<close>

theorem buffers_apart:
  assumes "irCgAllocAllTmps qsort ra blocks start = Inr ra'" "rearranges qsort"
    and "cg_instrs blocks = xs @ I # ys" "i_op I = IR_ALLOCA" "irIsTmp (i_dst I)"
    and "irDstVarId I \<notin> dom (ra_id_to_loff ra)" "irDstVarId I \<notin> fixed_ids xs"
  shows "\<exists>lb. ra_id_to_loff ra' (irDstVarId I) = Some lb \<and> lb + alloca_size (alloca_bytes I) \<le> - (start + ra_extra_stack ra) \<and>
    alloca_bytes I \<le> alloca_size (alloca_bytes I) \<and> - (start + ra_extra_stack ra') \<le> lb \<and>
    (\<forall>t. coloured ra (cg_instrs blocks) t \<longrightarrow> t \<notin> fixed_ids (cg_instrs blocks) \<longrightarrow>
       (\<exists>lt. ra_id_to_loff ra' t = Some lt \<and> lt + 8 \<le> lb \<and> - (start + ra_extra_stack ra') \<le> lt)) \<and>
    (\<forall>us J vs. ys = us @ J # vs \<longrightarrow> i_op J = IR_ALLOCA \<longrightarrow> irIsTmp (i_dst J) \<longrightarrow>
       irDstVarId J \<notin> dom (ra_id_to_loff ra) \<longrightarrow> irDstVarId J \<notin> fixed_ids (xs @ I # us) \<longrightarrow>
       (\<exists>lj. ra_id_to_loff ra' (irDstVarId J) = Some lj \<and> lj + alloca_size (alloca_bytes J) \<le> lb))"
proof -
  let ?Is = "cg_instrs blocks"
  obtain ra1 where ra1: "alloc_fixed ra start ?Is = Inr ra1" by (rule alloc_all_fixed [OF assms(1)])
  obtain c n where c: "placed start ?Is ra1 ra' c n" by (rule coloured_slot [OF assms(1,2) ra1])
  have kept: "ra_id_to_loff ra' t = Some l" if "ra_id_to_loff ra1 t = Some l" for t l
    using placedD(4) [OF c, of t] that by (auto simp: coloured_def)
  have ra1I: "alloc_fixed ra start (xs @ I # ys) = Inr ra1" using ra1 assms(3) by simp
  obtain ra0 lb where ra0: "alloc_fixed ra start xs = Inr ra0" and lb: "ra_id_to_loff ra1 (irDstVarId I) = Some lb"
    "- (start + ra_extra_stack ra1) \<le> lb" "lb + alloca_size (alloca_bytes I) = - (start + ra_extra_stack ra0)"
    by (rule alloc_fixed_buffer [OF ra1I assms(4-7)])
  have top: "lb + alloca_size (alloca_bytes I) \<le> - (start + ra_extra_stack ra)"
    using lb(3) alloc_fixed_keeps(1) [OF ra0] by simp
  have slots: "\<exists>lt. ra_id_to_loff ra' t = Some lt \<and> lt + 8 \<le> lb \<and> - (start + ra_extra_stack ra') \<le> lt"
    if "coloured ra ?Is t" "t \<notin> fixed_ids ?Is" for t
  proof -
    have t: "coloured ra1 ?Is t" by (rule dom_fixed [OF ra1 that])
    have "int (c t) + 1 \<le> int n" using placedD(1) [OF c t] by linarith
    then show ?thesis using placedD(1) [OF c t] placedD(3) [OF c] lb(2) by (simp add: slot_loff_def)
  qed
  have later: "\<exists>lj. ra_id_to_loff ra' (irDstVarId J) = Some lj \<and> lj + alloca_size (alloca_bytes J) \<le> lb"
    if J: "ys = us @ J # vs" "i_op J = IR_ALLOCA" "irIsTmp (i_dst J)"
      "irDstVarId J \<notin> dom (ra_id_to_loff ra)" "irDstVarId J \<notin> fixed_ids (xs @ I # us)" for us J vs
  proof -
    have run: "alloc_fixed ra start ((xs @ I # us) @ J # vs) = Inr ra1" using ra1 assms(3) J(1) by simp
    obtain raj lj where raj: "alloc_fixed ra start (xs @ I # us) = Inr raj" and lj: "ra_id_to_loff ra1 (irDstVarId J) = Some lj"
      "lj + alloca_size (alloca_bytes J) = - (start + ra_extra_stack raj)"
      by (rule alloc_fixed_buffer [OF run J(2-5)])
    obtain ra0' lb' where "ra_id_to_loff raj (irDstVarId I) = Some lb'" "- (start + ra_extra_stack raj) \<le> lb'"
      by (rule alloc_fixed_buffer [OF raj assms(4-7)])
    moreover have "alloc_fixed raj start (J # vs) = Inr ra1"
      using run [unfolded alloc_fixed_append [of ra start "xs @ I # us"] raj] by (simp only: rbind_simps)
    ultimately have "lb' = lb" using alloc_fixed_keeps(3) [of raj start "J # vs" ra1] lb(1) by (metis domI map_le_def option.inject)
    then show ?thesis using lj kept \<open>- (start + ra_extra_stack raj) \<le> lb'\<close> by auto
  qed
  show ?thesis
    using kept [OF lb(1)] top alloca_size_min(2) lb(2) placedD(3) [OF c] slots later by (intro exI [of _ lb]) auto
qed

text \<open>The scanned temporaries that are live at a position: first referred to at or before it, and last at or after it.\<close>

definition live_at :: "ra_ctx \<Rightarrow> ir_instr list \<Rightarrow> int \<Rightarrow> u32 set" where
  "live_at ra Is p = {t. coloured ra Is t \<and> (\<exists>a \<in> ref_positions Is t. a \<le> p) \<and> (\<exists>b \<in> ref_positions Is t. p \<le> b)}"

lemma live_at_ranges:
  "live_at ra Is p = rg_var_id ` {r \<in> set (colour_ranges ra Is). rg_from r \<le> p \<and> p \<le> rg_to r}"
proof (intro set_eqI iffI)
  fix t assume t: "t \<in> live_at ra Is p"
  then have "coloured ra Is t" by (simp add: live_at_def)
  then obtain r where r: "r \<in> set (colour_ranges ra Is)" "rg_var_id r = t"
    using colour_ranges_complete by blast
  then show "t \<in> rg_var_id ` {r \<in> set (colour_ranges ra Is). rg_from r \<le> p \<and> p \<le> rg_to r}"
    using t colour_ranges(2) [OF r(1)] by (fastforce simp: live_at_def)
next
  fix t assume "t \<in> rg_var_id ` {r \<in> set (colour_ranges ra Is). rg_from r \<le> p \<and> p \<le> rg_to r}"
  then show "t \<in> live_at ra Is p" using colour_ranges(2) by (fastforce simp: live_at_def)
qed

lemma live_at_finite: "finite (live_at ra Is p)"
  by (simp add: live_at_ranges)

text \<open>
  C29. No allocation could do with fewer slots: with a sorting \<^verbatim>\<open>qsort\<close>, the space added for the scanned temporaries is 8
  bytes times the largest number of them that are live at one instruction, counting a temporary live from its first reference to
  its last.
\<close>

theorem fewest_slots:
  assumes "irCgAllocAllTmps qsort ra blocks start = Inr ra'" "rearranges qsort" "sorts_ranges qsort"
    and "alloc_fixed ra start (cg_instrs blocks) = Inr ra1"
  shows "\<exists>n. ra_extra_stack ra' = ra_extra_stack ra1 + 8 * int n \<and>
    (\<forall>p. card (live_at ra1 (cg_instrs blocks) p) \<le> n) \<and> (\<exists>p. card (live_at ra1 (cg_instrs blocks) p) = n)"
proof -
  let ?Is = "cg_instrs blocks"
  obtain ra2 c n rs where run: "irCgAllocAllTmps qsort ra blocks start = Inr ra2"
    and sc: "scanned start (ra_extra_stack ra1) [] rs ra1 ra2 c n"
    and rs: "set rs = set (colour_ranges ra1 ?Is)" "distinct (map rg_var_id rs)"
    and sorted: "rs = qsort irCgRangeCmp (colour_ranges ra1 ?Is)" by (rule alloc_all_result [OF assms(4,2)])
  have extra: "ra_extra_stack ra' = ra_extra_stack ra1 + 8 * int n" using sc run assms(1) by (simp add: scanned_def)
  have live: "live_at ra1 ?Is p = rg_var_id ` {r \<in> set rs. rg_from r \<le> p \<and> p \<le> rg_to r}" for p
    using live_at_ranges rs(1) by simp
  have card_live: "card (live_at ra1 ?Is p) = card {r \<in> set rs. rg_from r \<le> p \<and> p \<le> rg_to r}" for p
    unfolding live by (rule card_image) (use rs(2) in \<open>auto simp: distinct_map inj_on_def\<close>)
  have le: "card (live_at ra1 ?Is p) \<le> n" for p
  proof -
    have "inj_on c {r \<in> set rs. rg_from r \<le> p \<and> p \<le> rg_to r}"
      using sc by (fastforce simp: scanned_def inj_on_def)
    moreover have "c ` {r \<in> set rs. rg_from r \<le> p \<and> p \<le> rg_to r} \<subseteq> {..<n}" using sc by (auto simp: scanned_def)
    ultimately have "card {r \<in> set rs. rg_from r \<le> p \<and> p \<le> rg_to r} \<le> card {..<n}" by (intro card_inj_on_le) auto
    then show ?thesis using card_live by simp
  qed
  have "sorted_wrt (\<lambda>a b. irCgRangeCmp a b \<le> 0) rs" using assms(3) sorted by (simp add: sorts_ranges_def)
  then have "sorted (map rg_from rs)"
    by (simp add: sorted_map, elim sorted_wrt_mono_rel [rotated]) (auto simp: irCgRangeCmp_def split: if_splits)
  moreover have "\<forall>r \<in> set rs. ra_id_to_loff ra1 (rg_var_id r) = None" "\<forall>r \<in> set rs. rg_from r \<le> rg_to r"
    using rs(1) colour_ranges(2) colour_range_le by (auto simp: coloured_def)
  moreover have "linear_scan start [] rs ra1 = Inr ra'"
    using assms(1,4) sorted by (simp add: irCgAllocAllTmps_def colour_ranges_def)
  ultimately have "n = 0 \<or> (\<exists>p. n \<le> card {q \<in> set rs. rg_from q \<le> p \<and> p \<le> rg_to q})"
    using linear_scan_tight [of start "ra_extra_stack ra1" "[]" ra1 rs "[]" ra' n] rs(2) extra by (simp add: slots_at_def)
  then obtain p where "n \<le> card (live_at ra1 ?Is p)" using card_live by auto
  then have "card (live_at ra1 ?Is p) = n" using le [of p] by simp
  then show ?thesis using extra le by blast
qed

section \<open>Running from the slots\<close>

text \<open>
  Execution with every temporary in its slot: an instruction reads the temporaries from their slots and
  writes its result into the slot of its destination.
\<close>

type_synonym 'm slot_state = "(int \<Rightarrow> u64) \<times> 'm"

definition slot_exec :: "(u32 \<rightharpoonup> int) \<Rightarrow> 'm machine \<Rightarrow> ir_instr \<Rightarrow> 'm slot_state \<Rightarrow> 'm slot_state result" where
  "slot_exec loff M I st =
     rbind (exec M I \<lparr>st_tmps = (\<lambda>t. case loff t of Some l \<Rightarrow> fst st l | None \<Rightarrow> 0), st_mem = snd st\<rparr>) (\<lambda>st'.
       Inr (if i_op I = IR_NOP \<or> dst_is_input (i_op I) \<or> \<not> irIsTmp (i_dst I) then fst st
            else (case loff (irDstVarId I) of
                    Some l \<Rightarrow> (fst st)(l := st_tmps st' (irDstVarId I)) | None \<Rightarrow> fst st),
            st_mem st'))"

fun slot_run :: "(u32 \<rightharpoonup> int) \<Rightarrow> 'm machine \<Rightarrow> ir_instr list \<Rightarrow> 'm slot_state \<Rightarrow> 'm slot_state result" where
  "slot_run loff M [] st = Inr st"
| "slot_run loff M (I # Is) st = rbind (slot_exec loff M I st) (slot_run loff M Is)"

text \<open>An instruction depends on the memory and on the temporaries it uses, and changes its destination only.\<close>

lemma opd_agree:
  assumes "st_mem s = st_mem s'" "\<forall>t \<in> tmp_ids v. st_tmps s t = st_tmps s' t"
  shows "opd M s v = opd M s' v"
  using assms by (cases v) (auto simp: opd_def val_of_def tmp_ids_def)

lemma put_agree:
  assumes "st_mem s = st_mem s'"
  shows "st_mem (put M s d w) = st_mem (put M s' d w)"
    and "t \<in> tmp_ids d \<Longrightarrow> st_tmps (put M s d w) t = st_tmps (put M s' d w) t"
    and "t \<notin> tmp_ids d \<Longrightarrow> st_tmps (put M s d w) t = st_tmps s t"
  using assms by (auto simp: put_def tmp_ids_def split: option.splits if_splits)

definition agree_result :: "ir_instr \<Rightarrow> 'm ir_state \<Rightarrow> 'm ir_state result \<Rightarrow> 'm ir_state result \<Rightarrow> bool" where
  "agree_result I s a b \<longleftrightarrow>
     (case a of Inl e \<Rightarrow> b = Inl e
      | Inr r \<Rightarrow> (\<exists>r'. b = Inr r' \<and> st_mem r = st_mem r' \<and> (\<forall>t \<in> defs I. st_tmps r t = st_tmps r' t) \<and>
          (\<forall>t. t \<notin> defs I \<longrightarrow> st_tmps r t = st_tmps s t)))"

lemma sem_result_not_input: "dst_is_input op \<Longrightarrow> sem_result M op kind a b = None"
  by (auto simp: dst_is_input_def sem_result_def is_binop_def split: option.split)

lemma eff_agree:
  assumes mem: "st_mem s = st_mem s'" and tmps: "\<forall>t \<in> uses I. st_tmps s t = st_tmps s' t"
  shows "agree_result I s (exec_other M I s) (exec_other M I s')"
proof -
  let ?args = "\<lambda>s. ((if i_op I \<in> {IR_CALL, IR_LEA} then None else opd M s (i_r1 I)), opd M s (i_r2 I),
    (if dst_is_input (i_op I) then opd M s (i_dst I) else None), map (opd M s) (more_opds I), st_mem s)"
  let ?eff = "\<lambda>(a, b, d, xs, m). eff M (skeleton I) a b d xs m"
  let ?d = "if dst_is_input (i_op I) then None else i_dst I"
  have "opd M s' (i_r1 I) = opd M s (i_r1 I)" "opd M s' (i_r2 I) = opd M s (i_r2 I)"
    "dst_is_input (i_op I) \<Longrightarrow> opd M s' (i_dst I) = opd M s (i_dst I)"
    using tmps by (auto simp: uses_def intro!: opd_agree mem [symmetric])
  moreover have "map (opd M s') (more_opds I) = map (opd M s) (more_opds I)"
    using tmps by (intro map_cong refl opd_agree mem [symmetric]) (simp add: uses_def, metis UN_I UnI2)
  ultimately have args: "?args s' = ?args s" using mem by simp
  have split: "exec_other M I s = rbind (?eff (?args s)) (\<lambda>(m, w). Inr (put M (s\<lparr>st_mem := m\<rparr>) ?d w))"
    "exec_other M I s' = rbind (?eff (?args s')) (\<lambda>(m, w). Inr (put M (s'\<lparr>st_mem := m\<rparr>) ?d w))"
    by (simp_all add: exec_other_def)
  have d: "defs I = tmp_ids ?d" by (simp add: defs_def tmp_ids_def)
  show ?thesis
    unfolding split args
  proof (cases "?eff (?args s)")
    case (Inr mw)
    obtain m w where mw: "mw = (m, w)" by (cases mw)
    show "agree_result I s (rbind (?eff (?args s)) (\<lambda>(m, w). Inr (put M (s\<lparr>st_mem := m\<rparr>) ?d w)))
       (rbind (?eff (?args s)) (\<lambda>(m, w). Inr (put M (s'\<lparr>st_mem := m\<rparr>) ?d w)))"
      unfolding Inr mw
      using put_agree [of "s\<lparr>st_mem := m\<rparr>" "s'\<lparr>st_mem := m\<rparr>", where M = M and d = ?d and w = w] d by (auto simp: agree_result_def)
  qed (simp only: rbind_simps agree_result_def sum.case)
qed

lemma exec_agree:
  assumes mem: "st_mem s = st_mem s'" and tmps: "\<forall>t \<in> uses I. st_tmps s t = st_tmps s' t" and op: "i_op I \<noteq> IR_NOP"
  shows "agree_result I s (exec M I s) (exec M I s')"
proof -
  have opds: "opd M s' (i_r1 I) = opd M s (i_r1 I)" "opd M s' (i_r2 I) = opd M s (i_r2 I)"
    using mem tmps by (auto simp: uses_def intro!: opd_agree [of s' s])
  show ?thesis
  proof (cases "sem_result M (i_op I) (eval_cmp_kind I) (opd M s (i_r1 I)) (opd M s (i_r2 I))")
    case None
    then show ?thesis using eff_agree [where M = M, OF mem tmps] op opds by (simp add: exec_def)
  next
    case (Some res)
    then have "\<not> dst_is_input (i_op I)" using sem_result_not_input by (metis option.distinct(1))
    then have d: "defs I = tmp_ids (i_dst I)" by (simp add: defs_def)
    show ?thesis
    proof (cases res)
      case (Inl e)
      then show ?thesis using Some opds op by (simp add: exec_def agree_result_def)
    next
      case (Inr w)
      then have "exec M I s = Inr (put M s (i_dst I) w)" "exec M I s' = Inr (put M s' (i_dst I) w)"
        using Some opds op by (simp_all add: exec_def)
      then show ?thesis using put_agree [OF mem, where M = M and d = "i_dst I" and w = w] d by (auto simp: agree_result_def)
    qed
  qed
qed

text \<open>\<^verbatim>\<open>IR_NOP\<close> does nothing in either execution.\<close>

lemma run_real: "run M Is = run M (real_instrs Is)"
proof (induction Is)
  case (Cons I Is)
  have "rbind (exec M I s) (run M Is) = run M (real_instrs (I # Is)) s" for s
    using Cons by (cases "i_op I = IR_NOP") (simp_all add: real_instrs_def exec_def)
  then show ?case by (simp add: fun_eq_iff)
qed (simp add: real_instrs_def)

lemma slot_exec_nop: "i_op I = IR_NOP \<Longrightarrow> slot_exec loff M I st = Inr st"
  by (simp add: slot_exec_def exec_def)

lemma slot_run_real: "slot_run loff M Is = slot_run loff M (real_instrs Is)"
proof (induction Is)
  case (Cons I Is)
  have "rbind (slot_exec loff M I st) (slot_run loff M Is) = slot_run loff M (real_instrs (I # Is)) st" for st
    using Cons by (cases "i_op I = IR_NOP") (simp_all add: real_instrs_def slot_exec_nop)
  then show ?case by (simp add: fun_eq_iff)
qed (simp add: real_instrs_def)

text \<open>What one instruction does to the slots.\<close>

lemma slot_exec_cases:
  assumes "agree_result I s (exec M I s) (exec M I \<lparr>st_tmps = (\<lambda>t. case loff t of Some l \<Rightarrow> sl l | None \<Rightarrow> 0), st_mem = m\<rparr>)"
    and "i_op I \<noteq> IR_NOP"
  obtains (fault) e where "exec M I s = Inl e" "slot_exec loff M I (sl, m) = Inl e"
  | (step) r sl' where "exec M I s = Inr r" "slot_exec loff M I (sl, m) = Inr (sl', st_mem r)"
      "\<And>t l. t \<in> defs I \<Longrightarrow> loff t = Some l \<Longrightarrow> sl' = sl(l := st_tmps r t)" "defs I = {} \<Longrightarrow> sl' = sl"
      "\<And>t. t \<notin> defs I \<Longrightarrow> st_tmps r t = st_tmps s t"
proof (cases "exec M I s")
  case (Inl e)
  then show ?thesis using assms by (intro fault [OF Inl], unfold slot_exec_def fst_conv snd_conv) (simp add: agree_result_def)
next
  case (Inr r)
  then obtain r' where r': "exec M I \<lparr>st_tmps = (\<lambda>t. case loff t of Some l \<Rightarrow> sl l | None \<Rightarrow> 0), st_mem = m\<rparr> = Inr r'"
    "st_mem r = st_mem r'" "\<forall>t \<in> defs I. st_tmps r t = st_tmps r' t" "\<forall>t. t \<notin> defs I \<longrightarrow> st_tmps r t = st_tmps s t"
    using assms(1) by (auto simp: agree_result_def)
  let ?sl = "if i_op I = IR_NOP \<or> dst_is_input (i_op I) \<or> \<not> irIsTmp (i_dst I) then sl
     else case loff (irDstVarId I) of Some l \<Rightarrow> sl(l := st_tmps r' (irDstVarId I)) | None \<Rightarrow> sl"
  have "slot_exec loff M I (sl, m) = Inr (?sl, st_mem r)"
    unfolding slot_exec_def fst_conv snd_conv using r' by simp
  then show ?thesis
    by (rule step [OF Inr]) (use r'(3,4) assms(2) in \<open>auto simp: defs_def tmp_ids_def irDstVarId_def split: if_splits\<close>)
qed

text \<open>
  The temporaries that matter before the \<open>p\<close>-th instruction, assigned before it and referred to from it on, are in
  their slots.
\<close>

definition in_slots :: "(u32 \<rightharpoonup> int) \<Rightarrow> ir_instr list \<Rightarrow> nat \<Rightarrow> (u32 \<Rightarrow> u64) \<Rightarrow> (int \<Rightarrow> u64) \<Rightarrow> bool" where
  "in_slots loff R p tmps sl \<longleftrightarrow>
     (\<forall>t j k. j < p \<longrightarrow> p \<le> k \<longrightarrow> k < length R \<longrightarrow> t \<in> defs (R ! j) \<longrightarrow> touches (R ! k) t \<longrightarrow>
        (\<exists>l. loff t = Some l \<and> sl l = tmps t))"

definition slots_fit :: "(u32 \<rightharpoonup> int) \<Rightarrow> ir_instr list \<Rightarrow> bool" where
  "slots_fit loff R \<longleftrightarrow>
     (\<forall>k < length R. \<forall>t \<in> uses (R ! k) \<union> defs (R ! k). touches (R ! k) t \<and> loff t \<noteq> None) \<and>
     (\<forall>k < length R. \<forall>t \<in> uses (R ! k). \<exists>j < k. t \<in> defs (R ! j)) \<and>
     (\<forall>t u i j k. t \<noteq> u \<longrightarrow> loff t = loff u \<longrightarrow> i < j \<longrightarrow> j < k \<longrightarrow> k < length R \<longrightarrow>
        t \<in> defs (R ! i) \<longrightarrow> u \<in> defs (R ! j) \<longrightarrow> \<not> touches (R ! k) t)"

lemma in_slots_step:
  assumes "slots_fit loff R" "p < length R" "in_slots loff R p tmps sl"
    and "\<And>t l. t \<in> defs (R ! p) \<Longrightarrow> loff t = Some l \<Longrightarrow> sl' = sl(l := tmps' t)" "defs (R ! p) = {} \<Longrightarrow> sl' = sl"
    and "\<And>t. t \<notin> defs (R ! p) \<Longrightarrow> tmps' t = tmps t"
  shows "in_slots loff R (Suc p) tmps' sl'"
  unfolding in_slots_def
proof (intro allI impI)
  fix t j k
  assume j: "j < Suc p" and k: "Suc p \<le> k" "k < length R" and t: "t \<in> defs (R ! j)" "touches (R ! k) t"
  have placed: "\<exists>l. loff u = Some l" if "u \<in> defs (R ! i)" "i < length R" for u i
    using assms(1) that unfolding slots_fit_def by blast
  show "\<exists>l. loff t = Some l \<and> sl' l = tmps' t"
  proof (cases "t \<in> defs (R ! p)")
    case True
    then show ?thesis using placed [OF True assms(2)] assms(4) [OF True] by auto
  next
    case False
    then have jp: "j < p" using j t(1) by (cases "j = p") auto
    then obtain l where l: "loff t = Some l" "sl l = tmps t" using assms(3) k t unfolding in_slots_def by (meson Suc_leD)
    have "sl' l = sl l"
    proof (cases "defs (R ! p) = {}")
      case no: False
      then obtain u where u: "u \<in> defs (R ! p)" by blast
      obtain m where m: "loff u = Some m" using placed [OF u assms(2)] by blast
      have "m \<noteq> l"
      proof
        assume "m = l"
        then have "loff t = loff u" "t \<noteq> u" using l m u False by auto
        then show False using assms(1) jp k t u unfolding slots_fit_def by (meson Suc_le_eq)
      qed
      then show ?thesis using assms(4) [OF u m] by simp
    qed (use assms(5) in simp)
    then show ?thesis using l assms(6) [OF False] by simp
  qed
qed

text \<open>Both executions fault alike or end with the same memory.\<close>

definition same_outcome :: "'m ir_state result \<Rightarrow> 'm slot_state result \<Rightarrow> bool" where
  "same_outcome a b \<longleftrightarrow>
     (case a of Inl e \<Rightarrow> b = Inl e | Inr r \<Rightarrow> (case b of Inl e \<Rightarrow> False | Inr st \<Rightarrow> snd st = st_mem r))"

lemma slot_run_same:
  assumes "slots_fit loff R" "in_slots loff R p (st_tmps s) sl" "p \<le> length R" "\<forall>I \<in> set R. i_op I \<noteq> IR_NOP"
  shows "same_outcome (run M (drop p R) s) (slot_run loff M (drop p R) (sl, st_mem s))"
  using assms(2,3)
proof (induction "length R - p" arbitrary: p s sl)
  case 0
  then show ?case by (simp add: same_outcome_def)
next
  case (Suc n)
  then have p: "p < length R" by simp
  have fetch: "drop p R = R ! p # drop (Suc p) R" using p by (simp add: Cons_nth_drop_Suc)
  have op: "i_op (R ! p) \<noteq> IR_NOP" using assms(4) p by simp
  let ?s = "\<lparr>st_tmps = (\<lambda>t. case loff t of Some l \<Rightarrow> sl l | None \<Rightarrow> 0), st_mem = st_mem s\<rparr>"
  have "\<forall>t \<in> uses (R ! p). st_tmps s t = st_tmps ?s t"
  proof
    fix t assume t: "t \<in> uses (R ! p)"
    then obtain j where "j < p" "t \<in> defs (R ! j)" "touches (R ! p) t" using assms(1) p unfolding slots_fit_def by blast
    then obtain l where "loff t = Some l" "sl l = st_tmps s t" using Suc.prems(1) p unfolding in_slots_def by blast
    then show "st_tmps s t = st_tmps ?s t" by simp
  qed
  then have "agree_result (R ! p) s (exec M (R ! p) s) (exec M (R ! p) ?s)" by (intro exec_agree op) simp
  then show ?case
  proof (rule slot_exec_cases [OF _ op], goal_cases)
    case (1 e)
    then show ?thesis by (simp add: fetch same_outcome_def)
  next
    case step: (2 r sl')
    have "in_slots loff R (Suc p) (st_tmps r) sl'"
      by (rule in_slots_step [OF assms(1) p Suc.prems(1)]) (use step in blast)+
    then have "same_outcome (run M (drop (Suc p) R) r) (slot_run loff M (drop (Suc p) R) (sl', st_mem r))"
      using Suc.hyps p by simp
    then show ?thesis using step(1,2) by (simp add: fetch)
  qed
qed

text \<open>
  Straight-line code whose temporaries are assigned before they are used, have a value type, and have neither an
  offset nor a register before the allocation (\<open>D\<close>: those assigned so far).
\<close>

fun temps_ready :: "ra_ctx \<Rightarrow> u32 set \<Rightarrow> ir_instr list \<Rightarrow> bool" where
  "temps_ready ra D [] \<longleftrightarrow> True"
| "temps_ready ra D (I # Is) \<longleftrightarrow>
     (if i_op I = IR_NOP then temps_ready ra D Is
      else uses I \<subseteq> D \<and> (\<forall>t \<in> uses I \<union> defs I. touches I t \<and> ra_id_to_loff ra t = None \<and> \<not> in_reg ra t) \<and>
        temps_ready ra (D \<union> defs I) Is)"

lemma temps_ready_real: "temps_ready ra D Is \<longleftrightarrow> temps_ready ra D (real_instrs Is)"
  by (induction Is arbitrary: D) (simp_all add: real_instrs_def)

lemma temps_readyD:
  assumes "temps_ready ra D R" "\<forall>I \<in> set R. i_op I \<noteq> IR_NOP" "k < length R"
  shows "\<forall>t \<in> uses (R ! k) \<union> defs (R ! k). touches (R ! k) t \<and> ra_id_to_loff ra t = None \<and> \<not> in_reg ra t"
    and "\<forall>t \<in> uses (R ! k). t \<in> D \<or> (\<exists>j < k. t \<in> defs (R ! j))"
proof -
  have "(\<forall>t \<in> uses (R ! k) \<union> defs (R ! k). touches (R ! k) t \<and> ra_id_to_loff ra t = None \<and> \<not> in_reg ra t) \<and>
    (\<forall>t \<in> uses (R ! k). t \<in> D \<or> (\<exists>j < k. t \<in> defs (R ! j)))"
    using assms
  proof (induction R arbitrary: D k)
    case (Cons I R)
    show ?case
    proof (cases k)
      case 0
      then show ?thesis using Cons.prems by auto
    next
      case (Suc m)
      then have "(\<forall>t \<in> uses (R ! m) \<union> defs (R ! m). touches (R ! m) t \<and> ra_id_to_loff ra t = None \<and> \<not> in_reg ra t) \<and>
        (\<forall>t \<in> uses (R ! m). t \<in> D \<union> defs I \<or> (\<exists>j < m. t \<in> defs (R ! j)))"
        using Cons.IH [of "D \<union> defs I" m] Cons.prems by auto
      moreover have "\<exists>j < k. t \<in> defs ((I # R) ! j)" if "t \<in> defs I" for t using that Suc by (intro exI [of _ 0]) simp
      moreover have "\<exists>j < k. t \<in> defs ((I # R) ! j)" if "j < m" "t \<in> defs (R ! j)" for t j
        using that Suc by (intro exI [of _ "Suc j"]) simp
      ultimately show ?thesis using Suc by (simp only: nth_Cons_Suc) blast
    qed
  qed simp
  then show "\<forall>t \<in> uses (R ! k) \<union> defs (R ! k). touches (R ! k) t \<and> ra_id_to_loff ra t = None \<and> \<not> in_reg ra t"
    "\<forall>t \<in> uses (R ! k). t \<in> D \<or> (\<exists>j < k. t \<in> defs (R ! j))" by blast+
qed

lemma real_ops: "\<forall>I \<in> set (real_instrs Is). i_op I \<noteq> IR_NOP"
  by (simp add: real_instrs_def)

lemma slots_fit_placed:
  assumes "placed start Is ra1 ra' c n" "temps_ready ra1 {} Is"
  shows "slots_fit (ra_id_to_loff ra') (real_instrs Is)"
proof -
  let ?R = "real_instrs Is"
  note ready = temps_readyD [OF assms(2) [unfolded temps_ready_real [of _ _ Is]] real_ops]
  have ref: "int k \<in> ref_positions Is t" if "k < length ?R" "touches (?R ! k) t" for k t
    using that by (auto simp: ref_positions_def)
  have col: "coloured ra1 Is t" if "k < length ?R" "t \<in> uses (?R ! k) \<union> defs (?R ! k)" for k t
    using ready(1) [OF that(1)] that ref unfolding coloured_def by blast
  have loff: "ra_id_to_loff ra' t \<noteq> None" if "k < length ?R" "t \<in> uses (?R ! k) \<union> defs (?R ! k)" for k t
    using placedD(1) [OF assms(1) col [OF that]] by simp
  have apart: "\<not> touches (?R ! k) t"
    if "t \<noteq> u" "ra_id_to_loff ra' t = ra_id_to_loff ra' u" "i < j" "j < k" "k < length ?R" "t \<in> defs (?R ! i)" "u \<in> defs (?R ! j)"
    for t u i j k
  proof
    assume tk: "touches (?R ! k) t"
    have ti: "coloured ra1 Is t" "int i \<in> ref_positions Is t" using col [of i t] ready(1) [of i] ref [of i t] that by auto
    have uj: "coloured ra1 Is u" "int j \<in> ref_positions Is u" using col [of j u] ready(1) [of j] ref [of j u] that by auto
    have "c t = c u" using placedD(1) [OF assms(1) ti(1)] placedD(1) [OF assms(1) uj(1)] that(2) by (simp add: slot_loff_def)
    then show False
      using placedD(2) [OF assms(1) ti(1) uj(1) that(1)] ti(2) uj(2) ref [OF that(5) tk] that(3,4) by fastforce
  qed
  show ?thesis
    unfolding slots_fit_def using ready loff apart by blast
qed

text \<open>
  C4. Allocation preserves straight-line code: run with every temporary read from and written to its frame slot, shared
  slots included, a block computes what it computes with a register for each temporary. It faults exactly when the
  original does and otherwise ends with the same memory, whatever the slots held at the start.
\<close>

theorem slots_compute_the_same:
  assumes "irCgAllocAllTmps qsort ra blocks start = Inr ra'" "rearranges qsort"
    and "fixed_ids (cg_instrs blocks) = {}" "temps_ready ra {} (cg_instrs blocks)"
  shows "same_outcome (run M (cg_instrs blocks) s) (slot_run (ra_id_to_loff ra') M (cg_instrs blocks) (sl, st_mem s))"
proof -
  let ?Is = "cg_instrs blocks"
  obtain ra1 where ra1: "alloc_fixed ra start ?Is = Inr ra1" by (rule alloc_all_fixed [OF assms(1)])
  obtain c n where c: "placed start ?Is ra1 ra' c n" by (rule coloured_slot [OF assms(1,2) ra1])
  have "ra_id_to_loff ra1 t = ra_id_to_loff ra t" for t
    using alloc_fixed_keeps(3,4) [OF ra1] assms(3) by (cases "t \<in> dom (ra_id_to_loff ra)") (force simp: map_le_def)+
  then have "temps_ready ra1 D Js = temps_ready ra D Js" for D Js
    using alloc_fixed_keeps(2) [OF ra1] by (induction Js arbitrary: D) (simp_all add: in_reg_def)
  then have "slots_fit (ra_id_to_loff ra') (real_instrs ?Is)" using slots_fit_placed [OF c] assms(4) by blast
  then have "same_outcome (run M (real_instrs ?Is) s) (slot_run (ra_id_to_loff ra') M (real_instrs ?Is) (sl, st_mem s))"
    using slot_run_same [of _ "real_instrs ?Is" 0 s sl M] real_ops by (simp add: in_slots_def)
  then show ?thesis by (simp only: run_real [of M ?Is] slot_run_real [of _ M ?Is])
qed

section \<open>An example\<close>

text \<open>An insertion sort for \<^verbatim>\<open>qsort\<close>.\<close>

fun insert_by :: "('a \<Rightarrow> 'a \<Rightarrow> int) \<Rightarrow> 'a \<Rightarrow> 'a list \<Rightarrow> 'a list" where
  "insert_by cmp x [] = [x]"
| "insert_by cmp x (y # ys) = (if cmp x y \<le> 0 then x # y # ys else y # insert_by cmp x ys)"

fun sort_by :: "('a \<Rightarrow> 'a \<Rightarrow> int) \<Rightarrow> 'a list \<Rightarrow> 'a list" where
  "sort_by cmp [] = []"
| "sort_by cmp (x # xs) = insert_by cmp x (sort_by cmp xs)"

lemma sort_by_mset: "mset (insert_by cmp x xs) = add_mset x (mset xs)" "mset (sort_by cmp xs) = mset xs"
proof -
  show 1: "mset (insert_by cmp x xs) = add_mset x (mset xs)" for x xs by (induction xs) auto
  show "mset (sort_by cmp xs) = mset xs" by (induction xs) (simp_all add: 1)
qed

lemma sort_by_rearranges: "rearranges sort_by"
  by (simp add: rearranges_def sort_by_mset)

lemma irCgRangeCmp_order:
  "irCgRangeCmp a b \<le> 0 \<longleftrightarrow> rg_from a < rg_from b \<or> rg_from a = rg_from b \<and> rg_to a \<le> rg_to b"
  by (auto simp: irCgRangeCmp_def)

lemma sort_by_sorts: "sorts_ranges sort_by"
proof -
  let ?P = "\<lambda>a b. irCgRangeCmp a b \<le> 0"
  have ins: "sorted_wrt ?P (insert_by irCgRangeCmp x xs)" if "sorted_wrt ?P xs" for x xs
    using that
  proof (induction xs)
    case (Cons y ys)
    have set: "set (insert_by irCgRangeCmp x ys) = insert x (set ys)"
      using arg_cong [OF sort_by_mset(1), of set_mset irCgRangeCmp x ys] by simp
    show ?case
    proof (cases "?P x y")
      case True
      then have "\<forall>z \<in> set ys. ?P x z" using Cons.prems by (auto simp: irCgRangeCmp_order)
      then show ?thesis using True Cons.prems by simp
    next
      case False
      then have "?P y x" by (auto simp: irCgRangeCmp_order)
      then show ?thesis using False set Cons by simp
    qed
  qed simp
  have "sorted_wrt ?P (sort_by irCgRangeCmp xs)" for xs by (induction xs) (simp_all add: ins)
  then show ?thesis by (simp add: sorts_ranges_def)
qed

text \<open>
  The slots of the block above: the temporaries 1 and 3 share one, 2 and 4 another, and 5, which is live together
  with 3 and 4, has its own. In the second block a buffer of 12 bytes and an address inside it come first.
\<close>

definition empty_ctx :: ra_ctx where
  "empty_ctx = \<lparr>ra_id_to_loff = (\<lambda>_. None), ra_extra_stack = 0, ra_loc = (\<lambda>_. IR_LOC_NONE)\<rparr>"

definition buf_instrs :: "ir_instr list" where
  "buf_instrs =
     [irInstrNew 1 IR_ALLOCA (wit_tmp 6) (wit_const 12) None,
      irInstrNew 1 IR_GEP (wit_tmp 7) (wit_tmp 6) (wit_const 8),
      irInstrNew 1 IR_ALLOCA (wit_tmp 8) (wit_const 8) None,
      irInstrNew 1 IR_LOAD (wit_tmp 1) (wit_var IR_VAL_PARAM 1) None,
      irInstrNew 1 IR_STORE_DEREF (wit_tmp 7) (wit_tmp 1) None]"

definition buf_block :: ir_block where
  "buf_block = \<lparr>bb_id = 1, bb_removed = False, bb_sealed = True, bb_instructions = buf_instrs\<rparr>"

lemmas ra_eval = empty_ctx_def cg_instrs_def wit_block_def wit_defs buf_block_def buf_instrs_def instr_refs_def
  irCgRecordRef_def to_colour_def irCgRangeCmp_def irCgSetLoff_def irVarId_def call_args_def phi_vals_def alloca_bytes_def
  alloca_size_def irCgAllocOperandsForInstr_def irCgAllocTmpSized_def irCgGetLoff_def irDstVarId_def

lemma wit_slots:
  obtains ra' where "irCgAllocAllTmps sort_by empty_ctx [wit_block] 16 = Inr ra'" "ra_extra_stack ra' = 24"
    "map (ra_id_to_loff ra') [1, 2, 3, 4, 5] = [Some (- 24), Some (- 32), Some (- 24), Some (- 32), Some (- 40)]"
  by (simp add: irCgAllocAllTmps_def ra_eval)

lemma buf_slots:
  obtains ra' where "irCgAllocAllTmps sort_by empty_ctx [buf_block] 16 = Inr ra'" "ra_extra_stack ra' = 32"
    "map (ra_id_to_loff ra') [1, 6, 7, 8] = [Some (- 48), Some (- 32), Some (- 24), Some (- 40)]"
  by (simp add: irCgAllocAllTmps_def ra_eval)

lemma touches_code: "touches I t \<longleftrightarrow> (\<exists>v \<in> set (instr_refs I).
   irIsTmp v \<and> val_type (the v) \<noteq> IR_TYPE_VOID \<and> irVarId v = t)"
  by (force simp: touches_def irIsTmp_def split: option.splits)

lemma ref_positions_code:
  "ref_positions Is t = int ` {k \<in> {..<length (real_instrs Is)}. touches (real_instrs Is ! k) t}"
  by (auto simp: ref_positions_def)

lemma coloured_code:
  "coloured ra Is t \<longleftrightarrow> (\<exists>I \<in> set (real_instrs Is). touches I t) \<and> ra_id_to_loff ra t = None \<and> \<not> in_reg ra t"
  unfolding coloured_def ref_positions_def by (fastforce simp: in_set_conv_nth)

lemma fixed_ids_Nil: "fixed_ids [] = {}"
  by (simp add: fixed_ids_def)

lemmas ra_check = ra_eval coloured_code touches_code real_instrs_def in_reg_def fixed_ids_Cons fixed_ids_Nil

theorem slots_shared_only_when_dead_witness:
  "\<exists>ra' lt lu. irCgAllocAllTmps sort_by empty_ctx [wit_block] 16 = Inr ra' \<and>
    ra_id_to_loff ra' 1 = Some lt \<and> ra_id_to_loff ra' 3 = Some lu \<and> lt = lu \<and>
    (lt + 8 \<le> lu \<or> lu + 8 \<le> lt \<or> lt = lu \<and>
      ((\<forall>p \<in> ref_positions wit_instrs 1. \<forall>q \<in> ref_positions wit_instrs 3. p < q) \<or>
       (\<forall>p \<in> ref_positions wit_instrs 1. \<forall>q \<in> ref_positions wit_instrs 3. q < p)))"
proof -
  obtain ra' where ra': "irCgAllocAllTmps sort_by empty_ctx [wit_block] 16 = Inr ra'"
    "map (ra_id_to_loff ra') [1, 2, 3, 4, 5] = [Some (- 24), Some (- 32), Some (- 24), Some (- 32), Some (- 40)]"
    by (rule wit_slots)
  have "coloured empty_ctx (cg_instrs [wit_block]) 1" "coloured empty_ctx (cg_instrs [wit_block]) 3"
    "1 \<notin> fixed_ids (cg_instrs [wit_block])" "3 \<notin> fixed_ids (cg_instrs [wit_block])"
    by (simp_all add: ra_check)
  then show ?thesis
    using slots_shared_only_when_dead [OF ra'(1) sort_by_rearranges, of 1 3] ra' by (auto simp: cg_instrs_def wit_block_def)
qed

theorem every_reference_placed_witness:
  "\<exists>ra'. irCgAllocAllTmps sort_by empty_ctx [buf_block] 16 = Inr ra' \<and> (\<exists>loff. irCgGetLoff ra' (wit_tmp 1) = Inr loff)"
proof -
  have "bases_bound (dom (ra_id_to_loff empty_ctx)) (cg_instrs [buf_block])"
    by (simp add: ra_eval takes_address_def)
  then obtain ra' where ra': "irCgAllocAllTmps sort_by empty_ctx [buf_block] 16 = Inr ra'"
    "\<forall>I \<in> set (real_instrs (cg_instrs [buf_block])). \<forall>v. Some v \<in> set (instr_refs I) \<longrightarrow> val_kind v = IR_VAL_TMP \<longrightarrow>
       val_type v \<noteq> IR_TYPE_VOID \<longrightarrow> in_reg empty_ctx (irVarId (Some v)) \<or> (\<exists>loff. irCgGetLoff ra' (Some v) = Inr loff)"
    using every_reference_placed [of empty_ctx "[buf_block]" sort_by 16] sort_by_rearranges by blast
  have "\<exists>I \<in> set (real_instrs (cg_instrs [buf_block])). wit_tmp 1 \<in> set (instr_refs I)" by (simp add: ra_check)
  moreover have "\<not> in_reg empty_ctx 1" by (simp add: in_reg_def empty_ctx_def)
  ultimately show ?thesis using ra' by (fastforce simp: wit_tmp_def irVarId_def)
qed

theorem buffers_apart_witness:
  "\<exists>ra' lb lj lt. irCgAllocAllTmps sort_by empty_ctx [buf_block] 16 = Inr ra' \<and> ra_id_to_loff ra' 6 = Some lb \<and>
    lb + 16 \<le> - 16 \<and> ra_id_to_loff ra' 8 = Some lj \<and> lj + 8 \<le> lb \<and> ra_id_to_loff ra' 1 = Some lt \<and> lt + 8 \<le> lb"
proof -
  obtain ra' where ra': "irCgAllocAllTmps sort_by empty_ctx [buf_block] 16 = Inr ra'" by (rule buf_slots)
  have J: "tl buf_instrs = [buf_instrs ! 1] @ buf_instrs ! 2 # drop 3 buf_instrs" "i_op (buf_instrs ! 2) = IR_ALLOCA"
    "irIsTmp (i_dst (buf_instrs ! 2))" "irDstVarId (buf_instrs ! 2) = 8"
    "8 \<notin> fixed_ids (hd buf_instrs # [buf_instrs ! 1])" "alloca_bytes (buf_instrs ! 2) = 8"
    by (simp_all add: ra_check)
  have I: "cg_instrs [buf_block] = [] @ hd buf_instrs # tl buf_instrs" "i_op (hd buf_instrs) = IR_ALLOCA"
    "irIsTmp (i_dst (hd buf_instrs))" "irDstVarId (hd buf_instrs) \<notin> dom (ra_id_to_loff empty_ctx)"
    "irDstVarId (hd buf_instrs) \<notin> fixed_ids []" "irDstVarId (hd buf_instrs) = 6" "alloca_bytes (hd buf_instrs) = 12"
    by (simp_all add: ra_check)
  have t: "coloured empty_ctx (cg_instrs [buf_block]) 1" "1 \<notin> fixed_ids (cg_instrs [buf_block])" by (simp_all add: ra_check)
  have sizes: "alloca_size 12 = 16" "alloca_size 8 = 8" by (simp_all add: alloca_size_def)
  obtain lb where lb: "ra_id_to_loff ra' 6 = Some lb" "lb + 16 \<le> - (16 + ra_extra_stack empty_ctx)"
    and slots: "\<forall>t. coloured empty_ctx (cg_instrs [buf_block]) t \<longrightarrow> t \<notin> fixed_ids (cg_instrs [buf_block]) \<longrightarrow>
       (\<exists>lt. ra_id_to_loff ra' t = Some lt \<and> lt + 8 \<le> lb \<and> - (16 + ra_extra_stack ra') \<le> lt)"
    and later: "\<forall>us J vs. tl buf_instrs = us @ J # vs \<longrightarrow> i_op J = IR_ALLOCA \<longrightarrow> irIsTmp (i_dst J) \<longrightarrow>
       irDstVarId J \<notin> dom (ra_id_to_loff empty_ctx) \<longrightarrow> irDstVarId J \<notin> fixed_ids ([] @ hd buf_instrs # us) \<longrightarrow>
       (\<exists>lj. ra_id_to_loff ra' (irDstVarId J) = Some lj \<and> lj + alloca_size (alloca_bytes J) \<le> lb)"
    using buffers_apart [OF ra' sort_by_rearranges I(1-5)] unfolding I(6,7) sizes by blast
  obtain lt where lt: "ra_id_to_loff ra' 1 = Some lt" "lt + 8 \<le> lb" using slots t by blast
  have "irDstVarId (buf_instrs ! 2) \<notin> dom (ra_id_to_loff empty_ctx)" by (simp add: empty_ctx_def)
  moreover have "irDstVarId (buf_instrs ! 2) \<notin> fixed_ids ([] @ hd buf_instrs # [buf_instrs ! 1])" using J(4,5) by simp
  ultimately obtain lj where lj: "ra_id_to_loff ra' 8 = Some lj" "lj + 8 \<le> lb"
    using later [rule_format, OF J(1-3)] unfolding J(4,6) sizes by blast
  have "lb + 16 \<le> - 16" using lb(2) by (simp add: empty_ctx_def)
  then show ?thesis using ra' lb(1) lj lt by blast
qed

theorem fewest_slots_witness:
  "\<exists>ra' n. irCgAllocAllTmps sort_by empty_ctx [wit_block] 16 = Inr ra' \<and> ra_extra_stack ra' = 24 \<and> 24 = 8 * int n \<and>
    (\<exists>p. card (live_at empty_ctx wit_instrs p) = n)"
proof -
  obtain ra' where ra': "irCgAllocAllTmps sort_by empty_ctx [wit_block] 16 = Inr ra'" "ra_extra_stack ra' = 24"
    by (rule wit_slots)
  have "alloc_fixed empty_ctx 16 (cg_instrs [wit_block]) = Inr empty_ctx" by (simp add: cg_instrs_def wit_block_def wit_instrs_def irInstrNew_def)
  then show ?thesis
    using fewest_slots [OF ra'(1) sort_by_rearranges sort_by_sorts] ra'
    by (auto simp: cg_instrs_def wit_block_def empty_ctx_def)
qed

theorem slots_compute_the_same_witness:
  "\<exists>ra'. irCgAllocAllTmps sort_by empty_ctx [wit_block] 16 = Inr ra' \<and>
    same_outcome (run wit_machine wit_instrs \<lparr>st_tmps = \<lambda>_. 0, st_mem = \<lambda>_. 7\<rparr>)
      (slot_run (ra_id_to_loff ra') wit_machine wit_instrs (\<lambda>_. 99, \<lambda>_. 7))"
proof -
  obtain ra' where ra': "irCgAllocAllTmps sort_by empty_ctx [wit_block] 16 = Inr ra'" by (rule wit_slots)
  have Is: "cg_instrs [wit_block] = wit_instrs" by (simp add: cg_instrs_def wit_block_def)
  have "fixed_ids wit_instrs = {}" by (simp add: ra_check)
  moreover have "temps_ready empty_ctx {} wit_instrs"
    by (simp add: ra_check uses_def defs_def dst_is_input_def more_opds_def)
  ultimately show ?thesis
    using slots_compute_the_same [OF ra' sort_by_rearranges, unfolded Is, of wit_machine "\<lparr>st_tmps = \<lambda>_. 0, st_mem = \<lambda>_. 7\<rparr>"] ra'
    by auto
qed

end
