(* ===== verification/IrForward.thy ===== *)
theory IrForward
  imports IrOptimise IrRegAlloc_Props
begin

text \<open>
  The forwarding of stored values. It keeps the meaning of a block as long as no variable whose value is being
  forwarded is assigned to; the pass does not check that, and for a block such as the body of the loop of \<^verbatim>\<open>Gcd\<close> it
  produces a wrong program.
\<close>

section \<open>Values of variables\<close>

definition same_var :: "ir_value \<Rightarrow> ir_value \<Rightarrow> bool" where
  "same_var v w \<longleftrightarrow> val_kind v = val_kind w \<and> irVarId (Some v) = irVarId (Some w)"

definition is_slot :: "ir_value \<Rightarrow> bool" where
  "is_slot v \<longleftrightarrow> val_kind v \<in> {IR_VAL_LOCAL, IR_VAL_PARAM, IR_VAL_TMP}"

text \<open>
  Memory with variables: a variable is known by its kind and number, a write changes it and no other, and only the
  instructions that end the forwarding write variables in another way than by assigning their destination.
\<close>

definition slot_memory :: "'m machine \<Rightarrow> bool" where
  "slot_memory M \<longleftrightarrow>
     (\<forall>m v u. same_var v u \<longrightarrow> val_kind v \<in> {IR_VAL_LOCAL, IR_VAL_PARAM} \<longrightarrow> rd M m v = rd M m u) \<and>
     (\<forall>m v w u. val_kind v \<in> {IR_VAL_LOCAL, IR_VAL_PARAM} \<longrightarrow> val_kind u \<notin> {IR_VAL_TMP, IR_VAL_CONST_INT} \<longrightarrow>
        rd M (wr M m v w) u = (if same_var u v then w else rd M m u)) \<and>
     (\<forall>J a b d xs m m' w u. eff M J a b d xs m = Inr (m', w) \<longrightarrow> \<not> kills_all (i_op J) \<longrightarrow>
        val_kind u \<notin> {IR_VAL_TMP, IR_VAL_CONST_INT} \<longrightarrow> rd M m' u = rd M m u)"

lemma slot_memoryD:
  assumes "slot_memory M"
  shows "same_var v u \<Longrightarrow> val_kind v \<in> {IR_VAL_LOCAL, IR_VAL_PARAM} \<Longrightarrow> rd M m v = rd M m u"
    and "val_kind v \<in> {IR_VAL_LOCAL, IR_VAL_PARAM} \<Longrightarrow> val_kind u \<notin> {IR_VAL_TMP, IR_VAL_CONST_INT} \<Longrightarrow>
      rd M (wr M m v w) u = (if same_var u v then w else rd M m u)"
    and "eff M J a b d xs m = Inr (m', w) \<Longrightarrow> \<not> kills_all (i_op J) \<Longrightarrow>
      val_kind u \<notin> {IR_VAL_TMP, IR_VAL_CONST_INT} \<Longrightarrow> rd M m' u = rd M m u"
  using assms unfolding slot_memory_def by blast+

lemma val_same:
  assumes "slot_memory M" "is_slot v" "same_var v u"
  shows "val_of M st v = val_of M st u"
  using assms slot_memoryD(1) [OF assms(1,3), of "st_mem st"] by (auto simp: is_slot_def same_var_def val_of_def)

text \<open>The variable an instruction assigns.\<close>

definition written :: "ir_instr \<Rightarrow> ir_value option" where
  "written I = (if dst_is_input (i_op I) then None else i_dst I)"

text \<open>Assigned are temporaries, locals and parameters; the callee of a call is none of them; a store has a value.\<close>

definition fwd_ok :: "ir_instr \<Rightarrow> bool" where
  "fwd_ok I \<longleftrightarrow> (i_op I = IR_CALL \<longrightarrow> (\<forall>v. i_r1 I = Some v \<longrightarrow> \<not> is_slot v)) \<and>
     (i_op I = IR_STORE \<longrightarrow> i_r1 I \<noteq> None) \<and> (\<forall>d. written I = Some d \<longrightarrow> is_slot d)"

lemma val_put:
  assumes "slot_memory M" "is_slot d"
  shows "val_of M (put M st (Some d) w) u = (if same_var u d then w else val_of M st u)"
proof (cases "val_kind d = IR_VAL_TMP")
  case True
  then show ?thesis by (auto simp: put_def val_of_def same_var_def)
next
  case False
  then have d: "val_kind d \<in> {IR_VAL_LOCAL, IR_VAL_PARAM}" using assms(2) by (auto simp: is_slot_def)
  show ?thesis
    using False d slot_memoryD(2) [OF assms(1) d, of u] by (auto simp: put_def val_of_def same_var_def)
qed

lemma exec_keeps:
  assumes "slot_memory M" "fwd_ok I" "\<not> kills_all (i_op I)" "exec M I st = Inr st'"
    and "\<And>d. written I = Some d \<Longrightarrow> \<not> same_var u d"
  shows "val_of M st' u = val_of M st u"
proof (cases "i_op I = IR_NOP")
  case False
  have put: "val_of M (put M s (written I) w) u = val_of M s u" for s w
    using val_put [OF assms(1)] assms(2,5) by (cases "written I") (auto simp: fwd_ok_def put_def)
  show ?thesis
  proof (cases "sem_result M (i_op I) (eval_cmp_kind I) (opd M st (i_r1 I)) (opd M st (i_r2 I))")
    case None
    then obtain m w where mw: "eff M (skeleton I) (if i_op I \<in> {IR_CALL, IR_LEA} then None else opd M st (i_r1 I)) (opd M st (i_r2 I))
        (if dst_is_input (i_op I) then opd M st (i_dst I) else None) (map (opd M st) (more_opds I)) (st_mem st) = Inr (m, w)"
      and st': "st' = put M (st\<lparr>st_mem := m\<rparr>) (written I) w"
      using assms(4) False by (auto simp: exec_def exec_other_def written_def)
    have "i_op (skeleton I) = i_op I" by (simp add: skeleton_def)
    then have "val_of M (st\<lparr>st_mem := m\<rparr>) u = val_of M st u"
      using slot_memoryD(3) [OF assms(1) mw] assms(3) by (simp add: val_of_def)
    then show ?thesis using st' put by simp
  next
    case (Some res)
    then have "\<not> dst_is_input (i_op I)" using sem_result_not_input by (metis option.distinct(1))
    then obtain w where "st' = put M st (written I) w"
      using assms(4) Some False by (cases res) (auto simp: exec_def written_def)
    then show ?thesis using put by simp
  qed
qed (use assms(4) in \<open>simp add: exec_def\<close>)

lemma exec_store:
  assumes "i_op I = IR_STORE" "i_dst I = Some d" "i_r1 I = Some s" "exec M I st = Inr st'"
  shows "st' = put M st (Some d) (val_of M st s)"
  using assms by (simp add: exec_def sem_result_def opd_def)

section \<open>Rewriting operands\<close>

lemma exec_cong:
  assumes "i_op J = i_op I" "skeleton J = skeleton I" "eval_cmp_kind J = eval_cmp_kind I"
    and "i_op I \<notin> {IR_CALL, IR_LEA} \<Longrightarrow> opd M st (i_r1 J) = opd M st (i_r1 I)" "opd M st (i_r2 J) = opd M st (i_r2 I)"
    and "dst_is_input (i_op I) \<Longrightarrow> opd M st (i_dst J) = opd M st (i_dst I)" "\<not> dst_is_input (i_op I) \<Longrightarrow> i_dst J = i_dst I"
    and "map (opd M st) (more_opds J) = map (opd M st) (more_opds I)"
  shows "exec M J st = exec M I st"
proof -
  have "sem_result M (i_op I) k (opd M st (i_r1 J)) b = sem_result M (i_op I) k (opd M st (i_r1 I)) b" for k b
    using assms(4) by (cases "i_op I \<in> {IR_CALL, IR_LEA}") (auto simp: sem_result_def is_binop_def split: option.splits)
  moreover have "exec_other M J st = exec_other M I st"
    unfolding exec_other_def assms(1,2,5,8)
    using assms(4,6,7) by (cases "i_op I \<in> {IR_CALL, IR_LEA}"; cases "dst_is_input (i_op I)") auto
  moreover have "i_dst J = i_dst I" if "sem_result M (i_op I) k a b = Some r" for k a b r
    using that assms(7) sem_result_not_input by (metis option.distinct(1))
  ultimately show ?thesis by (simp add: exec_def assms(1,3,5) split: option.split)
qed

lemma rewrite_val_opd:
  assumes "slot_memory M" "is_slot slot" "val_of M st slot = val_of M st source"
  shows "opd M st (rewrite_val slot source v) = opd M st v"
proof (cases v)
  case (Some w)
  have "val_of M st w = val_of M st slot" if "same_var w slot"
    using val_same [OF assms(1) _ that] assms(2) that by (auto simp: is_slot_def same_var_def)
  then show ?thesis using Some assms(3) by (auto simp: rewrite_val_def irValMatchesSlot_def same_var_def opd_def)
qed (simp add: rewrite_val_def irValMatchesSlot_def)

lemma map_call_args_simps:
  "call_name (map_call_args f v) = call_name v" "call_args (map_call_args f v) = map f (call_args v)"
  "map_call_args f v = Some w \<Longrightarrow> \<exists>u. v = Some u \<and> val_kind u = val_kind w"
  by (auto simp: map_call_args_def call_name_def call_args_def
      split: option.splits ir_value.splits ir_as.splits)

lemma map_phi_vals_simps:
  "phi_blocks (map_phi_vals f ex) = phi_blocks ex" "phi_vals (map_phi_vals f ex) = map f (phi_vals ex)"
  by (auto simp: map_phi_vals_def phi_blocks_def phi_vals_def split: ir_extra.splits option.splits)

lemma eval_cmp_phi: "eval_cmp_kind (I\<lparr>i_extra := map_phi_vals f (i_extra I)\<rparr>) = eval_cmp_kind I"
  by (simp add: eval_cmp_kind_def map_phi_vals_def split: ir_extra.split option.split)

lemma rewrite_operands_fields:
  "i_op (rewrite_operands C I slot source) = i_op I" "written (rewrite_operands C I slot source) = written I"
  by (simp_all add: rewrite_operands_def written_def dst_is_input_def Let_def)

lemma rewrite_operands_r1:
  assumes "i_op I \<noteq> IR_CALL"
  shows "i_r1 (rewrite_operands C I slot source) \<in> {i_r1 I, Some source}"
  using assms by (simp add: rewrite_operands_def Let_def rewrite_val_def)

lemma rewrite_val_not_slot: "is_slot slot \<Longrightarrow> \<forall>w. v = Some w \<longrightarrow> \<not> is_slot w \<Longrightarrow> rewrite_val slot source v = v"
  by (auto simp: rewrite_val_def irValMatchesSlot_def is_slot_def split: option.splits)

lemma rewrite_call_r1:
  assumes "is_slot slot" "i_op I = IR_CALL" "\<forall>w. i_r1 I = Some w \<longrightarrow> \<not> is_slot w"
  shows "i_r1 (rewrite_operands C I slot source) \<in> {i_r1 I, map_call_args (rewrite_val slot source) (i_r1 I)}"
  using assms by (simp add: rewrite_operands_def Let_def rewrite_val_not_slot)

lemma rewrite_operands_ok:
  assumes "is_slot slot" "fwd_ok I"
  shows "fwd_ok (rewrite_operands C I slot source)"
proof -
  have "\<not> is_slot v" if op: "i_op I = IR_CALL" and v: "i_r1 (rewrite_operands C I slot source) = Some v" for v
  proof -
    have call: "\<forall>w. i_r1 I = Some w \<longrightarrow> \<not> is_slot w" using assms(2) op by (simp add: fwd_ok_def)
    then consider "i_r1 I = Some v" | "map_call_args (rewrite_val slot source) (i_r1 I) = Some v"
      using rewrite_call_r1 [OF assms(1) op call, of C source] v by auto
    then obtain u where "i_r1 I = Some u" "val_kind u = val_kind v" by cases (use map_call_args_simps(3) in blast)+
    then show ?thesis using call by (auto simp: is_slot_def)
  qed
  moreover have "i_r1 (rewrite_operands C I slot source) \<noteq> None" if "i_op I = IR_STORE"
    using rewrite_operands_r1 [of I C slot source] that assms(2) by (auto simp: fwd_ok_def)
  ultimately show ?thesis using assms(2) unfolding fwd_ok_def by (simp only: rewrite_operands_fields) blast
qed

lemma rewrite_operands_exec:
  assumes "slot_memory M" "is_slot slot" "val_of M st slot = val_of M st source" "fwd_ok I"
  shows "exec M (rewrite_operands C I slot source) st = exec M I st"
proof (cases "i_op I \<in> {IR_LEA, IR_GEP, IR_LOAD}")
  case True
  then show ?thesis by (simp add: rewrite_operands_def)
next
  case False
  let ?f = "rewrite_val slot source" and ?J = "rewrite_operands C I slot source"
  note f = rewrite_val_opd [OF assms(1-3)]
  have op: "i_op ?J = i_op I" by (rule rewrite_operands_fields)
  have call: "i_op I = IR_CALL \<Longrightarrow> \<forall>w. i_r1 I = Some w \<longrightarrow> \<not> is_slot w" using assms(4) by (simp add: fwd_ok_def)
  have r1: "i_op I \<noteq> IR_CALL \<Longrightarrow> i_r1 ?J \<in> {i_r1 I, ?f (i_r1 I)}"
    "i_op I = IR_CALL \<Longrightarrow> i_r1 ?J \<in> {i_r1 I, map_call_args ?f (i_r1 I)}"
    using rewrite_call_r1 [OF assms(2)] call by (auto simp: rewrite_operands_def Let_def)
  have r2: "i_r2 ?J \<in> {i_r2 I, ?f (i_r2 I)}" by (simp add: rewrite_operands_def Let_def)
  have dst: "i_dst ?J = (if i_op I \<in> {IR_BR, IR_RET} then ?f (i_dst I) else i_dst I)"
    using False by (simp add: rewrite_operands_def Let_def)
  have ex: "i_extra ?J \<in> {i_extra I, map_phi_vals ?f (i_extra I)}" "i_op I \<noteq> IR_PHI \<Longrightarrow> i_extra ?J = i_extra I"
    by (simp_all add: rewrite_operands_def Let_def)
  have rest: "i_flags ?J = i_flags I" "i_disp ?J = i_disp I" "i_idx ?J = i_idx I" "i_scale ?J = i_scale I" "i_line ?J = i_line I"
    by (simp_all add: rewrite_operands_def Let_def)
  have more: "map (opd M st) (more_opds ?J) = map (opd M st) (more_opds I)"
    using ex(1) r1 unfolding more_opds_def op
    by (auto simp: map_call_args_simps map_phi_vals_simps f rest)
  have skel: "skeleton ?J = skeleton I"
    using ex r1(2) False dst op rest
    by (intro ir_instr.equality) (auto simp: skeleton_def map_call_args_simps map_phi_vals_simps dst_is_input_def)
  show ?thesis
  proof (rule exec_cong [OF op skel])
    show "eval_cmp_kind ?J = eval_cmp_kind I"
      using ex(1) eval_cmp_phi [of ?f I] by (auto simp: eval_cmp_kind_def)
  qed (use r1 r2 dst f more in \<open>auto simp: dst_is_input_def\<close>)
qed

section \<open>Entries\<close>

definition var_key :: "ir_value \<Rightarrow> ir_value_kind \<times> u32" where
  "var_key v = (val_kind v, irVarId (Some v))"

lemma same_var_key: "same_var v w \<longleftrightarrow> var_key v = var_key w"
  by (simp add: same_var_def var_key_def)

definition slot_keys :: "fwd_entries \<Rightarrow> (ir_value_kind \<times> u32) list" where
  "slot_keys es = map (var_key \<circ> fst) es"

definition entries_ok :: "'m machine \<Rightarrow> 'm ir_state \<Rightarrow> ir_value set \<Rightarrow> fwd_entries \<Rightarrow> bool" where
  "entries_ok M st S es \<longleftrightarrow> distinct (slot_keys es) \<and>
     (\<forall>(slot, source) \<in> set es. is_slot slot \<and> source \<in> S \<and> val_of M st slot = val_of M st source)"

lemma swap_remove_mset:
  assumes "j < length es"
  shows "mset (es ! j # swap_remove es j) = mset es"
proof -
  obtain xs x where es: "es = xs @ [x]" using assms by (metis append_butlast_last_id length_0_conv less_nat_zero_code)
  show ?thesis
  proof (cases "j = length xs")
    case True
    then show ?thesis by (simp add: es swap_remove_def)
  next
    case False
    then have j: "j < length xs" using assms es by simp
    have "mset (xs[j := x]) = add_mset x (mset xs - {#xs ! j#})" by (rule mset_update [OF j])
    moreover have "xs ! j \<in># mset xs" using j by simp
    ultimately show ?thesis using j by (simp add: es swap_remove_def nth_append list_update_append)
  qed
qed

lemma swap_remove_keeps:
  assumes "j < length es" "distinct (slot_keys es)"
  shows "set (swap_remove es j) \<subseteq> set es" "distinct (slot_keys (swap_remove es j))"
    "e \<in> set (swap_remove es j) \<Longrightarrow> var_key (fst e) \<noteq> var_key (fst (es ! j))"
proof -
  note m = swap_remove_mset [OF assms(1)]
  show "set (swap_remove es j) \<subseteq> set es" using mset_eq_setD [OF m] by auto
  have "mset (slot_keys (es ! j # swap_remove es j)) = mset (slot_keys es)" using m unfolding slot_keys_def by (metis mset_map)
  then have "distinct (slot_keys (es ! j # swap_remove es j))" using assms(2) mset_eq_imp_distinct_iff by blast
  then have keys: "distinct (slot_keys (swap_remove es j))" "var_key (fst (es ! j)) \<notin> set (slot_keys (swap_remove es j))"
    by (simp_all add: slot_keys_def)
  show "distinct (slot_keys (swap_remove es j))" by (rule keys(1))
  assume "e \<in> set (swap_remove es j)"
  then have "var_key (fst e) \<in> set (slot_keys (swap_remove es j))" by (simp add: slot_keys_def)
  then show "var_key (fst e) \<noteq> var_key (fst (es ! j))" using keys(2) by metis
qed

lemma slot_index_cases:
  "slot_index es (Some v) = None \<Longrightarrow> \<forall>e \<in> set es. \<not> same_var (fst e) v"
  "slot_index es (Some v) = Some i \<Longrightarrow> i < length es \<and> same_var (fst (es ! i)) v"
proof (induction es arbitrary: i)
  case (Cons e es)
  {
    case 1
    then show ?case using Cons by (cases e) (auto simp: irValMatchesSlot_def same_var_def split: if_splits)
  next
    case 2
    then show ?case using Cons by (cases e) (auto simp: irValMatchesSlot_def same_var_def split: if_splits)
  }
qed simp_all

lemma drop_clobbered_keeps:
  "distinct (slot_keys es) \<Longrightarrow> set (drop_clobbered C I es j) \<subseteq> set es \<and> distinct (slot_keys (drop_clobbered C I es j))"
proof (induction C I es j rule: drop_clobbered.induct)
  case (1 C I es j)
  show ?case
  proof (cases "j < length es")
    case True
    note sw = swap_remove_keeps(1,2) [OF True 1(3)]
    show ?thesis
    proof (cases "irLocClobberedBy C I (snd (es ! j)) IR_CLOBBER_AFTER")
      case clob: True
      then show ?thesis using 1(1) [OF True clob sw(2)] sw(1) True by (simp add: drop_clobbered.simps [of C I es]) blast
    next
      case False
      then show ?thesis using 1(2) [OF True False 1(3)] True by (simp add: drop_clobbered.simps [of C I es])
    qed
  next
    case False
    then show ?thesis using 1(3) by (simp add: drop_clobbered.simps)
  qed
qed

lemma drop_slot_keeps:
  assumes "distinct (slot_keys es)"
  shows "set (drop_slot es (Some d)) \<subseteq> set es" "distinct (slot_keys (drop_slot es (Some d)))"
    "\<forall>e \<in> set (drop_slot es (Some d)). \<not> same_var (fst e) d"
proof -
  have "set (drop_slot es (Some d)) \<subseteq> set es \<and> distinct (slot_keys (drop_slot es (Some d))) \<and>
    (\<forall>e \<in> set (drop_slot es (Some d)). \<not> same_var (fst e) d)"
  proof (cases "slot_index es (Some d)")
    case None
    then show ?thesis using assms slot_index_cases(1) by (simp add: drop_slot_def)
  next
    case (Some i)
    then have i: "i < length es" "same_var (fst (es ! i)) d" using slot_index_cases(2) by blast+
    then show ?thesis using Some swap_remove_keeps [OF i(1) assms] by (simp add: drop_slot_def same_var_key)
  qed
  then show "set (drop_slot es (Some d)) \<subseteq> set es" "distinct (slot_keys (drop_slot es (Some d)))"
    "\<forall>e \<in> set (drop_slot es (Some d)). \<not> same_var (fst e) d" by blast+
qed

lemma entries_subset:
  "entries_ok M st S es \<Longrightarrow> set es' \<subseteq> set es \<Longrightarrow> distinct (slot_keys es') \<Longrightarrow> entries_ok M st S es'"
  by (auto simp: entries_ok_def)

lemma entries_distinct: "entries_ok M st S es \<Longrightarrow> distinct (slot_keys es)"
  by (simp add: entries_ok_def)

lemma rewrite_all_ok:
  assumes "slot_memory M" "entries_ok M st S es" "fwd_ok I" "rewrite_all C I es = (J, n)"
  shows "exec M J st = exec M I st" "fwd_ok J" "i_op J = i_op I" "written J = written I"
    "i_op I \<noteq> IR_CALL \<Longrightarrow> set_option (i_r1 J) \<subseteq> set_option (i_r1 I) \<union> S"
proof -
  have "exec M J st = exec M I st \<and> fwd_ok J \<and> i_op J = i_op I \<and> written J = written I \<and>
    (i_op I \<noteq> IR_CALL \<longrightarrow> set_option (i_r1 J) \<subseteq> set_option (i_r1 I) \<union> S)"
    using assms(2-4)
  proof (induction es arbitrary: I n)
    case (Cons e es)
    obtain slot source where e: "e = (slot, source)" by (cases e)
    let ?I = "rewrite_operands C I slot source"
    obtain m where m: "rewrite_all C ?I es = (J, m)"
      using Cons.prems(3) e by (auto simp: irRewriteOperands_def Let_def split: prod.splits)
    have es: "entries_ok M st S es" using Cons.prems(1) by (auto simp: entries_ok_def slot_keys_def)
    have slot: "is_slot slot" "val_of M st slot = val_of M st source" "source \<in> S"
      using Cons.prems(1) e by (auto simp: entries_ok_def)
    have "exec M ?I st = exec M I st" by (rule rewrite_operands_exec [OF assms(1) slot(1,2) Cons.prems(2)])
    moreover have "fwd_ok ?I" by (rule rewrite_operands_ok [OF slot(1) Cons.prems(2)])
    moreover have "set_option (i_r1 ?I) \<subseteq> set_option (i_r1 I) \<union> S" if "i_op I \<noteq> IR_CALL"
      using rewrite_operands_r1 [OF that, of C slot source] slot(3) by auto
    ultimately show ?case
      using Cons.IH [OF es _ m] by (auto simp: rewrite_operands_fields)
  qed simp
  then show "exec M J st = exec M I st" "fwd_ok J" "i_op J = i_op I" "written J = written I"
    "i_op I \<noteq> IR_CALL \<Longrightarrow> set_option (i_r1 J) \<subseteq> set_option (i_r1 I) \<union> S" by blast+
qed

lemma entries_keep:
  assumes "slot_memory M" "fwd_ok I" "\<not> kills_all (i_op I)" "exec M I st = Inr st'" "entries_ok M st S es"
    and "\<And>d e. written I = Some d \<Longrightarrow> e \<in> set es \<Longrightarrow> \<not> same_var (fst e) d \<and> \<not> same_var (snd e) d"
  shows "entries_ok M st' S es"
proof -
  have "val_of M st' slot = val_of M st' source" if e: "(slot, source) \<in> set es" for slot source
  proof -
    have "val_of M st' slot = val_of M st slot" "val_of M st' source = val_of M st source"
      using exec_keeps [OF assms(1-4)] assms(6) e by fastforce+
    then show ?thesis using assms(5) e by (auto simp: entries_ok_def)
  qed
  then show ?thesis using assms(5) by (auto simp: entries_ok_def)
qed

lemma entries_mono: "entries_ok M st S es \<Longrightarrow> S \<subseteq> T \<Longrightarrow> entries_ok M st T es"
  by (auto simp: entries_ok_def)

definition drop_step :: "opt_ctx \<Rightarrow> ir_instr \<Rightarrow> fwd_entries \<Rightarrow> fwd_entries" where
  "drop_step C I es =
     (if i_op I \<notin> {IR_NOP, IR_JMP, IR_PHI, IR_LABEL, IR_ALLOCA} then drop_clobbered C I es 0 else es)"

lemma drop_step_keeps:
  "distinct (slot_keys es) \<Longrightarrow> set (drop_step C I es) \<subseteq> set es \<and> distinct (slot_keys (drop_step C I es))"
  by (simp add: drop_step_def drop_clobbered_keeps)

lemma forward_entries_split:
  assumes "\<not> kills_all (i_op I)"
  shows "i_op I \<noteq> IR_STORE \<Longrightarrow> forward_entries C I es =
      (if i_dst I \<noteq> None then drop_slot (drop_step C I es) (i_dst I) else drop_step C I es)"
    and "i_op I = IR_STORE \<Longrightarrow> i_dst I = Some d \<Longrightarrow> i_r1 I = Some s \<Longrightarrow> irValueByteSize (Some s) = 8 \<Longrightarrow>
      forward_entries C I es =
      (case slot_index (drop_step C I es) (Some d) of
         Some i \<Rightarrow> (drop_step C I es)[i := (fst (drop_step C I es ! i), s)] | None \<Rightarrow> drop_step C I es @ [(d, s)])"
    and "i_op I = IR_STORE \<Longrightarrow> i_dst I = Some d \<Longrightarrow> i_r1 I = Some s \<Longrightarrow> irValueByteSize (Some s) \<noteq> 8 \<Longrightarrow>
      forward_entries C I es = drop_slot (drop_step C I es) (Some d)"
    and "i_op I = IR_STORE \<Longrightarrow> i_dst I = None \<or> i_r1 I = None \<Longrightarrow> forward_entries C I es = drop_step C I es"
  using assms by (auto simp: forward_entries_def drop_step_def Let_def split: option.split)

lemma same_var_refl: "same_var v v"
  by (simp add: same_var_def)

text \<open>A store of 8 bytes makes its destination an entry, in place of an older one for the same slot.\<close>

lemma entries_store:
  assumes "slot_memory M" "entries_ok M st S es" "is_slot d" "s \<in> T" "S \<subseteq> T" "\<And>x. x \<in> S \<Longrightarrow> \<not> same_var x d"
  shows "entries_ok M (put M st (Some d) (val_of M st s)) T
    (case slot_index es (Some d) of Some i \<Rightarrow> es[i := (fst (es ! i), s)] | None \<Rightarrow> es @ [(d, s)])"
proof -
  let ?st = "put M st (Some d) (val_of M st s)"
  note put = val_put [OF assms(1,3)]
  have old: "is_slot slot \<and> source \<in> T \<and> val_of M ?st slot = val_of M ?st source"
    if e: "(slot, source) \<in> set es" "\<not> same_var slot d" for slot source
    using assms(2,5,6) e put by (auto simp: entries_ok_def)
  have new: "val_of M ?st slot = val_of M ?st s" if "same_var slot d" for slot
    using put that by simp
  show ?thesis
  proof (cases "slot_index es (Some d)")
    case None
    then have no: "\<forall>e \<in> set es. \<not> same_var (fst e) d" by (rule slot_index_cases(1))
    then have "distinct (slot_keys (es @ [(d, s)]))"
      using assms(2) by (auto simp: entries_ok_def slot_keys_def same_var_key)
    then show ?thesis using None no old new [OF same_var_refl] assms(3,4) by (auto simp: entries_ok_def)
  next
    case (Some i)
    then have i: "i < length es" "same_var (fst (es ! i)) d" using slot_index_cases(2) by blast+
    have d: "distinct (slot_keys es)" using assms(2) by (simp add: entries_ok_def)
    have keys: "slot_keys (es[i := (fst (es ! i), s)]) = slot_keys es"
      using i(1) by (simp add: slot_keys_def map_update list_update_same_conv)
    have "is_slot slot \<and> source \<in> T \<and> val_of M ?st slot = val_of M ?st source"
      if e: "(slot, source) \<in> set (es[i := (fst (es ! i), s)])" for slot source
    proof -
      obtain k where k: "k < length es" "(slot, source) = (es[i := (fst (es ! i), s)]) ! k"
        using e by (metis in_set_conv_nth length_list_update)
      show ?thesis
      proof (cases "k = i")
        case True
        then have "slot = fst (es ! i)" "source = s" using k i(1) by simp_all
        moreover have "is_slot (fst (es ! i))" using assms(2) i(1) nth_mem unfolding entries_ok_def by fastforce
        ultimately show ?thesis using new i(2) assms(4) by simp
      next
        case False
        then have ek: "(slot, source) = es ! k" using k by simp
        then have "var_key slot \<noteq> var_key (fst (es ! i))"
          using False d k(1) i(1) nth_eq_iff_index_eq [of "slot_keys es" k i] by (metis comp_apply fst_conv length_map nth_map slot_keys_def)
        then have "\<not> same_var slot d" using i(2) by (simp add: same_var_key)
        then show ?thesis using old ek k(1) nth_mem by metis
      qed
    qed
    then show ?thesis using Some keys d by (auto simp: entries_ok_def)
  qed
qed

lemma forward_step:
  assumes "slot_memory M" "entries_ok M st S es" "fwd_ok J" "exec M J st = Inr st'"
    and "\<And>d x. \<not> kills_all (i_op J) \<Longrightarrow> written J = Some d \<Longrightarrow> x \<in> S \<Longrightarrow> \<not> same_var x d"
    and "S \<subseteq> T" "i_op J = IR_STORE \<Longrightarrow> set_option (i_r1 J) \<subseteq> T"
  shows "entries_ok M st' (if kills_all (i_op J) then {} else T) (forward_entries C J es)"
proof (cases "kills_all (i_op J)")
  case True
  then show ?thesis by (simp add: forward_entries_def entries_ok_def slot_keys_def)
next
  case False
  let ?es = "drop_step C J es"
  have es: "entries_ok M st S ?es"
    using entries_subset [OF assms(2)] drop_step_keeps [OF entries_distinct [OF assms(2)]] by blast
  note distinct = entries_distinct [OF es]
  have in_S: "snd e \<in> S" if "e \<in> set es'" "set es' \<subseteq> set ?es" for e es'
    using es that unfolding entries_ok_def by fastforce
  have dropped: "entries_ok M st' T (drop_slot ?es (Some d))" if d: "written J = Some d \<or> written J = None" for d
  proof -
    note ds = drop_slot_keeps [OF distinct, of d]
    have "entries_ok M st' S (drop_slot ?es (Some d))"
      by (rule entries_keep [OF assms(1,3) False assms(4) entries_subset [OF es ds(1,2)]])
        (use d ds(3) assms(5) [OF False] in_S [OF _ ds(1)] in auto)
    then show ?thesis using entries_mono assms(6) by blast
  qed
  have kept: "entries_ok M st' T ?es" if "written J = None"
    by (rule entries_mono [OF entries_keep [OF assms(1,3) False assms(4) es] assms(6)]) (use that in simp)
  show ?thesis
  proof (cases "i_op J = IR_STORE")
    case store: True
    then have w: "written J = i_dst J" by (simp add: written_def dst_is_input_def)
    obtain s where s: "i_r1 J = Some s" using assms(3) store by (auto simp: fwd_ok_def)
    show ?thesis
    proof (cases "i_dst J")
      case None
      then show ?thesis using kept w False forward_entries_split(4) [OF False store] by simp
    next
      case (Some d)
      show ?thesis
      proof (cases "irValueByteSize (Some s) = 8")
        case True
        have "is_slot d" "s \<in> T" using assms(3,7) w Some store s by (auto simp: fwd_ok_def)
        then have "entries_ok M (put M st (Some d) (val_of M st s)) T
            (case slot_index ?es (Some d) of Some i \<Rightarrow> ?es[i := (fst (?es ! i), s)] | None \<Rightarrow> ?es @ [(d, s)])"
          by (rule entries_store [OF assms(1) es _ _ assms(6)]) (use assms(5) [OF False] w Some in auto)
        then show ?thesis
          using forward_entries_split(2) [OF False store Some s True] exec_store [OF store Some s assms(4)] False by simp
      next
        case size: False
        then show ?thesis using forward_entries_split(3) [OF False store Some s] dropped w Some False by simp
      qed
    qed
  next
    case nostore: False
    show ?thesis
    proof (cases "i_dst J")
      case None
      then show ?thesis using forward_entries_split(1) [OF False nostore] kept False by (simp add: written_def)
    next
      case (Some d)
      then show ?thesis using forward_entries_split(1) [OF False nostore] dropped [of d] False by (simp add: written_def)
    qed
  qed
qed

section \<open>The pass\<close>

text \<open>
  Code in which no instruction assigns a variable whose value an entry may hold (\<open>S\<close>: the values stored since the
  last instruction that ends the forwarding).
\<close>

fun sources_kept :: "ir_value set \<Rightarrow> ir_instr list \<Rightarrow> bool" where
  "sources_kept S [] \<longleftrightarrow> True"
| "sources_kept S (I # Is) \<longleftrightarrow>
     (if i_op I = IR_NOP then sources_kept S Is
      else if kills_all (i_op I) then sources_kept {} Is
      else (\<forall>x \<in> S. \<forall>d \<in> set_option (written I). \<not> same_var x d) \<and>
        sources_kept (if i_op I = IR_STORE then S \<union> set_option (i_r1 I) else S) Is)"

lemma run_app: "run M (xs @ ys) st = rbind (run M xs st) (run M ys)"
proof (induction xs arbitrary: st)
  case (Cons I xs)
  show ?case by (cases "exec M I st") (simp_all add: Cons)
qed simp

lemma forward_instrs_run:
  assumes "slot_memory M" "sources_kept S Is" "\<forall>I \<in> set Is. fwd_ok I" "entries_ok M st S es"
    and "forward_instrs C es Is = (Js, n)"
  shows "run M Js st = run M Is st"
  using assms(2-5)
proof (induction Is arbitrary: S st es Js n)
  case (Cons I Is)
  show ?case
  proof (cases "i_op I = IR_NOP")
    case True
    then obtain Js1 m where "Js = I # Js1" "forward_instrs C es Is = (Js1, m)"
      using Cons.prems(4) by (auto split: prod.splits)
    then show ?thesis using Cons True by (simp add: exec_def)
  next
    case False
    obtain J c where J: "rewrite_all C I es = (J, c)" by fastforce
    obtain Js1 m where Js: "Js = J # Js1" "forward_instrs C (forward_entries C J es) Is = (Js1, m)"
      using Cons.prems(4) False J by (auto split: prod.splits)
    have I: "fwd_ok I" using Cons.prems(2) by simp
    note ok = rewrite_all_ok [OF assms(1) Cons.prems(3) I J]
    let ?T = "if i_op I = IR_STORE then S \<union> set_option (i_r1 I) else S"
    have kept: "\<not> kills_all (i_op I) \<Longrightarrow> \<forall>x \<in> S. \<forall>d \<in> set_option (written I). \<not> same_var x d"
      "sources_kept (if kills_all (i_op I) then {} else ?T) Is"
      using Cons.prems(1) False by (auto split: if_splits)
    show ?thesis
    proof (cases "exec M J st")
      case (Inl e)
      then show ?thesis using Js(1) ok(1) by simp
    next
      case (Inr st')
      have "entries_ok M st' (if kills_all (i_op J) then {} else ?T) (forward_entries C J es)"
        by (rule forward_step [OF assms(1) Cons.prems(3) ok(2) Inr]) (use kept(1) ok(3-5) in auto)
      then have "run M Js1 st' = run M Is st'"
        using Cons.IH [OF _ _ _ Js(2)] kept(2) Cons.prems(2) ok(3) by simp
      then show ?thesis using Inr Js(1) ok(1) by simp
    qed
  qed
qed simp

lemma forward_lengths:
  "length (fst (forward_instrs C es Is)) = length Is"
  by (induction Is arbitrary: es) (auto split: prod.splits, (metis fst_conv)+)

text \<open>
  C7. Forwarding keeps the program when no forwarded variable is overwritten: on blocks of code in which nothing assigns a
  variable that has been stored somewhere since the last call or store through a pointer, the pass changes
  operands only, and running the rewritten instructions from any state gives exactly the result of the
  original: the same fault, or the same memory and temporaries.
\<close>

theorem irForwardStoreToReads_preserves:
  assumes "slot_memory M" "\<forall>b \<in> set blocks. sources_kept {} (bb_instructions b) \<and> (\<forall>I \<in> set (bb_instructions b). fwd_ok I)"
  shows "run M (cg_instrs (fst (irForwardStoreToReads C blocks))) st = run M (cg_instrs blocks) st \<and>
    map (\<lambda>b. length (bb_instructions b)) (fst (irForwardStoreToReads C blocks)) = map (\<lambda>b. length (bb_instructions b)) blocks"
  using assms(2)
proof (induction blocks arbitrary: st)
  case (Cons b bs)
  obtain Js n where Js: "forward_instrs C [] (bb_instructions b) = (Js, n)" by fastforce
  have "entries_ok M s {} []" for s by (simp add: entries_ok_def slot_keys_def)
  then have "run M Js s = run M (bb_instructions b) s" for s
    using forward_instrs_run [OF assms(1) _ _ _ Js, of "{}"] Cons.prems by simp
  moreover have "length Js = length (bb_instructions b)" using forward_lengths [of C "[]" "bb_instructions b"] Js by simp
  moreover have "fst (irForwardStoreToReads C (b # bs)) = b\<lparr>bb_instructions := Js\<rparr> # fst (irForwardStoreToReads C bs)"
    using Js by (auto split: prod.splits)
  moreover have "run M (cg_instrs (fst (irForwardStoreToReads C bs))) s = run M (cg_instrs bs) s" for s using Cons by simp
  then have "run M (cg_instrs (fst (irForwardStoreToReads C bs))) = run M (cg_instrs bs)" by blast
  ultimately show ?case using Cons by (simp add: cg_instrs_def run_app)
qed (simp add: cg_instrs_def)

section \<open>Where it goes wrong\<close>

text \<open>A memory of variables, and a block that loads nothing else.\<close>

definition var_machine :: "(ir_value_kind \<times> u32 \<Rightarrow> u64) machine" where
  "var_machine = \<lparr>rd = (\<lambda>m v. m (var_key v)), wr = (\<lambda>m v w. m(var_key v := w)),
     und = (\<lambda>_ _ _. Inl AssertFail), eff = (\<lambda>_ a _ _ _ m. case a of Some w \<Rightarrow> Inr (m, w) | None \<Rightarrow> Inl NullDeref)\<rparr>"

definition plain_opt :: opt_ctx where
  "plain_opt = \<lparr>oc_pool = None, oc_loc = (\<lambda>_. IR_LOC_NONE)\<rparr>"

definition one_block :: "ir_instr list \<Rightarrow> ir_block" where
  "one_block Is = \<lparr>bb_id = 1, bb_removed = False, bb_sealed = True, bb_instructions = Is\<rparr>"

text \<open>\<open>y = x + 1; z = y; return z\<close>, with the variables 1, 2 and 3.\<close>

definition fwd_example :: "ir_instr list" where
  "fwd_example =
     [irInstrNew 1 IR_IADD (wit_var IR_VAL_LOCAL 2) (wit_var IR_VAL_LOCAL 1) (wit_const 1),
      irInstrNew 2 IR_STORE (wit_var IR_VAL_LOCAL 3) (wit_var IR_VAL_LOCAL 2) None,
      irInstrNew 3 IR_IADD (wit_tmp 9) (wit_var IR_VAL_LOCAL 3) (wit_const 0)]"

lemma var_machine_slots: "slot_memory var_machine"
  by (auto simp: slot_memory_def var_machine_def same_var_key split: option.splits)

theorem irForwardStoreToReads_preserves_witness:
  "run var_machine (cg_instrs (fst (irForwardStoreToReads plain_opt [one_block fwd_example]))) \<lparr>st_tmps = (\<lambda>_. 0), st_mem = (\<lambda>_. 7)\<rparr> =
   run var_machine fwd_example \<lparr>st_tmps = (\<lambda>_. 0), st_mem = (\<lambda>_. 7)\<rparr>"
proof -
  have "sources_kept {} fwd_example \<and> (\<forall>I \<in> set fwd_example. fwd_ok I)"
    by (simp add: fwd_example_def wit_var_def wit_tmp_def wit_const_def irInstrNew_def kills_all_def written_def dst_is_input_def
        same_var_def irVarId_def fwd_ok_def is_slot_def)
  then show ?thesis
    using irForwardStoreToReads_preserves [OF var_machine_slots, of "[one_block fwd_example]" plain_opt]
    by (simp add: one_block_def cg_instrs_def)
qed

lemma plain_not_clobbered: "irLocClobberedBy plain_opt I v at = False"
  by (simp add: irLocClobberedBy_def irLocIsScratchClobbered_def plain_opt_def)

lemma drop_plain: "drop_clobbered plain_opt I es j = es"
  by (induction plain_opt I es j rule: drop_clobbered.induct) (simp add: drop_clobbered.simps plain_not_clobbered)

text \<open>
  The body of the loop of \<^verbatim>\<open>Gcd\<close> in the library: \<open>t = b; b = a % b; a = t\<close>, with \<open>a\<close>, \<open>b\<close> and \<open>t\<close> the local variables
  1, 2 and 3.
\<close>

definition gcd_body :: "ir_instr list" where
  "gcd_body =
     [irInstrNew 1 IR_STORE (wit_var IR_VAL_LOCAL 3) (wit_var IR_VAL_LOCAL 2) None,
      irInstrNew 2 IR_IREM (wit_var IR_VAL_LOCAL 2) (wit_var IR_VAL_LOCAL 1) (wit_var IR_VAL_LOCAL 2),
      irInstrNew 3 IR_STORE (wit_var IR_VAL_LOCAL 1) (wit_var IR_VAL_LOCAL 3) None]"

text \<open>
  C8. Forwarding breaks a program that overwrites a forwarded variable: in \<open>t = b; b = a % b; a = t\<close> the pass replaces
  the last read of \<open>t\<close> by \<open>b\<close>, which has been assigned in between. Started with 12 and 8, the original leaves 8 in \<open>a\<close>,
  the rewritten block leaves 4.
\<close>

theorem forwarding_breaks_gcd:
  "\<exists>m m'. map i_r1 (cg_instrs (fst (irForwardStoreToReads plain_opt [one_block gcd_body]))) =
      [wit_var IR_VAL_LOCAL 2, wit_var IR_VAL_LOCAL 1, wit_var IR_VAL_LOCAL 2] \<and>
    run var_machine gcd_body \<lparr>st_tmps = (\<lambda>_. 0), st_mem = (\<lambda>k. if snd k = 1 then 12 else 8)\<rparr> = Inr m \<and>
    run var_machine (cg_instrs (fst (irForwardStoreToReads plain_opt [one_block gcd_body])))
      \<lparr>st_tmps = (\<lambda>_. 0), st_mem = (\<lambda>k. if snd k = 1 then 12 else 8)\<rparr> = Inr m' \<and>
    st_mem m (IR_VAL_LOCAL, 1) = 8 \<and> st_mem m' (IR_VAL_LOCAL, 1) = 4"
proof -
  have "fst (irForwardStoreToReads plain_opt [one_block gcd_body]) = [one_block (gcd_body[2 :=
      irInstrNew 3 IR_STORE (wit_var IR_VAL_LOCAL 1) (wit_var IR_VAL_LOCAL 2) None])]"
    by (simp add: gcd_body_def one_block_def wit_var_def irInstrNew_def irRewriteOperands_def rewrite_operands_def
        rewrite_val_def irValMatchesSlot_def plain_not_clobbered forward_entries_def kills_all_def drop_plain
        irVarId_def irValueByteSize_def drop_slot_def Let_def)
  then show ?thesis
    by (simp add: gcd_body_def one_block_def cg_instrs_def wit_var_def irInstrNew_def exec_def sem_result_def opd_def val_of_def
        put_def var_machine_def var_key_def irVarId_def is_binop_def sem_binop_def)
qed

end
