(* ===== verification/IrDeadCode.thy ===== *)
theory IrDeadCode
  imports IrForward
begin

text \<open>
  The elimination of dead code and of dead stores: what is removed cannot be observed, and what dead code
  elimination leaves is used.
\<close>

section \<open>Use counts\<close>

text \<open>The temporaries an instruction mentions in an operand that is counted.\<close>

definition counted :: "ir_instr \<Rightarrow> u32 set" where
  "counted I = (if i_op I = IR_NOP then {} else \<Union> (tmp_ids ` set (counted_vals I)))"

definition counted_all :: "ir_instr list \<Rightarrow> u32 set" where
  "counted_all Is = \<Union> (counted ` set Is)"

definition counts_of :: "u32 set \<Rightarrow> (u32 \<rightharpoonup> int) \<Rightarrow> bool" where
  "counts_of U cnt \<longleftrightarrow> (\<forall>t. (t \<in> U \<longrightarrow> (\<exists>n > 0. cnt t = Some n)) \<and> (t \<notin> U \<longrightarrow> cnt t = None))"

lemma counts_bump: "counts_of U cnt \<Longrightarrow> counts_of (U \<union> tmp_ids v) (irBumpUse cnt v)"
  by (cases "irIsTmp v"; cases "irVarId v \<in> U") (force simp: counts_of_def irBumpUse_def tmp_ids_def)+

lemma counts_fold: "counts_of U cnt \<Longrightarrow> counts_of (U \<union> \<Union> (tmp_ids ` set vs)) (fold (\<lambda>v cnt. irBumpUse cnt v) vs cnt)"
proof (induction vs arbitrary: U cnt)
  case (Cons v vs)
  show ?case using Cons.IH [OF counts_bump [OF Cons.prems, of v]] by (simp add: Un_assoc)
qed simp

lemma counts_instrs:
  "counts_of U cnt \<Longrightarrow> counts_of (U \<union> counted_all Is)
     (fold (\<lambda>I cnt. if i_op I = IR_NOP then cnt else fold (\<lambda>v cnt. irBumpUse cnt v) (counted_vals I) cnt) Is cnt)"
proof (induction Is arbitrary: U cnt)
  case (Cons I Is)
  have "counts_of (U \<union> counted I) (if i_op I = IR_NOP then cnt else fold (\<lambda>v cnt. irBumpUse cnt v) (counted_vals I) cnt)"
    using counts_fold [OF Cons.prems] Cons.prems by (simp add: counted_def)
  from Cons.IH [OF this] show ?case by (simp add: counted_all_def Un_assoc)
qed (simp add: counted_all_def)

lemma irBuildTmpUseCounts_counts: "counts_of (counted_all (cg_instrs blocks)) (irBuildTmpUseCounts blocks)"
  using counts_instrs [of "{}" "\<lambda>_. None" "cg_instrs blocks"] by (simp add: irBuildTmpUseCounts_def counts_of_def)

lemma dce_dead_iff:
  assumes "counts_of U cnt"
  shows "dce_dead cnt I \<longleftrightarrow> dce_safe (i_op I) \<and> irIsTmp (i_dst I) \<and> irDstVarId I \<notin> U"
  using assms by (auto simp: dce_dead_def irTmpUseCount_def counts_of_def irDstVarId_def split: option.splits)

lemma uses_counted: "i_op I \<noteq> IR_NOP \<Longrightarrow> uses I \<subseteq> counted I"
  by (auto simp: uses_def counted_def counted_vals_def dst_is_input_def more_opds_def instr_args_def split: if_splits)

lemma counted_dce: "counted_all (dce_instrs cnt Is) \<subseteq> counted_all Is"
  by (auto simp: counted_all_def dce_instrs_def counted_def irMakeNop_def split: if_splits)

section \<open>Dead code\<close>

text \<open>The instructions that are removed compute a value: they never fault and never touch the memory.\<close>

definition pure_values :: "'m machine \<Rightarrow> bool" where
  "pure_values M \<longleftrightarrow> (\<forall>op a b. dce_safe op \<longrightarrow> (\<exists>w. und M op a b = Inr w)) \<and>
     (\<forall>J a b d xs m. dce_safe (i_op J) \<longrightarrow> (\<exists>w. eff M J a b d xs m = Inr (m, w)))"

lemma exec_safe:
  assumes "pure_values M" "dce_safe (i_op I)" "irIsTmp (i_dst I)"
  shows "\<exists>w. exec M I st = Inr (st\<lparr>st_tmps := (st_tmps st)(irDstVarId I := w)\<rparr>)"
proof -
  have op: "i_op I \<noteq> IR_NOP" "\<not> dst_is_input (i_op I)" "i_op I \<noteq> IR_STORE" "i_op I \<noteq> IR_IDIV" "i_op I \<noteq> IR_UDIV"
    "i_op I \<noteq> IR_IREM" "i_op I \<noteq> IR_UREM" using assms(2) by (auto simp: dce_safe_def dst_is_input_def)
  have put: "put M s (i_dst I) w = s\<lparr>st_tmps := (st_tmps s)(irDstVarId I := w)\<rparr>" for s w
    using assms(3) by (cases "i_dst I") (simp_all add: put_def irDstVarId_def)
  show ?thesis
  proof (cases "sem_result M (i_op I) (eval_cmp_kind I) (opd M st (i_r1 I)) (opd M st (i_r2 I))")
    case None
    have "i_op (skeleton I) = i_op I" by (simp add: skeleton_def)
    then obtain w where "eff M (skeleton I) a b d xs (st_mem st) = Inr (st_mem st, w)"
      if "a = (if i_op I \<in> {IR_CALL, IR_LEA} then None else opd M st (i_r1 I))" "b = opd M st (i_r2 I)" "d = None"
        "xs = map (opd M st) (more_opds I)" for a b d xs
      using assms(1,2) unfolding pure_values_def by metis
    then show ?thesis using None op put by (simp add: exec_def exec_other_def) blast
  next
    case (Some res)
    have und: "\<exists>w. und M (i_op I) x y = Inr w" for x y using assms(1,2) by (simp add: pure_values_def)
    have "\<exists>w. sem_binop M (i_op I) x y = Inr w" if "is_binop (i_op I)" for x y
    proof -
      have "i_op I \<in> {IR_IADD, IR_ISUB, IR_IMUL, IR_AND, IR_OR, IR_XOR, IR_SHL, IR_SHR, IR_SAR}"
        using that op by (simp add: is_binop_def)
      then show ?thesis using und [of x y] unfolding insert_iff empty_iff by (elim disjE) (simp_all add: sem_binop_def Let_def)
    qed
    then obtain w where "res = Inr w"
      using Some op by (auto simp: sem_result_def split: option.splits if_splits)
    then show ?thesis using Some op put by (auto simp: exec_def)
  qed
qed

text \<open>States that agree on the memory and on a set of temporaries.\<close>

definition agree_on :: "u32 set \<Rightarrow> 'm ir_state \<Rightarrow> 'm ir_state \<Rightarrow> bool" where
  "agree_on U s s' \<longleftrightarrow> st_mem s = st_mem s' \<and> (\<forall>t \<in> U. st_tmps s t = st_tmps s' t)"

lemma exec_agree_on:
  assumes "agree_on U s s'" "uses I \<subseteq> U" "i_op I \<noteq> IR_NOP"
  shows "rel_result (agree_on U) (exec M I s) (exec M I s')"
proof -
  have a: "agree_result I s (exec M I s) (exec M I s')"
    using assms by (intro exec_agree) (auto simp: agree_on_def)
  have b: "agree_result I s' (exec M I s') (exec M I s)"
    using assms by (intro exec_agree) (auto simp: agree_on_def)
  show ?thesis
  proof (cases "exec M I s")
    case (Inl e)
    then show ?thesis using a by (simp add: agree_result_def)
  next
    case (Inr r)
    then obtain r' where r': "exec M I s' = Inr r'" "st_mem r = st_mem r'" "\<forall>t \<in> defs I. st_tmps r t = st_tmps r' t"
      "\<forall>t. t \<notin> defs I \<longrightarrow> st_tmps r t = st_tmps s t" using a by (auto simp: agree_result_def)
    then have "\<forall>t. t \<notin> defs I \<longrightarrow> st_tmps r' t = st_tmps s' t" using b by (auto simp: agree_result_def)
    then have "st_tmps r t = st_tmps r' t" if "t \<in> U" for t
      using r'(3,4) assms(1) that by (cases "t \<in> defs I") (simp_all add: agree_on_def)
    then show ?thesis using Inr r'(1,2) by (simp add: agree_on_def)
  qed
qed

lemma dce_instrs_run:
  assumes "pure_values M" "counts_of U cnt" "counted_all Is \<subseteq> U" "agree_on U s s'"
  shows "rel_result (agree_on U) (run M Is s) (run M (dce_instrs cnt Is) s')"
  using assms(3,4)
proof (induction Is arbitrary: s s')
  case (Cons I Is)
  have rest: "counted_all Is \<subseteq> U" "counted I \<subseteq> U" using Cons.prems(1) by (simp_all add: counted_all_def)
  show ?case
  proof (cases "dce_dead cnt I")
    case True
    then have I: "dce_safe (i_op I)" "irIsTmp (i_dst I)" "irDstVarId I \<notin> U" using dce_dead_iff [OF assms(2)] by simp_all
    obtain w where w: "exec M I s = Inr (s\<lparr>st_tmps := (st_tmps s)(irDstVarId I := w)\<rparr>)" using exec_safe [OF assms(1) I(1,2)] by blast
    have "agree_on U (s\<lparr>st_tmps := (st_tmps s)(irDstVarId I := w)\<rparr>) s'" using Cons.prems(2) I(3) by (auto simp: agree_on_def)
    then show ?thesis using Cons.IH [OF rest(1)] True w by (simp add: dce_instrs_def exec_def irMakeNop_def)
  next
    case False
    show ?thesis
    proof (cases "i_op I = IR_NOP")
      case True
      then show ?thesis using Cons.IH [OF rest(1) Cons.prems(2)] False by (simp add: dce_instrs_def exec_def)
    next
      case op: False
      have "rel_result (agree_on U) (exec M I s) (exec M I s')"
        using exec_agree_on [OF Cons.prems(2) _ op] uses_counted [OF op] rest(2) by blast
      then show ?thesis
        using rel_result_bind [of "agree_on U" "exec M I s" "exec M I s'" "agree_on U" "run M Is" "run M (dce_instrs cnt Is)"]
          Cons.IH [OF rest(1)] False by (simp add: dce_instrs_def)
    qed
  qed
qed (simp add: dce_instrs_def)

lemma agree_trans: "agree_on U a b \<Longrightarrow> agree_on V b c \<Longrightarrow> V \<subseteq> U \<Longrightarrow> agree_on V a c"
  by (auto simp: agree_on_def)

lemma rel_trans:
  assumes "rel_result (agree_on U) a b" "rel_result (agree_on V) b c" "V \<subseteq> U"
  shows "rel_result (agree_on V) a c"
  using assms agree_trans by (cases a; cases b; cases c) (auto simp: rel_result_def)

lemma dce_loop_run:
  assumes "pure_values M" "counts_of (counted_all (cg_instrs blocks)) cnt" "dce_loop cnt blocks = (blocks', cnt')"
  shows "rel_result (agree_on (counted_all (cg_instrs blocks'))) (run M (cg_instrs blocks) s) (run M (cg_instrs blocks') s) \<and>
    counts_of (counted_all (cg_instrs blocks')) cnt' \<and> \<not> list_ex (dce_dead cnt') (cg_instrs blocks') \<and>
    counted_all (cg_instrs blocks') \<subseteq> counted_all (cg_instrs blocks) \<and>
    map (\<lambda>b. length (bb_instructions b)) blocks' = map (\<lambda>b. length (bb_instructions b)) blocks"
  using assms(2,3)
proof (induction cnt blocks rule: dce_loop.induct)
  case (1 cnt blocks)
  show ?case
  proof (cases "list_ex (dce_dead cnt) (cg_instrs blocks)")
    case True
    let ?bs = "on_instrs (dce_instrs cnt) blocks"
    have step: "dce_loop (irBuildTmpUseCounts ?bs) ?bs = (blocks', cnt')"
      using 1(3) True by (simp add: dce_loop.simps [of cnt blocks] Let_def)
    note IH = 1(1) [OF True refl irBuildTmpUseCounts_counts step]
    have "rel_result (agree_on (counted_all (cg_instrs blocks))) (run M (cg_instrs blocks) s) (run M (cg_instrs ?bs) s)"
      using dce_instrs_run [OF assms(1) 1(2) order_refl, of s s] by (simp add: cg_dce agree_on_def)
    moreover have sub: "counted_all (cg_instrs ?bs) \<subseteq> counted_all (cg_instrs blocks)" by (simp add: cg_dce counted_dce)
    moreover have "map (\<lambda>b. length (bb_instructions b)) ?bs = map (\<lambda>b. length (bb_instructions b)) blocks"
      by (simp add: on_instrs_def dce_instrs_def)
    ultimately show ?thesis using IH rel_trans by (metis order_trans)
  next
    case False
    have "rel_result (agree_on U) a a" for U and a :: "'a ir_state result"
      by (cases a) (simp_all add: agree_on_def)
    then show ?thesis using 1(2,3) False by (simp add: dce_loop.simps)
  qed
qed

lemma pin_keeps: "\<forall>I \<in> set Is. i_op I = IR_CALL \<longrightarrow> irIsTmp (i_dst I) \<longrightarrow> irTmpUseCount cnt (i_dst I) = 0 \<longrightarrow> irDstVarId I \<noteq> t \<Longrightarrow>
  fold (pin_dead_call p cnt) Is loc t = loc t"
  by (induction Is arbitrary: loc) (auto simp: pin_dead_call_def)

text \<open>
  C9. Dead code elimination cannot be observed and leaves nothing dead: it ends, keeps the blocks and their lengths, and running
  the remaining instructions from any state faults exactly when the original does and otherwise leaves the same
  memory and the same value in every temporary that is still mentioned; every remaining instruction without side
  effect has a result that is used, and only results of calls that nothing uses are moved to the result register.
\<close>

theorem irOptDeadCodeElim_preserves:
  assumes "pure_values M" "irOptDeadCodeElim pool blocks loc = (blocks', loc')"
  shows "rel_result (agree_on (counted_all (cg_instrs blocks'))) (run M (cg_instrs blocks) st) (run M (cg_instrs blocks') st) \<and>
    map (\<lambda>b. length (bb_instructions b)) blocks' = map (\<lambda>b. length (bb_instructions b)) blocks \<and>
    (\<forall>I \<in> set (cg_instrs blocks'). dce_safe (i_op I) \<longrightarrow> irIsTmp (i_dst I) \<longrightarrow> irDstVarId I \<in> counted_all (cg_instrs blocks')) \<and>
    (\<forall>t \<in> counted_all (cg_instrs blocks'). loc' t = loc t)"
proof -
  obtain cnt where cnt: "dce_loop (irBuildTmpUseCounts blocks) blocks = (blocks', cnt)"
    and loc': "loc' = (case pool of None \<Rightarrow> loc | Some p \<Rightarrow> fold (pin_dead_call p cnt) (cg_instrs blocks') loc)"
    using assms(2) by (auto simp: irOptDeadCodeElim_def split: prod.splits)
  note run = dce_loop_run [OF assms(1) irBuildTmpUseCounts_counts cnt, of st]
  then have counts: "counts_of (counted_all (cg_instrs blocks')) cnt" by blast
  have "\<forall>I \<in> set (cg_instrs blocks'). \<not> dce_dead cnt I" using run by (auto simp: list_ex_iff)
  then have "\<forall>I \<in> set (cg_instrs blocks'). dce_safe (i_op I) \<longrightarrow> irIsTmp (i_dst I) \<longrightarrow> irDstVarId I \<in> counted_all (cg_instrs blocks')"
    using dce_dead_iff [OF counts] by blast
  moreover have "loc' t = loc t" if t: "t \<in> counted_all (cg_instrs blocks')" for t
  proof -
    have "irTmpUseCount cnt (i_dst I) \<noteq> 0" if "irIsTmp (i_dst I)" "irDstVarId I = t" for I
      using counts t that by (fastforce simp: counts_of_def irTmpUseCount_def irDstVarId_def)
    then show ?thesis unfolding loc' by (cases pool) (auto intro!: pin_keeps)
  qed
  ultimately show ?thesis using run by blast
qed

text \<open>\<open>t1 = x + 1; t2 = t1 * 2; y = x\<close>: the second instruction is dead, and then the first.\<close>

definition dead_example :: "ir_instr list" where
  "dead_example =
     [irInstrNew 1 IR_IADD (wit_tmp 1) (wit_var IR_VAL_LOCAL 1) (wit_const 1),
      irInstrNew 2 IR_IMUL (wit_tmp 2) (wit_tmp 1) (wit_const 2),
      irInstrNew 3 IR_STORE (wit_var IR_VAL_LOCAL 2) (wit_var IR_VAL_LOCAL 1) None]"

definition pure_machine :: "(ir_value_kind \<times> u32 \<Rightarrow> u64) machine" where
  "pure_machine = \<lparr>rd = (\<lambda>m v. m (var_key v)), wr = (\<lambda>m v w. m(var_key v := w)),
     und = (\<lambda>_ _ _. Inr 0), eff = (\<lambda>_ a _ _ _ m. Inr (m, case a of Some w \<Rightarrow> w | None \<Rightarrow> 0))\<rparr>"

theorem irOptDeadCodeElim_preserves_witness:
  "\<exists>blocks' loc'. irOptDeadCodeElim None [one_block dead_example] (\<lambda>_. IR_LOC_NONE) = (blocks', loc') \<and>
    map i_op (cg_instrs blocks') = [IR_NOP, IR_NOP, IR_STORE] \<and>
    rel_result (agree_on (counted_all (cg_instrs blocks')))
      (run pure_machine dead_example \<lparr>st_tmps = (\<lambda>_. 0), st_mem = (\<lambda>_. 7)\<rparr>)
      (run pure_machine (cg_instrs blocks') \<lparr>st_tmps = (\<lambda>_. 0), st_mem = (\<lambda>_. 7)\<rparr>)"
proof -
  have "pure_values pure_machine" by (simp add: pure_values_def pure_machine_def)
  moreover obtain blocks' loc' where r: "irOptDeadCodeElim None [one_block dead_example] (\<lambda>_. IR_LOC_NONE) = (blocks', loc')"
    by fastforce
  moreover have "map i_op (cg_instrs (fst (irOptDeadCodeElim None [one_block dead_example] (\<lambda>_. IR_LOC_NONE)))) = [IR_NOP, IR_NOP, IR_STORE]"
    by (simp add: irOptDeadCodeElim_def dce_loop.simps irBuildTmpUseCounts_def cg_instrs_def one_block_def dead_example_def
        irInstrNew_def wit_tmp_def wit_var_def wit_const_def counted_vals_def instr_args_def irBumpUse_def irVarId_def
        dce_dead_def dce_safe_def irTmpUseCount_def on_instrs_def dce_instrs_def irMakeNop_def Let_def)
  ultimately show ?thesis
    using irOptDeadCodeElim_preserves [of pure_machine None "[one_block dead_example]" "\<lambda>_. IR_LOC_NONE" blocks' loc']
    by (simp add: one_block_def cg_instrs_def)
qed

end
