(* ===== verification/IrDeadStore.thy ===== *)
theory IrDeadStore
  imports IrDeadCode
begin

text \<open>
  The elimination of dead stores: running the remaining instructions leaves a memory that differs from the original at
  most in variables that nothing reads and whose address is not taken.
\<close>

section \<open>A variable that nobody looks at\<close>

text \<open>
  \<open>R\<close> relates memories that differ in the variable \<open>v\<close> only: reads of other variables do not see the difference, a write to a
  local or parameter of that number makes it, and neither assignments nor the other instructions turn it into more.
\<close>

definition hidden_var :: "'m machine \<Rightarrow> u32 \<Rightarrow> ('m \<Rightarrow> 'm \<Rightarrow> bool) \<Rightarrow> bool" where
  "hidden_var M v R \<longleftrightarrow> (\<forall>m. R m m) \<and>
     (\<forall>m m' x. R m m' \<longrightarrow> irVarId (Some x) \<noteq> v \<longrightarrow> rd M m x = rd M m' x) \<and>
     (\<forall>m m' x w. R m m' \<longrightarrow> R (wr M m x w) (wr M m' x w)) \<and>
     (\<forall>m x w. val_kind x \<in> {IR_VAL_LOCAL, IR_VAL_PARAM} \<longrightarrow> irVarId (Some x) = v \<longrightarrow> R (wr M m x w) m) \<and>
     (\<forall>J a b d xs m m'. R m m' \<longrightarrow>
        rel_result (\<lambda>(n, w) (n', w'). R n n' \<and> w = w') (eff M J a b d xs m) (eff M J a b d xs m'))"

lemma hidden_varD:
  assumes "hidden_var M v R"
  shows "R m m" "R m m' \<Longrightarrow> irVarId (Some x) \<noteq> v \<Longrightarrow> rd M m x = rd M m' x" "R m m' \<Longrightarrow> R (wr M m x w) (wr M m' x w)"
    "val_kind x \<in> {IR_VAL_LOCAL, IR_VAL_PARAM} \<Longrightarrow> irVarId (Some x) = v \<Longrightarrow> R (wr M m x w) m"
    "R m m' \<Longrightarrow> rel_result (\<lambda>(n, w) (n', w'). R n n' \<and> w = w') (eff M J a b d xs m) (eff M J a b d xs m')"
  using assms unfolding hidden_var_def by blast+

definition st_rel :: "('m \<Rightarrow> 'm \<Rightarrow> bool) \<Rightarrow> 'm ir_state \<Rightarrow> 'm ir_state \<Rightarrow> bool" where
  "st_rel R s s' \<longleftrightarrow> st_tmps s = st_tmps s' \<and> R (st_mem s) (st_mem s')"

text \<open>
  The instructions as they are when the pass runs: a store has a value, and the fused forms, which later passes
  create, do not occur. No operand of such an instruction is the variable.
\<close>

definition unfused :: "ir_instr \<Rightarrow> bool" where
  "unfused I \<longleftrightarrow> i_idx I = None \<and> i_op I \<noteq> IR_RMW_DEREF \<and> (i_op I = IR_STORE \<longrightarrow> i_r1 I \<noteq> None)"

definition reads_not :: "u32 \<Rightarrow> ir_instr \<Rightarrow> bool" where
  "reads_not v I \<longleftrightarrow> i_op I = IR_NOP \<or> unfused I \<and> (\<forall>x. Some x \<in> set (read_vals I) \<longrightarrow> irVarId (Some x) \<noteq> v)"

lemma opd_hidden:
  assumes "hidden_var M v R" "st_rel R s s'" "\<And>y. x = Some y \<Longrightarrow> irVarId (Some y) \<noteq> v"
  shows "opd M s x = opd M s' x"
  using assms(2,3) hidden_varD(2) [OF assms(1), of "st_mem s" "st_mem s'"]
  by (cases x) (auto simp: opd_def val_of_def st_rel_def)

lemma put_hidden:
  assumes "hidden_var M v R" "st_rel R s s'"
  shows "st_rel R (put M s d w) (put M s' d w)"
  using assms(2) hidden_varD(3) [OF assms(1)] by (auto simp: put_def st_rel_def split: option.split)

lemma exec_hidden:
  assumes "hidden_var M v R" "reads_not v I" "st_rel R s s'"
  shows "rel_result (st_rel R) (exec M I s) (exec M I s')"
proof (cases "i_op I = IR_NOP")
  case False
  have I: "i_idx I = None" "i_op I \<noteq> IR_RMW_DEREF" using assms(2) False by (auto simp: reads_not_def unfused_def)
  have opds: "opd M s x = opd M s' x" if "x \<in> set (read_vals I)" for x
    using opd_hidden [OF assms(1,3), of x] that assms(2) False by (auto simp: reads_not_def)
  have r: "opd M s' (i_r1 I) = opd M s (i_r1 I)" "opd M s' (i_r2 I) = opd M s (i_r2 I)"
    "dst_is_input (i_op I) \<Longrightarrow> opd M s' (i_dst I) = opd M s (i_dst I)"
    by (rule opds [symmetric]; use I in \<open>simp add: read_vals_def dst_is_input_def\<close>)+
  let ?args = "if i_op I = IR_PHI then phi_vals (i_extra I) else if i_op I = IR_CALL then call_args (i_r1 I) else []"
  have "map (opd M s') ?args = map (opd M s) ?args"
    by (intro map_cong refl opds [symmetric]) (auto simp: read_vals_def instr_args_def split: if_splits)
  then have "map (opd M s') (more_opds I) = map (opd M s) (more_opds I)"
    using I unfolding more_opds_def map_append by (simp add: opd_def)
  then have args: "(if dst_is_input (i_op I) then opd M s' (i_dst I) else None) = (if dst_is_input (i_op I) then opd M s (i_dst I) else None)"
    "map (opd M s') (more_opds I) = map (opd M s) (more_opds I)" using r(3) by simp_all
  show ?thesis
  proof (cases "sem_result M (i_op I) (eval_cmp_kind I) (opd M s (i_r1 I)) (opd M s (i_r2 I))")
    case None
    let ?d = "if dst_is_input (i_op I) then None else i_dst I"
    let ?eff = "\<lambda>m. eff M (skeleton I) (if i_op I \<in> {IR_CALL, IR_LEA} then None else opd M s (i_r1 I)) (opd M s (i_r2 I))
        (if dst_is_input (i_op I) then opd M s (i_dst I) else None) (map (opd M s) (more_opds I)) m"
    have "exec M I s = rbind (?eff (st_mem s)) (\<lambda>(m, w). Inr (put M (s\<lparr>st_mem := m\<rparr>) ?d w))"
      using None False by (simp add: exec_def exec_other_def)
    moreover have "exec M I s' = rbind (?eff (st_mem s')) (\<lambda>(m, w). Inr (put M (s'\<lparr>st_mem := m\<rparr>) ?d w))"
      using None False unfolding exec_def exec_other_def args r(1,2) by simp
    moreover have "rel_result (\<lambda>(n, w) (n', w'). R n n' \<and> w = w') (?eff (st_mem s)) (?eff (st_mem s'))"
      using hidden_varD(5) [OF assms(1)] assms(3) by (simp add: st_rel_def)
    moreover have "st_rel R (put M (s\<lparr>st_mem := n\<rparr>) ?d w) (put M (s'\<lparr>st_mem := n'\<rparr>) ?d w)" if "R n n'" for n n' w
      by (rule put_hidden [OF assms(1)]) (use that assms(3) in \<open>simp add: st_rel_def\<close>)
    ultimately show ?thesis
      by (cases "?eff (st_mem s)"; cases "?eff (st_mem s')") (auto simp: rel_result_def)
  next
    case (Some res)
    then show ?thesis using False r(1,2) put_hidden [OF assms(1,3)] by (cases res) (simp_all add: exec_def)
  qed
qed (use assms(3) in \<open>simp add: exec_def\<close>)

lemma run_hidden:
  assumes "hidden_var M v R" "\<forall>I \<in> set Is. reads_not v I" "st_rel R s s'"
  shows "rel_result (st_rel R) (run M Is s) (run M Is s')"
  using assms(2,3)
proof (induction Is arbitrary: s s')
  case (Cons I Is)
  have "rel_result (st_rel R) (exec M I s) (exec M I s')" using exec_hidden [OF assms(1) _ Cons.prems(2)] Cons.prems(1) by simp
  then show ?case using rel_result_bind [of "st_rel R" _ _ "st_rel R" "run M Is" "run M Is"] Cons by simp
qed simp

section \<open>Removing one store\<close>

lemma clear_store_run:
  assumes "hidden_var M v R" "\<forall>J \<in> set ys. reads_not v J"
    and "i_op I = IR_STORE" "i_dst I = Some d" "val_kind d \<in> {IR_VAL_LOCAL, IR_VAL_PARAM}" "irVarId (Some d) = v" "i_r1 I = Some a"
  shows "rel_result (st_rel R) (run M (xs @ I # ys) st) (run M (xs @ clear_store I # ys) st)"
proof (cases "run M xs st")
  case (Inr s)
  have "exec M I s = Inr (put M s (Some d) (val_of M s a))" using assms(3,4,7) by (simp add: exec_def sem_result_def opd_def)
  moreover have "exec M (clear_store I) s = Inr s" by (simp add: exec_def clear_store_def)
  moreover have "st_rel R (put M s (Some d) (val_of M s a)) s"
    using assms(5) hidden_varD(4) [OF assms(1,5,6)] by (auto simp: put_def st_rel_def)
  ultimately show ?thesis using Inr run_hidden [OF assms(1,2)] by (simp add: run_app)
qed (simp add: run_app)

lemma read_count_zero:
  assumes "irSlotReadCount blocks v = 0" "I \<in> set (cg_instrs blocks)" "unfused I"
  shows "reads_not v I"
proof -
  have "(if i_op I = IR_NOP then 0 else length (filter (\<lambda>v'. v' \<noteq> None \<and> irVarId v' = v) (read_vals I))) = 0"
    using assms(1,2) unfolding irSlotReadCount_def by (auto simp: sum_list_eq_0_iff)
  then show ?thesis using assms(3) by (auto simp: reads_not_def filter_empty_conv split: if_splits)
qed

section \<open>The pass\<close>

text \<open>The variables whose address is not taken, and those of them that no instruction reads, as the pass counts reads.\<close>

definition private_vars :: "ir_block list \<Rightarrow> u32 set" where
  "private_vars blocks = {v. \<not> irSlotHasAddressTaken blocks v}"

definition unread_vars :: "ir_block list \<Rightarrow> u32 set" where
  "unread_vars blocks = {v \<in> private_vars blocks. irSlotReadCount blocks v = 0}"

text \<open>Memories that differ in variables of \<open>V\<close>, one after the other.\<close>

definition differ_in :: "(u32 \<Rightarrow> 'm \<Rightarrow> 'm \<Rightarrow> bool) \<Rightarrow> u32 set \<Rightarrow> 'm \<Rightarrow> 'm \<Rightarrow> bool" where
  "differ_in E V = (\<lambda>m m'. \<exists>v \<in> V. E v m m')\<^sup>*\<^sup>*"

lemma differ_in_mono: "V \<subseteq> W \<Longrightarrow> differ_in E V m m' \<Longrightarrow> differ_in E W m m'"
  unfolding differ_in_def by (erule rtranclp_mono [THEN predicate2D, rotated]) blast

text \<open>A cleared store reads nothing and takes no address.\<close>

lemma clear_store_counts:
  assumes "cg_instrs now = xs @ I # ys" "cg_instrs new = xs @ clear_store I # ys" "i_op I = IR_STORE"
  shows "irSlotHasAddressTaken new v = irSlotHasAddressTaken now v" "irSlotReadCount new v \<le> irSlotReadCount now v"
  using assms(3) unfolding irSlotHasAddressTaken_def irSlotReadCount_def assms(1,2) by (simp_all add: clear_store_def)

definition kept_by_removal ::
  "'m machine \<Rightarrow> (u32 \<Rightarrow> 'm \<Rightarrow> 'm \<Rightarrow> bool) \<Rightarrow> ir_block list \<Rightarrow> ir_block list \<Rightarrow> bool" where
  "kept_by_removal M E orig now \<longleftrightarrow>
     (\<forall>st. rel_result (st_rel (differ_in E (unread_vars now))) (run M (cg_instrs orig) st) (run M (cg_instrs now) st)) \<and>
     private_vars now = private_vars orig \<and> (\<forall>I \<in> set (cg_instrs now). unfused I) \<and>
     map (\<lambda>b. length (bb_instructions b)) now = map (\<lambda>b. length (bb_instructions b)) orig"

lemma rel_differ_trans:
  assumes "rel_result (st_rel (differ_in E V)) a b" "rel_result (st_rel (E v)) b c" "v \<in> V"
  shows "rel_result (st_rel (differ_in E V)) a c"
proof -
  have "differ_in E V m m''" if "differ_in E V m m'" "E v m' m''" for m m' m''
  proof -
    have "(\<lambda>m m'. \<exists>v\<in>V. E v m m') m' m''" using that(2) assms(3) by blast
    then show ?thesis using that(1) unfolding differ_in_def by (rule rtranclp.rtrancl_into_rtrancl [rotated])
  qed
  then show ?thesis using assms(1,2) by (cases a; cases b; cases c) (auto simp: rel_result_def st_rel_def)
qed

lemma kept_step:
  assumes "\<forall>v \<in> private_vars orig. hidden_var M v (E v)" "kept_by_removal M E orig (pre @ b\<lparr>bb_instructions := xs @ I # Is\<rparr> # post)"
  shows "kept_by_removal M E orig (pre @ b\<lparr>bb_instructions :=
      xs @ (if store_dead (pre @ b\<lparr>bb_instructions := xs @ I # Is\<rparr> # post) I then clear_store I else I) # Is\<rparr> # post)"
proof (cases "store_dead (pre @ b\<lparr>bb_instructions := xs @ I # Is\<rparr> # post) I")
  case True
  let ?now = "pre @ b\<lparr>bb_instructions := xs @ I # Is\<rparr> # post"
    and ?new = "pre @ b\<lparr>bb_instructions := xs @ clear_store I # Is\<rparr> # post"
  let ?X = "cg_instrs pre @ xs" and ?Y = "Is @ cg_instrs post"
  have now: "cg_instrs ?now = ?X @ I # ?Y" and new: "cg_instrs ?new = ?X @ clear_store I # ?Y" by (simp_all add: cg_instrs_def)
  obtain d where d: "i_op I = IR_STORE" "i_dst I = Some d" "val_kind d \<in> {IR_VAL_LOCAL, IR_VAL_PARAM}"
    "\<not> irSlotHasAddressTaken ?now (irVarId (Some d))" "irSlotReadCount ?now (irVarId (Some d)) = 0"
    using True by (auto simp: store_dead_def irDstVarId_def split: option.splits)
  let ?v = "irVarId (Some d)"
  note counts = clear_store_counts [OF now new d(1)]
  have priv: "private_vars ?new = private_vars ?now" by (simp add: private_vars_def counts(1))
  have unread: "unread_vars ?now \<subseteq> unread_vars ?new"
  proof
    fix u assume "u \<in> unread_vars ?now"
    then show "u \<in> unread_vars ?new" using counts(2) [of u] unfolding unread_vars_def priv by simp
  qed
  have v: "?v \<in> private_vars orig" "?v \<in> unread_vars ?new"
    using d(4,5) assms(2) unread by (auto simp: kept_by_removal_def private_vars_def unread_vars_def)
  obtain a where a: "i_r1 I = Some a" using assms(2) d(1) now by (auto simp: kept_by_removal_def unfused_def)
  have "\<forall>J \<in> set ?Y. reads_not ?v J" using read_count_zero [OF d(5)] assms(2) now by (auto simp: kept_by_removal_def)
  then have one: "rel_result (st_rel (E ?v)) (run M (cg_instrs ?now) st) (run M (cg_instrs ?new) st)" for st
    unfolding now new using clear_store_run [OF bspec [OF assms(1) v(1)] _ d(1-3) refl a] by blast
  have "rel_result (st_rel (differ_in E (unread_vars ?new))) (run M (cg_instrs orig) st) (run M (cg_instrs ?now) st)" for st
  proof -
    have "rel_result (st_rel (differ_in E (unread_vars ?now))) (run M (cg_instrs orig) st) (run M (cg_instrs ?now) st)"
      using assms(2) unfolding kept_by_removal_def by blast
    then show ?thesis
      using differ_in_mono [OF unread] by (cases "run M (cg_instrs orig) st"; cases "run M (cg_instrs ?now) st") (auto simp: st_rel_def)
  qed
  from rel_differ_trans [OF this one v(2)]
  have "rel_result (st_rel (differ_in E (unread_vars ?new))) (run M (cg_instrs orig) st) (run M (cg_instrs ?new) st)" for st .
  moreover have "\<forall>J \<in> set (cg_instrs ?new). unfused J"
    using assms(2) unfolding kept_by_removal_def now new by (auto simp: clear_store_def unfused_def)
  ultimately show ?thesis using assms(2) True priv by (simp add: kept_by_removal_def)
qed (use assms(2) in simp)

lemma dead_stores_block_kept:
  assumes "\<forall>v \<in> private_vars orig. hidden_var M v (E v)" "kept_by_removal M E orig (pre @ b\<lparr>bb_instructions := xs @ Is\<rparr> # post)"
  shows "kept_by_removal M E orig (pre @ b\<lparr>bb_instructions := dead_stores_block pre b post xs Is\<rparr> # post)"
  using assms(2)
proof (induction Is arbitrary: xs)
  case (Cons I Is)
  show ?case using Cons.IH [of "xs @ [_]"] kept_step [OF assms(1) Cons.prems] by simp
qed simp

lemma dead_stores_kept:
  assumes "\<forall>v \<in> private_vars orig. hidden_var M v (E v)" "kept_by_removal M E orig (pre @ post)"
  shows "kept_by_removal M E orig (dead_stores pre post)"
  using assms(2)
proof (induction post arbitrary: pre)
  case (Cons b post)
  have "kept_by_removal M E orig (pre @ b\<lparr>bb_instructions := [] @ bb_instructions b\<rparr> # post)" using Cons.prems by simp
  from dead_stores_block_kept [OF assms(1) this] show ?case using Cons.IH by simp
qed simp

text \<open>
  C10. Dead store elimination removes stores nobody sees: when each variable whose address is not taken is hidden from the
  instructions that do not name it, and the fused forms do not occur yet, running the remaining code from any state faults
  exactly when the original does and otherwise ends with the same temporaries and a memory that differs, if at all, only in
  variables whose address is not taken and which no remaining instruction, before or after the removed stores, reads, as the pass
  counts reads: by number, a constant operand with the same low 32 bits included.
\<close>

theorem irDeadStoreEliminate_preserves:
  assumes "\<forall>v. \<not> irSlotHasAddressTaken blocks v \<longrightarrow> hidden_var M v (E v)"
    and "\<forall>I \<in> set (cg_instrs blocks). unfused I"
  shows "rel_result (st_rel (differ_in E {v. \<not> irSlotHasAddressTaken blocks v \<and> irSlotReadCount (irDeadStoreEliminate blocks) v = 0}))
      (run M (cg_instrs blocks) st) (run M (cg_instrs (irDeadStoreEliminate blocks)) st) \<and>
    map (\<lambda>b. length (bb_instructions b)) (irDeadStoreEliminate blocks) = map (\<lambda>b. length (bb_instructions b)) blocks"
proof -
  have "rel_result (st_rel (differ_in E V)) a a" for V and a :: "'a ir_state result"
    by (cases a) (simp_all add: st_rel_def differ_in_def)
  then have "kept_by_removal M E blocks ([] @ blocks)" using assms(2) by (simp add: kept_by_removal_def)
  then have kept: "kept_by_removal M E blocks (irDeadStoreEliminate blocks)"
    unfolding irDeadStoreEliminate_def by (rule dead_stores_kept [rotated]) (use assms(1) in \<open>simp add: private_vars_def\<close>)
  then have "unread_vars (irDeadStoreEliminate blocks) =
      {v. \<not> irSlotHasAddressTaken blocks v \<and> irSlotReadCount (irDeadStoreEliminate blocks) v = 0}"
    by (simp add: kept_by_removal_def unread_vars_def private_vars_def)
  then show ?thesis using kept by (simp add: kept_by_removal_def)
qed

text \<open>With variables 1, 2 and 3: \<^verbatim>\<open>z = y; y = x; return x\<close>. Once the store to 3 is gone, nothing reads 2.\<close>

definition dead_stores_example :: "ir_instr list" where
  "dead_stores_example =
     [irInstrNew 1 IR_STORE (wit_var IR_VAL_LOCAL 3) (wit_var IR_VAL_LOCAL 2) None,
      irInstrNew 2 IR_STORE (wit_var IR_VAL_LOCAL 2) (wit_var IR_VAL_LOCAL 1) None,
      irInstrNew 3 IR_RET (wit_var IR_VAL_LOCAL 1) None None]"

lemmas dead_stores_eval = irDeadStoreEliminate_def cg_instrs_def one_block_def dead_stores_example_def irInstrNew_def wit_var_def
  store_dead_def irSlotHasAddressTaken_def irSlotReadCount_def read_vals_def instr_args_def irVarId_def irDstVarId_def clear_store_def

theorem irDeadStoreEliminate_preserves_witness:
  "map i_op (cg_instrs (irDeadStoreEliminate [one_block dead_stores_example])) = [IR_NOP, IR_NOP, IR_RET] \<and>
   rel_result (st_rel (differ_in (\<lambda>v m m'. \<forall>k. snd k \<noteq> v \<longrightarrow> m k = m' k) (- {1})))
     (run pure_machine dead_stores_example \<lparr>st_tmps = (\<lambda>_. 0), st_mem = (\<lambda>_. 7)\<rparr>)
     (run pure_machine (cg_instrs (irDeadStoreEliminate [one_block dead_stores_example])) \<lparr>st_tmps = (\<lambda>_. 0), st_mem = (\<lambda>_. 7)\<rparr>)"
proof -
  let ?E = "\<lambda>v m m'. \<forall>k :: ir_value_kind \<times> u32. snd k \<noteq> v \<longrightarrow> (m k :: u64) = m' k"
  have "hidden_var pure_machine v (?E v)" for v
    by (auto simp: hidden_var_def pure_machine_def var_key_def)
  moreover have "map i_op (cg_instrs (irDeadStoreEliminate [one_block dead_stores_example])) = [IR_NOP, IR_NOP, IR_RET]"
    by (simp add: dead_stores_eval)
  moreover have "{v. \<not> irSlotHasAddressTaken [one_block dead_stores_example] v \<and>
      irSlotReadCount (irDeadStoreEliminate [one_block dead_stores_example]) v = 0} = - {1}"
    by (auto simp: dead_stores_eval)
  ultimately show ?thesis
    using irDeadStoreEliminate_preserves [of "[one_block dead_stores_example]" pure_machine ?E "\<lparr>st_tmps = (\<lambda>_. 0), st_mem = (\<lambda>_. 7)\<rparr>"]
    by (simp add: one_block_def cg_instrs_def dead_stores_example_def irInstrNew_def wit_var_def unfused_def)
qed

end
