(* ===== verification/IrFuse.thy ===== *)
theory IrFuse
  imports IrOptimise
begin

text \<open>
  The two passes of \<^verbatim>\<open>src/src/ir-optimise.c\<close> that fuse instructions into memory accesses: additions become the
  displacement or the scaled index of an address, and a load, an operation and a store of one place become a single
  \<^verbatim>\<open>IR_RMW_DEREF\<close>. A pointer to an instruction is its position: the number of its block and its index there. The code
  compares operands by address; whether two operands are one object is the argument \<open>same\<close>.
\<close>

section \<open>Instructions by position\<close>

type_synonym instr_pos = "nat \<times> nat"

definition instr_at :: "ir_block list \<Rightarrow> instr_pos \<Rightarrow> ir_instr" where
  "instr_at fn p = bb_instructions (fn ! fst p) ! snd p"

definition put_instr :: "ir_block list \<Rightarrow> instr_pos \<Rightarrow> ir_instr \<Rightarrow> ir_block list" where
  "put_instr fn p I = fn[fst p := (fn ! fst p)\<lparr>bb_instructions := (bb_instructions (fn ! fst p))[snd p := I]\<rparr>]"

definition produces :: "ir_instr \<Rightarrow> bool" where
  "produces I \<longleftrightarrow> i_op I \<notin> {IR_NOP, IR_STORE, IR_STORE_DEREF, IR_RMW_DEREF, IR_BR, IR_RET} \<and> irIsTmp (i_dst I)"

definition irBuildTmpDefs :: "ir_block list \<Rightarrow> (u32 \<rightharpoonup> instr_pos)" where
  "irBuildTmpDefs fn =
     fold (\<lambda>(b, bb) tmp_defs.
         fold (\<lambda>(i, I) tmp_defs. if produces I then tmp_defs(irDstVarId I \<mapsto> (b, i)) else tmp_defs)
           (enumerate 0 (bb_instructions bb)) tmp_defs)
       (enumerate 0 fn) (\<lambda>_. None)"

section \<open>Additions and addresses\<close>

text \<open>The single use of a value as an address among the instructions after its definition.\<close>

fun irFindMemConsumer ::
  "(ir_value option \<Rightarrow> ir_value option \<Rightarrow> bool) \<Rightarrow> ir_instr list \<Rightarrow> ir_value option \<Rightarrow> nat option" where
  "irFindMemConsumer same [] dst = None"
| "irFindMemConsumer same (J # Js) dst =
     (if i_op J = IR_NOP then map_option Suc (irFindMemConsumer same Js dst)
      else if i_op J = IR_LOAD_DEREF \<and> same (i_r1 J) dst \<or>
              i_op J \<in> {IR_STORE_DEREF, IR_RMW_DEREF} \<and> same (i_dst J) dst then Some 0
      else if same (i_r1 J) dst \<or> same (i_r2 J) dst \<or> same (i_dst J) dst \<or> same (i_idx J) dst then None
      else map_option Suc (irFindMemConsumer same Js dst))"

definition irRangeClobbersScratch :: "ir_instr list \<Rightarrow> bool" where
  "irRangeClobbersScratch between \<longleftrightarrow> list_ex (\<lambda>J. i_op J \<notin> {IR_NOP, IR_JMP, IR_PHI, IR_LABEL, IR_ALLOCA}) between"

definition irFindScalingProducer ::
  "ir_block list \<Rightarrow> (u32 \<rightharpoonup> instr_pos) \<Rightarrow> ir_value option \<Rightarrow> (instr_pos \<times> u8) option" where
  "irFindScalingProducer fn tmp_defs v =
     (if \<not> irIsTmp v then None
      else case tmp_defs (irVarId v) of None \<Rightarrow> None
      | Some p \<Rightarrow>
          let I = instr_at fn p; k = sint (const_of (i_r2 I))
          in if \<not> irIsConstInt (i_r2 I) then None
             else if i_op I = IR_SHL then (if k < 0 \<or> 3 < k then None else Some (p, push_bit (nat k) 1))
             else if i_op I = IR_IMUL then (if k \<in> {1, 2, 4, 8} then Some (p, word_of_int k) else None)
             else None)"

text \<open>The size field of a temporary.\<close>

definition tmp_size :: "ir_value option \<Rightarrow> u16" where
  "tmp_size v = (case v of Some w \<Rightarrow> (case val_as w of As_var i sz \<Rightarrow> sz | _ \<Rightarrow> 0) | None \<Rightarrow> 0)"

definition disp_operand :: "ir_instr \<Rightarrow> (ir_value option \<times> int) option" where
  "disp_operand I =
     (if i_op I = IR_IADD then
        (if irIsConstInt (i_r2 I) then Some (i_r1 I, sint (const_of (i_r2 I)))
         else if irIsConstInt (i_r1 I) then Some (i_r2 I, sint (const_of (i_r1 I))) else None)
      else if irIsConstInt (i_r2 I) then Some (i_r1 I, - sint (const_of (i_r2 I))) else None)"

definition retarget :: "ir_instr \<Rightarrow> ir_value option \<Rightarrow> ir_instr" where
  "retarget J base = (if i_op J = IR_LOAD_DEREF then J\<lparr>i_r1 := base\<rparr> else J\<lparr>i_dst := base\<rparr>)"

text \<open>Moving the read of the base to the consumer would read a register that is no longer intact.\<close>

definition base_clobbered :: "opt_ctx \<Rightarrow> ir_instr list \<Rightarrow> ir_instr \<Rightarrow> ir_value option \<Rightarrow> bool" where
  "base_clobbered C between J base \<longleftrightarrow>
     (case base of None \<Rightarrow> False
      | Some v \<Rightarrow> irLocIsScratchClobbered C v \<and>
          (irRangeClobbersScratch between \<or> irLocClobberedBy C J v IR_CLOBBER_BEFORE_R1))"

definition disp_fold :: "opt_ctx \<Rightarrow> ir_instr \<Rightarrow> ir_instr list \<Rightarrow> ir_instr \<Rightarrow> ir_instr option" where
  "disp_fold C I between J =
     (if i_disp J \<noteq> 0 then None
      else case disp_operand I of None \<Rightarrow> None
      | Some (base, k) \<Rightarrow>
          if - (2 ^ 31) \<le> k \<and> k < 2 ^ 31 \<and> \<not> base_clobbered C between J base
          then Some ((retarget J base)\<lparr>i_disp := word_of_int k\<rparr>) else None)"

definition scale_operand ::
  "ir_block list \<Rightarrow> (u32 \<rightharpoonup> int) \<Rightarrow> (u32 \<rightharpoonup> instr_pos) \<Rightarrow> ir_value option \<Rightarrow> ir_value option \<Rightarrow>
    (instr_pos \<times> u8 \<times> ir_value option) option" where
  "scale_operand fn cnt tmp_defs scaled base =
     (case irFindScalingProducer fn tmp_defs scaled of None \<Rightarrow> None
      | Some (p, s) \<Rightarrow> if irTmpUseCount cnt scaled = 1 then Some (p, s, base) else None)"

text \<open>The changed consumer and the position of the scaling instruction.\<close>

definition scale_fold ::
  "opt_ctx \<Rightarrow> ir_block list \<Rightarrow> (u32 \<rightharpoonup> int) \<Rightarrow> (u32 \<rightharpoonup> instr_pos) \<Rightarrow> ir_instr \<Rightarrow> ir_instr list \<Rightarrow> ir_instr \<Rightarrow>
    (ir_instr \<times> instr_pos) option" where
  "scale_fold C fn cnt tmp_defs I between J =
     (if i_op I \<noteq> IR_IADD \<or> i_scale J \<noteq> 0 then None
      else
        case (case scale_operand fn cnt tmp_defs (i_r2 I) (i_r1 I) of Some x \<Rightarrow> Some x
              | None \<Rightarrow> scale_operand fn cnt tmp_defs (i_r1 I) (i_r2 I)) of
          None \<Rightarrow> None
        | Some (p, s, base) \<Rightarrow>
            if base_clobbered C between J base then None
            else Some ((retarget J base)\<lparr>i_idx := i_r1 (instr_at fn p), i_scale := s\<rparr>, p))"

definition make_nop :: "ir_block list \<Rightarrow> instr_pos \<Rightarrow> ir_block list" where
  "make_nop fn p = put_instr fn p (irMakeNop (instr_at fn p))"

definition fuse_iadd ::
  "opt_ctx \<Rightarrow> (ir_value option \<Rightarrow> ir_value option \<Rightarrow> bool) \<Rightarrow> (u32 \<rightharpoonup> int) \<Rightarrow> (u32 \<rightharpoonup> instr_pos) \<Rightarrow>
    instr_pos \<Rightarrow> ir_block list \<times> bool \<Rightarrow> ir_block list \<times> bool" where
  "fuse_iadd C same cnt tmp_defs cur = (\<lambda>(fn, changed).
     let I = instr_at fn cur; rest = drop (Suc (snd cur)) (bb_instructions (fn ! fst cur)) in
     if i_op I \<notin> {IR_IADD, IR_ISUB} \<or> \<not> irIsTmp (i_dst I) \<or> i_r1 I = None \<or> i_r2 I = None \<or>
        tmp_size (i_dst I) \<noteq> 8 \<or> irTmpUseCount cnt (i_dst I) \<noteq> 1 then (fn, changed)
     else case irFindMemConsumer same rest (i_dst I) of None \<Rightarrow> (fn, changed)
     | Some j \<Rightarrow>
         let J = rest ! j; user = (fst cur, Suc (snd cur + j)) in
         case disp_fold C I (take j rest) J of
           Some J' \<Rightarrow> (make_nop (put_instr fn user J') cur, True)
         | None \<Rightarrow>
             (case scale_fold C fn cnt tmp_defs I (take j rest) J of
                Some (J', p) \<Rightarrow> (make_nop (make_nop (put_instr fn user J') p) cur, True)
              | None \<Rightarrow> (fn, changed)))"

definition positions :: "ir_block list \<Rightarrow> instr_pos list" where
  "positions fn = concat (map (\<lambda>(b, bb). map (\<lambda>i. (b, i)) [0..<length (bb_instructions bb)]) (enumerate 0 fn))"

definition irFuseIaddIntoMemAddressing ::
  "opt_ctx \<Rightarrow> (ir_value option \<Rightarrow> ir_value option \<Rightarrow> bool) \<Rightarrow> ir_block list \<Rightarrow> ir_block list \<times> bool" where
  "irFuseIaddIntoMemAddressing C same fn =
     (let cnt = irBuildTmpUseCounts fn; tmp_defs = irBuildTmpDefs fn
      in fold (fuse_iadd C same cnt tmp_defs) (positions fn) (fn, False))"

section \<open>Load, operation and store\<close>

definition irRmwOpCommutes :: "ir_op \<Rightarrow> bool" where
  "irRmwOpCommutes op \<longleftrightarrow> op \<in> {IR_IADD, IR_AND, IR_OR, IR_XOR}"

definition irRmwOpSupported :: "ir_op \<Rightarrow> bool" where
  "irRmwOpSupported op \<longleftrightarrow> op \<in> {IR_IADD, IR_ISUB, IR_AND, IR_OR, IR_XOR}"

definition irAddressingMatches ::
  "(ir_value option \<Rightarrow> ir_value option \<Rightarrow> bool) \<Rightarrow> ir_instr \<Rightarrow> ir_instr \<Rightarrow> bool" where
  "irAddressingMatches same L S \<longleftrightarrow>
     same (i_r1 L) (i_dst S) \<and> i_disp L = i_disp S \<and> i_scale L = i_scale S \<and> same (i_idx L) (i_idx S)"

fun irPrevNonNop :: "ir_instr list \<Rightarrow> nat \<Rightarrow> nat option" where
  "irPrevNonNop Is 0 = None"
| "irPrevNonNop Is (Suc i) = (if i_op (Is ! i) \<noteq> IR_NOP then Some i else irPrevNonNop Is i)"

text \<open>The load an operand of the operation comes from.\<close>

definition rmw_load ::
  "(ir_value option \<Rightarrow> ir_value option \<Rightarrow> bool) \<Rightarrow> (u32 \<rightharpoonup> int) \<Rightarrow> (u32 \<rightharpoonup> instr_pos) \<Rightarrow> ir_block list \<Rightarrow>
    ir_instr \<Rightarrow> ir_value option \<Rightarrow> instr_pos option" where
  "rmw_load same cnt tmp_defs fn S v =
     (if irIsTmp v \<and> irTmpUseCount cnt v = 1
      then (case tmp_defs (irVarId v) of None \<Rightarrow> None
            | Some p \<Rightarrow> if i_op (instr_at fn p) = IR_LOAD_DEREF \<and> irAddressingMatches same (instr_at fn p) S then Some p else None)
      else None)"

definition rmw_operands ::
  "(ir_value option \<Rightarrow> ir_value option \<Rightarrow> bool) \<Rightarrow> (u32 \<rightharpoonup> int) \<Rightarrow> (u32 \<rightharpoonup> instr_pos) \<Rightarrow> ir_block list \<Rightarrow>
    ir_instr \<Rightarrow> ir_instr \<Rightarrow> (instr_pos \<times> ir_value option) option" where
  "rmw_operands same cnt tmp_defs fn S B =
     (case rmw_load same cnt tmp_defs fn S (i_r1 B) of
        Some p \<Rightarrow> Some (p, i_r2 B)
      | None \<Rightarrow>
          if irRmwOpCommutes (i_op B)
          then map_option (\<lambda>p. (p, i_r1 B)) (rmw_load same cnt tmp_defs fn S (i_r2 B)) else None)"

definition fuse_rmw ::
  "(ir_value option \<Rightarrow> ir_value option \<Rightarrow> bool) \<Rightarrow> (u32 \<rightharpoonup> int) \<Rightarrow> (u32 \<rightharpoonup> instr_pos) \<Rightarrow>
    instr_pos \<Rightarrow> ir_block list \<times> bool \<Rightarrow> ir_block list \<times> bool" where
  "fuse_rmw same cnt tmp_defs cur = (\<lambda>(fn, changed).
     let S = instr_at fn cur; Is = bb_instructions (fn ! fst cur) in
     if i_op S \<noteq> IR_STORE_DEREF \<or> \<not> irIsTmp (i_r1 S) \<or> irTmpUseCount cnt (i_r1 S) \<noteq> 1 then (fn, changed)
     else case tmp_defs (irVarId (i_r1 S)) of None \<Rightarrow> (fn, changed)
     | Some pb \<Rightarrow>
         let B = instr_at fn pb in
         if \<not> irRmwOpSupported (i_op B) \<or> i_r1 B = None \<or> i_r2 B = None then (fn, changed)
         else case rmw_operands same cnt tmp_defs fn S B of None \<Rightarrow> (fn, changed)
         | Some (pl, val) \<Rightarrow>
             (case irPrevNonNop Is (snd cur) of None \<Rightarrow> (fn, changed)
              | Some nb \<Rightarrow>
                  if (fst cur, nb) \<noteq> pb then (fn, changed)
                  else case irPrevNonNop Is nb of None \<Rightarrow> (fn, changed)
                  | Some nl \<Rightarrow>
                      if (fst cur, nl) \<noteq> pl then (fn, changed)
                      else (make_nop (make_nop (put_instr fn cur
                              (S\<lparr>i_op := IR_RMW_DEREF, i_extra := Ex_rmw_op (i_op B), i_r1 := val\<rparr>)) pl) pb, True)))"

definition irFuseLoadOpStore ::
  "(ir_value option \<Rightarrow> ir_value option \<Rightarrow> bool) \<Rightarrow> ir_block list \<Rightarrow> ir_block list \<times> bool" where
  "irFuseLoadOpStore same fn =
     (let cnt = irBuildTmpUseCounts fn; tmp_defs = irBuildTmpDefs fn
      in fold (fuse_rmw same cnt tmp_defs) (positions fn) (fn, False))"

section \<open>Positions in the list of all instructions\<close>

definition in_range :: "ir_block list \<Rightarrow> instr_pos \<Rightarrow> bool" where
  "in_range fn p \<longleftrightarrow> fst p < length fn \<and> snd p < length (bb_instructions (fn ! fst p))"

definition shape :: "ir_block list \<Rightarrow> nat list" where
  "shape fn = map (\<lambda>b. length (bb_instructions b)) fn"

definition flat :: "ir_block list \<Rightarrow> instr_pos \<Rightarrow> nat" where
  "flat fn p = sum_list (take (fst p) (shape fn)) + snd p"

lemma shape_put [simp]: "shape (put_instr fn p I) = shape fn"
  by (cases "fst p < length fn") (simp_all add: shape_def put_instr_def map_update list_update_same_conv list_update_beyond)

lemma in_range_shape: "in_range fn p \<longleftrightarrow> fst p < length (shape fn) \<and> snd p < shape fn ! fst p"
  by (auto simp: in_range_def shape_def)

lemma in_range_put [simp]: "in_range (put_instr fn p I) q \<longleftrightarrow> in_range fn q"
  by (simp add: in_range_shape)

lemma flat_put [simp]: "flat (put_instr fn p I) q = flat fn q"
  by (simp add: flat_def)

lemma cg_split:
  assumes "fst p < length fn"
  shows "cg_instrs fn = cg_instrs (take (fst p) fn) @ bb_instructions (fn ! fst p) @ cg_instrs (drop (Suc (fst p)) fn)"
proof -
  have "cg_instrs fn = cg_instrs (take (fst p) fn @ fn ! fst p # drop (Suc (fst p)) fn)"
    using assms by (simp add: id_take_nth_drop [symmetric])
  then show ?thesis by (simp add: cg_instrs_def)
qed

lemma cg_length: "length (cg_instrs fn) = sum_list (shape fn)"
  by (simp add: cg_instrs_def shape_def length_concat comp_def)

lemma flat_take: "flat fn p = length (cg_instrs (take (fst p) fn)) + snd p"
  by (simp add: flat_def cg_length shape_def take_map)

lemma flat_less:
  assumes "in_range fn p" shows "flat fn p < length (cg_instrs fn)"
  using assms cg_split [of p fn] by (simp add: flat_take in_range_def)

lemma flat_nth:
  assumes "in_range fn p" shows "cg_instrs fn ! flat fn p = instr_at fn p"
  using assms cg_split [of p fn] by (simp add: flat_take in_range_def nth_append instr_at_def)

lemma cg_put:
  assumes "in_range fn p" shows "cg_instrs (put_instr fn p I) = (cg_instrs fn)[flat fn p := I]"
proof -
  have p: "fst p < length fn" "snd p < length (bb_instructions (fn ! fst p))" using assms by (simp_all add: in_range_def)
  have "cg_instrs (put_instr fn p I) =
      cg_instrs (take (fst p) fn) @ (bb_instructions (fn ! fst p))[snd p := I] @ cg_instrs (drop (Suc (fst p)) fn)"
    using cg_split [of p "put_instr fn p I"] p by (simp add: put_instr_def)
  then show ?thesis using cg_split [OF p(1)] p(2) by (simp add: flat_take list_update_append)
qed

lemma flat_mono:
  assumes "in_range fn p" "fst p < fst q" shows "flat fn p < flat fn q"
proof -
  have p: "fst p < length fn" "snd p < length (bb_instructions (fn ! fst p))" using assms(1) by (simp_all add: in_range_def)
  have "take (fst q) fn = take (Suc (fst p)) fn @ take (fst q - Suc (fst p)) (drop (Suc (fst p)) fn)"
    using assms(2) by (simp add: take_add [symmetric])
  then show ?thesis using p by (simp add: flat_take cg_instrs_def take_Suc_conv_app_nth)
qed

lemma flat_inj:
  assumes "in_range fn p" "in_range fn q" "flat fn p = flat fn q" shows "p = q"
proof -
  have "fst p = fst q" using flat_mono [OF assms(1)] flat_mono [OF assms(2)] assms(3) by (metis nat_neq_iff)
  then show ?thesis using assms(3) by (simp add: flat_take prod_eq_iff)
qed

lemma instr_at_put:
  assumes "in_range fn q"
  shows "instr_at (put_instr fn p I) q = (if p = q then I else instr_at fn q)"
  using assms by (cases "fst p = fst q") (auto simp: instr_at_def put_instr_def in_range_def nth_list_update prod_eq_iff)

lemma positions_range: "p \<in> set (positions fn) \<longleftrightarrow> in_range fn p"
  by (cases p) (fastforce simp: positions_def in_range_def in_set_enumerate_eq)

text \<open>The instruction before, with the instructions in between.\<close>

lemma irPrevNonNopD:
  assumes "irPrevNonNop Is i = Some j"
  shows "j < i" "i_op (Is ! j) \<noteq> IR_NOP" "\<forall>k. j < k \<longrightarrow> k < i \<longrightarrow> i_op (Is ! k) = IR_NOP"
proof -
  have "j < i \<and> i_op (Is ! j) \<noteq> IR_NOP \<and> (\<forall>k. j < k \<longrightarrow> k < i \<longrightarrow> i_op (Is ! k) = IR_NOP)"
    using assms by (induction i) (auto split: if_splits simp: less_Suc_eq)
  then show "j < i" "i_op (Is ! j) \<noteq> IR_NOP" "\<forall>k. j < k \<longrightarrow> k < i \<longrightarrow> i_op (Is ! k) = IR_NOP" by blast+
qed

lemma irFindMemConsumerD:
  assumes "irFindMemConsumer same Js dst = Some j"
  shows "j < length Js"
    and "i_op (Js ! j) = IR_LOAD_DEREF \<and> same (i_r1 (Js ! j)) dst \<or>
      i_op (Js ! j) \<in> {IR_STORE_DEREF, IR_RMW_DEREF} \<and> same (i_dst (Js ! j)) dst"
proof -
  have "j < length Js \<and> (i_op (Js ! j) = IR_LOAD_DEREF \<and> same (i_r1 (Js ! j)) dst \<or>
      i_op (Js ! j) \<in> {IR_STORE_DEREF, IR_RMW_DEREF} \<and> same (i_dst (Js ! j)) dst)"
    using assms by (induction Js arbitrary: j) (auto split: if_splits)
  then show "j < length Js" "i_op (Js ! j) = IR_LOAD_DEREF \<and> same (i_r1 (Js ! j)) dst \<or>
      i_op (Js ! j) \<in> {IR_STORE_DEREF, IR_RMW_DEREF} \<and> same (i_dst (Js ! j)) dst" by blast+
qed

section \<open>Termination\<close>

text \<open>Every change removes an instruction: the number of those that are left decreases.\<close>

lemma live_put:
  assumes "in_range fn p"
  shows "live_count (put_instr fn p I) + (if i_op (instr_at fn p) \<noteq> IR_NOP then 1 else 0) =
    live_count fn + (if i_op I \<noteq> IR_NOP then 1 else 0)"
  using length_filter_update [OF flat_less [OF assms], of "\<lambda>I. i_op I \<noteq> IR_NOP" I]
  by (simp add: live_count_def cg_put [OF assms] flat_nth [OF assms])

lemma make_nop_range [simp]: "in_range (make_nop fn p) q \<longleftrightarrow> in_range fn q" "shape (make_nop fn p) = shape fn"
  "flat (make_nop fn p) q = flat fn q"
  by (simp_all add: make_nop_def)

lemma live_make_nop: "live_count (make_nop fn p) \<le> live_count fn"
  "in_range fn p \<Longrightarrow> i_op (instr_at fn p) \<noteq> IR_NOP \<Longrightarrow> live_count (make_nop fn p) < live_count fn"
proof -
  have nop: "i_op (irMakeNop I) = IR_NOP" for I by (simp add: irMakeNop_def)
  show "live_count (make_nop fn p) < live_count fn" if "in_range fn p" "i_op (instr_at fn p) \<noteq> IR_NOP"
    using live_put [OF that(1), of "irMakeNop (instr_at fn p)"] that(2) nop by (simp add: make_nop_def)
  show "live_count (make_nop fn p) \<le> live_count fn"
  proof (cases "in_range fn p")
    case True
    then show ?thesis using live_put [OF True, of "irMakeNop (instr_at fn p)"] nop by (simp add: make_nop_def)
  next
    case False
    then have "make_nop fn p = fn"
      by (cases "fst p < length fn") (simp_all add: make_nop_def put_instr_def in_range_def list_update_beyond)
    then show ?thesis by simp
  qed
qed

text \<open>What a step of a pass does to the function: nothing, or it changes an instruction and removes the current one.\<close>

definition descends :: "(instr_pos \<Rightarrow> ir_block list \<times> bool \<Rightarrow> ir_block list \<times> bool) \<Rightarrow> bool" where
  "descends f \<longleftrightarrow> (\<forall>cur fn c fn' c'. in_range fn cur \<longrightarrow> f cur (fn, c) = (fn', c') \<longrightarrow>
     (fn', c') = (fn, c) \<or> c' \<and> live_count fn' < live_count fn \<and> shape fn' = shape fn)"

lemma descendsD:
  assumes "descends f" "in_range fn cur" "f cur (fn, c) = (fn', c')"
  shows "(fn', c') = (fn, c) \<or> c' \<and> live_count fn' < live_count fn \<and> shape fn' = shape fn"
  using assms unfolding descends_def by blast

lemma descends_fold:
  assumes "descends f" "\<forall>p \<in> set ps. in_range fn p" "fold f ps (fn, c) = (fn', c')"
  shows "shape fn' = shape fn \<and> live_count fn' \<le> live_count fn \<and> (c' \<longrightarrow> c \<or> live_count fn' < live_count fn) \<and>
    (\<not> c' \<longrightarrow> fn' = fn \<and> \<not> c)"
  using assms(2,3)
proof (induction ps arbitrary: fn c)
  case (Cons p ps)
  obtain fn1 c1 where one: "f p (fn, c) = (fn1, c1)" by fastforce
  have "(fn1, c1) = (fn, c) \<or> c1 \<and> live_count fn1 < live_count fn \<and> shape fn1 = shape fn"
    using descendsD [OF assms(1) _ one] Cons.prems(1) by simp
  moreover have "shape fn1 = shape fn \<Longrightarrow> \<forall>q \<in> set ps. in_range fn1 q" using Cons.prems(1) by (simp add: in_range_shape)
  ultimately show ?case using Cons.IH [of fn1 c1] Cons.prems(2) one by auto
qed simp

lemma retarget_op [simp]: "i_op (retarget J v) = i_op J"
  by (simp add: retarget_def)

lemma disp_fold_op: "disp_fold C I xs J = Some J' \<Longrightarrow> i_op J' = i_op J"
  by (auto simp: disp_fold_def split: option.splits if_splits)

lemma scaling_producerD:
  assumes "irFindScalingProducer fn tmp_defs v = Some (p, s)"
  shows "irIsTmp v" "tmp_defs (irVarId v) = Some p" "irIsConstInt (i_r2 (instr_at fn p))"
    and "i_op (instr_at fn p) = IR_SHL \<and> (\<exists>n \<le> 3. sint (const_of (i_r2 (instr_at fn p))) = int n \<and> s = push_bit n 1) \<or>
      i_op (instr_at fn p) = IR_IMUL \<and> sint (const_of (i_r2 (instr_at fn p))) \<in> {1, 2, 4, 8} \<and>
        s = word_of_int (sint (const_of (i_r2 (instr_at fn p))))"
proof -
  show v: "irIsTmp v" and p: "tmp_defs (irVarId v) = Some p"
    using assms by (auto simp: irFindScalingProducer_def Let_def split: option.splits if_splits)
  let ?I = "instr_at fn p"
  let ?k = "sint (const_of (i_r2 ?I))"
  have *: "(if \<not> irIsConstInt (i_r2 ?I) then None
      else if i_op ?I = IR_SHL then (if ?k < 0 \<or> 3 < ?k then None else Some (p, push_bit (nat ?k) 1))
      else if i_op ?I = IR_IMUL then (if ?k \<in> {1, 2, 4, 8} then Some (p, word_of_int ?k) else None) else None) = Some (p, s)"
    using assms v p by (simp add: irFindScalingProducer_def Let_def)
  then show "irIsConstInt (i_r2 ?I)" by (metis option.distinct(1))
  show "i_op ?I = IR_SHL \<and> (\<exists>n \<le> 3. ?k = int n \<and> s = push_bit n 1) \<or>
      i_op ?I = IR_IMUL \<and> ?k \<in> {1, 2, 4, 8} \<and> s = word_of_int ?k"
  proof (cases "i_op ?I = IR_SHL")
    case True
    then have "\<not> (?k < 0 \<or> 3 < ?k)" "s = push_bit (nat ?k) 1" using * by (metis option.distinct(1), metis option.inject option.distinct(1) prod.inject)
    then show ?thesis using True by (intro disjI1 conjI exI [of _ "nat ?k"]) auto
  qed (use * in \<open>metis option.distinct(1) option.inject prod.inject\<close>)
qed

lemma scale_operandD:
  assumes "scale_operand fn cnt tmp_defs scaled b = Some (p, s, base)"
  shows "base = b" "irFindScalingProducer fn tmp_defs scaled = Some (p, s)" "irTmpUseCount cnt scaled = 1"
  using assms by (auto simp: scale_operand_def split: option.splits if_splits)

lemma scale_foldE:
  assumes "scale_fold C fn cnt tmp_defs I xs J = Some (J', p)"
  obtains scaled base s where "i_op I = IR_IADD" "i_scale J = 0"
    "(scaled, base) = (i_r2 I, i_r1 I) \<or> (scaled, base) = (i_r1 I, i_r2 I)"
    "irFindScalingProducer fn tmp_defs scaled = Some (p, s)" "irTmpUseCount cnt scaled = 1"
    "J' = (retarget J base)\<lparr>i_idx := i_r1 (instr_at fn p), i_scale := s\<rparr>"
proof -
  obtain s base where x: "(case scale_operand fn cnt tmp_defs (i_r2 I) (i_r1 I) of Some x \<Rightarrow> Some x
      | None \<Rightarrow> scale_operand fn cnt tmp_defs (i_r1 I) (i_r2 I)) = Some (p, s, base)"
    and J': "J' = (retarget J base)\<lparr>i_idx := i_r1 (instr_at fn p), i_scale := s\<rparr>"
    and ops: "i_op I = IR_IADD" "i_scale J = 0"
    using assms by (auto simp: scale_fold_def split: option.splits if_splits prod.splits)
  have "scale_operand fn cnt tmp_defs (i_r2 I) (i_r1 I) = Some (p, s, base) \<or> scale_operand fn cnt tmp_defs (i_r1 I) (i_r2 I) = Some (p, s, base)"
    using x by (auto split: option.splits)
  then obtain scaled where sc: "scale_operand fn cnt tmp_defs scaled base = Some (p, s, base)"
    "(scaled, base) = (i_r2 I, i_r1 I) \<or> (scaled, base) = (i_r1 I, i_r2 I)"
    using scale_operandD(1) by (metis (no_types))
  show ?thesis by (rule that [OF ops sc(2) scale_operandD(2,3) [OF sc(1)] J'])
qed

lemma scale_foldD:
  assumes "scale_fold C fn cnt tmp_defs I xs J = Some (J', p)"
  shows "i_op J' = i_op J" "i_op (instr_at fn p) \<in> {IR_SHL, IR_IMUL}"
  using assms by (elim scale_foldE; auto dest: scaling_producerD(4))+

text \<open>The consumer of an addition.\<close>

lemma consumer:
  assumes "in_range fn cur" "irFindMemConsumer same (drop (Suc (snd cur)) (bb_instructions (fn ! fst cur))) dst = Some j"
  shows "in_range fn (fst cur, Suc (snd cur + j))"
    and "drop (Suc (snd cur)) (bb_instructions (fn ! fst cur)) ! j = instr_at fn (fst cur, Suc (snd cur + j))"
    and "i_op (instr_at fn (fst cur, Suc (snd cur + j))) \<in> {IR_LOAD_DEREF, IR_STORE_DEREF, IR_RMW_DEREF}"
proof -
  let ?Is = "bb_instructions (fn ! fst cur)"
  have j: "j < length (drop (Suc (snd cur)) ?Is)" by (rule irFindMemConsumerD(1) [OF assms(2)])
  then show r: "in_range fn (fst cur, Suc (snd cur + j))" using assms(1) by (simp add: in_range_def)
  show eq: "drop (Suc (snd cur)) ?Is ! j = instr_at fn (fst cur, Suc (snd cur + j))" using j by (simp add: instr_at_def)
  show "i_op (instr_at fn (fst cur, Suc (snd cur + j))) \<in> {IR_LOAD_DEREF, IR_STORE_DEREF, IR_RMW_DEREF}"
    using irFindMemConsumerD(2) [OF assms(2)] unfolding eq by auto
qed

text \<open>A step of the first pass, unfolded.\<close>

lemma fuse_iaddE:
  assumes "in_range fn cur" "fuse_iadd C same cnt tmp_defs cur (fn, c) = (fn', c')"
  obtains "fn' = fn" "c' = c"
  | j J' user where "c'" "fn' = make_nop (put_instr fn user J') cur"
      "i_op (instr_at fn cur) \<in> {IR_IADD, IR_ISUB}" "irIsTmp (i_dst (instr_at fn cur))"
      "irTmpUseCount cnt (i_dst (instr_at fn cur)) = 1" "i_r1 (instr_at fn cur) \<noteq> None" "i_r2 (instr_at fn cur) \<noteq> None"
      "irFindMemConsumer same (drop (Suc (snd cur)) (bb_instructions (fn ! fst cur))) (i_dst (instr_at fn cur)) = Some j"
      "user = (fst cur, Suc (snd cur + j))" "in_range fn user"
      "disp_fold C (instr_at fn cur) (take j (drop (Suc (snd cur)) (bb_instructions (fn ! fst cur)))) (instr_at fn user) = Some J'"
  | j J' user p where "c'" "fn' = make_nop (make_nop (put_instr fn user J') p) cur"
      "i_op (instr_at fn cur) \<in> {IR_IADD, IR_ISUB}" "irIsTmp (i_dst (instr_at fn cur))"
      "irTmpUseCount cnt (i_dst (instr_at fn cur)) = 1" "i_r1 (instr_at fn cur) \<noteq> None" "i_r2 (instr_at fn cur) \<noteq> None"
      "irFindMemConsumer same (drop (Suc (snd cur)) (bb_instructions (fn ! fst cur))) (i_dst (instr_at fn cur)) = Some j"
      "user = (fst cur, Suc (snd cur + j))" "in_range fn user"
      "scale_fold C fn cnt tmp_defs (instr_at fn cur) (take j (drop (Suc (snd cur)) (bb_instructions (fn ! fst cur)))) (instr_at fn user) = Some (J', p)"
proof -
  let ?I = "instr_at fn cur" and ?rest = "drop (Suc (snd cur)) (bb_instructions (fn ! fst cur))"
  show thesis
  proof (cases "i_op ?I \<notin> {IR_IADD, IR_ISUB} \<or> \<not> irIsTmp (i_dst ?I) \<or> i_r1 ?I = None \<or> i_r2 ?I = None \<or>
      tmp_size (i_dst ?I) \<noteq> 8 \<or> irTmpUseCount cnt (i_dst ?I) \<noteq> 1 \<or> irFindMemConsumer same ?rest (i_dst ?I) = None")
    case True
    then have "fuse_iadd C same cnt tmp_defs cur (fn, c) = (fn, c)" by (auto simp: fuse_iadd_def Let_def)
    then show ?thesis using that(1) assms(2) by simp
  next
    case False
    then obtain j where j: "irFindMemConsumer same ?rest (i_dst ?I) = Some j" by blast
    note con = consumer [OF assms(1) j]
    show ?thesis
      using False j con(1) assms(2) that
      by (auto simp: fuse_iadd_def Let_def con(2) split: option.splits)
  qed
qed

lemma fuse_iadd_descends: "descends (fuse_iadd C same cnt tmp_defs)"
  unfolding descends_def
proof (intro allI impI)
  fix cur fn c fn' c'
  assume cur: "in_range fn cur" and step: "fuse_iadd C same cnt tmp_defs cur (fn, c) = (fn', c')"
  from cur step show "(fn', c') = (fn, c) \<or> c' \<and> live_count fn' < live_count fn \<and> shape fn' = shape fn"
  proof (cases rule: fuse_iaddE)
    case (2 j J' user)
    have "live_count (put_instr fn user J') = live_count fn"
      using live_put [OF 2(10), of J'] disp_fold_op [OF 2(11)] by simp
    moreover have "instr_at (put_instr fn user J') cur = instr_at fn cur"
      using cur 2(9) by (cases cur) (auto simp: instr_at_put)
    ultimately show ?thesis using live_make_nop(2) [of "put_instr fn user J'" cur] cur 2(1-3) by auto
  next
    case (3 j J' user p)
    let ?fn1 = "put_instr fn user J'"
    have "live_count ?fn1 = live_count fn" using live_put [OF 3(10), of J'] scale_foldD(1) [OF 3(11)] by simp
    moreover have "cur \<noteq> p" using scale_foldD(2) [OF 3(11)] 3(3) by auto
    moreover have "cur \<noteq> user" using 3(9) by (cases cur) auto
    ultimately have "instr_at (make_nop ?fn1 p) cur = instr_at fn cur" "live_count (make_nop ?fn1 p) \<le> live_count fn"
      using cur live_make_nop(1) [of ?fn1 p] by (simp_all add: make_nop_def instr_at_put)
    then show ?thesis using live_make_nop(2) [of "make_nop ?fn1 p" cur] cur 3(1-3) by auto
  qed simp
qed

text \<open>And of the second.\<close>

lemma fuse_rmwE:
  assumes "fuse_rmw same cnt tmp_defs cur (fn, c) = (fn', c')"
  obtains "fn' = fn" "c' = c"
  | pb pl nb nl val where "c'"
      "fn' = make_nop (make_nop (put_instr fn cur ((instr_at fn cur)\<lparr>i_op := IR_RMW_DEREF,
         i_extra := Ex_rmw_op (i_op (instr_at fn pb)), i_r1 := val\<rparr>)) pl) pb"
      "i_op (instr_at fn cur) = IR_STORE_DEREF" "irIsTmp (i_r1 (instr_at fn cur))"
      "irTmpUseCount cnt (i_r1 (instr_at fn cur)) = 1" "tmp_defs (irVarId (i_r1 (instr_at fn cur))) = Some pb"
      "irRmwOpSupported (i_op (instr_at fn pb))" "i_r1 (instr_at fn pb) \<noteq> None" "i_r2 (instr_at fn pb) \<noteq> None"
      "rmw_operands same cnt tmp_defs fn (instr_at fn cur) (instr_at fn pb) = Some (pl, val)"
      "pb = (fst cur, nb)" "pl = (fst cur, nl)"
      "irPrevNonNop (bb_instructions (fn ! fst cur)) (snd cur) = Some nb"
      "irPrevNonNop (bb_instructions (fn ! fst cur)) nb = Some nl"
proof (cases "fn' = fn \<and> c' = c")
  case False
  let ?S = "instr_at fn cur"
  have S: "i_op ?S = IR_STORE_DEREF" "irIsTmp (i_r1 ?S)" "irTmpUseCount cnt (i_r1 ?S) = 1"
    using assms False by (auto simp: fuse_rmw_def Let_def split: if_splits)
  obtain pb where pb: "tmp_defs (irVarId (i_r1 ?S)) = Some pb" using assms False S
    by (auto simp: fuse_rmw_def Let_def split: option.splits)
  have B: "irRmwOpSupported (i_op (instr_at fn pb))" "i_r1 (instr_at fn pb) \<noteq> None" "i_r2 (instr_at fn pb) \<noteq> None"
    using assms False S pb by (auto simp: fuse_rmw_def Let_def split: if_splits)
  obtain pl val where L: "rmw_operands same cnt tmp_defs fn ?S (instr_at fn pb) = Some (pl, val)"
    using assms False S pb B by (auto simp: fuse_rmw_def Let_def split: option.splits if_splits)
  let ?Is = "bb_instructions (fn ! fst cur)"
  have step: "(case irPrevNonNop ?Is (snd cur) of None \<Rightarrow> (fn, c)
      | Some nb \<Rightarrow> if (fst cur, nb) \<noteq> pb then (fn, c)
          else case irPrevNonNop ?Is nb of None \<Rightarrow> (fn, c)
          | Some nl \<Rightarrow> if (fst cur, nl) \<noteq> pl then (fn, c)
              else (make_nop (make_nop (put_instr fn cur
                (?S\<lparr>i_op := IR_RMW_DEREF, i_extra := Ex_rmw_op (i_op (instr_at fn pb)), i_r1 := val\<rparr>)) pl) pb, True)) = (fn', c')"
    using assms S pb B L by (simp add: fuse_rmw_def Let_def)
  obtain nb where nb: "irPrevNonNop ?Is (snd cur) = Some nb" "pb = (fst cur, nb)"
    using step False by (auto split: option.splits if_splits)
  obtain nl where nl: "irPrevNonNop ?Is nb = Some nl" "pl = (fst cur, nl)"
    using step False nb by (auto split: option.splits if_splits)
  have "c' \<and> fn' = make_nop (make_nop (put_instr fn cur
      (?S\<lparr>i_op := IR_RMW_DEREF, i_extra := Ex_rmw_op (i_op (instr_at fn pb)), i_r1 := val\<rparr>)) pl) pb"
    using step nb nl by auto
  then show ?thesis using that(2) S pb B L nb nl by blast
qed (use that(1) in blast)

lemma fuse_rmw_descends: "descends (fuse_rmw same cnt tmp_defs)"
  unfolding descends_def
proof (intro allI impI)
  fix cur fn c fn' c'
  assume cur: "in_range fn cur" and step: "fuse_rmw same cnt tmp_defs cur (fn, c) = (fn', c')"
  from step show "(fn', c') = (fn, c) \<or> c' \<and> live_count fn' < live_count fn \<and> shape fn' = shape fn"
  proof (cases rule: fuse_rmwE)
    case (2 pb pl nb nl val)
    let ?fn1 = "put_instr fn cur ((instr_at fn cur)\<lparr>i_op := IR_RMW_DEREF, i_extra := Ex_rmw_op (i_op (instr_at fn pb)), i_r1 := val\<rparr>)"
    have lt: "nb < snd cur" "nl < nb" using irPrevNonNopD(1) [OF 2(13)] irPrevNonNopD(1) [OF 2(14)] by simp_all
    then have "cur \<noteq> pb" "cur \<noteq> pl" "pl \<noteq> pb" using 2(11,12) by (auto simp: prod_eq_iff)
    moreover have r: "in_range fn pb" "in_range fn pl" using cur lt 2(11,12) by (auto simp: in_range_def)
    ultimately have "instr_at (make_nop ?fn1 pl) pb = instr_at fn pb" by (simp add: make_nop_def instr_at_put)
    moreover have "i_op (instr_at fn pb) \<noteq> IR_NOP" using 2(7) by (auto simp: irRmwOpSupported_def)
    moreover have "live_count ?fn1 = live_count fn" using live_put [OF cur, of "(instr_at fn cur)\<lparr>i_op := IR_RMW_DEREF,
        i_extra := Ex_rmw_op (i_op (instr_at fn pb)), i_r1 := val\<rparr>"] 2(3) by simp
    ultimately show ?thesis using live_make_nop(1) [of ?fn1 pl] live_make_nop(2) [of "make_nop ?fn1 pl" pb] r(1) 2(1,2) by simp
  qed simp
qed

text \<open>The loop of \<^verbatim>\<open>irBasicFunctionOptimisations\<close> over the two passes.\<close>

definition fuse_round ::
  "opt_ctx \<Rightarrow> (ir_value option \<Rightarrow> ir_value option \<Rightarrow> bool) \<Rightarrow> ir_block list \<Rightarrow> ir_block list \<times> bool" where
  "fuse_round C same fn =
     (let (fn, changed) = irFuseIaddIntoMemAddressing C same fn; (fn, changed') = irFuseLoadOpStore same fn
      in (fn, changed \<or> changed'))"

lemma fuse_pass_descends:
  assumes "descends f" "fold f (positions fn) (fn, False) = (fn', c)"
  shows "shape fn' = shape fn" "live_count fn' \<le> live_count fn" "c \<Longrightarrow> live_count fn' < live_count fn" "\<not> c \<Longrightarrow> fn' = fn"
  using descends_fold [OF assms(1) _ assms(2)] by (simp_all add: positions_range)

lemma fuse_round_descends:
  assumes "fuse_round C same fn = (fn', c)"
  shows "shape fn' = shape fn" "c \<Longrightarrow> live_count fn' < live_count fn" "\<not> c \<Longrightarrow> fn' = fn"
proof -
  obtain fn1 c1 fn2 c2 where p: "irFuseIaddIntoMemAddressing C same fn = (fn1, c1)" "irFuseLoadOpStore same fn1 = (fn2, c2)"
    by (meson surj_pair)
  note a = fuse_pass_descends [OF fuse_iadd_descends p(1) [unfolded irFuseIaddIntoMemAddressing_def Let_def]]
  note b = fuse_pass_descends [OF fuse_rmw_descends p(2) [unfolded irFuseLoadOpStore_def Let_def]]
  have "fn' = fn2" "c = (c1 \<or> c2)" using assms p by (simp_all add: fuse_round_def)
  then show "shape fn' = shape fn" "c \<Longrightarrow> live_count fn' < live_count fn" "\<not> c \<Longrightarrow> fn' = fn" using a b by auto
qed

function fuse_loop ::
  "opt_ctx \<Rightarrow> (ir_value option \<Rightarrow> ir_value option \<Rightarrow> bool) \<Rightarrow> ir_block list \<Rightarrow> ir_block list" where
  "fuse_loop C same fn = (let (fn', changed) = fuse_round C same fn in if changed then fuse_loop C same fn' else fn')"
  by pat_completeness auto
termination
  by (relation "measure (\<lambda>(C, same, fn). live_count fn)") (use fuse_round_descends(2) in \<open>auto simp: eq_commute\<close>)

declare fuse_loop.simps [simp del]

end
