(* ===== verification/IrFuse_Props.thy ===== *)
theory IrFuse_Props
  imports IrFuse IrDeadCode
begin

text \<open>
  What the fusion of memory accesses keeps, and where it goes wrong. The execution here knows the bytes of the
  memory and the width of every access, as the back ends generate it: a load has the size of its destination, a store
  and a read-modify-write that of the value \<^verbatim>\<open>r1\<close> (\<^verbatim>\<open>x86_64.c\<close>, \<^verbatim>\<open>aarch64.c\<close>).
\<close>

section \<open>The loop\<close>

text \<open>
  C15. The loop over the two fusion passes ends at a fixed point: it returns, neither pass finds anything
  more to fuse in the result, every block keeps its number of instructions, and no instruction is added.
\<close>

theorem fuse_loop_fixed_point:
  "irFuseIaddIntoMemAddressing C same (fuse_loop C same fn) = (fuse_loop C same fn, False) \<and>
    irFuseLoadOpStore same (fuse_loop C same fn) = (fuse_loop C same fn, False) \<and>
    map (\<lambda>b. length (bb_instructions b)) (fuse_loop C same fn) = map (\<lambda>b. length (bb_instructions b)) fn \<and>
    live_count (fuse_loop C same fn) \<le> live_count fn"
proof (induction C same fn rule: fuse_loop.induct)
  case (1 C same fn)
  obtain fn' c where r: "fuse_round C same fn = (fn', c)" by fastforce
  show ?case
  proof (cases c)
    case True
    then have "fuse_loop C same fn = fuse_loop C same fn'" using r by (simp add: fuse_loop.simps [of C same fn])
    moreover note IH = 1 [OF refl r [symmetric] True]
    ultimately show ?thesis using fuse_round_descends(1,2) [OF r] True less_imp_le le_trans by (auto simp: shape_def)
  next
    case False
    then have fix_fn: "fuse_loop C same fn = fn" using r fuse_round_descends(3) [OF r] by (simp add: fuse_loop.simps [of C same fn])
    obtain fn1 c1 fn2 c2 where p: "irFuseIaddIntoMemAddressing C same fn = (fn1, c1)" "irFuseLoadOpStore same fn1 = (fn2, c2)"
      by (meson surj_pair)
    have "\<not> c1" "\<not> c2" using r False p by (simp_all add: fuse_round_def)
    moreover have "fn1 = fn"
      using fuse_pass_descends(4) [OF fuse_iadd_descends p(1) [unfolded irFuseIaddIntoMemAddressing_def Let_def]] \<open>\<not> c1\<close> by simp
    moreover have "fn2 = fn1"
      using fuse_pass_descends(4) [OF fuse_rmw_descends p(2) [unfolded irFuseLoadOpStore_def Let_def]] \<open>\<not> c2\<close> by simp
    ultimately show ?thesis using p fix_fn by simp
  qed
qed

section \<open>Execution with bytes and widths\<close>

record fstate =
  fs_tmps :: "u32 \<Rightarrow> u64"
  fs_vars :: "ir_value \<Rightarrow> u64"
  fs_bytes :: "u64 \<Rightarrow> u8"

text \<open>
  What is left open: which accesses are allowed, how a loaded value is extended to its register, and every
  instruction that is neither arithmetic nor an access.
\<close>

record fmachine =
  fm_mapped :: "u64 \<Rightarrow> nat \<Rightarrow> bool"
  fm_extend :: "ir_value \<Rightarrow> u64 \<Rightarrow> u64"
  fm_other :: "ir_instr \<Rightarrow> fstate \<Rightarrow> fstate result"

fun load_bytes :: "nat \<Rightarrow> (u64 \<Rightarrow> u8) \<Rightarrow> u64 \<Rightarrow> u64" where
  "load_bytes 0 m a = 0"
| "load_bytes (Suc n) m a = ucast (m a) + push_bit 8 (load_bytes n m (a + 1))"

fun store_bytes :: "nat \<Rightarrow> (u64 \<Rightarrow> u8) \<Rightarrow> u64 \<Rightarrow> u64 \<Rightarrow> (u64 \<Rightarrow> u8)" where
  "store_bytes 0 m a w = m"
| "store_bytes (Suc n) m a w = store_bytes n (m(a := ucast w)) (a + 1) (drop_bit 8 w)"

definition arith :: "ir_op \<Rightarrow> u64 \<Rightarrow> u64 \<Rightarrow> u64" where
  "arith op x y =
     (case op of IR_IADD \<Rightarrow> x + y | IR_ISUB \<Rightarrow> x - y | IR_AND \<Rightarrow> x AND y | IR_OR \<Rightarrow> x OR y | IR_XOR \<Rightarrow> x XOR y
      | IR_IMUL \<Rightarrow> x * y | IR_SHL \<Rightarrow> push_bit (unat (y AND 63)) x | _ \<Rightarrow> 0)"

definition is_arith :: "ir_op \<Rightarrow> bool" where
  "is_arith op \<longleftrightarrow> op \<in> {IR_IADD, IR_ISUB, IR_AND, IR_OR, IR_XOR, IR_IMUL, IR_SHL}"

definition value_of :: "fstate \<Rightarrow> ir_value \<Rightarrow> u64" where
  "value_of st v =
     (if val_kind v = IR_VAL_TMP then fs_tmps st (irVarId (Some v))
      else if val_kind v = IR_VAL_CONST_INT then const_of (Some v) else fs_vars st v)"

definition assign :: "fstate \<Rightarrow> ir_value \<Rightarrow> u64 \<Rightarrow> fstate" where
  "assign st d w =
     (if val_kind d = IR_VAL_TMP then st\<lparr>fs_tmps := (fs_tmps st)(irVarId (Some d) := w)\<rparr>
      else st\<lparr>fs_vars := (fs_vars st)(d := w)\<rparr>)"

definition address :: "fstate \<Rightarrow> ir_value \<Rightarrow> ir_instr \<Rightarrow> u64" where
  "address st base I =
     value_of st base + scast (i_disp I) + (case i_idx I of None \<Rightarrow> 0 | Some x \<Rightarrow> ucast (i_scale I) * value_of st x)"

definition access_size :: "ir_value \<Rightarrow> nat" where
  "access_size v = unat (irValueByteSize (Some v))"

definition load_at :: "fmachine \<Rightarrow> fstate \<Rightarrow> nat \<Rightarrow> u64 \<Rightarrow> u64 result" where
  "load_at F st n a = (if fm_mapped F a n then Inr (load_bytes n (fs_bytes st) a) else Inl OutOfBounds)"

definition store_at :: "fmachine \<Rightarrow> fstate \<Rightarrow> nat \<Rightarrow> u64 \<Rightarrow> u64 \<Rightarrow> fstate result" where
  "store_at F st n a w =
     (if fm_mapped F a n then Inr (st\<lparr>fs_bytes := store_bytes n (fs_bytes st) a w\<rparr>) else Inl OutOfBounds)"

definition step :: "fmachine \<Rightarrow> ir_instr \<Rightarrow> fstate \<Rightarrow> fstate result" where
  "step F I st =
     (if i_op I = IR_NOP then Inr st
      else if is_arith (i_op I) then
        (case (i_r1 I, i_r2 I, i_dst I) of
           (Some a, Some b, Some d) \<Rightarrow> Inr (assign st d (arith (i_op I) (value_of st a) (value_of st b)))
         | _ \<Rightarrow> Inl NullDeref)
      else if i_op I = IR_STORE then
        (case (i_r1 I, i_dst I) of (Some v, Some d) \<Rightarrow> Inr (assign st d (value_of st v)) | _ \<Rightarrow> Inl NullDeref)
      else if i_op I = IR_LOAD_DEREF then
        (case (i_r1 I, i_dst I) of
           (Some p, Some d) \<Rightarrow> rbind (load_at F st (access_size d) (address st p I)) (\<lambda>w. Inr (assign st d (fm_extend F d w)))
         | _ \<Rightarrow> Inl NullDeref)
      else if i_op I = IR_STORE_DEREF then
        (case (i_r1 I, i_dst I) of
           (Some v, Some p) \<Rightarrow> store_at F st (access_size v) (address st p I) (value_of st v)
         | _ \<Rightarrow> Inl NullDeref)
      else if i_op I = IR_RMW_DEREF then
        (case (i_r1 I, i_dst I, i_extra I) of
           (Some v, Some p, Ex_rmw_op op) \<Rightarrow>
             rbind (load_at F st (access_size v) (address st p I)) (\<lambda>w.
               store_at F st (access_size v) (address st p I) (arith op w (value_of st v)))
         | _ \<Rightarrow> Inl NullDeref)
      else fm_other F I st)"

fun steps :: "fmachine \<Rightarrow> ir_instr list \<Rightarrow> fstate \<Rightarrow> fstate result" where
  "steps F [] st = Inr st"
| "steps F (I # Is) st = rbind (step F I st) (steps F Is)"

lemma steps_app: "steps F (xs @ ys) st = rbind (steps F xs st) (steps F ys)"
  by (induction xs arbitrary: st) (auto simp: rbind_def split: sum.split)

lemma steps_nops: "\<forall>I \<in> set ns. i_op I = IR_NOP \<Longrightarrow> steps F ns st = Inr st"
  by (induction ns) (simp_all add: step_def)

section \<open>Temporaries nobody reads\<close>

definition agree_off :: "u32 set \<Rightarrow> fstate \<Rightarrow> fstate \<Rightarrow> bool" where
  "agree_off T s s' \<longleftrightarrow> (\<forall>t. t \<notin> T \<longrightarrow> fs_tmps s t = fs_tmps s' t) \<and> fs_vars s = fs_vars s' \<and> fs_bytes s = fs_bytes s'"

text \<open>The instructions left open read no temporary but those the use counts count.\<close>

definition reads_counted :: "fmachine \<Rightarrow> bool" where
  "reads_counted F \<longleftrightarrow> (\<forall>I s s' T. i_op I \<noteq> IR_NOP \<longrightarrow> T \<inter> counted I = {} \<longrightarrow> agree_off T s s' \<longrightarrow>
     rel_result (agree_off T) (fm_other F I s) (fm_other F I s'))"

lemma value_agree: "agree_off T s s' \<Longrightarrow> T \<inter> tmp_ids (Some v) = {} \<Longrightarrow> value_of s v = value_of s' v"
  by (auto simp: agree_off_def value_of_def tmp_ids_def)

lemma assign_agree: "agree_off T s s' \<Longrightarrow> agree_off T (assign s d w) (assign s' d w)"
  by (auto simp: agree_off_def assign_def)

lemma address_agree:
  "agree_off T s s' \<Longrightarrow> T \<inter> tmp_ids (Some p) = {} \<Longrightarrow> T \<inter> tmp_ids (i_idx I) = {} \<Longrightarrow> address s p I = address s' p I"
  using value_agree [of T s s'] by (auto simp: address_def split: option.split)

lemma load_agree: "agree_off T s s' \<Longrightarrow> load_at F s n a = load_at F s' n a"
  by (simp add: load_at_def agree_off_def)

lemma store_agree: "agree_off T s s' \<Longrightarrow> rel_result (agree_off T) (store_at F s n a w) (store_at F s' n a w)"
  by (simp add: store_at_def agree_off_def)

lemma counted_ops:
  assumes "T \<inter> counted I = {}" "i_op I \<noteq> IR_NOP"
  shows "T \<inter> tmp_ids (i_r1 I) = {}" "T \<inter> tmp_ids (i_r2 I) = {}" "T \<inter> tmp_ids (i_idx I) = {}"
    and "i_op I \<in> {IR_STORE_DEREF, IR_RMW_DEREF} \<Longrightarrow> T \<inter> tmp_ids (i_dst I) = {}"
  using assms by (auto simp: counted_def counted_vals_def)

lemma step_agree:
  assumes F: "reads_counted F" and s: "agree_off T s s'" and T: "T \<inter> counted I = {}"
  shows "rel_result (agree_off T) (step F I s) (step F I s')"
proof (cases "i_op I = IR_NOP")
  case False
  note c = counted_ops [OF T False]
  have v: "value_of s x = value_of s' x" if "i_r1 I = Some x \<or> i_r2 I = Some x" for x
    using value_agree [OF s, of x] c(1,2) that by auto
  have a: "address s x I = address s' x I"
    if "i_r1 I = Some x \<or> i_op I \<in> {IR_STORE_DEREF, IR_RMW_DEREF} \<and> i_dst I = Some x" for x
    using address_agree [OF s _ c(3), of x] c(1,4) that by auto
  note agree = assign_agree [OF s] load_agree [OF s] store_agree [OF s]
  consider "is_arith (i_op I)" | "i_op I = IR_STORE" | "i_op I = IR_LOAD_DEREF" | "i_op I = IR_STORE_DEREF" | "i_op I = IR_RMW_DEREF"
    | "\<not> is_arith (i_op I)" "i_op I \<notin> {IR_STORE, IR_LOAD_DEREF, IR_STORE_DEREF, IR_RMW_DEREF}" by blast
  then show ?thesis
  proof cases
    case 1
    then show ?thesis using False v agree by (auto simp: step_def split: option.split)
  next
    case 2
    then show ?thesis using v agree by (auto simp: step_def is_arith_def split: option.split)
  next
    case 3
    then show ?thesis using a agree
      by (cases "i_r1 I"; cases "i_dst I") (auto simp: step_def is_arith_def rbind_def split: sum.split)
  next
    case 4
    then show ?thesis using v a agree by (cases "i_r1 I"; cases "i_dst I") (simp_all add: step_def is_arith_def)
  next
    case 5
    then show ?thesis using v a agree
      by (cases "i_r1 I"; cases "i_dst I"; cases "i_extra I") (auto simp: step_def is_arith_def rbind_def split: sum.split)
  next
    case 6
    then show ?thesis using F False T s by (simp add: step_def reads_counted_def)
  qed
qed (use s in \<open>simp add: step_def\<close>)

lemma steps_agree:
  assumes "reads_counted F" "agree_off T s s'" "T \<inter> counted_all Is = {}"
  shows "rel_result (agree_off T) (steps F Is s) (steps F Is s')"
  using assms(2,3)
proof (induction Is arbitrary: s s')
  case (Cons I Is)
  have T: "T \<inter> counted I = {}" "T \<inter> counted_all Is = {}" using Cons.prems(2) by (auto simp: counted_all_def)
  show ?case unfolding steps.simps
    by (rule rel_result_bind [OF step_agree [OF assms(1) Cons.prems(1) T(1)]]) (rule Cons.IH [OF _ T(2)])
qed simp

section \<open>Exact use counts\<close>

definition use_occ :: "ir_instr \<Rightarrow> u32 \<Rightarrow> nat" where
  "use_occ I t = (if i_op I = IR_NOP then 0 else length (filter (\<lambda>v. irIsTmp v \<and> irVarId v = t) (counted_vals I)))"

definition occ_all :: "ir_instr list \<Rightarrow> u32 \<Rightarrow> nat" where
  "occ_all Is t = sum_list (map (\<lambda>I. use_occ I t) Is)"

definition counts_exactly :: "(u32 \<rightharpoonup> int) \<Rightarrow> (u32 \<Rightarrow> nat) \<Rightarrow> bool" where
  "counts_exactly cnt f \<longleftrightarrow> (\<forall>t. (case cnt t of Some n \<Rightarrow> n | None \<Rightarrow> 0) = int (f t))"

lemma exact_bump: "counts_exactly cnt f \<Longrightarrow> counts_exactly (irBumpUse cnt v) (\<lambda>t. f t + (if irIsTmp v \<and> irVarId v = t then 1 else 0))"
  by (auto simp: counts_exactly_def irBumpUse_def Let_def)

lemma exact_fold:
  "counts_exactly cnt f \<Longrightarrow> counts_exactly (fold (\<lambda>v cnt. irBumpUse cnt v) vs cnt)
     (\<lambda>t. f t + length (filter (\<lambda>v. irIsTmp v \<and> irVarId v = t) vs))"
proof (induction vs arbitrary: cnt f)
  case (Cons v vs)
  have eq: "(\<lambda>t. f t + (if irIsTmp v \<and> irVarId v = t then 1 else 0) + length (filter (\<lambda>v. irIsTmp v \<and> irVarId v = t) vs)) =
      (\<lambda>t. f t + length (filter (\<lambda>v. irIsTmp v \<and> irVarId v = t) (v # vs)))" by (auto simp: fun_eq_iff)
  show ?case using Cons.IH [OF exact_bump [OF Cons.prems, of v]] unfolding eq by simp
qed simp

lemma exact_instrs:
  "counts_exactly cnt f \<Longrightarrow> counts_exactly
     (fold (\<lambda>I cnt. if i_op I = IR_NOP then cnt else fold (\<lambda>v cnt. irBumpUse cnt v) (counted_vals I) cnt) Is cnt)
     (\<lambda>t. f t + occ_all Is t)"
proof (induction Is arbitrary: cnt f)
  case (Cons I Is)
  have "counts_exactly (if i_op I = IR_NOP then cnt else fold (\<lambda>v cnt. irBumpUse cnt v) (counted_vals I) cnt) (\<lambda>t. f t + use_occ I t)"
    using exact_fold [OF Cons.prems] Cons.prems by (simp add: use_occ_def)
  from Cons.IH [OF this] show ?case by (simp add: occ_all_def add.assoc)
qed (simp add: occ_all_def)

lemma use_count_exact:
  assumes "irIsTmp v"
  shows "irTmpUseCount (irBuildTmpUseCounts fn) v = int (occ_all (cg_instrs fn) (irVarId v))"
proof -
  have "counts_exactly (\<lambda>_. None) (\<lambda>_. 0)" by (simp add: counts_exactly_def)
  from exact_instrs [OF this, of "cg_instrs fn"] show ?thesis
    using assms by (simp add: irBuildTmpUseCounts_def irTmpUseCount_def counts_exactly_def)
qed

lemma occ_counted: "occ_all Is t = 0 \<longleftrightarrow> t \<notin> counted_all Is" "use_occ I t = 0 \<longleftrightarrow> t \<notin> counted I"
proof -
  show use: "use_occ I t = 0 \<longleftrightarrow> t \<notin> counted I" for I
    by (auto simp: use_occ_def counted_def tmp_ids_def filter_empty_conv)
  show "occ_all Is t = 0 \<longleftrightarrow> t \<notin> counted_all Is" by (auto simp: occ_all_def counted_all_def use)
qed

lemma occ_simps [simp]: "occ_all [] t = 0" "occ_all (I # Is) t = use_occ I t + occ_all Is t"
  "occ_all (xs @ ys) t = occ_all xs t + occ_all ys t" "use_occ (irMakeNop I) t = 0"
  by (simp_all add: occ_all_def use_occ_def irMakeNop_def)

end
