(* ===== verification/IrFuse_Rmw.thy ===== *)
theory IrFuse_Rmw
  imports IrFuse_Props
begin

text \<open>
  The fusion of a load, an operation and a store: it keeps the program when the operands have the width of the result,
  and only then, because the fused instruction takes its width from the other operand.
\<close>

section \<open>The bits that are stored\<close>

lemma take_bits: "take_bit k (x :: u64) = take_bit k y \<longleftrightarrow> (\<forall>i < k. bit x i = bit y i)"
proof
  assume "take_bit k x = take_bit k y"
  then have "\<forall>i. bit (take_bit k x) i = bit (take_bit k y) i" by simp
  then show "\<forall>i < k. bit x i = bit y i" unfolding bit_take_bit_iff by blast
next
  assume "\<forall>i < k. bit x i = bit y i"
  then show "take_bit k x = take_bit k y" by (intro bit_eqI) (auto simp: bit_take_bit_iff)
qed

lemma store_low: "take_bit (8 * n) w = take_bit (8 * n) w' \<Longrightarrow> store_bytes n m a w = store_bytes n m a w'"
proof (induction n arbitrary: m a w w')
  case (Suc n)
  have low: "\<forall>i < 8 * Suc n. bit w i = bit w' i" using Suc.prems unfolding take_bits .
  then have "(ucast w :: u8) = ucast w'" by (intro bit_word_eqI) (simp add: bit_ucast_iff)
  moreover have "take_bit (8 * n) (drop_bit 8 w) = take_bit (8 * n) (drop_bit 8 w')"
    unfolding take_bits using low by (simp add: bit_drop_bit_eq)
  ultimately show ?case using Suc.IH [of "drop_bit 8 w" "drop_bit 8 w'"] unfolding store_bytes.simps by metis
qed simp

lemma take_mod: "take_bit k (x :: u64) = take_bit k y \<longleftrightarrow> uint x mod 2 ^ k = uint y mod 2 ^ k"
proof -
  have "uint (take_bit k w) = uint w mod 2 ^ k" for w :: u64
    by (simp only: unsigned_take_bit_eq) (simp only: take_bit_eq_mod)
  then show ?thesis unfolding word_uint_eq_iff by simp
qed

lemma add_low:
  fixes x y :: u64
  assumes "take_bit k x = take_bit k x'" "take_bit k y = take_bit k y'"
  shows "take_bit k (x + y) = take_bit k (x' + y')" "take_bit k (x - y) = take_bit k (x' - y')"
proof -
  have cong: "(a mod 2 ^ LENGTH(64)) mod 2 ^ k = (b mod 2 ^ LENGTH(64)) mod (2 ^ k :: int)" if "a mod 2 ^ k = b mod 2 ^ k" "k \<le> LENGTH(64)" for a b
    unfolding mod_mod_cancel [OF le_imp_power_dvd [OF that(2)]] by (rule that(1))
  have "take_bit k (x + y) = take_bit k (x' + y') \<and> take_bit k (x - y) = take_bit k (x' - y')"
  proof (cases "k \<le> LENGTH(64)")
    case True
    note eq = assms [unfolded take_mod]
    show ?thesis unfolding take_mod uint_word_ariths
      by (intro conjI cong [OF _ True] mod_add_cong mod_diff_cong eq)
  next
    case False
    then have "take_bit k w = w" for w :: u64 by (intro bit_eqI) (auto simp: bit_take_bit_iff dest: bit_imp_le_length)
    then show ?thesis using assms by simp
  qed
  then show "take_bit k (x + y) = take_bit k (x' + y')" "take_bit k (x - y) = take_bit k (x' - y')" by blast+
qed

lemma arith_low:
  assumes "irRmwOpSupported op" "take_bit k x = take_bit k x'" "take_bit k y = take_bit k y'"
  shows "take_bit k (arith op x y) = take_bit k (arith op x' y')"
proof -
  consider "op = IR_IADD" | "op = IR_ISUB" | "op = IR_AND" | "op = IR_OR" | "op = IR_XOR"
    using assms(1) by (auto simp: irRmwOpSupported_def)
  then show ?thesis
    by cases (use assms(2,3) add_low [OF assms(2,3)] in \<open>simp_all add: arith_def take_bit_and take_bit_or take_bit_xor\<close>)
qed

lemma arith_commutes: "irRmwOpCommutes op \<Longrightarrow> arith op x y = arith op y x"
  by (auto simp: irRmwOpCommutes_def arith_def ac_simps)

section \<open>Load, operation and store\<close>

text \<open>A loaded value keeps its bits when it is extended.\<close>

definition extends :: "fmachine \<Rightarrow> bool" where
  "extends F \<longleftrightarrow> (\<forall>d w. take_bit (8 * access_size d) (fm_extend F d w) = take_bit (8 * access_size d) w)"

lemma value_assign: "\<not> (val_kind d = IR_VAL_TMP \<and> irVarId (Some d) \<in> tmp_ids (Some v)) \<Longrightarrow> val_kind d = IR_VAL_TMP \<Longrightarrow>
  value_of (assign st d w) v = value_of st v"
  by (auto simp: value_of_def assign_def tmp_ids_def)

lemma rmw_step:
  assumes ext: "extends F"
    and L: "i_op L = IR_LOAD_DEREF" "i_dst L = Some dL" "val_kind dL = IR_VAL_TMP"
    and B: "irRmwOpSupported (i_op B)" "i_dst B = Some dB" "val_kind dB = IR_VAL_TMP" "i_r1 B = Some x" "i_r2 B = Some y"
    and S: "i_op S = IR_STORE_DEREF" "i_r1 S = Some z" "val_kind z = IR_VAL_TMP" "irVarId (Some z) = irVarId (Some dB)"
    and same: "i_r1 L = i_dst S" "i_disp L = i_disp S" "i_scale L = i_scale S" "i_idx L = i_idx S"
    and v: "(l, v) = (x, y) \<or> irRmwOpCommutes (i_op B) \<and> (l, v) = (y, x)" "val_kind l = IR_VAL_TMP" "irVarId (Some l) = irVarId (Some dL)"
    and off: "T = {irVarId (Some dL), irVarId (Some dB)}" "T \<inter> (tmp_ids (i_dst S) \<union> tmp_ids (i_idx S)) = {}"
      "irVarId (Some dL) \<notin> tmp_ids (Some v)" "irVarId (Some dB) \<notin> tmp_ids (Some v)"
    and width: "access_size dL = access_size v" "access_size z = access_size v"
  shows "rel_result (agree_off T) (rbind (step F L st) (\<lambda>s. rbind (step F B s) (step F S)))
    (step F (S\<lparr>i_op := IR_RMW_DEREF, i_extra := Ex_rmw_op (i_op B), i_r1 := Some v\<rparr>) st)"
proof (cases "i_dst S")
  case None
  then show ?thesis using L same(1) S(1) by (simp add: step_def is_arith_def)
next
  case (Some p)
  let ?S = "S\<lparr>i_op := IR_RMW_DEREF, i_extra := Ex_rmw_op (i_op B), i_r1 := Some v\<rparr>" and ?n = "access_size v"
  let ?a = "address st p S"
  have a: "address st p L = ?a" "address s p ?S = address s p S" for s using same by (simp_all add: address_def split: option.split)
  have arith: "is_arith (i_op B)" "i_op B \<noteq> IR_NOP" using B(1) by (auto simp: irRmwOpSupported_def is_arith_def)
  show ?thesis
  proof (cases "fm_mapped F ?a ?n")
    case False
    then show ?thesis using L S(1,2) same(1) Some a width by (simp add: step_def is_arith_def load_at_def)
  next
    case True
    let ?w = "load_bytes ?n (fs_bytes st) ?a" and ?vv = "value_of st v"
    let ?e = "fm_extend F dL ?w"
    let ?s1 = "assign st dL ?e"
    have l: "step F L st = Inr ?s1" using L same(1) Some a True width by (simp add: step_def is_arith_def load_at_def)
    have vs: "value_of ?s1 l = ?e" "value_of ?s1 v = ?vv"
      using v(2,3) L(3) off(3) value_assign [of dL v] by (simp_all add: value_of_def assign_def tmp_ids_def)
    let ?r = "arith (i_op B) (value_of ?s1 x) (value_of ?s1 y)"
    have r: "?r = arith (i_op B) ?e ?vv" using v(1) vs arith_commutes by auto
    let ?s2 = "assign ?s1 dB ?r"
    have b: "step F B ?s1 = Inr ?s2" using arith B by (simp add: step_def)
    have ag: "agree_off T ?s2 st" using L(3) B(3) off(1) by (auto simp: agree_off_def assign_def)
    have a2: "address ?s2 p S = ?a" using address_agree [OF ag, of p S] off(2) Some by (simp add: Int_Un_distrib)
    have z: "value_of ?s2 z = ?r" using S(3,4) B(3) by (simp add: value_of_def assign_def)
    have bytes: "fs_bytes ?s2 = fs_bytes st" using ag by (simp add: agree_off_def)
    have "take_bit (8 * ?n) ?e = take_bit (8 * ?n) ?w" using ext width(1) unfolding extends_def by metis
    then have "store_bytes ?n (fs_bytes st) ?a ?r = store_bytes ?n (fs_bytes st) ?a (arith (i_op B) ?w ?vv)"
      unfolding r by (intro store_low arith_low [OF B(1)]) simp_all
    then have "step F S ?s2 = Inr (?s2\<lparr>fs_bytes := store_bytes ?n (fs_bytes st) ?a (arith (i_op B) ?w ?vv)\<rparr>)"
      using S(1,2) Some True a2 z width(2) bytes by (simp add: step_def is_arith_def store_at_def)
    moreover have "step F ?S st = Inr (st\<lparr>fs_bytes := store_bytes ?n (fs_bytes st) ?a (arith (i_op B) ?w ?vv)\<rparr>)"
      using Some True a by (simp add: step_def is_arith_def load_at_def store_at_def)
    ultimately show ?thesis using l b ag by (simp add: agree_off_def)
  qed
qed

section \<open>The definitions of temporaries\<close>

definition defined_at :: "ir_block list \<Rightarrow> u32 \<Rightarrow> instr_pos \<Rightarrow> bool" where
  "defined_at fn t p \<longleftrightarrow> in_range fn p \<and> produces (instr_at fn p) \<and> irDstVarId (instr_at fn p) = t"

lemma block_defs:
  assumes "fold (\<lambda>(i, I) m. if produces I then m(irDstVarId I \<mapsto> (b, i)) else m) (enumerate k Is) d t = Some p"
  shows "d t = Some p \<or> (\<exists>i < length Is. p = (b, k + i) \<and> produces (Is ! i) \<and> irDstVarId (Is ! i) = t)"
  using assms
proof (induction Is arbitrary: k d)
  case (Cons I Is)
  have "(if produces I then d(irDstVarId I \<mapsto> (b, k)) else d) t = Some p \<or>
      (\<exists>i < length Is. p = (b, Suc k + i) \<and> produces (Is ! i) \<and> irDstVarId (Is ! i) = t)"
    using Cons.IH [of "Suc k" "if produces I then d(irDstVarId I \<mapsto> (b, k)) else d"] Cons.prems by (simp split: if_splits)
  then consider "d t = Some p" | "p = (b, k)" "produces I" "irDstVarId I = t"
    | i where "i < length Is" "p = (b, Suc k + i)" "produces (Is ! i)" "irDstVarId (Is ! i) = t"
    by (auto split: if_splits)
  then show ?case
  proof cases
    case 2
    then show ?thesis by (intro disjI2 exI [of _ 0]) simp
  next
    case (3 i)
    then show ?thesis by (intro disjI2 exI [of _ "Suc i"]) simp
  qed simp
qed simp

lemma fn_defs:
  assumes "fold (\<lambda>(b, bb) m. fold (\<lambda>(i, I) m. if produces I then m(irDstVarId I \<mapsto> (b, i)) else m)
      (enumerate 0 (bb_instructions bb)) m) (enumerate k bs) d t = Some p"
  shows "d t = Some p \<or> (\<exists>j < length bs. \<exists>i < length (bb_instructions (bs ! j)).
    p = (k + j, i) \<and> produces (bb_instructions (bs ! j) ! i) \<and> irDstVarId (bb_instructions (bs ! j) ! i) = t)"
  using assms
proof (induction bs arbitrary: k d)
  case (Cons bb bs)
  let ?d = "fold (\<lambda>(i, I) m. if produces I then m(irDstVarId I \<mapsto> (k, i)) else m) (enumerate 0 (bb_instructions bb)) d"
  consider "?d t = Some p"
    | j i where "j < length bs" "i < length (bb_instructions (bs ! j))" "p = (Suc k + j, i)"
        "produces (bb_instructions (bs ! j) ! i)" "irDstVarId (bb_instructions (bs ! j) ! i) = t"
    using Cons.IH [of "Suc k" ?d] Cons.prems by auto
  then show ?case
  proof cases
    case 1
    then show ?thesis using block_defs [OF 1] by fastforce
  next
    case (2 j i)
    then show ?thesis by (intro disjI2 exI [of _ "Suc j"]) auto
  qed
qed simp

lemma irBuildTmpDefsD: "irBuildTmpDefs fn t = Some p \<Longrightarrow> defined_at fn t p"
  using fn_defs [of 0 fn "\<lambda>_. None" t p] by (auto simp: irBuildTmpDefs_def defined_at_def in_range_def instr_at_def)

section \<open>The pass\<close>

text \<open>Every temporary has one size, and an operation that can be fused has operands of the size of its result.\<close>

definition sized :: "(u32 \<Rightarrow> u32) \<Rightarrow> ir_instr list \<Rightarrow> bool" where
  "sized W Is \<longleftrightarrow> (\<forall>I \<in> set Is. \<forall>v \<in> set (i_dst I # counted_vals I). irIsTmp v \<longrightarrow> irValueByteSize v = W (irVarId v))"

definition matched :: "ir_instr list \<Rightarrow> bool" where
  "matched Is \<longleftrightarrow> (\<forall>B \<in> set Is. irRmwOpSupported (i_op B) \<longrightarrow>
     irValueByteSize (i_r1 B) = irValueByteSize (i_dst B) \<and> irValueByteSize (i_r2 B) = irValueByteSize (i_dst B))"

definition pass_inv ::
  "fmachine \<Rightarrow> (u32 \<Rightarrow> u32) \<Rightarrow> ir_block list \<Rightarrow> (u32 \<rightharpoonup> instr_pos) \<Rightarrow> ir_block list \<Rightarrow> bool" where
  "pass_inv F W orig D fn \<longleftrightarrow>
     (\<forall>t. occ_all (cg_instrs fn) t \<le> occ_all (cg_instrs orig) t) \<and>
     (\<forall>t p. D t = Some p \<longrightarrow> in_range fn p \<and> (i_op (instr_at fn p) = IR_NOP \<or> defined_at fn t p)) \<and>
     sized W (cg_instrs fn) \<and> matched (cg_instrs fn) \<and>
     (\<exists>T. T \<inter> counted_all (cg_instrs fn) = {} \<and>
        (\<forall>st. rel_result (agree_off T) (steps F (cg_instrs orig) st) (steps F (cg_instrs fn) st)))"

lemma agree_off_trans: "agree_off T a b \<Longrightarrow> agree_off T' b c \<Longrightarrow> agree_off (T \<union> T') a c"
  by (simp add: agree_off_def)

lemma rel_off_trans:
  "rel_result (agree_off T) a b \<Longrightarrow> rel_result (agree_off T') b c \<Longrightarrow> rel_result (agree_off (T \<union> T')) a c"
  by (cases a; cases b; cases c) (auto intro: agree_off_trans)

lemma update_three:
  "(xs @ x # ns @ y # ns' @ z # zs)[length xs + Suc (length ns + Suc (length ns')) := c, length xs := a, length xs + Suc (length ns) := b] =
    xs @ a # ns @ b # ns' @ c # zs"
  by (simp add: list_update_append)

lemma split_three:
  assumes "l < m" "m < s" "s < length Is"
  obtains xs ns ns' zs where "Is = xs @ Is ! l # ns @ Is ! m # ns' @ Is ! s # zs"
    "\<And>a b c. Is[s := c, l := a, m := b] = xs @ a # ns @ b # ns' @ c # zs"
    "\<And>J. J \<in> set ns \<Longrightarrow> \<exists>k. l < k \<and> k < m \<and> J = Is ! k" "\<And>J. J \<in> set ns' \<Longrightarrow> \<exists>k. m < k \<and> k < s \<and> J = Is ! k"
proof -
  let ?xs = "take l Is" and ?ns = "take (m - Suc l) (drop (Suc l) Is)" and ?ns' = "take (s - Suc m) (drop (Suc m) Is)"
  let ?zs = "drop (Suc s) Is"
  have len: "length ?xs = l" "length ?ns = m - Suc l" "length ?ns' = s - Suc m" using assms by simp_all
  have 1: "Is = ?xs @ Is ! l # drop (Suc l) Is" using assms by (simp add: id_take_nth_drop)
  have 2: "drop (Suc l) Is = ?ns @ Is ! m # drop (Suc m) Is"
    using assms id_take_nth_drop [of "m - Suc l" "drop (Suc l) Is"] by simp
  have 3: "drop (Suc m) Is = ?ns' @ Is ! s # ?zs"
    using assms id_take_nth_drop [of "s - Suc m" "drop (Suc m) Is"] by simp
  have eq: "Is = ?xs @ Is ! l # ?ns @ Is ! m # ?ns' @ Is ! s # ?zs" using 1 2 3 by metis
  have "Is[s := c, l := a, m := b] = ?xs @ a # ?ns @ b # ?ns' @ c # ?zs" for a b c
  proof -
    have "(?xs @ x # ?ns @ y # ?ns' @ z # ?zs)[s := c, l := a, m := b] = ?xs @ a # ?ns @ b # ?ns' @ c # ?zs" for x y z
    proof -
      have idx: "l = length ?xs" "m = length ?xs + Suc (length ?ns)" "s = length ?xs + Suc (length ?ns + Suc (length ?ns'))"
        using assms len by simp_all
      show ?thesis by (subst (2) idx(1), subst (2) idx(2), subst (2) idx(3)) (rule update_three)
    qed
    then show ?thesis using eq by metis
  qed
  moreover have "\<exists>k. l < k \<and> k < m \<and> J = Is ! k" if J: "J \<in> set ?ns" for J
  proof -
    obtain i where "i < m - Suc l" "J = Is ! (Suc l + i)" using J assms by (auto simp: in_set_conv_nth)
    then show ?thesis by (intro exI [of _ "Suc l + i"]) auto
  qed
  moreover have "\<exists>k. m < k \<and> k < s \<and> J = Is ! k" if J: "J \<in> set ?ns'" for J
  proof -
    obtain i where "i < s - Suc m" "J = Is ! (Suc m + i)" using J assms by (auto simp: in_set_conv_nth)
    then show ?thesis by (intro exI [of _ "Suc m + i"]) auto
  qed
  ultimately show ?thesis using that eq by blast
qed

definition tocc :: "ir_value option \<Rightarrow> u32 \<Rightarrow> nat" where
  "tocc v t = (if irIsTmp v \<and> irVarId v = t then 1 else 0)"

lemma tocc_zero: "tocc v t = 0 \<longleftrightarrow> t \<notin> tmp_ids v" "irIsTmp v \<Longrightarrow> tocc v (irVarId v) = 1"
  by (auto simp: tocc_def tmp_ids_def)

lemma use_occ_access:
  "i_op I \<in> {IR_STORE_DEREF, IR_RMW_DEREF} \<Longrightarrow> use_occ I t = tocc (i_r1 I) t + tocc (i_r2 I) t + tocc (i_idx I) t + tocc (i_dst I) t"
  "is_arith (i_op I) \<or> i_op I = IR_LOAD_DEREF \<Longrightarrow> use_occ I t = tocc (i_r1 I) t + tocc (i_r2 I) t + tocc (i_idx I) t"
proof -
  have sum: "length (filter (\<lambda>v. irIsTmp v \<and> irVarId v = t) vs) = sum_list (map (\<lambda>v. tocc v t) vs)" for vs
    by (induction vs) (simp_all add: tocc_def)
  show "i_op I \<in> {IR_STORE_DEREF, IR_RMW_DEREF} \<Longrightarrow> use_occ I t = tocc (i_r1 I) t + tocc (i_r2 I) t + tocc (i_idx I) t + tocc (i_dst I) t"
    "is_arith (i_op I) \<or> i_op I = IR_LOAD_DEREF \<Longrightarrow> use_occ I t = tocc (i_r1 I) t + tocc (i_r2 I) t + tocc (i_idx I) t"
    unfolding use_occ_def sum by (auto simp: counted_vals_def instr_args_def is_arith_def)
qed

lemma rmw_loadD:
  assumes "rmw_load same cnt tmp_defs fn S v = Some p"
  shows "irIsTmp v" "irTmpUseCount cnt v = 1" "tmp_defs (irVarId v) = Some p" "i_op (instr_at fn p) = IR_LOAD_DEREF"
    "irAddressingMatches same (instr_at fn p) S"
  using assms by (auto simp: rmw_load_def split: if_splits option.splits)

lemma rmw_operandsD:
  assumes "rmw_operands same cnt tmp_defs fn S B = Some (pl, val)"
  obtains l where "rmw_load same cnt tmp_defs fn S l = Some pl"
    "(l, val) = (i_r1 B, i_r2 B) \<or> irRmwOpCommutes (i_op B) \<and> (l, val) = (i_r2 B, i_r1 B)"
  using assms by (auto simp: rmw_operands_def split: option.splits if_splits)

text \<open>A load, an operation and a store that the pass fuses, in the list of all instructions: \<open>l\<close> is the operand that was loaded.\<close>

record rmw_site =
  rs_xs :: "ir_instr list"
  rs_L :: ir_instr
  rs_ns :: "ir_instr list"
  rs_B :: ir_instr
  rs_ns' :: "ir_instr list"
  rs_S :: ir_instr
  rs_zs :: "ir_instr list"
  rs_d :: ir_value
  rs_b :: ir_value
  rs_z :: ir_value
  rs_l :: ir_value
  rs_v :: ir_value

definition site_old :: "rmw_site \<Rightarrow> ir_instr list" where
  "site_old R = rs_xs R @ rs_L R # rs_ns R @ rs_B R # rs_ns' R @ rs_S R # rs_zs R"

definition site_fused :: "rmw_site \<Rightarrow> ir_instr" where
  "site_fused R = (rs_S R)\<lparr>i_op := IR_RMW_DEREF, i_extra := Ex_rmw_op (i_op (rs_B R)), i_r1 := Some (rs_v R)\<rparr>"

definition site_new :: "rmw_site \<Rightarrow> ir_instr list" where
  "site_new R = rs_xs R @ irMakeNop (rs_L R) # rs_ns R @ irMakeNop (rs_B R) # rs_ns' R @ site_fused R # rs_zs R"

definition site_tmps :: "rmw_site \<Rightarrow> u32 set" where
  "site_tmps R = {irVarId (Some (rs_d R)), irVarId (Some (rs_b R))}"

definition site_ok :: "rmw_site \<Rightarrow> bool" where
  "site_ok R \<longleftrightarrow>
     i_op (rs_L R) = IR_LOAD_DEREF \<and> i_dst (rs_L R) = Some (rs_d R) \<and> val_kind (rs_d R) = IR_VAL_TMP \<and>
     irRmwOpSupported (i_op (rs_B R)) \<and> i_dst (rs_B R) = Some (rs_b R) \<and> val_kind (rs_b R) = IR_VAL_TMP \<and>
     i_op (rs_S R) = IR_STORE_DEREF \<and> i_r1 (rs_S R) = Some (rs_z R) \<and> val_kind (rs_z R) = IR_VAL_TMP \<and>
     irVarId (Some (rs_z R)) = irVarId (Some (rs_b R)) \<and>
     i_r1 (rs_L R) = i_dst (rs_S R) \<and> i_disp (rs_L R) = i_disp (rs_S R) \<and> i_scale (rs_L R) = i_scale (rs_S R) \<and>
     i_idx (rs_L R) = i_idx (rs_S R) \<and>
     (i_r1 (rs_B R) = Some (rs_l R) \<and> i_r2 (rs_B R) = Some (rs_v R) \<or>
      irRmwOpCommutes (i_op (rs_B R)) \<and> i_r1 (rs_B R) = Some (rs_v R) \<and> i_r2 (rs_B R) = Some (rs_l R)) \<and>
     val_kind (rs_l R) = IR_VAL_TMP \<and> irVarId (Some (rs_l R)) = irVarId (Some (rs_d R)) \<and>
     (\<forall>J \<in> set (rs_ns R) \<union> set (rs_ns' R). i_op J = IR_NOP) \<and> (\<forall>t \<in> site_tmps R. occ_all (site_old R) t \<le> 1)"

lemma site_okD:
  assumes "site_ok R"
  shows "i_op (rs_L R) = IR_LOAD_DEREF" "i_dst (rs_L R) = Some (rs_d R)" "val_kind (rs_d R) = IR_VAL_TMP"
    "irRmwOpSupported (i_op (rs_B R))" "i_dst (rs_B R) = Some (rs_b R)" "val_kind (rs_b R) = IR_VAL_TMP"
    "i_op (rs_S R) = IR_STORE_DEREF" "i_r1 (rs_S R) = Some (rs_z R)" "val_kind (rs_z R) = IR_VAL_TMP"
    "irVarId (Some (rs_z R)) = irVarId (Some (rs_b R))"
    "i_r1 (rs_L R) = i_dst (rs_S R)" "i_disp (rs_L R) = i_disp (rs_S R)" "i_scale (rs_L R) = i_scale (rs_S R)"
    "i_idx (rs_L R) = i_idx (rs_S R)" "val_kind (rs_l R) = IR_VAL_TMP" "irVarId (Some (rs_l R)) = irVarId (Some (rs_d R))"
    "i_r1 (rs_B R) = Some (rs_l R) \<and> i_r2 (rs_B R) = Some (rs_v R) \<or>
      irRmwOpCommutes (i_op (rs_B R)) \<and> i_r1 (rs_B R) = Some (rs_v R) \<and> i_r2 (rs_B R) = Some (rs_l R)"
    "\<forall>J \<in> set (rs_ns R). i_op J = IR_NOP" "\<forall>J \<in> set (rs_ns' R). i_op J = IR_NOP"
    "t \<in> site_tmps R \<Longrightarrow> occ_all (site_old R) t \<le> 1"
  using assms unfolding site_ok_def by blast+

lemma site_uses:
  assumes "site_ok R"
  shows "use_occ (rs_B R) t = tocc (Some (rs_l R)) t + tocc (Some (rs_v R)) t + tocc (i_idx (rs_B R)) t"
    and "use_occ (rs_S R) t = tocc (Some (rs_z R)) t + tocc (i_r2 (rs_S R)) t + tocc (i_idx (rs_S R)) t + tocc (i_dst (rs_S R)) t"
    and "use_occ (site_fused R) t = tocc (Some (rs_v R)) t + tocc (i_r2 (rs_S R)) t + tocc (i_idx (rs_S R)) t + tocc (i_dst (rs_S R)) t"
    and "occ_all (site_old R) t = occ_all (rs_xs R) t + use_occ (rs_L R) t + use_occ (rs_B R) t + use_occ (rs_S R) t + occ_all (rs_zs R) t"
    and "occ_all (site_new R) t = occ_all (rs_xs R) t + use_occ (site_fused R) t + occ_all (rs_zs R) t"
proof -
  note D = site_okD [OF assms]
  have "is_arith (i_op (rs_B R))" using D(4) by (auto simp: irRmwOpSupported_def is_arith_def)
  then show "use_occ (rs_B R) t = tocc (Some (rs_l R)) t + tocc (Some (rs_v R)) t + tocc (i_idx (rs_B R)) t"
    using use_occ_access(2) [of "rs_B R" t] D(17) by auto
  show "use_occ (rs_S R) t = tocc (Some (rs_z R)) t + tocc (i_r2 (rs_S R)) t + tocc (i_idx (rs_S R)) t + tocc (i_dst (rs_S R)) t"
    using use_occ_access(1) [of "rs_S R" t] D(7,8) by simp
  show "use_occ (site_fused R) t = tocc (Some (rs_v R)) t + tocc (i_r2 (rs_S R)) t + tocc (i_idx (rs_S R)) t + tocc (i_dst (rs_S R)) t"
    using use_occ_access(1) [of "site_fused R" t] by (simp add: site_fused_def)
  have nop: "occ_all ns t = 0" if "\<forall>J \<in> set ns. i_op J = IR_NOP" for ns
    using that by (induction ns) (simp_all add: use_occ_def)
  show "occ_all (site_old R) t = occ_all (rs_xs R) t + use_occ (rs_L R) t + use_occ (rs_B R) t + use_occ (rs_S R) t + occ_all (rs_zs R) t"
    "occ_all (site_new R) t = occ_all (rs_xs R) t + use_occ (site_fused R) t + occ_all (rs_zs R) t"
    using nop [OF D(18)] nop [OF D(19)] by (simp_all add: site_old_def site_new_def)
qed

lemma site_tocc:
  assumes "site_ok R"
  shows "tocc (Some (rs_l R)) (irVarId (Some (rs_d R))) = 1" "tocc (Some (rs_z R)) (irVarId (Some (rs_b R))) = 1"
  using site_okD(9,10,15,16) [OF assms] by (simp_all add: tocc_def)

text \<open>The two temporaries occur nowhere else.\<close>

lemma site_zero:
  assumes "site_ok R" "t \<in> site_tmps R"
  shows "tocc (i_dst (rs_S R)) t = 0" "tocc (i_idx (rs_S R)) t = 0" "occ_all (rs_zs R) t = 0" "tocc (Some (rs_v R)) t = 0"
    "occ_all (site_new R) t = 0"
proof -
  have "tocc (Some (rs_l R)) t + tocc (Some (rs_z R)) t \<ge> 1"
    using assms(2) site_tocc [OF assms(1)] by (auto simp: site_tmps_def)
  then have "tocc (i_dst (rs_S R)) t = 0 \<and> tocc (i_idx (rs_S R)) t = 0 \<and> tocc (i_r2 (rs_S R)) t = 0 \<and> occ_all (rs_zs R) t = 0 \<and>
      occ_all (rs_xs R) t = 0 \<and> tocc (Some (rs_v R)) t = 0"
    using site_okD(20) [OF assms] unfolding site_uses(4) [OF assms(1)] site_uses(1,2) [OF assms(1)] by linarith
  then show "tocc (i_dst (rs_S R)) t = 0" "tocc (i_idx (rs_S R)) t = 0" "occ_all (rs_zs R) t = 0" "tocc (Some (rs_v R)) t = 0"
    "occ_all (site_new R) t = 0"
    using site_uses(3,5) [OF assms(1)] by simp_all
qed

lemma site_fewer:
  assumes "site_ok R" shows "occ_all (site_new R) t \<le> occ_all (site_old R) t"
  unfolding site_uses [OF assms] by simp

lemma site_width:
  assumes "site_ok R" "sized W (site_old R)" "matched (site_old R)"
  shows "access_size (rs_d R) = access_size (rs_v R)" "access_size (rs_z R) = access_size (rs_v R)"
proof -
  note D = site_okD [OF assms(1)]
  have mem: "rs_L R \<in> set (site_old R)" "rs_B R \<in> set (site_old R)" "rs_S R \<in> set (site_old R)" by (simp_all add: site_old_def)
  have W: "irValueByteSize (Some v) = W (irVarId (Some v))" if "I \<in> set (site_old R)" "Some v \<in> set (i_dst I # counted_vals I)"
    "val_kind v = IR_VAL_TMP" for I v
  proof -
    have "irIsTmp (Some v)" using that(3) by simp
    then show ?thesis using assms(2) that(1,2) unfolding sized_def by blast
  qed
  have "irValueByteSize (Some (rs_l R)) = irValueByteSize (Some (rs_d R))"
    using W [OF mem(1), of "rs_d R"] W [OF mem(2), of "rs_l R"] D(2,3,15,16,17) by (auto simp: counted_vals_def)
  moreover have "irValueByteSize (Some (rs_z R)) = irValueByteSize (Some (rs_b R))"
    using W [OF mem(2), of "rs_b R"] W [OF mem(3), of "rs_z R"] D(5-10) by (auto simp: counted_vals_def)
  moreover have "irValueByteSize (i_r1 (rs_B R)) = irValueByteSize (Some (rs_b R))" "irValueByteSize (i_r2 (rs_B R)) = irValueByteSize (Some (rs_b R))"
    using assms(3) mem(2) D(4,5) by (auto simp: matched_def)
  ultimately show "access_size (rs_d R) = access_size (rs_v R)" "access_size (rs_z R) = access_size (rs_v R)"
    using D(17) by (auto simp: access_size_def)
qed

lemma site_run:
  assumes "site_ok R" "sized W (site_old R)" "matched (site_old R)" "reads_counted F" "extends F"
  shows "rel_result (agree_off (site_tmps R)) (steps F (site_old R) st) (steps F (site_new R) st)"
proof (cases "steps F (rs_xs R) st")
  case (Inr s)
  note D = site_okD [OF assms(1)]
  let ?T = "site_tmps R"
  have zero: "?T \<inter> (tmp_ids (i_dst (rs_S R)) \<union> tmp_ids (i_idx (rs_S R))) = {}" "?T \<inter> tmp_ids (Some (rs_v R)) = {}"
    "?T \<inter> counted_all (rs_zs R) = {}"
    using site_zero(1-4) [OF assms(1)] unfolding tocc_zero(1) occ_counted(1) by blast+
  have ops: "\<exists>x y. i_r1 (rs_B R) = Some x \<and> i_r2 (rs_B R) = Some y \<and>
      ((rs_l R, rs_v R) = (x, y) \<or> irRmwOpCommutes (i_op (rs_B R)) \<and> (rs_l R, rs_v R) = (y, x))" using D(17) by blast
  have three: "rel_result (agree_off ?T) (rbind (step F (rs_L R) s) (\<lambda>s. rbind (step F (rs_B R) s) (step F (rs_S R)))) (step F (site_fused R) s)"
    using ops unfolding site_fused_def
    by (elim exE conjE, intro rmw_step [OF assms(5) D(1-6) _ _ D(7-14) _ D(15,16) _ zero(1) _ _ site_width [OF assms(1-3)]])
      (use zero(2) in \<open>auto simp: site_tmps_def\<close>)
  have nops: "steps F (rs_ns R) s = Inr s" "steps F (rs_ns' R) s = Inr s" for s using D(18,19) by (simp_all add: steps_nops)
  have made: "step F (irMakeNop I) s = Inr s" for I s by (simp add: step_def irMakeNop_def)
  have old: "steps F (site_old R) st = rbind (rbind (step F (rs_L R) s) (\<lambda>s. rbind (step F (rs_B R) s) (step F (rs_S R)))) (steps F (rs_zs R))"
    unfolding site_old_def by (cases "step F (rs_L R) s") (auto simp: steps_app Inr nops rbind_def split: sum.split)
  have new: "steps F (site_new R) st = rbind (step F (site_fused R) s) (steps F (rs_zs R))"
    unfolding site_new_def by (simp add: steps_app Inr nops made)
  show ?thesis unfolding old new by (rule rel_result_bind [OF three]) (rule steps_agree [OF assms(4) _ zero(3)])
qed (simp add: site_old_def site_new_def steps_app)

lemma site_keeps:
  assumes "site_ok R"
  shows "sized W (site_old R) \<Longrightarrow> sized W (site_new R)" "matched (site_old R) \<Longrightarrow> matched (site_new R)"
proof -
  note D = site_okD [OF assms]
  have nop: "set (i_dst (irMakeNop I) # counted_vals (irMakeNop I)) = {None}" for I
    by (simp add: irMakeNop_def counted_vals_def instr_args_def)
  have fused: "set (i_dst (site_fused R) # counted_vals (site_fused R)) \<subseteq>
      set (i_dst (rs_S R) # counted_vals (rs_S R)) \<union> set (counted_vals (rs_B R))"
    using D(7,17) by (auto simp: site_fused_def counted_vals_def instr_args_def)
  show "sized W (site_new R)" if s: "sized W (site_old R)"
    unfolding sized_def
  proof (intro ballI impI)
    fix I v
    assume I: "I \<in> set (site_new R)" and v: "v \<in> set (i_dst I # counted_vals I)" "irIsTmp v"
    have "I \<noteq> irMakeNop J" for J using v nop [of J] by auto
    then have "I = site_fused R \<or> I \<in> set (site_old R)" using I by (auto simp: site_new_def site_old_def)
    then obtain J where "J \<in> set (site_old R)" "v \<in> set (i_dst J # counted_vals J)"
      using v(1) fused by (auto simp: site_old_def)
    then show "irValueByteSize v = W (irVarId v)" using s v(2) unfolding sized_def by blast
  qed
  show "matched (site_new R)" if s: "matched (site_old R)"
    unfolding matched_def
  proof (intro ballI impI)
    fix I
    assume I: "I \<in> set (site_new R)" and op: "irRmwOpSupported (i_op I)"
    have "I \<noteq> irMakeNop J" "I \<noteq> site_fused R" for J using op by (auto simp: irMakeNop_def site_fused_def irRmwOpSupported_def)
    then have "I \<in> set (site_old R)" using I by (auto simp: site_new_def site_old_def)
    then show "irValueByteSize (i_r1 I) = irValueByteSize (i_dst I) \<and> irValueByteSize (i_r2 I) = irValueByteSize (i_dst I)"
      using s op unfolding matched_def by blast
  qed
qed
text \<open>What a step of the pass finds is such a place.\<close>

lemma pass_invD:
  assumes "pass_inv F W orig D fn"
  shows "occ_all (cg_instrs fn) t \<le> occ_all (cg_instrs orig) t"
    "D t = Some p \<Longrightarrow> in_range fn p" "D t = Some p \<Longrightarrow> i_op (instr_at fn p) \<noteq> IR_NOP \<Longrightarrow> defined_at fn t p"
    "sized W (cg_instrs fn)" "matched (cg_instrs fn)"
  using assms unfolding pass_inv_def by blast+

lemma found_once:
  assumes "pass_inv F W orig D fn" "irIsTmp v" "irTmpUseCount (irBuildTmpUseCounts orig) v = 1"
  shows "occ_all (cg_instrs fn) (irVarId v) \<le> 1"
  using use_count_exact [OF assms(2), of orig] assms(3) pass_invD(1) [OF assms(1), of "irVarId v"] by simp

lemma defined_atE:
  assumes "defined_at fn t p"
  obtains d where "i_dst (instr_at fn p) = Some d" "val_kind d = IR_VAL_TMP" "irVarId (Some d) = t" "in_range fn p"
  using assms by (auto simp: defined_at_def produces_def irDstVarId_def elim: irIsTmpE)

lemma between_nops:
  assumes "in_range fn cur" "irPrevNonNop (bb_instructions (fn ! fst cur)) (snd cur) = Some n"
  shows "in_range fn (fst cur, n)" "flat fn (fst cur, n) < flat fn cur"
    "flat fn (fst cur, n) < k \<Longrightarrow> k < flat fn cur \<Longrightarrow> i_op (cg_instrs fn ! k) = IR_NOP"
proof -
  note P = irPrevNonNopD [OF assms(2)]
  show "in_range fn (fst cur, n)" "flat fn (fst cur, n) < flat fn cur" using P(1) assms(1) by (auto simp: in_range_def flat_def)
  assume k: "flat fn (fst cur, n) < k" "k < flat fn cur"
  let ?q = "(fst cur, k - flat fn (fst cur, 0))"
  have q: "flat fn ?q = k" "in_range fn ?q" "n < snd ?q" "snd ?q < snd cur"
    using k assms(1) by (auto simp: flat_def in_range_def)
  have "i_op (instr_at fn ?q) = IR_NOP" using P(3) q(3,4) by (simp add: instr_at_def)
  then show "i_op (cg_instrs fn ! k) = IR_NOP" using flat_nth [OF q(2)] q(1) by simp
qed

lemma found_site:
  assumes same: "\<And>a b. same a b \<Longrightarrow> a = b" and inv: "pass_inv F W orig D fn" and cur: "in_range fn cur"
    and step: "fuse_rmw same (irBuildTmpUseCounts orig) D cur (fn, c) = (fn', c')" "fn' \<noteq> fn"
  obtains R pl pb where "site_ok R" "cg_instrs fn = site_old R" "cg_instrs fn' = site_new R" "shape fn' = shape fn"
    "i_op (instr_at fn cur) = IR_STORE_DEREF"
    "\<And>p. in_range fn p \<Longrightarrow> p \<noteq> cur \<Longrightarrow> instr_at fn' p = (if p = pl \<or> p = pb then irMakeNop (instr_at fn p) else instr_at fn p)"
  using step(1)
proof (cases rule: fuse_rmwE)
  case (2 pb pl nb nl val)
  let ?Is = "cg_instrs fn" and ?S = "instr_at fn cur" and ?B = "instr_at fn pb" and ?L = "instr_at fn pl"
  obtain z where z: "i_r1 ?S = Some z" "val_kind z = IR_VAL_TMP" using 2(4) by (auto elim: irIsTmpE)
  have Bop: "i_op ?B \<noteq> IR_NOP" using 2(7) by (auto simp: irRmwOpSupported_def)
  obtain lo where lo: "rmw_load same (irBuildTmpUseCounts orig) D fn ?S lo = Some pl"
    "(lo, val) = (i_r1 ?B, i_r2 ?B) \<or> irRmwOpCommutes (i_op ?B) \<and> (lo, val) = (i_r2 ?B, i_r1 ?B)"
    by (rule rmw_operandsD [OF 2(10)])
  note ld = rmw_loadD [OF lo(1)]
  obtain b where b: "i_dst ?B = Some b" "val_kind b = IR_VAL_TMP" "irVarId (Some b) = irVarId (Some z)" "in_range fn pb"
    by (rule defined_atE [OF pass_invD(3) [OF inv 2(6) Bop]]) (simp add: z)
  obtain d where d: "i_dst ?L = Some d" "val_kind d = IR_VAL_TMP" "irVarId (Some d) = irVarId lo" "in_range fn pl"
    by (rule defined_atE [OF pass_invD(3) [OF inv ld(3)]]) (simp_all add: ld(4))
  obtain l v where lv: "lo = Some l" "val = Some v" "val_kind l = IR_VAL_TMP"
    using ld(1) lo(2) 2(8,9) by (auto elim!: irIsTmpE)
  have curb: "(fst pb, snd pb) = pb" "fst cur = fst pb" "snd pb = nb" using 2(11) by simp_all
  note nb = between_nops [OF cur 2(13)]
  note nl = between_nops [OF b(4), unfolded curb(2) [symmetric] curb(3), OF 2(14)]
  have lt: "flat fn pl < flat fn pb" "flat fn pb < flat fn cur" using nb(2) nl(2) 2(11,12) by simp_all
  obtain xs ns ns' zs where sp: "?Is = xs @ ?L # ns @ ?B # ns' @ ?S # zs"
    "\<And>a b c. ?Is[flat fn cur := c, flat fn pl := a, flat fn pb := b] = xs @ a # ns @ b # ns' @ c # zs"
    "\<And>J. J \<in> set ns \<Longrightarrow> \<exists>k. flat fn pl < k \<and> k < flat fn pb \<and> J = ?Is ! k"
    "\<And>J. J \<in> set ns' \<Longrightarrow> \<exists>k. flat fn pb < k \<and> k < flat fn cur \<and> J = ?Is ! k"
    using split_three [OF lt flat_less [OF cur]] unfolding flat_nth [OF b(4)] flat_nth [OF d(4)] flat_nth [OF cur] by blast
  define R where "R = \<lparr>rs_xs = xs, rs_L = ?L, rs_ns = ns, rs_B = ?B, rs_ns' = ns', rs_S = ?S, rs_zs = zs,
    rs_d = d, rs_b = b, rs_z = z, rs_l = l, rs_v = v\<rparr>"
  have old: "?Is = site_old R" using sp(1) by (simp add: R_def site_old_def)
  have ne: "cur \<noteq> pb" "cur \<noteq> pl" "pl \<noteq> pb" using lt by auto
  have new: "cg_instrs fn' = site_new R"
    using ne b(4) d(4) cur lv(2) by (simp add: 2(2) make_nop_def cg_put instr_at_put sp(2) R_def site_new_def site_fused_def)
  have "\<forall>J \<in> set ns \<union> set ns'. i_op J = IR_NOP"
    using sp(3,4) nb(3) nl(3) 2(11,12) by (metis (no_types, lifting) Un_iff)
  moreover have "\<forall>t \<in> site_tmps R. occ_all (site_old R) t \<le> 1"
    using found_once [OF inv ld(1,2)] found_once [OF inv 2(4,5)] b(3) d(3) z(1) unfolding old by (simp add: site_tmps_def R_def)
  moreover have "irAddressingMatches same ?L ?S" by (rule ld(5))
  ultimately have "site_ok R"
    unfolding site_ok_def
    using ld(4) d b z 2(3,7) lo(2) lv same by (auto simp: R_def irAddressingMatches_def)
  moreover have "instr_at fn' p = (if p = pl \<or> p = pb then irMakeNop (instr_at fn p) else instr_at fn p)" if "in_range fn p" "p \<noteq> cur" for p
    using that ne b(4) d(4) by (auto simp: 2(2) make_nop_def instr_at_put)
  ultimately show ?thesis using that old new 2(2,3) by simp
qed (use step(2) in simp)

lemma rmw_pass_step:
  assumes same: "\<And>a b. same a b \<Longrightarrow> a = b" and F: "reads_counted F" "extends F"
    and inv: "pass_inv F W orig D fn" and cur: "in_range fn cur"
    and step: "fuse_rmw same (irBuildTmpUseCounts orig) D cur (fn, c) = (fn', c')"
  shows "pass_inv F W orig D fn'"
proof (cases "fn' = fn")
  case False
  obtain R pl pb where R: "site_ok R" "cg_instrs fn = site_old R" "cg_instrs fn' = site_new R" "shape fn' = shape fn"
    and S: "i_op (instr_at fn cur) = IR_STORE_DEREF"
    and at: "\<And>p. in_range fn p \<Longrightarrow> p \<noteq> cur \<Longrightarrow> instr_at fn' p = (if p = pl \<or> p = pb then irMakeNop (instr_at fn p) else instr_at fn p)"
    using found_site [OF same inv cur step False] by blast
  note ty = pass_invD(4,5) [OF inv, unfolded R(2)]
  have less: "occ_all (cg_instrs fn') t \<le> occ_all (cg_instrs fn) t" for t unfolding R(2,3) by (rule site_fewer [OF R(1)])
  obtain T where T: "T \<inter> counted_all (cg_instrs fn) = {}" "\<forall>st. rel_result (agree_off T) (steps F (cg_instrs orig) st) (steps F (cg_instrs fn) st)"
    using inv unfolding pass_inv_def by blast
  have "occ_all (cg_instrs fn') t = 0" if "t \<in> T \<union> site_tmps R" for t
    using that less [of t] T(1) site_zero(5) [OF R(1)] R(3) occ_counted(1) [of "cg_instrs fn" t] by fastforce
  then have "(T \<union> site_tmps R) \<inter> counted_all (cg_instrs fn') = {}" using occ_counted(1) by blast
  moreover have "rel_result (agree_off (T \<union> site_tmps R)) (steps F (cg_instrs orig) st) (steps F (cg_instrs fn') st)" for st
    using rel_off_trans [OF spec [OF T(2)], of "site_tmps R"] site_run [OF R(1) ty F] unfolding R(2,3) by blast
  moreover have "in_range fn' p \<and> (i_op (instr_at fn' p) = IR_NOP \<or> defined_at fn' t p)" if D: "D t = Some p" for t p
  proof -
    have r: "in_range fn p" by (rule pass_invD(2) [OF inv D])
    have r': "in_range fn' p" using r R(4) by (simp add: in_range_shape)
    consider "i_op (instr_at fn p) = IR_NOP" | "defined_at fn t p" using pass_invD(3) [OF inv D] by blast
    then show ?thesis
    proof cases
      case 1
      then have "p \<noteq> cur" using S by auto
      then show ?thesis using 1 r' at [OF r] by (simp add: irMakeNop_def)
    next
      case 2
      then have "p \<noteq> cur" using S by (auto simp: defined_at_def produces_def)
      then show ?thesis using 2 r' at [OF r] by (auto simp: defined_at_def irMakeNop_def)
    qed
  qed
  ultimately show ?thesis
    using less pass_invD(1) [OF inv] site_keeps [OF R(1)] ty unfolding pass_inv_def R(3) by (meson le_trans)
qed (use inv in simp)

lemma rmw_pass_fold:
  assumes "\<And>a b. same a b \<Longrightarrow> a = b" "reads_counted F" "extends F"
    and "pass_inv F W orig D fn" "\<forall>p \<in> set ps. in_range fn p" "fold (fuse_rmw same (irBuildTmpUseCounts orig) D) ps (fn, c) = (fn', c')"
  shows "pass_inv F W orig D fn'"
  using assms(4-6)
proof (induction ps arbitrary: fn c)
  case (Cons p ps)
  obtain fn1 c1 where one: "fuse_rmw same (irBuildTmpUseCounts orig) D p (fn, c) = (fn1, c1)" by fastforce
  have p: "in_range fn p" using Cons.prems(2) by simp
  have "shape fn1 = shape fn" using descendsD [OF fuse_rmw_descends p one] by auto
  then have "\<forall>q \<in> set ps. in_range fn1 q" using Cons.prems(2) by (simp add: in_range_shape)
  then show ?case using Cons.IH [OF rmw_pass_step [OF assms(1-3) Cons.prems(1) p one]] Cons.prems(3) one by simp
qed simp

text \<open>
  C13. Fusing load, operation and store keeps the program when the widths agree: if every temporary has one size and
  the operands of every operation that can be fused have the size of its result, running the instructions of the
  rewritten function in the order of its blocks from any state faults exactly when the original ones do, and otherwise
  leaves the same variables, the same bytes and the same value in every temporary that is still read.
\<close>

theorem irFuseLoadOpStore_preserves:
  assumes "\<forall>a b. same a b \<longrightarrow> a = b" "reads_counted F" "extends F"
    and "sized W (cg_instrs fn)" "matched (cg_instrs fn)" "irFuseLoadOpStore same fn = (fn', c)"
  shows "rel_result (agree_off (- counted_all (cg_instrs fn'))) (steps F (cg_instrs fn) st) (steps F (cg_instrs fn') st)"
proof -
  have "rel_result (agree_off {}) a a" for a :: "fstate result" by (cases a) (simp_all add: agree_off_def)
  then have start: "pass_inv F W fn (irBuildTmpDefs fn) fn"
    using assms(4,5) irBuildTmpDefsD [of fn] unfolding pass_inv_def by (auto simp: defined_at_def)
  have "pass_inv F W fn (irBuildTmpDefs fn) fn'"
    by (rule rmw_pass_fold [OF _ assms(2,3) start _ assms(6) [unfolded irFuseLoadOpStore_def Let_def]])
      (use assms(1) in \<open>simp_all add: positions_range\<close>)
  then obtain T where T: "T \<inter> counted_all (cg_instrs fn') = {}" "rel_result (agree_off T) (steps F (cg_instrs fn) st) (steps F (cg_instrs fn') st)"
    unfolding pass_inv_def by blast
  have "agree_off (- counted_all (cg_instrs fn')) x y" if "agree_off T x y" for x y
    using that T(1) unfolding agree_off_def by blast
  then show ?thesis using T(2) by (cases "steps F (cg_instrs fn) st"; cases "steps F (cg_instrs fn') st") auto
qed
section \<open>Examples\<close>

text \<open>\<open>*p op= v\<close> for a pointer \<open>p\<close> to an integer of \<open>sz\<close> bytes, as the front end lowers it.\<close>

definition sized_tmp :: "u32 \<Rightarrow> u16 \<Rightarrow> ir_value" where
  "sized_tmp i sz = IrValue (if sz = 4 then IR_TYPE_I32 else IR_TYPE_I64) IR_VAL_TMP 0 NULL (As_var i sz)"

definition update_code :: "u16 \<Rightarrow> ir_op \<Rightarrow> ir_value option \<Rightarrow> ir_instr list" where
  "update_code sz op v =
     [irInstrNew 1 IR_LOAD_DEREF (Some (sized_tmp 5 sz)) (wit_var IR_VAL_LOCAL 1) None,
      irInstrNew 1 op (Some (sized_tmp 6 sz)) (Some (sized_tmp 5 sz)) v,
      irInstrNew 1 IR_STORE_DEREF (wit_var IR_VAL_LOCAL 1) (Some (sized_tmp 6 sz)) None]"

definition open_machine :: fmachine where
  "open_machine = \<lparr>fm_mapped = (\<lambda>_ _. True), fm_extend = (\<lambda>_ w. w), fm_other = (\<lambda>_ st. Inr st)\<rparr>"

definition sevens :: fstate where
  "sevens = \<lparr>fs_tmps = (\<lambda>_. 0), fs_vars = (\<lambda>_. 4096), fs_bytes = (\<lambda>_. 7)\<rparr>"

lemma open_machine_ok: "reads_counted open_machine" "extends open_machine"
  by (simp_all add: reads_counted_def extends_def open_machine_def)

lemma update_fused:
  assumes "irRmwOpSupported op" "v = wit_var IR_VAL_LOCAL 2 \<or> v = wit_const 255"
  shows "irFuseLoadOpStore (=) [one_block (update_code sz op v)] =
    ([one_block [irMakeNop (update_code sz op v ! 0), irMakeNop (update_code sz op v ! 1),
       (irInstrNew 1 IR_RMW_DEREF (wit_var IR_VAL_LOCAL 1) v None)\<lparr>i_extra := Ex_rmw_op op\<rparr>]], True)"
  using assms
  by (auto simp: irFuseLoadOpStore_def irBuildTmpUseCounts_def irBuildTmpDefs_def positions_def one_block_def update_code_def
      cg_instrs_def irInstrNew_def sized_tmp_def counted_vals_def instr_args_def irBumpUse_def irVarId_def produces_def irDstVarId_def
      fuse_rmw_def instr_at_def irTmpUseCount_def rmw_operands_def rmw_load_def irAddressingMatches_def wit_var_def wit_const_def
      make_nop_def put_instr_def irMakeNop_def irRmwOpSupported_def irConstInt_def irValueNew_def)
theorem irFuseLoadOpStore_preserves_witness:
  "irFuseLoadOpStore (=) [one_block (update_code 8 IR_IADD (wit_var IR_VAL_LOCAL 2))] =
     ([one_block [irMakeNop (update_code 8 IR_IADD (wit_var IR_VAL_LOCAL 2) ! 0), irMakeNop (update_code 8 IR_IADD (wit_var IR_VAL_LOCAL 2) ! 1),
        (irInstrNew 1 IR_RMW_DEREF (wit_var IR_VAL_LOCAL 1) (wit_var IR_VAL_LOCAL 2) None)\<lparr>i_extra := Ex_rmw_op IR_IADD\<rparr>]], True) \<and>
   rel_result (agree_off (- counted_all (cg_instrs (fst (irFuseLoadOpStore (=) [one_block (update_code 8 IR_IADD (wit_var IR_VAL_LOCAL 2))])))))
     (steps open_machine (update_code 8 IR_IADD (wit_var IR_VAL_LOCAL 2)) sevens)
     (steps open_machine (cg_instrs (fst (irFuseLoadOpStore (=) [one_block (update_code 8 IR_IADD (wit_var IR_VAL_LOCAL 2))]))) sevens)"
proof -
  let ?fn = "[one_block (update_code 8 IR_IADD (wit_var IR_VAL_LOCAL 2))]"
  have "sized (\<lambda>_. 8) (cg_instrs ?fn)" "matched (cg_instrs ?fn)"
    by (auto simp: sized_def matched_def cg_instrs_def one_block_def update_code_def irInstrNew_def sized_tmp_def counted_vals_def
        instr_args_def wit_var_def irValueByteSize_def irRmwOpSupported_def)
  then show ?thesis
    using update_fused [of IR_IADD "wit_var IR_VAL_LOCAL 2" 8]
      irFuseLoadOpStore_preserves [of "(=)" open_machine "\<lambda>_. 8" ?fn "fst (irFuseLoadOpStore (=) ?fn)" "snd (irFuseLoadOpStore (=) ?fn)" sevens]
      open_machine_ok
    by (simp add: irRmwOpSupported_def cg_instrs_def one_block_def)
qed

lemma four_bytes:
  "load_bytes (Suc (Suc (Suc (Suc n)))) m a =
     ucast (m a) + push_bit 8 (ucast (m (a + 1)) + push_bit 8 (ucast (m (a + 2)) + push_bit 8 (ucast (m (a + 3)) +
     push_bit 8 (load_bytes n m (a + 4)))))"
  "store_bytes (Suc (Suc (Suc (Suc n)))) m a w =
     store_bytes n (m(a := ucast w, a + 1 := ucast (drop_bit 8 w), a + 2 := ucast (drop_bit 16 w), a + 3 := ucast (drop_bit 24 w)))
       (a + 4) (drop_bit 32 w)"
  by (simp_all add: add.assoc drop_bit_drop_bit)

lemma bytes_unfold:
  "load_bytes 4 m a = ucast (m a) + push_bit 8 (ucast (m (a + 1)) + push_bit 8 (ucast (m (a + 2)) + push_bit 8 (ucast (m (a + 3)) +
     push_bit 8 (load_bytes 0 m (a + 4)))))"
  "load_bytes 8 m a = ucast (m a) + push_bit 8 (ucast (m (a + 1)) + push_bit 8 (ucast (m (a + 2)) + push_bit 8 (ucast (m (a + 3)) +
     push_bit 8 (load_bytes 4 m (a + 4)))))"
  "store_bytes 4 m a w = m(a := ucast w, a + 1 := ucast (drop_bit 8 w), a + 2 := ucast (drop_bit 16 w), a + 3 := ucast (drop_bit 24 w))"
  "store_bytes 8 m a w =
     store_bytes 4 (m(a := ucast w, a + 1 := ucast (drop_bit 8 w), a + 2 := ucast (drop_bit 16 w), a + 3 := ucast (drop_bit 24 w)))
       (a + 4) (drop_bit 32 w)"
proof -
  have n: "(4 :: nat) = Suc (Suc (Suc (Suc 0)))" "(8 :: nat) = Suc (Suc (Suc (Suc 4)))" by simp_all
  show "load_bytes 4 m a = ucast (m a) + push_bit 8 (ucast (m (a + 1)) + push_bit 8 (ucast (m (a + 2)) + push_bit 8 (ucast (m (a + 3)) +
     push_bit 8 (load_bytes 0 m (a + 4)))))" by (subst n(1)) (rule four_bytes(1))
  show "load_bytes 8 m a = ucast (m a) + push_bit 8 (ucast (m (a + 1)) + push_bit 8 (ucast (m (a + 2)) + push_bit 8 (ucast (m (a + 3)) +
     push_bit 8 (load_bytes 4 m (a + 4)))))" using four_bytes(1) [of 4 m a] unfolding n(2) [symmetric] .
  show "store_bytes 4 m a w = m(a := ucast w, a + 1 := ucast (drop_bit 8 w), a + 2 := ucast (drop_bit 16 w), a + 3 := ucast (drop_bit 24 w))"
    by (subst n(1)) (simp add: add.assoc drop_bit_drop_bit)
  show "store_bytes 8 m a w =
     store_bytes 4 (m(a := ucast w, a + 1 := ucast (drop_bit 8 w), a + 2 := ucast (drop_bit 16 w), a + 3 := ucast (drop_bit 24 w)))
       (a + 4) (drop_bit 32 w)" using four_bytes(2) [of 4 m a w] unfolding n(2) [symmetric] .
qed

text \<open>
  C14. Fusing load, operation and store widens an access: \<open>*p &= 255\<close> through a pointer to a 32-bit integer becomes a
  read-modify-write with the 8 bytes of the literal. The code before the pass leaves the byte behind the integer as it
  was, the code after it clears that byte.
\<close>

theorem fusion_widens_access:
  "\<exists>s s'. irFuseLoadOpStore (=) [one_block (update_code 4 IR_AND (wit_const 255))] =
      ([one_block [irMakeNop (update_code 4 IR_AND (wit_const 255) ! 0), irMakeNop (update_code 4 IR_AND (wit_const 255) ! 1),
         (irInstrNew 1 IR_RMW_DEREF (wit_var IR_VAL_LOCAL 1) (wit_const 255) None)\<lparr>i_extra := Ex_rmw_op IR_AND\<rparr>]], True) \<and>
    steps open_machine (update_code 4 IR_AND (wit_const 255)) sevens = Inr s \<and>
    steps open_machine (cg_instrs (fst (irFuseLoadOpStore (=) [one_block (update_code 4 IR_AND (wit_const 255))]))) sevens = Inr s' \<and>
    fs_vars sevens (the (wit_var IR_VAL_LOCAL 1)) = 4096 \<and> fs_bytes s 4100 = 7 \<and> fs_bytes s' 4100 = 0"
proof -
  have fused: "irFuseLoadOpStore (=) [one_block (update_code 4 IR_AND (wit_const 255))] =
      ([one_block [irMakeNop (update_code 4 IR_AND (wit_const 255) ! 0), irMakeNop (update_code 4 IR_AND (wit_const 255) ! 1),
         (irInstrNew 1 IR_RMW_DEREF (wit_var IR_VAL_LOCAL 1) (wit_const 255) None)\<lparr>i_extra := Ex_rmw_op IR_AND\<rparr>]], True)"
    by (rule update_fused) (simp_all add: irRmwOpSupported_def)
  have size: "access_size (IrValue IR_TYPE_I32 IR_VAL_TMP 0 NULL (As_var i 4)) = 4" "access_size (irConstInt IR_TYPE_I64 255) = 8" for i
    by (simp_all add: access_size_def sized_tmp_def irValueByteSize_def)
  show ?thesis
    unfolding fused
    by (simp add: update_code_def irInstrNew_def step_def is_arith_def wit_var_def wit_const_def size irMakeNop_def cg_instrs_def one_block_def
        load_at_def store_at_def open_machine_def sevens_def address_def value_of_def assign_def sized_tmp_def irVarId_def arith_def
        const_of_def bytes_unfold)
qed

end
