(* ===== verification/IrFuse_Addr.thy ===== *)
theory IrFuse_Addr
  imports IrFuse_Rmw
begin

text \<open>
  The fusion of additions into addresses: it keeps the program when the operands of an addition or a scaling keep their
  values from there on. The pass does not check that of variables: it breaks \<open>p->next = p = q\<close>.
\<close>

section \<open>Values that stay\<close>

definition foldable :: "ir_op \<Rightarrow> bool" where
  "foldable op \<longleftrightarrow> op \<in> {IR_IADD, IR_ISUB, IR_IMUL, IR_SHL}"

definition accesses :: "ir_op \<Rightarrow> bool" where
  "accesses op \<longleftrightarrow> op \<in> {IR_LOAD_DEREF, IR_STORE_DEREF, IR_RMW_DEREF}"

text \<open>The instruction assigns the value.\<close>

definition assigns :: "ir_instr \<Rightarrow> ir_value \<Rightarrow> bool" where
  "assigns J v \<longleftrightarrow> i_op J \<notin> {IR_NOP, IR_STORE_DEREF, IR_RMW_DEREF} \<and>
     (case i_dst J of None \<Rightarrow> False
      | Some d \<Rightarrow> d = v \<or> val_kind d = IR_VAL_TMP \<and> val_kind v = IR_VAL_TMP \<and> irVarId (Some d) = irVarId (Some v))"

definition untouched :: "fmachine \<Rightarrow> ir_instr \<Rightarrow> ir_value \<Rightarrow> bool" where
  "untouched F J v \<longleftrightarrow> \<not> assigns J v \<and>
     (i_op J \<notin> {IR_NOP, IR_STORE} \<longrightarrow> \<not> is_arith (i_op J) \<longrightarrow> \<not> accesses (i_op J) \<longrightarrow>
        (\<forall>s s'. fm_other F J s = Inr s' \<longrightarrow> value_of s' v = value_of s v))"

text \<open>
  Additions and scalings have their operands; from such an instruction on, its operands keep their values, and after it
  its result does.
\<close>

definition operands_stay :: "fmachine \<Rightarrow> ir_instr list \<Rightarrow> bool" where
  "operands_stay F Is \<longleftrightarrow> (\<forall>i < length Is. foldable (i_op (Is ! i)) \<longrightarrow>
     i_r1 (Is ! i) \<noteq> None \<and> i_r2 (Is ! i) \<noteq> None \<and>
     (\<forall>j v. i \<le> j \<longrightarrow> j < length Is \<longrightarrow> i_r1 (Is ! i) = Some v \<or> i_r2 (Is ! i) = Some v \<or> i < j \<and> i_dst (Is ! i) = Some v \<longrightarrow>
        untouched F (Is ! j) v))"

lemma stays_at:
  assumes "operands_stay F Is" "i < length Is" "foldable (i_op (Is ! i))" "i \<le> j" "j < length Is"
    and "i_r1 (Is ! i) = Some v \<or> i_r2 (Is ! i) = Some v \<or> i < j \<and> i_dst (Is ! i) = Some v"
  shows "untouched F (Is ! j) v"
  using assms unfolding operands_stay_def by blast

lemma value_assign_other:
  "\<not> (d = v \<or> val_kind d = IR_VAL_TMP \<and> val_kind v = IR_VAL_TMP \<and> irVarId (Some d) = irVarId (Some v)) \<Longrightarrow>
    value_of (assign s d w) v = value_of s v"
  by (auto simp: value_of_def assign_def)

lemma value_bytes: "value_of (s\<lparr>fs_bytes := m\<rparr>) v = value_of s v"
  by (simp add: value_of_def)

lemma untouched_step:
  assumes "untouched F J v" "step F J s = Inr s'"
  shows "value_of s' v = value_of s v"
proof -
  have keep: "value_of (assign s d w) v = value_of s v" if "i_dst J = Some d" "i_op J \<notin> {IR_NOP, IR_STORE_DEREF, IR_RMW_DEREF}" for d w
    using assms(1) that by (intro value_assign_other) (auto simp: untouched_def assigns_def)
  consider "i_op J = IR_NOP" | "is_arith (i_op J)" | "i_op J = IR_STORE" | "i_op J = IR_LOAD_DEREF" | "i_op J = IR_STORE_DEREF"
    | "i_op J = IR_RMW_DEREF" | "i_op J \<notin> {IR_NOP, IR_STORE}" "\<not> is_arith (i_op J)" "\<not> accesses (i_op J)"
    by (auto simp: accesses_def)
  then show ?thesis
  proof cases
    case 2
    then show ?thesis using assms(2) keep by (auto simp: step_def is_arith_def split: option.splits)
  next
    case 3
    then show ?thesis using assms(2) keep by (auto simp: step_def is_arith_def split: option.splits)
  next
    case 4
    then show ?thesis using assms(2) keep by (auto simp: step_def is_arith_def split: option.splits)
  next
    case 5
    then show ?thesis using assms(2) by (auto simp: step_def is_arith_def store_at_def value_bytes split: option.splits if_splits)
  next
    case 6
    then show ?thesis using assms(2)
      by (auto simp: step_def is_arith_def store_at_def load_at_def value_bytes split: option.splits if_splits ir_extra.splits)
  next
    case 7
    then show ?thesis using assms by (auto simp: untouched_def step_def accesses_def)
  qed (use assms(2) in \<open>simp add: step_def\<close>)
qed

lemma steps_untouched:
  assumes "\<forall>J \<in> set Is. untouched F J v" "steps F Is s = Inr s'"
  shows "value_of s' v = value_of s v"
  using assms
proof (induction Is arbitrary: s)
  case (Cons J Is)
  obtain s1 where s1: "step F J s = Inr s1" "steps F Is s1 = Inr s'" using Cons.prems(2) by auto
  show ?case using Cons.IH [OF _ s1(2)] untouched_step [OF _ s1(1)] Cons.prems(1) by simp
qed simp

section \<open>One fold\<close>

text \<open>The base of an access.\<close>

definition base_of :: "ir_instr \<Rightarrow> ir_value option" where
  "base_of J = (if i_op J = IR_LOAD_DEREF then i_r1 J else i_dst J)"

text \<open>An access to the same bytes with the same value, at an address that is written differently.\<close>

definition same_access :: "ir_instr \<Rightarrow> ir_instr \<Rightarrow> bool" where
  "same_access U U' \<longleftrightarrow> accesses (i_op U) \<and> i_op U' = i_op U \<and> i_r2 U' = i_r2 U \<and> i_extra U' = i_extra U \<and>
     (if i_op U = IR_LOAD_DEREF then i_dst U' = i_dst U else i_r1 U' = i_r1 U)"

text \<open>The instruction \<open>i\<close> goes, and its only reader \<open>u\<close> becomes \<open>U'\<close>.\<close>

definition fold_ok :: "ir_instr list \<Rightarrow> nat \<Rightarrow> nat \<Rightarrow> ir_instr \<Rightarrow> bool" where
  "fold_ok Is i u U' \<longleftrightarrow> i < u \<and> u < length Is \<and> foldable (i_op (Is ! i)) \<and> same_access (Is ! u) U' \<and>
     (\<exists>d a b p p'. i_dst (Is ! i) = Some d \<and> val_kind d = IR_VAL_TMP \<and> i_r1 (Is ! i) = Some a \<and> i_r2 (Is ! i) = Some b \<and>
        base_of (Is ! u) = Some p \<and> base_of U' = Some p' \<and> occ_all Is (irVarId (Some d)) \<le> 1 \<and>
        (\<forall>t. use_occ U' t + tocc (Some d) t \<le> use_occ (Is ! u) t + use_occ (Is ! i) t) \<and>
        (\<forall>s. value_of s d = arith (i_op (Is ! i)) (value_of s a) (value_of s b) \<longrightarrow> address s p (Is ! u) = address s p' U'))"

lemma access_agree:
  assumes U: "same_access U U'" "base_of U = Some p" "base_of U' = Some p'"
    and s: "agree_off T s s'" "T \<inter> counted U' = {}" "address s p U = address s p' U'"
  shows "rel_result (agree_off T) (step F U s) (step F U' s')"
proof -
  have op: "i_op U' \<noteq> IR_NOP" using U(1) by (auto simp: same_access_def accesses_def)
  note c = counted_ops [OF s(2) op]
  have b: "tmp_ids (Some p') \<inter> T = {}"
    using U c by (auto simp: base_of_def same_access_def accesses_def split: if_splits)
  then have a: "address s' p' U' = address s p U" using address_agree [OF s(1), of p' U'] c(3) s(3) by (simp add: Int_commute)
  note agree = assign_agree [OF s(1)] load_agree [OF s(1)] store_agree [OF s(1)]
  consider "i_op U = IR_LOAD_DEREF" | "i_op U = IR_STORE_DEREF" | "i_op U = IR_RMW_DEREF"
    using U(1) by (auto simp: same_access_def accesses_def)
  then show ?thesis
  proof cases
    case 1
    then show ?thesis using U a agree
      by (cases "i_dst U") (auto simp: step_def same_access_def base_of_def is_arith_def rbind_def split: sum.split)
  next
    case 2
    have v: "value_of s v = value_of s' v" if "i_r1 U = Some v" for v
      using value_agree [OF s(1), of v] c(1) U(1) 2 that by (simp add: same_access_def)
    then show ?thesis using 2 U a agree by (cases "i_r1 U") (auto simp: step_def same_access_def base_of_def is_arith_def)
  next
    case 3
    have v: "value_of s v = value_of s' v" if "i_r1 U = Some v" for v
      using value_agree [OF s(1), of v] c(1) U(1) 3 that by (simp add: same_access_def)
    then show ?thesis using 3 U a agree
      by (cases "i_r1 U"; cases "i_extra U") (auto simp: step_def same_access_def base_of_def is_arith_def rbind_def split: sum.split)
  qed
qed

lemma update_two: "(xs @ x # ys @ y # zs)[length xs := a, length xs + Suc (length ys) := b] = xs @ a # ys @ b # zs"
  by (simp add: list_update_append)

lemma split_two:
  assumes "i < u" "u < length Is"
  obtains xs ys zs where "Is = xs @ Is ! i # ys @ Is ! u # zs" "\<And>a b. Is[i := a, u := b] = xs @ a # ys @ b # zs"
    "\<And>J. J \<in> set ys \<Longrightarrow> \<exists>k. i < k \<and> k < u \<and> J = Is ! k"
proof -
  let ?xs = "take i Is" and ?ys = "take (u - Suc i) (drop (Suc i) Is)" and ?zs = "drop (Suc u) Is"
  have 1: "Is = ?xs @ Is ! i # drop (Suc i) Is" using assms by (simp add: id_take_nth_drop)
  have 2: "drop (Suc i) Is = ?ys @ Is ! u # ?zs" using assms id_take_nth_drop [of "u - Suc i" "drop (Suc i) Is"] by simp
  have eq: "Is = ?xs @ Is ! i # ?ys @ Is ! u # ?zs" using 1 2 by metis
  have "Is[i := a, u := b] = ?xs @ a # ?ys @ b # ?zs" for a b
  proof -
    have idx: "i = length ?xs" "u = length ?xs + Suc (length ?ys)" using assms by simp_all
    have "(?xs @ x # ?ys @ y # ?zs)[i := a, u := b] = ?xs @ a # ?ys @ b # ?zs" for x y
      by (subst (2) idx(1), subst (2) idx(2)) (rule update_two)
    then show ?thesis using eq by metis
  qed
  moreover have "\<exists>k. i < k \<and> k < u \<and> J = Is ! k" if J: "J \<in> set ?ys" for J
  proof -
    obtain k where "k < u - Suc i" "J = Is ! (Suc i + k)" using J assms by (auto simp: in_set_conv_nth)
    then show ?thesis by (intro exI [of _ "Suc i + k"]) auto
  qed
  ultimately show ?thesis using that eq by blast
qed

lemma fold_run:
  assumes F: "reads_counted F" "operands_stay F Is" and ok: "fold_ok Is i u U'"
  obtains t where "t \<notin> counted_all (Is[i := irMakeNop (Is ! i), u := U'])"
    "\<And>st. rel_result (agree_off {t}) (steps F Is st) (steps F (Is[i := irMakeNop (Is ! i), u := U']) st)"
    "\<And>t. occ_all (Is[i := irMakeNop (Is ! i), u := U']) t \<le> occ_all Is t"
proof -
  let ?I = "Is ! i" and ?U = "Is ! u" and ?new = "Is[i := irMakeNop (Is ! i), u := U']"
  obtain d a b p p' where iu: "i < u" "u < length Is" and I: "foldable (i_op ?I)" "i_dst ?I = Some d" "val_kind d = IR_VAL_TMP"
      "i_r1 ?I = Some a" "i_r2 ?I = Some b"
    and U: "same_access ?U U'" "base_of ?U = Some p" "base_of U' = Some p'" and occ: "occ_all Is (irVarId (Some d)) \<le> 1"
    and uses: "\<And>t. use_occ U' t + tocc (Some d) t \<le> use_occ ?U t + use_occ ?I t"
    and addr: "\<And>s. value_of s d = arith (i_op ?I) (value_of s a) (value_of s b) \<Longrightarrow> address s p ?U = address s p' U'"
    using ok unfolding fold_ok_def by blast
  obtain xs ys zs where sp: "Is = xs @ ?I # ys @ ?U # zs" "\<And>a b. Is[i := a, u := b] = xs @ a # ys @ b # zs"
    "\<And>J. J \<in> set ys \<Longrightarrow> \<exists>k. i < k \<and> k < u \<and> J = Is ! k" using split_two [OF iu] by blast
  define t where "t = irVarId (Some d)"
  have new: "?new = xs @ irMakeNop ?I # ys @ U' # zs" by (rule sp(2))
  have sums: "occ_all Is n = occ_all xs n + use_occ ?I n + occ_all ys n + use_occ ?U n + occ_all zs n"
    "occ_all ?new n = occ_all xs n + occ_all ys n + use_occ U' n + occ_all zs n" for n
    unfolding new by (subst sp(1), simp)+
  have less: "occ_all ?new n \<le> occ_all Is n" for n unfolding sums using uses [of n] by linarith
  have "tocc (Some d) t = 1" using I(3) by (simp add: tocc_def t_def)
  then have zero: "occ_all ys t = 0" "use_occ U' t = 0" "occ_all zs t = 0" "occ_all ?new t = 0"
    using occ uses [of t] unfolding t_def [symmetric] sums by linarith+
  have off: "{t} \<inter> counted_all ys = {}" "{t} \<inter> counted U' = {}" "{t} \<inter> counted_all zs = {}" "t \<notin> counted_all ?new"
    using zero occ_counted by blast+
  have stay: "untouched F J v" if J: "J = ?I \<and> v \<noteq> d \<or> J \<in> set ys" and v: "v = a \<or> v = b \<or> v = d" for J v
  proof -
    obtain k where k: "i \<le> k" "k < length Is" "J = Is ! k" "v = d \<Longrightarrow> i < k"
    proof (cases "J \<in> set ys")
      case True
      then obtain k where "i < k" "k < u" "J = Is ! k" using sp(3) by blast
      then show thesis using iu(2) by (intro that [of k]) simp_all
    next
      case False
      then show thesis using J iu by (intro that [of i]) simp_all
    qed
    have "i < length Is" using iu by linarith
    from stays_at [OF F(2) this I(1) k(1,2), of v] show ?thesis using I k v by auto
  qed
  have ab: "untouched F ?I a" "untouched F ?I b"
    using stays_at [OF F(2) _ I(1) order_refl] I iu by simp_all
  have run: "rel_result (agree_off {t}) (steps F Is st) (steps F ?new st)" for st
  proof (cases "steps F xs st")
    case (Inr s)
    let ?s1 = "assign s d (arith (i_op ?I) (value_of s a) (value_of s b))"
    have "is_arith (i_op ?I)" "i_op ?I \<noteq> IR_NOP" using I(1) by (auto simp: foldable_def is_arith_def)
    then have i: "step F ?I s = Inr ?s1" using I by (simp add: step_def)
    have made: "step F (irMakeNop ?I) s = Inr s" by (simp add: step_def irMakeNop_def)
    have ag: "agree_off {t} ?s1 s" using I(3) by (simp add: agree_off_def assign_def t_def)
    have d1: "value_of ?s1 d = arith (i_op ?I) (value_of ?s1 a) (value_of ?s1 b)"
      using untouched_step [OF ab(1) i] untouched_step [OF ab(2) i] I(3) by (simp add: value_of_def assign_def)
    have "rel_result (agree_off {t}) (steps F (ys @ ?U # zs) ?s1) (steps F (ys @ U' # zs) s)"
      unfolding steps_app
    proof (rule rel_result_bind [OF steps_agree [OF F(1) ag off(1)]])
      fix r r'
      assume r: "steps F ys ?s1 = Inr r" and rr: "agree_off {t} r r'"
      have "value_of r v = value_of ?s1 v" if "v = a \<or> v = b \<or> v = d" for v
        by (rule steps_untouched [OF _ r]) (use stay that in blast)
      then have "address r p ?U = address r p' U'" using addr d1 by simp
      from access_agree [OF U rr off(2) this] show "rel_result (agree_off {t}) (steps F (?U # zs) r) (steps F (U' # zs) r')"
        unfolding steps.simps by (rule rel_result_bind) (rule steps_agree [OF F(1) _ off(3)])
    qed
    then show ?thesis unfolding new by (subst sp(1)) (simp add: steps_app Inr i made)
  qed (unfold new, subst sp(1), simp add: steps_app)
  show ?thesis by (rule that [OF off(4) run less])
qed

lemma fold_stays:
  assumes F: "operands_stay F Is" and ok: "fold_ok Is i u U'"
  shows "operands_stay F (Is[i := irMakeNop (Is ! i), u := U'])"
proof -
  let ?new = "Is[i := irMakeNop (Is ! i), u := U']"
  have U: "same_access (Is ! u) U'" "i < u" "u < length Is" using ok by (auto simp: fold_ok_def)
  have old: "?new ! k = Is ! k" if "foldable (i_op (?new ! k))" "k < length Is" for k
    using that U by (auto simp: nth_list_update irMakeNop_def foldable_def same_access_def accesses_def split: if_splits)
  have keep: "untouched F (?new ! j) v" if "untouched F (Is ! j) v" "j < length Is" for j v
  proof -
    have "untouched F (irMakeNop I) v" for I by (simp add: untouched_def assigns_def irMakeNop_def)
    moreover have "untouched F U' v" if "untouched F (Is ! u) v"
      using that U(1) by (auto simp: untouched_def assigns_def same_access_def accesses_def split: if_splits)
    ultimately show ?thesis using that by (cases "j = u"; cases "j = i") simp_all
  qed
  show ?thesis
    unfolding operands_stay_def
  proof (intro allI impI, goal_cases)
    case (1 k)
    then have k: "k < length Is" "?new ! k = Is ! k" using old by simp_all
    then show ?case using F 1(2) keep unfolding operands_stay_def by (metis length_list_update)
  qed
qed

section \<open>The two folds\<close>

lemma same_accessI:
  assumes "accesses (i_op U)"
  shows "same_access U ((retarget U v)\<lparr>i_disp := k\<rparr>)" "same_access U ((retarget U v)\<lparr>i_idx := x, i_scale := s\<rparr>)"
    "base_of ((retarget U v)\<lparr>i_disp := k\<rparr>) = v" "base_of ((retarget U v)\<lparr>i_idx := x, i_scale := s\<rparr>) = v"
  using assms by (auto simp: same_access_def retarget_def base_of_def)

lemma access_uses:
  assumes "accesses (i_op U)"
  shows "use_occ U t = tocc (base_of U) t + tocc (i_r2 U) t + tocc (i_idx U) t + (if i_op U = IR_LOAD_DEREF then 0 else tocc (i_r1 U) t)"
  using assms use_occ_access(1) [of U t] use_occ_access(2) [of U t] by (auto simp: accesses_def base_of_def)

lemma retarget_uses:
  assumes "accesses (i_op U)"
  shows "use_occ ((retarget U v)\<lparr>i_disp := k\<rparr>) t =
      tocc v t + tocc (i_r2 U) t + tocc (i_idx U) t + (if i_op U = IR_LOAD_DEREF then 0 else tocc (i_r1 U) t)"
    "use_occ ((retarget U v)\<lparr>i_idx := x, i_scale := s\<rparr>) t =
      tocc v t + tocc (i_r2 U) t + tocc x t + (if i_op U = IR_LOAD_DEREF then 0 else tocc (i_r1 U) t)"
  using access_uses [of "(retarget U v)\<lparr>i_disp := k\<rparr>" t] access_uses [of "(retarget U v)\<lparr>i_idx := x, i_scale := s\<rparr>" t]
    same_accessI(3,4) [OF assms] assms by (auto simp: retarget_def)

lemma foldable_uses: "foldable (i_op I) \<Longrightarrow> use_occ I t = tocc (i_r1 I) t + tocc (i_r2 I) t + tocc (i_idx I) t"
  by (rule use_occ_access(2)) (auto simp: foldable_def is_arith_def)

text \<open>An addition of a constant is the displacement.\<close>

lemma disp_word:
  assumes "- (2 ^ 31) \<le> k" "k < 2 ^ 31"
  shows "(scast (word_of_int k :: u32) :: u64) = word_of_int k"
proof -
  have "sint (word_of_int k :: u32) = k" using assms by (simp add: int_word_sint)
  then show ?thesis by (simp add: scast_eq)
qed

lemma disp_value:
  assumes I: "i_op I \<in> {IR_IADD, IR_ISUB}" "i_r1 I = Some a" "i_r2 I = Some b" "disp_operand I = Some (base, k)"
  obtains p where "base = Some p" "p = a \<or> p = b"
    "\<And>s. arith (i_op I) (value_of s a) (value_of s b) = value_of s p + word_of_int k"
proof -
  have const: "value_of s v = const_of (Some v)" if "irIsConstInt (Some v)" for s v using that by (simp add: value_of_def)
  consider "i_op I = IR_IADD" "irIsConstInt (i_r2 I)" "base = Some a" "k = sint (const_of (Some b))"
    | "i_op I = IR_IADD" "irIsConstInt (i_r1 I)" "base = Some b" "k = sint (const_of (Some a))"
    | "i_op I = IR_ISUB" "irIsConstInt (i_r2 I)" "base = Some a" "k = - sint (const_of (Some b))"
    using I by (auto simp: disp_operand_def split: if_splits)
  then show ?thesis
  proof cases
    case 1
    then show ?thesis using that [of a] const [of b] I(3) by (simp add: arith_def)
  next
    case 2
    then show ?thesis using that [of b] const [of a] I(2) by (simp add: arith_def add.commute)
  next
    case 3
    then show ?thesis using that [of a] const [of b] I(3) by (simp add: arith_def)
  qed
qed

text \<open>What both folds start from: an addition and the access that is its only reader.\<close>

definition addition_read :: "ir_instr list \<Rightarrow> nat \<Rightarrow> nat \<Rightarrow> bool" where
  "addition_read Is i u \<longleftrightarrow> i < u \<and> u < length Is \<and> i_op (Is ! i) \<in> {IR_IADD, IR_ISUB} \<and> accesses (i_op (Is ! u)) \<and>
     irIsTmp (i_dst (Is ! i)) \<and> base_of (Is ! u) = i_dst (Is ! i) \<and> occ_all Is (irVarId (i_dst (Is ! i))) \<le> 1 \<and>
     i_r1 (Is ! i) \<noteq> None \<and> i_r2 (Is ! i) \<noteq> None"

lemma addition_readE:
  assumes "addition_read Is i u"
  obtains d a b where "i < u" "u < length Is" "i_op (Is ! i) \<in> {IR_IADD, IR_ISUB}" "foldable (i_op (Is ! i))" "accesses (i_op (Is ! u))"
    "i_dst (Is ! i) = Some d" "val_kind d = IR_VAL_TMP" "base_of (Is ! u) = Some d" "occ_all Is (irVarId (Some d)) \<le> 1"
    "i_r1 (Is ! i) = Some a" "i_r2 (Is ! i) = Some b"
  using assms by (auto simp: addition_read_def foldable_def elim!: irIsTmpE)

lemma disp_fold_ok:
  assumes r: "addition_read Is i u" and f: "disp_fold C (Is ! i) xs (Is ! u) = Some U'"
  shows "fold_ok Is i u U'"
proof -
  obtain d a b where I: "i < u" "u < length Is" "i_op (Is ! i) \<in> {IR_IADD, IR_ISUB}" "foldable (i_op (Is ! i))" "accesses (i_op (Is ! u))"
    "i_dst (Is ! i) = Some d" "val_kind d = IR_VAL_TMP" "base_of (Is ! u) = Some d" "occ_all Is (irVarId (Some d)) \<le> 1"
    "i_r1 (Is ! i) = Some a" "i_r2 (Is ! i) = Some b" by (rule addition_readE [OF r])
  obtain base k where bk: "i_disp (Is ! u) = 0" "disp_operand (Is ! i) = Some (base, k)" "- (2 ^ 31) \<le> k" "k < 2 ^ 31"
    "U' = (retarget (Is ! u) base)\<lparr>i_disp := word_of_int k\<rparr>"
    using f by (auto simp: disp_fold_def split: option.splits if_splits)
  obtain p where p: "base = Some p" "p = a \<or> p = b"
    "\<And>s. arith (i_op (Is ! i)) (value_of s a) (value_of s b) = value_of s p + word_of_int k"
    by (rule disp_value [OF I(3,10,11) bk(2)]) blast
  have idx: "i_idx U' = i_idx (Is ! u)" "i_scale U' = i_scale (Is ! u)" "i_disp U' = word_of_int k"
    by (simp_all add: bk(5) retarget_def)
  have "address s d (Is ! u) = address s p U'" if "value_of s d = arith (i_op (Is ! i)) (value_of s a) (value_of s b)" for s
    using that by (simp add: address_def p(3) idx bk(1) disp_word [OF bk(3,4)] split: option.split)
  moreover have "use_occ U' t + tocc (Some d) t \<le> use_occ (Is ! u) t + use_occ (Is ! i) t" for t
    using p(2) I(8,10,11) unfolding bk(5) retarget_uses(1) [OF I(5)] access_uses [OF I(5)] foldable_uses [OF I(4)] p(1) by auto
  moreover note same_accessI(1,3) [OF I(5), where v = base and k = "word_of_int k", folded bk(5)]
  ultimately show ?thesis unfolding fold_ok_def using I p(1) by auto
qed

text \<open>A scaled index: first the scaled value becomes the index, then what it was scaled from.\<close>

lemma index_fold_ok:
  assumes r: "addition_read Is i u" and op: "i_op (Is ! i) = IR_IADD" "i_scale (Is ! u) = 0"
    and sc: "(scaled, base) = (i_r2 (Is ! i), i_r1 (Is ! i)) \<or> (scaled, base) = (i_r1 (Is ! i), i_r2 (Is ! i))"
  shows "fold_ok Is i u ((retarget (Is ! u) base)\<lparr>i_idx := scaled, i_scale := 1\<rparr>)"
proof -
  let ?U = "(retarget (Is ! u) base)\<lparr>i_idx := scaled, i_scale := 1\<rparr>"
  obtain d a b where I: "i < u" "u < length Is" "i_op (Is ! i) \<in> {IR_IADD, IR_ISUB}" "foldable (i_op (Is ! i))" "accesses (i_op (Is ! u))"
    "i_dst (Is ! i) = Some d" "val_kind d = IR_VAL_TMP" "base_of (Is ! u) = Some d" "occ_all Is (irVarId (Some d)) \<le> 1"
    "i_r1 (Is ! i) = Some a" "i_r2 (Is ! i) = Some b" by (rule addition_readE [OF r])
  obtain c p where cp: "scaled = Some c" "base = Some p" "(c, p) = (a, b) \<or> (c, p) = (b, a)" using sc I(10,11) by auto
  have disp: "i_disp ?U = i_disp (Is ! u)" by (simp add: retarget_def)
  have "address s d (Is ! u) = address s p ?U" if "value_of s d = arith (i_op (Is ! i)) (value_of s a) (value_of s b)" for s
    using that cp(3) op by (auto simp: address_def arith_def cp(1) disp retarget_def split: option.split)
  moreover have "use_occ ?U t + tocc (Some d) t \<le> use_occ (Is ! u) t + use_occ (Is ! i) t" for t
    using cp I(8,10,11) unfolding retarget_uses(2) [OF I(5)] access_uses [OF I(5)] foldable_uses [OF I(4)] by auto
  moreover note same_accessI(2,4) [OF I(5), where v = base and x = scaled and s = 1]
  ultimately show ?thesis unfolding fold_ok_def using I cp(2) by auto
qed

lemma scaled_value:
  assumes "i_op C = IR_SHL \<and> (\<exists>n \<le> 3. sint (w :: u64) = int n \<and> s = push_bit n 1) \<or>
      i_op C = IR_IMUL \<and> sint w \<in> {1, 2, 4, 8} \<and> s = word_of_int (sint w)"
  shows "arith (i_op C) x w = ucast (s :: u8) * x"
  using assms
proof (elim disjE conjE exE)
  fix n assume n: "n \<le> 3" "sint w = int n" "s = push_bit n 1" and op: "i_op C = IR_SHL"
  have w: "w = word_of_nat n" using n(2) by (metis of_int_sint of_int_of_nat_eq scast_id)
  have "n = 0 \<or> n = 1 \<or> n = 2 \<or> n = 3" using n(1) by linarith
  then show ?thesis using op n(3) w by (auto simp: arith_def push_bit_eq_mult mult.commute)
next
  assume w: "sint w \<in> {1, 2, 4, 8}" "s = word_of_int (sint w)" and op: "i_op C = IR_IMUL"
  have "w = word_of_int (sint w)" by simp
  then have "w \<in> {1, 2, 4, 8}" using w(1) by (metis (no_types, lifting) empty_iff insert_iff of_int_1 of_int_numeral)
  then show ?thesis using op w(2) by (auto simp: arith_def mult.commute)
qed

section \<open>The pass\<close>

definition addr_inv :: "fmachine \<Rightarrow> ir_instr list \<Rightarrow> ir_instr list \<Rightarrow> bool" where
  "addr_inv F orig Is \<longleftrightarrow> (\<forall>t. occ_all Is t \<le> occ_all orig t) \<and> operands_stay F Is \<and>
     (\<exists>T. T \<inter> counted_all Is = {} \<and> (\<forall>st. rel_result (agree_off T) (steps F orig st) (steps F Is st)))"

lemma fold_inv:
  assumes F: "reads_counted F" and inv: "addr_inv F orig Is" and ok: "fold_ok Is i u U'"
  shows "addr_inv F orig (Is[i := irMakeNop (Is ! i), u := U'])"
proof -
  let ?new = "Is[i := irMakeNop (Is ! i), u := U']"
  have stay: "operands_stay F Is" using inv by (simp add: addr_inv_def)
  obtain t where t: "t \<notin> counted_all ?new" "\<And>st. rel_result (agree_off {t}) (steps F Is st) (steps F ?new st)"
    "\<And>t. occ_all ?new t \<le> occ_all Is t" by (rule fold_run [OF F stay ok]) blast
  obtain T where T: "T \<inter> counted_all Is = {}" "\<forall>st. rel_result (agree_off T) (steps F orig st) (steps F Is st)"
    using inv unfolding addr_inv_def by blast
  have "occ_all ?new n = 0" if "n \<in> T" for n
    using that T(1) t(3) [of n] occ_counted(1) [of Is n] by fastforce
  then have "(T \<union> {t}) \<inter> counted_all ?new = {}" using t(1) occ_counted(1) by blast
  moreover have "rel_result (agree_off (T \<union> {t})) (steps F orig st) (steps F ?new st)" for st
    using rel_off_trans [OF spec [OF T(2)] t(2)] .
  moreover have "occ_all ?new n \<le> occ_all orig n" for n using t(3) [of n] inv by (meson addr_inv_def le_trans)
  ultimately show ?thesis unfolding addr_inv_def using fold_stays [OF stay ok] by blast
qed

lemma operands_stayD:
  assumes "operands_stay F Is" "i < length Is" "foldable (i_op (Is ! i))"
  shows "i_r1 (Is ! i) \<noteq> None" "i_r2 (Is ! i) \<noteq> None"
    "i \<le> j \<Longrightarrow> j < length Is \<Longrightarrow> i_r1 (Is ! i) = Some v \<or> i_r2 (Is ! i) = Some v \<Longrightarrow> untouched F (Is ! j) v"
  using assms unfolding operands_stay_def by blast+

lemma scale_inv:
  assumes F: "reads_counted F" and inv: "addr_inv F orig Is" and r: "addition_read Is i u"
    and op: "i_op (Is ! i) = IR_IADD" "i_scale (Is ! u) = 0"
    and sc: "(scaled, base) = (i_r2 (Is ! i), i_r1 (Is ! i)) \<or> (scaled, base) = (i_r1 (Is ! i), i_r2 (Is ! i))"
    and p: "p < length Is" "produces (Is ! p)" "irDstVarId (Is ! p) = irVarId scaled" "irIsTmp scaled" "occ_all Is (irVarId scaled) \<le> 1"
    and C: "i_op (Is ! p) = IR_SHL \<and> (\<exists>n \<le> 3. sint (const_of (i_r2 (Is ! p))) = int n \<and> s = push_bit n 1) \<or>
      i_op (Is ! p) = IR_IMUL \<and> sint (const_of (i_r2 (Is ! p))) \<in> {1, 2, 4, 8} \<and> s = word_of_int (sint (const_of (i_r2 (Is ! p))))"
      "irIsConstInt (i_r2 (Is ! p))"
  shows "addr_inv F orig (Is[u := (retarget (Is ! u) base)\<lparr>i_idx := i_r1 (Is ! p), i_scale := s\<rparr>,
    p := irMakeNop (Is ! p), i := irMakeNop (Is ! i)])"
proof -
  let ?U1 = "(retarget (Is ! u) base)\<lparr>i_idx := scaled, i_scale := 1\<rparr>" and ?U2 = "(retarget (Is ! u) base)\<lparr>i_idx := i_r1 (Is ! p), i_scale := s\<rparr>"
  let ?Is1 = "Is[i := irMakeNop (Is ! i), u := ?U1]"
  have iu: "i < u" "u < length Is" and acc: "accesses (i_op (Is ! u))" and ops: "i_r1 (Is ! i) \<noteq> None" "i_r2 (Is ! i) \<noteq> None"
    using r by (auto simp: addition_read_def)
  have stay: "operands_stay F Is" using inv by (simp add: addr_inv_def)
  have f: "foldable (i_op (Is ! p))" using C(1) by (auto simp: foldable_def)
  have ne: "p \<noteq> i" "p \<noteq> u" using C(1) op(1) acc by (auto simp: accesses_def)
  obtain c e where c: "scaled = Some c" "val_kind c = IR_VAL_TMP" and e: "i_dst (Is ! p) = Some e" "val_kind e = IR_VAL_TMP"
    "irVarId (Some e) = irVarId (Some c)"
    using p(2-4) by (auto simp: produces_def irDstVarId_def elim!: irIsTmpE)
  have "p < i"
  proof (rule ccontr)
    assume "\<not> p < i"
    then have "i \<le> p" by simp
    moreover have "foldable (i_op (Is ! i))" "i < length Is" using op(1) iu by (simp_all add: foldable_def)
    ultimately have "untouched F (Is ! p) c" using operands_stayD(3) [OF stay _ _ _ p(1), of i c] sc c(1) by auto
    then show False using e c(2) f by (auto simp: untouched_def assigns_def foldable_def)
  qed
  have inv1: "addr_inv F orig ?Is1" by (rule fold_inv [OF F inv index_fold_ok [OF r op sc]])
  have at: "?Is1 ! p = Is ! p" "?Is1 ! u = ?U1" using ne iu p(1) by simp_all
  obtain x w where xw: "i_r1 (Is ! p) = Some x" "i_r2 (Is ! p) = Some w" "val_kind w = IR_VAL_CONST_INT"
    using operands_stayD(1,2) [OF stay p(1) f] C(2) by (auto elim!: irIsConstIntE)
  obtain q where q: "base = Some q" using sc ops by auto
  have acc1: "accesses (i_op ?U1)" using acc by simp
  have occ1: "occ_all ?Is1 (irVarId (Some e)) \<le> 1"
  proof -
    obtain t where "\<And>t. occ_all ?Is1 t \<le> occ_all Is t" by (rule fold_run [OF F stay index_fold_ok [OF r op sc]]) blast
    then show ?thesis using p(5) e(3) c(1) by (metis le_trans)
  qed
  have "address st q ?U1 = address st q ?U2" if "value_of st e = arith (i_op (Is ! p)) (value_of st x) (value_of st w)" for st
  proof -
    have "value_of st c = value_of st e" using c(2) e(2,3) by (simp add: value_of_def)
    also have "\<dots> = ucast s * value_of st x"
      using that scaled_value [OF C(1)] xw by (simp add: value_of_def)
    finally show ?thesis by (simp add: address_def retarget_def c(1) xw(1))
  qed
  moreover have "use_occ ?U2 t + tocc (Some e) t \<le> use_occ ?U1 t + use_occ (Is ! p) t" for t
  proof -
    have "tocc (Some e) t = tocc scaled t" using c e by (simp add: tocc_def)
    then show ?thesis unfolding retarget_uses(2) [OF acc] foldable_uses [OF f] by simp
  qed
  moreover have "same_access ?U1 ?U2" using acc by (auto simp: same_access_def retarget_def)
  ultimately have "fold_ok ?Is1 p u ?U2"
    unfolding fold_ok_def at using \<open>p < i\<close> iu f e xw q occ1 same_accessI(4) [OF acc] by auto
  then have "addr_inv F orig (?Is1[p := irMakeNop (?Is1 ! p), u := ?U2])" by (rule fold_inv [OF F inv1])
  moreover have "?Is1[p := irMakeNop (?Is1 ! p), u := ?U2] = Is[u := ?U2, p := irMakeNop (Is ! p), i := irMakeNop (Is ! i)]"
    using ne iu unfolding at by (metis (no_types, lifting) list_update_overwrite list_update_swap less_irrefl)
  ultimately show ?thesis by simp
qed

definition addr_pass_inv :: "fmachine \<Rightarrow> ir_block list \<Rightarrow> (u32 \<rightharpoonup> instr_pos) \<Rightarrow> ir_block list \<Rightarrow> bool" where
  "addr_pass_inv F orig D fn \<longleftrightarrow> addr_inv F (cg_instrs orig) (cg_instrs fn) \<and>
     (\<forall>t p. D t = Some p \<longrightarrow> in_range fn p \<and> (i_op (instr_at fn p) = IR_NOP \<or> defined_at fn t p))"

lemma addr_once:
  assumes "addr_pass_inv F orig D fn" "irIsTmp v" "irTmpUseCount (irBuildTmpUseCounts orig) v = 1"
  shows "occ_all (cg_instrs fn) (irVarId v) \<le> 1"
proof -
  have "occ_all (cg_instrs fn) (irVarId v) \<le> occ_all (cg_instrs orig) (irVarId v)" using assms(1) by (simp add: addr_pass_inv_def addr_inv_def)
  then show ?thesis using use_count_exact [OF assms(2), of orig] assms(3) by simp
qed

text \<open>Definitions stay where they are unless they are removed.\<close>

lemma defs_stay:
  assumes "\<forall>t p. D t = Some p \<longrightarrow> in_range fn p \<and> (i_op (instr_at fn p) = IR_NOP \<or> defined_at fn t p)"
    and "in_range fn user" "same_access (instr_at fn user) U'" "set ps \<subseteq> {p. in_range fn p}"
  shows "D t = Some p \<longrightarrow> in_range (fold (\<lambda>p fn. make_nop fn p) ps (put_instr fn user U')) p \<and>
    (i_op (instr_at (fold (\<lambda>p fn. make_nop fn p) ps (put_instr fn user U')) p) = IR_NOP \<or>
     defined_at (fold (\<lambda>p fn. make_nop fn p) ps (put_instr fn user U')) t p)"
proof -
  have nops: "in_range (fold (\<lambda>p fn. make_nop fn p) ps g) q = in_range g q \<and>
      (in_range g q \<longrightarrow> instr_at (fold (\<lambda>p fn. make_nop fn p) ps g) q = instr_at g q \<or>
        i_op (instr_at (fold (\<lambda>p fn. make_nop fn p) ps g) q) = IR_NOP)" for g q
  proof (induction ps arbitrary: g)
    case (Cons p ps)
    have "in_range g q \<longrightarrow> instr_at (make_nop g p) q = instr_at g q \<or> i_op (instr_at (make_nop g p) q) = IR_NOP"
      by (auto simp: make_nop_def instr_at_put irMakeNop_def)
    moreover have "i_op (instr_at (make_nop g p) q) = IR_NOP \<longrightarrow> in_range g q \<longrightarrow> i_op (instr_at (fold (\<lambda>p fn. make_nop fn p) ps (make_nop g p)) q) = IR_NOP"
      using Cons.IH [of "make_nop g p"] by auto
    ultimately show ?case using Cons.IH [of "make_nop g p"] by auto
  qed simp
  show ?thesis
  proof
    assume D: "D t = Some p"
    then have p: "in_range fn p" "i_op (instr_at fn p) = IR_NOP \<or> defined_at fn t p" using assms(1) by blast+
    have "i_op (instr_at (put_instr fn user U') p) = IR_NOP \<or> defined_at (put_instr fn user U') t p"
    proof (cases "p = user")
      case True
      then show ?thesis using p assms(3) by (auto simp: instr_at_put defined_at_def produces_def irDstVarId_def same_access_def accesses_def)
    next
      case False
      then show ?thesis using p by (auto simp: instr_at_put defined_at_def)
    qed
    then show "in_range (fold (\<lambda>p fn. make_nop fn p) ps (put_instr fn user U')) p \<and>
        (i_op (instr_at (fold (\<lambda>p fn. make_nop fn p) ps (put_instr fn user U')) p) = IR_NOP \<or>
         defined_at (fold (\<lambda>p fn. make_nop fn p) ps (put_instr fn user U')) t p)"
      using nops [of "put_instr fn user U'" p] p(1) by (auto simp: defined_at_def)
  qed
qed

text \<open>What the pass finds is an addition and its only reader.\<close>

lemma found_addition:
  assumes same: "\<forall>a b. same a b \<longrightarrow> a = b" and inv: "addr_pass_inv F orig D fn" and cur: "in_range fn cur"
    and I: "i_op (instr_at fn cur) \<in> {IR_IADD, IR_ISUB}" "irIsTmp (i_dst (instr_at fn cur))"
      "irTmpUseCount (irBuildTmpUseCounts orig) (i_dst (instr_at fn cur)) = 1" "i_r1 (instr_at fn cur) \<noteq> None" "i_r2 (instr_at fn cur) \<noteq> None"
    and j: "irFindMemConsumer same (drop (Suc (snd cur)) (bb_instructions (fn ! fst cur))) (i_dst (instr_at fn cur)) = Some j"
    and user: "user = (fst cur, Suc (snd cur + j))"
  shows "addition_read (cg_instrs fn) (flat fn cur) (flat fn user)" "cg_instrs fn ! flat fn cur = instr_at fn cur"
    "cg_instrs fn ! flat fn user = instr_at fn user" "in_range fn user" "accesses (i_op (instr_at fn user))"
proof -
  note con = consumer [OF cur j, folded user]
  show "in_range fn user" by (rule con(1))
  show at: "cg_instrs fn ! flat fn cur = instr_at fn cur" "cg_instrs fn ! flat fn user = instr_at fn user"
    using cur con(1) by (simp_all add: flat_nth)
  show acc: "accesses (i_op (instr_at fn user))" using con(3) by (simp add: accesses_def)
  have "base_of (instr_at fn user) = i_dst (instr_at fn cur)"
    using irFindMemConsumerD(2) [OF j] same unfolding con(2) by (auto simp: base_of_def)
  moreover have "flat fn cur < flat fn user" by (simp add: user flat_def)
  ultimately show "addition_read (cg_instrs fn) (flat fn cur) (flat fn user)"
    unfolding addition_read_def at using I acc flat_less [OF con(1)] addr_once [OF inv I(2,3)] by simp
qed

lemma addr_pass_step:
  assumes same: "\<forall>a b. same a b \<longrightarrow> a = b" and F: "reads_counted F"
    and inv: "addr_pass_inv F orig D fn" and cur: "in_range fn cur"
    and step: "fuse_iadd C same (irBuildTmpUseCounts orig) D cur (fn, c) = (fn', c')"
  shows "addr_pass_inv F orig D fn'"
  using cur step
proof (cases rule: fuse_iaddE)
  case (2 j J' user)
  note f = found_addition [OF same inv cur 2(3-9)]
  have li: "addr_inv F (cg_instrs orig) (cg_instrs fn)" and D: "\<forall>t p. D t = Some p \<longrightarrow> in_range fn p \<and> (i_op (instr_at fn p) = IR_NOP \<or> defined_at fn t p)"
    using inv unfolding addr_pass_inv_def by blast+
  have ok: "fold_ok (cg_instrs fn) (flat fn cur) (flat fn user) J'"
    by (rule disp_fold_ok [OF f(1), unfolded f(2,3), OF 2(11)])
  then have "same_access (instr_at fn user) J'" unfolding fold_ok_def f(3) by blast
  then have "\<forall>t p. D t = Some p \<longrightarrow> in_range fn' p \<and> (i_op (instr_at fn' p) = IR_NOP \<or> defined_at fn' t p)"
    using defs_stay [OF D 2(10), of J' "[cur]"] cur by (simp add: 2(2))
  moreover have ne: "flat fn cur \<noteq> flat fn user" "cur \<noteq> user" using f(1) by (auto simp: addition_read_def)
  then have "cg_instrs fn' = (cg_instrs fn)[flat fn cur := irMakeNop (cg_instrs fn ! flat fn cur), flat fn user := J']"
    using cur 2(10) by (simp add: 2(2) make_nop_def cg_put instr_at_put f(2) list_update_swap)
  ultimately show ?thesis using fold_inv [OF F li ok] unfolding addr_pass_inv_def by simp
next
  case (3 j J' user p)
  note f = found_addition [OF same inv cur 3(3-9)]
  have li: "addr_inv F (cg_instrs orig) (cg_instrs fn)" and D: "\<forall>t p. D t = Some p \<longrightarrow> in_range fn p \<and> (i_op (instr_at fn p) = IR_NOP \<or> defined_at fn t p)"
    using inv unfolding addr_pass_inv_def by blast+
  obtain scaled base s where sc: "i_op (instr_at fn cur) = IR_IADD" "i_scale (instr_at fn user) = 0"
    "(scaled, base) = (i_r2 (instr_at fn cur), i_r1 (instr_at fn cur)) \<or> (scaled, base) = (i_r1 (instr_at fn cur), i_r2 (instr_at fn cur))"
    "irFindScalingProducer fn D scaled = Some (p, s)" "irTmpUseCount (irBuildTmpUseCounts orig) scaled = 1"
    "J' = (retarget (instr_at fn user) base)\<lparr>i_idx := i_r1 (instr_at fn p), i_scale := s\<rparr>"
    by (rule scale_foldE [OF 3(11)]) blast
  note pr = scaling_producerD [OF sc(4)]
  have "i_op (instr_at fn p) \<noteq> IR_NOP" using pr(4) by auto
  then have dp: "defined_at fn (irVarId scaled) p" using D pr(2) by blast
  then have p: "in_range fn p" "produces (instr_at fn p)" "irDstVarId (instr_at fn p) = irVarId scaled" by (simp_all add: defined_at_def)
  have at: "cg_instrs fn ! flat fn p = instr_at fn p" by (rule flat_nth [OF p(1)])
  have ne: "p \<noteq> cur" "p \<noteq> user" "cur \<noteq> user" using pr(4) sc(1) f(1,5) by (auto simp: accesses_def addition_read_def)
  have "addr_inv F (cg_instrs orig) ((cg_instrs fn)[flat fn user := J', flat fn p := irMakeNop (instr_at fn p), flat fn cur := irMakeNop (instr_at fn cur)])"
    unfolding sc(6)
    by (rule scale_inv [OF F li f(1), where p = "flat fn p" and scaled = scaled and base = base and s = s, unfolded f(2,3) at,
        OF sc(1-3) flat_less [OF p(1)] p(2,3) pr(1) addr_once [OF inv pr(1) sc(5)] pr(4,3)])
  moreover have "cg_instrs fn' = (cg_instrs fn)[flat fn user := J', flat fn p := irMakeNop (instr_at fn p), flat fn cur := irMakeNop (instr_at fn cur)]"
    using cur 3(10) p(1) ne by (simp add: 3(2) make_nop_def cg_put instr_at_put)
  moreover have "same_access (instr_at fn user) J'" unfolding sc(6) by (rule same_accessI(2) [OF f(5)])
  then have "\<forall>t p. D t = Some p \<longrightarrow> in_range fn' p \<and> (i_op (instr_at fn' p) = IR_NOP \<or> defined_at fn' t p)"
    using defs_stay [OF D 3(10), of J' "[p, cur]"] cur p(1) by (simp add: 3(2))
  ultimately show ?thesis unfolding addr_pass_inv_def by simp
qed (use inv in simp)

lemma addr_pass_fold:
  assumes "\<forall>a b. same a b \<longrightarrow> a = b" "reads_counted F"
    and "addr_pass_inv F orig D fn" "\<forall>p \<in> set ps. in_range fn p" "fold (fuse_iadd C same (irBuildTmpUseCounts orig) D) ps (fn, c) = (fn', c')"
  shows "addr_pass_inv F orig D fn'"
  using assms(3-5)
proof (induction ps arbitrary: fn c)
  case (Cons p ps)
  obtain fn1 c1 where one: "fuse_iadd C same (irBuildTmpUseCounts orig) D p (fn, c) = (fn1, c1)" by fastforce
  have p: "in_range fn p" using Cons.prems(2) by simp
  have "shape fn1 = shape fn" using descendsD [OF fuse_iadd_descends p one] by auto
  then have "\<forall>q \<in> set ps. in_range fn1 q" using Cons.prems(2) by (simp add: in_range_shape)
  then show ?case using Cons.IH [OF addr_pass_step [OF assms(1,2) Cons.prems(1) p one]] Cons.prems(3) one by simp
qed simp

text \<open>
  C11. Fusing additions into addresses keeps the program when the operands keep their values: if from each addition and
  scaling on no instruction changes its operands, and none after it its result, running the instructions of the
  rewritten function in the order of its blocks from any state faults exactly when the original ones do, and otherwise
  leaves the same variables, the same bytes and the same value in every temporary that is still read.
\<close>

theorem irFuseIaddIntoMemAddressing_preserves:
  assumes "\<forall>a b. same a b \<longrightarrow> a = b" "reads_counted F" "operands_stay F (cg_instrs fn)"
    and "irFuseIaddIntoMemAddressing C same fn = (fn', c)"
  shows "rel_result (agree_off (- counted_all (cg_instrs fn'))) (steps F (cg_instrs fn) st) (steps F (cg_instrs fn') st)"
proof -
  have "rel_result (agree_off {}) a a" for a :: "fstate result" by (cases a) (simp_all add: agree_off_def)
  then have start: "addr_pass_inv F fn (irBuildTmpDefs fn) fn"
    using assms(3) irBuildTmpDefsD [of fn] unfolding addr_pass_inv_def addr_inv_def by (auto simp: defined_at_def)
  have "addr_pass_inv F fn (irBuildTmpDefs fn) fn'"
    by (rule addr_pass_fold [OF assms(1,2) start _ assms(4) [unfolded irFuseIaddIntoMemAddressing_def Let_def]])
      (simp add: positions_range)
  then obtain T where T: "T \<inter> counted_all (cg_instrs fn') = {}" "rel_result (agree_off T) (steps F (cg_instrs fn) st) (steps F (cg_instrs fn') st)"
    unfolding addr_pass_inv_def addr_inv_def by blast
  have "agree_off (- counted_all (cg_instrs fn')) x y" if "agree_off T x y" for x y
    using that T(1) unfolding agree_off_def by blast
  then show ?thesis using T(2) by (cases "steps F (cg_instrs fn) st"; cases "steps F (cg_instrs fn') st") auto
qed

section \<open>Examples\<close>

text \<open>\<open>r = p[i]\<close> for a pointer \<open>p\<close> to 8 byte integers.\<close>

definition element_code :: "ir_instr list" where
  "element_code =
     [irInstrNew 1 IR_SHL (wit_tmp 5) (wit_var IR_VAL_LOCAL 2) (wit_const 3),
      irInstrNew 1 IR_IADD (wit_tmp 6) (wit_var IR_VAL_LOCAL 1) (wit_tmp 5),
      irInstrNew 1 IR_LOAD_DEREF (wit_tmp 7) (wit_tmp 6) None]"

definition element_fused :: "ir_instr list" where
  "element_fused =
     [irMakeNop (element_code ! 0), irMakeNop (element_code ! 1),
      (irInstrNew 1 IR_LOAD_DEREF (wit_tmp 7) (wit_var IR_VAL_LOCAL 1) None)\<lparr>i_idx := wit_var IR_VAL_LOCAL 2, i_scale := 8\<rparr>]"

lemmas addr_pass_defs = Let_def const_of_def irFuseIaddIntoMemAddressing_def irBuildTmpUseCounts_def irBuildTmpDefs_def positions_def one_block_def cg_instrs_def
  irInstrNew_def counted_vals_def instr_args_def irBumpUse_def irVarId_def produces_def irDstVarId_def fuse_iadd_def instr_at_def
  irTmpUseCount_def disp_fold_def disp_operand_def scale_fold_def scale_operand_def irFindScalingProducer_def base_clobbered_def
  irLocIsScratchClobbered_def retarget_def tmp_size_def plain_opt_def make_nop_def put_instr_def irMakeNop_def
  wit_var_def wit_const_def wit_tmp_def irConstInt_def irValueNew_def

lemma element_is_fused:
  "irFuseIaddIntoMemAddressing plain_opt (=) [one_block element_code] = ([one_block element_fused], True)"
  by (simp add: element_code_def element_fused_def addr_pass_defs)

lemma element_stays: "operands_stay open_machine element_code"
  unfolding operands_stay_def
  by (auto simp: element_code_def foldable_def untouched_def assigns_def accesses_def is_arith_def irInstrNew_def wit_var_def wit_const_def
      wit_tmp_def irConstInt_def irValueNew_def irVarId_def less_Suc_eq nth_Cons')

theorem irFuseIaddIntoMemAddressing_preserves_witness:
  "irFuseIaddIntoMemAddressing plain_opt (=) [one_block element_code] = ([one_block element_fused], True) \<and>
   rel_result (agree_off (- counted_all element_fused)) (steps open_machine element_code sevens) (steps open_machine element_fused sevens)"
  using element_is_fused element_stays open_machine_ok(1)
    irFuseIaddIntoMemAddressing_preserves [of "(=)" open_machine "[one_block element_code]" plain_opt "[one_block element_fused]" True sevens]
  by (simp add: cg_instrs_def one_block_def)

text \<open>\<open>p->next = p = q\<close>, with the field \<open>next\<close> at offset 8, as the front end lowers it: the address is computed first.\<close>

definition append_code :: "ir_instr list" where
  "append_code =
     [irInstrNew 1 IR_IADD (wit_tmp 5) (wit_var IR_VAL_LOCAL 1) (wit_const 8),
      irInstrNew 1 IR_STORE (wit_var IR_VAL_LOCAL 1) (wit_var IR_VAL_LOCAL 2) None,
      irInstrNew 1 IR_STORE_DEREF (wit_tmp 5) (wit_var IR_VAL_LOCAL 2) None]"

definition append_fused :: "ir_instr list" where
  "append_fused =
     [irMakeNop (append_code ! 0), append_code ! 1,
      (irInstrNew 1 IR_STORE_DEREF (wit_var IR_VAL_LOCAL 1) (wit_var IR_VAL_LOCAL 2) None)\<lparr>i_disp := 8\<rparr>]"

text \<open>Two nodes at 4096 and 8192.\<close>

definition two_nodes :: fstate where
  "two_nodes = \<lparr>fs_tmps = (\<lambda>_. 0), fs_vars = (\<lambda>v. if irVarId (Some v) = 1 then 4096 else 8192), fs_bytes = (\<lambda>_. 0)\<rparr>"

text \<open>
  C12. Moving the read of the base past an assignment breaks \<open>p->next = p = q\<close>: the address of \<open>p->next\<close> is computed from
  the old \<open>p\<close>, but the fused store reads \<open>p\<close> after it was assigned. With \<open>p\<close> at 4096 and \<open>q\<close> at 8192 the code before the
  pass links the node at 4096 to the one at 8192, and the code after it links the node at 8192 to itself.
\<close>

theorem fusion_breaks_append:
  "\<exists>s s'. irFuseIaddIntoMemAddressing plain_opt (=) [one_block append_code] = ([one_block append_fused], True) \<and>
     steps open_machine append_code two_nodes = Inr s \<and> steps open_machine append_fused two_nodes = Inr s' \<and>
     load_bytes 8 (fs_bytes s) 4104 = 8192 \<and> load_bytes 8 (fs_bytes s) 8200 = 0 \<and>
     load_bytes 8 (fs_bytes s') 4104 = 0 \<and> load_bytes 8 (fs_bytes s') 8200 = 8192"
proof -
  have "irFuseIaddIntoMemAddressing plain_opt (=) [one_block append_code] = ([one_block append_fused], True)"
    by (simp add: append_code_def append_fused_def addr_pass_defs)
  moreover have size: "access_size (IrValue IR_TYPE_I64 k n NULL (As_var i 8)) = 8" for k n i
    by (simp add: access_size_def irValueByteSize_def)
  have "\<exists>s s'. steps open_machine append_code two_nodes = Inr s \<and> steps open_machine append_fused two_nodes = Inr s' \<and>
     load_bytes 8 (fs_bytes s) 4104 = 8192 \<and> load_bytes 8 (fs_bytes s) 8200 = 0 \<and>
     load_bytes 8 (fs_bytes s') 4104 = 0 \<and> load_bytes 8 (fs_bytes s') 8200 = 8192"
    by (simp add: append_code_def append_fused_def irInstrNew_def step_def is_arith_def wit_var_def wit_const_def wit_tmp_def size
        irMakeNop_def store_at_def open_machine_def two_nodes_def address_def value_of_def assign_def irVarId_def arith_def
        const_of_def irConstInt_def irValueNew_def bytes_unfold)
  ultimately show ?thesis by blast
qed

end
