(* ===== verification/IrFrame_Props.thy ===== *)
theory IrFrame_Props
  imports IrFrame IrRegAlloc_Props
begin

text \<open>
  The frame as a whole: the parameters, the locals and, below them, the buffers and slots of the temporaries never
  overlap, and the frame is as large as all of them, as long as its size fits the 16 bits it is stored in.
\<close>

section \<open>Objects in a range\<close>

text \<open>A variable with its offset and size; objects that follow each other from \<open>lo\<close> up to \<open>hi\<close>.\<close>

type_synonym frame_obj = "u32 \<times> int \<times> int"

fun ascending :: "int \<Rightarrow> int \<Rightarrow> frame_obj list \<Rightarrow> bool" where
  "ascending lo hi [] \<longleftrightarrow> lo \<le> hi"
| "ascending lo hi ((i, l, s) # os) \<longleftrightarrow> lo \<le> l \<and> 0 \<le> s \<and> ascending (l + s) hi os"

lemma ascending_le: "ascending lo hi os \<Longrightarrow> lo \<le> hi"
  by (induction lo hi os rule: ascending.induct) auto

lemma ascending_lower: "ascending lo hi os \<Longrightarrow> lo' \<le> lo \<Longrightarrow> ascending lo' hi os"
  by (cases os) auto

lemma ascending_append: "ascending lo mid xs \<Longrightarrow> ascending mid hi ys \<Longrightarrow> ascending lo hi (xs @ ys)"
  by (induction lo mid xs rule: ascending.induct) (auto intro: ascending_lower)

lemma ascending_bounds: "ascending lo hi os \<Longrightarrow> \<forall>(i, l, s) \<in> set os. lo \<le> l \<and> 0 \<le> s \<and> l + s \<le> hi"
  by (induction lo hi os rule: ascending.induct) (auto dest: ascending_le)

lemma ascending_sorted: "ascending lo hi os \<Longrightarrow> sorted_wrt (\<lambda>(i, l, s) (j, k, t). l + s \<le> k) os"
  by (induction lo hi os rule: ascending.induct) (auto dest!: ascending_bounds)

lemma align_bounds:
  assumes "0 \<le> n" "0 < m"
  shows "n \<le> align n m" "align n m < n + m" "m dvd align n m"
proof -
  obtain r where r: "r = n mod m" "0 \<le> r" "r < m" using assms by simp
  have eq: "align n m = (if r = 0 then n else n - r + m)" using assms r(1) by (simp add: align_def smod_mod_positive)
  show "n \<le> align n m" "align n m < n + m" using r(2,3) assms(2) eq by simp_all
  have "m dvd n - r" unfolding r(1) by (simp add: minus_mod_eq_mult_div)
  then show "m dvd align n m" unfolding eq by auto
qed

section \<open>The objects of the parameters and locals\<close>

definition param_objs :: "bool \<Rightarrow> ir_function \<Rightarrow> ast_node \<Rightarrow> frame_obj list" where
  "param_objs on_stack fn p =
     (case p of
        AST_VAR_ARGS argc argv \<Rightarrow>
          (case irFnGetVar fn (lvar_id argc) of
             Some (iv, pinned) \<Rightarrow> if on_stack then [] else [(irVarId (Some iv), node_loff argc, 8)] | None \<Rightarrow> [])
      | _ \<Rightarrow>
          (case irFnGetVar fn (irGetParamId p) of
             Some (iv, pinned) \<Rightarrow>
               if pinned \<or> \<not> irFnValueIsReferenced fn (Some iv) then [] else [(irVarId (Some iv), node_loff p, param_size p)]
           | None \<Rightarrow> []))"

definition local_objs :: "ir_function \<Rightarrow> ast_node \<Rightarrow> frame_obj list" where
  "local_objs fn l =
     (case irFnGetVar fn (irGetParamId l) of
        Some (iv, pinned) \<Rightarrow>
          if pinned \<or> \<not> irFnLocalSlotNeeded fn (Some iv) then [] else [(irVarId (Some iv), node_loff l, local_size l)]
      | None \<Rightarrow> [])"

definition hidden_objs :: "ir_function \<Rightarrow> ast_func \<Rightarrow> frame_obj list" where
  "hidden_objs fn af =
     (if has_hidden_out_ptr af \<and> irf_return_value fn \<noteq> None then [(irVarId (irf_return_value fn), af_loff af, 8)] else [])"

text \<open>All of them, from the lowest address to the highest.\<close>

definition frame_objs :: "bool \<Rightarrow> ir_function \<Rightarrow> ast_func \<Rightarrow> frame_obj list" where
  "frame_objs on_stack fn af =
     hidden_objs fn af @ concat (map (param_objs on_stack fn) (af_params af)) @
     concat (map (local_objs fn) (rev (af_locals af)))"

text \<open>
  What the front end gives the layout: sizes are not negative, the argument count and vector of a variadic function
  are plain variables, a local is no argument list, and a parameter whose node is pinned has a pinned value.
\<close>

definition nodes_wf :: "ir_function \<Rightarrow> ast_func \<Rightarrow> bool" where
  "nodes_wf fn af \<longleftrightarrow>
     list_all (\<lambda>p. 0 \<le> param_size p \<and>
       (param_pinned p \<longrightarrow> (case irFnGetVar fn (irGetParamId p) of None \<Rightarrow> True | Some (iv, pinned) \<Rightarrow> pinned)) \<and>
       (case p of AST_VAR_ARGS argc argv \<Rightarrow> is_AST_LVAR argc \<and> is_AST_LVAR argv | _ \<Rightarrow> True)) (af_params af) \<and>
     list_all (\<lambda>l. 0 \<le> local_size l \<and> \<not> is_var_args l) (af_locals af)"

lemma set_loff_simps [simp]:
  "irGetParamId (set_loff n k) = irGetParamId n" "lvar_id (set_loff n k) = lvar_id n"
  "local_size (set_loff n k) = local_size n" "param_size (set_loff n k) = param_size n"
  "\<not> is_var_args n \<Longrightarrow> node_loff (set_loff n k) = k" "is_AST_LVAR n \<Longrightarrow> node_loff (set_loff n k) = k"
  by (cases n; simp add: set_loff_def irGetParamId_def lvar_id_def local_size_def param_size_def is_var_args_def)+

lemma local_objs_skipped: "local_skipped fn l \<Longrightarrow> local_objs fn l = []"
  by (auto simp: local_skipped_def local_objs_def split: option.splits)

lemma local_objs_placed:
  "\<not> is_var_args l \<Longrightarrow> local_objs fn (set_loff l k) = [] \<or> (\<exists>i. local_objs fn (set_loff l k) = [(i, k, local_size l)])"
  by (auto simp: local_objs_def split: option.splits)

lemma layout_locals_ascending:
  assumes "layout_locals fn tot off ls = (tot', ls')" "\<forall>l \<in> set ls. 0 \<le> local_size l \<and> \<not> is_var_args l"
  shows "ascending (off - (tot' - tot)) off (concat (map (local_objs fn) (rev ls')))"
  using assms
proof (induction ls arbitrary: tot off tot' ls')
  case (Cons l ls)
  show ?case
  proof (cases "local_skipped fn l")
    case True
    then obtain ls1 where "layout_locals fn tot off ls = (tot', ls1)" "ls' = l # ls1"
      using Cons.prems(1) by (auto simp: Let_def split: prod.splits)
    then show ?thesis using Cons local_objs_skipped [OF True] by simp
  next
    case False
    let ?off = "off - local_size l" and ?tot = "tot + align (local_size l) 8"
    obtain ls1 where ls1: "layout_locals fn ?tot ?off ls = (tot', ls1)" "ls' = set_loff l ?off # ls1"
      using Cons.prems(1) False by (auto simp: Let_def split: prod.splits)
    have wf: "0 \<le> local_size l" "\<not> is_var_args l" using Cons.prems(2) by simp_all
    have "ascending (?off - (tot' - ?tot)) ?off (concat (map (local_objs fn) (rev ls1)))"
      using Cons.IH [OF ls1(1)] Cons.prems(2) by simp
    then have "ascending (off - (tot' - tot)) ?off (concat (map (local_objs fn) (rev ls1)))"
      by (rule ascending_lower) (use align_bounds(1) [OF wf(1), of 8] in simp)
    moreover have "ascending ?off off (local_objs fn (set_loff l ?off))"
      using local_objs_placed [OF wf(2), of fn ?off] wf(1) by auto
    ultimately show ?thesis using ls1(2) by (simp add: ascending_append)
  qed
qed simp

lemma params_total_add: "params_total on_stack fn t ps = t + params_total on_stack fn 0 ps"
proof (induction ps arbitrary: t)
  case (Cons p ps)
  show ?case
    using Cons [of "t + align (param_size p) 8"] Cons [of "align (param_size p) 8"] Cons [of t] by (cases on_stack) simp_all
qed simp

definition param_wf :: "ir_function \<Rightarrow> ast_node \<Rightarrow> bool" where
  "param_wf fn p \<longleftrightarrow> 0 \<le> param_size p \<and>
     (param_pinned p \<longrightarrow> (case irFnGetVar fn (irGetParamId p) of None \<Rightarrow> True | Some (iv, pinned) \<Rightarrow> pinned)) \<and>
     (case p of AST_VAR_ARGS argc argv \<Rightarrow> is_AST_LVAR argc \<and> is_AST_LVAR argv | _ \<Rightarrow> True)"

text \<open>A parameter either gets no object, or one at the current offset, of at most the space that is counted for it.\<close>

lemma param_objs_plain:
  "\<not> is_var_args p \<Longrightarrow> param_objs on_stack fn p =
     (case irFnGetVar fn (irGetParamId p) of
        Some (iv, pinned) \<Rightarrow>
          if pinned \<or> \<not> irFnValueIsReferenced fn (Some iv) then [] else [(irVarId (Some iv), node_loff p, param_size p)]
      | None \<Rightarrow> [])"
  by (cases p; hypsubst) (simp_all add: param_objs_def is_var_args_def)

lemma param_objs_skipped:
  assumes "param_wf fn p" "\<not> is_var_args p" "param_pinned p \<or> param_unreferenced fn p"
  shows "param_objs on_stack fn p = []"
  using assms by (auto simp: param_objs_plain param_wf_def param_unreferenced_def split: option.splits)

lemma param_objs_placed:
  assumes "\<not> is_var_args p"
  shows "param_objs on_stack fn (set_loff p k) = [] \<or> (\<exists>i. param_objs on_stack fn (set_loff p k) = [(i, k, param_size p)])"
proof -
  have "\<not> is_var_args (set_loff p k)" using assms by (cases p) (simp_all add: set_loff_def is_var_args_def)
  then show ?thesis using assms by (auto simp: param_objs_plain split: option.splits)
qed

lemma layout_params_ascending:
  assumes "\<forall>p \<in> set ps. param_wf fn p"
  shows "ascending (- offset) (- offset + params_total on_stack fn 0 ps)
    (concat (map (param_objs on_stack fn) (layout_params on_stack fn offset ps)))"
  using assms
proof (induction ps arbitrary: offset)
  case (Cons p ps)
  have wf: "param_wf fn p" and IH: "ascending (- k) (- k + params_total on_stack fn 0 ps)
      (concat (map (param_objs on_stack fn) (layout_params on_stack fn k ps)))" for k
    using Cons by simp_all
  have size: "0 \<le> param_size p" "param_size p \<le> align (param_size p) 8"
    using wf align_bounds(1) [of "param_size p" 8] by (simp_all add: param_wf_def)
  show ?case
  proof (cases "is_var_args p")
    case True
    then obtain argc argv where p: "p = AST_VAR_ARGS argc argv" by (cases p) (simp_all add: is_var_args_def)
    then have lv: "is_AST_LVAR argc" "\<not> param_pinned p" "align (param_size p) 8 = 8"
      using wf by (simp_all add: param_wf_def param_pinned_def param_size_def align_def)
    show ?thesis
    proof (cases on_stack)
      case True
      then have "param_objs on_stack fn (AST_VAR_ARGS (set_loff argc 16) (set_loff argv 24)) = []"
        by (simp add: param_objs_def split: option.split)
      then show ?thesis using p lv True IH [of offset] by (simp add: is_var_args_def)
    next
      case False
      let ?q = "AST_VAR_ARGS (set_loff argc (- offset)) (set_loff argv 16)"
      have "param_objs on_stack fn ?q = [] \<or> (\<exists>i. param_objs on_stack fn ?q = [(i, - offset, 8)])"
        using False lv(1) by (auto simp: param_objs_def split: option.splits)
      then have "ascending (- offset) (- offset + 8) (param_objs on_stack fn ?q)" by auto
      moreover have "ascending (- offset + 8) (- offset + params_total on_stack fn 0 (p # ps))
          (concat (map (param_objs on_stack fn) (layout_params on_stack fn (offset - 8) ps)))"
        using IH [of "offset - 8"] params_total_add [of on_stack fn 8 ps] lv False p
        by (simp add: is_var_args_def algebra_simps)
      ultimately show ?thesis using p False by (simp add: ascending_append)
    qed
  next
    case novar: False
    then have step: "layout_params on_stack fn offset (p # ps) =
        (if param_pinned p \<or> param_unreferenced fn p then p # layout_params on_stack fn offset ps
         else set_loff p (- offset) # layout_params on_stack fn (offset - align (param_size p) 8) ps)"
      by (cases p) (simp_all add: is_var_args_def)
    show ?thesis
    proof (cases "param_pinned p \<or> param_unreferenced fn p")
      case True
      then have "layout_params on_stack fn offset (p # ps) = p # layout_params on_stack fn offset ps"
        "params_total on_stack fn 0 (p # ps) = params_total on_stack fn 0 ps" using step novar by auto
      then show ?thesis using param_objs_skipped [OF wf novar True, of on_stack] IH [of offset] by simp
    next
      case False
      have "ascending (- offset) (- offset + align (param_size p) 8) (param_objs on_stack fn (set_loff p (- offset)))"
        using param_objs_placed [OF novar, where k = "- offset" and on_stack = on_stack and fn = fn] size by auto
      moreover have "ascending (- offset + align (param_size p) 8) (- offset + params_total on_stack fn 0 (p # ps))
          (concat (map (param_objs on_stack fn) (layout_params on_stack fn (offset - align (param_size p) 8) ps)))"
        using IH [of "offset - align (param_size p) 8"] params_total_add [of on_stack fn "align (param_size p) 8" ps] False novar
        by (simp add: algebra_simps)
      ultimately show ?thesis using step False by (simp add: ascending_append)
    qed
  qed
qed simp

section \<open>The bound offsets\<close>

definition binds :: "ra_ctx \<Rightarrow> ra_ctx \<Rightarrow> frame_obj list \<Rightarrow> bool" where
  "binds ra ra' os \<longleftrightarrow> ra_id_to_loff ra \<subseteq>\<^sub>m ra_id_to_loff ra' \<and> ra_loc ra' = ra_loc ra \<and>
     ra_extra_stack ra' = ra_extra_stack ra \<and> (\<forall>(i, l, s) \<in> set os. ra_id_to_loff ra' i = Some l)"

lemma binds_refl: "binds ra ra []"
  by (simp add: binds_def)

lemma binds_trans: "binds ra ra1 xs \<Longrightarrow> binds ra1 ra2 ys \<Longrightarrow> binds ra ra2 (xs @ ys)"
  by (fastforce simp: binds_def map_le_def dom_def)

lemma binds_set_eq: "binds ra ra' xs \<Longrightarrow> set ys \<subseteq> set xs \<Longrightarrow> binds ra ra' ys"
  by (auto simp: binds_def)

lemma binds_setLoff: "irCgSetLoff ra i l = Inr ra' \<Longrightarrow> binds ra ra' [(i, l, s)]"
  by (auto simp: binds_def irCgSetLoff_def map_le_def split: if_splits)

lemma binds_var:
  assumes "bind_var ra v l = Inr ra'"
  shows "binds ra ra' (case v of Some (iv, pinned) \<Rightarrow> [(irVarId (Some iv), l, s)] | None \<Rightarrow> [])"
  using assms by (auto simp: bind_var_def binds_refl intro: binds_setLoff split: option.splits)

lemma binds_params:
  assumes "bind_params fn ra ps = Inr ra'"
  shows "binds ra ra' (concat (map (param_objs on_stack fn) ps))"
  using assms
proof (induction ps arbitrary: ra)
  case (Cons p ps)
  show ?case
  proof (cases "is_var_args p")
    case True
    then obtain argc argv where p: "p = AST_VAR_ARGS argc argv" by (cases p) (simp_all add: is_var_args_def)
    then obtain ra1 ra2 where ra1: "bind_var ra (irFnGetVar fn (lvar_id argc)) (node_loff argc) = Inr ra1"
      and ra2: "bind_var ra1 (irFnGetVar fn (lvar_id argv)) (node_loff argv) = Inr ra2" and rest: "bind_params fn ra2 ps = Inr ra'"
      using Cons.prems by auto
    have "set (param_objs on_stack fn p) \<subseteq> set ((case irFnGetVar fn (lvar_id argc) of
        Some (iv, pinned) \<Rightarrow> [(irVarId (Some iv), node_loff argc, 8)] | None \<Rightarrow> []) @
        (case irFnGetVar fn (lvar_id argv) of Some (iv, pinned) \<Rightarrow> [(irVarId (Some iv), node_loff argv, 8)] | None \<Rightarrow> []))"
      using p by (auto simp: param_objs_def split: option.splits)
    then have "binds ra ra2 (param_objs on_stack fn p)"
      by (rule binds_set_eq [OF binds_trans [OF binds_var [OF ra1] binds_var [OF ra2]]])
    then show ?thesis using binds_trans Cons.IH [OF rest] by simp
  next
    case False
    then have step: "bind_params fn ra (p # ps) =
        (case irFnGetVar fn (irGetParamId p) of
           None \<Rightarrow> bind_params fn ra ps
         | Some (iv, pinned) \<Rightarrow>
             if pinned \<or> \<not> irFnValueIsReferenced fn (Some iv) then bind_params fn ra ps
             else rbind (irCgSetLoff ra (irVarId (Some iv)) (node_loff p)) (\<lambda>ra. bind_params fn ra ps))"
      by (cases p; hypsubst) (simp_all add: is_var_args_def)
    obtain ra1 where "bind_params fn ra1 ps = Inr ra'" "binds ra ra1 (param_objs on_stack fn p)"
      using Cons.prems False unfolding step
      by (auto simp: param_objs_plain binds_refl split: option.splits if_splits) (blast intro: binds_setLoff)
    then show ?thesis using binds_trans Cons.IH by simp
  qed
qed (simp add: binds_refl)

lemma binds_locals:
  assumes "bind_locals fn ra ls = Inr ra'"
  shows "binds ra ra' (concat (map (local_objs fn) ls))"
  using assms
proof (induction ls arbitrary: ra)
  case (Cons l ls)
  obtain ra1 where "bind_locals fn ra1 ls = Inr ra'" "binds ra ra1 (local_objs fn l)"
    using Cons.prems by (auto simp: local_objs_def binds_refl split: option.splits if_splits) (blast intro: binds_setLoff)
  then show ?case using binds_trans Cons.IH by simp
qed (simp add: binds_refl)

lemma binds_frame:
  assumes "irCgBindAstLoffs ra fn af = Inr ra'"
  shows "binds ra ra' (frame_objs on_stack fn af)"
proof -
  obtain ra1 ra2 where ra1: "(if has_hidden_out_ptr af \<and> irf_return_value fn \<noteq> None
      then irCgSetLoff ra (irVarId (irf_return_value fn)) (af_loff af) else Inr ra) = Inr ra1"
    and ra2: "bind_params fn ra1 (af_params af) = Inr ra2" and rest: "bind_locals fn ra2 (af_locals af) = Inr ra'"
    using assms by (auto simp: irCgBindAstLoffs_def simp del: not_None_eq)
  have "binds ra ra1 (hidden_objs fn af)"
    using ra1 by (auto simp: hidden_objs_def binds_refl intro: binds_setLoff split: if_splits)
  then have "binds ra ra' (hidden_objs fn af @ concat (map (param_objs on_stack fn) (af_params af)) @
      concat (map (local_objs fn) (af_locals af)))"
    using binds_trans binds_params [OF ra2] binds_locals [OF rest] by blast
  then show ?thesis by (rule binds_set_eq) (auto simp: frame_objs_def)
qed

lemma frame_ascending:
  assumes "irCgComputeAstLayout on_stack af fn = (af', T)" "nodes_wf fn af"
  shows "ascending (- T) 0 (frame_objs on_stack fn af')"
proof -
  obtain tl ls where ls: "layout_locals fn 0 0 (af_locals af) = (tl, ls)" by fastforce
  let ?h = "if has_hidden_out_ptr af then 8 else 0"
  have T: "T = tl + params_total on_stack fn ?h (af_params af)" and af': "af_locals af' = ls"
      "af_params af' = layout_params on_stack fn (T - ?h) (af_params af)" "has_hidden_out_ptr af' = has_hidden_out_ptr af"
      "has_hidden_out_ptr af \<Longrightarrow> af_loff af' = - T"
    using assms(1) ls by (auto simp: irCgComputeAstLayout_def has_hidden_out_ptr_def Let_def split: if_splits)
  have wf: "\<forall>p \<in> set (af_params af). param_wf fn p" "\<forall>l \<in> set (af_locals af). 0 \<le> local_size l \<and> \<not> is_var_args l"
    using assms(2) by (auto simp: nodes_wf_def param_wf_def list_all_iff)
  have "ascending (- T) (- T + ?h) (hidden_objs fn af')" using af'(3,4) by (auto simp: hidden_objs_def)
  moreover have "ascending (- T + ?h) (- tl) (concat (map (param_objs on_stack fn) (af_params af')))"
    using layout_params_ascending [OF wf(1), of "T - ?h" on_stack] params_total_add [of on_stack fn ?h "af_params af"] T af'(2)
    by (simp add: algebra_simps)
  moreover have "ascending (- tl) 0 (concat (map (local_objs fn) (rev (af_locals af'))))"
    using layout_locals_ascending [OF ls wf(2)] af'(1) by simp
  ultimately show ?thesis unfolding frame_objs_def by (intro ascending_append)
qed

section \<open>The whole frame\<close>

definition entry_ctx :: "(u32 \<Rightarrow> ir_loc) \<Rightarrow> ra_ctx" where
  "entry_ctx loc = \<lparr>ra_id_to_loff = (\<lambda>_. None), ra_extra_stack = 0, ra_loc = loc\<rparr>"

lemma prep_result:
  assumes "irFunctionPrepForCodeGen qsort on_stack loc fn af = Inr (af', ra', stack)"
  obtains T ra0 where "irCgComputeAstLayout on_stack af fn = (af', T)" "irCgBindAstLoffs (entry_ctx loc) fn af' = Inr ra0"
    "irCgAllocAllTmps qsort ra0 (irf_blocks fn) T = Inr ra'"
    "stack = word_of_int (if T + ra_extra_stack ra' > 0 then align (T + ra_extra_stack ra') 16 else T + ra_extra_stack ra')"
  using assms by (auto simp: irFunctionPrepForCodeGen_def entry_ctx_def Let_def split: prod.splits)

lemma stack_bytes:
  assumes "0 \<le> n" "n \<le> 65520"
  shows "n \<le> uint (word_of_int (if n > 0 then align n 16 else n) :: u16)"
    and "16 dvd uint (word_of_int (if n > 0 then align n 16 else n) :: u16)"
proof -
  have "(if n > 0 then align n 16 else n) = align n 16" using assms(1) by (simp add: align_def)
  moreover have "uint (word_of_int (align n 16) :: u16) = align n 16"
    using align_bounds(1,2) [of n 16] assms unfolding uint_word_of_int by (intro mod_pos_pos_trivial) simp_all
  ultimately show "n \<le> uint (word_of_int (if n > 0 then align n 16 else n) :: u16)"
    "16 dvd uint (word_of_int (if n > 0 then align n 16 else n) :: u16)"
    using align_bounds(1,3) [of n 16] assms(1) by simp_all
qed

text \<open>Everything that \<^verbatim>\<open>irFunctionPrepForCodeGen\<close> places, and the size it computes.\<close>

lemma prep_layout:
  assumes "irFunctionPrepForCodeGen qsort on_stack loc fn af = Inr (af', ra', stack)" "rearranges qsort" "nodes_wf fn af"
  shows "\<exists>T ra0. irCgBindAstLoffs (entry_ctx loc) fn af' = Inr ra0 \<and> irCgAllocAllTmps qsort ra0 (irf_blocks fn) T = Inr ra' \<and>
    (\<forall>(i, l, s) \<in> set (frame_objs on_stack fn af'). ra_id_to_loff ra' i = Some l \<and> - T \<le> l \<and> 0 \<le> s \<and> l + s \<le> 0) \<and>
    sorted_wrt (\<lambda>(i, l, s) (j, k, t). l + s \<le> k) (frame_objs on_stack fn af') \<and>
    (\<forall>t. coloured ra0 (cg_instrs (irf_blocks fn)) t \<longrightarrow> t \<notin> fixed_ids (cg_instrs (irf_blocks fn)) \<longrightarrow>
       (\<exists>l. ra_id_to_loff ra' t = Some l \<and> l + 8 \<le> - T \<and> - (T + ra_extra_stack ra') \<le> l)) \<and>
    (T + ra_extra_stack ra' \<le> 65520 \<longrightarrow> T + ra_extra_stack ra' \<le> uint stack \<and> 16 dvd uint stack)"
proof -
  let ?Is = "cg_instrs (irf_blocks fn)" and ?os = "frame_objs on_stack fn af'"
  obtain T ra0 where lay: "irCgComputeAstLayout on_stack af fn = (af', T)" and bind: "irCgBindAstLoffs (entry_ctx loc) fn af' = Inr ra0"
    and alloc: "irCgAllocAllTmps qsort ra0 (irf_blocks fn) T = Inr ra'"
    and stack: "stack = word_of_int (if T + ra_extra_stack ra' > 0 then align (T + ra_extra_stack ra') 16 else T + ra_extra_stack ra')"
    by (rule prep_result [OF assms(1)])
  note asc = frame_ascending [OF lay assms(3)] and bound = binds_frame [OF bind, of on_stack]
  obtain ra1 where ra1: "alloc_fixed ra0 T ?Is = Inr ra1" by (rule alloc_all_fixed [OF alloc])
  obtain c n where c: "placed T ?Is ra1 ra' c n" by (rule coloured_slot [OF alloc assms(2) ra1])
  have extra: "0 \<le> ra_extra_stack ra1" "ra_extra_stack ra' = ra_extra_stack ra1 + 8 * int n"
    using alloc_fixed_keeps(1) [OF ra1] bound placedD(3) [OF c] by (simp_all add: binds_def entry_ctx_def)
  have kept: "ra_id_to_loff ra' i = Some l" if "(i, l, s) \<in> set ?os" for i l s
  proof -
    have "ra_id_to_loff ra0 i = Some l" using bound that by (auto simp: binds_def)
    then have "ra_id_to_loff ra1 i = Some l" using alloc_fixed_keeps(3) [OF ra1] by (metis domI map_le_def)
    then show ?thesis using placedD(4) [OF c, of i] by (simp add: coloured_def)
  qed
  have objs: "\<forall>(i, l, s) \<in> set ?os. ra_id_to_loff ra' i = Some l \<and> - T \<le> l \<and> 0 \<le> s \<and> l + s \<le> 0"
    using kept ascending_bounds [OF asc] by auto
  have tmps: "\<forall>t. coloured ra0 ?Is t \<longrightarrow> t \<notin> fixed_ids ?Is \<longrightarrow>
      (\<exists>l. ra_id_to_loff ra' t = Some l \<and> l + 8 \<le> - T \<and> - (T + ra_extra_stack ra') \<le> l)"
  proof (intro allI impI)
    fix t assume "coloured ra0 ?Is t" "t \<notin> fixed_ids ?Is"
    note t = placedD(1) [OF c dom_fixed [OF ra1 this]]
    then have "int (c t) + 1 \<le> int n" by linarith
    then show "\<exists>l. ra_id_to_loff ra' t = Some l \<and> l + 8 \<le> - T \<and> - (T + ra_extra_stack ra') \<le> l"
      using t extra by (simp add: slot_loff_def)
  qed
  have "0 \<le> T + ra_extra_stack ra'" using ascending_le [OF asc] extra by simp
  then have "T + ra_extra_stack ra' \<le> 65520 \<longrightarrow> T + ra_extra_stack ra' \<le> uint stack \<and> 16 dvd uint stack"
    using stack_bytes unfolding stack by blast
  then show ?thesis using bind alloc objs ascending_sorted [OF asc] tmps by blast
qed

text \<open>
  C6. The frame holds everything and nothing in it overlaps: every parameter and local that has a slot is bound to its
  offset, these objects follow each other inside the \<open>T\<close> bytes below the frame base, every temporary without a register
  gets 8 bytes below them, and when all of it fits 65520 bytes, the size computed for the prologue is a multiple of
  16 and covers it.
\<close>

theorem frame_layout:
  assumes "irFunctionPrepForCodeGen qsort on_stack loc fn af = Inr (af', ra', stack)" "rearranges qsort" "nodes_wf fn af"
  shows "\<exists>T ra0. irCgBindAstLoffs (entry_ctx loc) fn af' = Inr ra0 \<and> irCgAllocAllTmps qsort ra0 (irf_blocks fn) T = Inr ra' \<and>
    (\<forall>(i, l, s) \<in> set (frame_objs on_stack fn af'). ra_id_to_loff ra' i = Some l \<and> - T \<le> l \<and> 0 \<le> s \<and> l + s \<le> 0) \<and>
    sorted_wrt (\<lambda>(i, l, s) (j, k, t). l + s \<le> k) (frame_objs on_stack fn af') \<and>
    (\<forall>t. coloured ra0 (cg_instrs (irf_blocks fn)) t \<longrightarrow> t \<notin> fixed_ids (cg_instrs (irf_blocks fn)) \<longrightarrow>
       (\<exists>l. ra_id_to_loff ra' t = Some l \<and> l + 8 \<le> - T \<and> - (T + ra_extra_stack ra') \<le> l)) \<and>
    (T + ra_extra_stack ra' \<le> 65520 \<longrightarrow> T + ra_extra_stack ra' \<le> uint stack \<and> 16 dvd uint stack)"
  using assms by (rule prep_layout)

text \<open>A function with one parameter and one local, whose size is an argument, and two temporaries.\<close>

definition frame_instrs :: "ir_instr list" where
  "frame_instrs =
     [irInstrNew 1 IR_LOAD (wit_tmp 1) (wit_var IR_VAL_PARAM 11) None,
      irInstrNew 1 IR_IADD (wit_tmp 2) (wit_tmp 1) (wit_const 1),
      irInstrNew 1 IR_STORE (wit_var IR_VAL_LOCAL 12) (wit_tmp 2) None]"

definition frame_fn :: ir_function where
  "frame_fn = \<lparr>irf_return_value = None,
     irf_variables = (\<lambda>i. if i = 5 then Some (the (wit_var IR_VAL_PARAM 11), False)
                          else if i = 6 then Some (the (wit_var IR_VAL_LOCAL 12), False) else None),
     irf_blocks = [\<lparr>bb_id = 1, bb_removed = False, bb_sealed = True, bb_instructions = frame_instrs\<rparr>]\<rparr>"

definition frame_af :: "int \<Rightarrow> ast_func" where
  "frame_af bytes = \<lparr>af_rettype = None, af_params = [AST_LVAR 5 8 False 0], af_locals = [AST_LVAR 6 bytes False 0], af_loff = 0\<rparr>"

lemmas frame_eval = frame_instrs_def frame_fn_def frame_af_def irFunctionPrepForCodeGen_def irCgComputeAstLayout_def
  irCgBindAstLoffs_def has_hidden_out_ptr_def local_skipped_def irFnGetVar_def irGetParamId_def lvar_id_def
  irFnLocalSlotNeeded_def irFnValueIsReferenced_def param_unreferenced_def param_pinned_def is_var_args_def
  local_size_def param_size_def set_loff_def instr_args_def align_def irCgAllocAllTmps_def entry_ctx_def
  wit_tmp_def wit_var_def wit_const_def irInstrNew_def cg_instrs_def instr_refs_def irCgRecordRef_def to_colour_def
  irCgRangeCmp_def irCgSetLoff_def irVarId_def call_args_def phi_vals_def frame_objs_def hidden_objs_def param_objs_def
  local_objs_def

lemma frame_example:
  obtains af' ra' where "irFunctionPrepForCodeGen sort_by False (\<lambda>_. IR_LOC_NONE) frame_fn (frame_af 3) = Inr (af', ra', 32)"
    "frame_objs False frame_fn af' = [(11, - 16, 8), (12, - 3, 3)]"
    "map (ra_id_to_loff ra') [1, 2] = [Some (- 24), Some (- 32)]"
  by (simp add: frame_eval)

theorem frame_layout_witness:
  "\<exists>af' ra' T. irFunctionPrepForCodeGen sort_by False (\<lambda>_. IR_LOC_NONE) frame_fn (frame_af 3) = Inr (af', ra', 32) \<and>
    (\<forall>(i, l, s) \<in> set [(11, - 16, 8), (12, - 3, 3)]. ra_id_to_loff ra' i = Some l \<and> - T \<le> l \<and> 0 \<le> s \<and> l + s \<le> 0)"
proof -
  obtain af' ra' where r: "irFunctionPrepForCodeGen sort_by False (\<lambda>_. IR_LOC_NONE) frame_fn (frame_af 3) = Inr (af', ra', 32)"
    "frame_objs False frame_fn af' = [(11, - 16, 8), (12, - 3, 3)]" by (rule frame_example)
  have "nodes_wf frame_fn (frame_af 3)" by (simp add: nodes_wf_def frame_eval)
  then obtain T where "\<forall>(i, l, s) \<in> set (frame_objs False frame_fn af').
      ra_id_to_loff ra' i = Some l \<and> - T \<le> l \<and> 0 \<le> s \<and> l + s \<le> 0"
    using frame_layout [OF r(1) sort_by_rearranges] by blast
  then show ?thesis using r unfolding r(2) by blast
qed

text \<open>
  C40. The size of the frame is kept in 16 bits and nothing checks that it fits. For nodes as the front end makes them (\<^const>\<open>nodes_wf\<close>)
  and any \<^verbatim>\<open>qsort\<close> that only reorders: when the parameters, locals and temporaries that
  \<^verbatim>\<open>irFunctionPrepForCodeGen\<close> lays out take more than 65520 bytes, the size it computes for the prologue is the sum rounded up to 16 and cut to its
  low 16 bits, which is less than what is laid out; every parameter or local of 64 KiB or more that has a slot starts below the stack the
  prologue reserves.
\<close>

theorem large_frame_truncated:
  assumes "irFunctionPrepForCodeGen qsort on_stack loc fn af = Inr (af', ra', stack)" "rearranges qsort" "nodes_wf fn af"
    and "65520 < snd (irCgComputeAstLayout on_stack af fn) + ra_extra_stack ra'"
  shows "uint stack = align (snd (irCgComputeAstLayout on_stack af fn) + ra_extra_stack ra') 16 mod 65536 \<and>
    uint stack < snd (irCgComputeAstLayout on_stack af fn) + ra_extra_stack ra' \<and>
    (\<forall>(i, l, s) \<in> set (frame_objs on_stack fn af'). 65536 \<le> s \<longrightarrow> ra_id_to_loff ra' i = Some l \<and> l < - uint stack)"
proof -
  let ?n = "snd (irCgComputeAstLayout on_stack af fn) + ra_extra_stack ra'"
  have stack: "stack = word_of_int (if ?n > 0 then align ?n 16 else ?n)"
    by (rule prep_result [OF assms(1)]) simp
  then have size: "uint stack = align ?n 16 mod 65536" using assms(4) by (simp add: uint_word_of_int)
  have "uint stack < ?n"
  proof (cases "?n < 65536")
    case True
    have "align ?n 16 = 65536"
      using align_bounds [of ?n 16] assms(4) True by presburger
    then show ?thesis using size assms(4) by simp
  next
    case False
    have "uint stack < 2 ^ LENGTH(16)" by (rule unsigned_less)
    then show ?thesis using False by simp
  qed
  moreover have "uint stack < 65536" unfolding size by simp
  then have "l < - uint stack" if "l + s \<le> 0" "65536 \<le> s" for l s using that by linarith
  moreover obtain T where "\<forall>(i, l, s) \<in> set (frame_objs on_stack fn af'). ra_id_to_loff ra' i = Some l \<and> - T \<le> l \<and> 0 \<le> s \<and> l + s \<le> 0"
    using prep_layout [OF assms(1-3)] by blast
  ultimately show ?thesis using size by fast
qed

theorem large_frame_truncated_witness:
  "\<exists>af' ra'. irFunctionPrepForCodeGen sort_by False (\<lambda>_. IR_LOC_NONE) frame_fn (frame_af 65536) = Inr (af', ra', 32) \<and>
    ra_id_to_loff ra' 12 = Some (- 65536) \<and> uint (32 :: u16) < snd (irCgComputeAstLayout False (frame_af 65536) frame_fn) + ra_extra_stack ra'"
proof -
  obtain af' ra' where r: "irFunctionPrepForCodeGen sort_by False (\<lambda>_. IR_LOC_NONE) frame_fn (frame_af 65536) = Inr (af', ra', 32)"
    "frame_objs False frame_fn af' = [(11, - 65544, 8), (12, - 65536, 65536)]" "ra_extra_stack ra' = 16"
    by (simp add: frame_eval)
  have "nodes_wf frame_fn (frame_af 65536)" "65520 < snd (irCgComputeAstLayout False (frame_af 65536) frame_fn) + ra_extra_stack ra'"
    by (simp_all add: nodes_wf_def r(3)) (simp_all add: frame_eval)
  from large_frame_truncated [OF r(1) sort_by_rearranges this] r(1) show ?thesis unfolding r(2) by auto
qed

end
