(* ===== verification/A64Text.thy ===== *)
theory A64Text
  imports Prelude
begin

text \<open>
  Bit fields of instruction words and the printf conversions the disassembler of
  \<^verbatim>\<open>src/src/asm/dis_arm64.c\<close> uses. The lemmas compute a field of a word that an encoder
  has put together from shifted fields; \<open>fields\<close> collects them.
\<close>

section \<open>Fields\<close>

text \<open>\<^verbatim>\<open>(w >> k) & ((1 << n) - 1)\<close>.\<close>

definition fld :: "u32 \<Rightarrow> nat \<Rightarrow> nat \<Rightarrow> u32" where
  "fld w k n = take_bit n (drop_bit k w)"

text \<open>The low \<open>n\<close> bits of a word, kept folded so that proofs about fields stay symbolic.\<close>

definition low :: "nat \<Rightarrow> u32 \<Rightarrow> u32" where
  "low n w = take_bit n w"

lemma bit_low [bit_simps]: "bit (low n w) j \<longleftrightarrow> j < n \<and> bit w j"
  by (simp add: low_def bit_take_bit_iff)

lemma unat_pow2: "n < 32 \<Longrightarrow> unat (2 ^ n :: u32) = 2 ^ n"
proof -
  assume "n < 32"
  then have "unat (of_nat (2 ^ n) :: u32) = 2 ^ n"
    by (simp only: unsigned_of_nat) (simp add: take_bit_nat_eq_self)
  then show ?thesis by simp
qed

lemma low_id: "w < 2 ^ n \<Longrightarrow> n < 32 \<Longrightarrow> low n w = w"
  by (simp add: low_def word_unat_eq_iff unsigned_take_bit_eq take_bit_nat_eq_self_iff word_less_nat_alt
      unat_pow2)

lemma low_zero [simp]: "low n 0 = 0"
  by (simp add: low_def)

lemma low_low [simp]: "low m (low n w) = low (min m n) w"
  by (simp add: low_def)

named_theorems fields "fields of words put together from fields"

lemma fld_or [fields]: "fld (a OR b) k n = fld a k n OR fld b k n"
  by (simp add: fld_def)

lemma bit_fld [bit_simps]: "bit (fld w k n) j \<longleftrightarrow> j < n \<and> bit w (k + j)"
  by (auto simp: fld_def bit_simps)

lemma fld_numeral [fields]:
  "fld (numeral w) k n = take_bit n (drop_bit k (numeral w))" "fld 0 k n = 0"
  "fld 1 k n = take_bit n (drop_bit k 1)"
  by (simp_all add: fld_def)

lemma fld_hit [fields]:
  assumes "k + n \<le> 32"
  shows "fld (push_bit k (low m x)) k n = low (min n m) x"
  by (rule bit_word_eqI) (use assms in \<open>auto simp: bit_simps\<close>)

lemma fld_above [fields]: "k + n \<le> j \<Longrightarrow> fld (push_bit j x) k n = 0"
  by (rule bit_word_eqI) (auto simp: bit_simps)

lemma fld_below [fields]: "j + m \<le> k \<Longrightarrow> fld (push_bit j (low m x)) k n = 0"
  by (rule bit_word_eqI) (auto simp: bit_simps)

lemma fld_low_hit [fields]: "fld (low m x) 0 n = low (min n m) x"
  by (rule bit_word_eqI) (auto simp: bit_simps)

lemma fld_low_below [fields]: "m \<le> k \<Longrightarrow> fld (low m x) k n = 0"
  by (rule bit_word_eqI) (auto simp: bit_simps)

text \<open>A field inside a wider one.\<close>

lemma fld_sub [fields]:
  assumes "j \<le> k" "k + n \<le> j + m" "j + m \<le> 32"
  shows "fld (push_bit j (low m x)) k n = fld x (k - j) n"
  by (rule bit_word_eqI) (use assms in \<open>auto simp: bit_simps\<close>)

lemma fld_fld: "k + n \<le> m \<Longrightarrow> fld (low m x) k n = fld x k n"
  by (rule bit_word_eqI) (auto simp: bit_simps)

lemma fld_less: "n < 32 \<Longrightarrow> fld w k n < 2 ^ n"
  by (simp add: fld_def word_less_nat_alt unsigned_take_bit_eq unat_pow2)

lemma unat_fld_less:
  assumes "n < 32"
  shows "unat (fld w k n) < 2 ^ n"
  by (simp add: fld_def unsigned_take_bit_eq)

text \<open>Masks of C written as constants.\<close>

lemma and_masks:
  fixes x :: u32
  shows "x AND 1 = low 1 x" "x AND 3 = low 2 x" "x AND 7 = low 3 x"
    "x AND 0xF = low 4 x" "x AND 0x1F = low 5 x" "x AND 0x3F = low 6 x"
    "x AND 0x7F = low 7 x" "x AND 0xFF = low 8 x" "x AND 0x1FF = low 9 x"
    "x AND 0xFFF = low 12 x" "x AND 0x3FFF = low 14 x" "x AND 0xFFFF = low 16 x"
    "x AND 0x7FFFF = low 19 x" "x AND 0x1FFFFF = low 21 x"
    "x AND 0x3FFFFFF = low 26 x"
  by (simp_all add: low_def take_bit_eq_mask mask_numeral)

text \<open>
  The test \<^verbatim>\<open>(insn & mask) == value\<close> on such a word: a field none of whose bits the mask keeps
  drops out.
\<close>

lemma and_field_out:
  assumes "push_bit j (mask m) AND M = (0 :: u32)"
  shows "push_bit j (low m x) AND M = 0"
proof (rule bit_word_eqI)
  fix n assume n: "n < LENGTH(32)"
  have "\<not> (bit (push_bit j (mask m) :: u32) n \<and> bit M n)"
    using arg_cong [OF assms, of "\<lambda>w. bit w n"] by (simp add: bit_and_iff)
  then show "bit (push_bit j (low m x) AND M) n = bit (0 :: u32) n"
    by (auto simp: bit_simps)
qed

lemma and_low_out:
  assumes "mask m AND M = (0 :: u32)"
  shows "low m x AND M = 0"
  using and_field_out [of 0 m M x] assms by simp

lemmas known_bits = bit.conj_disj_distrib2 and_field_out and_low_out mask_numeral

text \<open>
  Operands in range: a number below \<open>2 ^ m\<close> is its own field. The rules are instantiated at the
  operand widths, so that a bound such as \<open>rd < 32\<close> among the assumptions triggers them.
\<close>

lemma range_rules:
  assumes "x < 2 ^ m" "m < 32"
  shows low_lt: "m \<le> n \<Longrightarrow> low n x = x"
    and fld_hit_lt: "m \<le> n \<Longrightarrow> k + n \<le> 32 \<Longrightarrow> fld (push_bit k x) k n = x"
    and fld_below_lt: "j + m \<le> k \<Longrightarrow> fld (push_bit j x) k n = 0"
    and fld_low_hit_lt: "m \<le> n \<Longrightarrow> fld x 0 n = x"
    and fld_low_below_lt: "m \<le> k \<Longrightarrow> fld x k n = 0"
    and and_field_lt: "push_bit j (mask m) AND M = 0 \<Longrightarrow> push_bit j x AND M = 0"
    and and_low_lt: "mask m AND M = (0 :: u32) \<Longrightarrow> x AND M = 0"
  using fld_hit [of k n m x] fld_below [of j m k x n] fld_low_hit [of m x n] fld_low_below [of m k x n]
    and_field_out [of j m M x] and_low_out [of m M x] low_low [of n m x]
  by (simp_all add: low_id [OF assms] min_def split: if_splits)

lemmas in_range =
  low_lt [where m = 1, simplified] fld_hit_lt [where m = 1, simplified]
  fld_below_lt [where m = 1, simplified] and_field_lt [where m = 1, simplified]
  low_lt [where m = 2, simplified] fld_hit_lt [where m = 2, simplified]
  fld_below_lt [where m = 2, simplified] and_field_lt [where m = 2, simplified]
  low_lt [where m = 4, simplified] fld_hit_lt [where m = 4, simplified]
  fld_below_lt [where m = 4, simplified] and_field_lt [where m = 4, simplified]
  fld_low_hit_lt [where m = 4, simplified] fld_low_below_lt [where m = 4, simplified]
  and_low_lt [where m = 4, simplified]
  low_lt [where m = 5, simplified] fld_hit_lt [where m = 5, simplified]
  fld_below_lt [where m = 5, simplified] and_field_lt [where m = 5, simplified]
  fld_low_hit_lt [where m = 5, simplified] fld_low_below_lt [where m = 5, simplified]
  and_low_lt [where m = 5, simplified]
  low_lt [where m = 6, simplified] fld_hit_lt [where m = 6, simplified]
  fld_below_lt [where m = 6, simplified] and_field_lt [where m = 6, simplified]

section \<open>Printing\<close>

definition dec_digit :: "nat \<Rightarrow> char" where
  "dec_digit d = ''0123456789'' ! d"

fun dec_of :: "nat \<Rightarrow> string" where
  "dec_of n = (if n < 10 then [dec_digit n] else dec_of (n div 10) @ [dec_digit (n mod 10)])"

declare dec_of.simps [simp del]

definition hex_digit :: "nat \<Rightarrow> char" where
  "hex_digit d = ''0123456789abcdef'' ! d"

fun hex_of :: "nat \<Rightarrow> string" where
  "hex_of n = (if n < 16 then [hex_digit n] else hex_of (n div 16) @ [hex_digit (n mod 16)])"

declare hex_of.simps [simp del]

text \<open>\<^verbatim>\<open>%u\<close>, \<^verbatim>\<open>%d\<close>, \<^verbatim>\<open>%+d\<close> and \<^verbatim>\<open>%08x\<close>.\<close>

definition fmt_u :: "u32 \<Rightarrow> string" where
  "fmt_u w = dec_of (unat w)"

definition fmt_d :: "int \<Rightarrow> string" where
  "fmt_d i = (if i < 0 then ''-'' @ dec_of (nat (- i)) else dec_of (nat i))"

definition fmt_pd :: "int \<Rightarrow> string" where
  "fmt_pd i = (if i < 0 then ''-'' @ dec_of (nat (- i)) else ''+'' @ dec_of (nat i))"

definition fmt_08x :: "u32 \<Rightarrow> string" where
  "fmt_08x w = (let s = hex_of (unat w) in replicate (8 - length s) (CHR ''0'') @ s)"

text \<open>\<^verbatim>\<open>snprintf(out, outsz, ...)\<close>: the text is cut to the buffer.\<close>

definition snprintf :: "nat \<Rightarrow> string \<Rightarrow> string" where
  "snprintf outsz s = take (outsz - 1) s"

text \<open>Printing is faithful: different numbers print differently.\<close>

fun dec_val :: "string \<Rightarrow> nat" where
  "dec_val s = foldl (\<lambda>v c. 10 * v + (of_char c - 48)) 0 s"

lemma dec_digit_val: "d < 10 \<Longrightarrow> (of_char (dec_digit d) :: nat) = 48 + d"
proof -
  assume "d < 10"
  then have "d \<in> {0, 1, 2, 3, 4, 5, 6, 7, 8, 9}" by auto
  then show ?thesis by (auto simp: dec_digit_def)
qed

lemma dec_val_dec_of: "dec_val (dec_of n) = n"
proof (induction n rule: dec_of.induct)
  case (1 n)
  show ?case
  proof (cases "n < 10")
    case True
    then show ?thesis by (simp add: dec_of.simps [of n] dec_digit_val)
  next
    case False
    then have "dec_val (dec_of n) = 10 * dec_val (dec_of (n div 10)) + n mod 10"
      by (simp add: dec_of.simps [of n] dec_digit_val)
    also have "\<dots> = 10 * (n div 10) + n mod 10" using 1 False by simp
    finally show ?thesis by simp
  qed
qed

lemma fmt_u_inj: "fmt_u a = fmt_u b \<longleftrightarrow> a = b"
  by (metis dec_val_dec_of fmt_u_def word_unat_eq_iff)

end
