(* ===== verification/A64Dis.thy ===== *)
theory A64Dis
  imports A64Text
begin

text \<open>
  The AArch64 disassembler, \<^verbatim>\<open>src/src/asm/dis_arm64.c\<close>. Each decoder is a function from the
  instruction word to the text it prints; \<open>None\<close> is its \<^verbatim>\<open>return 0\<close>. The register name buffers
  of 8 bytes hold every name printed into them; the one cut that can happen, of the result to
  the caller's buffer, is in \<open>aarch64_disasm\<close>. The floating-point immediate is printed exactly: its
  value is a multiple of 1/128, so \<^verbatim>\<open>%.9g\<close> prints all of its at most seven decimals.
\<close>

section \<open>Names\<close>

definition reg_name :: "bool \<Rightarrow> u32 \<Rightarrow> bool \<Rightarrow> string" where
  "reg_name sf r allow_sp =
     (if r = 31 then
        if allow_sp then (if sf then ''sp'' else ''wsp'')
        else (if sf then ''x'' else ''w'') @ ''zr''
      else (if sf then ''x'' else ''w'') @ fmt_u r)"

text \<open>Sign extension of an \<open>n\<close>-bit value.\<close>

definition sx :: "u32 \<Rightarrow> nat \<Rightarrow> u32" where
  "sx v n = (if v AND push_bit (n - 1) 1 \<noteq> 0 then v OR NOT (push_bit n 1 - 1) else v)"

definition cond_name :: "u32 \<Rightarrow> string" where
  "cond_name cc =
     [''eq'', ''ne'', ''cs'', ''cc'', ''mi'', ''pl'', ''vs'', ''vc'',
      ''hi'', ''ls'', ''ge'', ''lt'', ''gt'', ''le'', ''al'', ''nv''] ! unat (cc AND 0xF)"

definition shift_names :: "string list" where
  "shift_names = [''lsl'', ''lsr'', ''asr'', ''ror'']"

text \<open>The comma between operands.\<close>

definition sep :: string where
  "sep = '', ''"

fun highest_bit :: "nat \<Rightarrow> u32 \<Rightarrow> nat option" where
  "highest_bit 0 x = (if bit x 0 then Some 0 else None)"
| "highest_bit (Suc i) x = (if bit x (Suc i) then Some (Suc i) else highest_bit i x)"

fun replicate_elem :: "nat \<Rightarrow> nat \<Rightarrow> nat \<Rightarrow> u64 \<Rightarrow> u64 \<Rightarrow> u64" where
  "replicate_elem 0 i esize telem r = r"
| "replicate_elem (Suc f) i esize telem r =
     replicate_elem f (i + esize) esize telem (r OR push_bit i telem)"

definition decode_logical_imm :: "u32 \<Rightarrow> u32 \<Rightarrow> u32 \<Rightarrow> u32 \<Rightarrow> u64 option" where
  "decode_logical_imm sf n immr imms =
     (let x = push_bit 6 n OR (NOT imms AND 0x3F) in
      case highest_bit 6 x of
        None \<Rightarrow> None
      | Some len \<Rightarrow>
         if len < 1 then None
         else if sf = 0 \<and> len = 6 then None
         else
           (let esize = 2 ^ len;
                levels = push_bit len 1 - 1;
                S = imms AND levels;
                R = unat (immr AND levels)
            in if S = levels then None
               else
                 (let welem = (push_bit (unat S + 1) 1 - 1) :: u64;
                      m = (if esize = 64 then - 1 else push_bit esize 1 - 1) :: u64;
                      welem = welem AND m;
                      telem = (if R = 0 then welem
                               else (drop_bit R welem OR push_bit (esize - R) welem) AND m);
                      reg_size = (if sf \<noteq> 0 then 64 else 32);
                      result = replicate_elem (reg_size div esize) 0 esize telem 0
                  in Some (if sf = 0 then result AND 0xFFFFFFFF else result))))"

section \<open>Data processing\<close>

definition dec_movz_movk_movn :: "u32 \<Rightarrow> string option" where
  "dec_movz_movk_movn insn =
     (let sf = fld insn 31 1; opc = fld insn 29 2; hw = fld insn 21 2; imm = fld insn 5 16;
          rd = fld insn 0 5;
          mn = (if opc = 0 then ''movn'' else if opc = 2 then ''movz'' else ''movk'');
          dst = reg_name (sf \<noteq> 0) rd False
      in if opc = 1 then None
         else if opc = 2 \<and> \<not> (imm = 0 \<and> hw \<noteq> 0)
         then Some (''mov '' @ dst @ '', #'' @ dec_of (unat (push_bit (unat hw * 16) (ucast imm :: u64))))
         else if hw = 0 then Some (mn @ '' '' @ dst @ '', #'' @ fmt_u imm)
         else Some (mn @ '' '' @ dst @ '', #'' @ fmt_u imm @ '', lsl #'' @ fmt_u (hw * 16)))"

definition add_sub_mn :: "u32 \<Rightarrow> u32 \<Rightarrow> string" where
  "add_sub_mn op s =
     (if op \<noteq> 0 then (if s \<noteq> 0 then ''subs'' else ''sub'') else (if s \<noteq> 0 then ''adds'' else ''add''))"

definition dec_add_sub_imm :: "u32 \<Rightarrow> string option" where
  "dec_add_sub_imm insn =
     (let sf = fld insn 31 1; op = fld insn 30 1; s = fld insn 29 1; sh = fld insn 22 1;
          imm = fld insn 10 12; rn = fld insn 5 5; rd = fld insn 0 5;
          dst = reg_name (sf \<noteq> 0) rd (s = 0); src = reg_name (sf \<noteq> 0) rn True;
          val = (if sh \<noteq> 0 then push_bit 12 imm else imm)
      in if s \<noteq> 0 \<and> rd = 31
         then Some ((if op \<noteq> 0 then ''cmp'' else ''cmn'') @ '' '' @ src @ '', #'' @ fmt_u val)
         else Some (add_sub_mn op s @ '' '' @ dst @ sep @ src @ '', #'' @ fmt_u val))"

definition dec_add_sub_reg :: "u32 \<Rightarrow> string option" where
  "dec_add_sub_reg insn =
     (let sf = fld insn 31 1; op = fld insn 30 1; s = fld insn 29 1; shift = fld insn 22 2;
          rm = fld insn 16 5; imm6 = fld insn 10 6; rn = fld insn 5 5; rd = fld insn 0 5;
          dst = reg_name (sf \<noteq> 0) rd False; src1 = reg_name (sf \<noteq> 0) rn False;
          src2 = reg_name (sf \<noteq> 0) rm False;
          plain = (imm6 = 0 \<and> shift = 0);
          shifted = sep @ shift_names ! unat shift @ '' #'' @ fmt_u imm6
      in if op \<noteq> 0 \<and> rn = 31 \<and> plain
         then Some ((if s \<noteq> 0 then ''negs'' else ''neg'') @ '' '' @ dst @ sep @ src2)
         else if s \<noteq> 0 \<and> rd = 31
         then Some ((if op \<noteq> 0 then ''cmp'' else ''cmn'') @ '' '' @ src1 @ sep @ src2 @
                    (if plain then [] else shifted))
         else Some (add_sub_mn op s @ '' '' @ dst @ sep @ src1 @ sep @ src2 @
                    (if plain then [] else shifted)))"

definition dec_logical_reg :: "u32 \<Rightarrow> string option" where
  "dec_logical_reg insn =
     (let sf = fld insn 31 1; opc = fld insn 29 2; shift = fld insn 22 2; n = fld insn 21 1;
          rm = fld insn 16 5; imm6 = fld insn 10 6; rn = fld insn 5 5; rd = fld insn 0 5;
          mn = (if n = 0 then [''and'', ''orr'', ''eor'', ''ands'']
                else [''bic'', ''orn'', ''eon'', ''bics'']) ! unat opc;
          dst = reg_name (sf \<noteq> 0) rd False; src1 = reg_name (sf \<noteq> 0) rn False;
          src2 = reg_name (sf \<noteq> 0) rm False;
          unshifted = (imm6 = 0 \<and> shift = 0)
      in if opc = 1 \<and> n = 0 \<and> rn = 31 \<and> unshifted then Some (''mov '' @ dst @ sep @ src2)
         else if opc = 1 \<and> n = 1 \<and> rn = 31 \<and> unshifted then Some (''mvn '' @ dst @ sep @ src2)
         else if opc = 3 \<and> n = 0 \<and> rd = 31 \<and> unshifted then Some (''tst '' @ src1 @ sep @ src2)
         else Some (mn @ '' '' @ dst @ sep @ src1 @ sep @ src2 @
                    (if unshifted then [] else sep @ shift_names ! unat shift @ '' #'' @ fmt_u imm6)))"

definition dec_logical_imm :: "u32 \<Rightarrow> string option" where
  "dec_logical_imm insn =
     (let sf = fld insn 31 1; opc = fld insn 29 2; n = fld insn 22 1; immr = fld insn 16 6;
          imms = fld insn 10 6; rn = fld insn 5 5; rd = fld insn 0 5
      in case decode_logical_imm sf n immr imms of
           None \<Rightarrow> None
         | Some imm \<Rightarrow>
             (let num = ''#0x'' @ hex_of (unat imm) in
              if opc = 1 \<and> rn = 31 then Some (''mov '' @ reg_name (sf \<noteq> 0) rd True @ sep @ num)
              else if opc = 3 \<and> rd = 31
              then Some (''tst '' @ reg_name (sf \<noteq> 0) rn False @ sep @ num)
              else Some ([''and'', ''orr'', ''eor'', ''ands''] ! unat opc @ '' '' @
                         reg_name (sf \<noteq> 0) rd (opc \<noteq> 3) @ sep @ reg_name (sf \<noteq> 0) rn False @ sep @ num)))"

definition dec_dp3 :: "u32 \<Rightarrow> string option" where
  "dec_dp3 insn =
     (let sf = fld insn 31 1; op31 = fld insn 21 3; rm = fld insn 16 5; o0 = fld insn 15 1;
          ra = fld insn 10 5; rn = fld insn 5 5; rd = fld insn 0 5;
          is_wide = (op31 = 1 \<or> op31 = 5); is_high = (op31 = 2 \<or> op31 = 6);
          is_unsigned_wide = (op31 = 5 \<or> op31 = 6);
          w1 = (if is_wide \<or> is_high then True else sf \<noteq> 0);
          w2 = (if is_wide then False else if is_high then True else sf \<noteq> 0);
          dst = reg_name w1 rd False; srn = reg_name w2 rn False; srm = reg_name w2 rm False;
          sra = reg_name w1 ra False
      in if is_high
         then Some ((if is_unsigned_wide then ''umulh'' else ''smulh'') @ '' '' @ dst @ sep @ srn @ sep @ srm)
         else
           (let names = (if op31 = 0 then Some (if o0 \<noteq> 0 then (''msub'', ''mneg'') else (''madd'', ''mul''))
                         else if op31 = 1
                         then Some (if o0 \<noteq> 0 then (''smsubl'', ''smnegl'') else (''smaddl'', ''smull''))
                         else if op31 = 5
                         then Some (if o0 \<noteq> 0 then (''umsubl'', ''umnegl'') else (''umaddl'', ''umull''))
                         else None)
            in case names of None \<Rightarrow> None
               | Some (base, alias) \<Rightarrow>
                   if ra = 31 then Some (alias @ '' '' @ dst @ sep @ srn @ sep @ srm)
                   else Some (base @ '' '' @ dst @ sep @ srn @ sep @ srm @ sep @ sra)))"

definition dec_dp2 :: "u32 \<Rightarrow> string option" where
  "dec_dp2 insn =
     (let sf = fld insn 31 1; rm = fld insn 16 5; op2 = fld insn 10 6; rn = fld insn 5 5;
          rd = fld insn 0 5;
          mn = (if op2 = 0x02 then Some ''udiv'' else if op2 = 0x03 then Some ''sdiv''
                else if op2 = 0x08 then Some ''lsl'' else if op2 = 0x09 then Some ''lsr''
                else if op2 = 0x0A then Some ''asr'' else if op2 = 0x0B then Some ''ror'' else None)
      in map_option (\<lambda>mn. mn @ '' '' @ reg_name (sf \<noteq> 0) rd False @ sep @ reg_name (sf \<noteq> 0) rn False @ sep @
           reg_name (sf \<noteq> 0) rm False) mn)"

definition dec_dp1 :: "u32 \<Rightarrow> string option" where
  "dec_dp1 insn =
     (let sf = fld insn 31 1; op2 = fld insn 10 6; rn = fld insn 5 5; rd = fld insn 0 5;
          mn = (if op2 = 0 then Some ''rbit'' else if op2 = 1 then Some ''rev16''
                else if op2 = 2 then Some (if sf \<noteq> 0 then ''rev32'' else ''rev'')
                else if op2 = 3 then Some ''rev'' else if op2 = 4 then Some ''clz''
                else if op2 = 5 then Some ''cls'' else None)
      in map_option (\<lambda>mn. mn @ '' '' @ reg_name (sf \<noteq> 0) rd False @ sep @ reg_name (sf \<noteq> 0) rn False) mn)"

definition dec_csel_family :: "u32 \<Rightarrow> string option" where
  "dec_csel_family insn =
     (let sf = fld insn 31 1; op = fld insn 30 1; rm = fld insn 16 5; cond = fld insn 12 4;
          op2 = fld insn 10 2; rn = fld insn 5 5; rd = fld insn 0 5;
          dst = reg_name (sf \<noteq> 0) rd False; srn = reg_name (sf \<noteq> 0) rn False;
          srm = reg_name (sf \<noteq> 0) rm False;
          alias_cond_ok = (cond AND 0xE \<noteq> 0xE);
          is_csinc = (op = 0 \<and> op2 = 1); is_csinv = (op = 1 \<and> op2 = 0); is_csneg = (op = 1 \<and> op2 = 1)
      in if alias_cond_ok \<and> rn = rm \<and> (is_csinc \<or> is_csinv) \<and> rn = 31
         then Some ((if is_csinv then ''csetm'' else ''cset'') @ '' '' @ dst @ sep @ cond_name (cond XOR 1))
         else if alias_cond_ok \<and> rn = rm \<and> (is_csinc \<or> is_csinv \<or> is_csneg)
         then Some ((if is_csneg then ''cneg'' else if is_csinv then ''cinv'' else ''cinc'') @ '' '' @ dst @ sep @
                    srn @ sep @ cond_name (cond XOR 1))
         else Some ((if is_csinc then ''csinc'' else if is_csinv then ''csinv'' else if is_csneg then ''csneg''
                     else ''csel'') @ '' '' @ dst @ sep @ srn @ sep @ srm @ sep @ cond_name cond))"

definition dec_ccmp_ccmn :: "u32 \<Rightarrow> string option" where
  "dec_ccmp_ccmn insn =
     (let sf = fld insn 31 1; op = fld insn 30 1; imm_form = fld insn 11 1; cond = fld insn 12 4;
          rn = fld insn 5 5; nzcv = fld insn 0 4;
          mn = (if op \<noteq> 0 then ''ccmp'' else ''ccmn''); srn = reg_name (sf \<noteq> 0) rn False
      in if imm_form \<noteq> 0
         then Some (mn @ '' '' @ srn @ '', #'' @ fmt_u (fld insn 16 5) @ '', #'' @ fmt_u nzcv @ sep @ cond_name cond)
         else Some (mn @ '' '' @ srn @ sep @ reg_name (sf \<noteq> 0) (fld insn 16 5) False @ '', #'' @ fmt_u nzcv @ sep @
                    cond_name cond))"

definition bfm_alias :: "bool \<Rightarrow> u32 \<Rightarrow> u32 \<Rightarrow> string option" where
  "bfm_alias is_signed sf imms =
     (if is_signed then
        if imms = 7 then Some ''sxtb'' else if imms = 15 then Some ''sxth''
        else if sf \<noteq> 0 \<and> imms = 31 then Some ''sxtw'' else None
      else if imms = 7 then Some ''uxtb'' else if imms = 15 then Some ''uxth'' else None)"

definition dec_bfm :: "u32 \<Rightarrow> string option" where
  "dec_bfm insn =
     (let sf = fld insn 31 1; opc = fld insn 29 2; immr = fld insn 16 6; imms = fld insn 10 6;
          rn = fld insn 5 5; rd = fld insn 0 5;
          width = (if sf \<noteq> 0 then 64 else 32);
          dst = reg_name (sf \<noteq> 0) rd False; srn_full = reg_name (sf \<noteq> 0) rn False;
          srn_w = reg_name False rn False;
          is_signed = (opc = 0);
          alias = (if immr = 0 then bfm_alias is_signed sf imms else None)
      in if opc = 1 then
           if imms < immr
           then Some (''bfi '' @ dst @ sep @ srn_full @ '', #'' @ fmt_u ((width - immr) AND (width - 1)) @
                      '', #'' @ fmt_u (imms + 1))
           else Some (''bfxil '' @ dst @ sep @ srn_full @ '', #'' @ fmt_u immr @ '', #'' @ fmt_u (imms - immr + 1))
         else case alias of
           Some a \<Rightarrow> Some (a @ '' '' @ dst @ sep @ srn_w)
         | None \<Rightarrow>
             if imms = width - 1
             then Some ((if is_signed then ''asr'' else ''lsr'') @ '' '' @ dst @ sep @ srn_full @ '', #'' @ fmt_u immr)
             else if \<not> is_signed \<and> imms + 1 = immr
             then Some (''lsl '' @ dst @ sep @ srn_full @ '', #'' @ fmt_u (width - immr))
             else if immr \<le> imms
             then Some ((if is_signed then ''sbfx'' else ''ubfx'') @ '' '' @ dst @ sep @ srn_full @ '', #'' @
                        fmt_u immr @ '', #'' @ fmt_u (imms - immr + 1))
             else Some ((if is_signed then ''sbfm'' else ''ubfm'') @ '' '' @ dst @ sep @ srn_full @ '', #'' @
                        fmt_u immr @ '', #'' @ fmt_u imms))"

section \<open>Branches and system instructions\<close>

text \<open>The offset of a branch: \<^verbatim>\<open>sx(imm, n) * 4\<close>.\<close>

definition branch_off :: "u32 \<Rightarrow> nat \<Rightarrow> int" where
  "branch_off imm n = sint (sx imm n) * 4"

definition dec_b_bl :: "u32 \<Rightarrow> string option" where
  "dec_b_bl insn =
     (let link = fld insn 31 1; off = branch_off (fld insn 0 26) 26
      in Some ((if link \<noteq> 0 then ''bl'' else ''b'') @ '' #'' @ fmt_pd off))"

definition dec_b_cond :: "u32 \<Rightarrow> string option" where
  "dec_b_cond insn =
     (let off = branch_off (fld insn 5 19) 19; cc = fld insn 0 4
      in Some (''b.'' @ cond_name cc @ '' #'' @ fmt_pd off))"

definition dec_tbz_tbnz :: "u32 \<Rightarrow> string option" where
  "dec_tbz_tbnz insn =
     (let b5 = fld insn 31 1; op = fld insn 24 1; b40 = fld insn 19 5;
          imm14 = branch_off (fld insn 5 14) 14; rt = fld insn 0 5; bitno = push_bit 5 b5 OR b40
      in Some ((if op \<noteq> 0 then ''tbnz'' else ''tbz'') @ '' '' @ reg_name (b5 \<noteq> 0) rt False @ '', #'' @
               fmt_u bitno @ '', #'' @ fmt_pd imm14))"

definition dec_cbz_cbnz :: "u32 \<Rightarrow> string option" where
  "dec_cbz_cbnz insn =
     (let sf = fld insn 31 1; op = fld insn 24 1; off = branch_off (fld insn 5 19) 19; rt = fld insn 0 5
      in Some ((if op \<noteq> 0 then ''cbnz'' else ''cbz'') @ '' '' @ reg_name (sf \<noteq> 0) rt False @ '', #'' @ fmt_pd off))"

definition dec_ret :: "u32 \<Rightarrow> string option" where
  "dec_ret insn = (let rn = fld insn 5 5 in Some (if rn = 30 then ''ret'' else ''ret x'' @ fmt_u rn))"

definition dec_br :: "u32 \<Rightarrow> string option" where
  "dec_br insn = Some (''br x'' @ fmt_u (fld insn 5 5))"

definition dec_blr :: "u32 \<Rightarrow> string option" where
  "dec_blr insn = Some (''blr x'' @ fmt_u (fld insn 5 5))"

definition barrier_names :: "string list" where
  "barrier_names = [''#0'', ''oshld'', ''oshst'', ''osh'', ''#4'', ''nshld'', ''nshst'', ''nsh'',
     ''#8'', ''ishld'', ''ishst'', ''ish'', ''#12'', ''ld'', ''st'', ''sy'']"

definition dec_barrier :: "u32 \<Rightarrow> string option" where
  "dec_barrier insn =
     (let crm = fld insn 8 4; op2 = fld insn 5 3;
          mn = (if op2 = 4 then Some ''dsb'' else if op2 = 5 then Some ''dmb''
                else if op2 = 6 then Some ''isb'' else None)
      in map_option (\<lambda>mn. if op2 = 6 \<and> crm = 0xF then ''isb'' else mn @ '' '' @ barrier_names ! unat crm) mn)"

definition dec_msr_imm :: "u32 \<Rightarrow> string option" where
  "dec_msr_imm insn =
     (let op1 = fld insn 16 3; crm = fld insn 8 4; op2 = fld insn 5 3;
          name = (if op1 = 0 \<and> op2 = 3 then ''uao'' else if op1 = 0 \<and> op2 = 4 then ''pan''
                  else if op1 = 0 \<and> op2 = 5 then ''spsel'' else if op1 = 3 \<and> op2 = 1 then ''ssbs''
                  else if op1 = 3 \<and> op2 = 2 then ''dit'' else if op1 = 3 \<and> op2 = 4 then ''tco''
                  else if op1 = 3 \<and> op2 = 6 then ''daifset'' else if op1 = 3 \<and> op2 = 7 then ''daifclr''
                  else ''s0_'' @ fmt_u op1 @ ''_c4_c'' @ fmt_u crm @ ''_'' @ fmt_u op2)
      in Some (''msr '' @ name @ '', #'' @ fmt_u crm))"

definition mrs_name :: "u32 \<Rightarrow> u32 \<Rightarrow> u32 \<Rightarrow> u32 \<Rightarrow> u32 \<Rightarrow> string" where
  "mrs_name op0 op1 crn crm op2 =
     (if op0 = 3 \<and> op1 = 3 \<and> crn = 4 \<and> crm = 2 \<and> op2 = 0 then ''nzcv''
      else if op0 = 3 \<and> op1 = 3 \<and> crn = 4 \<and> crm = 4 \<and> op2 = 0 then ''fpcr''
      else if op0 = 3 \<and> op1 = 3 \<and> crn = 4 \<and> crm = 4 \<and> op2 = 1 then ''fpsr''
      else if op0 = 3 \<and> op1 = 3 \<and> crn = 13 \<and> crm = 0 \<and> op2 = 2 then ''tpidr_el0''
      else if op0 = 3 \<and> op1 = 3 \<and> crn = 13 \<and> crm = 0 \<and> op2 = 3 then ''tpidrro_el0''
      else ''s'' @ fmt_u op0 @ ''_'' @ fmt_u op1 @ ''_c'' @ fmt_u crn @ ''_c'' @ fmt_u crm @ ''_'' @ fmt_u op2)"

definition dec_mrs_msr :: "u32 \<Rightarrow> string option" where
  "dec_mrs_msr insn =
     (let l = fld insn 21 1; o0 = fld insn 19 1; op1 = fld insn 16 3; crn = fld insn 12 4;
          crm = fld insn 8 4; op2 = fld insn 5 3; rt = fld insn 0 5; op0 = o0 + 2;
          rt_str = reg_name True rt False; name = mrs_name op0 op1 crn crm op2
      in if l \<noteq> 0 then Some (''mrs '' @ rt_str @ sep @ name) else Some (''msr '' @ name @ sep @ rt_str))"

definition dec_hint :: "u32 \<Rightarrow> string option" where
  "dec_hint insn =
     (let crm = fld insn 8 4; op2 = fld insn 5 3; imm = push_bit 3 crm OR op2
      in if imm < 6 then Some ([''nop'', ''yield'', ''wfe'', ''wfi'', ''sev'', ''sevl''] ! unat imm)
         else Some (''hint #'' @ fmt_u imm))"

definition dec_exception :: "u32 \<Rightarrow> string option" where
  "dec_exception insn =
     (let opc = fld insn 21 3; imm16 = fld insn 5 16; ll = fld insn 0 2;
          mn = (if opc = 0 \<and> ll = 1 then Some ''svc'' else if opc = 1 \<and> ll = 0 then Some ''brk''
                else if opc = 2 \<and> ll = 0 then Some ''hlt'' else None)
      in map_option (\<lambda>mn. mn @ '' #'' @ fmt_u imm16) mn)"

text \<open>
  \<^verbatim>\<open>adrp\<close> prints \<^verbatim>\<open>off * 4096\<close> computed in \<^verbatim>\<open>int32_t\<close>, which overflows for offsets of \<open>2 ^ 19\<close>
  pages and more: the product wraps here.
\<close>

definition dec_adr :: "u32 \<Rightarrow> string option" where
  "dec_adr insn =
     (let op = fld insn 31 1; immlo = fld insn 29 2; immhi = fld insn 5 19; rd = fld insn 0 5;
          off = sx (push_bit 2 immhi OR immlo) 21; dst = reg_name True rd False
      in if op \<noteq> 0 then Some (''adrp '' @ dst @ '', #'' @ fmt_pd (sint (off * 4096)))
         else Some (''adr '' @ dst @ '', #'' @ fmt_pd (sint off)))"

section \<open>Loads and stores\<close>

text \<open>The base register with an unsigned offset, left out when it is 0.\<close>

definition mem_uoff :: "string \<Rightarrow> u32 \<Rightarrow> string" where
  "mem_uoff rn_str scaled =
     (if scaled = 0 then ''['' @ rn_str @ '']'' else ''['' @ rn_str @ '', #'' @ fmt_u scaled @ '']'')"

definition sized_mn :: "string \<Rightarrow> u32 \<Rightarrow> string" where
  "sized_mn base sz = (if sz = 0 then base @ ''b'' else if sz = 1 then base @ ''h'' else base)"

definition dec_ldar_stlr :: "u32 \<Rightarrow> string option" where
  "dec_ldar_stlr insn =
     (let sz = fld insn 30 2; l = fld insn 22 1; rn = fld insn 5 5; rt = fld insn 0 5;
          mn = sized_mn (if l \<noteq> 0 then ''ldar'' else ''stlr'') sz
      in Some (mn @ '' '' @ reg_name (sz = 3) rt False @ '', ['' @ reg_name True rn True @ '']''))"

definition dec_ldxr_stxr :: "u32 \<Rightarrow> string option" where
  "dec_ldxr_stxr insn =
     (let sz = fld insn 30 2; l = fld insn 22 1; rs = fld insn 16 5; rn = fld insn 5 5; rt = fld insn 0 5;
          mn = sized_mn (if l \<noteq> 0 then ''ldxr'' else ''stxr'') sz;
          rt_str = reg_name (sz = 3) rt False; rn_str = reg_name True rn True;
          rs_str = reg_name False rs False
      in if l \<noteq> 0 then Some (mn @ '' '' @ rt_str @ '', ['' @ rn_str @ '']'')
         else Some (mn @ '' '' @ rs_str @ sep @ rt_str @ '', ['' @ rn_str @ '']''))"

definition dec_prfm_imm :: "u32 \<Rightarrow> string option" where
  "dec_prfm_imm insn =
     (let imm12 = fld insn 10 12; rn = fld insn 5 5; rt = fld insn 0 5; scaled = push_bit 3 imm12;
          rn_str = reg_name True rn True;
          type = fld rt 3 2; target = fld rt 1 2; strm = fld rt 0 1;
          hint = (if type \<noteq> 3 \<and> target \<noteq> 3
                  then [''pld'', ''pli'', ''pst''] ! unat type @ [''l1'', ''l2'', ''l3''] ! unat target @
                       (if strm \<noteq> 0 then ''strm'' else ''keep'')
                  else ''#'' @ fmt_u rt)
      in Some (''prfm '' @ hint @ sep @ mem_uoff rn_str scaled))"

text \<open>
  The mnemonic and the destination width of a general-purpose load or store from \<^verbatim>\<open>opc\<close> and
  \<^verbatim>\<open>size\<close>, shared by three decoders.
\<close>

definition ldst_mn :: "u32 \<Rightarrow> u32 \<Rightarrow> (string \<times> bool) option" where
  "ldst_mn opc sz =
     (if opc = 0 then Some (sized_mn ''str'' sz, sz = 3)
      else if opc = 1 then Some (sized_mn ''ldr'' sz, sz = 3)
      else if sz = 0 then Some (''ldrsb'', opc = 2)
      else if sz = 1 then Some (''ldrsh'', opc = 2)
      else if sz = 2 then Some (''ldrsw'', opc = 2)
      else None)"

definition ext_names :: "string \<Rightarrow> string list" where
  "ext_names third = [''uxtb'', ''uxth'', ''uxtw'', third, ''sxtb'', ''sxth'', ''sxtw'', ''sxtx'']"

definition dec_ldst_regoff :: "u32 \<Rightarrow> string option" where
  "dec_ldst_regoff insn =
     (let sz = fld insn 30 2; v = fld insn 26 1; opc = fld insn 22 2; rm = fld insn 16 5;
          option = fld insn 13 3; s_bit = fld insn 12 1; rn = fld insn 5 5; rt = fld insn 0 5
      in if v \<noteq> 0 then None
         else if opc \<ge> 2 \<and> sz = 3 then None
         else case ldst_mn opc sz of
           None \<Rightarrow> None
         | Some (mn, dst_sf) \<Rightarrow>
             (let rt_str = reg_name dst_sf rt False; rn_str = reg_name True rn True;
                  rm_str = reg_name (option AND 1 \<noteq> 0) rm False;
                  shift = (if s_bit \<noteq> 0 then sz else 0);
                  ext = ext_names ''lsl'' ! unat option
              in if option = 3 \<and> shift = 0
                 then Some (mn @ '' '' @ rt_str @ '', ['' @ rn_str @ sep @ rm_str @ '']'')
                 else if shift = 0
                 then Some (mn @ '' '' @ rt_str @ '', ['' @ rn_str @ sep @ rm_str @ sep @ ext @ '']'')
                 else Some (mn @ '' '' @ rt_str @ '', ['' @ rn_str @ sep @ rm_str @ sep @ ext @ '' #'' @
                            fmt_u shift @ '']'')))"

definition dec_add_sub_ext_reg :: "u32 \<Rightarrow> string option" where
  "dec_add_sub_ext_reg insn =
     (let sf = fld insn 31 1; op = fld insn 30 1; s = fld insn 29 1; rm = fld insn 16 5;
          option = fld insn 13 3; imm3 = fld insn 10 3; rn = fld insn 5 5; rd = fld insn 0 5;
          dst = reg_name (sf \<noteq> 0) rd (s = 0); srn = reg_name (sf \<noteq> 0) rn True;
          srm = reg_name (option AND 1 \<noteq> 0) rm False; ext = ext_names ''uxtx'' ! unat option
      in Some (add_sub_mn op s @ '' '' @ dst @ sep @ srn @ sep @ srm @ sep @ ext @
               (if imm3 = 0 then [] else '' #'' @ fmt_u imm3)))"

definition dec_ldst_uimm :: "u32 \<Rightarrow> string option" where
  "dec_ldst_uimm insn =
     (let sz = fld insn 30 2; v = fld insn 26 1; opc = fld insn 22 2; imm = fld insn 10 12;
          rn = fld insn 5 5; rt = fld insn 0 5
      in if v \<noteq> 0 then None
         else if opc \<ge> 2 \<and> sz = 3 then None
         else case ldst_mn opc sz of
           None \<Rightarrow> None
         | Some (mn, dst_sf) \<Rightarrow>
             Some (mn @ '' '' @ reg_name dst_sf rt False @ sep @
                   mem_uoff (reg_name True rn True) (push_bit (unat sz) imm)))"

definition dec_extr :: "u32 \<Rightarrow> string option" where
  "dec_extr insn =
     (let sf = fld insn 31 1; rm = fld insn 16 5; imms = fld insn 10 6; rn = fld insn 5 5; rd = fld insn 0 5;
          dst = reg_name (sf \<noteq> 0) rd False; srn = reg_name (sf \<noteq> 0) rn False; srm = reg_name (sf \<noteq> 0) rm False
      in if rn = rm then Some (''ror '' @ dst @ sep @ srn @ '', #'' @ fmt_u imms)
         else Some (''extr '' @ dst @ sep @ srn @ sep @ srm @ '', #'' @ fmt_u imms))"

definition dec_ldr_lit :: "u32 \<Rightarrow> string option" where
  "dec_ldr_lit insn =
     (let opc = fld insn 30 2; v = fld insn 26 1; off = branch_off (fld insn 5 19) 19; rt = fld insn 0 5
      in if v \<noteq> 0 then None
         else if opc = 0 then Some (''ldr '' @ reg_name False rt False @ '', #'' @ fmt_pd off)
         else if opc = 1 then Some (''ldr '' @ reg_name True rt False @ '', #'' @ fmt_pd off)
         else if opc = 2 then Some (''ldrsw '' @ reg_name True rt False @ '', #'' @ fmt_pd off)
         else None)"

text \<open>The unscaled forms are named \<^verbatim>\<open>ldur\<close> and \<^verbatim>\<open>stur\<close> with the suffix of the scaled name.\<close>

definition unscaled_mn :: "string \<Rightarrow> string" where
  "unscaled_mn mn = (if hd mn = CHR ''s'' then ''stur'' @ drop 3 mn else ''ldur'' @ drop 3 mn)"

definition dec_ldst_imm9 :: "u32 \<Rightarrow> string option" where
  "dec_ldst_imm9 insn =
     (let sz = fld insn 30 2; v = fld insn 26 1; opc = fld insn 22 2;
          simm9 = sint (sx (fld insn 12 9) 9); idx = fld insn 10 2; rn = fld insn 5 5; rt = fld insn 0 5
      in if v \<noteq> 0 \<or> idx = 2 then None
         else case ldst_mn opc sz of
           None \<Rightarrow> None
         | Some (mn, dst_sf) \<Rightarrow>
             (let mn = (if idx = 0 then unscaled_mn mn else mn);
                  rt_str = reg_name dst_sf rt False; rn_str = reg_name True rn True
              in if idx = 0 then Some (mn @ '' '' @ rt_str @ '', ['' @ rn_str @ '', #'' @ fmt_d simm9 @ '']'')
                 else if idx = 1 then Some (mn @ '' '' @ rt_str @ '', ['' @ rn_str @ ''], #'' @ fmt_d simm9)
                 else Some (mn @ '' '' @ rt_str @ '', ['' @ rn_str @ '', #'' @ fmt_d simm9 @ '']!'')))"

definition dec_ldp_stp :: "u32 \<Rightarrow> string option" where
  "dec_ldp_stp insn =
     (let opc = fld insn 30 2; v = fld insn 26 1; xm = fld insn 23 2; l = fld insn 22 1;
          imm7 = fld insn 15 7; rt2 = fld insn 10 5; rn = fld insn 5 5; rt = fld insn 0 5
      in if opc = 3 then None
         else if v = 0 \<and> opc = 1 then None
         else
           (let wl = (if opc = 0 then ''s'' else if opc = 1 then ''d'' else ''q'');
                sf = (opc = 2);
                scale = (if v \<noteq> 0 then 4 * 2 ^ unat opc else if sf then 8 else 4);
                rt_str = (if v \<noteq> 0 then wl @ fmt_u rt else reg_name sf rt False);
                rt2_str = (if v \<noteq> 0 then wl @ fmt_u rt2 else reg_name sf rt2 False);
                off = sint (sx imm7 7) * scale;
                mn = (if xm = 0 then (if l \<noteq> 0 then ''ldnp'' else ''stnp'')
                      else (if l \<noteq> 0 then ''ldp'' else ''stp''));
                rn_str = reg_name True rn True;
                pair = mn @ '' '' @ rt_str @ sep @ rt2_str
            in if xm = 1 then Some (pair @ '', ['' @ rn_str @ ''], #'' @ fmt_d off)
               else if xm = 3 then Some (pair @ '', ['' @ rn_str @ '', #'' @ fmt_d off @ '']!'')
               else Some (pair @ '', ['' @ rn_str @ '', #'' @ fmt_d off @ '']'')))"

section \<open>Floating point and vectors\<close>

definition fp_reg_letter :: "u32 \<Rightarrow> string" where
  "fp_reg_letter ftype = (if ftype = 0 then ''s'' else if ftype = 1 then ''d'' else if ftype = 3 then ''h'' else ''?'')"

definition fp_reg_name :: "u32 \<Rightarrow> u32 \<Rightarrow> string" where
  "fp_reg_name ftype r = fp_reg_letter ftype @ fmt_u r"

definition fp_1src_names :: "string option list" where
  "fp_1src_names = [Some ''fmov'', Some ''fabs'', Some ''fneg'', Some ''fsqrt'', Some ''fcvt'', Some ''fcvt'', None,
     Some ''fcvt'', Some ''frintn'', Some ''frintp'', Some ''frintm'', Some ''frintz'', Some ''frinta'', None,
     Some ''frintx'', Some ''frinti'']"

definition dec_fp_1src :: "u32 \<Rightarrow> string option" where
  "dec_fp_1src insn =
     (let ftype = fld insn 22 2; opc6 = fld insn 15 6; rn = fld insn 5 5; rd = fld insn 0 5;
          dst_ftype = (if opc6 = 4 then 0 else if opc6 = 5 then 1 else if opc6 = 7 then 3 else ftype)
      in if opc6 = 6 then Some (''bfcvt h'' @ fmt_u rd @ '', s'' @ fmt_u rn)
         else if opc6 < 16
         then map_option (\<lambda>mn. mn @ '' '' @ fp_reg_name dst_ftype rd @ sep @ fp_reg_name ftype rn)
                (fp_1src_names ! unat opc6)
         else None)"

definition dec_fp_2src :: "u32 \<Rightarrow> string option" where
  "dec_fp_2src insn =
     (let ftype = fld insn 22 2; rm = fld insn 16 5; opc4 = fld insn 12 4; rn = fld insn 5 5; rd = fld insn 0 5
      in if opc4 < 9
         then Some ([''fmul'', ''fdiv'', ''fadd'', ''fsub'', ''fmax'', ''fmin'', ''fmaxnm'', ''fminnm'', ''fnmul''] !
                    unat opc4 @ '' '' @ fp_reg_name ftype rd @ sep @ fp_reg_name ftype rn @ sep @ fp_reg_name ftype rm)
         else None)"

definition dec_fcmp :: "u32 \<Rightarrow> string option" where
  "dec_fcmp insn =
     (let ftype = fld insn 22 2; rm = fld insn 16 5; rn = fld insn 5 5; opc2 = fld insn 0 5;
          compare_zero = fld opc2 3 1; with_exc = fld opc2 4 1;
          mn = (if with_exc \<noteq> 0 then ''fcmpe'' else ''fcmp'')
      in if compare_zero \<noteq> 0 then Some (mn @ '' '' @ fp_reg_name ftype rn @ '', #0.0'')
         else Some (mn @ '' '' @ fp_reg_name ftype rn @ sep @ fp_reg_name ftype rm))"

text \<open>The decimals of \<open>k / 128\<close> without trailing zeros; \<open>d\<close> is the weight of the next digit.\<close>

fun frac_digits :: "nat \<Rightarrow> nat \<Rightarrow> string" where
  "frac_digits 0 k = []"
| "frac_digits (Suc f) k =
     (if k = 0 then [] else dec_digit (k * 10 div 128) # frac_digits f (k * 10 mod 128))"

definition fmt_fp_imm :: "u32 \<Rightarrow> string" where
  "fmt_fp_imm imm8 =
     (let e = (if imm8 AND 0x40 \<noteq> 0 then unat (fld imm8 4 2) else unat (fld imm8 4 2) + 4);
          k = (16 + unat (imm8 AND 0xF)) * 2 ^ e;
          whole = (if imm8 AND 0x80 \<noteq> 0 then ''-'' else []) @ dec_of (k div 128)
      in if k mod 128 = 0 then whole @ ''.0'' else whole @ ''.'' @ frac_digits 7 (k mod 128))"

definition dec_fmov_imm :: "u32 \<Rightarrow> string option" where
  "dec_fmov_imm insn =
     (let ftype = fld insn 22 2; imm8 = fld insn 13 8; rd = fld insn 0 5
      in Some (''fmov '' @ fp_reg_name ftype rd @ '', #'' @ fmt_fp_imm imm8))"

definition dec_fp_int_cvt :: "u32 \<Rightarrow> string option" where
  "dec_fp_int_cvt insn =
     (let sf = fld insn 31 1; ftype = fld insn 22 2; rmode_opcode5 = fld insn 16 5; rn = fld insn 5 5;
          rd = fld insn 0 5; rmode = fld rmode_opcode5 3 2; op = fld rmode_opcode5 0 3;
          to_gpr = reg_name (sf \<noteq> 0) rd False @ sep @ fp_reg_name ftype rn;
          to_fp = fp_reg_name ftype rd @ sep @ reg_name (sf \<noteq> 0) rn False
      in if rmode = 0 \<and> (op = 6 \<or> op = 7) then Some (''fmov '' @ (if op = 6 then to_gpr else to_fp))
         else if rmode = 0 \<and> (op = 2 \<or> op = 3) then Some ((if op = 2 then ''scvtf'' else ''ucvtf'') @ '' '' @ to_fp)
         else if op AND 6 = 0
         then Some ((if op AND 1 \<noteq> 0 then [''fcvtnu'', ''fcvtpu'', ''fcvtmu'', ''fcvtzu''] ! unat rmode
                     else [''fcvtns'', ''fcvtps'', ''fcvtms'', ''fcvtzs''] ! unat rmode) @ '' '' @ to_gpr)
         else if op = 4 \<or> op = 5 then Some ((if op = 4 then ''fcvtas'' else ''fcvtau'') @ '' '' @ to_gpr)
         else None)"

definition dec_fp_ldst_uimm :: "u32 \<Rightarrow> string option" where
  "dec_fp_ldst_uimm insn =
     (let sz = fld insn 30 2; opc = fld insn 22 2; imm12 = fld insn 10 12; rn = fld insn 5 5; rt = fld insn 0 5;
          is_load = (opc AND 1 \<noteq> 0); is_q = (fld opc 1 1 \<noteq> 0);
          form = (if is_q then if sz \<noteq> 0 then None else Some (16, ''q'')
                  else Some (push_bit (unat sz) 1, [''b'', ''h'', ''s'', ''d''] ! unat sz))
      in case form of None \<Rightarrow> None
         | Some (width, letter) \<Rightarrow>
             Some ((if is_load then ''ldr'' else ''str'') @ '' '' @ letter @ fmt_u rt @ sep @
                   mem_uoff (reg_name True rn True) (imm12 * width)))"

definition fp_vec_arr :: "u32 \<Rightarrow> u32 \<Rightarrow> string" where
  "fp_vec_arr q sz = (if sz = 0 then (if q \<noteq> 0 then ''4s'' else ''2s'') else (if q \<noteq> 0 then ''2d'' else ''1d''))"

definition fp_3same_mn :: "u32 \<Rightarrow> bool \<Rightarrow> u32 \<Rightarrow> string option" where
  "fp_3same_mn u b23 opc5 =
     (if u = 0 then
        if opc5 = 0x19 then Some (if b23 then ''fmls'' else ''fmla'')
        else if opc5 = 0x1A then Some (if b23 then ''fsub'' else ''fadd'')
        else if opc5 = 0x1B then Some (if b23 then ''fminnm'' else ''fmaxnm'')
        else if opc5 = 0x1C then Some (if b23 then ''fcmgt'' else ''fcmeq'')
        else if opc5 = 0x1E then Some (if b23 then ''fmin'' else ''fmax'')
        else if opc5 = 0x1F then Some (if b23 then ''frsqrts'' else ''frecps'')
        else None
      else
        if opc5 = 0x1A then Some (if b23 then ''fabd'' else ''faddp'')
        else if opc5 = 0x1B then (if b23 then None else Some ''fmul'')
        else if opc5 = 0x1C then Some (if b23 then ''facgt'' else ''fcmge'')
        else if opc5 = 0x1E then Some (if b23 then ''fminp'' else ''fmaxp'')
        else if opc5 = 0x1F then (if b23 then None else Some ''fdiv'')
        else None)"

definition vreg :: "u32 \<Rightarrow> string \<Rightarrow> string" where
  "vreg r arr = ''v'' @ fmt_u r @ ''.'' @ arr"

definition dec_fp_3same_vec :: "u32 \<Rightarrow> string option" where
  "dec_fp_3same_vec insn =
     (let q = fld insn 30 1; u = fld insn 29 1; bit23 = fld insn 23 1; sz = fld insn 22 1; rm = fld insn 16 5;
          opc5 = fld insn 11 5; rn = fld insn 5 5; rd = fld insn 0 5; arr = fp_vec_arr q sz
      in map_option (\<lambda>mn. mn @ '' '' @ vreg rd arr @ sep @ vreg rn arr @ sep @ vreg rm arr)
           (fp_3same_mn u (bit23 \<noteq> 0) opc5))"

definition dec_bfdot :: "u32 \<Rightarrow> string option" where
  "dec_bfdot insn =
     (let q = fld insn 30 1; rm = fld insn 16 5; rn = fld insn 5 5; rd = fld insn 0 5;
          vt = (if q \<noteq> 0 then ''4s'' else ''2s''); vh = (if q \<noteq> 0 then ''8h'' else ''4h'')
      in Some (''bfdot '' @ vreg rd vt @ sep @ vreg rn vh @ sep @ vreg rm vh))"

definition dec_bfdot_idx :: "u32 \<Rightarrow> string option" where
  "dec_bfdot_idx insn =
     (let q = fld insn 30 1; l = fld insn 21 1; m = fld insn 20 1; rm4 = fld insn 16 4; h = fld insn 11 1;
          rn = fld insn 5 5; rd = fld insn 0 5; rm = push_bit 4 m OR rm4; idx = push_bit 1 h OR l;
          vt = (if q \<noteq> 0 then ''4s'' else ''2s''); vn = (if q \<noteq> 0 then ''8h'' else ''4h'')
      in Some (''bfdot '' @ vreg rd vt @ sep @ vreg rn vn @ sep @ vreg rm ''2h'' @ ''['' @ fmt_u idx @ '']''))"

definition dec_bfmmla :: "u32 \<Rightarrow> string option" where
  "dec_bfmmla insn =
     (let rm = fld insn 16 5; rn = fld insn 5 5; rd = fld insn 0 5
      in Some (''bfmmla '' @ vreg rd ''4s'' @ sep @ vreg rn ''8h'' @ sep @ vreg rm ''8h''))"

definition dec_bfmlal :: "u32 \<Rightarrow> string option" where
  "dec_bfmlal insn =
     (let q = fld insn 30 1; rm = fld insn 16 5; rn = fld insn 5 5; rd = fld insn 0 5
      in Some ((if q \<noteq> 0 then ''bfmlalt'' else ''bfmlalb'') @ '' '' @ vreg rd ''4s'' @ sep @ vreg rn ''8h'' @ sep @
               vreg rm ''8h''))"

definition dec_bfcvtn :: "u32 \<Rightarrow> string option" where
  "dec_bfcvtn insn =
     (let q = fld insn 30 1; rn = fld insn 5 5; rd = fld insn 0 5
      in Some ((if q \<noteq> 0 then ''bfcvtn2'' else ''bfcvtn'') @ '' '' @ vreg rd (if q \<noteq> 0 then ''8h'' else ''4h'') @ sep @
               vreg rn ''4s''))"

section \<open>Dispatch\<close>

type_synonym a64_pat = "u32 \<times> u32 \<times> (u32 \<Rightarrow> string option)"

definition g_patterns :: "a64_pat list" where
  "g_patterns =
     [(0xFFFFF01F, 0xD503201F, dec_hint),
      (0xFFFFF01F, 0xD503301F, dec_barrier),
      (0xFFF8F01F, 0xD500401F, dec_msr_imm),
      (0xFFD00000, 0xD5100000, dec_mrs_msr),
      (0xFFFFFC1F, 0xD65F0000, dec_ret),
      (0xFFFFFC1F, 0xD61F0000, dec_br),
      (0xFFFFFC1F, 0xD63F0000, dec_blr),
      (0xFF000000, 0xD4000000, dec_exception),
      (0x3F9FFC00, 0x089FFC00, dec_ldar_stlr),
      (0x3F808000, 0x08000000, dec_ldxr_stxr),
      (0xFFC00000, 0xF9800000, dec_prfm_imm),
      (0x3FE00800, 0x1A800000, dec_csel_family),
      (0x3FE00400, 0x3A400000, dec_ccmp_ccmn),
      (0xFF000010, 0x54000000, dec_b_cond),
      (0x7E000000, 0x34000000, dec_cbz_cbnz),
      (0x7E000000, 0x36000000, dec_tbz_tbnz),
      (0x7C000000, 0x14000000, dec_b_bl),
      (0x1F000000, 0x10000000, dec_adr),
      (0x1F800000, 0x12800000, dec_movz_movk_movn),
      (0x1F800000, 0x13000000, dec_bfm),
      (0x1F800000, 0x12000000, dec_logical_imm),
      (0x1F000000, 0x11000000, dec_add_sub_imm),
      (0x1F000000, 0x0A000000, dec_logical_reg),
      (0x1F200000, 0x0B200000, dec_add_sub_ext_reg),
      (0x1F200000, 0x0B000000, dec_add_sub_reg),
      (0x1F000000, 0x1B000000, dec_dp3),
      (0x7FFF0000, 0x5AC00000, dec_dp1),
      (0x7FE00000, 0x1AC00000, dec_dp2),
      (0x7FA00000, 0x13800000, dec_extr),
      (0x3A000000, 0x28000000, dec_ldp_stp),
      (0xBFE0FC00, 0x2E40FC00, dec_bfdot),
      (0xBFC0F400, 0x0F40F000, dec_bfdot_idx),
      (0xBFE0FC00, 0x2EC0FC00, dec_bfmlal),
      (0xFFE0FC00, 0x6E40EC00, dec_bfmmla),
      (0xBFFFFC00, 0x0EA16800, dec_bfcvtn),
      (0x9F200400, 0x0E200400, dec_fp_3same_vec),
      (0xFF207C00, 0x1E204000, dec_fp_1src),
      (0xFF200C00, 0x1E200800, dec_fp_2src),
      (0xFF20FC00, 0x1E202000, dec_fcmp),
      (0xFF201FE0, 0x1E201000, dec_fmov_imm),
      (0x7F20FC00, 0x1E200000, dec_fp_int_cvt),
      (0x3F000000, 0x3D000000, dec_fp_ldst_uimm),
      (0x3F200C00, 0x38200800, dec_ldst_regoff),
      (0x3F200400, 0x38000400, dec_ldst_imm9),
      (0x3F200C00, 0x38000000, dec_ldst_imm9),
      (0x3F000000, 0x18000000, dec_ldr_lit),
      (0x3F000000, 0x39000000, dec_ldst_uimm)]"

fun dis_loop :: "a64_pat list \<Rightarrow> u32 \<Rightarrow> string option" where
  "dis_loop [] insn = None"
| "dis_loop ((m, v, dec) # ps) insn =
     (if insn AND m = v then (case dec insn of Some s \<Rightarrow> Some s | None \<Rightarrow> dis_loop ps insn)
      else dis_loop ps insn)"

text \<open>
  The return value and the contents of the buffer; a buffer of size 0 is left alone. (A null
  buffer is the caller's business and not represented.)
\<close>

definition aarch64_disasm :: "u32 \<Rightarrow> nat \<Rightarrow> bool \<times> string option" where
  "aarch64_disasm insn outsz =
     (if outsz = 0 then (False, None)
      else case dis_loop g_patterns insn of
        Some s \<Rightarrow> (True, Some (snprintf outsz s))
      | None \<Rightarrow> (False, Some (snprintf outsz (''.word 0x'' @ fmt_08x insn))))"

text \<open>The listing of a buffer, one line per word: the offset, the word and its text.\<close>

definition word_at :: "u8 list \<Rightarrow> nat \<Rightarrow> u32" where
  "word_at bytes off =
     ucast (bytes ! off) OR push_bit 8 (ucast (bytes ! (off + 1))) OR
     push_bit 16 (ucast (bytes ! (off + 2))) OR push_bit 24 (ucast (bytes ! (off + 3)))"

function disasm_lines :: "u8 list \<Rightarrow> nat \<Rightarrow> (nat \<times> u32 \<times> string) list" where
  "disasm_lines bytes off =
     (if off + 4 \<le> length bytes
      then (off, word_at bytes off, the (snd (aarch64_disasm (word_at bytes off) 128))) #
           disasm_lines bytes (off + 4)
      else [])"
  by pat_completeness auto

termination by (relation "measure (\<lambda>(bytes, off). length bytes - off)") auto

declare disasm_lines.simps [simp del]

definition aarch64_disasm_buf :: "u8 list \<Rightarrow> (nat \<times> u32 \<times> string) list" where
  "aarch64_disasm_buf bytes = disasm_lines bytes 0"

end
