(* ===== verification/A64Len.thy ===== *)
theory A64Len
  imports A64Dis
begin

text \<open>
  No text of the disassembler of \<^verbatim>\<open>src/src/asm/dis_arm64.c\<close> is cut by the 128-byte buffer of
  \<^verbatim>\<open>aarch64_disasm_buf\<close>: an upper bound of the length of a text is computed along its structure, with
  the rules \<open>len\<close> for strings and \<open>fits\<close> for the decoders.
\<close>

section \<open>Lengths of the printed parts\<close>

definition fits :: "nat \<Rightarrow> string option \<Rightarrow> bool" where
  "fits n t = (case t of None \<Rightarrow> True | Some s \<Rightarrow> length s \<le> n)"

lemma length_dec_of: "n < 10 ^ k \<Longrightarrow> 0 < k \<Longrightarrow> length (dec_of n) \<le> k"
proof (induction n arbitrary: k rule: dec_of.induct)
  case (1 n)
  show ?case
  proof (cases "n < 10")
    case False
    then obtain j where k: "k = Suc j" "0 < j" using 1(2,3) by (cases k; cases "k = 1") auto
    have "n div 10 < 10 ^ j" using 1(2) by (simp add: k(1) less_mult_imp_div_less mult.commute)
    then show ?thesis using 1(1) [OF False, of j] False k by (simp add: dec_of.simps [of n])
  qed (use 1(3) in \<open>simp add: dec_of.simps [of n]\<close>)
qed

lemma length_hex_of: "n < 16 ^ k \<Longrightarrow> 0 < k \<Longrightarrow> length (hex_of n) \<le> k"
proof (induction n arbitrary: k rule: hex_of.induct)
  case (1 n)
  show ?case
  proof (cases "n < 16")
    case False
    then obtain j where k: "k = Suc j" "0 < j" using 1(2,3) by (cases k; cases "k = 1") auto
    have "n div 16 < 16 ^ j" using 1(2) by (simp add: k(1) less_mult_imp_div_less mult.commute)
    then show ?thesis using 1(1) [OF False, of j] False k by (simp add: hex_of.simps [of n])
  qed (use 1(3) in \<open>simp add: hex_of.simps [of n]\<close>)
qed

lemma u32_less: "unat (w :: u32) < 4294967296"
  using unsigned_less [of w] by simp

lemma u64_less: "unat (w :: u64) < 18446744073709551616"
  using unsigned_less [of w] by simp

lemma len_fmt_u: "length (fmt_u w) \<le> 10"
  unfolding fmt_u_def by (rule length_dec_of) (use u32_less [of w] in simp_all)

lemma len_dec_u64: "length (dec_of (unat (w :: u64))) \<le> 20"
  by (rule length_dec_of) (use u64_less [of w] in simp_all)

lemma len_hex_u64: "length (hex_of (unat (w :: u64))) \<le> 16"
  by (rule length_hex_of) (use u64_less [of w] in simp_all)

text \<open>The signed numbers printed are 32-bit values scaled by at most 16.\<close>

lemma length_fmt_d:
  assumes "\<bar>i\<bar> < 10 ^ 12"
  shows "length (fmt_d i) \<le> 13" "length (fmt_pd i) \<le> 13"
  using length_dec_of [of "nat (- i)" 12] length_dec_of [of "nat i" 12] assms
  by (auto simp: fmt_d_def fmt_pd_def nat_less_iff abs_if split: if_splits)

lemma sint_u32: "\<bar>sint (w :: u32)\<bar> \<le> 2147483648"
  using sint_ge [of w] sint_lt [of w] by (simp add: abs_le_iff)

lemma len_fmt_sint: "length (fmt_d (sint (w :: u32))) \<le> 13" "length (fmt_pd (sint (w :: u32))) \<le> 13"
  by (rule length_fmt_d, use sint_u32 [of w] in simp)+

lemma len_fmt_pd_branch: "length (fmt_pd (branch_off w n)) \<le> 13"
  by (rule length_fmt_d) (use sint_u32 [of "sx w n"] in \<open>simp add: branch_off_def abs_mult\<close>)

lemma len_append: "length s \<le> m \<Longrightarrow> length t \<le> n \<Longrightarrow> length (s @ t) \<le> m + n"
  by simp

lemma len_if: "length s \<le> m \<Longrightarrow> length t \<le> n \<Longrightarrow> length (if b then s else t) \<le> max m n"
  by (simp add: max_def)

lemma len_nth_fld:
  "n < 32 \<and> 2 ^ n \<le> length xs \<and> list_all (\<lambda>s. length s \<le> 7) xs \<Longrightarrow>
   length (xs ! unat (fld w k n)) \<le> 7"
  using unat_fld_less [of n w k] by (simp add: list_all_length)

lemmas len_tables = shift_names_def barrier_names_def ext_names_def

lemma len_nth_guard:
  "fld w k 2 \<noteq> 3 \<Longrightarrow> length xs = 3 \<Longrightarrow> list_all (\<lambda>s. length s \<le> 3) xs \<Longrightarrow>
   length (xs ! unat (fld w k 2)) \<le> 3"
  using unat_fld_less [of 2 w k] by (auto simp: list_all_length word_unat_eq_iff)

lemma len_nth: "i < length xs \<Longrightarrow> list_all (\<lambda>s. length s \<le> n) xs \<Longrightarrow> length (xs ! i) \<le> n"
  by (simp add: list_all_length)

lemma len_reg_name: "length (reg_name sf r sp) \<le> 11"
  using len_fmt_u [of r] by (simp add: reg_name_def)

lemma len_sep: "length sep \<le> 2"
  by (simp add: sep_def)

lemma len_cond_name: "length (cond_name cc) \<le> 2"
proof -
  have "unat (cc AND 0xF) < 16"
    using unat_fld_less [of 4 cc 0] by (simp add: and_masks low_def fld_def)
  then show ?thesis unfolding cond_name_def by (intro len_nth) simp_all
qed

lemma len_small:
  "length (add_sub_mn op s) \<le> 4" "length (fp_reg_letter ft) \<le> 1" "length (fp_vec_arr q sz) \<le> 2"
  by (simp_all add: add_sub_mn_def fp_reg_letter_def fp_vec_arr_def)

lemma len_sized_mn: "length base \<le> n \<Longrightarrow> length (sized_mn base sz) \<le> n + 1"
  by (simp add: sized_mn_def)

lemma len_mem_uoff: "length r \<le> n \<Longrightarrow> length (mem_uoff r off) \<le> n + 15"
  using len_fmt_u [of off] by (simp add: mem_uoff_def)

lemma len_fp_reg_name: "length (fp_reg_name ft r) \<le> 11"
  using len_fmt_u [of r] len_small(2) [of ft] by (simp add: fp_reg_name_def)

lemma len_vreg: "length arr \<le> n \<Longrightarrow> length (vreg r arr) \<le> n + 12"
  using len_fmt_u [of r] by (simp add: vreg_def)

lemma len_unscaled_mn: "length mn \<le> n \<Longrightarrow> length (unscaled_mn mn) \<le> n + 5"
  by (simp add: unscaled_mn_def)

lemma fits_none: "fits 0 None"
  by (simp add: fits_def)

lemma fits_some: "length s \<le> n \<Longrightarrow> fits n (Some s)"
  by (simp add: fits_def)

lemma fits_if: "fits m t \<Longrightarrow> fits n u \<Longrightarrow> fits (max m n) (if b then t else u)"
  by (auto simp: fits_def split: option.splits)

lemma fits_map:
  "fits m t \<Longrightarrow> (\<And>s. length s \<le> m \<Longrightarrow> length (f s) \<le> n) \<Longrightarrow> fits n (map_option f t)"
  by (auto simp: fits_def split: option.splits)

lemma fits_mono: "fits m t \<Longrightarrow> m \<le> n \<Longrightarrow> fits n t"
  by (auto simp: fits_def split: option.splits)

lemma fits_case_if:
  "fits m (case t of None \<Rightarrow> z | Some x \<Rightarrow> g x) \<Longrightarrow> fits n (case u of None \<Rightarrow> z | Some x \<Rightarrow> g x) \<Longrightarrow>
   fits (max m n) (case if b then t else u of None \<Rightarrow> z | Some x \<Rightarrow> g x)"
  using fits_mono [OF _ max.cobounded1] fits_mono [OF _ max.cobounded2] by (cases b) auto

lemma fits_pair_if:
  "fits m (case p of (x, y) \<Rightarrow> g x y) \<Longrightarrow> fits n (case q of (x, y) \<Rightarrow> g x y) \<Longrightarrow>
   fits (max m n) (case if b then p else q of (x, y) \<Rightarrow> g x y)"
  using fits_mono [OF _ max.cobounded1] fits_mono [OF _ max.cobounded2] by (cases b) auto

lemma fits_case_some: "fits n (g x) \<Longrightarrow> fits n (case Some x of None \<Rightarrow> z | Some x \<Rightarrow> g x)"
  by simp

lemma fits_case_none: "fits n z \<Longrightarrow> fits n (case None of None \<Rightarrow> z | Some x \<Rightarrow> g x)"
  by simp

lemma fits_pair: "fits n (g x y) \<Longrightarrow> fits n (case (x, y) of (x, y) \<Rightarrow> g x y)"
  by simp

text \<open>The names of the general loads and stores.\<close>

lemma fits_ldst_mn:
  assumes "\<And>mn b. length mn \<le> 5 \<Longrightarrow> fits n (g mn b)"
  shows "fits n (case ldst_mn opc sz of None \<Rightarrow> None | Some (mn, b) \<Rightarrow> g mn b)"
proof (cases "ldst_mn opc sz")
  case (Some p)
  obtain mn b where p: "p = (mn, b)" by (cases p)
  have "length mn \<le> 5"
    using Some by (auto simp: p ldst_mn_def sized_mn_def split: if_splits)
  then show ?thesis using assms Some p by simp
qed (simp add: fits_def)

lemma fits_case:
  assumes "fits m u" "\<And>x. fits n (g x)"
  shows "fits (max m n) (case t of None \<Rightarrow> u | Some x \<Rightarrow> g x)"
  using assms(1) assms(2) [of "the t"] by (cases t) (auto simp: fits_def le_max_iff_disj split: option.splits)

lemma fits_case_pair: "(\<And>x y. fits n (g x y)) \<Longrightarrow> fits n (case p of (x, y) \<Rightarrow> g x y)"
  by (cases p) simp

lemma len_fmt_d_pair:
  "length (fmt_d (sint (u :: u32) * (if v then 4 * 2 ^ unat (fld w k 2) else if b then 8 else 4))) \<le> 13"
proof (rule length_fmt_d(1))
  let ?s = "(if v then 4 * 2 ^ unat (fld w k 2) else if b then 8 else 4) :: int"
  have "unat (fld w k 2) \<le> 3" using unat_fld_less [of 2 w k] by simp
  then have "(2 :: int) ^ unat (fld w k 2) \<le> 2 ^ 3" by (rule power_increasing) simp
  then have s: "0 \<le> ?s" "?s \<le> 32" by auto
  have "\<bar>sint u * ?s\<bar> = \<bar>sint u\<bar> * ?s" using s(1) by (simp add: abs_mult)
  also have "\<dots> \<le> 2147483648 * 32" by (rule mult_mono) (use s sint_u32 [of u] in auto)
  finally show "\<bar>sint u * ?s\<bar> < 10 ^ 12" by simp
qed

lemma len_fmt_fp_imm: "length (fmt_fp_imm x) \<le> 13"
proof -
  define e where "e = (if x AND 0x40 \<noteq> 0 then unat (fld x 4 2) else unat (fld x 4 2) + 4)"
  define k where "k = (16 + unat (x AND 0xF)) * 2 ^ e"
  have x: "unat (x AND 0xF) \<le> 15"
    using unat_fld_less [of 4 x 0] by (simp add: and_masks low_def fld_def)
  have "e \<le> 7" using unat_fld_less [of 2 x 4] by (simp add: e_def)
  then have "(2 :: nat) ^ e \<le> 2 ^ 7" by (rule power_increasing) simp
  then have "k \<le> 31 * 2 ^ 7" unfolding k_def by (intro mult_mono) (use x in auto)
  then have d: "length (dec_of (k div 128)) \<le> 2" by (intro length_dec_of) auto
  have f: "length (frac_digits f j) \<le> f" for f j
    by (induction f arbitrary: j) auto
  show ?thesis
    unfolding fmt_fp_imm_def Let_def e_def [symmetric] k_def [symmetric]
    using d f [of 7 "k mod 128"] by auto
qed

lemma fits_fp_3same_mn: "fits 7 (fp_3same_mn u b c)"
  by (simp add: fp_3same_mn_def fits_def)

lemma fits_bfm_alias:
  assumes "\<And>a. length a \<le> 4 \<Longrightarrow> fits m (g a)" "fits n z"
  shows "fits (max m n) (case if c then bfm_alias s sf i else None of Some a \<Rightarrow> g a | None \<Rightarrow> z)"
proof (cases "if c then bfm_alias s sf i else None")
  case None
  then show ?thesis using fits_mono [OF assms(2) max.cobounded2] by simp
next
  case (Some a)
  then have "length a \<le> 4" by (auto simp: bfm_alias_def split: if_splits)
  then show ?thesis using fits_mono [OF assms(1) max.cobounded1] Some by simp
qed

lemmas len_rules =
  len_append len_if len_fmt_u len_dec_u64 len_hex_u64 len_fmt_sint len_fmt_pd_branch len_reg_name
  len_sep len_cond_name len_fmt_d_pair len_fmt_fp_imm len_small len_sized_mn len_mem_uoff len_fp_reg_name len_vreg len_unscaled_mn

lemmas fits_rules = fits_none fits_some fits_if fits_map fits_fp_3same_mn fits_bfm_alias fits_ldst_mn fits_case_if fits_case_some
  fits_case_none fits_pair_if fits_pair fits_case fits_case_pair

section \<open>The decoders\<close>

lemma fits_data:
  "fits 127 (dec_movz_movk_movn w)" "fits 127 (dec_add_sub_imm w)"
  "fits 127 (dec_add_sub_reg w)" "fits 127 (dec_logical_reg w)" "fits 127 (dec_logical_imm w)"
  "fits 127 (dec_dp3 w)" "fits 127 (dec_dp2 w)" "fits 127 (dec_dp1 w)"
  "fits 127 (dec_csel_family w)" "fits 127 (dec_ccmp_ccmn w)" "fits 127 (dec_bfm w)"
  unfolding dec_movz_movk_movn_def dec_add_sub_imm_def dec_add_sub_reg_def
    dec_logical_reg_def dec_logical_imm_def dec_dp3_def dec_dp2_def dec_dp1_def
    dec_csel_family_def dec_ccmp_ccmn_def dec_bfm_def Let_def
  by (rule fits_mono, (assumption | (rule len_nth_fld, simp add: len_tables) |
      rule fits_rules len_rules order_refl)+, simp add: max_def)+

lemma fits_branch:
  "fits 127 (dec_b_bl w)" "fits 127 (dec_b_cond w)" "fits 127 (dec_tbz_tbnz w)"
  "fits 127 (dec_cbz_cbnz w)" "fits 127 (dec_ret w)" "fits 127 (dec_br w)"
  "fits 127 (dec_blr w)" "fits 127 (dec_barrier w)" "fits 127 (dec_msr_imm w)"
  "fits 127 (dec_mrs_msr w)" "fits 127 (dec_exception w)" "fits 127 (dec_adr w)"
  "fits 127 (dec_ldar_stlr w)" "fits 127 (dec_ldxr_stxr w)" "fits 127 (dec_ldst_regoff w)"
  "fits 127 (dec_add_sub_ext_reg w)" "fits 127 (dec_ldst_uimm w)" "fits 127 (dec_extr w)"
  "fits 127 (dec_ldr_lit w)" "fits 127 (dec_ldst_imm9 w)" "fits 127 (dec_ldp_stp w)"
  unfolding dec_b_bl_def dec_b_cond_def dec_tbz_tbnz_def dec_cbz_cbnz_def dec_ret_def
    dec_br_def dec_blr_def dec_barrier_def dec_msr_imm_def dec_mrs_msr_def mrs_name_def
    dec_exception_def dec_adr_def dec_ldar_stlr_def dec_ldxr_stxr_def dec_ldst_regoff_def
    dec_add_sub_ext_reg_def dec_ldst_uimm_def dec_extr_def dec_ldr_lit_def
    dec_ldst_imm9_def dec_ldp_stp_def Let_def
  by (rule fits_mono, (assumption | (rule len_nth_fld, simp add: len_tables) |
      rule fits_rules len_rules order_refl)+, simp add: max_def)+

lemma fits_fp:
  "fits 127 (dec_fcmp w)" "fits 127 (dec_fmov_imm w)" "fits 127 (dec_fp_int_cvt w)"
  "fits 127 (dec_fp_ldst_uimm w)" "fits 127 (dec_fp_3same_vec w)" "fits 127 (dec_bfdot w)"
  "fits 127 (dec_bfdot_idx w)" "fits 127 (dec_bfmmla w)" "fits 127 (dec_bfmlal w)"
  "fits 127 (dec_bfcvtn w)"
  unfolding dec_fcmp_def dec_fmov_imm_def dec_fp_int_cvt_def dec_fp_ldst_uimm_def
    dec_fp_3same_vec_def dec_bfdot_def dec_bfdot_idx_def dec_bfmmla_def dec_bfmlal_def
    dec_bfcvtn_def Let_def
  by (rule fits_mono, (assumption | (rule len_nth_fld, simp add: len_tables) |
      rule fits_rules len_rules order_refl)+, simp add: max_def)+


text \<open>The decoders that index a table under a guard, or scale an offset.\<close>

lemma fits_dec_hint: "fits 127 (dec_hint w)"
proof -
  define imm where "imm = push_bit 3 (fld w 8 4) OR fld w 5 3"
  have "imm < 6 \<Longrightarrow> length ([''nop'', ''yield'', ''wfe'', ''wfi'', ''sev'', ''sevl''] ! unat imm) \<le> 127"
    by (rule len_nth) (simp_all add: word_less_nat_alt)
  then show ?thesis
    using len_fmt_u [of imm] by (simp add: dec_hint_def Let_def fits_def imm_def [symmetric])
qed

lemma fits_dec_prfm_imm: "fits 127 (dec_prfm_imm w)"
  unfolding dec_prfm_imm_def Let_def
proof (rule fits_mono, rule fits_some, rule len_append [OF order_refl], rule len_append)
  let ?rt = "fld w 0 5"
  show "length (if fld ?rt 3 2 \<noteq> 3 \<and> fld ?rt 1 2 \<noteq> 3
      then [''pld'', ''pli'', ''pst''] ! unat (fld ?rt 3 2) @ [''l1'', ''l2'', ''l3''] ! unat (fld ?rt 1 2) @
           (if fld ?rt 0 1 \<noteq> 0 then ''strm'' else ''keep'')
      else ''#'' @ fmt_u ?rt) \<le> 11"
    using len_nth_guard [of ?rt 3 "[''pld'', ''pli'', ''pst'']"] len_nth_guard [of ?rt 1 "[''l1'', ''l2'', ''l3'']"]
      len_fmt_u [of ?rt] by (cases "fld ?rt 3 2 = 3 \<or> fld ?rt 1 2 = 3") auto
qed (rule len_rules order_refl | simp)+

lemma fits_dec_fp_1src: "fits 127 (dec_fp_1src w)"
proof -
  have "fits 6 (fp_1src_names ! unat (fld w 15 6))" if "fld w 15 6 < 16"
  proof -
    have "list_all (fits 6) fp_1src_names" by (simp add: fp_1src_names_def fits_def)
    moreover have "unat (fld w 15 6) < length fp_1src_names"
      using that by (simp add: fp_1src_names_def word_less_nat_alt)
    ultimately show ?thesis by (simp add: list_all_length)
  qed
  moreover have "fits 127 (map_option (\<lambda>mn. mn @ '' '' @ fp_reg_name a d @ sep @ fp_reg_name b n) t)"
    if "fits 6 t" for a b d n t
    by (rule fits_mono, rule fits_map [OF that], (assumption | rule len_rules order_refl)+, simp)
  ultimately show ?thesis
    using len_fmt_u [of "fld w 0 5"] len_fmt_u [of "fld w 5 5"]
    by (simp add: dec_fp_1src_def Let_def fits_some fits_mono [OF fits_none])
qed

lemma fits_dec_fp_2src: "fits 127 (dec_fp_2src w)"
proof -
  have "length ([''fmul'', ''fdiv'', ''fadd'', ''fsub'', ''fmax'', ''fmin'', ''fmaxnm'', ''fminnm'', ''fnmul''] !
    unat (fld w 12 4)) \<le> 6" if "fld w 12 4 < 9"
    by (rule len_nth) (use that in \<open>simp_all add: word_less_nat_alt\<close>)
  then show ?thesis
    using len_fp_reg_name [of "fld w 22 2" "fld w 0 5"] len_fp_reg_name [of "fld w 22 2" "fld w 5 5"]
      len_fp_reg_name [of "fld w 22 2" "fld w 16 5"]
    by (cases "fld w 12 4 < 9") (simp_all add: dec_fp_2src_def Let_def fits_def sep_def)
qed


text \<open>Every decoder of the pattern table.\<close>

lemmas fits_dec = fits_data fits_branch fits_fp fits_dec_hint fits_dec_prfm_imm fits_dec_fp_1src
  fits_dec_fp_2src

lemma fits_patterns: "(m, v, d) \<in> set g_patterns \<Longrightarrow> fits 127 (d w)"
  unfolding g_patterns_def by (auto intro: fits_dec)

lemma dis_loop_fits: "set ps \<subseteq> set g_patterns \<Longrightarrow> fits 127 (dis_loop ps w)"
proof (induction ps)
  case (Cons p ps)
  obtain m v d where p: "p = (m, v, d)" by (cases p)
  then have "fits 127 (d w)" using fits_patterns [of m v d] Cons.prems by auto
  then show ?case using Cons by (auto simp: p split: option.splits)
qed (simp add: fits_def)

lemma dis_loop_length: "dis_loop g_patterns w = Some s \<Longrightarrow> length s \<le> 127"
  using dis_loop_fits [of g_patterns w] by (simp add: fits_def)

lemma length_hex_word: "length (''.word 0x'' @ fmt_08x w) = 16"
proof -
  have "length (hex_of (unat w)) \<le> 8"
    by (rule length_hex_of) (use u32_less [of w] in simp_all)
  then show ?thesis by (simp add: fmt_08x_def Let_def)
qed

end
