(* ===== verification/A64Enc.thy ===== *)
theory A64Enc
  imports A64Text "HOL-Library.Signed_Division"
begin

text \<open>
  The instruction encoders of \<^verbatim>\<open>src/src/asm/enc_arm64.c\<close> and the byte buffer they write to
  (\<^verbatim>\<open>put_byte\<close> to \<^verbatim>\<open>put_u64\<close> of \<^verbatim>\<open>asm_enc.c\<close>). An encoder returns the new buffer and the offset of
  the word it appended; one that refuses its operands returns the buffer unchanged and 0, as
  the C does. Register numbers, flags and unsigned operands are 32-bit words; a signed
  \<^verbatim>\<open>int32_t\<close> operand is an integer.
\<close>

section \<open>The buffer\<close>

record asm_enc =
  ae_bytes :: "u8 list"
  ae_cap :: nat

definition put_byte :: "asm_enc \<Rightarrow> u8 \<Rightarrow> asm_enc" where
  "put_byte e b =
     (let cap = (if length (ae_bytes e) = ae_cap e
                 then (if ae_cap e \<noteq> 0 then ae_cap e * 2 else 256) else ae_cap e)
      in e\<lparr>ae_cap := cap, ae_bytes := ae_bytes e @ [b]\<rparr>)"

definition put_u16 :: "asm_enc \<Rightarrow> u16 \<Rightarrow> asm_enc" where
  "put_u16 e v = put_byte (put_byte e (ucast v)) (ucast (drop_bit 8 v))"

definition put_u32 :: "asm_enc \<Rightarrow> u32 \<Rightarrow> asm_enc" where
  "put_u32 e v =
     put_byte (put_byte (put_byte (put_byte e (ucast v)) (ucast (drop_bit 8 v)))
       (ucast (drop_bit 16 v))) (ucast (drop_bit 24 v))"

definition put_word :: "asm_enc \<Rightarrow> u32 \<Rightarrow> asm_enc \<times> nat" where
  "put_word e w = (put_u32 e w, length (ae_bytes e))"

definition put_u64 :: "asm_enc \<Rightarrow> u64 \<Rightarrow> asm_enc" where
  "put_u64 e v = put_u32 (put_u32 e (ucast v)) (ucast (drop_bit 32 v))"

fun put_zero_n :: "asm_enc \<Rightarrow> nat \<Rightarrow> asm_enc" where
  "put_zero_n e 0 = e"
| "put_zero_n e (Suc n) = put_zero_n (put_byte e 0) n"

definition A_XZR :: u32 where "A_XZR = 31"

definition A_LR :: u32 where "A_LR = 30"

section \<open>Moves\<close>

definition aarch64_mov_wide :: "u32 \<Rightarrow> u32 \<Rightarrow> u32 \<Rightarrow> u16 \<Rightarrow> u32 \<Rightarrow> u32" where
  "aarch64_mov_wide sf opc rd imm16 hw =
     push_bit 31 sf OR push_bit 29 opc OR push_bit 23 0x25 OR push_bit 21 (hw AND 3) OR
     push_bit 5 (ucast imm16) OR (rd AND 0x1F)"

definition aarch64_enc_movz :: "asm_enc \<Rightarrow> u32 \<Rightarrow> u32 \<Rightarrow> u32 \<Rightarrow> u32 \<Rightarrow> asm_enc \<times> nat" where
  "aarch64_enc_movz e rd sf imm16 hw = put_word e (aarch64_mov_wide sf 2 rd (ucast imm16) hw)"

definition aarch64_enc_movk :: "asm_enc \<Rightarrow> u32 \<Rightarrow> u32 \<Rightarrow> u16 \<Rightarrow> u32 \<Rightarrow> asm_enc \<times> nat" where
  "aarch64_enc_movk e rd sf imm16 hw = put_word e (aarch64_mov_wide sf 3 rd imm16 hw)"

definition aarch64_enc_movn :: "asm_enc \<Rightarrow> u32 \<Rightarrow> u32 \<Rightarrow> u16 \<Rightarrow> u32 \<Rightarrow> asm_enc \<times> nat" where
  "aarch64_enc_movn e rd sf imm16 hw = put_word e (aarch64_mov_wide sf 0 rd imm16 hw)"

text \<open>The loop of \<^verbatim>\<open>aarch64_enc_mov_imm\<close>: \<open>hws\<close> are the values \<^verbatim>\<open>hw\<close> still takes.\<close>

fun mov_imm_loop :: "asm_enc \<Rightarrow> u32 \<Rightarrow> u32 \<Rightarrow> u64 \<Rightarrow> bool \<Rightarrow> nat list \<Rightarrow> asm_enc" where
  "mov_imm_loop e rd sf imm placed [] = e"
| "mov_imm_loop e rd sf imm placed (hw # hws) =
     (let chunk = (ucast (drop_bit (hw * 16) imm AND 0xFFFF) :: u16) in
      if chunk = 0 \<and> \<not> placed \<and> hw < 3 then mov_imm_loop e rd sf imm placed hws
      else if \<not> placed
      then mov_imm_loop (fst (aarch64_enc_movz e rd sf (ucast chunk) (of_nat hw))) rd sf imm True hws
      else if chunk \<noteq> 0
      then mov_imm_loop (fst (aarch64_enc_movk e rd sf chunk (of_nat hw))) rd sf imm placed hws
      else mov_imm_loop e rd sf imm placed hws)"

definition aarch64_enc_mov_imm :: "asm_enc \<Rightarrow> u32 \<Rightarrow> u32 \<Rightarrow> u64 \<Rightarrow> asm_enc" where
  "aarch64_enc_mov_imm e rd sf imm =
     (if imm = 0 then fst (aarch64_enc_movz e rd sf 0 0)
      else mov_imm_loop e rd sf imm False [0, 1, 2, 3])"

definition aarch64_enc_mov_imm64 :: "asm_enc \<Rightarrow> u32 \<Rightarrow> u64 \<Rightarrow> asm_enc" where
  "aarch64_enc_mov_imm64 e rd imm = aarch64_enc_mov_imm e rd 1 imm"

definition aarch64_enc_mov_imm32 :: "asm_enc \<Rightarrow> u32 \<Rightarrow> u64 \<Rightarrow> asm_enc" where
  "aarch64_enc_mov_imm32 e rd imm = aarch64_enc_mov_imm e rd 0 imm"

definition aarch64_enc_mov_reg_base :: "asm_enc \<Rightarrow> u32 \<Rightarrow> u32 \<Rightarrow> u32 \<Rightarrow> asm_enc \<times> nat" where
  "aarch64_enc_mov_reg_base e op rd rm =
     put_word e (push_bit 21 op OR push_bit 16 rm OR push_bit 5 0x1F OR (rd AND 0x1F))"

definition aarch64_enc_mov_reg :: "asm_enc \<Rightarrow> u32 \<Rightarrow> u32 \<Rightarrow> asm_enc \<times> nat" where
  "aarch64_enc_mov_reg e rd rm = aarch64_enc_mov_reg_base e 0x550 rd rm"

definition aarch64_enc_mov_reg_w :: "asm_enc \<Rightarrow> u32 \<Rightarrow> u32 \<Rightarrow> asm_enc \<times> nat" where
  "aarch64_enc_mov_reg_w e rd rm = aarch64_enc_mov_reg_base e 0x150 rd rm"

section \<open>Arithmetic\<close>

definition aarch64_add_sub_imm :: "u32 \<Rightarrow> u32 \<Rightarrow> u32 \<Rightarrow> u32 \<Rightarrow> u32 \<Rightarrow> u32" where
  "aarch64_add_sub_imm sf op rd rn imm =
     (let (sh, imm12) =
        (if imm \<le> 0xFFF then (0, imm)
         else if imm AND 0xFFF = 0 \<and> drop_bit 12 imm \<le> 0xFFF then (1, drop_bit 12 imm)
         else (0, imm AND 0xFFF))
      in push_bit 31 (sf AND 1) OR push_bit 30 op OR push_bit 23 0x22 OR push_bit 22 sh OR
         push_bit 10 (imm12 AND 0xFFF) OR push_bit 5 rn OR (rd AND 0x1F))"

definition aarch64_enc_add_imm :: "asm_enc \<Rightarrow> u32 \<Rightarrow> u32 \<Rightarrow> u32 \<Rightarrow> u32 \<Rightarrow> asm_enc \<times> nat" where
  "aarch64_enc_add_imm e is_64 rd rn imm12 = put_word e (aarch64_add_sub_imm is_64 0 rd rn imm12)"

definition aarch64_enc_sub_imm :: "asm_enc \<Rightarrow> u32 \<Rightarrow> u32 \<Rightarrow> u32 \<Rightarrow> u32 \<Rightarrow> asm_enc \<times> nat" where
  "aarch64_enc_sub_imm e is_64 rd rn imm12 = put_word e (aarch64_add_sub_imm is_64 1 rd rn imm12)"

definition aarch64_add_sub_reg_shifted ::
  "u32 \<Rightarrow> u32 \<Rightarrow> u32 \<Rightarrow> u32 \<Rightarrow> u32 \<Rightarrow> u32 \<Rightarrow> u32 \<Rightarrow> u32 \<Rightarrow> u32" where
  "aarch64_add_sub_reg_shifted sf op set_flags shift_type shift_amount rd rn rm =
     push_bit 31 (sf AND 1) OR push_bit 30 (op AND 1) OR push_bit 29 (set_flags AND 1) OR
     push_bit 24 0x0B OR push_bit 22 (shift_type AND 3) OR push_bit 16 (rm AND 0x1F) OR
     push_bit 10 (shift_amount AND 0x3F) OR push_bit 5 (rn AND 0x1F) OR (rd AND 0x1F)"

definition aarch64_enc_add_reg :: "asm_enc \<Rightarrow> u32 \<Rightarrow> u32 \<Rightarrow> u32 \<Rightarrow> u32 \<Rightarrow> asm_enc \<times> nat" where
  "aarch64_enc_add_reg e is_64 rd rn rm = put_word e (aarch64_add_sub_reg_shifted is_64 0 0 0 0 rd rn rm)"

definition aarch64_enc_sub_reg :: "asm_enc \<Rightarrow> u32 \<Rightarrow> u32 \<Rightarrow> u32 \<Rightarrow> u32 \<Rightarrow> asm_enc \<times> nat" where
  "aarch64_enc_sub_reg e is_64 rd rn rm = put_word e (aarch64_add_sub_reg_shifted is_64 1 0 0 0 rd rn rm)"

definition aarch64_enc_add_reg_shifted ::
  "asm_enc \<Rightarrow> u32 \<Rightarrow> u32 \<Rightarrow> u32 \<Rightarrow> u32 \<Rightarrow> u32 \<Rightarrow> u32 \<Rightarrow> asm_enc \<times> nat" where
  "aarch64_enc_add_reg_shifted e is_64 rd rn rm shift_type shift_amount =
     put_word e (aarch64_add_sub_reg_shifted is_64 0 0 shift_type shift_amount rd rn rm)"

definition aarch64_enc_sub_reg_shifted ::
  "asm_enc \<Rightarrow> u32 \<Rightarrow> u32 \<Rightarrow> u32 \<Rightarrow> u32 \<Rightarrow> u32 \<Rightarrow> u32 \<Rightarrow> asm_enc \<times> nat" where
  "aarch64_enc_sub_reg_shifted e is_64 rd rn rm shift_type shift_amount =
     put_word e (aarch64_add_sub_reg_shifted is_64 1 0 shift_type shift_amount rd rn rm)"

definition aarch64_enc_uxtb :: "asm_enc \<Rightarrow> u32 \<Rightarrow> u32 \<Rightarrow> u32 \<Rightarrow> asm_enc \<times> nat" where
  "aarch64_enc_uxtb e is_64 rd rn =
     put_word e (push_bit 31 is_64 OR push_bit 29 2 OR push_bit 23 0x26 OR push_bit 10 7 OR
                 push_bit 5 rn OR (rd AND 0x1F))"

definition aarch64_enc_uxth :: "asm_enc \<Rightarrow> u32 \<Rightarrow> u32 \<Rightarrow> asm_enc \<times> nat" where
  "aarch64_enc_uxth e rd rn = put_word e (0x53003C00 OR push_bit 5 (rn AND 0x1F) OR (rd AND 0x1F))"

definition aarch64_sxt :: "u32 \<Rightarrow> u32 \<Rightarrow> u32 \<Rightarrow> u32" where
  "aarch64_sxt imms rd rn =
     0x93400000 OR push_bit 10 imms OR push_bit 5 (rn AND 0x1F) OR (rd AND 0x1F)"

definition aarch64_enc_sxtb :: "asm_enc \<Rightarrow> u32 \<Rightarrow> u32 \<Rightarrow> asm_enc \<times> nat" where
  "aarch64_enc_sxtb e rd rn = put_word e (aarch64_sxt 7 rd rn)"

definition aarch64_enc_sxth :: "asm_enc \<Rightarrow> u32 \<Rightarrow> u32 \<Rightarrow> asm_enc \<times> nat" where
  "aarch64_enc_sxth e rd rn = put_word e (aarch64_sxt 15 rd rn)"

definition aarch64_enc_sxtw :: "asm_enc \<Rightarrow> u32 \<Rightarrow> u32 \<Rightarrow> asm_enc \<times> nat" where
  "aarch64_enc_sxtw e rd rn = put_word e (aarch64_sxt 31 rd rn)"

section \<open>Loads, stores and floating point\<close>

definition aarch64_ldst_uimm :: "u32 \<Rightarrow> u32 \<Rightarrow> u32 \<Rightarrow> u32 \<Rightarrow> u32" where
  "aarch64_ldst_uimm opc rt rn off =
     (let pimm12 = (off div 8) AND 0xFFF in
      push_bit 24 0xF9 OR push_bit 22 opc OR push_bit 10 pimm12 OR push_bit 5 rn OR (rt AND 0x1F))"

definition aarch64_enc_ldr_imm :: "asm_enc \<Rightarrow> u32 \<Rightarrow> u32 \<Rightarrow> u32 \<Rightarrow> asm_enc \<times> nat" where
  "aarch64_enc_ldr_imm e rt rn off = put_word e (aarch64_ldst_uimm 1 rt rn off)"

definition aarch64_enc_str_imm :: "asm_enc \<Rightarrow> u32 \<Rightarrow> u32 \<Rightarrow> u32 \<Rightarrow> asm_enc \<times> nat" where
  "aarch64_enc_str_imm e rt rn off = put_word e (aarch64_ldst_uimm 0 rt rn off)"

definition aarch64_enc_ldr32_imm_gpr :: "asm_enc \<Rightarrow> u32 \<Rightarrow> u32 \<Rightarrow> u32 \<Rightarrow> asm_enc \<times> nat" where
  "aarch64_enc_ldr32_imm_gpr e rt rn off =
     (let pimm12 = (off div 4) AND 0xFFF in
      put_word e (push_bit 24 0xB9 OR push_bit 22 1 OR push_bit 10 pimm12 OR push_bit 5 rn OR (rt AND 0x1F)))"

definition aarch64_enc_str32_imm_gpr :: "asm_enc \<Rightarrow> u32 \<Rightarrow> u32 \<Rightarrow> u32 \<Rightarrow> asm_enc \<times> nat" where
  "aarch64_enc_str32_imm_gpr e rt rn off =
     (let pimm12 = (off div 4) AND 0xFFF in
      put_word e (push_bit 24 0xB9 OR push_bit 22 0 OR push_bit 10 pimm12 OR push_bit 5 rn OR (rt AND 0x1F)))"

definition aarch64_enc_fp_2src_scalar ::
  "asm_enc \<Rightarrow> bool \<Rightarrow> u32 \<Rightarrow> u32 \<Rightarrow> u32 \<Rightarrow> u32 \<Rightarrow> asm_enc \<times> nat" where
  "aarch64_enc_fp_2src_scalar e is_double opcode4 rd rn rm =
     (let ftype = (if is_double then 1 else 0) in
      put_word e (push_bit 24 0x1E OR push_bit 22 ftype OR push_bit 21 1 OR push_bit 16 (rm AND 0x1F) OR
                  push_bit 12 (opcode4 AND 0xF) OR push_bit 10 2 OR push_bit 5 (rn AND 0x1F) OR (rd AND 0x1F)))"

definition aarch64_enc_fneg_scalar :: "asm_enc \<Rightarrow> bool \<Rightarrow> u32 \<Rightarrow> u32 \<Rightarrow> asm_enc \<times> nat" where
  "aarch64_enc_fneg_scalar e is_double rd rn =
     (let base = (if is_double then 0x1E614000 else 0x1E214000) in
      put_word e (base OR push_bit 5 (rn AND 0x1F) OR (rd AND 0x1F)))"

definition aarch64_enc_fcmp_reg2 :: "asm_enc \<Rightarrow> bool \<Rightarrow> u32 \<Rightarrow> u32 \<Rightarrow> asm_enc \<times> nat" where
  "aarch64_enc_fcmp_reg2 e is_double rn rm =
     (let base = (if is_double then 0x1E602000 else 0x1E202000) in
      put_word e (base OR push_bit 16 (rm AND 0x1F) OR push_bit 5 (rn AND 0x1F)))"

definition aarch64_enc_fcmp_zero :: "asm_enc \<Rightarrow> bool \<Rightarrow> u32 \<Rightarrow> asm_enc \<times> nat" where
  "aarch64_enc_fcmp_zero e is_double rn =
     (let base = (if is_double then 0x1E602008 else 0x1E202008) in
      put_word e (base OR push_bit 5 (rn AND 0x1F)))"

definition aarch64_enc_fcvt_narrow :: "asm_enc \<Rightarrow> u32 \<Rightarrow> u32 \<Rightarrow> asm_enc \<times> nat" where
  "aarch64_enc_fcvt_narrow e rd rn = put_word e (0x1E624000 OR push_bit 5 (rn AND 0x1F) OR (rd AND 0x1F))"

definition aarch64_enc_fcvt_widen :: "asm_enc \<Rightarrow> u32 \<Rightarrow> u32 \<Rightarrow> asm_enc \<times> nat" where
  "aarch64_enc_fcvt_widen e rd rn = put_word e (0x1E22C000 OR push_bit 5 (rn AND 0x1F) OR (rd AND 0x1F))"

definition aarch64_fp_int_cvt :: "u32 \<Rightarrow> bool \<Rightarrow> u32 \<Rightarrow> u32 \<Rightarrow> u32 \<Rightarrow> u32" where
  "aarch64_fp_int_cvt is_64 fp_is_double rmode_opc rd rn =
     (let ftype = (if fp_is_double then 1 else 0) in
      push_bit 31 (is_64 AND 1) OR 0x1E200000 OR push_bit 22 ftype OR push_bit 16 rmode_opc OR
      push_bit 5 (rn AND 0x1F) OR (rd AND 0x1F))"

definition aarch64_enc_fcvtzs :: "asm_enc \<Rightarrow> u32 \<Rightarrow> bool \<Rightarrow> u32 \<Rightarrow> u32 \<Rightarrow> asm_enc \<times> nat" where
  "aarch64_enc_fcvtzs e is_64 fp_is_double rd rn = put_word e (aarch64_fp_int_cvt is_64 fp_is_double 0x18 rd rn)"

definition aarch64_enc_fcvtzu :: "asm_enc \<Rightarrow> u32 \<Rightarrow> bool \<Rightarrow> u32 \<Rightarrow> u32 \<Rightarrow> asm_enc \<times> nat" where
  "aarch64_enc_fcvtzu e is_64 fp_is_double rd rn = put_word e (aarch64_fp_int_cvt is_64 fp_is_double 0x19 rd rn)"

definition aarch64_enc_scvtf :: "asm_enc \<Rightarrow> u32 \<Rightarrow> bool \<Rightarrow> u32 \<Rightarrow> u32 \<Rightarrow> asm_enc \<times> nat" where
  "aarch64_enc_scvtf e is_64 fp_is_double rd rn = put_word e (aarch64_fp_int_cvt is_64 fp_is_double 0x02 rd rn)"

definition aarch64_enc_ucvtf :: "asm_enc \<Rightarrow> u32 \<Rightarrow> bool \<Rightarrow> u32 \<Rightarrow> u32 \<Rightarrow> asm_enc \<times> nat" where
  "aarch64_enc_ucvtf e is_64 fp_is_double rd rn = put_word e (aarch64_fp_int_cvt is_64 fp_is_double 0x03 rd rn)"

definition aarch64_enc_fp_3same_vec ::
  "asm_enc \<Rightarrow> u32 \<Rightarrow> u32 \<Rightarrow> u32 \<Rightarrow> u32 \<Rightarrow> u32 \<Rightarrow> u32 \<Rightarrow> u32 \<Rightarrow> u32 \<Rightarrow> asm_enc \<times> nat" where
  "aarch64_enc_fp_3same_vec e Q U bit23 sz opcode5 rd rn rm =
     put_word e (push_bit 30 (Q AND 1) OR push_bit 29 (U AND 1) OR push_bit 24 0xE OR
                 push_bit 23 (bit23 AND 1) OR push_bit 22 (sz AND 1) OR push_bit 21 1 OR
                 push_bit 16 (rm AND 0x1F) OR push_bit 11 (opcode5 AND 0x1F) OR push_bit 10 1 OR
                 push_bit 5 (rn AND 0x1F) OR (rd AND 0x1F))"

definition aarch64_ldp_stp_imm ::
  "asm_enc \<Rightarrow> u32 \<Rightarrow> u32 \<Rightarrow> u32 \<Rightarrow> u32 \<Rightarrow> u32 \<Rightarrow> u32 \<Rightarrow> u32 \<Rightarrow> int \<Rightarrow> asm_enc \<times> nat" where
  "aarch64_ldp_stp_imm e opc is_simd mode_bits is_load rt rt2 rn simm7 =
     (let imm7 = word_of_int simm7 AND 0x7F in
      put_word e (push_bit 30 opc OR push_bit 27 5 OR push_bit 26 (is_simd AND 1) OR push_bit 23 mode_bits OR
                  push_bit 22 (is_load AND 1) OR push_bit 15 imm7 OR push_bit 10 (rt2 AND 0x1F) OR
                  push_bit 5 (rn AND 0x1F) OR (rt AND 0x1F)))"

text \<open>The access width of a pair gives the opcode and the scale, the mode its index bits.\<close>

definition pair_opc_scale :: "bool \<Rightarrow> int \<Rightarrow> (u32 \<times> int) option" where
  "pair_opc_scale simd width =
     (if simd
      then (if width = 4 then Some (0, 4) else if width = 8 then Some (1, 8)
            else if width = 16 then Some (2, 16) else None)
      else (if width = 4 then Some (0, 4) else if width = 8 then Some (2, 8) else None))"

definition pair_mode_bits :: "int \<Rightarrow> u32 option" where
  "pair_mode_bits mode =
     (if mode = 0 then Some 2 else if mode = 1 then Some 3 else if mode = 2 then Some 1
      else if mode = 3 then Some 0 else None)"

text \<open>The only encoder that returns a success flag instead of the offset.\<close>

definition aarch64_enc_ldst_pair ::
  "asm_enc \<Rightarrow> u32 \<Rightarrow> u32 \<Rightarrow> int \<Rightarrow> int \<Rightarrow> u32 \<Rightarrow> u32 \<Rightarrow> u32 \<Rightarrow> int \<Rightarrow> asm_enc \<times> bool" where
  "aarch64_enc_ldst_pair e is_simd is_load width mode rt rt2 rn imm_bytes =
     (case pair_opc_scale (is_simd \<noteq> 0) width of
        None \<Rightarrow> (e, False)
      | Some (opc, scale) \<Rightarrow>
          if imm_bytes smod scale \<noteq> 0 then (e, False)
          else
            (let simm7 = imm_bytes sdiv scale in
             if simm7 < - 64 \<or> simm7 > 63 then (e, False)
             else case pair_mode_bits mode of
               None \<Rightarrow> (e, False)
             | Some mb \<Rightarrow> (fst (aarch64_ldp_stp_imm e opc is_simd mb is_load rt rt2 rn simm7), True)))"

definition aarch64_enc_subs_imm :: "asm_enc \<Rightarrow> u32 \<Rightarrow> u32 \<Rightarrow> u32 \<Rightarrow> u32 \<Rightarrow> asm_enc \<times> nat" where
  "aarch64_enc_subs_imm e is_64 rd rn imm12 =
     put_word e (push_bit 31 (is_64 AND 1) OR push_bit 30 1 OR push_bit 29 1 OR push_bit 23 0x22 OR
                 push_bit 10 (imm12 AND 0xFFF) OR push_bit 5 (rn AND 0x1F) OR (rd AND 0x1F))"

definition aarch64_enc_subs_reg ::
  "asm_enc \<Rightarrow> u32 \<Rightarrow> u32 \<Rightarrow> u32 \<Rightarrow> u32 \<Rightarrow> u32 \<Rightarrow> u32 \<Rightarrow> asm_enc \<times> nat" where
  "aarch64_enc_subs_reg e is_64 rd rn rm shift_type shift_amount =
     put_word e (aarch64_add_sub_reg_shifted is_64 1 1 shift_type shift_amount rd rn rm)"

text \<open>
  The size and opc fields of a load or store from its access width in bytes; \<open>None\<close> is the \<^verbatim>\<open>default\<close>
  of the switch, where the encoder refuses.
\<close>

definition ldst_size_opc :: "bool \<Rightarrow> bool \<Rightarrow> int \<Rightarrow> (u32 \<times> u32) option" where
  "ldst_size_opc simd is_load width =
     (let opc = (if is_load then 1 else 0) in
      if width = 1 then Some (0, opc) else if width = 2 then Some (1, opc)
      else if width = 4 then Some (2, opc) else if width = 8 then Some (3, opc)
      else if simd \<and> width = 16 then Some (0, if is_load then 3 else 2) else None)"

definition aarch64_fp_or_gpr_ldst_idx ::
  "asm_enc \<Rightarrow> u32 \<Rightarrow> bool \<Rightarrow> int \<Rightarrow> u32 \<Rightarrow> u32 \<Rightarrow> u32 \<Rightarrow> int \<Rightarrow> asm_enc \<times> nat" where
  "aarch64_fp_or_gpr_ldst_idx e is_simd is_load width op2 rt rn simm9 =
     (case ldst_size_opc (is_simd \<noteq> 0) is_load width of
       None \<Rightarrow> (e, 0)
     | Some (sz, opc) \<Rightarrow>
         put_word e
           (push_bit 30 sz OR push_bit 27 7 OR push_bit 26 (is_simd AND 1) OR push_bit 22 opc OR
        push_bit 12 (word_of_int simm9 AND 0x1FF) OR push_bit 10 op2 OR
        push_bit 5 (rn AND 0x1F) OR (rt AND 0x1F)))"

definition aarch64_enc_ldst_post ::
  "asm_enc \<Rightarrow> u32 \<Rightarrow> bool \<Rightarrow> int \<Rightarrow> u32 \<Rightarrow> u32 \<Rightarrow> int \<Rightarrow> asm_enc \<times> nat" where
  "aarch64_enc_ldst_post e is_simd is_load width rt rn simm9 =
     aarch64_fp_or_gpr_ldst_idx e is_simd is_load width 1 rt rn simm9"

definition aarch64_enc_ldst_pre ::
  "asm_enc \<Rightarrow> u32 \<Rightarrow> bool \<Rightarrow> int \<Rightarrow> u32 \<Rightarrow> u32 \<Rightarrow> int \<Rightarrow> asm_enc \<times> nat" where
  "aarch64_enc_ldst_pre e is_simd is_load width rt rn simm9 =
     aarch64_fp_or_gpr_ldst_idx e is_simd is_load width 3 rt rn simm9"

definition aarch64_enc_ldst_unscaled ::
  "asm_enc \<Rightarrow> u32 \<Rightarrow> bool \<Rightarrow> int \<Rightarrow> u32 \<Rightarrow> u32 \<Rightarrow> int \<Rightarrow> asm_enc \<times> nat" where
  "aarch64_enc_ldst_unscaled e is_simd is_load width rt rn simm9 =
     aarch64_fp_or_gpr_ldst_idx e is_simd is_load width 0 rt rn simm9"

definition aarch64_enc_ldst_regoff ::
  "asm_enc \<Rightarrow> u32 \<Rightarrow> bool \<Rightarrow> int \<Rightarrow> bool \<Rightarrow> u32 \<Rightarrow> u32 \<Rightarrow> u32 \<Rightarrow> asm_enc \<times> nat" where
  "aarch64_enc_ldst_regoff e is_simd is_load width scaled rt rn rm =
     (case ldst_size_opc (is_simd \<noteq> 0) is_load width of
       None \<Rightarrow> (e, 0)
     | Some (sz, opc) \<Rightarrow>
         put_word e
           (push_bit 30 sz OR push_bit 27 7 OR push_bit 26 (is_simd AND 1) OR push_bit 22 opc OR
        push_bit 21 1 OR push_bit 16 (rm AND 0x1F) OR push_bit 13 3 OR
        push_bit 12 (if scaled then 1 else 0) OR push_bit 10 2 OR push_bit 5 (rn AND 0x1F) OR
        (rt AND 0x1F)))"

definition aarch64_enc_cbz ::
  "asm_enc \<Rightarrow> u32 \<Rightarrow> u32 \<Rightarrow> u32 \<Rightarrow> int \<Rightarrow> asm_enc \<times> nat" where
  "aarch64_enc_cbz e is_64 is_nonzero rt rel_words =
     put_word e
       (push_bit 31 (is_64 AND 1) OR push_bit 25 0x1A OR push_bit 24 (is_nonzero AND 1) OR
        push_bit 5 (word_of_int rel_words AND 0x7FFFF) OR (rt AND 0x1F))"

definition aarch64_enc_fp_1src ::
  "asm_enc \<Rightarrow> bool \<Rightarrow> u32 \<Rightarrow> u32 \<Rightarrow> u32 \<Rightarrow> asm_enc \<times> nat" where
  "aarch64_enc_fp_1src e is_double opcode6 rd rn =
     put_word e
       (push_bit 24 0x1E OR push_bit 22 (if is_double then 1 else 0) OR push_bit 21 1 OR
        push_bit 15 (opcode6 AND 0x3F) OR push_bit 10 0x10 OR push_bit 5 (rn AND 0x1F) OR
        (rd AND 0x1F))"

definition aarch64_enc_fcmp ::
  "asm_enc \<Rightarrow> bool \<Rightarrow> u32 \<Rightarrow> u32 \<Rightarrow> u32 \<Rightarrow> u32 \<Rightarrow> asm_enc \<times> nat" where
  "aarch64_enc_fcmp e is_double with_exceptions compare_zero rn rm =
     (let opc2 = push_bit 3 (compare_zero AND 1) OR push_bit 4 (with_exceptions AND 1) in
      put_word e
       (push_bit 24 0x1E OR push_bit 22 (if is_double then 1 else 0) OR push_bit 21 1 OR
        push_bit 16 (rm AND 0x1F) OR push_bit 12 2 OR push_bit 5 (rn AND 0x1F) OR (opc2 AND 0x1F)))"

definition aarch64_enc_fp_int_cvt ::
  "asm_enc \<Rightarrow> u32 \<Rightarrow> u32 \<Rightarrow> u32 \<Rightarrow> u32 \<Rightarrow> u32 \<Rightarrow> asm_enc \<times> nat" where
  "aarch64_enc_fp_int_cvt e sf ftype rmode_opcode5 rd rn =
     put_word e
       (push_bit 31 (sf AND 1) OR push_bit 24 0x1E OR push_bit 22 (ftype AND 3) OR
        push_bit 21 1 OR push_bit 16 (rmode_opcode5 AND 0x1F) OR push_bit 5 (rn AND 0x1F) OR
        (rd AND 0x1F))"

section \<open>BF16 and FMOV\<close>

definition aarch64_enc_bfdot_vec ::
  "asm_enc \<Rightarrow> u32 \<Rightarrow> u32 \<Rightarrow> u32 \<Rightarrow> u32 \<Rightarrow> asm_enc \<times> nat" where
  "aarch64_enc_bfdot_vec e Q rd rn rm =
     put_word e
       (0x2E40FC00 OR push_bit 30 (Q AND 1) OR push_bit 16 (rm AND 0x1F) OR
        push_bit 5 (rn AND 0x1F) OR (rd AND 0x1F))"

definition aarch64_enc_bfdot_idx ::
  "asm_enc \<Rightarrow> u32 \<Rightarrow> u32 \<Rightarrow> u32 \<Rightarrow> u32 \<Rightarrow> u32 \<Rightarrow> asm_enc \<times> nat" where
  "aarch64_enc_bfdot_idx e Q rd rn rm idx =
     (let M = drop_bit 4 rm AND 1; Rm4 = rm AND 0xF; H = drop_bit 1 idx AND 1; L = idx AND 1 in
      put_word e
       (0x0F40F000 OR push_bit 30 (Q AND 1) OR push_bit 21 L OR push_bit 20 M OR
        push_bit 16 Rm4 OR push_bit 11 H OR push_bit 5 (rn AND 0x1F) OR (rd AND 0x1F)))"

definition aarch64_enc_bfmlalb ::
  "asm_enc \<Rightarrow> u32 \<Rightarrow> u32 \<Rightarrow> u32 \<Rightarrow> asm_enc \<times> nat" where
  "aarch64_enc_bfmlalb e rd rn rm =
     put_word e
       (0x2EC0FC00 OR push_bit 16 (rm AND 0x1F) OR push_bit 5 (rn AND 0x1F) OR (rd AND 0x1F))"

definition aarch64_enc_bfmlalt ::
  "asm_enc \<Rightarrow> u32 \<Rightarrow> u32 \<Rightarrow> u32 \<Rightarrow> asm_enc \<times> nat" where
  "aarch64_enc_bfmlalt e rd rn rm =
     put_word e
       (0x6EC0FC00 OR push_bit 16 (rm AND 0x1F) OR push_bit 5 (rn AND 0x1F) OR (rd AND 0x1F))"

definition aarch64_enc_bfcvt ::
  "asm_enc \<Rightarrow> u32 \<Rightarrow> u32 \<Rightarrow> asm_enc \<times> nat" where
  "aarch64_enc_bfcvt e rd rn =
     put_word e
       (0x1E634000 OR push_bit 5 (rn AND 0x1F) OR (rd AND 0x1F))"

definition aarch64_enc_bfcvtn ::
  "asm_enc \<Rightarrow> u32 \<Rightarrow> u32 \<Rightarrow> u32 \<Rightarrow> asm_enc \<times> nat" where
  "aarch64_enc_bfcvtn e Q rd rn =
     put_word e
       (0x0EA16800 OR push_bit 30 (Q AND 1) OR push_bit 5 (rn AND 0x1F) OR (rd AND 0x1F))"

definition aarch64_enc_fmov_reg ::
  "asm_enc \<Rightarrow> bool \<Rightarrow> u32 \<Rightarrow> u32 \<Rightarrow> asm_enc \<times> nat" where
  "aarch64_enc_fmov_reg e is_double rd rn =
     put_word e
       ((if is_double then 0x1E604000 else 0x1E204000) OR push_bit 5 (rn AND 0x1F) OR
        (rd AND 0x1F))"

definition aarch64_enc_fmov_gpr ::
  "asm_enc \<Rightarrow> bool \<Rightarrow> bool \<Rightarrow> u32 \<Rightarrow> u32 \<Rightarrow> asm_enc \<times> nat" where
  "aarch64_enc_fmov_gpr e is_double fp_to_gpr rd rn =
     put_word e
       (push_bit 31 (if is_double then 1 else 0) OR push_bit 24 0x1E OR
        push_bit 22 (if is_double then 1 else 0) OR push_bit 21 1 OR
        push_bit 16 (if fp_to_gpr then 6 else 7) OR push_bit 5 (rn AND 0x1F) OR (rd AND 0x1F))"

definition aarch64_enc_fmov_reg_h ::
  "asm_enc \<Rightarrow> u32 \<Rightarrow> u32 \<Rightarrow> asm_enc \<times> nat" where
  "aarch64_enc_fmov_reg_h e rd rn =
     put_word e
       (0x1EE04000 OR push_bit 5 (rn AND 0x1F) OR (rd AND 0x1F))"

definition aarch64_enc_fmov_h_gpr ::
  "asm_enc \<Rightarrow> bool \<Rightarrow> u32 \<Rightarrow> u32 \<Rightarrow> asm_enc \<times> nat" where
  "aarch64_enc_fmov_h_gpr e fp_to_gpr rd rn =
     put_word e
       (push_bit 24 0x1E OR push_bit 22 3 OR push_bit 21 1 OR
        push_bit 16 (if fp_to_gpr then 6 else 7) OR push_bit 5 (rn AND 0x1F) OR (rd AND 0x1F))"

definition aarch64_enc_fmov_imm ::
  "asm_enc \<Rightarrow> bool \<Rightarrow> u32 \<Rightarrow> u8 \<Rightarrow> asm_enc \<times> nat" where
  "aarch64_enc_fmov_imm e is_double rd imm8 =
     put_word e
       ((if is_double then 0x1E601000 else 0x1E201000) OR push_bit 13 (ucast imm8) OR
        (rd AND 0x1F))"

text \<open>The switch of \<^verbatim>\<open>aarch64_enc_fp_ldst_imm\<close>: size, opc and scale.\<close>

definition fp_ldst_size :: "bool \<Rightarrow> int \<Rightarrow> (u32 \<times> u32 \<times> u32) option" where
  "fp_ldst_size is_load width =
     (let opc = (if is_load then 1 else 0) in
      if width = 1 then Some (0, opc, 1) else if width = 2 then Some (1, opc, 2)
      else if width = 4 then Some (2, opc, 4) else if width = 8 then Some (3, opc, 8)
      else if width = 16 then Some (0, if is_load then 3 else 2, 16) else None)"

definition aarch64_enc_fp_ldst_imm ::
  "asm_enc \<Rightarrow> bool \<Rightarrow> int \<Rightarrow> u32 \<Rightarrow> u32 \<Rightarrow> u32 \<Rightarrow> asm_enc \<times> nat" where
  "aarch64_enc_fp_ldst_imm e is_load width rt rn off =
     (case fp_ldst_size is_load width of
       None \<Rightarrow> (e, 0)
     | Some (sz, opc, scale) \<Rightarrow>
         if off mod scale \<noteq> 0 then (e, 0)
         else put_word e
           (push_bit 30 sz OR push_bit 27 7 OR push_bit 26 1 OR push_bit 24 1 OR push_bit 22 opc OR
        push_bit 10 ((off div scale) AND 0xFFF) OR push_bit 5 (rn AND 0x1F) OR (rt AND 0x1F)))"

definition aarch64_ldp_stp :: "u32 \<Rightarrow> u32 \<Rightarrow> u32 \<Rightarrow> u32 \<Rightarrow> u32 \<Rightarrow> int \<Rightarrow> u32" where
  "aarch64_ldp_stp pat L rt1 rt2 rn simm =
     (let imm7 = word_of_int (simm sdiv 8) AND 0x7F in
      push_bit 30 2 OR push_bit 27 5 OR push_bit 23 pat OR push_bit 22 L OR
        push_bit 15 (imm7 AND 0x7F) OR push_bit 10 rt2 OR push_bit 5 rn OR (rt1 AND 0x1F))"

definition aarch64_enc_stp_pre ::
  "asm_enc \<Rightarrow> u32 \<Rightarrow> u32 \<Rightarrow> u32 \<Rightarrow> int \<Rightarrow> asm_enc \<times> nat" where
  "aarch64_enc_stp_pre e rt1 rt2 rn simm =
     put_word e (aarch64_ldp_stp 3 0 rt1 rt2 rn simm)"

definition aarch64_enc_ldp_post ::
  "asm_enc \<Rightarrow> u32 \<Rightarrow> u32 \<Rightarrow> u32 \<Rightarrow> int \<Rightarrow> asm_enc \<times> nat" where
  "aarch64_enc_ldp_post e rt1 rt2 rn simm =
     put_word e (aarch64_ldp_stp 1 1 rt1 rt2 rn simm)"

section \<open>Control flow\<close>

definition aarch64_enc_ret_reg :: "asm_enc \<Rightarrow> u32 \<Rightarrow> asm_enc \<times> nat" where
  "aarch64_enc_ret_reg e rn =
     put_word e (0xD65F0000 OR push_bit 5 rn)"

definition aarch64_enc_ret :: "asm_enc \<Rightarrow> asm_enc \<times> nat" where
  "aarch64_enc_ret e = aarch64_enc_ret_reg e A_LR"

definition aarch64_enc_b :: "asm_enc \<Rightarrow> int \<Rightarrow> asm_enc \<times> nat" where
  "aarch64_enc_b e rel_words =
     put_word e (push_bit 26 5 OR (word_of_int rel_words AND 0x3FFFFFF))"

definition aarch64_enc_bl :: "asm_enc \<Rightarrow> int \<Rightarrow> asm_enc \<times> nat" where
  "aarch64_enc_bl e rel_words =
     put_word e (push_bit 31 1 OR push_bit 26 5 OR (word_of_int rel_words AND 0x3FFFFFF))"

definition aarch64_enc_br :: "asm_enc \<Rightarrow> u32 \<Rightarrow> asm_enc \<times> nat" where
  "aarch64_enc_br e rn =
     put_word e (0xD61F0000 OR push_bit 5 rn)"

definition aarch64_enc_blr :: "asm_enc \<Rightarrow> u32 \<Rightarrow> asm_enc \<times> nat" where
  "aarch64_enc_blr e rn =
     put_word e (0xD63F0000 OR push_bit 5 rn)"

definition aarch64_enc_b_cond ::
  "asm_enc \<Rightarrow> u32 \<Rightarrow> int \<Rightarrow> asm_enc \<times> nat" where
  "aarch64_enc_b_cond e cc rel_words =
     put_word e (push_bit 24 0x54 OR push_bit 5 (word_of_int rel_words AND 0x7FFFF) OR (cc AND 0xF))"

definition aarch64_enc_adrp ::
  "asm_enc \<Rightarrow> u32 \<Rightarrow> int \<Rightarrow> asm_enc \<times> nat" where
  "aarch64_enc_adrp e rd pages =
     (let imm21 = word_of_int pages AND 0x1FFFFF; immlo = imm21 AND 3; immhi = drop_bit 2 imm21 AND 0x7FFFF in
      put_word e (push_bit 31 1 OR push_bit 29 immlo OR push_bit 24 0x10 OR push_bit 5 immhi OR (rd AND 0x1F)))"

section \<open>Patching\<close>

text \<open>
  A word of the buffer read and overwritten in place. The caller passes the offset an encoder
  returned, so the four bytes are in the buffer; the C does not check it.
\<close>

definition aarch64_read_word :: "asm_enc \<Rightarrow> nat \<Rightarrow> u32" where
  "aarch64_read_word e off =
     ucast (ae_bytes e ! off) OR push_bit 8 (ucast (ae_bytes e ! (off + 1))) OR
     push_bit 16 (ucast (ae_bytes e ! (off + 2))) OR push_bit 24 (ucast (ae_bytes e ! (off + 3)))"

definition aarch64_write_word :: "asm_enc \<Rightarrow> nat \<Rightarrow> u32 \<Rightarrow> asm_enc" where
  "aarch64_write_word e off w =
     e\<lparr>ae_bytes := (ae_bytes e)[off := ucast w, off + 1 := ucast (drop_bit 8 w),
                              off + 2 := ucast (drop_bit 16 w), off + 3 := ucast (drop_bit 24 w)]\<rparr>"

definition aarch64_enc_patch_branch26 :: "asm_enc \<Rightarrow> nat \<Rightarrow> int \<Rightarrow> asm_enc" where
  "aarch64_enc_patch_branch26 e patch rel_words =
     aarch64_write_word e patch
       (aarch64_read_word e patch AND 0xFC000000 OR (word_of_int rel_words AND 0x3FFFFFF))"

definition aarch64_enc_patch_adrp_imm21 :: "asm_enc \<Rightarrow> nat \<Rightarrow> int \<Rightarrow> asm_enc" where
  "aarch64_enc_patch_adrp_imm21 e patch page_delta =
     (let imm21 = word_of_int page_delta AND 0x1FFFFF; immlo = imm21 AND 3;
          immhi = drop_bit 2 imm21 AND 0x7FFFF;
          w = aarch64_read_word e patch AND NOT (push_bit 29 3 OR push_bit 5 0x7FFFF)
      in aarch64_write_word e patch (w OR (push_bit 29 immlo OR push_bit 5 immhi)))"

definition aarch64_enc_patch_imm12 :: "asm_enc \<Rightarrow> nat \<Rightarrow> u32 \<Rightarrow> asm_enc" where
  "aarch64_enc_patch_imm12 e patch imm12 =
     aarch64_write_word e patch
       (aarch64_read_word e patch AND NOT (push_bit 10 0xFFF) OR push_bit 10 (imm12 AND 0xFFF))"

definition aarch64_enc_patch_imm19 :: "asm_enc \<Rightarrow> nat \<Rightarrow> int \<Rightarrow> asm_enc" where
  "aarch64_enc_patch_imm19 e patch rel_words =
     aarch64_write_word e patch
       (aarch64_read_word e patch AND NOT (push_bit 5 0x7FFFF) OR
        push_bit 5 (word_of_int rel_words AND 0x7FFFF))"

section \<open>Loads and stores of narrower values\<close>

definition ldst_sub :: "u32 \<Rightarrow> u32 \<Rightarrow> u32 \<Rightarrow> u32 \<Rightarrow> u32 \<Rightarrow> u32" where
  "ldst_sub sz opc rt rn off =
     (let scale = push_bit (unat sz) 1; pimm12 = (off div scale) AND 0xFFF in
      push_bit 30 sz OR push_bit 24 0x39 OR push_bit 22 opc OR push_bit 10 pimm12 OR
        push_bit 5 rn OR (rt AND 0x1F))"

definition aarch64_enc_ldrb_imm ::
  "asm_enc \<Rightarrow> u32 \<Rightarrow> u32 \<Rightarrow> u32 \<Rightarrow> asm_enc \<times> nat" where
  "aarch64_enc_ldrb_imm e rt rn off =
     put_word e (ldst_sub 0 1 rt rn off)"

definition aarch64_enc_strb_imm ::
  "asm_enc \<Rightarrow> u32 \<Rightarrow> u32 \<Rightarrow> u32 \<Rightarrow> asm_enc \<times> nat" where
  "aarch64_enc_strb_imm e rt rn off =
     put_word e (ldst_sub 0 0 rt rn off)"

definition aarch64_enc_ldrh_imm ::
  "asm_enc \<Rightarrow> u32 \<Rightarrow> u32 \<Rightarrow> u32 \<Rightarrow> asm_enc \<times> nat" where
  "aarch64_enc_ldrh_imm e rt rn off =
     put_word e (ldst_sub 1 1 rt rn off)"

definition aarch64_enc_strh_imm ::
  "asm_enc \<Rightarrow> u32 \<Rightarrow> u32 \<Rightarrow> u32 \<Rightarrow> asm_enc \<times> nat" where
  "aarch64_enc_strh_imm e rt rn off =
     put_word e (ldst_sub 1 0 rt rn off)"

definition aarch64_enc_ldr32_imm ::
  "asm_enc \<Rightarrow> u32 \<Rightarrow> u32 \<Rightarrow> u32 \<Rightarrow> asm_enc \<times> nat" where
  "aarch64_enc_ldr32_imm e rt rn off =
     put_word e (ldst_sub 2 1 rt rn off)"

definition aarch64_enc_str32_imm ::
  "asm_enc \<Rightarrow> u32 \<Rightarrow> u32 \<Rightarrow> u32 \<Rightarrow> asm_enc \<times> nat" where
  "aarch64_enc_str32_imm e rt rn off =
     put_word e (ldst_sub 2 0 rt rn off)"

definition aarch64_enc_ldrsb_imm ::
  "asm_enc \<Rightarrow> bool \<Rightarrow> u32 \<Rightarrow> u32 \<Rightarrow> u32 \<Rightarrow> asm_enc \<times> nat" where
  "aarch64_enc_ldrsb_imm e dst_64 rt rn off =
     put_word e (ldst_sub 0 (if dst_64 then 2 else 3) rt rn off)"

definition aarch64_enc_ldrsh_imm ::
  "asm_enc \<Rightarrow> bool \<Rightarrow> u32 \<Rightarrow> u32 \<Rightarrow> u32 \<Rightarrow> asm_enc \<times> nat" where
  "aarch64_enc_ldrsh_imm e dst_64 rt rn off =
     put_word e (ldst_sub 1 (if dst_64 then 2 else 3) rt rn off)"

definition aarch64_enc_ldrsw_imm ::
  "asm_enc \<Rightarrow> u32 \<Rightarrow> u32 \<Rightarrow> u32 \<Rightarrow> asm_enc \<times> nat" where
  "aarch64_enc_ldrsw_imm e rt rn off =
     put_word e (ldst_sub 2 2 rt rn off)"

definition aarch64_ldrs_imm9_emit ::
  "asm_enc \<Rightarrow> int \<Rightarrow> bool \<Rightarrow> u32 \<Rightarrow> u32 \<Rightarrow> u32 \<Rightarrow> int \<Rightarrow> asm_enc \<times> nat" where
  "aarch64_ldrs_imm9_emit e width dst_64 op2 rt rn simm9 =
     (let sz = (if width = 1 then 0 else if width = 2 then 1 else 2); opc = (if dst_64 then 2 else 3) in
      put_word e
       (push_bit 30 sz OR push_bit 27 7 OR push_bit 22 opc OR
        push_bit 12 (word_of_int simm9 AND 0x1FF) OR push_bit 10 op2 OR
        push_bit 5 (rn AND 0x1F) OR (rt AND 0x1F)))"

definition aarch64_ldrs_regoff_emit ::
  "asm_enc \<Rightarrow> int \<Rightarrow> bool \<Rightarrow> bool \<Rightarrow> u32 \<Rightarrow> u32 \<Rightarrow> u32 \<Rightarrow> asm_enc \<times> nat" where
  "aarch64_ldrs_regoff_emit e width dst_64 scaled rt rn rm =
     (let sz = (if width = 1 then 0 else if width = 2 then 1 else 2); opc = (if dst_64 then 2 else 3) in
      put_word e
       (push_bit 30 sz OR push_bit 27 7 OR push_bit 22 opc OR push_bit 21 1 OR
        push_bit 16 (rm AND 0x1F) OR push_bit 13 3 OR push_bit 12 (if scaled then 1 else 0) OR
        push_bit 10 2 OR push_bit 5 (rn AND 0x1F) OR (rt AND 0x1F)))"

definition ldur_stur :: "u32 \<Rightarrow> u32 \<Rightarrow> u32 \<Rightarrow> u32 \<Rightarrow> int \<Rightarrow> u32" where
  "ldur_stur sz opc rt rn simm9 =
     push_bit 30 sz OR push_bit 24 0x38 OR push_bit 22 opc OR
        push_bit 12 (word_of_int simm9 AND 0x1FF) OR push_bit 5 rn OR (rt AND 0x1F)"

definition aarch64_size_for_width :: "int \<Rightarrow> u32" where
  "aarch64_size_for_width width =
     (if width = 1 then 0 else if width = 2 then 1 else if width = 4 then 2 else 3)"

definition aarch64_enc_ldur ::
  "asm_enc \<Rightarrow> int \<Rightarrow> u32 \<Rightarrow> u32 \<Rightarrow> int \<Rightarrow> asm_enc \<times> nat" where
  "aarch64_enc_ldur e width rt rn simm9 =
     put_word e (ldur_stur (aarch64_size_for_width width) 1 rt rn simm9)"

definition aarch64_enc_stur ::
  "asm_enc \<Rightarrow> int \<Rightarrow> u32 \<Rightarrow> u32 \<Rightarrow> int \<Rightarrow> asm_enc \<times> nat" where
  "aarch64_enc_stur e width rt rn simm9 =
     put_word e (ldur_stur (aarch64_size_for_width width) 0 rt rn simm9)"

section \<open>Logic, multiplication, shifts\<close>

definition aarch64_log_reg :: "u32 \<Rightarrow> u32 \<Rightarrow> u32 \<Rightarrow> u32 \<Rightarrow> u32 \<Rightarrow> u32" where
  "aarch64_log_reg sf opc rd rn rm =
     push_bit 31 (sf AND 1) OR push_bit 29 opc OR push_bit 24 0x0A OR push_bit 16 rm OR
        push_bit 5 rn OR (rd AND 0x1F)"

definition aarch64_enc_and_reg ::
  "asm_enc \<Rightarrow> u32 \<Rightarrow> u32 \<Rightarrow> u32 \<Rightarrow> u32 \<Rightarrow> asm_enc \<times> nat" where
  "aarch64_enc_and_reg e is_64 rd rn rm =
     put_word e (aarch64_log_reg is_64 0 rd rn rm)"

definition aarch64_enc_orr_reg ::
  "asm_enc \<Rightarrow> u32 \<Rightarrow> u32 \<Rightarrow> u32 \<Rightarrow> u32 \<Rightarrow> asm_enc \<times> nat" where
  "aarch64_enc_orr_reg e is_64 rd rn rm =
     put_word e (aarch64_log_reg is_64 1 rd rn rm)"

definition aarch64_enc_eor_reg ::
  "asm_enc \<Rightarrow> u32 \<Rightarrow> u32 \<Rightarrow> u32 \<Rightarrow> u32 \<Rightarrow> asm_enc \<times> nat" where
  "aarch64_enc_eor_reg e is_64 rd rn rm =
     put_word e (aarch64_log_reg is_64 2 rd rn rm)"

definition dp3 :: "u32 \<Rightarrow> u32 \<Rightarrow> u32 \<Rightarrow> u32 \<Rightarrow> u32 \<Rightarrow> u32 \<Rightarrow> u32 \<Rightarrow> u32" where
  "dp3 sf op31 o0 rd rn rm ra =
     push_bit 31 (sf AND 1) OR push_bit 24 0x1B OR push_bit 21 op31 OR push_bit 16 rm OR
        push_bit 15 o0 OR push_bit 10 ra OR push_bit 5 rn OR (rd AND 0x1F)"

definition aarch64_enc_mul ::
  "asm_enc \<Rightarrow> u32 \<Rightarrow> u32 \<Rightarrow> u32 \<Rightarrow> u32 \<Rightarrow> asm_enc \<times> nat" where
  "aarch64_enc_mul e is_64 rd rn rm =
     put_word e (dp3 is_64 0 0 rd rn rm A_XZR)"

definition aarch64_enc_msub ::
  "asm_enc \<Rightarrow> u32 \<Rightarrow> u32 \<Rightarrow> u32 \<Rightarrow> u32 \<Rightarrow> u32 \<Rightarrow> asm_enc \<times> nat" where
  "aarch64_enc_msub e is_64 rd rn rm ra =
     put_word e (dp3 is_64 0 1 rd rn rm ra)"

definition aarch64_dp2 :: "u32 \<Rightarrow> u32 \<Rightarrow> u32 \<Rightarrow> u32 \<Rightarrow> u32 \<Rightarrow> u32" where
  "aarch64_dp2 sf op2 rd rn rm =
     push_bit 31 (sf AND 1) OR push_bit 21 0xD6 OR push_bit 16 rm OR push_bit 10 op2 OR
        push_bit 5 rn OR (rd AND 0x1F)"

definition aarch64_enc_sdiv ::
  "asm_enc \<Rightarrow> u32 \<Rightarrow> u32 \<Rightarrow> u32 \<Rightarrow> u32 \<Rightarrow> asm_enc \<times> nat" where
  "aarch64_enc_sdiv e is_64 rd rn rm =
     put_word e (aarch64_dp2 is_64 3 rd rn rm)"

definition aarch64_enc_udiv ::
  "asm_enc \<Rightarrow> u32 \<Rightarrow> u32 \<Rightarrow> u32 \<Rightarrow> u32 \<Rightarrow> asm_enc \<times> nat" where
  "aarch64_enc_udiv e is_64 rd rn rm =
     put_word e (aarch64_dp2 is_64 2 rd rn rm)"

definition aarch64_enc_lslv ::
  "asm_enc \<Rightarrow> u32 \<Rightarrow> u32 \<Rightarrow> u32 \<Rightarrow> u32 \<Rightarrow> asm_enc \<times> nat" where
  "aarch64_enc_lslv e is_64 rd rn rm =
     put_word e (aarch64_dp2 is_64 8 rd rn rm)"

definition aarch64_enc_lsrv ::
  "asm_enc \<Rightarrow> u32 \<Rightarrow> u32 \<Rightarrow> u32 \<Rightarrow> u32 \<Rightarrow> asm_enc \<times> nat" where
  "aarch64_enc_lsrv e is_64 rd rn rm =
     put_word e (aarch64_dp2 is_64 9 rd rn rm)"

definition aarch64_enc_asrv ::
  "asm_enc \<Rightarrow> u32 \<Rightarrow> u32 \<Rightarrow> u32 \<Rightarrow> u32 \<Rightarrow> asm_enc \<times> nat" where
  "aarch64_enc_asrv e is_64 rd rn rm =
     put_word e (aarch64_dp2 is_64 0xA rd rn rm)"

definition aarch64_enc_lsl_imm ::
  "asm_enc \<Rightarrow> u32 \<Rightarrow> u32 \<Rightarrow> u32 \<Rightarrow> u32 \<Rightarrow> asm_enc \<times> nat" where
  "aarch64_enc_lsl_imm e is_64 rd rn shift =
     (let regsize = (if is_64 \<noteq> 0 then 64 else 32) in
      if regsize \<le> shift then (e, 0)
      else
        (let immr = (regsize - shift) AND (regsize - 1); imms = regsize - 1 - shift in
      put_word e
       ((if is_64 \<noteq> 0 then 0xD3400000 else 0x53000000) OR push_bit 16 (immr AND 0x3F) OR
        push_bit 10 (imms AND 0x3F) OR push_bit 5 (rn AND 0x1F) OR (rd AND 0x1F))))"

definition aarch64_enc_lsr_imm ::
  "asm_enc \<Rightarrow> u32 \<Rightarrow> u32 \<Rightarrow> u32 \<Rightarrow> u32 \<Rightarrow> asm_enc \<times> nat" where
  "aarch64_enc_lsr_imm e is_64 rd rn shift =
     (let regsize = (if is_64 \<noteq> 0 then 64 else 32) in
      if regsize \<le> shift then (e, 0)
      else put_word e
       ((if is_64 \<noteq> 0 then 0xD3400000 else 0x53000000) OR push_bit 16 (shift AND 0x3F) OR
        push_bit 10 (regsize - 1) OR push_bit 5 (rn AND 0x1F) OR (rd AND 0x1F)))"

definition aarch64_enc_asr_imm ::
  "asm_enc \<Rightarrow> u32 \<Rightarrow> u32 \<Rightarrow> u32 \<Rightarrow> u32 \<Rightarrow> asm_enc \<times> nat" where
  "aarch64_enc_asr_imm e is_64 rd rn shift =
     (let regsize = (if is_64 \<noteq> 0 then 64 else 32) in
      if regsize \<le> shift then (e, 0)
      else put_word e
       ((if is_64 \<noteq> 0 then 0x93400000 else 0x13000000) OR push_bit 16 (shift AND 0x3F) OR
        push_bit 10 (regsize - 1) OR push_bit 5 (rn AND 0x1F) OR (rd AND 0x1F)))"

definition aarch64_enc_neg_reg ::
  "asm_enc \<Rightarrow> u32 \<Rightarrow> u32 \<Rightarrow> u32 \<Rightarrow> asm_enc \<times> nat" where
  "aarch64_enc_neg_reg e is_64 rd rm =
     aarch64_enc_sub_reg e is_64 rd A_XZR rm"

definition aarch64_enc_mvn_reg ::
  "asm_enc \<Rightarrow> u32 \<Rightarrow> u32 \<Rightarrow> u32 \<Rightarrow> asm_enc \<times> nat" where
  "aarch64_enc_mvn_reg e is_64 rd rm =
     put_word e
       (push_bit 31 (is_64 AND 1) OR push_bit 29 1 OR push_bit 24 0x0A OR push_bit 21 1 OR
        push_bit 16 rm OR push_bit 5 0x1F OR (rd AND 0x1F))"

section \<open>Compare and select\<close>

definition aarch64_enc_cmp_reg ::
  "asm_enc \<Rightarrow> u32 \<Rightarrow> u32 \<Rightarrow> u32 \<Rightarrow> asm_enc \<times> nat" where
  "aarch64_enc_cmp_reg e is_64 rn rm =
     put_word e
       (push_bit 31 (is_64 AND 1) OR push_bit 30 1 OR push_bit 29 1 OR push_bit 24 0x0B OR
        push_bit 16 rm OR push_bit 5 rn OR 0x1F)"

definition aarch64_enc_cmp_imm ::
  "asm_enc \<Rightarrow> u32 \<Rightarrow> u32 \<Rightarrow> u32 \<Rightarrow> asm_enc \<times> nat" where
  "aarch64_enc_cmp_imm e is_64 rn imm =
     (let (sh, imm12) = (if imm > 0xFFF \<and> imm AND 0xFFF = 0 \<and> drop_bit 12 imm \<le> 0xFFF
                       then (1, drop_bit 12 imm) else (0, imm)) in
      put_word e
       (push_bit 31 (is_64 AND 1) OR push_bit 30 1 OR push_bit 29 1 OR push_bit 23 0x22 OR
        push_bit 22 sh OR push_bit 10 (imm12 AND 0xFFF) OR push_bit 5 rn OR 0x1F))"

definition aarch64_enc_tst_reg ::
  "asm_enc \<Rightarrow> u32 \<Rightarrow> u32 \<Rightarrow> u32 \<Rightarrow> asm_enc \<times> nat" where
  "aarch64_enc_tst_reg e is_64 rn rm =
     put_word e
       (push_bit 31 (is_64 AND 1) OR push_bit 29 3 OR push_bit 24 0x0A OR push_bit 16 rm OR
        push_bit 5 rn OR 0x1F)"

definition aarch64_enc_cset ::
  "asm_enc \<Rightarrow> u32 \<Rightarrow> u32 \<Rightarrow> asm_enc \<times> nat" where
  "aarch64_enc_cset e rd cc =
     (let inv = cc XOR 1 in
      put_word e
       (push_bit 31 1 OR push_bit 21 0xD4 OR push_bit 16 0x1F OR push_bit 12 (inv AND 0xF) OR
        push_bit 10 1 OR push_bit 5 0x1F OR (rd AND 0x1F)))"

definition aarch64_enc_csel ::
  "asm_enc \<Rightarrow> bool \<Rightarrow> u32 \<Rightarrow> u32 \<Rightarrow> u32 \<Rightarrow> u32 \<Rightarrow> asm_enc \<times> nat" where
  "aarch64_enc_csel e sf rd rn rm cond =
     put_word e
       (push_bit 31 (if sf then 1 else 0) OR push_bit 21 0xD4 OR push_bit 16 rm OR
        push_bit 12 cond OR push_bit 5 rn OR (rd AND 0x1F))"

section \<open>System\<close>

definition aarch64_enc_barrier ::
  "asm_enc \<Rightarrow> u32 \<Rightarrow> u32 \<Rightarrow> asm_enc \<times> nat" where
  "aarch64_enc_barrier e opc2 crm =
     put_word e
       (0xD5033000 OR push_bit 8 (crm AND 0xF) OR push_bit 5 (opc2 AND 7) OR 0x1F)"

definition aarch64_enc_mrs ::
  "asm_enc \<Rightarrow> u32 \<Rightarrow> u16 \<Rightarrow> asm_enc \<times> nat" where
  "aarch64_enc_mrs e rt sysreg16 =
     put_word e
       (0xD5300000 OR push_bit 5 (ucast sysreg16 AND 0xFFFF) OR (rt AND 0x1F))"

definition aarch64_enc_msr_reg ::
  "asm_enc \<Rightarrow> u16 \<Rightarrow> u32 \<Rightarrow> asm_enc \<times> nat" where
  "aarch64_enc_msr_reg e sysreg16 rt =
     put_word e
       (0xD5100000 OR push_bit 5 (ucast sysreg16 AND 0xFFFF) OR (rt AND 0x1F))"

definition aarch64_enc_msr_imm ::
  "asm_enc \<Rightarrow> u32 \<Rightarrow> u32 \<Rightarrow> u32 \<Rightarrow> asm_enc \<times> nat" where
  "aarch64_enc_msr_imm e op1 op2 imm4 =
     put_word e
       (0xD500401F OR push_bit 16 (op1 AND 7) OR push_bit 8 (imm4 AND 0xF) OR
        push_bit 5 (op2 AND 7))"

end
