(* ===== verification/A64Table.thy ===== *)
theory A64Table
  imports A64Len A64Enc
begin

text \<open>
  The pattern table of \<^verbatim>\<open>dis_arm64.c\<close> and the listing of emitted code. Apart from \<^verbatim>\<open>prfm\<close>, which
  lies inside the general load/store class, no two patterns match the same word, so the order
  of the table does not matter and a word is printed by the one decoder whose pattern it has.
  \<open>emits\<close> states what an encoder of \<^verbatim>\<open>enc_arm64.c\<close> does to the listing of the buffer.
\<close>

section \<open>Tables of disjoint patterns\<close>

definition apart :: "a64_pat \<Rightarrow> a64_pat \<Rightarrow> bool" where
  "apart p q = (case (p, q) of ((m, v, _), (m', v', _)) \<Rightarrow> v AND m' \<noteq> v' AND m)"

lemma apart_sym: "apart p q \<Longrightarrow> apart q p"
  by (auto simp: apart_def split: prod.splits)

lemma apart_no_match: "apart (m, v, d) (m', v', d') \<Longrightarrow> insn AND m = v \<Longrightarrow> insn AND m' \<noteq> v'"
  by (auto simp: apart_def ac_simps)

lemma dis_loop_no_match: "list_all (\<lambda>(m, v, _). insn AND m \<noteq> v) ps \<Longrightarrow> dis_loop ps insn = None"
  by (induction ps) auto

locale decode_table =
  fixes ps :: "a64_pat list"
  assumes disjoint: "sorted_wrt apart ps"
begin

lemma decoder:
  assumes "(m, v, d) \<in> set ps" "insn AND m = v"
  shows "dis_loop ps insn = d insn"
  using disjoint assms(1)
proof (induction ps)
  case (Cons p qs)
  obtain m' v' d' where p: "p = (m', v', d')" by (cases p)
  show ?case
  proof (cases "p = (m, v, d)")
    case True
    then have "list_all (\<lambda>(m, v, _). insn AND m \<noteq> v) qs"
      using Cons.prems(1) apart_no_match [OF _ assms(2)] by (fastforce simp: list_all_iff)
    then have "dis_loop qs insn = None" by (rule dis_loop_no_match)
    then show ?thesis using True assms(2) by (simp split: option.splits)
  next
    case False
    then have q: "(m, v, d) \<in> set qs" using Cons.prems(2) by auto
    then have "apart (m, v, d) (m', v', d')" using Cons.prems(1) p by (auto intro: apart_sym)
    then have "insn AND m' \<noteq> v'" using assms(2) by (rule apart_no_match)
    then show ?thesis using Cons q p by simp
  qed
qed simp

lemma no_decoder: "(\<And>m v d. (m, v, d) \<in> set ps \<Longrightarrow> insn AND m \<noteq> v) \<Longrightarrow> dis_loop ps insn = None"
  by (rule dis_loop_no_match) (auto simp: list_all_iff)

text \<open>The order of the table is irrelevant.\<close>

lemma any_order:
  assumes "set qs = set ps"
  shows "sorted_wrt apart qs \<Longrightarrow> dis_loop qs insn = dis_loop ps insn"
proof -
  assume qs: "sorted_wrt apart qs"
  show ?thesis
  proof (cases "\<exists>m v d. (m, v, d) \<in> set ps \<and> insn AND m = v")
    case True
    then obtain m v d where "(m, v, d) \<in> set ps" "insn AND m = v" by blast
    then show ?thesis
      using decoder decode_table.decoder [of qs m v d insn] qs assms by (simp add: decode_table_def)
  next
    case False
    then have "dis_loop ps insn = None" by (intro no_decoder) blast
    moreover have "dis_loop qs insn = None"
      by (rule dis_loop_no_match) (use False assms in \<open>auto simp: list_all_iff\<close>)
    ultimately show ?thesis by simp
  qed
qed

end

text \<open>The table of the disassembler without \<^verbatim>\<open>prfm\<close>.\<close>

definition main_patterns :: "a64_pat list" where
  "main_patterns = take 10 g_patterns @ drop 11 g_patterns"

lemmas main_patterns_list = main_patterns_def [unfolded g_patterns_def, simplified]

text \<open>Its masks and values.\<close>

definition main_masks :: "(u32 \<times> u32) list" where
  "main_masks =
     [(0xFFFFF01F, 0xD503201F), (0xFFFFF01F, 0xD503301F), (0xFFF8F01F, 0xD500401F), (0xFFD00000, 0xD5100000),
      (0xFFFFFC1F, 0xD65F0000), (0xFFFFFC1F, 0xD61F0000), (0xFFFFFC1F, 0xD63F0000), (0xFF000000, 0xD4000000),
      (0x3F9FFC00, 0x089FFC00), (0x3F808000, 0x08000000), (0x3FE00800, 0x1A800000), (0x3FE00400, 0x3A400000),
      (0xFF000010, 0x54000000), (0x7E000000, 0x34000000), (0x7E000000, 0x36000000), (0x7C000000, 0x14000000),
      (0x1F000000, 0x10000000), (0x1F800000, 0x12800000), (0x1F800000, 0x13000000), (0x1F800000, 0x12000000),
      (0x1F000000, 0x11000000), (0x1F000000, 0x0A000000), (0x1F200000, 0x0B200000), (0x1F200000, 0x0B000000),
      (0x1F000000, 0x1B000000), (0x7FFF0000, 0x5AC00000), (0x7FE00000, 0x1AC00000), (0x7FA00000, 0x13800000),
      (0x3A000000, 0x28000000), (0xBFE0FC00, 0x2E40FC00), (0xBFC0F400, 0x0F40F000), (0xBFE0FC00, 0x2EC0FC00),
      (0xFFE0FC00, 0x6E40EC00), (0xBFFFFC00, 0x0EA16800), (0x9F200400, 0x0E200400), (0xFF207C00, 0x1E204000),
      (0xFF200C00, 0x1E200800), (0xFF20FC00, 0x1E202000), (0xFF201FE0, 0x1E201000), (0x7F20FC00, 0x1E200000),
      (0x3F000000, 0x3D000000), (0x3F200C00, 0x38200800), (0x3F200400, 0x38000400), (0x3F200C00, 0x38000000),
      (0x3F000000, 0x18000000), (0x3F000000, 0x39000000)]"

lemma apart_masks:
  "sorted_wrt apart ps \<longleftrightarrow> sorted_wrt (\<lambda>(m, v) (m', v'). v AND m' \<noteq> v' AND m) (map (\<lambda>(m, v, _). (m, v)) ps)"
  by (simp add: sorted_wrt_map apart_def [abs_def] case_prod_unfold)

interpretation a64: decode_table main_patterns
proof
  have "map (\<lambda>(m, v, _). (m, v)) main_patterns = main_masks"
    by (simp add: main_patterns_list main_masks_def)
  moreover have "sorted_wrt (\<lambda>(m, v) (m', v'). v AND m' \<noteq> v' AND m) main_masks" by code_simp
  ultimately show "sorted_wrt apart main_patterns" by (simp add: apart_masks)
qed

lemma dis_loop_append:
  "dis_loop (ps @ qs) insn = (case dis_loop ps insn of Some s \<Rightarrow> Some s | None \<Rightarrow> dis_loop qs insn)"
  by (induction ps insn rule: dis_loop.induct) (auto split: option.splits)

lemma g_patterns_split: "g_patterns = take 10 g_patterns @ (0xFFC00000, 0xF9800000, dec_prfm_imm) # drop 11 g_patterns"
  by (simp add: g_patterns_def)

lemma dis_loop_main:
  assumes "insn AND 0xFFC00000 \<noteq> 0xF9800000"
  shows "dis_loop g_patterns insn = dis_loop main_patterns insn"
  by (subst g_patterns_split) (simp add: main_patterns_def dis_loop_append assms split: option.splits)

lemma dis_loop_decoder:
  assumes "(m, v, d) \<in> set main_patterns" "insn AND m = v" "insn AND 0xFFC00000 \<noteq> 0xF9800000"
  shows "dis_loop g_patterns insn = d insn"
  using a64.decoder [OF assms(1,2)] dis_loop_main [OF assms(3)] by simp


text \<open>The general load/store class is decoded when the word is not a \<^verbatim>\<open>prfm\<close>.\<close>

lemma prfm_apart:
  fixes insn :: u32
  assumes "insn AND m = v" "v AND 0xFFC00000 \<noteq> 0xF9800000 AND m"
  shows "insn AND 0xFFC00000 \<noteq> 0xF9800000"
  using apart_no_match [of m v dec_hint "0xFFC00000" "0xF9800000" dec_hint insn] assms
  by (simp add: apart_def)

section \<open>The listing of the buffer\<close>

lemma word_at_put:
  "word_at (bs @ [ucast w, ucast (drop_bit 8 w), ucast (drop_bit 16 w), ucast (drop_bit 24 w)]) (length bs) = w"
proof (rule bit_word_eqI)
  fix n assume "n < LENGTH(32)"
  then have "n \<in> {0..<8} \<union> {8..<16} \<union> {16..<24} \<union> {24..<32}" by auto
  then show "bit (word_at (bs @ [ucast w, ucast (drop_bit 8 w), ucast (drop_bit 16 w), ucast (drop_bit 24 w)])
      (length bs)) n = bit w n"
    by (auto simp: word_at_def nth_append bit_simps)
qed

lemma word_at_append: "off + 4 \<le> length bs \<Longrightarrow> word_at (bs @ cs) off = word_at bs off"
  by (simp add: word_at_def nth_append)

lemma put_word_bytes:
  "ae_bytes (fst (put_word e w)) =
     ae_bytes e @ [ucast w, ucast (drop_bit 8 w), ucast (drop_bit 16 w), ucast (drop_bit 24 w)]"
  "snd (put_word e w) = length (ae_bytes e)"
  by (simp_all add: put_word_def put_u32_def put_byte_def Let_def)

definition dis_text :: "u32 \<Rightarrow> string" where
  "dis_text w = (case dis_loop g_patterns w of Some s \<Rightarrow> s | None \<Rightarrow> ''.word 0x'' @ fmt_08x w)"

lemma aarch64_disasm_text:
  assumes "128 \<le> outsz"
  shows "aarch64_disasm w outsz = (dis_loop g_patterns w \<noteq> None, Some (dis_text w))"
  using assms length_hex_word [of w] dis_loop_length [of w]
  by (auto simp: aarch64_disasm_def dis_text_def snprintf_def split: option.splits)

lemma disasm_lines_append:
  assumes "4 dvd length bs" "off \<le> length bs" "4 dvd off" "length ws = 4"
  shows "disasm_lines (bs @ ws) off =
     disasm_lines bs off @ [(length bs, word_at (bs @ ws) (length bs), dis_text (word_at (bs @ ws) (length bs)))]"
  using assms
proof (induction bs off rule: disasm_lines.induct)
  case (1 bs off)
  show ?case
  proof (cases "off = length bs")
    case True
    then show ?thesis using 1(5) by (simp add: disasm_lines.simps aarch64_disasm_text)
  next
    case False
    then have "off + 4 \<le> length bs" using 1(2-4) by (auto elim!: dvdE)
    then show ?thesis
      using 1(1,2,4,5) by (simp add: disasm_lines.simps [of _ off] word_at_append aarch64_disasm_text)
  qed
qed

text \<open>The offsets and the texts of the listing, as \<^verbatim>\<open>aarch64_disasm_buf\<close> prints them.\<close>

definition listing :: "asm_enc \<Rightarrow> (nat \<times> string) list" where
  "listing e = map (\<lambda>(off, _, text). (off, text)) (aarch64_disasm_buf (ae_bytes e))"

text \<open>
  An encoder called on \<open>e\<close> with result \<open>r\<close> emits one instruction with the given text: it returns
  the offset of the old end, keeps what was there, and the listing gains the one line.
\<close>

definition emits :: "asm_enc \<Rightarrow> asm_enc \<times> nat \<Rightarrow> string \<Rightarrow> bool" where
  "emits e r text \<longleftrightarrow>
     snd r = length (ae_bytes e) \<and> take (length (ae_bytes e)) (ae_bytes (fst r)) = ae_bytes e \<and>
     length (ae_bytes (fst r)) = length (ae_bytes e) + 4 \<and> listing (fst r) = listing e @ [(snd r, text)]"

definition aligned :: "asm_enc \<Rightarrow> bool" where
  "aligned e \<longleftrightarrow> 4 dvd length (ae_bytes e)"

lemma emits_text: "aligned e \<Longrightarrow> emits e (put_word e w) (dis_text w)"
  by (simp add: emits_def aligned_def listing_def aarch64_disasm_buf_def put_word_bytes disasm_lines_append
      word_at_put)

lemma emits_put_word:
  assumes "aligned e" "dis_loop g_patterns w = Some s"
  shows "emits e (put_word e w) s"
  using emits_text [OF assms(1), of w] assms(2) by (simp add: dis_text_def)


text \<open>One rule per class of instructions, to be applied to an encoder's word.\<close>

lemma emits_main:
  assumes "aligned e" "w AND m = v" "d w = Some s"
    and "(m, v, d) \<in> set main_patterns" "v AND 0xFFC00000 \<noteq> 0xF9800000 AND m"
  shows "emits e (put_word e w) s"
  by (rule emits_put_word [OF assms(1)])
    (simp add: dis_loop_decoder [OF assms(4,2) prfm_apart [OF assms(2,5)]] assms(3))

lemma emits_classes:
  shows emits_barrier: "aligned e \<Longrightarrow> w AND 0xFFFFF01F = 0xD503301F \<Longrightarrow> dec_barrier w = Some s \<Longrightarrow>
      emits e (put_word e w) s"
    and emits_msr_imm: "aligned e \<Longrightarrow> w AND 0xFFF8F01F = 0xD500401F \<Longrightarrow> dec_msr_imm w = Some s \<Longrightarrow>
      emits e (put_word e w) s"
    and emits_mrs_msr: "aligned e \<Longrightarrow> w AND 0xFFD00000 = 0xD5100000 \<Longrightarrow> dec_mrs_msr w = Some s \<Longrightarrow>
      emits e (put_word e w) s"
    and emits_ret: "aligned e \<Longrightarrow> w AND 0xFFFFFC1F = 0xD65F0000 \<Longrightarrow> dec_ret w = Some s \<Longrightarrow>
      emits e (put_word e w) s"
    and emits_br: "aligned e \<Longrightarrow> w AND 0xFFFFFC1F = 0xD61F0000 \<Longrightarrow> dec_br w = Some s \<Longrightarrow>
      emits e (put_word e w) s"
    and emits_blr: "aligned e \<Longrightarrow> w AND 0xFFFFFC1F = 0xD63F0000 \<Longrightarrow> dec_blr w = Some s \<Longrightarrow>
      emits e (put_word e w) s"
    and emits_csel_family: "aligned e \<Longrightarrow> w AND 0x3FE00800 = 0x1A800000 \<Longrightarrow> dec_csel_family w = Some s \<Longrightarrow>
      emits e (put_word e w) s"
    and emits_b_cond: "aligned e \<Longrightarrow> w AND 0xFF000010 = 0x54000000 \<Longrightarrow> dec_b_cond w = Some s \<Longrightarrow>
      emits e (put_word e w) s"
    and emits_cbz_cbnz: "aligned e \<Longrightarrow> w AND 0x7E000000 = 0x34000000 \<Longrightarrow> dec_cbz_cbnz w = Some s \<Longrightarrow>
      emits e (put_word e w) s"
    and emits_b_bl: "aligned e \<Longrightarrow> w AND 0x7C000000 = 0x14000000 \<Longrightarrow> dec_b_bl w = Some s \<Longrightarrow>
      emits e (put_word e w) s"
    and emits_adr: "aligned e \<Longrightarrow> w AND 0x1F000000 = 0x10000000 \<Longrightarrow> dec_adr w = Some s \<Longrightarrow>
      emits e (put_word e w) s"
    and emits_movz_movk_movn: "aligned e \<Longrightarrow> w AND 0x1F800000 = 0x12800000 \<Longrightarrow> dec_movz_movk_movn w = Some s \<Longrightarrow>
      emits e (put_word e w) s"
    and emits_bfm: "aligned e \<Longrightarrow> w AND 0x1F800000 = 0x13000000 \<Longrightarrow> dec_bfm w = Some s \<Longrightarrow>
      emits e (put_word e w) s"
    and emits_add_sub_imm: "aligned e \<Longrightarrow> w AND 0x1F000000 = 0x11000000 \<Longrightarrow> dec_add_sub_imm w = Some s \<Longrightarrow>
      emits e (put_word e w) s"
    and emits_logical_reg: "aligned e \<Longrightarrow> w AND 0x1F000000 = 0x0A000000 \<Longrightarrow> dec_logical_reg w = Some s \<Longrightarrow>
      emits e (put_word e w) s"
    and emits_add_sub_reg: "aligned e \<Longrightarrow> w AND 0x1F200000 = 0x0B000000 \<Longrightarrow> dec_add_sub_reg w = Some s \<Longrightarrow>
      emits e (put_word e w) s"
    and emits_dp3: "aligned e \<Longrightarrow> w AND 0x1F000000 = 0x1B000000 \<Longrightarrow> dec_dp3 w = Some s \<Longrightarrow>
      emits e (put_word e w) s"
    and emits_dp2: "aligned e \<Longrightarrow> w AND 0x7FE00000 = 0x1AC00000 \<Longrightarrow> dec_dp2 w = Some s \<Longrightarrow>
      emits e (put_word e w) s"
    and emits_ldp_stp: "aligned e \<Longrightarrow> w AND 0x3A000000 = 0x28000000 \<Longrightarrow> dec_ldp_stp w = Some s \<Longrightarrow>
      emits e (put_word e w) s"
    and emits_bfdot: "aligned e \<Longrightarrow> w AND 0xBFE0FC00 = 0x2E40FC00 \<Longrightarrow> dec_bfdot w = Some s \<Longrightarrow>
      emits e (put_word e w) s"
    and emits_bfdot_idx: "aligned e \<Longrightarrow> w AND 0xBFC0F400 = 0x0F40F000 \<Longrightarrow> dec_bfdot_idx w = Some s \<Longrightarrow>
      emits e (put_word e w) s"
    and emits_bfmlal: "aligned e \<Longrightarrow> w AND 0xBFE0FC00 = 0x2EC0FC00 \<Longrightarrow> dec_bfmlal w = Some s \<Longrightarrow>
      emits e (put_word e w) s"
    and emits_bfcvtn: "aligned e \<Longrightarrow> w AND 0xBFFFFC00 = 0x0EA16800 \<Longrightarrow> dec_bfcvtn w = Some s \<Longrightarrow>
      emits e (put_word e w) s"
    and emits_fp_3same_vec: "aligned e \<Longrightarrow> w AND 0x9F200400 = 0x0E200400 \<Longrightarrow> dec_fp_3same_vec w = Some s \<Longrightarrow>
      emits e (put_word e w) s"
    and emits_fp_1src: "aligned e \<Longrightarrow> w AND 0xFF207C00 = 0x1E204000 \<Longrightarrow> dec_fp_1src w = Some s \<Longrightarrow>
      emits e (put_word e w) s"
    and emits_fp_2src: "aligned e \<Longrightarrow> w AND 0xFF200C00 = 0x1E200800 \<Longrightarrow> dec_fp_2src w = Some s \<Longrightarrow>
      emits e (put_word e w) s"
    and emits_fcmp: "aligned e \<Longrightarrow> w AND 0xFF20FC00 = 0x1E202000 \<Longrightarrow> dec_fcmp w = Some s \<Longrightarrow>
      emits e (put_word e w) s"
    and emits_fmov_imm: "aligned e \<Longrightarrow> w AND 0xFF201FE0 = 0x1E201000 \<Longrightarrow> dec_fmov_imm w = Some s \<Longrightarrow>
      emits e (put_word e w) s"
    and emits_fp_int_cvt: "aligned e \<Longrightarrow> w AND 0x7F20FC00 = 0x1E200000 \<Longrightarrow> dec_fp_int_cvt w = Some s \<Longrightarrow>
      emits e (put_word e w) s"
    and emits_fp_ldst_uimm: "aligned e \<Longrightarrow> w AND 0x3F000000 = 0x3D000000 \<Longrightarrow> dec_fp_ldst_uimm w = Some s \<Longrightarrow>
      emits e (put_word e w) s"
    and emits_ldst_regoff: "aligned e \<Longrightarrow> w AND 0x3F200C00 = 0x38200800 \<Longrightarrow> dec_ldst_regoff w = Some s \<Longrightarrow>
      emits e (put_word e w) s"
    and emits_ldst_imm9: "aligned e \<Longrightarrow> w AND 0x3F200400 = 0x38000400 \<Longrightarrow> dec_ldst_imm9 w = Some s \<Longrightarrow>
      emits e (put_word e w) s"
    and emits_ldst_imm9_unscaled: "aligned e \<Longrightarrow> w AND 0x3F200C00 = 0x38000000 \<Longrightarrow> dec_ldst_imm9 w = Some s \<Longrightarrow>
      emits e (put_word e w) s"
  by (erule (2) emits_main; simp add: main_patterns_list; fail)+

end
