(* ===== verification/A64RoundInt.thy ===== *)
theory A64RoundInt
  imports A64Table
begin

text \<open>
  Integer instructions: what the encoders of \<^verbatim>\<open>enc_arm64.c\<close> emit is printed back by
  \<^verbatim>\<open>dis_arm64.c\<close> with the operands the encoder was given. \<open>int_insn\<close> has a constructor per encoder,
  \<open>int_ok\<close> the operands the encoder is made for, \<open>int_text\<close> the line the disassembler prints (under the
  preferred alias, as the architecture defines it) and \<open>int_encode\<close> the call.
\<close>

section \<open>Assembly text\<close>

fun operands :: "string list \<Rightarrow> string" where
  "operands [] = []"
| "operands [x] = x"
| "operands (x # y # xs) = x @ sep @ operands (y # xs)"

definition asm :: "string \<Rightarrow> string list \<Rightarrow> string" where
  "asm mn xs = mn @ '' '' @ operands xs"

definition num :: "u32 \<Rightarrow> string" where
  "num n = ''#'' @ fmt_u n"

text \<open>A register of the width \<open>sf\<close>, with the zero register or the stack pointer as number 31.\<close>

definition R :: "u32 \<Rightarrow> u32 \<Rightarrow> string" where
  "R sf r = reg_name (sf \<noteq> 0) r False"

definition RSP :: "u32 \<Rightarrow> u32 \<Rightarrow> string" where
  "RSP sf r = reg_name (sf \<noteq> 0) r True"

definition shifted_by :: "u32 \<Rightarrow> u32 \<Rightarrow> string list" where
  "shifted_by st amt = (if amt = 0 \<and> st = 0 then [] else [shift_names ! unat st @ '' #'' @ fmt_u amt])"

text \<open>The immediates of \<^verbatim>\<open>add\<close> and \<^verbatim>\<open>sub\<close>: 12 bits, or 12 bits shifted left by 12.\<close>

definition arith_imm :: "u32 \<Rightarrow> bool" where
  "arith_imm imm \<longleftrightarrow> imm < 4096 \<or> (imm AND 0xFFF = 0 \<and> drop_bit 12 imm < 4096)"

lemmas texts = asm_def num_def R_def RSP_def shifted_by_def add_sub_mn_def

lemmas enc_words = and_masks fields in_range known_bits

section \<open>Instructions\<close>

datatype (plugins only: code) int_insn =
    AddReg u32 u32 u32 u32
  | SubReg u32 u32 u32 u32
  | AddRegShifted u32 u32 u32 u32 u32 u32
  | SubRegShifted u32 u32 u32 u32 u32 u32
  | SubsReg u32 u32 u32 u32 u32 u32
  | NegReg u32 u32 u32
  | CmpReg u32 u32 u32
  | AddImm u32 u32 u32 u32
  | SubImm u32 u32 u32 u32
  | SubsImm u32 u32 u32 u32
  | CmpImm u32 u32 u32
  | AndReg u32 u32 u32 u32
  | OrrReg u32 u32 u32 u32
  | EorReg u32 u32 u32 u32
  | MvnReg u32 u32 u32
  | TstReg u32 u32 u32
  | MovReg u32 u32
  | MovRegW u32 u32
  | Mul u32 u32 u32 u32
  | Msub u32 u32 u32 u32 u32
  | Sdiv u32 u32 u32 u32
  | Udiv u32 u32 u32 u32
  | Lslv u32 u32 u32 u32
  | Lsrv u32 u32 u32 u32
  | Asrv u32 u32 u32 u32
  | LslImm u32 u32 u32 u32
  | LsrImm u32 u32 u32 u32
  | AsrImm u32 u32 u32 u32
  | Uxtb u32 u32 u32
  | Uxth u32 u32
  | Sxtb u32 u32
  | Sxth u32 u32
  | Sxtw u32 u32
  | Cset u32 u32
  | Csel u32 u32 u32 u32 u32
  | Movz u32 u32 u32 u32
  | Movk u32 u32 u32 u32
  | Movn u32 u32 u32 u32

primrec int_encode :: "asm_enc \<Rightarrow> int_insn \<Rightarrow> asm_enc \<times> nat" where
  "int_encode e (AddReg sf rd rn rm) = aarch64_enc_add_reg e sf rd rn rm"
| "int_encode e (SubReg sf rd rn rm) = aarch64_enc_sub_reg e sf rd rn rm"
| "int_encode e (AddRegShifted sf rd rn rm st amt) = aarch64_enc_add_reg_shifted e sf rd rn rm st amt"
| "int_encode e (SubRegShifted sf rd rn rm st amt) = aarch64_enc_sub_reg_shifted e sf rd rn rm st amt"
| "int_encode e (SubsReg sf rd rn rm st amt) = aarch64_enc_subs_reg e sf rd rn rm st amt"
| "int_encode e (NegReg sf rd rm) = aarch64_enc_neg_reg e sf rd rm"
| "int_encode e (CmpReg sf rn rm) = aarch64_enc_cmp_reg e sf rn rm"
| "int_encode e (AddImm sf rd rn imm) = aarch64_enc_add_imm e sf rd rn imm"
| "int_encode e (SubImm sf rd rn imm) = aarch64_enc_sub_imm e sf rd rn imm"
| "int_encode e (SubsImm sf rd rn imm) = aarch64_enc_subs_imm e sf rd rn imm"
| "int_encode e (CmpImm sf rn imm) = aarch64_enc_cmp_imm e sf rn imm"
| "int_encode e (AndReg sf rd rn rm) = aarch64_enc_and_reg e sf rd rn rm"
| "int_encode e (OrrReg sf rd rn rm) = aarch64_enc_orr_reg e sf rd rn rm"
| "int_encode e (EorReg sf rd rn rm) = aarch64_enc_eor_reg e sf rd rn rm"
| "int_encode e (MvnReg sf rd rm) = aarch64_enc_mvn_reg e sf rd rm"
| "int_encode e (TstReg sf rn rm) = aarch64_enc_tst_reg e sf rn rm"
| "int_encode e (MovReg rd rm) = aarch64_enc_mov_reg e rd rm"
| "int_encode e (MovRegW rd rm) = aarch64_enc_mov_reg_w e rd rm"
| "int_encode e (Mul sf rd rn rm) = aarch64_enc_mul e sf rd rn rm"
| "int_encode e (Msub sf rd rn rm ra) = aarch64_enc_msub e sf rd rn rm ra"
| "int_encode e (Sdiv sf rd rn rm) = aarch64_enc_sdiv e sf rd rn rm"
| "int_encode e (Udiv sf rd rn rm) = aarch64_enc_udiv e sf rd rn rm"
| "int_encode e (Lslv sf rd rn rm) = aarch64_enc_lslv e sf rd rn rm"
| "int_encode e (Lsrv sf rd rn rm) = aarch64_enc_lsrv e sf rd rn rm"
| "int_encode e (Asrv sf rd rn rm) = aarch64_enc_asrv e sf rd rn rm"
| "int_encode e (LslImm sf rd rn amt) = aarch64_enc_lsl_imm e sf rd rn amt"
| "int_encode e (LsrImm sf rd rn amt) = aarch64_enc_lsr_imm e sf rd rn amt"
| "int_encode e (AsrImm sf rd rn amt) = aarch64_enc_asr_imm e sf rd rn amt"
| "int_encode e (Uxtb sf rd rn) = aarch64_enc_uxtb e sf rd rn"
| "int_encode e (Uxth rd rn) = aarch64_enc_uxth e rd rn"
| "int_encode e (Sxtb rd rn) = aarch64_enc_sxtb e rd rn"
| "int_encode e (Sxth rd rn) = aarch64_enc_sxth e rd rn"
| "int_encode e (Sxtw rd rn) = aarch64_enc_sxtw e rd rn"
| "int_encode e (Cset rd cc) = aarch64_enc_cset e rd cc"
| "int_encode e (Csel sf rd rn rm cc) = aarch64_enc_csel e (sf \<noteq> 0) rd rn rm cc"
| "int_encode e (Movz sf rd imm hw) = aarch64_enc_movz e rd sf imm hw"
| "int_encode e (Movk sf rd imm hw) = aarch64_enc_movk e rd sf (ucast imm) hw"
| "int_encode e (Movn sf rd imm hw) = aarch64_enc_movn e rd sf (ucast imm) hw"

primrec int_ok :: "int_insn \<Rightarrow> bool" where
  "int_ok (AddReg sf rd rn rm) \<longleftrightarrow> sf < 2 \<and> rd < 32 \<and> rn < 32 \<and> rm < 32"
| "int_ok (SubReg sf rd rn rm) \<longleftrightarrow> sf < 2 \<and> rd < 32 \<and> rn < 32 \<and> rm < 32"
| "int_ok (AddRegShifted sf rd rn rm st amt) \<longleftrightarrow> sf < 2 \<and> rd < 32 \<and> rn < 32 \<and> rm < 32 \<and> st < 4 \<and> amt < 64"
| "int_ok (SubRegShifted sf rd rn rm st amt) \<longleftrightarrow> sf < 2 \<and> rd < 32 \<and> rn < 32 \<and> rm < 32 \<and> st < 4 \<and> amt < 64"
| "int_ok (SubsReg sf rd rn rm st amt) \<longleftrightarrow> sf < 2 \<and> rd < 32 \<and> rn < 32 \<and> rm < 32 \<and> st < 4 \<and> amt < 64"
| "int_ok (NegReg sf rd rm) \<longleftrightarrow> sf < 2 \<and> rd < 32 \<and> rm < 32"
| "int_ok (CmpReg sf rn rm) \<longleftrightarrow> sf < 2 \<and> rn < 32 \<and> rm < 32"
| "int_ok (AddImm sf rd rn imm) \<longleftrightarrow> sf < 2 \<and> rd < 32 \<and> rn < 32 \<and> arith_imm imm"
| "int_ok (SubImm sf rd rn imm) \<longleftrightarrow> sf < 2 \<and> rd < 32 \<and> rn < 32 \<and> arith_imm imm"
| "int_ok (SubsImm sf rd rn imm) \<longleftrightarrow> sf < 2 \<and> rd < 32 \<and> rn < 32 \<and> imm < 4096"
| "int_ok (CmpImm sf rn imm) \<longleftrightarrow> sf < 2 \<and> rn < 32 \<and> arith_imm imm"
| "int_ok (AndReg sf rd rn rm) \<longleftrightarrow> sf < 2 \<and> rd < 32 \<and> rn < 32 \<and> rm < 32"
| "int_ok (OrrReg sf rd rn rm) \<longleftrightarrow> sf < 2 \<and> rd < 32 \<and> rn < 32 \<and> rm < 32"
| "int_ok (EorReg sf rd rn rm) \<longleftrightarrow> sf < 2 \<and> rd < 32 \<and> rn < 32 \<and> rm < 32"
| "int_ok (MvnReg sf rd rm) \<longleftrightarrow> sf < 2 \<and> rd < 32 \<and> rm < 32"
| "int_ok (TstReg sf rn rm) \<longleftrightarrow> sf < 2 \<and> rn < 32 \<and> rm < 32"
| "int_ok (MovReg rd rm) \<longleftrightarrow> rd < 32 \<and> rm < 32"
| "int_ok (MovRegW rd rm) \<longleftrightarrow> rd < 32 \<and> rm < 32"
| "int_ok (Mul sf rd rn rm) \<longleftrightarrow> sf < 2 \<and> rd < 32 \<and> rn < 32 \<and> rm < 32"
| "int_ok (Msub sf rd rn rm ra) \<longleftrightarrow> sf < 2 \<and> rd < 32 \<and> rn < 32 \<and> rm < 32 \<and> ra < 32"
| "int_ok (Sdiv sf rd rn rm) \<longleftrightarrow> sf < 2 \<and> rd < 32 \<and> rn < 32 \<and> rm < 32"
| "int_ok (Udiv sf rd rn rm) \<longleftrightarrow> sf < 2 \<and> rd < 32 \<and> rn < 32 \<and> rm < 32"
| "int_ok (Lslv sf rd rn rm) \<longleftrightarrow> sf < 2 \<and> rd < 32 \<and> rn < 32 \<and> rm < 32"
| "int_ok (Lsrv sf rd rn rm) \<longleftrightarrow> sf < 2 \<and> rd < 32 \<and> rn < 32 \<and> rm < 32"
| "int_ok (Asrv sf rd rn rm) \<longleftrightarrow> sf < 2 \<and> rd < 32 \<and> rn < 32 \<and> rm < 32"
| "int_ok (LslImm sf rd rn amt) \<longleftrightarrow> sf < 2 \<and> rd < 32 \<and> rn < 32 \<and> amt < (if sf = 0 then 32 else 64)"
| "int_ok (LsrImm sf rd rn amt) \<longleftrightarrow> sf < 2 \<and> rd < 32 \<and> rn < 32 \<and> amt < (if sf = 0 then 32 else 64)"
| "int_ok (AsrImm sf rd rn amt) \<longleftrightarrow> sf < 2 \<and> rd < 32 \<and> rn < 32 \<and> amt < (if sf = 0 then 32 else 64)"
| "int_ok (Uxtb sf rd rn) \<longleftrightarrow> sf < 2 \<and> rd < 32 \<and> rn < 32"
| "int_ok (Uxth rd rn) \<longleftrightarrow> rd < 32 \<and> rn < 32"
| "int_ok (Sxtb rd rn) \<longleftrightarrow> rd < 32 \<and> rn < 32"
| "int_ok (Sxth rd rn) \<longleftrightarrow> rd < 32 \<and> rn < 32"
| "int_ok (Sxtw rd rn) \<longleftrightarrow> rd < 32 \<and> rn < 32"
| "int_ok (Cset rd cc) \<longleftrightarrow> rd < 32 \<and> cc < 16"
| "int_ok (Csel sf rd rn rm cc) \<longleftrightarrow> sf < 2 \<and> rd < 32 \<and> rn < 32 \<and> rm < 32 \<and> cc < 16"
| "int_ok (Movz sf rd imm hw) \<longleftrightarrow> sf < 2 \<and> rd < 32 \<and> hw < 4 \<and> imm < 65536"
| "int_ok (Movk sf rd imm hw) \<longleftrightarrow> sf < 2 \<and> rd < 32 \<and> hw < 4 \<and> imm < 65536"
| "int_ok (Movn sf rd imm hw) \<longleftrightarrow> sf < 2 \<and> rd < 32 \<and> hw < 4 \<and> imm < 65536"

primrec int_text :: "int_insn \<Rightarrow> string" where
  "int_text (AddReg sf rd rn rm) = asm ''add'' [R sf rd, R sf rn, R sf rm]"
| "int_text (SubReg sf rd rn rm) =
     (if rn = 31 then asm ''neg'' [R sf rd, R sf rm] else asm ''sub'' [R sf rd, R sf rn, R sf rm])"
| "int_text (AddRegShifted sf rd rn rm st amt) =
     (asm ''add'' ([R sf rd, R sf rn, R sf rm] @ shifted_by st amt))"
| "int_text (SubRegShifted sf rd rn rm st amt) =
     (if rn = 31 \<and> amt = 0 \<and> st = 0 then asm ''neg'' [R sf rd, R sf rm]
      else asm ''sub'' ([R sf rd, R sf rn, R sf rm] @ shifted_by st amt))"
| "int_text (SubsReg sf rd rn rm st amt) =
     (if rn = 31 \<and> amt = 0 \<and> st = 0 then asm ''negs'' [R sf rd, R sf rm]
      else if rd = 31 then asm ''cmp'' ([R sf rn, R sf rm] @ shifted_by st amt)
      else asm ''subs'' ([R sf rd, R sf rn, R sf rm] @ shifted_by st amt))"
| "int_text (NegReg sf rd rm) = asm ''neg'' [R sf rd, R sf rm]"
| "int_text (CmpReg sf rn rm) =
     (if rn = 31 then asm ''negs'' [R sf 31, R sf rm] else asm ''cmp'' [R sf rn, R sf rm])"
| "int_text (AddImm sf rd rn imm) = asm ''add'' [RSP sf rd, RSP sf rn, num imm]"
| "int_text (SubImm sf rd rn imm) = asm ''sub'' [RSP sf rd, RSP sf rn, num imm]"
| "int_text (SubsImm sf rd rn imm) =
     (if rd = 31 then asm ''cmp'' [RSP sf rn, num imm] else asm ''subs'' [R sf rd, RSP sf rn, num imm])"
| "int_text (CmpImm sf rn imm) = asm ''cmp'' [RSP sf rn, num imm]"
| "int_text (AndReg sf rd rn rm) = asm ''and'' [R sf rd, R sf rn, R sf rm]"
| "int_text (OrrReg sf rd rn rm) =
     (if rn = 31 then asm ''mov'' [R sf rd, R sf rm] else asm ''orr'' [R sf rd, R sf rn, R sf rm])"
| "int_text (EorReg sf rd rn rm) = asm ''eor'' [R sf rd, R sf rn, R sf rm]"
| "int_text (MvnReg sf rd rm) = asm ''mvn'' [R sf rd, R sf rm]"
| "int_text (TstReg sf rn rm) = asm ''tst'' [R sf rn, R sf rm]"
| "int_text (MovReg rd rm) = asm ''mov'' [R 1 rd, R 1 rm]"
| "int_text (MovRegW rd rm) = asm ''mov'' [R 0 rd, R 0 rm]"
| "int_text (Mul sf rd rn rm) = asm ''mul'' [R sf rd, R sf rn, R sf rm]"
| "int_text (Msub sf rd rn rm ra) =
     (if ra = 31 then asm ''mneg'' [R sf rd, R sf rn, R sf rm] else asm ''msub'' ([R sf rd, R sf rn, R sf rm] @ [R sf ra]))"
| "int_text (Sdiv sf rd rn rm) = asm ''sdiv'' [R sf rd, R sf rn, R sf rm]"
| "int_text (Udiv sf rd rn rm) = asm ''udiv'' [R sf rd, R sf rn, R sf rm]"
| "int_text (Lslv sf rd rn rm) = asm ''lsl'' [R sf rd, R sf rn, R sf rm]"
| "int_text (Lsrv sf rd rn rm) = asm ''lsr'' [R sf rd, R sf rn, R sf rm]"
| "int_text (Asrv sf rd rn rm) = asm ''asr'' [R sf rd, R sf rn, R sf rm]"
| "int_text (LslImm sf rd rn amt) =
     (if amt = 0 then asm ''lsr'' [R sf rd, R sf rn, num 0] else asm ''lsl'' [R sf rd, R sf rn, num amt])"
| "int_text (LsrImm sf rd rn amt) = asm ''lsr'' [R sf rd, R sf rn, num amt]"
| "int_text (AsrImm sf rd rn amt) = asm ''asr'' [R sf rd, R sf rn, num amt]"
| "int_text (Uxtb sf rd rn) = asm ''uxtb'' [R sf rd, R 0 rn]"
| "int_text (Uxth rd rn) = asm ''uxth'' [R 0 rd, R 0 rn]"
| "int_text (Sxtb rd rn) = asm ''sxtb'' [R 1 rd, R 0 rn]"
| "int_text (Sxth rd rn) = asm ''sxth'' [R 1 rd, R 0 rn]"
| "int_text (Sxtw rd rn) = asm ''sxtw'' [R 1 rd, R 0 rn]"
| "int_text (Cset rd cc) =
     (if cc < 14 then asm ''cset'' [R 1 rd, cond_name cc]
      else asm ''csinc'' [R 1 rd, R 1 31, R 1 31, cond_name (cc XOR 1)])"
| "int_text (Csel sf rd rn rm cc) = asm ''csel'' ([R sf rd, R sf rn, R sf rm] @ [cond_name cc])"
| "int_text (Movz sf rd imm hw) =
     (if imm = 0 \<and> hw \<noteq> 0 then asm ''movz'' [R sf rd, num 0, ''lsl #'' @ fmt_u (hw * 16)]
      else asm ''mov'' [R sf rd, ''#'' @ dec_of (unat (push_bit (unat hw * 16) (ucast imm :: u64)))])"
| "int_text (Movk sf rd imm hw) =
     (asm ''movk'' (R sf rd # (if hw = 0 then [num imm] else [num imm, ''lsl #'' @ fmt_u (hw * 16)])))"
| "int_text (Movn sf rd imm hw) =
     (asm ''movn'' (R sf rd # (if hw = 0 then [num imm] else [num imm, ''lsl #'' @ fmt_u (hw * 16)])))"

section \<open>Arithmetic\<close>

lemma add_sub_reg_emits:
  assumes "aligned e"
  shows "int_ok (AddReg sf rd rn rm) \<Longrightarrow> emits e (int_encode e (AddReg sf rd rn rm)) (int_text (AddReg sf rd rn rm))"
    "int_ok (SubReg sf rd rn rm) \<Longrightarrow> emits e (int_encode e (SubReg sf rd rn rm)) (int_text (SubReg sf rd rn rm))"
    "int_ok (AddRegShifted sf rd rn rm st amt) \<Longrightarrow> emits e (int_encode e (AddRegShifted sf rd rn rm st amt)) (int_text (AddRegShifted sf rd rn rm st amt))"
    "int_ok (SubRegShifted sf rd rn rm st amt) \<Longrightarrow> emits e (int_encode e (SubRegShifted sf rd rn rm st amt)) (int_text (SubRegShifted sf rd rn rm st amt))"
    "int_ok (SubsReg sf rd rn rm st amt) \<Longrightarrow> emits e (int_encode e (SubsReg sf rd rn rm st amt)) (int_text (SubsReg sf rd rn rm st amt))"
    "int_ok (CmpReg sf rn rm) \<Longrightarrow> emits e (int_encode e (CmpReg sf rn rm)) (int_text (CmpReg sf rn rm))"
  unfolding int_encode.simps aarch64_enc_add_reg_def aarch64_enc_sub_reg_def aarch64_enc_add_reg_shifted_def aarch64_enc_sub_reg_shifted_def aarch64_enc_subs_reg_def aarch64_enc_cmp_reg_def aarch64_add_sub_reg_shifted_def
  by (rule emits_add_sub_reg [OF assms]; simp add: enc_words dec_add_sub_reg_def texts; simp add: Let_def texts)+

lemma logical_emits:
  assumes "aligned e"
  shows "int_ok (AndReg sf rd rn rm) \<Longrightarrow> emits e (int_encode e (AndReg sf rd rn rm)) (int_text (AndReg sf rd rn rm))"
    "int_ok (OrrReg sf rd rn rm) \<Longrightarrow> emits e (int_encode e (OrrReg sf rd rn rm)) (int_text (OrrReg sf rd rn rm))"
    "int_ok (EorReg sf rd rn rm) \<Longrightarrow> emits e (int_encode e (EorReg sf rd rn rm)) (int_text (EorReg sf rd rn rm))"
    "int_ok (MvnReg sf rd rm) \<Longrightarrow> emits e (int_encode e (MvnReg sf rd rm)) (int_text (MvnReg sf rd rm))"
    "int_ok (TstReg sf rn rm) \<Longrightarrow> emits e (int_encode e (TstReg sf rn rm)) (int_text (TstReg sf rn rm))"
  unfolding int_encode.simps aarch64_enc_and_reg_def aarch64_enc_orr_reg_def aarch64_enc_eor_reg_def aarch64_enc_mvn_reg_def aarch64_enc_tst_reg_def aarch64_log_reg_def
  by (rule emits_logical_reg [OF assms]; simp add: enc_words dec_logical_reg_def texts; simp add: Let_def texts)+

lemma mov_reg_emits:
  assumes "aligned e"
  shows "int_ok (MovReg rd rm) \<Longrightarrow> emits e (int_encode e (MovReg rd rm)) (int_text (MovReg rd rm))"
    "int_ok (MovRegW rd rm) \<Longrightarrow> emits e (int_encode e (MovRegW rd rm)) (int_text (MovRegW rd rm))"
  unfolding int_encode.simps aarch64_enc_mov_reg_def aarch64_enc_mov_reg_w_def aarch64_enc_mov_reg_base_def
  by (rule emits_logical_reg [OF assms]; simp add: enc_words dec_logical_reg_def texts; simp add: Let_def texts)+

lemma dp3_emits:
  assumes "aligned e"
  shows "int_ok (Mul sf rd rn rm) \<Longrightarrow> emits e (int_encode e (Mul sf rd rn rm)) (int_text (Mul sf rd rn rm))"
    "int_ok (Msub sf rd rn rm ra) \<Longrightarrow> emits e (int_encode e (Msub sf rd rn rm ra)) (int_text (Msub sf rd rn rm ra))"
  unfolding int_encode.simps aarch64_enc_mul_def aarch64_enc_msub_def dp3_def A_XZR_def
  by (rule emits_dp3 [OF assms]; simp add: enc_words dec_dp3_def texts; simp add: Let_def texts)+

lemma dp2_emits:
  assumes "aligned e"
  shows "int_ok (Sdiv sf rd rn rm) \<Longrightarrow> emits e (int_encode e (Sdiv sf rd rn rm)) (int_text (Sdiv sf rd rn rm))"
    "int_ok (Udiv sf rd rn rm) \<Longrightarrow> emits e (int_encode e (Udiv sf rd rn rm)) (int_text (Udiv sf rd rn rm))"
    "int_ok (Lslv sf rd rn rm) \<Longrightarrow> emits e (int_encode e (Lslv sf rd rn rm)) (int_text (Lslv sf rd rn rm))"
    "int_ok (Lsrv sf rd rn rm) \<Longrightarrow> emits e (int_encode e (Lsrv sf rd rn rm)) (int_text (Lsrv sf rd rn rm))"
    "int_ok (Asrv sf rd rn rm) \<Longrightarrow> emits e (int_encode e (Asrv sf rd rn rm)) (int_text (Asrv sf rd rn rm))"
  unfolding int_encode.simps aarch64_enc_sdiv_def aarch64_enc_udiv_def aarch64_enc_lslv_def aarch64_enc_lsrv_def aarch64_enc_asrv_def aarch64_dp2_def
  by (rule emits_dp2 [OF assms]; simp add: enc_words dec_dp2_def texts; simp add: Let_def texts)+

lemma ext_emits:
  assumes "aligned e"
  shows "int_ok (Uxtb sf rd rn) \<Longrightarrow> emits e (int_encode e (Uxtb sf rd rn)) (int_text (Uxtb sf rd rn))"
    "int_ok (Uxth rd rn) \<Longrightarrow> emits e (int_encode e (Uxth rd rn)) (int_text (Uxth rd rn))"
    "int_ok (Sxtb rd rn) \<Longrightarrow> emits e (int_encode e (Sxtb rd rn)) (int_text (Sxtb rd rn))"
    "int_ok (Sxth rd rn) \<Longrightarrow> emits e (int_encode e (Sxth rd rn)) (int_text (Sxth rd rn))"
    "int_ok (Sxtw rd rn) \<Longrightarrow> emits e (int_encode e (Sxtw rd rn)) (int_text (Sxtw rd rn))"
  unfolding int_encode.simps aarch64_enc_uxtb_def aarch64_enc_uxth_def aarch64_enc_sxtb_def aarch64_enc_sxth_def aarch64_enc_sxtw_def aarch64_sxt_def
  by (rule emits_bfm [OF assms]; simp add: enc_words dec_bfm_def bfm_alias_def texts; simp add: Let_def texts)+

lemma csel_emits:
  assumes "aligned e"
  shows "int_ok (Csel sf rd rn rm cc) \<Longrightarrow> emits e (int_encode e (Csel sf rd rn rm cc)) (int_text (Csel sf rd rn rm cc))"
  unfolding int_encode.simps aarch64_enc_csel_def 
  by (rule emits_csel_family [OF assms]; simp add: enc_words dec_csel_family_def texts; simp add: Let_def texts)+


text \<open>\<^verbatim>\<open>neg\<close> is \<^verbatim>\<open>sub\<close> from the zero register.\<close>

lemma neg_emits:
  assumes "aligned e"
  shows "int_ok (NegReg sf rd rm) \<Longrightarrow> emits e (int_encode e (NegReg sf rd rm)) (int_text (NegReg sf rd rm))"
  using add_sub_reg_emits(2) [OF assms, of sf rd 31 rm] by (simp add: aarch64_enc_neg_reg_def A_XZR_def)

section \<open>Immediates\<close>

text \<open>The fields \<^verbatim>\<open>sh\<close> and \<^verbatim>\<open>imm12\<close> of an immediate, and the value they stand for.\<close>

definition imm_sh :: "u32 \<Rightarrow> u32" where
  "imm_sh imm = (if imm \<le> 0xFFF then 0 else 1)"

definition imm_12 :: "u32 \<Rightarrow> u32" where
  "imm_12 imm = (if imm \<le> 0xFFF then imm else drop_bit 12 imm)"

lemma imm_fields:
  assumes "arith_imm imm"
  shows "imm_sh imm < 2" "imm_12 imm < 4096"
    and "(if imm_sh imm \<noteq> 0 then push_bit 12 (imm_12 imm) else imm_12 imm) = imm"
proof -
  show "imm_sh imm < 2" by (simp add: imm_sh_def)
  have le: "imm \<le> 0xFFF \<longleftrightarrow> imm < 4096" by (simp add: word_le_nat_alt word_less_nat_alt) linarith
  show "imm_12 imm < 4096" using assms by (auto simp: imm_12_def arith_imm_def le)
  have "push_bit 12 (drop_bit 12 imm) = imm" if "imm AND 0xFFF = 0"
  proof (rule bit_word_eqI)
    fix n
    show "bit (push_bit 12 (drop_bit 12 imm)) n = bit imm n" if n: "n < LENGTH(32)"
    proof (cases "n < 12")
      case True
      have "\<not> bit (imm AND 0xFFF) n" using \<open>imm AND 0xFFF = 0\<close> by simp
      then show ?thesis using True by (simp add: and_masks bit_simps)
    qed (use n in \<open>simp add: bit_simps\<close>)
  qed
  then show "(if imm_sh imm \<noteq> 0 then push_bit 12 (imm_12 imm) else imm_12 imm) = imm"
    using assms by (auto simp: imm_sh_def imm_12_def arith_imm_def le)
qed

lemma add_sub_imm_word:
  assumes "arith_imm imm" "sf < 2" "rd < 32"
  shows "aarch64_add_sub_imm sf op rd rn imm =
     push_bit 31 sf OR push_bit 30 op OR push_bit 23 0x22 OR push_bit 22 (imm_sh imm) OR
     push_bit 10 (imm_12 imm) OR push_bit 5 rn OR rd"
  using assms imm_fields(2) [OF assms(1)]
  by (auto simp: aarch64_add_sub_imm_def imm_sh_def imm_12_def arith_imm_def and_masks in_range
      low_lt [where m = 12 and n = 12, simplified] word_le_nat_alt word_less_nat_alt Let_def)

lemmas imm12_range = low_lt [where m = 12, simplified] fld_hit_lt [where m = 12, simplified]
  fld_below_lt [where m = 12, simplified] and_field_lt [where m = 12, simplified]

lemma imm_emits:
  assumes al: "aligned e"
  shows add_imm_emits: "int_ok (AddImm sf rd rn imm) \<Longrightarrow>
      emits e (int_encode e (AddImm sf rd rn imm)) (int_text (AddImm sf rd rn imm))"
    and sub_imm_emits: "int_ok (SubImm sf rd rn imm) \<Longrightarrow>
      emits e (int_encode e (SubImm sf rd rn imm)) (int_text (SubImm sf rd rn imm))"
    and cmp_imm_emits: "int_ok (CmpImm sf rn imm) \<Longrightarrow>
      emits e (int_encode e (CmpImm sf rn imm)) (int_text (CmpImm sf rn imm))"
proof -
  assume ok: "int_ok (AddImm sf rd rn imm)"
  then have imm: "arith_imm imm" by simp
  show "emits e (int_encode e (AddImm sf rd rn imm)) (int_text (AddImm sf rd rn imm))"
    using ok imm_fields [OF imm] unfolding int_encode.simps aarch64_enc_add_imm_def
    by (simp add: add_sub_imm_word)
      (rule emits_add_sub_imm [OF al]; simp add: enc_words imm12_range dec_add_sub_imm_def texts sep_def)
next
  assume ok: "int_ok (SubImm sf rd rn imm)"
  then have imm: "arith_imm imm" by simp
  show "emits e (int_encode e (SubImm sf rd rn imm)) (int_text (SubImm sf rd rn imm))"
    using ok imm_fields [OF imm] unfolding int_encode.simps aarch64_enc_sub_imm_def
    by (simp add: add_sub_imm_word)
      (rule emits_add_sub_imm [OF al]; simp add: enc_words imm12_range dec_add_sub_imm_def texts sep_def)
next
  assume ok: "int_ok (CmpImm sf rn imm)"
  then have imm: "arith_imm imm" by simp
  have le: "0xFFF < imm \<longleftrightarrow> \<not> imm < 4096" by (simp add: word_less_nat_alt) linarith
  have "aarch64_enc_cmp_imm e sf rn imm =
      put_word e (push_bit 31 sf OR push_bit 30 1 OR push_bit 29 1 OR push_bit 23 0x22 OR
        push_bit 22 (imm_sh imm) OR push_bit 10 (imm_12 imm) OR push_bit 5 rn OR 0x1F)"
    using ok imm_fields(2) [OF imm]
    by (auto simp: aarch64_enc_cmp_imm_def le imm_sh_def imm_12_def arith_imm_def and_masks in_range imm12_range
        Let_def word_le_nat_alt word_less_nat_alt)
  then show "emits e (int_encode e (CmpImm sf rn imm)) (int_text (CmpImm sf rn imm))"
    using ok imm_fields [OF imm]
    by simp (rule emits_add_sub_imm [OF al]; simp add: enc_words imm12_range dec_add_sub_imm_def texts sep_def)
qed

lemma subs_imm_emits:
  assumes "aligned e"
  shows "int_ok (SubsImm sf rd rn imm) \<Longrightarrow>
    emits e (int_encode e (SubsImm sf rd rn imm)) (int_text (SubsImm sf rd rn imm))"
  unfolding int_encode.simps aarch64_enc_subs_imm_def
  by (rule emits_add_sub_imm [OF assms]; simp add: enc_words imm12_range dec_add_sub_imm_def texts sep_def)

lemmas imm16_range = low_lt [where m = 16, simplified] fld_hit_lt [where m = 16, simplified]
  fld_below_lt [where m = 16, simplified] and_field_lt [where m = 16, simplified]

lemma ucast_u16: "(ucast (ucast imm :: u16) :: u32) = low 16 imm"
  by (rule bit_word_eqI) (auto simp: bit_simps)

lemma mov_wide_emits:
  assumes "aligned e"
  shows "int_ok (Movz sf rd imm hw) \<Longrightarrow> emits e (int_encode e (Movz sf rd imm hw)) (int_text (Movz sf rd imm hw))"
    "int_ok (Movk sf rd imm hw) \<Longrightarrow> emits e (int_encode e (Movk sf rd imm hw)) (int_text (Movk sf rd imm hw))"
    "int_ok (Movn sf rd imm hw) \<Longrightarrow> emits e (int_encode e (Movn sf rd imm hw)) (int_text (Movn sf rd imm hw))"
  unfolding int_encode.simps aarch64_enc_movz_def aarch64_enc_movk_def aarch64_enc_movn_def
    aarch64_mov_wide_def ucast_u16
  by (rule emits_movz_movk_movn [OF assms];
      simp add: enc_words imm16_range dec_movz_movk_movn_def texts; simp add: Let_def texts sep_def)+

section \<open>Shifts by an immediate and conditions\<close>

text \<open>The two bitfield moves, \<^verbatim>\<open>opc\<close> 0 signed and 2 unsigned, at either width.\<close>

definition bfm_word :: "u32 \<Rightarrow> u32 \<Rightarrow> u32 \<Rightarrow> u32 \<Rightarrow> u32 \<Rightarrow> u32 \<Rightarrow> u32" where
  "bfm_word sf opc immr imms rd rn =
     push_bit 31 sf OR push_bit 29 opc OR push_bit 23 0x26 OR push_bit 22 sf OR push_bit 16 immr OR
     push_bit 10 imms OR push_bit 5 rn OR rd"

lemma bfm_emits:
  assumes "aligned e" "sf < 2" "opc < 4" "immr < 64" "imms < 64" "rd < 32" "rn < 32"
    and "opc \<noteq> 1" and ws: "ws = (if sf \<noteq> 0 then 64 else 32)" and na: "immr = 0 \<Longrightarrow> bfm_alias (opc = 0) sf imms = None"
  shows "imms = ws - 1 \<Longrightarrow>
      emits e (put_word e (bfm_word sf opc immr imms rd rn))
        (asm (if opc = 0 then ''asr'' else ''lsr'') [R sf rd, R sf rn, num immr])"
    and "imms \<noteq> ws - 1 \<Longrightarrow> opc \<noteq> 0 \<Longrightarrow> imms + 1 = immr \<Longrightarrow>
      emits e (put_word e (bfm_word sf opc immr imms rd rn))
        (asm ''lsl'' [R sf rd, R sf rn, num (ws - immr)])"
proof -
  define w where "w = bfm_word sf opc immr imms rd rn"
  have k: "w AND 0x1F800000 = 0x13000000"
    using assms(2-7) by (simp add: w_def bfm_word_def enc_words)
  have f: "fld w 31 1 = sf" "fld w 29 2 = opc" "fld w 16 6 = immr" "fld w 10 6 = imms"
    "fld w 5 5 = rn" "fld w 0 5 = rd"
    using assms(2-7) by (simp_all add: w_def bfm_word_def enc_words)
  have na2: "(if immr = 0 then bfm_alias (opc = 0) sf imms else None) = None"
    using na by simp
  note dec = dec_bfm_def [of w, unfolded Let_def f na2 ws [symmetric] if_not_P [OF assms(8)] option.case]
  show "emits e (put_word e (bfm_word sf opc immr imms rd rn))
      (asm (if opc = 0 then ''asr'' else ''lsr'') [R sf rd, R sf rn, num immr])"
    if "imms = ws - 1"
    unfolding w_def [symmetric]
    by (rule emits_bfm [OF assms(1) k]) (simp only: dec that if_True, simp add: texts sep_def)
  show "emits e (put_word e (bfm_word sf opc immr imms rd rn))
      (asm ''lsl'' [R sf rd, R sf rn, num (ws - immr)])"
    if "imms \<noteq> ws - 1" "opc \<noteq> 0" "imms + 1 = immr"
    unfolding w_def [symmetric]
    by (rule emits_bfm [OF assms(1) k])
      (simp only: dec that simp_thms if_False if_True, simp add: texts sep_def)
qed

text \<open>The fields of \<^verbatim>\<open>lsl\<close> by \<open>amt\<close>.\<close>

lemma lsl_fields:
  assumes "amt < ws" "ws = 32 \<or> ws = (64 :: u32)"
  shows "ws - 1 - amt < 64" "(ws - amt) AND (ws - 1) < 64"
    and "amt = 0 \<Longrightarrow> (ws - amt) AND (ws - 1) = 0"
    and "amt \<noteq> 0 \<Longrightarrow> (ws - amt) AND (ws - 1) = ws - amt"
    and "amt \<noteq> 0 \<Longrightarrow> ws - 1 - amt \<noteq> ws - 1"
proof -
  have lt: "ws - amt < ws" if "amt \<noteq> 0"
    using assms that by (elim disjE) (simp_all, unat_arith+)
  show "ws - 1 - amt < 64"
    using assms by (elim disjE) (simp_all, unat_arith+)
  show and_eq: "(ws - amt) AND (ws - 1) = ws - amt" if "amt \<noteq> 0"
    using lt [OF that] assms(2) by (elim disjE) (simp_all add: and_masks in_range)
  show "(ws - amt) AND (ws - 1) = 0" if "amt = 0" using assms(2) that by (elim disjE) simp_all
  then show "(ws - amt) AND (ws - 1) < 64"
    using and_eq lt assms(2) by (cases "amt = 0") (auto intro: less_le_trans)
  show "ws - 1 - amt \<noteq> ws - 1" if "amt \<noteq> 0" using that by simp
qed

lemma shift_words:
  assumes "sf < 2" "rd < 32" "rn < 32" "ws = (if sf \<noteq> 0 then 64 else 32)" "amt < ws"
  shows "aarch64_enc_lsr_imm e sf rd rn amt = put_word e (bfm_word sf 2 amt (ws - 1) rd rn)"
    and "aarch64_enc_asr_imm e sf rd rn amt = put_word e (bfm_word sf 0 amt (ws - 1) rd rn)"
    and "aarch64_enc_lsl_imm e sf rd rn amt =
      put_word e (bfm_word sf 2 ((ws - amt) AND (ws - 1)) (ws - 1 - amt) rd rn)"
proof -
  have ws: "ws = 32 \<or> ws = 64" using assms(4) by simp
  note f = lsl_fields(1,2) [OF assms(5) ws]
  have n: "\<not> ws \<le> amt" "amt < 64" using assms(5) ws by (auto intro: less_le_trans)
  have sf: "(sf = 0 \<and> ws = 32) \<or> (sf = 1 \<and> ws = 64)"
    using assms(1,4) by (cases "sf = 0") (auto, unat_arith)
  have m: "x AND 0x3F = x" if "x < 64" for x :: u32
    using that by (simp add: and_masks in_range)
  note words = bfm_word_def m and_masks in_range or.assoc [symmetric]
  show "aarch64_enc_lsr_imm e sf rd rn amt = put_word e (bfm_word sf 2 amt (ws - 1) rd rn)"
    using sf assms(2,3) n unfolding aarch64_enc_lsr_imm_def by (elim disjE conjE) (simp_all add: words Let_def)
  show "aarch64_enc_asr_imm e sf rd rn amt = put_word e (bfm_word sf 0 amt (ws - 1) rd rn)"
    using sf assms(2,3) n unfolding aarch64_enc_asr_imm_def by (elim disjE conjE) (simp_all add: words Let_def)
  show "aarch64_enc_lsl_imm e sf rd rn amt =
      put_word e (bfm_word sf 2 ((ws - amt) AND (ws - 1)) (ws - 1 - amt) rd rn)"
    using sf assms(2,3) n f unfolding aarch64_enc_lsl_imm_def by (elim disjE conjE) (simp_all add: words Let_def)
qed

lemma shift_imm_emits:
  assumes al: "aligned e"
  shows "int_ok (LsrImm sf rd rn amt) \<Longrightarrow> emits e (int_encode e (LsrImm sf rd rn amt)) (int_text (LsrImm sf rd rn amt))"
    and "int_ok (AsrImm sf rd rn amt) \<Longrightarrow> emits e (int_encode e (AsrImm sf rd rn amt)) (int_text (AsrImm sf rd rn amt))"
    and "int_ok (LslImm sf rd rn amt) \<Longrightarrow> emits e (int_encode e (LslImm sf rd rn amt)) (int_text (LslImm sf rd rn amt))"
proof -
  define ws :: u32 where ws: "ws = (if sf \<noteq> 0 then 64 else 32)"
  have ws': "ws = 32 \<or> ws = 64" by (simp add: ws)
  have na: "bfm_alias s sf (ws - 1) = None" for s
    by (simp add: bfm_alias_def ws)
  have ws1: "ws - 1 < 64" using ws' by auto
  have ok: "sf < 2 \<and> rd < 32 \<and> rn < 32 \<and> amt < ws \<and> amt < 64"
    if "int_ok (LsrImm sf rd rn amt) \<or> int_ok (AsrImm sf rd rn amt) \<or> int_ok (LslImm sf rd rn amt)"
    using that by (auto simp: ws intro: less_le_trans split: if_splits)
  note emit = bfm_emits [OF al _ _ _ _ _ _ _ ws, where rd = rd and rn = rn]
  have right: "emits e (put_word e (bfm_word sf opc k (ws - 1) rd rn))
      (asm (if opc = 0 then ''asr'' else ''lsr'') [R sf rd, R sf rn, num k])"
    if "opc = 0 \<or> opc = 2" "sf < 2" "rd < 32" "rn < 32" "k < 64" for opc k
    by (rule emit(1)) (use that ws1 na in auto)
  {
    assume "int_ok (LsrImm sf rd rn amt)"
    then have k: "sf < 2" "rd < 32" "rn < 32" "amt < ws" "amt < 64" using ok by blast+
    show "emits e (int_encode e (LsrImm sf rd rn amt)) (int_text (LsrImm sf rd rn amt))"
      using right [of 2 amt] k
      by (simp only: int_encode.simps int_text.simps shift_words(1) [OF k(1-3) ws k(4)]) simp
  next
    assume "int_ok (AsrImm sf rd rn amt)"
    then have k: "sf < 2" "rd < 32" "rn < 32" "amt < ws" "amt < 64" using ok by blast+
    show "emits e (int_encode e (AsrImm sf rd rn amt)) (int_text (AsrImm sf rd rn amt))"
      using right [of 0 amt] k
      by (simp only: int_encode.simps int_text.simps shift_words(2) [OF k(1-3) ws k(4)]) simp
  next
    assume "int_ok (LslImm sf rd rn amt)"
    then have k: "sf < 2" "rd < 32" "rn < 32" "amt < ws" using ok by blast+
    note f = lsl_fields [OF k(4) ws']
    show "emits e (int_encode e (LslImm sf rd rn amt)) (int_text (LslImm sf rd rn amt))"
    proof (cases "amt = 0")
      case True
      then show ?thesis
        using right [of 2 0] k f(3) shift_words(3) [OF k(1-3) ws k(4), of e] by simp
    next
      case False
      have g: "ws - 1 - amt + 1 = ws - amt" "ws - (ws - amt) = amt" "ws - amt \<noteq> 0" "ws - amt < 64"
        using f(2) f(4) [OF False] k(4) by auto
      have "emits e (put_word e (bfm_word sf 2 (ws - amt) (ws - 1 - amt) rd rn))
          (asm ''lsl'' [R sf rd, R sf rn, num (ws - (ws - amt))])"
        by (rule emit(2)) (use k f(1) f(5) [OF False] g in auto)
      then show ?thesis
        using False
        by (simp only: int_encode.simps int_text.simps shift_words(3) [OF k(1-3) ws k(4)] f(4) [OF False] g(2)) simp
    qed
  }
qed

text \<open>\<^verbatim>\<open>cset\<close> is encoded with the condition inverted, except that \<^verbatim>\<open>al\<close> and \<^verbatim>\<open>nv\<close> have no alias.\<close>

lemma cond_cases: "(cc :: u32) < 16 \<Longrightarrow> cc \<in> {0, 1, 2, 3, 4, 5, 6, 7, 8, 9, 10, 11, 12, 13, 14, 15}"
proof -
  assume "cc < 16"
  then have "unat cc \<in> set [0..<16]" by (simp add: word_less_nat_alt)
  then have "of_nat (unat cc) \<in> (of_nat ` set [0..<16] :: u32 set)" by (rule imageI)
  then show ?thesis by (simp add: upt_rec)
qed

lemma inverted_cond:
  assumes "(cc :: u32) < 16"
  shows "cc XOR 1 < 16" "(cc XOR 1) XOR 1 = cc" "(cc XOR 1) AND 0xE = 0xE \<longleftrightarrow> \<not> cc < 14"
  using cond_cases [OF assms] by auto

lemma cset_emits:
  assumes "aligned e"
  shows "int_ok (Cset rd cc) \<Longrightarrow> emits e (int_encode e (Cset rd cc)) (int_text (Cset rd cc))"
proof -
  assume ok: "int_ok (Cset rd cc)"
  then have "cc < 16" by simp
  then obtain c where c: "c = cc XOR 1" "c < 16" "c XOR 1 = cc" "c AND 0xE = 0xE \<longleftrightarrow> \<not> cc < 14"
    using inverted_cond by blast
  then show ?thesis
    unfolding int_encode.simps aarch64_enc_cset_def Let_def int_text.simps c(1) [symmetric]
    by (intro emits_csel_family [OF assms]) (use ok c(2-4) in \<open>simp_all add: enc_words dec_csel_family_def Let_def texts\<close>)
qed

text \<open>Every integer encoder, called as intended, emits the instruction it is named after.\<close>

lemma int_emits:
  assumes "aligned e" "int_ok i"
  shows "emits e (int_encode e i) (int_text i)"
  using assms(2)
  by (cases i) (simp_all only: add_sub_reg_emits [OF assms(1)] logical_emits [OF assms(1)]
      mov_reg_emits [OF assms(1)] dp3_emits [OF assms(1)] dp2_emits [OF assms(1)] ext_emits [OF assms(1)]
      csel_emits [OF assms(1)] neg_emits [OF assms(1)] imm_emits [OF assms(1)] subs_imm_emits [OF assms(1)]
      mov_wide_emits [OF assms(1)] shift_imm_emits [OF assms(1)] cset_emits [OF assms(1)])

end
