(* ===== verification/A64RoundMem.thy ===== *)
theory A64RoundMem
  imports A64RoundInt
begin

text \<open>
  Loads and stores: the encoders of \<^verbatim>\<open>enc_arm64.c\<close> for immediate, indexed, register-offset and
  pair addressing against the decoders of \<^verbatim>\<open>dis_arm64.c\<close>. The SIMD forms of the indexed and
  register-offset encoders have no decoder and are left out here.
\<close>

section \<open>Signed immediates\<close>

lemma sx_low:
  assumes "0 < n" "n < 32"
  shows "sx (low n w) n = signed_take_bit (n - 1) w"
proof (rule bit_word_eqI)
  fix j assume j: "j < LENGTH(32)"
  have m: "push_bit n 1 - 1 = (mask n :: u32)" by (simp add: mask_eq_exp_minus_1 push_bit_eq_mult)
  have t: "low n w AND push_bit (n - 1) 1 \<noteq> 0 \<longleftrightarrow> bit w (n - 1)"
  proof -
    have "low n w AND push_bit (n - 1) 1 = (if bit w (n - 1) then push_bit (n - 1) 1 else 0)"
      by (rule bit_word_eqI) (use assms in \<open>auto simp: bit_simps\<close>)
    then show ?thesis using assms by (auto simp: push_bit_eq_mult)
  qed
  show "bit (sx (low n w) n) j = bit (signed_take_bit (n - 1) w) j"
    unfolding sx_def t m using j assms by (cases "j = n - 1") (auto simp: bit_simps min_def)
qed

lemma sint_sx:
  assumes "0 < n" "n < 32" "- (2 ^ (n - 1)) \<le> i" "i < 2 ^ (n - 1)"
  shows "sint (sx (low n (word_of_int i)) n) = i"
proof -
  have "sint (signed_take_bit (n - 1) (word_of_int i :: u32)) = signed_take_bit (n - 1) i"
    by (rule bit_eqI) (use assms(1,2) in \<open>auto simp: bit_simps min_def\<close>)
  also have "\<dots> = i" using assms(3,4) by (rule signed_take_bit_int_eq_self)
  finally show ?thesis by (simp add: sx_low [OF assms(1,2)])
qed
lemmas sint_sx_imm =
  sint_sx [of 7, simplified] sint_sx [of 9, simplified] sint_sx [of 19, simplified] sint_sx [of 26, simplified]

section \<open>Addresses\<close>

definition num_d :: "int \<Rightarrow> string" where
  "num_d i = ''#'' @ fmt_d i"

definition mem_off :: "u32 \<Rightarrow> int \<Rightarrow> string" where
  "mem_off rn i = ''['' @ RSP 1 rn @ sep @ num_d i @ '']''"

definition mem_post :: "u32 \<Rightarrow> int \<Rightarrow> string" where
  "mem_post rn i = ''['' @ RSP 1 rn @ '']'' @ sep @ num_d i"

definition mem_pre :: "u32 \<Rightarrow> int \<Rightarrow> string" where
  "mem_pre rn i = mem_off rn i @ ''!''"

text \<open>The shift of a register offset is the logarithm of its scale.\<close>

definition mem_reg :: "u32 \<Rightarrow> u32 \<Rightarrow> int \<Rightarrow> string" where
  "mem_reg rn rm scale =
     ''['' @ RSP 1 rn @ sep @ R 1 rm @
     (if scale = 1 then [] else sep @ ''lsl #'' @ (if scale = 2 then ''1'' else if scale = 4 then ''2'' else ''3'')) @ '']''"

definition width_suffix :: "int \<Rightarrow> string" where
  "width_suffix width = (if width = 1 then ''b'' else if width = 2 then ''h'' else if width = 4 then ''w'' else [])"

definition scaled_name :: "bool \<Rightarrow> int \<Rightarrow> string" where
  "scaled_name load width = (if load then ''ldr'' else ''str'') @ (if width < 4 then width_suffix width else [])"

definition unscaled_name :: "bool \<Rightarrow> int \<Rightarrow> string" where
  "unscaled_name load width = (if load then ''ldur'' else ''stur'') @ (if width < 4 then width_suffix width else [])"

definition data_reg :: "int \<Rightarrow> u32 \<Rightarrow> string" where
  "data_reg width r = R (if width = 8 then 1 else 0) r"

definition simd_reg :: "int \<Rightarrow> u32 \<Rightarrow> string" where
  "simd_reg width r =
     (if width = 1 then ''b'' else if width = 2 then ''h'' else if width = 4 then ''s''
      else if width = 8 then ''d'' else ''q'') @ fmt_u r"

definition pair_reg :: "bool \<Rightarrow> int \<Rightarrow> u32 \<Rightarrow> string" where
  "pair_reg simd width r = (if simd then simd_reg width r else data_reg width r)"

text \<open>Modes of a pair: 0 offset, 1 pre-index, 2 post-index, 3 non-temporal.\<close>

definition pair_name :: "bool \<Rightarrow> int \<Rightarrow> string" where
  "pair_name load mode = (if mode = 3 then (if load then ''ldnp'' else ''stnp'') else (if load then ''ldp'' else ''stp''))"

definition mem_mode :: "int \<Rightarrow> u32 \<Rightarrow> int \<Rightarrow> string" where
  "mem_mode mode rn i = (if mode = 1 then mem_pre rn i else if mode = 2 then mem_post rn i else mem_off rn i)"

lemmas addresses = num_d_def mem_off_def mem_post_def mem_pre_def mem_reg_def width_suffix_def
  scaled_name_def unscaled_name_def data_reg_def simd_reg_def pair_reg_def pair_name_def mem_mode_def sep_def

section \<open>Instructions\<close>

datatype (plugins only: code) mem_insn =
    LdrImm u32 u32 u32
  | StrImm u32 u32 u32
  | Ldr32Gpr u32 u32 u32
  | Str32Gpr u32 u32 u32
  | LdrbImm u32 u32 u32
  | StrbImm u32 u32 u32
  | LdrhImm u32 u32 u32
  | StrhImm u32 u32 u32
  | Ldr32Imm u32 u32 u32
  | Str32Imm u32 u32 u32
  | LdrswImm u32 u32 u32
  | LdrsbImm bool u32 u32 u32
  | LdrshImm bool u32 u32 u32
  | Ldur int u32 u32 int
  | Stur int u32 u32 int
  | LdstUnscaled bool int u32 u32 int
  | LdstPost bool int u32 u32 int
  | LdstPre bool int u32 u32 int
  | LdstRegoff bool int bool u32 u32 u32
  | LdrsUnscaled int bool u32 u32 int
  | LdrsPost int bool u32 u32 int
  | LdrsPre int bool u32 u32 int
  | LdrsRegoff int bool bool u32 u32 u32
  | FpLdst bool int u32 u32 u32
  | LdstPair bool bool int int u32 u32 u32 int
  | StpPre u32 u32 u32 int
  | LdpPost u32 u32 u32 int

primrec mem_encode :: "asm_enc \<Rightarrow> mem_insn \<Rightarrow> asm_enc \<times> nat" where
  "mem_encode e (LdrImm rt rn off) = aarch64_enc_ldr_imm e rt rn off"
| "mem_encode e (StrImm rt rn off) = aarch64_enc_str_imm e rt rn off"
| "mem_encode e (Ldr32Gpr rt rn off) = aarch64_enc_ldr32_imm_gpr e rt rn off"
| "mem_encode e (Str32Gpr rt rn off) = aarch64_enc_str32_imm_gpr e rt rn off"
| "mem_encode e (LdrbImm rt rn off) = aarch64_enc_ldrb_imm e rt rn off"
| "mem_encode e (StrbImm rt rn off) = aarch64_enc_strb_imm e rt rn off"
| "mem_encode e (LdrhImm rt rn off) = aarch64_enc_ldrh_imm e rt rn off"
| "mem_encode e (StrhImm rt rn off) = aarch64_enc_strh_imm e rt rn off"
| "mem_encode e (Ldr32Imm rt rn off) = aarch64_enc_ldr32_imm e rt rn off"
| "mem_encode e (Str32Imm rt rn off) = aarch64_enc_str32_imm e rt rn off"
| "mem_encode e (LdrswImm rt rn off) = aarch64_enc_ldrsw_imm e rt rn off"
| "mem_encode e (LdrsbImm d rt rn off) = aarch64_enc_ldrsb_imm e d rt rn off"
| "mem_encode e (LdrshImm d rt rn off) = aarch64_enc_ldrsh_imm e d rt rn off"
| "mem_encode e (Ldur width rt rn simm) = aarch64_enc_ldur e width rt rn simm"
| "mem_encode e (Stur width rt rn simm) = aarch64_enc_stur e width rt rn simm"
| "mem_encode e (LdstUnscaled load width rt rn simm) = aarch64_enc_ldst_unscaled e 0 load width rt rn simm"
| "mem_encode e (LdstPost load width rt rn simm) = aarch64_enc_ldst_post e 0 load width rt rn simm"
| "mem_encode e (LdstPre load width rt rn simm) = aarch64_enc_ldst_pre e 0 load width rt rn simm"
| "mem_encode e (LdstRegoff load width scaled rt rn rm) = aarch64_enc_ldst_regoff e 0 load width scaled rt rn rm"
| "mem_encode e (LdrsUnscaled width d rt rn simm) = aarch64_ldrs_imm9_emit e width d 0 rt rn simm"
| "mem_encode e (LdrsPost width d rt rn simm) = aarch64_ldrs_imm9_emit e width d 1 rt rn simm"
| "mem_encode e (LdrsPre width d rt rn simm) = aarch64_ldrs_imm9_emit e width d 3 rt rn simm"
| "mem_encode e (LdrsRegoff width d scaled rt rn rm) = aarch64_ldrs_regoff_emit e width d scaled rt rn rm"
| "mem_encode e (FpLdst load width rt rn off) = aarch64_enc_fp_ldst_imm e load width rt rn off"
| "mem_encode e (LdstPair simd load width mode rt rt2 rn simm) =
     (fst (aarch64_enc_ldst_pair e (if simd then 1 else 0) (if load then 1 else 0) width mode rt rt2 rn simm),
      length (ae_bytes e))"
| "mem_encode e (StpPre rt rt2 rn simm) = aarch64_enc_stp_pre e rt rt2 rn simm"
| "mem_encode e (LdpPost rt rt2 rn simm) = aarch64_enc_ldp_post e rt rt2 rn simm"

primrec mem_ok :: "mem_insn \<Rightarrow> bool" where
  "mem_ok (LdrImm rt rn off) \<longleftrightarrow> rt < 32 \<and> rn < 32 \<and> off mod 8 = 0 \<and> off div 8 < 4096"
| "mem_ok (StrImm rt rn off) \<longleftrightarrow> rt < 32 \<and> rn < 32 \<and> off mod 8 = 0 \<and> off div 8 < 4096"
| "mem_ok (Ldr32Gpr rt rn off) \<longleftrightarrow> rt < 32 \<and> rn < 32 \<and> off mod 4 = 0 \<and> off div 4 < 4096"
| "mem_ok (Str32Gpr rt rn off) \<longleftrightarrow> rt < 32 \<and> rn < 32 \<and> off mod 4 = 0 \<and> off div 4 < 4096"
| "mem_ok (LdrbImm rt rn off) \<longleftrightarrow> rt < 32 \<and> rn < 32 \<and> off < 4096"
| "mem_ok (StrbImm rt rn off) \<longleftrightarrow> rt < 32 \<and> rn < 32 \<and> off < 4096"
| "mem_ok (LdrhImm rt rn off) \<longleftrightarrow> rt < 32 \<and> rn < 32 \<and> off mod 2 = 0 \<and> off div 2 < 4096"
| "mem_ok (StrhImm rt rn off) \<longleftrightarrow> rt < 32 \<and> rn < 32 \<and> off mod 2 = 0 \<and> off div 2 < 4096"
| "mem_ok (Ldr32Imm rt rn off) \<longleftrightarrow> rt < 32 \<and> rn < 32 \<and> off mod 4 = 0 \<and> off div 4 < 4096"
| "mem_ok (Str32Imm rt rn off) \<longleftrightarrow> rt < 32 \<and> rn < 32 \<and> off mod 4 = 0 \<and> off div 4 < 4096"
| "mem_ok (LdrswImm rt rn off) \<longleftrightarrow> rt < 32 \<and> rn < 32 \<and> off mod 4 = 0 \<and> off div 4 < 4096"
| "mem_ok (LdrsbImm d rt rn off) \<longleftrightarrow> rt < 32 \<and> rn < 32 \<and> off < 4096"
| "mem_ok (LdrshImm d rt rn off) \<longleftrightarrow> rt < 32 \<and> rn < 32 \<and> off mod 2 = 0 \<and> off div 2 < 4096"
| "mem_ok (Ldur width rt rn simm) \<longleftrightarrow> rt < 32 \<and> rn < 32 \<and> width \<in> {1, 2, 4, 8} \<and> - 256 \<le> simm \<and> simm < 256"
| "mem_ok (Stur width rt rn simm) \<longleftrightarrow> rt < 32 \<and> rn < 32 \<and> width \<in> {1, 2, 4, 8} \<and> - 256 \<le> simm \<and> simm < 256"
| "mem_ok (LdstUnscaled load width rt rn simm) \<longleftrightarrow> rt < 32 \<and> rn < 32 \<and> width \<in> {1, 2, 4, 8} \<and> - 256 \<le> simm \<and> simm < 256"
| "mem_ok (LdstPost load width rt rn simm) \<longleftrightarrow> rt < 32 \<and> rn < 32 \<and> width \<in> {1, 2, 4, 8} \<and> - 256 \<le> simm \<and> simm < 256"
| "mem_ok (LdstPre load width rt rn simm) \<longleftrightarrow> rt < 32 \<and> rn < 32 \<and> width \<in> {1, 2, 4, 8} \<and> - 256 \<le> simm \<and> simm < 256"
| "mem_ok (LdstRegoff load width scaled rt rn rm) \<longleftrightarrow> rt < 32 \<and> rn < 32 \<and> rm < 32 \<and> width \<in> {1, 2, 4, 8}"
| "mem_ok (LdrsUnscaled width d rt rn simm) \<longleftrightarrow> rt < 32 \<and> rn < 32 \<and> width \<in> {1, 2, 4} \<and> - 256 \<le> simm \<and> simm < 256"
| "mem_ok (LdrsPost width d rt rn simm) \<longleftrightarrow> rt < 32 \<and> rn < 32 \<and> width \<in> {1, 2, 4} \<and> - 256 \<le> simm \<and> simm < 256"
| "mem_ok (LdrsPre width d rt rn simm) \<longleftrightarrow> rt < 32 \<and> rn < 32 \<and> width \<in> {1, 2, 4} \<and> - 256 \<le> simm \<and> simm < 256"
| "mem_ok (LdrsRegoff width d scaled rt rn rm) \<longleftrightarrow> rt < 32 \<and> rn < 32 \<and> rm < 32 \<and> width \<in> {1, 2, 4}"
| "mem_ok (FpLdst load width rt rn off) \<longleftrightarrow> rt < 32 \<and> rn < 32 \<and> width \<in> {1, 2, 4, 8, 16} \<and> off mod word_of_int width = 0 \<and> off div word_of_int width < 4096"
| "mem_ok (LdstPair simd load width mode rt rt2 rn simm) \<longleftrightarrow> rt < 32 \<and> rn < 32 \<and> rt2 < 32 \<and> mode \<in> {0, 1, 2, 3} \<and> (if simd then width \<in> {4, 8, 16} else width \<in> {4, 8}) \<and>
     simm mod width = 0 \<and> - 64 * width \<le> simm \<and> simm < 64 * width"
| "mem_ok (StpPre rt rt2 rn simm) \<longleftrightarrow> rt < 32 \<and> rn < 32 \<and> rt2 < 32 \<and> simm mod 8 = 0 \<and> - 512 \<le> simm \<and> simm < 512"
| "mem_ok (LdpPost rt rt2 rn simm) \<longleftrightarrow> rt < 32 \<and> rn < 32 \<and> rt2 < 32 \<and> simm mod 8 = 0 \<and> - 512 \<le> simm \<and> simm < 512"

primrec mem_text :: "mem_insn \<Rightarrow> string" where
  "mem_text (LdrImm rt rn off) = asm ''ldr'' [R 1 rt, mem_uoff (RSP 1 rn) off]"
| "mem_text (StrImm rt rn off) = asm ''str'' [R 1 rt, mem_uoff (RSP 1 rn) off]"
| "mem_text (Ldr32Gpr rt rn off) = asm ''ldr'' [R 0 rt, mem_uoff (RSP 1 rn) off]"
| "mem_text (Str32Gpr rt rn off) = asm ''str'' [R 0 rt, mem_uoff (RSP 1 rn) off]"
| "mem_text (LdrbImm rt rn off) = asm ''ldrb'' [R 0 rt, mem_uoff (RSP 1 rn) off]"
| "mem_text (StrbImm rt rn off) = asm ''strb'' [R 0 rt, mem_uoff (RSP 1 rn) off]"
| "mem_text (LdrhImm rt rn off) = asm ''ldrh'' [R 0 rt, mem_uoff (RSP 1 rn) off]"
| "mem_text (StrhImm rt rn off) = asm ''strh'' [R 0 rt, mem_uoff (RSP 1 rn) off]"
| "mem_text (Ldr32Imm rt rn off) = asm ''ldr'' [R 0 rt, mem_uoff (RSP 1 rn) off]"
| "mem_text (Str32Imm rt rn off) = asm ''str'' [R 0 rt, mem_uoff (RSP 1 rn) off]"
| "mem_text (LdrswImm rt rn off) = asm ''ldrsw'' [R 1 rt, mem_uoff (RSP 1 rn) off]"
| "mem_text (LdrsbImm d rt rn off) = asm ''ldrsb'' [R (if d then 1 else 0) rt, mem_uoff (RSP 1 rn) off]"
| "mem_text (LdrshImm d rt rn off) = asm ''ldrsh'' [R (if d then 1 else 0) rt, mem_uoff (RSP 1 rn) off]"
| "mem_text (Ldur width rt rn simm) = asm (unscaled_name True width) [data_reg width rt, mem_off rn simm]"
| "mem_text (Stur width rt rn simm) = asm (unscaled_name False width) [data_reg width rt, mem_off rn simm]"
| "mem_text (LdstUnscaled load width rt rn simm) = asm (unscaled_name load width) [data_reg width rt, mem_off rn simm]"
| "mem_text (LdstPost load width rt rn simm) = asm (scaled_name load width) [data_reg width rt, mem_post rn simm]"
| "mem_text (LdstPre load width rt rn simm) = asm (scaled_name load width) [data_reg width rt, mem_pre rn simm]"
| "mem_text (LdstRegoff load width scaled rt rn rm) = asm (scaled_name load width) [data_reg width rt, mem_reg rn rm (if scaled then width else 1)]"
| "mem_text (LdrsUnscaled width d rt rn simm) = asm (''ldurs'' @ width_suffix width) [R (if d then 1 else 0) rt, mem_off rn simm]"
| "mem_text (LdrsPost width d rt rn simm) = asm (''ldrs'' @ width_suffix width) [R (if d then 1 else 0) rt, mem_post rn simm]"
| "mem_text (LdrsPre width d rt rn simm) = asm (''ldrs'' @ width_suffix width) [R (if d then 1 else 0) rt, mem_pre rn simm]"
| "mem_text (LdrsRegoff width d scaled rt rn rm) = asm (''ldrs'' @ width_suffix width) [R (if d then 1 else 0) rt, mem_reg rn rm (if scaled then width else 1)]"
| "mem_text (FpLdst load width rt rn off) = asm (if load then ''ldr'' else ''str'') [simd_reg width rt, mem_uoff (RSP 1 rn) off]"
| "mem_text (LdstPair simd load width mode rt rt2 rn simm) = asm (pair_name load mode) [pair_reg simd width rt, pair_reg simd width rt2, mem_mode mode rn simm]"
| "mem_text (StpPre rt rt2 rn simm) = asm ''stp'' [R 1 rt, R 1 rt2, mem_pre rn simm]"
| "mem_text (LdpPost rt rt2 rn simm) = asm ''ldp'' [R 1 rt, R 1 rt2, mem_post rn simm]"

section \<open>Unsigned offsets\<close>

lemma emits_ldst_uimm:
  assumes "aligned e" "w AND 0x3F000000 = 0x39000000" "w AND 0xFFC00000 \<noteq> 0xF9800000" "dec_ldst_uimm w = Some s"
  shows "emits e (put_word e w) s"
  by (rule emits_put_word [OF assms(1)])
    (simp add: dis_loop_decoder [OF _ assms(2,3)] main_patterns_list assms(4))

text \<open>A scaled offset is the offset it was made from.\<close>

lemma scaled_off:
  fixes off :: u32
  shows "off mod 2 = 0 \<Longrightarrow> push_bit 1 (off div 2) = off" "off mod 4 = 0 \<Longrightarrow> push_bit 2 (off div 4) = off"
    "off mod 8 = 0 \<Longrightarrow> push_bit 3 (off div 8) = off" "off mod 16 = 0 \<Longrightarrow> push_bit 4 (off div 16) = off"
  using div_mult_mod_eq [of off 2] div_mult_mod_eq [of off 4] div_mult_mod_eq [of off 8]
    div_mult_mod_eq [of off 16]
  by (simp_all add: push_bit_eq_mult mult.commute)

lemma small_le: "\<not> (2 :: u32) \<le> 1" "\<not> (2 :: u32) \<le> 0"
  by (simp_all add: word_le_nat_alt)

lemma ldst_uimm_emits:
  assumes "aligned e"
  shows "mem_ok (LdrImm rt rn off) \<Longrightarrow>
      emits e (mem_encode e (LdrImm rt rn off)) (mem_text (LdrImm rt rn off))"
    "mem_ok (StrImm rt rn off) \<Longrightarrow>
      emits e (mem_encode e (StrImm rt rn off)) (mem_text (StrImm rt rn off))"
    "mem_ok (Ldr32Gpr rt rn off) \<Longrightarrow>
      emits e (mem_encode e (Ldr32Gpr rt rn off)) (mem_text (Ldr32Gpr rt rn off))"
    "mem_ok (Str32Gpr rt rn off) \<Longrightarrow>
      emits e (mem_encode e (Str32Gpr rt rn off)) (mem_text (Str32Gpr rt rn off))"
    "mem_ok (LdrbImm rt rn off) \<Longrightarrow>
      emits e (mem_encode e (LdrbImm rt rn off)) (mem_text (LdrbImm rt rn off))"
    "mem_ok (StrbImm rt rn off) \<Longrightarrow>
      emits e (mem_encode e (StrbImm rt rn off)) (mem_text (StrbImm rt rn off))"
    "mem_ok (LdrhImm rt rn off) \<Longrightarrow>
      emits e (mem_encode e (LdrhImm rt rn off)) (mem_text (LdrhImm rt rn off))"
    "mem_ok (StrhImm rt rn off) \<Longrightarrow>
      emits e (mem_encode e (StrhImm rt rn off)) (mem_text (StrhImm rt rn off))"
    "mem_ok (Ldr32Imm rt rn off) \<Longrightarrow>
      emits e (mem_encode e (Ldr32Imm rt rn off)) (mem_text (Ldr32Imm rt rn off))"
    "mem_ok (Str32Imm rt rn off) \<Longrightarrow>
      emits e (mem_encode e (Str32Imm rt rn off)) (mem_text (Str32Imm rt rn off))"
    "mem_ok (LdrswImm rt rn off) \<Longrightarrow>
      emits e (mem_encode e (LdrswImm rt rn off)) (mem_text (LdrswImm rt rn off))"
    "mem_ok (LdrsbImm d rt rn off) \<Longrightarrow>
      emits e (mem_encode e (LdrsbImm d rt rn off)) (mem_text (LdrsbImm d rt rn off))"
    "mem_ok (LdrshImm d rt rn off) \<Longrightarrow>
      emits e (mem_encode e (LdrshImm d rt rn off)) (mem_text (LdrshImm d rt rn off))"
  unfolding mem_encode.simps aarch64_enc_ldr_imm_def aarch64_enc_str_imm_def aarch64_enc_ldr32_imm_gpr_def aarch64_enc_str32_imm_gpr_def aarch64_enc_ldrb_imm_def aarch64_enc_strb_imm_def aarch64_enc_ldrh_imm_def aarch64_enc_strh_imm_def aarch64_enc_ldr32_imm_def aarch64_enc_str32_imm_def aarch64_enc_ldrsw_imm_def aarch64_enc_ldrsb_imm_def aarch64_enc_ldrsh_imm_def
    aarch64_ldst_uimm_def ldst_sub_def Let_def
  by (rule emits_ldst_uimm [OF assms];
      simp add: enc_words imm12_range scaled_off scaled_off [simplified] small_le dec_ldst_uimm_def ldst_mn_def sized_mn_def texts sep_def)+

section \<open>Indexed and register offsets\<close>

lemma ldur_emits:
  assumes "aligned e"
  shows "mem_ok (Ldur width rt rn simm) \<Longrightarrow>
      emits e (mem_encode e (Ldur width rt rn simm)) (mem_text (Ldur width rt rn simm))"
    "mem_ok (Stur width rt rn simm) \<Longrightarrow>
      emits e (mem_encode e (Stur width rt rn simm)) (mem_text (Stur width rt rn simm))"
  unfolding mem_encode.simps aarch64_enc_ldur_def aarch64_enc_stur_def
    aarch64_fp_or_gpr_ldst_idx_def ldst_size_opc_def ldur_stur_def aarch64_size_for_width_def Let_def and_masks
  by (clarsimp; elim disjE; clarsimp; rule emits_ldst_imm9_unscaled [OF assms]; simp add: enc_words sint_sx_imm dec_ldst_imm9_def ldst_mn_def sized_mn_def unscaled_mn_def texts addresses;
      simp add: Let_def texts addresses)+

lemma unscaled_emits:
  assumes "aligned e"
  shows "mem_ok (LdstUnscaled load width rt rn simm) \<Longrightarrow>
      emits e (mem_encode e (LdstUnscaled load width rt rn simm)) (mem_text (LdstUnscaled load width rt rn simm))"
  unfolding mem_encode.simps aarch64_enc_ldst_unscaled_def
    aarch64_fp_or_gpr_ldst_idx_def ldst_size_opc_def ldur_stur_def aarch64_size_for_width_def Let_def and_masks
  by (cases load; clarsimp; elim disjE; clarsimp; rule emits_ldst_imm9_unscaled [OF assms]; simp add: enc_words sint_sx_imm dec_ldst_imm9_def ldst_mn_def sized_mn_def unscaled_mn_def texts addresses;
      simp add: Let_def texts addresses)+

lemma ldrs_unscaled_emits:
  assumes "aligned e"
  shows "mem_ok (LdrsUnscaled width d rt rn simm) \<Longrightarrow>
      emits e (mem_encode e (LdrsUnscaled width d rt rn simm)) (mem_text (LdrsUnscaled width d rt rn simm))"
  unfolding mem_encode.simps aarch64_ldrs_imm9_emit_def
    aarch64_fp_or_gpr_ldst_idx_def ldst_size_opc_def ldur_stur_def aarch64_size_for_width_def Let_def and_masks
  by (cases d; clarsimp; elim disjE; clarsimp; rule emits_ldst_imm9_unscaled [OF assms]; simp add: enc_words sint_sx_imm dec_ldst_imm9_def ldst_mn_def sized_mn_def unscaled_mn_def texts addresses;
      simp add: Let_def texts addresses)+

lemma indexed_emits:
  assumes "aligned e"
  shows "mem_ok (LdstPost load width rt rn simm) \<Longrightarrow>
      emits e (mem_encode e (LdstPost load width rt rn simm)) (mem_text (LdstPost load width rt rn simm))"
    "mem_ok (LdstPre load width rt rn simm) \<Longrightarrow>
      emits e (mem_encode e (LdstPre load width rt rn simm)) (mem_text (LdstPre load width rt rn simm))"
  unfolding mem_encode.simps aarch64_enc_ldst_post_def aarch64_enc_ldst_pre_def
    aarch64_fp_or_gpr_ldst_idx_def ldst_size_opc_def ldur_stur_def aarch64_size_for_width_def Let_def and_masks
  by (cases load; clarsimp; elim disjE; clarsimp; rule emits_ldst_imm9 [OF assms]; simp add: enc_words sint_sx_imm dec_ldst_imm9_def ldst_mn_def sized_mn_def unscaled_mn_def texts addresses;
      simp add: Let_def texts addresses)+

lemma ldrs_indexed_emits:
  assumes "aligned e"
  shows "mem_ok (LdrsPost width d rt rn simm) \<Longrightarrow>
      emits e (mem_encode e (LdrsPost width d rt rn simm)) (mem_text (LdrsPost width d rt rn simm))"
    "mem_ok (LdrsPre width d rt rn simm) \<Longrightarrow>
      emits e (mem_encode e (LdrsPre width d rt rn simm)) (mem_text (LdrsPre width d rt rn simm))"
  unfolding mem_encode.simps aarch64_ldrs_imm9_emit_def
    aarch64_fp_or_gpr_ldst_idx_def ldst_size_opc_def ldur_stur_def aarch64_size_for_width_def Let_def and_masks
  by (cases d; clarsimp; elim disjE; clarsimp; rule emits_ldst_imm9 [OF assms]; simp add: enc_words sint_sx_imm dec_ldst_imm9_def ldst_mn_def sized_mn_def unscaled_mn_def texts addresses;
      simp add: Let_def texts addresses)+

lemma low_numerals: "low (Suc 0) (numeral k) = take_bit 1 (numeral k)"
  by (simp add: low_def)

lemma fmt_digits: "fmt_u 1 = ''1''" "fmt_u 2 = ''2''" "fmt_u 3 = ''3''"
  by (simp_all add: fmt_u_def dec_of.simps dec_digit_def)

lemma regoff_emits:
  assumes "aligned e"
  shows "mem_ok (LdstRegoff load width scaled rt rn rm) \<Longrightarrow>
      emits e (mem_encode e (LdstRegoff load width scaled rt rn rm)) (mem_text (LdstRegoff load width scaled rt rn rm))"
  unfolding mem_encode.simps aarch64_enc_ldst_regoff_def ldst_size_opc_def Let_def and_masks
  by (cases load; cases scaled; clarsimp; elim disjE; clarsimp; rule emits_ldst_regoff [OF assms];
      simp add: enc_words small_le dec_ldst_regoff_def ldst_mn_def sized_mn_def ext_names_def texts addresses fmt_digits low_numerals)

lemma ldrs_regoff_emits:
  assumes "aligned e"
  shows "mem_ok (LdrsRegoff width d scaled rt rn rm) \<Longrightarrow>
      emits e (mem_encode e (LdrsRegoff width d scaled rt rn rm)) (mem_text (LdrsRegoff width d scaled rt rn rm))"
  unfolding mem_encode.simps aarch64_ldrs_regoff_emit_def ldst_size_opc_def Let_def and_masks
  by (cases d; cases scaled; clarsimp; elim disjE; clarsimp; rule emits_ldst_regoff [OF assms];
      simp add: enc_words small_le dec_ldst_regoff_def ldst_mn_def sized_mn_def ext_names_def texts addresses fmt_digits low_numerals)

section \<open>Floating-point registers and pairs\<close>

lemma scaled_mult:
  fixes off :: u32
  shows "off mod k = 0 \<Longrightarrow> off div k * k = off"
  using div_mult_mod_eq [of off k] by simp

lemma fp_ldst_emits:
  assumes "aligned e"
  shows "mem_ok (FpLdst load width rt rn off) \<Longrightarrow>
      emits e (mem_encode e (FpLdst load width rt rn off)) (mem_text (FpLdst load width rt rn off))"
  unfolding mem_encode.simps aarch64_enc_fp_ldst_imm_def fp_ldst_size_def Let_def and_masks
  by (cases load; simp only: mem_ok.simps insert_iff empty_iff simp_thms; elim conjE disjE; simp;
      rule emits_fp_ldst_uimm [OF assms];
      simp add: enc_words imm12_range scaled_mult [of off 2] scaled_mult [of off 4] scaled_mult [of off 8]
        scaled_mult [of off 16] low_numerals dec_fp_ldst_uimm_def texts addresses)

lemma sdiv_exact: "0 < w \<Longrightarrow> (w * q) sdiv w = (q :: int)" "0 < w \<Longrightarrow> (w * q) smod w = (0 :: int)"
  by (simp_all add: signed_modulo_int_def signed_divide_int_def sgn_mult abs_mult mult_sgn_abs)

text \<open>The word of a pair with a scaled offset \<open>q\<close>, and its text.\<close>

lemma pair_emits:
  assumes "aligned e" "rt < 32" "rt2 < 32" "rn < 32" "- 64 \<le> q" "q < 64"
    and "mode \<in> {0, 1, 2, 3}" "pair_opc_scale simd width = Some (opc, scale)" "pair_mode_bits mode = Some mb"
  shows "emits e (aarch64_ldp_stp_imm e opc (if simd then 1 else 0) mb (if load then 1 else 0) rt rt2 rn q)
     (asm (pair_name load mode) [pair_reg simd width rt, pair_reg simd width rt2, mem_mode mode rn (q * scale)])"
proof -
  define w where "w = push_bit 30 opc OR push_bit 27 5 OR push_bit 26 (if simd then 1 else 0) OR push_bit 23 mb OR
    push_bit 22 (if load then 1 else 0) OR push_bit 15 (low 7 (word_of_int q)) OR push_bit 10 rt2 OR
    push_bit 5 rn OR rt"
  have b: "opc < 4" "mb < 4"
    using assms(7-9) by (auto simp: pair_opc_scale_def pair_mode_bits_def split: if_splits)
  have e: "aarch64_ldp_stp_imm e opc (if simd then 1 else 0) mb (if load then 1 else 0) rt rt2 rn q = put_word e w"
    using assms(2-4) by (simp add: aarch64_ldp_stp_imm_def w_def and_masks in_range)
  have k: "w AND 0x3A000000 = 0x28000000"
    using assms(2-4) b by (simp add: w_def enc_words)
  have f: "fld w 30 2 = opc" "fld w 26 1 = (if simd then 1 else 0)" "fld w 23 2 = mb"
    "fld w 22 1 = (if load then 1 else 0)" "fld w 15 7 = low 7 (word_of_int q)" "fld w 10 5 = rt2"
    "fld w 5 5 = rn" "fld w 0 5 = rt"
    using assms(2-4) b by (simp_all add: w_def enc_words)
  have q: "sint (sx (low 7 (word_of_int q)) 7) = q" using assms(5,6) by (simp add: sint_sx_imm)
  show ?thesis
    unfolding e
  proof (rule emits_ldp_stp [OF assms(1) k])
    show "dec_ldp_stp w = Some (asm (pair_name load mode)
        [pair_reg simd width rt, pair_reg simd width rt2, mem_mode mode rn (q * scale)])"
      using assms(7-9) unfolding dec_ldp_stp_def [of w, unfolded Let_def f q] pair_opc_scale_def pair_mode_bits_def
      by (cases simd; cases load; clarsimp split: if_split_asm; simp add: texts addresses)
  qed
qed

lemma ldst_pair_emits:
  assumes "aligned e"
  shows "mem_ok (LdstPair simd load width mode rt rt2 rn simm) \<Longrightarrow>
      emits e (mem_encode e (LdstPair simd load width mode rt rt2 rn simm)) (mem_text (LdstPair simd load width mode rt rt2 rn simm))"
proof -
  assume ok: "mem_ok (LdstPair simd load width mode rt rt2 rn simm)"
  then have w: "0 < width" by (auto split: if_splits)
  have "width dvd simm" using ok by (auto simp: mod_eq_0_iff_dvd)
  then obtain q where q: "simm = width * q" by (rule dvdE)
  have "- 64 \<le> q" "q < 64"
  proof -
    have "width * (- 64) \<le> width * q" "width * q < width * 64" using ok q by (auto simp: algebra_simps)
    then show "- 64 \<le> q" "q < 64" using w by (simp_all only: mult_le_cancel_left_pos mult_less_cancel_left_pos)
  qed
  moreover obtain opc where opc: "pair_opc_scale simd width = Some (opc, width)"
    using ok by (auto simp: pair_opc_scale_def split: if_splits)
  moreover obtain mb where mb: "pair_mode_bits mode = Some mb"
    using ok by (auto simp: pair_mode_bits_def)
  ultimately show ?thesis
    using pair_emits [OF assms, of rt rt2 rn q mode simd width opc width mb load] ok w
    by (cases simd; cases load)
      (simp_all add: aarch64_enc_ldst_pair_def q sdiv_exact mult.commute [of q] aarch64_ldp_stp_imm_def emits_def
        put_word_bytes)
qed

text \<open>The two encoders used for prologues are pair encoders at 64 bits.\<close>

lemma stp_ldp_pair:
  assumes "rt2 < 32" "rn < 32" "simm mod 8 = 0" "- 512 \<le> simm" "simm < 512"
  shows "aarch64_enc_stp_pre e rt rt2 rn simm =
      (fst (aarch64_enc_ldst_pair e 0 0 8 1 rt rt2 rn simm), length (ae_bytes e))"
    "aarch64_enc_ldp_post e rt rt2 rn simm =
      (fst (aarch64_enc_ldst_pair e 0 1 8 2 rt rt2 rn simm), length (ae_bytes e))"
proof -
  obtain q where q: "simm = 8 * q" using assms(3) by (auto simp: mod_eq_0_iff_dvd)
  then have "- 64 \<le> q" "q < 64" using assms(4,5) by auto
  then show "aarch64_enc_stp_pre e rt rt2 rn simm =
      (fst (aarch64_enc_ldst_pair e 0 0 8 1 rt rt2 rn simm), length (ae_bytes e))"
    "aarch64_enc_ldp_post e rt rt2 rn simm =
      (fst (aarch64_enc_ldst_pair e 0 1 8 2 rt rt2 rn simm), length (ae_bytes e))"
    using assms(1,2)
    by (simp_all add: aarch64_enc_stp_pre_def aarch64_enc_ldp_post_def aarch64_ldp_stp_def
        aarch64_enc_ldst_pair_def pair_opc_scale_def pair_mode_bits_def aarch64_ldp_stp_imm_def Let_def
        and_masks in_range q sdiv_exact put_word_def)
qed

lemma stp_ldp_emits:
  assumes "aligned e"
  shows "mem_ok (StpPre rt rt2 rn simm) \<Longrightarrow>
      emits e (mem_encode e (StpPre rt rt2 rn simm)) (mem_text (StpPre rt rt2 rn simm))"
    "mem_ok (LdpPost rt rt2 rn simm) \<Longrightarrow>
      emits e (mem_encode e (LdpPost rt rt2 rn simm)) (mem_text (LdpPost rt rt2 rn simm))"
  using ldst_pair_emits [OF assms, of False False 8 1 rt rt2 rn simm]
    ldst_pair_emits [OF assms, of False True 8 2 rt rt2 rn simm]
  by (simp_all add: stp_ldp_pair pair_name_def pair_reg_def data_reg_def mem_mode_def)

text \<open>Every load and store encoder, called as intended, emits the instruction it is named after.\<close>

lemma mem_emits:
  assumes "aligned e" "mem_ok i"
  shows "emits e (mem_encode e i) (mem_text i)"
  using assms(2)
  by (cases i) (simp_all only: ldst_uimm_emits [OF assms(1)] ldur_emits [OF assms(1)] unscaled_emits [OF assms(1)]
      ldrs_unscaled_emits [OF assms(1)] indexed_emits [OF assms(1)] ldrs_indexed_emits [OF assms(1)]
      regoff_emits [OF assms(1)] ldrs_regoff_emits [OF assms(1)] fp_ldst_emits [OF assms(1)]
      ldst_pair_emits [OF assms(1)] stp_ldp_emits [OF assms(1)])

end
