(* ===== verification/A64RoundFp.thy ===== *)
theory A64RoundFp
  imports A64RoundInt
begin

text \<open>
  Floating-point and vector instructions: the scalar, conversion, \<^verbatim>\<open>fmov\<close>, three-same vector and
  BF16 encoders of \<^verbatim>\<open>enc_arm64.c\<close> against the decoders of \<^verbatim>\<open>dis_arm64.c\<close>.
\<close>

section \<open>Instructions\<close>

text \<open>A scalar register, double or single.\<close>

definition F :: "bool \<Rightarrow> u32 \<Rightarrow> string" where
  "F dbl r = (if dbl then ''d'' else ''s'') @ fmt_u r"

definition fp_2src_name :: "u32 \<Rightarrow> string" where
  "fp_2src_name op4 =
     [''fmul'', ''fdiv'', ''fadd'', ''fsub'', ''fmax'', ''fmin'', ''fmaxnm'', ''fminnm'', ''fnmul''] ! unat op4"

lemmas fp_texts = F_def fp_2src_name_def fp_reg_name_def fp_reg_letter_def asm_def R_def sep_def

datatype (plugins only: code) fp_insn =
    Fp2src bool u32 u32 u32 u32
  | Fneg bool u32 u32
  | Fp1src bool u32 u32 u32
  | FmovReg bool u32 u32
  | FmovRegH u32 u32
  | FcvtNarrow u32 u32
  | FcvtWiden u32 u32
  | Bfcvt u32 u32
  | FcmpReg2 bool u32 u32
  | FcmpZero bool u32
  | Fcmp bool u32 u32 u32 u32
  | Fcvtzs u32 bool u32 u32
  | Fcvtzu u32 bool u32 u32
  | Scvtf u32 bool u32 u32
  | Ucvtf u32 bool u32 u32
  | FpToInt u32 bool u32 u32 u32
  | IntToFp u32 bool u32 u32 u32
  | FmovGpr bool bool u32 u32
  | FmovHGpr bool u32 u32
  | FmovImm bool u32 u8
  | Fp3same u32 u32 u32 u32 u32 u32 u32 u32
  | BfdotVec u32 u32 u32 u32
  | BfdotIdx u32 u32 u32 u32 u32
  | Bfmlalb u32 u32 u32
  | Bfmlalt u32 u32 u32
  | Bfcvtn u32 u32 u32

primrec fp_encode :: "asm_enc \<Rightarrow> fp_insn \<Rightarrow> asm_enc \<times> nat" where
  "fp_encode e (Fp2src dbl op4 rd rn rm) = aarch64_enc_fp_2src_scalar e dbl op4 rd rn rm"
| "fp_encode e (Fneg dbl rd rn) = aarch64_enc_fneg_scalar e dbl rd rn"
| "fp_encode e (Fp1src dbl op6 rd rn) = aarch64_enc_fp_1src e dbl op6 rd rn"
| "fp_encode e (FmovReg dbl rd rn) = aarch64_enc_fmov_reg e dbl rd rn"
| "fp_encode e (FmovRegH rd rn) = aarch64_enc_fmov_reg_h e rd rn"
| "fp_encode e (FcvtNarrow rd rn) = aarch64_enc_fcvt_narrow e rd rn"
| "fp_encode e (FcvtWiden rd rn) = aarch64_enc_fcvt_widen e rd rn"
| "fp_encode e (Bfcvt rd rn) = aarch64_enc_bfcvt e rd rn"
| "fp_encode e (FcmpReg2 dbl rn rm) = aarch64_enc_fcmp_reg2 e dbl rn rm"
| "fp_encode e (FcmpZero dbl rn) = aarch64_enc_fcmp_zero e dbl rn"
| "fp_encode e (Fcmp dbl exc zero rn rm) = aarch64_enc_fcmp e dbl exc zero rn rm"
| "fp_encode e (Fcvtzs sf dbl rd rn) = aarch64_enc_fcvtzs e sf dbl rd rn"
| "fp_encode e (Fcvtzu sf dbl rd rn) = aarch64_enc_fcvtzu e sf dbl rd rn"
| "fp_encode e (Scvtf sf dbl rd rn) = aarch64_enc_scvtf e sf dbl rd rn"
| "fp_encode e (Ucvtf sf dbl rd rn) = aarch64_enc_ucvtf e sf dbl rd rn"
| "fp_encode e (FpToInt sf dbl U rd rn) = aarch64_enc_fp_int_cvt e sf (if dbl then 1 else 0) (0x18 + U) rd rn"
| "fp_encode e (IntToFp sf dbl U rd rn) = aarch64_enc_fp_int_cvt e sf (if dbl then 1 else 0) (0x02 + U) rd rn"
| "fp_encode e (FmovGpr dbl to_gpr rd rn) = aarch64_enc_fmov_gpr e dbl to_gpr rd rn"
| "fp_encode e (FmovHGpr to_gpr rd rn) = aarch64_enc_fmov_h_gpr e to_gpr rd rn"
| "fp_encode e (FmovImm dbl rd imm8) = aarch64_enc_fmov_imm e dbl rd imm8"
| "fp_encode e (Fp3same Q U b23 sz op5 rd rn rm) = aarch64_enc_fp_3same_vec e Q U b23 sz op5 rd rn rm"
| "fp_encode e (BfdotVec Q rd rn rm) = aarch64_enc_bfdot_vec e Q rd rn rm"
| "fp_encode e (BfdotIdx Q rd rn rm idx) = aarch64_enc_bfdot_idx e Q rd rn rm idx"
| "fp_encode e (Bfmlalb rd rn rm) = aarch64_enc_bfmlalb e rd rn rm"
| "fp_encode e (Bfmlalt rd rn rm) = aarch64_enc_bfmlalt e rd rn rm"
| "fp_encode e (Bfcvtn Q rd rn) = aarch64_enc_bfcvtn e Q rd rn"

primrec fp_ok :: "fp_insn \<Rightarrow> bool" where
  "fp_ok (Fp2src dbl op4 rd rn rm) \<longleftrightarrow> rd < 32 \<and> rn < 32 \<and> rm < 32 \<and> op4 < 16 \<and> op4 < 9"
| "fp_ok (Fneg dbl rd rn) \<longleftrightarrow> rd < 32 \<and> rn < 32"
| "fp_ok (Fp1src dbl op6 rd rn) \<longleftrightarrow> rd < 32 \<and> rn < 32 \<and> op6 < 4"
| "fp_ok (FmovReg dbl rd rn) \<longleftrightarrow> rd < 32 \<and> rn < 32"
| "fp_ok (FmovRegH rd rn) \<longleftrightarrow> rd < 32 \<and> rn < 32"
| "fp_ok (FcvtNarrow rd rn) \<longleftrightarrow> rd < 32 \<and> rn < 32"
| "fp_ok (FcvtWiden rd rn) \<longleftrightarrow> rd < 32 \<and> rn < 32"
| "fp_ok (Bfcvt rd rn) \<longleftrightarrow> rd < 32 \<and> rn < 32"
| "fp_ok (FcmpReg2 dbl rn rm) \<longleftrightarrow> rn < 32 \<and> rm < 32"
| "fp_ok (FcmpZero dbl rn) \<longleftrightarrow> rn < 32"
| "fp_ok (Fcmp dbl exc zero rn rm) \<longleftrightarrow> exc < 2 \<and> zero < 2 \<and> rn < 32 \<and> rm < 32"
| "fp_ok (Fcvtzs sf dbl rd rn) \<longleftrightarrow> sf < 2 \<and> rd < 32 \<and> rn < 32"
| "fp_ok (Fcvtzu sf dbl rd rn) \<longleftrightarrow> sf < 2 \<and> rd < 32 \<and> rn < 32"
| "fp_ok (Scvtf sf dbl rd rn) \<longleftrightarrow> sf < 2 \<and> rd < 32 \<and> rn < 32"
| "fp_ok (Ucvtf sf dbl rd rn) \<longleftrightarrow> sf < 2 \<and> rd < 32 \<and> rn < 32"
| "fp_ok (FpToInt sf dbl U rd rn) \<longleftrightarrow> sf < 2 \<and> U < 2 \<and> rd < 32 \<and> rn < 32"
| "fp_ok (IntToFp sf dbl U rd rn) \<longleftrightarrow> sf < 2 \<and> U < 2 \<and> rd < 32 \<and> rn < 32"
| "fp_ok (FmovGpr dbl to_gpr rd rn) \<longleftrightarrow> rd < 32 \<and> rn < 32"
| "fp_ok (FmovHGpr to_gpr rd rn) \<longleftrightarrow> rd < 32 \<and> rn < 32"
| "fp_ok (FmovImm dbl rd imm8) \<longleftrightarrow> rd < 32"
| "fp_ok (Fp3same Q U b23 sz op5 rd rn rm) \<longleftrightarrow> Q < 2 \<and> U < 2 \<and> b23 < 2 \<and> sz < 2 \<and> op5 < 32 \<and> rd < 32 \<and> rn < 32 \<and> rm < 32 \<and> fp_3same_mn U (b23 \<noteq> 0) op5 \<noteq> None"
| "fp_ok (BfdotVec Q rd rn rm) \<longleftrightarrow> Q < 2 \<and> rd < 32 \<and> rn < 32 \<and> rm < 32"
| "fp_ok (BfdotIdx Q rd rn rm idx) \<longleftrightarrow> Q < 2 \<and> idx < 4 \<and> rd < 32 \<and> rn < 32 \<and> rm < 32"
| "fp_ok (Bfmlalb rd rn rm) \<longleftrightarrow> rd < 32 \<and> rn < 32 \<and> rm < 32"
| "fp_ok (Bfmlalt rd rn rm) \<longleftrightarrow> rd < 32 \<and> rn < 32 \<and> rm < 32"
| "fp_ok (Bfcvtn Q rd rn) \<longleftrightarrow> Q < 2 \<and> rd < 32 \<and> rn < 32"

primrec fp_text :: "fp_insn \<Rightarrow> string" where
  "fp_text (Fp2src dbl op4 rd rn rm) = asm (fp_2src_name op4) [F dbl rd, F dbl rn, F dbl rm]"
| "fp_text (Fneg dbl rd rn) = asm ''fneg'' [F dbl rd, F dbl rn]"
| "fp_text (Fp1src dbl op6 rd rn) = asm (if op6 = 0 then ''fmov'' else if op6 = 1 then ''fabs'' else if op6 = 2 then ''fneg'' else ''fsqrt'')
       [F dbl rd, F dbl rn]"
| "fp_text (FmovReg dbl rd rn) = asm ''fmov'' [F dbl rd, F dbl rn]"
| "fp_text (FmovRegH rd rn) = asm ''fmov'' [''h'' @ fmt_u rd, ''h'' @ fmt_u rn]"
| "fp_text (FcvtNarrow rd rn) = asm ''fcvt'' [F False rd, F True rn]"
| "fp_text (FcvtWiden rd rn) = asm ''fcvt'' [F True rd, F False rn]"
| "fp_text (Bfcvt rd rn) = asm ''bfcvt'' [''h'' @ fmt_u rd, ''s'' @ fmt_u rn]"
| "fp_text (FcmpReg2 dbl rn rm) = asm ''fcmp'' [F dbl rn, F dbl rm]"
| "fp_text (FcmpZero dbl rn) = asm ''fcmp'' [F dbl rn, ''#0.0'']"
| "fp_text (Fcmp dbl exc zero rn rm) = asm (if exc = 0 then ''fcmp'' else ''fcmpe'') [F dbl rn, if zero = 0 then F dbl rm else ''#0.0'']"
| "fp_text (Fcvtzs sf dbl rd rn) = asm ''fcvtzs'' [R sf rd, F dbl rn]"
| "fp_text (Fcvtzu sf dbl rd rn) = asm ''fcvtzu'' [R sf rd, F dbl rn]"
| "fp_text (Scvtf sf dbl rd rn) = asm ''scvtf'' [F dbl rd, R sf rn]"
| "fp_text (Ucvtf sf dbl rd rn) = asm ''ucvtf'' [F dbl rd, R sf rn]"
| "fp_text (FpToInt sf dbl U rd rn) = asm (if U = 0 then ''fcvtzs'' else ''fcvtzu'') [R sf rd, F dbl rn]"
| "fp_text (IntToFp sf dbl U rd rn) = asm (if U = 0 then ''scvtf'' else ''ucvtf'') [F dbl rd, R sf rn]"
| "fp_text (FmovGpr dbl to_gpr rd rn) = asm ''fmov'' (if to_gpr then [R (if dbl then 1 else 0) rd, F dbl rn] else [F dbl rd, R (if dbl then 1 else 0) rn])"
| "fp_text (FmovHGpr to_gpr rd rn) = asm ''fmov'' (if to_gpr then [R 0 rd, ''h'' @ fmt_u rn] else [''h'' @ fmt_u rd, R 0 rn])"
| "fp_text (FmovImm dbl rd imm8) = asm ''fmov'' [F dbl rd, ''#'' @ fmt_fp_imm (ucast imm8)]"
| "fp_text (Fp3same Q U b23 sz op5 rd rn rm) = asm (the (fp_3same_mn U (b23 \<noteq> 0) op5)) [vreg rd (fp_vec_arr Q sz), vreg rn (fp_vec_arr Q sz), vreg rm (fp_vec_arr Q sz)]"
| "fp_text (BfdotVec Q rd rn rm) = asm ''bfdot'' [vreg rd (if Q = 0 then ''2s'' else ''4s''), vreg rn (if Q = 0 then ''4h'' else ''8h''), vreg rm (if Q = 0 then ''4h'' else ''8h'')]"
| "fp_text (BfdotIdx Q rd rn rm idx) = asm ''bfdot'' [vreg rd (if Q = 0 then ''2s'' else ''4s''), vreg rn (if Q = 0 then ''4h'' else ''8h''), vreg rm ''2h'' @ ''['' @ fmt_u idx @ '']'']"
| "fp_text (Bfmlalb rd rn rm) = asm ''bfmlalb'' [vreg rd ''4s'', vreg rn ''8h'', vreg rm ''8h'']"
| "fp_text (Bfmlalt rd rn rm) = asm ''bfmlalt'' [vreg rd ''4s'', vreg rn ''8h'', vreg rm ''8h'']"
| "fp_text (Bfcvtn Q rd rn) = asm (if Q = 0 then ''bfcvtn'' else ''bfcvtn2'') [vreg rd (if Q = 0 then ''4h'' else ''8h''), vreg rn ''4s'']"

section \<open>Scalars\<close>

lemma ucast_u8: "(ucast (x :: u8) :: u32) < 256"
proof -
  have "unat x < 2 ^ LENGTH(8)" by (rule unsigned_less)
  then show ?thesis by (simp add: word_less_nat_alt unsigned_ucast_eq take_bit_nat_eq_self)
qed

lemmas imm8_range = fld_hit_lt [where m = 8, simplified] fld_below_lt [where m = 8, simplified]
  and_field_lt [where m = 8, simplified] ucast_u8

lemma fp_2src_emits:
  assumes "aligned e"
  shows "fp_ok (Fp2src dbl op4 rd rn rm) \<Longrightarrow>
      emits e (fp_encode e (Fp2src dbl op4 rd rn rm)) (fp_text (Fp2src dbl op4 rd rn rm))"
  unfolding fp_encode.simps aarch64_enc_fp_2src_scalar_def Let_def
  by (cases dbl; rule emits_fp_2src [OF assms]; simp add: enc_words dec_fp_2src_def fp_texts;
      auto simp: Let_def fp_texts)+

lemma fp_1src_emits:
  assumes "aligned e"
  shows "fp_ok (Fneg dbl rd rn) \<Longrightarrow>
      emits e (fp_encode e (Fneg dbl rd rn)) (fp_text (Fneg dbl rd rn))"
    "fp_ok (FmovReg dbl rd rn) \<Longrightarrow>
      emits e (fp_encode e (FmovReg dbl rd rn)) (fp_text (FmovReg dbl rd rn))"
  unfolding fp_encode.simps aarch64_enc_fneg_scalar_def aarch64_enc_fmov_reg_def Let_def
  by (cases dbl; rule emits_fp_1src [OF assms]; simp add: enc_words dec_fp_1src_def fp_1src_names_def fp_texts;
      auto simp: Let_def fp_texts)+

lemma fcvt_emits:
  assumes "aligned e"
  shows "fp_ok (FmovRegH rd rn) \<Longrightarrow>
      emits e (fp_encode e (FmovRegH rd rn)) (fp_text (FmovRegH rd rn))"
    "fp_ok (FcvtNarrow rd rn) \<Longrightarrow>
      emits e (fp_encode e (FcvtNarrow rd rn)) (fp_text (FcvtNarrow rd rn))"
    "fp_ok (FcvtWiden rd rn) \<Longrightarrow>
      emits e (fp_encode e (FcvtWiden rd rn)) (fp_text (FcvtWiden rd rn))"
    "fp_ok (Bfcvt rd rn) \<Longrightarrow>
      emits e (fp_encode e (Bfcvt rd rn)) (fp_text (Bfcvt rd rn))"
  unfolding fp_encode.simps aarch64_enc_fmov_reg_h_def aarch64_enc_fcvt_narrow_def aarch64_enc_fcvt_widen_def aarch64_enc_bfcvt_def Let_def
  by (rule emits_fp_1src [OF assms]; simp add: enc_words dec_fp_1src_def fp_1src_names_def fp_texts;
      auto simp: Let_def fp_texts)+

lemma fcmp_emits:
  assumes "aligned e"
  shows "fp_ok (FcmpReg2 dbl rn rm) \<Longrightarrow>
      emits e (fp_encode e (FcmpReg2 dbl rn rm)) (fp_text (FcmpReg2 dbl rn rm))"
    "fp_ok (FcmpZero dbl rn) \<Longrightarrow>
      emits e (fp_encode e (FcmpZero dbl rn)) (fp_text (FcmpZero dbl rn))"
  unfolding fp_encode.simps aarch64_enc_fcmp_reg2_def aarch64_enc_fcmp_zero_def Let_def
  by (cases dbl; rule emits_fcmp [OF assms]; simp add: enc_words dec_fcmp_def fp_texts;
      auto simp: Let_def fp_texts)+

lemma fp_int_emits:
  assumes "aligned e"
  shows "fp_ok (Fcvtzs sf dbl rd rn) \<Longrightarrow>
      emits e (fp_encode e (Fcvtzs sf dbl rd rn)) (fp_text (Fcvtzs sf dbl rd rn))"
    "fp_ok (Fcvtzu sf dbl rd rn) \<Longrightarrow>
      emits e (fp_encode e (Fcvtzu sf dbl rd rn)) (fp_text (Fcvtzu sf dbl rd rn))"
    "fp_ok (Scvtf sf dbl rd rn) \<Longrightarrow>
      emits e (fp_encode e (Scvtf sf dbl rd rn)) (fp_text (Scvtf sf dbl rd rn))"
    "fp_ok (Ucvtf sf dbl rd rn) \<Longrightarrow>
      emits e (fp_encode e (Ucvtf sf dbl rd rn)) (fp_text (Ucvtf sf dbl rd rn))"
  unfolding fp_encode.simps aarch64_enc_fcvtzs_def aarch64_enc_fcvtzu_def aarch64_enc_scvtf_def aarch64_enc_ucvtf_def aarch64_fp_int_cvt_def Let_def
  by (cases dbl; rule emits_fp_int_cvt [OF assms]; simp add: enc_words dec_fp_int_cvt_def fp_texts;
      auto simp: Let_def fp_texts)+

lemma fmov_imm_emits:
  assumes "aligned e"
  shows "fp_ok (FmovImm dbl rd imm8) \<Longrightarrow>
      emits e (fp_encode e (FmovImm dbl rd imm8)) (fp_text (FmovImm dbl rd imm8))"
  unfolding fp_encode.simps aarch64_enc_fmov_imm_def Let_def
  by (cases dbl; rule emits_fmov_imm [OF assms]; simp add: enc_words dec_fmov_imm_def fp_texts imm8_range;
      auto simp: Let_def fp_texts)+

lemma fmov_gpr_emits:
  assumes "aligned e"
  shows "fp_ok (FmovGpr dbl to_gpr rd rn) \<Longrightarrow>
      emits e (fp_encode e (FmovGpr dbl to_gpr rd rn)) (fp_text (FmovGpr dbl to_gpr rd rn))"
  unfolding fp_encode.simps aarch64_enc_fmov_gpr_def Let_def
  by (cases dbl; cases to_gpr; rule emits_fp_int_cvt [OF assms]; simp add: enc_words dec_fp_int_cvt_def fp_texts;
      auto simp: Let_def fp_texts)+

lemma fmov_h_gpr_emits:
  assumes "aligned e"
  shows "fp_ok (FmovHGpr to_gpr rd rn) \<Longrightarrow>
      emits e (fp_encode e (FmovHGpr to_gpr rd rn)) (fp_text (FmovHGpr to_gpr rd rn))"
  unfolding fp_encode.simps aarch64_enc_fmov_h_gpr_def Let_def
  by (cases to_gpr; rule emits_fp_int_cvt [OF assms]; simp add: enc_words dec_fp_int_cvt_def fp_texts;
      auto simp: Let_def fp_texts)+

section \<open>Vectors\<close>

lemma fp_3same_emits:
  assumes "aligned e"
  shows "fp_ok (Fp3same Q U b23 sz op5 rd rn rm) \<Longrightarrow>
      emits e (fp_encode e (Fp3same Q U b23 sz op5 rd rn rm)) (fp_text (Fp3same Q U b23 sz op5 rd rn rm))"
  unfolding fp_encode.simps aarch64_enc_fp_3same_vec_def Let_def
  by (rule emits_fp_3same_vec [OF assms]; simp add: enc_words dec_fp_3same_vec_def fp_texts;
      auto simp: Let_def fp_texts)+

lemma bfdot_emits:
  assumes "aligned e"
  shows "fp_ok (BfdotVec Q rd rn rm) \<Longrightarrow>
      emits e (fp_encode e (BfdotVec Q rd rn rm)) (fp_text (BfdotVec Q rd rn rm))"
  unfolding fp_encode.simps aarch64_enc_bfdot_vec_def Let_def
  by (rule emits_bfdot [OF assms]; simp add: enc_words dec_bfdot_def fp_texts;
      auto simp: Let_def fp_texts)+

lemma bfmlal_emits:
  assumes "aligned e"
  shows "fp_ok (Bfmlalb rd rn rm) \<Longrightarrow>
      emits e (fp_encode e (Bfmlalb rd rn rm)) (fp_text (Bfmlalb rd rn rm))"
    "fp_ok (Bfmlalt rd rn rm) \<Longrightarrow>
      emits e (fp_encode e (Bfmlalt rd rn rm)) (fp_text (Bfmlalt rd rn rm))"
  unfolding fp_encode.simps aarch64_enc_bfmlalb_def aarch64_enc_bfmlalt_def Let_def
  by (rule emits_bfmlal [OF assms]; simp add: enc_words dec_bfmlal_def fp_texts;
      auto simp: Let_def fp_texts)+

lemma bfcvtn_emits:
  assumes "aligned e"
  shows "fp_ok (Bfcvtn Q rd rn) \<Longrightarrow>
      emits e (fp_encode e (Bfcvtn Q rd rn)) (fp_text (Bfcvtn Q rd rn))"
  unfolding fp_encode.simps aarch64_enc_bfcvtn_def Let_def
  by (rule emits_bfcvtn [OF assms]; simp add: enc_words dec_bfcvtn_def fp_texts;
      auto simp: Let_def fp_texts)+

text \<open>The index and the register of the indexed form are split over the word.\<close>

lemma join_low:
  assumes "k + m < 32"
  shows "push_bit k (low m (drop_bit k x)) OR low k x = low (k + m) x"
proof (rule bit_word_eqI)
  fix n assume "n < LENGTH(32)"
  then show "bit (push_bit k (low m (drop_bit k x)) OR low k x) n = bit (low (k + m) x) n"
    using assms by (cases "k \<le> n") (auto simp: bit_simps)
qed

lemma join_fields:
  "low (Suc 0) (drop_bit (Suc 0) x) * 2 OR low (Suc 0) x = low 2 x"
  "push_bit 4 (low (Suc 0) (drop_bit 4 x)) OR low 4 x = low 5 x"
  using join_low [of 1 1 x] join_low [of 4 1 x] by (simp_all add: push_bit_eq_mult numeral_2_eq_2)

lemma bfdot_idx_emits:
  assumes "aligned e"
  shows "fp_ok (BfdotIdx Q rd rn rm idx) \<Longrightarrow>
      emits e (fp_encode e (BfdotIdx Q rd rn rm idx)) (fp_text (BfdotIdx Q rd rn rm idx))"
  unfolding fp_encode.simps aarch64_enc_bfdot_idx_def Let_def
  by (rule emits_bfdot_idx [OF assms]; simp add: enc_words dec_bfdot_idx_def fp_texts join_fields;
      auto simp: Let_def fp_texts)+

section \<open>Instructions selected by an opcode operand\<close>

lemma low_consts: "low n (numeral k) = take_bit n (numeral k)" "low n 1 = take_bit n 1"
  by (simp_all add: low_def)

lemma u32_lt_2: "(x :: u32) < 2 \<Longrightarrow> x = 0 \<or> x = 1"
  by unat_arith

lemma u32_lt_4: "(x :: u32) < 4 \<Longrightarrow> x = 0 \<or> x = 1 \<or> x = 2 \<or> x = 3"
  by unat_arith

lemma fp_1src_op_emits:
  assumes "aligned e"
  shows "fp_ok (Fp1src dbl op6 rd rn) \<Longrightarrow>
      emits e (fp_encode e (Fp1src dbl op6 rd rn)) (fp_text (Fp1src dbl op6 rd rn))"
  unfolding fp_encode.simps aarch64_enc_fp_1src_def and_masks fp_ok.simps
  by (elim conjE; drule u32_lt_4; cases dbl; elim disjE; simp only:; rule emits_fp_1src [OF assms];
      simp add: enc_words low_consts dec_fp_1src_def fp_1src_names_def fp_texts)

lemma fcmp_op_emits:
  assumes "aligned e"
  shows "fp_ok (Fcmp dbl exc zero rn rm) \<Longrightarrow>
      emits e (fp_encode e (Fcmp dbl exc zero rn rm)) (fp_text (Fcmp dbl exc zero rn rm))"
  unfolding fp_encode.simps aarch64_enc_fcmp_def fp_ok.simps Let_def
  by (elim conjE; drule u32_lt_2 [of exc]; drule u32_lt_2 [of zero]; cases dbl; elim disjE; simp only:;
      rule emits_fcmp [OF assms]; simp add: enc_words low_consts dec_fcmp_def fp_texts)

lemma fp_int_op_emits:
  assumes "aligned e"
  shows "fp_ok (FpToInt sf dbl U rd rn) \<Longrightarrow>
      emits e (fp_encode e (FpToInt sf dbl U rd rn)) (fp_text (FpToInt sf dbl U rd rn))"
    "fp_ok (IntToFp sf dbl U rd rn) \<Longrightarrow>
      emits e (fp_encode e (IntToFp sf dbl U rd rn)) (fp_text (IntToFp sf dbl U rd rn))"
  unfolding fp_encode.simps aarch64_enc_fp_int_cvt_def fp_ok.simps
  by (elim conjE; drule u32_lt_2 [of U]; cases dbl; elim disjE; simp only:; rule emits_fp_int_cvt [OF assms];
      simp add: enc_words low_consts dec_fp_int_cvt_def fp_texts)+

text \<open>Every floating-point encoder, called as intended, emits the instruction it is named after.\<close>

lemma fp_emits:
  assumes "aligned e" "fp_ok i"
  shows "emits e (fp_encode e i) (fp_text i)"
  using assms(2)
  by (cases i) (simp_all only: fp_2src_emits [OF assms(1)] fp_1src_emits [OF assms(1)] fcvt_emits [OF assms(1)]
      fcmp_emits [OF assms(1)] fp_int_emits [OF assms(1)] fmov_imm_emits [OF assms(1)] fmov_gpr_emits [OF assms(1)]
      fmov_h_gpr_emits [OF assms(1)] fp_3same_emits [OF assms(1)] bfdot_emits [OF assms(1)]
      bfmlal_emits [OF assms(1)] bfcvtn_emits [OF assms(1)] bfdot_idx_emits [OF assms(1)]
      fp_1src_op_emits [OF assms(1)] fcmp_op_emits [OF assms(1)] fp_int_op_emits [OF assms(1)])

end
