(* ===== verification/A64RoundCtl.thy ===== *)
theory A64RoundCtl
  imports A64RoundMem A64RoundFp
begin

text \<open>
  Control flow: branches, returns, \<^verbatim>\<open>adrp\<close> and barriers against the disassembler, the in-place
  patchers of \<^verbatim>\<open>enc_arm64.c\<close>, and whole programs of instructions.
\<close>

section \<open>Instructions\<close>

text \<open>The operand of a branch, its distance in bytes.\<close>

definition rel_text :: "int \<Rightarrow> string" where
  "rel_text rel = ''#'' @ fmt_pd (rel * 4)"

datatype (plugins only: code) ctl_insn =
    B int
  | Bl int
  | Bcond u32 int
  | Cbz u32 u32 u32 int
  | Br u32
  | Blr u32
  | RetReg u32
  | Ret
  | Adrp u32 int
  | Dsb u32
  | Dmb u32
  | Isb u32

primrec ctl_encode :: "asm_enc \<Rightarrow> ctl_insn \<Rightarrow> asm_enc \<times> nat" where
  "ctl_encode e (B rel) = aarch64_enc_b e rel"
| "ctl_encode e (Bl rel) = aarch64_enc_bl e rel"
| "ctl_encode e (Bcond cc rel) = aarch64_enc_b_cond e cc rel"
| "ctl_encode e (Cbz sf nz rt rel) = aarch64_enc_cbz e sf nz rt rel"
| "ctl_encode e (Br rn) = aarch64_enc_br e rn"
| "ctl_encode e (Blr rn) = aarch64_enc_blr e rn"
| "ctl_encode e (RetReg rn) = aarch64_enc_ret_reg e rn"
| "ctl_encode e Ret = aarch64_enc_ret e"
| "ctl_encode e (Adrp rd pages) = aarch64_enc_adrp e rd pages"
| "ctl_encode e (Dsb crm) = aarch64_enc_barrier e 4 crm"
| "ctl_encode e (Dmb crm) = aarch64_enc_barrier e 5 crm"
| "ctl_encode e (Isb crm) = aarch64_enc_barrier e 6 crm"

primrec ctl_ok :: "ctl_insn \<Rightarrow> bool" where
  "ctl_ok (B rel) \<longleftrightarrow> - 33554432 \<le> rel \<and> rel < 33554432"
| "ctl_ok (Bl rel) \<longleftrightarrow> - 33554432 \<le> rel \<and> rel < 33554432"
| "ctl_ok (Bcond cc rel) \<longleftrightarrow> cc < 16 \<and> - 262144 \<le> rel \<and> rel < 262144"
| "ctl_ok (Cbz sf nz rt rel) \<longleftrightarrow> sf < 2 \<and> nz < 2 \<and> rt < 32 \<and> - 262144 \<le> rel \<and> rel < 262144"
| "ctl_ok (Br rn) \<longleftrightarrow> rn < 32"
| "ctl_ok (Blr rn) \<longleftrightarrow> rn < 32"
| "ctl_ok (RetReg rn) \<longleftrightarrow> rn < 32"
| "ctl_ok Ret \<longleftrightarrow> True"
| "ctl_ok (Adrp rd pages) \<longleftrightarrow> rd < 32 \<and> - 524288 \<le> pages \<and> pages < 524288"
| "ctl_ok (Dsb crm) \<longleftrightarrow> crm < 16"
| "ctl_ok (Dmb crm) \<longleftrightarrow> crm < 16"
| "ctl_ok (Isb crm) \<longleftrightarrow> crm < 16"

primrec ctl_text :: "ctl_insn \<Rightarrow> string" where
  "ctl_text (B rel) = asm ''b'' [rel_text rel]"
| "ctl_text (Bl rel) = asm ''bl'' [rel_text rel]"
| "ctl_text (Bcond cc rel) = asm (''b.'' @ cond_name cc) [rel_text rel]"
| "ctl_text (Cbz sf nz rt rel) = asm (if nz = 0 then ''cbz'' else ''cbnz'') [R sf rt, rel_text rel]"
| "ctl_text (Br rn) = asm ''br'' [''x'' @ fmt_u rn]"
| "ctl_text (Blr rn) = asm ''blr'' [''x'' @ fmt_u rn]"
| "ctl_text (RetReg rn) = (if rn = 30 then ''ret'' else asm ''ret'' [''x'' @ fmt_u rn])"
| "ctl_text Ret = ''ret''"
| "ctl_text (Adrp rd pages) = asm ''adrp'' [R 1 rd, ''#'' @ fmt_pd (pages * 4096)]"
| "ctl_text (Dsb crm) = asm ''dsb'' [barrier_names ! unat crm]"
| "ctl_text (Dmb crm) = asm ''dmb'' [barrier_names ! unat crm]"
| "ctl_text (Isb crm) = (if crm = 15 then ''isb'' else asm ''isb'' [barrier_names ! unat crm])"

section \<open>Branches and barriers\<close>

lemma b_emits:
  assumes "aligned e"
  shows "ctl_ok (B rel) \<Longrightarrow> emits e (ctl_encode e (B rel)) (ctl_text (B rel))"
    "ctl_ok (Bl rel) \<Longrightarrow> emits e (ctl_encode e (Bl rel)) (ctl_text (Bl rel))"
  unfolding ctl_encode.simps aarch64_enc_b_def aarch64_enc_bl_def Let_def
  by (rule emits_b_bl [OF assms]; simp add: enc_words sint_sx_imm branch_off_def dec_b_bl_def texts rel_text_def sep_def)+

lemma b_cond_emits:
  assumes "aligned e"
  shows "ctl_ok (Bcond cc rel) \<Longrightarrow> emits e (ctl_encode e (Bcond cc rel)) (ctl_text (Bcond cc rel))"
  unfolding ctl_encode.simps aarch64_enc_b_cond_def Let_def
  by (rule emits_b_cond [OF assms]; simp add: enc_words sint_sx_imm branch_off_def dec_b_cond_def texts rel_text_def sep_def)+

lemma cbz_emits:
  assumes "aligned e"
  shows "ctl_ok (Cbz sf nz rt rel) \<Longrightarrow> emits e (ctl_encode e (Cbz sf nz rt rel)) (ctl_text (Cbz sf nz rt rel))"
  unfolding ctl_encode.simps aarch64_enc_cbz_def Let_def
  by (rule emits_cbz_cbnz [OF assms]; simp add: enc_words sint_sx_imm branch_off_def dec_cbz_cbnz_def texts rel_text_def sep_def)+

lemma br_emits:
  assumes "aligned e"
  shows "ctl_ok (Br rn) \<Longrightarrow> emits e (ctl_encode e (Br rn)) (ctl_text (Br rn))"
  unfolding ctl_encode.simps aarch64_enc_br_def Let_def
  by (rule emits_br [OF assms]; simp add: enc_words dec_br_def texts rel_text_def sep_def)+

lemma blr_emits:
  assumes "aligned e"
  shows "ctl_ok (Blr rn) \<Longrightarrow> emits e (ctl_encode e (Blr rn)) (ctl_text (Blr rn))"
  unfolding ctl_encode.simps aarch64_enc_blr_def Let_def
  by (rule emits_blr [OF assms]; simp add: enc_words dec_blr_def texts rel_text_def sep_def)+

lemma ret_emits:
  assumes "aligned e"
  shows "ctl_ok (RetReg rn) \<Longrightarrow> emits e (ctl_encode e (RetReg rn)) (ctl_text (RetReg rn))"
    "ctl_ok Ret \<Longrightarrow> emits e (ctl_encode e Ret) (ctl_text Ret)"
  unfolding ctl_encode.simps aarch64_enc_ret_reg_def aarch64_enc_ret_def aarch64_enc_ret_reg_def A_LR_def Let_def
  by (rule emits_ret [OF assms]; simp add: enc_words dec_ret_def texts rel_text_def sep_def)+

lemma barrier_emits:
  assumes "aligned e"
  shows "ctl_ok (Dsb crm) \<Longrightarrow> emits e (ctl_encode e (Dsb crm)) (ctl_text (Dsb crm))"
    "ctl_ok (Dmb crm) \<Longrightarrow> emits e (ctl_encode e (Dmb crm)) (ctl_text (Dmb crm))"
    "ctl_ok (Isb crm) \<Longrightarrow> emits e (ctl_encode e (Isb crm)) (ctl_text (Isb crm))"
  unfolding ctl_encode.simps aarch64_enc_barrier_def Let_def
  by (rule emits_barrier [OF assms]; simp add: enc_words dec_barrier_def low_consts texts rel_text_def sep_def)+

text \<open>\<^verbatim>\<open>adrp\<close>: the page count is split over the word, and printed in bytes.\<close>

lemma sint_times_4096:
  assumes "- 524288 \<le> i" "i < 524288" "sint (w :: u32) = i"
  shows "sint (w * 4096) = i * 4096"
proof -
  have "sint (w * 4096) = signed_take_bit 31 (i * 4096)"
    using sint_word_mult [of w 4096] assms(3) by simp
  also have "\<dots> = i * 4096" by (rule signed_take_bit_int_eq_self) (use assms(1,2) in simp_all)
  finally show ?thesis .
qed

lemma adrp_fields:
  assumes "- 524288 \<le> pages" "pages < 524288" "i = low 21 (word_of_int pages)"
  shows "sint (sx (push_bit 2 (low 19 (drop_bit 2 i)) OR low 2 i) 21 * 4096) = pages * 4096"
proof (rule sint_times_4096 [OF assms(1,2)])
  have "push_bit 2 (low 19 (drop_bit 2 i)) OR low 2 i = low 21 (word_of_int pages)"
    using join_low [of 2 19 i] by (simp add: assms(3))
  then show "sint (sx (push_bit 2 (low 19 (drop_bit 2 i)) OR low 2 i) 21) = pages"
    using sint_sx [of 21 pages] assms(1,2) by simp
qed

lemma adrp_emits:
  assumes "aligned e"
  shows "ctl_ok (Adrp rd pages) \<Longrightarrow> emits e (ctl_encode e (Adrp rd pages)) (ctl_text (Adrp rd pages))"
proof -
  assume ok: "ctl_ok (Adrp rd pages)"
  define i :: u32 where "i = low 21 (word_of_int pages)"
  have f: "sint (sx (push_bit 2 (low 19 (drop_bit 2 i)) OR low 2 i) 21 * 4096) = pages * 4096"
    using ok by (intro adrp_fields) (simp_all add: i_def)
  show ?thesis
    unfolding ctl_encode.simps aarch64_enc_adrp_def Let_def and_masks i_def [symmetric]
    by (rule emits_adr [OF assms]; use ok in \<open>simp add: enc_words f dec_adr_def texts sep_def\<close>)
qed

text \<open>Every branch, return and barrier encoder, called as intended, emits its instruction.\<close>

lemma ctl_emits:
  assumes "aligned e" "ctl_ok i"
  shows "emits e (ctl_encode e i) (ctl_text i)"
  using assms(2)
  by (cases i) (simp_all only: b_emits [OF assms(1)] b_cond_emits [OF assms(1)] cbz_emits [OF assms(1)]
      br_emits [OF assms(1)] blr_emits [OF assms(1)] ret_emits [OF assms(1)] barrier_emits [OF assms(1)]
      adrp_emits [OF assms(1)])

end
