(* ===== verification/A64Prog.thy ===== *)
theory A64Prog
  imports A64RoundCtl
begin

text \<open>
  Programs of instructions: a sequence of encoder calls is listed back in order, a patched branch is
  listed with its new distance and everything else unchanged, and the sequence emitted for
  a wide immediate leaves that immediate in the register when it is executed.
\<close>

section \<open>Sequences of instructions\<close>

datatype (plugins only: code) a64_insn = IntI int_insn | MemI mem_insn | FpI fp_insn | CtlI ctl_insn

fun encode :: "asm_enc \<Rightarrow> a64_insn \<Rightarrow> asm_enc \<times> nat" where
  "encode e (IntI i) = int_encode e i"
| "encode e (MemI i) = mem_encode e i"
| "encode e (FpI i) = fp_encode e i"
| "encode e (CtlI i) = ctl_encode e i"

fun insn_ok :: "a64_insn \<Rightarrow> bool" where
  "insn_ok (IntI i) = int_ok i"
| "insn_ok (MemI i) = mem_ok i"
| "insn_ok (FpI i) = fp_ok i"
| "insn_ok (CtlI i) = ctl_ok i"

fun insn_text :: "a64_insn \<Rightarrow> string" where
  "insn_text (IntI i) = int_text i"
| "insn_text (MemI i) = mem_text i"
| "insn_text (FpI i) = fp_text i"
| "insn_text (CtlI i) = ctl_text i"

fun assemble :: "asm_enc \<Rightarrow> a64_insn list \<Rightarrow> asm_enc" where
  "assemble e [] = e"
| "assemble e (i # prog) = assemble (fst (encode e i)) prog"

text \<open>The lines expected of a program placed at an offset.\<close>

fun lines :: "nat \<Rightarrow> a64_insn list \<Rightarrow> (nat \<times> string) list" where
  "lines off [] = []"
| "lines off (i # prog) = (off, insn_text i) # lines (off + 4) prog"

lemma encode_emits: "aligned e \<Longrightarrow> insn_ok i \<Longrightarrow> emits e (encode e i) (insn_text i)"
  by (cases i) (simp_all add: int_emits mem_emits fp_emits ctl_emits)

lemma emits_aligned: "emits e r t \<Longrightarrow> aligned e \<Longrightarrow> aligned (fst r)"
  by (simp add: emits_def aligned_def)

lemma assemble_lines:
  assumes "aligned e" "list_all insn_ok prog"
  shows "listing (assemble e prog) = listing e @ lines (length (ae_bytes e)) prog"
    and "length (ae_bytes (assemble e prog)) = length (ae_bytes e) + 4 * length prog"
    and "take (length (ae_bytes e)) (ae_bytes (assemble e prog)) = ae_bytes e"
proof -
  have "listing (assemble e prog) = listing e @ lines (length (ae_bytes e)) prog \<and>
    length (ae_bytes (assemble e prog)) = length (ae_bytes e) + 4 * length prog \<and>
    take (length (ae_bytes e)) (ae_bytes (assemble e prog)) = ae_bytes e"
    using assms
  proof (induction prog arbitrary: e)
    case (Cons i prog)
    let ?e = "fst (encode e i)"
    have em: "emits e (encode e i) (insn_text i)" using Cons.prems by (simp add: encode_emits)
    then have e: "listing ?e = listing e @ [(length (ae_bytes e), insn_text i)]"
      "length (ae_bytes ?e) = length (ae_bytes e) + 4" "take (length (ae_bytes e)) (ae_bytes ?e) = ae_bytes e"
      by (auto simp: emits_def)
    have IH: "listing (assemble ?e prog) = listing ?e @ lines (length (ae_bytes ?e)) prog"
      "length (ae_bytes (assemble ?e prog)) = length (ae_bytes ?e) + 4 * length prog"
      "take (length (ae_bytes ?e)) (ae_bytes (assemble ?e prog)) = ae_bytes ?e"
      using Cons.IH [of ?e] Cons.prems emits_aligned [OF em] by simp_all
    have "take (length (ae_bytes e)) (ae_bytes (assemble ?e prog)) =
        take (length (ae_bytes e)) (take (length (ae_bytes ?e)) (ae_bytes (assemble ?e prog)))"
      using e(2) by (simp add: min_def)
    also have "\<dots> = ae_bytes e" unfolding IH(3) by (rule e(3))
    finally show ?case using IH(1,2) e(1,2) by simp
  qed simp
  then show "listing (assemble e prog) = listing e @ lines (length (ae_bytes e)) prog"
    "length (ae_bytes (assemble e prog)) = length (ae_bytes e) + 4 * length prog"
    "take (length (ae_bytes e)) (ae_bytes (assemble e prog)) = ae_bytes e"
    by simp_all
qed

section \<open>The listing, word by word\<close>

lemma disasm_lines_map:
  "disasm_lines bs off =
     map (\<lambda>k. (off + 4 * k, word_at bs (off + 4 * k), dis_text (word_at bs (off + 4 * k))))
       [0..<(length bs - off) div 4]"
proof (induction bs off rule: disasm_lines.induct)
  case (1 bs off)
  show ?case
  proof (cases "off + 4 \<le> length bs")
    case True
    define n where "n = (length bs - (off + 4)) div 4"
    obtain d where d: "length bs = off + 4 + d" using True by (auto simp: le_iff_add)
    then have "(length bs - off) div 4 = Suc n" by (simp add: n_def)
    then have "[0..<(length bs - off) div 4] = 0 # map Suc [0..<n]"
      by (simp add: upt_conv_Cons map_Suc_upt)
    then show ?thesis
      using 1 True by (simp add: disasm_lines.simps [of bs off] aarch64_disasm_text n_def [symmetric] comp_def
          add.assoc add.left_commute)
  qed (simp add: disasm_lines.simps [of bs off])
qed

lemma listing_map:
  "listing e = map (\<lambda>k. (4 * k, dis_text (word_at (ae_bytes e) (4 * k)))) [0..<length (ae_bytes e) div 4]"
  by (simp add: listing_def aarch64_disasm_buf_def disasm_lines_map comp_def)


section \<open>Patching\<close>

lemma read_word_word_at: "aarch64_read_word e off = word_at (ae_bytes e) off"
  by (simp add: aarch64_read_word_def word_at_def)

lemma word_bytes:
  fixes w :: u32
  shows "ucast (ucast w :: u8) OR push_bit 8 (ucast (ucast (drop_bit 8 w) :: u8)) OR
     push_bit 16 (ucast (ucast (drop_bit 16 w) :: u8)) OR push_bit 24 (ucast (ucast (drop_bit 24 w) :: u8)) = w"
  using word_at_put [of "[]" w] by (simp add: word_at_def)

lemma write_word:
  assumes "p + 4 \<le> length (ae_bytes e)"
  shows "length (ae_bytes (aarch64_write_word e p w)) = length (ae_bytes e)"
    and "word_at (ae_bytes (aarch64_write_word e p w)) p = w"
    and "q + 4 \<le> p \<or> p + 4 \<le> q \<Longrightarrow> word_at (ae_bytes (aarch64_write_word e p w)) q = word_at (ae_bytes e) q"
  using assms by (auto simp: aarch64_write_word_def word_at_def nth_list_update word_bytes)

text \<open>Overwriting one word changes its line of the listing and no other.\<close>

lemma listing_write:
  assumes "4 dvd p" "p + 4 \<le> length (ae_bytes e)"
  shows "listing (aarch64_write_word e p w) = (listing e)[p div 4 := (p, dis_text w)]"
proof (rule nth_equalityI)
  show len: "length (listing (aarch64_write_word e p w)) = length ((listing e)[p div 4 := (p, dis_text w)])"
    by (simp add: listing_map write_word(1) [OF assms(2)])
  fix k assume "k < length (listing (aarch64_write_word e p w))"
  then have k: "k < length (ae_bytes e) div 4" by (simp add: listing_map write_word(1) [OF assms(2)])
  have p: "p = 4 * (p div 4)" using assms(1) by simp
  show "listing (aarch64_write_word e p w) ! k = (listing e)[p div 4 := (p, dis_text w)] ! k"
  proof (cases "k = p div 4")
    case True
    then show ?thesis using k p write_word(1,2) [OF assms(2), of w] by (simp add: listing_map)
  next
    case False
    then have "4 * k + 4 \<le> p \<or> p + 4 \<le> 4 * k" using p by linarith
    then show ?thesis
      using k False write_word(1) [OF assms(2)] write_word(3) [OF assms(2), of "4 * k" w]
      by (simp add: listing_map)
  qed
qed


lemma emits_dis_text:
  assumes "aligned e" "emits e (put_word e w) t"
  shows "t = dis_text w"
  using assms emits_text [OF assms(1), of w] by (simp add: emits_def)

text \<open>
  A placeholder \<open>i0\<close> emitted at the end of \<open>e\<close>, followed by a program, and then overwritten with
  the word of \<open>i1\<close>: the listing is that of the program with \<open>i1\<close> in the first place.
\<close>

lemma overwrite_listing:
  assumes "aligned e" "insn_ok i0" "insn_ok i1" "list_all insn_ok prog"
    and "encode e i0 = put_word e w0" "encode e i1 = put_word e w1"
  shows "aarch64_read_word (assemble e (i0 # prog)) (length (ae_bytes e)) = w0"
    and "listing (aarch64_write_word (assemble e (i0 # prog)) (length (ae_bytes e)) w1) =
      listing (assemble e (i1 # prog))"
proof -
  let ?p = "length (ae_bytes e)" and ?e0 = "fst (put_word e w0)" and ?A = "assemble e (i0 # prog)"
  have A: "?A = assemble ?e0 prog" using assms(5) by simp
  have al: "aligned ?e0" using emits_aligned [OF emits_text [OF assms(1)] assms(1)] .
  note pre = assemble_lines(2,3) [OF al assms(4)]
  have len: "length (ae_bytes ?e0) = ?p + 4" by (simp add: put_word_bytes)
  have "word_at (ae_bytes ?A) ?p = word_at (take (?p + 4) (ae_bytes ?A)) ?p"
    by (simp add: word_at_def)
  also have "\<dots> = word_at (ae_bytes ?e0) ?p" using pre(2) len A by simp
  also have "\<dots> = w0" by (simp add: put_word_bytes word_at_put)
  finally show "aarch64_read_word ?A ?p = w0" by (simp add: read_word_word_at)
  have t: "insn_text i1 = dis_text w1"
    using emits_dis_text [OF assms(1)] encode_emits [OF assms(1,3)] assms(6) by simp
  have ok: "list_all insn_ok (i0 # prog)" "list_all insn_ok (i1 # prog)" using assms(2-4) by simp_all
  have "listing (aarch64_write_word ?A ?p w1) = (listing ?A)[?p div 4 := (?p, dis_text w1)]"
    by (rule listing_write) (use assms(1) pre(1) len A in \<open>auto simp: aligned_def\<close>)
  also have "listing ?A = listing e @ lines ?p (i0 # prog)" by (rule assemble_lines(1) [OF assms(1) ok(1)])
  also have "\<dots>[?p div 4 := (?p, dis_text w1)] = listing e @ lines ?p (i1 # prog)"
    by (simp add: list_update_append listing_map t)
  also have "\<dots> = listing (assemble e (i1 # prog))" by (rule assemble_lines(1) [OF assms(1) ok(2), symmetric])
  finally show "listing (aarch64_write_word ?A ?p w1) = listing (assemble e (i1 # prog))" .
qed

text \<open>The patched fields: clearing and setting them again gives the word of the new operand.\<close>

lemma patch_masks:
  "NOT (push_bit 5 0x7FFFF) = (0xFF00001F :: u32)" "NOT (push_bit 10 0xFFF) = (0xFFC003FF :: u32)"
  "NOT (push_bit 29 3 OR push_bit 5 0x7FFFF) = (0x9F00001F :: u32)"
  by simp_all

lemma patch_listing:
  assumes "aligned e" "list_all insn_ok prog" "insn_ok i0" "insn_ok i1"
    and "encode e i0 = put_word e w0" "encode e i1 = put_word e w1"
    and "\<And>E. aarch64_read_word E (length (ae_bytes e)) = w0 \<Longrightarrow> patch E = aarch64_write_word E (length (ae_bytes e)) w1"
  shows "listing (patch (assemble e (i0 # prog))) = listing (assemble e (i1 # prog))"
  using assms(7) overwrite_listing [OF assms(1,3,4,2,5,6)] by simp

text \<open>The words of the instructions that are patched, with their constant bits in front.\<close>

lemma or_front: "push_bit k x OR (numeral c :: u32) = numeral c OR push_bit k x"
  "push_bit k x OR (numeral c OR y) = (numeral c :: u32) OR (push_bit k x OR y)"
  by (simp_all add: or.commute or.left_commute)

lemma insn_puts:
  "encode e (CtlI (B r)) = put_word e (0x14000000 OR low 26 (word_of_int r))"
  "encode e (CtlI (Bl r)) = put_word e (0x94000000 OR low 26 (word_of_int r))"
  "encode e (CtlI (Bcond cc r)) = put_word e (0x54000000 OR push_bit 5 (low 19 (word_of_int r)) OR low 4 cc)"
  "encode e (CtlI (Cbz sf nz rt r)) =
     put_word e (0x34000000 OR push_bit 31 (low 1 sf) OR push_bit 24 (low 1 nz) OR
       push_bit 5 (low 19 (word_of_int r)) OR low 5 rt)"
  "encode e (CtlI (Adrp rd r)) =
     put_word e (0x90000000 OR push_bit 29 (low 2 (word_of_int r)) OR
       push_bit 5 (low 19 (drop_bit 2 (low 21 (word_of_int r)))) OR low 5 rd)"
  by (simp_all add: aarch64_enc_b_def aarch64_enc_bl_def aarch64_enc_b_cond_def aarch64_enc_cbz_def
      aarch64_enc_adrp_def and_masks Let_def or_front or.assoc [symmetric])

lemma add_imm_puts:
  assumes "int_ok (AddImm sf rd rn imm)" "imm < 4096"
  shows "encode e (IntI (AddImm sf rd rn imm)) =
     put_word e (0x11000000 OR push_bit 31 (low 1 sf) OR push_bit 10 (low 12 imm) OR push_bit 5 (low 5 rn) OR low 5 rd)"
proof -
  have "imm \<le> 0xFFF" using assms(2) by (simp add: word_le_nat_alt word_less_nat_alt)
  then show ?thesis
    using assms by (simp add: aarch64_enc_add_imm_def add_sub_imm_word imm_sh_def imm_12_def in_range imm12_range
        or_front)
qed

text \<open>A field inside the mask is kept.\<close>

lemma and_field_in:
  assumes "push_bit j (mask m) AND M = push_bit j (mask m :: u32)"
  shows "push_bit j (low m x) AND M = push_bit j (low m x)"
proof -
  have m: "push_bit j (low m x) = push_bit j (low m x) AND push_bit j (mask m)"
    by (rule bit_word_eqI) (auto simp: bit_simps)
  have "push_bit j (low m x) AND M = push_bit j (low m x) AND (push_bit j (mask m) AND M)"
    by (subst m) (rule and.assoc)
  then show ?thesis by (simp only: assms m [symmetric])
qed

lemma and_low_in:
  assumes "mask m AND M = (mask m :: u32)"
  shows "low m x AND M = low m x"
  using and_field_in [of 0 m M x] assms by simp

lemmas or_ac = or.assoc or.commute or.left_commute

lemmas patch_words = and_masks known_bits patch_masks and_field_in and_low_in

lemma patch_branch26:
  assumes "aligned e" "list_all insn_ok prog"
  shows "ctl_ok (B r) \<Longrightarrow> ctl_ok (B r') \<Longrightarrow>
      listing (aarch64_enc_patch_branch26 (assemble e (CtlI (B r) # prog)) (length (ae_bytes e)) r') =
      listing (assemble e (CtlI (B r') # prog))"
    and "ctl_ok (Bl r) \<Longrightarrow> ctl_ok (Bl r') \<Longrightarrow>
      listing (aarch64_enc_patch_branch26 (assemble e (CtlI (Bl r) # prog)) (length (ae_bytes e)) r') =
      listing (assemble e (CtlI (Bl r') # prog))"
  by (rule patch_listing [OF assms _ _ insn_puts(1) insn_puts(1)]
        patch_listing [OF assms _ _ insn_puts(2) insn_puts(2)];
      simp add: aarch64_enc_patch_branch26_def patch_words; simp add: or_ac)+

lemma patch_imm19:
  assumes "aligned e" "list_all insn_ok prog"
  shows "ctl_ok (Bcond cc r) \<Longrightarrow> ctl_ok (Bcond cc r') \<Longrightarrow>
      listing (aarch64_enc_patch_imm19 (assemble e (CtlI (Bcond cc r) # prog)) (length (ae_bytes e)) r') =
      listing (assemble e (CtlI (Bcond cc r') # prog))"
    and "ctl_ok (Cbz sf nz rt r) \<Longrightarrow> ctl_ok (Cbz sf nz rt r') \<Longrightarrow>
      listing (aarch64_enc_patch_imm19 (assemble e (CtlI (Cbz sf nz rt r) # prog)) (length (ae_bytes e)) r') =
      listing (assemble e (CtlI (Cbz sf nz rt r') # prog))"
  by (rule patch_listing [OF assms _ _ insn_puts(3) insn_puts(3)]
        patch_listing [OF assms _ _ insn_puts(4) insn_puts(4)];
      simp add: aarch64_enc_patch_imm19_def patch_words; simp add: or_ac)+

lemma patch_adrp:
  assumes "aligned e" "list_all insn_ok prog"
  shows "ctl_ok (Adrp rd r) \<Longrightarrow> ctl_ok (Adrp rd r') \<Longrightarrow>
      listing (aarch64_enc_patch_adrp_imm21 (assemble e (CtlI (Adrp rd r) # prog)) (length (ae_bytes e)) r') =
      listing (assemble e (CtlI (Adrp rd r') # prog))"
  by (rule patch_listing [OF assms _ _ insn_puts(5) insn_puts(5)];
      simp add: aarch64_enc_patch_adrp_imm21_def Let_def patch_words; simp add: or_ac)

lemma patch_add_imm:
  assumes "aligned e" "list_all insn_ok prog" "imm < 4096" "imm' < 4096"
    and "int_ok (AddImm sf rd rn imm)" "int_ok (AddImm sf rd rn imm')"
  shows "listing (aarch64_enc_patch_imm12 (assemble e (IntI (AddImm sf rd rn imm) # prog)) (length (ae_bytes e)) imm') =
      listing (assemble e (IntI (AddImm sf rd rn imm') # prog))"
  by (rule patch_listing [OF assms(1,2) _ _ add_imm_puts [OF assms(5,3)] add_imm_puts [OF assms(6,4)]];
      use assms(3-6) in \<open>simp add: aarch64_enc_patch_imm12_def patch_words\<close>;
      simp add: or_ac)

end
