(* ===== verification/A64MovImm.thy ===== *)
theory A64MovImm
  imports A64RoundInt
begin

text \<open>
  \<^verbatim>\<open>aarch64_enc_mov_imm\<close> of \<^verbatim>\<open>enc_arm64.c\<close>: the instructions it appends, executed as the
  architecture defines \<^verbatim>\<open>movz\<close>, \<^verbatim>\<open>movk\<close> and \<^verbatim>\<open>movn\<close>, put the immediate into the register.
\<close>

section \<open>Executing wide moves\<close>

text \<open>The value of the destination register after a wide move, by the fields of its word.\<close>

definition wide_exec :: "u32 \<Rightarrow> u64 \<Rightarrow> u64" where
  "wide_exec w v =
     (let sh = unat (fld w 21 2) * 16; imm = push_bit sh (ucast (fld w 5 16) :: u64);
          r = (if fld w 29 2 = 2 then imm
               else if fld w 29 2 = 3 then (v AND NOT (push_bit sh 0xFFFF)) OR imm
               else NOT imm)
      in if fld w 31 1 = 0 then take_bit 32 r else r)"

definition is_wide_move :: "u32 \<Rightarrow> u32 \<Rightarrow> u32 \<Rightarrow> bool" where
  "is_wide_move sf rd w \<longleftrightarrow> w AND 0x1F800000 = 0x12800000 \<and> fld w 31 1 = sf \<and> fld w 0 5 = rd \<and> fld w 29 2 \<noteq> 1"

definition word_bytes4 :: "u32 \<Rightarrow> u8 list" where
  "word_bytes4 w = [ucast w, ucast (drop_bit 8 w), ucast (drop_bit 16 w), ucast (drop_bit 24 w)]"

section \<open>The loop\<close>

text \<open>The words the loop appends.\<close>

definition chunk :: "u64 \<Rightarrow> nat \<Rightarrow> u16" where
  "chunk imm hw = ucast (drop_bit (hw * 16) imm AND 0xFFFF)"

fun mov_words :: "u32 \<Rightarrow> u32 \<Rightarrow> u64 \<Rightarrow> bool \<Rightarrow> nat list \<Rightarrow> u32 list" where
  "mov_words rd sf imm placed [] = []"
| "mov_words rd sf imm placed (hw # hws) =
     (if chunk imm hw = 0 \<and> \<not> placed \<and> hw < 3 then mov_words rd sf imm placed hws
      else if \<not> placed
      then aarch64_mov_wide sf 2 rd (chunk imm hw) (of_nat hw) # mov_words rd sf imm True hws
      else if chunk imm hw \<noteq> 0
      then aarch64_mov_wide sf 3 rd (chunk imm hw) (of_nat hw) # mov_words rd sf imm placed hws
      else mov_words rd sf imm placed hws)"

lemma mov_imm_loop_bytes:
  "ae_bytes (mov_imm_loop e rd sf imm placed hws) =
     ae_bytes e @ concat (map word_bytes4 (mov_words rd sf imm placed hws))"
proof (induction e rd sf imm placed hws rule: mov_imm_loop.induct)
  case (2 e rd sf imm placed hw hws)
  have z: "ucast (ucast (chunk imm hw) :: u32) = chunk imm hw"
    by (rule bit_word_eqI) (auto simp: bit_simps)
  show ?case
    using 2 [OF refl]
    by (auto simp: chunk_def [symmetric] Let_def aarch64_enc_movz_def aarch64_enc_movk_def z put_word_bytes
        word_bytes4_def)
qed simp

lemma wide_fields:
  assumes "sf < 2" "rd < 32" "opc < 4" "hw < 4"
  shows "fld (aarch64_mov_wide sf opc rd imm (of_nat hw)) 31 1 = sf"
    "fld (aarch64_mov_wide sf opc rd imm (of_nat hw)) 29 2 = opc"
    "unat (fld (aarch64_mov_wide sf opc rd imm (of_nat hw)) 21 2) = hw"
    "fld (aarch64_mov_wide sf opc rd imm (of_nat hw)) 5 16 = ucast imm"
    "fld (aarch64_mov_wide sf opc rd imm (of_nat hw)) 0 5 = rd"
    "aarch64_mov_wide sf opc rd imm (of_nat hw) AND 0x1F800000 = 0x12800000"
proof -
  have h: "unat (of_nat hw :: u32) = hw" using assms(4) by (simp add: unsigned_of_nat take_bit_nat_eq_self)
  then have h4: "(of_nat hw :: u32) < 4" using assms(4) by (simp add: word_less_nat_alt)
  have i: "(ucast imm :: u32) < 65536"
  proof -
    have "unat imm < 2 ^ LENGTH(16)" by (rule unsigned_less)
    then show ?thesis by (simp add: word_less_nat_alt unsigned_ucast_eq take_bit_nat_eq_self)
  qed
  note r = aarch64_mov_wide_def enc_words imm16_range
  show "fld (aarch64_mov_wide sf opc rd imm (of_nat hw)) 31 1 = sf"
    using assms h4 i by (simp add: r)
  show "fld (aarch64_mov_wide sf opc rd imm (of_nat hw)) 29 2 = opc"
    using assms h4 i by (simp add: r)
  show "unat (fld (aarch64_mov_wide sf opc rd imm (of_nat hw)) 21 2) = hw"
    using assms h4 i h by (simp add: r)
  show "fld (aarch64_mov_wide sf opc rd imm (of_nat hw)) 5 16 = ucast imm"
    using assms h4 i by (simp add: r)
  show "fld (aarch64_mov_wide sf opc rd imm (of_nat hw)) 0 5 = rd"
    using assms h4 i by (simp add: r)
  show "aarch64_mov_wide sf opc rd imm (of_nat hw) AND 0x1F800000 = 0x12800000"
    using assms h4 i by (simp add: r)
qed

text \<open>The register after the chunks below \<open>hw\<close>, and one step further.\<close>

lemma take_chunk:
  fixes imm :: u64
  assumes "hw < 4"
  shows "push_bit (hw * 16) (ucast (ucast (chunk imm hw) :: u32)) =
      push_bit (hw * 16) (take_bit 16 (drop_bit (hw * 16) imm))"
    and "(take_bit (hw * 16) imm AND NOT (push_bit (hw * 16) 0xFFFF)) OR
      push_bit (hw * 16) (take_bit 16 (drop_bit (hw * 16) imm)) = take_bit (hw * 16 + 16) imm"
    and "chunk imm hw = 0 \<Longrightarrow> take_bit (hw * 16 + 16) imm = take_bit (hw * 16) imm"
proof -
  have m: "(0xFFFF :: u64) = mask 16" by (simp add: mask_numeral)
  have c: "chunk imm hw = ucast (take_bit 16 (drop_bit (hw * 16) imm))"
    by (simp add: chunk_def m take_bit_eq_mask)
  show "push_bit (hw * 16) (ucast (ucast (chunk imm hw) :: u32)) =
      push_bit (hw * 16) (take_bit 16 (drop_bit (hw * 16) imm))"
    unfolding c by (rule arg_cong [where f = "push_bit (hw * 16)"], rule bit_word_eqI) (auto simp: bit_simps)
  show "(take_bit (hw * 16) imm AND NOT (push_bit (hw * 16) 0xFFFF)) OR
      push_bit (hw * 16) (take_bit 16 (drop_bit (hw * 16) imm)) = take_bit (hw * 16 + 16) imm"
    unfolding m by (rule bit_word_eqI) (auto simp: bit_simps)
  assume z: "chunk imm hw = 0"
  show "take_bit (hw * 16 + 16) imm = take_bit (hw * 16) imm"
  proof (rule bit_word_eqI)
    fix n assume "n < LENGTH(64)"
    have "\<not> bit (chunk imm hw) (n - hw * 16)" using z by simp
    then show "bit (take_bit (hw * 16 + 16) imm) n = bit (take_bit (hw * 16) imm) n"
      unfolding c by (cases "hw * 16 \<le> n \<and> n < hw * 16 + 16") (auto simp: bit_simps)
  qed
qed

text \<open>One instruction of the sequence, executed.\<close>

lemma wide_exec_step:
  assumes "sf < 2" "rd < 32" "hw < 4" "sf = 0 \<Longrightarrow> take_bit 32 imm = imm"
  shows "wide_exec (aarch64_mov_wide sf 3 rd (chunk imm hw) (of_nat hw)) (take_bit (hw * 16) imm) =
      take_bit (hw * 16 + 16) imm"
    and "take_bit (hw * 16) imm = 0 \<Longrightarrow>
      wide_exec (aarch64_mov_wide sf 2 rd (chunk imm hw) (of_nat hw)) v = take_bit (hw * 16 + 16) imm"
proof -
  have t: "take_bit 32 (take_bit j imm) = take_bit j imm" if "sf = 0" for j
    using assms(4) [OF that] by (metis take_bit_take_bit min.commute)
  note f = wide_fields [OF assms(1,2) _ assms(3), unfolded One_nat_def]
  show "wide_exec (aarch64_mov_wide sf 3 rd (chunk imm hw) (of_nat hw)) (take_bit (hw * 16) imm) =
      take_bit (hw * 16 + 16) imm"
    using t by (simp add: wide_exec_def Let_def f take_chunk(1,2) [OF assms(3)])
  assume "take_bit (hw * 16) imm = 0"
  then show "wide_exec (aarch64_mov_wide sf 2 rd (chunk imm hw) (of_nat hw)) v = take_bit (hw * 16 + 16) imm"
    using t take_chunk(2) [OF assms(3), of imm] by (simp add: wide_exec_def Let_def f take_chunk(1) [OF assms(3)])
qed

text \<open>The loop from \<open>hw\<close> on completes the immediate, whether or not an instruction was emitted before.\<close>

definition completes :: "u32 \<Rightarrow> u32 \<Rightarrow> u64 \<Rightarrow> nat list \<Rightarrow> nat \<Rightarrow> bool" where
  "completes rd sf imm hws hw \<longleftrightarrow>
     fold wide_exec (mov_words rd sf imm True hws) (take_bit (hw * 16) imm) = imm \<and>
     (take_bit (hw * 16) imm = 0 \<longrightarrow> (\<forall>v. fold wide_exec (mov_words rd sf imm False hws) v = imm))"

lemma completes_step:
  assumes "sf < 2" "rd < 32" "hw < 4" "sf = 0 \<Longrightarrow> take_bit 32 imm = imm" "imm \<noteq> 0"
    and "hw < 3 \<Longrightarrow> completes rd sf imm hws (Suc hw)" "hw = 3 \<Longrightarrow> hws = []"
  shows "completes rd sf imm (hw # hws) hw"
proof -
  have e: "Suc hw * 16 = hw * 16 + 16" by simp
  have full: "take_bit (hw * 16 + 16) imm = imm" "hws = []" if "\<not> hw < 3"
  proof -
    have "hw = 3" using that assms(3) by simp
    then show "take_bit (hw * 16 + 16) imm = imm" "hws = []"
      using assms(7) take_bit_word_eq_self [of 64 imm] by simp_all
  qed
  have R: "fold wide_exec (mov_words rd sf imm True hws) (take_bit (hw * 16 + 16) imm) = imm"
    "take_bit (hw * 16 + 16) imm = 0 \<Longrightarrow> fold wide_exec (mov_words rd sf imm False hws) v = imm" for v
  proof -
    show "fold wide_exec (mov_words rd sf imm True hws) (take_bit (hw * 16 + 16) imm) = imm"
      using assms(6) [unfolded completes_def e] full by (cases "hw < 3") simp_all
    show "take_bit (hw * 16 + 16) imm = 0 \<Longrightarrow> fold wide_exec (mov_words rd sf imm False hws) v = imm"
      using assms(6) [unfolded completes_def e] full(1) assms(5) by (cases "hw < 3") (blast, simp)
  qed
  note s = wide_exec_step [OF assms(1-4)]
  show ?thesis
  proof (cases "chunk imm hw = 0")
    case True
    note t = take_chunk(3) [OF assms(3) True]
    have "take_bit (hw * 16) imm \<noteq> 0" if "\<not> hw < 3"
      using full(1) [OF that] t assms(5) by simp
    then show ?thesis using R t True by (auto simp: completes_def)
  next
    case False
    then show ?thesis using R(1) s by (auto simp: completes_def)
  qed
qed

lemma mov_loop_completes:
  assumes "sf < 2" "rd < 32" "sf = 0 \<Longrightarrow> take_bit 32 imm = imm" "imm \<noteq> 0"
  shows "fold wide_exec (mov_words rd sf imm False [0, 1, 2, 3]) v = imm"
proof -
  note step = completes_step [OF assms(1,2) _ assms(3,4)]
  have "completes rd sf imm [3] 3" by (rule step) simp_all
  then have "completes rd sf imm [2, 3] 2" by (intro step) (simp_all add: eval_nat_numeral)
  then have "completes rd sf imm [1, 2, 3] 1" by (intro step) (simp_all add: eval_nat_numeral)
  then have "completes rd sf imm [0, 1, 2, 3] 0" by (intro step) simp_all
  then show ?thesis by (simp add: completes_def)
qed

lemma mov_words_wide:
  assumes "sf < 2" "rd < 32" "list_all (\<lambda>hw. hw < 4) hws"
  shows "list_all (is_wide_move sf rd) (mov_words rd sf imm placed hws)"
  using assms(3)
  by (induction hws arbitrary: placed)
    (auto simp: is_wide_move_def wide_fields [OF assms(1,2)] wide_fields [OF assms(1,2), unfolded One_nat_def])

lemma mov_words_length:
  "length (mov_words rd sf imm True hws) = length (filter (\<lambda>hw. chunk imm hw \<noteq> 0) hws)"
  by (induction hws) auto


text \<open>
  C20. The instructions \<^verbatim>\<open>aarch64_enc_mov_imm\<close> appends are wide moves to the register \<open>rd\<close> at the requested
  width, at most four of them, and executing them in order leaves exactly the immediate in the
  register, whatever was in it before. The 32-bit form is called with immediates of 32 bits.
\<close>

theorem aarch64_enc_mov_imm_loads:
  assumes "sf < 2" "rd < 32" "sf = 0 \<Longrightarrow> take_bit 32 imm = imm"
  shows "\<exists>ws. ae_bytes (aarch64_enc_mov_imm e rd sf imm) = ae_bytes e @ concat (map word_bytes4 ws) \<and>
     list_all (is_wide_move sf rd) ws \<and> length ws \<in> {1..4} \<and> (\<forall>v. fold wide_exec ws v = imm)"
proof (cases "imm = 0")
  case True
  let ?w = "aarch64_mov_wide sf 2 rd 0 (of_nat 0)"
  note f = wide_fields [OF assms(1,2), of 2 0 0, unfolded One_nat_def, simplified]
  have "is_wide_move sf rd ?w" "wide_exec ?w v = 0" for v
    by (simp_all add: is_wide_move_def wide_exec_def Let_def f)
  then show ?thesis
    by (intro exI [of _ "[?w]"])
      (simp add: True aarch64_enc_mov_imm_def aarch64_enc_movz_def put_word_bytes word_bytes4_def)
next
  case False
  obtain ws where ws: "ws = mov_words rd sf imm False [0, 1, 2, 3]" by simp
  note ex = mov_loop_completes [OF assms False, folded ws]
  have "length ws \<le> 4" by (simp add: ws)
  moreover have "ws \<noteq> []" using ex [of "imm + 1"] by (cases ws) simp_all
  ultimately have len: "length ws \<in> {1..4}" by (cases ws) simp_all
  have "list_all (is_wide_move sf rd) ws" unfolding ws by (rule mov_words_wide [OF assms(1,2)]) simp
  moreover have "ae_bytes (aarch64_enc_mov_imm e rd sf imm) = ae_bytes e @ concat (map word_bytes4 ws)"
    using False by (simp only: aarch64_enc_mov_imm_def if_False mov_imm_loop_bytes ws)
  ultimately show ?thesis using ex len by blast
qed

theorem aarch64_enc_mov_imm_loads_witness:
  "\<exists>ws. ae_bytes (aarch64_enc_mov_imm \<lparr>ae_bytes = [], ae_cap = 0\<rparr> 3 1 0x123400005678) = concat (map word_bytes4 ws) \<and>
     list_all (is_wide_move 1 3) ws \<and> length ws \<in> {1..4} \<and> (\<forall>v. fold wide_exec ws v = 0x123400005678)"
  using aarch64_enc_mov_imm_loads [of 1 3 "0x123400005678" "\<lparr>ae_bytes = [], ae_cap = 0\<rparr>"] by simp

end
