(* ===== verification/A64Names.thy ===== *)
theory A64Names
  imports A64RoundCtl
begin

text \<open>
  The name tables of the assembler in \<^verbatim>\<open>enc_arm64.c\<close> (conditions, barrier options, system registers,
  PSTATE fields), and that it reads the names its disassembler prints. C strings are lists
  of characters without the terminating zero; a function that fails returns \<open>None\<close>. The decimal
  numbers of a generic register name are read as integers (the C reads them into an \<^verbatim>\<open>int\<close>, with no
  behaviour defined beyond its range).
\<close>

section \<open>Names\<close>

definition tolower :: "char \<Rightarrow> nat" where
  "tolower c = (let n = of_char c in if 65 \<le> n \<and> n \<le> 90 then n + 32 else n)"

fun aarch64_streq_ci :: "string \<Rightarrow> string \<Rightarrow> bool" where
  "aarch64_streq_ci (a # as) (b # bs) = (if tolower a \<noteq> tolower b then False else aarch64_streq_ci as bs)"
| "aarch64_streq_ci as bs = (as = [] \<and> bs = [])"

fun lookup_ci :: "string \<Rightarrow> (string \<times> 'a) list \<Rightarrow> 'a option" where
  "lookup_ci name [] = None"
| "lookup_ci name ((n, v) # tab) = (if aarch64_streq_ci name n then Some v else lookup_ci name tab)"

definition aarch64_parse_cond_suffix :: "string \<Rightarrow> u32 option" where
  "aarch64_parse_cond_suffix cc = lookup_ci cc
     [(''eq'', 0), (''ne'', 1), (''cs'', 2), (''hs'', 2), (''cc'', 3), (''lo'', 3), (''mi'', 4), (''pl'', 5),
      (''vs'', 6), (''vc'', 7), (''hi'', 8), (''ls'', 9), (''ge'', 10), (''lt'', 11), (''gt'', 12), (''le'', 13),
      (''al'', 14)]"

definition aarch64_barrier_option_from_name :: "string \<Rightarrow> int" where
  "aarch64_barrier_option_from_name name =
     (case lookup_ci name
        [(''oshld'', 1), (''oshst'', 2), (''osh'', 3), (''nshld'', 5), (''nshst'', 6), (''nsh'', 7), (''ishld'', 9),
         (''ishst'', 10), (''ish'', 11), (''ld'', 13), (''st'', 14), (''sy'', 15)] of
        Some v \<Rightarrow> v | None \<Rightarrow> - 1)"

definition aarch64_pstate_from_name :: "string \<Rightarrow> (u32 \<times> u32) option" where
  "aarch64_pstate_from_name name = lookup_ci name
     [(''spsel'', (0, 5)), (''daifset'', (3, 6)), (''daifclr'', (3, 7)), (''uao'', (0, 3)), (''pan'', (0, 4))]"

definition aarch64_sysreg_pack :: "int \<Rightarrow> int \<Rightarrow> int \<Rightarrow> int \<Rightarrow> int \<Rightarrow> u16" where
  "aarch64_sysreg_pack op0 op1 crn crm op2 =
     word_of_int (push_bit 14 (op0 AND 1) OR push_bit 11 (op1 AND 7) OR push_bit 7 (crn AND 0xF) OR
                  push_bit 3 (crm AND 0xF) OR (op2 AND 7))"

definition sysreg_tab :: "(string \<times> int \<times> int \<times> int \<times> int \<times> int) list" where
  "sysreg_tab =
     [(''nzcv'', 3, 3, 4, 2, 0), (''daif'', 3, 3, 4, 2, 1), (''fpcr'', 3, 3, 4, 4, 0), (''fpsr'', 3, 3, 4, 4, 1),
      (''tpidr_el0'', 3, 3, 13, 0, 2), (''tpidrro_el0'', 3, 3, 13, 0, 3), (''cntfrq_el0'', 3, 3, 14, 0, 0),
      (''cntvct_el0'', 3, 3, 14, 0, 2), (''cntpct_el0'', 3, 3, 14, 0, 1), (''ctr_el0'', 3, 3, 0, 0, 1),
      (''dczid_el0'', 3, 3, 0, 0, 7), (''midr_el1'', 3, 0, 0, 0, 0), (''mpidr_el1'', 3, 0, 0, 0, 5)]"

definition is_digit :: "char \<Rightarrow> bool" where
  "is_digit c \<longleftrightarrow> (48 :: nat) \<le> of_char c \<and> of_char c \<le> (57 :: nat)"

fun read_digits :: "int \<Rightarrow> string \<Rightarrow> int \<times> string" where
  "read_digits v [] = (v, [])"
| "read_digits v (c # p) = (if is_digit c then read_digits (v * 10 + (of_char c - 48)) p else (v, c # p))"

text \<open>The loop over the five parts; \<open>n\<close> counts the parts still to be read.\<close>

fun read_parts :: "nat \<Rightarrow> string \<Rightarrow> int list \<Rightarrow> int list \<times> string" where
  "read_parts 0 p parts = (parts, p)"
| "read_parts (Suc n) p parts =
     (let p = (case p of c # q \<Rightarrow> if c = CHR ''c'' \<or> c = CHR ''C'' then q else p | [] \<Rightarrow> p) in
      if p = [] \<or> \<not> is_digit (hd p) then (parts, p)
      else (let (v, p) = read_digits 0 p; parts = parts @ [v] in
            if p \<noteq> [] \<and> hd p = CHR ''_'' then read_parts n (tl p) parts else (parts, p)))"

definition aarch64_sysreg_from_name :: "string \<Rightarrow> u16 option" where
  "aarch64_sysreg_from_name name =
     (case lookup_ci name sysreg_tab of
        Some (op0, op1, crn, crm, op2) \<Rightarrow> Some (aarch64_sysreg_pack op0 op1 crn crm op2)
      | None \<Rightarrow>
         if name \<noteq> [] \<and> (hd name = CHR ''s'' \<or> hd name = CHR ''S'') then
           (let (parts, p) = read_parts 5 (tl name) [] in
            if length parts = 5 \<and> p = [] \<and> (parts ! 0 = 2 \<or> parts ! 0 = 3) \<and> 0 \<le> parts ! 1 \<and> parts ! 1 \<le> 7 \<and>
               0 \<le> parts ! 2 \<and> parts ! 2 \<le> 15 \<and> 0 \<le> parts ! 3 \<and> parts ! 3 \<le> 15 \<and> 0 \<le> parts ! 4 \<and> parts ! 4 \<le> 7
            then Some (aarch64_sysreg_pack (parts ! 0) (parts ! 1) (parts ! 2) (parts ! 3) (parts ! 4)) else None)
         else None)"

section \<open>Reading what was printed\<close>

lemma dec_digit_is_digit: "d < 10 \<Longrightarrow> is_digit (dec_digit d) \<and> (of_char (dec_digit d) :: int) - 48 = int d"
proof -
  assume "d < 10"
  then have "d \<in> {0, 1, 2, 3, 4, 5, 6, 7, 8, 9}" by auto
  then show ?thesis by (auto simp: dec_digit_def is_digit_def)
qed


lemma read_digits_stop: "p = [] \<or> \<not> is_digit (hd p) \<Longrightarrow> read_digits v p = (v, p)"
  by (cases p) auto

lemma dec_of_small: "n < 16 \<Longrightarrow> dec_of n = (if n < 10 then [dec_digit n] else [dec_digit 1, dec_digit (n - 10)])"
proof -
  assume "n < 16"
  then have "\<not> n < 10 \<Longrightarrow> n div 10 = 1 \<and> n mod 10 = n - 10" by presburger
  then show ?thesis by (simp add: dec_of.simps [of n] dec_of.simps [of "Suc 0"])
qed

lemma read_digits_number:
  assumes "n < 16" "p = [] \<or> \<not> is_digit (hd p)"
  shows "read_digits 0 (dec_of n @ p) = (int n, p)"
proof -
  have "read_digits v (dec_digit d # q) = read_digits (v * 10 + int d) q" if "d < 10" for v d q
    using dec_digit_is_digit [OF that] by simp
  then show ?thesis
    using assms read_digits_stop [OF assms(2)] by (simp add: dec_of_small del: read_digits.simps)
qed

lemma dec_of_number:
  assumes "n < 16"
  shows "\<exists>c r. dec_of n = c # r \<and> is_digit c \<and> c \<noteq> CHR ''c'' \<and> c \<noteq> CHR ''C''"
proof -
  have "\<not> is_digit (CHR ''c'')" "\<not> is_digit (CHR ''C'')" by (simp_all add: is_digit_def)
  then show ?thesis
    using assms dec_digit_is_digit [of n] dec_digit_is_digit [of 1] by (auto simp: dec_of_small)
qed

lemma less_16: "n < 16 \<Longrightarrow> n \<in> {0, 1, 2, 3, 4, 5, 6, 7, 8, 9, 10, 11, 12, 13, 14, 15 :: nat}"
  by (simp add: eval_nat_numeral less_Suc_eq disj_commute disj_left_commute)

lemma read_parts_number:
  assumes "n < 16"
  shows "read_parts (Suc k) (dec_of n @ ''_'' @ q) parts = read_parts k q (parts @ [int n])"
    and "read_parts (Suc k) (CHR ''c'' # dec_of n @ ''_'' @ q) parts = read_parts k q (parts @ [int n])"
    and "read_parts (Suc k) (dec_of n) parts = (parts @ [int n], [])"
proof -
  obtain c r where d: "dec_of n = c # r" and c: "is_digit c" "c \<noteq> CHR ''c''" "c \<noteq> CHR ''C''"
    using dec_of_number [OF assms] by blast
  have u: "\<not> is_digit (hd (CHR ''_'' # q))" by (simp add: is_digit_def)
  show "read_parts (Suc k) (dec_of n @ ''_'' @ q) parts = read_parts k q (parts @ [int n])"
    "read_parts (Suc k) (CHR ''c'' # dec_of n @ ''_'' @ q) parts = read_parts k q (parts @ [int n])"
    using read_digits_number [OF assms, of "CHR ''_'' # q"] u c d by simp_all
  show "read_parts (Suc k) (dec_of n) parts = (parts @ [int n], [])"
    using read_digits_number [OF assms, of "[]"] c d by simp
qed

text \<open>A generic name is none of the table's: its second character is a digit.\<close>

lemma generic_not_listed:
  assumes "is_digit c"
  shows "lookup_ci (CHR ''s'' # c # r) sysreg_tab = None"
  using assms by (simp add: sysreg_tab_def tolower_def is_digit_def Let_def)

lemma sysreg_generic:
  assumes "o0 = 2 \<or> o0 = 3" "op1 < 8" "crn < 16" "crm < 16" "op2 < 8"
  shows "aarch64_sysreg_from_name
           (''s'' @ dec_of o0 @ ''_'' @ dec_of op1 @ ''_c'' @ dec_of crn @ ''_c'' @ dec_of crm @ ''_'' @ dec_of op2) =
         Some (aarch64_sysreg_pack (int o0) (int op1) (int crn) (int crm) (int op2))"
    (is "aarch64_sysreg_from_name (''s'' @ ?p) = _")
proof -
  have o0: "o0 < 16" "op1 < 16" "op2 < 16" using assms by auto
  obtain c r where d: "dec_of o0 = c # r" and "is_digit c" using dec_of_number [OF o0(1)] by blast
  then have tab: "lookup_ci (''s'' @ ?p) sysreg_tab = None" using generic_not_listed d by simp
  have five: "(5 :: nat) = Suc (Suc (Suc (Suc (Suc 0))))" by simp
  have parts: "read_parts 5 ?p [] = ([int o0, int op1, int crn, int crm, int op2], [])"
    unfolding five using read_parts_number(1) [OF o0(1)] read_parts_number(1) [OF o0(2)]
      read_parts_number(2) [OF assms(3)] read_parts_number(2) [OF assms(4)] read_parts_number(3) [OF o0(3)]
    by simp
  show ?thesis
    unfolding aarch64_sysreg_from_name_def tab using parts assms by auto
qed

lemma sysreg_mrs_name:
  assumes "o0 = 2 \<or> o0 = 3" "unat op1 < 8" "unat crn < 16" "unat crm < 16" "unat op2 < 8"
  shows "aarch64_sysreg_from_name (mrs_name o0 op1 crn crm op2) =
         Some (aarch64_sysreg_pack (uint o0) (uint op1) (uint crn) (uint crm) (uint op2))"
proof -
  have "unat o0 = 2 \<or> unat o0 = 3" using assms(1) by auto
  note g = sysreg_generic [OF this assms(2-5)]
  show ?thesis
    unfolding mrs_name_def using g
    by (auto simp: fmt_u_def aarch64_sysreg_from_name_def sysreg_tab_def tolower_def Let_def)
qed

text \<open>Packing the fields of a register number gives it back.\<close>

lemma sysreg_pack_fields:
  fixes s :: u16
  assumes "s < 0x8000"
  shows "aarch64_sysreg_pack (uint (fld (ucast s) 14 1 + 2)) (uint (fld (ucast s) 11 3)) (uint (fld (ucast s) 7 4))
           (uint (fld (ucast s) 3 4)) (uint (fld (ucast s) 0 3)) = s"
proof -
  define x :: u32 where "x = ucast s"
  have bx: "bit x j \<longleftrightarrow> bit s j" for j
    using bit_imp_le_length [of s j] by (auto simp: x_def bit_simps)
  have "take_bit 15 s = s"
    using assms by (simp add: word_unat_eq_iff unsigned_take_bit_eq take_bit_nat_eq_self word_less_nat_alt)
  then have s15: "\<not> bit s 15" by (metis bit_take_bit_iff less_irrefl)
  have "fld x 14 1 = 0 \<or> fld x 14 1 = 1"
    using unat_fld_less [of 1 x 14] by (auto simp: less_2_cases_iff word_unat_eq_iff)
  then have o: "uint (fld x 14 1 + 2) AND 1 = uint (fld x 14 1)" by auto
  have m: "uint (fld x k n) AND mask n = uint (fld x k n)" for k n
    by (rule bit_eqI) (auto simp: bit_simps)
  have masks: "(7 :: int) = mask 3" "(0xF :: int) = mask 4" by (simp_all add: mask_numeral)
  show ?thesis
    unfolding aarch64_sysreg_pack_def x_def [symmetric] o masks m
  proof (rule bit_word_eqI)
    fix j assume "j < LENGTH(16)"
    then have "j < 16" by simp
    note less_16 [OF this]
    then show "bit (word_of_int (push_bit 14 (uint (fld x 14 1)) OR push_bit 11 (uint (fld x 11 3)) OR
        push_bit 7 (uint (fld x 7 4)) OR push_bit 3 (uint (fld x 3 4)) OR uint (fld x 0 3)) :: u16) j = bit s j"
      by (elim insertE) (simp_all add: bit_simps bx s15 numeral_2_eq_2)
  qed
qed

text \<open>
  C24. Every system register the assembler can name prints as a name it reads back: \<^verbatim>\<open>mrs\<close> and \<^verbatim>\<open>msr\<close>
  of register number \<open>s\<close> disassemble to a line whose register name \<^verbatim>\<open>aarch64_sysreg_from_name\<close> packs to \<open>s\<close>.
\<close>

theorem system_register_roundtrip:
  assumes "aligned e" "rt < 32" "s < 0x8000"
  shows "\<exists>name. aarch64_sysreg_from_name name = Some s \<and>
    emits e (aarch64_enc_mrs e rt s) (asm ''mrs'' [R 1 rt, name]) \<and>
    emits e (aarch64_enc_msr_reg e s rt) (asm ''msr'' [name, R 1 rt])"
proof -
  define x :: u32 where "x = ucast s"
  have x: "ucast s = low 15 x" unfolding x_def
    using assms(3) by (subst low_id) (simp_all add: word_less_nat_alt unsigned_ucast_eq take_bit_nat_eq_self)
  have low: "low 3 x = fld x 0 3" by (simp add: low_def fld_def)
  define name where "name = mrs_name (fld x 14 1 + 2) (fld x 11 3) (fld x 7 4) (fld x 3 4) (fld x 0 3)"
  have "fld x 14 1 = 0 \<or> fld x 14 1 = 1"
    using unat_fld_less [of 1 x 14] by (auto simp: less_2_cases_iff word_unat_eq_iff)
  then have "fld x 14 1 + 2 = 2 \<or> fld x 14 1 + 2 = 3" by auto
  then have "aarch64_sysreg_from_name name = Some s"
    using sysreg_mrs_name [of "fld x 14 1 + 2" "fld x 11 3" "fld x 7 4" "fld x 3 4" "fld x 0 3"]
      unat_fld_less [of 3 x 11] unat_fld_less [of 4 x 7] unat_fld_less [of 4 x 3] unat_fld_less [of 3 x 0]
      sysreg_pack_fields [OF assms(3)]
    by (simp add: name_def x_def)
  moreover have "emits e (aarch64_enc_mrs e rt s) (asm ''mrs'' [R 1 rt, name])"
    unfolding aarch64_enc_mrs_def x
    by (rule emits_mrs_msr [OF assms(1)];
        use assms(2) in \<open>simp add: enc_words dec_mrs_msr_def texts sep_def name_def low\<close>)
  moreover have "emits e (aarch64_enc_msr_reg e s rt) (asm ''msr'' [name, R 1 rt])"
    unfolding aarch64_enc_msr_reg_def x
    by (rule emits_mrs_msr [OF assms(1)];
        use assms(2) in \<open>simp add: enc_words dec_mrs_msr_def texts sep_def name_def low\<close>)
  ultimately show ?thesis by blast
qed

theorem system_register_roundtrip_witness:
  "\<exists>name. aarch64_sysreg_from_name name = Some 0x5E82 \<and>
    emits \<lparr>ae_bytes = [], ae_cap = 0\<rparr> (aarch64_enc_mrs \<lparr>ae_bytes = [], ae_cap = 0\<rparr> 3 0x5E82)
      (asm ''mrs'' [R 1 3, name]) \<and>
    emits \<lparr>ae_bytes = [], ae_cap = 0\<rparr> (aarch64_enc_msr_reg \<lparr>ae_bytes = [], ae_cap = 0\<rparr> 0x5E82 3)
      (asm ''msr'' [name, R 1 3])"
  by (rule system_register_roundtrip) (simp_all add: aligned_def)

lemma word_less_16: "w < 16 \<Longrightarrow> w \<in> {0, 1, 2, 3, 4, 5, 6, 7, 8, 9, 10, 11, 12, 13, 14, 15 :: u32}"
  using less_16 [of "unat w"] by (simp add: word_less_nat_alt word_unat_eq_iff)

lemma cond_name_parses: "cc < 15 \<Longrightarrow> aarch64_parse_cond_suffix (cond_name cc) = Some cc"
proof -
  assume cc: "cc < 15"
  then have "cc < 16" by (rule less_trans) simp
  note word_less_16 [OF this]
  then show ?thesis
    using cc by (elim insertE) (simp_all add: cond_name_def aarch64_parse_cond_suffix_def tolower_def Let_def)
qed

lemma barrier_name_parses:
  "crm < 16 \<Longrightarrow> crm \<notin> {0, 4, 8, 12 :: u32} \<Longrightarrow> aarch64_barrier_option_from_name (barrier_names ! unat crm) = uint crm"
  by (drule word_less_16, elim insertE) (simp_all add: barrier_names_def aarch64_barrier_option_from_name_def tolower_def Let_def)

lemma pstate_fields:
  "aarch64_pstate_from_name name = Some (op1, op2) \<Longrightarrow> (op1, op2) \<in> {(0, 5), (3, 6), (3, 7), (0, 3), (0, 4)}"
  by (simp add: aarch64_pstate_from_name_def split: if_splits)

lemma pstate_emits:
  assumes "aligned e" "aarch64_pstate_from_name field = Some (op1, op2)" "imm4 < 16"
  shows "\<exists>name. aarch64_pstate_from_name name = Some (op1, op2) \<and>
    emits e (aarch64_enc_msr_imm e op1 op2 imm4) (asm ''msr'' [name, num imm4])"
proof -
  have "emits e (aarch64_enc_msr_imm e op1 op2 imm4) (asm ''msr'' [name, num imm4])"
    if "((op1, op2), name) \<in> {((0, 5), ''spsel''), ((3, 6), ''daifset''), ((3, 7), ''daifclr''), ((0, 3), ''uao''),
      ((0, 4), ''pan'')}" for name
    unfolding aarch64_enc_msr_imm_def
    by (rule emits_msr_imm [OF assms(1)];
        use that assms(3) in \<open>auto simp add: enc_words low_consts dec_msr_imm_def texts sep_def\<close>)
  moreover have "aarch64_pstate_from_name ''spsel'' = Some (0, 5)" "aarch64_pstate_from_name ''daifset'' = Some (3, 6)"
    "aarch64_pstate_from_name ''daifclr'' = Some (3, 7)" "aarch64_pstate_from_name ''uao'' = Some (0, 3)"
    "aarch64_pstate_from_name ''pan'' = Some (0, 4)"
    by (simp_all add: aarch64_pstate_from_name_def tolower_def Let_def)
  ultimately show ?thesis
    using pstate_fields [OF assms(2)] by (elim insertE emptyE; simp only: prod.inject) blast+
qed

text \<open>
  The other names agree too: the condition of a conditional branch, for every condition but
  \<^verbatim>\<open>nv\<close>, the option of a barrier, for every option that has a name, and every PSTATE field the
  assembler accepts are disassembled to names its tables map to the same numbers.
\<close>

theorem operand_name_roundtrip:
  assumes "aligned e"
    and "cc < 15" "- 262144 \<le> rel" "rel < 262144"
    and "crm < 16" "crm \<notin> {0, 4, 8, 12}"
    and "aarch64_pstate_from_name field = Some (op1, op2)" "imm4 < 16"
  shows "\<exists>cond option pstate.
    aarch64_parse_cond_suffix cond = Some cc \<and>
    emits e (aarch64_enc_b_cond e cc rel) (asm (''b.'' @ cond) [rel_text rel]) \<and>
    aarch64_barrier_option_from_name option = uint crm \<and>
    emits e (aarch64_enc_barrier e 5 crm) (asm ''dmb'' [option]) \<and>
    aarch64_pstate_from_name pstate = Some (op1, op2) \<and>
    emits e (aarch64_enc_msr_imm e op1 op2 imm4) (asm ''msr'' [pstate, num imm4])"
proof -
  have "cc < 16" using assms(2) by (rule less_trans) simp
  then have "emits e (aarch64_enc_b_cond e cc rel) (asm (''b.'' @ cond_name cc) [rel_text rel])"
    using b_cond_emits [OF assms(1), of cc rel] assms(3,4) by simp
  moreover have "emits e (aarch64_enc_barrier e 5 crm) (asm ''dmb'' [barrier_names ! unat crm])"
    using barrier_emits(2) [OF assms(1), of crm] assms(5) by simp
  ultimately show ?thesis
    using cond_name_parses [OF assms(2)] barrier_name_parses [OF assms(5,6)] pstate_emits [OF assms(1,7,8)] by blast
qed

theorem operand_name_roundtrip_witness:
  "\<exists>cond option pstate.
    aarch64_parse_cond_suffix cond = Some 11 \<and>
    emits \<lparr>ae_bytes = [], ae_cap = 0\<rparr> (aarch64_enc_b_cond \<lparr>ae_bytes = [], ae_cap = 0\<rparr> 11 (- 5))
      (asm (''b.'' @ cond) [rel_text (- 5)]) \<and>
    aarch64_barrier_option_from_name option = uint (11 :: u32) \<and>
    emits \<lparr>ae_bytes = [], ae_cap = 0\<rparr> (aarch64_enc_barrier \<lparr>ae_bytes = [], ae_cap = 0\<rparr> 5 11) (asm ''dmb'' [option]) \<and>
    aarch64_pstate_from_name pstate = Some (3, 6) \<and>
    emits \<lparr>ae_bytes = [], ae_cap = 0\<rparr> (aarch64_enc_msr_imm \<lparr>ae_bytes = [], ae_cap = 0\<rparr> 3 6 15)
      (asm ''msr'' [pstate, num 15])"
  by (rule operand_name_roundtrip [where field = "''DAIFSet''"])
    (simp_all add: aligned_def aarch64_pstate_from_name_def tolower_def)

end
