(* ===== verification/A64Props.thy ===== *)
theory A64Props
  imports A64Prog A64MovImm A64Names "HOL-Library.Multiset"
begin

text \<open>
  What the AArch64 assembler and disassembler promise together: programs are listed back as
  they were written, patching a branch is the same as assembling it with its final distance, the
  disassembler prints every word of a buffer in full, its table has one decoder per word, and
  the encoders that refuse operands leave the buffer alone.
\<close>

text \<open>
  C2. Assembling a program and disassembling the buffer gives the program back: every encoder call
  (integer, load/store, floating point, control flow) adds exactly one line, at its offset and with
  the text of the instruction and its operands, and what was in the buffer before stays.
\<close>

theorem program_listing:
  assumes "aligned e" "list_all insn_ok prog"
  shows "listing (assemble e prog) = listing e @ lines (length (ae_bytes e)) prog \<and>
    length (ae_bytes (assemble e prog)) = length (ae_bytes e) + 4 * length prog \<and>
    take (length (ae_bytes e)) (ae_bytes (assemble e prog)) = ae_bytes e"
  using assemble_lines [OF assms] by blast

definition empty_enc :: asm_enc where
  "empty_enc = \<lparr>ae_bytes = [], ae_cap = 0\<rparr>"

lemma listing_empty: "aligned empty_enc" "listing empty_enc = []" "ae_bytes empty_enc = []"
  by (simp_all add: empty_enc_def listing_map aligned_def)

theorem program_listing_witness:
  "listing (assemble empty_enc
     [CtlI (Cbz 1 0 3 2), IntI (AddImm 1 0 0 0x10), MemI (LdrImm 2 31 16), CtlI Ret]) =
   [(0, ''cbz x3, #+8''), (4, ''add x0, x0, #16''), (8, ''ldr x2, [sp, #16]''), (12, ''ret'')]"
proof -
  let ?prog = "[CtlI (Cbz 1 0 3 2), IntI (AddImm 1 0 0 0x10), MemI (LdrImm 2 31 16), CtlI Ret]"
  have "list_all insn_ok ?prog" by code_simp
  moreover have "lines 0 ?prog =
    [(0, ''cbz x3, #+8''), (4, ''add x0, x0, #16''), (8, ''ldr x2, [sp, #16]''), (12, ''ret'')]" by code_simp
  ultimately show ?thesis using program_listing [OF listing_empty(1), of ?prog] by (simp add: listing_empty)
qed

text \<open>
  C19. Back-patching is assembling: a forward branch (\<^verbatim>\<open>b\<close>, \<^verbatim>\<open>bl\<close>, \<^verbatim>\<open>b.cond\<close>, \<^verbatim>\<open>cbz\<close>) or an \<^verbatim>\<open>adrp\<close> emitted with
  a placeholder and patched after more code has been emitted lists exactly as if it
  had been emitted with its final distance, the code after it included.
\<close>

theorem patching_is_assembling:
  assumes "aligned e" "list_all insn_ok prog"
    and "ctl_ok (B r)" "ctl_ok (B r')" "ctl_ok (Cbz sf nz rt s)" "ctl_ok (Cbz sf nz rt s')"
    and "cc < 16" "ctl_ok (Adrp rd p)" "ctl_ok (Adrp rd p')"
  shows "listing (aarch64_enc_patch_branch26 (assemble e (CtlI (B r) # prog)) (length (ae_bytes e)) r') =
      listing (assemble e (CtlI (B r') # prog)) \<and>
    listing (aarch64_enc_patch_branch26 (assemble e (CtlI (Bl r) # prog)) (length (ae_bytes e)) r') =
      listing (assemble e (CtlI (Bl r') # prog)) \<and>
    listing (aarch64_enc_patch_imm19 (assemble e (CtlI (Bcond cc s) # prog)) (length (ae_bytes e)) s') =
      listing (assemble e (CtlI (Bcond cc s') # prog)) \<and>
    listing (aarch64_enc_patch_imm19 (assemble e (CtlI (Cbz sf nz rt s) # prog)) (length (ae_bytes e)) s') =
      listing (assemble e (CtlI (Cbz sf nz rt s') # prog)) \<and>
    listing (aarch64_enc_patch_adrp_imm21 (assemble e (CtlI (Adrp rd p) # prog)) (length (ae_bytes e)) p') =
      listing (assemble e (CtlI (Adrp rd p') # prog))"
  using patch_branch26 [OF assms(1,2), of r r'] patch_imm19 [OF assms(1,2)] patch_adrp [OF assms(1,2)] assms(3-)
  by (intro conjI) simp_all

theorem patching_is_assembling_witness:
  "listing (aarch64_enc_patch_imm19 (assemble empty_enc [CtlI (Cbz 1 0 3 0), CtlI Ret]) 0 5) =
   listing (assemble empty_enc [CtlI (Cbz 1 0 3 5), CtlI Ret])"
  using patching_is_assembling [OF listing_empty(1), of "[CtlI Ret]" 0 4 1 0 3 0 5 2 7 0 9]
  by (simp add: listing_empty)

text \<open>
  C23. The disassembler terminates on every buffer and loses nothing: one line for each whole word,
  in order, with its offset and its word, and the text is the complete text of the word's
  decoder or \<^verbatim>\<open>.word\<close> directive: the 128-byte line buffer never truncates it.
\<close>

theorem disassembly_complete:
  "length (aarch64_disasm_buf bs) = length bs div 4 \<and>
   (\<forall>k < length bs div 4. \<exists>text. aarch64_disasm_buf bs ! k = (4 * k, word_at bs (4 * k), text) \<and>
      length text \<le> 127 \<and>
      (case dis_loop g_patterns (word_at bs (4 * k)) of
         Some s \<Rightarrow> text = s | None \<Rightarrow> text = ''.word 0x'' @ fmt_08x (word_at bs (4 * k))))"
  using dis_loop_length length_hex_word
  by (auto simp: aarch64_disasm_buf_def disasm_lines_map dis_text_def split: option.splits)

theorem disassembly_complete_witness:
  "aarch64_disasm_buf [0xC0, 0x03, 0x5F, 0xD6, 0, 0, 0, 0, 1] ! 1 = (4, 0, ''.word 0x00000000'')"
proof -
  let ?bs = "[0xC0, 0x03, 0x5F, 0xD6, 0, 0, 0, 0, 1]"
  have w: "word_at ?bs 4 = 0" by (simp add: word_at_def)
  have "dis_loop g_patterns 0 = None" "fmt_08x 0 = ''00000000''" by code_simp+
  then show ?thesis using disassembly_complete [of ?bs] w by (auto dest!: spec [of _ "1 :: nat"])
qed

lemma sorted_wrt_perm:
  assumes "symp r" "sorted_wrt r xs" "mset ys = mset xs"
  shows "sorted_wrt r ys"
  using assms(2,3)
proof (induction xs arbitrary: ys)
  case (Cons x xs)
  have "x \<in> set ys" using Cons.prems(2) by (metis list.set_intros(1) set_mset_mset)
  then obtain us vs where ys: "ys = us @ x # vs" by (meson split_list)
  then have "mset (us @ vs) = mset xs" using Cons.prems(2) by simp
  moreover from this have "set (us @ vs) = set xs" by (metis set_mset_mset)
  ultimately have "sorted_wrt r (us @ vs)" "\<forall>y \<in> set us \<union> set vs. r x y" using Cons by auto
  then show ?case using ys assms(1) by (auto simp: sorted_wrt_append sympD)
qed simp

text \<open>
  C38. The decoding table is unambiguous: a word that matches a pattern and is no \<^verbatim>\<open>prfm\<close> is printed by
  that pattern's decoder, wherever the pattern stands; every arrangement of the other patterns
  decodes every word alike.
\<close>

theorem decoding_unambiguous:
  assumes "(m, v, d) \<in> set main_patterns" "insn AND m = v" "insn AND 0xFFC00000 \<noteq> 0xF9800000"
    and "mset qs = mset main_patterns"
  shows "dis_loop g_patterns insn = d insn \<and> dis_loop qs insn = d insn"
proof
  show g: "dis_loop g_patterns insn = d insn" by (rule dis_loop_decoder [OF assms(1-3)])
  have "symp apart" by (auto intro: sympI apart_sym)
  then have "sorted_wrt apart qs" by (rule sorted_wrt_perm [OF _ a64.disjoint assms(4)])
  moreover have "set qs = set main_patterns" using assms(4) by (metis set_mset_mset)
  ultimately have "dis_loop qs insn = dis_loop main_patterns insn" by (simp add: a64.any_order)
  then show "dis_loop qs insn = d insn" using g dis_loop_main [OF assms(3)] by simp
qed

theorem decoding_unambiguous_witness:
  "dis_loop g_patterns 0xD65F03C0 = dec_ret 0xD65F03C0 \<and>
   dis_loop (rev main_patterns) 0xD65F03C0 = dec_ret 0xD65F03C0"
  by (rule decoding_unambiguous [of "0xFFFFFC1F" "0xD65F0000"]) (simp_all add: main_patterns_list)

text \<open>The operands a register pair can have.\<close>

definition pair_ok :: "u32 \<Rightarrow> int \<Rightarrow> int \<Rightarrow> int \<Rightarrow> bool" where
  "pair_ok is_simd width mode imm \<longleftrightarrow>
     (width \<in> {4, 8} \<or> is_simd \<noteq> 0 \<and> width = 16) \<and> mode \<in> {0, 1, 2, 3} \<and>
     width dvd imm \<and> - 64 * width \<le> imm \<and> imm \<le> 63 * width"

lemma smod_dvd: "0 < w \<Longrightarrow> imm smod w = 0 \<longleftrightarrow> w dvd (imm :: int)"
  by (auto simp: signed_modulo_int_def sgn_0_0 dvd_eq_mod_eq_0 [symmetric])

text \<open>
  C25. \<^verbatim>\<open>aarch64_enc_ldst_pair\<close> accepts exactly the operands of the instruction set: the register width
  (4 or 8 bytes, or 16 for SIMD registers), one of the four addressing modes, and an offset that is a multiple
  of the width between -64 and 63 registers. It then emits one word; on anything else it returns 0 and
  leaves the buffer untouched.
\<close>

theorem ldst_pair_refuses:
  "if pair_ok is_simd width mode imm
   then \<exists>w. aarch64_enc_ldst_pair e is_simd is_load width mode rt rt2 rn imm = (fst (put_word e w), True)
   else aarch64_enc_ldst_pair e is_simd is_load width mode rt rt2 rn imm = (e, False)"
proof (cases "width \<in> {4, 8} \<or> is_simd \<noteq> 0 \<and> width = 16")
  case True
  then have w: "width \<in> {4, 8, 16}" "0 < width" by auto
  have "pair_opc_scale (is_simd \<noteq> 0) width = Some (if width = 4 then 0 else if is_simd = 0 then 2 else if width = 8 then 1 else 2, width)"
    using True by (auto simp: pair_opc_scale_def)
  then obtain opc where opc: "pair_opc_scale (is_simd \<noteq> 0) width = Some (opc, width)" by blast
  show ?thesis
  proof (cases "width dvd imm")
    case dvd: True
    then obtain q where q: "imm = width * q" by blast
    have "(- 64 * width \<le> imm \<and> imm \<le> 63 * width) = (- 64 \<le> q \<and> q \<le> 63)" using w by (auto simp: q)
    then show ?thesis
      using w opc True
      by (auto simp: pair_ok_def aarch64_enc_ldst_pair_def q sdiv_exact pair_mode_bits_def aarch64_ldp_stp_imm_def)
  next
    case False
    then show ?thesis using opc smod_dvd [OF w(2)] by (simp add: pair_ok_def aarch64_enc_ldst_pair_def)
  qed
next
  case False
  then have "pair_opc_scale (is_simd \<noteq> 0) width = None" by (auto simp: pair_opc_scale_def)
  then show ?thesis using False by (auto simp: pair_ok_def aarch64_enc_ldst_pair_def)
qed

end
