(* ===== verification/A64Line.thy ===== *)
theory A64Line
  imports A64Names
begin

text \<open>
  The assembler lines of \<^verbatim>\<open>asm.h\<close> and the state of the encoder that \<^verbatim>\<open>asm_enc.c\<close> keeps around the code
  buffer: labels, fixups, line offsets and the errors reported. Strings that may be a null pointer are
  options; an \<^verbatim>\<open>int64_t\<close> is an integer (the parser produces values of 64 bits), a \<^verbatim>\<open>double\<close> is
  its 64-bit representation. The fields only the x86-64 encoder uses are left out. The error sink is
  the default one of \<^verbatim>\<open>asm_default_err_cb\<close>: it counts the error and prints its message, kept here in
  \<open>as_log\<close>. Growing an array never fails (\<^verbatim>\<open>xrealloc\<close> ends the program instead), so arrays are lists.
\<close>

section \<open>Lines and operands\<close>

datatype (plugins only: code) asm_operand_kind = AOP_NONE | AOP_REG | AOP_IMM | AOP_MEM | AOP_LABEL | AOP_SHIFT

datatype (plugins only: code) asm_reg_class =
    AR_GPR8 | AR_GPR16 | AR_GPR32 | AR_GPR64 | AR_SEG | AR_X87 | AR_XMM | AR_AHHIGH
  | AR_A64_X | AR_A64_W | AR_A64_SP | AR_A64_B | AR_A64_H | AR_A64_S | AR_A64_D | AR_A64_Q | AR_A64_V

record asm_reg =
  rg_cls :: asm_reg_class
  rg_num :: int

record asm_operand =
  op_kind :: asm_operand_kind
  op_reg :: asm_reg
  op_v_lane_bits :: int
  op_v_n_lanes :: int
  op_v_lane_idx :: int
  op_imm :: int
  op_is_float :: bool
  op_f64 :: u64
  op_shift_type :: int
  op_base :: asm_reg
  op_has_base :: bool
  op_index :: asm_reg
  op_has_index :: bool
  op_disp :: int
  op_writeback :: bool
  op_post_index :: bool
  op_extend_lsl :: int
  op_label_name :: "string option"

definition ASHIFT_LSL :: int where "ASHIFT_LSL = 0"

definition ASHIFT_ROR :: int where "ASHIFT_ROR = 3"

datatype (plugins only: code) aarch64_mn =
    A64MN_UNKNOWN | A64MN_ADD | A64MN_ADRP | A64MN_AND | A64MN_B | A64MN_BFCVT | A64MN_BFCVTN | A64MN_BFCVTN2
  | A64MN_BFDOT | A64MN_BFMLALB | A64MN_BFMLALT | A64MN_BFMMLA | A64MN_BL | A64MN_BLR | A64MN_BNE | A64MN_BR
  | A64MN_CBNZ | A64MN_CBZ | A64MN_CSEL | A64MN_CMP | A64MN_DMB | A64MN_DSB | A64MN_EOR | A64MN_FABS | A64MN_FADD
  | A64MN_FCMP | A64MN_FCMPE | A64MN_FCVTZS | A64MN_FCVTZU | A64MN_FDIV | A64MN_FMOV | A64MN_FMUL | A64MN_FNEG
  | A64MN_FSQRT | A64MN_FSUB | A64MN_ISB | A64MN_LDNP | A64MN_LDP | A64MN_LDR | A64MN_LDRB | A64MN_LDRH
  | A64MN_LDRSB | A64MN_LDRSH | A64MN_LDRSW | A64MN_LDUR | A64MN_LSL | A64MN_MOV | A64MN_MOVK | A64MN_MOVN
  | A64MN_MOVZ | A64MN_MRS | A64MN_MSR | A64MN_MUL | A64MN_NEG | A64MN_NOP | A64MN_ORR | A64MN_PRINTREG
  | A64MN_RET | A64MN_SCVTF | A64MN_SDIV | A64MN_STNP | A64MN_STP | A64MN_STR | A64MN_STRB | A64MN_STRH
  | A64MN_STUR | A64MN_SUB | A64MN_SUBS | A64MN_SXTB | A64MN_SXTH | A64MN_SXTW | A64MN_UCVTF | A64MN_UXTB

datatype (plugins only: code) asm_line_kind = AINS_NONE | AINS_INSTR | AINS_LABEL_LOCAL | AINS_LABEL_PUBLIC | AINS_DIRECTIVE

record asm_line =
  ln_kind :: asm_line_kind
  ln_mnemonic :: "string option"
  ln_mnemonic_id :: aarch64_mn
  ln_operands :: "asm_operand list"
  ln_local_num :: int
  ln_label_name :: "string option"

section \<open>The state of the encoder\<close>

datatype (plugins only: code) asm_fixup_kind = AF_LOCAL | AF_SYMBOL | AF_CLASS_MEMBER

datatype (plugins only: code) asm_fixup_reloc =
    AFR_NONE | AFR_AARCH64_CALL26 | AFR_AARCH64_JUMP26 | AFR_AARCH64_BCOND19 | AFR_AARCH64_PAGE21
  | AFR_AARCH64_PAGEOFF12 | AFR_X86_64_CALL32 | AFR_X86_64_JMP32 | AFR_X86_64_JCC32 | AFR_X86_64_SIGNED

record asm_fixup =
  fx_kind :: asm_fixup_kind
  fx_reloc :: asm_fixup_reloc
  fx_patch_offset :: nat
  fx_width :: int
  fx_pcrel :: bool
  fx_local_num :: int
  fx_sym :: "string option"

record asm_label_def =
  lb_local_num :: int
  lb_name :: "string option"
  lb_byte_offset :: nat

record asm_state =
  as_enc :: asm_enc
  as_labels :: "asm_label_def list"
  as_fixups :: "asm_fixup list"
  as_line_offsets :: "nat list"
  as_errors :: nat
  as_log :: "string list"

definition asm_enc_init :: asm_state where
  "asm_enc_init = \<lparr>as_enc = \<lparr>ae_bytes = [], ae_cap = 0\<rparr>, as_labels = [], as_fixups = [], as_line_offsets = [],
     as_errors = 0, as_log = []\<rparr>"

definition as_len :: "asm_state \<Rightarrow> nat" where
  "as_len e = length (ae_bytes (as_enc e))"

definition asm_err_at :: "asm_state \<Rightarrow> string \<Rightarrow> asm_state" where
  "asm_err_at e msg = e\<lparr>as_errors := as_errors e + 1, as_log := as_log e @ [msg]\<rparr>"

text \<open>Calling an instruction encoder on the buffer of the state.\<close>

definition emit :: "asm_state \<Rightarrow> (asm_enc \<Rightarrow> asm_enc \<times> nat) \<Rightarrow> asm_state" where
  "emit e f = e\<lparr>as_enc := fst (f (as_enc e))\<rparr>"

definition emit_seq :: "asm_state \<Rightarrow> (asm_enc \<Rightarrow> asm_enc) \<Rightarrow> asm_state" where
  "emit_seq e f = e\<lparr>as_enc := f (as_enc e)\<rparr>"

definition asm_is_reg :: "asm_operand \<Rightarrow> bool" where
  "asm_is_reg o1 = (op_kind o1 = AOP_REG)"

definition asm_is_imm :: "asm_operand \<Rightarrow> bool" where
  "asm_is_imm o1 = (op_kind o1 = AOP_IMM)"

definition asm_is_mem :: "asm_operand \<Rightarrow> bool" where
  "asm_is_mem o1 = (op_kind o1 = AOP_MEM)"

definition asm_is_label :: "asm_operand \<Rightarrow> bool" where
  "asm_is_label o1 = (op_kind o1 = AOP_LABEL)"

definition asm_define_label :: "asm_state \<Rightarrow> int \<Rightarrow> string option \<Rightarrow> asm_state" where
  "asm_define_label e local_num name =
     e\<lparr>as_labels := as_labels e @ [\<lparr>lb_local_num = local_num, lb_name = name, lb_byte_offset = as_len e\<rparr>]\<rparr>"

definition asm_add_fixup :: "asm_state \<Rightarrow> asm_fixup \<Rightarrow> asm_state" where
  "asm_add_fixup e f = e\<lparr>as_fixups := as_fixups e @ [f]\<rparr>"

text \<open>\<^verbatim>\<open>atoi\<close>: white space, a sign, digits.\<close>

fun skip_space :: "string \<Rightarrow> string" where
  "skip_space (c # s) = (if c = CHR '' '' \<or> (9 :: nat) \<le> of_char c \<and> of_char c \<le> (13 :: nat) then skip_space s else c # s)"
| "skip_space [] = []"

definition atoi :: "string \<Rightarrow> int" where
  "atoi s =
     (case skip_space s of
        c # r \<Rightarrow> if c = CHR ''-'' then - fst (read_digits 0 r) else if c = CHR ''+'' then fst (read_digits 0 r)
                 else fst (read_digits 0 (c # r))
      | [] \<Rightarrow> 0)"

definition asm_operand_local_num :: "asm_operand \<Rightarrow> int" where
  "asm_operand_local_num o1 =
     (if op_kind o1 \<noteq> AOP_LABEL then - 1
      else case op_label_name o1 of
        None \<Rightarrow> - 1
      | Some name \<Rightarrow>
         if take 1 name \<noteq> ''@'' \<or> take 1 (drop 1 name) \<noteq> ''@'' then - 1 else atoi (drop 2 name))"

text \<open>\<^verbatim>\<open>AsmFixup f = { 0 }\<close>, and the fixup of a label operand, local or symbolic, with the other fields given.\<close>

definition zero_fixup :: asm_fixup where
  "zero_fixup = \<lparr>fx_kind = AF_LOCAL, fx_reloc = AFR_NONE, fx_patch_offset = 0, fx_width = 0, fx_pcrel = False,
     fx_local_num = 0, fx_sym = None\<rparr>"

definition label_fixup :: "asm_operand \<Rightarrow> asm_fixup result" where
  "label_fixup o1 =
     (let n = asm_operand_local_num o1 in
      if n \<ge> 0 then Inr (zero_fixup\<lparr>fx_kind := AF_LOCAL, fx_local_num := n\<rparr>)
      else case op_label_name o1 of
        None \<Rightarrow> Inl NullDeref
      | Some name \<Rightarrow> Inr (zero_fixup\<lparr>fx_kind := AF_SYMBOL, fx_sym := Some name\<rparr>))"

section \<open>Data directives\<close>

definition directive_width :: "string \<Rightarrow> int" where
  "directive_width m =
     (if aarch64_streq_ci m ''dq'' \<or> aarch64_streq_ci m ''du64'' then 8
      else if aarch64_streq_ci m ''dd'' \<or> aarch64_streq_ci m ''du32'' then 4
      else if aarch64_streq_ci m ''dw'' \<or> aarch64_streq_ci m ''du16'' then 2
      else if aarch64_streq_ci m ''db'' \<or> aarch64_streq_ci m ''du8'' then 1 else 0)"

fun put_imm_bytes :: "asm_enc \<Rightarrow> int \<Rightarrow> nat \<Rightarrow> nat \<Rightarrow> asm_enc" where
  "put_imm_bytes e v b 0 = e"
| "put_imm_bytes e v b (Suc n) = put_imm_bytes (put_byte e (word_of_int (drop_bit (8 * b) v))) v (b + 1) n"

fun directive_operands :: "asm_state \<Rightarrow> int \<Rightarrow> asm_operand list \<Rightarrow> asm_state result" where
  "directive_operands e width [] = Inr e"
| "directive_operands e width (o1 # os) =
     (if asm_is_imm o1 then
        directive_operands (emit_seq e (\<lambda>b. put_imm_bytes b (op_imm o1) 0 (nat width))) width os
      else if asm_is_label o1 then
        rbind (label_fixup o1) (\<lambda>f.
          directive_operands
            (emit_seq (asm_add_fixup e (f\<lparr>fx_patch_offset := as_len e, fx_width := width, fx_pcrel := False\<rparr>))
               (\<lambda>b. put_zero_n b (nat width))) width os)
      else directive_operands (asm_err_at e ''directive: unsupported operand kind'') width os)"

definition asm_enc_directive :: "asm_state \<Rightarrow> asm_line \<Rightarrow> asm_state result" where
  "asm_enc_directive e ln =
     (let width = directive_width (case ln_mnemonic ln of Some m \<Rightarrow> m | None \<Rightarrow> []) in
      if width = 0 then Inr (asm_err_at e ''unknown directive'') else directive_operands e width (ln_operands ln))"

end
