(* ===== verification/A64Handlers.thy ===== *)
theory A64Handlers
  imports A64Line
begin

text \<open>
  The operand-level handlers of \<^verbatim>\<open>enc_arm64.c\<close>: one function per mnemonic family that checks the operands of
  a line, reports the first problem and otherwise calls the instruction encoders. A handler that
  follows the name of a label returns a \<open>result\<close>, since a label operand without a name is a null
  pointer. Names that \<^verbatim>\<open>A64Enc\<close> already uses for the encoder of the word carry the suffix \<open>_line\<close> here.
\<close>

section \<open>Operands\<close>

definition aarch64_is_simd_reg :: "asm_operand \<Rightarrow> bool" where
  "aarch64_is_simd_reg o1 =
     (asm_is_reg o1 \<and> rg_cls (op_reg o1) \<in> {AR_A64_B, AR_A64_H, AR_A64_S, AR_A64_D, AR_A64_Q, AR_A64_V})"

definition aarch64_simd_scalar_width :: "asm_reg \<Rightarrow> int" where
  "aarch64_simd_scalar_width r =
     (if rg_cls r = AR_A64_B then 1 else if rg_cls r = AR_A64_H then 2 else if rg_cls r = AR_A64_S then 4
      else if rg_cls r = AR_A64_D then 8 else if rg_cls r = AR_A64_Q then 16 else 0)"

definition aarch64_reg_num :: "asm_reg \<Rightarrow> u32" where
  "aarch64_reg_num r = word_of_int (rg_num r) AND 0x1F"

definition aarch64_is_x_or_sp :: "asm_reg \<Rightarrow> bool" where
  "aarch64_is_x_or_sp r = (rg_cls r = AR_A64_X \<or> rg_cls r = AR_A64_SP)"

definition aarch64_is_32bit_reg :: "asm_operand \<Rightarrow> bool" where
  "aarch64_is_32bit_reg o1 = (rg_cls (op_reg o1) = AR_A64_W)"

definition aarch64_is_64bit_reg :: "asm_operand \<Rightarrow> bool" where
  "aarch64_is_64bit_reg o1 = (rg_cls (op_reg o1) = AR_A64_X)"

text \<open>Shorthands: the register number of an operand, whether it is of a class, and the \<^verbatim>\<open>(int32_t)\<close> cast.\<close>

abbreviation regn :: "asm_operand \<Rightarrow> u32" where
  "regn o1 \<equiv> aarch64_reg_num (op_reg o1)"

abbreviation cls :: "asm_operand \<Rightarrow> asm_reg_class" where
  "cls o1 \<equiv> rg_cls (op_reg o1)"

definition s32 :: "int \<Rightarrow> int" where
  "s32 i = sint (word_of_int i :: u32)"

section \<open>Sign extension and conditional select\<close>

definition aarch64_validate_and_enc_stx :: "asm_state \<Rightarrow> asm_line \<Rightarrow> asm_state" where
  "aarch64_validate_and_enc_stx e ln =
     (case ln_operands ln of
        [rd, rn] \<Rightarrow>
          if \<not> asm_is_reg rd \<or> \<not> asm_is_reg rn
          then asm_err_at e ''`%s` expects 2 registers: `<Xd|Wd>, <Xn|Wn>`''
          else if ln_mnemonic_id ln = A64MN_SXTB then
            if aarch64_is_32bit_reg rd \<and> aarch64_is_32bit_reg rn
            then emit e (\<lambda>b. aarch64_enc_sxtb b (regn rd) (regn rn))
            else asm_err_at e ''`SXTB` expects all registers to be 32bit''
          else if ln_mnemonic_id ln = A64MN_SXTH then
            if aarch64_is_32bit_reg rd \<and> aarch64_is_32bit_reg rn
            then emit e (\<lambda>b. aarch64_enc_sxth b (regn rd) (regn rn))
            else asm_err_at e ''`SXTH` expects all registers to be 32bit''
          else if ln_mnemonic_id ln = A64MN_SXTW then
            if aarch64_is_64bit_reg rd \<and> aarch64_is_32bit_reg rn
            then emit e (\<lambda>b. aarch64_enc_sxtw b (regn rd) (regn rn))
            else asm_err_at e ''`SXTW` expects Rd to be 64bits and Rn to be 32bits''
          else e
      | _ \<Rightarrow> asm_err_at e ''`%s` needs 2 operands: `<Xd>, <Xn>`'')"

definition aarch64_validate_and_enc_csel :: "asm_state \<Rightarrow> asm_line \<Rightarrow> asm_state result" where
  "aarch64_validate_and_enc_csel e ln =
     (case ln_operands ln of
        [rd, rn, rm, cond] \<Rightarrow>
          if \<not> asm_is_reg rd \<or> \<not> asm_is_reg rn \<or> \<not> asm_is_reg rm
          then Inr (asm_err_at e ''`CSEL` expects 3 registers; `<Xd>, <Xn>, <Xm>, <cond>`'')
          else (case op_label_name cond of
             None \<Rightarrow> Inl NullDeref
           | Some name \<Rightarrow>
              (case aarch64_parse_cond_suffix name of
                 None \<Rightarrow> Inr (asm_err_at e ''`CSEL` invalid cond'')
               | Some cc \<Rightarrow>
                  if aarch64_is_32bit_reg rd \<and> aarch64_is_32bit_reg rn \<and> aarch64_is_32bit_reg rm
                  then Inr (emit e (\<lambda>b. aarch64_enc_csel b False (regn rd) (regn rn) (regn rm) cc))
                  else if aarch64_is_64bit_reg rd \<and> aarch64_is_64bit_reg rn \<and> aarch64_is_64bit_reg rm
                  then Inr (emit e (\<lambda>b. aarch64_enc_csel b True (regn rd) (regn rn) (regn rm) cc))
                  else Inr (asm_err_at e ''`CSEL` expects all registers to be either 32 or 64 bit'')))
      | _ \<Rightarrow> Inr (asm_err_at e ''`CSEL` needs 4 operands; `<Xd>, <Xn>, <Xm>, <cond>`''))"

section \<open>Branches to labels\<close>

definition aarch64_parse_branch_cond_suffix :: "string \<Rightarrow> u32 option" where
  "aarch64_parse_branch_cond_suffix mn =
     (if take 2 mn \<noteq> ''b.'' then None else aarch64_parse_cond_suffix (drop 2 mn))"

definition aarch64_emit_branch_local :: "asm_state \<Rightarrow> int \<Rightarrow> bool \<Rightarrow> asm_state" where
  "aarch64_emit_branch_local e local_num is_bl =
     (let patch = as_len e;
          e = (if is_bl then emit e (\<lambda>b. aarch64_enc_bl b 0) else emit e (\<lambda>b. aarch64_enc_b b 0))
      in asm_add_fixup e (zero_fixup\<lparr>fx_kind := AF_LOCAL, fx_local_num := local_num, fx_patch_offset := patch,
           fx_width := 4, fx_pcrel := True\<rparr>))"

definition aarch64_emit_b_cond_local :: "asm_state \<Rightarrow> u32 \<Rightarrow> int \<Rightarrow> asm_state" where
  "aarch64_emit_b_cond_local e cc local_num =
     (let patch = as_len e; e = emit e (\<lambda>b. aarch64_enc_b_cond b cc 0)
      in asm_add_fixup e (zero_fixup\<lparr>fx_kind := AF_LOCAL, fx_local_num := local_num, fx_patch_offset := patch,
           fx_width := 19, fx_pcrel := True\<rparr>))"

definition aarch64_emit_branch_sym :: "asm_state \<Rightarrow> string \<Rightarrow> bool \<Rightarrow> asm_state" where
  "aarch64_emit_branch_sym e symb is_bl =
     (let patch = as_len e;
          e = (if is_bl then emit e (\<lambda>b. aarch64_enc_bl b 0) else emit e (\<lambda>b. aarch64_enc_b b 0))
      in asm_add_fixup e (zero_fixup\<lparr>fx_kind := AF_SYMBOL,
           fx_reloc := (if is_bl then AFR_AARCH64_CALL26 else AFR_AARCH64_JUMP26), fx_sym := Some symb,
           fx_patch_offset := patch, fx_width := 4, fx_pcrel := True\<rparr>))"

section \<open>Moves and arithmetic\<close>

definition aarch64_enc_mov :: "asm_state \<Rightarrow> asm_line \<Rightarrow> asm_state" where
  "aarch64_enc_mov e ln =
     (case ln_operands ln of
        [d, s] \<Rightarrow>
          (let dst_x = (asm_is_reg d \<and> aarch64_is_x_or_sp (op_reg d)); dst_w = (asm_is_reg d \<and> cls d = AR_A64_W) in
           if \<not> dst_x \<and> \<not> dst_w then asm_err_at e ''MOV: bad dst''
           else if asm_is_imm s then
             if dst_w then emit_seq e (\<lambda>b. aarch64_enc_mov_imm32 b (regn d) (ucast (word_of_int (op_imm s) :: u32)))
             else emit_seq e (\<lambda>b. aarch64_enc_mov_imm64 b (regn d) (word_of_int (op_imm s)))
           else if asm_is_reg s \<and> dst_x \<and> aarch64_is_x_or_sp (op_reg s) then
             if cls d = AR_A64_SP \<or> cls s = AR_A64_SP then emit e (\<lambda>b. aarch64_enc_add_imm b 1 (regn d) (regn s) 0)
             else emit e (\<lambda>b. aarch64_enc_mov_reg b (regn d) (regn s))
           else if asm_is_reg s \<and> dst_w \<and> cls s = AR_A64_W then emit e (\<lambda>b. aarch64_enc_mov_reg_w b (regn d) (regn s))
           else asm_err_at e ''MOV: unsupported operand combo'')
      | _ \<Rightarrow> asm_err_at e ''MOV needs 2 operands'')"

text \<open>The return code, the shift type and the amount.\<close>

definition aarch64_extract_shift_suffix :: "asm_state \<Rightarrow> asm_line \<Rightarrow> asm_state \<times> int \<times> int \<times> int" where
  "aarch64_extract_shift_suffix e ln =
     (let n_operands = length (ln_operands ln) in
      if n_operands < 4 then (e, 0, 0, 0)
      else if n_operands > 4 then (asm_err_at e ''too many operands'', - 1, 0, 0)
      else (let s = ln_operands ln ! 3 in
        if op_kind s \<noteq> AOP_SHIFT then (asm_err_at e ''4th operand must be LSL/LSR/ASR #N'', - 1, 0, 0)
        else if op_imm s < 0 \<or> op_imm s > 63 then (asm_err_at e ''shift amount must be 0..63'', - 1, 0, 0)
        else (e, 1, op_shift_type s, op_imm s)))"

definition aarch64_enc_add_sub :: "asm_state \<Rightarrow> asm_line \<Rightarrow> bool \<Rightarrow> asm_state result" where
  "aarch64_enc_add_sub e ln is_sub =
     (case ln_operands ln of
        d # n # m # rest \<Rightarrow>
          if length rest > 1 then Inr (asm_err_at e ''ADD/SUB needs 3 or 4 operands'')
          else if \<not> asm_is_reg d \<or> \<not> asm_is_reg n then Inr (asm_err_at e ''ADD/SUB: dst/lhs must be reg'')
          else (let is_64 = of_bool (aarch64_is_x_or_sp (op_reg d)) in
            if asm_is_imm m then
              if rest \<noteq> [] then Inr (asm_err_at e ''ADD/SUB: shift suffix not valid with immediate'')
              else if op_imm m < 0 \<or> op_imm m > 0xFFF then Inr (asm_err_at e ''ADD/SUB imm out of 12-bit range'')
              else Inr (emit e (\<lambda>b. (if is_sub then aarch64_enc_sub_imm else aarch64_enc_add_imm) b is_64 (regn d) (regn n)
                     (word_of_int (op_imm m))))
            else if asm_is_label m \<and> \<not> is_sub then
              if rest \<noteq> [] then Inr (asm_err_at e ''ADD: shift suffix not valid with symbol'')
              else (let e = emit e (\<lambda>b. aarch64_enc_add_imm b is_64 (regn d) (regn n) 0) in
                rbind (label_fixup m) (\<lambda>f.
                  Inr (asm_add_fixup e (f\<lparr>fx_patch_offset := as_len e - 4, fx_width := 4, fx_pcrel := False,
                         fx_reloc := AFR_AARCH64_PAGEOFF12\<rparr>))))
            else if asm_is_reg m then
              (case aarch64_extract_shift_suffix e ln of (e, rc, st, sa) \<Rightarrow>
                if rc < 0 then Inr e
                else if st = ASHIFT_ROR then Inr (asm_err_at e ''ADD/SUB: ROR shift not valid'')
                else Inr (emit e (\<lambda>b. (if is_sub then aarch64_enc_sub_reg_shifted else aarch64_enc_add_reg_shifted) b is_64
                       (regn d) (regn n) (regn m) (word_of_int st) (word_of_int sa))))
            else Inr (asm_err_at e ''ADD/SUB: unsupported rhs''))
      | _ \<Rightarrow> Inr (asm_err_at e ''ADD/SUB needs 3 or 4 operands''))"

definition aarch64_enc_logical_reg ::
  "asm_state \<Rightarrow> asm_line \<Rightarrow> (asm_enc \<Rightarrow> u32 \<Rightarrow> u32 \<Rightarrow> u32 \<Rightarrow> u32 \<Rightarrow> asm_enc \<times> nat) \<Rightarrow> string \<Rightarrow> asm_state" where
  "aarch64_enc_logical_reg e ln emit_cb msg =
     (case ln_operands ln of
        [d, n, m] \<Rightarrow>
          if \<not> asm_is_reg d \<or> \<not> asm_is_reg n \<or> \<not> asm_is_reg m then asm_err_at e msg
          else emit e (\<lambda>b. emit_cb b (of_bool (cls d = AR_A64_X)) (regn d) (regn n) (regn m))
      | _ \<Rightarrow> asm_err_at e msg)"

definition aarch64_enc_mulm :: "asm_state \<Rightarrow> asm_line \<Rightarrow> asm_state" where
  "aarch64_enc_mulm e ln = aarch64_enc_logical_reg e ln aarch64_enc_mul ''MUL needs 3 reg operands''"

definition aarch64_enc_sdi :: "asm_state \<Rightarrow> asm_line \<Rightarrow> asm_state" where
  "aarch64_enc_sdi e ln = aarch64_enc_logical_reg e ln aarch64_enc_sdiv ''SDIV needs 3 reg operands''"

definition aarch64_enc_lsl :: "asm_state \<Rightarrow> asm_line \<Rightarrow> asm_state" where
  "aarch64_enc_lsl e ln =
     (case ln_operands ln of
        [d, n, m] \<Rightarrow>
          if \<not> asm_is_reg d \<or> \<not> asm_is_reg n then asm_err_at e ''LSL: expected `Rd, Rn, #imm` or `Rd, Rn, Rm`''
          else (let is_64 = of_bool (cls d = AR_A64_X); regsize = (if is_64 \<noteq> 0 then 64 else 32) in
            if asm_is_imm m then
              if op_imm m < 0 \<or> op_imm m \<ge> regsize then asm_err_at e ''LSL: shift amount out of range''
              else emit e (\<lambda>b. aarch64_enc_lsl_imm b is_64 (regn d) (regn n) (word_of_int (op_imm m)))
            else if asm_is_reg m then emit e (\<lambda>b. aarch64_enc_lslv b is_64 (regn d) (regn n) (regn m))
            else asm_err_at e ''LSL: third operand must be reg or imm'')
      | _ \<Rightarrow> asm_err_at e ''LSL: expected `Rd, Rn, #imm` or `Rd, Rn, Rm`'')"

definition aarch64_enc_neg :: "asm_state \<Rightarrow> asm_line \<Rightarrow> asm_state" where
  "aarch64_enc_neg e ln =
     (case ln_operands ln of
        [d, m] \<Rightarrow>
          if \<not> asm_is_reg d \<or> \<not> asm_is_reg m then asm_err_at e ''NEG: need 2 reg operands''
          else emit e (\<lambda>b. aarch64_enc_neg_reg b (of_bool (cls d = AR_A64_X)) (regn d) (regn m))
      | _ \<Rightarrow> asm_err_at e ''NEG: need 2 reg operands'')"

definition aarch64_enc_cmp :: "asm_state \<Rightarrow> asm_line \<Rightarrow> asm_state" where
  "aarch64_enc_cmp e ln =
     (case ln_operands ln of
        [a, m] \<Rightarrow>
          if \<not> asm_is_reg a then asm_err_at e ''CMP: lhs must be reg''
          else (let is_64 = of_bool (cls a = AR_A64_X) in
            if asm_is_reg m then emit e (\<lambda>b. aarch64_enc_cmp_reg b is_64 (regn a) (regn m))
            else if asm_is_imm m \<and> op_imm m \<ge> 0 \<and> op_imm m \<le> 0xFFF
            then emit e (\<lambda>b. aarch64_enc_cmp_imm b is_64 (regn a) (word_of_int (op_imm m)))
            else asm_err_at e ''CMP: unsupported rhs'')
      | _ \<Rightarrow> asm_err_at e ''CMP needs 2 operands'')"

definition aarch64_enc_subs :: "asm_state \<Rightarrow> asm_line \<Rightarrow> asm_state" where
  "aarch64_enc_subs e ln =
     (case ln_operands ln of
        d # n # m # rest \<Rightarrow>
          if length rest > 1 then asm_err_at e ''SUBS: 3 or 4 operands''
          else if \<not> asm_is_reg d \<or> \<not> asm_is_reg n then asm_err_at e ''SUBS: bad operands''
          else if cls d \<noteq> cls n \<or> (cls d \<noteq> AR_A64_X \<and> cls d \<noteq> AR_A64_W)
          then asm_err_at e ''SUBS: dst/src1 must both be X or both W''
          else (let is_64 = of_bool (cls d = AR_A64_X) in
            if asm_is_imm m then
              if rest \<noteq> [] then asm_err_at e ''SUBS: shift suffix not valid with immediate''
              else if op_imm m < 0 \<or> op_imm m > 0xFFF then asm_err_at e ''SUBS: imm12 must be 0..4095''
              else emit e (\<lambda>b. aarch64_enc_subs_imm b is_64 (regn d) (regn n) (word_of_int (op_imm m)))
            else if asm_is_reg m \<and> cls m = cls d then
              (case aarch64_extract_shift_suffix e ln of (e, rc, st, sa) \<Rightarrow>
                if rc < 0 then e
                else if st = ASHIFT_ROR then asm_err_at e ''SUBS: ROR shift not valid''
                else emit e (\<lambda>b. aarch64_enc_subs_reg b is_64 (regn d) (regn n) (regn m) (word_of_int st) (word_of_int sa)))
            else asm_err_at e ''SUBS: rhs must be imm or matching-class reg'')
      | _ \<Rightarrow> asm_err_at e ''SUBS: 3 or 4 operands'')"

definition aarch64_enc_mov_wide_mn :: "asm_state \<Rightarrow> asm_line \<Rightarrow> u32 \<Rightarrow> asm_state" where
  "aarch64_enc_mov_wide_mn e ln opc =
     (case ln_operands ln of
        d # i # rest \<Rightarrow>
          if \<not> asm_is_reg d \<or> \<not> asm_is_imm i \<or> op_is_float i
          then asm_err_at e ''MOVZ/MOVK/MOVN: expected `Rd, #imm16 {, lsl #hw}`''
          else (let is_64 = (cls d = AR_A64_X); imm = op_imm i;
                    encode = (\<lambda>sa. if sa smod 16 \<noteq> 0 \<or> sa > (if is_64 then 48 else 16)
                       then asm_err_at e ''MOVZ/MOVK/MOVN: shift must be 0/16 (Wd) or 0/16/32/48 (Xd)''
                       else emit e (\<lambda>b. put_word b (aarch64_mov_wide (of_bool is_64) opc (regn d) (word_of_int imm)
                              (word_of_int (sa sdiv 16))))) in
            if \<not> is_64 \<and> cls d \<noteq> AR_A64_W then asm_err_at e ''MOVZ/MOVK/MOVN: dst must be Xd or Wd''
            else if imm < 0 \<or> imm > 0xFFFF then asm_err_at e ''MOVZ/MOVK/MOVN: immediate out of 16-bit range''
            else (case rest of
                 [] \<Rightarrow> encode 0
               | [s] \<Rightarrow>
                  if op_kind s \<noteq> AOP_SHIFT \<or> op_shift_type s \<noteq> ASHIFT_LSL
                  then asm_err_at e ''MOVZ/MOVK/MOVN: 3rd operand must be LSL #hw''
                  else encode (s32 (op_imm s))
               | _ \<Rightarrow> asm_err_at e ''MOVZ/MOVK/MOVN: 2 or 3 operands''))
      | _ \<Rightarrow> asm_err_at e ''MOVZ/MOVK/MOVN: expected `Rd, #imm16 {, lsl #hw}`'')"

section \<open>Loads and stores\<close>

text \<open>
  The address forms of a load or store, common to its four handlers: register offset, pre-index,
  post-index, unscaled and scaled offset. \<open>natural\<close> is the shift that scales the index by the access, \<open>misfit\<close>
  says that the offset has no scaled form, the messages are those of the handler.
\<close>

definition ldst_address ::
  "asm_state \<Rightarrow> asm_operand \<Rightarrow> int \<Rightarrow> bool \<Rightarrow> string \<times> string \<times> string \<times> string \<Rightarrow>
   (bool \<Rightarrow> asm_enc \<Rightarrow> asm_enc \<times> nat) \<Rightarrow> (asm_enc \<Rightarrow> asm_enc \<times> nat) \<Rightarrow> (asm_enc \<Rightarrow> asm_enc \<times> nat) \<Rightarrow>
   (asm_enc \<Rightarrow> asm_enc \<times> nat) \<Rightarrow> (asm_state \<Rightarrow> asm_state) \<Rightarrow> asm_state" where
  "ldst_address e m natural misfit msgs regoff pre post unscaled scaled =
     (case msgs of (msg_lsl, msg_pre, msg_post, msg_off) \<Rightarrow>
      if op_has_index m then
        if op_extend_lsl m \<noteq> 0 \<and> op_extend_lsl m \<noteq> natural then asm_err_at e msg_lsl
        else emit e (regoff (op_extend_lsl m \<noteq> 0))
      else if op_writeback m then
        if op_disp m < - 256 \<or> op_disp m > 255 then asm_err_at e msg_pre else emit e pre
      else if op_post_index m then
        if op_disp m < - 256 \<or> op_disp m > 255 then asm_err_at e msg_post else emit e post
      else if misfit then
        if op_disp m < - 256 \<or> op_disp m > 255 then asm_err_at e msg_off else emit e unscaled
      else scaled e)"

definition ldst_msgs :: "string \<times> string \<times> string \<times> string" where
  "ldst_msgs =
     (''LDR/STR reg-off: LSL must be #0 or natural scale'',
      ''LDR/STR pre-index: imm9 out of range (-256..255)'',
      ''LDR/STR post-index: imm9 out of range (-256..255)'',
      ''LDR/STR: offset out of range for unscaled imm9 (-256..255)'')"

definition ldrs_msgs :: "string \<times> string \<times> string \<times> string" where
  "ldrs_msgs =
     (''LDRS reg-off: LSL must be #0 or natural scale'',
      ''LDRS pre-index: imm9 out of range (-256..255)'',
      ''LDRS post-index: imm9 out of range (-256..255)'',
      ''LDRS: offset out of range for unscaled imm9 (-256..255)'')"

definition simd_ldst_msgs :: "string \<times> string \<times> string \<times> string" where
  "simd_ldst_msgs =
     (''LDR/STR reg-off SIMD: LSL must be #0 or natural scale'',
      ''LDR/STR pre-index SIMD: imm9 out of range'',
      ''LDR/STR post-index SIMD: imm9 out of range'',
      ''LDR/STR SIMD: offset out of range for unscaled imm9 (-256..255)'')"

text \<open>\<^verbatim>\<open>(m->disp < 0) || (m->disp & (width - 1)) != 0\<close>.\<close>

definition use_unscaled :: "int \<Rightarrow> int \<Rightarrow> bool" where
  "use_unscaled disp width = (disp < 0 \<or> disp AND (width - 1) \<noteq> 0)"

definition aarch64_enc_ldst64 :: "asm_state \<Rightarrow> asm_line \<Rightarrow> bool \<Rightarrow> asm_state" where
  "aarch64_enc_ldst64 e ln is_load =
     (case ln_operands ln of
        [r, m] \<Rightarrow>
          if \<not> asm_is_reg r \<or> \<not> asm_is_mem m \<or> \<not> op_has_base m then asm_err_at e ''LDR/STR: bad operands''
          else (let rt = regn r; rn = aarch64_reg_num (op_base m); width = (if cls r = AR_A64_W then 4 else 8);
                    off = word_of_int (op_disp m) in
            ldst_address e m (if width = 8 then 3 else 2) (use_unscaled (op_disp m) width) ldst_msgs
              (\<lambda>scaled b. aarch64_enc_ldst_regoff b 0 is_load width scaled rt rn (aarch64_reg_num (op_index m)))
              (\<lambda>b. aarch64_enc_ldst_pre b 0 is_load width rt rn (s32 (op_disp m)))
              (\<lambda>b. aarch64_enc_ldst_post b 0 is_load width rt rn (s32 (op_disp m)))
              (\<lambda>b. aarch64_enc_ldst_unscaled b 0 is_load width rt rn (s32 (op_disp m)))
              (\<lambda>e. if width = 8
                   then emit e (\<lambda>b. (if is_load then aarch64_enc_ldr_imm else aarch64_enc_str_imm) b rt rn off)
                   else emit e (\<lambda>b. (if is_load then aarch64_enc_ldr32_imm_gpr else aarch64_enc_str32_imm_gpr) b rt rn off)))
      | _ \<Rightarrow> asm_err_at e ''LDR/STR needs 2 operands'')"

definition aarch64_enc_ldst_sub :: "asm_state \<Rightarrow> asm_line \<Rightarrow> bool \<Rightarrow> int \<Rightarrow> asm_state" where
  "aarch64_enc_ldst_sub e ln is_load width =
     (case ln_operands ln of
        [r, m] \<Rightarrow>
          if \<not> asm_is_reg r \<or> cls r \<noteq> AR_A64_W \<or> \<not> asm_is_mem m \<or> \<not> op_has_base m
          then asm_err_at e ''LDR/STR (byte/halfword): bad operands''
          else (let rt = regn r; rn = aarch64_reg_num (op_base m); off = word_of_int (op_disp m) in
            ldst_address e m (if width = 2 then 1 else 0) (use_unscaled (op_disp m) width) ldst_msgs
              (\<lambda>scaled b. aarch64_enc_ldst_regoff b 0 is_load width scaled rt rn (aarch64_reg_num (op_index m)))
              (\<lambda>b. aarch64_enc_ldst_pre b 0 is_load width rt rn (s32 (op_disp m)))
              (\<lambda>b. aarch64_enc_ldst_post b 0 is_load width rt rn (s32 (op_disp m)))
              (\<lambda>b. aarch64_enc_ldst_unscaled b 0 is_load width rt rn (s32 (op_disp m)))
              (\<lambda>e. if width = 1
                   then emit e (\<lambda>b. (if is_load then aarch64_enc_ldrb_imm else aarch64_enc_strb_imm) b rt rn off)
                   else emit e (\<lambda>b. (if is_load then aarch64_enc_ldrh_imm else aarch64_enc_strh_imm) b rt rn off)))
      | _ \<Rightarrow> asm_err_at e ''LDR/STR (byte/halfword) needs 2 operands'')"

definition aarch64_enc_ldrs :: "asm_state \<Rightarrow> asm_line \<Rightarrow> int \<Rightarrow> asm_state" where
  "aarch64_enc_ldrs e ln width =
     (case ln_operands ln of
        [r, m] \<Rightarrow>
          if \<not> asm_is_reg r \<or> \<not> asm_is_mem m \<or> \<not> op_has_base m then asm_err_at e ''LDRS: bad operands''
          else (let dst_64 = (cls r = AR_A64_X); rt = regn r; rn = aarch64_reg_num (op_base m);
                    off = word_of_int (op_disp m) in
            if cls r \<noteq> AR_A64_X \<and> cls r \<noteq> AR_A64_W then asm_err_at e ''LDRS: destination must be W or X register''
            else if width = 4 \<and> \<not> dst_64 then asm_err_at e ''LDRSW: destination must be X''
            else ldst_address e m (if width = 2 then 1 else if width = 4 then 2 else 0)
              (use_unscaled (op_disp m) width) ldrs_msgs
              (\<lambda>scaled b. aarch64_ldrs_regoff_emit b width dst_64 scaled rt rn (aarch64_reg_num (op_index m)))
              (\<lambda>b. aarch64_ldrs_imm9_emit b width dst_64 3 rt rn (s32 (op_disp m)))
              (\<lambda>b. aarch64_ldrs_imm9_emit b width dst_64 1 rt rn (s32 (op_disp m)))
              (\<lambda>b. aarch64_ldrs_imm9_emit b width dst_64 0 rt rn (s32 (op_disp m)))
              (\<lambda>e. emit e (\<lambda>b. if width = 1 then aarch64_enc_ldrsb_imm b dst_64 rt rn off
                     else if width = 2 then aarch64_enc_ldrsh_imm b dst_64 rt rn off
                     else aarch64_enc_ldrsw_imm b rt rn off)))
      | _ \<Rightarrow> asm_err_at e ''LDRS needs 2 operands'')"

definition aarch64_enc_simd_ldst :: "asm_state \<Rightarrow> asm_line \<Rightarrow> bool \<Rightarrow> asm_state" where
  "aarch64_enc_simd_ldst e ln is_load =
     (case ln_operands ln of
        [r, m] \<Rightarrow>
          if \<not> aarch64_is_simd_reg r \<or> \<not> asm_is_mem m \<or> \<not> op_has_base m then asm_err_at e ''LDR/STR: bad SIMD operands''
          else (let width = aarch64_simd_scalar_width (op_reg r); rt = regn r; rn = aarch64_reg_num (op_base m);
                    udisp = (word_of_int (op_disp m) :: u32); uwidth = (word_of_int width :: u32) in
            if width = 0 then asm_err_at e ''LDR/STR: V-form needs B/H/S/D/Q reg''
            else if rg_cls (op_base m) \<noteq> AR_A64_X \<and> rg_cls (op_base m) \<noteq> AR_A64_SP
            then asm_err_at e ''LDR/STR: base must be an X register or SP''
            else ldst_address e m
              (if width = 1 then 0 else if width = 2 then 1 else if width = 4 then 2 else if width = 8 then 3 else 4)
              (op_disp m < 0 \<or> udisp mod uwidth \<noteq> 0) simd_ldst_msgs
              (\<lambda>scaled b. aarch64_enc_ldst_regoff b 1 is_load width scaled rt rn (aarch64_reg_num (op_index m)))
              (\<lambda>b. aarch64_enc_ldst_pre b 1 is_load width rt rn (s32 (op_disp m)))
              (\<lambda>b. aarch64_enc_ldst_post b 1 is_load width rt rn (s32 (op_disp m)))
              (\<lambda>b. aarch64_enc_ldst_unscaled b 1 is_load width rt rn (s32 (op_disp m)))
              (\<lambda>e. if udisp div uwidth > 0xFFF
                   then asm_err_at e ''LDR/STR SIMD: offset exceeds 12-bit scaled range''
                   else emit e (\<lambda>b. aarch64_enc_fp_ldst_imm b is_load width rt rn udisp)))
      | _ \<Rightarrow> asm_err_at e ''LDR/STR: 2 operands'')"

definition aarch64_enc_ldst_unscaled_mn :: "asm_state \<Rightarrow> asm_line \<Rightarrow> bool \<Rightarrow> asm_state" where
  "aarch64_enc_ldst_unscaled_mn e ln is_load =
     (case ln_operands ln of
        [r, m] \<Rightarrow>
          if \<not> asm_is_reg r \<or> \<not> asm_is_mem m then asm_err_at e ''LDUR/STUR: expected `Rt, [Xn, #imm]`''
          else if \<not> op_has_base m \<or> op_has_index m \<or> op_writeback m \<or> op_post_index m
          then asm_err_at e ''LDUR/STUR: base + immediate offset only''
          else if cls r \<noteq> AR_A64_X \<and> cls r \<noteq> AR_A64_W then asm_err_at e ''LDUR/STUR: register must be Xt or Wt''
          else if op_disp m < - 256 \<or> op_disp m > 255 then asm_err_at e ''LDUR/STUR: imm9 out of range (-256..255)''
          else emit e (\<lambda>b. (if is_load then aarch64_enc_ldur else aarch64_enc_stur) b (if cls r = AR_A64_X then 8 else 4)
                 (regn r) (aarch64_reg_num (op_base m)) (s32 (op_disp m)))
      | _ \<Rightarrow> asm_err_at e ''LDUR/STUR: expected `Rt, [Xn, #imm]`'')"

text \<open>The switch over the class of the registers of a pair: SIMD or not, and the width.\<close>

definition pair_class :: "asm_reg_class \<Rightarrow> (bool \<times> int) option" where
  "pair_class c =
     (if c = AR_A64_X then Some (False, 8) else if c = AR_A64_W then Some (False, 4)
      else if c = AR_A64_S then Some (True, 4) else if c = AR_A64_D then Some (True, 8)
      else if c = AR_A64_Q then Some (True, 16) else None)"

definition aarch64_enc_ldp_stp :: "asm_state \<Rightarrow> asm_line \<Rightarrow> bool \<Rightarrow> bool \<Rightarrow> asm_state" where
  "aarch64_enc_ldp_stp e ln is_load nontemporal =
     (case ln_operands ln of
        [r1, r2, m] \<Rightarrow>
          if \<not> asm_is_reg r1 \<or> \<not> asm_is_reg r2 \<or> \<not> asm_is_mem m \<or> \<not> op_has_base m
          then asm_err_at e ''LDP/STP: bad operands''
          else if cls r1 \<noteq> cls r2 then asm_err_at e ''LDP/STP: both regs must be same class''
          else (case pair_class (cls r1) of
             None \<Rightarrow> asm_err_at e ''LDP/STP: regs must be W/X or S/D/Q''
           | Some (is_simd, width) \<Rightarrow>
              if op_has_index m then asm_err_at e ''LDP/STP: register-offset not valid (ISA limit)''
              else if nontemporal \<and> (op_writeback m \<or> op_post_index m)
              then asm_err_at e ''LDNP/STNP: writeback / post-index not allowed''
              else (let mode = (if nontemporal then 3 else if op_writeback m then 1 else if op_post_index m then 2 else 0);
                        (b, ok) = aarch64_enc_ldst_pair (as_enc e) (of_bool is_simd) (of_bool is_load) width mode
                          (regn r1) (regn r2) (aarch64_reg_num (op_base m)) (s32 (op_disp m));
                        e = e\<lparr>as_enc := b\<rparr>
                    in if ok then e else asm_err_at e ''LDP/STP: offset out of range or misaligned''))
      | _ \<Rightarrow> asm_err_at e ''LDP/STP needs 3 operands'')"

end
