(* ===== verification/A64Encode.thy ===== *)
theory A64Encode
  imports A64Handlers
begin

text \<open>
  The remaining handlers of \<^verbatim>\<open>enc_arm64.c\<close> (floating point, BF16, branches, system instructions, the
  \<^verbatim>\<open>PRINTREG\<close> helper), the dispatch on the mnemonic, the encoding of a block and the resolution of its local
  labels, and the single-instruction emitters of the JIT. \<open>linux\<close> is the platform the assembler is
  compiled for, which only decides the prefix of the helper symbols of \<^verbatim>\<open>PRINTREG\<close>.
\<close>

section \<open>Floating point immediates\<close>

text \<open>
  The conversion of C from \<^verbatim>\<open>double\<close> to \<^verbatim>\<open>float\<close> on the representations, rounding to nearest, ties to
  even: \<open>shift_round m k\<close> is the integer nearest to \<open>m / 2 ^ k\<close>.
\<close>

definition shift_round :: "nat \<Rightarrow> nat \<Rightarrow> nat" where
  "shift_round m k =
     (let q = m div 2 ^ k; r = m mod 2 ^ k in
      if 2 * r > 2 ^ k \<or> 2 * r = 2 ^ k \<and> odd q then q + 1 else q)"

definition f32_of_f64 :: "u64 \<Rightarrow> u32" where
  "f32_of_f64 u =
     (let sign = push_bit 31 (of_bool (bit u 63)); ex = unat (take_bit 11 (drop_bit 52 u));
          mant = unat (take_bit 52 u)
      in if ex = 2047 then
           sign OR (if mant = 0 then 0x7F800000 else 0x7FC00000 OR of_nat (mant div 2 ^ 29))
         else if ex < 897 then
           sign OR of_nat (shift_round (if ex = 0 then mant else 2 ^ 52 + mant) (min 64 (926 - max ex 1)))
         else
           (let m = (ex - 896) * 2 ^ 23 + shift_round mant 29 in
            sign OR (if m \<ge> 0x7F800000 then 0x7F800000 else of_nat m)))"

definition aarch64_fmov_encode_imm8 :: "u64 \<Rightarrow> bool \<Rightarrow> u8 option" where
  "aarch64_fmov_encode_imm8 v is_double =
     (if is_double then
        (let u = v; sign = drop_bit 63 u AND 1; ex = drop_bit 52 u AND 0x7FF; mant = u AND (push_bit 52 1 - 1) in
         if mant AND (push_bit 48 1 - 1) \<noteq> 0 then None
         else (let efgh = drop_bit 48 mant AND 0xF; b_hi = drop_bit 10 ex AND 1; b = (if b_hi = 0 then 1 else 0) in
           if \<not> list_all (\<lambda>i. drop_bit i ex AND 1 = b) [2..<10] then None
           else Some (ucast (push_bit 7 sign OR push_bit 6 b OR push_bit 4 (ex AND 3) OR efgh))))
      else
        (let u = f32_of_f64 v; sign = drop_bit 31 u AND 1; ex = drop_bit 23 u AND 0xFF; mant = u AND (push_bit 23 1 - 1) in
         if mant AND (push_bit 19 1 - 1) \<noteq> 0 then None
         else (let efgh = drop_bit 19 mant AND 0xF; b_hi = drop_bit 7 ex AND 1; b = (if b_hi = 0 then 1 else 0) in
           if \<not> list_all (\<lambda>i. drop_bit i ex AND 1 = b) [2..<7] then None
           else Some (ucast (push_bit 7 sign OR push_bit 6 b OR push_bit 4 (ex AND 3) OR efgh)))))"

section \<open>Floating point\<close>

datatype (plugins only: code) tasm_fop = TASM_FOP_FADD | TASM_FOP_FSUB | TASM_FOP_FMUL | TASM_FOP_FDIV

definition vec_arrangement :: "asm_operand \<Rightarrow> (u32 \<times> u32) option" where
  "vec_arrangement d =
     (if op_v_lane_bits d = 32 \<and> op_v_n_lanes d = 4 then Some (1, 0)
      else if op_v_lane_bits d = 32 \<and> op_v_n_lanes d = 2 then Some (0, 0)
      else if op_v_lane_bits d = 64 \<and> op_v_n_lanes d = 2 then Some (1, 1) else None)"

definition aarch64_enc_fp_arith :: "asm_state \<Rightarrow> asm_line \<Rightarrow> tasm_fop \<Rightarrow> asm_state" where
  "aarch64_enc_fp_arith e ln op =
     (case ln_operands ln of
        [d, n, m] \<Rightarrow>
          if \<not> asm_is_reg d \<or> \<not> asm_is_reg n \<or> \<not> asm_is_reg m then asm_err_at e ''FP arith: bad operands''
          else if cls d \<noteq> cls n \<or> cls n \<noteq> cls m then asm_err_at e ''FP arith: operand classes must match''
          else if cls d = AR_A64_S \<or> cls d = AR_A64_D then
            (let opcode4 = (if op = TASM_FOP_FMUL then 0 else if op = TASM_FOP_FDIV then 1
                            else if op = TASM_FOP_FADD then 2 else 3) in
             emit e (\<lambda>b. aarch64_enc_fp_2src_scalar b (cls d = AR_A64_D) opcode4 (regn d) (regn n) (regn m)))
          else if cls d = AR_A64_V then
            if op_v_lane_bits d = 0 \<or> op_v_n_lanes d = 0 \<or> op_v_lane_bits d \<noteq> op_v_lane_bits n \<or>
               op_v_lane_bits n \<noteq> op_v_lane_bits m \<or> op_v_n_lanes d \<noteq> op_v_n_lanes n \<or> op_v_n_lanes n \<noteq> op_v_n_lanes m
            then asm_err_at e ''FP vec arith: arrangement mismatch (need matching V<n>.<arr>)''
            else (case vec_arrangement d of
               None \<Rightarrow> asm_err_at e ''FP vec arith: arrangement must be 2S/4S/2D''
             | Some (Q, sz) \<Rightarrow>
                (let U = (if op = TASM_FOP_FMUL \<or> op = TASM_FOP_FDIV then 1 else 0);
                     bit23 = (if op = TASM_FOP_FSUB then 1 else 0);
                     op5 = (if op = TASM_FOP_FADD \<or> op = TASM_FOP_FSUB then 0x1A
                            else if op = TASM_FOP_FMUL then 0x1B else 0x1F) in
                 emit e (\<lambda>b. aarch64_enc_fp_3same_vec b Q U bit23 sz op5 (regn d) (regn n) (regn m))))
          else asm_err_at e ''FP arith: register must be S/D scalar or V.<arr> vector''
      | _ \<Rightarrow> asm_err_at e ''FADD/FSUB/FMUL/FDIV: 3 operands'')"

text \<open>The general register and scalar register pairs \<^verbatim>\<open>fmov\<close> moves between.\<close>

definition aarch64_enc_fmov :: "asm_state \<Rightarrow> asm_line \<Rightarrow> asm_state" where
  "aarch64_enc_fmov e ln =
     (case ln_operands ln of
        [d, s] \<Rightarrow>
          if asm_is_reg d \<and> (cls d = AR_A64_S \<or> cls d = AR_A64_D) \<and> asm_is_imm s \<and> op_is_float s then
            (case aarch64_fmov_encode_imm8 (op_f64 s) (cls d = AR_A64_D) of
               None \<Rightarrow> asm_err_at e ''FMOV: float immediate not representable as 8-bit FP imm''
             | Some imm8 \<Rightarrow> emit e (\<lambda>b. aarch64_enc_fmov_imm b (cls d = AR_A64_D) (regn d) imm8))
          else if asm_is_reg d \<and> asm_is_reg s \<and> cls d = cls s \<and> (cls d = AR_A64_S \<or> cls d = AR_A64_D)
          then emit e (\<lambda>b. aarch64_enc_fmov_reg b (cls d = AR_A64_D) (regn d) (regn s))
          else if asm_is_reg d \<and> asm_is_reg s \<and> cls d = cls s \<and> cls d = AR_A64_H
          then emit e (\<lambda>b. aarch64_enc_fmov_reg_h b (regn d) (regn s))
          else if asm_is_reg d \<and> asm_is_reg s \<and> cls d = AR_A64_W \<and> cls s = AR_A64_S
          then emit e (\<lambda>b. aarch64_enc_fmov_gpr b False True (regn d) (regn s))
          else if asm_is_reg d \<and> asm_is_reg s \<and> cls d = AR_A64_S \<and> cls s = AR_A64_W
          then emit e (\<lambda>b. aarch64_enc_fmov_gpr b False False (regn d) (regn s))
          else if asm_is_reg d \<and> asm_is_reg s \<and> cls d = AR_A64_X \<and> cls s = AR_A64_D
          then emit e (\<lambda>b. aarch64_enc_fmov_gpr b True True (regn d) (regn s))
          else if asm_is_reg d \<and> asm_is_reg s \<and> cls d = AR_A64_D \<and> cls s = AR_A64_X
          then emit e (\<lambda>b. aarch64_enc_fmov_gpr b True False (regn d) (regn s))
          else if asm_is_reg d \<and> asm_is_reg s \<and> cls d = AR_A64_W \<and> cls s = AR_A64_H
          then emit e (\<lambda>b. aarch64_enc_fmov_h_gpr b True (regn d) (regn s))
          else if asm_is_reg d \<and> asm_is_reg s \<and> cls d = AR_A64_H \<and> cls s = AR_A64_W
          then emit e (\<lambda>b. aarch64_enc_fmov_h_gpr b False (regn d) (regn s))
          else asm_err_at e ''FMOV: unsupported operand combination''
      | _ \<Rightarrow> asm_err_at e ''FMOV: 2 operands'')"

definition aarch64_enc_fp1src :: "asm_state \<Rightarrow> asm_line \<Rightarrow> u32 \<Rightarrow> asm_state" where
  "aarch64_enc_fp1src e ln opcode6 =
     (case ln_operands ln of
        [d, n] \<Rightarrow>
          if \<not> asm_is_reg d \<or> \<not> asm_is_reg n \<or> cls d \<noteq> cls n then asm_err_at e ''FP 1-source: matching S/D regs''
          else if cls d \<noteq> AR_A64_S \<and> cls d \<noteq> AR_A64_D then asm_err_at e ''FP 1-source: dst must be S or D''
          else emit e (\<lambda>b. aarch64_enc_fp_1src b (cls d = AR_A64_D) opcode6 (regn d) (regn n))
      | _ \<Rightarrow> asm_err_at e ''FP 1-source: 2 operands'')"

text \<open>\<^verbatim>\<open>m->f64 == 0.0\<close> holds of both zeros.\<close>

definition aarch64_enc_fcmp_line :: "asm_state \<Rightarrow> asm_line \<Rightarrow> u32 \<Rightarrow> asm_state" where
  "aarch64_enc_fcmp_line e ln with_exceptions =
     (case ln_operands ln of
        [n, m] \<Rightarrow>
          if \<not> asm_is_reg n \<or> (cls n \<noteq> AR_A64_S \<and> cls n \<noteq> AR_A64_D) then asm_err_at e ''FCMP: lhs must be S or D reg''
          else if asm_is_reg m \<and> cls m = cls n
          then emit e (\<lambda>b. aarch64_enc_fcmp b (cls n = AR_A64_D) with_exceptions 0 (regn n) (regn m))
          else if asm_is_imm m \<and> op_is_float m \<and> (op_f64 m = 0 \<or> op_f64 m = 0x8000000000000000)
          then emit e (\<lambda>b. aarch64_enc_fcmp b (cls n = AR_A64_D) with_exceptions 1 (regn n) 0)
          else if asm_is_imm m \<and> \<not> op_is_float m \<and> op_imm m = 0
          then emit e (\<lambda>b. aarch64_enc_fcmp b (cls n = AR_A64_D) with_exceptions 1 (regn n) 0)
          else asm_err_at e ''FCMP: rhs must be matching-class reg or #0.0''
      | _ \<Rightarrow> asm_err_at e ''FCMP: 2 operands'')"

text \<open>The width and precision fields from the classes of destination and source.\<close>

definition fp_int_classes :: "bool \<Rightarrow> asm_reg_class \<Rightarrow> asm_reg_class \<Rightarrow> (u32 \<times> u32) option" where
  "fp_int_classes fp_to_int dc nc =
     (let (g, f) = (if fp_to_int then (dc, nc) else (nc, dc)) in
      if g = AR_A64_W \<and> f = AR_A64_S then Some (0, 0) else if g = AR_A64_X \<and> f = AR_A64_D then Some (1, 1)
      else if g = AR_A64_W \<and> f = AR_A64_D then Some (0, 1) else if g = AR_A64_X \<and> f = AR_A64_S then Some (1, 0)
      else None)"

definition aarch64_enc_fp_int_cvt_line :: "asm_state \<Rightarrow> asm_line \<Rightarrow> u32 \<Rightarrow> bool \<Rightarrow> asm_state" where
  "aarch64_enc_fp_int_cvt_line e ln rmode_opcode5 fp_to_int =
     (case ln_operands ln of
        [d, n] \<Rightarrow>
          if \<not> asm_is_reg d \<or> \<not> asm_is_reg n then asm_err_at e ''FP-int cvt: bad operands''
          else (case fp_int_classes fp_to_int (cls d) (cls n) of
             None \<Rightarrow> asm_err_at e (if fp_to_int then ''FCVTZ*: dst W/X, src S/D'' else ''SCVTF/UCVTF: dst S/D, src W/X'')
           | Some (sf, ftype) \<Rightarrow> emit e (\<lambda>b. aarch64_enc_fp_int_cvt b sf ftype rmode_opcode5 (regn d) (regn n)))
      | _ \<Rightarrow> asm_err_at e ''FP-int cvt: 2 operands'')"

section \<open>BF16\<close>

text \<open>The register number or \<open>None\<close> for -1, where an error has been reported.\<close>

definition aarch64_chk_varr :: "asm_state \<Rightarrow> asm_operand \<Rightarrow> int \<Rightarrow> int \<Rightarrow> bool \<Rightarrow> asm_state \<times> u32 option" where
  "aarch64_chk_varr e o1 want_lanes want_bits want_lane_idx_neg =
     (if \<not> asm_is_reg o1 \<or> cls o1 \<noteq> AR_A64_V then (asm_err_at e ''BF16: operand must be V-form'', None)
      else if op_v_lane_bits o1 \<noteq> want_bits \<or> op_v_n_lanes o1 \<noteq> want_lanes
      then (asm_err_at e ''BF16: wrong V<n>.<arr> arrangement'', None)
      else if want_lane_idx_neg \<and> op_v_lane_idx o1 \<noteq> - 1 then (asm_err_at e ''BF16: unexpected lane index'', None)
      else (e, Some (regn o1)))"

definition aarch64_enc_bfdot :: "asm_state \<Rightarrow> asm_line \<Rightarrow> asm_state" where
  "aarch64_enc_bfdot e ln =
     (case ln_operands ln of
        [d, n, m] \<Rightarrow>
          if \<not> asm_is_reg d \<or> cls d \<noteq> AR_A64_V \<or> \<not> asm_is_reg n \<or> cls n \<noteq> AR_A64_V \<or> \<not> asm_is_reg m \<or> cls m \<noteq> AR_A64_V
          then asm_err_at e ''BFDOT: V-form regs required''
          else if op_v_lane_bits d \<noteq> 32 \<or> (op_v_n_lanes d \<noteq> 4 \<and> op_v_n_lanes d \<noteq> 2)
          then asm_err_at e ''BFDOT: Vd must be .2S or .4S''
          else (let Q = of_bool (op_v_n_lanes d = 4); want_nh = (if op_v_n_lanes d = 4 then 8 else 4) in
            if op_v_lane_bits n \<noteq> 16 \<or> op_v_n_lanes n \<noteq> want_nh
            then asm_err_at e ''BFDOT: Vn arrangement must be .4H (2S) or .8H (4S)''
            else if op_v_lane_idx m \<ge> 0 then
              if op_v_lane_bits m \<noteq> 16 \<or> op_v_n_lanes m \<noteq> 2 then asm_err_at e ''BFDOT idx: Vm must be V<n>.2H[idx]''
              else if op_v_lane_idx m < 0 \<or> op_v_lane_idx m > 3 then asm_err_at e ''BFDOT idx: lane index must be 0..3''
              else emit e (\<lambda>b. aarch64_enc_bfdot_idx b Q (regn d) (regn n) (regn m) (word_of_int (op_v_lane_idx m)))
            else if op_v_lane_bits m \<noteq> 16 \<or> op_v_n_lanes m \<noteq> want_nh
            then asm_err_at e ''BFDOT: Vm arrangement must match Vn''
            else emit e (\<lambda>b. aarch64_enc_bfdot_vec b Q (regn d) (regn n) (regn m)))
      | _ \<Rightarrow> asm_err_at e ''BFDOT: 3 operands'')"

text \<open>The three checked operands of \<^verbatim>\<open>bfmlal\<close> and \<^verbatim>\<open>bfmmla\<close>; every operand is checked, so up to three errors are reported.\<close>

definition bf16_operands ::
  "asm_state \<Rightarrow> asm_operand \<Rightarrow> asm_operand \<Rightarrow> asm_operand \<Rightarrow> (u32 \<Rightarrow> u32 \<Rightarrow> u32 \<Rightarrow> asm_enc \<Rightarrow> asm_enc \<times> nat) \<Rightarrow> asm_state" where
  "bf16_operands e d n m f =
     (let (e, rd) = aarch64_chk_varr e d 4 32 True; (e, rn) = aarch64_chk_varr e n 8 16 True;
          (e, rm) = aarch64_chk_varr e m 8 16 True
      in case (rd, rn, rm) of (Some rd, Some rn, Some rm) \<Rightarrow> emit e (f rd rn rm) | _ \<Rightarrow> e)"

definition aarch64_enc_bfmlal :: "asm_state \<Rightarrow> asm_line \<Rightarrow> bool \<Rightarrow> asm_state" where
  "aarch64_enc_bfmlal e ln is_top =
     (case ln_operands ln of
        [d, n, m] \<Rightarrow>
          bf16_operands e d n m (\<lambda>rd rn rm b. (if is_top then aarch64_enc_bfmlalt else aarch64_enc_bfmlalb) b rd rn rm)
      | _ \<Rightarrow> asm_err_at e ''BFMLAL: 3 operands'')"

definition aarch64_enc_bfmmla :: "asm_state \<Rightarrow> asm_line \<Rightarrow> asm_state" where
  "aarch64_enc_bfmmla e ln =
     (case ln_operands ln of
        [d, n, m] \<Rightarrow>
          bf16_operands e d n m (\<lambda>rd rn rm b.
            put_word b (0x6E40EC00 OR push_bit 16 (rm AND 0x1F) OR push_bit 5 (rn AND 0x1F) OR (rd AND 0x1F)))
      | _ \<Rightarrow> asm_err_at e ''BFMMLA: 3 operands'')"

definition aarch64_enc_bfcvt_scalar :: "asm_state \<Rightarrow> asm_line \<Rightarrow> asm_state" where
  "aarch64_enc_bfcvt_scalar e ln =
     (case ln_operands ln of
        [d, n] \<Rightarrow>
          if \<not> asm_is_reg d \<or> cls d \<noteq> AR_A64_H \<or> \<not> asm_is_reg n \<or> cls n \<noteq> AR_A64_S
          then asm_err_at e ''BFCVT: expected Hd, Sn''
          else emit e (\<lambda>b. aarch64_enc_bfcvt b (regn d) (regn n))
      | _ \<Rightarrow> asm_err_at e ''BFCVT: 2 operands'')"

definition aarch64_enc_bfcvtn_line :: "asm_state \<Rightarrow> asm_line \<Rightarrow> bool \<Rightarrow> asm_state" where
  "aarch64_enc_bfcvtn_line e ln is_top =
     (case ln_operands ln of
        [d, n] \<Rightarrow>
          (let (e, rd) = aarch64_chk_varr e d (if is_top then 8 else 4) 16 True; (e, rn) = aarch64_chk_varr e n 4 32 True
           in case (rd, rn) of (Some rd, Some rn) \<Rightarrow> emit e (\<lambda>b. aarch64_enc_bfcvtn b (of_bool is_top) rd rn) | _ \<Rightarrow> e)
      | _ \<Rightarrow> asm_err_at e ''BFCVTN: 2 operands'')"

section \<open>PRINTREG\<close>

text \<open>The helper function of a register class, whether it is the vector form, and the width of a scalar FP register.\<close>

definition printreg_helper :: "asm_reg_class \<Rightarrow> (string \<times> bool \<times> int) option" where
  "printreg_helper c =
     (if c = AR_A64_X then Some (''_tasm_print_x'', False, 0) else if c = AR_A64_W then Some (''_tasm_print_w'', False, 0)
      else if c = AR_A64_S then Some (''_tasm_print_s'', False, 4)
      else if c = AR_A64_D then Some (''_tasm_print_d'', False, 8)
      else if c = AR_A64_V then Some (''_tasm_print_v'', True, 0) else None)"

text \<open>How a vector is printed: from its lanes, or named by the second operand; \<open>Inl\<close> is the error message.\<close>

definition printreg_kind :: "asm_operand \<Rightarrow> asm_operand list \<Rightarrow> string + u64" where
  "printreg_kind r rest =
     (if op_v_lane_bits r = 0 then Inl ''PRINTREG V: need .<arr> suffix''
      else case rest of
        [] \<Rightarrow> Inr (if op_v_lane_bits r = 32 \<or> op_v_lane_bits r = 64 then 2 else 0)
      | h # _ \<Rightarrow>
         (case (op_kind h = AOP_LABEL, op_label_name h) of
            (True, Some name) \<Rightarrow>
              if aarch64_streq_ci name ''BF16'' then Inr 3
              else if aarch64_streq_ci name ''SIGNED'' then Inr 1 else if aarch64_streq_ci name ''SINT'' then Inr 1
              else if aarch64_streq_ci name ''UINT'' then Inr 0 else if aarch64_streq_ci name ''FP'' then Inr 2
              else Inl ''PRINTREG: unknown kind hint''
          | _ \<Rightarrow> Inl ''PRINTREG: 2nd operand must be a kind name''))"

definition savepairs :: "(u32 \<times> u32) list" where
  "savepairs = [(0, 1), (2, 3), (4, 5), (6, 7), (8, 9), (10, 11), (12, 13), (14, 15), (16, 17), (29, 30)]"

definition save_pairs :: "asm_enc \<Rightarrow> asm_enc" where
  "save_pairs b = fold (\<lambda>(r1, r2) b. fst (aarch64_enc_ldst_pair b 0 0 8 1 r1 r2 31 (- 16))) savepairs b"

definition restore_pairs :: "asm_enc \<Rightarrow> asm_enc" where
  "restore_pairs b = fold (\<lambda>(r1, r2) b. fst (aarch64_enc_ldst_pair b 0 1 8 2 r1 r2 31 16)) (rev savepairs) b"

definition printreg_scalar :: "asm_state \<Rightarrow> string \<Rightarrow> int \<Rightarrow> u32 \<Rightarrow> asm_state" where
  "printreg_scalar e helper fp_width rn =
     (let load_into_fp = (fp_width \<noteq> 0);
          e = emit e (\<lambda>b. aarch64_enc_sub_imm b 1 31 31 16);
          e = emit e (\<lambda>b. if load_into_fp then aarch64_enc_fp_ldst_imm b False fp_width rn 31 0
                          else aarch64_enc_str_imm b rn 31 0);
          e = emit_seq e save_pairs;
          e = emit e (\<lambda>b. if load_into_fp then aarch64_enc_fp_ldst_imm b True fp_width 0 31 160
                          else aarch64_enc_ldr_imm b 0 31 160);
          e = emit_seq e (\<lambda>b. aarch64_enc_mov_imm64 b (if load_into_fp then 0 else 1) (ucast rn));
          e = aarch64_emit_branch_sym e helper True;
          e = emit_seq e restore_pairs;
          e = emit e (\<lambda>b. if load_into_fp then aarch64_enc_fp_ldst_imm b True fp_width rn 31 0
                          else aarch64_enc_ldr_imm b rn 31 0)
      in emit e (\<lambda>b. aarch64_enc_add_imm b 1 31 31 16))"

definition printreg_vector :: "asm_state \<Rightarrow> string \<Rightarrow> asm_operand \<Rightarrow> u64 \<Rightarrow> asm_state" where
  "printreg_vector e helper r v_kind =
     (let e = emit e (\<lambda>b. aarch64_enc_sub_imm b 1 31 31 16);
          e = emit e (\<lambda>b. aarch64_enc_fp_ldst_imm b False 16 (regn r) 31 0);
          e = emit_seq e save_pairs;
          e = emit e (\<lambda>b. aarch64_enc_add_imm b 1 0 31 160);
          e = emit_seq e (\<lambda>b. aarch64_enc_mov_imm64 b 1 (ucast (regn r)));
          e = emit_seq e (\<lambda>b. aarch64_enc_mov_imm64 b 2 (word_of_int (op_v_n_lanes r)));
          e = emit_seq e (\<lambda>b. aarch64_enc_mov_imm64 b 3 (word_of_int (op_v_lane_bits r)));
          e = emit_seq e (\<lambda>b. aarch64_enc_mov_imm64 b 4 v_kind);
          e = aarch64_emit_branch_sym e helper True;
          e = emit_seq e restore_pairs;
          e = emit e (\<lambda>b. aarch64_enc_fp_ldst_imm b True 16 (regn r) 31 0)
      in emit e (\<lambda>b. aarch64_enc_add_imm b 1 31 31 16))"

definition aarch64_enc_printreg :: "bool \<Rightarrow> asm_state \<Rightarrow> asm_line \<Rightarrow> asm_state" where
  "aarch64_enc_printreg linux e ln =
     (case ln_operands ln of
        r # rest \<Rightarrow>
          if length rest > 1 then asm_err_at e ''PRINTREG: 1 or 2 operands''
          else if \<not> asm_is_reg r then asm_err_at e ''PRINTREG: reg required''
          else if regn r = 31 \<and> cls r \<in> {AR_A64_X, AR_A64_W, AR_A64_SP} then asm_err_at e ''PRINTREG: refuses XZR/SP''
          else (case printreg_helper (cls r) of
             None \<Rightarrow> asm_err_at e ''PRINTREG: unsupported register class''
           | Some (helper, is_vec, fp_width) \<Rightarrow>
              (let helper = (if linux then tl helper else helper) in
               if is_vec then
                 (case printreg_kind r rest of
                    Inl msg \<Rightarrow> asm_err_at e msg
                  | Inr v_kind \<Rightarrow> printreg_vector e helper r v_kind)
               else printreg_scalar e helper fp_width (regn r)))
      | [] \<Rightarrow> asm_err_at e ''PRINTREG: 1 or 2 operands'')"

section \<open>Control flow and system\<close>

definition aarch64_local_label_num :: "asm_operand \<Rightarrow> int" where
  "aarch64_local_label_num o1 = asm_operand_local_num o1"

definition aarch64_enc_cbz_line :: "asm_state \<Rightarrow> asm_line \<Rightarrow> u32 \<Rightarrow> asm_state result" where
  "aarch64_enc_cbz_line e ln is_nonzero =
     (case ln_operands ln of
        [r, l] \<Rightarrow>
          if \<not> asm_is_reg r then Inr (asm_err_at e ''CBZ/CBNZ: reg required'')
          else if cls r \<noteq> AR_A64_X \<and> cls r \<noteq> AR_A64_W then Inr (asm_err_at e ''CBZ/CBNZ: reg must be X or W'')
          else (let is_64 = of_bool (cls r = AR_A64_X) in
            if asm_is_imm l \<and> \<not> op_is_float l then
              if op_imm l smod 4 \<noteq> 0 then Inr (asm_err_at e ''CBZ/CBNZ: offset must be a multiple of 4'')
              else (let words = op_imm l sdiv 4 in
                if words < - 262144 \<or> words \<ge> 262144 then Inr (asm_err_at e ''CBZ/CBNZ: offset out of range'')
                else Inr (emit e (\<lambda>b. aarch64_enc_cbz b is_64 is_nonzero (regn r) words)))
            else if \<not> asm_is_label l then Inr (asm_err_at e ''CBZ/CBNZ: label or #offset required'')
            else (let patch = as_len e; e = emit e (\<lambda>b. aarch64_enc_cbz b is_64 is_nonzero (regn r) 0) in
              rbind (label_fixup l) (\<lambda>f.
                Inr (asm_add_fixup e (f\<lparr>fx_patch_offset := patch, fx_width := 19, fx_pcrel := True\<rparr>)))))
      | _ \<Rightarrow> Inr (asm_err_at e ''CBZ/CBNZ: 2 operands''))"

definition aarch64_enc_branch :: "asm_state \<Rightarrow> asm_line \<Rightarrow> bool \<Rightarrow> bool \<Rightarrow> u32 \<Rightarrow> asm_state result" where
  "aarch64_enc_branch e ln is_bl is_cond cc =
     (case ln_operands ln of
        [o1] \<Rightarrow>
          if asm_is_imm o1 \<and> \<not> op_is_float o1 then
            if op_imm o1 smod 4 \<noteq> 0 then Inr (asm_err_at e ''branch: offset must be a multiple of 4'')
            else (let words = op_imm o1 sdiv 4; lim = (if is_cond then 262144 else 33554432) in
              if words < - lim \<or> words \<ge> lim then Inr (asm_err_at e ''branch: offset out of range'')
              else if is_cond then Inr (emit e (\<lambda>b. aarch64_enc_b_cond b cc words))
              else if is_bl then Inr (emit e (\<lambda>b. aarch64_enc_bl b words))
              else Inr (emit e (\<lambda>b. aarch64_enc_b b words)))
          else if \<not> asm_is_label o1 then Inr (asm_err_at e ''branch: operand must be a label or #offset'')
          else (let ln_num = aarch64_local_label_num o1 in
            if ln_num \<ge> 0 then
              if is_cond then Inr (aarch64_emit_b_cond_local e cc ln_num)
              else Inr (aarch64_emit_branch_local e ln_num is_bl)
            else (case op_label_name o1 of
               None \<Rightarrow> Inl NullDeref
             | Some name \<Rightarrow>
                if \<not> is_cond then Inr (aarch64_emit_branch_sym e name is_bl)
                else if cc = 14 then Inr (aarch64_emit_branch_sym e name False)
                else Inr (aarch64_emit_branch_sym (emit e (\<lambda>b. aarch64_enc_b_cond b (cc XOR 1) 2)) name False)))
      | _ \<Rightarrow> Inr (asm_err_at e ''branch needs 1 operand''))"

definition aarch64_enc_br_blr :: "asm_state \<Rightarrow> asm_line \<Rightarrow> bool \<Rightarrow> asm_state" where
  "aarch64_enc_br_blr e ln is_bl =
     (case ln_operands ln of
        [r] \<Rightarrow>
          if \<not> asm_is_reg r then asm_err_at e ''BR/BLR needs 1 reg operand''
          else emit e (\<lambda>b. (if is_bl then aarch64_enc_blr else aarch64_enc_br) b (regn r))
      | _ \<Rightarrow> asm_err_at e ''BR/BLR needs 1 reg operand'')"

definition aarch64_enc_barrier_line :: "asm_state \<Rightarrow> asm_line \<Rightarrow> u32 \<Rightarrow> asm_state result" where
  "aarch64_enc_barrier_line e ln opc2 =
     (case ln_operands ln of
        [] \<Rightarrow> Inr (emit e (\<lambda>b. aarch64_enc_barrier b opc2 15))
      | [o1] \<Rightarrow>
          if asm_is_label o1 then
            (case op_label_name o1 of
               None \<Rightarrow> Inl NullDeref
             | Some name \<Rightarrow>
                (let v = aarch64_barrier_option_from_name name in
                 if v < 0 then Inr (asm_err_at e ''DMB/DSB/ISB: unknown barrier option'')
                 else Inr (emit e (\<lambda>b. aarch64_enc_barrier b opc2 (word_of_int v)))))
          else if asm_is_imm o1 then
            if op_imm o1 < 0 \<or> op_imm o1 > 15 then Inr (asm_err_at e ''DMB/DSB/ISB: imm out of range (0..15)'')
            else Inr (emit e (\<lambda>b. aarch64_enc_barrier b opc2 (word_of_int (op_imm o1))))
          else Inr (asm_err_at e ''DMB/DSB/ISB: bad operand'')
      | _ \<Rightarrow> Inr (asm_err_at e ''DMB/DSB/ISB: 0 or 1 operand''))"

definition aarch64_enc_mrs_line :: "asm_state \<Rightarrow> asm_line \<Rightarrow> asm_state result" where
  "aarch64_enc_mrs_line e ln =
     (case ln_operands ln of
        [r, l] \<Rightarrow>
          if \<not> asm_is_reg r \<or> cls r \<noteq> AR_A64_X \<or> \<not> asm_is_label l then Inr (asm_err_at e ''MRS: expected `Xt, sysreg`'')
          else (case op_label_name l of
             None \<Rightarrow> Inl NullDeref
           | Some name \<Rightarrow>
              (case aarch64_sysreg_from_name name of
                 None \<Rightarrow> Inr (asm_err_at e ''MRS: unknown system register'')
               | Some sr \<Rightarrow> Inr (emit e (\<lambda>b. aarch64_enc_mrs b (regn r) sr))))
      | _ \<Rightarrow> Inr (asm_err_at e ''MRS: expected `Xt, sysreg`''))"

definition aarch64_enc_msr :: "asm_state \<Rightarrow> asm_line \<Rightarrow> asm_state result" where
  "aarch64_enc_msr e ln =
     (case ln_operands ln of
        [l, s] \<Rightarrow>
          if \<not> asm_is_label l then Inr (asm_err_at e ''MSR: expected `sysreg, Xt` or `PSTATE, #imm`'')
          else (case op_label_name l of
             None \<Rightarrow> Inl NullDeref
           | Some dst \<Rightarrow>
              (case (asm_is_imm s, aarch64_pstate_from_name dst) of
                 (True, Some (p1, p2)) \<Rightarrow>
                   if op_imm s < 0 \<or> op_imm s > 15 then Inr (asm_err_at e ''MSR imm: value out of range (0..15)'')
                   else Inr (emit e (\<lambda>b. aarch64_enc_msr_imm b p1 p2 (word_of_int (op_imm s))))
               | _ \<Rightarrow>
                   if \<not> asm_is_reg s \<or> cls s \<noteq> AR_A64_X
                   then Inr (asm_err_at e ''MSR: second operand must be Xt (or PSTATE+#imm)'')
                   else (case aarch64_sysreg_from_name dst of
                      None \<Rightarrow> Inr (asm_err_at e ''MSR: unknown system register or PSTATE field'')
                    | Some sr \<Rightarrow> Inr (emit e (\<lambda>b. aarch64_enc_msr_reg b sr (regn s))))))
      | _ \<Rightarrow> Inr (asm_err_at e ''MSR: expected `sysreg, Xt` or `PSTATE, #imm`''))"

definition aarch64_enc_adrp_dispatch :: "asm_state \<Rightarrow> asm_line \<Rightarrow> asm_state result" where
  "aarch64_enc_adrp_dispatch e ln =
     (case ln_operands ln of
        [d, s] \<Rightarrow>
          if \<not> asm_is_reg d \<or> cls d \<noteq> AR_A64_X then Inr (asm_err_at e ''ADRP: need Xd, <label>'')
          else if \<not> asm_is_label s then Inr (asm_err_at e ''ADRP: second operand must be a label'')
          else (let e = emit e (\<lambda>b. aarch64_enc_adrp b (regn d) 0) in
            rbind (label_fixup s) (\<lambda>f.
              Inr (asm_add_fixup e (f\<lparr>fx_patch_offset := as_len e - 4, fx_width := 4, fx_pcrel := True,
                     fx_reloc := AFR_AARCH64_PAGE21\<rparr>))))
      | _ \<Rightarrow> Inr (asm_err_at e ''ADRP: need Xd, <label>''))"

section \<open>Emitters of the JIT\<close>

definition aarch64_jit_emit_ret :: "asm_enc \<Rightarrow> asm_enc \<times> nat" where
  "aarch64_jit_emit_ret e = put_word e 0xD65F03C0"

definition aarch64_jit_emit_bl_placeholder :: "asm_enc \<Rightarrow> asm_enc \<times> nat" where
  "aarch64_jit_emit_bl_placeholder e = put_word e 0x94000000"

definition aarch64_jit_emit_b_placeholder :: "asm_enc \<Rightarrow> asm_enc \<times> nat" where
  "aarch64_jit_emit_b_placeholder e = put_word e 0x14000000"

definition aarch64_jit_emit_bcond_placeholder :: "asm_enc \<Rightarrow> u32 \<Rightarrow> asm_enc \<times> nat" where
  "aarch64_jit_emit_bcond_placeholder e cond = put_word e (0x54000000 OR (cond AND 0xF))"

definition aarch64_jit_emit_stp_pre :: "asm_enc \<Rightarrow> u32 \<Rightarrow> u32 \<Rightarrow> u32 \<Rightarrow> int \<Rightarrow> asm_enc \<times> nat" where
  "aarch64_jit_emit_stp_pre e rt1 rt2 rn imm =
     put_word e (0xA9800000 OR push_bit 15 (word_of_int (imm sdiv 8) AND 0x7F) OR push_bit 10 (rt2 AND 0x1F) OR
       push_bit 5 (rn AND 0x1F) OR (rt1 AND 0x1F))"

definition aarch64_jit_emit_ldp_post :: "asm_enc \<Rightarrow> u32 \<Rightarrow> u32 \<Rightarrow> u32 \<Rightarrow> int \<Rightarrow> asm_enc \<times> nat" where
  "aarch64_jit_emit_ldp_post e rt1 rt2 rn imm =
     put_word e (0xA8C00000 OR push_bit 15 (word_of_int (imm sdiv 8) AND 0x7F) OR push_bit 10 (rt2 AND 0x1F) OR
       push_bit 5 (rn AND 0x1F) OR (rt1 AND 0x1F))"

definition aarch64_jit_emit_trampoline :: "asm_enc \<Rightarrow> u64 \<Rightarrow> asm_enc \<times> nat" where
  "aarch64_jit_emit_trampoline e t =
     (let start = length (ae_bytes e);
          e = fst (aarch64_enc_movz e 16 1 (ucast t AND 0xFFFF) 0);
          e = fst (aarch64_enc_movk e 16 1 (ucast (drop_bit 16 t AND 0xFFFF)) 1);
          e = fst (aarch64_enc_movk e 16 1 (ucast (drop_bit 32 t AND 0xFFFF)) 2);
          e = fst (aarch64_enc_movk e 16 1 (ucast (drop_bit 48 t AND 0xFFFF)) 3);
          e = fst (aarch64_enc_br e 16)
      in (e, start))"

section \<open>Dispatch\<close>

definition aarch64_enc_uxtb_line :: "asm_state \<Rightarrow> asm_line \<Rightarrow> asm_state result" where
  "aarch64_enc_uxtb_line e ln =
     (case ln_operands ln of
        rd # rn # _ \<Rightarrow>
          (let e = (if \<not> asm_is_reg rd \<or> \<not> asm_is_reg rn then asm_err_at e ''uxtb only takes registers'' else e)
           in Inr (emit e (\<lambda>b. aarch64_enc_uxtb b 0 (regn rd) (regn rn))))
      | _ \<Rightarrow> Inl OutOfBounds)"

definition aarch64_enc_ldr_str_line :: "asm_state \<Rightarrow> asm_line \<Rightarrow> bool \<Rightarrow> asm_state" where
  "aarch64_enc_ldr_str_line e ln is_load =
     (if ln_operands ln \<noteq> [] \<and> aarch64_is_simd_reg (hd (ln_operands ln)) then aarch64_enc_simd_ldst e ln is_load
      else aarch64_enc_ldst64 e ln is_load)"

definition aarch64_enc_ret_line :: "asm_state \<Rightarrow> asm_line \<Rightarrow> asm_state" where
  "aarch64_enc_ret_line e ln =
     (case ln_operands ln of
        [] \<Rightarrow> emit e aarch64_enc_ret
      | [r] \<Rightarrow> if asm_is_reg r then emit e (\<lambda>b. aarch64_enc_ret_reg b (regn r)) else asm_err_at e ''RET takes 0 or 1 reg operand''
      | _ \<Rightarrow> asm_err_at e ''RET takes 0 or 1 reg operand'')"

definition aarch64_enc_nop_line :: "asm_state \<Rightarrow> asm_state" where
  "aarch64_enc_nop_line e = emit_seq e (\<lambda>b. put_byte (put_byte (put_byte (put_byte b 0x1F) 0x20) 0x03) 0xD5)"

text \<open>The part after the switch: \<^verbatim>\<open>b.<cc>\<close>, which is not in the mnemonic table, or an error.\<close>

definition aarch64_enc_unknown_line :: "asm_state \<Rightarrow> asm_line \<Rightarrow> asm_state result" where
  "aarch64_enc_unknown_line e ln =
     (case aarch64_parse_branch_cond_suffix (case ln_mnemonic ln of Some m \<Rightarrow> m | None \<Rightarrow> []) of
        Some cc \<Rightarrow> aarch64_enc_branch e ln False True cc
      | None \<Rightarrow>
          Inr (asm_err_at e
            (case (ln_mnemonic ln, ln_label_name ln) of
               (Some m, _) \<Rightarrow> snprintf 256 (''unsupported AArch64 mnemonic `'' @ m @ ''`'')
             | (None, Some l) \<Rightarrow> snprintf 256 (''unsupported AArch64 mnemonic `'' @ l @ ''`'')
             | (None, None) \<Rightarrow> ''unsupported AArch64 mnemonic'')))"

primrec encode_mnemonic :: "bool \<Rightarrow> aarch64_mn \<Rightarrow> asm_state \<Rightarrow> asm_line \<Rightarrow> asm_state result" where
  "encode_mnemonic linux A64MN_MOV e ln = Inr (aarch64_enc_mov e ln)"
| "encode_mnemonic linux A64MN_UXTB e ln = aarch64_enc_uxtb_line e ln"
| "encode_mnemonic linux A64MN_ADD e ln = aarch64_enc_add_sub e ln False"
| "encode_mnemonic linux A64MN_ADRP e ln = aarch64_enc_adrp_dispatch e ln"
| "encode_mnemonic linux A64MN_SUB e ln = aarch64_enc_add_sub e ln True"
| "encode_mnemonic linux A64MN_AND e ln = Inr (aarch64_enc_logical_reg e ln aarch64_enc_and_reg ''AND: 3 reg operands'')"
| "encode_mnemonic linux A64MN_ORR e ln = Inr (aarch64_enc_logical_reg e ln aarch64_enc_orr_reg ''ORR: 3 reg operands'')"
| "encode_mnemonic linux A64MN_EOR e ln = Inr (aarch64_enc_logical_reg e ln aarch64_enc_eor_reg ''EOR: 3 reg operands'')"
| "encode_mnemonic linux A64MN_MUL e ln = Inr (aarch64_enc_mulm e ln)"
| "encode_mnemonic linux A64MN_SDIV e ln = Inr (aarch64_enc_sdi e ln)"
| "encode_mnemonic linux A64MN_LSL e ln = Inr (aarch64_enc_lsl e ln)"
| "encode_mnemonic linux A64MN_NEG e ln = Inr (aarch64_enc_neg e ln)"
| "encode_mnemonic linux A64MN_CMP e ln = Inr (aarch64_enc_cmp e ln)"
| "encode_mnemonic linux A64MN_LDR e ln = Inr (aarch64_enc_ldr_str_line e ln True)"
| "encode_mnemonic linux A64MN_STR e ln = Inr (aarch64_enc_ldr_str_line e ln False)"
| "encode_mnemonic linux A64MN_LDRB e ln = Inr (aarch64_enc_ldst_sub e ln True 1)"
| "encode_mnemonic linux A64MN_STRB e ln = Inr (aarch64_enc_ldst_sub e ln False 1)"
| "encode_mnemonic linux A64MN_LDRH e ln = Inr (aarch64_enc_ldst_sub e ln True 2)"
| "encode_mnemonic linux A64MN_STRH e ln = Inr (aarch64_enc_ldst_sub e ln False 2)"
| "encode_mnemonic linux A64MN_LDRSB e ln = Inr (aarch64_enc_ldrs e ln 1)"
| "encode_mnemonic linux A64MN_LDRSH e ln = Inr (aarch64_enc_ldrs e ln 2)"
| "encode_mnemonic linux A64MN_LDRSW e ln = Inr (aarch64_enc_ldrs e ln 4)"
| "encode_mnemonic linux A64MN_LDP e ln = Inr (aarch64_enc_ldp_stp e ln True False)"
| "encode_mnemonic linux A64MN_STP e ln = Inr (aarch64_enc_ldp_stp e ln False False)"
| "encode_mnemonic linux A64MN_LDNP e ln = Inr (aarch64_enc_ldp_stp e ln True True)"
| "encode_mnemonic linux A64MN_STNP e ln = Inr (aarch64_enc_ldp_stp e ln False True)"
| "encode_mnemonic linux A64MN_SUBS e ln = Inr (aarch64_enc_subs e ln)"
| "encode_mnemonic linux A64MN_CBZ e ln = aarch64_enc_cbz_line e ln 0"
| "encode_mnemonic linux A64MN_CSEL e ln = aarch64_validate_and_enc_csel e ln"
| "encode_mnemonic linux A64MN_CBNZ e ln = aarch64_enc_cbz_line e ln 1"
| "encode_mnemonic linux A64MN_FABS e ln = Inr (aarch64_enc_fp1src e ln 1)"
| "encode_mnemonic linux A64MN_FNEG e ln = Inr (aarch64_enc_fp1src e ln 2)"
| "encode_mnemonic linux A64MN_FSQRT e ln = Inr (aarch64_enc_fp1src e ln 3)"
| "encode_mnemonic linux A64MN_FCMP e ln = Inr (aarch64_enc_fcmp_line e ln 0)"
| "encode_mnemonic linux A64MN_FCMPE e ln = Inr (aarch64_enc_fcmp_line e ln 1)"
| "encode_mnemonic linux A64MN_FCVTZS e ln = Inr (aarch64_enc_fp_int_cvt_line e ln 24 True)"
| "encode_mnemonic linux A64MN_FCVTZU e ln = Inr (aarch64_enc_fp_int_cvt_line e ln 25 True)"
| "encode_mnemonic linux A64MN_SCVTF e ln = Inr (aarch64_enc_fp_int_cvt_line e ln 2 False)"
| "encode_mnemonic linux A64MN_UCVTF e ln = Inr (aarch64_enc_fp_int_cvt_line e ln 3 False)"
| "encode_mnemonic linux A64MN_PRINTREG e ln = Inr (aarch64_enc_printreg linux e ln)"
| "encode_mnemonic linux A64MN_B e ln = aarch64_enc_branch e ln False False 14"
| "encode_mnemonic linux A64MN_BL e ln = aarch64_enc_branch e ln True False 14"
| "encode_mnemonic linux A64MN_BR e ln = Inr (aarch64_enc_br_blr e ln False)"
| "encode_mnemonic linux A64MN_BLR e ln = Inr (aarch64_enc_br_blr e ln True)"
| "encode_mnemonic linux A64MN_RET e ln = Inr (aarch64_enc_ret_line e ln)"
| "encode_mnemonic linux A64MN_FMOV e ln = Inr (aarch64_enc_fmov e ln)"
| "encode_mnemonic linux A64MN_FADD e ln = Inr (aarch64_enc_fp_arith e ln TASM_FOP_FADD)"
| "encode_mnemonic linux A64MN_FSUB e ln = Inr (aarch64_enc_fp_arith e ln TASM_FOP_FSUB)"
| "encode_mnemonic linux A64MN_FMUL e ln = Inr (aarch64_enc_fp_arith e ln TASM_FOP_FMUL)"
| "encode_mnemonic linux A64MN_FDIV e ln = Inr (aarch64_enc_fp_arith e ln TASM_FOP_FDIV)"
| "encode_mnemonic linux A64MN_BFDOT e ln = Inr (aarch64_enc_bfdot e ln)"
| "encode_mnemonic linux A64MN_BFMLALB e ln = Inr (aarch64_enc_bfmlal e ln False)"
| "encode_mnemonic linux A64MN_BFMLALT e ln = Inr (aarch64_enc_bfmlal e ln True)"
| "encode_mnemonic linux A64MN_BFMMLA e ln = Inr (aarch64_enc_bfmmla e ln)"
| "encode_mnemonic linux A64MN_BFCVT e ln = Inr (aarch64_enc_bfcvt_scalar e ln)"
| "encode_mnemonic linux A64MN_BFCVTN e ln = Inr (aarch64_enc_bfcvtn_line e ln False)"
| "encode_mnemonic linux A64MN_BFCVTN2 e ln = Inr (aarch64_enc_bfcvtn_line e ln True)"
| "encode_mnemonic linux A64MN_NOP e ln = Inr (aarch64_enc_nop_line e)"
| "encode_mnemonic linux A64MN_DSB e ln = aarch64_enc_barrier_line e ln 4"
| "encode_mnemonic linux A64MN_DMB e ln = aarch64_enc_barrier_line e ln 5"
| "encode_mnemonic linux A64MN_ISB e ln = aarch64_enc_barrier_line e ln 6"
| "encode_mnemonic linux A64MN_MRS e ln = aarch64_enc_mrs_line e ln"
| "encode_mnemonic linux A64MN_MSR e ln = aarch64_enc_msr e ln"
| "encode_mnemonic linux A64MN_MOVN e ln = Inr (aarch64_enc_mov_wide_mn e ln 0)"
| "encode_mnemonic linux A64MN_MOVZ e ln = Inr (aarch64_enc_mov_wide_mn e ln 2)"
| "encode_mnemonic linux A64MN_MOVK e ln = Inr (aarch64_enc_mov_wide_mn e ln 3)"
| "encode_mnemonic linux A64MN_LDUR e ln = Inr (aarch64_enc_ldst_unscaled_mn e ln True)"
| "encode_mnemonic linux A64MN_STUR e ln = Inr (aarch64_enc_ldst_unscaled_mn e ln False)"
| "encode_mnemonic linux A64MN_BNE e ln = aarch64_enc_branch e ln False True 1"
| "encode_mnemonic linux A64MN_SXTB e ln = Inr (aarch64_validate_and_enc_stx e ln)"
| "encode_mnemonic linux A64MN_SXTH e ln = Inr (aarch64_validate_and_enc_stx e ln)"
| "encode_mnemonic linux A64MN_SXTW e ln = Inr (aarch64_validate_and_enc_stx e ln)"
| "encode_mnemonic linux A64MN_UNKNOWN e ln = aarch64_enc_unknown_line e ln"

definition aarch64_encode_instr :: "bool \<Rightarrow> asm_state \<Rightarrow> asm_line \<Rightarrow> asm_state result" where
  "aarch64_encode_instr linux e ln = encode_mnemonic linux (ln_mnemonic_id ln) e ln"

section \<open>Blocks and local labels\<close>

fun find_label :: "int \<Rightarrow> asm_label_def list \<Rightarrow> nat option" where
  "find_label n [] = None"
| "find_label n (l # ls) = (if lb_local_num l = n then Some (lb_byte_offset l) else find_label n ls)"

text \<open>The distance a local fixup is patched with, computed at 32 bits.\<close>

definition fixup_rel_words :: "nat \<Rightarrow> nat \<Rightarrow> int" where
  "fixup_rel_words target_off patch_offset = s32 (int target_off - int patch_offset) sdiv 4"

text \<open>The message of an unresolved label, for a buffer with no source file name.\<close>

definition unresolved_msg :: "int \<Rightarrow> string" where
  "unresolved_msg n = ''?: arm64 asm: unresolved local label @@'' @ fmt_d n @ [CHR 0x0A]"

fun resolve_fixups :: "asm_state \<Rightarrow> asm_fixup list \<Rightarrow> asm_fixup list \<Rightarrow> asm_state \<times> asm_fixup list" where
  "resolve_fixups out kept [] = (out, kept)"
| "resolve_fixups out kept (f # fs) =
     (if fx_kind f \<noteq> AF_LOCAL then resolve_fixups out (kept @ [f]) fs
      else if fx_reloc f = AFR_AARCH64_PAGE21 \<or> fx_reloc f = AFR_AARCH64_PAGEOFF12 then resolve_fixups out (kept @ [f]) fs
      else case find_label (fx_local_num f) (as_labels out) of
        None \<Rightarrow> resolve_fixups (asm_err_at out (unresolved_msg (fx_local_num f))) kept fs
      | Some target_off \<Rightarrow>
          (let rel_words = fixup_rel_words target_off (fx_patch_offset f);
               out = (if fx_width f = 19
                      then emit_seq out (\<lambda>b. aarch64_enc_patch_imm19 b (fx_patch_offset f) rel_words)
                      else emit_seq out (\<lambda>b. aarch64_enc_patch_branch26 b (fx_patch_offset f) rel_words))
           in resolve_fixups out kept fs))"

definition aarch64_resolve_local_fixups :: "asm_state \<Rightarrow> asm_state" where
  "aarch64_resolve_local_fixups out =
     (if as_fixups out = [] then out
      else (case resolve_fixups out [] (as_fixups out) of (out, kept) \<Rightarrow> out\<lparr>as_fixups := kept\<rparr>))"

definition encode_line :: "bool \<Rightarrow> asm_state \<Rightarrow> asm_line \<Rightarrow> asm_state result" where
  "encode_line linux out ln =
     (let out = out\<lparr>as_line_offsets := as_line_offsets out @ [as_len out]\<rparr> in
      case ln_kind ln of
        AINS_LABEL_LOCAL \<Rightarrow>
          (case ln_label_name ln of
             Some name \<Rightarrow> Inr (asm_define_label out (- 1) (Some name))
           | None \<Rightarrow> Inr (asm_define_label out (ln_local_num ln) None))
      | AINS_LABEL_PUBLIC \<Rightarrow> Inr (asm_define_label out (- 1) (ln_label_name ln))
      | AINS_INSTR \<Rightarrow> aarch64_encode_instr linux out ln
      | AINS_DIRECTIVE \<Rightarrow> asm_enc_directive out ln
      | AINS_NONE \<Rightarrow> Inr out)"

fun encode_lines :: "bool \<Rightarrow> asm_state \<Rightarrow> asm_line list \<Rightarrow> asm_state result" where
  "encode_lines linux out [] = Inr (out\<lparr>as_line_offsets := as_line_offsets out @ [as_len out]\<rparr>)"
| "encode_lines linux out (ln # lns) = rbind (encode_line linux out ln) (\<lambda>out. encode_lines linux out lns)"

text \<open>The state after the block and the number of errors, which the function returns.\<close>

definition asm_encode_arm64 :: "bool \<Rightarrow> asm_line list \<Rightarrow> asm_state \<Rightarrow> (asm_state \<times> nat) result" where
  "asm_encode_arm64 linux blk out =
     rbind (encode_lines linux (out\<lparr>as_line_offsets := []\<rparr>) blk) (\<lambda>out.
       let out = aarch64_resolve_local_fixups out in Inr (out, as_errors out))"

end
