(* ===== verification/A64LineStep.thy ===== *)
theory A64LineStep
  imports A64Encode A64MovImm
begin

text \<open>
  What one assembler line does to the state: it is either encoded, adding whole instruction words and
  no error, or rejected, with an error and the code untouched. The lemmas go handler by handler;
  \<open>one_word\<close> collects the encoders that append exactly one word.
\<close>

section \<open>Encoded or rejected\<close>

definition adds_words :: "asm_enc \<Rightarrow> asm_enc \<Rightarrow> bool" where
  "adds_words b b' \<longleftrightarrow> (\<exists>bs. ae_bytes b' = ae_bytes b @ bs \<and> bs \<noteq> [] \<and> 4 dvd length bs)"

text \<open>Fixups of separate words between two offsets of the buffer, in order.\<close>

definition fixups_within :: "nat \<Rightarrow> nat \<Rightarrow> asm_fixup list \<Rightarrow> bool" where
  "fixups_within lo hi fs \<longleftrightarrow> sorted_wrt (\<lambda>f g. fx_patch_offset f + 4 \<le> fx_patch_offset g) fs \<and>
     (\<forall>f \<in> set fs. lo \<le> fx_patch_offset f \<and> fx_patch_offset f + 4 \<le> hi)"

lemma fixups_within_append:
  "fixups_within a b fs \<Longrightarrow> fixups_within b c gs \<Longrightarrow> a \<le> b \<Longrightarrow> b \<le> c \<Longrightarrow> fixups_within a c (fs @ gs)"
  by (fastforce simp: fixups_within_def sorted_wrt_append)

definition encoded :: "asm_state \<Rightarrow> asm_state \<Rightarrow> bool" where
  "encoded e e' \<longleftrightarrow> as_errors e' = as_errors e \<and> as_log e' = as_log e \<and> adds_words (as_enc e) (as_enc e') \<and>
     (\<exists>fs. as_fixups e' = as_fixups e @ fs \<and> fixups_within (as_len e) (as_len e') fs)"

definition rejected :: "asm_state \<Rightarrow> asm_state \<Rightarrow> bool" where
  "rejected e e' \<longleftrightarrow> as_errors e < as_errors e' \<and> as_enc e' = as_enc e \<and> as_fixups e' = as_fixups e"

definition line_step :: "asm_state \<Rightarrow> asm_state \<Rightarrow> bool" where
  "line_step e e' \<longleftrightarrow> as_labels e' = as_labels e \<and> as_line_offsets e' = as_line_offsets e \<and>
     (encoded e e' \<or> rejected e e')"

definition good_step :: "asm_state \<Rightarrow> asm_state \<Rightarrow> bool" where
  "good_step e e' \<longleftrightarrow> as_labels e' = as_labels e \<and> as_line_offsets e' = as_line_offsets e \<and> encoded e e'"

lemma good_step_line_step: "good_step e e' \<Longrightarrow> line_step e e'"
  by (simp add: good_step_def line_step_def)

lemma adds_words_trans: "adds_words a b \<Longrightarrow> adds_words b c \<Longrightarrow> adds_words a c"
  by (auto simp: adds_words_def)

lemma adds_words_len: "adds_words (as_enc e) (as_enc e') \<Longrightarrow> as_len e \<le> as_len e'"
  by (auto simp: adds_words_def as_len_def)

lemma good_step_trans: "good_step a b \<Longrightarrow> good_step b c \<Longrightarrow> good_step a c"
  unfolding good_step_def encoded_def
  by (metis adds_words_trans adds_words_len append.assoc fixups_within_append)

lemma step_err [intro!]: "line_step e (asm_err_at e msg)"
  by (simp add: line_step_def rejected_def asm_err_at_def)

named_theorems one_words "encoders that append one word"

definition one_word :: "(asm_enc \<Rightarrow> asm_enc \<times> nat) \<Rightarrow> bool" where
  "one_word f \<longleftrightarrow> (\<forall>b. \<exists>w. f b = put_word b w)"

definition some_words :: "(asm_enc \<Rightarrow> asm_enc) \<Rightarrow> bool" where
  "some_words f \<longleftrightarrow> (\<forall>b. adds_words b (f b))"

lemma one_wordI: "(\<And>b. f b = put_word b (g b)) \<Longrightarrow> one_word f"
  by (auto simp: one_word_def)

lemma adds_word: "adds_words b (fst (put_word b w))"
  unfolding adds_words_def put_word_bytes
  by (rule exI [of _ "[ucast w, ucast (drop_bit 8 w), ucast (drop_bit 16 w), ucast (drop_bit 24 w)]"])
    (simp add: numeral_eq_Suc)

lemma one_word_some: "one_word f \<Longrightarrow> some_words (\<lambda>b. fst (f b))"
  unfolding one_word_def some_words_def using adds_word by metis

lemma emit_seq_step: "some_words f \<Longrightarrow> good_step e (emit_seq e f)"
  by (simp add: good_step_def encoded_def emit_seq_def some_words_def fixups_within_def)

lemma emit_good: "one_word f \<Longrightarrow> good_step e (emit e f)"
  using emit_seq_step [OF one_word_some, of f e] by (simp add: emit_def emit_seq_def)

lemma emit_step [intro!]: "one_word f \<Longrightarrow> line_step e (emit e f)"
  by (rule good_step_line_step [OF emit_good])

lemma emit_seq_line [intro!]: "some_words f \<Longrightarrow> line_step e (emit_seq e f)"
  by (rule good_step_line_step [OF emit_seq_step])

lemma as_len_emit: "one_word f \<Longrightarrow> as_len (emit e f) = as_len e + 4"
proof -
  assume "one_word f"
  then obtain w where "f (as_enc e) = put_word (as_enc e) w" by (auto simp: one_word_def)
  then show "as_len (emit e f) = as_len e + 4" by (simp add: emit_def as_len_def put_word_bytes)
qed

lemma fixup_good: "one_word f \<Longrightarrow> fx_patch_offset fx = as_len e \<Longrightarrow> good_step e (asm_add_fixup (emit e f) fx)"
  using emit_good [of f e] as_len_emit [of f e]
  by (auto simp: good_step_def encoded_def asm_add_fixup_def fixups_within_def as_len_def emit_def)

lemma one_word_if [one_words]: "(c \<Longrightarrow> one_word f) \<Longrightarrow> (\<not> c \<Longrightarrow> one_word g) \<Longrightarrow> one_word (\<lambda>b. if c then f b else g b)"
  by (cases c) simp_all

section \<open>Encoders of one word\<close>

lemma one_word_moves [one_words]:
  "one_word (\<lambda>b. aarch64_enc_mov_reg b rd rm)" "one_word (\<lambda>b. aarch64_enc_mov_reg_w b rd rm)"
  "one_word (\<lambda>b. aarch64_enc_add_imm b sf rd rn i)" "one_word (\<lambda>b. aarch64_enc_sub_imm b sf rd rn i)"
  "one_word (\<lambda>b. aarch64_enc_add_reg_shifted b sf rd rn rm st sa)"
  "one_word (\<lambda>b. aarch64_enc_sub_reg_shifted b sf rd rn rm st sa)"
  "one_word (\<lambda>b. aarch64_enc_sxtb b rd rn)" "one_word (\<lambda>b. aarch64_enc_sxth b rd rn)"
  "one_word (\<lambda>b. aarch64_enc_sxtw b rd rn)" "one_word (\<lambda>b. aarch64_enc_uxtb b sf rd rn)"
  "one_word (\<lambda>b. aarch64_enc_csel b s rd rn rm cc)" "one_word (\<lambda>b. aarch64_enc_and_reg b sf rd rn rm)"
  "one_word (\<lambda>b. aarch64_enc_orr_reg b sf rd rn rm)" "one_word (\<lambda>b. aarch64_enc_eor_reg b sf rd rn rm)"
  "one_word (\<lambda>b. aarch64_enc_mul b sf rd rn rm)" "one_word (\<lambda>b. aarch64_enc_sdiv b sf rd rn rm)"
  "one_word (\<lambda>b. aarch64_enc_lslv b sf rd rn rm)" "one_word (\<lambda>b. aarch64_enc_neg_reg b sf rd rm)"
  "one_word (\<lambda>b. aarch64_enc_cmp_reg b sf rn rm)"
  "one_word (\<lambda>b. aarch64_enc_subs_imm b sf rd rn i)" "one_word (\<lambda>b. aarch64_enc_subs_reg b sf rd rn rm st sa)"
  "one_word (\<lambda>b. put_word b w)"
  by (rule one_wordI; simp only: aarch64_enc_mov_reg_def aarch64_enc_mov_reg_w_def aarch64_enc_mov_reg_base_def
      aarch64_enc_add_imm_def aarch64_enc_sub_imm_def aarch64_enc_add_reg_shifted_def aarch64_enc_sub_reg_shifted_def
      aarch64_enc_sxtb_def aarch64_enc_sxth_def aarch64_enc_sxtw_def aarch64_enc_uxtb_def aarch64_enc_csel_def
      aarch64_enc_and_reg_def aarch64_enc_orr_reg_def aarch64_enc_eor_reg_def aarch64_enc_mul_def aarch64_enc_sdiv_def
      aarch64_enc_lslv_def aarch64_enc_neg_reg_def aarch64_enc_sub_reg_def aarch64_enc_cmp_reg_def
      aarch64_enc_subs_imm_def aarch64_enc_subs_reg_def Let_def)+

lemma one_word_cmp_imm [one_words]: "one_word (\<lambda>b. aarch64_enc_cmp_imm b sf rn i)"
  unfolding one_word_def aarch64_enc_cmp_imm_def Let_def by (auto split: prod.split)

lemma one_word_fp [one_words]:
  "one_word (\<lambda>b. aarch64_enc_fp_2src_scalar b dbl op4 rd rn rm)"
  "one_word (\<lambda>b. aarch64_enc_fp_3same_vec b Q U b23 sz op5 rd rn rm)"
  "one_word (\<lambda>b. aarch64_enc_fmov_imm b dbl rd imm8)" "one_word (\<lambda>b. aarch64_enc_fmov_reg b dbl rd rn)"
  "one_word (\<lambda>b. aarch64_enc_fmov_reg_h b rd rn)" "one_word (\<lambda>b. aarch64_enc_fmov_gpr b dbl to_gpr rd rn)"
  "one_word (\<lambda>b. aarch64_enc_fmov_h_gpr b to_gpr rd rn)" "one_word (\<lambda>b. aarch64_enc_fp_1src b dbl op6 rd rn)"
  "one_word (\<lambda>b. aarch64_enc_fcmp b dbl ex zero rn rm)" "one_word (\<lambda>b. aarch64_enc_fp_int_cvt b sf ft op rd rn)"
  "one_word (\<lambda>b. aarch64_enc_bfdot_vec b Q rd rn rm)" "one_word (\<lambda>b. aarch64_enc_bfdot_idx b Q rd rn rm idx)"
  "one_word (\<lambda>b. aarch64_enc_bfmlalb b rd rn rm)" "one_word (\<lambda>b. aarch64_enc_bfmlalt b rd rn rm)"
  "one_word (\<lambda>b. aarch64_enc_bfcvt b rd rn)" "one_word (\<lambda>b. aarch64_enc_bfcvtn b Q rd rn)"
  by (rule one_wordI; simp only: aarch64_enc_fp_2src_scalar_def aarch64_enc_fp_3same_vec_def aarch64_enc_fmov_imm_def
      aarch64_enc_fmov_reg_def aarch64_enc_fmov_reg_h_def aarch64_enc_fmov_gpr_def aarch64_enc_fmov_h_gpr_def
      aarch64_enc_fp_1src_def aarch64_enc_fcmp_def aarch64_enc_fp_int_cvt_def aarch64_enc_bfdot_vec_def
      aarch64_enc_bfdot_idx_def aarch64_enc_bfmlalb_def aarch64_enc_bfmlalt_def aarch64_enc_bfcvt_def
      aarch64_enc_bfcvtn_def Let_def)+

lemma one_word_control [one_words]:
  "one_word (\<lambda>b. aarch64_enc_b b rel)" "one_word (\<lambda>b. aarch64_enc_bl b rel)" "one_word (\<lambda>b. aarch64_enc_b_cond b cc rel)"
  "one_word (\<lambda>b. aarch64_enc_cbz b sf nz rt rel)" "one_word (\<lambda>b. aarch64_enc_br b rn)" "one_word (\<lambda>b. aarch64_enc_blr b rn)"
  "one_word (\<lambda>b. aarch64_enc_ret_reg b rn)" "one_word aarch64_enc_ret" "one_word (\<lambda>b. aarch64_enc_adrp b rd pages)"
  "one_word (\<lambda>b. aarch64_enc_barrier b opc crm)" "one_word (\<lambda>b. aarch64_enc_mrs b rt sr)"
  "one_word (\<lambda>b. aarch64_enc_msr_reg b sr rt)" "one_word (\<lambda>b. aarch64_enc_msr_imm b op1 op2 imm4)"
  by (rule one_wordI; simp only: aarch64_enc_b_def aarch64_enc_bl_def aarch64_enc_b_cond_def aarch64_enc_cbz_def
      aarch64_enc_br_def aarch64_enc_blr_def aarch64_enc_ret_reg_def aarch64_enc_ret_def aarch64_enc_adrp_def
      aarch64_enc_barrier_def aarch64_enc_mrs_def aarch64_enc_msr_reg_def aarch64_enc_msr_imm_def Let_def)+

lemma one_word_ldst [one_words]:
  "one_word (\<lambda>b. aarch64_enc_ldr_imm b rt rn off)" "one_word (\<lambda>b. aarch64_enc_str_imm b rt rn off)"
  "one_word (\<lambda>b. aarch64_enc_ldr32_imm_gpr b rt rn off)" "one_word (\<lambda>b. aarch64_enc_str32_imm_gpr b rt rn off)"
  "one_word (\<lambda>b. aarch64_enc_ldrb_imm b rt rn off)" "one_word (\<lambda>b. aarch64_enc_strb_imm b rt rn off)"
  "one_word (\<lambda>b. aarch64_enc_ldrh_imm b rt rn off)" "one_word (\<lambda>b. aarch64_enc_strh_imm b rt rn off)"
  "one_word (\<lambda>b. aarch64_enc_ldrsb_imm b d rt rn off)" "one_word (\<lambda>b. aarch64_enc_ldrsh_imm b d rt rn off)"
  "one_word (\<lambda>b. aarch64_enc_ldrsw_imm b rt rn off)" "one_word (\<lambda>b. aarch64_ldrs_imm9_emit b width d op2 rt rn simm)"
  "one_word (\<lambda>b. aarch64_ldrs_regoff_emit b width d scaled rt rn rm)"
  "one_word (\<lambda>b. aarch64_enc_ldur b width rt rn simm)" "one_word (\<lambda>b. aarch64_enc_stur b width rt rn simm)"
  by (rule one_wordI; simp only: aarch64_enc_ldr_imm_def aarch64_enc_str_imm_def aarch64_enc_ldr32_imm_gpr_def
      aarch64_enc_str32_imm_gpr_def aarch64_enc_ldrb_imm_def aarch64_enc_strb_imm_def aarch64_enc_ldrh_imm_def
      aarch64_enc_strh_imm_def aarch64_enc_ldrsb_imm_def aarch64_enc_ldrsh_imm_def aarch64_enc_ldrsw_imm_def
      aarch64_ldrs_imm9_emit_def aarch64_ldrs_regoff_emit_def aarch64_enc_ldur_def aarch64_enc_stur_def Let_def)+

text \<open>The encoders that can refuse do not, for the widths and operands the handlers call them with.\<close>

lemma ldst_size_some: "width \<in> {1, 2, 4, 8} \<or> simd \<and> width = 16 \<Longrightarrow> \<exists>sz opc. ldst_size_opc simd load width = Some (sz, opc)"
  by (auto simp: ldst_size_opc_def)

lemma one_word_sized:
  assumes "width \<in> {1, 2, 4, 8} \<or> simd \<noteq> 0 \<and> width = 16"
  shows "one_word (\<lambda>b. aarch64_enc_ldst_regoff b simd load width scaled rt rn rm)"
    "one_word (\<lambda>b. aarch64_enc_ldst_pre b simd load width rt rn simm)"
    "one_word (\<lambda>b. aarch64_enc_ldst_post b simd load width rt rn simm)"
    "one_word (\<lambda>b. aarch64_enc_ldst_unscaled b simd load width rt rn simm)"
proof -
  obtain sz opc where so: "ldst_size_opc (simd \<noteq> 0) load width = Some (sz, opc)" using ldst_size_some [OF assms] by blast
  show "one_word (\<lambda>b. aarch64_enc_ldst_regoff b simd load width scaled rt rn rm)"
    "one_word (\<lambda>b. aarch64_enc_ldst_pre b simd load width rt rn simm)"
    "one_word (\<lambda>b. aarch64_enc_ldst_post b simd load width rt rn simm)"
    "one_word (\<lambda>b. aarch64_enc_ldst_unscaled b simd load width rt rn simm)"
    unfolding one_word_def aarch64_enc_ldst_regoff_def aarch64_enc_ldst_pre_def aarch64_enc_ldst_post_def
      aarch64_enc_ldst_unscaled_def aarch64_fp_or_gpr_ldst_idx_def so
    by (auto simp: Let_def)
qed

lemma one_word_fp_ldst:
  assumes "width \<in> {1, 2, 4, 8, 16}" "off mod word_of_int width = 0"
  shows "one_word (\<lambda>b. aarch64_enc_fp_ldst_imm b load width rt rn off)"
proof -
  have "\<exists>sz opc. fp_ldst_size load width = Some (sz, opc, word_of_int width)"
    using assms(1) by (auto simp: fp_ldst_size_def)
  then obtain sz opc where fs: "fp_ldst_size load width = Some (sz, opc, word_of_int width)" by blast
  show ?thesis
    by (rule one_wordI)
      (simp only: aarch64_enc_fp_ldst_imm_def fs option.case prod.case assms(2) simp_thms if_False Let_def)
qed

lemma one_word_lsl_imm:
  "shift < (if is_64 \<noteq> 0 then 64 else 32) \<Longrightarrow> one_word (\<lambda>b. aarch64_enc_lsl_imm b is_64 rd rn shift)"
  by (auto simp: one_word_def aarch64_enc_lsl_imm_def Let_def not_le split: if_splits)

lemma length_word_bytes4: "length (concat (map word_bytes4 ws)) = 4 * length ws"
  by (induction ws) (simp_all add: word_bytes4_def)

lemma adds_word_list: "ae_bytes b' = ae_bytes b @ concat (map word_bytes4 ws) \<Longrightarrow> ws \<noteq> [] \<Longrightarrow> adds_words b b'"
  unfolding adds_words_def
  by (rule exI [of _ "concat (map word_bytes4 ws)"]) (auto simp: length_word_bytes4 word_bytes4_def)

lemma some_words_mov_imm: "some_words (\<lambda>b. aarch64_enc_mov_imm b rd sf imm)"
  unfolding some_words_def
proof
  fix b
  show "adds_words b (aarch64_enc_mov_imm b rd sf imm)"
  proof (cases "imm = 0")
    case True
    show ?thesis
      by (rule adds_word_list [of _ _ "[aarch64_mov_wide sf 2 rd 0 0]"])
        (simp_all add: True aarch64_enc_mov_imm_def aarch64_enc_movz_def put_word_bytes word_bytes4_def)
  next
    case False
    show ?thesis
    proof (rule adds_word_list [of _ _ "mov_words rd sf imm False [0, 1, 2, 3]"])
      show "ae_bytes (aarch64_enc_mov_imm b rd sf imm) =
          ae_bytes b @ concat (map word_bytes4 (mov_words rd sf imm False [0, 1, 2, 3]))"
        using False by (simp only: aarch64_enc_mov_imm_def mov_imm_loop_bytes if_False)
    qed simp
  qed
qed

lemma some_words_mov [one_words]:
  "some_words (\<lambda>b. aarch64_enc_mov_imm64 b rd imm)"
  "some_words (\<lambda>b. aarch64_enc_mov_imm32 b rd imm)"
  using some_words_mov_imm by (simp_all add: aarch64_enc_mov_imm64_def aarch64_enc_mov_imm32_def)

section \<open>Handlers\<close>

text \<open>The steps go through the control structure of a handler; \<open>result_step\<close> is for those that may fault.\<close>

definition result_step :: "asm_state \<Rightarrow> asm_state result \<Rightarrow> bool" where
  "result_step e r \<longleftrightarrow> (\<forall>e'. r = Inr e' \<longrightarrow> line_step e e')"

lemma step_control:
  "line_step e a \<Longrightarrow> line_step e b \<Longrightarrow> line_step e (if c then a else b)"
  "line_step e a \<Longrightarrow> (\<And>x. line_step e (f x)) \<Longrightarrow> line_step e (case_option a f opt)"
  "line_step e a \<Longrightarrow> (\<And>x xs. line_step e (g x xs)) \<Longrightarrow> line_step e (case_list a g l)"
  "(\<And>x y. line_step e (h x y)) \<Longrightarrow> line_step e (case_prod h p)"
  by (cases c; cases opt; cases l; cases p; simp)+

lemma step_cond: "(c \<Longrightarrow> line_step e a) \<Longrightarrow> (\<not> c \<Longrightarrow> line_step e b) \<Longrightarrow> line_step e (if c then a else b)"
  by simp

lemma result_control:
  "result_step e r \<Longrightarrow> result_step e r' \<Longrightarrow> result_step e (if c then r else r')"
  "result_step e r \<Longrightarrow> (\<And>x. result_step e (f x)) \<Longrightarrow> result_step e (case_option r f opt)"
  "result_step e r \<Longrightarrow> (\<And>x xs. result_step e (g x xs)) \<Longrightarrow> result_step e (case_list r g l)"
  "(\<And>x y. result_step e (h x y)) \<Longrightarrow> result_step e (case_prod h p)"
  "result_step e r \<Longrightarrow> result_step e r' \<Longrightarrow> result_step e (case_bool r r' c)"
  "line_step e e' \<Longrightarrow> result_step e (Inr e')" "result_step e (Inl ft)"
  "(\<And>x. result_step e (k x)) \<Longrightarrow> result_step e (rbind rx k)"
  by (cases c; cases opt; cases l; cases p; cases rx; simp add: result_step_def)+

lemma fixup_line: "one_word f \<Longrightarrow> fx_patch_offset fx = as_len e \<Longrightarrow> line_step e (asm_add_fixup (emit e f) fx)"
  by (rule good_step_line_step [OF fixup_good])

lemmas handler_intros = step_control step_err emit_step emit_seq_line fixup_line one_words one_word_sized

lemmas result_intros = result_control handler_intros

lemma stx_step: "ln_mnemonic_id ln \<in> {A64MN_SXTB, A64MN_SXTH, A64MN_SXTW} \<Longrightarrow> line_step e (aarch64_validate_and_enc_stx e ln)"
  unfolding aarch64_validate_and_enc_stx_def by (auto intro!: step_err emit_step one_words split: list.split)

lemma csel_step: "result_step e (aarch64_validate_and_enc_csel e ln)"
  unfolding aarch64_validate_and_enc_csel_def by (intro result_intros)

lemma mov_step: "line_step e (aarch64_enc_mov e ln)"
  unfolding aarch64_enc_mov_def Let_def by (intro handler_intros)

lemma shift_suffix:
  "line_step e (case aarch64_extract_shift_suffix e ln of (e, rc, st, sa) \<Rightarrow>
     if rc < 0 then e else if st = ASHIFT_ROR then asm_err_at e msg else emit e (f st sa))"
  if "\<And>st sa. one_word (f st sa)"
  using that by (auto simp: aarch64_extract_shift_suffix_def Let_def intro!: step_err emit_step)

lemma case_prod_Inr: "(case p of (e, rc, st, sa) \<Rightarrow> if rc < 0 then Inr e else if st = ASHIFT_ROR then Inr (a e) else Inr (b e st sa)) =
    Inr (case p of (e, rc, st, sa) \<Rightarrow> if rc < 0 then e else if st = ASHIFT_ROR then a e else b e st sa)"
  for rc :: int
  by (simp split: prod.split)

lemma add_sub_step: "result_step e (aarch64_enc_add_sub e ln is_sub)"
  unfolding aarch64_enc_add_sub_def Let_def case_prod_Inr
  by (cases is_sub; simp only: simp_thms if_True if_False) (intro result_control(1-3,5-) shift_suffix handler_intros; simp add: as_len_emit one_words)+

lemma logical_step: "(\<And>sf rd rn rm. one_word (\<lambda>b. f b sf rd rn rm)) \<Longrightarrow> line_step e (aarch64_enc_logical_reg e ln f msg)"
  unfolding aarch64_enc_logical_reg_def by (intro handler_intros)

lemma word_less_of_int: "0 \<le> i \<Longrightarrow> i < uint n \<Longrightarrow> word_of_int i < (n :: u32)"
  using uint_lt2p [of n] by (simp add: word_less_def uint_word_of_int_eq take_bit_int_eq_self)

lemma lsl_step: "line_step e (aarch64_enc_lsl e ln)"
  unfolding aarch64_enc_lsl_def Let_def
  by (auto intro!: step_err emit_step one_words one_word_lsl_imm word_less_of_int split: list.split)

lemma neg_cmp_step: "line_step e (aarch64_enc_neg e ln)" "line_step e (aarch64_enc_cmp e ln)"
  unfolding aarch64_enc_neg_def aarch64_enc_cmp_def Let_def by (intro handler_intros)+

lemma subs_step: "line_step e (aarch64_enc_subs e ln)"
  unfolding aarch64_enc_subs_def Let_def by (intro shift_suffix step_control(1-3) handler_intros)

lemma mov_wide_step: "line_step e (aarch64_enc_mov_wide_mn e ln opc)"
  unfolding aarch64_enc_mov_wide_mn_def Let_def by (intro handler_intros)

text \<open>Loads and stores: the address forms, given that each encoder they call appends a word.\<close>

lemma address_step:
  assumes "\<And>scaled. one_word (regoff scaled)" "one_word pre" "one_word post" "one_word unscaled"
    and "\<not> misfit \<Longrightarrow> line_step e (scaled e)"
  shows "line_step e (ldst_address e m natural misfit msgs regoff pre post unscaled scaled)"
  using assms(1-4) assms(5) unfolding ldst_address_def
  by (cases misfit; simp only: if_True if_False simp_thms) (intro step_control step_err emit_step; assumption)+

lemma ldst64_step: "line_step e (aarch64_enc_ldst64 e ln is_load)"
  unfolding aarch64_enc_ldst64_def Let_def
  by (cases is_load; simp only: if_True if_False) (intro step_control address_step step_err emit_step one_words; rule one_word_sized; simp)+

lemma ldst_sub_step: "width \<in> {1, 2} \<Longrightarrow> line_step e (aarch64_enc_ldst_sub e ln is_load width)"
  unfolding aarch64_enc_ldst_sub_def Let_def
  by (cases is_load; simp only: if_True if_False) (intro step_control address_step step_err emit_step one_words; rule one_word_sized; auto)+

lemma ldrs_step: "line_step e (aarch64_enc_ldrs e ln width)"
  unfolding aarch64_enc_ldrs_def Let_def by (intro address_step handler_intros)

lemma simd_width: "aarch64_simd_scalar_width r \<noteq> 0 \<Longrightarrow> aarch64_simd_scalar_width r \<in> {1, 2, 4, 8, 16}"
  by (auto simp: aarch64_simd_scalar_width_def split: if_splits)

lemma simd_ldst_step: "line_step e (aarch64_enc_simd_ldst e ln is_load)"
proof -
  have addr: "line_step e (ldst_address e m natural
     (op_disp m < 0 \<or> (word_of_int (op_disp m) :: u32) mod word_of_int width \<noteq> 0) msgs
     (\<lambda>scaled b. aarch64_enc_ldst_regoff b 1 is_load width scaled rt rn rm)
     (\<lambda>b. aarch64_enc_ldst_pre b 1 is_load width rt rn d) (\<lambda>b. aarch64_enc_ldst_post b 1 is_load width rt rn d)
     (\<lambda>b. aarch64_enc_ldst_unscaled b 1 is_load width rt rn d)
     (\<lambda>e. if (word_of_int (op_disp m) :: u32) div word_of_int width > 0xFFF then asm_err_at e msg
          else emit e (\<lambda>b. aarch64_enc_fp_ldst_imm b is_load width rt rn (word_of_int (op_disp m)))))"
    if w: "width \<in> {1, 2, 4, 8, 16}" for m natural msgs rt rn rm d msg width
  proof -
    have "width \<in> {1, 2, 4, 8} \<or> (1 :: u32) \<noteq> 0 \<and> width = 16" using w by auto
    then show ?thesis
      by (intro address_step one_word_sized step_control step_err emit_step one_word_fp_ldst w) blast+
  qed
  show ?thesis
    unfolding aarch64_enc_simd_ldst_def Let_def
    by (intro step_control(3) step_cond step_err addr simd_width; assumption)
qed

lemma ldst_unscaled_step: "line_step e (aarch64_enc_ldst_unscaled_mn e ln is_load)"
  unfolding aarch64_enc_ldst_unscaled_mn_def
  by (cases is_load; simp only: if_True if_False) (intro handler_intros)+

lemma pair_words:
  "aarch64_enc_ldst_pair b simd load width mode r1 r2 rn i = (b', ok) \<Longrightarrow>
   (if ok then adds_words b b' else b' = b)"
  unfolding aarch64_enc_ldst_pair_def aarch64_ldp_stp_imm_def
  using adds_word by (auto simp: Let_def split: option.splits if_splits)

lemma ldp_stp_step: "line_step e (aarch64_enc_ldp_stp e ln is_load nt)"
proof -
  have pair: "line_step e (case aarch64_enc_ldst_pair (as_enc e) simd load width mode r1 r2 rn i of (b, ok) \<Rightarrow>
      if ok then e\<lparr>as_enc := b\<rparr> else asm_err_at (e\<lparr>as_enc := b\<rparr>) msg)" for simd load width mode r1 r2 rn i msg
    using pair_words [of "as_enc e" simd load width mode r1 r2 rn i]
    by (auto simp: line_step_def encoded_def rejected_def asm_err_at_def fixups_within_def split: prod.split if_splits)
  show ?thesis
    unfolding aarch64_enc_ldp_stp_def Let_def by (intro pair step_control step_err)
qed

lemma ldr_str_step: "line_step e (aarch64_enc_ldr_str_line e ln is_load)"
  unfolding aarch64_enc_ldr_str_line_def by (intro step_control simd_ldst_step ldst64_step)

text \<open>Floating point.\<close>

lemma fp_steps:
  "line_step e (aarch64_enc_fp_arith e ln op)" "line_step e (aarch64_enc_fmov e ln)"
  "line_step e (aarch64_enc_fp1src e ln op6)" "line_step e (aarch64_enc_fcmp_line e ln ex)"
  "line_step e (aarch64_enc_fp_int_cvt_line e ln rm to_int)" "line_step e (aarch64_enc_bfdot e ln)"
  "line_step e (aarch64_enc_bfcvt_scalar e ln)"
  unfolding aarch64_enc_fp_arith_def aarch64_enc_fmov_def aarch64_enc_fp1src_def aarch64_enc_fcmp_line_def
    aarch64_enc_fp_int_cvt_line_def aarch64_enc_bfdot_def aarch64_enc_bfcvt_scalar_def Let_def
  by (intro handler_intros)+

text \<open>The operands of BF16 instructions are checked one after the other; each failure is one more error.\<close>

definition err_step :: "asm_state \<Rightarrow> asm_state \<Rightarrow> bool" where
  "err_step e e' \<longleftrightarrow> as_labels e' = as_labels e \<and> as_line_offsets e' = as_line_offsets e \<and> rejected e e'"

lemma chk_varr:
  "aarch64_chk_varr e o1 l w i = (e', r) \<Longrightarrow> (case r of Some _ \<Rightarrow> e' = e | None \<Rightarrow> err_step e e')"
  by (auto simp: aarch64_chk_varr_def err_step_def rejected_def asm_err_at_def split: if_splits)

lemma err_step_trans: "err_step a b \<Longrightarrow> err_step b c \<Longrightarrow> err_step a c"
  by (auto simp: err_step_def rejected_def)

lemma err_step_line: "err_step e e' \<Longrightarrow> line_step e e'"
  by (simp add: err_step_def line_step_def)

lemma bf16_operands_step:
  assumes "\<And>rd rn rm. one_word (f rd rn rm)"
  shows "line_step e (bf16_operands e d n m f)"
proof -
  obtain e1 rd where 1: "aarch64_chk_varr e d 4 32 True = (e1, rd)" by fastforce
  obtain e2 rn where 2: "aarch64_chk_varr e1 n 8 16 True = (e2, rn)" by fastforce
  obtain e3 rm where 3: "aarch64_chk_varr e2 m 8 16 True = (e3, rm)" by fastforce
  have "bf16_operands e d n m f = (case (rd, rn, rm) of (Some rd, Some rn, Some rm) \<Rightarrow> emit e3 (f rd rn rm) | _ \<Rightarrow> e3)"
    by (simp add: bf16_operands_def 1 2 3)
  then show ?thesis
    using chk_varr [OF 1] chk_varr [OF 2] chk_varr [OF 3] emit_step [OF assms]
    by (cases rd; cases rn; cases rm) (auto intro!: err_step_line elim: err_step_trans intro: err_step_trans
        err_step_trans [OF err_step_trans])
qed

lemma bfmlal_step: "line_step e (aarch64_enc_bfmlal e ln is_top)" "line_step e (aarch64_enc_bfmmla e ln)"
  unfolding aarch64_enc_bfmlal_def aarch64_enc_bfmmla_def
  by (cases is_top; simp only: if_True if_False) (intro step_control step_err bf16_operands_step one_words)+

lemma bfcvtn_step: "line_step e (aarch64_enc_bfcvtn_line e ln is_top)"
proof -
  have "line_step e (let (e, rd) = aarch64_chk_varr e d l 16 True; (e, rn) = aarch64_chk_varr e n 4 32 True
      in case (rd, rn) of (Some rd, Some rn) \<Rightarrow> emit e (\<lambda>b. aarch64_enc_bfcvtn b Q rd rn) | _ \<Rightarrow> e)" for d n l Q
  proof -
    obtain e1 rd where 1: "aarch64_chk_varr e d l 16 True = (e1, rd)" by fastforce
    obtain e2 rn where 2: "aarch64_chk_varr e1 n 4 32 True = (e2, rn)" by fastforce
    show ?thesis
      using chk_varr [OF 1] chk_varr [OF 2] unfolding 1 2 Let_def prod.case
      by (cases rd; cases rn) (auto intro: err_step_line err_step_trans emit_step one_words)
  qed
  then show ?thesis unfolding aarch64_enc_bfcvtn_line_def by (intro step_control step_err)
qed

text \<open>Branches and system instructions.\<close>

lemma branch_fixups:
  "line_step e (aarch64_emit_branch_local e n is_bl)" "line_step e (aarch64_emit_b_cond_local e cc n)"
  "good_step e (aarch64_emit_branch_sym e name is_bl)"
proof -
  have good: "good_step e (asm_add_fixup (if is_bl then emit e (\<lambda>b. aarch64_enc_bl b 0) else emit e (\<lambda>b. aarch64_enc_b b 0)) fx)"
    if "fx_patch_offset fx = as_len e" for fx
    using that by (simp add: fixup_good one_words)
  show "line_step e (aarch64_emit_branch_local e n is_bl)" "good_step e (aarch64_emit_branch_sym e name is_bl)"
    unfolding aarch64_emit_branch_local_def aarch64_emit_branch_sym_def Let_def
    by (rule good_step_line_step [OF good] good; simp)+
  show "line_step e (aarch64_emit_b_cond_local e cc n)"
    unfolding aarch64_emit_b_cond_local_def Let_def by (rule fixup_line) (simp_all add: one_words)
qed

lemma cbz_step: "result_step e (aarch64_enc_cbz_line e ln nz)"
  unfolding aarch64_enc_cbz_line_def Let_def by (intro result_intros; simp)

lemma branch_step: "result_step e (aarch64_enc_branch e ln is_bl is_cond cc)"
  unfolding aarch64_enc_branch_def Let_def
  by (intro result_control branch_fixups(1,2) good_step_line_step [OF branch_fixups(3)] step_err emit_step one_words
      good_step_line_step [OF good_step_trans [OF emit_good branch_fixups(3)]])

lemma system_steps:
  "result_step e (aarch64_enc_barrier_line e ln opc)" "result_step e (aarch64_enc_mrs_line e ln)"
  "result_step e (aarch64_enc_msr e ln)" "result_step e (aarch64_enc_adrp_dispatch e ln)"
  "line_step e (aarch64_enc_ret_line e ln)"
  unfolding aarch64_enc_barrier_line_def aarch64_enc_mrs_line_def aarch64_enc_msr_def aarch64_enc_adrp_dispatch_def
    aarch64_enc_ret_line_def Let_def
  by (intro result_intros; simp add: as_len_emit one_words)+

lemma br_blr_step: "line_step e (aarch64_enc_br_blr e ln is_bl)"
  unfolding aarch64_enc_br_blr_def by (cases is_bl; simp only: if_True if_False) (intro handler_intros)+

lemma nop_step: "line_step e (aarch64_enc_nop_line e)"
  unfolding aarch64_enc_nop_line_def
  by (rule emit_seq_line) (simp add: some_words_def adds_words_def put_byte_def Let_def numeral_eq_Suc)

text \<open>\<^verbatim>\<open>PRINTREG\<close> is a sequence of encoders around a call.\<close>

lemma fold_words: "xs \<noteq> [] \<Longrightarrow> (\<And>x. x \<in> set xs \<Longrightarrow> some_words (f x)) \<Longrightarrow> some_words (fold f xs)"
proof (induction xs)
  case (Cons x xs)
  then show ?case
    by (cases "xs = []") (auto simp: some_words_def intro: adds_words_trans)
qed simp

lemma pair_some_words:
  "some_words (\<lambda>b. fst (aarch64_enc_ldst_pair b 0 0 8 1 r1 r2 31 (- 16)))"
  "some_words (\<lambda>b. fst (aarch64_enc_ldst_pair b 0 1 8 2 r1 r2 31 16))"
  by (simp_all add: some_words_def aarch64_enc_ldst_pair_def pair_opc_scale_def pair_mode_bits_def
      aarch64_ldp_stp_imm_def adds_word Let_def signed_divide_int_def signed_modulo_int_def)

lemma save_words: "some_words save_pairs" "some_words restore_pairs"
  unfolding save_pairs_def [abs_def] restore_pairs_def [abs_def]
  by (rule fold_words; auto simp: savepairs_def case_prod_beta pair_some_words)+

lemma good_chain:
  "good_step a e \<Longrightarrow> one_word f \<Longrightarrow> good_step a (emit e f)"
  "good_step a e \<Longrightarrow> some_words g \<Longrightarrow> good_step a (emit_seq e g)"
  "good_step a e \<Longrightarrow> good_step a (aarch64_emit_branch_sym e name is_bl)"
  by (blast intro: good_step_trans emit_good emit_seq_step branch_fixups(3))+

lemma printreg_steps:
  "fp_width \<in> {0, 4, 8} \<Longrightarrow> good_step e (printreg_scalar e helper fp_width rn)"
  "good_step e (printreg_vector e helper r v_kind)"
proof -
  have fp: "fp_width \<noteq> 0 \<Longrightarrow> one_word (\<lambda>b. aarch64_enc_fp_ldst_imm b load fp_width rt rn off)"
    if "fp_width \<in> {0, 4, 8}" "off \<in> {0, 160}" for load rt rn off
    by (rule one_word_fp_ldst) (use that in auto)
  show "good_step e (printreg_scalar e helper fp_width rn)" if "fp_width \<in> {0, 4, 8}"
    unfolding printreg_scalar_def Let_def
    by (intro good_chain emit_good one_words save_words fp that; simp)
  show "good_step e (printreg_vector e helper r v_kind)"
    unfolding printreg_vector_def Let_def
    by (intro good_chain emit_good one_words save_words one_word_fp_ldst; simp)
qed

lemma printreg_step: "line_step e (aarch64_enc_printreg linux e ln)"
proof -
  have "fp_width \<in> {0, 4, 8}" if "printreg_helper c = Some (helper, False, fp_width)" for c helper fp_width
    using that by (auto simp: printreg_helper_def split: if_splits)
  then show ?thesis
    unfolding aarch64_enc_printreg_def Let_def
    by (auto intro!: step_err good_step_line_step printreg_steps split: list.split option.split sum.split)
qed

lemma uxtb_step:
  assumes "aarch64_enc_uxtb_line e ln = Inr e'" "list_all asm_is_reg (take 2 (ln_operands ln))"
  shows "line_step e e'"
  using assms by (auto simp: aarch64_enc_uxtb_line_def Let_def intro!: emit_step one_words split: list.splits)

lemma unknown_step: "result_step e (aarch64_enc_unknown_line e ln)"
  unfolding aarch64_enc_unknown_line_def by (intro result_control branch_step step_err)

text \<open>Every instruction line is encoded or rejected.\<close>

lemma encode_instr_step:
  assumes "aarch64_encode_instr linux e ln = Inr e'"
    and "ln_mnemonic_id ln = A64MN_UXTB \<Longrightarrow> list_all asm_is_reg (take 2 (ln_operands ln))"
  shows "line_step e e'"
proof -
  have "result_step e (encode_mnemonic linux mn e ln)" if "mn = ln_mnemonic_id ln" "mn \<noteq> A64MN_UXTB" for mn
    using that
    by (cases mn) (simp_all only: encode_mnemonic.simps, ((erule notE, rule refl) | intro result_control(6) mov_step csel_step add_sub_step logical_step
        one_words lsl_step neg_cmp_step subs_step mov_wide_step ldr_str_step ldst_sub_step ldrs_step ldst_unscaled_step
        ldp_stp_step fp_steps bfmlal_step bfcvtn_step cbz_step branch_step system_steps br_blr_step nop_step printreg_step
        unknown_step stx_step; simp add: aarch64_enc_mulm_def aarch64_enc_sdi_def logical_step one_words)+)
  then show ?thesis
    using assms uxtb_step [of e ln e'] by (cases "ln_mnemonic_id ln = A64MN_UXTB") (auto simp: aarch64_encode_instr_def result_step_def)
qed

end
