(* ===== verification/A64Block.thy ===== *)
theory A64Block
  imports A64LineStep A64Prog
begin

text \<open>
  Blocks of lines: labels, local branches and their resolution. A branch to a local label is emitted with
  distance 0 and a fixup; after the block \<^verbatim>\<open>aarch64_resolve_local_fixups\<close> patches it. The theorems say that
  the patched instruction is the branch with the distance to the label, for a distance its field can hold.
\<close>

section \<open>Resolving fixups\<close>

text \<open>The fixups the resolution patches; the others are kept for the linker or the JIT.\<close>

definition resolvable :: "asm_fixup \<Rightarrow> bool" where
  "resolvable f \<longleftrightarrow> fx_kind f = AF_LOCAL \<and> fx_reloc f \<noteq> AFR_AARCH64_PAGE21 \<and> fx_reloc f \<noteq> AFR_AARCH64_PAGEOFF12"

text \<open>The word a fixup turns a word into.\<close>

definition patch_word :: "int \<Rightarrow> u32 \<Rightarrow> int \<Rightarrow> u32" where
  "patch_word width w rel =
     (if width = 19 then w AND NOT (push_bit 5 0x7FFFF) OR push_bit 5 (word_of_int rel AND 0x7FFFF)
      else w AND 0xFC000000 OR word_of_int rel AND 0x3FFFFFF)"

definition apply_fixup :: "asm_state \<Rightarrow> asm_fixup \<Rightarrow> nat \<Rightarrow> asm_state" where
  "apply_fixup out f target =
     emit_seq out (\<lambda>b. aarch64_write_word b (fx_patch_offset f)
       (patch_word (fx_width f) (aarch64_read_word b (fx_patch_offset f)) (fixup_rel_words target (fx_patch_offset f))))"

declare resolve_fixups.simps(2) [simp del]

lemma resolve_fixups_step:
  "resolve_fixups out kept (f # fs) =
     (if \<not> resolvable f then resolve_fixups out (kept @ [f]) fs
      else case find_label (fx_local_num f) (as_labels out) of
        None \<Rightarrow> resolve_fixups (asm_err_at out (unresolved_msg (fx_local_num f))) kept fs
      | Some target \<Rightarrow> resolve_fixups (apply_fixup out f target) kept fs)"
  by (auto simp: resolve_fixups.simps(2) resolvable_def apply_fixup_def patch_word_def aarch64_enc_patch_imm19_def aarch64_enc_patch_branch26_def
      Let_def split: option.split)

abbreviation code :: "asm_state \<Rightarrow> u8 list" where
  "code e \<equiv> ae_bytes (as_enc e)"

lemma apply_fixup_code:
  assumes "fx_patch_offset f + 4 \<le> as_len out"
  shows "as_len (apply_fixup out f t) = as_len out"
    and "word_at (code (apply_fixup out f t)) (fx_patch_offset f) =
      patch_word (fx_width f) (word_at (code out) (fx_patch_offset f)) (fixup_rel_words t (fx_patch_offset f))"
    and "q + 4 \<le> fx_patch_offset f \<or> fx_patch_offset f + 4 \<le> q \<Longrightarrow>
      word_at (code (apply_fixup out f t)) q = word_at (code out) q"
  using write_word [of "fx_patch_offset f" "as_enc out"] assms
  by (simp_all add: apply_fixup_def emit_seq_def as_len_def read_word_word_at)

lemma apply_fixup_simps [simp]:
  "as_labels (apply_fixup out f t) = as_labels out" "as_errors (apply_fixup out f t) = as_errors out"
  "as_line_offsets (apply_fixup out f t) = as_line_offsets out" "as_fixups (apply_fixup out f t) = as_fixups out"
  by (simp_all add: apply_fixup_def emit_seq_def)

lemma asm_err_at_simps [simp]:
  "as_labels (asm_err_at e msg) = as_labels e" "as_errors (asm_err_at e msg) = as_errors e + 1"
  "as_enc (asm_err_at e msg) = as_enc e" "as_line_offsets (asm_err_at e msg) = as_line_offsets e"
  "as_fixups (asm_err_at e msg) = as_fixups e" "as_len (asm_err_at e msg) = as_len e"
  by (simp_all add: asm_err_at_def as_len_def)

lemma fixups_within_Cons:
  "fixups_within lo hi (f # fs) \<longleftrightarrow>
     lo \<le> fx_patch_offset f \<and> fx_patch_offset f + 4 \<le> hi \<and> fixups_within (fx_patch_offset f + 4) hi fs"
  by (fastforce simp: fixups_within_def)

text \<open>
  The resolution patches the word of every resolvable fixup whose label exists, leaves every other word
  alone, keeps the other fixups and counts an error for every label that does not exist.
\<close>

lemma resolve_fixups_result:
  assumes "resolve_fixups out kept fs = (out', kept')" "fixups_within lo (as_len out) fs"
  shows "as_len out' = as_len out \<and> as_labels out' = as_labels out \<and> as_line_offsets out' = as_line_offsets out \<and>
    kept' = kept @ filter (\<lambda>f. \<not> resolvable f) fs \<and>
    as_errors out' = as_errors out + length (filter (\<lambda>f. resolvable f \<and> find_label (fx_local_num f) (as_labels out) = None) fs) \<and>
    (\<forall>q. (\<forall>f \<in> set fs. resolvable f \<longrightarrow> q + 4 \<le> fx_patch_offset f \<or> fx_patch_offset f + 4 \<le> q) \<longrightarrow>
       word_at (code out') q = word_at (code out) q) \<and>
    (\<forall>f \<in> set fs. \<forall>t. resolvable f \<longrightarrow> find_label (fx_local_num f) (as_labels out) = Some t \<longrightarrow>
       word_at (code out') (fx_patch_offset f) =
         patch_word (fx_width f) (word_at (code out) (fx_patch_offset f)) (fixup_rel_words t (fx_patch_offset f)))"
  using assms
proof (induction fs arbitrary: out kept lo)
  case (Cons f fs)
  let ?p = "fx_patch_offset f"
  have w: "lo \<le> ?p" "?p + 4 \<le> as_len out" "fixups_within (?p + 4) (as_len out) fs"
    using Cons.prems(2) by (simp_all add: fixups_within_Cons)
  have later: "?p + 4 \<le> fx_patch_offset g" if "g \<in> set fs" for g
    using w(3) that by (simp add: fixups_within_def)
  show ?case
  proof (cases "resolvable f")
    case False
    then show ?thesis using Cons.IH [OF _ w(3), of "kept @ [f]"] Cons.prems(1) by (auto simp: resolve_fixups_step)
  next
    case True
    show ?thesis
    proof (cases "find_label (fx_local_num f) (as_labels out)")
      case None
      then show ?thesis
        using Cons.IH [of "asm_err_at out (unresolved_msg (fx_local_num f))" kept "?p + 4"] Cons.prems(1) w(3) True
        by (auto simp: resolve_fixups_step)
    next
      case (Some t)
      let ?o = "apply_fixup out f t"
      note ap = apply_fixup_code [OF w(2), where t = t]
      have IH: "as_len out' = as_len ?o \<and> as_labels out' = as_labels ?o \<and> as_line_offsets out' = as_line_offsets ?o \<and>
        kept' = kept @ filter (\<lambda>f. \<not> resolvable f) fs \<and>
        as_errors out' = as_errors ?o + length (filter (\<lambda>f. resolvable f \<and> find_label (fx_local_num f) (as_labels ?o) = None) fs) \<and>
        (\<forall>q. (\<forall>f \<in> set fs. resolvable f \<longrightarrow> q + 4 \<le> fx_patch_offset f \<or> fx_patch_offset f + 4 \<le> q) \<longrightarrow>
           word_at (code out') q = word_at (code ?o) q) \<and>
        (\<forall>f \<in> set fs. \<forall>t. resolvable f \<longrightarrow> find_label (fx_local_num f) (as_labels ?o) = Some t \<longrightarrow>
           word_at (code out') (fx_patch_offset f) =
             patch_word (fx_width f) (word_at (code ?o) (fx_patch_offset f)) (fixup_rel_words t (fx_patch_offset f)))"
        using Cons.IH [of ?o kept "?p + 4"] Cons.prems(1) w(3) True Some by (simp add: resolve_fixups_step ap(1))
      have other: "word_at (code ?o) (fx_patch_offset g) = word_at (code out) (fx_patch_offset g)" if "g \<in> set fs" for g
        using ap(3) later [OF that] by blast
      have here: "word_at (code out') ?p = word_at (code ?o) ?p" using IH later by blast
      show ?thesis
        using IH ap True Some other here by auto
    qed
  qed
qed simp

section \<open>Lines\<close>

text \<open>The labels a line defines at an offset.\<close>

definition line_labels :: "asm_line \<Rightarrow> nat \<Rightarrow> asm_label_def list" where
  "line_labels ln off =
     (case ln_kind ln of
        AINS_LABEL_LOCAL \<Rightarrow>
          (case ln_label_name ln of
             Some name \<Rightarrow> [\<lparr>lb_local_num = - 1, lb_name = Some name, lb_byte_offset = off\<rparr>]
           | None \<Rightarrow> [\<lparr>lb_local_num = ln_local_num ln, lb_name = None, lb_byte_offset = off\<rparr>])
      | AINS_LABEL_PUBLIC \<Rightarrow> [\<lparr>lb_local_num = - 1, lb_name = ln_label_name ln, lb_byte_offset = off\<rparr>]
      | _ \<Rightarrow> [])"

text \<open>
  The lines of a block of whole words: a data directive among them holds no label, whose place is not a word of code, and
  its immediates take a multiple of 4 bytes, so that the instructions after it stay aligned.
\<close>

definition word_data :: "asm_line \<Rightarrow> bool" where
  "word_data ln \<longleftrightarrow> list_all (\<lambda>o1. \<not> asm_is_label o1) (ln_operands ln) \<and>
     4 dvd nat (directive_width (case ln_mnemonic ln of Some m \<Rightarrow> m | None \<Rightarrow> [])) * length (filter asm_is_imm (ln_operands ln))"

definition code_line :: "asm_line \<Rightarrow> bool" where
  "code_line ln \<longleftrightarrow> (ln_kind ln = AINS_DIRECTIVE \<longrightarrow> word_data ln)"

definition grows :: "asm_state \<Rightarrow> asm_state \<Rightarrow> bool" where
  "grows e e' \<longleftrightarrow> (\<exists>bs. code e' = code e @ bs \<and> 4 dvd length bs) \<and>
     (\<exists>fs. as_fixups e' = as_fixups e @ fs \<and> fixups_within (as_len e) (as_len e') fs) \<and> as_errors e \<le> as_errors e'"

lemma grows_refl: "grows e e"
  by (simp add: grows_def fixups_within_def)

lemma grows_len: "grows e e' \<Longrightarrow> as_len e \<le> as_len e'"
  by (auto simp: grows_def as_len_def)

lemma grows_trans: "grows a b \<Longrightarrow> grows b c \<Longrightarrow> grows a c"
proof -
  assume ab: "grows a b" and bc: "grows b c"
  obtain bs bs' fs fs' where "code b = code a @ bs" "4 dvd length bs" "code c = code b @ bs'" "4 dvd length bs'"
    "as_fixups b = as_fixups a @ fs" "as_fixups c = as_fixups b @ fs'"
    "fixups_within (as_len a) (as_len b) fs" "fixups_within (as_len b) (as_len c) fs'"
    using ab bc by (auto simp: grows_def)
  moreover from this have "fixups_within (as_len a) (as_len c) (fs @ fs')"
    using fixups_within_append grows_len [OF ab] grows_len [OF bc] by blast
  ultimately show "grows a c" using ab bc by (auto simp: grows_def)
qed

lemma line_step_grows: "line_step e e' \<Longrightarrow> grows e e'"
  by (auto simp: line_step_def encoded_def rejected_def grows_def adds_words_def fixups_within_def)

lemma uxtb_result:
  assumes "aarch64_enc_uxtb_line e ln = Inr e'"
  obtains rd rn os where "ln_operands ln = rd # rn # os"
    "e' = emit (if asm_is_reg rd \<and> asm_is_reg rn then e else asm_err_at e ''uxtb only takes registers'')
      (\<lambda>b. aarch64_enc_uxtb b 0 (regn rd) (regn rn))"
proof -
  obtain rd rn os where "ln_operands ln = rd # rn # os" using assms by (auto simp: aarch64_enc_uxtb_line_def split: list.splits)
  then show thesis using assms that [of rd rn os] by (auto simp: aarch64_enc_uxtb_line_def Let_def split: if_splits)
qed

text \<open>An instruction, \<^verbatim>\<open>uxtb\<close> with operands that are not registers included, adds whole words.\<close>

lemma encode_instr_grows:
  assumes "aarch64_encode_instr linux e ln = Inr e'"
  shows "grows e e' \<and> as_labels e' = as_labels e \<and> as_line_offsets e' = as_line_offsets e"
proof (cases "ln_mnemonic_id ln = A64MN_UXTB")
  case True
  have "aarch64_enc_uxtb_line e ln = Inr e'" using assms True by (simp add: aarch64_encode_instr_def)
  then obtain rd rn os where e': "e' = emit (if asm_is_reg rd \<and> asm_is_reg rn then e else asm_err_at e ''uxtb only takes registers'')
      (\<lambda>b. aarch64_enc_uxtb b 0 (regn rd) (regn rn))"
    by (rule uxtb_result) (rule that)
  define a where "a = (if asm_is_reg rd \<and> asm_is_reg rn then e else asm_err_at e ''uxtb only takes registers'')"
  have step: "line_step a e'" unfolding e' a_def by (intro emit_step one_words)
  have "grows e a \<and> as_labels a = as_labels e \<and> as_line_offsets a = as_line_offsets e"
    by (simp add: a_def grows_refl line_step_grows step_err)
  then show ?thesis
    using step grows_trans [OF _ line_step_grows [OF step]] by (simp add: line_step_def)
next
  case False
  then have "line_step e e'" using encode_instr_step [OF assms] by simp
  then show ?thesis using line_step_grows by (simp add: line_step_def)
qed

lemma put_imm_bytes_length: "\<exists>bs. ae_bytes (put_imm_bytes b v i n) = ae_bytes b @ bs \<and> length bs = n"
proof (induction n arbitrary: b i)
  case (Suc n)
  obtain bs where "ae_bytes (put_imm_bytes (put_byte b (word_of_int (drop_bit (8 * i) v))) v (i + 1) n) =
      ae_bytes (put_byte b (word_of_int (drop_bit (8 * i) v))) @ bs" "length bs = n"
    using Suc.IH by blast
  then show ?case by (simp add: put_byte_def)
qed simp

lemma directive_data:
  assumes "directive_operands e width os = Inr e'" "list_all (\<lambda>o1. \<not> asm_is_label o1) os"
  shows "\<exists>bs. code e' = code e @ bs \<and> length bs = nat width * length (filter asm_is_imm os) \<and> as_fixups e' = as_fixups e \<and>
    as_errors e \<le> as_errors e' \<and> as_labels e' = as_labels e \<and> as_line_offsets e' = as_line_offsets e"
  using assms
proof (induction os arbitrary: e)
  case (Cons o1 os)
  show ?case
  proof (cases "asm_is_imm o1")
    case True
    let ?e = "emit_seq e (\<lambda>b. put_imm_bytes b (op_imm o1) 0 (nat width))"
    obtain bs where "code ?e = code e @ bs" "length bs = nat width"
      using put_imm_bytes_length [of "as_enc e" "op_imm o1" 0 "nat width"] by (auto simp: emit_seq_def)
    moreover have "directive_operands ?e width os = Inr e'" using Cons.prems True by simp
    ultimately show ?thesis
      using Cons.IH [of ?e] Cons.prems(2) True by (auto simp: emit_seq_def)
  next
    case False
    then have "directive_operands (asm_err_at e ''directive: unsupported operand kind'') width os = Inr e'"
      using Cons.prems by simp
    then show ?thesis using Cons.IH Cons.prems(2) False by fastforce
  qed
qed simp

lemma directive_grows:
  assumes "asm_enc_directive e ln = Inr e'" "word_data ln"
  shows "grows e e' \<and> as_labels e' = as_labels e \<and> as_line_offsets e' = as_line_offsets e"
proof (cases "directive_width (case ln_mnemonic ln of Some m \<Rightarrow> m | None \<Rightarrow> []) = 0")
  case True
  then show ?thesis using assms(1) by (auto simp: asm_enc_directive_def grows_def fixups_within_def)
next
  case False
  then obtain bs where "code e' = code e @ bs" "as_fixups e' = as_fixups e" "as_errors e \<le> as_errors e'"
    "as_labels e' = as_labels e" "as_line_offsets e' = as_line_offsets e" "4 dvd length bs"
    using assms directive_data [of e _ "ln_operands ln" e'] by (fastforce simp: asm_enc_directive_def word_data_def)
  then show ?thesis by (simp add: grows_def fixups_within_def)
qed

lemma encode_line_result:
  assumes "encode_line linux e ln = Inr e'" "code_line ln"
  shows "grows e e'" "as_line_offsets e' = as_line_offsets e @ [as_len e]"
    "as_labels e' = as_labels e @ line_labels ln (as_len e)"
proof -
  let ?e = "e\<lparr>as_line_offsets := as_line_offsets e @ [as_len e]\<rparr>"
  have g: "grows e ?e" by (simp add: grows_def fixups_within_def)
  have len: "as_len ?e = as_len e" by (simp add: as_len_def)
  have def_label: "grows e (asm_define_label ?e n name)" for n name
    by (simp add: grows_def fixups_within_def asm_define_label_def)
  have "grows e e' \<and> as_line_offsets e' = as_line_offsets e @ [as_len e] \<and>
    as_labels e' = as_labels e @ line_labels ln (as_len e)"
  proof (cases "ln_kind ln = AINS_INSTR")
    case True
    then have "aarch64_encode_instr linux ?e ln = Inr e'" using assms(1) by (simp add: encode_line_def Let_def)
    then show ?thesis
      using grows_trans [OF g] encode_instr_grows True by (fastforce simp: line_labels_def)
  next
    case False
    show ?thesis
    proof (cases "ln_kind ln = AINS_DIRECTIVE")
      case True
      then have "asm_enc_directive ?e ln = Inr e'" using assms(1) by (simp add: encode_line_def Let_def)
      then have "grows ?e e' \<and> as_labels e' = as_labels ?e \<and> as_line_offsets e' = as_line_offsets ?e"
        by (rule directive_grows) (use assms(2) True in \<open>simp add: code_line_def\<close>)
      then show ?thesis using grows_trans [OF g] True by (auto simp: line_labels_def)
    qed (use assms(1) False g def_label in \<open>cases "ln_kind ln"; auto simp: encode_line_def line_labels_def Let_def
        asm_define_label_def as_len_def split: option.splits\<close>)
  qed
  then show "grows e e'" "as_line_offsets e' = as_line_offsets e @ [as_len e]"
    "as_labels e' = as_labels e @ line_labels ln (as_len e)" by simp_all
qed

text \<open>Running the lines one after the other; the block is run and then closed with the offset of its end.\<close>

fun run_lines :: "bool \<Rightarrow> asm_state \<Rightarrow> asm_line list \<Rightarrow> asm_state result" where
  "run_lines linux e [] = Inr e"
| "run_lines linux e (ln # lns) = rbind (encode_line linux e ln) (\<lambda>e. run_lines linux e lns)"

lemma run_lines_append: "run_lines linux e (xs @ ys) = rbind (run_lines linux e xs) (\<lambda>e. run_lines linux e ys)"
  by (induction xs arbitrary: e) (simp_all add: rbind_assoc)

lemma encode_lines_run:
  "encode_lines linux e lns =
     rbind (run_lines linux e lns) (\<lambda>e. Inr (e\<lparr>as_line_offsets := as_line_offsets e @ [as_len e]\<rparr>))"
  by (induction lns arbitrary: e) (simp_all add: rbind_assoc)

lemma run_lines_result:
  assumes "run_lines linux e lns = Inr e'" "list_all code_line lns"
  shows "grows e e'" "\<exists>os. as_line_offsets e' = as_line_offsets e @ os \<and> length os = length lns"
  using assms
proof (induction lns arbitrary: e)
  case Nil
  { case 1 then show ?case by (simp add: grows_refl) next case 2 then show ?case by simp }
next
  case (Cons ln lns)
  {
    case 1
    then show ?case using Cons.IH(1) grows_trans encode_line_result(1) by fastforce
  next
    case 2
    then obtain e1 where "encode_line linux e ln = Inr e1" "run_lines linux e1 lns = Inr e'" by auto
    then show ?case using Cons.IH(2) [of e1] encode_line_result(2) [of linux e ln e1] 2(2) by auto
  }
qed

section \<open>Local labels\<close>

definition defines_local :: "int \<Rightarrow> asm_line \<Rightarrow> bool" where
  "defines_local n ln \<longleftrightarrow> ln_kind ln = AINS_LABEL_LOCAL \<and> ln_label_name ln = None \<and> ln_local_num ln = n"

lemma find_label_append:
  "find_label n (xs @ ys) = (case find_label n xs of None \<Rightarrow> find_label n ys | Some t \<Rightarrow> Some t)"
  by (induction xs) (auto split: option.splits)

lemma find_label_line:
  assumes "0 \<le> n"
  shows "find_label n (line_labels ln off) = (if defines_local n ln then Some off else None)"
  using assms by (auto simp: line_labels_def defines_local_def split: asm_line_kind.splits option.splits)

lemma find_label_none:
  assumes "run_lines linux e lns = Inr e'" "list_all code_line lns" "0 \<le> n" "\<not> list_ex (defines_local n) lns"
  shows "find_label n (as_labels e') = find_label n (as_labels e)"
  using assms
proof (induction lns arbitrary: e)
  case (Cons ln lns)
  then obtain e1 where e1: "encode_line linux e ln = Inr e1" "run_lines linux e1 lns = Inr e'" by auto
  then show ?case
    using Cons encode_line_result(3) [OF e1(1)] by (auto simp: find_label_append find_label_line split: option.splits)
qed simp

lemma find_label_kept:
  assumes "run_lines linux e lns = Inr e'" "list_all code_line lns" "find_label n (as_labels e) = Some t"
  shows "find_label n (as_labels e') = Some t"
  using assms
proof (induction lns arbitrary: e)
  case (Cons ln lns)
  then obtain e1 where e1: "encode_line linux e ln = Inr e1" "run_lines linux e1 lns = Inr e'" by auto
  then show ?case using Cons encode_line_result(3) [OF e1(1)] by (auto simp: find_label_append)
qed simp

text \<open>A run, split at a line: the offset recorded for the line is the length of the code before it.\<close>

lemma run_lines_split:
  assumes "run_lines linux e lns = Inr e'" "list_all code_line lns" "j < length lns"
  obtains e1 e2 where "run_lines linux e (take j lns) = Inr e1" "encode_line linux e1 (lns ! j) = Inr e2"
    "run_lines linux e2 (drop (Suc j) lns) = Inr e'"
    "list_all code_line (take j lns)" "code_line (lns ! j)" "list_all code_line (drop (Suc j) lns)"
    "as_line_offsets e' ! (length (as_line_offsets e) + j) = as_len e1"
proof -
  have split: "lns = take j lns @ lns ! j # drop (Suc j) lns" using assms(3) by (rule id_take_nth_drop)
  have "run_lines linux e (take j lns @ lns ! j # drop (Suc j) lns) = Inr e'" using assms(1) split by simp
  then obtain e1 e2 where e1: "run_lines linux e (take j lns) = Inr e1" and e2: "encode_line linux e1 (lns ! j) = Inr e2"
    and e': "run_lines linux e2 (drop (Suc j) lns) = Inr e'"
    unfolding run_lines_append by auto
  have ok: "list_all code_line (take j lns)" "code_line (lns ! j)" "list_all code_line (drop (Suc j) lns)"
    using assms(2,3) by (auto simp: list_all_iff dest: in_set_takeD in_set_dropD)
  have "as_line_offsets e' ! (length (as_line_offsets e) + j) = as_len e1"
    using run_lines_result(2) [OF e1 ok(1)] run_lines_result(2) [OF e' ok(3)] encode_line_result(2) [OF e2 ok(2)] assms(3)
    by (auto simp: nth_append)
  then show thesis using that e1 e2 e' ok by blast
qed

text \<open>The label a block resolves to is the first definition, and its offset is that of the line.\<close>

lemma find_label_first:
  assumes "run_lines linux e lns = Inr e'" "list_all code_line lns" "0 \<le> n" "as_labels e = []"
    and "j < length lns" "defines_local n (lns ! j)" "\<not> list_ex (defines_local n) (take j lns)"
  shows "find_label n (as_labels e') = Some (as_line_offsets e' ! (length (as_line_offsets e) + j))"
proof -
  obtain e1 e2 where e1: "run_lines linux e (take j lns) = Inr e1" and e2: "encode_line linux e1 (lns ! j) = Inr e2"
    and e': "run_lines linux e2 (drop (Suc j) lns) = Inr e'"
    and ok: "list_all code_line (take j lns)" "code_line (lns ! j)" "list_all code_line (drop (Suc j) lns)"
    and off: "as_line_offsets e' ! (length (as_line_offsets e) + j) = as_len e1"
    by (rule run_lines_split [OF assms(1,2,5)])
  have "find_label n (as_labels e1) = None"
    using find_label_none [OF e1 ok(1) assms(3,7)] assms(4) by simp
  then have "find_label n (as_labels e2) = Some (as_len e1)"
    using encode_line_result(3) [OF e2 ok(2)] assms(3,6) by (simp add: find_label_append find_label_line)
  then have "find_label n (as_labels e') = Some (as_len e1)" by (rule find_label_kept [OF e' ok(3)])
  then show ?thesis using off by simp
qed

section \<open>Branches to local labels\<close>

text \<open>
  The lines that branch to a local label \<open>n\<close>, with the instruction they are as a function of its distance in
  words.
\<close>

definition local_target :: "asm_operand \<Rightarrow> int \<Rightarrow> bool" where
  "local_target l n \<longleftrightarrow> asm_is_label l \<and> 0 \<le> n \<and> asm_operand_local_num l = n"

inductive local_branch :: "asm_line \<Rightarrow> (int \<Rightarrow> ctl_insn) \<Rightarrow> int \<Rightarrow> bool" where
  b: "ln_mnemonic_id ln = A64MN_B \<Longrightarrow> ln_operands ln = [l] \<Longrightarrow> local_target l n \<Longrightarrow> local_branch ln B n"
| bl: "ln_mnemonic_id ln = A64MN_BL \<Longrightarrow> ln_operands ln = [l] \<Longrightarrow> local_target l n \<Longrightarrow> local_branch ln Bl n"
| bne: "ln_mnemonic_id ln = A64MN_BNE \<Longrightarrow> ln_operands ln = [l] \<Longrightarrow> local_target l n \<Longrightarrow> local_branch ln (Bcond 1) n"
| bcond: "ln_mnemonic_id ln = A64MN_UNKNOWN \<Longrightarrow> ln_mnemonic ln = Some m \<Longrightarrow> aarch64_parse_branch_cond_suffix m = Some cc \<Longrightarrow>
    ln_operands ln = [l] \<Longrightarrow> local_target l n \<Longrightarrow> local_branch ln (Bcond cc) n"
| cbz: "ln_mnemonic_id ln = A64MN_CBZ \<Longrightarrow> ln_operands ln = [r, l] \<Longrightarrow> asm_is_reg r \<Longrightarrow> cls r = AR_A64_X \<or> cls r = AR_A64_W \<Longrightarrow>
    local_target l n \<Longrightarrow> local_branch ln (Cbz (of_bool (cls r = AR_A64_X)) 0 (regn r)) n"
| cbnz: "ln_mnemonic_id ln = A64MN_CBNZ \<Longrightarrow> ln_operands ln = [r, l] \<Longrightarrow> asm_is_reg r \<Longrightarrow> cls r = AR_A64_X \<or> cls r = AR_A64_W \<Longrightarrow>
    local_target l n \<Longrightarrow> local_branch ln (Cbz (of_bool (cls r = AR_A64_X)) 1 (regn r)) n"

text \<open>Such a line is emitted with distance 0 and one fixup, whose patch sets the distance.\<close>

definition branch_fixup :: "asm_state \<Rightarrow> int \<Rightarrow> int \<Rightarrow> asm_fixup" where
  "branch_fixup e width n = zero_fixup\<lparr>fx_kind := AF_LOCAL, fx_local_num := n, fx_patch_offset := as_len e, fx_width := width,
     fx_pcrel := True\<rparr>"

lemma local_target_not_imm: "local_target l n \<Longrightarrow> \<not> asm_is_imm l"
  by (simp add: local_target_def asm_is_label_def asm_is_imm_def)

lemma local_target_fixup:
  "local_target l n \<Longrightarrow> label_fixup l = Inr (zero_fixup\<lparr>fx_kind := AF_LOCAL, fx_local_num := n\<rparr>)"
  by (simp add: local_target_def label_fixup_def Let_def)

text \<open>A branch whose distance field a fixup of the given width fills in.\<close>

definition patches :: "int \<Rightarrow> (int \<Rightarrow> ctl_insn) \<Rightarrow> bool" where
  "patches width I \<longleftrightarrow> (\<exists>w. \<forall>b. encode b (CtlI (I 0)) = put_word b w \<and>
     (\<forall>d. encode b (CtlI (I d)) = put_word b (patch_word width w d)))"

lemma patches: "patches 4 B" "patches 4 Bl" "patches 19 (Bcond cc)" "patches 19 (Cbz sf nz rt)"
  unfolding patches_def insn_puts
  by (rule exI, rule allI, rule conjI, rule refl, rule allI, rule arg_cong [where f = "put_word _"],
      simp add: patch_word_def patch_words, simp add: or_ac)+

lemma local_branch_encode:
  assumes "local_branch ln I n"
  shows "\<exists>width. patches width I \<and> aarch64_encode_instr linux e ln =
      Inr (asm_add_fixup (emit e (\<lambda>b. ctl_encode b (I 0))) (branch_fixup e width n))"
  using assms
proof cases
  case (b l)
  then show ?thesis
    using patches(1) local_target_not_imm
    by (force simp: local_target_def aarch64_encode_instr_def aarch64_enc_branch_def aarch64_local_label_num_def branch_fixup_def
        aarch64_emit_branch_local_def Let_def)
next
  case (bl l)
  then show ?thesis
    using patches(2) local_target_not_imm
    by (force simp: local_target_def aarch64_encode_instr_def aarch64_enc_branch_def aarch64_local_label_num_def branch_fixup_def
        aarch64_emit_branch_local_def Let_def)
next
  case (bne l)
  then show ?thesis
    using patches(3) local_target_not_imm
    by (force simp: local_target_def aarch64_encode_instr_def aarch64_enc_branch_def aarch64_local_label_num_def branch_fixup_def
        aarch64_emit_b_cond_local_def Let_def)
next
  case (bcond m cc l)
  then show ?thesis
    using patches(3) local_target_not_imm
    by (force simp: local_target_def aarch64_encode_instr_def aarch64_enc_unknown_line_def aarch64_enc_branch_def
        aarch64_local_label_num_def branch_fixup_def aarch64_emit_b_cond_local_def Let_def)
next
  case (cbz r l)
  then show ?thesis
    using patches(4) local_target_not_imm local_target_fixup
    by (force simp: local_target_def aarch64_encode_instr_def aarch64_enc_cbz_line_def branch_fixup_def Let_def)
next
  case (cbnz r l)
  then show ?thesis
    using patches(4) local_target_not_imm local_target_fixup
    by (force simp: local_target_def aarch64_encode_instr_def aarch64_enc_cbz_line_def branch_fixup_def Let_def)
qed

section \<open>The branch after the resolution\<close>

lemma run_fixups:
  assumes "run_lines linux e lns = Inr e'" "list_all code_line lns" "fixups_within 0 (as_len e) (as_fixups e)"
  shows "fixups_within 0 (as_len e') (as_fixups e')"
  using run_lines_result(1) [OF assms(1,2)] assms(3) fixups_within_append grows_len
  by (fastforce simp: grows_def)

lemma grows_word:
  assumes "grows e e'" "off + 4 \<le> as_len e"
  shows "word_at (code e') off = word_at (code e) off"
  using assms by (auto simp: grows_def word_at_def nth_append as_len_def)

lemma grows_aligned: "grows e e' \<Longrightarrow> aligned (as_enc e) \<Longrightarrow> aligned (as_enc e')"
  by (auto simp: grows_def aligned_def)

lemma put_word_inj:
  assumes "put_word b w = put_word b w'"
  shows "w = w'"
proof -
  have "word_at (ae_bytes (fst (put_word b v))) (length (ae_bytes b)) = v" for v
    by (simp add: put_word_bytes word_at_put)
  then show ?thesis using assms by metis
qed

text \<open>A word of an aligned buffer is one line of its listing.\<close>

lemma listing_word:
  assumes "aligned b" "4 dvd off" "off + 4 \<le> length (ae_bytes b)"
  shows "(off, dis_text (word_at (ae_bytes b) off)) \<in> set (listing b)"
proof -
  have "off = 4 * (off div 4)" "off div 4 < length (ae_bytes b) div 4" using assms by auto
  then show ?thesis unfolding listing_map by (metis (lifting) imageI image_set atLeastLessThan_upt atLeast0LessThan lessThan_iff)
qed

lemma patched_text:
  assumes "patches width I" "ctl_ok (I d)"
  obtains w where "\<And>b. ctl_encode b (I 0) = put_word b w" "dis_text (patch_word width w d) = ctl_text (I d)"
proof -
  obtain w where w: "\<And>b. encode b (CtlI (I 0)) = put_word b w"
    "\<And>b. encode b (CtlI (I d)) = put_word b (patch_word width w d)"
    using assms(1) by (auto simp: patches_def)
  have al: "aligned \<lparr>ae_bytes = [], ae_cap = 0\<rparr>" by (simp add: aligned_def)
  have "dis_text (patch_word width w d) = ctl_text (I d)"
    using emits_dis_text [OF al, of "patch_word width w d" "ctl_text (I d)"] encode_emits [OF al, of "CtlI (I d)"] w(2) assms(2)
    by (metis insn_ok.simps(4) insn_text.simps(4))
  then show thesis using that w(1) by simp
qed

text \<open>What a run leaves behind for a branch: its placeholder word, and its fixup among those to resolve.\<close>

lemma local_branch_run:
  assumes run: "run_lines linux asm_enc_init blk = Inr out" and code: "list_all code_line blk"
    and i: "i < length blk" "ln_kind (blk ! i) = AINS_INSTR" "local_branch (blk ! i) I n"
    and src: "src = as_line_offsets out ! i"
  obtains f where "f \<in> set (as_fixups out)" "fx_patch_offset f = src" "fx_local_num f = n" "resolvable f"
    "patches (fx_width f) I" "\<And>b. ctl_encode b (I 0) = put_word b (word_at (code out) src)"
    "4 dvd src" "src + 4 \<le> as_len out"
proof -
  let ?init = asm_enc_init
  have init: "as_line_offsets ?init = []" "aligned (as_enc ?init)" by (simp_all add: asm_enc_init_def aligned_def)
  obtain e1 e2 where e1: "run_lines linux ?init (take i blk) = Inr e1" and e2: "encode_line linux e1 (blk ! i) = Inr e2"
    and post: "run_lines linux e2 (drop (Suc i) blk) = Inr out"
    and ok1: "list_all code_line (take i blk)" and ok2: "list_all code_line (drop (Suc i) blk)"
    and off: "src = as_len e1"
    using run_lines_split [OF run code i(1)] src init(1) by (metis add_0 list.size(3))
  let ?e1 = "e1\<lparr>as_line_offsets := as_line_offsets e1 @ [as_len e1]\<rparr>"
  obtain width where width: "patches width I" and enc: "aarch64_encode_instr linux ?e1 (blk ! i) =
      Inr (asm_add_fixup (emit ?e1 (\<lambda>b. ctl_encode b (I 0))) (branch_fixup ?e1 width n))"
    using local_branch_encode [OF i(3)] by meson
  obtain w where w: "\<And>b. ctl_encode b (I 0) = put_word b w" using width by (auto simp: patches_def)
  let ?f = "branch_fixup ?e1 width n"
  have e2': "e2 = asm_add_fixup (emit ?e1 (\<lambda>b. put_word b w)) ?f"
    using e2 enc i(2) w by (simp add: encode_line_def Let_def)
  have f: "fx_patch_offset ?f = src" "fx_width ?f = width" "fx_local_num ?f = n" "resolvable ?f"
    by (simp_all add: branch_fixup_def off as_len_def resolvable_def zero_fixup_def)
  have c2: "as_len e2 = src + 4" "word_at (code e2) src = w" "as_fixups e2 = as_fixups e1 @ [?f]"
    by (simp_all add: e2' off asm_add_fixup_def emit_def as_len_def put_word_bytes word_at_put)
  have g1: "grows ?init e1" and g2: "grows e2 out" using run_lines_result(1) e1 post ok1 ok2 by blast+
  have "?f \<in> set (as_fixups out)" using g2 c2(3) by (auto simp: grows_def)
  moreover have "src + 4 \<le> as_len out" using grows_len [OF g2] c2(1) by simp
  moreover have "word_at (code out) src = w" using grows_word [OF g2, of src] c2(1,2) by simp
  moreover have "4 dvd src" using grows_aligned [OF g1 init(2)] by (simp add: aligned_def off as_len_def)
  ultimately show thesis using that f width w by simp
qed

lemma run_within:
  assumes "run_lines linux asm_enc_init blk = Inr out" "list_all code_line blk"
  shows "fixups_within 0 (as_len out) (as_fixups out)" "aligned (as_enc out)"
  using run_fixups [OF assms] grows_aligned [OF run_lines_result(1) [OF assms]]
  by (simp_all add: fixups_within_def asm_enc_init_def aligned_def)

lemma local_branch_resolution:
  assumes run: "run_lines linux asm_enc_init blk = Inr out" and code: "list_all code_line blk"
    and i: "i < length blk" "ln_kind (blk ! i) = AINS_INSTR" "local_branch (blk ! i) I n"
    and label: "find_label n (as_labels out) = Some t"
    and src: "src = as_line_offsets out ! i" and ok: "ctl_ok (I (fixup_rel_words t src))"
  shows "(src, ctl_text (I (fixup_rel_words t src))) \<in> set (listing (as_enc (aarch64_resolve_local_fixups out)))"
proof -
  let ?d = "fixup_rel_words t src"
  obtain f where f: "f \<in> set (as_fixups out)" "fx_patch_offset f = src" "fx_local_num f = n" "resolvable f"
    and width: "patches (fx_width f) I" and w: "\<And>b. ctl_encode b (I 0) = put_word b (word_at (code out) src)"
    and src4: "4 dvd src" "src + 4 \<le> as_len out"
    using local_branch_run [OF run code i src] by blast
  have dis: "dis_text (patch_word (fx_width f) (word_at (code out) src) ?d) = ctl_text (I ?d)"
    using patched_text [OF width ok] w put_word_inj by metis
  obtain out' kept' where res: "resolve_fixups out [] (as_fixups out) = (out', kept')" by force
  note result = resolve_fixups_result [OF res run_within(1) [OF run code]]
  have word: "word_at (code out') src = patch_word (fx_width f) (word_at (code out) src) ?d"
    using result f label by fastforce
  have al: "aligned (as_enc out')" using result run_within(2) [OF run code] by (simp add: aligned_def as_len_def)
  have "(src, ctl_text (I ?d)) \<in> set (listing (as_enc out'))"
    using listing_word [OF al, of src] src4 result word dis by (simp add: as_len_def)
  then show ?thesis using res f(1) by (auto simp: aarch64_resolve_local_fixups_def)
qed

end
