(* ===== verification/A64BlockProps.thy ===== *)
theory A64BlockProps
  imports A64Block
begin

text \<open>
  What the assembler of a block promises: instructions are encoded or reported, \<^verbatim>\<open>uxtb\<close> with other operands than
  registers both; the recorded offsets are those of the lines; a branch to a local label reaches the label, and one
  to a label that is not there is reported; lines whose names and operands are there never make it fault.
\<close>

section \<open>The offsets of the lines\<close>

lemma resolve_fixups_offsets:
  "resolve_fixups (out\<lparr>as_line_offsets := os\<rparr>) kept fs =
     (case resolve_fixups out kept fs of (out', kept') \<Rightarrow> (out'\<lparr>as_line_offsets := os\<rparr>, kept'))"
proof (induction fs arbitrary: out kept)
  case (Cons f fs)
  have "apply_fixup (out\<lparr>as_line_offsets := os\<rparr>) f t = (apply_fixup out f t)\<lparr>as_line_offsets := os\<rparr>" for t
    by (simp add: apply_fixup_def emit_seq_def)
  moreover have "asm_err_at (out\<lparr>as_line_offsets := os\<rparr>) m = (asm_err_at out m)\<lparr>as_line_offsets := os\<rparr>" for m
    by (simp add: asm_err_at_def)
  ultimately show ?case by (simp add: resolve_fixups_step Cons.IH split: option.split)
qed simp

text \<open>Assembling a block, in terms of the run of its lines.\<close>

lemma encode_block:
  assumes "asm_encode_arm64 linux blk asm_enc_init = Inr (out, errs)" "list_all code_line blk"
  obtains e where "run_lines linux asm_enc_init blk = Inr e"
    "as_line_offsets out = as_line_offsets e @ [as_len e]" "as_len out = as_len e" "as_labels out = as_labels e"
    "as_enc out = as_enc (aarch64_resolve_local_fixups e)" "errs = as_errors out"
    "as_fixups out = filter (\<lambda>f. \<not> resolvable f) (as_fixups e)"
    "as_errors out = as_errors e + length (filter (\<lambda>f. resolvable f \<and> find_label (fx_local_num f) (as_labels e) = None) (as_fixups e))"
proof -
  have init: "asm_enc_init\<lparr>as_line_offsets := []\<rparr> = asm_enc_init" by (simp add: asm_enc_init_def)
  obtain e where e: "run_lines linux asm_enc_init blk = Inr e"
    and out: "out = aarch64_resolve_local_fixups (e\<lparr>as_line_offsets := as_line_offsets e @ [as_len e]\<rparr>)" "errs = as_errors out"
    using assms(1) by (auto simp: asm_encode_arm64_def encode_lines_run init Let_def)
  obtain e' kept where res: "resolve_fixups e [] (as_fixups e) = (e', kept)" by force
  note result = resolve_fixups_result [OF res run_within(1) [OF e assms(2)]]
  have resolved: "aarch64_resolve_local_fixups (e\<lparr>as_line_offsets := os\<rparr>) = e'\<lparr>as_line_offsets := os, as_fixups := kept\<rparr>" for os
  proof (cases "as_fixups e = []")
    case True
    then have "e' = e" "kept = []" using res by simp_all
    then show ?thesis using True by (simp add: aarch64_resolve_local_fixups_def)
  next
    case False
    then show ?thesis using res by (simp add: aarch64_resolve_local_fixups_def resolve_fixups_offsets)
  qed
  have "as_enc (aarch64_resolve_local_fixups e) = as_enc e'" using resolved [of "as_line_offsets e"] by simp
  then show thesis
    using that [OF e] out(2) result unfolding out(1) resolved by (simp add: as_len_def)
qed

lemma encode_line_length:
  "encode_line linux e ln = Inr e' \<Longrightarrow> code_line ln \<Longrightarrow> as_len e \<le> as_len e' \<and> (aligned (as_enc e) \<longrightarrow> 4 dvd as_len e')"
  using encode_line_result(1) [of linux e ln e'] grows_len [of e e'] grows_aligned [of e e'] by (simp add: aligned_def as_len_def)

definition good_offsets :: "asm_state \<Rightarrow> bool" where
  "good_offsets e \<longleftrightarrow> aligned (as_enc e) \<and> sorted (as_line_offsets e @ [as_len e]) \<and> list_all ((dvd) 4) (as_line_offsets e)"

lemma encode_line_offsets:
  assumes "encode_line linux e ln = Inr e'" "code_line ln" "good_offsets e"
  shows "good_offsets e'"
  using assms(3) encode_line_result(2) [OF assms(1,2)] encode_line_length [OF assms(1,2)]
    grows_aligned [OF encode_line_result(1) [OF assms(1,2)]]
  by (auto simp: good_offsets_def sorted_append aligned_def as_len_def)

lemma run_lines_offsets:
  "run_lines linux e lns = Inr e' \<Longrightarrow> list_all code_line lns \<Longrightarrow> good_offsets e \<Longrightarrow> good_offsets e'"
proof (induction lns arbitrary: e)
  case (Cons ln lns)
  then obtain e1 where "encode_line linux e ln = Inr e1" "run_lines linux e1 lns = Inr e'" by auto
  then show ?case using Cons encode_line_offsets by simp
qed simp

text \<open>
  The offsets an assembled block reports are those of its lines: one for each line and one for the end of the code,
  starting at 0, ascending, each a multiple of the instruction size, the last the length of the code.
\<close>

theorem block_layout:
  assumes "asm_encode_arm64 linux blk asm_enc_init = Inr (out, errs)" "list_all code_line blk"
  shows "length (as_line_offsets out) = length blk + 1 \<and> sorted (as_line_offsets out) \<and>
    as_line_offsets out ! 0 = 0 \<and> last (as_line_offsets out) = as_len out \<and> (\<forall>off \<in> set (as_line_offsets out). 4 dvd off)"
proof -
  obtain e where e: "run_lines linux asm_enc_init blk = Inr e" "as_line_offsets out = as_line_offsets e @ [as_len e]"
    "as_len out = as_len e" by (rule encode_block [OF assms])
  have init: "as_line_offsets asm_enc_init = []" "as_len asm_enc_init = 0" "good_offsets asm_enc_init"
    by (simp_all add: asm_enc_init_def as_len_def good_offsets_def aligned_def)
  have offs: "good_offsets e" by (rule run_lines_offsets [OF e(1) assms(2) init(3)])
  have len: "length (as_line_offsets e) = length blk" using run_lines_result(2) [OF e(1) assms(2)] init(1) by auto
  have "as_line_offsets out ! 0 = 0"
  proof (cases "blk = []")
    case True
    then show ?thesis using e init by simp
  next
    case False
    obtain e1 where "run_lines linux asm_enc_init (take 0 blk) = Inr e1"
      "as_line_offsets e ! (length (as_line_offsets asm_enc_init) + 0) = as_len e1"
      using run_lines_split [OF e(1) assms(2), of 0] False by blast
    then show ?thesis using e(2) init False len by (simp add: nth_append)
  qed
  then show ?thesis
    using offs e(2,3) len by (auto simp: good_offsets_def list_all_iff aligned_def as_len_def)
qed

text \<open>A block with a forward and a backward branch: \<^verbatim>\<open>@@2: cbz w3, @@1; nop; b @@2; @@1: ret\<close>.\<close>

definition no_reg :: asm_reg where
  "no_reg = \<lparr>rg_cls = AR_GPR8, rg_num = 0\<rparr>"

definition zero_operand :: asm_operand where
  "zero_operand = \<lparr>op_kind = AOP_NONE, op_reg = no_reg, op_v_lane_bits = 0, op_v_n_lanes = 0, op_v_lane_idx = - 1,
     op_imm = 0, op_is_float = False, op_f64 = 0, op_shift_type = 0, op_base = no_reg, op_has_base = False,
     op_index = no_reg, op_has_index = False, op_disp = 0, op_writeback = False, op_post_index = False,
     op_extend_lsl = 0, op_label_name = None\<rparr>"

definition reg_operand :: "asm_reg_class \<Rightarrow> int \<Rightarrow> asm_operand" where
  "reg_operand c n = zero_operand\<lparr>op_kind := AOP_REG, op_reg := \<lparr>rg_cls = c, rg_num = n\<rparr>\<rparr>"

definition label_operand :: "string \<Rightarrow> asm_operand" where
  "label_operand name = zero_operand\<lparr>op_kind := AOP_LABEL, op_label_name := Some name\<rparr>"

definition instr_line :: "aarch64_mn \<Rightarrow> string \<Rightarrow> asm_operand list \<Rightarrow> asm_line" where
  "instr_line mn name os = \<lparr>ln_kind = AINS_INSTR, ln_mnemonic = Some name, ln_mnemonic_id = mn, ln_operands = os,
     ln_local_num = 0, ln_label_name = None\<rparr>"

definition label_line :: "int \<Rightarrow> asm_line" where
  "label_line n = \<lparr>ln_kind = AINS_LABEL_LOCAL, ln_mnemonic = None, ln_mnemonic_id = A64MN_UNKNOWN, ln_operands = [],
     ln_local_num = n, ln_label_name = None\<rparr>"

definition demo_block :: "asm_line list" where
  "demo_block =
     [label_line 2, instr_line A64MN_CBZ ''cbz'' [reg_operand AR_A64_W 3, label_operand ''@@1''],
      instr_line A64MN_NOP ''nop'' [], instr_line A64MN_B ''b'' [label_operand ''@@2''],
      label_line 1, instr_line A64MN_RET ''ret'' []]"

lemma demo_block_code: "list_all code_line demo_block"
  by code_simp

lemmas demo_defs = instr_line_def label_line_def reg_operand_def label_operand_def zero_operand_def no_reg_def

lemmas encode_defs = asm_encode_arm64_def asm_enc_init_def encode_line_def aarch64_encode_instr_def aarch64_enc_cbz_line_def
  aarch64_enc_branch_def aarch64_local_label_num_def aarch64_emit_branch_local_def aarch64_enc_ret_line_def
  aarch64_enc_nop_line_def asm_define_label_def asm_add_fixup_def emit_def emit_seq_def as_len_def asm_is_reg_def asm_is_imm_def
  asm_is_label_def label_fixup_def zero_fixup_def asm_operand_local_num_def atoi_def Let_def

lemma digits: "is_digit CHR ''1''" "is_digit CHR ''2''" "is_digit CHR ''7''"
  by code_simp+

lemma lengths:
  "length (ae_bytes (put_byte b v)) = length (ae_bytes b) + 1"
  "length (ae_bytes (fst (aarch64_enc_b b r))) = length (ae_bytes b) + 4"
  "length (ae_bytes (fst (aarch64_enc_cbz b sf nz rt r))) = length (ae_bytes b) + 4"
  "length (ae_bytes (fst (aarch64_enc_ret b))) = length (ae_bytes b) + 4"
  by (simp_all add: put_byte_def aarch64_enc_b_def aarch64_enc_cbz_def aarch64_enc_ret_def aarch64_enc_ret_reg_def Let_def put_word_bytes)

lemmas resolve_defs = aarch64_resolve_local_fixups_def resolve_fixups_step resolvable_def

lemma demo_block_out:
  obtains out where "asm_encode_arm64 False demo_block asm_enc_init = Inr (out, 0)"
    "as_line_offsets out = [0, 0, 4, 8, 12, 12, 16]"
proof -
  have "(case asm_encode_arm64 False demo_block asm_enc_init of
      Inl x \<Rightarrow> False | Inr (out, errs) \<Rightarrow> errs = 0 \<and> as_line_offsets out = [0, 0, 4, 8, 12, 12, 16])"
    by (simp add: demo_block_def demo_defs encode_defs digits lengths resolve_defs)
  then show thesis using that by (auto split: sum.splits)
qed

theorem block_layout_witness:
  "\<exists>out errs. asm_encode_arm64 False demo_block asm_enc_init = Inr (out, errs) \<and> length (as_line_offsets out) = 7"
proof -
  obtain out where out: "asm_encode_arm64 False demo_block asm_enc_init = Inr (out, 0)" by (rule demo_block_out)
  then show ?thesis using block_layout [OF out demo_block_code] by (auto simp: demo_block_def)
qed

section \<open>Branches to local labels\<close>

lemma rel_words:
  assumes "4 * d = x" "- 33554432 \<le> d" "d < 33554432"
  shows "s32 x sdiv 4 = d"
proof -
  have "s32 x = signed_take_bit 31 (4 * d)" by (simp add: s32_def sint_sbintrunc' assms(1))
  also have "\<dots> = 4 * d" by (rule signed_take_bit_int_eq_self) (use assms(2,3) in simp_all)
  finally have "s32 x = 4 * d" .
  then show ?thesis by (simp add: sdiv_exact)
qed

text \<open>
  C3. A branch to a local label reaches it. In an assembled block, whose data directives, if there are any, hold no labels and take a
  multiple of 4 bytes each, take a line that is a branch to a local label (\<^verbatim>\<open>b\<close>, \<^verbatim>\<open>bl\<close>, \<^verbatim>\<open>bne\<close>, \<^verbatim>\<open>b.cc\<close>, \<^verbatim>\<open>cbz\<close>, \<^verbatim>\<open>cbnz\<close>)
  and the first line that defines the label, before or after it. If the distance between their offsets fits the instruction, 26 bits of words for
  \<^verbatim>\<open>b\<close> and \<^verbatim>\<open>bl\<close> and 19 bits for the others (and the register number its 5 bits), the instruction at the offset of the branch is disassembled as that branch with that
  distance. The assembler does not check the distance: a longer one is cut to the field.
\<close>

theorem local_branch_resolved:
  assumes "asm_encode_arm64 linux blk asm_enc_init = Inr (out, errs)" "list_all code_line blk"
    and "i < length blk" "ln_kind (blk ! i) = AINS_INSTR" "local_branch (blk ! i) I n"
    and "j < length blk" "defines_local n (blk ! j)" "\<not> list_ex (defines_local n) (take j blk)"
    and "4 * d = int (as_line_offsets out ! j) - int (as_line_offsets out ! i)" "ctl_ok (I d)"
  shows "(as_line_offsets out ! i, ctl_text (I d)) \<in> set (listing (as_enc out))"
proof -
  obtain e where e: "run_lines linux asm_enc_init blk = Inr e" "as_line_offsets out = as_line_offsets e @ [as_len e]"
    "as_enc out = as_enc (aarch64_resolve_local_fixups e)" by (rule encode_block [OF assms(1,2)])
  have init: "as_line_offsets asm_enc_init = []" "as_labels asm_enc_init = []" by (simp_all add: asm_enc_init_def)
  have "length (as_line_offsets e) = length blk" using run_lines_result(2) [OF e(1) assms(2)] init by auto
  then have offs: "as_line_offsets out ! i = as_line_offsets e ! i" "as_line_offsets out ! j = as_line_offsets e ! j"
    using e(2) assms(3,6) by (simp_all add: nth_append)
  have n: "0 \<le> n" using assms(5) by cases (simp_all add: local_target_def)
  have t: "find_label n (as_labels e) = Some (as_line_offsets e ! j)"
    using find_label_first [OF e(1) assms(2) n init(2) assms(6-8)] init(1) by simp
  have "- 33554432 \<le> d \<and> d < 33554432" using assms(5,10) by cases auto
  then have "fixup_rel_words (as_line_offsets e ! j) (as_line_offsets e ! i) = d"
    using assms(9) offs by (simp add: fixup_rel_words_def rel_words)
  then show ?thesis
    using local_branch_resolution [OF e(1) assms(2-5) t refl] assms(10) offs e(3) by simp
qed

theorem local_branch_resolved_witness:
  "\<exists>out errs. asm_encode_arm64 False demo_block asm_enc_init = Inr (out, errs) \<and>
     (0, ''cbz w3, #+12'') \<in> set (listing (as_enc out)) \<and> (8, ''b #-8'') \<in> set (listing (as_enc out))"
proof -
  obtain out where out: "asm_encode_arm64 False demo_block asm_enc_init = Inr (out, 0)"
    "as_line_offsets out = [0, 0, 4, 8, 12, 12, 16]" by (rule demo_block_out)
  have r3: "regn (reg_operand AR_A64_W 3) = 3" by code_simp
  have texts: "ctl_text (Cbz 0 0 3 3) = ''cbz w3, #+12''" "ctl_text (B (- 2)) = ''b #-8''" by code_simp+
  have cbz: "local_branch (demo_block ! 1) (Cbz (of_bool (cls (reg_operand AR_A64_W 3) = AR_A64_X)) 0 (regn (reg_operand AR_A64_W 3))) 1"
    by (rule local_branch.cbz [where l = "label_operand ''@@1''"]; code_simp)
  have b: "local_branch (demo_block ! 3) B 2"
    by (rule local_branch.b [where l = "label_operand ''@@2''"]; code_simp)
  note res = local_branch_resolved [OF out(1) demo_block_code]
  have "(0, ctl_text (Cbz 0 0 3 3)) \<in> set (listing (as_enc out))"
    using res [OF _ _ cbz [unfolded r3], of 4 3] out(2) by (simp add: demo_block_def instr_line_def label_line_def defines_local_def reg_operand_def)
  moreover have "(8, ctl_text (B (- 2))) \<in> set (listing (as_enc out))"
    using res [OF _ _ b, of 0 "- 2"] out(2) by (simp add: demo_block_def instr_line_def label_line_def defines_local_def)
  ultimately show ?thesis using out(1) unfolding texts by blast
qed

text \<open>
  C39. A branch to a local label the block does not define is reported: the block has an error, and the fixup is not left for
  the linker. The data directives of the block, if there are any, hold no labels and take a multiple of 4 bytes each.
\<close>

theorem unresolved_label_reported:
  assumes "asm_encode_arm64 linux blk asm_enc_init = Inr (out, errs)" "list_all code_line blk"
    and "i < length blk" "ln_kind (blk ! i) = AINS_INSTR" "local_branch (blk ! i) I n"
    and "\<not> list_ex (defines_local n) blk"
  shows "0 < errs \<and> (\<forall>f \<in> set (as_fixups out). \<not> resolvable f)"
proof -
  obtain e where e: "run_lines linux asm_enc_init blk = Inr e" "errs = as_errors out"
    "as_fixups out = filter (\<lambda>f. \<not> resolvable f) (as_fixups e)"
    "as_errors out = as_errors e + length (filter (\<lambda>f. resolvable f \<and> find_label (fx_local_num f) (as_labels e) = None) (as_fixups e))"
    by (rule encode_block [OF assms(1,2)])
  have n: "0 \<le> n" using assms(5) by cases (simp_all add: local_target_def)
  have "find_label n (as_labels e) = None"
    using find_label_none [OF e(1) assms(2) n assms(6)] by (simp add: asm_enc_init_def)
  moreover obtain f where "f \<in> set (as_fixups e)" "fx_local_num f = n" "resolvable f"
    using local_branch_run [OF e(1) assms(2-5) refl] by blast
  ultimately have "filter (\<lambda>f. resolvable f \<and> find_label (fx_local_num f) (as_labels e) = None) (as_fixups e) \<noteq> []"
    by (auto simp: filter_empty_conv)
  then show ?thesis using e(2-4) by simp
qed

theorem unresolved_label_reported_witness:
  "\<exists>out errs. asm_encode_arm64 False [instr_line A64MN_B ''b'' [label_operand ''@@7'']] asm_enc_init = Inr (out, errs) \<and> 0 < errs"
proof -
  let ?blk = "[instr_line A64MN_B ''b'' [label_operand ''@@7'']]"
  obtain out errs where out: "asm_encode_arm64 False ?blk asm_enc_init = Inr (out, errs)"
    by (simp add: demo_defs encode_defs digits lengths resolve_defs)
  have "local_branch (?blk ! 0) B 7" by (rule local_branch.b [where l = "label_operand ''@@7''"]; code_simp)
  then show ?thesis
    using unresolved_label_reported [OF out, of 0 B 7] out
    by (auto simp: instr_line_def code_line_def defines_local_def)
qed

section \<open>Encoded or reported\<close>

text \<open>The lines the handlers can read: every label operand has its name. \<^verbatim>\<open>csel\<close> reads the name of whatever its last operand is, and
  \<^verbatim>\<open>uxtb\<close> reads two operands without counting them.\<close>

definition well_named :: "asm_line \<Rightarrow> bool" where
  "well_named ln \<longleftrightarrow> list_all (\<lambda>o1. asm_is_label o1 \<longrightarrow> op_label_name o1 \<noteq> None) (ln_operands ln) \<and>
     (ln_mnemonic_id ln = A64MN_CSEL \<longrightarrow> list_all asm_is_label (drop 3 (ln_operands ln))) \<and>
     (ln_mnemonic_id ln = A64MN_UXTB \<longrightarrow> 2 \<le> length (ln_operands ln))"

definition returns :: "'a result \<Rightarrow> bool" where
  "returns r \<longleftrightarrow> (\<exists>x. r = Inr x)"

lemma returns_Inr [simp]: "returns (Inr x)" "\<not> returns (Inl fault)"
  by (simp_all add: returns_def)

lemma returns_rbind: "returns r \<Longrightarrow> (\<And>x. r = Inr x \<Longrightarrow> returns (f x)) \<Longrightarrow> returns (rbind r f)"
  by (auto simp: returns_def)

lemma returns_if: "(c \<Longrightarrow> returns a) \<Longrightarrow> (\<not> c \<Longrightarrow> returns b) \<Longrightarrow> returns (if c then a else b)"
  by simp

lemma label_fixup_returns: "op_label_name o1 \<noteq> None \<Longrightarrow> returns (label_fixup o1)"
  by (auto simp: label_fixup_def Let_def)

lemma branch_returns:
  assumes "well_named ln"
  shows "returns (aarch64_enc_branch e ln is_bl is_cond cc)"
proof (cases "ln_operands ln")
  case (Cons o1 rest)
  then have "asm_is_label o1 \<longrightarrow> op_label_name o1 \<noteq> None" using assms by (simp add: well_named_def)
  then show ?thesis
    using Cons by (cases rest; cases "op_label_name o1"; simp only: aarch64_enc_branch_def Let_def list.case option.case;
      (intro returns_if)?; simp)
qed (simp add: aarch64_enc_branch_def)

lemma cbz_returns:
  assumes "well_named ln"
  shows "returns (aarch64_enc_cbz_line e ln nz)"
  using assms label_fixup_returns
  by (auto simp: aarch64_enc_cbz_line_def well_named_def Let_def intro!: returns_if returns_rbind split: list.split)

lemma add_sub_returns:
  assumes "well_named ln"
  shows "returns (aarch64_enc_add_sub e ln is_sub)"
  using assms label_fixup_returns
  by (auto simp: aarch64_enc_add_sub_def well_named_def Let_def intro!: returns_if returns_rbind split: list.split prod.split)

lemma system_returns:
  assumes "well_named ln"
  shows "returns (aarch64_enc_barrier_line e ln opc)" "returns (aarch64_enc_mrs_line e ln)" "returns (aarch64_enc_msr e ln)"
    "returns (aarch64_enc_adrp_dispatch e ln)"
  using assms label_fixup_returns
  by (auto simp: aarch64_enc_barrier_line_def aarch64_enc_mrs_line_def aarch64_enc_msr_def aarch64_enc_adrp_dispatch_def
      well_named_def Let_def intro!: returns_if returns_rbind split: list.split option.split prod.split bool.split)

lemma csel_returns:
  assumes "well_named ln" "ln_mnemonic_id ln = A64MN_CSEL"
  shows "returns (aarch64_validate_and_enc_csel e ln)"
  using assms by (auto simp: aarch64_validate_and_enc_csel_def well_named_def intro!: returns_if split: list.split option.split)

lemma uxtb_returns:
  assumes "well_named ln" "ln_mnemonic_id ln = A64MN_UXTB"
  shows "returns (aarch64_enc_uxtb_line e ln)"
  using assms by (auto simp: aarch64_enc_uxtb_line_def well_named_def Let_def split: list.split)

lemma unknown_returns: "well_named ln \<Longrightarrow> returns (aarch64_enc_unknown_line e ln)"
  by (simp add: aarch64_enc_unknown_line_def branch_returns split: option.split)

lemma instr_returns: "well_named ln \<Longrightarrow> returns (aarch64_encode_instr linux e ln)"
  unfolding aarch64_encode_instr_def
  by (cases "ln_mnemonic_id ln")
    (simp_all add: branch_returns cbz_returns add_sub_returns system_returns csel_returns uxtb_returns unknown_returns)

text \<open>
  C28. What an instruction line does, with any operands. If the names and operands that the handlers read are there (a label operand
  has its name, the fourth operand of \<^verbatim>\<open>csel\<close> is a label, \<^verbatim>\<open>uxtb\<close> has two operands), it returns; otherwise it may read
  a null name or past the operands. When it returns, labels and line offsets are as before, and either the code grows by whole
  instruction words and nothing is reported, or an error is counted and code and fixups are as before. The one exception is
  \<^verbatim>\<open>uxtb\<close> with an operand that is not a register, for which an error is counted and one instruction word is emitted all the same.
\<close>

theorem instruction_encoded_or_reported:
  "case aarch64_encode_instr linux e ln of
     Inl fault \<Rightarrow> \<not> well_named ln
   | Inr e' \<Rightarrow> as_labels e' = as_labels e \<and> as_line_offsets e' = as_line_offsets e \<and> as_errors e \<le> as_errors e' \<and>
       (if ln_mnemonic_id ln = A64MN_UXTB \<and> \<not> list_all asm_is_reg (take 2 (ln_operands ln))
        then as_errors e' = as_errors e + 1 \<and> as_fixups e' = as_fixups e \<and>
          (\<exists>bs. code e' = code e @ bs \<and> length bs = 4)
        else if as_errors e' = as_errors e
        then as_log e' = as_log e \<and> (\<exists>bs. code e' = code e @ bs \<and> bs \<noteq> [] \<and> 4 dvd length bs)
        else as_enc e' = as_enc e \<and> as_fixups e' = as_fixups e)"
proof (cases "aarch64_encode_instr linux e ln")
  case (Inl fault)
  then show ?thesis using instr_returns [of ln linux e] by (auto simp: returns_def)
next
  case (Inr e')
  show ?thesis
  proof (cases "ln_mnemonic_id ln = A64MN_UXTB \<and> \<not> list_all asm_is_reg (take 2 (ln_operands ln))")
    case True
    then have "aarch64_enc_uxtb_line e ln = Inr e'" using Inr by (simp add: aarch64_encode_instr_def)
    then obtain rd rn os where "ln_operands ln = rd # rn # os"
      "e' = emit (if asm_is_reg rd \<and> asm_is_reg rn then e else asm_err_at e ''uxtb only takes registers'')
        (\<lambda>b. aarch64_enc_uxtb b 0 (regn rd) (regn rn))"
      by (rule uxtb_result) (rule that)
    then have "e' = emit (asm_err_at e ''uxtb only takes registers'') (\<lambda>b. aarch64_enc_uxtb b 0 (regn rd) (regn rn))"
      using True by auto
    then show ?thesis
      using Inr True by (simp add: emit_def aarch64_enc_uxtb_def put_word_bytes Let_def)
  next
    case False
    then have "line_step e e'" using encode_instr_step [OF Inr] by blast
    then show ?thesis using Inr False by (auto simp: line_step_def encoded_def rejected_def adds_words_def)
  qed
qed

lemma directive_returns:
  "list_all (\<lambda>o1. asm_is_label o1 \<longrightarrow> op_label_name o1 \<noteq> None) os \<Longrightarrow> returns (directive_operands e width os)"
proof (induction os arbitrary: e)
  case (Cons o1 os)
  then show ?case using label_fixup_returns by (auto intro!: returns_if returns_rbind)
qed simp

lemma line_returns: "well_named ln \<Longrightarrow> returns (encode_line linux e ln)"
  by (cases "ln_kind ln")
    (auto simp: encode_line_def Let_def instr_returns asm_enc_directive_def well_named_def directive_returns split: option.split)

lemma lines_return: "list_all well_named lns \<Longrightarrow> returns (encode_lines linux e lns)"
  by (induction lns arbitrary: e) (auto intro!: returns_rbind line_returns)

text \<open>
  Assembling a block never dereferences a null pointer nor reads an operand that is not there: when every
  label operand has its name, the fourth operand of a \<^verbatim>\<open>csel\<close> is a label and \<^verbatim>\<open>uxtb\<close> has its two operands, it returns, with the number
  of errors reported.
\<close>

theorem block_never_faults:
  assumes "list_all well_named blk"
  shows "\<exists>out. asm_encode_arm64 linux blk e = Inr (out, as_errors out)"
proof -
  obtain out where "encode_lines linux (e\<lparr>as_line_offsets := []\<rparr>) blk = Inr out"
    using lines_return [OF assms] by (auto simp: returns_def)
  then show ?thesis by (simp add: asm_encode_arm64_def Let_def)
qed

theorem block_never_faults_witness:
  "\<exists>out. asm_encode_arm64 False demo_block asm_enc_init = Inr (out, as_errors out)"
  by (rule block_never_faults) (simp add: demo_block_def demo_defs well_named_def asm_is_label_def)

section \<open>Data directives\<close>

text \<open>
  A local label in a data directive is resolved like a branch: \<^verbatim>\<open>dd @@1; @@1:\<close> stores the distance in instructions, not
  the address of the label.
\<close>

definition data_block :: "asm_line list" where
  "data_block = [(instr_line A64MN_UNKNOWN ''dd'' [label_operand ''@@1''])\<lparr>ln_kind := AINS_DIRECTIVE\<rparr>, label_line 1]"

lemma data_label_patched_as_branch:
  "\<exists>out. asm_encode_arm64 False data_block asm_enc_init = Inr (out, 0) \<and> ae_bytes (as_enc out) = [1, 0, 0, 0]"
proof -
  have "directive_width ''dd'' = 4" by code_simp
  then show ?thesis
    by (simp add: data_block_def demo_defs encode_defs digits resolve_defs asm_enc_directive_def apply_fixup_def patch_word_def
        fixup_rel_words_def s32_def numeral_eq_Suc put_byte_def aarch64_write_word_def aarch64_read_word_def)
qed

end
