(* ===== verification/Spec2Isabelle.thy ===== *)
theory Spec2Isabelle
  imports HashMap_Props HashSet LinkedList AbiHandles Arena IrEval_Sim IrDeadStore IrFuse_Addr IrFrame_Props A64Props A64BlockProps
begin

text \<open>
  Verification development of \<^verbatim>\<open>polyc\<close>, a compiler for HolyC written in C (\<^verbatim>\<open>src/src\<close>).

  \<^bold>\<open>The program.\<close> The compiler reads HolyC (\<^verbatim>\<open>lexer.c\<close>, \<^verbatim>\<open>parser.c\<close>), lowers the syntax tree to an
  intermediate representation (\<^verbatim>\<open>ir.c\<close>, \<^verbatim>\<open>ir-types.c\<close>), optimises it (\<^verbatim>\<open>ir-eval.c\<close>, \<^verbatim>\<open>ir-optimise.c\<close>) and
  generates code for x86-64, AArch64 or LLVM. An assembler of its own (\<^verbatim>\<open>src/src/asm\<close>) encodes the
  AArch64 and x86-64 instructions, patches the branches and disassembles what it produced. All of it rests
  on the containers of \<^verbatim>\<open>containers.c\<close> and \<^verbatim>\<open>list.c\<close>, on the arena allocator of \<^verbatim>\<open>arena.c\<close>, and the parts
  compiled by the compiler itself see host objects through the opaque handles of \<^verbatim>\<open>abi-cpa-host.c\<close>.

  \<^bold>\<open>Theories and the code they model.\<close>
  \<^item> \<open>Prelude\<close>: the machine types, the result type of code that can fault, shared lemmas.
  \<^item> \<open>Vec\<close>: the vectors of \<^verbatim>\<open>containers.c\<close> (\<open>vec\<close> is \<^verbatim>\<open>struct Vec\<close>; the slots of the allocated
    storage are explicit, also the unused ones).
  \<^item> \<open>Murmur\<close>: the string hash of \<^verbatim>\<open>aostr.c\<close>.
  \<^item> \<open>HashMap\<close>, \<open>HashMap_Table\<close>, \<open>HashMap_Round\<close>, \<open>HashMap_Correct\<close>, \<open>HashMap_Iter\<close>, \<open>HashMap_Tomb\<close>,
    \<open>HashMap_Props\<close>: the open-addressing map of \<^verbatim>\<open>containers.c\<close> with its insertion-order index, tombstones, cache and parent
    chain. The locale of \<open>HashMap_Table\<close> states what probing needs of a key type and is interpreted for the
    integer and the string keys of the code. \<open>HashMap_Tomb\<close> treats the maps that hold tombstones by way of the map without
    them, and removal.
  \<^item> \<open>HashSet\<close>: the set of the same file and its set operations.
  \<^item> \<open>LinkedList\<close>: \<^verbatim>\<open>list.c\<close> on an explicit heap of nodes, so that freed nodes and aliasing are visible.
  \<^item> \<open>AbiHandles\<close>: the slot table and the tokens of \<^verbatim>\<open>abi-cpa-host.c\<close>, at their bit widths, with the
    inductive runs of issue and release.
  \<^item> \<open>Arena\<close>: \<^verbatim>\<open>arena.c\<close>; addresses are block and offset, offsets are 32-bit words as in the code.
  \<^item> \<open>IrTypes\<close>, \<open>IrEval\<close>, \<open>IrEval_Refine\<close>, \<open>IrEval_Correct\<close>, \<open>IrEval_Sim\<close>: the data of \<^verbatim>\<open>ir-types.c\<close> and the
    constant folding pass of \<^verbatim>\<open>ir-eval.c\<close>, over the model of the hash map the pass uses; \<open>IrEval_Refine\<close>
    replaces that map by a function and \<open>IrEval_Sim\<close> gives the instructions a meaning and
    proves that the pass keeps it.
  \<^item> \<open>IrRegAlloc\<close>, \<open>IrRegAlloc_Correct\<close>, \<open>IrRegAlloc_Props\<close>: the stack slots of \<^verbatim>\<open>ir-regalloc.c\<close>: live ranges, linear scan and the
    buffers of allocas (\<open>ra_ctx\<close> is \<^verbatim>\<open>IrRaCtx\<close>; \<^verbatim>\<open>qsort\<close> is an argument), what they guarantee, and execution from the slots.
  \<^item> \<open>IrFrame\<close>, \<open>IrFrame_Props\<close>: the layout of parameters and locals of the same file and the frame that
    \<^verbatim>\<open>irFunctionPrepForCodeGen\<close> of \<^verbatim>\<open>ir.c\<close> puts together.
  \<^item> \<open>IrOptimise\<close>, \<open>IrForward\<close>, \<open>IrDeadCode\<close>, \<open>IrDeadStore\<close>: passes of \<^verbatim>\<open>ir-optimise.c\<close>: removal of NOPs, forwarding of
    stored values, dead code and dead stores; use counts are partial functions, the register pool and the locations a context
    record. The other three theories prove them against the meaning \<open>IrEval_Sim\<close> gives the instructions.
  \<^item> \<open>IrFuse\<close>, \<open>IrFuse_Props\<close>, \<open>IrFuse_Rmw\<close>, \<open>IrFuse_Addr\<close>: the two fusion passes of \<^verbatim>\<open>ir-optimise.c\<close> and the loop over them. A pointer to
    an instruction is its position (block, index); \<open>same\<close>, the comparison of two pointers to values, is an argument.
    \<open>IrFuse_Props\<close> gives the instructions a meaning with bytes and widths of accesses, the other two prove the passes against it.
  \<^item> \<open>A64Enc\<close>: the code buffer of \<^verbatim>\<open>asm_enc.c\<close> and the word encoders and patchers of \<^verbatim>\<open>enc_arm64.c\<close>.
  \<^item> \<open>A64Text\<close>, \<open>A64Dis\<close>: bit fields, the printf conversions, and every decoder of \<^verbatim>\<open>dis_arm64.c\<close>, its pattern
    table and the listing.
  \<^item> \<open>A64Names\<close>: the name tables and the system register parser of \<^verbatim>\<open>enc_arm64.c\<close>.
  \<^item> \<open>A64Line\<close>: the assembler lines and operands of \<^verbatim>\<open>asm.h\<close> and the state of the encoder (\<open>asm_state\<close> is \<^verbatim>\<open>struct AsmEnc\<close>:
    buffer, labels, fixups, line offsets, errors), with the functions of \<^verbatim>\<open>asm_enc.c\<close>.
  \<^item> \<open>A64Handlers\<close>, \<open>A64Encode\<close>: the handler of every mnemonic of \<^verbatim>\<open>enc_arm64.c\<close>, its checks and messages, the
    emitters of the JIT, the encoding of a block and the resolution of its local labels.
  \<^item> \<open>A64LineStep\<close>, \<open>A64Block\<close>, \<open>A64BlockProps\<close>: what one line does, what a run of lines leaves behind, and the properties of
    assembled blocks.
  \<^item> \<open>A64Len\<close>, \<open>A64Table\<close>, \<open>A64RoundInt\<close>, \<open>A64RoundMem\<close>, \<open>A64RoundFp\<close>, \<open>A64RoundCtl\<close>, \<open>A64Prog\<close>, \<open>A64MovImm\<close>,
    \<open>A64Props\<close>: their properties.

  \<^bold>\<open>What is shown.\<close>
  \<^item> Containers: insertion, lookup, removal, resizing, iteration and merging against the abstract map (the
    bindings) and the insertion order. Insertion, lookup, resizing, clearing and merging keep a map well-formed;
    \<^verbatim>\<open>mapRemove\<close> and \<^verbatim>\<open>setRemove\<close> need not: a removal keeps the shape of the table (\<open>map_shape\<close>), and it keeps
    the map well-formed, with a tombstone (\<open>map_ok\<close>), only if no other key's lookup passes the slot. Insertion and lookup are proved for maps with
    such tombstones, which insertion reuses and resizing drops. Where the code departs from the contract of a container the departure is a
    theorem: a removal loses exactly the keys whose lookup passes the removed slot, merging an empty list leaves a dangling link,
    \<^verbatim>\<open>setCopy\<close> returns an empty set.
  \<^item> Arena and handles: live allocations never overlap; a released token is never accepted again whatever
    is issued afterwards; a live one keeps resolving through any run until a token with its slot and generation is retired.
  \<^item> Constant folding: the pass is a simulation on straight-line code that assigns each temporary once and overwrites no
    forwarded variable; it keeps the faults, the memory and the values of the instructions; the folded arithmetic is exact at 64 bits.
  \<^item> Optimiser: dead code and dead store elimination keep the faults and what can still be observed, and dead code elimination ends
    with nothing left to remove. Forwarding stored values keeps the program if no forwarded variable is overwritten;
    without that proviso it does not, and the loop body of \<^verbatim>\<open>Gcd\<close> in \<^verbatim>\<open>holyc-lib/math.HC\<close> is the theorem's example. Execution is that of
    straight-line code: the passes look at one instruction list at a time and at whole-function counts.
  \<^item> Fusion: the loop ends at a fixed point without fuel. A fused load, operation and store does the same if the operands have
    the width of the result; \<open>*p &= 255\<close> through a pointer to a 32-bit integer shows that the proviso is needed. An
    addition folded into an address does the same if its operands keep their values from there on; \<open>p->next = p = q\<close> shows
    that this is needed as well. Functions run as the concatenation of their blocks; what is neither arithmetic nor
    an access of memory is a parameter (\<open>fm_other\<close>).
  \<^item> Stack slots: temporaries share a slot only when one is dead before the other is born, straight-line code
    computes the same from the slots as from registers, the number of slots is the least possible, every
    reference finds a place, and nothing in the frame overlaps. Positions are those of emission: a temporary that
    is carried around a loop is live, for the code as for the model, from its first reference to its last in that
    order. The size of a frame of more than 65520 bytes is truncated to 16 bits and is less than what the frame holds.
  \<^item> AArch64: a program of encoder calls disassembles to itself, line by line; patching a branch is the same
    as assembling it with its final distance; the sequence for a wide immediate loads that immediate;
    the decoding table has one decoder per word (locale \<open>decode_table\<close>), every line fits its buffer, names
    printed are names read; the pair encoder refuses exactly what cannot be encoded.
  \<^item> Assembler blocks: a line is encoded or reported, and both only for \<^verbatim>\<open>uxtb\<close> with an operand that is not a register; the line
    offsets are those of the lines; a branch to a local label whose distance fits the instruction is disassembled with that distance; a
    missing label is reported. Blocks may hold data directives of whole words without labels. When label operands have names, the fourth operand of
    \<^verbatim>\<open>csel\<close> is a label and \<^verbatim>\<open>uxtb\<close> has two operands, the encoder never dereferences a null name nor reads past the operands.

  \<^bold>\<open>Conventions.\<close> A null dereference, an access out of bounds and a failed assertion are errors of a sum type;
  \<^verbatim>\<open>malloc\<close> failure is an argument where the code tests for it. Loops are structural recursion, or carry a
  termination proof (\<open>disasm_lines\<close>), or fuel bounded by the capacity of the table that is probed: a
  probe that has seen every slot would go round for ever in the code, and the theorems show that the
  fuel is never exhausted on well-formed tables. Function pointers (comparison, hash, release) are record fields, as in the
  code.

  \<^bold>\<open>Not modelled.\<close> The front end (lexer, parser, syntax tree), the lowering to IR, the code generators, and the
  optimisation passes that rewrite the control flow graph, fold global accesses, forward the return slot, fuse compares with
  branches or pin results; the parser of assembly text with
  its mnemonic table, and the x86-64 encoder: they are the next components to model. Printing to files, process control, the
  language server, the LLVM back end (which prints text for an external tool) and the vendored line
  editor are outside the model.
\<close>

end
